(* ===== verification/Prelude.thy ===== *)
theory Prelude
  imports Main "HOL-Library.Word"
begin

text \<open>
  Shared vocabulary of the development: the range of \<open>std::size_t\<close>, bounds-checked
  reads of arrays and vectors (a read the code makes outside a vector is the value
  \<open>None\<close>, never an arbitrary element), the word types of the code, and the
  list facts and fact collections the component theories use.
\<close>

unbundle bit_operations_syntax

section \<open>Machine types\<close>

type_synonym u8 = "8 word"
type_synonym i64 = "64 word"
type_synonym u64 = "64 word"
type_synonym address = "64 word"
type_synonym bytes = string

text \<open>Every supported target has a 64-bit \<open>std::size_t\<close>; sizes are naturals, and each
  sum or product the code guards against overflow is guarded in the model by the same test.\<close>

definition size_max :: nat where
  "size_max = 2 ^ 64 - 1"

section \<open>Bounds-checked reads\<close>

definition at :: "'a list \<Rightarrow> nat \<Rightarrow> 'a option" where
  "at xs i = (if i < length xs then Some (xs ! i) else None)"

lemma at_Some_iff: "at xs i = Some x \<longleftrightarrow> i < length xs \<and> xs ! i = x"
  by (auto simp: at_def)

lemma at_None_iff: "at xs i = None \<longleftrightarrow> length xs \<le> i"
  by (auto simp: at_def)

lemma at_in_range [simp]: "i < length xs \<Longrightarrow> at xs i = Some (xs ! i)"
  by (simp add: at_def)

lemma at_append_left: "i < length xs \<Longrightarrow> at (xs @ ys) i = at xs i"
  by (simp add: at_def nth_append)

lemma at_append_right: "at (xs @ ys) (length xs + i) = at ys i"
  by (simp add: at_def)

lemma at_append_mono: "at xs i = Some x \<Longrightarrow> at (xs @ ys) i = Some x"
  by (auto simp: at_def nth_append split: if_splits)

section \<open>Lists\<close>

lemma map_at_range:
  "n + k \<le> length xs \<Longrightarrow> map (\<lambda>i. xs ! (n + i)) [0..<k] = take k (drop n xs)"
  by (rule nth_equalityI) auto

lemma nth_append_length_cases:
  "i < length xs + length ys \<Longrightarrow>
     (xs @ ys) ! i = (if i < length xs then xs ! i else ys ! (i - length xs))"
  by (simp add: nth_append)

lemma mset_upt_perm_distinct:
  assumes "distinct xs" "set xs = {..<n}"
  shows "length xs = n"
  using assms distinct_card by fastforce

lemma map_nth_append_range: "map ((!) (xs @ ys)) [length xs ..< length xs + length ys] = ys"
  by (rule nth_equalityI) (simp_all add: nth_append)

lemma length_filter_update:
  assumes "i < length xs" "P (xs ! i)" "\<not> P y"
  shows "length (filter P (xs[i := y])) < length (filter P xs)"
  using assms
proof (induction xs arbitrary: i)
  case (Cons x xs)
  then show ?case by (cases i) auto
qed simp

section \<open>Searching loops\<close>

text \<open>A loop that returns from the function at the first element whose body returns, and two
  pieces of code run one after the other where the first may return.\<close>

fun find_some :: "('a \<Rightarrow> 'b option) \<Rightarrow> 'a list \<Rightarrow> 'b option" where
  "find_some f [] = None"
| "find_some f (x # xs) = (case f x of Some y \<Rightarrow> Some y | None \<Rightarrow> find_some f xs)"

definition or_else :: "'b option \<Rightarrow> 'b option \<Rightarrow> 'b option" where
  "or_else a b = (case a of Some y \<Rightarrow> Some y | None \<Rightarrow> b)"

lemma find_some_None_iff: "find_some f xs = None \<longleftrightarrow> (\<forall>x \<in> set xs. f x = None)"
  by (induction xs) (auto split: option.splits)

lemma find_some_Some: "find_some f xs = Some y \<Longrightarrow> \<exists>x \<in> set xs. f x = Some y"
  by (induction xs) (auto split: option.splits)

lemma or_else_None_iff [simp]: "or_else a b = None \<longleftrightarrow> a = None \<and> b = None"
  by (cases a) (simp_all add: or_else_def)

lemma or_else_Some: "or_else a b = Some y \<Longrightarrow> a = Some y \<or> b = Some y"
  by (cases a) (simp_all add: or_else_def)

section \<open>Fact collections\<close>

named_theorems host_array_rules \<open>behaviour of host arrays in terms of their contents\<close>
named_theorems arena_rules \<open>decoding of type arenas\<close>
named_theorems binary64_rules \<open>bit-level facts about binary64 values\<close>
named_theorems token_rules \<open>facts about scanned tokens\<close>
named_theorems parser_rules \<open>preservation of the parser invariant\<close>

end
