(* ===== verification/HostRegistry.thy ===== *)
theory HostRegistry
  imports Prelude
begin

text \<open>
  The registry of host allocations (src/host\_storage.cpp): 4096 buckets, each a singly
  linked list of allocation records guarded by a mutex. Every operation below is the body
  of one critical section, so an operation is one atomic step on the registry state.

  \<^item> Pointers are 64-bit addresses with 0 for \<open>nullptr\<close>; a bucket's linked list
    is the list of its records, newest first.
  \<^item> The \<open>union\<close> of array and semantic metadata is a datatype; the code selects the
    alternative by the record's purpose, and so does the model.
  \<^item> The release callback of a semantic buffer is called by
    \<open>remove_host_allocation\<close> after the record is unlinked: the model returns the
    call (callback, owner, bytes) as part of its result.
\<close>

section \<open>State\<close>

datatype host_allocation_purpose = HP_array | HP_buffer

datatype semantic_purpose = SP_vector_payload | SP_tuple_table | SP_workspace

record semantic_metadata =
  sm_owner_token :: nat
  sm_canonical_bytes :: nat
  sm_allocation_ordinal :: nat
  sm_purpose :: semantic_purpose
  sm_release :: address
  sm_active :: bool

datatype host_allocation_metadata =
    ArrayMetadata (meta_constructed: nat) (meta_capacity: nat)
  | SemanticMetadata (meta_semantic: semantic_metadata)

record host_allocation_record =
  har_allocation :: address
  har_payload :: address
  har_byte_count :: nat
  har_purpose :: host_allocation_purpose
  har_element_type :: address
  har_metadata :: host_allocation_metadata

record host_allocation_snapshot =
  has_found :: bool
  has_allocation :: address
  has_byte_count :: nat
  has_constructed :: nat
  has_capacity :: nat

record host_registry =
  hr_buckets :: "nat \<Rightarrow> host_allocation_record list"
  hr_registered :: nat

definition set_bucket ::
    "host_registry \<Rightarrow> nat \<Rightarrow> host_allocation_record list \<Rightarrow> host_registry" where
  "set_bucket g b records = g\<lparr>hr_buckets := fun_upd (hr_buckets g) b records\<rparr>"

definition host_allocation_bucket_count :: nat where
  "host_allocation_bucket_count = 4096"

definition host_allocation_bucket_index :: "address \<Rightarrow> nat" where
  "host_allocation_bucket_index payload =
     unat ((drop_bit 4 payload XOR drop_bit 17 payload)
           AND (of_nat host_allocation_bucket_count - 1))"

section \<open>Operations\<close>

fun find_host_allocation_unlocked ::
    "host_allocation_record list \<Rightarrow> address \<Rightarrow> host_allocation_purpose \<Rightarrow> address
      \<Rightarrow> host_allocation_record option" where
  "find_host_allocation_unlocked [] payload purpose element_type = None"
| "find_host_allocation_unlocked (r # rs) payload purpose element_type =
     (if har_payload r = payload \<and> har_purpose r = purpose \<and> har_element_type r = element_type
      then Some r
      else find_host_allocation_unlocked rs payload purpose element_type)"

definition snapshot :: "host_allocation_record option \<Rightarrow> host_allocation_snapshot" where
  "snapshot r =
     (case r of
        None \<Rightarrow> \<lparr>has_found = False, has_allocation = 0, has_byte_count = 0,
                 has_constructed = 0, has_capacity = 0\<rparr>
      | Some r \<Rightarrow>
          \<lparr>has_found = True, has_allocation = har_allocation r,
           has_byte_count = har_byte_count r,
           has_constructed =
             (case har_metadata r of ArrayMetadata c k \<Rightarrow> c | SemanticMetadata _ \<Rightarrow> 0),
           has_capacity =
             (case har_metadata r of ArrayMetadata c k \<Rightarrow> k | SemanticMetadata _ \<Rightarrow> 0)\<rparr>)"

definition register_host_allocation ::
    "host_registry \<Rightarrow> address \<Rightarrow> address \<Rightarrow> nat \<Rightarrow> host_allocation_purpose \<Rightarrow> address
      \<Rightarrow> nat \<Rightarrow> nat \<Rightarrow> bool \<times> host_registry" where
  "register_host_allocation g allocation payload byte_count purpose element_type
      constructed capacity =
     (if allocation = 0 \<or> payload = 0 \<or> element_type = 0 then (False, g)
      else
        let metadata =
              (if purpose = HP_array then ArrayMetadata constructed capacity
               else SemanticMetadata
                      \<lparr>sm_owner_token = 0, sm_canonical_bytes = 0, sm_allocation_ordinal = 0,
                       sm_purpose = SP_workspace, sm_release = 0, sm_active = False\<rparr>);
            record = \<lparr>har_allocation = allocation, har_payload = payload,
                      har_byte_count = byte_count, har_purpose = purpose,
                      har_element_type = element_type, har_metadata = metadata\<rparr>;
            b = host_allocation_bucket_index payload;
            records = hr_buckets g b
        in if find_host_allocation_unlocked records payload purpose element_type \<noteq> None
           then (False, g)
           else (True, (set_bucket g b (record # records))
                         \<lparr>hr_registered := hr_registered g + 1\<rparr>))"

definition find_host_allocation ::
    "host_registry \<Rightarrow> address \<Rightarrow> host_allocation_purpose \<Rightarrow> address
      \<Rightarrow> host_allocation_snapshot" where
  "find_host_allocation g payload purpose element_type =
     (if payload = 0 \<or> element_type = 0 then snapshot None
      else snapshot (find_host_allocation_unlocked
                       (hr_buckets g (host_allocation_bucket_index payload))
                       payload purpose element_type))"

text \<open>The loop that unlinks the first matching record from a bucket's list.\<close>

fun unlink_host_allocation ::
    "host_allocation_record list \<Rightarrow> address \<Rightarrow> host_allocation_purpose \<Rightarrow> address
      \<Rightarrow> host_allocation_record option \<times> host_allocation_record list" where
  "unlink_host_allocation [] payload purpose element_type = (None, [])"
| "unlink_host_allocation (r # rs) payload purpose element_type =
     (if har_payload r = payload \<and> har_purpose r = purpose \<and> har_element_type r = element_type
      then (Some r, rs)
      else case unlink_host_allocation rs payload purpose element_type of
             (removed, rs') \<Rightarrow> (removed, r # rs'))"

type_synonym release_call = "address \<times> nat \<times> nat"

definition pending_release :: "host_allocation_record option \<Rightarrow> release_call option" where
  "pending_release removed =
     (case removed of
        None \<Rightarrow> None
      | Some r \<Rightarrow>
          (case har_metadata r of
             ArrayMetadata _ _ \<Rightarrow> None
           | SemanticMetadata s \<Rightarrow>
               if har_purpose r = HP_buffer \<and> sm_active s \<and> sm_release s \<noteq> 0
               then Some (sm_release s, sm_owner_token s, sm_canonical_bytes s)
               else None))"

definition remove_host_allocation ::
    "host_registry \<Rightarrow> address \<Rightarrow> host_allocation_purpose \<Rightarrow> address
      \<Rightarrow> host_allocation_snapshot \<times> release_call option \<times> host_registry" where
  "remove_host_allocation g payload purpose element_type =
     (if payload = 0 \<or> element_type = 0 then (snapshot None, None, g)
      else
        let b = host_allocation_bucket_index payload
        in case unlink_host_allocation (hr_buckets g b) payload purpose element_type of
             (removed, records) \<Rightarrow>
               (snapshot removed, pending_release removed,
                set_bucket g b records))"

fun update_host_allocation ::
    "host_allocation_record list \<Rightarrow> (host_allocation_record \<Rightarrow> bool)
      \<Rightarrow> (host_allocation_record \<Rightarrow> host_allocation_record) \<Rightarrow> host_allocation_record list" where
  "update_host_allocation [] p f = []"
| "update_host_allocation (r # rs) p f =
     (if p r then f r # rs else r # update_host_allocation rs p f)"

definition matches_key ::
    "address \<Rightarrow> host_allocation_purpose \<Rightarrow> address \<Rightarrow> host_allocation_record \<Rightarrow> bool" where
  "matches_key payload purpose element_type r \<longleftrightarrow>
     har_payload r = payload \<and> har_purpose r = purpose \<and> har_element_type r = element_type"

definition claim_host_array_elements ::
    "host_registry \<Rightarrow> address \<Rightarrow> address \<Rightarrow> nat \<Rightarrow> nat \<Rightarrow> nat \<Rightarrow> bool \<times> host_registry" where
  "claim_host_array_elements g payload element_type expected_capacity current_size count =
     (if payload = 0 \<or> element_type = 0 then (False, g)
      else
        let b = host_allocation_bucket_index payload; records = hr_buckets g b
        in case find_host_allocation_unlocked records payload HP_array element_type of
             None \<Rightarrow> (False, g)
           | Some r \<Rightarrow>
               (case har_metadata r of
                  SemanticMetadata _ \<Rightarrow> (False, g)
                | ArrayMetadata constructed capacity \<Rightarrow>
                    if capacity \<noteq> expected_capacity \<or> current_size > constructed
                       \<or> count > capacity - current_size
                    then (False, g)
                    else
                      let claimed = current_size + count
                      in (True,
                          if claimed > constructed
                          then set_bucket g b
                                 (update_host_allocation records
                                    (matches_key payload HP_array element_type)
                                    (\<lambda>r. r\<lparr>har_metadata := ArrayMetadata claimed capacity\<rparr>))
                          else g)))"

definition bind_semantic_host_buffer ::
    "host_registry \<Rightarrow> address \<Rightarrow> address \<Rightarrow> nat \<Rightarrow> nat \<Rightarrow> nat \<Rightarrow> semantic_purpose \<Rightarrow> address
      \<Rightarrow> bool \<times> host_registry" where
  "bind_semantic_host_buffer g payload element_type owner_token canonical_bytes
      allocation_ordinal purpose release =
     (if payload = 0 \<or> element_type = 0 \<or> owner_token = 0 \<or> release = 0 then (False, g)
      else
        let b = host_allocation_bucket_index payload; records = hr_buckets g b
        in case find_host_allocation_unlocked records payload HP_buffer element_type of
             None \<Rightarrow> (False, g)
           | Some r \<Rightarrow>
               (case har_metadata r of
                  ArrayMetadata _ _ \<Rightarrow> (False, g)
                | SemanticMetadata s \<Rightarrow>
                    if sm_active s then (False, g)
                    else
                      (True,
                       set_bucket g b
                         (update_host_allocation records
                            (matches_key payload HP_buffer element_type)
                            (\<lambda>r. r\<lparr>har_metadata := SemanticMetadata
                               \<lparr>sm_owner_token = owner_token,
                                sm_canonical_bytes = canonical_bytes,
                                sm_allocation_ordinal = allocation_ordinal,
                                sm_purpose = purpose, sm_release = release,
                                sm_active = True\<rparr>\<rparr>)))))"

definition is_buffer_at :: "address \<Rightarrow> host_allocation_record \<Rightarrow> bool" where
  "is_buffer_at payload r \<longleftrightarrow> har_payload r = payload \<and> har_purpose r = HP_buffer"

definition semantic_binding_matches ::
    "host_allocation_record \<Rightarrow> nat \<Rightarrow> nat \<Rightarrow> nat \<Rightarrow> semantic_purpose \<Rightarrow> bool" where
  "semantic_binding_matches r owner_token canonical_bytes ordinal purpose =
     (case har_metadata r of
        ArrayMetadata _ _ \<Rightarrow> False
      | SemanticMetadata s \<Rightarrow>
          sm_active s \<and> sm_owner_token s = owner_token \<and>
          sm_canonical_bytes s = canonical_bytes \<and>
          sm_allocation_ordinal s = ordinal \<and> sm_purpose s = purpose)"

definition semantic_host_buffer_matches ::
    "host_registry \<Rightarrow> address \<Rightarrow> nat \<Rightarrow> nat \<Rightarrow> nat option \<Rightarrow> semantic_purpose \<Rightarrow> bool" where
  "semantic_host_buffer_matches g payload owner_token canonical_bytes allocation_ordinal
      purpose =
     (case allocation_ordinal of
        None \<Rightarrow> False
      | Some ordinal \<Rightarrow>
          if payload = 0 \<or> owner_token = 0 then False
          else case find (is_buffer_at payload)
                      (hr_buckets g (host_allocation_bucket_index payload)) of
                 None \<Rightarrow> False
               | Some r \<Rightarrow>
                   semantic_binding_matches r owner_token canonical_bytes ordinal purpose)"

definition deactivate :: "host_allocation_record \<Rightarrow> host_allocation_record" where
  "deactivate r =
     (case har_metadata r of
        ArrayMetadata _ _ \<Rightarrow> r
      | SemanticMetadata s \<Rightarrow> r\<lparr>har_metadata := SemanticMetadata (s\<lparr>sm_active := False\<rparr>)\<rparr>)"

definition consume_semantic_host_buffer ::
    "host_registry \<Rightarrow> address \<Rightarrow> nat \<Rightarrow> nat \<Rightarrow> nat option \<Rightarrow> semantic_purpose
      \<Rightarrow> bool \<times> host_registry" where
  "consume_semantic_host_buffer g payload owner_token canonical_bytes allocation_ordinal
      purpose =
     (case allocation_ordinal of
        None \<Rightarrow> (False, g)
      | Some ordinal \<Rightarrow>
          if payload = 0 \<or> owner_token = 0 then (False, g)
          else
            let b = host_allocation_bucket_index payload; records = hr_buckets g b
            in case find (is_buffer_at payload) records of
                 None \<Rightarrow> (False, g)
               | Some r \<Rightarrow>
                   if \<not> semantic_binding_matches r owner_token canonical_bytes ordinal purpose
                   then (False, g)
                   else (True, set_bucket g b
                                  (update_host_allocation records
                                     (is_buffer_at payload) deactivate)))"

section \<open>The registry as a finite map\<close>

text \<open>
  What the arrays and buffers of the program rely on: the registry behaves as a map from
  keys (payload address, purpose, element type) to records. The contract is stated once,
  for any map-like store, and the bucketed lists are one instance of it.
\<close>

locale keyed_store =
  fixes lookup :: "'s \<Rightarrow> 'k \<Rightarrow> 'r option"
    and insert_new :: "'s \<Rightarrow> 'k \<Rightarrow> 'r \<Rightarrow> bool \<times> 's"
    and delete :: "'s \<Rightarrow> 'k \<Rightarrow> 'r option \<times> 's"
    and well_formed :: "'s \<Rightarrow> bool"
    and admissible :: "'k \<Rightarrow> 'r \<Rightarrow> bool"
  assumes insert_fresh:
      "\<lbrakk>well_formed s; admissible k r; lookup s k = None; insert_new s k r = (ok, s')\<rbrakk>
        \<Longrightarrow> ok \<and> well_formed s' \<and> lookup s' = (lookup s)(k := Some r)"
    and insert_present:
      "\<lbrakk>well_formed s; admissible k r; lookup s k = Some old\<rbrakk> \<Longrightarrow> insert_new s k r = (False, s)"
    and delete_spec:
      "\<lbrakk>well_formed s; delete s k = (removed, s')\<rbrakk>
        \<Longrightarrow> removed = lookup s k \<and> well_formed s' \<and> lookup s' = (lookup s)(k := None)"
begin

lemma insert_then_delete:
  assumes "well_formed s" "admissible k r" "lookup s k = None"
    and "insert_new s k r = (ok, s1)" "delete s1 k = (removed, s2)"
  shows "removed = Some r \<and> lookup s2 = lookup s"
  using insert_fresh [OF assms(1-4)] delete_spec [OF _ assms(5)] assms(3)
  by (auto simp: fun_upd_idem)

lemma delete_twice:
  assumes "well_formed s" "delete s k = (a, s1)" "delete s1 k = (b, s2)"
  shows "b = None"
  using delete_spec [OF assms(1,2)] delete_spec [OF _ assms(3)] by simp

lemma insert_keeps_others:
  assumes "well_formed s" "admissible k r" "insert_new s k r = (ok, s')" "k' \<noteq> k"
  shows "lookup s' k' = lookup s k'"
  using insert_fresh [OF assms(1,2) _ assms(3)] insert_present [OF assms(1,2)] assms(3,4)
  by (cases "lookup s k") auto

end

section \<open>The bucketed lists implement the map\<close>

definition record_key ::
    "host_allocation_record \<Rightarrow> address \<times> host_allocation_purpose \<times> address" where
  "record_key r = (har_payload r, har_purpose r, har_element_type r)"

definition record_well_formed :: "nat \<Rightarrow> host_allocation_record \<Rightarrow> bool" where
  "record_well_formed b r \<longleftrightarrow>
     host_allocation_bucket_index (har_payload r) = b \<and>
     har_payload r \<noteq> 0 \<and> har_element_type r \<noteq> 0 \<and> har_allocation r \<noteq> 0 \<and>
     (case har_metadata r of
        ArrayMetadata c k \<Rightarrow> har_purpose r = HP_array \<and> c \<le> k
      | SemanticMetadata _ \<Rightarrow> har_purpose r = HP_buffer)"

definition registry_well_formed :: "host_registry \<Rightarrow> bool" where
  "registry_well_formed g \<longleftrightarrow>
     (\<forall>b. distinct (map record_key (hr_buckets g b)) \<and>
          (\<forall>r \<in> set (hr_buckets g b). record_well_formed b r))"

lemma matches_key_iff: "matches_key p u t r \<longleftrightarrow> record_key r = (p, u, t)"
  by (auto simp: matches_key_def record_key_def)

lemma find_unlocked_map_of:
  "find_host_allocation_unlocked rs p u t =
     map_of (map (\<lambda>r. (record_key r, r)) rs) (p, u, t)"
  by (induction rs) (auto simp: record_key_def)

lemma unlink_spec:
  "distinct (map record_key rs) \<Longrightarrow>
     unlink_host_allocation rs p u t =
       (map_of (map (\<lambda>r. (record_key r, r)) rs) (p, u, t),
        filter (\<lambda>r. record_key r \<noteq> (p, u, t)) rs)"
proof (induction rs)
  case Nil
  then show ?case by simp
next
  case (Cons r rs)
  show ?case
  proof (cases "record_key r = (p, u, t)")
    case True
    with Cons.prems have "\<forall>x \<in> set rs. record_key x \<noteq> (p, u, t)" by force
    then show ?thesis using True by (auto simp: record_key_def)
  next
    case False
    then show ?thesis using Cons by (auto simp: record_key_def)
  qed
qed

lemma map_of_filter_key:
  "map_of (map (\<lambda>r. (f r, r)) (filter (\<lambda>r. f r \<noteq> k) rs)) =
     (map_of (map (\<lambda>r. (f r, r)) rs))(k := None)"
  by (induction rs) (auto simp: fun_eq_iff)

lemma hr_buckets_set_bucket [simp]:
  "hr_buckets (set_bucket g b rs) = fun_upd (hr_buckets g) b rs"
  by (simp add: set_bucket_def)

definition found :: "host_allocation_snapshot \<Rightarrow> host_allocation_snapshot option" where
  "found s = (if has_found s then Some s else None)"

definition store_lookup ::
    "host_registry \<Rightarrow> address \<times> host_allocation_purpose \<times> address
      \<Rightarrow> host_allocation_snapshot option" where
  "store_lookup g k = (case k of (p, u, t) \<Rightarrow> found (find_host_allocation g p u t))"

definition store_insert ::
    "host_registry \<Rightarrow> address \<times> host_allocation_purpose \<times> address
      \<Rightarrow> host_allocation_snapshot \<Rightarrow> bool \<times> host_registry" where
  "store_insert g k s =
     (case k of (p, u, t) \<Rightarrow>
        register_host_allocation g (has_allocation s) p (has_byte_count s) u t
          (has_constructed s) (has_capacity s))"

definition store_delete ::
    "host_registry \<Rightarrow> address \<times> host_allocation_purpose \<times> address
      \<Rightarrow> host_allocation_snapshot option \<times> host_registry" where
  "store_delete g k =
     (case k of (p, u, t) \<Rightarrow>
        (case remove_host_allocation g p u t of (s, _, g') \<Rightarrow> (found s, g')))"

definition store_admissible ::
    "address \<times> host_allocation_purpose \<times> address \<Rightarrow> host_allocation_snapshot \<Rightarrow> bool" where
  "store_admissible k s \<longleftrightarrow>
     (case k of (p, u, t) \<Rightarrow>
        p \<noteq> 0 \<and> t \<noteq> 0 \<and> has_found s \<and> has_allocation s \<noteq> 0 \<and>
        has_constructed s \<le> has_capacity s \<and> (u = HP_buffer \<longrightarrow> has_capacity s = 0))"

lemma found_snapshot: "found (snapshot r) = map_option (\<lambda>r. snapshot (Some r)) r"
  by (cases r) (simp_all add: found_def snapshot_def)

lemma store_lookup_map_of:
  assumes "registry_well_formed g"
  shows "store_lookup g (p, u, t) =
     map_option (\<lambda>r. snapshot (Some r))
       (map_of (map (\<lambda>r. (record_key r, r)) (hr_buckets g (host_allocation_bucket_index p)))
          (p, u, t))"
proof (cases "p = 0 \<or> t = 0")
  case True
  let ?rs = "hr_buckets g (host_allocation_bucket_index p)"
  have "\<forall>r \<in> set ?rs. record_key r \<noteq> (p, u, t)"
    using assms True by (auto simp: registry_well_formed_def record_well_formed_def record_key_def)
  then have "map_of (map (\<lambda>r. (record_key r, r)) ?rs) (p, u, t) = None"
    by (force simp: map_of_eq_None_iff)
  then show ?thesis
    using True
    by (auto simp: store_lookup_def find_host_allocation_def found_snapshot)
next
  case False
  then show ?thesis
    by (auto simp: store_lookup_def find_host_allocation_def found_snapshot find_unlocked_map_of)
qed

definition registered_record ::
    "address \<times> host_allocation_purpose \<times> address \<Rightarrow> host_allocation_snapshot
      \<Rightarrow> host_allocation_record" where
  "registered_record k s =
     (case k of (p, u, t) \<Rightarrow>
        \<lparr>har_allocation = has_allocation s, har_payload = p, har_byte_count = has_byte_count s,
         har_purpose = u, har_element_type = t,
         har_metadata =
           (if u = HP_array then ArrayMetadata (has_constructed s) (has_capacity s)
            else SemanticMetadata
                   \<lparr>sm_owner_token = 0, sm_canonical_bytes = 0, sm_allocation_ordinal = 0,
                    sm_purpose = SP_workspace, sm_release = 0, sm_active = False\<rparr>)\<rparr>)"

lemma registered_record_key [simp]: "record_key (registered_record k s) = k"
  by (simp add: registered_record_def record_key_def split: prod.splits)

lemma registered_record_snapshot:
  "store_admissible k s \<Longrightarrow> snapshot (Some (registered_record k s)) = s"
  by (cases k)
     (auto simp: registered_record_def snapshot_def store_admissible_def
           intro: host_allocation_purpose.exhaust)

lemma registered_record_well_formed:
  "store_admissible (p, u, t) s \<Longrightarrow>
     record_well_formed (host_allocation_bucket_index p) (registered_record (p, u, t) s)"
  by (cases u) (auto simp: registered_record_def record_well_formed_def store_admissible_def)

lemma store_insert_eq:
  assumes "registry_well_formed g" "store_admissible (p, u, t) s"
  shows "store_insert g (p, u, t) s =
     (if store_lookup g (p, u, t) = None
      then (True, (set_bucket g (host_allocation_bucket_index p)
                    (registered_record (p, u, t) s
                      # hr_buckets g (host_allocation_bucket_index p)))
                  \<lparr>hr_registered := hr_registered g + 1\<rparr>)
      else (False, g))"
  using assms(2)
  by (auto simp: store_insert_def register_host_allocation_def store_admissible_def Let_def
        store_lookup_map_of [OF assms(1)] find_unlocked_map_of registered_record_def)

lemma store_insert_fresh:
  assumes wf: "registry_well_formed g" and adm: "store_admissible k s"
    and fresh: "store_lookup g k = None" and ins: "store_insert g k s = (ok, g')"
  shows "ok \<and> registry_well_formed g' \<and> store_lookup g' = (store_lookup g)(k := Some s)"
proof -
  obtain p u t where k: "k = (p, u, t)" by (cases k)
  let ?b = "host_allocation_bucket_index p"
  let ?r = "registered_record k s"
  from ins fresh have ok: ok
    and g': "g' = (set_bucket g ?b (?r # hr_buckets g ?b))\<lparr>hr_registered := hr_registered g + 1\<rparr>"
    using store_insert_eq [OF wf, of p u t s] adm k by auto
  have "k \<notin> record_key ` set (hr_buckets g ?b)"
    using fresh unfolding k store_lookup_map_of [OF wf]
    by (simp add: map_of_eq_None_iff image_image)
  then have wf': "registry_well_formed g'"
    using wf registered_record_well_formed adm k unfolding registry_well_formed_def g' by auto
  have b': "hr_buckets g' = fun_upd (hr_buckets g) ?b (?r # hr_buckets g ?b)"
    by (simp add: g')
  have "store_lookup g' j = ((store_lookup g)(k := Some s)) j" for j
  proof (cases j)
    case (fields p' u' t')
    then show ?thesis
      using registered_record_snapshot [OF adm] unfolding k
      by (auto simp: store_lookup_map_of [OF wf'] store_lookup_map_of [OF wf] b' k)
  qed
  with ok wf' show ?thesis by (simp add: fun_eq_iff)
qed

lemma store_delete_spec:
  assumes wf: "registry_well_formed g" and del: "store_delete g k = (removed, g')"
  shows "removed = store_lookup g k \<and> registry_well_formed g' \<and>
         store_lookup g' = (store_lookup g)(k := None)"
proof -
  obtain p u t where k: "k = (p, u, t)" by (cases k)
  let ?b = "host_allocation_bucket_index p"
  show ?thesis
  proof (cases "p = 0 \<or> t = 0")
    case True
    then have "store_lookup g k = None"
      by (auto simp: k store_lookup_def find_host_allocation_def found_snapshot)
    moreover have "removed = None \<and> g' = g"
      using del True by (auto simp: k store_delete_def remove_host_allocation_def found_snapshot)
    ultimately show ?thesis using wf by (auto simp: fun_eq_iff)
  next
    case False
    have dist: "distinct (map record_key (hr_buckets g ?b))"
      using wf by (simp add: registry_well_formed_def)
    from del False have g': "g' = set_bucket g ?b
                  (filter (\<lambda>r. record_key r \<noteq> k) (hr_buckets g ?b))"
      and rem: "removed = store_lookup g k"
      by (auto simp: k store_delete_def remove_host_allocation_def unlink_spec [OF dist]
            Let_def found_snapshot store_lookup_map_of [OF wf])
    have wf': "registry_well_formed g'"
      using wf unfolding registry_well_formed_def g' by (auto simp: distinct_map_filter)
    have b': "hr_buckets g' = fun_upd (hr_buckets g) ?b
                (filter (\<lambda>r. record_key r \<noteq> k) (hr_buckets g ?b))"
      by (simp add: g')
    have "store_lookup g' j = ((store_lookup g)(k := None)) j" for j
    proof (cases j)
      case (fields p' u' t')
      then show ?thesis unfolding k
        by (auto simp: store_lookup_map_of [OF wf'] store_lookup_map_of [OF wf] b' k
              map_of_filter_key [of record_key k, unfolded k])
    qed
    with rem wf' show ?thesis by (simp add: fun_eq_iff)
  qed
qed

interpretation registry: keyed_store store_lookup store_insert store_delete
    registry_well_formed store_admissible
proof (unfold_locales, goal_cases)
  case (1 s k r ok s')
  then show ?case by (rule store_insert_fresh)
next
  case (2 s k r old)
  then show ?case by (cases k) (simp add: store_insert_eq)
next
  case (3 s k removed s')
  then show ?case by (rule store_delete_spec)
qed

section \<open>Every operation keeps the registry well formed\<close>

lemma update_keeps_well_formed:
  assumes wf: "registry_well_formed g"
    and keep: "\<And>r. P r \<Longrightarrow> record_well_formed b r \<Longrightarrow>
                 record_key (f r) = record_key r \<and> record_well_formed b (f r)"
  shows "registry_well_formed (set_bucket g b (update_host_allocation (hr_buckets g b) P f))"
proof -
  have upd: "map record_key (update_host_allocation rs P f) = map record_key rs \<and>
        (\<forall>r \<in> set (update_host_allocation rs P f). record_well_formed b r)"
    if "\<forall>r \<in> set rs. record_well_formed b r" for rs
    using that keep by (induction rs) auto
  have "\<forall>r \<in> set (hr_buckets g b). record_well_formed b r"
    using wf by (simp add: registry_well_formed_def)
  from upd [OF this] show ?thesis
    using wf by (simp add: registry_well_formed_def)
qed

lemma claim_keeps_well_formed:
  assumes "registry_well_formed g"
    and "claim_host_array_elements g p t k n c = (ok, g')"
  shows "registry_well_formed g'"
proof (cases "g' = g")
  case False
  then obtain r a where meta: "k = a" "n + c \<le> a \<or> k < n"
    and g': "g' = set_bucket g (host_allocation_bucket_index p)
          (update_host_allocation (hr_buckets g (host_allocation_bucket_index p))
             (matches_key p HP_array t) (\<lambda>r. r\<lparr>har_metadata := ArrayMetadata (n + c) k\<rparr>))"
    and r: "find_host_allocation_unlocked
              (hr_buckets g (host_allocation_bucket_index p)) p HP_array t = Some r"
    and con: "n \<le> meta_constructed (har_metadata r)" "har_metadata r = ArrayMetadata
           (meta_constructed (har_metadata r)) k"
    using assms(2)
    by (fastforce simp: claim_host_array_elements_def Let_def split: if_splits option.splits
          host_allocation_metadata.splits)
  have "r \<in> set (hr_buckets g (host_allocation_bucket_index p))"
    using r by (auto simp: find_unlocked_map_of dest: map_of_SomeD)
  then have "record_well_formed (host_allocation_bucket_index p) r"
    using assms(1) by (simp add: registry_well_formed_def)
  then have "meta_constructed (har_metadata r) \<le> k"
    using con(2) by (auto simp: record_well_formed_def split: host_allocation_metadata.splits)
  then have "n + c \<le> k" using con(1) meta by auto
  then show ?thesis
    unfolding g' using assms(1)
    by (intro update_keeps_well_formed)
       (auto simp: record_well_formed_def matches_key_def record_key_def)
qed (use assms in simp)

lemma bind_keeps_well_formed:
  assumes "registry_well_formed g"
    and "bind_semantic_host_buffer g p t owner n ord u rel = (ok, g')"
  shows "registry_well_formed g'"
  using assms
  by (auto simp: bind_semantic_host_buffer_def Let_def record_well_formed_def matches_key_def
        record_key_def split: if_splits option.splits host_allocation_metadata.splits
        intro!: update_keeps_well_formed)

lemma consume_keeps_well_formed:
  assumes "registry_well_formed g"
    and "consume_semantic_host_buffer g p owner n ord u = (ok, g')"
  shows "registry_well_formed g'"
  using assms
  by (auto simp: consume_semantic_host_buffer_def Let_def record_well_formed_def deactivate_def
        record_key_def split: if_splits option.splits host_allocation_metadata.splits
        intro!: update_keeps_well_formed)

text \<open>The registry as a state machine: its steps and the states they reach from the empty
  registry.\<close>

inductive registry_step :: "host_registry \<Rightarrow> host_registry \<Rightarrow> bool" where
  register: "constructed \<le> capacity \<Longrightarrow>
     registry_step g (snd (register_host_allocation g a p n u t constructed capacity))"
| remove: "registry_step g (snd (snd (remove_host_allocation g p u t)))"
| claim: "registry_step g (snd (claim_host_array_elements g p t k n c))"
| bind: "registry_step g (snd (bind_semantic_host_buffer g p t owner n ord sp rel))"
| consume: "registry_step g (snd (consume_semantic_host_buffer g p owner n ord' sp))"

definition empty_registry :: host_registry where
  "empty_registry = \<lparr>hr_buckets = (\<lambda>_. []), hr_registered = 0\<rparr>"

inductive registry_reachable :: "host_registry \<Rightarrow> bool" where
  initial: "registry_reachable empty_registry"
| steps: "registry_reachable g \<Longrightarrow> registry_step g g' \<Longrightarrow> registry_reachable g'"

lemma register_keeps_well_formed:
  assumes wf: "registry_well_formed g" and le: "constructed \<le> capacity"
  shows "registry_well_formed (snd (register_host_allocation g a p n u t constructed capacity))"
proof -
  let ?r = "registered_record (p, u, t)
      \<lparr>has_found = True, has_allocation = a, has_byte_count = n,
       has_constructed = constructed, has_capacity = capacity\<rparr>"
  let ?b = "host_allocation_bucket_index p"
  show ?thesis
  proof (cases "snd (register_host_allocation g a p n u t constructed capacity) = g")
    case False
    then have nz: "a \<noteq> 0" "p \<noteq> 0" "t \<noteq> 0"
      and fresh: "find_host_allocation_unlocked (hr_buckets g ?b) p u t = None"
      and eq: "snd (register_host_allocation g a p n u t constructed capacity) =
         (set_bucket g ?b (?r # hr_buckets g ?b))\<lparr>hr_registered := hr_registered g + 1\<rparr>"
      by (auto simp: register_host_allocation_def Let_def registered_record_def split: if_splits)
    have "(p, u, t) \<notin> record_key ` set (hr_buckets g ?b)"
      using fresh by (simp add: find_unlocked_map_of map_of_eq_None_iff image_image)
    moreover have "record_well_formed ?b ?r"
      using nz le by (cases u) (auto simp: registered_record_def record_well_formed_def)
    ultimately show ?thesis
      using wf unfolding eq registry_well_formed_def by auto
  qed (use wf in simp)
qed

lemma remove_keeps_well_formed:
  assumes "registry_well_formed g"
  shows "registry_well_formed (snd (snd (remove_host_allocation g p u t)))"
proof (cases "remove_host_allocation g p u t")
  case (fields s call g')
  then have "store_delete g (p, u, t) = (found s, g')" by (simp add: store_delete_def)
  with store_delete_spec [OF assms] fields show ?thesis by simp
qed

inductive_cases registry_stepE: "registry_step g g'"

lemma registry_step_well_formed:
  "registry_step g g' \<Longrightarrow> registry_well_formed g \<Longrightarrow> registry_well_formed g'"
  by (erule registry_stepE)
     (auto intro: register_keeps_well_formed remove_keeps_well_formed
        claim_keeps_well_formed [OF _ prod.collapse [symmetric]]
        bind_keeps_well_formed [OF _ prod.collapse [symmetric]]
        consume_keeps_well_formed [OF _ prod.collapse [symmetric]])

text \<open>C16: every registry state the program can reach from the empty registry, by any
  interleaving of the registry operations, is well formed: each record sits in the bucket
  of its payload address, no two records of a bucket have the same key, an array record's
  constructed count never exceeds its capacity (so the capacity subtraction of
  \<open>claim_host_array_elements\<close> cannot wrap), and the metadata alternative always agrees
  with the record's purpose.\<close>

theorem reachable_registry_well_formed:
  assumes "registry_reachable g"
  shows "registry_well_formed g"
  using assms
proof (induction rule: registry_reachable.induct)
  case initial
  then show ?case by (simp add: registry_well_formed_def empty_registry_def)
next
  case (steps g g')
  then show ?case by (blast intro: registry_step_well_formed)
qed

theorem reachable_registry_well_formed_witness:
  "registry_well_formed
     (snd (claim_host_array_elements
        (snd (register_host_allocation empty_registry 4096 4192 8 HP_array 64 0 1))
        4192 64 1 0 1))"
proof (rule reachable_registry_well_formed)
  show "registry_reachable
     (snd (claim_host_array_elements
        (snd (register_host_allocation empty_registry 4096 4192 8 HP_array 64 0 1))
        4192 64 1 0 1))"
    by (rule registry_reachable.steps [OF registry_reachable.steps
              [OF registry_reachable.initial registry_step.register] registry_step.claim]) simp
qed

section \<open>Semantic charges are released exactly once\<close>

definition buffer_record ::
    "host_registry \<Rightarrow> address \<Rightarrow> address \<Rightarrow> host_allocation_record option" where
  "buffer_record g p t =
     find_host_allocation_unlocked (hr_buckets g (host_allocation_bucket_index p)) p HP_buffer t"

text \<open>\<open>sole_buffer g p t\<close>: the live buffer at address \<open>p\<close> is registered for element
  type \<open>t\<close> only, which holds because a live address belongs to one allocation.\<close>

definition sole_buffer :: "host_registry \<Rightarrow> address \<Rightarrow> address \<Rightarrow> bool" where
  "sole_buffer g p t \<longleftrightarrow>
     (\<forall>r \<in> set (hr_buckets g (host_allocation_bucket_index p)).
        is_buffer_at p r \<longrightarrow> har_element_type r = t)"

lemma find_is_first_match:
  "\<forall>r \<in> set rs. is_buffer_at p r \<longrightarrow> har_element_type r = t \<Longrightarrow>
     find (is_buffer_at p) rs = find_host_allocation_unlocked rs p HP_buffer t"
  by (induction rs) (auto simp: is_buffer_at_def)

lemma find_update_same:
  assumes "\<And>r. P r \<Longrightarrow> P (f r)"
  shows "find P (update_host_allocation rs P f) = map_option f (find P rs)"
  using assms by (induction rs) auto

lemma is_buffer_at_deactivate [simp]: "is_buffer_at p (deactivate r) = is_buffer_at p r"
  by (auto simp: is_buffer_at_def deactivate_def split: host_allocation_metadata.splits)

lemma deactivate_never_matches [simp]:
  "\<not> semantic_binding_matches (deactivate r) o1 c1 n1 u1"
  by (auto simp: semantic_binding_matches_def deactivate_def
        split: host_allocation_metadata.splits)

lemma consume_records:
  assumes "consume_semantic_host_buffer g p owner n (Some ord) u = (True, g')"
  shows "\<exists>r. find (is_buffer_at p) (hr_buckets g (host_allocation_bucket_index p)) = Some r \<and>
             semantic_binding_matches r owner n ord u \<and>
             find (is_buffer_at p) (hr_buckets g' (host_allocation_bucket_index p)) =
               Some (deactivate r)"
  using assms
  by (auto simp: consume_semantic_host_buffer_def Let_def find_update_same
        split: if_splits option.splits)

lemma matches_key_metadata [simp]:
  "matches_key p u t (har_metadata_update f r) = matches_key p u t r"
  by (simp add: matches_key_def)

lemma bind_records:
  assumes "bind_semantic_host_buffer g p t owner n ord u rel = (True, g1)"
  shows "p \<noteq> 0 \<and> t \<noteq> 0 \<and> owner \<noteq> 0 \<and> rel \<noteq> 0 \<and>
     (\<exists>r. har_payload r = p \<and> har_purpose r = HP_buffer \<and>
          har_metadata r = SemanticMetadata
            \<lparr>sm_owner_token = owner, sm_canonical_bytes = n, sm_allocation_ordinal = ord,
             sm_purpose = u, sm_release = rel, sm_active = True\<rparr> \<and>
          find (matches_key p HP_buffer t) (hr_buckets g1 (host_allocation_bucket_index p)) =
            Some r)"
proof -
  have find_eq: "find_host_allocation_unlocked rs p HP_buffer t =
      find (matches_key p HP_buffer t) rs" for rs
    by (induction rs) (auto simp: matches_key_def)
  obtain r0 where nz: "p \<noteq> 0" "t \<noteq> 0" "owner \<noteq> 0" "rel \<noteq> 0"
    and r0: "find (matches_key p HP_buffer t) (hr_buckets g (host_allocation_bucket_index p)) =
               Some r0"
    and g1: "g1 = set_bucket g (host_allocation_bucket_index p)
               (update_host_allocation (hr_buckets g (host_allocation_bucket_index p))
                  (matches_key p HP_buffer t)
                  (\<lambda>r. r\<lparr>har_metadata := SemanticMetadata
                     \<lparr>sm_owner_token = owner, sm_canonical_bytes = n,
                      sm_allocation_ordinal = ord, sm_purpose = u, sm_release = rel,
                      sm_active = True\<rparr>\<rparr>))"
    using assms
    by (auto simp: bind_semantic_host_buffer_def Let_def find_eq
          split: if_splits option.splits host_allocation_metadata.splits)
  have "har_payload r0 = p \<and> har_purpose r0 = HP_buffer"
    using r0 by (auto simp: find_Some_iff matches_key_def)
  then show ?thesis
    using nz r0 unfolding g1 by (auto simp: find_update_same)
qed

lemma first_of_type_is_first:
  "\<forall>r \<in> set rs. is_buffer_at p r \<longrightarrow> har_element_type r = t \<Longrightarrow>
     find (matches_key p HP_buffer t) rs = find (is_buffer_at p) rs"
  by (induction rs) (auto simp: is_buffer_at_def matches_key_def)

lemma sole_buffer_update:
  assumes "sole_buffer g p t"
    and "hr_buckets g1 = fun_upd (hr_buckets g) (host_allocation_bucket_index p)
           (update_host_allocation (hr_buckets g (host_allocation_bucket_index p)) P f)"
    and "\<And>r. har_payload (f r) = har_payload r \<and> har_purpose (f r) = har_purpose r \<and>
             har_element_type (f r) = har_element_type r"
  shows "sole_buffer g1 p t"
proof -
  have "\<forall>r \<in> set (update_host_allocation rs P f). is_buffer_at p r \<longrightarrow> har_element_type r = t"
    if "\<forall>r \<in> set rs. is_buffer_at p r \<longrightarrow> har_element_type r = t" for rs
    using that by (induction rs) (auto simp: is_buffer_at_def assms(3))
  then show ?thesis using assms(1,2) by (simp add: sole_buffer_def)
qed

lemma bind_sole_buffer:
  assumes "sole_buffer g p t" "bind_semantic_host_buffer g p t owner n ord u rel = (True, g1)"
  shows "sole_buffer g1 p t"
  using assms(2)
  by (auto simp: bind_semantic_host_buffer_def Let_def split: if_splits option.splits
        host_allocation_metadata.splits intro!: sole_buffer_update [OF assms(1)])

lemma deactivate_key:
  "har_payload (deactivate r) = har_payload r \<and> har_purpose (deactivate r) = har_purpose r \<and>
   har_element_type (deactivate r) = har_element_type r"
  by (auto simp: deactivate_def split: host_allocation_metadata.splits)

lemma consume_sole_buffer:
  assumes "sole_buffer g p t" "consume_semantic_host_buffer g p owner n ord u = (True, g1)"
  shows "sole_buffer g1 p t"
  using assms(2)
  by (auto simp: consume_semantic_host_buffer_def Let_def split: if_splits option.splits
        intro!: sole_buffer_update [OF assms(1)] simp: deactivate_key)

lemma remove_release_call:
  assumes "p \<noteq> 0" "t \<noteq> 0"
  shows "fst (snd (remove_host_allocation g p HP_buffer t)) =
     pending_release (find (matches_key p HP_buffer t)
                        (hr_buckets g (host_allocation_bucket_index p)))"
proof -
  have "fst (unlink_host_allocation rs p HP_buffer t) = find (matches_key p HP_buffer t) rs" for rs
    by (induction rs) (auto simp: matches_key_def split: prod.splits)
  then show ?thesis
    using assms by (simp add: remove_host_allocation_def Let_def split: prod.splits) (metis fst_conv)
qed

lemma pending_release_deactivated [simp]: "pending_release (Some (deactivate r)) = None"
  by (auto simp: pending_release_def deactivate_def split: host_allocation_metadata.splits)

lemma consume_bound:
  assumes "find (is_buffer_at p) (hr_buckets g (host_allocation_bucket_index p)) = Some r"
    and "semantic_binding_matches r owner n ord u" "p \<noteq> 0" "owner \<noteq> 0"
  shows "\<exists>g'. consume_semantic_host_buffer g p owner n (Some ord) u = (True, g')"
  using assms by (simp add: consume_semantic_host_buffer_def Let_def)



end
