(* ===== verification/HostArray.thy ===== *)
theory HostArray
  imports HostRegistry
begin

text \<open>
  Host arrays (include/bennu/host\_storage.hpp): fixed-capacity arrays with explicit
  allocation, allocation-failure injection and structured resource errors.

  \<^item> \<open>array_storage\<close> is the owning pointer with what the registry knows of it:
    null, a pointer the registry does not know, or a registered block with its constructed
    elements and its registered capacity. Size and capacity are separate public fields, as
    in the code, so malformed arrays are representable.
  \<^item> \<open>malloc\<close> is an oracle: the environment answers the n-th request of a given size
    with success or failure; registering a fresh block is part of that answer.
  \<^item> Reading or writing an element that is not constructed is undefined in the code and
    is \<open>None\<close> in the model.
\<close>

section \<open>State\<close>

datatype host_resource_error_reason = HR_none | HR_size_overflow | HR_allocation_unavailable

record host_state =
  fail_at_allocation_ordinal :: "nat option"
  allocation_ordinal :: nat
  max_container_elements :: "nat option"
  malloc_grants :: "nat \<Rightarrow> nat \<Rightarrow> bool"
  malloc_calls :: nat

datatype 'a array_storage =
    NullStorage
  | Unregistered
  | Registered (constructed_elements: "'a list") (registered_capacity: nat)

record 'a host_array =
  array_storage :: "'a array_storage"
  array_size :: nat
  array_capacity :: nat

definition empty_host_array :: "'a host_array" where
  "empty_host_array = \<lparr>array_storage = NullStorage, array_size = 0, array_capacity = 0\<rparr>"

text \<open>Sizes on the supported 64-bit targets: the allocation record that precedes every
  payload, and the element types stored in host arrays.\<close>

definition host_allocation_header_size :: nat where
  "host_allocation_header_size = 96"

definition host_allocation_header_alignment :: nat where
  "host_allocation_header_alignment = 8"

record element_layout =
  element_size :: nat
  element_alignment :: nat

section \<open>Allocation\<close>

definition begin_host_allocation ::
    "host_state \<Rightarrow> host_resource_error_reason \<times> host_state" where
  "begin_host_allocation h =
     (let ordinal = allocation_ordinal h
      in if ordinal = size_max then (HR_allocation_unavailable, h)
         else let h' = h\<lparr>allocation_ordinal := allocation_ordinal h + 1\<rparr>
              in if fail_at_allocation_ordinal h = Some ordinal
                 then (HR_allocation_unavailable, h')
                 else (HR_none, h'))"

definition alignment_slack :: "element_layout \<Rightarrow> nat" where
  "alignment_slack l = max (element_alignment l) host_allocation_header_alignment - 1"

definition host_array_allocation_preflight ::
    "element_layout \<Rightarrow> 'a host_array \<Rightarrow> nat \<Rightarrow> nat option \<Rightarrow> host_resource_error_reason" where
  "host_array_allocation_preflight l array capacity max_elements =
     (if capacity = 0 then HR_none
      else if array_storage array \<noteq> NullStorage \<or> array_size array \<noteq> 0
              \<or> array_capacity array \<noteq> 0 then HR_size_overflow
      else if (case max_elements of None \<Rightarrow> False | Some m \<Rightarrow> capacity > m)
           then HR_size_overflow
      else if capacity > (size_max - host_allocation_header_size - alignment_slack l)
                           div element_size l
           then HR_size_overflow
      else HR_none)"

definition malloc :: "host_state \<Rightarrow> nat \<Rightarrow> bool \<times> host_state" where
  "malloc h n = (malloc_grants h (malloc_calls h) n, h\<lparr>malloc_calls := malloc_calls h + 1\<rparr>)"

definition allocate_host_array_raw ::
    "element_layout \<Rightarrow> host_state \<Rightarrow> 'a host_array \<Rightarrow> nat \<Rightarrow> nat option
      \<Rightarrow> host_resource_error_reason \<times> 'a host_array \<times> host_state" where
  "allocate_host_array_raw l h array capacity max_elements =
     (let preflight = host_array_allocation_preflight l array capacity max_elements
      in if preflight \<noteq> HR_none \<or> capacity = 0 then (preflight, array, h)
         else case malloc h (host_allocation_header_size + alignment_slack l
                             + capacity * element_size l) of
                (False, h') \<Rightarrow> (HR_allocation_unavailable, array, h')
              | (True, h') \<Rightarrow>
                  (HR_none,
                   array\<lparr>array_storage := Registered [] capacity, array_capacity := capacity\<rparr>,
                   h'))"

definition allocate_host_array ::
    "element_layout \<Rightarrow> host_state \<Rightarrow> 'a host_array \<Rightarrow> nat
      \<Rightarrow> host_resource_error_reason \<times> 'a host_array \<times> host_state" where
  "allocate_host_array l h array capacity =
     (let preflight = host_array_allocation_preflight l array capacity
                        (max_container_elements h)
      in if preflight \<noteq> HR_none \<or> capacity = 0 then (preflight, array, h)
         else case begin_host_allocation h of
                (begun, h') \<Rightarrow>
                  if begun \<noteq> HR_none then (begun, array, h')
                  else allocate_host_array_raw l h' array capacity (max_container_elements h'))"

section \<open>Elements\<close>

text \<open>The registry's answer to \<open>claim_host_array_elements\<close> for an array's own pointer,
  and the elements constructed after the claim.\<close>

definition claim_elements :: "'a array_storage \<Rightarrow> nat \<Rightarrow> nat \<Rightarrow> nat \<Rightarrow> bool" where
  "claim_elements st expected_capacity current_size count =
     (case st of
        Registered xs cap \<Rightarrow>
          cap = expected_capacity \<and> current_size \<le> length xs \<and> count \<le> cap - current_size
      | _ \<Rightarrow> False)"

definition construct_at :: "'a array_storage \<Rightarrow> nat \<Rightarrow> 'a \<Rightarrow> 'a array_storage" where
  "construct_at st i x =
     (case st of
        Registered xs cap \<Rightarrow> Registered (take i xs @ [x] @ drop (i + 1) xs) cap
      | _ \<Rightarrow> st)"

definition host_array_push ::
    "'a host_array \<Rightarrow> 'a \<Rightarrow> host_resource_error_reason \<times> 'a host_array" where
  "host_array_push array x =
     (if array_storage array = NullStorage \<or> array_size array \<ge> array_capacity array
      then (HR_size_overflow, array)
      else if \<not> claim_elements (array_storage array) (array_capacity array) (array_size array) 1
      then (HR_size_overflow, array)
      else (HR_none, array\<lparr>array_storage := construct_at (array_storage array) (array_size array) x,
                           array_size := array_size array + 1\<rparr>))"

fun construct_many :: "'a host_array \<Rightarrow> nat \<Rightarrow> 'a \<Rightarrow> 'a host_array" where
  "construct_many array 0 x = array"
| "construct_many array (Suc n) x =
     construct_many
       (array\<lparr>array_storage := construct_at (array_storage array) (array_size array) x,
              array_size := array_size array + 1\<rparr>) n x"

definition host_array_fill ::
    "'a host_array \<Rightarrow> nat \<Rightarrow> 'a \<Rightarrow> host_resource_error_reason \<times> 'a host_array" where
  "host_array_fill array count x =
     (if array_storage array = NullStorage
      then ((if count = 0 \<and> array_size array = 0 \<and> array_capacity array = 0
             then HR_none else HR_size_overflow), array)
      else if \<not> claim_elements (array_storage array) (array_capacity array)
                 (array_size array) count
      then (HR_size_overflow, array)
      else (HR_none, construct_many array count x))"

definition host_array_metadata_valid :: "'a host_array \<Rightarrow> bool" where
  "host_array_metadata_valid array =
     (case array_storage array of
        NullStorage \<Rightarrow> array_size array = 0 \<and> array_capacity array = 0
      | Unregistered \<Rightarrow> False
      | Registered xs cap \<Rightarrow>
          array_capacity array = cap \<and> array_size array \<le> cap \<and> length xs \<le> cap
          \<and> array_size array \<le> length xs)"

definition host_array_has_capacity :: "'a host_array \<Rightarrow> nat \<Rightarrow> bool" where
  "host_array_has_capacity array count \<longleftrightarrow>
     host_array_metadata_valid array \<and> count \<le> array_capacity array - array_size array"

definition host_array_span :: "'a host_array \<Rightarrow> 'a list" where
  "host_array_span array =
     (if \<not> host_array_metadata_valid array then []
      else case array_storage array of
             Registered xs _ \<Rightarrow> take (array_size array) xs
           | _ \<Rightarrow> [])"

definition reset_host_array :: "'a host_array \<Rightarrow> 'a host_array" where
  "reset_host_array array = empty_host_array"

text \<open>\<open>array.storage.get()[i]\<close> as a read and as a write, and \<open>--array.size\<close>.\<close>

definition host_array_at :: "'a host_array \<Rightarrow> nat \<Rightarrow> 'a option" where
  "host_array_at array i =
     (case array_storage array of Registered xs _ \<Rightarrow> at xs i | _ \<Rightarrow> None)"

definition host_array_put :: "'a host_array \<Rightarrow> nat \<Rightarrow> 'a \<Rightarrow> 'a host_array option" where
  "host_array_put array i x =
     (case array_storage array of
        Registered xs cap \<Rightarrow>
          (if i < length xs
           then Some (array\<lparr>array_storage := Registered (xs[i := x]) cap\<rparr>) else None)
      | _ \<Rightarrow> None)"

definition host_array_pop :: "'a host_array \<Rightarrow> 'a host_array" where
  "host_array_pop array = array\<lparr>array_size := array_size array - 1\<rparr>"

text \<open>The loops that push the elements of a sequence one by one and stop at the first
  error.\<close>

fun push_all :: "('arr \<Rightarrow> 'a \<Rightarrow> host_resource_error_reason \<times> 'arr)
      \<Rightarrow> 'arr \<Rightarrow> 'a list \<Rightarrow> host_resource_error_reason \<times> 'arr" where
  "push_all push array [] = (HR_none, array)"
| "push_all push array (x # xs) =
     (case push array x of
        (HR_none, array') \<Rightarrow> push_all push array' xs
      | (e, array') \<Rightarrow> (e, array'))"

section \<open>The interface: bounded sequences\<close>

locale bounded_sequence =
  fixes contents :: "'arr \<Rightarrow> 'a list"
    and limit :: "'arr \<Rightarrow> nat"
    and push :: "'arr \<Rightarrow> 'a \<Rightarrow> host_resource_error_reason \<times> 'arr"
    and valid :: "'arr \<Rightarrow> bool"
  assumes push_room: "\<lbrakk>valid a; length (contents a) < limit a; push a x = (e, a')\<rbrakk> \<Longrightarrow>
      e = HR_none \<and> valid a' \<and> contents a' = contents a @ [x] \<and> limit a' = limit a"
    and push_full: "\<lbrakk>valid a; \<not> length (contents a) < limit a\<rbrakk> \<Longrightarrow>
      push a x = (HR_size_overflow, a)"
begin

lemma push_all_room:
  "\<lbrakk>valid a; length (contents a) + length xs \<le> limit a; push_all push a xs = (e, a')\<rbrakk> \<Longrightarrow>
     e = HR_none \<and> valid a' \<and> contents a' = contents a @ xs \<and> limit a' = limit a"
proof (induction xs arbitrary: a)
  case Nil
  then show ?case by simp
next
  case (Cons x xs)
  obtain e1 a1 where p: "push a x = (e1, a1)" by (cases "push a x")
  have "e1 = HR_none \<and> valid a1 \<and> contents a1 = contents a @ [x] \<and> limit a1 = limit a"
    using push_room [OF Cons.prems(1) _ p] Cons.prems(2) by simp
  then show ?case
    using Cons.IH [of a1] Cons.prems p by simp
qed

lemma push_all_no_room:
  "\<lbrakk>valid a; length (contents a) \<le> limit a; limit a < length (contents a) + length xs;
    push_all push a xs = (e, a')\<rbrakk> \<Longrightarrow>
     e = HR_size_overflow \<and> valid a' \<and>
     contents a' = contents a @ take (limit a - length (contents a)) xs"
proof (induction xs arbitrary: a)
  case Nil
  then show ?case by simp
next
  case (Cons x xs)
  show ?case
  proof (cases "length (contents a) < limit a")
    case True
    obtain e1 a1 where p: "push a x = (e1, a1)" by (cases "push a x")
    have "e1 = HR_none \<and> valid a1 \<and> contents a1 = contents a @ [x] \<and> limit a1 = limit a"
      by (rule push_room [OF Cons.prems(1) True p])
    then show ?thesis
      using Cons.IH [of a1] Cons.prems True p by (simp add: take_Cons' Suc_diff_Suc)
  next
    case False
    then show ?thesis
      using push_full [OF Cons.prems(1) False] Cons.prems by simp
  qed
qed

lemma push_all_succeeds_iff:
  assumes "valid a" "length (contents a) \<le> limit a"
  shows "fst (push_all push a xs) = HR_none \<longleftrightarrow> length (contents a) + length xs \<le> limit a"
proof (cases "push_all push a xs")
  case (Pair e a')
  then show ?thesis
    using push_all_room [OF assms(1) _ Pair] push_all_no_room [OF assms _ Pair]
    by (cases "length (contents a) + length xs \<le> limit a") auto
qed

end

section \<open>Host arrays implement bounded sequences\<close>

text \<open>The arrays the code builds have one shape: \<open>harr xs junk cap\<close> holds the elements
  \<open>xs\<close>, and \<open>junk\<close> are constructed slots above the size that a pop left behind.\<close>

definition harr :: "'a list \<Rightarrow> 'a list \<Rightarrow> nat \<Rightarrow> 'a host_array" where
  "harr xs junk cap =
     (if cap = 0 then empty_host_array
      else \<lparr>array_storage = Registered (xs @ junk) cap, array_size = length xs,
            array_capacity = cap\<rparr>)"

abbreviation fits :: "'a list \<Rightarrow> 'a list \<Rightarrow> nat \<Rightarrow> bool" where
  "fits xs junk cap \<equiv> length xs + length junk \<le> cap"

lemma harr_metadata_valid [host_array_rules]:
  "fits xs junk cap \<Longrightarrow> host_array_metadata_valid (harr xs junk cap)"
  by (auto simp: harr_def host_array_metadata_valid_def empty_host_array_def)

text \<open>A registered block always has a positive capacity: a request for no element
  allocates nothing.\<close>

definition built_array :: "'a host_array \<Rightarrow> bool" where
  "built_array a \<longleftrightarrow> host_array_metadata_valid a \<and> array_storage a \<noteq> Registered [] 0"

lemma harr_built [host_array_rules]: "fits xs junk cap \<Longrightarrow> built_array (harr xs junk cap)"
  using harr_metadata_valid [of xs junk cap]
  by (auto simp: built_array_def harr_def empty_host_array_def)

lemma built_array_is_harr:
  assumes "built_array a"
  shows "\<exists>junk. a = harr (host_array_span a) junk (array_capacity a) \<and>
                fits (host_array_span a) junk (array_capacity a)"
proof (cases "array_storage a")
  case NullStorage
  then show ?thesis
    using assms by (auto simp: built_array_def host_array_metadata_valid_def
        host_array_span_def harr_def empty_host_array_def)
next
  case Unregistered
  then show ?thesis using assms by (simp add: built_array_def host_array_metadata_valid_def)
next
  case (Registered xs cap)
  then show ?thesis
    using assms
    by (cases "cap = 0")
       (auto simp: built_array_def host_array_metadata_valid_def host_array_span_def harr_def
          intro!: exI [of _ "drop (array_size a) xs"])
qed

lemma harr_span [host_array_rules]: "fits xs junk cap \<Longrightarrow> host_array_span (harr xs junk cap) = xs"
  using harr_metadata_valid [of xs junk cap]
  by (auto simp: harr_def host_array_span_def empty_host_array_def)

lemma harr_size [host_array_rules]: "fits xs junk cap \<Longrightarrow> array_size (harr xs junk cap) = length xs"
  by (auto simp: harr_def empty_host_array_def)

lemma harr_capacity [host_array_rules]: "array_capacity (harr xs junk cap) = cap"
  by (auto simp: harr_def empty_host_array_def)

lemma harr_push [host_array_rules]:
  "fits xs junk cap \<Longrightarrow> host_array_push (harr xs junk cap) x =
     (if length xs < cap then (HR_none, harr (xs @ [x]) (tl junk) cap)
      else (HR_size_overflow, harr xs junk cap))"
  by (auto simp: harr_def host_array_push_def empty_host_array_def claim_elements_def
        construct_at_def drop_Suc)

lemma harr_pop [host_array_rules]:
  "fits (xs @ [x]) junk cap \<Longrightarrow> host_array_pop (harr (xs @ [x]) junk cap) = harr xs (x # junk) cap"
  by (auto simp: harr_def host_array_pop_def empty_host_array_def)

lemma harr_at [host_array_rules]:
  "\<lbrakk>fits xs junk cap; i < length xs\<rbrakk> \<Longrightarrow> host_array_at (harr xs junk cap) i = Some (xs ! i)"
  by (auto simp: harr_def host_array_at_def nth_append)

lemma harr_put [host_array_rules]:
  "\<lbrakk>fits xs junk cap; i < length xs\<rbrakk> \<Longrightarrow>
     host_array_put (harr xs junk cap) i x = Some (harr (xs[i := x]) junk cap)"
  by (auto simp: harr_def host_array_put_def list_update_append)

lemma construct_many_harr:
  "length xs + n \<le> cap \<Longrightarrow> cap \<noteq> 0 \<Longrightarrow>
     construct_many (harr xs [] cap) n x = harr (xs @ replicate n x) [] cap"
proof (induction n arbitrary: xs)
  case 0
  then show ?case by simp
next
  case (Suc n)
  have "construct_many (harr xs [] cap) (Suc n) x = construct_many (harr (xs @ [x]) [] cap) n x"
    using Suc.prems by (simp add: harr_def construct_at_def)
  also have "\<dots> = harr ((xs @ [x]) @ replicate n x) [] cap"
    using Suc.prems by (intro Suc.IH) auto
  finally show ?case by simp
qed

lemma harr_fill [host_array_rules]:
  "n \<le> cap \<Longrightarrow> host_array_fill (harr [] [] cap) n x = (HR_none, harr (replicate n x) [] cap)"
  using construct_many_harr [of "[]" n cap x]
  by (auto simp: host_array_fill_def harr_def empty_host_array_def claim_elements_def)

lemma empty_is_harr: "empty_host_array = harr [] [] 0"
  by (simp add: harr_def)

lemma push_on_malformed:
  "host_array_push a x = (e, a') \<Longrightarrow> e \<noteq> HR_none \<Longrightarrow> a' = a"
  by (auto simp: host_array_push_def split: if_splits)

interpretation host_seq: bounded_sequence host_array_span array_capacity host_array_push
    built_array
proof (unfold_locales, goal_cases)
  case (1 a x e a')
  obtain junk where a: "a = harr (host_array_span a) junk (array_capacity a)"
    and f: "fits (host_array_span a) junk (array_capacity a)"
    using built_array_is_harr [OF 1(1)] by blast
  have "host_array_push a x =
      (HR_none, harr (host_array_span a @ [x]) (tl junk) (array_capacity a))"
    using harr_push [OF f, of x] 1(2) a by simp
  moreover have "fits (host_array_span a @ [x]) (tl junk) (array_capacity a)"
    using f 1(2) by (cases junk) auto
  ultimately show ?case using 1(3) by (simp add: host_array_rules)
next
  case (2 a x)
  obtain junk where a: "a = harr (host_array_span a) junk (array_capacity a)"
    and f: "fits (host_array_span a) junk (array_capacity a)"
    using built_array_is_harr [OF 2(1)] by blast
  show ?case using harr_push [OF f, of x] 2(2) a by simp
qed

text \<open>A run of pushes in the shape the loops of the code use it.\<close>

lemma push_all_harr [host_array_rules]:
  "fits ys junk cap \<Longrightarrow> length ys + length xs \<le> cap \<Longrightarrow>
     push_all host_array_push (harr ys junk cap) xs =
       (HR_none, harr (ys @ xs) (drop (length xs) junk) cap)"
proof (induction xs arbitrary: ys junk)
  case Nil
  then show ?case by simp
next
  case (Cons x xs)
  have "fits (ys @ [x]) (tl junk) cap"
    using Cons.prems by (cases junk) auto
  then show ?case
    using Cons.IH [of "ys @ [x]" "tl junk"] Cons.prems
    by (simp add: host_array_rules drop_Suc)
qed

section \<open>Allocation outcomes\<close>

lemma preflight_empty:
  "host_array_allocation_preflight l empty_host_array cap m \<noteq> HR_none \<Longrightarrow>
     host_array_allocation_preflight l empty_host_array cap m = HR_size_overflow"
  by (simp add: host_array_allocation_preflight_def empty_host_array_def split: if_splits)

lemma begin_host_allocation_frame:
  "begin_host_allocation h = (e, h') \<Longrightarrow>
     fail_at_allocation_ordinal h' = fail_at_allocation_ordinal h \<and>
     max_container_elements h' = max_container_elements h \<and>
     allocation_ordinal h \<le> allocation_ordinal h' \<and>
     allocation_ordinal h' \<le> allocation_ordinal h + 1 \<and>
     (e = HR_none \<longrightarrow> allocation_ordinal h' = allocation_ordinal h + 1 \<and>
        fail_at_allocation_ordinal h \<noteq> Some (allocation_ordinal h))"
  by (auto simp: begin_host_allocation_def Let_def split: if_splits)

lemma allocate_cases:
  assumes "allocate_host_array l h empty_host_array cap = (e, a, h')"
  obtains (none_needed) "cap = 0" "e = HR_none" "a = empty_host_array" "h' = h"
  | (preflight) "cap \<noteq> 0" "e = HR_size_overflow" "a = empty_host_array" "h' = h"
  | (begin_failed) "cap \<noteq> 0" "begin_host_allocation h = (e, h')" "e \<noteq> HR_none"
      "a = empty_host_array"
      "host_array_allocation_preflight l (empty_host_array :: 'a host_array) cap
         (max_container_elements h) = HR_none"
  | (malloc_failed) h1 where "cap \<noteq> 0" "begin_host_allocation h = (HR_none, h1)"
      "e = HR_allocation_unavailable" "a = empty_host_array"
      "h' = h1\<lparr>malloc_calls := malloc_calls h1 + 1\<rparr>"
      "host_array_allocation_preflight l (empty_host_array :: 'a host_array) cap
         (max_container_elements h) = HR_none"
  | (allocated) h1 where "cap \<noteq> 0" "begin_host_allocation h = (HR_none, h1)"
      "e = HR_none" "a = (harr [] [] cap :: 'a host_array)"
      "h' = h1\<lparr>malloc_calls := malloc_calls h1 + 1\<rparr>"
      "host_array_allocation_preflight l (empty_host_array :: 'a host_array) cap
         (max_container_elements h) = HR_none"
proof -
  let ?pre = "host_array_allocation_preflight l (empty_host_array :: 'a host_array) cap
                (max_container_elements h)"
  consider "cap = 0" | "cap \<noteq> 0" "?pre \<noteq> HR_none" | "cap \<noteq> 0" "?pre = HR_none" by blast
  then show ?thesis
  proof cases
    case 1
    then show ?thesis
      using assms none_needed
      by (auto simp: allocate_host_array_def Let_def host_array_allocation_preflight_def)
  next
    case 2
    then show ?thesis
      using assms preflight preflight_empty [OF 2(2)]
      by (auto simp: allocate_host_array_def Let_def)
  next
    case 3
    obtain b h1 where b: "begin_host_allocation h = (b, h1)" by (cases "begin_host_allocation h")
    show ?thesis
    proof (cases "b = HR_none")
      case False
      then show ?thesis
        using assms 3 b begin_failed by (auto simp: allocate_host_array_def Let_def)
    next
      case True
      then have "allocate_host_array_raw l h1 empty_host_array cap (max_container_elements h) =
          (e, a, h')"
        using assms 3 b begin_host_allocation_frame [OF b]
        by (auto simp: allocate_host_array_def Let_def)
      then show ?thesis
        using 3 b True malloc_failed [of h1] allocated [of h1]
        by (auto simp: allocate_host_array_raw_def Let_def malloc_def harr_def
              empty_host_array_def split: bool.splits)
    qed
  qed
qed

text \<open>\<open>roomy h n\<close>: no injected failure, no element limit, and an allocator that grants
  every request, for the next \<open>n\<close> allocations.\<close>

definition roomy :: "host_state \<Rightarrow> nat \<Rightarrow> bool" where
  "roomy h n \<longleftrightarrow> fail_at_allocation_ordinal h = None \<and> max_container_elements h = None \<and>
     (\<forall>k s. malloc_grants h k s) \<and> allocation_ordinal h + n \<le> size_max"

definition sane_layout :: "element_layout \<Rightarrow> bool" where
  "sane_layout l \<longleftrightarrow> 0 < element_size l \<and> element_size l \<le> 64 \<and> element_alignment l \<le> 16"

lemma small_fits_layout:
  assumes "sane_layout l" "cap \<le> 2 ^ 50"
  shows "cap \<le> (size_max - host_allocation_header_size - alignment_slack l) div element_size l"
proof -
  have "alignment_slack l \<le> 15"
    using assms by (auto simp: sane_layout_def alignment_slack_def
        host_allocation_header_alignment_def)
  moreover have "cap * element_size l \<le> 2 ^ 50 * 64"
    using assms by (intro mult_le_mono) (auto simp: sane_layout_def)
  ultimately have "cap * element_size l \<le> size_max - host_allocation_header_size - alignment_slack l"
    by (simp add: size_max_def host_allocation_header_size_def)
  then show ?thesis
    using assms(1) by (simp add: sane_layout_def less_eq_div_iff_mult_less_eq)
qed

lemma allocate_roomy:
  assumes "roomy h (Suc n)" "sane_layout l" "cap \<le> 2 ^ 50"
  shows "\<exists>h'. allocate_host_array l h empty_host_array cap = (HR_none, harr [] [] cap, h') \<and>
              roomy h' n"
proof -
  have "host_array_allocation_preflight l (empty_host_array :: 'a host_array) cap None = HR_none"
    using small_fits_layout [OF assms(2,3)]
    by (auto simp: host_array_allocation_preflight_def empty_host_array_def)
  moreover have "cap = 0 \<Longrightarrow> harr [] [] cap = (empty_host_array :: 'a host_array)"
    by (simp add: harr_def)
  ultimately show ?thesis
    using assms(1)
    by (auto simp: allocate_host_array_def allocate_host_array_raw_def Let_def roomy_def
          begin_host_allocation_def malloc_def harr_def empty_host_array_def)
qed

text \<open>A host state without limits or failures, for the concrete instances of the theorems.\<close>

definition sample_host :: host_state where
  "sample_host =
     \<lparr>fail_at_allocation_ordinal = None, allocation_ordinal = 0, max_container_elements = None,
      malloc_grants = (\<lambda>_ _. True), malloc_calls = 0\<rparr>"

lemma sample_host_roomy [simp]: "n \<le> 2 ^ 50 \<Longrightarrow> roomy sample_host n"
  by (simp add: roomy_def sample_host_def size_max_def)

text \<open>C31: \<open>host_array_push\<close> on a valid array appends exactly one element and keeps the
  array valid while there is room, and refuses with \<open>size_overflow\<close>, leaving the array
  unchanged, when it is full; a sequence of pushes succeeds exactly when the remaining
  capacity holds all its elements, and otherwise stores precisely the prefix that fits.\<close>

theorem host_array_pushes_are_bounded_append:
  assumes "built_array a"
    and "push_all host_array_push a xs = (e, a')"
  shows "built_array a' \<and>
    (e = HR_none \<longleftrightarrow> length (host_array_span a) + length xs \<le> array_capacity a) \<and>
    (e = HR_none \<or> e = HR_size_overflow) \<and>
    host_array_span a' =
      host_array_span a @ take (array_capacity a - length (host_array_span a)) xs"
proof -
  have le: "length (host_array_span a) \<le> array_capacity a"
    using built_array_is_harr [OF assms(1)] by auto
  show ?thesis
    using host_seq.push_all_room [OF assms(1) _ assms(2)]
      host_seq.push_all_no_room [OF assms(1) le _ assms(2)] le
    by (cases "length (host_array_span a) + length xs \<le> array_capacity a") auto
qed

theorem host_array_pushes_are_bounded_append_witness:
  "host_array_span (snd (push_all host_array_push (harr [5] [] 2) [7, 9 :: nat])) = [5, 7]"
  using host_array_pushes_are_bounded_append
    [of "harr [5] [] 2" "[7, 9 :: nat]" HR_size_overflow "harr [5, 7] [] 2"]
  by (simp add: host_array_rules)



end
