(* ===== verification/TypeArena.thy ===== *)
theory TypeArena
  imports HostArray "HOL-Library.Monad_Syntax"
begin

text \<open>
  Structural types (include/bennu/type.hpp, src/type.cpp). A type is an arena: a table of
  nodes, a table of child indexes, and the index of the root, which must be the last node;
  scalar and vector types are a single inline node. This theory holds the data and the
  operations of the source; \<open>TypeArenaCorrect\<close> proves them against the tree a valid
  arena denotes.

  \<^item> Enumerations have one more constructor for the values outside their enumerators, which
    a caller can store in the public records and which \<open>validate_type\<close> rejects.
  \<^item> A read or write outside an array's constructed elements is undefined in the code; it
    makes the whole operation \<open>None\<close>. The theorems show that it never happens.
\<close>

section \<open>Data\<close>

datatype scalar_type =
    ST_boolean | ST_integer | ST_double_precision | ST_unknown int

datatype type_kind = TK_scalar | TK_vector | TK_tuple | TK_unknown int

record type_node =
  tn_kind :: type_kind
  tn_scalar :: scalar_type
  tn_first_child :: nat
  tn_child_count :: nat

record type_arena =
  ta_nodes :: "type_node host_array"
  ta_child_indexes :: "nat host_array"
  ta_root_index :: nat
  ta_inline_leaf :: "type_node option"

datatype type_invariant =
    TI_none
  | TI_invalid_type_root
  | TI_nonfinal_type_root
  | TI_unknown_type_kind
  | TI_unknown_scalar_type
  | TI_inactive_type_field
  | TI_invalid_tuple_range
  | TI_overlapping_tuple_range
  | TI_invalid_tuple_child_index
  | TI_non_postorder_tuple_child
  | TI_aliased_tuple_child
  | TI_orphan_type_node
  | TI_orphan_tuple_edge

record type_validation_result =
  tv_ok :: bool
  tv_invariant :: type_invariant
  tv_node_index :: nat
  tv_edge_index :: nat
  tv_resource_error :: host_resource_error_reason

record type_construction_result =
  tc_ok :: bool
  tc_type :: type_arena
  tc_invariant :: type_invariant
  tc_resource_error :: host_resource_error_reason

record type_equality_result =
  te_ok :: bool
  te_equal :: bool
  te_invariant :: type_invariant
  te_resource_error :: host_resource_error_reason

datatype type_format_error = TF_none | TF_invalid_type | TF_conversion_failure

record type_formatting_result =
  tf_ok :: bool
  tf_formatted_storage :: "char host_array"
  tf_formatted :: string
  tf_invariant :: type_invariant
  tf_error :: type_format_error
  tf_resource_error :: host_resource_error_reason

text \<open>Element layouts of the arrays, on the supported 64-bit targets.\<close>

definition layout_u8 :: element_layout where
  "layout_u8 = \<lparr>element_size = 1, element_alignment = 1\<rparr>"

definition layout_size :: element_layout where
  "layout_size = \<lparr>element_size = 8, element_alignment = 8\<rparr>"

definition layout_type_node :: element_layout where
  "layout_type_node = \<lparr>element_size = 24, element_alignment = 8\<rparr>"

definition layout_node_pair :: element_layout where
  "layout_node_pair = \<lparr>element_size = 16, element_alignment = 8\<rparr>"

definition layout_format_action :: element_layout where
  "layout_format_action = \<lparr>element_size = 32, element_alignment = 8\<rparr>"

section \<open>Small operations\<close>

definition type_nodes :: "type_arena \<Rightarrow> type_node list" where
  "type_nodes ty =
     (case ta_inline_leaf ty of
        Some n \<Rightarrow> [n]
      | None \<Rightarrow> host_array_span (ta_nodes ty))"

definition empty_type :: type_arena where
  "empty_type =
     \<lparr>ta_nodes = empty_host_array, ta_child_indexes = empty_host_array,
      ta_root_index = 0, ta_inline_leaf = None\<rparr>"

definition valid_scalar_type :: "scalar_type \<Rightarrow> bool" where
  "valid_scalar_type s =
     (case s of ST_boolean \<Rightarrow> True | ST_integer \<Rightarrow> True | ST_double_precision \<Rightarrow> True
      | ST_unknown _ \<Rightarrow> False)"

definition valid_type :: type_validation_result where
  "valid_type =
     \<lparr>tv_ok = True, tv_invariant = TI_none, tv_node_index = 0, tv_edge_index = 0,
      tv_resource_error = HR_none\<rparr>"

definition invalid_type :: "type_invariant \<Rightarrow> nat \<Rightarrow> nat \<Rightarrow> type_validation_result" where
  "invalid_type reason node edge =
     \<lparr>tv_ok = False, tv_invariant = reason, tv_node_index = node, tv_edge_index = edge,
      tv_resource_error = HR_none\<rparr>"

definition type_resource_failure :: "host_resource_error_reason \<Rightarrow> type_validation_result" where
  "type_resource_failure e =
     \<lparr>tv_ok = False, tv_invariant = TI_none, tv_node_index = 0, tv_edge_index = 0,
      tv_resource_error = e\<rparr>"

definition type_construction_failure ::
    "host_resource_error_reason \<Rightarrow> type_construction_result" where
  "type_construction_failure e =
     \<lparr>tc_ok = False, tc_type = empty_type, tc_invariant = TI_none, tc_resource_error = e\<rparr>"

definition type_formatting_failure ::
    "type_invariant \<Rightarrow> type_format_error \<Rightarrow> host_resource_error_reason
      \<Rightarrow> type_formatting_result" where
  "type_formatting_failure reason err e =
     \<lparr>tf_ok = False, tf_formatted_storage = empty_host_array, tf_formatted = [],
      tf_invariant = reason, tf_error = err, tf_resource_error = e\<rparr>"

definition scalar_type_name :: "scalar_type \<Rightarrow> string" where
  "scalar_type_name s =
     (case s of ST_boolean \<Rightarrow> ''Bool'' | ST_integer \<Rightarrow> ''Int''
      | ST_double_precision \<Rightarrow> ''Double'' | ST_unknown _ \<Rightarrow> '''')"

definition append_text ::
    "char host_array \<Rightarrow> string \<Rightarrow> host_resource_error_reason \<times> char host_array" where
  "append_text formatted text = push_all host_array_push formatted text"

definition make_leaf_type :: "type_kind \<Rightarrow> scalar_type \<Rightarrow> type_arena" where
  "make_leaf_type kind scalar =
     empty_type\<lparr>ta_inline_leaf :=
       Some \<lparr>tn_kind = kind, tn_scalar = scalar, tn_first_child = 0, tn_child_count = 0\<rparr>\<rparr>"

definition make_scalar_type :: "scalar_type \<Rightarrow> type_arena" where
  "make_scalar_type s = make_leaf_type TK_scalar s"

definition make_vector_type :: "scalar_type \<Rightarrow> type_arena" where
  "make_vector_type s = make_leaf_type TK_vector s"

text \<open>\<open>if (allocated == none) allocated = ...\<close>: the next allocation or fill of a chain
  happens only when the previous ones succeeded.\<close>

definition allocate_next ::
    "host_resource_error_reason \<Rightarrow> element_layout \<Rightarrow> host_state \<Rightarrow> nat
      \<Rightarrow> host_resource_error_reason \<times> 'a host_array \<times> host_state" where
  "allocate_next e l h capacity =
     (if e = HR_none then allocate_host_array l h empty_host_array capacity
      else (e, empty_host_array, h))"

definition fill_next ::
    "host_resource_error_reason \<Rightarrow> 'a host_array \<Rightarrow> nat \<Rightarrow> 'a
      \<Rightarrow> host_resource_error_reason \<times> 'a host_array" where
  "fill_next e a n x = (if e = HR_none then host_array_fill a n x else (e, a))"

section \<open>Validation\<close>

record validation_state =
  vs_visited :: "u8 host_array"
  vs_edge_owners :: "u8 host_array"
  vs_parent_counts :: "u8 host_array"
  vs_stack :: "nat host_array"

text \<open>The loop over the edges of one tuple node, in order.\<close>

fun mark_children ::
    "nat \<Rightarrow> nat host_array \<Rightarrow> nat \<Rightarrow> nat list \<Rightarrow> u8 host_array \<Rightarrow> u8 host_array
      \<Rightarrow> (type_validation_result + u8 host_array \<times> u8 host_array) option" where
  "mark_children node_count child_indexes node_index [] edge_owners parent_counts =
     Some (Inr (edge_owners, parent_counts))"
| "mark_children node_count child_indexes node_index (edge_index # edges)
      edge_owners parent_counts =
     do {
       owner \<leftarrow> host_array_at edge_owners edge_index;
       if owner \<noteq> 0
       then Some (Inl (invalid_type TI_overlapping_tuple_range node_index edge_index))
       else do {
         edge_owners \<leftarrow> host_array_put edge_owners edge_index 1;
         child_index \<leftarrow> host_array_at child_indexes edge_index;
         if child_index \<ge> node_count
         then Some (Inl (invalid_type TI_invalid_tuple_child_index node_index edge_index))
         else if child_index \<ge> node_index
         then Some (Inl (invalid_type TI_non_postorder_tuple_child node_index edge_index))
         else do {
           count \<leftarrow> host_array_at parent_counts child_index;
           parent_counts \<leftarrow> host_array_put parent_counts child_index (count + 1);
           if count + 1 \<noteq> 1
           then Some (Inl (invalid_type TI_aliased_tuple_child child_index edge_index))
           else mark_children node_count child_indexes node_index edges
                  edge_owners parent_counts
         }
       }
     }"

fun read_all :: "'a host_array \<Rightarrow> nat list \<Rightarrow> 'a list option" where
  "read_all a [] = Some []"
| "read_all a (i # is) = do { x \<leftarrow> host_array_at a i; xs \<leftarrow> read_all a is; Some (x # xs) }"

text \<open>One iteration of the traversal: pop a node, check it, mark and push its children.\<close>

definition validate_tuple_node ::
    "type_node list \<Rightarrow> nat host_array \<Rightarrow> nat \<Rightarrow> type_node \<Rightarrow> validation_state
      \<Rightarrow> (type_validation_result + validation_state) option" where
  "validate_tuple_node nodes child_indexes node_index node st =
     (if tn_scalar node \<noteq> ST_boolean
      then Some (Inl (invalid_type TI_inactive_type_field node_index 0))
      else if tn_first_child node > array_size child_indexes
              \<or> tn_child_count node > array_size child_indexes - tn_first_child node
      then Some (Inl (invalid_type TI_invalid_tuple_range node_index (tn_first_child node)))
      else
        let edges = [tn_first_child node ..< tn_first_child node + tn_child_count node]
        in case mark_children (length nodes) child_indexes node_index edges
                  (vs_edge_owners st) (vs_parent_counts st) of
             None \<Rightarrow> None
           | Some (Inl r) \<Rightarrow> Some (Inl r)
           | Some (Inr (edge_owners, parent_counts)) \<Rightarrow>
               (case read_all child_indexes (rev edges) of
                  None \<Rightarrow> None
                | Some children \<Rightarrow>
                    (case push_all host_array_push (vs_stack st) children of
                       (e, stack) \<Rightarrow>
                         if e \<noteq> HR_none then Some (Inl (type_resource_failure e))
                         else Some (Inr (st\<lparr>vs_edge_owners := edge_owners,
                                           vs_parent_counts := parent_counts,
                                           vs_stack := stack\<rparr>)))))"

definition validate_popped_node ::
    "type_node list \<Rightarrow> nat host_array \<Rightarrow> nat \<Rightarrow> type_node \<Rightarrow> validation_state
      \<Rightarrow> (type_validation_result + validation_state) option" where
  "validate_popped_node nodes child_indexes node_index node st =
     (case tn_kind node of
        TK_tuple \<Rightarrow> validate_tuple_node nodes child_indexes node_index node st
      | TK_unknown _ \<Rightarrow> Some (Inl (invalid_type TI_unknown_type_kind node_index 0))
      | _ \<Rightarrow>
          if \<not> valid_scalar_type (tn_scalar node)
          then Some (Inl (invalid_type TI_unknown_scalar_type node_index 0))
          else if tn_first_child node \<noteq> 0 \<or> tn_child_count node \<noteq> 0
          then Some (Inl (invalid_type TI_inactive_type_field node_index 0))
          else Some (Inr st))"

definition validate_step ::
    "type_node list \<Rightarrow> nat host_array \<Rightarrow> validation_state
      \<Rightarrow> (type_validation_result + validation_state) option" where
  "validate_step nodes child_indexes st =
     do {
       node_index \<leftarrow> host_array_at (vs_stack st) (array_size (vs_stack st) - 1);
       seen \<leftarrow> host_array_at (vs_visited st) node_index;
       if seen \<noteq> 0
       then Some (Inl (invalid_type TI_aliased_tuple_child node_index 0))
       else do {
         visited \<leftarrow> host_array_put (vs_visited st) node_index 1;
         node \<leftarrow> at nodes node_index;
         validate_popped_node nodes child_indexes node_index node
           (st\<lparr>vs_visited := visited, vs_stack := host_array_pop (vs_stack st)\<rparr>)
       }
     }"

text \<open>Each iteration marks a node that was unmarked, so the loop ends.\<close>

definition unvisited_count :: "validation_state \<Rightarrow> nat" where
  "unvisited_count st =
     (case array_storage (vs_visited st) of
        Registered xs _ \<Rightarrow> length (filter (\<lambda>v. v = 0) xs)
      | _ \<Rightarrow> 0)"

lemma unvisited_count_put:
  assumes "host_array_at (vs_visited st) i = Some 0"
    and "host_array_put (vs_visited st) i 1 = Some v"
  shows "unvisited_count (st\<lparr>vs_visited := v, vs_stack := s\<rparr>) < unvisited_count st"
proof -
  obtain xs cap where st: "array_storage (vs_visited st) = Registered xs cap"
    and i: "i < length xs" "xs ! i = 0"
    using assms(1) by (auto simp: host_array_at_def at_def split: array_storage.splits if_splits)
  have "array_storage v = Registered (xs[i := 1]) cap"
    using assms(2) st i by (auto simp: host_array_put_def)
  moreover have "length (filter (\<lambda>v. v = 0) (xs[i := 1])) < length (filter (\<lambda>v. v = 0) xs)"
    using i by (intro length_filter_update) simp_all
  ultimately show ?thesis using st by (simp add: unvisited_count_def)
qed

lemma validate_tuple_node_visited:
  "validate_tuple_node nodes edges i n st = Some (Inr st') \<Longrightarrow> vs_visited st' = vs_visited st"
  by (auto simp: validate_tuple_node_def Let_def split: if_splits option.splits sum.splits
      prod.splits)

lemma validate_popped_node_visited:
  "validate_popped_node nodes edges i n st = Some (Inr st') \<Longrightarrow> vs_visited st' = vs_visited st"
  by (auto simp: validate_popped_node_def validate_tuple_node_visited
      split: if_splits type_kind.splits)

lemma validate_step_decreases:
  assumes "validate_step nodes edges st = Some (Inr st')"
  shows "unvisited_count st' < unvisited_count st"
proof -
  obtain i v node where seen: "host_array_at (vs_visited st) i = Some 0"
    and put: "host_array_put (vs_visited st) i 1 = Some v"
    and rest: "validate_popped_node nodes edges i node
        (st\<lparr>vs_visited := v, vs_stack := host_array_pop (vs_stack st)\<rparr>) = Some (Inr st')"
    using assms by (auto simp: validate_step_def bind_eq_Some_conv split: if_splits)
  have "unvisited_count st' =
      unvisited_count (st\<lparr>vs_visited := v, vs_stack := host_array_pop (vs_stack st)\<rparr>)"
    using validate_popped_node_visited [OF rest] by (simp add: unvisited_count_def)
  then show ?thesis using unvisited_count_put [OF seen put] by simp
qed

function validate_loop ::
    "type_node list \<Rightarrow> nat host_array \<Rightarrow> validation_state
      \<Rightarrow> (type_validation_result + validation_state) option" where
  "validate_loop nodes child_indexes st =
     (if array_size (vs_stack st) = 0 then Some (Inr st)
      else case validate_step nodes child_indexes st of
             None \<Rightarrow> None
           | Some (Inl r) \<Rightarrow> Some (Inl r)
           | Some (Inr st') \<Rightarrow> validate_loop nodes child_indexes st')"
  by pat_completeness auto
termination
  by (relation "measure (\<lambda>(nodes, edges, st). unvisited_count st)")
     (auto intro: validate_step_decreases)

declare validate_loop.simps [simp del]

text \<open>The index of the first zero of a mark array, for the two orphan checks.\<close>

fun first_unmarked :: "nat \<Rightarrow> u8 list \<Rightarrow> nat option" where
  "first_unmarked i [] = None"
| "first_unmarked i (v # vs) = (if v = 0 then Some i else first_unmarked (i + 1) vs)"

definition validate_traversal ::
    "type_arena \<Rightarrow> validation_state \<Rightarrow> type_validation_result option" where
  "validate_traversal ty st =
     (case host_array_push (vs_stack st) (ta_root_index ty) of
        (pushed, stack) \<Rightarrow>
          if pushed \<noteq> HR_none then Some (type_resource_failure pushed)
          else case validate_loop (type_nodes ty) (ta_child_indexes ty)
                      (st\<lparr>vs_stack := stack\<rparr>) of
                 None \<Rightarrow> None
               | Some (Inl r) \<Rightarrow> Some r
               | Some (Inr st') \<Rightarrow>
                   (case first_unmarked 0 (host_array_span (vs_visited st')) of
                      Some i \<Rightarrow> Some (invalid_type TI_orphan_type_node i 0)
                    | None \<Rightarrow>
                        (case first_unmarked 0 (host_array_span (vs_edge_owners st')) of
                           Some e \<Rightarrow> Some (invalid_type TI_orphan_tuple_edge 0 e)
                         | None \<Rightarrow> Some valid_type)))"

definition validate_with_workspace ::
    "type_arena \<Rightarrow> host_state \<Rightarrow> type_validation_result option \<times> host_state" where
  "validate_with_workspace ty h0 =
     (let nodes = type_nodes ty; edge_count = array_size (ta_child_indexes ty) in
      case allocate_host_array layout_u8 h0 empty_host_array (length nodes) of
        (e1, visited, h1) \<Rightarrow>
      case allocate_next e1 layout_u8 h1 edge_count of (e2, edge_owners, h2) \<Rightarrow>
      case allocate_next e2 layout_u8 h2 (length nodes) of (e3, parent_counts, h3) \<Rightarrow>
      if e3 \<noteq> HR_none then (Some (type_resource_failure e3), h3) else
      case host_array_fill visited (length nodes) 0 of (f1, visited) \<Rightarrow>
      case fill_next f1 edge_owners edge_count 0 of (f2, edge_owners) \<Rightarrow>
      case fill_next f2 parent_counts (length nodes) 0 of (f3, parent_counts) \<Rightarrow>
      if f3 \<noteq> HR_none then (Some (type_resource_failure f3), h3) else
      case allocate_host_array layout_size h3 empty_host_array (edge_count + 1) of
        (e4, stack, h4) \<Rightarrow>
      if e4 \<noteq> HR_none then (Some (type_resource_failure e4), h4)
      else (validate_traversal ty
              \<lparr>vs_visited = visited, vs_edge_owners = edge_owners,
               vs_parent_counts = parent_counts, vs_stack = stack\<rparr>, h4))"

definition validate_type ::
    "host_state \<Rightarrow> type_arena \<Rightarrow> type_validation_result option \<times> host_state" where
  "validate_type h ty =
     (if \<not> host_array_metadata_valid (ta_nodes ty)
         \<or> \<not> host_array_metadata_valid (ta_child_indexes ty)
         \<or> (ta_inline_leaf ty \<noteq> None \<and> array_size (ta_nodes ty) \<noteq> 0)
      then (Some (invalid_type TI_invalid_type_root (ta_root_index ty) 0), h)
      else
        let nodes = type_nodes ty in
        if nodes = [] \<or> ta_root_index ty \<ge> length nodes
        then (Some (invalid_type TI_invalid_type_root (ta_root_index ty) 0), h)
        else if ta_root_index ty \<noteq> length nodes - 1
        then (Some (invalid_type TI_nonfinal_type_root (ta_root_index ty) 0), h)
        else if array_size (ta_child_indexes ty) = size_max
        then (Some (type_resource_failure HR_size_overflow), h)
        else validate_with_workspace ty h)"

end
