(* ===== verification/TypeArenaCorrect.thy ===== *)
theory TypeArenaCorrect
  imports TypeArena
begin

text \<open>
  What a type arena denotes, and the correctness of \<open>validate_type\<close>
  (src/type.cpp). A valid arena is a tree laid out in postorder: the traversal from the root
  visits every node once and every entry of the child table once. The loop of the code with
  its three mark arrays and its explicit stack accepts exactly these arenas; it never reads
  outside its arrays and its stack never overflows.
\<close>

section \<open>The tree a valid arena denotes\<close>

datatype ty = TyScalar scalar_type | TyVector scalar_type | TyTuple "ty list"

definition node_edges :: "type_node \<Rightarrow> nat list" where
  "node_edges n =
     (if tn_kind n = TK_tuple then [tn_first_child n ..< tn_first_child n + tn_child_count n]
      else [])"

definition node_children :: "nat list \<Rightarrow> type_node \<Rightarrow> nat list" where
  "node_children E n = map ((!) E) (node_edges n)"

definition node_locally_ok :: "nat list \<Rightarrow> nat \<Rightarrow> type_node \<Rightarrow> bool" where
  "node_locally_ok E i n =
     (case tn_kind n of
        TK_tuple \<Rightarrow> tn_scalar n = ST_boolean \<and>
          tn_first_child n + tn_child_count n \<le> length E \<and>
          (\<forall>c \<in> set (node_children E n). c < i)
      | TK_unknown _ \<Rightarrow> False
      | _ \<Rightarrow> valid_scalar_type (tn_scalar n) \<and> tn_first_child n = 0 \<and> tn_child_count n = 0)"

text \<open>The recursions below follow only children of smaller index, so they are total; on
  locally well-formed nodes this drops no child.\<close>

function preorder :: "type_node list \<Rightarrow> nat list \<Rightarrow> nat \<Rightarrow> nat list" where
  "preorder N E i =
     i # concat (map (preorder N E) (filter (\<lambda>c. c < i) (node_children E (N ! i))))"
  by pat_completeness auto
termination by (relation "measure (\<lambda>(N, E, i). i)") auto

function edge_order :: "type_node list \<Rightarrow> nat list \<Rightarrow> nat \<Rightarrow> nat list" where
  "edge_order N E i =
     node_edges (N ! i) @
     concat (map (edge_order N E) (filter (\<lambda>c. c < i) (node_children E (N ! i))))"
  by pat_completeness auto
termination by (relation "measure (\<lambda>(N, E, i). i)") auto

function decode :: "type_node list \<Rightarrow> nat list \<Rightarrow> nat \<Rightarrow> ty" where
  "decode N E i =
     (case tn_kind (N ! i) of
        TK_tuple \<Rightarrow>
          TyTuple (map (decode N E) (filter (\<lambda>c. c < i) (node_children E (N ! i))))
      | TK_vector \<Rightarrow> TyVector (tn_scalar (N ! i))
      | _ \<Rightarrow> TyScalar (tn_scalar (N ! i)))"
  by pat_completeness auto
termination by (relation "measure (\<lambda>(N, E, i). i)") auto

declare preorder.simps [simp del] edge_order.simps [simp del] decode.simps [simp del]

definition tree_shape :: "type_node list \<Rightarrow> nat list \<Rightarrow> nat \<Rightarrow> bool" where
  "tree_shape N E root \<longleftrightarrow>
     root < length N \<and> root = length N - 1 \<and>
     (\<forall>i < length N. node_locally_ok E i (N ! i)) \<and>
     distinct (preorder N E root) \<and> set (preorder N E root) = {..<length N} \<and>
     distinct (edge_order N E root) \<and> set (edge_order N E root) = {..<length E}"

definition arena_edges :: "type_arena \<Rightarrow> nat list" where
  "arena_edges ty = host_array_span (ta_child_indexes ty)"

definition arena_valid :: "type_arena \<Rightarrow> bool" where
  "arena_valid ty \<longleftrightarrow>
     host_array_metadata_valid (ta_nodes ty) \<and>
     host_array_metadata_valid (ta_child_indexes ty) \<and>
     (ta_inline_leaf ty \<noteq> None \<longrightarrow> array_size (ta_nodes ty) = 0) \<and>
     tree_shape (type_nodes ty) (arena_edges ty) (ta_root_index ty)"

definition type_of_arena :: "type_arena \<Rightarrow> ty" where
  "type_of_arena ty = decode (type_nodes ty) (arena_edges ty) (ta_root_index ty)"

lemma node_children_ok:
  "node_locally_ok E i n \<Longrightarrow> filter (\<lambda>c. c < i) (node_children E n) = node_children E n"
  by (auto simp: node_locally_ok_def node_children_def node_edges_def filter_id_conv
      split: type_kind.splits)

lemma node_edges_bound: "node_locally_ok E i n \<Longrightarrow> e \<in> set (node_edges n) \<Longrightarrow> e < length E"
  by (auto simp: node_locally_ok_def node_edges_def split: type_kind.splits if_splits)

lemma node_children_bound: "node_locally_ok E i n \<Longrightarrow> c \<in> set (node_children E n) \<Longrightarrow> c < i"
  by (auto simp: node_locally_ok_def node_children_def node_edges_def
      split: type_kind.splits if_splits)

lemma distinct_node_edges [simp]: "distinct (node_edges n)"
  by (simp add: node_edges_def)

lemma preorder_ok [arena_rules]:
  "node_locally_ok E i (N ! i) \<Longrightarrow>
     preorder N E i = i # concat (map (preorder N E) (node_children E (N ! i)))"
  by (subst preorder.simps) (simp only: node_children_ok)

lemma edge_order_ok [arena_rules]:
  "node_locally_ok E i (N ! i) \<Longrightarrow>
     edge_order N E i =
       node_edges (N ! i) @ concat (map (edge_order N E) (node_children E (N ! i)))"
  by (subst edge_order.simps) (simp only: node_children_ok)

lemma preorder_root_in [simp]: "i \<in> set (preorder N E i)"
  by (subst preorder.simps) simp

lemma preorder_le: "j \<in> set (preorder N E i) \<Longrightarrow> j \<le> i"
proof (induction N E i rule: preorder.induct)
  case (1 N E i)
  then show ?case by (subst (asm) preorder.simps) fastforce
qed

section \<open>Mark arrays\<close>

definition marks :: "u8 list \<Rightarrow> nat list \<Rightarrow> u8 list" where
  "marks = foldl (\<lambda>V i. V[i := 1])"

lemma marks_Nil [simp]: "marks V [] = V"
  by (simp add: marks_def)

lemma marks_Cons [simp]: "marks V (i # is) = marks (V[i := 1]) is"
  by (simp add: marks_def)

lemma marks_append [simp]: "marks V (is @ js) = marks (marks V is) js"
  by (simp add: marks_def)

lemma length_marks [simp]: "length (marks V is) = length V"
  by (induction "is" arbitrary: V) auto

lemma marks_nth: "j < length V \<Longrightarrow> marks V is ! j = (if j \<in> set is then 1 else V ! j)"
  by (induction "is" arbitrary: V) (auto simp: nth_list_update)

lemma first_unmarked_None: "first_unmarked k V = None \<longleftrightarrow> (\<forall>v \<in> set V. v \<noteq> 0)"
  by (induction V arbitrary: k) auto

lemma first_unmarked_marks:
  assumes "\<forall>i \<in> set is. i < n"
  shows "first_unmarked 0 (marks (replicate n 0) is) = None \<longleftrightarrow> set is = {..<n}"
proof -
  have "(\<forall>v \<in> set (marks (replicate n 0) is). v \<noteq> 0) \<longleftrightarrow> (\<forall>j < n. j \<in> set is)"
    by (auto simp: all_set_conv_all_nth marks_nth split: if_splits)
  then show ?thesis using assms by (auto simp: first_unmarked_None)
qed

definition owned :: "u8 list \<Rightarrow> nat" where
  "owned V = length (filter (\<lambda>v. v \<noteq> 0) V)"

lemma owned_le: "owned V \<le> length V"
  by (simp add: owned_def)

lemma owned_update: "i < length V \<Longrightarrow> V ! i = 0 \<Longrightarrow> owned (V[i := 1]) = Suc (owned V)"
  unfolding owned_def
proof (induction V arbitrary: i)
  case (Cons v V)
  then show ?case by (cases i) auto
qed simp

lemma owned_marks:
  "\<lbrakk>distinct is; \<forall>i \<in> set is. i < length V \<and> V ! i = 0\<rbrakk> \<Longrightarrow>
     owned (marks V is) = owned V + length is"
proof (induction "is" arbitrary: V)
  case (Cons i js)
  have "owned (marks (V[i := 1]) js) = owned (V[i := 1]) + length js"
    using Cons.prems by (intro Cons.IH) (auto simp: nth_list_update)
  then show ?case using Cons.prems by (simp add: owned_update)
qed simp

section \<open>One node\<close>

text \<open>A rejection is an answer of the validator that names an invariant.\<close>

definition rejection :: "type_validation_result \<Rightarrow> bool" where
  "rejection r \<longleftrightarrow> \<not> tv_ok r \<and> tv_resource_error r = HR_none \<and> tv_invariant r \<noteq> TI_none"

lemma rejection_invalid_type [simp]: "rejection (invalid_type t n e) \<longleftrightarrow> t \<noteq> TI_none"
  by (simp add: rejection_def invalid_type_def)

text \<open>\<open>reads a xs\<close>: every element below the array's size is constructed.\<close>

definition reads :: "'a host_array \<Rightarrow> 'a list \<Rightarrow> bool" where
  "reads a xs \<longleftrightarrow> array_size a = length xs \<and> (\<forall>i < length xs. host_array_at a i = Some (xs ! i))"

lemma reads_span: "host_array_metadata_valid a \<Longrightarrow> reads a (host_array_span a)"
  by (auto simp: reads_def host_array_metadata_valid_def host_array_span_def host_array_at_def
      split: array_storage.splits)

lemma read_all_reads:
  "reads a xs \<Longrightarrow> \<forall>i \<in> set is. i < length xs \<Longrightarrow> read_all a is = Some (map ((!) xs) is)"
  by (induction "is") (auto simp: reads_def)

text \<open>A node can be entered: it is unmarked and well formed, and none of its edges has an
  owner and none of its children a parent.\<close>

definition enterable ::
    "type_node list \<Rightarrow> nat list \<Rightarrow> u8 list \<Rightarrow> u8 list \<Rightarrow> u8 list \<Rightarrow> nat \<Rightarrow> bool" where
  "enterable N E V own P i \<longleftrightarrow>
     V ! i = 0 \<and> node_locally_ok E i (N ! i) \<and>
     (\<forall>e \<in> set (node_edges (N ! i)). own ! e = 0) \<and>
     (\<forall>c \<in> set (node_children E (N ! i)). P ! c = 0) \<and> distinct (node_children E (N ! i))"

lemma word_count_one: "(x :: u8) + 1 = 1 \<longleftrightarrow> x = 0"
  by simp

lemma mark_children_outcome:
  assumes "reads CE E" "\<forall>e \<in> set es. e < length E" "distinct es"
    and "length own = length E" "length P = n" "i \<le> n"
  shows "if (\<forall>e \<in> set es. own ! e = 0 \<and> E ! e < i \<and> P ! (E ! e) = 0) \<and> distinct (map ((!) E) es)
    then mark_children n CE i es (harr own [] (length E)) (harr P [] n) =
      Some (Inr (harr (marks own es) [] (length E), harr (marks P (map ((!) E) es)) [] n))
    else \<exists>r. mark_children n CE i es (harr own [] (length E)) (harr P [] n) = Some (Inl r) \<and>
             rejection r"
  using assms
proof (induction es arbitrary: own P)
  case Nil
  then show ?case by simp
next
  case (Cons e es)
  let ?c = "E ! e"
  have e: "e < length own" "host_array_at CE e = Some ?c"
    using Cons.prems by (auto simp: reads_def)
  have at_e: "host_array_at (harr own [] (length E)) e = Some (own ! e)"
    "host_array_put (harr own [] (length E)) e 1 = Some (harr (own[e := 1]) [] (length E))"
    using e Cons.prems(4) by (simp_all add: harr_at harr_put)
  consider (owned) "own ! e \<noteq> 0" | (order) "own ! e = 0" "\<not> ?c < i"
    | (aliased) "own ! e = 0" "?c < i" "P ! ?c \<noteq> 0" | (good) "own ! e = 0" "?c < i" "P ! ?c = 0"
    by blast
  then show ?case
  proof cases
    case owned
    then show ?thesis using at_e by simp
  next
    case order
    then show ?thesis using at_e e by simp
  next
    case aliased
    have "host_array_at (harr P [] n) ?c = Some (P ! ?c)"
      "host_array_put (harr P [] n) ?c (P ! ?c + 1) = Some (harr (P[?c := P ! ?c + 1]) [] n)"
      using aliased Cons.prems(5,6) by (simp_all add: harr_at harr_put)
    then show ?thesis using aliased at_e e Cons.prems(6) by (simp add: word_count_one)
  next
    case good
    have at_c: "host_array_at (harr P [] n) ?c = Some (P ! ?c)"
      "host_array_put (harr P [] n) ?c 1 = Some (harr (P[?c := 1]) [] n)"
      using good Cons.prems(5,6) by (simp_all add: harr_at harr_put)
    have run: "mark_children n CE i (e # es) (harr own [] (length E)) (harr P [] n) =
        mark_children n CE i es (harr (own[e := 1]) [] (length E)) (harr (P[?c := 1]) [] n)"
      using good at_e at_c e Cons.prems(6) by simp
    have fresh: "\<forall>e' \<in> set es. own[e := 1] ! e' = own ! e'"
      using Cons.prems(3) by (metis distinct.simps(2) nth_list_update_neq)
    have parents: "(\<forall>e' \<in> set es. P[?c := 1] ! (E ! e') = 0) \<and> distinct (map ((!) E) es) \<longleftrightarrow>
        (\<forall>e' \<in> set es. P ! (E ! e') = 0) \<and> distinct (map ((!) E) (e # es))"
      using good Cons.prems(5,6) by (auto simp: nth_list_update split: if_splits)
    have ih: "if (\<forall>e' \<in> set es. own[e := 1] ! e' = 0 \<and> E ! e' < i \<and> P[?c := 1] ! (E ! e') = 0) \<and>
          distinct (map ((!) E) es)
      then mark_children n CE i es (harr (own[e := 1]) [] (length E)) (harr (P[?c := 1]) [] n) =
        Some (Inr (harr (marks (own[e := 1]) es) [] (length E),
                   harr (marks (P[?c := 1]) (map ((!) E) es)) [] n))
      else \<exists>r. mark_children n CE i es (harr (own[e := 1]) [] (length E))
                  (harr (P[?c := 1]) [] n) = Some (Inl r) \<and> rejection r"
      using Cons.prems by (intro Cons.IH) auto
    have same: "(\<forall>e' \<in> set es. own[e := 1] ! e' = 0 \<and> E ! e' < i \<and> P[?c := 1] ! (E ! e') = 0) \<and>
          distinct (map ((!) E) es) \<longleftrightarrow>
        (\<forall>e' \<in> set (e # es). own ! e' = 0 \<and> E ! e' < i \<and> P ! (E ! e') = 0) \<and>
          distinct (map ((!) E) (e # es))"
      using parents fresh good by auto
    show ?thesis
      using ih unfolding same run by (simp only: marks_Cons list.map)
  qed
qed

abbreviation marked_state ::
    "type_node list \<Rightarrow> nat list \<Rightarrow> u8 list \<Rightarrow> u8 list \<Rightarrow> u8 list \<Rightarrow> nat list \<Rightarrow> nat list
      \<Rightarrow> validation_state" where
  "marked_state N E V own P S junk \<equiv>
     \<lparr>vs_visited = harr V [] (length N), vs_edge_owners = harr own [] (length E),
      vs_parent_counts = harr P [] (length N), vs_stack = harr S junk (Suc (length E))\<rparr>"

lemma validate_tuple_node_outcome:
  assumes "reads CE E" "length own = length E" "length P = length N" "length V = length N"
    and "i < length N" "tn_kind (N ! i) = TK_tuple"
    and "fits S junk (Suc (length E))" "length S \<le> owned own"
  shows "if node_locally_ok E i (N ! i) \<and> (\<forall>e \<in> set (node_edges (N ! i)). own ! e = 0) \<and>
      (\<forall>c \<in> set (node_children E (N ! i)). P ! c = 0) \<and> distinct (node_children E (N ! i))
    then \<exists>junk'. validate_tuple_node N CE i (N ! i) (marked_state N E V own P S junk) =
      Some (Inr (marked_state N E V (marks own (node_edges (N ! i)))
        (marks P (node_children E (N ! i))) (S @ rev (node_children E (N ! i))) junk')) \<and>
      fits (S @ rev (node_children E (N ! i))) junk' (Suc (length E))
    else \<exists>r. validate_tuple_node N CE i (N ! i) (marked_state N E V own P S junk) =
      Some (Inl r) \<and> rejection r"
proof -
  let ?n = "N ! i"
  let ?es = "[tn_first_child ?n ..< tn_first_child ?n + tn_child_count ?n]"
  let ?st = "marked_state N E V own P S junk"
  let ?cs = "map ((!) E) ?es"
  have es: "node_edges ?n = ?es" and cs: "node_children E ?n = ?cs"
    using assms(6) by (simp_all add: node_children_def node_edges_def)
  have size: "array_size CE = length E" using assms(1) by (simp add: reads_def)
  have range: "(tn_first_child ?n > array_size CE \<or>
      tn_child_count ?n > array_size CE - tn_first_child ?n) \<longleftrightarrow>
      \<not> tn_first_child ?n + tn_child_count ?n \<le> length E"
    using size by auto
  have local: "node_locally_ok E i ?n \<longleftrightarrow> tn_scalar ?n = ST_boolean \<and>
      tn_first_child ?n + tn_child_count ?n \<le> length E \<and> (\<forall>e \<in> set ?es. E ! e < i)"
    using assms(6) by (auto simp: node_locally_ok_def cs)
  show ?thesis
  proof (cases "tn_scalar ?n = ST_boolean \<and> tn_first_child ?n + tn_child_count ?n \<le> length E")
    case False
    then have "\<exists>r. validate_tuple_node N CE i ?n ?st = Some (Inl r) \<and> rejection r"
      using range by (auto simp: validate_tuple_node_def)
    then show ?thesis using False local by auto
  next
    case True
    have in_range: "\<forall>e \<in> set ?es. e < length E" using True by auto
    have mark: "if (\<forall>e \<in> set ?es. own ! e = 0 \<and> E ! e < i \<and> P ! (E ! e) = 0) \<and> distinct ?cs
      then mark_children (length N) CE i ?es (harr own [] (length E)) (harr P [] (length N)) =
        Some (Inr (harr (marks own ?es) [] (length E), harr (marks P ?cs) [] (length N)))
      else \<exists>r. mark_children (length N) CE i ?es (harr own [] (length E))
          (harr P [] (length N)) = Some (Inl r) \<and> rejection r"
      using assms in_range by (intro mark_children_outcome) auto
    have cond: "(\<forall>e \<in> set ?es. own ! e = 0 \<and> E ! e < i \<and> P ! (E ! e) = 0) \<and> distinct ?cs \<longleftrightarrow>
        node_locally_ok E i ?n \<and> (\<forall>e \<in> set (node_edges ?n). own ! e = 0) \<and>
        (\<forall>c \<in> set (node_children E ?n). P ! c = 0) \<and> distinct (node_children E ?n)"
      using True local unfolding es cs by auto
    have step: "validate_tuple_node N CE i ?n ?st =
        (case mark_children (length N) CE i ?es (harr own [] (length E)) (harr P [] (length N)) of
           None \<Rightarrow> None
         | Some (Inl r) \<Rightarrow> Some (Inl r)
         | Some (Inr (edge_owners, parent_counts)) \<Rightarrow>
             (case read_all CE (rev ?es) of
                None \<Rightarrow> None
              | Some children \<Rightarrow>
                  (case push_all host_array_push (vs_stack ?st) children of
                     (e, stack) \<Rightarrow>
                       if e \<noteq> HR_none then Some (Inl (type_resource_failure e))
                       else Some (Inr (?st\<lparr>vs_edge_owners := edge_owners,
                              vs_parent_counts := parent_counts, vs_stack := stack\<rparr>)))))"
      using True range by (simp add: validate_tuple_node_def Let_def)
    show ?thesis
    proof (cases "(\<forall>e \<in> set ?es. own ! e = 0 \<and> E ! e < i \<and> P ! (E ! e) = 0) \<and> distinct ?cs")
      case False
      obtain r where "mark_children (length N) CE i ?es (harr own [] (length E))
          (harr P [] (length N)) = Some (Inl r)" "rejection r"
        using mark unfolding if_not_P [OF False] by blast
      then show ?thesis
        unfolding cond [symmetric] if_not_P [OF False] using step by simp
    next
      case good: True
      have "owned (marks own ?es) = owned own + tn_child_count ?n"
        using owned_marks [of ?es own] good in_range assms(2) by auto
      then have room: "length S + length (rev ?cs) \<le> Suc (length E)"
        using owned_le [of "marks own ?es"] assms(2,8) by simp
      have "read_all CE (rev ?es) = Some (rev ?cs)"
        using read_all_reads [OF assms(1), of "rev ?es"] in_range by (simp add: rev_map)
      moreover have "push_all host_array_push (harr S junk (Suc (length E))) (rev ?cs) =
          (HR_none, harr (S @ rev ?cs) (drop (length (rev ?cs)) junk) (Suc (length E)))"
        using assms(7) room by (rule push_all_harr)
      moreover have "fits (S @ rev ?cs) (drop (length (rev ?cs)) junk) (Suc (length E))"
        using assms(7) room by auto
      ultimately show ?thesis
        using step mark unfolding cond [symmetric] if_P [OF good] unfolding es cs
        by (intro exI [of _ "drop (length (rev ?cs)) junk"]) simp
    qed
  qed
qed

lemma validate_step_outcome:
  assumes "reads CE E" "length own = length E" "length P = length N" "length V = length N"
    and "i < length N" "fits (S @ [i]) junk (Suc (length E))" "length S \<le> owned own"
  shows "if enterable N E V own P i
    then \<exists>junk'. validate_step N CE (marked_state N E V own P (S @ [i]) junk) =
      Some (Inr (marked_state N E (V[i := 1]) (marks own (node_edges (N ! i)))
        (marks P (node_children E (N ! i))) (S @ rev (node_children E (N ! i))) junk')) \<and>
      fits (S @ rev (node_children E (N ! i))) junk' (Suc (length E))
    else \<exists>r. validate_step N CE (marked_state N E V own P (S @ [i]) junk) =
      Some (Inl r) \<and> rejection r"
proof -
  let ?st = "marked_state N E V own P (S @ [i]) junk"
  have top: "host_array_at (vs_stack ?st) (array_size (vs_stack ?st) - 1) = Some i"
    using assms(6) by (simp add: harr_at harr_size)
  have seen: "host_array_at (vs_visited ?st) i = Some (V ! i)"
    "host_array_put (vs_visited ?st) i 1 = Some (harr (V[i := 1]) [] (length N))"
    using assms(4,5) by (simp_all add: harr_at harr_put)
  have popped: "host_array_pop (vs_stack ?st) = harr S (i # junk) (Suc (length E))"
    using assms(6) by (simp add: harr_pop)
  show ?thesis
  proof (cases "V ! i = 0")
    case False
    then show ?thesis using top seen by (simp add: validate_step_def enterable_def)
  next
    case True
    have run: "validate_step N CE ?st =
        validate_popped_node N CE i (N ! i) (marked_state N E (V[i := 1]) own P S (i # junk))"
      using top seen popped True assms(5) by (simp add: validate_step_def)
    show ?thesis
    proof (cases "tn_kind (N ! i) = TK_tuple")
      case tuple: True
      have enter: "enterable N E V own P i \<longleftrightarrow> node_locally_ok E i (N ! i) \<and>
          (\<forall>e \<in> set (node_edges (N ! i)). own ! e = 0) \<and>
          (\<forall>c \<in> set (node_children E (N ! i)). P ! c = 0) \<and> distinct (node_children E (N ! i))"
        using True by (simp add: enterable_def)
      have pop: "validate_popped_node N CE i (N ! i) s = validate_tuple_node N CE i (N ! i) s"
        for s using tuple by (simp add: validate_popped_node_def)
      show ?thesis unfolding run pop enter
        by (rule validate_tuple_node_outcome [OF assms(1-3) _ assms(5) tuple _ assms(7)])
           (use assms(4,6) in auto)
    next
      case False
      then have none: "node_edges (N ! i) = []" "node_children E (N ! i) = []"
        by (simp_all add: node_children_def node_edges_def)
      show ?thesis
        using False True assms(6) none unfolding run
        by (auto simp: validate_popped_node_def enterable_def node_locally_ok_def
            split: type_kind.splits intro!: exI [of _ "i # junk"])
    qed
  qed
qed

section \<open>The traversal\<close>

definition visit :: "type_node list \<Rightarrow> nat list \<Rightarrow> nat list \<Rightarrow> nat list" where
  "visit N E W = concat (map (preorder N E) W)"

definition edges_of :: "type_node list \<Rightarrow> nat list \<Rightarrow> nat list \<Rightarrow> nat list" where
  "edges_of N E W = concat (map (edge_order N E) W)"

text \<open>What is still to visit from the work list \<open>W\<close> can be visited.\<close>

definition admissible ::
    "type_node list \<Rightarrow> nat list \<Rightarrow> u8 list \<Rightarrow> u8 list \<Rightarrow> nat list \<Rightarrow> bool" where
  "admissible N E V own W \<longleftrightarrow>
     (\<forall>i \<in> set (visit N E W). V ! i = 0 \<and> node_locally_ok E i (N ! i)) \<and>
     distinct (visit N E W) \<and>
     (\<forall>e \<in> set (edges_of N E W). own ! e = 0) \<and> distinct (edges_of N E W)"

lemma visit_Nil [simp]: "visit N E [] = []" "edges_of N E [] = []"
  by (simp_all add: visit_def edges_of_def)

lemma visit_step:
  assumes "node_locally_ok E i (N ! i)"
  shows "visit N E (i # W) = i # visit N E (node_children E (N ! i) @ W)"
    and "edges_of N E (i # W) = node_edges (N ! i) @ edges_of N E (node_children E (N ! i) @ W)"
  using assms by (simp_all add: visit_def edges_of_def arena_rules)

lemma in_visit: "w \<in> set W \<Longrightarrow> w \<in> set (visit N E W)"
  by (induction W) (auto simp: visit_def)

lemma visit_bound: "\<forall>w \<in> set W. w < n \<Longrightarrow> j \<in> set (visit N E W) \<Longrightarrow> j < n"
  using preorder_le by (fastforce simp: visit_def)

lemma edge_order_bound:
  "\<forall>j \<in> set (preorder N E i). node_locally_ok E j (N ! j) \<Longrightarrow>
     e \<in> set (edge_order N E i) \<Longrightarrow> e < length E"
proof (induction N E i rule: edge_order.induct)
  case (1 N E i)
  have ok: "node_locally_ok E i (N ! i)" using 1(2) by simp
  have "e \<in> set (node_edges (N ! i)) \<or>
      (\<exists>c \<in> set (node_children E (N ! i)). e \<in> set (edge_order N E c))"
    using 1(3) by (simp add: edge_order_ok [OF ok])
  then show ?case
  proof
    assume "e \<in> set (node_edges (N ! i))"
    then show ?thesis by (rule node_edges_bound [OF ok])
  next
    assume "\<exists>c \<in> set (node_children E (N ! i)). e \<in> set (edge_order N E c)"
    then obtain c where c: "c \<in> set (node_children E (N ! i))" "e \<in> set (edge_order N E c)"
      by blast
    have "\<forall>j \<in> set (preorder N E c). node_locally_ok E j (N ! j)"
      using 1(2) c(1) by (auto simp: preorder_ok [OF ok])
    then show ?thesis
      using 1(1) [of c] c node_children_bound [OF ok c(1)] by auto
  qed
qed

lemma edges_of_bound:
  "\<forall>j \<in> set (visit N E W). node_locally_ok E j (N ! j) \<Longrightarrow>
     e \<in> set (edges_of N E W) \<Longrightarrow> e < length E"
  using edge_order_bound by (fastforce simp: visit_def edges_of_def)

lemma distinct_visit_work: "distinct (visit N E W) \<Longrightarrow> distinct W"
proof (induction W)
  case (Cons w W)
  have "w \<notin> set W"
  proof
    assume "w \<in> set W"
    then have "w \<in> set (visit N E W)" by (rule in_visit)
    then show False
      using Cons.prems preorder_root_in [of w N E]
      unfolding visit_def list.map concat.simps distinct_append by blast
  qed
  then show ?case using Cons by (simp add: visit_def)
qed simp

text \<open>Parents are recorded only for nodes that were visited or wait in the work list.\<close>

definition parents_sound :: "nat \<Rightarrow> u8 list \<Rightarrow> u8 list \<Rightarrow> nat list \<Rightarrow> bool" where
  "parents_sound n V P W \<longleftrightarrow> (\<forall>c < n. P ! c \<noteq> 0 \<longrightarrow> V ! c \<noteq> 0 \<or> c \<in> set W)"

lemma admissible_enterable:
  assumes "admissible N E V own (i # W)" "parents_sound (length N) V P (i # W)"
    and "i < length N"
  shows "enterable N E V own P i"
proof -
  have i: "V ! i = 0" and ok: "node_locally_ok E i (N ! i)"
    using assms(1) in_visit [of i "i # W" N E] by (auto simp: admissible_def)
  let ?cs = "node_children E (N ! i)"
  have v: "visit N E (i # W) = i # visit N E (?cs @ W)"
    and e: "edges_of N E (i # W) = node_edges (N ! i) @ edges_of N E (?cs @ W)"
    by (rule visit_step [OF ok])+
  have dist: "distinct (?cs @ W)"
    using assms(1) distinct_visit_work [of N E "?cs @ W"] by (simp add: admissible_def v)
  have "P ! c = 0" if c: "c \<in> set ?cs" for c
  proof -
    have "c < i" using node_children_bound [OF ok c] .
    then have "c < length N" "c \<noteq> i" using assms(3) by simp_all
    moreover have "V ! c = 0"
      using assms(1) in_visit [of c "?cs @ W" N E] c by (auto simp: admissible_def v)
    moreover have "c \<notin> set W" using dist c by auto
    ultimately show ?thesis
      using assms(2) unfolding parents_sound_def by auto
  qed
  then show ?thesis
    using i ok dist assms(1) by (auto simp: enterable_def admissible_def e)
qed

lemma admissible_step:
  assumes "enterable N E V own P i" "i < length V" "length own = length E"
  shows "admissible N E V own (i # W) \<longleftrightarrow>
    admissible N E (V[i := 1]) (marks own (node_edges (N ! i))) (node_children E (N ! i) @ W)"
    (is "?l \<longleftrightarrow> ?r")
proof -
  let ?cs = "node_children E (N ! i)" and ?es = "node_edges (N ! i)"
  have ok: "node_locally_ok E i (N ! i)" and Vi: "V ! i = 0"
    and es: "\<forall>e \<in> set ?es. own ! e = 0"
    using assms(1) by (auto simp: enterable_def)
  note v = visit_step [OF ok, of W]
  show ?thesis
  proof
    assume l: ?l
    have "e < length E" if "e \<in> set (edges_of N E (?cs @ W))" for e
      using edges_of_bound [OF _ that] l by (auto simp: admissible_def v)
    then show ?r
      using l assms(2,3) by (auto simp: admissible_def v marks_nth nth_list_update)
  next
    assume r: ?r
    have b: "e < length E" if "e \<in> set (edges_of N E (?cs @ W))" for e
      using edges_of_bound [OF _ that] r by (auto simp: admissible_def)
    have "i \<notin> set (visit N E (?cs @ W))"
      using r assms(2) by (auto simp: admissible_def)
    moreover have "e \<notin> set ?es" if "e \<in> set (edges_of N E (?cs @ W))" for e
      using r that b [OF that] assms(3) by (auto simp: admissible_def marks_nth split: if_splits)
    ultimately show ?l
      using r ok Vi es b assms(2,3)
      by (auto simp: admissible_def v marks_nth nth_list_update split: if_splits)
  qed
qed

text \<open>The loop. It succeeds exactly on an admissible work list, marks what it visits, and
  otherwise rejects; it never reads out of bounds and never runs out of stack.\<close>

lemma parents_sound_step:
  assumes "parents_sound n V P (i # W)" "i < length V" "length V = n" "length P = n"
  shows "parents_sound n (V[i := 1]) (marks P cs) (cs @ W)"
  unfolding parents_sound_def
proof (intro allI impI)
  fix c assume c: "c < n" "marks P cs ! c \<noteq> 0"
  then consider "c \<in> set cs" | "P ! c \<noteq> 0" using assms(4) by (auto simp: marks_nth split: if_splits)
  then show "V[i := 1] ! c \<noteq> 0 \<or> c \<in> set (cs @ W)"
  proof cases
    case 2
    then show ?thesis
      using assms(1-3) c(1) by (auto simp: parents_sound_def nth_list_update)
  qed simp
qed

lemma validate_loop_outcome:
  assumes "reads CE E" "length own = length E" "length P = length N" "length V = length N"
    and "\<forall>w \<in> set S. w < length N" "fits S junk (Suc (length E))" "length S \<le> Suc (owned own)"
    and "parents_sound (length N) V P (rev S)"
  shows "if admissible N E V own (rev S)
    then \<exists>st'. validate_loop N CE (marked_state N E V own P S junk) = Some (Inr st') \<and>
      vs_visited st' = harr (marks V (visit N E (rev S))) [] (length N) \<and>
      vs_edge_owners st' = harr (marks own (edges_of N E (rev S))) [] (length E)
    else \<exists>r. validate_loop N CE (marked_state N E V own P S junk) = Some (Inl r) \<and> rejection r"
  using assms
proof (induction "length (filter (\<lambda>v. v = 0) V)" arbitrary: V own P S junk
    rule: less_induct)
  case less
  show ?case
  proof (cases S rule: rev_cases)
    case Nil
    then show ?thesis
      using less.prems(6)
      by (subst validate_loop.simps) (simp add: harr_size admissible_def)
  next
    case (snoc S' i)
    let ?W = "rev S'" and ?cs = "node_children E (N ! i)" and ?es = "node_edges (N ! i)"
    have i: "i < length N" using less.prems(5) snoc by simp
    have loop: "validate_loop N CE (marked_state N E V own P S junk) =
        (case validate_step N CE (marked_state N E V own P S junk) of
           None \<Rightarrow> None
         | Some (Inl r) \<Rightarrow> Some (Inl r)
         | Some (Inr st') \<Rightarrow> validate_loop N CE st')"
      using less.prems(6) snoc by (subst validate_loop.simps) (simp add: harr_size)
    have step: "if enterable N E V own P i
      then \<exists>junk'. validate_step N CE (marked_state N E V own P S junk) =
        Some (Inr (marked_state N E (V[i := 1]) (marks own ?es) (marks P ?cs)
          (S' @ rev ?cs) junk')) \<and> fits (S' @ rev ?cs) junk' (Suc (length E))
      else \<exists>r. validate_step N CE (marked_state N E V own P S junk) = Some (Inl r) \<and> rejection r"
      using less.prems snoc i unfolding snoc by (intro validate_step_outcome) auto
    show ?thesis
    proof (cases "enterable N E V own P i")
      case False
      then have "\<not> admissible N E V own (rev S)"
        using admissible_enterable [of N E V own i ?W P] less.prems(8) i snoc by auto
      then show ?thesis using step False loop by auto
    next
      case True
      obtain junk' where stepped: "validate_step N CE (marked_state N E V own P S junk) =
          Some (Inr (marked_state N E (V[i := 1]) (marks own ?es) (marks P ?cs)
            (S' @ rev ?cs) junk'))"
        and fit: "fits (S' @ rev ?cs) junk' (Suc (length E))"
        using step True by auto
      have ok: "node_locally_ok E i (N ! i)" and Vi: "V ! i = 0"
        and es: "\<forall>e \<in> set ?es. own ! e = 0"
        using True by (auto simp: enterable_def)
      have "owned (marks own ?es) = owned own + length ?es"
        using es node_edges_bound [OF ok] less.prems(2) by (intro owned_marks) auto
      then have room: "length (S' @ rev ?cs) \<le> Suc (owned (marks own ?es))"
        using less.prems(7) snoc by (simp add: node_children_def)
      have below: "\<forall>w \<in> set (S' @ rev ?cs). w < length N"
        using less.prems(5) snoc i by (auto dest!: node_children_bound [OF ok])
      have fewer: "length (filter (\<lambda>v. v = 0) (V[i := 1])) < length (filter (\<lambda>v. v = 0) V)"
        using i Vi less.prems(4) by (intro length_filter_update) auto
      have parents: "parents_sound (length N) (V[i := 1]) (marks P ?cs) (rev (S' @ rev ?cs))"
        using parents_sound_step [of "length N" V P i ?W ?cs] less.prems snoc i by simp
      have adm: "admissible N E V own (rev S) \<longleftrightarrow>
          admissible N E (V[i := 1]) (marks own ?es) (rev (S' @ rev ?cs))"
        using admissible_step [OF True, of ?W] less.prems snoc i by simp
      have "if admissible N E (V[i := 1]) (marks own ?es) (rev (S' @ rev ?cs))
        then \<exists>st'. validate_loop N CE (marked_state N E (V[i := 1]) (marks own ?es)
              (marks P ?cs) (S' @ rev ?cs) junk') = Some (Inr st') \<and>
            vs_visited st' =
              harr (marks (V[i := 1]) (visit N E (rev (S' @ rev ?cs)))) [] (length N) \<and>
            vs_edge_owners st' =
              harr (marks (marks own ?es) (edges_of N E (rev (S' @ rev ?cs)))) [] (length E)
        else \<exists>r. validate_loop N CE (marked_state N E (V[i := 1]) (marks own ?es)
              (marks P ?cs) (S' @ rev ?cs) junk') = Some (Inl r) \<and> rejection r"
        using less.prems by (intro less.hyps [OF fewer _ _ _ _ below fit room parents]) auto
      then show ?thesis
        using visit_step [OF ok, of ?W] snoc unfolding loop stepped adm by auto
    qed
  qed
qed

section \<open>The validator\<close>

lemma tree_shape_admissible:
  assumes "root < length N" "root = length N - 1"
  shows "tree_shape N E root \<longleftrightarrow>
    admissible N E (replicate (length N) 0) (replicate (length E) 0) [root] \<and>
    set (preorder N E root) = {..<length N} \<and> set (edge_order N E root) = {..<length E}"
    (is "?l \<longleftrightarrow> ?r")
proof -
  have "visit N E [root] = preorder N E root" "edges_of N E [root] = edge_order N E root"
    by (simp_all add: visit_def edges_of_def)
  then show ?thesis using assms by (auto simp: tree_shape_def admissible_def)
qed

lemma validate_traversal_outcome:
  assumes "reads (ta_child_indexes ty) E" "N = type_nodes ty"
    and "ta_root_index ty < length N" "ta_root_index ty = length N - 1"
  shows "\<exists>r. validate_traversal ty
      (marked_state N E (replicate (length N) 0) (replicate (length E) 0)
        (replicate (length N) 0) [] []) = Some r \<and>
    (tv_ok r \<longleftrightarrow> tree_shape N E (ta_root_index ty)) \<and> (tv_ok r \<longrightarrow> r = valid_type) \<and>
    (\<not> tv_ok r \<longrightarrow> rejection r)"
proof -
  let ?V = "replicate (length N) 0 :: u8 list" and ?own = "replicate (length E) 0 :: u8 list"
  let ?root = "ta_root_index ty"
  let ?st = "marked_state N E ?V ?own ?V [?root] []"
  have push: "host_array_push (harr [] [] (Suc (length E))) ?root =
      (HR_none, harr [?root] [] (Suc (length E)))"
    by (simp add: harr_push)
  have trav: "validate_traversal ty (marked_state N E ?V ?own ?V [] []) =
      (case validate_loop N (ta_child_indexes ty) ?st of
         None \<Rightarrow> None
       | Some (Inl r) \<Rightarrow> Some r
       | Some (Inr st') \<Rightarrow>
           (case first_unmarked 0 (host_array_span (vs_visited st')) of
              Some i \<Rightarrow> Some (invalid_type TI_orphan_type_node i 0)
            | None \<Rightarrow>
                (case first_unmarked 0 (host_array_span (vs_edge_owners st')) of
                   Some e \<Rightarrow> Some (invalid_type TI_orphan_tuple_edge 0 e)
                 | None \<Rightarrow> Some valid_type)))"
    using assms(2) by (simp add: validate_traversal_def push)
  have loop: "if admissible N E ?V ?own (rev [?root])
    then \<exists>st'. validate_loop N (ta_child_indexes ty) ?st = Some (Inr st') \<and>
      vs_visited st' = harr (marks ?V (visit N E (rev [?root]))) [] (length N) \<and>
      vs_edge_owners st' = harr (marks ?own (edges_of N E (rev [?root]))) [] (length E)
    else \<exists>r. validate_loop N (ta_child_indexes ty) ?st = Some (Inl r) \<and> rejection r"
    by (rule validate_loop_outcome) (use assms in \<open>auto simp: parents_sound_def\<close>)
  show ?thesis
  proof (cases "admissible N E ?V ?own [?root]")
    case False
    then have "\<not> tree_shape N E ?root" using tree_shape_admissible [OF assms(3,4)] by blast
    then show ?thesis using loop False trav by (auto simp: rejection_def)
  next
    case True
    obtain st' where st': "validate_loop N (ta_child_indexes ty) ?st = Some (Inr st')"
      and V: "vs_visited st' = harr (marks ?V (preorder N E ?root)) [] (length N)"
      and own: "vs_edge_owners st' = harr (marks ?own (edge_order N E ?root)) [] (length E)"
      using loop True by (auto simp: visit_def edges_of_def)
    have nodes: "first_unmarked 0 (marks ?V (preorder N E ?root)) = None \<longleftrightarrow>
        set (preorder N E ?root) = {..<length N}"
      using preorder_le [of _ N E ?root] assms(3) by (intro first_unmarked_marks) fastforce
    have edges: "first_unmarked 0 (marks ?own (edge_order N E ?root)) = None \<longleftrightarrow>
        set (edge_order N E ?root) = {..<length E}"
      using edge_order_bound [of N E ?root] True
      by (intro first_unmarked_marks) (auto simp: admissible_def visit_def)
    have spans: "host_array_span (vs_visited st') = marks ?V (preorder N E ?root)"
      "host_array_span (vs_edge_owners st') = marks ?own (edge_order N E ?root)"
      by (simp_all add: V own harr_span)
    have shape: "tree_shape N E ?root \<longleftrightarrow>
        first_unmarked 0 (marks ?V (preorder N E ?root)) = None \<and>
        first_unmarked 0 (marks ?own (edge_order N E ?root)) = None"
      using nodes edges tree_shape_admissible [OF assms(3,4)] True by blast
    have run: "validate_traversal ty (marked_state N E ?V ?own ?V [] []) =
        (case first_unmarked 0 (marks ?V (preorder N E ?root)) of
           Some i \<Rightarrow> Some (invalid_type TI_orphan_type_node i 0)
         | None \<Rightarrow>
             (case first_unmarked 0 (marks ?own (edge_order N E ?root)) of
                Some e \<Rightarrow> Some (invalid_type TI_orphan_tuple_edge 0 e)
              | None \<Rightarrow> Some valid_type))"
      unfolding trav st' option.case sum.case spans ..
    show ?thesis
      unfolding run shape
      by (cases "first_unmarked 0 (marks ?V (preorder N E ?root))";
          cases "first_unmarked 0 (marks ?own (edge_order N E ?root))")
         (simp_all add: valid_type_def invalid_type_def rejection_def)
  qed
qed

lemma allocated_empty:
  "allocate_host_array l h empty_host_array cap = (HR_none, a, h') \<Longrightarrow> a = harr [] [] cap"
  by (erule allocate_cases) (auto simp: harr_def)

lemma allocate_next_none:
  "allocate_next e l h cap = (HR_none, a, h') \<Longrightarrow> e = HR_none \<and> a = harr [] [] cap"
  by (auto simp: allocate_next_def dest: allocated_empty split: if_splits)

lemma type_resource_failure_sel [simp]:
  "tv_ok (type_resource_failure e) = False" "tv_resource_error (type_resource_failure e) = e"
  "tv_invariant (type_resource_failure e) = TI_none"
  by (simp_all add: type_resource_failure_def)

definition decided :: "type_arena \<Rightarrow> type_validation_result \<Rightarrow> bool" where
  "decided ty r \<longleftrightarrow>
     (if tv_ok r then r = valid_type \<and> arena_valid ty
      else if tv_resource_error r = HR_none then rejection r \<and> \<not> arena_valid ty
      else tv_invariant r = TI_none)"

lemma validate_with_workspace_outcome:
  assumes "host_array_metadata_valid (ta_nodes ty)"
    and "host_array_metadata_valid (ta_child_indexes ty)"
    and "ta_inline_leaf ty \<noteq> None \<longrightarrow> array_size (ta_nodes ty) = 0"
    and "ta_root_index ty < length (type_nodes ty)"
    and "ta_root_index ty = length (type_nodes ty) - 1"
    and "validate_with_workspace ty h = (res, h')"
  shows "\<exists>r. res = Some r \<and> decided ty r"
proof -
  let ?N = "type_nodes ty" and ?E = "arena_edges ty"
  have reads: "reads (ta_child_indexes ty) ?E"
    using reads_span [OF assms(2)] by (simp add: arena_edges_def)
  then have size: "array_size (ta_child_indexes ty) = length ?E" by (simp add: reads_def)
  have failure: "e \<noteq> HR_none \<Longrightarrow> decided ty (type_resource_failure e)" for e
    by (simp add: decided_def)
  obtain e1 visited h1 where 1: "allocate_host_array layout_u8 h empty_host_array (length ?N) =
      (e1, visited :: u8 host_array, h1)" by (metis prod_cases3)
  obtain e2 own h2 where
    2: "allocate_next e1 layout_u8 h1 (length ?E) = (e2, own :: u8 host_array, h2)"
    by (metis prod_cases3)
  obtain e3 parents h3 where
    3: "allocate_next e2 layout_u8 h2 (length ?N) = (e3, parents :: u8 host_array, h3)"
    by (metis prod_cases3)
  show ?thesis
  proof (cases "e3 = HR_none")
    case False
    then show ?thesis
      using assms(6) 1 2 3 failure [of e3]
      by (auto simp: validate_with_workspace_def Let_def size)
  next
    case True
    have arrays: "visited = harr [] [] (length ?N)" "own = harr [] [] (length ?E)"
      "parents = harr [] [] (length ?N)"
      using 1 2 3 True by (auto dest!: allocate_next_none allocated_empty)
    obtain e4 stack h4 where 4:
      "allocate_host_array layout_size h3 (empty_host_array :: nat host_array)
         (Suc (length ?E)) = (e4, stack, h4)" by (metis prod_cases3)
    show ?thesis
    proof (cases "e4 = HR_none")
      case False
      then show ?thesis
        using assms(6) 1 2 3 4 True arrays failure [of e4]
        by (auto simp: validate_with_workspace_def Let_def size harr_fill fill_next_def)
    next
      case stack: True
      have empty_stack: "stack = harr [] [] (Suc (length ?E))"
        using 4 stack by (auto dest: allocated_empty)
      let ?st = "marked_state ?N ?E (replicate (length ?N) 0) (replicate (length ?E) 0)
        (replicate (length ?N) 0) [] []"
      have run: "res = validate_traversal ty ?st"
        using assms(6) 1 2 3 4 True arrays stack empty_stack
        by (simp add: validate_with_workspace_def Let_def size harr_fill fill_next_def)
      obtain r where r: "validate_traversal ty ?st = Some r"
        "tv_ok r \<longleftrightarrow> tree_shape ?N ?E (ta_root_index ty)" "tv_ok r \<longrightarrow> r = valid_type"
        "\<not> tv_ok r \<longrightarrow> rejection r"
        using validate_traversal_outcome [OF reads _ assms(4,5)] by blast
      have "arena_valid ty \<longleftrightarrow> tree_shape ?N ?E (ta_root_index ty)"
        using assms(1-3) by (simp add: arena_valid_def)
      then show ?thesis
        using r run by (cases "tv_ok r") (auto simp: decided_def rejection_def)
    qed
  qed
qed

lemma validate_type_outcome:
  assumes "validate_type h ty = (res, h')"
  shows "\<exists>r. res = Some r \<and> decided ty r"
proof -
  let ?N = "type_nodes ty"
  have reject: "res = Some (invalid_type t i e) \<Longrightarrow> t \<noteq> TI_none \<Longrightarrow> \<not> arena_valid ty \<Longrightarrow> ?thesis"
    for t i e by (auto simp: decided_def invalid_type_def rejection_def)
  consider (malformed) "\<not> host_array_metadata_valid (ta_nodes ty) \<or>
      \<not> host_array_metadata_valid (ta_child_indexes ty) \<or>
      (ta_inline_leaf ty \<noteq> None \<and> array_size (ta_nodes ty) \<noteq> 0)"
    | (root) "ta_root_index ty \<ge> length ?N \<or> ta_root_index ty \<noteq> length ?N - 1"
      "\<not> (\<not> host_array_metadata_valid (ta_nodes ty) \<or>
          \<not> host_array_metadata_valid (ta_child_indexes ty) \<or>
          (ta_inline_leaf ty \<noteq> None \<and> array_size (ta_nodes ty) \<noteq> 0))"
    | (good) "ta_root_index ty < length ?N" "ta_root_index ty = length ?N - 1"
      "host_array_metadata_valid (ta_nodes ty)" "host_array_metadata_valid (ta_child_indexes ty)"
      "ta_inline_leaf ty \<noteq> None \<longrightarrow> array_size (ta_nodes ty) = 0"
    by fastforce
  then show ?thesis
  proof cases
    case malformed
    then show ?thesis
      using assms by (intro reject [of TI_invalid_type_root])
        (auto simp: validate_type_def arena_valid_def)
  next
    case root
    then have "\<not> arena_valid ty" by (auto simp: arena_valid_def tree_shape_def)
    then show ?thesis
      using assms root reject
      by (auto simp: validate_type_def Let_def split: if_splits)
  next
    case good
    show ?thesis
    proof (cases "array_size (ta_child_indexes ty) = size_max")
      case True
      then show ?thesis using assms good by (auto simp: validate_type_def Let_def decided_def split: if_splits)
    next
      case False
      then have "validate_with_workspace ty h = (res, h')"
        using assms good by (auto simp: validate_type_def Let_def split: if_splits)
      then show ?thesis by (rule validate_with_workspace_outcome [OF good(3,4,5,1,2)])
    qed
  qed
qed

section \<open>With enough memory there is no resource error\<close>

lemma roomy_mono: "roomy h n \<Longrightarrow> m \<le> n \<Longrightarrow> roomy h m"
  by (auto simp: roomy_def)

lemma sane_layouts [simp]:
  "sane_layout layout_u8" "sane_layout layout_size" "sane_layout layout_type_node"
  "sane_layout layout_node_pair" "sane_layout layout_format_action"
  by (simp_all add: sane_layout_def layout_u8_def layout_size_def layout_type_node_def
      layout_node_pair_def layout_format_action_def)

definition small_arena :: "type_arena \<Rightarrow> bool" where
  "small_arena ty \<longleftrightarrow> length (type_nodes ty) \<le> 2 ^ 50 \<and> array_size (ta_child_indexes ty) < 2 ^ 50"

lemma rejected_no_resource_error: "rejection r \<Longrightarrow> tv_resource_error r = HR_none"
  by (simp add: rejection_def)

lemma allocate_next_roomy:
  assumes "roomy h (Suc n)" "sane_layout l" "cap \<le> 2 ^ 50"
  shows "\<exists>h'. allocate_next HR_none l h cap = (HR_none, harr [] [] cap, h') \<and> roomy h' n"
  using allocate_roomy [OF assms] by (simp add: allocate_next_def)

lemma validate_workspace_roomy:
  assumes "roomy h (n + 4)" "small_arena ty"
    and "host_array_metadata_valid (ta_child_indexes ty)"
    and "ta_root_index ty < length (type_nodes ty)"
    and "ta_root_index ty = length (type_nodes ty) - 1"
  shows "\<exists>r h'. validate_with_workspace ty h = (Some r, h') \<and>
    tv_resource_error r = HR_none \<and> roomy h' n"
proof -
  let ?N = "type_nodes ty" and ?E = "arena_edges ty"
  have reads: "reads (ta_child_indexes ty) ?E"
    using reads_span [OF assms(3)] by (simp add: arena_edges_def)
  then have size: "array_size (ta_child_indexes ty) = length ?E" by (simp add: reads_def)
  have small: "length ?N \<le> 2 ^ 50" "length ?E \<le> 2 ^ 50" "Suc (length ?E) \<le> 2 ^ 50"
    using assms(2) size by (auto simp: small_arena_def)
  have room: "roomy h (Suc (Suc (Suc (Suc n))))" using assms(1) by (simp add: numeral_eq_Suc)
  obtain h1 where 1: "allocate_host_array layout_u8 h (empty_host_array :: u8 host_array)
      (length ?N) = (HR_none, harr [] [] (length ?N), h1)" "roomy h1 (Suc (Suc (Suc n)))"
    using allocate_roomy [OF room sane_layouts(1) small(1)] by blast
  obtain h2 where 2: "allocate_next HR_none layout_u8 h1 (length ?E) =
      (HR_none, harr [] [] (length ?E) :: u8 host_array, h2)" "roomy h2 (Suc (Suc n))"
    using allocate_next_roomy [OF 1(2) sane_layouts(1) small(2)] by blast
  obtain h3 where 3: "allocate_next HR_none layout_u8 h2 (length ?N) =
      (HR_none, harr [] [] (length ?N) :: u8 host_array, h3)" "roomy h3 (Suc n)"
    using allocate_next_roomy [OF 2(2) sane_layouts(1) small(1)] by blast
  obtain h4 where 4: "allocate_host_array layout_size h3 (empty_host_array :: nat host_array)
      (Suc (length ?E)) = (HR_none, harr [] [] (Suc (length ?E)), h4)" "roomy h4 n"
    using allocate_roomy [OF 3(2) sane_layouts(2) small(3)] by blast
  let ?st = "marked_state ?N ?E (replicate (length ?N) 0) (replicate (length ?E) 0)
      (replicate (length ?N) 0) [] []"
  have "validate_with_workspace ty h = (validate_traversal ty ?st, h4)"
    using 1 2 3 4
    by (simp add: validate_with_workspace_def Let_def size harr_fill fill_next_def)
  moreover obtain r where r: "validate_traversal ty ?st = Some r"
    "tv_ok r \<longrightarrow> r = valid_type" "\<not> tv_ok r \<longrightarrow> rejection r"
    using validate_traversal_outcome [OF reads _ assms(4,5)] by blast
  moreover have "tv_resource_error r = HR_none"
    using r(2,3) by (cases "tv_ok r") (simp_all add: valid_type_def rejection_def)
  ultimately show ?thesis using 4(2) by simp
qed

lemma validate_type_roomy:
  assumes "roomy h (n + 4)" "small_arena ty"
  shows "\<exists>r h'. validate_type h ty = (Some r, h') \<and> tv_resource_error r = HR_none \<and> roomy h' n"
proof -
  have rest: "roomy h n" using assms(1) by (rule roomy_mono) simp
  have "array_size (ta_child_indexes ty) \<noteq> size_max"
    using assms(2) by (auto simp: small_arena_def size_max_def)
  then consider t where "validate_type h ty = (Some (invalid_type t (ta_root_index ty) 0), h)"
    | "validate_type h ty = validate_with_workspace ty h"
      "host_array_metadata_valid (ta_child_indexes ty)"
      "ta_root_index ty < length (type_nodes ty)"
      "ta_root_index ty = length (type_nodes ty) - 1"
    by (fastforce simp: validate_type_def Let_def split: if_splits)
  then show ?thesis
  proof cases
    case 1
    then show ?thesis using rest by (auto simp: invalid_type_def)
  next
    case 2
    then show ?thesis using validate_workspace_roomy [OF assms 2(2-4)] by simp
  qed
qed

lemmas validation_facts = validate_type_outcome validate_type_roomy

text \<open>C7: \<open>validate_type\<close> decides whether an arena is a tree. It always returns (no read
  outside an array, no endless traversal, no overflow of its stack): acceptance means that
  the node and child tables form a tree in postorder whose traversal from the final root
  visits every node and every table entry exactly once; a rejection that names an
  invariant means they do not; and with memory available the answer is never a resource
  error.\<close>

theorem validate_type_decides_tree_shape:
  assumes "validate_type h ty = (res, h')"
  shows "\<exists>r. res = Some r \<and>
    (tv_ok r \<longrightarrow> r = valid_type \<and> arena_valid ty) \<and>
    (\<not> tv_ok r \<and> tv_resource_error r = HR_none \<longrightarrow>
       tv_invariant r \<noteq> TI_none \<and> \<not> arena_valid ty) \<and>
    (roomy h 4 \<and> small_arena ty \<longrightarrow> tv_resource_error r = HR_none)"
proof -
  obtain r where r: "res = Some r" "decided ty r"
    using validate_type_outcome [OF assms] by blast
  have "roomy h 4 \<and> small_arena ty \<longrightarrow> tv_resource_error r = HR_none"
    using validate_type_roomy [of h 0 ty] assms r(1) by auto
  then show ?thesis using r by (auto simp: decided_def rejection_def)
qed

text \<open>\<open>Tuple<Int, Vector<Bool>>\<close>, laid out by hand.\<close>

definition sample_arena :: type_arena where
  "sample_arena =
     \<lparr>ta_nodes = harr
        [\<lparr>tn_kind = TK_scalar, tn_scalar = ST_integer, tn_first_child = 0, tn_child_count = 0\<rparr>,
         \<lparr>tn_kind = TK_vector, tn_scalar = ST_boolean, tn_first_child = 0, tn_child_count = 0\<rparr>,
         \<lparr>tn_kind = TK_tuple, tn_scalar = ST_boolean, tn_first_child = 0, tn_child_count = 2\<rparr>]
        [] 3,
      ta_child_indexes = harr [0, 1] [] 2, ta_root_index = 2, ta_inline_leaf = None\<rparr>"

lemma sample_arena_parts:
  "type_nodes sample_arena =
     [\<lparr>tn_kind = TK_scalar, tn_scalar = ST_integer, tn_first_child = 0, tn_child_count = 0\<rparr>,
      \<lparr>tn_kind = TK_vector, tn_scalar = ST_boolean, tn_first_child = 0, tn_child_count = 0\<rparr>,
      \<lparr>tn_kind = TK_tuple, tn_scalar = ST_boolean, tn_first_child = 0, tn_child_count = 2\<rparr>]"
  "arena_edges sample_arena = [0, 1]"
  by (simp_all add: sample_arena_def type_nodes_def arena_edges_def harr_span)

lemma sample_arena_valid: "arena_valid sample_arena"
proof -
  have "tree_shape (type_nodes sample_arena) (arena_edges sample_arena) 2"
    by (simp add: tree_shape_def sample_arena_parts preorder.simps edge_order.simps
        node_children_def node_edges_def node_locally_ok_def valid_scalar_type_def
        upt_rec less_Suc_eq All_less_Suc numeral_eq_Suc lessThan_Suc insert_commute)
  then show ?thesis
    by (simp add: arena_valid_def) (simp add: sample_arena_def harr_metadata_valid)
qed

theorem validate_type_decides_tree_shape_witness:
  "fst (validate_type sample_host sample_arena) = Some valid_type"
proof -
  have small: "small_arena sample_arena"
    by (simp add: small_arena_def sample_arena_parts) (simp add: sample_arena_def harr_size)
  obtain res h' where run: "validate_type sample_host sample_arena = (res, h')"
    by (cases "validate_type sample_host sample_arena")
  show ?thesis
    using validate_type_decides_tree_shape [OF run] small sample_arena_valid run by auto
qed

end
