(* ===== verification/TypeOps.thy ===== *)
theory TypeOps
  imports TypeArenaCorrect
begin

text \<open>
  The operations on structural types (src/type.cpp): \<open>clone_type\<close>, \<open>make_tuple_type\<close>,
  \<open>structural_type_equal\<close> and \<open>format_type\<close>, each with the allocations, capacity checks and
  explicit stacks of the code. The two traversals run on fuel, and \<open>None\<close> also stands for
  exhausted fuel; \<open>TypeOpsCorrect\<close> shows that the fuel given here is always enough.
\<close>

section \<open>Cloning\<close>

definition type_construction_rejected :: "type_validation_result \<Rightarrow> type_construction_result" where
  "type_construction_rejected v =
     \<lparr>tc_ok = False, tc_type = empty_type, tc_invariant = tv_invariant v,
      tc_resource_error = tv_resource_error v\<rparr>"

definition type_constructed :: "type_arena \<Rightarrow> type_construction_result" where
  "type_constructed ty =
     \<lparr>tc_ok = True, tc_type = ty, tc_invariant = TI_none, tc_resource_error = HR_none\<rparr>"

definition copy_arena :: "host_state \<Rightarrow> type_arena \<Rightarrow> type_construction_result \<times> host_state" where
  "copy_arena h ty =
     (case allocate_host_array layout_type_node h empty_host_array (length (type_nodes ty)) of
        (e1, nodes, h1) \<Rightarrow>
      case allocate_next e1 layout_size h1 (array_size (ta_child_indexes ty)) of
        (e2, child_indexes, h2) \<Rightarrow>
      if e2 \<noteq> HR_none then (type_construction_failure e2, h2) else
      case push_all host_array_push nodes (type_nodes ty) of (e3, nodes) \<Rightarrow>
      if e3 \<noteq> HR_none then (type_construction_failure e3, h2) else
      case push_all host_array_push child_indexes (host_array_span (ta_child_indexes ty)) of
        (e4, child_indexes) \<Rightarrow>
      if e4 \<noteq> HR_none then (type_construction_failure e4, h2) else
      (type_constructed
         \<lparr>ta_nodes = nodes, ta_child_indexes = child_indexes, ta_root_index = ta_root_index ty,
          ta_inline_leaf = None\<rparr>, h2))"

definition clone_type ::
    "host_state \<Rightarrow> type_arena \<Rightarrow> type_construction_result option \<times> host_state" where
  "clone_type h ty =
     (case validate_type h ty of
        (None, h1) \<Rightarrow> (None, h1)
      | (Some v, h1) \<Rightarrow>
          if \<not> tv_ok v then (Some (type_construction_rejected v), h1)
          else if ta_inline_leaf ty \<noteq> None
          then (Some (type_constructed (empty_type\<lparr>ta_inline_leaf := ta_inline_leaf ty\<rparr>)), h1)
          else (case copy_arena h1 ty of (r, h2) \<Rightarrow> (Some r, h2)))"

section \<open>Tuple construction\<close>

text \<open>The first loop: validate every element and add up the table sizes.\<close>

fun measure_elements ::
    "host_state \<Rightarrow> type_arena list \<Rightarrow> nat \<Rightarrow> nat
      \<Rightarrow> (type_construction_result + nat \<times> nat) option \<times> host_state" where
  "measure_elements h [] node_count edge_count = (Some (Inr (node_count, edge_count)), h)"
| "measure_elements h (element # elements) node_count edge_count =
     (case validate_type h element of
        (None, h1) \<Rightarrow> (None, h1)
      | (Some v, h1) \<Rightarrow>
          if \<not> tv_ok v then (Some (Inl (type_construction_rejected v)), h1)
          else if length (type_nodes element) > size_max - node_count
                  \<or> array_size (ta_child_indexes element) > size_max - edge_count
          then (Some (Inl (type_construction_failure HR_size_overflow)), h1)
          else measure_elements h1 elements
                 (node_count + length (type_nodes element))
                 (edge_count + array_size (ta_child_indexes element)))"

definition shift_node :: "nat \<Rightarrow> type_node \<Rightarrow> type_node" where
  "shift_node edge_offset node =
     (if tn_kind node = TK_tuple
      then node\<lparr>tn_first_child := tn_first_child node + edge_offset\<rparr> else node)"

record tuple_tables =
  tt_nodes :: "type_node host_array"
  tt_child_indexes :: "nat host_array"
  tt_roots :: "nat host_array"

text \<open>The second loop: append the tables of one element, relocated.\<close>

definition append_element ::
    "tuple_tables \<Rightarrow> type_arena \<Rightarrow> host_resource_error_reason \<times> tuple_tables" where
  "append_element t element =
     (let node_offset = array_size (tt_nodes t);
          edge_offset = array_size (tt_child_indexes t)
      in case push_all host_array_push (tt_nodes t)
                (map (shift_node edge_offset) (type_nodes element)) of
           (e1, nodes) \<Rightarrow>
         if e1 \<noteq> HR_none then (e1, t\<lparr>tt_nodes := nodes\<rparr>) else
         case push_all host_array_push (tt_child_indexes t)
                (map (\<lambda>c. c + node_offset) (host_array_span (ta_child_indexes element))) of
           (e2, child_indexes) \<Rightarrow>
         if e2 \<noteq> HR_none
         then (e2, t\<lparr>tt_nodes := nodes, tt_child_indexes := child_indexes\<rparr>) else
         case host_array_push (tt_roots t) (ta_root_index element + node_offset) of
           (e3, roots) \<Rightarrow>
         (e3, t\<lparr>tt_nodes := nodes, tt_child_indexes := child_indexes, tt_roots := roots\<rparr>))"

fun append_elements ::
    "tuple_tables \<Rightarrow> type_arena list \<Rightarrow> host_resource_error_reason \<times> tuple_tables" where
  "append_elements t [] = (HR_none, t)"
| "append_elements t (element # elements) =
     (case append_element t element of
        (e, t') \<Rightarrow> if e \<noteq> HR_none then (e, t') else append_elements t' elements)"

definition finish_tuple :: "tuple_tables \<Rightarrow> type_construction_result" where
  "finish_tuple t =
     (let first_child = array_size (tt_child_indexes t)
      in case push_all host_array_push (tt_child_indexes t) (host_array_span (tt_roots t)) of
           (e1, child_indexes) \<Rightarrow>
         if e1 \<noteq> HR_none then type_construction_failure e1 else
         case host_array_push (tt_nodes t)
                \<lparr>tn_kind = TK_tuple, tn_scalar = ST_boolean, tn_first_child = first_child,
                 tn_child_count = array_size (tt_roots t)\<rparr> of
           (e2, nodes) \<Rightarrow>
         if e2 \<noteq> HR_none then type_construction_failure e2
         else type_constructed
                \<lparr>ta_nodes = nodes, ta_child_indexes = child_indexes,
                 ta_root_index = array_size nodes - 1, ta_inline_leaf = None\<rparr>)"

definition build_tuple ::
    "host_state \<Rightarrow> type_arena list \<Rightarrow> nat \<Rightarrow> nat \<Rightarrow> type_construction_result \<times> host_state" where
  "build_tuple h elements node_count edge_count =
     (case allocate_host_array layout_type_node h empty_host_array node_count of
        (e1, nodes, h1) \<Rightarrow>
      case allocate_next e1 layout_size h1 edge_count of (e2, child_indexes, h2) \<Rightarrow>
      case allocate_next e2 layout_size h2 (length elements) of (e3, roots, h3) \<Rightarrow>
      if e3 \<noteq> HR_none then (type_construction_failure e3, h3) else
      case append_elements
             \<lparr>tt_nodes = nodes, tt_child_indexes = child_indexes, tt_roots = roots\<rparr> elements of
        (e4, t) \<Rightarrow>
      if e4 \<noteq> HR_none then (type_construction_failure e4, h3) else (finish_tuple t, h3))"

definition make_tuple_type ::
    "host_state \<Rightarrow> type_arena list \<Rightarrow> type_construction_result option \<times> host_state" where
  "make_tuple_type h elements =
     (case measure_elements h elements 1 (length elements) of
        (None, h1) \<Rightarrow> (None, h1)
      | (Some (Inl failed), h1) \<Rightarrow> (Some failed, h1)
      | (Some (Inr (node_count, edge_count)), h1) \<Rightarrow>
          (case build_tuple h1 elements node_count edge_count of (r, h2) \<Rightarrow> (Some r, h2)))"

section \<open>Structural equality\<close>

definition type_compared :: "bool \<Rightarrow> type_equality_result" where
  "type_compared equal =
     \<lparr>te_ok = True, te_equal = equal, te_invariant = TI_none, te_resource_error = HR_none\<rparr>"

definition type_comparison_failure ::
    "type_invariant \<Rightarrow> host_resource_error_reason \<Rightarrow> type_equality_result" where
  "type_comparison_failure reason e =
     \<lparr>te_ok = False, te_equal = False, te_invariant = reason, te_resource_error = e\<rparr>"

definition equal_step ::
    "type_arena \<Rightarrow> type_arena \<Rightarrow> (nat \<times> nat) host_array
      \<Rightarrow> (type_equality_result + (nat \<times> nat) host_array) option" where
  "equal_step left right stack =
     do {
       (l, r) \<leftarrow> host_array_at stack (array_size stack - 1);
       left_node \<leftarrow> at (type_nodes left) l;
       right_node \<leftarrow> at (type_nodes right) r;
       let stack = host_array_pop stack in
       if tn_kind left_node \<noteq> tn_kind right_node then Some (Inl (type_compared False))
       else if (tn_kind left_node = TK_scalar \<or> tn_kind left_node = TK_vector)
               \<and> tn_scalar left_node \<noteq> tn_scalar right_node
       then Some (Inl (type_compared False))
       else if tn_kind left_node \<noteq> TK_tuple then Some (Inr stack)
       else if tn_child_count left_node \<noteq> tn_child_count right_node
       then Some (Inl (type_compared False))
       else do {
         lefts \<leftarrow> read_all (ta_child_indexes left)
                    [tn_first_child left_node
                     ..< tn_first_child left_node + tn_child_count left_node];
         rights \<leftarrow> read_all (ta_child_indexes right)
                    [tn_first_child right_node
                     ..< tn_first_child right_node + tn_child_count left_node];
         (case push_all host_array_push stack (zip lefts rights) of
            (e, stack) \<Rightarrow>
              if e \<noteq> HR_none then Some (Inl (type_comparison_failure TI_none e))
              else Some (Inr stack))
       }
     }"

fun equal_loop ::
    "type_arena \<Rightarrow> type_arena \<Rightarrow> nat \<Rightarrow> (nat \<times> nat) host_array \<Rightarrow> type_equality_result option" where
  "equal_loop left right fuel stack =
     (if array_size stack = 0 then Some (type_compared True)
      else case fuel of
             0 \<Rightarrow> None
           | Suc k \<Rightarrow>
               (case equal_step left right stack of
                  None \<Rightarrow> None
                | Some (Inl r) \<Rightarrow> Some r
                | Some (Inr stack') \<Rightarrow> equal_loop left right k stack'))"

declare equal_loop.simps [simp del]

definition compare_valid ::
    "host_state \<Rightarrow> type_arena \<Rightarrow> type_arena \<Rightarrow> type_equality_result option \<times> host_state" where
  "compare_valid h left right =
     (case allocate_host_array layout_node_pair h empty_host_array
             (min (length (type_nodes left)) (length (type_nodes right))) of
        (e, stack, h1) \<Rightarrow>
          if e \<noteq> HR_none then (Some (type_comparison_failure TI_none e), h1)
          else (case host_array_push stack (ta_root_index left, ta_root_index right) of
                  (pushed, stack) \<Rightarrow>
                    if pushed \<noteq> HR_none
                    then (Some (type_comparison_failure TI_none pushed), h1)
                    else (equal_loop left right (length (type_nodes left)) stack, h1)))"

definition structural_type_equal ::
    "host_state \<Rightarrow> type_arena \<Rightarrow> type_arena \<Rightarrow> type_equality_result option \<times> host_state" where
  "structural_type_equal h left right =
     (case validate_type h left of
        (None, h1) \<Rightarrow> (None, h1)
      | (Some lv, h1) \<Rightarrow>
          if \<not> tv_ok lv
          then (Some (type_comparison_failure (tv_invariant lv) (tv_resource_error lv)), h1)
          else (case validate_type h1 right of
                  (None, h2) \<Rightarrow> (None, h2)
                | (Some rv, h2) \<Rightarrow>
                    if \<not> tv_ok rv
                    then (Some (type_comparison_failure (tv_invariant rv)
                                  (tv_resource_error rv)), h2)
                    else compare_valid h2 left right))"

section \<open>Formatting\<close>

datatype format_action = FormatNode nat | FormatText string

text \<open>The actions a tuple node leaves on the stack: the closing bracket, then the children
  from the last to the first with a separator below every child but the first.\<close>

fun child_actions :: "nat list \<Rightarrow> format_action list" where
  "child_actions [] = []"
| "child_actions [c] = [FormatNode c]"
| "child_actions (c # cs) = child_actions cs @ [FormatText '', '', FormatNode c]"

definition format_leaf ::
    "char host_array \<Rightarrow> type_node \<Rightarrow> host_resource_error_reason \<times> char host_array" where
  "format_leaf formatted node =
     (if tn_kind node = TK_scalar
      then append_text formatted (scalar_type_name (tn_scalar node))
      else case append_text formatted ''Vector<'' of
             (e1, formatted) \<Rightarrow>
           case (if e1 = HR_none then append_text formatted (scalar_type_name (tn_scalar node))
                 else (e1, formatted)) of
             (e2, formatted) \<Rightarrow>
           (if e2 = HR_none then append_text formatted ''>'' else (e2, formatted)))"

definition format_step ::
    "type_arena \<Rightarrow> char host_array \<Rightarrow> format_action host_array
      \<Rightarrow> (host_resource_error_reason \<times> char host_array \<times> format_action host_array) option" where
  "format_step ty formatted stack =
     do {
       action \<leftarrow> host_array_at stack (array_size stack - 1);
       let stack = host_array_pop stack in
       case action of
         FormatText text \<Rightarrow>
           (case append_text formatted text of (e, formatted) \<Rightarrow> Some (e, formatted, stack))
       | FormatNode node_index \<Rightarrow>
           do {
             node \<leftarrow> at (type_nodes ty) node_index;
             if tn_kind node = TK_scalar \<or> tn_kind node = TK_vector
             then (case format_leaf formatted node of
                     (e, formatted) \<Rightarrow> Some (e, formatted, stack))
             else (case append_text formatted ''Tuple<'' of
                     (e, formatted) \<Rightarrow>
                       if e \<noteq> HR_none then Some (e, formatted, stack)
                       else (case host_array_push stack (FormatText ''>'') of
                               (e, stack) \<Rightarrow>
                                 if e \<noteq> HR_none then Some (e, formatted, stack)
                                 else do {
                                   children \<leftarrow> read_all (ta_child_indexes ty)
                                     [tn_first_child node
                                      ..< tn_first_child node + tn_child_count node];
                                   (case push_all host_array_push stack
                                           (child_actions children) of
                                      (e, stack) \<Rightarrow> Some (e, formatted, stack))
                                 }))
           }
     }"

fun format_loop ::
    "type_arena \<Rightarrow> nat \<Rightarrow> char host_array \<Rightarrow> format_action host_array
      \<Rightarrow> (host_resource_error_reason \<times> char host_array) option" where
  "format_loop ty fuel formatted stack =
     (if array_size stack = 0 then Some (HR_none, formatted)
      else case fuel of
             0 \<Rightarrow> None
           | Suc k \<Rightarrow>
               (case format_step ty formatted stack of
                  None \<Rightarrow> None
                | Some (e, formatted', stack') \<Rightarrow>
                    if e \<noteq> HR_none then Some (e, formatted')
                    else format_loop ty k formatted' stack'))"

declare format_loop.simps [simp del]

text \<open>The result when a step fails keeps the text storage and reports the resource error.\<close>

definition format_interrupted ::
    "host_resource_error_reason \<Rightarrow> char host_array \<Rightarrow> type_formatting_result" where
  "format_interrupted e formatted =
     (type_formatting_failure TI_none TF_none e)\<lparr>tf_formatted_storage := formatted\<rparr>"

definition format_finished ::
    "host_resource_error_reason \<times> char host_array \<Rightarrow> type_formatting_result" where
  "format_finished r =
     (case r of (e, formatted) \<Rightarrow>
        if e \<noteq> HR_none then format_interrupted e formatted
        else \<lparr>tf_ok = True, tf_formatted_storage = formatted,
              tf_formatted = host_array_span formatted, tf_invariant = TI_none,
              tf_error = TF_none, tf_resource_error = HR_none\<rparr>)"

definition format_valid ::
    "host_state \<Rightarrow> type_arena \<Rightarrow> type_formatting_result option \<times> host_state" where
  "format_valid h ty =
     (let nodes = length (type_nodes ty); edges = array_size (ta_child_indexes ty) in
      if nodes > size_max div 16 \<or> edges > (size_max - nodes * 16) div 2
         \<or> edges > (size_max - nodes - 1) div 2
      then (Some (type_formatting_failure TI_none TF_none HR_size_overflow), h)
      else
        let text_capacity = nodes * 16 + edges * 2;
            stack_capacity = nodes + edges * 2 + 1 in
        case allocate_host_array layout_u8 h empty_host_array text_capacity of
          (e1, formatted, h1) \<Rightarrow>
        case allocate_next e1 layout_format_action h1 stack_capacity of (e2, stack, h2) \<Rightarrow>
        if e2 \<noteq> HR_none then (Some (format_interrupted e2 formatted), h2) else
        case host_array_push stack (FormatNode (ta_root_index ty)) of
          (e3, stack) \<Rightarrow>
        if e3 \<noteq> HR_none then (Some (format_interrupted e3 formatted), h2)
        else (map_option format_finished (format_loop ty stack_capacity formatted stack), h2))"

definition format_type ::
    "host_state \<Rightarrow> type_arena \<Rightarrow> type_formatting_result option \<times> host_state" where
  "format_type h ty =
     (case validate_type h ty of
        (None, h1) \<Rightarrow> (None, h1)
      | (Some v, h1) \<Rightarrow>
          if tv_ok v then format_valid h1 ty
          else if tv_resource_error v \<noteq> HR_none
          then (Some (type_formatting_failure TI_none TF_none (tv_resource_error v)), h1)
          else (Some (type_formatting_failure (tv_invariant v) TF_invalid_type HR_none), h1))"

end
