(* ===== verification/TypeOpsCorrect.thy ===== *)
theory TypeOpsCorrect
  imports TypeOps
begin

text \<open>
  The operations of \<open>TypeOps\<close> against the trees their arenas denote: cloning is the identity
  on trees, tuple construction is the constructor \<open>TyTuple\<close>, structural equality is equality
  of trees, and formatting is the rendering of the tree. In every case the fuel, the text
  capacity and the stack capacities of the code are enough.
\<close>

section \<open>Sizes of trees and tables\<close>

fun ty_size :: "ty \<Rightarrow> nat" where
  "ty_size (TyTuple ts) = Suc (sum_list (map ty_size ts))"
| "ty_size _ = 1"

lemma ty_size_pos [simp]: "0 < ty_size t"
  by (cases t) auto

definition nodes_ok :: "type_node list \<Rightarrow> nat list \<Rightarrow> bool" where
  "nodes_ok N E \<longleftrightarrow> (\<forall>i < length N. node_locally_ok E i (N ! i))"

lemma nodes_okD: "nodes_ok N E \<Longrightarrow> i < length N \<Longrightarrow> node_locally_ok E i (N ! i)"
  by (simp add: nodes_ok_def)

lemma nodes_ok_child:
  "nodes_ok N E \<Longrightarrow> i < length N \<Longrightarrow> c \<in> set (node_children E (N ! i)) \<Longrightarrow> c < i \<and> c < length N"
  using node_children_bound [OF nodes_okD, of N E i c] by auto

lemma decode_cases:
  assumes "node_locally_ok E i (N ! i)"
  obtains (scalar) "tn_kind (N ! i) = TK_scalar" "valid_scalar_type (tn_scalar (N ! i))"
      "decode N E i = TyScalar (tn_scalar (N ! i))" "node_children E (N ! i) = []"
      "node_edges (N ! i) = []"
  | (vector) "tn_kind (N ! i) = TK_vector" "valid_scalar_type (tn_scalar (N ! i))"
      "decode N E i = TyVector (tn_scalar (N ! i))" "node_children E (N ! i) = []"
      "node_edges (N ! i) = []"
  | (tuple) "tn_kind (N ! i) = TK_tuple"
      "decode N E i = TyTuple (map (decode N E) (node_children E (N ! i)))"
      "node_edges (N ! i) =
         [tn_first_child (N ! i) ..< tn_first_child (N ! i) + tn_child_count (N ! i)]"
      "tn_first_child (N ! i) + tn_child_count (N ! i) \<le> length E"
proof (cases "tn_kind (N ! i)")
  case TK_scalar
  then show ?thesis
    using assms scalar
    by (simp add: node_locally_ok_def decode.simps node_children_def node_edges_def)
next
  case TK_vector
  then show ?thesis
    using assms vector
    by (simp add: node_locally_ok_def decode.simps node_children_def node_edges_def)
next
  case TK_tuple
  then show ?thesis
    using assms tuple node_children_ok [OF assms]
    by (simp add: node_locally_ok_def decode.simps [of N E i] node_edges_def)
next
  case (TK_unknown k)
  then show ?thesis using assms by (simp add: node_locally_ok_def)
qed

lemma length_concat_map: "length (concat (map f xs)) = sum_list (map (length \<circ> f) xs)"
  by (induction xs) auto

lemma preorder_length:
  "nodes_ok N E \<Longrightarrow> i < length N \<Longrightarrow> length (preorder N E i) = ty_size (decode N E i)"
proof (induction N E i rule: preorder.induct)
  case (1 N E i)
  have ok: "node_locally_ok E i (N ! i)" by (rule nodes_okD [OF 1(2,3)])
  have ih: "length (preorder N E c) = ty_size (decode N E c)"
    if "c \<in> set (node_children E (N ! i))" for c
    using 1(1) [of c] nodes_ok_child [OF 1(2,3) that] that 1(2) by auto
  have sums: "sum_list (map (length \<circ> preorder N E) (node_children E (N ! i))) =
      sum_list (map (ty_size \<circ> decode N E) (node_children E (N ! i)))"
    using ih by (intro arg_cong [where f = sum_list] map_cong) auto
  show ?case
    using ok
  proof (cases rule: decode_cases)
    case tuple
    then show ?thesis using sums by (simp add: preorder_ok [OF ok] length_concat_map)
  qed (simp_all add: preorder_ok [OF ok])
qed

lemma edge_order_length:
  "nodes_ok N E \<Longrightarrow> i < length N \<Longrightarrow> Suc (length (edge_order N E i)) = ty_size (decode N E i)"
proof (induction N E i rule: edge_order.induct)
  case (1 N E i)
  have ok: "node_locally_ok E i (N ! i)" by (rule nodes_okD [OF 1(2,3)])
  let ?cs = "node_children E (N ! i)"
  have ih: "Suc (length (edge_order N E c)) = ty_size (decode N E c)" if "c \<in> set ?cs" for c
    using 1(1) [of c] nodes_ok_child [OF 1(2,3) that] that 1(2) by auto
  have sums: "sum_list (map (\<lambda>c. Suc (length (edge_order N E c))) ?cs) =
      sum_list (map (ty_size \<circ> decode N E) ?cs)"
    using ih by (intro arg_cong [where f = sum_list] map_cong) auto
  have split: "sum_list (map (\<lambda>c. Suc (f c)) cs) = length cs + sum_list (map f cs)"
    for f :: "nat \<Rightarrow> nat" and cs by (induction cs) auto
  have len: "length (node_edges (N ! i)) = length ?cs" by (simp add: node_children_def)
  show ?case
    using ok
  proof (cases rule: decode_cases)
    case tuple
    then show ?thesis
      using sums len split [of "\<lambda>c. length (edge_order N E c)" ?cs]
      by (simp add: edge_order_ok [OF ok] length_concat_map comp_def)
  qed (simp_all add: edge_order_ok [OF ok])
qed

text \<open>A valid arena has one node more than it has edges, and as many nodes as its tree.\<close>

lemma arena_validD:
  assumes "arena_valid ty"
  shows "nodes_ok (type_nodes ty) (arena_edges ty)"
    and "ta_root_index ty < length (type_nodes ty)"
    and "reads (ta_child_indexes ty) (arena_edges ty)"
    and "array_size (ta_child_indexes ty) = length (arena_edges ty)"
    and "length (type_nodes ty) = ty_size (type_of_arena ty)"
    and "Suc (length (arena_edges ty)) = ty_size (type_of_arena ty)"
proof -
  let ?N = "type_nodes ty" and ?E = "arena_edges ty" and ?r = "ta_root_index ty"
  have shape: "tree_shape ?N ?E ?r" using assms by (simp add: arena_valid_def)
  show ok: "nodes_ok ?N ?E" and root: "?r < length ?N"
    using shape by (auto simp: tree_shape_def nodes_ok_def)
  show reads: "reads (ta_child_indexes ty) ?E"
    using assms reads_span by (auto simp: arena_valid_def arena_edges_def)
  then show "array_size (ta_child_indexes ty) = length ?E" by (simp add: reads_def)
  have "length (preorder ?N ?E ?r) = length ?N" "length (edge_order ?N ?E ?r) = length ?E"
    using shape by (auto simp: tree_shape_def intro!: mset_upt_perm_distinct)
  then show "length ?N = ty_size (type_of_arena ty)"
    and "Suc (length ?E) = ty_size (type_of_arena ty)"
    using preorder_length [OF ok root] edge_order_length [OF ok root]
    by (simp_all add: type_of_arena_def)
qed

lemma read_children:
  assumes "reads CE E" "node_locally_ok E i n" "tn_kind n = TK_tuple"
  shows "read_all CE [tn_first_child n ..< tn_first_child n + tn_child_count n] =
    Some (node_children E n)"
  using read_all_reads [OF assms(1), of "node_edges n"] node_edges_bound [OF assms(2)] assms(3)
  by (auto simp: node_children_def node_edges_def)

section \<open>Structural equality is equality of trees\<close>

definition work_size :: "type_arena \<Rightarrow> nat list \<Rightarrow> nat" where
  "work_size ty is = sum_list (map (\<lambda>i. ty_size (decode (type_nodes ty) (arena_edges ty) i)) is)"

lemma work_size_simps [simp]:
  "work_size ty [] = 0"
  "work_size ty (is @ js) = work_size ty is + work_size ty js"
  "work_size ty [i] = ty_size (decode (type_nodes ty) (arena_edges ty) i)"
  by (simp_all add: work_size_def)

lemma length_le_work_size: "length is \<le> work_size ty is"
proof (induction "is")
  case (Cons i js)
  have "1 \<le> ty_size (decode (type_nodes ty) (arena_edges ty) i)" using ty_size_pos by (simp add: Suc_leI)
  then show ?case using Cons by (simp add: work_size_def)
qed simp

lemma work_size_children:
  assumes "decode (type_nodes ty) (arena_edges ty) i =
      TyTuple (map (decode (type_nodes ty) (arena_edges ty)) cs)"
  shows "work_size ty [i] = Suc (work_size ty cs)"
  using assms by (simp add: work_size_def comp_def)

abbreviation subtree :: "type_arena \<Rightarrow> nat \<Rightarrow> ty" where
  "subtree ty \<equiv> decode (type_nodes ty) (arena_edges ty)"

abbreviation kids :: "type_arena \<Rightarrow> nat \<Rightarrow> nat list" where
  "kids ty i \<equiv> node_children (arena_edges ty) (type_nodes ty ! i)"

lemma kids_bound:
  "arena_valid ty \<Longrightarrow> i < length (type_nodes ty) \<Longrightarrow> c \<in> set (kids ty i) \<Longrightarrow>
     c < length (type_nodes ty)"
  using nodes_ok_child [OF arena_validD(1)] by blast

lemma kids_count: "tn_kind (type_nodes ty ! i) = TK_tuple \<Longrightarrow>
    length (kids ty i) = tn_child_count (type_nodes ty ! i)"
  by (simp add: node_children_def node_edges_def)

text \<open>One comparison: the pair is different, or both are equal leaves, or both are tuples of
  the same length whose children are still to be compared.\<close>

lemma equal_step_outcome:
  assumes L: "arena_valid left" "l < length (type_nodes left)"
    and R: "arena_valid right" "r < length (type_nodes right)"
    and fit: "fits (S @ [(l, r)]) junk cap"
    and room: "length (kids left l) = length (kids right r) \<Longrightarrow>
      length S + length (kids left l) \<le> cap"
  shows "(equal_step left right (harr (S @ [(l, r)]) junk cap) = Some (Inl (type_compared False)) \<and>
      subtree left l \<noteq> subtree right r) \<or>
    (\<exists>junk'. equal_step left right (harr (S @ [(l, r)]) junk cap) =
        Some (Inr (harr (S @ zip (kids left l) (kids right r)) junk' cap)) \<and>
      fits (S @ zip (kids left l) (kids right r)) junk' cap \<and>
      length (kids left l) = length (kids right r) \<and>
      (subtree left l = subtree right r \<longleftrightarrow>
         (\<forall>(a, b) \<in> set (zip (kids left l) (kids right r)). subtree left a = subtree right b)))"
proof -
  let ?n = "type_nodes left ! l" and ?m = "type_nodes right ! r"
  note lo = nodes_okD [OF arena_validD(1) [OF L(1)] L(2)]
    and ro = nodes_okD [OF arena_validD(1) [OF R(1)] R(2)]
  have top: "host_array_at (harr (S @ [(l, r)]) junk cap)
      (array_size (harr (S @ [(l, r)]) junk cap) - 1) = Some (l, r)"
    using fit by (simp add: harr_at harr_size)
  have pop: "host_array_pop (harr (S @ [(l, r)]) junk cap) = harr S ((l, r) # junk) cap"
    using fit by (simp add: harr_pop)
  have run: "equal_step left right (harr (S @ [(l, r)]) junk cap) =
      (let stack = harr S ((l, r) # junk) cap in
       if tn_kind ?n \<noteq> tn_kind ?m then Some (Inl (type_compared False))
       else if (tn_kind ?n = TK_scalar \<or> tn_kind ?n = TK_vector) \<and> tn_scalar ?n \<noteq> tn_scalar ?m
       then Some (Inl (type_compared False))
       else if tn_kind ?n \<noteq> TK_tuple then Some (Inr stack)
       else if tn_child_count ?n \<noteq> tn_child_count ?m then Some (Inl (type_compared False))
       else do {
         lefts \<leftarrow> read_all (ta_child_indexes left)
                    [tn_first_child ?n ..< tn_first_child ?n + tn_child_count ?n];
         rights \<leftarrow> read_all (ta_child_indexes right)
                    [tn_first_child ?m ..< tn_first_child ?m + tn_child_count ?n];
         (case push_all host_array_push stack (zip lefts rights) of
            (e, stack) \<Rightarrow>
              if e \<noteq> HR_none then Some (Inl (type_comparison_failure TI_none e))
              else Some (Inr stack))
       })"
    unfolding equal_step_def top pop Let_def
    using L(2) R(2) by (simp cong: if_cong)
  show ?thesis
    using lo
  proof (cases rule: decode_cases)
    case scalar
    note sc = scalar
    show ?thesis using ro
      by (cases rule: decode_cases) (use sc fit in \<open>auto simp: run Let_def\<close>)
  next
    case vector
    note vc = vector
    show ?thesis using ro
      by (cases rule: decode_cases) (use vc fit in \<open>auto simp: run Let_def\<close>)
  next
    case tuple
    note tl = tuple
    show ?thesis
      using ro
    proof (cases rule: decode_cases)
      case tuple
      note tr = tuple
      show ?thesis
      proof (cases "length (kids left l) = length (kids right r)")
        case False
        then have "tn_child_count ?n \<noteq> tn_child_count ?m"
          using tl(1) tr(1) by (simp add: kids_count)
        moreover have "subtree left l \<noteq> subtree right r"
          using False tl(2) tr(2) by (metis length_map ty.inject(3))
        ultimately show ?thesis using tl tr by (simp add: run Let_def)
      next
        case True
        then have count: "tn_child_count ?n = tn_child_count ?m"
          using tl(1) tr(1) by (simp add: kids_count)
        note reads = read_children [OF arena_validD(3) [OF L(1)] lo tl(1)]
          read_children [OF arena_validD(3) [OF R(1)] ro tr(1)]
        let ?ps = "zip (kids left l) (kids right r)"
        have fit': "fits S ((l, r) # junk) cap" using fit by simp
        have room': "length S + length ?ps \<le> cap" using room True by simp
        have "equal_step left right (harr (S @ [(l, r)]) junk cap) =
            Some (Inr (harr (S @ ?ps) (drop (length ?ps) ((l, r) # junk)) cap))"
          using tl tr count reads push_all_harr [OF fit' room'] by (simp add: run Let_def)
        moreover have "fits (S @ ?ps) (drop (length ?ps) ((l, r) # junk)) cap"
          using fit room' by auto
        moreover have "subtree left l = subtree right r \<longleftrightarrow>
            (\<forall>(a, b) \<in> set ?ps. subtree left a = subtree right b)"
          using True tl(2) tr(2)
          by (auto simp: list_eq_iff_nth_eq set_zip split: prod.splits)
        ultimately show ?thesis using True by blast
      qed
    qed (use tl in \<open>auto simp: run Let_def\<close>)
  qed
qed

lemma equal_loop_outcome:
  assumes "arena_valid left" "arena_valid right"
    and "\<forall>(l, r) \<in> set S. l < length (type_nodes left) \<and> r < length (type_nodes right)"
    and "cap = min (length (type_nodes left)) (length (type_nodes right))"
    and "fits S junk cap" "work_size left (map fst S) \<le> length (type_nodes left)"
    and "work_size right (map snd S) \<le> length (type_nodes right)"
    and "work_size left (map fst S) \<le> fuel"
  shows "equal_loop left right fuel (harr S junk cap) =
    Some (type_compared (\<forall>(l, r) \<in> set S. subtree left l = subtree right r))"
  using assms
proof (induction fuel arbitrary: S junk)
  case 0
  then have "S = []" using length_le_work_size [of "map fst S" left] by simp
  then show ?case by (subst equal_loop.simps) (use 0 in \<open>simp add: harr_size\<close>)
next
  case (Suc k)
  show ?case
  proof (cases S rule: rev_cases)
    case Nil
    then show ?thesis by (subst equal_loop.simps) (use Suc.prems in \<open>simp add: harr_size\<close>)
  next
    case (snoc S' p)
    obtain l r where p: "p = (l, r)" by (cases p)
    have lr: "l < length (type_nodes left)" "r < length (type_nodes right)"
      using Suc.prems(3) snoc p by auto
    note lo = nodes_okD [OF arena_validD(1) [OF Suc.prems(1)] lr(1)]
      and ro = nodes_okD [OF arena_validD(1) [OF Suc.prems(2)] lr(2)]
    have wl: "work_size left [l] = Suc (work_size left (kids left l))"
      using lo by (cases rule: decode_cases) (simp_all add: work_size_def comp_def)
    have wr: "work_size right [r] = Suc (work_size right (kids right r))"
      using ro by (cases rule: decode_cases) (simp_all add: work_size_def comp_def)
    have sums: "work_size left (map fst S') + Suc (work_size left (kids left l)) =
        work_size left (map fst S)"
      "work_size right (map snd S') + Suc (work_size right (kids right r)) =
        work_size right (map snd S)"
      using snoc p wl wr by (auto simp flip: work_size_simps(3))
    have loop: "equal_loop left right (Suc k) (harr S junk cap) =
        (case equal_step left right (harr S junk cap) of
           None \<Rightarrow> None
         | Some (Inl r) \<Rightarrow> Some r
         | Some (Inr stack') \<Rightarrow> equal_loop left right k stack')"
      by (subst equal_loop.simps) (use Suc.prems(5) snoc in \<open>simp add: harr_size\<close>)
    have fit: "fits (S' @ [(l, r)]) junk cap" using Suc.prems(5) snoc p by simp
    have half: "length S' + length (kids left l) \<le> length (type_nodes left)"
      using length_le_work_size [of "map fst S'" left] length_le_work_size [of "kids left l" left]
        sums(1) Suc.prems(6) by simp
    have other: "length S' + length (kids right r) \<le> length (type_nodes right)"
      using length_le_work_size [of "map snd S'" right]
        length_le_work_size [of "kids right r" right] sums(2) Suc.prems(7) by simp
    have S: "S = S' @ [(l, r)]" using snoc p by simp
    have room: "length (kids left l) = length (kids right r) \<Longrightarrow>
        length S' + length (kids left l) \<le> cap"
      using half other Suc.prems(4) by simp
    consider (differ) "equal_step left right (harr S junk cap) = Some (Inl (type_compared False))"
        "subtree left l \<noteq> subtree right r"
      | (same) junk' where "equal_step left right (harr S junk cap) =
          Some (Inr (harr (S' @ zip (kids left l) (kids right r)) junk' cap))"
        "fits (S' @ zip (kids left l) (kids right r)) junk' cap"
        "length (kids left l) = length (kids right r)"
        "subtree left l = subtree right r \<longleftrightarrow>
         (\<forall>(a, b) \<in> set (zip (kids left l) (kids right r)). subtree left a = subtree right b)"
      using equal_step_outcome [OF Suc.prems(1) lr(1) Suc.prems(2) lr(2) fit room]
      unfolding S by blast
    then show ?thesis
    proof cases
      case differ
      then show ?thesis using loop snoc p by auto
    next
      case same
      let ?S = "S' @ zip (kids left l) (kids right r)"
      have "equal_loop left right k (harr ?S junk' cap) =
          Some (type_compared (\<forall>(l, r) \<in> set ?S. subtree left l = subtree right r))"
      proof (rule Suc.IH [OF Suc.prems(1,2) _ Suc.prems(4) same(2)])
        show "\<forall>(l, r) \<in> set ?S. l < length (type_nodes left) \<and> r < length (type_nodes right)"
          using Suc.prems(3) snoc kids_bound [OF Suc.prems(1) lr(1)]
            kids_bound [OF Suc.prems(2) lr(2)] by (auto dest: set_zip_leftD set_zip_rightD)
      qed (use same(3) sums Suc.prems(6-8) in simp_all)
      moreover have "(\<forall>(l, r) \<in> set ?S. subtree left l = subtree right r) \<longleftrightarrow>
          (\<forall>(l, r) \<in> set S. subtree left l = subtree right r)"
        unfolding S set_append ball_Un same(4) [symmetric] by auto
      ultimately show ?thesis using loop same(1) by simp
    qed
  qed
qed

lemma validate_typeE:
  assumes "validate_type h ty = (res, h')"
  obtains (accepted) "res = Some valid_type" "arena_valid ty"
  | (refused) v where "res = Some v" "\<not> tv_ok v"
      "tv_resource_error v \<noteq> HR_none \<or> \<not> arena_valid ty \<and> tv_invariant v \<noteq> TI_none"
proof -
  obtain v where "res = Some v" "decided ty v"
    using validate_type_outcome [OF assms] by blast
  then show ?thesis
    using accepted refused by (cases "tv_ok v") (auto simp: decided_def rejection_def split: if_splits)
qed

lemma validate_valid_roomy:
  assumes "arena_valid ty" "roomy h (n + 4)" "small_arena ty"
  shows "\<exists>h'. validate_type h ty = (Some valid_type, h') \<and> roomy h' n"
proof -
  obtain v h' where v: "validate_type h ty = (Some v, h')" "tv_resource_error v = HR_none"
    "roomy h' n" using validate_type_roomy [OF assms(2,3)] by blast
  then have "v = valid_type" using assms(1) by (cases rule: validate_typeE [OF v(1)]) auto
  then show ?thesis using v by blast
qed

lemma valid_type_ok [simp]: "tv_ok valid_type"
  by (simp add: valid_type_def)

lemma compare_valid_outcome:
  assumes "arena_valid left" "arena_valid right"
  shows "\<exists>h' x. compare_valid h left right = (Some x, h') \<and>
    (if te_ok x then x = type_compared (type_of_arena left = type_of_arena right)
     else te_resource_error x \<noteq> HR_none \<and> \<not> (roomy h 1 \<and> small_arena left))"
proof -
  let ?cap = "min (length (type_nodes left)) (length (type_nodes right))"
  have cap: "0 < ?cap"
    using arena_validD(2) [OF assms(1)] arena_validD(2) [OF assms(2)] by auto
  obtain e stack h1 where alloc: "allocate_host_array layout_node_pair h
      (empty_host_array :: (nat \<times> nat) host_array) ?cap = (e, stack, h1)"
    by (metis prod_cases3)
  show ?thesis
  proof (cases "e = HR_none")
    case False
    have "\<not> (roomy h 1 \<and> small_arena left)"
    proof
      assume "roomy h 1 \<and> small_arena left"
      then have room: "roomy h (Suc 0)" "?cap \<le> 2 ^ 50" by (auto simp: small_arena_def)
      obtain h' where "allocate_host_array layout_node_pair h
          (empty_host_array :: (nat \<times> nat) host_array) ?cap = (HR_none, harr [] [] ?cap, h')"
        using allocate_roomy [OF room(1) sane_layouts(4) room(2)] by blast
      then show False using alloc False by simp
    qed
    then show ?thesis
      using alloc False by (simp add: compare_valid_def type_comparison_failure_def)
  next
    case True
    have stack: "stack = harr [] [] ?cap" using alloc True by (auto dest: allocated_empty)
    let ?root = "(ta_root_index left, ta_root_index right)"
    have push: "host_array_push (harr [] [] ?cap) ?root = (HR_none, harr [?root] [] ?cap)"
      using cap by (simp add: harr_push)
    have sizes: "work_size left [ta_root_index left] = length (type_nodes left)"
      "work_size right [ta_root_index right] = length (type_nodes right)"
      using arena_validD(5) [OF assms(1)] arena_validD(5) [OF assms(2)]
      by (simp_all add: type_of_arena_def)
    have "equal_loop left right (length (type_nodes left)) (harr [?root] [] ?cap) =
      Some (type_compared (\<forall>(l, r) \<in> set [?root]. subtree left l = subtree right r))"
      by (rule equal_loop_outcome [OF assms _ refl])
         (use sizes cap arena_validD(2) [OF assms(1)] arena_validD(2) [OF assms(2)] in auto)
    then have "compare_valid h left right =
        (Some (type_compared (type_of_arena left = type_of_arena right)), h1)"
      using alloc True stack push by (simp add: compare_valid_def type_of_arena_def)
    then show ?thesis by (simp add: type_compared_def)
  qed
qed

section \<open>Formatting is rendering\<close>

fun join :: "string \<Rightarrow> string list \<Rightarrow> string" where
  "join sep [] = []"
| "join sep [x] = x"
| "join sep (x # xs) = x @ sep @ join sep xs"

fun render :: "ty \<Rightarrow> string" where
  "render (TyScalar s) = scalar_type_name s"
| "render (TyVector s) = ''Vector<'' @ scalar_type_name s @ ''>''"
| "render (TyTuple ts) = ''Tuple<'' @ join '', '' (map render ts) @ ''>''"

lemma scalar_type_name_length: "length (scalar_type_name s) \<le> 6"
  by (cases s) (simp_all add: scalar_type_name_def)

lemma length_join:
  "length (join sep xs) = sum_list (map length xs) + (length xs - 1) * length sep"
  by (induction sep xs rule: join.induct) auto

lemma render_length: "length (render t) + 2 \<le> 18 * ty_size t"
proof (induction t)
  case (TyScalar s)
  then show ?case using scalar_type_name_length [of s] by simp
next
  case (TyVector s)
  then show ?case using scalar_type_name_length [of s] by simp
next
  case (TyTuple ts)
  have "sum_list (map (\<lambda>t. length (render t)) ts) + 2 * length ts \<le>
      18 * sum_list (map ty_size ts)"
    using TyTuple by (induction ts) (simp_all, fastforce)
  then show ?case by (cases ts) (simp_all add: length_join comp_def)
qed

text \<open>The actions one node generates altogether, its own included.\<close>

fun ty_actions :: "ty \<Rightarrow> nat" where
  "ty_actions (TyTuple ts) = 2 + (length ts - 1) + sum_list (map ty_actions ts)"
| "ty_actions _ = 1"

lemma ty_actions_bound: "ty_actions t + 1 \<le> 3 * ty_size t"
proof (induction t)
  case (TyTuple ts)
  have "sum_list (map ty_actions ts) + length ts \<le> 3 * sum_list (map ty_size ts)"
    using TyTuple by (induction ts) (simp_all, fastforce)
  then show ?case by (cases ts) simp_all
qed simp_all

lemma ty_actions_pos: "0 < ty_actions t"
  by (cases t) auto

fun action_text :: "type_arena \<Rightarrow> format_action \<Rightarrow> string" where
  "action_text ty (FormatText t) = t"
| "action_text ty (FormatNode i) = render (subtree ty i)"

fun action_work :: "type_arena \<Rightarrow> format_action \<Rightarrow> nat" where
  "action_work ty (FormatText t) = 1"
| "action_work ty (FormatNode i) = ty_actions (subtree ty i)"

fun action_ok :: "type_arena \<Rightarrow> format_action \<Rightarrow> bool" where
  "action_ok ty (FormatText t) = True"
| "action_ok ty (FormatNode i) = (i < length (type_nodes ty))"

definition stack_text :: "type_arena \<Rightarrow> format_action list \<Rightarrow> string" where
  "stack_text ty S = concat (map (action_text ty) (rev S))"

definition stack_work :: "type_arena \<Rightarrow> format_action list \<Rightarrow> nat" where
  "stack_work ty S = sum_list (map (action_work ty) S)"

lemma stack_simps [simp]:
  "stack_text ty [] = []" "stack_text ty (S @ T) = stack_text ty T @ stack_text ty S"
  "stack_text ty (a # S) = stack_text ty S @ action_text ty a"
  "stack_work ty [] = 0" "stack_work ty (S @ T) = stack_work ty S + stack_work ty T"
  "stack_work ty (a # S) = action_work ty a + stack_work ty S"
  by (simp_all add: stack_text_def stack_work_def)

lemma child_actions_text:
  "stack_text ty (child_actions cs) = join '', '' (map (\<lambda>c. render (subtree ty c)) cs)"
  by (induction cs rule: child_actions.induct) auto

lemma child_actions_work:
  "stack_work ty (child_actions cs) =
     (length cs - 1) + sum_list (map (\<lambda>c. ty_actions (subtree ty c)) cs)"
  by (induction cs rule: child_actions.induct) auto

lemma child_actions_ok:
  "\<forall>c \<in> set cs. c < length (type_nodes ty) \<Longrightarrow> \<forall>a \<in> set (child_actions cs). action_ok ty a"
  by (induction cs rule: child_actions.induct) auto

lemma length_le_stack_work: "length S \<le> stack_work ty S"
proof (induction S)
  case (Cons a S)
  have "1 \<le> action_work ty a" using ty_actions_pos by (cases a) (simp_all add: Suc_leI)
  then show ?case using Cons by simp
qed simp

lemma append_text_harr:
  "length F + length t \<le> tcap \<Longrightarrow> append_text (harr F [] tcap) t = (HR_none, harr (F @ t) [] tcap)"
  using push_all_harr [of F "[]" tcap t] by (simp add: append_text_def)

lemma format_leaf_outcome:
  assumes "tn_kind n = TK_scalar \<or> tn_kind n = TK_vector"
    and "length F + length (if tn_kind n = TK_scalar then scalar_type_name (tn_scalar n)
           else ''Vector<'' @ scalar_type_name (tn_scalar n) @ ''>'') \<le> tcap"
  shows "format_leaf (harr F [] tcap) n =
    (HR_none, harr (F @ (if tn_kind n = TK_scalar then scalar_type_name (tn_scalar n)
       else ''Vector<'' @ scalar_type_name (tn_scalar n) @ ''>'')) [] tcap)"
  using assms by (auto simp: format_leaf_def append_text_harr)

text \<open>One action: the text it stands for moves from the stack to the output.\<close>

lemma format_step_outcome:
  assumes "arena_valid ty" "action_ok ty a" "fits (S @ [a]) junk cap"
    and "length F + length (stack_text ty (S @ [a])) \<le> tcap"
    and "stack_work ty (S @ [a]) \<le> cap"
  shows "\<exists>F' T junk'. format_step ty (harr F [] tcap) (harr (S @ [a]) junk cap) =
      Some (HR_none, harr F' [] tcap, harr (S @ T) junk' cap) \<and>
    fits (S @ T) junk' cap \<and> F' @ stack_text ty T = F @ action_text ty a \<and>
    length F' + length (stack_text ty (S @ T)) \<le> tcap \<and>
    (\<forall>b \<in> set T. action_ok ty b) \<and> stack_work ty (S @ T) < stack_work ty (S @ [a])"
proof -
  have top: "host_array_at (harr (S @ [a]) junk cap)
      (array_size (harr (S @ [a]) junk cap) - 1) = Some a"
    using assms(3) by (simp add: harr_at harr_size)
  have pop: "host_array_pop (harr (S @ [a]) junk cap) = harr S (a # junk) cap"
    using assms(3) by (simp add: harr_pop)
  show ?thesis
  proof (cases a)
    case (FormatText t)
    have "format_step ty (harr F [] tcap) (harr (S @ [a]) junk cap) =
        Some (HR_none, harr (F @ t) [] tcap, harr S (a # junk) cap)"
      unfolding format_step_def top pop using assms(4) FormatText
      by (simp add: append_text_harr)
    then show ?thesis
      using assms(3,4) FormatText
      by (intro exI [of _ "F @ t"] exI [of _ "[]"] exI [of _ "a # junk"]) simp
  next
    case (FormatNode i)
    let ?n = "type_nodes ty ! i"
    have i: "i < length (type_nodes ty)" using assms(2) FormatNode by simp
    note ok = nodes_okD [OF arena_validD(1) [OF assms(1)] i]
    consider (leaf) "tn_kind ?n = TK_scalar \<or> tn_kind ?n = TK_vector"
        "render (subtree ty i) = (if tn_kind ?n = TK_scalar then scalar_type_name (tn_scalar ?n)
           else ''Vector<'' @ scalar_type_name (tn_scalar ?n) @ ''>'')"
      | (tuple) "tn_kind ?n = TK_tuple" "subtree ty i = TyTuple (map (subtree ty) (kids ty i))"
      using ok by (cases rule: decode_cases) auto
    then show ?thesis
    proof cases
      case leaf
      have "format_leaf (harr F [] tcap) ?n = (HR_none, harr (F @ render (subtree ty i)) [] tcap)"
        unfolding leaf(2)
        by (rule format_leaf_outcome [OF leaf(1)]) (use assms(4) FormatNode leaf(2) in simp)
      then have "format_step ty (harr F [] tcap) (harr (S @ [a]) junk cap) =
          Some (HR_none, harr (F @ render (subtree ty i)) [] tcap, harr S (a # junk) cap)"
        unfolding format_step_def top pop using FormatNode leaf(1) i by simp
      then show ?thesis
        using assms(3,4) FormatNode ty_actions_pos [of "subtree ty i"]
        by (intro exI [of _ "F @ render (subtree ty i)"] exI [of _ "[]"] exI [of _ "a # junk"])
           simp
    next
      case tuple
      let ?acts = "child_actions (kids ty i)"
      let ?T = "FormatText ''>'' # ?acts"
      have work: "stack_work ty (S @ ?T) < stack_work ty (S @ [a])"
        using FormatNode tuple(2) by (simp add: child_actions_work comp_def)
      have txt_eq: "''Tuple<'' @ stack_text ty ?T = action_text ty a"
        using FormatNode tuple(2) by (simp add: child_actions_text comp_def)
      have room: "length S + length ?T \<le> cap"
        using length_le_stack_work [of "S @ ?T" ty] work assms(5) by simp
      have shown: "append_text (harr F [] tcap) ''Tuple<'' =
          (HR_none, harr (F @ ''Tuple<'') [] tcap)"
        using assms(4) unfolding stack_simps txt_eq [symmetric] by (intro append_text_harr) simp
      have push: "host_array_push (harr S (a # junk) cap) (FormatText ''>'') =
          (HR_none, harr (S @ [FormatText ''>'']) junk cap)"
        using assms(3) room by (simp add: harr_push)
      have fit: "fits (S @ [FormatText ''>'']) junk cap" using assms(3) by simp
      have pushes: "push_all host_array_push (harr (S @ [FormatText ''>'']) junk cap) ?acts =
          (HR_none, harr (S @ ?T) (drop (length ?acts) junk) cap)"
        using push_all_harr [OF fit, of ?acts] room by simp
      have "format_step ty (harr F [] tcap) (harr (S @ [a]) junk cap) =
          Some (HR_none, harr (F @ ''Tuple<'') [] tcap, harr (S @ ?T) (drop (length ?acts) junk) cap)"
        unfolding format_step_def top pop
        using FormatNode tuple(1) i shown push pushes
          read_children [OF arena_validD(3) [OF assms(1)] ok tuple(1)] by simp
      moreover have "\<forall>b \<in> set ?T. action_ok ty b"
        using child_actions_ok [of "kids ty i" ty] kids_bound [OF assms(1) i] by simp
      moreover have "(F @ ''Tuple<'') @ stack_text ty ?T = F @ action_text ty a"
        using txt_eq by simp
      moreover have "length (F @ ''Tuple<'') + length (stack_text ty (S @ ?T)) \<le> tcap"
        using assms(4) unfolding stack_simps txt_eq [symmetric] by simp
      moreover have "fits (S @ ?T) (drop (length ?acts) junk) cap"
        using assms(3) room by auto
      ultimately show ?thesis using work by blast
    qed
  qed
qed

lemma format_loop_outcome:
  assumes "arena_valid ty" "\<forall>a \<in> set S. action_ok ty a" "fits S junk cap"
    and "length F + length (stack_text ty S) \<le> tcap" "stack_work ty S \<le> cap"
    and "stack_work ty S \<le> fuel"
  shows "format_loop ty fuel (harr F [] tcap) (harr S junk cap) =
    Some (HR_none, harr (F @ stack_text ty S) [] tcap)"
  using assms
proof (induction fuel arbitrary: F S junk)
  case 0
  then have "S = []" using length_le_stack_work [of S ty] by simp
  then show ?case by (subst format_loop.simps) (use 0 in \<open>simp add: harr_size\<close>)
next
  case (Suc k)
  show ?case
  proof (cases S rule: rev_cases)
    case Nil
    then show ?thesis by (subst format_loop.simps) (use Suc.prems in \<open>simp add: harr_size\<close>)
  next
    case (snoc S' a)
    obtain F' T junk' where step:
        "format_step ty (harr F [] tcap) (harr S junk cap) =
           Some (HR_none, harr F' [] tcap, harr (S' @ T) junk' cap)"
      and next_state: "fits (S' @ T) junk' cap" "F' @ stack_text ty T = F @ action_text ty a"
        "length F' + length (stack_text ty (S' @ T)) \<le> tcap" "\<forall>b \<in> set T. action_ok ty b"
        "stack_work ty (S' @ T) < stack_work ty S"
      using format_step_outcome [OF Suc.prems(1), of a S' junk cap F tcap] Suc.prems(2-5)
      unfolding snoc by auto
    have loop: "format_loop ty (Suc k) (harr F [] tcap) (harr S junk cap) =
        format_loop ty k (harr F' [] tcap) (harr (S' @ T) junk' cap)"
      by (subst format_loop.simps) (use Suc.prems(3) snoc step in \<open>simp add: harr_size\<close>)
    have "format_loop ty k (harr F' [] tcap) (harr (S' @ T) junk' cap) =
        Some (HR_none, harr (F' @ stack_text ty (S' @ T)) [] tcap)"
      by (rule Suc.IH [OF Suc.prems(1)]) (use next_state Suc.prems snoc in auto)
    also have "F' @ stack_text ty (S' @ T) = F @ stack_text ty S"
      using next_state(2) snoc by (simp flip: append_assoc)
    finally show ?thesis using loop by simp
  qed
qed

lemma format_capacities:
  assumes "arena_valid ty"
  shows "length (render (type_of_arena ty)) \<le>
      length (type_nodes ty) * 16 + array_size (ta_child_indexes ty) * 2"
    and "ty_actions (type_of_arena ty) \<le>
      length (type_nodes ty) + array_size (ta_child_indexes ty) * 2 + 1"
  using render_length [of "type_of_arena ty"] ty_actions_bound [of "type_of_arena ty"]
    arena_validD(4-6) [OF assms] by linarith+

lemma format_valid_outcome:
  assumes "arena_valid ty"
  shows "\<exists>h' x. format_valid h ty = (Some x, h') \<and>
    (if tf_ok x
     then tf_formatted x = render (type_of_arena ty) \<and> tf_resource_error x = HR_none
     else tf_resource_error x \<noteq> HR_none \<and>
       \<not> (roomy h 2 \<and> length (type_nodes ty) \<le> 2 ^ 45))"
proof -
  let ?n = "length (type_nodes ty)" and ?m = "array_size (ta_child_indexes ty)"
  let ?tcap = "?n * 16 + ?m * 2" and ?scap = "?n + ?m * 2 + 1"
  have nm: "?n = Suc ?m" using arena_validD(4-6) [OF assms] by simp
  have small: "?n > size_max div 16 \<or> ?m > (size_max - ?n * 16) div 2 \<or>
      ?m > (size_max - ?n - 1) div 2 \<Longrightarrow> \<not> ?n \<le> 2 ^ 45"
    using nm by (auto simp: size_max_def)
  have failed: "\<not> tf_ok (type_formatting_failure TI_none TF_none e)"
    "tf_resource_error (type_formatting_failure TI_none TF_none e) = e"
    "\<not> tf_ok (format_interrupted e f)" "tf_resource_error (format_interrupted e f) = e" for e f
    by (simp_all add: type_formatting_failure_def format_interrupted_def)
  show ?thesis
  proof (cases "?n > size_max div 16 \<or> ?m > (size_max - ?n * 16) div 2 \<or>
      ?m > (size_max - ?n - 1) div 2")
    case True
    then show ?thesis using small failed by (simp add: format_valid_def Let_def)
  next
    case in_range: False
    obtain e1 formatted h1 where 1: "allocate_host_array layout_u8 h
        (empty_host_array :: char host_array) ?tcap = (e1, formatted, h1)"
      by (metis prod_cases3)
    obtain e2 stack h2 where 2: "allocate_next e1 layout_format_action h1 ?scap =
        (e2, stack :: format_action host_array, h2)" by (metis prod_cases3)
    show ?thesis
    proof (cases "e2 = HR_none")
      case False
      have "\<not> (roomy h 2 \<and> ?n \<le> 2 ^ 45)"
      proof
        assume room: "roomy h 2 \<and> ?n \<le> 2 ^ 45"
        then have caps: "?tcap \<le> 2 ^ 50" "?scap \<le> 2 ^ 50" using nm by simp_all
        have two: "roomy h (Suc (Suc 0))"
          using conjunct1 [OF room] by (simp add: numeral_2_eq_2)
        obtain h1' where "allocate_host_array layout_u8 h (empty_host_array :: char host_array)
            ?tcap = (HR_none, harr [] [] ?tcap, h1')" "roomy h1' (Suc 0)"
          using allocate_roomy [OF two sane_layouts(1) caps(1)] by blast
        then have e1: "e1 = HR_none" and one: "roomy h1 (Suc 0)" using 1 by simp_all
        obtain h2' where "allocate_next HR_none layout_format_action h1 ?scap =
            (HR_none, harr [] [] ?scap :: format_action host_array, h2')"
          using allocate_next_roomy [OF one sane_layouts(5) caps(2)] by blast
        then show False using 2 e1 False by simp
      qed
      then show ?thesis
        using 1 2 in_range False failed by (simp add: format_valid_def Let_def)
    next
      case True
      have empty: "formatted = harr [] [] ?tcap" "stack = harr [] [] ?scap"
        using 1 2 True by (auto dest!: allocate_next_none allocated_empty)
      let ?root = "FormatNode (ta_root_index ty)"
      have push: "host_array_push (harr [] [] ?scap) ?root = (HR_none, harr [?root] [] ?scap)"
        by (simp add: harr_push)
      have "format_loop ty ?scap (harr [] [] ?tcap) (harr [?root] [] ?scap) =
          Some (HR_none, harr ([] @ stack_text ty [?root]) [] ?tcap)"
        by (rule format_loop_outcome [OF assms])
           (use format_capacities [OF assms] arena_validD(2) [OF assms] in
             \<open>simp_all add: type_of_arena_def\<close>)
      then have "format_valid h ty =
          (Some (format_finished (HR_none, harr (render (type_of_arena ty)) [] ?tcap)), h2)"
        using 1 2 in_range True empty push
        by (simp add: format_valid_def Let_def type_of_arena_def)
      then show ?thesis
        using format_capacities(1) [OF assms] by (simp add: format_finished_def harr_span)
    qed
  qed
qed

section \<open>Relocating tables\<close>

text \<open>A tree keeps its shape when its tables are embedded in larger ones: node indexes move
  by the number of nodes in front, table positions by the number of entries in front.\<close>

definition embeds ::
    "type_node list \<Rightarrow> nat list \<Rightarrow> nat \<Rightarrow> nat \<Rightarrow> type_node list \<Rightarrow> nat list \<Rightarrow> bool" where
  "embeds N E no eo N' E' \<longleftrightarrow>
     no + length N \<le> length N' \<and> eo + length E \<le> length E' \<and>
     (\<forall>i < length N. N' ! (no + i) = shift_node eo (N ! i)) \<and>
     (\<forall>e < length E. E' ! (eo + e) = no + E ! e)"

lemma shift_node_zero [simp]: "shift_node 0 n = n"
  by (simp add: shift_node_def)

lemma embeds_prefix: "embeds N E 0 0 (N @ P) (E @ Q)"
  by (simp add: embeds_def nth_append)

lemma embeds_block:
  "embeds N E (length P) (length Q) (P @ map (shift_node (length Q)) N)
     (Q @ map (\<lambda>c. c + length P) E)"
  by (simp add: embeds_def nth_append)

lemma shift_node_sel [simp]:
  "tn_kind (shift_node eo n) = tn_kind n" "tn_scalar (shift_node eo n) = tn_scalar n"
  "tn_child_count (shift_node eo n) = tn_child_count n"
  by (simp_all add: shift_node_def)

lemma shift_node_edges: "node_edges (shift_node eo n) = map ((+) eo) (node_edges n)"
proof (cases "tn_kind n = TK_tuple")
  case True
  then show ?thesis
    by (intro nth_equalityI) (simp_all add: node_edges_def shift_node_def)
next
  case False
  then show ?thesis by (simp add: node_edges_def shift_node_def)
qed

lemma embeds_node:
  assumes "embeds N E no eo N' E'" "node_locally_ok E i (N ! i)" "i < length N"
  shows "node_children E' (N' ! (no + i)) = map ((+) no) (node_children E (N ! i))"
    and "node_edges (N' ! (no + i)) = map ((+) eo) (node_edges (N ! i))"
    and "node_locally_ok E' (no + i) (N' ! (no + i))"
proof -
  have n: "N' ! (no + i) = shift_node eo (N ! i)" using assms by (simp add: embeds_def)
  show edges: "node_edges (N' ! (no + i)) = map ((+) eo) (node_edges (N ! i))"
    by (simp add: n shift_node_edges)
  show kids: "node_children E' (N' ! (no + i)) = map ((+) no) (node_children E (N ! i))"
    using assms(1) node_edges_bound [OF assms(2)]
    by (simp add: node_children_def edges embeds_def)
  show "node_locally_ok E' (no + i) (N' ! (no + i))"
  proof (cases "tn_kind (N ! i) = TK_tuple")
    case True
    then show ?thesis
      using assms kids unfolding n
      by (auto simp: node_locally_ok_def shift_node_def embeds_def)
  next
    case False
    then have "shift_node eo (N ! i) = N ! i" by (simp add: shift_node_def)
    then show ?thesis
      using assms(2) False unfolding n by (simp add: node_locally_ok_def split: type_kind.splits)
  qed
qed

lemma embeds_preorder:
  "\<lbrakk>embeds N E no eo N' E'; nodes_ok N E; i < length N\<rbrakk> \<Longrightarrow>
     preorder N' E' (no + i) = map ((+) no) (preorder N E i)"
proof (induction N E i rule: preorder.induct)
  case (1 N E i)
  note ok = nodes_okD [OF 1(3,4)]
  note em = embeds_node [OF 1(2) ok 1(4)]
  have ih: "preorder N' E' (no + c) = map ((+) no) (preorder N E c)"
    if "c \<in> set (node_children E (N ! i))" for c
    using 1(1) [of c] nodes_ok_child [OF 1(3,4) that] that 1(2,3) by simp
  show ?case
    unfolding preorder_ok [OF ok] preorder_ok [OF em(3)] em(1)
    using ih by (simp add: map_concat comp_def cong: map_cong)
qed

lemma embeds_edge_order:
  "\<lbrakk>embeds N E no eo N' E'; nodes_ok N E; i < length N\<rbrakk> \<Longrightarrow>
     edge_order N' E' (no + i) = map ((+) eo) (edge_order N E i)"
proof (induction N E i rule: edge_order.induct)
  case (1 N E i)
  note ok = nodes_okD [OF 1(3,4)]
  note em = embeds_node [OF 1(2) ok 1(4)]
  have ih: "edge_order N' E' (no + c) = map ((+) eo) (edge_order N E c)"
    if "c \<in> set (node_children E (N ! i))" for c
    using 1(1) [of c] nodes_ok_child [OF 1(3,4) that] that 1(2,3) by simp
  show ?case
    unfolding edge_order_ok [OF ok] edge_order_ok [OF em(3)] em(1,2)
    using ih by (simp add: map_concat comp_def cong: map_cong)
qed

lemma embeds_decode:
  "\<lbrakk>embeds N E no eo N' E'; nodes_ok N E; i < length N\<rbrakk> \<Longrightarrow>
     decode N' E' (no + i) = decode N E i"
proof (induction N E i rule: decode.induct)
  case (1 N E i)
  note ok = nodes_okD [OF 1(3,4)]
  note em = embeds_node [OF 1(2) ok 1(4)]
  have same: "tn_kind (N' ! (no + i)) = tn_kind (N ! i)"
    "tn_scalar (N' ! (no + i)) = tn_scalar (N ! i)"
    using 1(2,4) by (simp_all add: embeds_def)
  have ih: "decode N' E' (no + c) = decode N E c"
    if "c \<in> set (node_children E (N ! i))" "tn_kind (N ! i) = TK_tuple" for c
    using 1(1) [of c] nodes_ok_child [OF 1(3,4) that(1)] that 1(2,3) by simp
  show ?case
    using ok
  proof (cases rule: decode_cases)
    case tuple
    note t = tuple
    show ?thesis
      using em(3)
    proof (cases rule: decode_cases)
      case tuple
      then show ?thesis using t(1,2) ih em(1) by (simp add: comp_def cong: map_cong)
    qed (use t same in simp_all)
  qed (use same in \<open>subst decode.simps, simp\<close>)+
qed

section \<open>Tuple construction builds the tuple tree\<close>

text \<open>The tables under construction hold a forest, one tree for each element so far.\<close>

definition forest :: "type_node list \<Rightarrow> nat list \<Rightarrow> nat list \<Rightarrow> bool" where
  "forest N E R \<longleftrightarrow>
     nodes_ok N E \<and> (\<forall>r \<in> set R. r < length N) \<and>
     distinct (visit N E R) \<and> set (visit N E R) = {..<length N} \<and>
     distinct (edges_of N E R) \<and> set (edges_of N E R) = {..<length E}"

lemma forest_empty: "forest [] [] []"
  by (simp add: forest_def nodes_ok_def)

lemma visit_prefix:
  assumes "nodes_ok N E" "\<forall>r \<in> set R. r < length N"
  shows "visit (N @ P) (E @ Q) R = visit N E R" "edges_of (N @ P) (E @ Q) R = edges_of N E R"
    "map (decode (N @ P) (E @ Q)) R = map (decode N E) R"
  using assms embeds_preorder [OF embeds_prefix assms(1)]
    embeds_edge_order [OF embeds_prefix assms(1)] embeds_decode [OF embeds_prefix assms(1)]
  by (auto simp: visit_def edges_of_def cong: map_cong)

lemma visit_append [simp]:
  "visit N E (R @ S) = visit N E R @ visit N E S"
  "edges_of N E (R @ S) = edges_of N E R @ edges_of N E S"
  by (simp_all add: visit_def edges_of_def)

lemma lessThan_shift: "{..<n} \<union> (+) n ` {..<m} = {..<n + m :: nat}"
proof -
  have "(+) n ` {..<m} = {n..<n + m}" by (simp add: lessThan_atLeast0 add.commute)
  then show ?thesis by auto
qed

lemma nodes_ok_block:
  assumes "nodes_ok N E" "nodes_ok M F"
  shows "nodes_ok (N @ map (shift_node (length E)) M) (E @ map (\<lambda>c. c + length N) F)"
    (is "nodes_ok ?N ?E")
  unfolding nodes_ok_def
proof (intro allI impI)
  fix i assume i: "i < length ?N"
  show "node_locally_ok ?E i (?N ! i)"
  proof (cases "i < length N")
    case True
    then show ?thesis
      using embeds_node(3) [OF embeds_prefix nodes_okD [OF assms(1) True] True] by simp
  next
    case False
    define j where "j = i - length N"
    have j: "i = length N + j" "j < length M" using i False by (auto simp: j_def)
    show ?thesis
      using embeds_node(3) [OF embeds_block nodes_okD [OF assms(2) j(2)] j(2)] j(1) by simp
  qed
qed

lemma forest_append:
  assumes "forest N E R" "tree_shape M F root"
  defines "N' \<equiv> N @ map (shift_node (length E)) M"
    and "E' \<equiv> E @ map (\<lambda>c. c + length N) F"
  shows "forest N' E' (R @ [length N + root])"
    and "map (decode N' E') (R @ [length N + root]) = map (decode N E) R @ [decode M F root]"
proof -
  have ok: "nodes_ok N E" "nodes_ok M F" "root < length M"
    using assms(1,2) by (auto simp: forest_def tree_shape_def nodes_ok_def)
  have below: "\<forall>r \<in> set R. r < length N" using assms(1) by (simp add: forest_def)
  note old = visit_prefix [OF ok(1) below, of "map (shift_node (length E)) M"
      "map (\<lambda>c. c + length N) F", folded N'_def E'_def]
  have emb: "embeds M F (length N) (length E) N' E'"
    unfolding N'_def E'_def by (rule embeds_block)
  have new: "visit N' E' [length N + root] = map ((+) (length N)) (preorder M F root)"
    "edges_of N' E' [length N + root] = map ((+) (length E)) (edge_order M F root)"
    "decode N' E' (length N + root) = decode M F root"
    using embeds_preorder [OF emb ok(2,3)] embeds_edge_order [OF emb ok(2,3)]
      embeds_decode [OF emb ok(2,3)] by (simp_all add: visit_def edges_of_def)
  show "map (decode N' E') (R @ [length N + root]) = map (decode N E) R @ [decode M F root]"
    using old(3) new(3) by simp
  have len: "length N' = length N + length M" "length E' = length E + length F"
    by (simp_all add: N'_def E'_def)
  have all: "set (visit N E R) = {..<length N}" "set (edges_of N E R) = {..<length E}"
    "set (preorder M F root) = {..<length M}" "set (edge_order M F root) = {..<length F}"
    using assms(1,2) unfolding forest_def tree_shape_def by blast+
  have sets: "set (visit N' E' (R @ [length N + root])) = {..<length N'}"
    "set (edges_of N' E' (R @ [length N + root])) = {..<length E'}"
    using all unfolding visit_append set_append old(1,2) new(1,2) len set_map
    by (simp_all only: lessThan_shift)
  moreover have "distinct (visit N' E' (R @ [length N + root]))"
    "distinct (edges_of N' E' (R @ [length N + root]))"
    using assms(1,2) unfolding visit_append distinct_append old(1,2) new(1,2)
    by (auto simp: forest_def tree_shape_def distinct_map)
  ultimately show "forest N' E' (R @ [length N + root])"
    using nodes_ok_block [OF ok(1,2)] below ok(3)
    unfolding forest_def len by (auto simp: N'_def E'_def)
qed

lemma forest_finish:
  assumes "forest N E R"
  defines "t \<equiv> \<lparr>tn_kind = TK_tuple, tn_scalar = ST_boolean, tn_first_child = length E,
      tn_child_count = length R\<rparr>"
  shows "tree_shape (N @ [t]) (E @ R) (length N)"
    and "decode (N @ [t]) (E @ R) (length N) = TyTuple (map (decode N E) R)"
proof -
  let ?N = "N @ [t]" and ?E = "E @ R"
  have ok: "nodes_ok N E" and below: "\<forall>r \<in> set R. r < length N"
    using assms(1) by (auto simp: forest_def)
  have tsel: "tn_kind t = TK_tuple" "tn_scalar t = ST_boolean" "tn_first_child t = length E"
    "tn_child_count t = length R" by (simp_all add: t_def)
  have kids: "node_children ?E t = R" and edges: "node_edges t = [length E ..< length E + length R]"
    by (simp_all add: node_children_def node_edges_def t_def map_nth_append_range)
  have loc: "node_locally_ok ?E (length N) (?N ! length N)"
    using below by (simp add: node_locally_ok_def kids tsel)
  note old = visit_prefix [OF ok below, of "[t]" R]
  have "\<forall>i < length ?N. node_locally_ok ?E i (?N ! i)"
  proof (intro allI impI)
    fix i assume "i < length ?N"
    then consider "i < length N" | "i = length N" by fastforce
    then show "node_locally_ok ?E i (?N ! i)"
    proof cases
      case 1
      then show ?thesis
        using embeds_node(3) [OF embeds_prefix nodes_okD [OF ok 1] 1] by simp
    qed (use loc in simp)
  qed
  moreover have "preorder ?N ?E (length N) = length N # visit N E R"
    using preorder_ok [OF loc] old(1) kids by (simp add: visit_def)
  moreover have "edge_order ?N ?E (length N) = [length E ..< length E + length R] @ edges_of N E R"
    using edge_order_ok [OF loc] old(2) kids edges by (simp add: edges_of_def)
  ultimately show "tree_shape ?N ?E (length N)"
    using assms(1) by (auto simp: tree_shape_def forest_def)
  show "decode ?N ?E (length N) = TyTuple (map (decode N E) R)"
    using loc
  proof (cases rule: decode_cases)
    case tuple
    then show ?thesis using old(3) kids by simp
  qed (simp_all add: t_def)
qed

definition element_nodes :: "type_arena list \<Rightarrow> nat" where
  "element_nodes elements = sum_list (map (\<lambda>ty. length (type_nodes ty)) elements)"

definition element_edges :: "type_arena list \<Rightarrow> nat" where
  "element_edges elements = sum_list (map (\<lambda>ty. array_size (ta_child_indexes ty)) elements)"

lemma element_sums [simp]:
  "element_nodes [] = 0" "element_edges [] = 0"
  "element_nodes (ty # tys) = length (type_nodes ty) + element_nodes tys"
  "element_edges (ty # tys) = array_size (ta_child_indexes ty) + element_edges tys"
  by (simp_all add: element_nodes_def element_edges_def)

abbreviation tables ::
    "type_node list \<Rightarrow> nat list \<Rightarrow> nat list \<Rightarrow> nat \<Rightarrow> nat \<Rightarrow> nat \<Rightarrow> tuple_tables" where
  "tables N E R nc ec rc \<equiv>
     \<lparr>tt_nodes = harr N [] nc, tt_child_indexes = harr E [] ec, tt_roots = harr R [] rc\<rparr>"

lemma append_element_outcome:
  assumes "arena_valid ty" "length N + length (type_nodes ty) \<le> nc"
    and "length E + array_size (ta_child_indexes ty) \<le> ec" "length R < rc"
  shows "append_element (tables N E R nc ec rc) ty =
    (HR_none, tables (N @ map (shift_node (length E)) (type_nodes ty))
       (E @ map (\<lambda>c. c + length N) (arena_edges ty)) (R @ [length N + ta_root_index ty]) nc ec rc)"
proof -
  have "push_all host_array_push (harr N [] nc) (map (shift_node (length E)) (type_nodes ty)) =
      (HR_none, harr (N @ map (shift_node (length E)) (type_nodes ty)) [] nc)"
    using push_all_harr [of N "[]" nc "map (shift_node (length E)) (type_nodes ty)"] assms(2)
    by simp
  moreover have "push_all host_array_push (harr E [] ec)
        (map (\<lambda>c. c + length N) (arena_edges ty)) =
      (HR_none, harr (E @ map (\<lambda>c. c + length N) (arena_edges ty)) [] ec)"
    using push_all_harr [of E "[]" ec "map (\<lambda>c. c + length N) (arena_edges ty)"] assms(3)
      arena_validD(4) [OF assms(1)] by simp
  moreover have "host_array_push (harr R [] rc) (ta_root_index ty + length N) =
      (HR_none, harr (R @ [length N + ta_root_index ty]) [] rc)"
    using assms(4) by (simp add: harr_push add.commute)
  ultimately show ?thesis
    using assms(2-4)
    by (simp add: append_element_def Let_def harr_size flip: arena_edges_def)
qed

lemma append_elements_outcome:
  assumes "forest N E R" "\<forall>ty \<in> set elements. arena_valid ty"
    and "length N + element_nodes elements \<le> nc"
    and "length E + element_edges elements \<le> ec" "length R + length elements \<le> rc"
  shows "\<exists>N' E' R'. append_elements (tables N E R nc ec rc) elements =
      (HR_none, tables N' E' R' nc ec rc) \<and> forest N' E' R' \<and>
    map (decode N' E') R' = map (decode N E) R @ map type_of_arena elements \<and>
    length N' = length N + element_nodes elements \<and>
    length E' = length E + element_edges elements \<and> length R' = length R + length elements"
  using assms
proof (induction elements arbitrary: N E R)
  case Nil
  then show ?case by auto
next
  case (Cons ty tys)
  let ?N = "N @ map (shift_node (length E)) (type_nodes ty)"
  let ?E = "E @ map (\<lambda>c. c + length N) (arena_edges ty)"
  let ?R = "R @ [length N + ta_root_index ty]"
  have valid: "arena_valid ty" using Cons.prems(2) by simp
  have shape: "tree_shape (type_nodes ty) (arena_edges ty) (ta_root_index ty)"
    using valid by (simp add: arena_valid_def)
  note grown = forest_append [OF Cons.prems(1) shape]
  have step: "append_element (tables N E R nc ec rc) ty = (HR_none, tables ?N ?E ?R nc ec rc)"
    using Cons.prems valid by (intro append_element_outcome) auto
  obtain N' E' R' where rest: "append_elements (tables ?N ?E ?R nc ec rc) tys =
      (HR_none, tables N' E' R' nc ec rc)" "forest N' E' R'"
    "map (decode N' E') R' = map (decode ?N ?E) ?R @ map type_of_arena tys"
    "length N' = length ?N + element_nodes tys" "length E' = length ?E + element_edges tys"
    "length R' = length ?R + length tys"
    using Cons.IH [OF grown(1)] Cons.prems arena_validD(4) [OF valid] by auto
  moreover have "map (decode ?N ?E) ?R = map (decode N E) R @ [type_of_arena ty]"
    using grown(2) by (simp add: type_of_arena_def)
  ultimately show ?case
    using step arena_validD(4) [OF valid]
    by (intro exI [of _ N'] exI [of _ E'] exI [of _ R']) simp
qed

lemma finish_tuple_outcome:
  assumes "forest N E R" "length N < nc" "length E + length R \<le> ec" "length R \<le> rc"
  shows "\<exists>ty. finish_tuple (tables N E R nc ec rc) = type_constructed ty \<and> arena_valid ty \<and>
    type_of_arena ty = TyTuple (map (decode N E) R)"
proof -
  let ?t = "\<lparr>tn_kind = TK_tuple, tn_scalar = ST_boolean, tn_first_child = length E,
      tn_child_count = length R\<rparr>"
  let ?ty = "\<lparr>ta_nodes = harr (N @ [?t]) [] nc, ta_child_indexes = harr (E @ R) [] ec,
      ta_root_index = length N, ta_inline_leaf = None\<rparr>"
  have "push_all host_array_push (harr E [] ec) R = (HR_none, harr (E @ R) [] ec)"
    using push_all_harr [of E "[]" ec R] assms(3) by simp
  then have "finish_tuple (tables N E R nc ec rc) = type_constructed ?ty"
    using assms(2-4)
    by (simp add: finish_tuple_def Let_def harr_size harr_span harr_push)
  moreover have parts: "type_nodes ?ty = N @ [?t]" "arena_edges ?ty = E @ R"
    using assms(2,3) by (simp_all add: type_nodes_def arena_edges_def harr_span)
  moreover have "arena_valid ?ty"
    using forest_finish(1) [OF assms(1)] assms(2,3) parts
    by (simp add: arena_valid_def harr_metadata_valid)
  ultimately show ?thesis
    using forest_finish(2) [OF assms(1)] by (intro exI [of _ ?ty]) (simp add: type_of_arena_def)
qed

text \<open>The operations answer with a failure that is explained: a resource error, or an
  operand that is not a valid arena.\<close>

lemma rejected_sel [simp]:
  "tc_ok (type_construction_rejected v) = False"
  "tc_resource_error (type_construction_rejected v) = tv_resource_error v"
  "tc_ok (type_construction_failure e) = False"
  "tc_resource_error (type_construction_failure e) = e"
  "tc_ok (type_constructed ty) = True" "tc_type (type_constructed ty) = ty"
  "tc_resource_error (type_constructed ty) = HR_none"
  by (simp_all add: type_construction_rejected_def type_construction_failure_def
      type_constructed_def)

lemma measure_elements_outcome:
  "measure_elements h elements nc ec = (res, h') \<Longrightarrow>
     (res = Some (Inr (nc + element_nodes elements, ec + element_edges elements)) \<and>
        (\<forall>ty \<in> set elements. arena_valid ty)) \<or>
     (\<exists>r. res = Some (Inl r) \<and> \<not> tc_ok r \<and>
        (tc_resource_error r \<noteq> HR_none \<or> (\<exists>ty \<in> set elements. \<not> arena_valid ty)))"
proof (induction elements arbitrary: h nc ec)
  case Nil
  then show ?case by simp
next
  case (Cons ty tys)
  obtain v h1 where v: "validate_type h ty = (v, h1)" by (cases "validate_type h ty")
  show ?case
    using v
  proof (cases rule: validate_typeE)
    case accepted
    show ?thesis
    proof (cases "length (type_nodes ty) > size_max - nc \<or>
        array_size (ta_child_indexes ty) > size_max - ec")
      case True
      then show ?thesis using Cons.prems v accepted by auto
    next
      case False
      then have "measure_elements h1 tys (nc + length (type_nodes ty))
          (ec + array_size (ta_child_indexes ty)) = (res, h')"
        using Cons.prems v accepted by auto
      from Cons.IH [OF this] show ?thesis using accepted by auto
    qed
  next
    case (refused w)
    then show ?thesis using Cons.prems v by auto
  qed
qed

lemma measure_elements_roomy:
  assumes "roomy h (n + 4 * length elements)"
    and "\<forall>ty \<in> set elements. arena_valid ty \<and> small_arena ty"
    and "nc + element_nodes elements \<le> size_max" "ec + element_edges elements \<le> size_max"
  shows "\<exists>h'. measure_elements h elements nc ec =
    (Some (Inr (nc + element_nodes elements, ec + element_edges elements)), h') \<and> roomy h' n"
  using assms
proof (induction elements arbitrary: h nc ec)
  case Nil
  then show ?case by simp
next
  case (Cons ty tys)
  have room: "roomy h ((n + 4 * length tys) + 4)" using Cons.prems(1) by (simp add: algebra_simps)
  obtain h1 where h1: "validate_type h ty = (Some valid_type, h1)" "roomy h1 (n + 4 * length tys)"
    using validate_valid_roomy [OF _ room] Cons.prems(2) by auto
  have fits: "\<not> (length (type_nodes ty) > size_max - nc \<or>
      array_size (ta_child_indexes ty) > size_max - ec)"
    using Cons.prems(3,4) by auto
  show ?case
    using Cons.IH [OF h1(2), of "nc + length (type_nodes ty)"
        "ec + array_size (ta_child_indexes ty)"] Cons.prems(2-4) h1(1) fits
    by (auto simp: add.assoc)
qed

lemma build_tuple_outcome:
  assumes "\<forall>ty \<in> set elements. arena_valid ty"
    and "nc = Suc (element_nodes elements)" "ec = length elements + element_edges elements"
    and "build_tuple h elements nc ec = (r, h')"
  shows "if tc_ok r
    then arena_valid (tc_type r) \<and> type_of_arena (tc_type r) = TyTuple (map type_of_arena elements)
    else tc_resource_error r \<noteq> HR_none \<and> \<not> (roomy h 3 \<and> nc \<le> 2 ^ 50 \<and> ec \<le> 2 ^ 50)"
proof -
  obtain e1 nodes h1 where 1: "allocate_host_array layout_type_node h empty_host_array nc =
      (e1, nodes :: type_node host_array, h1)" by (metis prod_cases3)
  obtain e2 edges h2 where 2: "allocate_next e1 layout_size h1 ec =
      (e2, edges :: nat host_array, h2)" by (metis prod_cases3)
  obtain e3 roots h3 where 3: "allocate_next e2 layout_size h2 (length elements) =
      (e3, roots :: nat host_array, h3)" by (metis prod_cases3)
  show ?thesis
  proof (cases "e3 = HR_none")
    case False
    have "\<not> (roomy h 3 \<and> nc \<le> 2 ^ 50 \<and> ec \<le> 2 ^ 50)"
    proof
      assume room: "roomy h 3 \<and> nc \<le> 2 ^ 50 \<and> ec \<le> 2 ^ 50"
      then have caps: "nc \<le> 2 ^ 50" "ec \<le> 2 ^ 50" "length elements \<le> 2 ^ 50"
        and three: "roomy h (Suc (Suc (Suc 0)))"
        using assms(3) roomy_mono [of h 3 "Suc (Suc (Suc 0))"] by auto
      obtain a1 where "allocate_host_array layout_type_node h
          (empty_host_array :: type_node host_array) nc = (HR_none, harr [] [] nc, a1)"
        "roomy a1 (Suc (Suc 0))" using allocate_roomy [OF three sane_layouts(3) caps(1)] by blast
      then have e1: "e1 = HR_none" "roomy h1 (Suc (Suc 0))" using 1 by auto
      obtain a2 where "allocate_next HR_none layout_size h1 ec =
          (HR_none, harr [] [] ec :: nat host_array, a2)" "roomy a2 (Suc 0)"
        using allocate_next_roomy [OF e1(2) sane_layouts(2) caps(2)] by blast
      then have e2: "e2 = HR_none" "roomy h2 (Suc 0)" using 2 e1 by auto
      obtain a3 where "allocate_next HR_none layout_size h2 (length elements) =
          (HR_none, harr [] [] (length elements) :: nat host_array, a3)"
        using allocate_next_roomy [OF e2(2) sane_layouts(2) caps(3)] by blast
      then show False using 3 e2 False by simp
    qed
    then show ?thesis using assms(4) 1 2 3 False by (auto simp: build_tuple_def)
  next
    case True
    have empty: "nodes = harr [] [] nc" "edges = harr [] [] ec"
      "roots = harr [] [] (length elements)"
      using 1 2 3 True by (auto dest!: allocate_next_none allocated_empty)
    obtain N E R where built: "append_elements (tables [] [] [] nc ec (length elements)) elements =
        (HR_none, tables N E R nc ec (length elements))" "forest N E R"
      and trees: "map (decode N E) R = map type_of_arena elements"
      and lens: "length N = element_nodes elements" "length E = element_edges elements"
        "length R = length elements"
      using append_elements_outcome [OF forest_empty assms(1), of nc ec "length elements"]
        assms(2,3) by auto
    obtain ty where
      finished: "finish_tuple (tables N E R nc ec (length elements)) = type_constructed ty"
      and ty: "arena_valid ty" "type_of_arena ty = TyTuple (map (decode N E) R)"
      using finish_tuple_outcome [OF built(2), of nc ec "length elements"] lens assms(2,3) by auto
    have "build_tuple h elements nc ec = (type_constructed ty, h3)"
      unfolding build_tuple_def using 1 2 3 True empty built(1) finished by simp
    then have "r = type_constructed ty" using assms(4) by simp
    then show ?thesis using ty trees by simp
  qed
qed

lemma make_tuple_outcome:
  assumes "make_tuple_type h elements = (res, h')"
  shows "\<exists>r. res = Some r \<and>
    (if tc_ok r
     then (\<forall>ty \<in> set elements. arena_valid ty) \<and> arena_valid (tc_type r) \<and>
       type_of_arena (tc_type r) = TyTuple (map type_of_arena elements)
     else tc_resource_error r \<noteq> HR_none \<or> (\<exists>ty \<in> set elements. \<not> arena_valid ty))"
proof -
  obtain m h1 where m: "measure_elements h elements 1 (length elements) = (m, h1)"
    by (cases "measure_elements h elements 1 (length elements)")
  from measure_elements_outcome [OF m] show ?thesis
  proof (elim disjE exE conjE)
    assume valid: "\<forall>ty \<in> set elements. arena_valid ty"
      and counts: "m = Some (Inr (1 + element_nodes elements,
        length elements + element_edges elements))"
    obtain r h2 where r: "build_tuple h1 elements (Suc (element_nodes elements))
        (length elements + element_edges elements) = (r, h2)" by fastforce
    show ?thesis
      using build_tuple_outcome [OF valid refl refl r] assms m counts r valid
      by (auto simp: make_tuple_type_def split: if_splits)
  qed (use assms m in \<open>auto simp: make_tuple_type_def\<close>)
qed

lemma make_tuple_roomy:
  assumes "roomy h (3 + 4 * length elements)"
    and "\<forall>ty \<in> set elements. arena_valid ty \<and> small_arena ty"
    and "element_nodes elements < 2 ^ 50" "length elements + element_edges elements \<le> 2 ^ 50"
  shows "\<exists>r. fst (make_tuple_type h elements) = Some r \<and> tc_ok r"
proof -
  have big: "(2 :: nat) ^ 50 \<le> size_max" by (simp add: size_max_def)
  obtain h1 where m: "measure_elements h elements 1 (length elements) =
      (Some (Inr (1 + element_nodes elements, length elements + element_edges elements)), h1)"
    "roomy h1 3"
    using measure_elements_roomy [OF assms(1,2), of 1 "length elements"] assms(3,4) big by auto
  obtain r h2 where r: "build_tuple h1 elements (Suc (element_nodes elements))
      (length elements + element_edges elements) = (r, h2)" by fastforce
  have "tc_ok r"
    using build_tuple_outcome [OF _ refl refl r] assms(2-4) m(2) by (auto split: if_splits)
  then show ?thesis using m r by (simp add: make_tuple_type_def)
qed

section \<open>Cloning keeps the tree\<close>

lemma copy_arena_outcome:
  assumes "arena_valid ty" "ta_inline_leaf ty = None" "copy_arena h ty = (r, h')"
  shows "if tc_ok r
    then arena_valid (tc_type r) \<and> type_of_arena (tc_type r) = type_of_arena ty
    else tc_resource_error r \<noteq> HR_none"
proof -
  let ?n = "length (type_nodes ty)" and ?m = "length (arena_edges ty)"
  note size = arena_validD(4) [OF assms(1)]
  obtain e1 nodes h1 where 1: "allocate_host_array layout_type_node h empty_host_array ?n =
      (e1, nodes :: type_node host_array, h1)" by (metis prod_cases3)
  obtain e2 edges h2 where 2: "allocate_next e1 layout_size h1 ?m =
      (e2, edges :: nat host_array, h2)" by (metis prod_cases3)
  show ?thesis
  proof (cases "e2 = HR_none")
    case False
    then show ?thesis using assms(3) 1 2 by (auto simp: copy_arena_def size)
  next
    case True
    have empty: "nodes = harr [] [] ?n" "edges = harr [] [] ?m"
      using 1 2 True by (auto dest!: allocate_next_none allocated_empty)
    let ?c = "\<lparr>ta_nodes = harr (type_nodes ty) [] ?n, ta_child_indexes = harr (arena_edges ty) [] ?m,
        ta_root_index = ta_root_index ty, ta_inline_leaf = None\<rparr>"
    have "push_all host_array_push (harr [] [] ?n) (type_nodes ty) =
        (HR_none, harr (type_nodes ty) [] ?n)"
      "push_all host_array_push (harr [] [] ?m) (arena_edges ty) =
        (HR_none, harr (arena_edges ty) [] ?m)"
      using push_all_harr [of "[]" "[]" ?n "type_nodes ty"]
        push_all_harr [of "[]" "[]" ?m "arena_edges ty"] by simp_all
    then have "r = type_constructed ?c"
      using assms(3) 1 2 True empty by (auto simp: copy_arena_def size simp flip: arena_edges_def)
    moreover have parts: "type_nodes ?c = type_nodes ty" "arena_edges ?c = arena_edges ty"
      by (simp_all add: type_nodes_def arena_edges_def harr_span)
    moreover have "arena_valid ?c"
      using assms(1) parts by (simp add: arena_valid_def harr_metadata_valid)
    ultimately show ?thesis by (simp add: type_of_arena_def)
  qed
qed

lemma inline_arena:
  assumes "arena_valid ty" "ta_inline_leaf ty \<noteq> None"
  shows "arena_edges ty = []" "ta_root_index ty = 0"
    "arena_valid (empty_type\<lparr>ta_inline_leaf := ta_inline_leaf ty\<rparr>)"
    "type_of_arena (empty_type\<lparr>ta_inline_leaf := ta_inline_leaf ty\<rparr>) = type_of_arena ty"
proof -
  let ?c = "empty_type\<lparr>ta_inline_leaf := ta_inline_leaf ty\<rparr>"
  have one: "length (type_nodes ty) = 1" using assms(2) by (auto simp: type_nodes_def)
  then show edges: "arena_edges ty = []" and root: "ta_root_index ty = 0"
    using arena_validD(2,5,6) [OF assms(1)] by auto
  have parts: "type_nodes ?c = type_nodes ty" "arena_edges ?c = arena_edges ty"
    "ta_root_index ?c = ta_root_index ty"
    using assms(2) edges root
    by (auto simp: type_nodes_def arena_edges_def empty_type_def empty_is_harr harr_span)
  show "arena_valid ?c"
    using assms(1) parts
    by (simp add: arena_valid_def) (simp add: empty_type_def empty_is_harr host_array_rules)
  show "type_of_arena ?c = type_of_arena ty" by (simp add: type_of_arena_def parts)
qed

lemma clone_outcome:
  assumes "clone_type h ty = (res, h')"
  shows "\<exists>r. res = Some r \<and>
    (if tc_ok r
     then arena_valid ty \<and> arena_valid (tc_type r) \<and> type_of_arena (tc_type r) = type_of_arena ty
     else tc_resource_error r \<noteq> HR_none \<or> \<not> arena_valid ty)"
proof -
  obtain v h1 where v: "validate_type h ty = (v, h1)" by (cases "validate_type h ty")
  show ?thesis
    using v
  proof (cases rule: validate_typeE)
    case accepted
    show ?thesis
    proof (cases "ta_inline_leaf ty = None")
      case True
      obtain r h2 where r: "copy_arena h1 ty = (r, h2)" by fastforce
      show ?thesis
        using copy_arena_outcome [OF accepted(2) True r] assms v accepted True r
        by (auto simp: clone_type_def split: if_splits)
    next
      case False
      then show ?thesis
        using assms v accepted inline_arena [OF accepted(2) False]
        by (auto simp: clone_type_def)
    qed
  next
    case (refused w)
    then show ?thesis using assms v by (auto simp: clone_type_def)
  qed
qed

section \<open>The contracts of the operations\<close>

text \<open>C8: \<open>make_tuple_type\<close> is the tuple constructor on types: it always returns, a success
  means that every element was a valid arena and the result is a valid arena that denotes
  the tuple of the elements' types in order, and a failure is either a resource error or an
  invalid element; with memory available and valid elements it succeeds. None of the
  relocations of node and table indexes is off by any amount.\<close>

theorem make_tuple_type_denotes_tuple:
  assumes "make_tuple_type h elements = (res, h')"
  shows "\<exists>r. res = Some r \<and>
    (tc_ok r \<longrightarrow> (\<forall>ty \<in> set elements. arena_valid ty) \<and> arena_valid (tc_type r) \<and>
       type_of_arena (tc_type r) = TyTuple (map type_of_arena elements)) \<and>
    (\<not> tc_ok r \<longrightarrow> tc_resource_error r \<noteq> HR_none \<or> (\<exists>ty \<in> set elements. \<not> arena_valid ty)) \<and>
    (roomy h (3 + 4 * length elements) \<and>
       (\<forall>ty \<in> set elements. arena_valid ty \<and> small_arena ty) \<and>
       element_nodes elements < 2 ^ 50 \<and> length elements + element_edges elements \<le> 2 ^ 50
     \<longrightarrow> tc_ok r)"
proof -
  obtain r where r: "res = Some r" and out: "if tc_ok r
     then (\<forall>ty \<in> set elements. arena_valid ty) \<and> arena_valid (tc_type r) \<and>
       type_of_arena (tc_type r) = TyTuple (map type_of_arena elements)
     else tc_resource_error r \<noteq> HR_none \<or> (\<exists>ty \<in> set elements. \<not> arena_valid ty)"
    using make_tuple_outcome [OF assms] by blast
  have "tc_ok r" if "roomy h (3 + 4 * length elements)"
    "\<forall>ty \<in> set elements. arena_valid ty \<and> small_arena ty"
    "element_nodes elements < 2 ^ 50" "length elements + element_edges elements \<le> 2 ^ 50"
    using make_tuple_roomy [OF that] assms r by auto
  then show ?thesis using r out by (auto split: if_splits)
qed

lemma leaf_arenas:
  "arena_valid (make_scalar_type ST_integer)"
  "type_of_arena (make_scalar_type ST_integer) = TyScalar ST_integer"
  "small_arena (make_scalar_type ST_integer)"
  "length (type_nodes (make_scalar_type ST_integer)) = 1"
  "array_size (ta_child_indexes (make_scalar_type ST_integer)) = 0"
  by (simp_all add: make_scalar_type_def make_leaf_type_def arena_valid_def empty_type_def
      empty_is_harr host_array_rules type_nodes_def arena_edges_def tree_shape_def
      node_locally_ok_def valid_scalar_type_def preorder.simps edge_order.simps
      node_children_def node_edges_def type_of_arena_def decode.simps small_arena_def
      lessThan_Suc)

theorem make_tuple_type_denotes_tuple_witness:
  "\<exists>r. fst (make_tuple_type sample_host [make_scalar_type ST_integer, sample_arena]) = Some r \<and>
     tc_ok r \<and>
     type_of_arena (tc_type r) =
       TyTuple [TyScalar ST_integer, TyTuple [TyScalar ST_integer, TyVector ST_boolean]]"
proof -
  let ?elements = "[make_scalar_type ST_integer, sample_arena]"
  obtain res h' where run: "make_tuple_type sample_host ?elements = (res, h')" by fastforce
  have sizes: "length (type_nodes sample_arena) = 3"
    "array_size (ta_child_indexes sample_arena) = 2"
    by (simp add: sample_arena_parts) (simp add: sample_arena_def harr_size)
  have "ta_root_index sample_arena = 2" by (simp add: sample_arena_def)
  then have tree: "type_of_arena sample_arena = TyTuple [TyScalar ST_integer, TyVector ST_boolean]"
    by (simp add: type_of_arena_def sample_arena_parts decode.simps node_children_def
        node_edges_def upt_rec)
  show ?thesis
    using make_tuple_type_denotes_tuple [OF run] run sizes tree leaf_arenas sample_arena_valid
    by (auto simp: small_arena_def)
qed

text \<open>C25: \<open>structural_type_equal\<close> decides equality of types. It always returns; a completed
  comparison means that both arenas are valid and answers whether they denote the same
  type, however their tables are laid out; otherwise one arena is invalid or memory ran
  out, never because the pair stack of \<open>min\<close> capacity was too small.\<close>

theorem structural_type_equal_decides_equality:
  assumes "structural_type_equal h left right = (res, h')"
  shows "\<exists>r. res = Some r \<and>
    (te_ok r \<longrightarrow> arena_valid left \<and> arena_valid right \<and>
       te_equal r = (type_of_arena left = type_of_arena right)) \<and>
    (\<not> te_ok r \<longrightarrow> te_resource_error r \<noteq> HR_none \<or> \<not> arena_valid left \<or> \<not> arena_valid right) \<and>
    (roomy h 9 \<and> small_arena left \<and> small_arena right \<and> arena_valid left \<and> arena_valid right
     \<longrightarrow> te_ok r)"
proof -
  obtain v h1 where v: "validate_type h left = (v, h1)" by fastforce
  show ?thesis
    using v
  proof (cases rule: validate_typeE)
    case (refused w)
    have res: "res = Some (type_comparison_failure (tv_invariant w) (tv_resource_error w))"
      using assms v refused by (simp add: structural_type_equal_def)
    have "\<not> arena_valid left" if prems: "roomy h 9" "small_arena left"
    proof
      assume "arena_valid left"
      moreover have "roomy h (5 + 4)" using prems(1) by simp
      ultimately obtain h3 where "validate_type h left = (Some valid_type, h3)"
        using validate_valid_roomy [OF _ _ prems(2)] by blast
      then show False using v refused(1,2) by simp
    qed
    then show ?thesis
      using res refused by (auto simp: type_comparison_failure_def)
  next
    case accepted
    note left = accepted
    obtain w h2 where w: "validate_type h1 right = (w, h2)" by fastforce
    have room1: "roomy h1 5" if "roomy h 9" "small_arena left"
      using validate_valid_roomy [OF left(2), of h 5] that v by simp
    show ?thesis
      using w
    proof (cases rule: validate_typeE)
      case (refused u)
      have res: "res = Some (type_comparison_failure (tv_invariant u) (tv_resource_error u))"
        using assms v w left refused by (simp add: structural_type_equal_def)
      have "\<not> arena_valid right"
        if prems: "roomy h 9" "small_arena left" "small_arena right"
      proof
        assume "arena_valid right"
        moreover have "roomy h1 (1 + 4)" using room1 [OF prems(1,2)] by simp
        ultimately obtain h3 where "validate_type h1 right = (Some valid_type, h3)"
          using validate_valid_roomy [OF _ _ prems(3)] by blast
        then show False using w refused(1,2) by simp
      qed
      then show ?thesis
        using res refused by (auto simp: type_comparison_failure_def)
    next
      case accepted
      obtain h3 x where x: "compare_valid h2 left right = (Some x, h3)"
        "if te_ok x then x = type_compared (type_of_arena left = type_of_arena right)
         else te_resource_error x \<noteq> HR_none \<and> \<not> (roomy h2 1 \<and> small_arena left)"
        using compare_valid_outcome [OF left(2) accepted(2)] by blast
      have "roomy h2 1" if "roomy h 9" "small_arena left" "small_arena right"
        using validate_valid_roomy [OF accepted(2), of h1 1] room1 that w by simp
      moreover have "res = Some x"
        using assms v w left accepted x(1) by (simp add: structural_type_equal_def)
      moreover have "te_ok x \<Longrightarrow> te_equal x = (type_of_arena left = type_of_arena right)"
        using x(2) by (auto simp: type_compared_def split: if_splits)
      ultimately show ?thesis
        using x(2) left(2) accepted(2) by (intro exI [of _ x]) (auto split: if_splits)
    qed
  qed
qed

theorem structural_type_equal_decides_equality_witness:
  "\<exists>r. fst (structural_type_equal sample_host sample_arena sample_arena) = Some r \<and> te_equal r"
proof -
  obtain res h' where run: "structural_type_equal sample_host sample_arena sample_arena = (res, h')"
    by fastforce
  have "small_arena sample_arena"
    by (simp add: small_arena_def sample_arena_parts) (simp add: sample_arena_def harr_size)
  then show ?thesis
    using structural_type_equal_decides_equality [OF run] run sample_arena_valid by auto
qed

text \<open>C27: \<open>format_type\<close> renders the type an arena denotes, \<open>Vector<T>\<close> and
  \<open>Tuple<A, B>\<close> with the separators in place: it always returns, a success is exactly that
  text, a failure is an invalid arena or exhausted memory, and the precomputed text and
  stack capacities are never the reason.\<close>

theorem format_type_renders:
  assumes "format_type h ty = (res, h')"
  shows "\<exists>r. res = Some r \<and>
    (tf_ok r \<longrightarrow> arena_valid ty \<and> tf_formatted r = render (type_of_arena ty)) \<and>
    (\<not> tf_ok r \<longrightarrow> tf_resource_error r \<noteq> HR_none \<or>
       \<not> arena_valid ty \<and> tf_error r = TF_invalid_type) \<and>
    (roomy h 6 \<and> small_arena ty \<and> length (type_nodes ty) \<le> 2 ^ 45 \<and> arena_valid ty \<longrightarrow> tf_ok r)"
proof -
  obtain v h1 where v: "validate_type h ty = (v, h1)" by fastforce
  show ?thesis
    using v
  proof (cases rule: validate_typeE)
    case (refused w)
    then show ?thesis
      using assms v validate_valid_roomy [of ty h 2]
      by (auto simp: format_type_def type_formatting_failure_def split: if_splits)
  next
    case accepted
    obtain h2 x where x: "format_valid h1 ty = (Some x, h2)"
      "if tf_ok x
       then tf_formatted x = render (type_of_arena ty) \<and> tf_resource_error x = HR_none
       else tf_resource_error x \<noteq> HR_none \<and> \<not> (roomy h1 2 \<and> length (type_nodes ty) \<le> 2 ^ 45)"
      using format_valid_outcome [OF accepted(2)] by blast
    have "roomy h1 2" if "roomy h 6" "small_arena ty"
      using validate_valid_roomy [OF accepted(2), of h 2] that v by simp
    then show ?thesis
      using assms v accepted x by (cases "tf_ok x") (auto simp: format_type_def)
  qed
qed

theorem format_type_renders_witness:
  "\<exists>r. fst (format_type sample_host sample_arena) = Some r \<and>
     tf_formatted r = ''Tuple<Int, Vector<Bool>>''"
proof -
  obtain res h' where run: "format_type sample_host sample_arena = (res, h')" by fastforce
  have small: "small_arena sample_arena" "length (type_nodes sample_arena) \<le> 2 ^ 45"
    by (simp_all add: small_arena_def sample_arena_parts)
       (simp_all add: sample_arena_def harr_size)
  have "ta_root_index sample_arena = 2" by (simp add: sample_arena_def)
  then have "render (type_of_arena sample_arena) = ''Tuple<Int, Vector<Bool>>''"
    by (simp add: type_of_arena_def sample_arena_parts decode.simps node_children_def
        node_edges_def upt_rec scalar_type_name_def)
  then show ?thesis
    using format_type_renders [OF run] run small sample_arena_valid by auto
qed



end
