(* ===== verification/Binary64.thy ===== *)
theory Binary64
  imports Prelude
begin

text \<open>
  IEEE-754 binary64 values as 64-bit patterns, as src/primitive.cpp and src/value.cpp treat
  them through \<open>std::bit_cast\<close>: classification, the order key, equality and order,
  canonicalisation of NaNs and the correctly rounded conversion of a 64-bit integer.

  The code relies on the hardware only for \<open>+\<close>, \<open>-\<close> and \<open>*\<close> under round-to-nearest-even
  with subnormals on; \<open>ieee_add\<close>, \<open>ieee_sub\<close> and \<open>ieee_mul\<close> are these operations as the
  standard defines them: the exact result, rounded once. Magnitudes are integers: every
  finite binary64 value is an integer number of units of \<open>2 ^ -1074\<close>.
\<close>

type_synonym binary64 = "64 word"

section \<open>Bit-level operations of the code\<close>

definition binary64_sign_bit :: u64 where
  "binary64_sign_bit = 0x8000000000000000"

definition binary64_exponent_mask :: u64 where
  "binary64_exponent_mask = 0x7ff0000000000000"

definition binary64_fraction_mask :: u64 where
  "binary64_fraction_mask = 0x000fffffffffffff"

definition canonical_nan_bits :: u64 where
  "canonical_nan_bits = 0x7ff8000000000000"

definition binary64_is_nan :: "binary64 \<Rightarrow> bool" where
  "binary64_is_nan bits \<longleftrightarrow>
     bits AND binary64_exponent_mask = binary64_exponent_mask \<and>
     bits AND binary64_fraction_mask \<noteq> 0"

definition binary64_is_infinity :: "binary64 \<Rightarrow> bool" where
  "binary64_is_infinity bits \<longleftrightarrow> bits AND NOT binary64_sign_bit = binary64_exponent_mask"

definition binary64_is_zero :: "binary64 \<Rightarrow> bool" where
  "binary64_is_zero bits \<longleftrightarrow> bits AND NOT binary64_sign_bit = 0"

definition binary64_order_key :: "binary64 \<Rightarrow> u64" where
  "binary64_order_key bits =
     (if bits AND binary64_sign_bit \<noteq> 0 then NOT bits else bits OR binary64_sign_bit)"

definition binary64_equal :: "binary64 \<Rightarrow> binary64 \<Rightarrow> bool" where
  "binary64_equal left right =
     (if binary64_is_nan left \<or> binary64_is_nan right then False
      else if binary64_is_zero left \<and> binary64_is_zero right then True
      else left = right)"

definition binary64_less_than :: "binary64 \<Rightarrow> binary64 \<Rightarrow> bool" where
  "binary64_less_than left right =
     (if binary64_is_nan left \<or> binary64_is_nan right
         \<or> (binary64_is_zero left \<and> binary64_is_zero right) then False
      else binary64_order_key left < binary64_order_key right)"

definition binary64_is_positive :: "binary64 \<Rightarrow> bool" where
  "binary64_is_positive bits \<longleftrightarrow>
     \<not> binary64_is_nan bits \<and> \<not> binary64_is_zero bits \<and> bits AND binary64_sign_bit = 0"

definition binary64_is_negative :: "binary64 \<Rightarrow> bool" where
  "binary64_is_negative bits \<longleftrightarrow>
     \<not> binary64_is_nan bits \<and> \<not> binary64_is_zero bits \<and> bits AND binary64_sign_bit \<noteq> 0"

definition normalize_double :: "binary64 \<Rightarrow> binary64" where
  "normalize_double bits =
     (if bits AND binary64_exponent_mask = binary64_exponent_mask
         \<and> bits AND binary64_fraction_mask \<noteq> 0
      then canonical_nan_bits else bits)"

text \<open>\<open>std::bit_width\<close>.\<close>

fun bit_width :: "nat \<Rightarrow> nat" where
  "bit_width n = (if n = 0 then 0 else Suc (bit_width (n div 2)))"

declare bit_width.simps [simp del]

definition int_to_binary64 :: "i64 \<Rightarrow> binary64" where
  "int_to_binary64 value =
     (if value = 0 then 0
      else
        let negative = value <s 0;
            magnitude = (if negative then - (value + 1) + 1 else value);
            most_significant = bit_width (unat magnitude) - 1;
            (significand, most_significant) =
              (if most_significant \<le> 52
               then (push_bit (52 - most_significant) magnitude, most_significant)
               else
                 let shift = most_significant - 52;
                     significand = drop_bit shift magnitude;
                     remainder_mask = push_bit shift 1 - 1;
                     remainder = magnitude AND remainder_mask;
                     halfway = push_bit (shift - 1) 1
                 in if remainder > halfway \<or> (remainder = halfway \<and> significand AND 1 \<noteq> 0)
                    then if significand + 1 = push_bit 53 1
                         then (drop_bit 1 (significand + 1), most_significant + 1)
                         else (significand + 1, most_significant)
                    else (significand, most_significant));
            sign = (if negative then push_bit 63 1 else 0);
            exponent = push_bit 52 (word_of_nat (most_significant + 1023));
            fraction = significand AND binary64_fraction_mask
        in sign OR exponent OR fraction)"

section \<open>The values bit patterns stand for\<close>

text \<open>\<open>units m\<close> is the magnitude of the pattern \<open>m < 2 ^ 63\<close> in units of \<open>2 ^ -1074\<close>; the
  pattern of infinity continues the scale, so comparisons need no special case.\<close>

definition units :: "nat \<Rightarrow> nat" where
  "units m =
     (let e = m div 2 ^ 52; f = m mod 2 ^ 52
      in if e = 0 then f else (2 ^ 52 + f) * 2 ^ (e - 1))"

definition infinity_code :: nat where
  "infinity_code = 2047 * 2 ^ 52"

definition magnitude_code :: "binary64 \<Rightarrow> nat" where
  "magnitude_code b = unat (b AND NOT binary64_sign_bit)"

definition is_minus :: "binary64 \<Rightarrow> bool" where
  "is_minus b \<longleftrightarrow> b AND binary64_sign_bit \<noteq> 0"

definition signed_units :: "binary64 \<Rightarrow> int" where
  "signed_units b = (if is_minus b then - int (units (magnitude_code b))
                     else int (units (magnitude_code b)))"

definition make_binary64 :: "bool \<Rightarrow> nat \<Rightarrow> binary64" where
  "make_binary64 negative code = (if negative then binary64_sign_bit else 0) OR word_of_nat code"

text \<open>Round-half-to-even of \<open>n / d\<close>, and the pattern of the magnitude nearest to \<open>n / d\<close>
  units, saturating at infinity.\<close>

definition round_half_even :: "nat \<Rightarrow> nat \<Rightarrow> nat" where
  "round_half_even n d =
     (let q = n div d; r = n mod d
      in if 2 * r > d \<or> (2 * r = d \<and> odd q) then q + 1 else q)"

definition rounding_shift :: "nat \<Rightarrow> nat \<Rightarrow> nat" where
  "rounding_shift n d = bit_width (n div d) - 53"

definition nearest_code :: "nat \<Rightarrow> nat \<Rightarrow> nat" where
  "nearest_code n d =
     rounding_shift n d * 2 ^ 52 + round_half_even n (d * 2 ^ rounding_shift n d)"

definition round_code :: "nat \<Rightarrow> nat \<Rightarrow> nat" where
  "round_code n d = min (nearest_code n d) infinity_code"

section \<open>The arithmetic of the standard\<close>

definition ieee_add :: "binary64 \<Rightarrow> binary64 \<Rightarrow> binary64" where
  "ieee_add a b =
     (if binary64_is_nan a \<or> binary64_is_nan b then canonical_nan_bits
      else if binary64_is_infinity a \<and> binary64_is_infinity b
      then (if is_minus a = is_minus b then a else canonical_nan_bits)
      else if binary64_is_infinity a then a
      else if binary64_is_infinity b then b
      else
        let s = signed_units a + signed_units b
        in if s = 0 then make_binary64 (is_minus a \<and> is_minus b) 0
           else make_binary64 (s < 0) (round_code (nat \<bar>s\<bar>) 1))"

definition ieee_sub :: "binary64 \<Rightarrow> binary64 \<Rightarrow> binary64" where
  "ieee_sub a b = ieee_add a (b XOR binary64_sign_bit)"

definition ieee_mul :: "binary64 \<Rightarrow> binary64 \<Rightarrow> binary64" where
  "ieee_mul a b =
     (if binary64_is_nan a \<or> binary64_is_nan b then canonical_nan_bits
      else if binary64_is_infinity a \<or> binary64_is_infinity b
      then (if binary64_is_zero a \<or> binary64_is_zero b then canonical_nan_bits
            else make_binary64 (is_minus a \<noteq> is_minus b) infinity_code)
      else make_binary64 (is_minus a \<noteq> is_minus b)
             (round_code (units (magnitude_code a) * units (magnitude_code b)) (2 ^ 1074)))"

section \<open>Strict arithmetic\<close>

datatype strict_binary64_operation = SB_add | SB_subtract | SB_multiply

definition strict_binary64_arithmetic ::
    "binary64 \<Rightarrow> binary64 \<Rightarrow> strict_binary64_operation \<Rightarrow> bool \<times> binary64" where
  "strict_binary64_arithmetic left right operation =
     (if binary64_is_nan left \<or> binary64_is_nan right then (True, canonical_nan_bits)
      else
        let signs_differ = ((left XOR right) AND push_bit 63 1) \<noteq> 0;
            invalid_infinity_arithmetic =
              binary64_is_infinity left \<and> binary64_is_infinity right \<and>
              ((operation = SB_add \<and> signs_differ) \<or> (operation = SB_subtract \<and> \<not> signs_differ));
            invalid_infinity_product =
              operation = SB_multiply \<and>
              ((binary64_is_infinity left \<and> binary64_is_zero right) \<or>
               (binary64_is_zero left \<and> binary64_is_infinity right))
        in if invalid_infinity_arithmetic \<or> invalid_infinity_product
           then (True, canonical_nan_bits)
           else (True,
                 normalize_double
                   (case operation of
                      SB_add \<Rightarrow> ieee_add left right
                    | SB_subtract \<Rightarrow> ieee_sub left right
                    | SB_multiply \<Rightarrow> ieee_mul left right)))"

section \<open>Widths\<close>

lemma bit_width_0 [simp]: "bit_width 0 = 0"
  by (simp add: bit_width.simps)

lemma bit_width_bounds: "0 < n \<Longrightarrow> 2 ^ (bit_width n - 1) \<le> n \<and> n < 2 ^ bit_width n \<and> 0 < bit_width n"
proof (induction n rule: bit_width.induct)
  case (1 n)
  show ?case
  proof (cases "n div 2 = 0")
    case True
    then have "n = 1" using 1(2) by auto
    then show ?thesis by (simp add: bit_width.simps)
  next
    case False
    have ih: "2 ^ (bit_width (n div 2) - 1) \<le> n div 2" "n div 2 < 2 ^ bit_width (n div 2)"
      "0 < bit_width (n div 2)"
      using 1(1) 1(2) False by auto
    have w: "bit_width n = Suc (bit_width (n div 2))" using 1(2) by (subst bit_width.simps) simp
    have "2 * 2 ^ (bit_width (n div 2) - 1) = (2 :: nat) ^ bit_width (n div 2)"
      using ih(3) by (simp flip: power_Suc)
    then show ?thesis using ih unfolding w by (simp add: power_Suc) linarith
  qed
qed

lemma bit_width_unique:
  assumes "2 ^ k \<le> n" "n < 2 ^ Suc k"
  shows "bit_width n = Suc k"
proof -
  have n: "0 < n" using assms(1) by (metis gr0I le_zero_eq power_not_zero zero_neq_numeral)
  note b = bit_width_bounds [OF n]
  have "k < bit_width n"
    using assms(1) b power_less_imp_less_exp [of "2 :: nat" k "bit_width n"] by linarith
  moreover have "bit_width n - 1 < Suc k"
    using assms(2) b power_less_imp_less_exp [of "2 :: nat" "bit_width n - 1" "Suc k"] by linarith
  ultimately show ?thesis using b by simp
qed

lemma bit_width_shift: "0 < n \<Longrightarrow> bit_width (n * 2 ^ k) = bit_width n + k"
proof (induction k)
  case 0
  then show ?case by simp
next
  case (Suc k)
  have "bit_width (n * 2 ^ Suc k) = Suc (bit_width ((n * 2 ^ Suc k) div 2))"
    using Suc.prems by (subst bit_width.simps) simp
  also have "(n * 2 ^ Suc k) div 2 = n * 2 ^ k" by simp
  finally show ?case using Suc by simp
qed

section \<open>The scale of magnitudes\<close>

lemma units_parts:
  "f < 2 ^ 52 \<Longrightarrow> units (e * 2 ^ 52 + f) = (if e = 0 then f else (2 ^ 52 + f) * 2 ^ (e - 1))"
  unfolding units_def Let_def by (simp add: div_mult_self3 del: power_numeral)

lemma units_Suc: "units m < units (Suc m)"
proof -
  define e f where "e = m div 2 ^ 52" and "f = m mod 2 ^ 52"
  have m: "m = e * 2 ^ 52 + f" by (simp add: e_def f_def)
  have f: "f < 2 ^ 52" by (simp add: f_def)
  show ?thesis
  proof (cases "Suc f < 2 ^ 52")
    case True
    have "Suc m = e * 2 ^ 52 + Suc f" using m by simp
    then show ?thesis using units_parts [OF f, of e] units_parts [OF True, of e] m
      by (cases "e = 0") auto
  next
    case False
    then have last: "Suc f = 2 ^ 52" using f by simp
    then have "Suc m = (e + 1) * 2 ^ 52 + 0" using m by simp
    then have "units (Suc m) = 2 ^ 52 * 2 ^ e" using units_parts [of 0 "e + 1"] by simp
    moreover have "units m < 2 ^ 52 * 2 ^ e"
    proof (cases e)
      case 0
      then show ?thesis using units_parts [OF f, of e] m f by simp
    next
      case (Suc k)
      have "units m = (2 ^ 52 + f) * 2 ^ k" using units_parts [OF f, of e] m Suc by simp
      also have "\<dots> < (2 ^ 52 + 2 ^ 52) * 2 ^ k" using f by (intro mult_strict_right_mono) auto
      finally show ?thesis using Suc by simp
    qed
    ultimately show ?thesis by simp
  qed
qed

lemma units_strict_mono: "strict_mono units"
  by (simp add: strict_mono_Suc_iff units_Suc)

lemma units_less_iff [simp]: "units a < units b \<longleftrightarrow> a < b"
  by (rule strict_mono_less [OF units_strict_mono])

lemma units_eq_iff [simp]: "units a = units b \<longleftrightarrow> a = b"
  by (rule strict_mono_eq [OF units_strict_mono])

lemma units_le_iff [simp]: "units a \<le> units b \<longleftrightarrow> a \<le> b"
  by (rule strict_mono_less_eq [OF units_strict_mono])

lemma units_0 [simp]: "units 0 = 0"
  by (simp add: units_def)

text \<open>A significand of 53 bits and a shift: the pattern is their sum, carries included.\<close>

lemma units_code:
  assumes "m \<le> 2 ^ 53" "q = 0 \<or> 2 ^ 52 \<le> m"
  shows "units (q * 2 ^ 52 + m) = m * 2 ^ q"
proof -
  consider "m < 2 ^ 52" "q = 0" | "2 ^ 52 \<le> m" "m < 2 ^ 53" | "m = 2 ^ 53"
    using assms by fastforce
  then show ?thesis
  proof cases
    case 1
    then show ?thesis using units_parts [of m 0] by simp
  next
    case 2
    have f: "m - 2 ^ 52 < 2 ^ 52" using 2 by simp
    have "q * 2 ^ 52 + m = (q + 1) * 2 ^ 52 + (m - 2 ^ 52)" using 2 by simp
    then show ?thesis using units_parts [OF f, of "q + 1"] 2 by simp
  next
    case 3
    have "q * 2 ^ 52 + m = (q + 2) * 2 ^ 52 + 0" using 3 by simp
    then show ?thesis using units_parts [of 0 "q + 2"] 3 by (simp add: add.commute)
  qed
qed

section \<open>Rounding is to nearest, ties to even\<close>

lemma round_half_even_bounds: "round_half_even n d = n div d \<or> round_half_even n d = n div d + 1"
  by (simp add: round_half_even_def Let_def)

lemma round_half_even_cancel: "0 < k \<Longrightarrow> round_half_even (n * k) (d * k) = round_half_even n d"
proof -
  assume k: "0 < k"
  have "(n * k) mod (d * k) = (n mod d) * k" by (rule mult_mod_left [symmetric])
  moreover have "(n * k) div (d * k) = n div d" using k by simp
  moreover have "2 * (r * k) > d * k \<longleftrightarrow> 2 * r > d" "2 * (r * k) = d * k \<longleftrightarrow> 2 * r = d" for r
    using k by (simp_all flip: mult.assoc)
  ultimately show ?thesis by (simp add: round_half_even_def Let_def)
qed

lemma round_half_even_exact: "0 < d \<Longrightarrow> round_half_even (m * d) d = m"
  by (simp add: round_half_even_def)

text \<open>The significand of the rounded value has at most 53 bits, exactly 53 when shifted.\<close>

lemma nearest_code_parts:
  fixes n d :: nat
  assumes "0 < d"
  defines "q \<equiv> rounding_shift n d"
  shows "n div (d * 2 ^ q) < 2 ^ 53" and "q = 0 \<or> 2 ^ 52 \<le> n div (d * 2 ^ q)"
    and "round_half_even n (d * 2 ^ q) \<le> 2 ^ 53"
    and "q = 0 \<or> 2 ^ 52 \<le> round_half_even n (d * 2 ^ q)"
proof -
  let ?v = "n div d"
  have dv: "n div (d * 2 ^ q) = ?v div 2 ^ q" by (simp add: div_mult2_eq)
  have q: "q = bit_width ?v - 53" by (simp add: q_def rounding_shift_def)
  show lt: "n div (d * 2 ^ q) < 2 ^ 53"
  proof (cases "?v = 0")
    case True
    then show ?thesis by (simp add: dv)
  next
    case False
    then have "?v < 2 ^ bit_width ?v" using bit_width_bounds [of ?v] by simp
    also have "\<dots> \<le> 2 ^ (53 + q)" by (rule power_increasing) (simp_all add: q)
    finally show ?thesis by (simp add: dv less_mult_imp_div_less power_add)
  qed
  show ge: "q = 0 \<or> 2 ^ 52 \<le> n div (d * 2 ^ q)"
  proof (cases "q = 0")
    case False
    then have "53 < bit_width ?v" using q by simp
    moreover from this have "?v \<noteq> 0" by (metis bit_width_0 not_less_zero)
    ultimately have "2 ^ (52 + q) \<le> ?v" using bit_width_bounds [of ?v] q by (simp add: Suc_diff_le)
    then have "(2 ^ 52 * 2 ^ q) div 2 ^ q \<le> ?v div 2 ^ q"
      by (intro div_le_mono) (simp add: power_add)
    then show ?thesis by (simp add: dv)
  qed simp
  show "round_half_even n (d * 2 ^ q) \<le> 2 ^ 53"
    "q = 0 \<or> 2 ^ 52 \<le> round_half_even n (d * 2 ^ q)"
    using lt ge round_half_even_bounds [of n "d * 2 ^ q"] by auto
qed

lemma units_nearest_code:
  "0 < d \<Longrightarrow> units (nearest_code n d) =
     round_half_even n (d * 2 ^ rounding_shift n d) * 2 ^ rounding_shift n d"
  unfolding nearest_code_def using nearest_code_parts(3,4) by (intro units_code) auto

text \<open>\<open>distance n d c\<close>: how far the pattern \<open>c\<close> is from \<open>n / d\<close>, scaled by \<open>d\<close>.\<close>

definition distance :: "nat \<Rightarrow> nat \<Rightarrow> nat \<Rightarrow> int" where
  "distance n d c = \<bar>int (units c) * int d - int n\<bar>"

lemma nearest_code_nearest:
  assumes "0 < d"
  shows "distance n d (nearest_code n d) \<le> distance n d c"
    and "c \<noteq> nearest_code n d \<Longrightarrow> distance n d c = distance n d (nearest_code n d) \<Longrightarrow>
      even (nearest_code n d)"
proof -
  define q where "q = rounding_shift n d"
  define D where "D = d * 2 ^ q"
  define m where "m = n div D"
  define r where "r = n mod D"
  have D: "0 < D" using assms by (simp add: D_def)
  have n: "n = m * D + r" and r: "r < D" using D by (simp_all add: m_def r_def)
  note parts = nearest_code_parts [OF assms, of n, folded q_def, folded D_def, folded m_def]
  let ?low = "q * 2 ^ 52 + m"
  have low: "int (units ?low) * int d = int (m * D)"
    using units_code [of m q] parts(1,2) by (simp add: D_def)
  have high: "int (units (Suc ?low)) * int d = int (Suc m * D)"
    using units_code [of "Suc m" q] parts(1,2) by (auto simp: D_def algebra_simps)
  have dist_low: "distance n d ?low = int r" unfolding distance_def low by (simp add: n)
  have dist_high: "distance n d (Suc ?low) = int D - int r"
    unfolding distance_def high using r by (simp add: n algebra_simps)
  have below: "distance n d c' > int r" if "c' < ?low" for c'
  proof -
    have "units c' < units ?low" using that by simp
    then have "int (units c') * int d < int (units ?low) * int d"
      using assms by (intro mult_strict_right_mono) simp_all
    then show ?thesis unfolding distance_def low by (simp add: n)
  qed
  have above: "distance n d c' > int D - int r" if "c' > Suc ?low" for c'
  proof -
    have "units (Suc ?low) < units c'" using that by simp
    then have "int (units (Suc ?low)) * int d < int (units c') * int d"
      using assms by (intro mult_strict_right_mono) simp_all
    then show ?thesis unfolding distance_def high using r by (simp add: n algebra_simps)
  qed
  have code: "nearest_code n d = (if 2 * r > D \<or> (2 * r = D \<and> odd m) then Suc ?low else ?low)"
    by (simp add: nearest_code_def round_half_even_def Let_def q_def D_def m_def r_def)
  have cases: "c < ?low \<or> c = ?low \<or> c = Suc ?low \<or> c > Suc ?low" by linarith
  show "distance n d (nearest_code n d) \<le> distance n d c"
    using cases below [of c] above [of c] dist_low dist_high r unfolding code by auto
  have parity: "even ?low = even m" by simp
  show "even (nearest_code n d)"
    if "c \<noteq> nearest_code n d" "distance n d c = distance n d (nearest_code n d)"
    using that cases below [of c] above [of c] dist_low dist_high r parity unfolding code
    by (auto split: if_splits)
qed

section \<open>Patterns, signs and magnitudes\<close>

lemma binary64_masks:
  "binary64_sign_bit = push_bit 63 1" "binary64_fraction_mask = mask 52"
  "binary64_exponent_mask = push_bit 52 (mask 11)"
  by (simp_all add: binary64_sign_bit_def binary64_fraction_mask_def binary64_exponent_mask_def
      mask_eq_exp_minus_1)

lemma u64_eq_iff: "(a :: u64) = b \<longleftrightarrow> (\<forall>n < 64. bit a n = bit b n)"
  using bit_word_eqI [of a b] by auto

lemma bit_masks [binary64_rules]:
  "bit binary64_sign_bit n \<longleftrightarrow> n = 63" "bit binary64_fraction_mask n \<longleftrightarrow> n < 52"
  "bit binary64_exponent_mask n \<longleftrightarrow> 52 \<le> n \<and> n < 63"
  unfolding binary64_masks
  by (auto simp only: bit_push_bit_iff bit_mask_iff bit_1_iff possible_bit_word) auto

lemma magnitude_code_eq: "magnitude_code b = unat b mod 2 ^ 63"
proof -
  have "b AND NOT binary64_sign_bit = take_bit 63 b"
    by (rule bit_word_eqI) (auto simp: bit_simps bit_masks)
  then have "magnitude_code b = take_bit 63 (unat b)"
    by (simp only: magnitude_code_def unsigned_take_bit_eq)
  then show ?thesis by (simp only: take_bit_eq_mod)
qed

lemma magnitude_code_less [simp]: "magnitude_code b < 2 ^ 63"
  by (simp add: magnitude_code_eq)

lemma is_minus_iff: "is_minus b \<longleftrightarrow> 2 ^ 63 \<le> unat b"
proof -
  have "is_minus b \<longleftrightarrow> bit b 63"
    unfolding is_minus_def by (auto simp: u64_eq_iff bit_simps bit_masks)
  also have "\<dots> \<longleftrightarrow> bit (unat b) 63" by (simp add: bit_unsigned_iff)
  also have "\<dots> \<longleftrightarrow> odd (unat b div 2 ^ 63)" by (simp only: bit_iff_odd)
  also have "\<dots> \<longleftrightarrow> 2 ^ 63 \<le> unat b"
  proof -
    have "unat b < 2 * 2 ^ 63" using unsigned_less [of b] by simp
    then have "unat b div 2 ^ 63 < 2" by (simp add: less_mult_imp_div_less)
    then show ?thesis by (cases "2 ^ 63 \<le> unat b") (auto simp: div_greater_zero_iff less_2_cases_iff)
  qed
  finally show ?thesis .
qed

text \<open>Every pattern is its sign and its magnitude code.\<close>

lemma unat_split: "unat b = (if is_minus b then 2 ^ 63 else 0) + magnitude_code b"
proof -
  have "unat b < 2 ^ 64" using unsigned_less [of b] by simp
  then show ?thesis
    by (auto simp: is_minus_iff magnitude_code_eq mod_if)
qed

lemma same_parts: "is_minus a = is_minus b \<Longrightarrow> magnitude_code a = magnitude_code b \<Longrightarrow> a = b"
  using unat_split [of a] unat_split [of b] by (simp add: word_unat_eq_iff)

lemma unat_make_binary64:
  assumes "c < 2 ^ 63"
  shows "unat (make_binary64 n c) = (if n then 2 ^ 63 else 0) + c"
proof -
  have c: "unat (word_of_nat c :: u64) = c" using assms by (simp add: unat_of_nat)
  have "\<not> bit (word_of_nat c :: u64) 63"
    using is_minus_iff [of "word_of_nat c"] c assms
    unfolding is_minus_def by (auto simp: u64_eq_iff bit_simps bit_masks)
  then have "make_binary64 n c = (if n then binary64_sign_bit else 0) + word_of_nat c"
    unfolding make_binary64_def
    using disjunctive_add_eq_or [of binary64_sign_bit "word_of_nat c :: u64"]
    by (auto simp: u64_eq_iff bit_simps bit_masks)
  then show ?thesis
    using c assms by (auto simp: binary64_sign_bit_def unat_word_ariths)
qed

lemma make_binary64_parts [binary64_rules]:
  assumes "c < 2 ^ 63"
  shows "is_minus (make_binary64 n c) = n" "magnitude_code (make_binary64 n c) = c"
  using unat_make_binary64 [OF assms, of n] assms
  by (auto simp: is_minus_iff magnitude_code_eq)

lemma make_binary64_of_parts [binary64_rules]: "make_binary64 (is_minus b) (magnitude_code b) = b"
  by (rule same_parts) (rule make_binary64_parts [OF magnitude_code_less])+

lemma all_bits_iff: "(\<forall>k < 11. bit b (52 + k)) \<longleftrightarrow> drop_bit 52 (unat b) mod 2 ^ 11 = 2047"
  for b :: u64
proof -
  have "(\<forall>k < 11. bit b (52 + k)) \<longleftrightarrow> take_bit 11 (drop_bit 52 (unat b)) = mask 11"
    by (auto simp: bit_eq_iff bit_simps bit_unsigned_iff)
  also have "mask 11 = (2047 :: nat)" by (simp add: mask_eq_exp_minus_1)
  finally show ?thesis by (simp only: take_bit_eq_mod)
qed

lemma exponent_all_ones_iff:
  "b AND binary64_exponent_mask = binary64_exponent_mask \<longleftrightarrow> infinity_code \<le> magnitude_code b"
proof -
  have range: "52 \<le> n \<and> n < 63 \<longleftrightarrow> (\<exists>k < 11. n = 52 + k)" for n :: nat by presburger
  have "b AND binary64_exponent_mask = binary64_exponent_mask \<longleftrightarrow>
      (\<forall>n < 64. 52 \<le> n \<and> n < 63 \<longrightarrow> bit b n)"
    by (auto simp: u64_eq_iff bit_simps bit_masks)
  also have "\<dots> \<longleftrightarrow> (\<forall>k < 11. bit b (52 + k))" by (auto simp: range)
  also have "\<dots> \<longleftrightarrow> unat b div 2 ^ 52 mod 2 ^ 11 = 2047"
    unfolding all_bits_iff drop_bit_eq_div ..
  also have "unat b div 2 ^ 52 mod 2 ^ 11 = magnitude_code b div 2 ^ 52"
  proof -
    have "take_bit 11 (drop_bit 52 (unat b)) = drop_bit 52 (take_bit 63 (unat b))"
      by (simp add: drop_bit_take_bit)
    then show ?thesis by (simp only: magnitude_code_eq take_bit_eq_mod drop_bit_eq_div)
  qed
  also have "\<dots> = 2047 \<longleftrightarrow> infinity_code \<le> magnitude_code b"
    using magnitude_code_less [of b] by (auto simp: infinity_code_def)
  finally show ?thesis .
qed

lemma fraction_zero_iff: "b AND binary64_fraction_mask = 0 \<longleftrightarrow> magnitude_code b mod 2 ^ 52 = 0"
proof -
  have "b AND binary64_fraction_mask = take_bit 52 b"
    by (rule bit_word_eqI) (auto simp: bit_simps bit_masks)
  then have "b AND binary64_fraction_mask = 0 \<longleftrightarrow> take_bit 52 (unat b) = 0"
    by (simp only: word_unat_eq_iff unsigned_take_bit_eq unsigned_0)
  also have "take_bit 52 (unat b) = take_bit 52 (take_bit 63 (unat b))" by simp
  finally show ?thesis by (simp only: magnitude_code_eq take_bit_eq_mod)
qed

lemma is_nan_iff [binary64_rules]: "binary64_is_nan b \<longleftrightarrow> infinity_code < magnitude_code b"
proof -
  have "magnitude_code b mod 2 ^ 52 \<noteq> 0 \<longleftrightarrow> infinity_code \<noteq> magnitude_code b"
    if above: "infinity_code \<le> magnitude_code b"
  proof -
    obtain k where k: "magnitude_code b = infinity_code + k" using le_Suc_ex [OF above] by blast
    then have "k < 2 ^ 52" using magnitude_code_less [of b] by (simp add: infinity_code_def)
    then have "magnitude_code b mod 2 ^ 52 = k"
      by (simp only: k infinity_code_def mod_mult_self3 mod_less)
    then show ?thesis using k by simp
  qed
  then show ?thesis
    by (auto simp: binary64_is_nan_def exponent_all_ones_iff fraction_zero_iff)
qed

lemma is_infinity_iff [binary64_rules]: "binary64_is_infinity b \<longleftrightarrow> magnitude_code b = infinity_code"
  by (simp add: binary64_is_infinity_def magnitude_code_def word_unat_eq_iff infinity_code_def
      binary64_exponent_mask_def)

lemma is_zero_iff [binary64_rules]: "binary64_is_zero b \<longleftrightarrow> magnitude_code b = 0"
  by (simp add: binary64_is_zero_def magnitude_code_def word_unat_eq_iff)

lemma normalize_double_eq: "normalize_double b = (if binary64_is_nan b then canonical_nan_bits else b)"
  by (simp add: normalize_double_def binary64_is_nan_def)

lemma canonical_nan [simp]: "binary64_is_nan canonical_nan_bits"
  by (simp add: binary64_is_nan_def canonical_nan_bits_def binary64_exponent_mask_def
      binary64_fraction_mask_def)

lemma normalize_idem [simp]: "normalize_double (normalize_double b) = normalize_double b"
  by (simp add: normalize_double_eq)

section \<open>The order of the code is the numeric order\<close>

lemma unat_not_u64: "unat (NOT (b :: u64)) = 2 ^ 64 - 1 - unat b"
proof -
  have u: "uint b < 2 ^ 64" "0 \<le> uint b" using uint_bounded [of b] by simp_all
  have n: "unat b < 2 ^ 64" by (rule order.strict_trans2 [OF unsigned_less]) simp
  have "int (unat (NOT b)) = uint (NOT b)" by simp
  also have "\<dots> = take_bit 64 (NOT (uint b))" by (simp add: unsigned_not_eq)
  also have "\<dots> = (- 1 - uint b) mod 2 ^ 64"
    by (simp only: take_bit_eq_mod not_int_def) (simp add: minus_diff_commute)
  also have "\<dots> = (- 1 - uint b + 2 ^ 64) mod 2 ^ 64" by (simp only: mod_add_self2)
  also have "\<dots> = 2 ^ 64 - 1 - uint b"
    using u by (intro trans [OF mod_pos_pos_trivial]) linarith+
  also have "\<dots> = int (2 ^ 64 - 1 - unat b)"
    using n by (simp add: of_nat_diff)
  finally show ?thesis by linarith
qed

lemma order_key_unat:
  "unat (binary64_order_key b) =
     (if is_minus b then 2 ^ 63 - 1 - magnitude_code b else 2 ^ 63 + magnitude_code b)"
proof (cases "is_minus b")
  case True
  show ?thesis
    using unat_not_u64 [of b] True unat_split [of b] by (simp add: binary64_order_key_def is_minus_def)
next
  case False
  then have "\<not> bit b 63"
    unfolding is_minus_def by (auto simp: u64_eq_iff bit_simps bit_masks)
  then have "b OR binary64_sign_bit = b + binary64_sign_bit"
    using disjunctive_add_eq_or [of b binary64_sign_bit]
    by (auto simp: u64_eq_iff bit_simps bit_masks)
  then show ?thesis
    using False unat_split [of b] magnitude_code_less [of b]
    by (simp add: binary64_order_key_def is_minus_def binary64_sign_bit_def unat_word_ariths)
qed

text \<open>\<open>binary64_less_than\<close> and \<open>binary64_equal\<close> decide the numeric order and equality of the
  values, both zeros being equal and every NaN unordered.\<close>

lemma binary64_less_than_numeric:
  "binary64_less_than a b \<longleftrightarrow>
     \<not> binary64_is_nan a \<and> \<not> binary64_is_nan b \<and> signed_units a < signed_units b"
proof -
  let ?ma = "magnitude_code a" and ?mb = "magnitude_code b"
  have bounds: "?ma < 2 ^ 63" "?mb < 2 ^ 63" by (rule magnitude_code_less)+
  have zero: "units ?ma = 0 \<longleftrightarrow> ?ma = 0" "units ?mb = 0 \<longleftrightarrow> ?mb = 0"
    using units_eq_iff [of ?ma 0] units_eq_iff [of ?mb 0] by auto
  have key: "binary64_order_key a < binary64_order_key b \<longleftrightarrow>
      (if is_minus a then 2 ^ 63 - 1 - ?ma else 2 ^ 63 + ?ma) <
      (if is_minus b then 2 ^ 63 - 1 - ?mb else 2 ^ 63 + ?mb)"
    by (simp only: word_less_nat_alt order_key_unat)
  show ?thesis
    using bounds zero units_less_iff [of ?ma ?mb] units_less_iff [of ?mb ?ma]
    unfolding binary64_less_than_def key is_zero_iff signed_units_def
    by (cases "is_minus a"; cases "is_minus b"; cases "?ma = 0"; cases "?mb = 0")
       (auto simp del: units_less_iff)
qed

lemma binary64_equal_numeric:
  "binary64_equal a b \<longleftrightarrow>
     \<not> binary64_is_nan a \<and> \<not> binary64_is_nan b \<and> signed_units a = signed_units b"
proof -
  let ?ma = "magnitude_code a" and ?mb = "magnitude_code b"
  have zero: "units ?ma = 0 \<longleftrightarrow> ?ma = 0" "units ?mb = 0 \<longleftrightarrow> ?mb = 0"
    using units_eq_iff [of ?ma 0] units_eq_iff [of ?mb 0] by auto
  have eq: "a = b \<longleftrightarrow> is_minus a = is_minus b \<and> ?ma = ?mb"
    using same_parts [of a b] by auto
  show ?thesis
    using zero units_eq_iff [of ?ma ?mb]
    unfolding binary64_equal_def eq is_zero_iff signed_units_def
    by (cases "is_minus a"; cases "is_minus b"; cases "?ma = 0"; cases "?mb = 0")
       (auto simp del: units_eq_iff)
qed

lemma binary64_sign_numeric:
  "binary64_is_positive b \<longleftrightarrow> \<not> binary64_is_nan b \<and> 0 < signed_units b"
  "binary64_is_negative b \<longleftrightarrow> \<not> binary64_is_nan b \<and> signed_units b < 0"
  using units_eq_iff [of "magnitude_code b" 0]
  by (auto simp: binary64_is_positive_def binary64_is_negative_def is_zero_iff signed_units_def
      is_minus_def simp del: units_eq_iff)

section \<open>The integer conversion is correctly rounded\<close>

lemma nearest_code_integer:
  assumes "0 < m"
  defines "k \<equiv> bit_width m - 1"
  shows "nearest_code (m * 2 ^ 1074) 1 =
    (k + 1022) * 2 ^ 52 +
      (if k \<le> 52 then m * 2 ^ (52 - k) else round_half_even m (2 ^ (k - 52)))"
proof -
  have w: "bit_width m = Suc k" using bit_width_bounds [OF assms(1)] by (simp add: k_def)
  have shift: "rounding_shift (m * 2 ^ 1074) 1 = k + 1022"
    using bit_width_shift [OF assms(1), of 1074] w by (simp add: rounding_shift_def del: power_numeral)
  have "round_half_even (m * 2 ^ 1074) (2 ^ (k + 1022)) =
      (if k \<le> 52 then m * 2 ^ (52 - k) else round_half_even m (2 ^ (k - 52)))"
  proof (cases "k \<le> 52")
    case True
    have "m * 2 ^ 1074 = (m * 2 ^ (52 - k)) * 2 ^ (k + 1022)"
      unfolding mult.assoc power_add [symmetric] using True by simp
    then have "round_half_even (m * 2 ^ 1074) (2 ^ (k + 1022)) = m * 2 ^ (52 - k)"
      using round_half_even_exact [of "2 ^ (k + 1022)" "m * 2 ^ (52 - k)"] by (simp only:) simp
    then show ?thesis using True by (simp only: if_True)
  next
    case False
    have "(2 :: nat) ^ (k + 1022) = 2 ^ (k - 52) * 2 ^ 1074"
      unfolding power_add [symmetric] using False by simp
    then have "round_half_even (m * 2 ^ 1074) (2 ^ (k + 1022)) = round_half_even m (2 ^ (k - 52))"
      using round_half_even_cancel [of "2 ^ 1074" m "2 ^ (k - 52)"] by (simp only:) simp
    then show ?thesis using False by (simp only: if_False)
  qed
  then show ?thesis unfolding nearest_code_def shift by simp
qed

lemma assemble_binary64:
  assumes "e < 2048"
  shows "(if n then push_bit 63 1 else 0) OR push_bit 52 (word_of_nat e) OR
      (s AND binary64_fraction_mask) =
    make_binary64 n (e * 2 ^ 52 + unat s mod 2 ^ 52)"
proof -
  have e: "push_bit 52 (word_of_nat e :: u64) = word_of_nat (e * 2 ^ 52)"
    by (simp add: push_bit_eq_mult)
  have f: "s AND binary64_fraction_mask = word_of_nat (unat s mod 2 ^ 52)"
  proof -
    have "s AND binary64_fraction_mask = take_bit 52 s"
      by (rule bit_word_eqI) (auto simp: bit_simps bit_masks)
    also have "\<dots> = word_of_nat (unat (take_bit 52 s))" by simp
    also have "unat (take_bit 52 s) = take_bit 52 (unat s)" by (rule unsigned_take_bit_eq)
    also have "\<dots> = unat s mod 2 ^ 52" by (rule take_bit_eq_mod)
    finally show ?thesis .
  qed
  have "push_bit 52 (word_of_nat e) OR (s AND binary64_fraction_mask) =
      push_bit 52 (word_of_nat e) + (s AND binary64_fraction_mask)"
    by (subst disjunctive_add_eq_or) (auto simp: u64_eq_iff bit_simps bit_masks)
  also have "\<dots> = word_of_nat (e * 2 ^ 52 + unat s mod 2 ^ 52)"
    unfolding e f by simp
  finally show ?thesis
    unfolding make_binary64_def binary64_masks(1) by (simp add: or.assoc)
qed

lemma unat_magnitude:
  fixes v :: i64
  assumes "v \<noteq> 0"
  shows "unat (if v <s 0 then - (v + 1) + 1 else v) = nat \<bar>sint v\<bar>"
    "0 < nat \<bar>sint v\<bar>" "nat \<bar>sint v\<bar> \<le> 2 ^ 63"
proof -
  have range: "- (2 ^ 63) \<le> sint v" "sint v < 2 ^ 63"
    using sint_range_size [of v] by (simp_all add: word_size)
  have nz: "sint v \<noteq> 0"
  proof
    assume "sint v = 0"
    then have "(of_int (sint v) :: i64) = 0" by (simp only: of_int_0)
    then show False using assms by simp
  qed
  show "0 < nat \<bar>sint v\<bar>" "nat \<bar>sint v\<bar> \<le> 2 ^ 63" using nz range by auto
  have neg: "v <s 0 \<longleftrightarrow> sint v < 0" by (simp add: word_sless_alt)
  have u: "unat w = nat (sint w mod 2 ^ 64)" for w :: u64
    by (simp add: uint_sint take_bit_eq_mod flip: nat_uint_eq)
  show "unat (if v <s 0 then - (v + 1) + 1 else v) = nat \<bar>sint v\<bar>"
  proof (cases "v <s 0")
    case True
    have "uint (- v) = (- sint v) mod 2 ^ 64"
      using uint_word_of_int [of "- sint v", where 'a = 64] by simp
    then show ?thesis using True neg range by (simp flip: nat_uint_eq)
  next
    case False
    then show ?thesis using neg range u [of v] by simp
  qed
qed

lemma widened_less:
  fixes n k :: nat
  assumes "n < 2 ^ Suc k" "k \<le> 52"
  shows "n * 2 ^ (52 - k) < 2 ^ 53"
proof -
  have "n * 2 ^ (52 - k) < 2 ^ Suc k * 2 ^ (52 - k)"
    using assms(1) by (intro mult_strict_right_mono) simp_all
  also have "\<dots> = 2 ^ 53" unfolding power_add [symmetric] using assms(2) by simp
  finally show ?thesis .
qed

lemma widened_ge:
  fixes n k :: nat
  assumes "2 ^ k \<le> n" "k \<le> 52"
  shows "2 ^ 52 \<le> n * 2 ^ (52 - k)"
proof -
  have "(2 :: nat) ^ 52 = 2 ^ k * 2 ^ (52 - k)" unfolding power_add [symmetric] using assms(2) by simp
  also have "\<dots> \<le> n * 2 ^ (52 - k)" using assms(1) by (rule mult_le_mono1)
  finally show ?thesis .
qed

text \<open>The code's significand and exponent, in numbers.\<close>

lemma shifted_unat:
  fixes m :: u64
  shows "k \<le> 52 \<Longrightarrow> unat m < 2 ^ Suc k \<Longrightarrow> unat (push_bit (52 - k) m) = unat m * 2 ^ (52 - k)"
    and "unat (drop_bit j m) = unat m div 2 ^ j"
    and "j < 64 \<Longrightarrow> unat (m AND (push_bit j 1 - 1)) = unat m mod 2 ^ j"
    and "j < 64 \<Longrightarrow> unat (push_bit j (1 :: u64)) = 2 ^ j"
    and "m AND 1 \<noteq> 0 \<longleftrightarrow> odd (unat m)"
proof -
  show "unat (push_bit (52 - k) m) = unat m * 2 ^ (52 - k)" if "k \<le> 52" "unat m < 2 ^ Suc k"
  proof -
    have small: "unat m * 2 ^ (52 - k) < 2 ^ 64" using widened_less [OF that(2,1)] by simp
    have "unat (push_bit (52 - k) m) = take_bit 64 (push_bit (52 - k) (unat m))"
      by (simp add: unsigned_push_bit_eq)
    then show ?thesis using small by (simp add: push_bit_eq_mult take_bit_nat_eq_self_iff)
  qed
  show drop: "unat (drop_bit j m) = unat m div 2 ^ j" for j
    using unat_drop_bit_eq [of j m] by (simp only: drop_bit_eq_div)
  show "unat (m AND (push_bit j 1 - 1)) = unat m mod 2 ^ j" if "j < 64"
  proof -
    have "m AND (push_bit j 1 - 1) = take_bit j m"
      by (simp add: take_bit_eq_mask push_bit_eq_mult flip: mask_eq_exp_minus_1)
    then have "unat (m AND (push_bit j 1 - 1)) = take_bit j (unat m)"
      by (simp only: unsigned_take_bit_eq)
    then show ?thesis by (simp only: take_bit_eq_mod)
  qed
  show "unat (push_bit j (1 :: u64)) = 2 ^ j" if "j < 64"
  proof -
    have "(2 :: nat) ^ j < 2 ^ 64" using that by (rule power_strict_increasing) simp
    then show ?thesis
      using unsigned_push_bit_eq [where 'a = nat, of j "1 :: u64"] that
      by (simp add: push_bit_eq_mult take_bit_nat_eq_self_iff)
  qed
  show "m AND 1 \<noteq> 0 \<longleftrightarrow> odd (unat m)"
  proof -
    have "m AND 1 \<noteq> 0 \<longleftrightarrow> bit m 0" by (simp add: and_one_eq bit_0 odd_iff_mod_2_eq_one)
    also have "\<dots> \<longleftrightarrow> bit (unat m) 0" by (simp only: bit_unsigned_iff) simp
    also have "\<dots> \<longleftrightarrow> odd (unat m)" by (rule bit_0)
    finally show ?thesis .
  qed
qed

lemma assembled_code:
  fixes s k :: nat
  assumes "2 ^ 52 \<le> s" "s < 2 ^ 53"
  shows "(k + 1023) * 2 ^ 52 + s mod 2 ^ 52 = (k + 1022) * 2 ^ 52 + s"
proof -
  have "s mod 2 ^ 52 = s - 2 ^ 52" using assms by (simp add: mod_if)
  then show ?thesis using assms(1) by simp
qed

text \<open>The two branches of the conversion: widen the magnitude to 53 bits, or round it
  down to 53 bits with the remainder against the halfway point.\<close>

definition significand_and_exponent :: "u64 \<Rightarrow> nat \<Rightarrow> u64 \<times> nat" where
  "significand_and_exponent m k =
     (if k \<le> 52 then (push_bit (52 - k) m, k)
      else let shift = k - 52; significand = drop_bit shift m;
               remainder_mask = push_bit shift 1 - 1;
               remainder = m AND remainder_mask; halfway = push_bit (shift - 1) 1
           in if remainder > halfway \<or> (remainder = halfway \<and> significand AND 1 \<noteq> 0)
              then if significand + 1 = push_bit 53 1
                   then (drop_bit 1 (significand + 1), k + 1)
                   else (significand + 1, k)
              else (significand, k))"

definition rounded_significand :: "nat \<Rightarrow> nat \<Rightarrow> nat" where
  "rounded_significand n k =
     (if k \<le> 52 then n * 2 ^ (52 - k) else round_half_even n (2 ^ (k - 52)))"

lemma quotient_bounds:
  fixes n k :: nat
  assumes "2 ^ k \<le> n" "n < 2 ^ Suc k" "52 < k"
  shows "2 ^ 52 \<le> n div 2 ^ (k - 52)" "n div 2 ^ (k - 52) < 2 ^ 53"
proof -
  have "(2 :: nat) ^ k = 2 ^ 52 * 2 ^ (k - 52)" "(2 :: nat) ^ Suc k = 2 ^ 53 * 2 ^ (k - 52)"
    unfolding power_add [symmetric] using assms(3) by simp_all
  then show "2 ^ 52 \<le> n div 2 ^ (k - 52)" "n div 2 ^ (k - 52) < 2 ^ 53"
    using assms(1,2)
      less_eq_div_iff_mult_less_eq [of "2 ^ (k - 52)" "2 ^ 52" n]
      div_less_iff_less_mult [of "2 ^ (k - 52)" n "2 ^ 53"] by simp_all
qed

lemma rounded_significand_bounds:
  assumes "2 ^ k \<le> n" "n < 2 ^ Suc k"
  shows "2 ^ 52 \<le> rounded_significand n k" "rounded_significand n k \<le> 2 ^ 53"
proof -
  have "2 ^ 52 \<le> rounded_significand n k \<and> rounded_significand n k \<le> 2 ^ 53"
  proof (cases "k \<le> 52")
    case True
    then show ?thesis
      using widened_ge [OF assms(1)] widened_less [OF assms(2)]
      by (simp add: rounded_significand_def)
  next
    case False
    then show ?thesis
      using quotient_bounds [OF assms] round_half_even_bounds [of n "2 ^ (k - 52)"]
      by (auto simp: rounded_significand_def)
  qed
  then show "2 ^ 52 \<le> rounded_significand n k" "rounded_significand n k \<le> 2 ^ 53" by simp_all
qed

lemma significand_and_exponent_code:
  assumes "2 ^ k \<le> unat m" "unat m < 2 ^ Suc k" "k \<le> 63"
    and "significand_and_exponent m k = (s, e)"
  shows "(e + 1023) * 2 ^ 52 + unat s mod 2 ^ 52 =
      (k + 1022) * 2 ^ 52 + rounded_significand (unat m) k \<and> e \<le> 64"
proof (cases "k \<le> 52")
  case True
  then have s: "s = push_bit (52 - k) m" "e = k"
    using assms(4) by (auto simp: significand_and_exponent_def)
  have u: "unat s = unat m * 2 ^ (52 - k)" using shifted_unat(1) [OF True assms(2)] s by simp
  have "unat s < 2 ^ 53" unfolding u by (rule widened_less [OF assms(2) True])
  moreover have "2 ^ 52 \<le> unat s"
    using rounded_significand_bounds(1) [OF assms(1,2)] True u by (simp add: rounded_significand_def)
  ultimately show ?thesis
    using assembled_code [of "unat s" k] s u True by (simp add: rounded_significand_def)
next
  case False
  define j where "j = k - 52"
  define Q where "Q = unat m div 2 ^ j"
  define R where "R = unat m mod 2 ^ j"
  have j: "0 < j" "j < 64" using False assms(3) by (simp_all add: j_def)
  have Q: "2 ^ 52 \<le> Q" "Q < 2 ^ 53"
    using quotient_bounds [OF assms(1,2)] False by (simp_all add: Q_def j_def)
  have uQ: "unat (drop_bit j m) = Q" by (simp only: shifted_unat(2) Q_def)
  have uR: "unat (m AND (push_bit j 1 - 1)) = R" using shifted_unat(3) [OF j(2)] by (simp only: R_def)
  have uH: "unat (push_bit (j - 1) (1 :: u64)) = 2 ^ (j - 1)" using j by (intro shifted_unat(4)) simp
  have u1: "unat (drop_bit j m + 1) = Q + 1" using uQ Q(2) by (simp add: unat_word_ariths)
  have half: "2 * 2 ^ (j - 1) = (2 :: nat) ^ j" using j(1) by (simp flip: power_Suc)
  have up: "(m AND (push_bit j 1 - 1) > push_bit (j - 1) 1 \<or>
      (m AND (push_bit j 1 - 1) = push_bit (j - 1) 1 \<and> drop_bit j m AND 1 \<noteq> 0)) \<longleftrightarrow>
      2 * R > 2 ^ j \<or> (2 * R = 2 ^ j \<and> odd Q)"
    unfolding word_less_nat_alt word_unat_eq_iff [of "m AND (push_bit j 1 - 1)"] uR uH
      shifted_unat(5) uQ half [symmetric] by auto
  have carry: "drop_bit j m + 1 = push_bit 53 1 \<longleftrightarrow> Q + 1 = 2 ^ 53"
    unfolding word_unat_eq_iff u1 by simp
  have M: "rounded_significand (unat m) k =
      (if 2 * R > 2 ^ j \<or> (2 * R = 2 ^ j \<and> odd Q) then Q + 1 else Q)"
    using False by (simp add: rounded_significand_def round_half_even_def Let_def j_def Q_def R_def)
  have pair: "(s, e) =
      (if 2 * R > 2 ^ j \<or> (2 * R = 2 ^ j \<and> odd Q)
       then if Q + 1 = 2 ^ 53 then (drop_bit 1 (drop_bit j m + 1), k + 1)
            else (drop_bit j m + 1, k)
       else (drop_bit j m, k))"
    using assms(4) False
    unfolding significand_and_exponent_def Let_def j_def [symmetric] up carry by simp
  consider (carried) "2 * R > 2 ^ j \<or> (2 * R = 2 ^ j \<and> odd Q)" "Q + 1 = 2 ^ 53"
    | (rounded) "2 * R > 2 ^ j \<or> (2 * R = 2 ^ j \<and> odd Q)" "Q + 1 \<noteq> 2 ^ 53"
    | (kept) "\<not> (2 * R > 2 ^ j \<or> (2 * R = 2 ^ j \<and> odd Q))" by blast
  then show ?thesis
  proof cases
    case carried
    have "unat (drop_bit 1 (drop_bit j m + 1)) = (Q + 1) div 2 ^ 1"
      using shifted_unat(2) [of 1 "drop_bit j m + 1"] u1 by (simp only:)
    then have "unat s = 2 ^ 52" "e = k + 1" using pair carried by (simp_all add: carried)
    then show ?thesis using M carried assms(3) by simp
  next
    case rounded
    then have "unat s = Q + 1" "e = k" using pair u1 by simp_all
    then show ?thesis
      using M rounded Q assembled_code [of "Q + 1" k] assms(3) by simp
  next
    case kept
    then have "(s, e) = (drop_bit j m, k)" using pair by (simp only: if_False)
    then have "unat s = Q" "e = k" using uQ by simp_all
    then show ?thesis using M kept Q assembled_code [of Q k] assms(3) by simp
  qed
qed

lemma integer_round_code:
  assumes "0 < n" "n \<le> 2 ^ 63"
  defines "k \<equiv> bit_width n - 1"
  shows "round_code (n * 2 ^ 1074) 1 = (k + 1022) * 2 ^ 52 + rounded_significand n k"
    "(k + 1022) * 2 ^ 52 + rounded_significand n k < infinity_code" "k \<le> 63"
    "2 ^ k \<le> n" "n < 2 ^ Suc k"
proof -
  show w: "2 ^ k \<le> n" "n < 2 ^ Suc k"
    using bit_width_bounds [OF assms(1)] by (simp_all add: k_def)
  have "(2 :: nat) ^ k \<le> 2 ^ 63" using w(1) assms(2) by linarith
  then show k63: "k \<le> 63" by (rule power_le_imp_le_exp [rotated]) simp
  show less: "(k + 1022) * 2 ^ 52 + rounded_significand n k < infinity_code"
    using rounded_significand_bounds(2) [OF w] k63 by (simp add: infinity_code_def)
  have "nearest_code (n * 2 ^ 1074) 1 = (k + 1022) * 2 ^ 52 + rounded_significand n k"
    using nearest_code_integer [OF assms(1)]
    unfolding k_def [symmetric] rounded_significand_def .
  then show "round_code (n * 2 ^ 1074) 1 = (k + 1022) * 2 ^ 52 + rounded_significand n k"
    using less unfolding round_code_def by simp
qed

lemma integer_code_finite: "n \<le> 2 ^ 63 \<Longrightarrow> round_code (n * 2 ^ 1074) 1 < infinity_code"
proof (cases "n = 0")
  case True
  then show ?thesis
    by (simp add: round_code_def nearest_code_def rounding_shift_def round_half_even_def
        infinity_code_def)
next
  case False
  assume "n \<le> 2 ^ 63"
  then show ?thesis using integer_round_code(1,2) [of n] False by simp
qed

definition rounded_integer :: "int \<Rightarrow> binary64" where
  "rounded_integer i = make_binary64 (i < 0) (round_code (nat \<bar>i\<bar> * 2 ^ 1074) 1)"

lemma int_to_binary64_rounded: "int_to_binary64 v = rounded_integer (sint v)"
proof (cases "v = 0")
  case True
  then show ?thesis
    by (simp add: int_to_binary64_def rounded_integer_def round_code_def nearest_code_def
        rounding_shift_def round_half_even_def make_binary64_def)
next
  case False
  define m where "m = (if v <s 0 then - (v + 1) + 1 else v)"
  define k where "k = bit_width (unat m) - 1"
  have m: "unat m = nat \<bar>sint v\<bar>" "0 < unat m" "unat m \<le> 2 ^ 63"
    using unat_magnitude [OF False] by (simp_all add: m_def)
  note code = integer_round_code [OF m(2,3), folded k_def]
  have neg: "v <s 0 \<longleftrightarrow> sint v < 0" by (simp add: word_sless_alt)
  obtain s e where se: "significand_and_exponent m k = (s, e)" by fastforce
  note parts = significand_and_exponent_code [OF code(4,5,3) se]
  have "int_to_binary64 v = (if v <s 0 then push_bit 63 1 else 0) OR
      push_bit 52 (word_of_nat (e + 1023)) OR (s AND binary64_fraction_mask)"
    using False se
    unfolding int_to_binary64_def Let_def m_def [symmetric] k_def [symmetric]
      significand_and_exponent_def by simp
  also have "\<dots> = make_binary64 (v <s 0) ((e + 1023) * 2 ^ 52 + unat s mod 2 ^ 52)"
    using parts by (intro assemble_binary64) simp
  finally show ?thesis
    unfolding rounded_integer_def m(1) [symmetric] code(1) conjunct1 [OF parts] neg .
qed

section \<open>Rounded results\<close>

definition finite_binary64 :: "binary64 \<Rightarrow> bool" where
  "finite_binary64 b \<longleftrightarrow> magnitude_code b < infinity_code"

lemma infinity_code_less [simp]: "infinity_code < 2 ^ 63"
  by (simp add: infinity_code_def)

lemma round_code_less: "round_code n d < 2 ^ 63"
  by (rule le_less_trans [OF _ infinity_code_less]) (simp add: round_code_def)

text \<open>\<open>nearest_to r d x\<close>: no pattern is closer to \<open>x / d\<close> than \<open>r\<close>, and \<open>r\<close> is even where
  another one is as close.\<close>

definition nearest_to :: "binary64 \<Rightarrow> int \<Rightarrow> int \<Rightarrow> bool" where
  "nearest_to r d x \<longleftrightarrow>
     (\<forall>c. \<bar>signed_units r * d - x\<bar> \<le> \<bar>signed_units c * d - x\<bar> \<and>
       (\<bar>signed_units c * d - x\<bar> = \<bar>signed_units r * d - x\<bar> \<and> signed_units c \<noteq> signed_units r \<longrightarrow>
          even (magnitude_code r)))"

lemma make_binary64_signed:
  "c < 2 ^ 63 \<Longrightarrow> signed_units (make_binary64 n c) = (if n then - int (units c) else int (units c))"
  by (simp only: signed_units_def make_binary64_parts)

lemma make_rounded_nearest:
  assumes "0 < d" "finite_binary64 (make_binary64 n (round_code m d))"
  shows "nearest_to (make_binary64 n (round_code m d)) (int d) (if n then - int m else int m)"
proof -
  let ?r = "make_binary64 n (round_code m d)"
  note less = round_code_less [of m d]
  have code: "magnitude_code ?r = round_code m d" by (rule make_binary64_parts(2) [OF less])
  then have same: "round_code m d = nearest_code m d"
    using assms(2) by (auto simp: finite_binary64_def round_code_def)
  have code': "magnitude_code ?r = nearest_code m d" using code same by simp
  have dist_r: "\<bar>signed_units ?r * int d - (if n then - int m else int m)\<bar> =
      distance m d (nearest_code m d)"
    unfolding make_binary64_signed [OF less] unfolding same distance_def
    by (simp add: abs_minus_commute)
  have dist_0: "distance m d 0 = int m" by (simp add: distance_def)
  show ?thesis
    unfolding nearest_to_def dist_r code'
  proof (intro allI conjI impI)
    fix c
    have cases: "\<bar>signed_units c * int d - (if n then - int m else int m)\<bar> =
        (if is_minus c = n then distance m d (magnitude_code c)
         else int (units (magnitude_code c)) * int d + int m)"
    proof -
      define U where "U = int (units (magnitude_code c)) * int d"
      have U: "0 \<le> U" by (simp add: U_def)
      have sc: "signed_units c * int d = (if is_minus c then - U else U)"
        by (simp add: signed_units_def U_def)
      show ?thesis
        unfolding sc distance_def U_def [symmetric]
        by (cases "is_minus c"; cases n) (use U in \<open>simp_all add: abs_if\<close>)
    qed
    show "distance m d (nearest_code m d) \<le>
        \<bar>signed_units c * int d - (if n then - int m else int m)\<bar>"
      using nearest_code_nearest(1) [OF assms(1), of m "magnitude_code c"]
        nearest_code_nearest(1) [OF assms(1), of m 0] dist_0
      unfolding cases by (simp split: if_splits) (smt (verit) of_nat_0_le_iff zero_le_mult_iff)
    assume tie: "\<bar>signed_units c * int d - (if n then - int m else int m)\<bar> =
        distance m d (nearest_code m d) \<and> signed_units c \<noteq> signed_units ?r"
    show "even (nearest_code m d)"
    proof (cases "is_minus c = n")
      case True
      then have "magnitude_code c \<noteq> nearest_code m d"
        using tie unfolding make_binary64_signed [OF less] unfolding same by (auto simp: signed_units_def)
      then show ?thesis
        using nearest_code_nearest(2) [OF assms(1)] tie True unfolding cases by auto
    next
      case False
      have "int (units (magnitude_code c)) * int d + int m = distance m d (nearest_code m d)"
        using conjunct1 [OF tie] False unfolding cases by simp
      moreover have "0 \<le> int (units (magnitude_code c)) * int d" by simp
      moreover have "distance m d (nearest_code m d) \<le> distance m d 0"
        by (rule nearest_code_nearest(1) [OF assms(1)])
      ultimately have "distance m d (nearest_code m d) = distance m d 0"
        unfolding dist_0 by linarith
      show ?thesis
      proof (cases "nearest_code m d = 0")
        case False
        then show ?thesis
          using nearest_code_nearest(2) [OF assms(1), of 0 m] \<open>distance m d _ = distance m d 0\<close>
          by simp
      qed simp
    qed
  qed
qed


lemma make_rounded_not_nan: "\<not> binary64_is_nan (make_binary64 n (round_code m d))"
  using make_binary64_parts(2) [OF round_code_less, of n m d]
  by (simp add: is_nan_iff) (simp add: round_code_def)

lemma flip_sign_parts:
  "is_minus (b XOR binary64_sign_bit) = (\<not> is_minus b)"
  "magnitude_code (b XOR binary64_sign_bit) = magnitude_code b"
proof -
  show "is_minus (b XOR binary64_sign_bit) = (\<not> is_minus b)"
    unfolding is_minus_def by (auto simp: u64_eq_iff bit_simps bit_masks)
  have "(b XOR binary64_sign_bit) AND NOT binary64_sign_bit = b AND NOT binary64_sign_bit"
    by (auto simp: u64_eq_iff bit_simps bit_masks)
  then show "magnitude_code (b XOR binary64_sign_bit) = magnitude_code b"
    by (simp add: magnitude_code_def)
qed

lemma clear_sign_parts:
  "is_minus (b AND NOT binary64_sign_bit) = False"
  "magnitude_code (b AND NOT binary64_sign_bit) = magnitude_code b"
proof -
  show "is_minus (b AND NOT binary64_sign_bit) = False"
    unfolding is_minus_def by (auto simp: u64_eq_iff bit_simps bit_masks)
  have "(b AND NOT binary64_sign_bit) AND NOT binary64_sign_bit = b AND NOT binary64_sign_bit"
    by (auto simp: u64_eq_iff bit_simps bit_masks)
  then show "magnitude_code (b AND NOT binary64_sign_bit) = magnitude_code b"
    by (simp add: magnitude_code_def)
qed

lemma signed_units_flip: "signed_units (b XOR binary64_sign_bit) = - signed_units b"
  by (simp add: signed_units_def flip_sign_parts)

lemma finite_not_special:
  "finite_binary64 b \<Longrightarrow> \<not> binary64_is_nan b" "finite_binary64 b \<Longrightarrow> \<not> binary64_is_infinity b"
  by (auto simp: finite_binary64_def is_nan_iff is_infinity_iff)

lemma zero_nearest: "nearest_to (make_binary64 n 0) d 0"
proof -
  have "signed_units (make_binary64 n 0) = 0" "magnitude_code (make_binary64 n 0) = 0"
    using make_binary64_signed [of 0 n] make_binary64_parts(2) [of 0 n] by simp_all
  then show ?thesis by (simp add: nearest_to_def)
qed

lemma ieee_add_nearest:
  assumes "finite_binary64 a" "finite_binary64 b" "finite_binary64 (ieee_add a b)"
  shows "nearest_to (ieee_add a b) 1 (signed_units a + signed_units b)"
proof -
  let ?s = "signed_units a + signed_units b"
  have add: "ieee_add a b = (if ?s = 0 then make_binary64 (is_minus a \<and> is_minus b) 0
      else make_binary64 (?s < 0) (round_code (nat \<bar>?s\<bar>) 1))"
    using assms(1,2) by (simp add: ieee_add_def finite_not_special Let_def)
  show ?thesis
  proof (cases "?s = 0")
    case True
    then show ?thesis unfolding add using zero_nearest by simp
  next
    case False
    have "(if ?s < 0 then - int (nat \<bar>?s\<bar>) else int (nat \<bar>?s\<bar>)) = ?s" by simp
    then show ?thesis
      using make_rounded_nearest [of 1 "?s < 0" "nat \<bar>?s\<bar>"] assms(3) False
      unfolding add by simp
  qed
qed

lemma ieee_mul_nearest:
  assumes "finite_binary64 a" "finite_binary64 b" "finite_binary64 (ieee_mul a b)"
  shows "nearest_to (ieee_mul a b) (2 ^ 1074) (signed_units a * signed_units b)"
proof -
  let ?n = "is_minus a \<noteq> is_minus b"
  let ?p = "units (magnitude_code a) * units (magnitude_code b)"
  have mul: "ieee_mul a b = make_binary64 ?n (round_code ?p (2 ^ 1074))"
    using assms(1,2) by (simp only: ieee_mul_def finite_not_special if_False disj_not1 simp_thms)
  have p: "(if ?n then - int ?p else int ?p) = signed_units a * signed_units b"
    by (simp add: signed_units_def)
  have fin: "finite_binary64 (make_binary64 ?n (round_code ?p (2 ^ 1074)))"
    using assms(3) unfolding mul .
  have "(0 :: nat) < 2 ^ 1074" by simp
  from make_rounded_nearest [OF this fin]
  have "nearest_to (ieee_mul a b) (int (2 ^ 1074)) (if ?n then - int ?p else int ?p)"
    unfolding mul .
  then show ?thesis unfolding p by (simp only: of_nat_power of_nat_numeral)
qed

lemma finite_normalize:
  "finite_binary64 (normalize_double b) \<Longrightarrow> normalize_double b = b \<and> finite_binary64 b"
  using finite_not_special(1) [of canonical_nan_bits] by (auto simp: normalize_double_eq split: if_splits)

lemma strict_arithmetic_finite:
  assumes "finite_binary64 a" "finite_binary64 b"
  shows "strict_binary64_arithmetic a b op =
    (True, normalize_double
       (case op of SB_add \<Rightarrow> ieee_add a b | SB_subtract \<Rightarrow> ieee_sub a b | SB_multiply \<Rightarrow> ieee_mul a b))"
  using assms by (simp add: strict_binary64_arithmetic_def Let_def finite_not_special)

lemma strict_arithmetic_canonical:
  "fst (strict_binary64_arithmetic a b op)"
  "normalize_double (snd (strict_binary64_arithmetic a b op)) = snd (strict_binary64_arithmetic a b op)"
proof -
  have "normalize_double canonical_nan_bits = canonical_nan_bits"
    by (simp add: normalize_double_eq)
  then show "fst (strict_binary64_arithmetic a b op)"
    "normalize_double (snd (strict_binary64_arithmetic a b op)) = snd (strict_binary64_arithmetic a b op)"
    by (simp_all add: strict_binary64_arithmetic_def Let_def)
qed

lemma ieee_add_commute: "ieee_add a b = ieee_add b a"
proof -
  have "binary64_is_infinity a \<Longrightarrow> binary64_is_infinity b \<Longrightarrow> is_minus a = is_minus b \<Longrightarrow> a = b"
    by (rule same_parts) (simp_all add: is_infinity_iff)
  then show ?thesis
    by (simp add: ieee_add_def Let_def add.commute conj_commute disj_commute)
qed

lemma ieee_mul_commute: "ieee_mul a b = ieee_mul b a"
proof -
  have "(is_minus a \<noteq> is_minus b) = (is_minus b \<noteq> is_minus a)" by auto
  then show ?thesis
    unfolding ieee_mul_def by (simp only: disj_commute mult.commute)
qed

definition exact_result :: "strict_binary64_operation \<Rightarrow> int \<Rightarrow> int \<Rightarrow> int" where
  "exact_result op x y =
     (case op of SB_add \<Rightarrow> x + y | SB_subtract \<Rightarrow> x - y | SB_multiply \<Rightarrow> x * y)"

definition result_scale :: "strict_binary64_operation \<Rightarrow> int" where
  "result_scale op = (case op of SB_multiply \<Rightarrow> 2 ^ 1074 | _ \<Rightarrow> 1)"

lemma strict_arithmetic_nearest:
  assumes "finite_binary64 a" "finite_binary64 b"
    and "finite_binary64 (snd (strict_binary64_arithmetic a b op))"
  shows "nearest_to (snd (strict_binary64_arithmetic a b op)) (result_scale op)
    (exact_result op (signed_units a) (signed_units b))"
proof -
  let ?x = "case op of SB_add \<Rightarrow> ieee_add a b | SB_subtract \<Rightarrow> ieee_sub a b
    | SB_multiply \<Rightarrow> ieee_mul a b"
  have r: "snd (strict_binary64_arithmetic a b op) = ?x" and x: "finite_binary64 ?x"
    using assms(3) finite_normalize
    unfolding strict_arithmetic_finite [OF assms(1,2)] snd_conv by auto
  show ?thesis
  proof (cases op)
    case SB_add
    then show ?thesis
      using ieee_add_nearest [OF assms(1,2)] x
      unfolding r by (simp add: result_scale_def exact_result_def)
  next
    case SB_subtract
    have flipped: "finite_binary64 (b XOR binary64_sign_bit)"
      using assms(2) by (simp add: finite_binary64_def flip_sign_parts)
    show ?thesis
      using SB_subtract ieee_add_nearest [OF assms(1) flipped] x
      unfolding r by (simp add: result_scale_def exact_result_def ieee_sub_def signed_units_flip)
  next
    case SB_multiply
    then have "finite_binary64 (ieee_mul a b)" using x by simp
    from ieee_mul_nearest [OF assms(1,2) this] show ?thesis
      using SB_multiply
      unfolding r by (simp only: result_scale_def exact_result_def strict_binary64_operation.case)
  qed
qed



text \<open>C36: the double comparisons of the kernels, which look only at bit patterns through an
  order key, are the numeric order and equality of the values the patterns stand for: both
  zeros are equal, infinities are ordered beyond every finite value, every NaN is unordered
  and unequal to everything, and the sign tests are comparison with zero.\<close>

theorem binary64_comparisons_are_numeric:
  "(binary64_less_than a b \<longleftrightarrow>
      \<not> binary64_is_nan a \<and> \<not> binary64_is_nan b \<and> signed_units a < signed_units b) \<and>
   (binary64_equal a b \<longleftrightarrow>
      \<not> binary64_is_nan a \<and> \<not> binary64_is_nan b \<and> signed_units a = signed_units b) \<and>
   (binary64_is_positive a \<longleftrightarrow> \<not> binary64_is_nan a \<and> 0 < signed_units a) \<and>
   (binary64_is_negative a \<longleftrightarrow> \<not> binary64_is_nan a \<and> signed_units a < 0)"
  using binary64_less_than_numeric [of a b] binary64_equal_numeric [of a b]
    binary64_sign_numeric [of a] by blast

lemma int_to_binary64_nearest:
  "finite_binary64 (int_to_binary64 v) \<and> nearest_to (int_to_binary64 v) 1 (sint v * 2 ^ 1074)"
proof -
  let ?n = "nat \<bar>sint v\<bar> * 2 ^ 1074"
  have "nat \<bar>sint v\<bar> \<le> 2 ^ 63" using sint_range_size [of v] by (auto simp: word_size)
  then have "round_code ?n 1 < infinity_code" by (rule integer_code_finite)
  then have fin: "finite_binary64 (make_binary64 (sint v < 0) (round_code ?n 1))"
    using make_binary64_parts(2) [OF round_code_less, of "sint v < 0" ?n 1]
    by (simp only: finite_binary64_def)
  have "nearest_to (int_to_binary64 v) (int 1) (if sint v < 0 then - int ?n else int ?n)"
    unfolding int_to_binary64_rounded rounded_integer_def
    by (rule make_rounded_nearest [OF _ fin]) simp
  moreover have "finite_binary64 (int_to_binary64 v)"
    unfolding int_to_binary64_rounded rounded_integer_def by (rule fin)
  moreover have "(if sint v < 0 then - int ?n else int ?n) = sint v * 2 ^ 1074"
    by (simp del: power_numeral)
  ultimately show ?thesis by simp
qed

text \<open>C37: the hand-written conversion of a 64-bit integer to binary64 is correctly rounded for
  every integer, \<open>INT64_MIN\<close> included: the result is finite, no pattern is closer to the
  integer, and where two patterns are equally close the result is the even one.\<close>

theorem int_to_binary64_correctly_rounded:
  "finite_binary64 (int_to_binary64 v) \<and> nearest_to (int_to_binary64 v) 1 (sint v * 2 ^ 1074)"
  by (rule int_to_binary64_nearest)

end
