(* ===== verification/ErrorModel.thy ===== *)
theory ErrorModel
  imports Binary64 TypeArena
begin

text \<open>
  Error values (include/bennu/error.hpp, src/error.cpp) and the scalar data they carry
  (include/bennu/value.hpp, include/bennu/primitive\_id.hpp). An error is a record whose
  optional fields hold the context of its kind. A primitive's name is copied into a host array
  of its own, so building an error context can itself fail to allocate, and then the context is
  absent.
\<close>

section \<open>Scalars and containers\<close>

datatype container_kind = CK_scalar | CK_vector | CK_tuple | CK_unknown int

record scalar_value =
  sv_type :: scalar_type
  sv_boolean :: bool
  sv_integer :: i64
  sv_double :: binary64

definition bool_scalar :: "bool \<Rightarrow> scalar_value" where
  "bool_scalar b = \<lparr>sv_type = ST_boolean, sv_boolean = b, sv_integer = 0, sv_double = 0\<rparr>"

definition int_scalar :: "i64 \<Rightarrow> scalar_value" where
  "int_scalar v = \<lparr>sv_type = ST_integer, sv_boolean = False, sv_integer = v, sv_double = 0\<rparr>"

definition double_scalar :: "binary64 \<Rightarrow> scalar_value" where
  "double_scalar d =
     \<lparr>sv_type = ST_double_precision, sv_boolean = False, sv_integer = 0,
      sv_double = normalize_double d\<rparr>"

section \<open>Primitive identities\<close>

datatype primitive_id =
    PI_inc | PI_add | PI_equals | PI_logical_not | PI_iota | PI_logical_and | PI_logical_or
  | PI_not_equals | PI_odd | PI_even | PI_is_positive | PI_is_negative | PI_less_than
  | PI_greater_than | PI_dec | PI_neg | PI_abs | PI_sub | PI_mul

fun primitive_code :: "primitive_id \<Rightarrow> nat" where
  "primitive_code PI_inc = 0"
| "primitive_code PI_add = 1"
| "primitive_code PI_equals = 2"
| "primitive_code PI_logical_not = 3"
| "primitive_code PI_iota = 4"
| "primitive_code PI_logical_and = 5"
| "primitive_code PI_logical_or = 6"
| "primitive_code PI_not_equals = 7"
| "primitive_code PI_odd = 8"
| "primitive_code PI_even = 9"
| "primitive_code PI_is_positive = 10"
| "primitive_code PI_is_negative = 11"
| "primitive_code PI_less_than = 12"
| "primitive_code PI_greater_than = 13"
| "primitive_code PI_dec = 14"
| "primitive_code PI_neg = 15"
| "primitive_code PI_abs = 16"
| "primitive_code PI_sub = 17"
| "primitive_code PI_mul = 18"

lemma primitive_code_inject: "primitive_code a = primitive_code b \<Longrightarrow> a = b"
  by (cases a; cases b) simp_all

lemma primitive_code_less: "primitive_code a < 19"
  by (cases a) simp_all

text \<open>Primitive identities are ordered by their code, so that the library's sortedness
  applies to tables of them.\<close>

instantiation primitive_id :: linorder
begin

definition less_eq_primitive_id :: "primitive_id \<Rightarrow> primitive_id \<Rightarrow> bool" where
  "less_eq_primitive_id a b \<longleftrightarrow> primitive_code a \<le> primitive_code b"

definition less_primitive_id :: "primitive_id \<Rightarrow> primitive_id \<Rightarrow> bool" where
  "less_primitive_id a b \<longleftrightarrow> primitive_code a < primitive_code b"

instance
  by standard
     (auto simp: less_eq_primitive_id_def less_primitive_id_def intro: primitive_code_inject)

end

section \<open>Errors\<close>

record source_location =
  sl_offset :: nat
  sl_line :: nat
  sl_column :: nat

record source_span =
  ss_begin :: source_location
  ss_end :: source_location

datatype error_kind =
    EK_none | EK_invalid_byte | EK_malformed_literal | EK_literal_range_error
  | EK_syntax_error | EK_unknown_name | EK_invalid_parameter_declaration | EK_type_mismatch
  | EK_empty_expression | EK_arity_error | EK_argument_error | EK_shape_mismatch
  | EK_invalid_execution_profile | EK_profile_error | EK_invalid_value | EK_resource_error
  | EK_domain_error | EK_invalid_primitive_table | EK_formatting_error

record scalar_signature_context =
  ssc_parameter_types :: "scalar_type list"
  ssc_result_type :: scalar_type

datatype domain_error_reason = DE_integer_overflow

record domain_error_context =
  de_reason :: domain_error_reason
  de_signature :: scalar_signature_context
  de_operands :: "scalar_value list"

record primitive_error_context =
  pec_name_storage :: "char host_array"
  pec_name :: string
  pec_id :: "primitive_id option"

datatype resource_error_reason = RE_size_overflow | RE_profile_limit | RE_allocation_unavailable

datatype resource_limit_kind =
    RL_max_vector_bytes | RL_max_tuple_table_bytes | RL_max_live_evaluation_bytes
  | RL_max_work_units

record resource_error_context =
  rx_reason :: resource_error_reason
  rx_requested_elements :: "nat option"
  rx_requested_bytes :: "nat option"
  rx_profile :: string
  rx_limit_kind :: "resource_limit_kind option"
  rx_configured_limit :: "nat option"
  rx_usage_before :: "nat option"
  rx_refused_charge :: "nat option"
  rx_allocation_ordinal :: "nat option"

datatype profile_error_reason = PX_unsupported_value_kind

record profile_error_context =
  px_reason :: profile_error_reason
  px_profile_name :: string
  px_value_kind :: type_kind

record shape_error_context =
  sx_expected :: "nat list"
  sx_actual :: "nat list"

record arity_error_context =
  ax_supplied :: nat
  ax_accepted :: "nat list"

record type_error_signature_context =
  tsx_parameters :: "type_arena list"
  tsx_result :: type_arena

record type_error_context =
  tx_actual_arguments :: "type_arena list"
  tx_accepted_signatures :: "type_error_signature_context list"

datatype argument_error_reason =
    AR_missing | AR_extra | AR_invalid_literal | AR_out_of_range | AR_invalid_typed_value
  | AR_container_mismatch | AR_type_mismatch

datatype argument_container = AC_unknown | AC_scalar | AC_vector

datatype argument_scalar_type = AS_unknown | AS_boolean | AS_integer | AS_double_precision

datatype value_invariant =
    VI_none | VI_unknown_container | VI_unknown_scalar_type | VI_inactive_scalar_field
  | VI_inactive_vector_payload | VI_invalid_boolean_element | VI_noncanonical_nan
  | VI_empty_owner | VI_invalid_value_root | VI_nonfinal_value_root | VI_inactive_tuple_field
  | VI_invalid_tuple_range | VI_overlapping_tuple_range | VI_invalid_tuple_child_index
  | VI_non_postorder_tuple_child | VI_aliased_tuple_child | VI_invalid_vector_payload_handle
  | VI_aliased_vector_payload | VI_orphan_value_node | VI_orphan_tuple_edge
  | VI_orphan_vector_payload_handle | VI_missing_tuple_reservation
  | VI_aliased_tuple_reservation | VI_invalid_tuple_reservation_count
  | VI_orphan_tuple_reservation

datatype value_format_error = VF_none | VF_invalid_value | VF_conversion_failure

record argument_error_context =
  gx_reason :: argument_error_reason
  gx_required_count :: nat
  gx_supplied_count :: nat
  gx_position :: nat
  gx_parameter_name :: "string option"
  gx_expected_type :: "scalar_type option"
  gx_declaration_span :: "source_span option"
  gx_actual_container :: "argument_container option"
  gx_actual_type :: "argument_scalar_type option"
  gx_invalid_value_invariant :: "value_invariant option"

datatype parameter_error_reason =
    PR_second_parameter_header | PR_parameter_header_after_root | PR_expected_header_open
  | PR_expected_parameter_name | PR_expected_parameter_type | PR_missing_header_close
  | PR_unexpected_header_token | PR_trailing_header_bytes | PR_duplicate_parameter_name
  | PR_reserved_parameter_name | PR_program_only_parameter_header
  | PR_unsupported_parameterized_surface

record parameter_error_context =
  hx_reason :: parameter_error_reason
  hx_primary_span :: source_span
  hx_context_span :: source_span
  hx_related_span :: "source_span option"

record value_error_context =
  vx_invariant :: value_invariant
  vx_path :: "nat list"
  vx_node_index :: "nat option"
  vx_edge_index :: "nat option"

record formatting_error_context =
  fx_reason :: value_format_error
  fx_root_position :: nat
  fx_root_span :: source_span
  fx_invalid_value_invariant :: "value_invariant option"

record error =
  er_kind :: error_kind
  er_location :: source_location
  er_message :: string
  er_static_message :: string
  er_primitive :: "primitive_error_context option"
  er_arity :: "arity_error_context option"
  er_type :: "type_error_context option"
  er_argument_position :: "nat option"
  er_shape :: "shape_error_context option"
  er_element_index :: "nat option"
  er_resource :: "resource_error_context option"
  er_profile :: "profile_error_context option"
  er_value :: "value_error_context option"
  er_domain :: "domain_error_context option"
  er_argument :: "argument_error_context option"
  er_parameter :: "parameter_error_context option"
  er_formatting :: "formatting_error_context option"
  er_primary_span :: "source_span option"
  er_context_span :: "source_span option"
  er_related_span :: "source_span option"
  er_primitive_span :: "source_span option"
  er_call_span :: "source_span option"
  er_operand_span :: "source_span option"
  er_semantic_origins :: "source_span list"

text \<open>The two overloads of \<open>make_error\<close>.\<close>

definition make_error_message :: "error_kind \<Rightarrow> source_location \<Rightarrow> string \<Rightarrow> error" where
  "make_error_message kind location message =
     \<lparr>er_kind = kind, er_location = location, er_message = message, er_static_message = [],
      er_primitive = None, er_arity = None, er_type = None, er_argument_position = None,
      er_shape = None, er_element_index = None, er_resource = None, er_profile = None,
      er_value = None, er_domain = None, er_argument = None, er_parameter = None,
      er_formatting = None, er_primary_span = None, er_context_span = None,
      er_related_span = None, er_primitive_span = None, er_call_span = None,
      er_operand_span = None, er_semantic_origins = []\<rparr>"

definition make_error :: "error_kind \<Rightarrow> source_location \<Rightarrow> error" where
  "make_error kind location = make_error_message kind location []"

definition char_layout :: element_layout where
  "char_layout = \<lparr>element_size = 1, element_alignment = 1\<rparr>"

definition make_primitive_error_context ::
    "host_state \<Rightarrow> string \<Rightarrow> primitive_id option
      \<Rightarrow> primitive_error_context option \<times> host_state" where
  "make_primitive_error_context h name pid =
     (case allocate_host_array_raw char_layout h empty_host_array (length name) None of
        (allocated, name_storage, h') \<Rightarrow>
          if allocated \<noteq> HR_none then (None, h')
          else case push_all host_array_push name_storage name of
                 (pushed, name_storage') \<Rightarrow>
                   if pushed \<noteq> HR_none then (None, h')
                   else (Some \<lparr>pec_name_storage = name_storage',
                               pec_name = host_array_span name_storage',
                               pec_id = pid\<rparr>, h'))"

text \<open>The context either owns an exact copy of the name or is absent because the allocation
  was refused.\<close>

lemma make_primitive_error_context_name:
  assumes "make_primitive_error_context h name pid = (Some context, h')"
  shows "pec_name context = name \<and> pec_id context = pid"
proof -
  obtain e and a :: "char host_array" and h1 where r:
    "allocate_host_array_raw char_layout h empty_host_array (length name) None = (e, a, h1)"
    using prod_cases3 by blast
  have e: "e = HR_none"
    using assms r by (auto simp: make_primitive_error_context_def split: if_splits prod.splits)
  then have "a = harr [] [] (length name)"
    using r
    by (auto simp: allocate_host_array_raw_def Let_def malloc_def harr_def empty_host_array_def
          split: if_splits bool.splits)
  then have "push_all host_array_push a name = (HR_none, harr name [] (length name))"
    using push_all_harr [of "[]" "[]" "length name" name] by simp
  then show ?thesis
    using assms r e by (auto simp: make_primitive_error_context_def host_array_rules)
qed

lemma make_primitive_error_context_granted:
  assumes "\<forall>k s. malloc_grants h k s" "length name \<le> 2 ^ 50"
  shows "fst (make_primitive_error_context h name pid) \<noteq> None"
proof -
  have "sane_layout char_layout" by (simp add: sane_layout_def char_layout_def)
  from small_fits_layout [OF this assms(2)]
  have "host_array_allocation_preflight char_layout (empty_host_array :: char host_array)
          (length name) None = HR_none"
    by (auto simp: host_array_allocation_preflight_def empty_host_array_def)
  then have "\<exists>h'. allocate_host_array_raw char_layout h empty_host_array (length name) None =
      (HR_none, harr [] [] (length name) :: char host_array, h')"
    using assms(1)
    by (auto simp: allocate_host_array_raw_def Let_def malloc_def harr_def empty_host_array_def)
  then show ?thesis
    using push_all_harr [of "[]" "[]" "length name" name]
    by (auto simp: make_primitive_error_context_def)
qed

end
