(* ===== verification/Primitives.thy ===== *)
theory Primitives
  imports ErrorModel
begin

text \<open>
  The table of primitives and its users (include/bennu/primitive.hpp, src/primitive.cpp):
  the production descriptors, the validator every table passes before use, the choice of a
  signature for argument types with int-to-double promotion, and the conversion of an
  argument to the chosen parameter type.

  A pointer and its count are the list they denote; a null pointer with a positive count,
  which no table of the program has, is not representable. A reference to a signature is
  either an index into the descriptor's own signatures or a signature that lives elsewhere:
  \<open>signature_belongs_to_descriptor\<close> compares addresses, not contents.
\<close>

section \<open>Data\<close>

datatype lifting_mode = LM_none | LM_elementwise

datatype primitive_implementation =
    IM_none | IM_inc_integer | IM_inc_double | IM_add_integer | IM_add_double
    | IM_equals_boolean | IM_equals_integer | IM_equals_double | IM_logical_not_boolean
    | IM_iota_integer | IM_logical_and_boolean | IM_logical_or_boolean | IM_not_equals_boolean
    | IM_not_equals_integer | IM_not_equals_double | IM_odd_integer | IM_even_integer
    | IM_is_positive_integer | IM_is_positive_double | IM_is_negative_integer
    | IM_is_negative_double | IM_less_than_integer | IM_less_than_double
    | IM_greater_than_integer | IM_greater_than_double | IM_dec_integer | IM_dec_double
    | IM_neg_integer | IM_neg_double | IM_abs_integer | IM_abs_double | IM_sub_integer
    | IM_sub_double | IM_mul_integer | IM_mul_double

record value_type =
  vt_container :: container_kind
  vt_element :: scalar_type

record primitive_signature =
  ps_parameters :: "value_type list"
  ps_result :: value_type
  ps_implementation :: primitive_implementation

record primitive_descriptor =
  pd_id :: primitive_id
  pd_name :: string
  pd_lifting :: lifting_mode
  pd_signatures :: "primitive_signature list"

datatype signature_ref = OwnSignature nat | ForeignSignature primitive_signature

datatype primitive_table_error =
    PT_none | PT_empty_table | PT_duplicate_id | PT_duplicate_name | PT_reserved_name
  | PT_missing_signature | PT_duplicate_signature | PT_zero_arity | PT_missing_implementation
  | PT_elementwise_non_scalar_signature | PT_equal_cost_ambiguity

record primitive_table_validation_result =
  pv_ok :: bool
  pv_error :: primitive_table_error
  pv_descriptor_index :: nat
  pv_signature_index :: nat
  pv_conflicting_descriptor_index :: nat
  pv_conflicting_signature_index :: nat

datatype signature_selection_status =
    SEL_success | SEL_arity_mismatch | SEL_type_mismatch | SEL_ambiguous

record signature_selection_result =
  sel_status :: signature_selection_status
  sel_signature :: "signature_ref option"
  sel_signature_index :: nat
  sel_promotion_cost :: nat

datatype scalar_conversion_status = SC_success | SC_invalid_scalar | SC_unsupported_conversion

record scalar_conversion_result =
  sc_status :: scalar_conversion_status
  sc_value :: scalar_value

section \<open>The production table\<close>

definition scalar_bool :: value_type where
  "scalar_bool = \<lparr>vt_container = CK_scalar, vt_element = ST_boolean\<rparr>"

definition scalar_int :: value_type where
  "scalar_int = \<lparr>vt_container = CK_scalar, vt_element = ST_integer\<rparr>"

definition scalar_double :: value_type where
  "scalar_double = \<lparr>vt_container = CK_scalar, vt_element = ST_double_precision\<rparr>"

definition vector_int :: value_type where
  "vector_int = \<lparr>vt_container = CK_vector, vt_element = ST_integer\<rparr>"

definition int_parameter :: "value_type list" where "int_parameter = [scalar_int]"

definition double_parameter :: "value_type list" where "double_parameter = [scalar_double]"

definition bool_parameter :: "value_type list" where "bool_parameter = [scalar_bool]"

definition int_parameters :: "value_type list" where "int_parameters = [scalar_int, scalar_int]"

definition double_parameters :: "value_type list" where
  "double_parameters = [scalar_double, scalar_double]"

definition bool_parameters :: "value_type list" where
  "bool_parameters = [scalar_bool, scalar_bool]"

definition make_signature ::
    "value_type list \<Rightarrow> value_type \<Rightarrow> primitive_implementation \<Rightarrow> primitive_signature" where
  "make_signature parameters result implementation =
     \<lparr>ps_parameters = parameters, ps_result = result, ps_implementation = implementation\<rparr>"

definition make_descriptor ::
    "primitive_id \<Rightarrow> string \<Rightarrow> lifting_mode \<Rightarrow> primitive_signature list
      \<Rightarrow> primitive_descriptor" where
  "make_descriptor pid name lifting signatures =
     \<lparr>pd_id = pid, pd_name = name, pd_lifting = lifting, pd_signatures = signatures\<rparr>"

definition inc_signatures :: "primitive_signature list" where
  "inc_signatures =
     [make_signature int_parameter scalar_int IM_inc_integer,
      make_signature double_parameter scalar_double IM_inc_double]"

definition add_signatures :: "primitive_signature list" where
  "add_signatures =
     [make_signature int_parameters scalar_int IM_add_integer,
      make_signature double_parameters scalar_double IM_add_double]"

definition dec_signatures :: "primitive_signature list" where
  "dec_signatures =
     [make_signature int_parameter scalar_int IM_dec_integer,
      make_signature double_parameter scalar_double IM_dec_double]"

definition neg_signatures :: "primitive_signature list" where
  "neg_signatures =
     [make_signature int_parameter scalar_int IM_neg_integer,
      make_signature double_parameter scalar_double IM_neg_double]"

definition abs_signatures :: "primitive_signature list" where
  "abs_signatures =
     [make_signature int_parameter scalar_int IM_abs_integer,
      make_signature double_parameter scalar_double IM_abs_double]"

definition sub_signatures :: "primitive_signature list" where
  "sub_signatures =
     [make_signature int_parameters scalar_int IM_sub_integer,
      make_signature double_parameters scalar_double IM_sub_double]"

definition mul_signatures :: "primitive_signature list" where
  "mul_signatures =
     [make_signature int_parameters scalar_int IM_mul_integer,
      make_signature double_parameters scalar_double IM_mul_double]"

definition equals_signatures :: "primitive_signature list" where
  "equals_signatures =
     [make_signature bool_parameters scalar_bool IM_equals_boolean,
      make_signature int_parameters scalar_bool IM_equals_integer,
      make_signature double_parameters scalar_bool IM_equals_double]"

definition not_signatures :: "primitive_signature list" where
  "not_signatures =
     [make_signature bool_parameter scalar_bool IM_logical_not_boolean]"

definition iota_signatures :: "primitive_signature list" where
  "iota_signatures =
     [make_signature int_parameter vector_int IM_iota_integer]"

definition and_signatures :: "primitive_signature list" where
  "and_signatures =
     [make_signature bool_parameters scalar_bool IM_logical_and_boolean]"

definition or_signatures :: "primitive_signature list" where
  "or_signatures =
     [make_signature bool_parameters scalar_bool IM_logical_or_boolean]"

definition not_equals_signatures :: "primitive_signature list" where
  "not_equals_signatures =
     [make_signature bool_parameters scalar_bool IM_not_equals_boolean,
      make_signature int_parameters scalar_bool IM_not_equals_integer,
      make_signature double_parameters scalar_bool IM_not_equals_double]"

definition odd_signatures :: "primitive_signature list" where
  "odd_signatures =
     [make_signature int_parameter scalar_bool IM_odd_integer]"

definition even_signatures :: "primitive_signature list" where
  "even_signatures =
     [make_signature int_parameter scalar_bool IM_even_integer]"

definition is_positive_signatures :: "primitive_signature list" where
  "is_positive_signatures =
     [make_signature int_parameter scalar_bool IM_is_positive_integer,
      make_signature double_parameter scalar_bool IM_is_positive_double]"

definition is_negative_signatures :: "primitive_signature list" where
  "is_negative_signatures =
     [make_signature int_parameter scalar_bool IM_is_negative_integer,
      make_signature double_parameter scalar_bool IM_is_negative_double]"

definition less_than_signatures :: "primitive_signature list" where
  "less_than_signatures =
     [make_signature int_parameters scalar_bool IM_less_than_integer,
      make_signature double_parameters scalar_bool IM_less_than_double]"

definition greater_than_signatures :: "primitive_signature list" where
  "greater_than_signatures =
     [make_signature int_parameters scalar_bool IM_greater_than_integer,
      make_signature double_parameters scalar_bool IM_greater_than_double]"

definition production_descriptors :: "primitive_descriptor list" where
  "production_descriptors =
     [make_descriptor PI_inc ''inc'' LM_elementwise inc_signatures,
      make_descriptor PI_add ''add'' LM_elementwise add_signatures,
      make_descriptor PI_equals ''equals'' LM_elementwise equals_signatures,
      make_descriptor PI_logical_not ''not'' LM_elementwise not_signatures,
      make_descriptor PI_iota ''iota'' LM_none iota_signatures,
      make_descriptor PI_logical_and ''and'' LM_elementwise and_signatures,
      make_descriptor PI_logical_or ''or'' LM_elementwise or_signatures,
      make_descriptor PI_not_equals ''not_equals'' LM_elementwise not_equals_signatures,
      make_descriptor PI_odd ''odd'' LM_elementwise odd_signatures,
      make_descriptor PI_even ''even'' LM_elementwise even_signatures,
      make_descriptor PI_is_positive ''is_positive'' LM_elementwise is_positive_signatures,
      make_descriptor PI_is_negative ''is_negative'' LM_elementwise is_negative_signatures,
      make_descriptor PI_less_than ''less_than'' LM_elementwise less_than_signatures,
      make_descriptor PI_greater_than ''greater_than'' LM_elementwise greater_than_signatures,
      make_descriptor PI_dec ''dec'' LM_elementwise dec_signatures,
      make_descriptor PI_neg ''neg'' LM_elementwise neg_signatures,
      make_descriptor PI_abs ''abs'' LM_elementwise abs_signatures,
      make_descriptor PI_sub ''sub'' LM_elementwise sub_signatures,
      make_descriptor PI_mul ''mul'' LM_elementwise mul_signatures]"

section \<open>Validation of a table\<close>

definition valid_table :: primitive_table_validation_result where
  "valid_table =
     \<lparr>pv_ok = True, pv_error = PT_none, pv_descriptor_index = 0, pv_signature_index = 0,
      pv_conflicting_descriptor_index = 0, pv_conflicting_signature_index = 0\<rparr>"

definition invalid_table ::
    "primitive_table_error \<Rightarrow> nat \<Rightarrow> nat \<Rightarrow> nat \<Rightarrow> nat
      \<Rightarrow> primitive_table_validation_result" where
  "invalid_table e d s cd cs =
     \<lparr>pv_ok = False, pv_error = e, pv_descriptor_index = d, pv_signature_index = s,
      pv_conflicting_descriptor_index = cd, pv_conflicting_signature_index = cs\<rparr>"

definition same_value_type :: "value_type \<Rightarrow> value_type \<Rightarrow> bool" where
  "same_value_type l r \<longleftrightarrow>
     vt_container l = vt_container r \<and> vt_element l = vt_element r"

definition same_signature :: "primitive_signature \<Rightarrow> primitive_signature \<Rightarrow> bool" where
  "same_signature l r =
     (if length (ps_parameters l) \<noteq> length (ps_parameters r)
         \<or> \<not> same_value_type (ps_result l) (ps_result r) then False
      else list_all (\<lambda>i. same_value_type (ps_parameters l ! i) (ps_parameters r ! i))
             [0..<length (ps_parameters l)])"

definition scalar_parameters_match ::
    "primitive_signature \<Rightarrow> scalar_type list \<Rightarrow> scalar_type \<Rightarrow> bool" where
  "scalar_parameters_match signature parameters result_type =
     (if length (ps_parameters signature) \<noteq> length parameters
         \<or> vt_container (ps_result signature) \<noteq> CK_scalar
         \<or> vt_element (ps_result signature) \<noteq> result_type then False
      else list_all (\<lambda>i. vt_container (ps_parameters signature ! i) = CK_scalar
                       \<and> vt_element (ps_parameters signature ! i) = parameters ! i)
             [0..<length parameters])"

definition implementation_matches :: "primitive_id \<Rightarrow> primitive_signature \<Rightarrow> bool" where
  "implementation_matches pid signature =
     (case ps_implementation signature of
        IM_none \<Rightarrow> False
      | IM_inc_integer \<Rightarrow> pid = PI_inc \<and>
          scalar_parameters_match signature [ST_integer] ST_integer
      | IM_inc_double \<Rightarrow> pid = PI_inc \<and>
          scalar_parameters_match signature [ST_double_precision] ST_double_precision
      | IM_add_integer \<Rightarrow> pid = PI_add \<and>
          scalar_parameters_match signature [ST_integer, ST_integer] ST_integer
      | IM_add_double \<Rightarrow> pid = PI_add \<and>
          scalar_parameters_match signature [ST_double_precision, ST_double_precision] ST_double_precision
      | IM_equals_boolean \<Rightarrow> pid = PI_equals \<and>
          scalar_parameters_match signature [ST_boolean, ST_boolean] ST_boolean
      | IM_equals_integer \<Rightarrow> pid = PI_equals \<and>
          scalar_parameters_match signature [ST_integer, ST_integer] ST_boolean
      | IM_equals_double \<Rightarrow> pid = PI_equals \<and>
          scalar_parameters_match signature [ST_double_precision, ST_double_precision] ST_boolean
      | IM_logical_not_boolean \<Rightarrow> pid = PI_logical_not \<and>
          scalar_parameters_match signature [ST_boolean] ST_boolean
      | IM_iota_integer \<Rightarrow>
          pid = PI_iota \<and>
          length (ps_parameters signature) = 1 \<and>
          vt_container (ps_parameters signature ! 0) = CK_scalar \<and>
          vt_element (ps_parameters signature ! 0) = ST_integer \<and>
          vt_container (ps_result signature) = CK_vector \<and>
          vt_element (ps_result signature) = ST_integer
      | IM_logical_and_boolean \<Rightarrow> pid = PI_logical_and \<and>
          scalar_parameters_match signature [ST_boolean, ST_boolean] ST_boolean
      | IM_logical_or_boolean \<Rightarrow> pid = PI_logical_or \<and>
          scalar_parameters_match signature [ST_boolean, ST_boolean] ST_boolean
      | IM_not_equals_boolean \<Rightarrow> pid = PI_not_equals \<and>
          scalar_parameters_match signature [ST_boolean, ST_boolean] ST_boolean
      | IM_not_equals_integer \<Rightarrow> pid = PI_not_equals \<and>
          scalar_parameters_match signature [ST_integer, ST_integer] ST_boolean
      | IM_not_equals_double \<Rightarrow> pid = PI_not_equals \<and>
          scalar_parameters_match signature [ST_double_precision, ST_double_precision] ST_boolean
      | IM_odd_integer \<Rightarrow> pid = PI_odd \<and>
          scalar_parameters_match signature [ST_integer] ST_boolean
      | IM_even_integer \<Rightarrow> pid = PI_even \<and>
          scalar_parameters_match signature [ST_integer] ST_boolean
      | IM_is_positive_integer \<Rightarrow> pid = PI_is_positive \<and>
          scalar_parameters_match signature [ST_integer] ST_boolean
      | IM_is_positive_double \<Rightarrow> pid = PI_is_positive \<and>
          scalar_parameters_match signature [ST_double_precision] ST_boolean
      | IM_is_negative_integer \<Rightarrow> pid = PI_is_negative \<and>
          scalar_parameters_match signature [ST_integer] ST_boolean
      | IM_is_negative_double \<Rightarrow> pid = PI_is_negative \<and>
          scalar_parameters_match signature [ST_double_precision] ST_boolean
      | IM_less_than_integer \<Rightarrow> pid = PI_less_than \<and>
          scalar_parameters_match signature [ST_integer, ST_integer] ST_boolean
      | IM_less_than_double \<Rightarrow> pid = PI_less_than \<and>
          scalar_parameters_match signature [ST_double_precision, ST_double_precision] ST_boolean
      | IM_greater_than_integer \<Rightarrow> pid = PI_greater_than \<and>
          scalar_parameters_match signature [ST_integer, ST_integer] ST_boolean
      | IM_greater_than_double \<Rightarrow> pid = PI_greater_than \<and>
          scalar_parameters_match signature [ST_double_precision, ST_double_precision] ST_boolean
      | IM_dec_integer \<Rightarrow> pid = PI_dec \<and>
          scalar_parameters_match signature [ST_integer] ST_integer
      | IM_dec_double \<Rightarrow> pid = PI_dec \<and>
          scalar_parameters_match signature [ST_double_precision] ST_double_precision
      | IM_neg_integer \<Rightarrow> pid = PI_neg \<and>
          scalar_parameters_match signature [ST_integer] ST_integer
      | IM_neg_double \<Rightarrow> pid = PI_neg \<and>
          scalar_parameters_match signature [ST_double_precision] ST_double_precision
      | IM_abs_integer \<Rightarrow> pid = PI_abs \<and>
          scalar_parameters_match signature [ST_integer] ST_integer
      | IM_abs_double \<Rightarrow> pid = PI_abs \<and>
          scalar_parameters_match signature [ST_double_precision] ST_double_precision
      | IM_sub_integer \<Rightarrow> pid = PI_sub \<and>
          scalar_parameters_match signature [ST_integer, ST_integer] ST_integer
      | IM_sub_double \<Rightarrow> pid = PI_sub \<and>
          scalar_parameters_match signature [ST_double_precision, ST_double_precision] ST_double_precision
      | IM_mul_integer \<Rightarrow> pid = PI_mul \<and>
          scalar_parameters_match signature [ST_integer, ST_integer] ST_integer
      | IM_mul_double \<Rightarrow> pid = PI_mul \<and>
          scalar_parameters_match signature [ST_double_precision, ST_double_precision] ST_double_precision)"

text \<open>\<open>TypeAssignment\<close> is a linked list, newest node first.\<close>

type_synonym type_assignment = "(scalar_type \<times> nat) list"

fun assigned_type :: "type_assignment \<Rightarrow> nat \<Rightarrow> scalar_type" where
  "assigned_type [] index = ST_boolean"
| "assigned_type ((t, i) # previous) index =
     (if i = index then t else assigned_type previous index)"

definition conversion_cost :: "scalar_type \<Rightarrow> scalar_type \<Rightarrow> nat option" where
  "conversion_cost actual parameter =
     (if actual = parameter then Some 0
      else if actual = ST_integer \<and> parameter = ST_double_precision then Some 1
      else None)"

text \<open>The loop that adds the costs of all parameters and stops at the first argument that
  does not convert; \<open>None\<close> is \<open>accepted = false\<close>.\<close>

fun add_costs :: "nat \<Rightarrow> (scalar_type \<times> value_type) list \<Rightarrow> nat option" where
  "add_costs total_cost [] = Some total_cost"
| "add_costs total_cost ((actual, parameter) # rest) =
     (case conversion_cost actual (vt_element parameter) of
        None \<Rightarrow> None
      | Some cost \<Rightarrow> add_costs (total_cost + cost) rest)"

definition ambiguity_step ::
    "scalar_type list \<Rightarrow> primitive_signature \<Rightarrow> nat \<times> nat \<Rightarrow> nat \<times> nat" where
  "ambiguity_step actuals signature st =
     (case st of (minimum_cost, minimum_count) \<Rightarrow>
        if length (ps_parameters signature) \<noteq> length actuals then st
        else case add_costs 0 (zip actuals (ps_parameters signature)) of
               None \<Rightarrow> st
             | Some total_cost \<Rightarrow>
                 if total_cost < minimum_cost then (total_cost, 1)
                 else if total_cost = minimum_cost then (minimum_cost, minimum_count + 1)
                 else st)"

definition assignment_is_ambiguous ::
    "primitive_descriptor \<Rightarrow> nat \<Rightarrow> type_assignment \<Rightarrow> bool" where
  "assignment_is_ambiguous descriptor arity assignment =
     (snd (fold (ambiguity_step (map (assigned_type assignment) [0..<arity]))
             (pd_signatures descriptor) (size_max, 0)) > 1)"

text \<open>The index starts at 0 and grows by one, so it meets the arity and never passes it.\<close>

function has_ambiguous_assignment ::
    "primitive_descriptor \<Rightarrow> nat \<Rightarrow> nat \<Rightarrow> type_assignment \<Rightarrow> bool" where
  "has_ambiguous_assignment descriptor arity index assignment =
     (if index \<ge> arity then assignment_is_ambiguous descriptor arity assignment
      else list_ex (\<lambda>t. has_ambiguous_assignment descriptor arity (index + 1)
                          ((t, index) # assignment))
             [ST_boolean, ST_integer, ST_double_precision])"
  by pat_completeness auto
termination
  by (relation "measure (\<lambda>(d, arity, index, a). arity - index)") auto

declare has_ambiguous_assignment.simps [simp del]

definition validate_duplicates ::
    "primitive_descriptor list \<Rightarrow> nat \<Rightarrow> primitive_table_validation_result option" where
  "validate_duplicates ds d =
     find_some (\<lambda>p. if pd_id (ds ! p) = pd_id (ds ! d)
                    then Some (invalid_table PT_duplicate_id d 0 p 0)
                    else if pd_name (ds ! p) = pd_name (ds ! d)
                    then Some (invalid_table PT_duplicate_name d 0 p 0)
                    else None) [0..<d]"

definition validate_signature ::
    "primitive_descriptor \<Rightarrow> nat \<Rightarrow> nat \<Rightarrow> primitive_table_validation_result option" where
  "validate_signature descriptor d s =
     (let signature = pd_signatures descriptor ! s in
      or_else
        (find_some (\<lambda>p. if same_signature (pd_signatures descriptor ! p) signature
                        then Some (invalid_table PT_duplicate_signature d s d p) else None)
           [0..<s])
        (if ps_parameters signature = [] then Some (invalid_table PT_zero_arity d s d s)
         else if pd_lifting descriptor = LM_elementwise
         then (if vt_container (ps_result signature) \<noteq> CK_scalar
               then Some (invalid_table PT_elementwise_non_scalar_signature d s d s)
               else find_some (\<lambda>parameter.
                      if vt_container parameter \<noteq> CK_scalar
                      then Some (invalid_table PT_elementwise_non_scalar_signature d s d s)
                      else None) (ps_parameters signature))
         else None))"

definition validate_ambiguity ::
    "primitive_descriptor \<Rightarrow> nat \<Rightarrow> nat \<Rightarrow> primitive_table_validation_result option" where
  "validate_ambiguity descriptor d s =
     (let arity = length (ps_parameters (pd_signatures descriptor ! s));
          already_checked =
            list_ex (\<lambda>p. length (ps_parameters (pd_signatures descriptor ! p)) = arity) [0..<s]
      in if \<not> already_checked \<and> has_ambiguous_assignment descriptor arity 0 []
         then Some (invalid_table PT_equal_cost_ambiguity d s d s) else None)"

definition validate_descriptor ::
    "primitive_descriptor list \<Rightarrow> nat \<Rightarrow> primitive_table_validation_result option" where
  "validate_descriptor ds d =
     (let descriptor = ds ! d; signature_indexes = [0..<length (pd_signatures descriptor)] in
      if pd_name descriptor = ''parameters'' then Some (invalid_table PT_reserved_name d 0 d 0)
      else or_else (validate_duplicates ds d)
        (if pd_signatures descriptor = [] then Some (invalid_table PT_missing_signature d 0 d 0)
         else or_else (find_some (validate_signature descriptor d) signature_indexes)
           (or_else
             (if pd_lifting descriptor = LM_elementwise
              then find_some (validate_ambiguity descriptor d) signature_indexes else None)
             (find_some (\<lambda>s. if \<not> implementation_matches (pd_id descriptor)
                                     (pd_signatures descriptor ! s)
                             then Some (invalid_table PT_missing_implementation d s d s)
                             else None) signature_indexes))))"

definition validate_primitive_table ::
    "primitive_descriptor list \<Rightarrow> primitive_table_validation_result" where
  "validate_primitive_table descriptors =
     (if descriptors = [] then invalid_table PT_empty_table 0 0 0 0
      else case find_some (validate_descriptor descriptors) [0..<length descriptors] of
             Some r \<Rightarrow> r
           | None \<Rightarrow> valid_table)"

definition production_primitive_table_validation :: primitive_table_validation_result where
  "production_primitive_table_validation = validate_primitive_table production_descriptors"

section \<open>Lookup and selection\<close>

definition find_primitive_by_id :: "primitive_id \<Rightarrow> primitive_descriptor option" where
  "find_primitive_by_id pid = List.find (\<lambda>d. pd_id d = pid) production_descriptors"

definition find_primitive_by_name :: "string \<Rightarrow> primitive_descriptor option" where
  "find_primitive_by_name name = List.find (\<lambda>d. pd_name d = name) production_descriptors"

record selection_state =
  st_arity_exists :: bool
  st_selected :: "nat option"
  st_cost :: nat
  st_ambiguous :: bool

definition selection_step ::
    "scalar_type list \<Rightarrow> nat \<times> primitive_signature \<Rightarrow> selection_state \<Rightarrow> selection_state" where
  "selection_step actual_types entry st =
     (case entry of (signature_index, signature) \<Rightarrow>
        if length (ps_parameters signature) \<noteq> length actual_types then st
        else
          let st = st\<lparr>st_arity_exists := True\<rparr>
          in case add_costs 0 (zip actual_types (ps_parameters signature)) of
               None \<Rightarrow> st
             | Some total_cost \<Rightarrow>
                 if total_cost < st_cost st
                 then st\<lparr>st_selected := Some signature_index, st_cost := total_cost,
                         st_ambiguous := False\<rparr>
                 else if total_cost = st_cost st then st\<lparr>st_ambiguous := True\<rparr>
                 else st)"

definition select_primitive_signature ::
    "primitive_descriptor \<Rightarrow> scalar_type list \<Rightarrow> signature_selection_result" where
  "select_primitive_signature descriptor actual_types =
     (let st = fold (selection_step actual_types)
                 (List.enumerate 0 (pd_signatures descriptor))
                 \<lparr>st_arity_exists = False, st_selected = None, st_cost = size_max,
                  st_ambiguous = False\<rparr>
      in if \<not> st_arity_exists st
         then \<lparr>sel_status = SEL_arity_mismatch, sel_signature = None, sel_signature_index = 0,
               sel_promotion_cost = 0\<rparr>
         else case st_selected st of
           None \<Rightarrow>
             \<lparr>sel_status = SEL_type_mismatch, sel_signature = None, sel_signature_index = 0,
              sel_promotion_cost = 0\<rparr>
         | Some i \<Rightarrow>
             if st_ambiguous st
             then \<lparr>sel_status = SEL_ambiguous, sel_signature = None, sel_signature_index = 0,
                   sel_promotion_cost = 0\<rparr>
             else \<lparr>sel_status = SEL_success, sel_signature = Some (OwnSignature i),
                   sel_signature_index = i, sel_promotion_cost = st_cost st\<rparr>)"

section \<open>Conversion of an argument\<close>

definition valid_scalar :: "scalar_value \<Rightarrow> bool" where
  "valid_scalar v =
     (case sv_type v of
        ST_boolean \<Rightarrow> sv_integer v = 0 \<and> sv_double v = 0
      | ST_integer \<Rightarrow> \<not> sv_boolean v \<and> sv_double v = 0
      | ST_double_precision \<Rightarrow>
          (if sv_boolean v \<or> sv_integer v \<noteq> 0 then False
           else if sv_double v AND binary64_exponent_mask \<noteq> binary64_exponent_mask
                   \<or> sv_double v AND binary64_fraction_mask = 0 then True
           else sv_double v = canonical_nan_bits)
      | ST_unknown _ \<Rightarrow> False)"

definition empty_scalar_value :: scalar_value where
  "empty_scalar_value =
     \<lparr>sv_type = ST_boolean, sv_boolean = False, sv_integer = 0, sv_double = 0\<rparr>"

definition convert_scalar :: "scalar_value \<Rightarrow> scalar_type \<Rightarrow> scalar_conversion_result" where
  "convert_scalar v parameter_type =
     (if \<not> valid_scalar v
      then \<lparr>sc_status = SC_invalid_scalar, sc_value = empty_scalar_value\<rparr>
      else if sv_type v = parameter_type then \<lparr>sc_status = SC_success, sc_value = v\<rparr>
      else if sv_type v = ST_integer \<and> parameter_type = ST_double_precision
      then \<lparr>sc_status = SC_success,
            sc_value = \<lparr>sv_type = ST_double_precision, sv_boolean = False, sv_integer = 0,
                        sv_double = int_to_binary64 (sv_integer v)\<rparr>\<rparr>
      else \<lparr>sc_status = SC_unsupported_conversion, sc_value = empty_scalar_value\<rparr>)"

end
