(* ===== verification/PrimitivesCorrect.thy ===== *)
theory PrimitivesCorrect
  imports Primitives
begin

text \<open>
  Correctness of the primitive table: what the validator decides, why a validated
  elementwise primitive never meets an ambiguous selection, what the selected signature
  is, and that argument conversion keeps scalars valid.
\<close>

section \<open>Least costs\<close>

text \<open>The cost of calling a signature with given argument types: \<open>None\<close> for another arity
  or an argument that does not convert.\<close>

definition cost_of :: "scalar_type list \<Rightarrow> primitive_signature \<Rightarrow> nat option" where
  "cost_of actuals signature =
     (if length (ps_parameters signature) = length actuals
      then add_costs 0 (zip actuals (ps_parameters signature)) else None)"

definition least_cost :: "nat option list \<Rightarrow> nat \<Rightarrow> bool" where
  "least_cost cs m \<longleftrightarrow> Some m \<in> set cs \<and> (\<forall>c. Some c \<in> set cs \<longrightarrow> m \<le> c)"

text \<open>The number of promotions of a call.\<close>

definition promotions :: "scalar_type list \<Rightarrow> value_type list \<Rightarrow> nat" where
  "promotions actuals parameters =
     length (filter (\<lambda>(a, p). a \<noteq> vt_element p) (zip actuals parameters))"

definition converts :: "scalar_type \<Rightarrow> value_type \<Rightarrow> bool" where
  "converts a p \<longleftrightarrow> a = vt_element p \<or> (a = ST_integer \<and> vt_element p = ST_double_precision)"

lemma add_costs_promotions:
  "add_costs n (zip as ps) =
     (if \<forall>(a, p) \<in> set (zip as ps). converts a p then Some (n + promotions as ps) else None)"
proof (induction as arbitrary: n ps)
  case (Cons a as)
  then show ?case
    by (cases ps) (auto simp: conversion_cost_def converts_def promotions_def)
qed (simp add: promotions_def)

lemma cost_of_eq:
  "cost_of as s = (if list_all2 converts as (ps_parameters s)
                   then Some (promotions as (ps_parameters s)) else None)"
  by (auto simp: cost_of_def add_costs_promotions list_all2_iff)

lemma promotions_le: "promotions as ps \<le> length as"
  using length_filter_le [of "\<lambda>(a, p). a \<noteq> vt_element p" "zip as ps"]
  by (simp add: promotions_def)

lemma cost_of_bound: "cost_of as s = Some c \<Longrightarrow> c \<le> length as"
  using promotions_le by (auto simp: cost_of_eq split: if_splits)

lemma least_cost_unique: "least_cost cs m \<Longrightarrow> least_cost cs m' \<Longrightarrow> m = m'"
  by (simp add: least_cost_def antisym)

lemma least_cost_exists:
  assumes "Some c \<in> set cs"
  shows "\<exists>m. least_cost cs m"
proof -
  have "\<exists>m. Some m \<in> set cs \<and> (\<forall>c. Some c \<in> set cs \<longrightarrow> m \<le> c)"
    using exists_least_iff [of "\<lambda>m. Some m \<in> set cs"] assms by (meson not_less)
  then show ?thesis by (simp add: least_cost_def)
qed

lemma count_list_pos: "0 < count_list xs x \<longleftrightarrow> x \<in> set xs"
  by (induction xs) auto

text \<open>One step of both selection loops, seen on the list of costs read so far.\<close>

lemma least_cost_snoc:
  assumes "least_cost cs m"
  shows "least_cost (cs @ [None]) m"
    and "c < m \<Longrightarrow> least_cost (cs @ [Some c]) c \<and> count_list cs (Some c) = 0"
    and "m \<le> c \<Longrightarrow> least_cost (cs @ [Some c]) m"
  using assms count_list_pos [of cs "Some c"] by (auto simp: least_cost_def)

lemma least_cost_first:
  "set cs \<subseteq> {None} \<Longrightarrow> least_cost (cs @ [Some c]) c \<and> count_list cs (Some c) = 0"
  using count_list_pos [of cs "Some c"] by (auto simp: least_cost_def)

section \<open>The selection loops\<close>

text \<open>What the loop of \<open>assignment_is_ambiguous\<close> and the loop of
  \<open>select_primitive_signature\<close> have computed after a prefix of the signatures.\<close>

lemma ambiguity_loop:
  assumes "length actuals < size_max"
  shows "(set (map (cost_of actuals) sigs) \<subseteq> {None} \<and>
          fold (ambiguity_step actuals) sigs (size_max, 0) = (size_max, 0)) \<or>
         (\<exists>m. least_cost (map (cost_of actuals) sigs) m \<and>
          fold (ambiguity_step actuals) sigs (size_max, 0) =
            (m, count_list (map (cost_of actuals) sigs) (Some m)))"
proof (induction sigs rule: rev_induct)
  case (snoc s sigs)
  let ?cs = "map (cost_of actuals) sigs"
  have step: "ambiguity_step actuals s (m, n) =
      (case cost_of actuals s of None \<Rightarrow> (m, n)
       | Some c \<Rightarrow> if c < m then (c, 1) else if c = m then (m, n + 1) else (m, n))" for m n
    by (auto simp: ambiguity_step_def cost_of_def)
  from snoc.IH show ?case
  proof (elim disjE conjE exE)
    assume none: "set ?cs \<subseteq> {None}"
      and f: "fold (ambiguity_step actuals) sigs (size_max, 0) = (size_max, 0)"
    show ?case
    proof (cases "cost_of actuals s")
      case None
      then show ?thesis using none f by (simp add: step)
    next
      case (Some c)
      then have "c < size_max" using cost_of_bound [OF Some] assms by simp
      then show ?thesis using least_cost_first [OF none, of c] f Some by (simp add: step)
    qed
  next
    fix m
    assume least: "least_cost ?cs m"
      and f: "fold (ambiguity_step actuals) sigs (size_max, 0) = (m, count_list ?cs (Some m))"
    show ?case
    proof (cases "cost_of actuals s")
      case None
      then show ?thesis using least_cost_snoc(1) [OF least] f by (auto simp: step)
    next
      case (Some c)
      then show ?thesis
        using least_cost_snoc(2,3) [OF least, of c] f by (auto simp: step not_less le_eq_less_or_eq)
    qed
  qed
qed simp

definition first_index :: "'a list \<Rightarrow> 'a \<Rightarrow> nat" where
  "first_index xs x = length (takeWhile (\<lambda>y. y \<noteq> x) xs)"

lemma first_index_append:
  "first_index (xs @ ys) x = (if x \<in> set xs then first_index xs x else length xs + first_index ys x)"
  by (induction xs) (auto simp: first_index_def)

lemma first_index_snoc: "x \<notin> set xs \<Longrightarrow> first_index (xs @ [x]) x = length xs"
  by (simp add: first_index_append) (simp add: first_index_def)

lemma first_index_nth:
  "x \<in> set xs \<Longrightarrow> first_index xs x < length xs \<and> xs ! first_index xs x = x"
  by (induction xs) (auto simp: first_index_def)

lemma selection_loop:
  fixes actuals :: "scalar_type list" and sigs :: "primitive_signature list"
  assumes "length actuals < size_max"
  defines "start \<equiv> \<lparr>st_arity_exists = False, st_selected = None, st_cost = size_max,
                     st_ambiguous = False\<rparr>"
  defines "cs \<equiv> map (cost_of actuals) sigs"
    and "st \<equiv> fold (selection_step actuals) (List.enumerate 0 sigs) start"
  shows "(st_arity_exists st \<longleftrightarrow> (\<exists>s \<in> set sigs. length (ps_parameters s) = length actuals)) \<and>
    (set cs \<subseteq> {None} \<and> st_selected st = None \<and> st_cost st = size_max \<and> \<not> st_ambiguous st \<or>
     (\<exists>m. least_cost cs m \<and> st_selected st = Some (first_index cs (Some m)) \<and> st_cost st = m \<and>
        (st_ambiguous st \<longleftrightarrow> 1 < count_list cs (Some m))))"
  unfolding cs_def st_def
proof (induction sigs rule: rev_induct)
  case (snoc s sigs)
  let ?cs = "map (cost_of actuals) sigs"
  let ?st = "fold (selection_step actuals) (List.enumerate 0 sigs) start"
  have f: "fold (selection_step actuals) (List.enumerate 0 (sigs @ [s])) start =
      selection_step actuals (length sigs, s) ?st"
    by (simp add: enumerate_append_eq)
  have arity: "st_arity_exists (selection_step actuals (length sigs, s) ?st) \<longleftrightarrow>
      (st_arity_exists ?st \<or> length (ps_parameters s) = length actuals)"
    by (simp add: selection_step_def Let_def split: option.split)
  have step: "st_selected (selection_step actuals (i, s) st) =
        (case cost_of actuals s of None \<Rightarrow> st_selected st
         | Some c \<Rightarrow> if c < st_cost st then Some i else st_selected st)"
      "st_cost (selection_step actuals (i, s) st) =
        (case cost_of actuals s of None \<Rightarrow> st_cost st
         | Some c \<Rightarrow> if c < st_cost st then c else st_cost st)"
      "st_ambiguous (selection_step actuals (i, s) st) =
        (case cost_of actuals s of None \<Rightarrow> st_ambiguous st
         | Some c \<Rightarrow> if c < st_cost st then False
                    else if c = st_cost st then True else st_ambiguous st)" for i st
    by (auto simp: selection_step_def cost_of_def Let_def split: option.split)
  have "(set ?cs \<subseteq> {None} \<and> st_selected ?st = None \<and> st_cost ?st = size_max \<and> \<not> st_ambiguous ?st) \<or>
     (\<exists>m. least_cost ?cs m \<and> st_selected ?st = Some (first_index ?cs (Some m)) \<and> st_cost ?st = m \<and>
        (st_ambiguous ?st \<longleftrightarrow> 1 < count_list ?cs (Some m)))"
    using snoc.IH by blast
  then have rest: "let cs = map (cost_of actuals) (sigs @ [s]); st = selection_step actuals (length sigs, s) ?st in
    (set cs \<subseteq> {None} \<and> st_selected st = None \<and> st_cost st = size_max \<and> \<not> st_ambiguous st) \<or>
     (\<exists>m. least_cost cs m \<and> st_selected st = Some (first_index cs (Some m)) \<and> st_cost st = m \<and>
        (st_ambiguous st \<longleftrightarrow> 1 < count_list cs (Some m)))"
  proof (elim disjE conjE exE)
    assume none: "set ?cs \<subseteq> {None}"
      and st: "st_selected ?st = None" "st_cost ?st = size_max" "\<not> st_ambiguous ?st"
    show ?thesis
    proof (cases "cost_of actuals s")
      case None
      then show ?thesis using none st by (simp add: step)
    next
      case (Some c)
      have "c < size_max" using cost_of_bound [OF Some] assms(1) by simp
      moreover have "Some c \<notin> set ?cs" using none by auto
      ultimately show ?thesis
        using least_cost_first [OF none, of c] st Some
        by (auto simp: step first_index_snoc [of "Some c" ?cs, simplified])
    qed
  next
    fix m
    assume least: "least_cost ?cs m"
      and st: "st_selected ?st = Some (first_index ?cs (Some m))" "st_cost ?st = m"
        "st_ambiguous ?st \<longleftrightarrow> 1 < count_list ?cs (Some m)"
    have "0 < count_list ?cs (Some m)"
      using least by (simp add: least_cost_def count_list_pos)
    moreover have "Some m \<in> set ?cs" using least by (simp add: least_cost_def)
    ultimately show ?thesis
    proof (cases "cost_of actuals s")
      case None
      then show ?thesis
        using least_cost_snoc(1) [OF least] st \<open>Some m \<in> set ?cs\<close>
        by (auto simp: step first_index_append)
    next
      case (Some c)
      have "c < m \<Longrightarrow> Some c \<notin> set ?cs" using least by (auto simp: least_cost_def)
      then show ?thesis
        using least_cost_snoc(2,3) [OF least, of c] st Some \<open>Some m \<in> set ?cs\<close>
          \<open>0 < count_list ?cs (Some m)\<close>
          first_index_snoc [of "Some c" ?cs]
        by (auto simp: step first_index_append not_less le_eq_less_or_eq)
    qed
  qed
  show ?case
    unfolding f arity using rest snoc.IH by (auto simp: Let_def)
qed (simp add: start_def)


section \<open>What selection returns\<close>

lemma select_primitive_signature_cases:
  fixes d :: primitive_descriptor
  assumes "length actuals < size_max"
  defines "cs \<equiv> map (cost_of actuals) (pd_signatures d)"
    and "r \<equiv> select_primitive_signature d actuals"
  obtains (arity) "\<forall>s \<in> set (pd_signatures d). length (ps_parameters s) \<noteq> length actuals"
      "sel_status r = SEL_arity_mismatch"
  | (types) "\<exists>s \<in> set (pd_signatures d). length (ps_parameters s) = length actuals"
      "set cs \<subseteq> {None}" "sel_status r = SEL_type_mismatch"
  | (several) m where "least_cost cs m" "1 < count_list cs (Some m)" "sel_status r = SEL_ambiguous"
  | (unique) m where "least_cost cs m" "count_list cs (Some m) = 1"
      "r = \<lparr>sel_status = SEL_success,
            sel_signature = Some (OwnSignature (first_index cs (Some m))),
            sel_signature_index = first_index cs (Some m), sel_promotion_cost = m\<rparr>"
proof -
  let ?st = "fold (selection_step actuals) (List.enumerate 0 (pd_signatures d))
    \<lparr>st_arity_exists = False, st_selected = None, st_cost = size_max, st_ambiguous = False\<rparr>"
  note loop = selection_loop [OF assms(1), of "pd_signatures d", folded cs_def]
  have no_arity: "set cs \<subseteq> {None}"
    if "\<forall>s \<in> set (pd_signatures d). length (ps_parameters s) \<noteq> length actuals"
    using that by (auto simp: cs_def cost_of_def)
  show ?thesis
  proof (cases "\<exists>s \<in> set (pd_signatures d). length (ps_parameters s) = length actuals")
    case False
    then show ?thesis
      using loop by (intro arity) (auto simp: r_def select_primitive_signature_def Let_def)
  next
    case True
    then have exists: "st_arity_exists ?st" using loop by blast
    from loop have "(set cs \<subseteq> {None} \<and> st_selected ?st = None) \<or>
     (\<exists>m. least_cost cs m \<and> st_selected ?st = Some (first_index cs (Some m)) \<and> st_cost ?st = m \<and>
        (st_ambiguous ?st \<longleftrightarrow> 1 < count_list cs (Some m)))"
      by blast
    then show ?thesis
    proof (elim disjE conjE exE)
      assume "set cs \<subseteq> {None}" "st_selected ?st = None"
      then show ?thesis
        using exists True
        by (intro types) (auto simp: r_def select_primitive_signature_def Let_def)
    next
      fix m
      assume m: "least_cost cs m" "st_selected ?st = Some (first_index cs (Some m))"
        "st_cost ?st = m" "st_ambiguous ?st \<longleftrightarrow> 1 < count_list cs (Some m)"
      have pos: "0 < count_list cs (Some m)"
        using m(1) by (simp add: least_cost_def count_list_pos)
      show ?thesis
      proof (cases "1 < count_list cs (Some m)")
        case True
        then show ?thesis
          using m exists
          by (intro several [of m]) (auto simp: r_def select_primitive_signature_def Let_def)
      next
        case False
        then have "count_list cs (Some m) = 1" using pos by simp
        then show ?thesis
          using m exists False
          by (intro unique [of m]) (auto simp: r_def select_primitive_signature_def Let_def)
      qed
    qed
  qed
qed

text \<open>The declarative reading: which signatures are the best matches of a call.\<close>

definition best_match :: "primitive_descriptor \<Rightarrow> scalar_type list \<Rightarrow> nat \<Rightarrow> bool" where
  "best_match d actuals i \<longleftrightarrow>
     i < length (pd_signatures d) \<and>
     list_all2 converts actuals (ps_parameters (pd_signatures d ! i)) \<and>
     (\<forall>j < length (pd_signatures d).
        list_all2 converts actuals (ps_parameters (pd_signatures d ! j)) \<longrightarrow>
        promotions actuals (ps_parameters (pd_signatures d ! i))
          \<le> promotions actuals (ps_parameters (pd_signatures d ! j)))"

lemma best_match_least_cost:
  "best_match d actuals i \<longleftrightarrow>
     i < length (pd_signatures d) \<and>
     (\<exists>m. least_cost (map (cost_of actuals) (pd_signatures d)) m \<and>
          map (cost_of actuals) (pd_signatures d) ! i = Some m)"
proof -
  let ?P = "\<lambda>j. list_all2 converts actuals (ps_parameters (pd_signatures d ! j))"
  let ?f = "\<lambda>j. promotions actuals (ps_parameters (pd_signatures d ! j))"
  let ?n = "length (pd_signatures d)"
  let ?cs = "map (cost_of actuals) (pd_signatures d)"
  have nth: "?cs ! j = Some c \<longleftrightarrow> ?P j \<and> c = ?f j" if "j < ?n" for j c
    using that by (auto simp: cost_of_eq)
  have mem: "Some c \<in> set ?cs \<longleftrightarrow> (\<exists>j < ?n. ?P j \<and> c = ?f j)" for c
    unfolding in_set_conv_nth using nth by auto
  show ?thesis
  proof (cases "i < ?n \<and> ?P i")
    case True
    then have "least_cost ?cs (?f i) \<longleftrightarrow> (\<forall>j < ?n. ?P j \<longrightarrow> ?f i \<le> ?f j)"
      unfolding least_cost_def mem by blast
    then show ?thesis
      using True nth [of i] by (auto simp only: best_match_def)
  next
    case False
    then show ?thesis
      using nth [of i] by (auto simp only: best_match_def)
  qed
qed

lemma count_list_nth: "count_list xs x = card {i. i < length xs \<and> xs ! i = x}"
  by (simp add: count_list_eq_length_filter length_filter_conv_card eq_commute)

lemma card_best_matches:
  assumes "least_cost (map (cost_of actuals) (pd_signatures d)) m"
  shows "card {i. best_match d actuals i} =
    count_list (map (cost_of actuals) (pd_signatures d)) (Some m)"
proof -
  let ?cs = "map (cost_of actuals) (pd_signatures d)"
  have "best_match d actuals i \<longleftrightarrow> i < length ?cs \<and> ?cs ! i = Some m" for i
  proof -
    have "least_cost ?cs k \<longleftrightarrow> k = m" for k
      using assms least_cost_unique by blast
    then show ?thesis unfolding best_match_least_cost length_map by simp
  qed
  then show ?thesis by (simp only: count_list_nth)
qed

lemma finite_best_matches: "finite {i. best_match d actuals i}"
  by (rule finite_subset [of _ "{..<length (pd_signatures d)}"]) (auto simp: best_match_def)

text \<open>C24: selection of a signature. The selected signature is the one best match of the
  call: every argument has the parameter's type or is an int where a double is expected,
  no other signature needs fewer or as few promotions, and the reported cost is the number
  of promotions. \<open>ambiguous\<close> means that two signatures tie, \<open>type_mismatch\<close> that
  some signature has the arity and none accepts the types, \<open>arity_mismatch\<close> that
  no signature has the arity.\<close>

theorem select_primitive_signature_best_match:
  assumes "length actuals < size_max"
  shows "case sel_status (select_primitive_signature d actuals) of
      SEL_success \<Rightarrow>
        \<exists>i. {j. best_match d actuals j} = {i} \<and>
            select_primitive_signature d actuals =
              \<lparr>sel_status = SEL_success, sel_signature = Some (OwnSignature i),
               sel_signature_index = i,
               sel_promotion_cost = promotions actuals (ps_parameters (pd_signatures d ! i))\<rparr>
    | SEL_ambiguous \<Rightarrow> 1 < card {j. best_match d actuals j}
    | SEL_type_mismatch \<Rightarrow>
        (\<exists>s \<in> set (pd_signatures d). length (ps_parameters s) = length actuals) \<and>
        \<not> (\<exists>s \<in> set (pd_signatures d). list_all2 converts actuals (ps_parameters s))
    | SEL_arity_mismatch \<Rightarrow>
        \<not> (\<exists>s \<in> set (pd_signatures d). length (ps_parameters s) = length actuals)"
  using assms
proof (cases rule: select_primitive_signature_cases [of actuals d])
  case arity
  then show ?thesis by auto
next
  case types
  then show ?thesis by (auto simp: cost_of_eq split: if_splits)
next
  case (several m)
  then show ?thesis by (simp add: card_best_matches)
next
  case (unique m)
  let ?cs = "map (cost_of actuals) (pd_signatures d)"
  let ?i = "first_index ?cs (Some m)"
  have i: "?i < length (pd_signatures d)" "?cs ! ?i = Some m"
    using first_index_nth [of "Some m" ?cs] unique(1) by (auto simp: least_cost_def)
  then have best: "best_match d actuals ?i"
    using unique(1) by (auto simp: best_match_least_cost)
  have "card {j. best_match d actuals j} = 1"
    using card_best_matches [OF unique(1)] unique(2) by simp
  then have "{j. best_match d actuals j} = {?i}"
    using best by (metis card_1_singletonE mem_Collect_eq singletonD)
  moreover have "m = promotions actuals (ps_parameters (pd_signatures d ! ?i))"
    using i by (simp add: cost_of_eq split: if_splits)
  ultimately show ?thesis using unique(3) by simp
qed

text \<open>\<open>add\<close> called with an int and a double.\<close>

theorem select_primitive_signature_best_match_witness:
  "sel_status (select_primitive_signature (make_descriptor PI_add ''add'' LM_elementwise
     add_signatures) [ST_integer, ST_double_precision]) = SEL_success \<and>
   (\<exists>i. {j. best_match (make_descriptor PI_add ''add'' LM_elementwise add_signatures)
          [ST_integer, ST_double_precision] j} = {i})"
proof -
  let ?d = "make_descriptor PI_add ''add'' LM_elementwise add_signatures"
  let ?ts = "[ST_integer, ST_double_precision]"
  have l: "length ?ts < size_max" by (simp add: size_max_def)
  have s: "sel_status (select_primitive_signature ?d ?ts) = SEL_success"
    using l by (simp add: select_primitive_signature_def selection_step_def conversion_cost_def
        make_descriptor_def add_signatures_def make_signature_def int_parameters_def
        double_parameters_def scalar_int_def scalar_double_def Let_def)
  then show ?thesis using select_primitive_signature_best_match [OF l, of ?d] by auto
qed


section \<open>What the validator decides\<close>

lemma distinct_iff_below: "distinct xs \<longleftrightarrow> (\<forall>j < length xs. \<forall>i < j. xs ! i \<noteq> xs ! j)"
proof
  assume "distinct xs"
  then show "\<forall>j < length xs. \<forall>i < j. xs ! i \<noteq> xs ! j"
    by (auto simp: nth_eq_iff_index_eq)
next
  assume below: "\<forall>j < length xs. \<forall>i < j. xs ! i \<noteq> xs ! j"
  show "distinct xs"
    unfolding distinct_conv_nth
  proof (intro allI impI)
    fix i j
    assume ij: "i < length xs" "j < length xs" "i \<noteq> j"
    then consider "i < j" | "j < i" by linarith
    then show "xs ! i \<noteq> xs ! j"
    proof cases
      case 1
      then show ?thesis using below ij by blast
    next
      case 2
      then show ?thesis using below ij by metis
    qed
  qed
qed

lemma same_value_type_iff: "same_value_type l r \<longleftrightarrow> l = r"
  by (cases l; cases r) (simp add: same_value_type_def)

lemma same_signature_iff:
  "same_signature l r \<longleftrightarrow> (ps_parameters l, ps_result l) = (ps_parameters r, ps_result r)"
  by (auto simp: same_signature_def same_value_type_iff list_all_iff intro: nth_equalityI)

lemma scalar_parameters_match_iff:
  "scalar_parameters_match s ts r \<longleftrightarrow>
     ps_parameters s = map (\<lambda>t. \<lparr>vt_container = CK_scalar, vt_element = t\<rparr>) ts \<and>
     ps_result s = \<lparr>vt_container = CK_scalar, vt_element = r\<rparr>"
proof -
  have eq: "v = \<lparr>vt_container = c, vt_element = t\<rparr> \<longleftrightarrow> vt_container v = c \<and> vt_element v = t"
    for v c t by (cases v) simp
  show ?thesis
    unfolding scalar_parameters_match_def list_all_iff list_eq_iff_nth_eq [of "ps_parameters s"]
    using eq by (auto simp: Ball_def)
qed

definition known_types :: "scalar_type set" where
  "known_types = {ST_boolean, ST_integer, ST_double_precision}"

lemma implementation_matches_known:
  assumes "implementation_matches pid s" "p \<in> set (ps_parameters s)"
  shows "vt_container p = CK_scalar \<and> vt_element p \<in> known_types"
  using assms
  by (cases "ps_implementation s")
     (auto simp: implementation_matches_def scalar_parameters_match_iff known_types_def
        length_Suc_conv)

text \<open>The enumeration of argument types meets every list of known types of the arity.\<close>

lemma assigned_type_later:
  "\<forall>(t, i) \<in> set a. i < index \<Longrightarrow> map (assigned_type ((t, index) # a)) [0..<Suc index] =
     map (assigned_type a) [0..<index] @ [t]"
  by simp

lemma has_ambiguous_assignment_iff:
  assumes "index \<le> arity" "\<forall>(t, i) \<in> set a. i < index"
  shows "has_ambiguous_assignment d arity index a \<longleftrightarrow>
    (\<exists>ts. length ts = arity - index \<and> set ts \<subseteq> known_types \<and>
       snd (fold (ambiguity_step (map (assigned_type a) [0..<index] @ ts)) (pd_signatures d)
              (size_max, 0)) > 1)"
  using assms
proof (induction d arity index a rule: has_ambiguous_assignment.induct)
  case (1 d arity index a)
  let ?A = "\<lambda>ts. snd (fold (ambiguity_step ts) (pd_signatures d) (size_max, 0)) > 1"
  show ?case
  proof (cases "index = arity")
    case True
    then show ?thesis
      by (simp add: has_ambiguous_assignment.simps [of d arity] assignment_is_ambiguous_def)
  next
    case False
    then have less: "index < arity" using 1(2) by simp
    have IH: "has_ambiguous_assignment d arity (index + 1) ((t, index) # a) \<longleftrightarrow>
       (\<exists>ts. length ts = arity - (index + 1) \<and> set ts \<subseteq> known_types \<and>
          ?A ((map (assigned_type a) [0..<index] @ [t]) @ ts))" if "t \<in> known_types" for t
    proof -
      have "t \<in> set [ST_boolean, ST_integer, ST_double_precision]"
        using that by (simp add: known_types_def)
      moreover have "\<forall>(u, i) \<in> set ((t, index) # a). i < index + 1" using 1(3) by auto
      ultimately have "has_ambiguous_assignment d arity (index + 1) ((t, index) # a) \<longleftrightarrow>
          (\<exists>ts. length ts = arity - (index + 1) \<and> set ts \<subseteq> known_types \<and>
             ?A (map (assigned_type ((t, index) # a)) [0..<Suc index] @ ts))"
        using 1(1) [of t] less by (simp del: upt_Suc assigned_type.simps)
      then show ?thesis unfolding assigned_type_later [OF 1(3)] .
    qed
    have "has_ambiguous_assignment d arity index a \<longleftrightarrow>
        (\<exists>t \<in> known_types. has_ambiguous_assignment d arity (index + 1) ((t, index) # a))"
      using less by (simp add: has_ambiguous_assignment.simps [of d arity index] known_types_def)
    also have "\<dots> \<longleftrightarrow> (\<exists>t \<in> known_types. \<exists>ts. length (t # ts) = arity - index \<and>
        set (t # ts) \<subseteq> known_types \<and> ?A (map (assigned_type a) [0..<index] @ (t # ts)))"
    proof (rule bex_cong [OF refl])
      fix t
      assume t: "t \<in> known_types"
      have "length us = arity - (index + 1) \<longleftrightarrow> length (t # us) = arity - index" for us
        using less by auto
      then show "has_ambiguous_assignment d arity (index + 1) ((t, index) # a) \<longleftrightarrow>
          (\<exists>ts. length (t # ts) = arity - index \<and> set (t # ts) \<subseteq> known_types \<and>
             ?A (map (assigned_type a) [0..<index] @ (t # ts)))"
        unfolding IH [OF t] using t by simp
    qed
    also have "\<dots> \<longleftrightarrow> (\<exists>ts. length ts = arity - index \<and> set ts \<subseteq> known_types \<and>
        ?A (map (assigned_type a) [0..<index] @ ts))"
    proof (intro iffI; elim bexE exE conjE)
      fix ts
      assume ts: "length ts = arity - index" "set ts \<subseteq> known_types"
        "?A (map (assigned_type a) [0..<index] @ ts)"
      then obtain t us where "ts = t # us" using less by (cases ts) auto
      then show "\<exists>t \<in> known_types. \<exists>us. length (t # us) = arity - index \<and>
          set (t # us) \<subseteq> known_types \<and> ?A (map (assigned_type a) [0..<index] @ (t # us))"
        using ts by auto
    qed blast
    finally show ?thesis .
  qed
qed

definition unambiguous :: "primitive_descriptor \<Rightarrow> scalar_type list \<Rightarrow> bool" where
  "unambiguous d actuals \<longleftrightarrow> card {i. best_match d actuals i} \<le> 1"

lemma ambiguity_iff:
  assumes "length actuals < size_max"
  shows "snd (fold (ambiguity_step actuals) (pd_signatures d) (size_max, 0)) > 1 \<longleftrightarrow>
    \<not> unambiguous d actuals"
  using ambiguity_loop [OF assms, of "pd_signatures d"]
proof (elim disjE conjE exE)
  let ?cs = "map (cost_of actuals) (pd_signatures d)"
  assume "set ?cs \<subseteq> {None}"
    and f: "fold (ambiguity_step actuals) (pd_signatures d) (size_max, 0) = (size_max, 0)"
  then have "\<not> least_cost ?cs m" for m by (auto simp: least_cost_def)
  then have "{i. best_match d actuals i} = {}" unfolding best_match_least_cost by simp
  then show ?thesis using f by (simp add: unambiguous_def)
next
  fix m
  let ?cs = "map (cost_of actuals) (pd_signatures d)"
  assume "least_cost ?cs m"
    and "fold (ambiguity_step actuals) (pd_signatures d) (size_max, 0) =
           (m, count_list ?cs (Some m))"
  then show ?thesis using card_best_matches [of actuals d m] by (auto simp: unambiguous_def)
qed

lemma has_ambiguous_assignment_start:
  assumes "arity < size_max"
  shows "has_ambiguous_assignment d arity 0 [] \<longleftrightarrow>
    (\<exists>ts. length ts = arity \<and> set ts \<subseteq> known_types \<and> \<not> unambiguous d ts)"
  using has_ambiguous_assignment_iff [of 0 arity "[]" d] ambiguity_iff assms by auto

definition well_formed_descriptor :: "primitive_descriptor \<Rightarrow> bool" where
  "well_formed_descriptor d \<longleftrightarrow>
     pd_name d \<noteq> ''parameters'' \<and> pd_signatures d \<noteq> [] \<and>
     distinct (map (\<lambda>s. (ps_parameters s, ps_result s)) (pd_signatures d)) \<and>
     (\<forall>s \<in> set (pd_signatures d).
        ps_parameters s \<noteq> [] \<and> implementation_matches (pd_id d) s \<and>
        (pd_lifting d = LM_elementwise \<longrightarrow> vt_container (ps_result s) = CK_scalar \<and>
           (\<forall>p \<in> set (ps_parameters s). vt_container p = CK_scalar))) \<and>
     (pd_lifting d = LM_elementwise \<longrightarrow> (\<forall>ts. unambiguous d ts))"

definition well_formed_table :: "primitive_descriptor list \<Rightarrow> bool" where
  "well_formed_table ds \<longleftrightarrow>
     ds \<noteq> [] \<and> distinct (map pd_id ds) \<and> distinct (map pd_name ds) \<and>
     (\<forall>d \<in> set ds. well_formed_descriptor d)"

lemma validate_duplicates_None:
  "validate_duplicates ds d = None \<longleftrightarrow>
     (\<forall>p < d. pd_id (ds ! p) \<noteq> pd_id (ds ! d) \<and> pd_name (ds ! p) \<noteq> pd_name (ds ! d))"
  by (auto simp: validate_duplicates_def find_some_None_iff)

lemma validate_signature_None:
  "validate_signature d i s = None \<longleftrightarrow>
     (\<forall>p < s. \<not> same_signature (pd_signatures d ! p) (pd_signatures d ! s)) \<and>
     ps_parameters (pd_signatures d ! s) \<noteq> [] \<and>
     (pd_lifting d = LM_elementwise \<longrightarrow>
        vt_container (ps_result (pd_signatures d ! s)) = CK_scalar \<and>
        (\<forall>p \<in> set (ps_parameters (pd_signatures d ! s)). vt_container p = CK_scalar))"
  by (auto simp: validate_signature_def find_some_None_iff Let_def)

lemma validate_ambiguity_None:
  "(\<forall>s < length (pd_signatures d). validate_ambiguity d i s = None) \<longleftrightarrow>
     (\<forall>s < length (pd_signatures d).
        \<not> has_ambiguous_assignment d (length (ps_parameters (pd_signatures d ! s))) 0 [])"
  (is "?L \<longleftrightarrow> ?R")
proof
  assume L: ?L
  show ?R
  proof (intro allI impI)
    fix s
    assume "s < length (pd_signatures d)"
    then show "\<not> has_ambiguous_assignment d (length (ps_parameters (pd_signatures d ! s))) 0 []"
    proof (induction s rule: less_induct)
      case (less s)
      show ?case
      proof (cases "\<exists>p < s. length (ps_parameters (pd_signatures d ! p)) =
                         length (ps_parameters (pd_signatures d ! s))")
        case True
        then show ?thesis using less by (metis less_trans)
      next
        case False
        then show ?thesis
          using L less.prems
          by (auto simp: validate_ambiguity_def Let_def list_ex_iff split: if_splits)
      qed
    qed
  qed
qed (auto simp: validate_ambiguity_def Let_def)


lemma validate_descriptor_None:
  assumes "\<forall>s \<in> set (pd_signatures (ds ! d)). length (ps_parameters s) < size_max"
  shows "validate_descriptor ds d = None \<longleftrightarrow>
    well_formed_descriptor (ds ! d) \<and> validate_duplicates ds d = None"
proof -
  let ?d = "ds ! d"
  let ?sigs = "pd_signatures ?d"
  let ?matches = "\<forall>s \<in> set ?sigs. implementation_matches (pd_id ?d) s"
  have indexes: "(\<forall>i \<in> set [0..<length ?sigs]. P (?sigs ! i)) \<longleftrightarrow> (\<forall>s \<in> set ?sigs. P s)" for P
    by (auto simp: all_set_conv_all_nth)
  have shapes: "(\<forall>j < length ?sigs. \<forall>i < j. \<not> same_signature (?sigs ! i) (?sigs ! j)) \<longleftrightarrow>
      distinct (map (\<lambda>s. (ps_parameters s, ps_result s)) ?sigs)"
    unfolding distinct_iff_below same_signature_iff by auto
  have amb: "(\<forall>s < length ?sigs.
        \<not> has_ambiguous_assignment ?d (length (ps_parameters (?sigs ! s))) 0 []) \<longleftrightarrow>
      (\<forall>ts. unambiguous ?d ts)" if ?matches
  proof
    assume no: "\<forall>s < length ?sigs.
        \<not> has_ambiguous_assignment ?d (length (ps_parameters (?sigs ! s))) 0 []"
    show "\<forall>ts. unambiguous ?d ts"
    proof
      fix ts
      show "unambiguous ?d ts"
      proof (cases "\<exists>i. best_match ?d ts i")
        case True
        then obtain s where s: "s < length ?sigs" "list_all2 converts ts (ps_parameters (?sigs ! s))"
          by (auto simp: best_match_def)
        have "t \<in> known_types" if "t \<in> set ts" for t
        proof -
          from that obtain i where i: "i < length ts" "ts ! i = t" by (auto simp: in_set_conv_nth)
          then have "converts t (ps_parameters (?sigs ! s) ! i)"
            and "ps_parameters (?sigs ! s) ! i \<in> set (ps_parameters (?sigs ! s))"
            using s(2) by (auto simp: list_all2_conv_all_nth)
          then show ?thesis
            using implementation_matches_known [of "pd_id ?d" "?sigs ! s"] \<open>?matches\<close> s(1)
            by (auto simp: converts_def known_types_def)
        qed
        moreover have "length ts = length (ps_parameters (?sigs ! s))"
          using s(2) by (simp add: list_all2_lengthD)
        ultimately show ?thesis
          using no s(1) assms has_ambiguous_assignment_start by (metis nth_mem subsetI)
      qed (simp add: unambiguous_def)
    qed
  next
    assume "\<forall>ts. unambiguous ?d ts"
    then show "\<forall>s < length ?sigs.
        \<not> has_ambiguous_assignment ?d (length (ps_parameters (?sigs ! s))) 0 []"
      using assms has_ambiguous_assignment_start by auto
  qed
  have "validate_descriptor ds d = None \<longleftrightarrow>
      pd_name ?d \<noteq> ''parameters'' \<and> validate_duplicates ds d = None \<and> ?sigs \<noteq> [] \<and>
      (\<forall>s < length ?sigs. validate_signature ?d d s = None) \<and>
      (pd_lifting ?d = LM_elementwise \<longrightarrow> (\<forall>s < length ?sigs. validate_ambiguity ?d d s = None)) \<and>
      ?matches"
    unfolding indexes [symmetric]
    by (auto simp: validate_descriptor_def Let_def find_some_None_iff)
  also have "\<dots> \<longleftrightarrow> well_formed_descriptor ?d \<and> validate_duplicates ds d = None"
    unfolding well_formed_descriptor_def validate_ambiguity_None shapes [symmetric]
      validate_signature_None
    using amb by (auto simp: all_set_conv_all_nth)
  finally show ?thesis .
qed

text \<open>C33: the validator of primitive tables accepts exactly the well-formed tables: ids and
  names are distinct, no primitive is called \<open>parameters\<close>, every primitive has
  signatures of distinct shapes with at least one parameter, each implemented by the kernel
  of that primitive with exactly these types, and for an elementwise primitive all types are
  scalar and no argument types at all have two best matches, although the validator tries
  only the lists of the three scalar types.\<close>

theorem validate_primitive_table_decides:
  assumes "\<forall>d \<in> set ds. \<forall>s \<in> set (pd_signatures d). length (ps_parameters s) < size_max"
  shows "pv_ok (validate_primitive_table ds) \<longleftrightarrow> well_formed_table ds"
proof (cases "ds = []")
  case True
  then show ?thesis
    by (simp add: validate_primitive_table_def invalid_table_def well_formed_table_def)
next
  case False
  let ?f = "find_some (validate_descriptor ds) [0..<length ds]"
  have invalid: "\<not> pv_ok r" if "?f = Some r" for r
  proof -
    from find_some_Some [OF that] obtain d where "validate_descriptor ds d = Some r" by blast
    then show ?thesis
      by (auto simp: validate_descriptor_def Let_def validate_duplicates_def
          validate_signature_def validate_ambiguity_def invalid_table_def
          dest!: or_else_Some find_some_Some split: if_splits)
  qed
  have "pv_ok (validate_primitive_table ds) \<longleftrightarrow> ?f = None"
    using False invalid
    by (auto simp: validate_primitive_table_def valid_table_def split: option.split)
  also have "\<dots> \<longleftrightarrow> (\<forall>d < length ds. well_formed_descriptor (ds ! d) \<and>
      validate_duplicates ds d = None)"
  proof -
    have "validate_descriptor ds d = None \<longleftrightarrow>
        well_formed_descriptor (ds ! d) \<and> validate_duplicates ds d = None" if "d < length ds" for d
      using assms that by (intro validate_descriptor_None) (metis nth_mem)
    then show ?thesis by (auto simp: find_some_None_iff)
  qed
  also have "\<dots> \<longleftrightarrow> well_formed_table ds"
    using False unfolding well_formed_table_def validate_duplicates_None
    by (auto simp: distinct_iff_below all_set_conv_all_nth)
  finally show ?thesis .
qed


section \<open>The production table\<close>

lemmas signature_tables =
  inc_signatures_def add_signatures_def dec_signatures_def neg_signatures_def
  abs_signatures_def sub_signatures_def mul_signatures_def equals_signatures_def
  not_signatures_def iota_signatures_def and_signatures_def or_signatures_def
  not_equals_signatures_def odd_signatures_def even_signatures_def
  is_positive_signatures_def is_negative_signatures_def less_than_signatures_def
  greater_than_signatures_def

lemmas parameter_lists =
  int_parameter_def double_parameter_def bool_parameter_def int_parameters_def
  double_parameters_def bool_parameters_def scalar_int_def scalar_double_def scalar_bool_def
  vector_int_def

text \<open>Two signatures that never tie.\<close>

definition separate :: "primitive_signature \<Rightarrow> primitive_signature \<Rightarrow> bool" where
  "separate s s' \<longleftrightarrow>
     (\<forall>ts. list_all2 converts ts (ps_parameters s) \<and> list_all2 converts ts (ps_parameters s') \<longrightarrow>
        promotions ts (ps_parameters s) \<noteq> promotions ts (ps_parameters s'))"

lemma separate_make_signature [simp]:
  "separate (make_signature int_parameter r i) (make_signature double_parameter r' i')"
  "separate (make_signature int_parameters r i) (make_signature double_parameters r' i')"
  "separate (make_signature bool_parameters r i) (make_signature int_parameters r' i')"
  "separate (make_signature bool_parameters r i) (make_signature double_parameters r' i')"
  by (auto simp: separate_def make_signature_def parameter_lists list_all2_Cons2 converts_def
        promotions_def)

lemma unambiguous_if_separate:
  assumes "sorted_wrt separate (pd_signatures d)"
  shows "unambiguous d ts"
proof -
  have "i = j" if "best_match d ts i" "best_match d ts j" for i j
    using that assms
    by (auto simp: best_match_def sorted_wrt_iff_nth_less separate_def)
       (metis antisym linorder_neqE_nat)
  then have "{i. best_match d ts i} \<subseteq> {i}" if "best_match d ts i" for i
    using that by blast
  then have "card {i. best_match d ts i} \<le> card {i}" if "best_match d ts i" for i
    using that by (intro card_mono) auto
  then show ?thesis
    by (cases "\<exists>i. best_match d ts i") (auto simp: unambiguous_def)
qed

lemma production_descriptor_well_formed:
  assumes "d \<in> set production_descriptors"
  shows "well_formed_descriptor d"
proof -
  have "sorted_wrt separate (pd_signatures d)"
    using assms by (auto simp: production_descriptors_def make_descriptor_def signature_tables)
  moreover have "pd_name d \<noteq> ''parameters'' \<and> pd_signatures d \<noteq> []"
    using assms by (auto simp: production_descriptors_def make_descriptor_def signature_tables)
  moreover have "distinct (map (\<lambda>s. (ps_parameters s, ps_result s)) (pd_signatures d))"
    using assms
    by (auto simp: production_descriptors_def make_descriptor_def signature_tables
        make_signature_def parameter_lists)
  moreover have "\<forall>s \<in> set (pd_signatures d).
      ps_parameters s \<noteq> [] \<and> implementation_matches (pd_id d) s \<and>
        (pd_lifting d = LM_elementwise \<longrightarrow> vt_container (ps_result s) = CK_scalar \<and>
           (\<forall>p \<in> set (ps_parameters s). vt_container p = CK_scalar))"
    using assms
    by (auto simp: production_descriptors_def make_descriptor_def signature_tables
        make_signature_def parameter_lists implementation_matches_def
        scalar_parameters_match_iff)
  ultimately show ?thesis
    using unambiguous_if_separate by (auto simp: well_formed_descriptor_def)
qed

lemma production_ids: "map (primitive_code \<circ> pd_id) production_descriptors = [0..<19]"
  by (simp add: production_descriptors_def make_descriptor_def upt_conv_Cons)

lemma production_length: "length production_descriptors = 19"
  by (simp add: production_descriptors_def)

lemma production_ids_sorted: "sorted_wrt (<) (map pd_id production_descriptors)"
  by (simp add: production_descriptors_def make_descriptor_def less_primitive_id_def)

lemma production_well_formed: "well_formed_table production_descriptors"
proof -
  have "distinct (map pd_id production_descriptors)"
    using production_ids_sorted strict_sorted_iff by blast
  moreover have "distinct (map pd_name production_descriptors)"
    by (simp add: production_descriptors_def make_descriptor_def)
  moreover have "production_descriptors \<noteq> []" by (simp add: production_descriptors_def)
  ultimately show ?thesis
    using production_descriptor_well_formed by (simp add: well_formed_table_def)
qed

lemma production_parameter_counts:
  "\<forall>d \<in> set production_descriptors. \<forall>s \<in> set (pd_signatures d).
     length (ps_parameters s) < size_max"
  by (auto simp: production_descriptors_def make_descriptor_def signature_tables
      make_signature_def parameter_lists size_max_def)

text \<open>\<open>validate_primitive_table\<close> applied to the table of the program.\<close>

theorem validate_primitive_table_decides_witness:
  "pv_ok (validate_primitive_table production_descriptors)"
  using validate_primitive_table_decides [OF production_parameter_counts] production_well_formed
  by simp

lemma production_valid: "validate_primitive_table production_descriptors = valid_table"
proof -
  have "validate_descriptor production_descriptors d = None" if "d < 19" for d
  proof -
    have "production_descriptors ! d \<in> set production_descriptors"
      using that production_length by (metis nth_mem)
    moreover have "validate_duplicates production_descriptors d = None"
      using production_well_formed that
      by (auto simp: validate_duplicates_None well_formed_table_def distinct_iff_below
          production_length)
    ultimately show ?thesis
      using validate_descriptor_None production_parameter_counts
        production_descriptor_well_formed by blast
  qed
  then have "find_some (validate_descriptor production_descriptors)
      [0..<length production_descriptors] = None"
    by (simp add: find_some_None_iff) (simp add: production_descriptors_def)
  then show ?thesis
    by (simp add: validate_primitive_table_def) (simp add: production_descriptors_def)
qed

lemma find_primitive_by_id_nth: "find_primitive_by_id pid = at production_descriptors (primitive_code pid)"
  by (cases pid) (simp_all add: find_primitive_by_id_def production_descriptors_def make_descriptor_def at_def)

text \<open>C34: the production table. It passes its own validation, its entries are in the order
  of the primitive ids, so that looking a primitive up by id is indexing, looking it up by
  name finds the entry with that name, and no call of any primitive with any argument types
  is reported ambiguous.\<close>

theorem production_table_correct:
  "production_primitive_table_validation = valid_table \<and>
   map (primitive_code \<circ> pd_id) production_descriptors = [0..<19] \<and>
   find_primitive_by_id pid = at production_descriptors (primitive_code pid) \<and>
   map (find_primitive_by_name \<circ> pd_name) production_descriptors =
     map Some production_descriptors \<and>
   list_all (\<lambda>d. unambiguous d actuals) production_descriptors"
proof -
  have "map (find_primitive_by_name \<circ> pd_name) production_descriptors =
      map Some production_descriptors"
    by (simp add: find_primitive_by_name_def production_descriptors_def make_descriptor_def)
  moreover have "unambiguous d actuals" if "d \<in> set production_descriptors" for d
    using that by (intro unambiguous_if_separate)
      (auto simp: production_descriptors_def make_descriptor_def signature_tables)
  ultimately show ?thesis
    using production_valid production_ids find_primitive_by_id_nth
    by (simp add: production_primitive_table_validation_def list_all_iff)
qed

section \<open>Conversion\<close>

lemma valid_scalar_iff:
  "valid_scalar v \<longleftrightarrow>
     (\<exists>b. v = bool_scalar b) \<or> (\<exists>i. v = int_scalar i) \<or> (\<exists>d. v = double_scalar d)"
proof -
  have double: "sv_double v AND binary64_exponent_mask \<noteq> binary64_exponent_mask
                   \<or> sv_double v AND binary64_fraction_mask = 0 \<longleftrightarrow>
      \<not> binary64_is_nan (sv_double v)"
    by (auto simp: binary64_is_nan_def)
  show ?thesis
    unfolding valid_scalar_def double
    by (cases v; cases "sv_type v")
       (auto simp: bool_scalar_def int_scalar_def double_scalar_def normalize_double_eq)
qed

lemma valid_scalar_cases:
  assumes "valid_scalar v"
  obtains (bool) b where "v = bool_scalar b" | (int) i where "v = int_scalar i"
  | (double) d where "v = double_scalar d"
  using assms by (auto simp: valid_scalar_iff)

lemma valid_scalar_constructors [simp]:
  "valid_scalar (bool_scalar b)" "valid_scalar (int_scalar i)" "valid_scalar (double_scalar d)"
  by (auto simp: valid_scalar_iff)

lemma scalar_constructors [simp]:
  "sv_type (bool_scalar b) = ST_boolean" "sv_boolean (bool_scalar b) = b"
  "sv_type (int_scalar i) = ST_integer" "sv_integer (int_scalar i) = i"
  "sv_type (double_scalar d) = ST_double_precision"
  "sv_double (double_scalar d) = normalize_double d"
  by (simp_all add: bool_scalar_def int_scalar_def double_scalar_def)

lemma int_to_binary64_not_nan: "\<not> binary64_is_nan (int_to_binary64 v)"
  by (simp add: int_to_binary64_rounded rounded_integer_def make_rounded_not_nan)

text \<open>Converting an argument. A valid scalar converts exactly to its own type, where it
  is unchanged, and from int to double, where the result is the nearest double; the result
  is again a valid scalar of the requested type. Nothing else converts and no invalid scalar
  is accepted.\<close>

theorem convert_scalar_conforms:
  "(sc_status (convert_scalar v t) = SC_success \<longleftrightarrow>
      valid_scalar v \<and> converts (sv_type v) \<lparr>vt_container = CK_scalar, vt_element = t\<rparr>) \<and>
   (sc_status (convert_scalar v t) = SC_success \<longrightarrow>
      valid_scalar (sc_value (convert_scalar v t)) \<and>
      sv_type (sc_value (convert_scalar v t)) = t \<and>
      (sv_type v = t \<longrightarrow> sc_value (convert_scalar v t) = v) \<and>
      (sv_type v \<noteq> t \<longrightarrow>
         nearest_to (sv_double (sc_value (convert_scalar v t))) 1 (sint (sv_integer v) * 2 ^ 1074)))"
proof (cases "valid_scalar v")
  case True
  note near = int_to_binary64_nearest [THEN conjunct2]
  from True show ?thesis
  proof (cases rule: valid_scalar_cases)
    case (int i)
    note v = int
    have "convert_scalar v ST_double_precision =
        \<lparr>sc_status = SC_success, sc_value = double_scalar (int_to_binary64 i)\<rparr>"
      using int_to_binary64_not_nan
      by (simp add: v convert_scalar_def) (simp add: int_scalar_def double_scalar_def
          normalize_double_eq)
    then show ?thesis
      using near [of i]
      by (cases "t = ST_double_precision")
         (auto simp: v converts_def convert_scalar_def normalize_double_eq
            int_to_binary64_not_nan simp del: power_numeral)
  qed (auto simp: converts_def convert_scalar_def)
next
  case False
  then show ?thesis by (simp add: convert_scalar_def)
qed

theorem convert_scalar_conforms_witness:
  "sv_type (sc_value (convert_scalar (int_scalar 5) ST_double_precision)) = ST_double_precision"
  using convert_scalar_conforms [of "int_scalar 5" ST_double_precision]
  by (simp add: int_scalar_def valid_scalar_def converts_def)

end
