(* ===== verification/Kernels.thy ===== *)
theory Kernels
  imports PrimitivesCorrect "HOL-Library.Signed_Division" "HOL-Library.Monad_Syntax"
begin

text \<open>
  The scalar kernels (\<open>invoke_scalar_kernel\<close> of src/primitive.cpp): the checked call of one
  implementation on scalar operands of its parameter types. Signed 64-bit arithmetic is
  written on integers with the range checked at every operation, because an overflow is
  undefined behaviour in the code: a kernel that met one would be \<open>None\<close> here. An integer
  overflow that the code detects is a result with status \<open>domain_error\<close>, whose error
  names the primitive and holds the operands.
\<close>

section \<open>Signed 64-bit arithmetic\<close>

definition int64_max :: int where "int64_max = 2 ^ 63 - 1"

definition int64_min :: int where "int64_min = - (2 ^ 63)"

definition in_int64 :: "int \<Rightarrow> bool" where
  "in_int64 v \<longleftrightarrow> int64_min \<le> v \<and> v \<le> int64_max"

definition int64 :: "int \<Rightarrow> int option" where
  "int64 v = (if in_int64 v then Some v else None)"

definition int64_div :: "int \<Rightarrow> int \<Rightarrow> int option" where
  "int64_div a b = (if b = 0 then None else int64 (a sdiv b))"

definition int64_mod :: "int \<Rightarrow> int \<Rightarrow> int option" where
  "int64_mod a b = (if b = 0 \<or> int64 (a sdiv b) = None then None else Some (a smod b))"

text \<open>\<open>a && b\<close> and \<open>a || b\<close> evaluate their right side only where it is needed.\<close>

definition and_also :: "bool \<Rightarrow> bool option \<Rightarrow> bool option" where
  "and_also a b = (if a then b else Some False)"

definition or_also :: "bool option \<Rightarrow> bool option \<Rightarrow> bool option" where
  "or_also a b = Option.bind a (\<lambda>x. if x then Some True else b)"

section \<open>Overflow tests of the code\<close>

definition add_overflows :: "int \<Rightarrow> int \<Rightarrow> bool option" where
  "add_overflows l r =
     or_also (and_also (r > 0) (map_option (\<lambda>m. l > m) (int64 (int64_max - r))))
             (and_also (r < 0) (map_option (\<lambda>m. l < m) (int64 (int64_min - r))))"

definition sub_overflows :: "int \<Rightarrow> int \<Rightarrow> bool option" where
  "sub_overflows l r =
     or_also (and_also (r > 0) (map_option (\<lambda>m. l < m) (int64 (int64_min + r))))
             (and_also (r < 0) (map_option (\<lambda>m. l > m) (int64 (int64_max + r))))"

definition mul_overflows :: "int \<Rightarrow> int \<Rightarrow> bool option" where
  "mul_overflows l r =
     (if l > 0
      then (if r > 0 then map_option (\<lambda>q. l > q) (int64_div int64_max r)
            else map_option (\<lambda>q. r < q) (int64_div int64_min l))
      else if l < 0
      then (if r > 0 then map_option (\<lambda>q. l < q) (int64_div int64_min r)
            else and_also (r < 0) (map_option (\<lambda>q. r < q) (int64_div int64_max l)))
      else Some False)"

section \<open>Results\<close>

datatype scalar_kernel_status = KS_success | KS_domain_error | KS_invalid_invocation

record scalar_kernel_result =
  kr_status :: scalar_kernel_status
  kr_value :: scalar_value
  kr_error :: error

type_synonym kernel_outcome = "(scalar_kernel_result \<times> host_state) option"

definition start_location :: source_location where
  "start_location = \<lparr>sl_offset = 0, sl_line = 1, sl_column = 1\<rparr>"

definition invalid_kernel_invocation :: scalar_kernel_result where
  "invalid_kernel_invocation =
     \<lparr>kr_status = KS_invalid_invocation, kr_value = empty_scalar_value,
      kr_error = make_error EK_none start_location\<rparr>"

definition successful_kernel :: "scalar_value \<Rightarrow> scalar_kernel_result" where
  "successful_kernel v =
     \<lparr>kr_status = KS_success, kr_value = v, kr_error = make_error EK_none start_location\<rparr>"

definition integer_overflow ::
    "host_state \<Rightarrow> primitive_descriptor \<Rightarrow> primitive_signature \<Rightarrow> scalar_value list
      \<Rightarrow> source_location \<Rightarrow> scalar_kernel_result \<times> host_state" where
  "integer_overflow h descriptor signature operands call_location =
     (case make_primitive_error_context h (pd_name descriptor) (Some (pd_id descriptor)) of
        (context, h') \<Rightarrow>
          (\<lparr>kr_status = KS_domain_error, kr_value = empty_scalar_value,
            kr_error = (make_error EK_domain_error call_location)
              \<lparr>er_primitive := context,
               er_domain := Some
                 \<lparr>de_reason = DE_integer_overflow,
                  de_signature =
                    \<lparr>ssc_parameter_types = map vt_element (ps_parameters signature),
                     ssc_result_type = vt_element (ps_result signature)\<rparr>,
                  de_operands = operands\<rparr>\<rparr>\<rparr>, h'))"

definition signature_belongs_to_descriptor ::
    "primitive_descriptor \<Rightarrow> signature_ref \<Rightarrow> bool" where
  "signature_belongs_to_descriptor descriptor signature =
     list_ex (\<lambda>i. OwnSignature i = signature) [0..<length (pd_signatures descriptor)]"

fun signature_of :: "primitive_descriptor \<Rightarrow> signature_ref \<Rightarrow> primitive_signature option" where
  "signature_of descriptor (OwnSignature i) = at (pd_signatures descriptor) i"
| "signature_of descriptor (ForeignSignature s) = Some s"

section \<open>Kernels\<close>

text \<open>A test for overflow, then the arithmetic on the integers it protects.\<close>

definition checked_kernel ::
    "scalar_kernel_result \<times> host_state \<Rightarrow> host_state \<Rightarrow> bool option \<Rightarrow> int option
      \<Rightarrow> kernel_outcome" where
  "checked_kernel overflow_result h overflow result =
     do {
       overflows \<leftarrow> overflow;
       if overflows then Some overflow_result
       else do {
         v \<leftarrow> result;
         Some (successful_kernel (int_scalar (word_of_int v)), h)
       }
     }"

definition success_bool :: "host_state \<Rightarrow> bool \<Rightarrow> kernel_outcome" where
  "success_bool h b = Some (successful_kernel (bool_scalar b), h)"

definition strict_kernel ::
    "host_state \<Rightarrow> binary64 \<Rightarrow> binary64 \<Rightarrow> strict_binary64_operation \<Rightarrow> kernel_outcome" where
  "strict_kernel h l r operation =
     (case strict_binary64_arithmetic l r operation of
        (ok, result) \<Rightarrow>
          if \<not> ok then Some (invalid_kernel_invocation, h)
          else Some (successful_kernel (double_scalar result), h))"

definition binary64_one :: binary64 where
  "binary64_one = 0x3ff0000000000000"

definition run_integer_kernel ::
    "host_state \<Rightarrow> scalar_kernel_result \<times> host_state \<Rightarrow> primitive_implementation
      \<Rightarrow> int \<Rightarrow> int \<Rightarrow> kernel_outcome" where
  "run_integer_kernel h overflow_result implementation l r =
     (case implementation of
        IM_inc_integer \<Rightarrow>
          checked_kernel overflow_result h (Some (l = int64_max)) (int64 (l + 1))
      | IM_add_integer \<Rightarrow> checked_kernel overflow_result h (add_overflows l r) (int64 (l + r))
      | IM_dec_integer \<Rightarrow>
          checked_kernel overflow_result h (Some (l = int64_min)) (int64 (l - 1))
      | IM_neg_integer \<Rightarrow>
          checked_kernel overflow_result h (Some (l = int64_min)) (int64 (- l))
      | IM_abs_integer \<Rightarrow>
          checked_kernel overflow_result h (Some (l = int64_min))
            (if l < 0 then int64 (- l) else Some l)
      | IM_sub_integer \<Rightarrow> checked_kernel overflow_result h (sub_overflows l r) (int64 (l - r))
      | IM_mul_integer \<Rightarrow> checked_kernel overflow_result h (mul_overflows l r) (int64 (l * r))
      | _ \<Rightarrow> None)"

definition run_kernel ::
    "host_state \<Rightarrow> primitive_descriptor \<Rightarrow> primitive_signature \<Rightarrow> scalar_value list
      \<Rightarrow> source_location \<Rightarrow> kernel_outcome" where
  "run_kernel h descriptor signature operands call_location =
     (let a = operands ! 0; b = operands ! 1;
          integers = (\<lambda>(_ :: unit). run_integer_kernel h
            (integer_overflow h descriptor signature operands call_location)
            (ps_implementation signature) (sint (sv_integer a)) (sint (sv_integer b)))
      in case ps_implementation signature of
        IM_inc_integer \<Rightarrow> integers ()
      | IM_inc_double \<Rightarrow> strict_kernel h (sv_double a) binary64_one SB_add
      | IM_add_integer \<Rightarrow> integers ()
      | IM_add_double \<Rightarrow> strict_kernel h (sv_double a) (sv_double b) SB_add
      | IM_equals_boolean \<Rightarrow> success_bool h (sv_boolean a = sv_boolean b)
      | IM_equals_integer \<Rightarrow> success_bool h (sv_integer a = sv_integer b)
      | IM_equals_double \<Rightarrow> success_bool h (binary64_equal (sv_double a) (sv_double b))
      | IM_logical_not_boolean \<Rightarrow> success_bool h (\<not> sv_boolean a)
      | IM_logical_and_boolean \<Rightarrow> success_bool h (sv_boolean a \<and> sv_boolean b)
      | IM_logical_or_boolean \<Rightarrow> success_bool h (sv_boolean a \<or> sv_boolean b)
      | IM_not_equals_boolean \<Rightarrow> success_bool h (sv_boolean a \<noteq> sv_boolean b)
      | IM_not_equals_integer \<Rightarrow> success_bool h (sv_integer a \<noteq> sv_integer b)
      | IM_not_equals_double \<Rightarrow> success_bool h (\<not> binary64_equal (sv_double a) (sv_double b))
      | IM_odd_integer \<Rightarrow>
          do { m \<leftarrow> int64_mod (sint (sv_integer a)) 2; success_bool h (m \<noteq> 0) }
      | IM_even_integer \<Rightarrow>
          do { m \<leftarrow> int64_mod (sint (sv_integer a)) 2; success_bool h (m = 0) }
      | IM_is_positive_integer \<Rightarrow> success_bool h (sint (sv_integer a) > 0)
      | IM_is_positive_double \<Rightarrow> success_bool h (binary64_is_positive (sv_double a))
      | IM_is_negative_integer \<Rightarrow> success_bool h (sint (sv_integer a) < 0)
      | IM_is_negative_double \<Rightarrow> success_bool h (binary64_is_negative (sv_double a))
      | IM_less_than_integer \<Rightarrow> success_bool h (sint (sv_integer a) < sint (sv_integer b))
      | IM_less_than_double \<Rightarrow> success_bool h (binary64_less_than (sv_double a) (sv_double b))
      | IM_greater_than_integer \<Rightarrow> success_bool h (sint (sv_integer a) > sint (sv_integer b))
      | IM_greater_than_double \<Rightarrow>
          success_bool h (binary64_less_than (sv_double b) (sv_double a))
      | IM_dec_integer \<Rightarrow> integers ()
      | IM_neg_integer \<Rightarrow> integers ()
      | IM_abs_integer \<Rightarrow> integers ()
      | IM_sub_integer \<Rightarrow> integers ()
      | IM_mul_integer \<Rightarrow> integers ()
      | IM_dec_double \<Rightarrow> strict_kernel h (sv_double a) binary64_one SB_subtract
      | IM_neg_double \<Rightarrow>
          Some (successful_kernel (double_scalar (sv_double a XOR push_bit 63 1)), h)
      | IM_abs_double \<Rightarrow>
          Some (successful_kernel (double_scalar (sv_double a AND NOT (push_bit 63 1))), h)
      | IM_sub_double \<Rightarrow> strict_kernel h (sv_double a) (sv_double b) SB_subtract
      | IM_mul_double \<Rightarrow> strict_kernel h (sv_double a) (sv_double b) SB_multiply
      | IM_none \<Rightarrow> Some (invalid_kernel_invocation, h)
      | IM_iota_integer \<Rightarrow> Some (invalid_kernel_invocation, h))"

definition invoke_scalar_kernel ::
    "host_state \<Rightarrow> primitive_descriptor \<Rightarrow> signature_ref \<Rightarrow> scalar_value list
      \<Rightarrow> source_location \<Rightarrow> kernel_outcome" where
  "invoke_scalar_kernel h descriptor signature_ref operands call_location =
     (if pd_lifting descriptor \<noteq> LM_elementwise
         \<or> \<not> signature_belongs_to_descriptor descriptor signature_ref
      then Some (invalid_kernel_invocation, h)
      else do {
        signature \<leftarrow> signature_of descriptor signature_ref;
        if \<not> implementation_matches (pd_id descriptor) signature
           \<or> length (ps_parameters signature) \<noteq> length operands
           \<or> vt_container (ps_result signature) \<noteq> CK_scalar
        then Some (invalid_kernel_invocation, h)
        else if list_ex (\<lambda>i. \<not> valid_scalar (operands ! i)
                            \<or> sv_type (operands ! i) \<noteq> vt_element (ps_parameters signature ! i))
                  [0..<length operands]
        then Some (invalid_kernel_invocation, h)
        else run_kernel h descriptor signature operands call_location
      })"

section \<open>Checked arithmetic is exact\<close>

locale checked_arithmetic =
  fixes exact :: "int \<Rightarrow> int \<Rightarrow> int"
    and overflows :: "int \<Rightarrow> int \<Rightarrow> bool option"
    and result :: "int \<Rightarrow> int \<Rightarrow> int option"
  assumes overflows_iff:
      "in_int64 l \<Longrightarrow> in_int64 r \<Longrightarrow> overflows l r = Some (\<not> in_int64 (exact l r))"
    and result_exact:
      "in_int64 l \<Longrightarrow> in_int64 r \<Longrightarrow> in_int64 (exact l r) \<Longrightarrow> result l r = Some (exact l r)"
begin

lemma checked:
  assumes "in_int64 l" "in_int64 r"
  shows "checked_kernel o_result h (overflows l r) (result l r) =
    Some (if in_int64 (exact l r)
          then (successful_kernel (int_scalar (word_of_int (exact l r))), h) else o_result)"
  using overflows_iff [OF assms] result_exact [OF assms]
  by (simp add: checked_kernel_def)

end

lemma int64_range [simp]: "in_int64 (sint (v :: i64))"
  using sint_range_size [of v]
  by (auto simp: in_int64_def int64_min_def int64_max_def word_size)

interpretation inc_kernel: checked_arithmetic "\<lambda>l r. l + 1" "\<lambda>l r. Some (l = int64_max)"
    "\<lambda>l r. int64 (l + 1)"
  by unfold_locales (auto simp: in_int64_def int64_def int64_min_def int64_max_def)

interpretation dec_kernel: checked_arithmetic "\<lambda>l r. l - 1" "\<lambda>l r. Some (l = int64_min)"
    "\<lambda>l r. int64 (l - 1)"
  by unfold_locales (auto simp: in_int64_def int64_def int64_min_def int64_max_def)

interpretation neg_kernel: checked_arithmetic "\<lambda>l r. - l" "\<lambda>l r. Some (l = int64_min)"
    "\<lambda>l r. int64 (- l)"
  by unfold_locales (auto simp: in_int64_def int64_def int64_min_def int64_max_def)

interpretation abs_kernel: checked_arithmetic "\<lambda>l r. \<bar>l\<bar>" "\<lambda>l r. Some (l = int64_min)"
    "\<lambda>l r. if l < 0 then int64 (- l) else Some l"
  by unfold_locales (auto simp: in_int64_def int64_def int64_min_def int64_max_def)

interpretation add_kernel: checked_arithmetic "\<lambda>l r. l + r" add_overflows "\<lambda>l r. int64 (l + r)"
  by unfold_locales
     (auto simp: in_int64_def int64_def int64_min_def int64_max_def add_overflows_def
        and_also_def or_also_def)

interpretation sub_kernel: checked_arithmetic "\<lambda>l r. l - r" sub_overflows "\<lambda>l r. int64 (l - r)"
  by unfold_locales
     (auto simp: in_int64_def int64_def int64_min_def int64_max_def sub_overflows_def
        and_also_def or_also_def)

text \<open>Truncating division, by the signs of its arguments.\<close>

lemma sdiv_signs:
  fixes a b :: int
  shows "0 \<le> a \<Longrightarrow> 0 < b \<Longrightarrow> a sdiv b = a div b"
    and "a \<le> 0 \<Longrightarrow> 0 < b \<Longrightarrow> a sdiv b = - ((- a) div b)"
    and "0 \<le> a \<Longrightarrow> b < 0 \<Longrightarrow> a sdiv b = - (a div (- b))"
  by (auto simp: signed_divide_int_def sgn_if)

lemma div_less_iff:
  fixes a b m :: int
  assumes "0 < b"
  shows "m div b < a \<longleftrightarrow> m < a * b"
proof
  assume "m div b < a"
  then have "(m div b + 1) * b \<le> a * b" using assms by (intro mult_right_mono) auto
  moreover have "m mod b < b" using assms by simp
  moreover have "(m div b + 1) * b = m div b * b + b" by (simp add: distrib_right)
  moreover have "m = m div b * b + m mod b" by simp
  ultimately show "m < a * b" by linarith
next
  assume m: "m < a * b"
  show "m div b < a"
  proof (rule ccontr)
    assume "\<not> m div b < a"
    then have "a * b \<le> m div b * b" using assms by (intro mult_right_mono) auto
    moreover have "0 \<le> m mod b" using assms by simp
    ultimately show False using m div_mult_mod_eq [of m b] by linarith
  qed
qed

lemma quotient_bounds_int: "0 \<le> m \<Longrightarrow> 0 < b \<Longrightarrow> 0 \<le> m div b \<and> m div b \<le> m" for m b :: int
  by (cases "m = 0") (auto simp: pos_imp_zdiv_nonneg_iff int_div_le_self)

lemma int64_min_nonpos: "int64_min \<le> 0"
  by (simp add: int64_min_def)

lemma mul_overflows_exact:
  assumes "in_int64 l" "in_int64 r"
  shows "mul_overflows l r = Some (\<not> in_int64 (l * r))"
proof -
  have max_div: "int64_div int64_max b = Some (int64_max div b)" if "0 < b" for b
    using quotient_bounds_int [of int64_max b] that
    by (auto simp: int64_div_def sdiv_signs int64_def in_int64_def int64_min_def int64_max_def)
  have max_div_minus: "int64_div int64_max b = Some (- (int64_max div (- b)))" if "b < 0" for b
    using quotient_bounds_int [of int64_max "- b"] that
    by (auto simp: int64_div_def sdiv_signs int64_def in_int64_def int64_min_def int64_max_def)
  have min_div: "int64_div int64_min b = Some (- (2 ^ 63 div b))" if "0 < b" for b
    using quotient_bounds_int [of "2 ^ 63" b] that
    by (auto simp: int64_div_def sdiv_signs int64_def in_int64_def int64_min_def int64_max_def)
  consider "0 < l" "0 < r" | "0 < l" "r \<le> 0" | "l < 0" "0 < r" | "l < 0" "r < 0"
    | "l = 0 \<or> r = 0" by linarith
  then show ?thesis
  proof cases
    case 1
    have "0 < l * r" using 1 by simp
    then have lower: "int64_min \<le> l * r" using int64_min_nonpos by linarith
    then show ?thesis
      using 1 lower div_less_iff [of r int64_max l]
      by (auto simp: mul_overflows_def max_div in_int64_def)
  next
    case 2
    have "l * r \<le> 0" using 2 by (simp add: mult_nonneg_nonpos)
    then show ?thesis
      using 2 \<open>l * r \<le> 0\<close> div_less_iff [of l "2 ^ 63" "- r"]
      min_div [OF \<open>0 < l\<close>]
      unfolding mul_overflows_def
      by (auto simp: in_int64_def int64_min_def int64_max_def
          algebra_simps)
  next
    case 3
    have "l * r < 0" using 3 by (simp add: mult_neg_pos)
    then show ?thesis
      using 3 \<open>l * r < 0\<close> div_less_iff [of r "2 ^ 63" "- l"]
      min_div [OF \<open>0 < r\<close>]
      unfolding mul_overflows_def
      by (auto simp: in_int64_def int64_min_def int64_max_def
          algebra_simps)
  next
    case 4
    have "0 < l * r" using 4 by (simp add: mult_neg_neg)
    then have lower: "int64_min \<le> l * r" using int64_min_nonpos by linarith
    then show ?thesis
      using 4 lower div_less_iff [of "- l" int64_max "- r"]
      by (auto simp: mul_overflows_def and_also_def max_div_minus in_int64_def
          algebra_simps)
  next
    case 5
    have "0 \<le> 2 ^ 63 div l" if "0 < l" using that by (simp add: pos_imp_zdiv_nonneg_iff)
    then show ?thesis
      using 5 min_div [of l] unfolding mul_overflows_def
      by (auto simp: and_also_def in_int64_def int64_min_def int64_max_def)
  qed
qed

interpretation mul_kernel: checked_arithmetic "\<lambda>l r. l * r" mul_overflows "\<lambda>l r. int64 (l * r)"
  by unfold_locales (simp_all add: mul_overflows_exact int64_def)

end
