(* ===== verification/KernelsCorrect.thy ===== *)
theory KernelsCorrect
  imports Kernels
begin

text \<open>
  Correctness of the scalar kernels: what each implementation computes, in numbers, and
  that a call that passes the argument checks never meets undefined behaviour and always
  returns a valid scalar of the signature's result type or an overflow error.
\<close>

section \<open>The argument checks\<close>

definition conforming :: "scalar_value list \<Rightarrow> primitive_signature \<Rightarrow> bool" where
  "conforming operands signature \<longleftrightarrow>
     list_all2 (\<lambda>v p. valid_scalar v \<and> sv_type v = vt_element p) operands
       (ps_parameters signature)"

lemma belongs_iff:
  "signature_belongs_to_descriptor d r \<longleftrightarrow> (\<exists>i < length (pd_signatures d). r = OwnSignature i)"
  by (auto simp: signature_belongs_to_descriptor_def list_ex_iff)

text \<open>The kernels run exactly on an elementwise primitive's own signature with operands of
  its parameter types; every other call is refused and has no effect.\<close>

lemma invoke_scalar_kernel_guard:
  assumes "well_formed_descriptor d"
  shows "invoke_scalar_kernel h d r operands loc =
    (case signature_of d r of
       Some s \<Rightarrow>
         (if pd_lifting d = LM_elementwise \<and> (\<exists>i. r = OwnSignature i) \<and> conforming operands s
          then run_kernel h d s operands loc else Some (invalid_kernel_invocation, h))
     | None \<Rightarrow> Some (invalid_kernel_invocation, h))"
proof (cases "pd_lifting d = LM_elementwise \<and> signature_belongs_to_descriptor d r")
  case True
  then obtain i where i: "i < length (pd_signatures d)" "r = OwnSignature i"
    by (auto simp: belongs_iff)
  let ?s = "pd_signatures d ! i"
  have s: "implementation_matches (pd_id d) ?s" "vt_container (ps_result ?s) = CK_scalar"
    using assms True i by (auto simp: well_formed_descriptor_def)
  have "conforming operands ?s \<longleftrightarrow> length (ps_parameters ?s) = length operands \<and>
      \<not> list_ex (\<lambda>i. \<not> valid_scalar (operands ! i)
                    \<or> sv_type (operands ! i) \<noteq> vt_element (ps_parameters ?s ! i))
          [0..<length operands]"
    by (auto simp: conforming_def list_all2_conv_all_nth list_ex_iff)
  then show ?thesis
    using True i s by (simp add: invoke_scalar_kernel_def)
next
  case False
  then show ?thesis
    by (cases r) (auto simp: invoke_scalar_kernel_def belongs_iff at_def)
qed

section \<open>What the kernels mean\<close>

text \<open>The exact result of the integer arithmetic of an implementation.\<close>

definition integer_meaning :: "primitive_implementation \<Rightarrow> int list \<Rightarrow> int option" where
  "integer_meaning im xs =
     (case im of
        IM_inc_integer \<Rightarrow> Some (xs ! 0 + 1)
      | IM_dec_integer \<Rightarrow> Some (xs ! 0 - 1)
      | IM_neg_integer \<Rightarrow> Some (- (xs ! 0))
      | IM_abs_integer \<Rightarrow> Some \<bar>xs ! 0\<bar>
      | IM_add_integer \<Rightarrow> Some (xs ! 0 + xs ! 1)
      | IM_sub_integer \<Rightarrow> Some (xs ! 0 - xs ! 1)
      | IM_mul_integer \<Rightarrow> Some (xs ! 0 * xs ! 1)
      | _ \<Rightarrow> None)"

definition numeric_less :: "binary64 \<Rightarrow> binary64 \<Rightarrow> bool" where
  "numeric_less a b \<longleftrightarrow>
     \<not> binary64_is_nan a \<and> \<not> binary64_is_nan b \<and> signed_units a < signed_units b"

definition numeric_equal :: "binary64 \<Rightarrow> binary64 \<Rightarrow> bool" where
  "numeric_equal a b \<longleftrightarrow>
     \<not> binary64_is_nan a \<and> \<not> binary64_is_nan b \<and> signed_units a = signed_units b"

definition predicate_meaning :: "primitive_implementation \<Rightarrow> scalar_value list \<Rightarrow> bool option" where
  "predicate_meaning im vs =
     (let a = vs ! 0; b = vs ! 1; x = sint (sv_integer a); y = sint (sv_integer b) in
      case im of
        IM_equals_boolean \<Rightarrow> Some (sv_boolean a \<longleftrightarrow> sv_boolean b)
      | IM_not_equals_boolean \<Rightarrow> Some (\<not> (sv_boolean a \<longleftrightarrow> sv_boolean b))
      | IM_logical_not_boolean \<Rightarrow> Some (\<not> sv_boolean a)
      | IM_logical_and_boolean \<Rightarrow> Some (sv_boolean a \<and> sv_boolean b)
      | IM_logical_or_boolean \<Rightarrow> Some (sv_boolean a \<or> sv_boolean b)
      | IM_equals_integer \<Rightarrow> Some (x = y)
      | IM_not_equals_integer \<Rightarrow> Some (x \<noteq> y)
      | IM_less_than_integer \<Rightarrow> Some (x < y)
      | IM_greater_than_integer \<Rightarrow> Some (y < x)
      | IM_odd_integer \<Rightarrow> Some (odd x)
      | IM_even_integer \<Rightarrow> Some (even x)
      | IM_is_positive_integer \<Rightarrow> Some (0 < x)
      | IM_is_negative_integer \<Rightarrow> Some (x < 0)
      | IM_equals_double \<Rightarrow> Some (numeric_equal (sv_double a) (sv_double b))
      | IM_not_equals_double \<Rightarrow> Some (\<not> numeric_equal (sv_double a) (sv_double b))
      | IM_less_than_double \<Rightarrow> Some (numeric_less (sv_double a) (sv_double b))
      | IM_greater_than_double \<Rightarrow> Some (numeric_less (sv_double b) (sv_double a))
      | IM_is_positive_double \<Rightarrow> Some (numeric_less 0 (sv_double a))
      | IM_is_negative_double \<Rightarrow> Some (numeric_less (sv_double a) 0)
      | _ \<Rightarrow> None)"

text \<open>The strict operation and the operands of a double implementation.\<close>

definition strict_meaning ::
    "primitive_implementation \<Rightarrow> binary64 list \<Rightarrow>
      (binary64 \<times> binary64 \<times> strict_binary64_operation) option" where
  "strict_meaning im xs =
     (case im of
        IM_inc_double \<Rightarrow> Some (xs ! 0, binary64_one, SB_add)
      | IM_dec_double \<Rightarrow> Some (xs ! 0, binary64_one, SB_subtract)
      | IM_add_double \<Rightarrow> Some (xs ! 0, xs ! 1, SB_add)
      | IM_sub_double \<Rightarrow> Some (xs ! 0, xs ! 1, SB_subtract)
      | IM_mul_double \<Rightarrow> Some (xs ! 0, xs ! 1, SB_multiply)
      | _ \<Rightarrow> None)"

lemma run_integer_kernel_exact:
  assumes "integer_meaning im [l, r] = Some x" "in_int64 l" "in_int64 r"
  shows "run_integer_kernel h o_result im l r =
    Some (if in_int64 x then (successful_kernel (int_scalar (word_of_int x)), h) else o_result)"
  using assms(1)
  by (cases im)
     (auto simp: integer_meaning_def run_integer_kernel_def
        inc_kernel.checked [OF assms(2,3)] dec_kernel.checked [OF assms(2,3)]
        neg_kernel.checked [OF assms(2,3)] abs_kernel.checked [OF assms(2,3)]
        add_kernel.checked [OF assms(2,3)] sub_kernel.checked [OF assms(2,3)]
        mul_kernel.checked [OF assms(2,3)])

lemma integer_meaning_take:
  assumes "integer_meaning im (map f vs) = Some x" "implementation_matches pid s"
    and "conforming vs s" "ps_implementation s = im"
  shows "integer_meaning im [f (vs ! 0), f (vs ! 1)] = Some x"
  using assms
  by (cases im)
     (auto simp: integer_meaning_def conforming_def implementation_matches_def
        scalar_parameters_match_iff list_all2_Cons2)

lemma signed_units_0 [simp]: "signed_units 0 = 0" "\<not> binary64_is_nan 0"
  by (simp_all add: signed_units_def magnitude_code_def is_minus_def units_def
      binary64_is_nan_def binary64_exponent_mask_def)

lemma smod_2_even: "a smod 2 = 0 \<longleftrightarrow> even a" for a :: int
proof -
  have "a smod 2 = sgn a * (\<bar>a\<bar> mod 2)" by (simp add: signed_modulo_int_def)
  then have "a smod 2 = 0 \<longleftrightarrow> a = 0 \<or> \<bar>a\<bar> mod 2 = 0" by (simp add: sgn_0_0)
  then show ?thesis by (auto simp: even_iff_mod_2_eq_zero [symmetric])
qed

lemma parity_defined: "in_int64 a \<Longrightarrow> int64_mod a 2 = Some (a smod 2)"
  by (cases "0 \<le> a")
     (auto simp: int64_mod_def int64_def in_int64_def int64_min_def int64_max_def sdiv_signs)

lemma i64_eq_iff: "v = w \<longleftrightarrow> sint v = sint w" for v w :: i64
  by (metis signed_word_eqI)

lemma run_predicate_kernel:
  assumes "predicate_meaning (ps_implementation s) vs = Some b"
  shows "run_kernel h d s vs loc = Some (successful_kernel (bool_scalar b), h)"
  using assms
  by (cases "ps_implementation s")
     (auto simp: predicate_meaning_def run_kernel_def success_bool_def Let_def
        numeric_less_def numeric_equal_def binary64_less_than_numeric binary64_equal_numeric
        binary64_sign_numeric parity_defined smod_2_even i64_eq_iff)

lemma run_strict_kernel:
  assumes "strict_meaning (ps_implementation s) (map sv_double vs) = Some (a, b, op)"
    and "0 < length vs" "ps_implementation s \<in> {IM_add_double, IM_sub_double, IM_mul_double} \<longrightarrow> 1 < length vs"
  shows "run_kernel h d s vs loc =
    Some (successful_kernel (double_scalar (snd (strict_binary64_arithmetic a b op))), h)"
proof -
  have "fst (strict_binary64_arithmetic a b op)" by (rule strict_arithmetic_canonical)
  then show ?thesis
    using assms
    by (cases "ps_implementation s")
       (auto simp: strict_meaning_def run_kernel_def strict_kernel_def Let_def
          split: prod.splits)
qed


lemma sint_of_int64: "in_int64 x \<Longrightarrow> sint (word_of_int x :: i64) = x"
  by (simp add: in_int64_def int64_min_def int64_max_def sint_sbintrunc' signed_take_bit_int_eq_self)

lemma integer_overflow_fields:
  assumes "integer_overflow h d s operands loc = (r, h')"
  shows "kr_status r = KS_domain_error \<and> er_kind (kr_error r) = EK_domain_error \<and>
    er_location (kr_error r) = loc \<and>
    er_domain (kr_error r) = Some
      \<lparr>de_reason = DE_integer_overflow,
       de_signature = \<lparr>ssc_parameter_types = map vt_element (ps_parameters s),
                       ssc_result_type = vt_element (ps_result s)\<rparr>,
       de_operands = operands\<rparr> \<and>
    (\<forall>context. er_primitive (kr_error r) = Some context \<longrightarrow>
       pec_name context = pd_name d \<and> pec_id context = Some (pd_id d))"
proof -
  obtain c h1 where c: "make_primitive_error_context h (pd_name d) (Some (pd_id d)) = (c, h1)"
    by fastforce
  show ?thesis
    using assms c make_primitive_error_context_name [of h "pd_name d" "Some (pd_id d)" _ h1]
    by (auto simp: integer_overflow_def make_error_def make_error_message_def)
qed

lemma run_integer_arithmetic:
  assumes "integer_meaning (ps_implementation s) (map (\<lambda>v. sint (sv_integer v)) vs) = Some x"
    and "implementation_matches pid s" "conforming vs s"
  shows "run_kernel h d s vs loc =
    Some (if in_int64 x then (successful_kernel (int_scalar (word_of_int x)), h)
          else integer_overflow h d s vs loc)"
proof -
  let ?im = "ps_implementation s"
  let ?l = "sint (sv_integer (vs ! 0))" and ?r = "sint (sv_integer (vs ! 1))"
  have x: "integer_meaning ?im [?l, ?r] = Some x"
    using integer_meaning_take [OF assms(1,2,3) refl] .
  have "run_kernel h d s vs loc =
      run_integer_kernel h (integer_overflow h d s vs loc) ?im ?l ?r"
    using x by (cases ?im) (simp_all add: integer_meaning_def run_kernel_def Let_def)
  then show ?thesis using run_integer_kernel_exact [OF x] by simp
qed

text \<open>C21: the integer kernels are exact. Called on an own signature of a well-formed
  elementwise primitive with conforming operands, \<open>inc\<close>, \<open>dec\<close>, \<open>neg\<close>, \<open>abs\<close>,
  \<open>add\<close>, \<open>sub\<close> and \<open>mul\<close> return the mathematical result whenever it is a 64-bit
  integer, and otherwise report a domain error at the call's location that holds the
  operands and the signature and, where its allocation was granted, the primitive's name;
  no intermediate computation of the overflow tests overflows or divides by zero.\<close>

theorem integer_kernels_exact:
  assumes "well_formed_descriptor d" "pd_lifting d = LM_elementwise"
    and "i < length (pd_signatures d)" "s = pd_signatures d ! i" "conforming operands s"
    and "integer_meaning (ps_implementation s) (map (\<lambda>v. sint (sv_integer v)) operands) = Some x"
  shows "\<exists>r h'. invoke_scalar_kernel h d (OwnSignature i) operands loc = Some (r, h') \<and>
    (if in_int64 x
     then kr_status r = KS_success \<and> h' = h \<and> sv_type (kr_value r) = ST_integer \<and>
          sint (sv_integer (kr_value r)) = x
     else kr_status r = KS_domain_error \<and> er_kind (kr_error r) = EK_domain_error \<and>
          er_location (kr_error r) = loc \<and>
          er_domain (kr_error r) = Some
            \<lparr>de_reason = DE_integer_overflow,
             de_signature = \<lparr>ssc_parameter_types = map vt_element (ps_parameters s),
                             ssc_result_type = vt_element (ps_result s)\<rparr>,
             de_operands = operands\<rparr> \<and>
          (\<forall>context. er_primitive (kr_error r) = Some context \<longrightarrow>
             pec_name context = pd_name d \<and> pec_id context = Some (pd_id d)))"
proof -
  have "implementation_matches (pd_id d) s"
    using assms(1,3,4) by (auto simp: well_formed_descriptor_def)
  from run_integer_arithmetic [OF assms(6) this assms(5)]
  have "invoke_scalar_kernel h d (OwnSignature i) operands loc =
      Some (if in_int64 x then (successful_kernel (int_scalar (word_of_int x)), h)
            else integer_overflow h d s operands loc)"
    using invoke_scalar_kernel_guard [OF assms(1)] assms(2-5) by simp
  then show ?thesis
    using integer_overflow_fields [of h d s operands loc] sint_of_int64
    by (cases "in_int64 x"; cases "integer_overflow h d s operands loc")
       (auto simp: successful_kernel_def)
qed

text \<open>\<open>mul\<close> on the two integers whose product is one above the range.\<close>

theorem integer_kernels_exact_witness:
  "\<exists>r h'. invoke_scalar_kernel sample_host (production_descriptors ! 18) (OwnSignature 0)
     [int_scalar (word_of_int (2 ^ 32)), int_scalar (word_of_int (2 ^ 31))] start_location =
       Some (r, h') \<and> kr_status r = KS_domain_error"
proof -
  let ?d = "production_descriptors ! 18"
  let ?ops = "[int_scalar (word_of_int (2 ^ 32)), int_scalar (word_of_int (2 ^ 31))]"
  have wf: "well_formed_descriptor ?d"
    by (rule production_descriptor_well_formed) (simp add: production_descriptors_def)
  have d: "?d = make_descriptor PI_mul ''mul'' LM_elementwise mul_signatures"
    by (simp add: production_descriptors_def)
  have s: "pd_signatures ?d ! 0 = make_signature int_parameters scalar_int IM_mul_integer"
    unfolding d by (simp add: make_descriptor_def mul_signatures_def)
  have "conforming ?ops (pd_signatures ?d ! 0)"
    unfolding s by (simp add: conforming_def make_signature_def parameter_lists)
  moreover have "integer_meaning (ps_implementation (pd_signatures ?d ! 0))
      (map (\<lambda>v. sint (sv_integer v)) ?ops) = Some (2 ^ 63)"
    unfolding s by (simp add: integer_meaning_def make_signature_def)
  moreover have "\<not> in_int64 (2 ^ 63)" by (simp add: in_int64_def int64_max_def)
  ultimately show ?thesis
    using integer_kernels_exact [OF wf _ _ refl, of 0 ?ops "2 ^ 63" sample_host start_location]
    unfolding d by (auto simp: make_descriptor_def mul_signatures_def)
qed

text \<open>C39: the predicate kernels decide what their names say: comparisons, parity and sign tests
  are those of the numbers the operands stand for, a NaN being unequal to everything and
  neither less, greater, positive nor negative, and the logical kernels are the logical
  operations.\<close>

theorem predicate_kernels_decide:
  assumes "well_formed_descriptor d" "pd_lifting d = LM_elementwise"
    and "i < length (pd_signatures d)" "s = pd_signatures d ! i" "conforming operands s"
    and "predicate_meaning (ps_implementation s) operands = Some b"
  shows "invoke_scalar_kernel h d (OwnSignature i) operands loc =
    Some (successful_kernel (bool_scalar b), h)"
  using invoke_scalar_kernel_guard [OF assms(1)] assms(2-5) run_predicate_kernel [OF assms(6)]
  by simp

text \<open>\<open>odd\<close> of a negative odd number, where the remainder of the code is -1.\<close>

theorem predicate_kernels_decide_witness:
  "invoke_scalar_kernel sample_host (production_descriptors ! 8) (OwnSignature 0)
     [int_scalar (word_of_int (- 7))] start_location =
   Some (successful_kernel (bool_scalar True), sample_host)"
proof -
  let ?d = "production_descriptors ! 8"
  let ?ops = "[int_scalar (word_of_int (- 7))]"
  have wf: "well_formed_descriptor ?d"
    by (rule production_descriptor_well_formed) (simp add: production_descriptors_def)
  have d: "?d = make_descriptor PI_odd ''odd'' LM_elementwise odd_signatures"
    by (simp add: production_descriptors_def)
  have s: "pd_signatures ?d ! 0 = make_signature int_parameter scalar_bool IM_odd_integer"
    unfolding d by (simp add: make_descriptor_def odd_signatures_def)
  have "conforming ?ops (pd_signatures ?d ! 0)"
    unfolding s by (simp add: conforming_def make_signature_def parameter_lists)
  moreover have "predicate_meaning (ps_implementation (pd_signatures ?d ! 0)) ?ops = Some True"
    unfolding s by (simp add: predicate_meaning_def make_signature_def sint_of_int64 in_int64_def
        int64_min_def int64_max_def)
  ultimately show ?thesis
    using predicate_kernels_decide [OF wf _ _ refl, of 0 ?ops True sample_host start_location]
    unfolding d by (simp add: make_descriptor_def odd_signatures_def)
qed


text \<open>The sign kernels of doubles.\<close>

definition sign_meaning :: "primitive_implementation \<Rightarrow> bool \<Rightarrow> bool option" where
  "sign_meaning im minus_sign =
     (case im of IM_neg_double \<Rightarrow> Some (\<not> minus_sign) | IM_abs_double \<Rightarrow> Some False | _ \<Rightarrow> None)"

lemma run_sign_kernel:
  assumes "sign_meaning (ps_implementation s) (is_minus (sv_double (vs ! 0))) = Some n"
  shows "\<exists>r. run_kernel h d s vs loc = Some (successful_kernel (double_scalar r), h) \<and>
    is_minus r = n \<and> magnitude_code r = magnitude_code (sv_double (vs ! 0))"
proof -
  let ?v = "sv_double (vs ! 0)"
  have mask: "push_bit 63 1 = binary64_sign_bit"
    by (simp add: binary64_sign_bit_def)
  from assms consider "ps_implementation s = IM_neg_double" "n = (\<not> is_minus ?v)"
    | "ps_implementation s = IM_abs_double" "\<not> n"
    by (cases "ps_implementation s") (auto simp: sign_meaning_def)
  then show ?thesis
  proof cases
    case 1
    then have "run_kernel h d s vs loc =
        Some (successful_kernel (double_scalar (?v XOR binary64_sign_bit)), h)"
      unfolding mask [symmetric] by (simp add: run_kernel_def)
    then show ?thesis using 1 flip_sign_parts by blast
  next
    case 2
    then have "run_kernel h d s vs loc =
        Some (successful_kernel (double_scalar (?v AND NOT binary64_sign_bit)), h)"
      unfolding mask [symmetric] by (simp add: run_kernel_def)
    then show ?thesis using 2 clear_sign_parts by blast
  qed
qed

lemma strict_operand_count:
  assumes "strict_meaning (ps_implementation s) xs = Some (a, b, op)"
    and "implementation_matches pid s" "conforming operands s"
  shows "0 < length operands"
    and "ps_implementation s \<in> {IM_add_double, IM_sub_double, IM_mul_double} \<longrightarrow>
      1 < length operands"
  using assms
  by (cases "ps_implementation s";
      auto simp: strict_meaning_def conforming_def implementation_matches_def
        scalar_parameters_match_iff list_all2_Cons2)+

text \<open>C38: the double kernels. The arithmetic kernels return the strict IEEE result of the
  operation their name says, \<open>inc\<close> and \<open>dec\<close> with the other operand 1; \<open>neg\<close>
  and \<open>abs\<close> change only the sign, so that a zero, an infinity and a subnormal keep their
  magnitude; a NaN result is always the canonical one. None of them can fail.\<close>

theorem double_kernels_compute:
  assumes "well_formed_descriptor d" "pd_lifting d = LM_elementwise"
    and "i < length (pd_signatures d)" "s = pd_signatures d ! i" "conforming operands s"
  shows
    "(strict_meaning (ps_implementation s) (map sv_double operands) = Some (a, b, op) \<longrightarrow>
        invoke_scalar_kernel h d (OwnSignature i) operands loc =
          Some (successful_kernel (double_scalar (snd (strict_binary64_arithmetic a b op))), h)) \<and>
     (sign_meaning (ps_implementation s) (is_minus (sv_double (operands ! 0))) = Some n \<longrightarrow>
        (\<exists>r. invoke_scalar_kernel h d (OwnSignature i) operands loc =
               Some (successful_kernel (double_scalar r), h) \<and>
             is_minus r = n \<and> magnitude_code r = magnitude_code (sv_double (operands ! 0))))"
proof -
  have run: "invoke_scalar_kernel h d (OwnSignature i) operands loc =
      run_kernel h d s operands loc"
    using invoke_scalar_kernel_guard [OF assms(1)] assms(2-5) by simp
  have m: "implementation_matches (pd_id d) s"
    using assms(1,3,4) by (auto simp: well_formed_descriptor_def)
  show ?thesis
    unfolding run
    by (intro conjI impI)
       (use run_strict_kernel strict_operand_count [OF _ m assms(5)] in blast,
        erule run_sign_kernel)
qed

text \<open>\<open>neg\<close> of positive zero is negative zero.\<close>

theorem double_kernels_compute_witness:
  "\<exists>r. invoke_scalar_kernel sample_host (production_descriptors ! 15) (OwnSignature 1)
     [double_scalar 0] start_location = Some (successful_kernel (double_scalar r), sample_host) \<and>
     is_minus r \<and> magnitude_code r = 0"
proof -
  let ?d = "production_descriptors ! 15"
  let ?ops = "[double_scalar 0]"
  have wf: "well_formed_descriptor ?d"
    by (rule production_descriptor_well_formed) (simp add: production_descriptors_def)
  have d: "?d = make_descriptor PI_neg ''neg'' LM_elementwise neg_signatures"
    by (simp add: production_descriptors_def)
  have s: "pd_signatures ?d ! 1 = make_signature double_parameter scalar_double IM_neg_double"
    unfolding d by (simp add: make_descriptor_def neg_signatures_def)
  have zero: "normalize_double 0 = 0" "magnitude_code 0 = 0" "\<not> is_minus 0"
    by (simp_all add: normalize_double_eq magnitude_code_def is_minus_def)
  have "conforming ?ops (pd_signatures ?d ! 1)"
    unfolding s by (simp add: conforming_def make_signature_def parameter_lists)
  moreover have "sign_meaning (ps_implementation (pd_signatures ?d ! 1))
      (is_minus (sv_double (?ops ! 0))) = Some True"
    unfolding s by (simp add: sign_meaning_def make_signature_def zero)
  ultimately show ?thesis
    using double_kernels_compute [OF wf _ _ refl, of 1 ?ops 0 0 SB_add sample_host start_location True]
    unfolding d by (auto simp: make_descriptor_def neg_signatures_def zero)
qed

text \<open>Every implementation of an elementwise signature has a meaning.\<close>

lemma meaning_exhaustive:
  assumes "implementation_matches pid s" "vt_container (ps_result s) = CK_scalar"
  obtains (integers) x where "integer_meaning (ps_implementation s) xs = Some x"
      "vt_element (ps_result s) = ST_integer"
  | (predicate) b where "predicate_meaning (ps_implementation s) vs = Some b"
      "vt_element (ps_result s) = ST_boolean"
  | (strict) a b op where "strict_meaning (ps_implementation s) ds = Some (a, b, op)"
      "vt_element (ps_result s) = ST_double_precision"
  | (sign) n where "sign_meaning (ps_implementation s) m = Some n"
      "vt_element (ps_result s) = ST_double_precision"
  using assms
  by (cases "ps_implementation s")
     (auto simp: implementation_matches_def scalar_parameters_match_iff integer_meaning_def
        predicate_meaning_def strict_meaning_def sign_meaning_def Let_def)

text \<open>A kernel that runs returns.\<close>

lemma run_kernel_sound:
  assumes "implementation_matches pid s" "vt_container (ps_result s) = CK_scalar"
    and "conforming operands s"
  shows "\<exists>r h'. run_kernel h d s operands loc = Some (r, h') \<and>
      kr_status r \<noteq> KS_invalid_invocation \<and> (kr_status r \<noteq> KS_domain_error \<longrightarrow> h' = h) \<and>
      (kr_status r = KS_success \<longrightarrow> valid_scalar (kr_value r) \<and>
         sv_type (kr_value r) = vt_element (ps_result s))"
proof (cases rule: meaning_exhaustive [OF assms(1,2),
      where xs = "map (\<lambda>v. sint (sv_integer v)) operands" and vs = operands
        and ds = "map sv_double operands" and m = "is_minus (sv_double (operands ! 0))",
      case_names integers predicate strict sign])
  case (integers x)
  then show ?thesis
    using run_integer_arithmetic [OF integers(1) assms(1,3)]
      integer_overflow_fields [of h d s operands loc]
    by (cases "integer_overflow h d s operands loc")
       (auto simp: successful_kernel_def)
next
  case (predicate b)
  then show ?thesis
    using run_predicate_kernel [OF predicate(1)] by (auto simp: successful_kernel_def)
next
  case (strict a b op)
  then show ?thesis
    using run_strict_kernel [OF strict(1) strict_operand_count [OF strict(1) assms(1,3)], of h d loc]
    by (auto simp: successful_kernel_def)
next
  case (sign n)
  then show ?thesis
    using run_sign_kernel [OF sign(1), of h d loc] by (auto simp: successful_kernel_def)
qed

lemma invoke_scalar_kernel_sound:
  assumes "well_formed_descriptor d"
  shows "\<exists>r h'. invoke_scalar_kernel h d sig operands loc = Some (r, h') \<and>
    (kr_status r = KS_invalid_invocation \<longleftrightarrow>
       \<not> (pd_lifting d = LM_elementwise \<and>
          (\<exists>i < length (pd_signatures d). sig = OwnSignature i \<and>
             conforming operands (pd_signatures d ! i)))) \<and>
    (kr_status r \<noteq> KS_domain_error \<longrightarrow> h' = h) \<and>
    (kr_status r = KS_success \<longrightarrow> valid_scalar (kr_value r) \<and>
       (\<exists>s. signature_of d sig = Some s \<and> sv_type (kr_value r) = vt_element (ps_result s)))"
proof (cases "pd_lifting d = LM_elementwise \<and>
          (\<exists>i < length (pd_signatures d). sig = OwnSignature i \<and>
             conforming operands (pd_signatures d ! i))")
  case False
  then have "invoke_scalar_kernel h d sig operands loc = Some (invalid_kernel_invocation, h)"
    unfolding invoke_scalar_kernel_guard [OF assms]
    by (cases sig) (auto simp: at_def)
  then show ?thesis using False by (auto simp: invalid_kernel_invocation_def)
next
  case True
  then obtain i where i: "pd_lifting d = LM_elementwise" "i < length (pd_signatures d)"
    "sig = OwnSignature i" "conforming operands (pd_signatures d ! i)" by blast
  let ?s = "pd_signatures d ! i"
  have s: "implementation_matches (pd_id d) ?s" "vt_container (ps_result ?s) = CK_scalar"
    using assms i by (auto simp: well_formed_descriptor_def)
  have run: "invoke_scalar_kernel h d sig operands loc = run_kernel h d ?s operands loc"
    using invoke_scalar_kernel_guard [OF assms] i by simp
  show ?thesis
    unfolding run using run_kernel_sound [OF s i(4), of h d loc] i by auto
qed

text \<open>C22: type soundness of the kernels. Every call, whatever the signature reference and the
  operands, returns: a call of an own signature of an elementwise primitive with conforming
  operands succeeds with a valid scalar of the signature's result type or reports an integer
  overflow, and every other call is refused as an invalid invocation without effect.\<close>

theorem kernel_calls_type_sound:
  assumes "well_formed_descriptor d"
  shows "\<exists>r h'. invoke_scalar_kernel h d sig operands loc = Some (r, h') \<and>
    (kr_status r = KS_invalid_invocation \<longleftrightarrow>
       \<not> (pd_lifting d = LM_elementwise \<and>
          (\<exists>i < length (pd_signatures d). sig = OwnSignature i \<and>
             conforming operands (pd_signatures d ! i)))) \<and>
    (kr_status r \<noteq> KS_domain_error \<longrightarrow> h' = h) \<and>
    (kr_status r = KS_success \<longrightarrow> valid_scalar (kr_value r) \<and>
       (\<exists>s. signature_of d sig = Some s \<and> sv_type (kr_value r) = vt_element (ps_result s)))"
  by (rule invoke_scalar_kernel_sound [OF assms])

text \<open>A foreign signature with the same contents as an own one is refused.\<close>

theorem kernel_calls_type_sound_witness:
  "\<exists>r h'. invoke_scalar_kernel sample_host (production_descriptors ! 18)
     (ForeignSignature (make_signature int_parameters scalar_int IM_mul_integer))
     [int_scalar 1, int_scalar 1] start_location = Some (r, h') \<and>
     kr_status r = KS_invalid_invocation"
proof -
  have wf: "well_formed_descriptor (production_descriptors ! 18)"
    by (rule production_descriptor_well_formed) (simp add: production_descriptors_def)
  show ?thesis using kernel_calls_type_sound [OF wf] by blast
qed

section \<open>From the types of the arguments to the kernel\<close>

lemma convert_scalar_success:
  assumes "valid_scalar v" "converts (sv_type v) p"
  shows "sc_status (convert_scalar v (vt_element p)) = SC_success \<and>
    valid_scalar (sc_value (convert_scalar v (vt_element p))) \<and>
    sv_type (sc_value (convert_scalar v (vt_element p))) = vt_element p"
proof (cases "sv_type v = vt_element p")
  case True
  then show ?thesis using assms(1) by (simp add: convert_scalar_def)
next
  case False
  then have "convert_scalar v (vt_element p) =
      \<lparr>sc_status = SC_success, sc_value = double_scalar (int_to_binary64 (sv_integer v))\<rparr>"
    and "vt_element p = ST_double_precision"
    using assms int_to_binary64_not_nan
    by (auto simp: convert_scalar_def converts_def double_scalar_def normalize_double_eq)
  then show ?thesis by simp
qed

lemma select_success_own:
  assumes "length actuals < size_max"
    and "select_primitive_signature d actuals = r" "sel_status r = SEL_success"
  shows "\<exists>i < length (pd_signatures d). sel_signature r = Some (OwnSignature i) \<and>
    list_all2 converts actuals (ps_parameters (pd_signatures d ! i))"
  using assms(1)
proof (cases rule: select_primitive_signature_cases [of actuals d])
  case (unique m)
  let ?cs = "map (cost_of actuals) (pd_signatures d)"
  have "first_index ?cs (Some m) < length ?cs \<and> ?cs ! first_index ?cs (Some m) = Some m"
    using unique(1) first_index_nth by (metis least_cost_def)
  then show ?thesis
    using unique(3) assms(2,3)
    by (intro exI [of _ "first_index ?cs (Some m)"]) (auto simp: cost_of_eq split: if_splits)
qed (use assms(2,3) in auto)

definition converted_operands ::
    "scalar_value list \<Rightarrow> primitive_signature \<Rightarrow> scalar_value list" where
  "converted_operands vs s =
     map (\<lambda>(v, p). sc_value (convert_scalar v (vt_element p))) (zip vs (ps_parameters s))"

text \<open>C23: the three steps of an elementwise call fit together: when a signature is selected
  for the types of valid arguments, it is one of the primitive's own, every argument
  converts to its parameter type, and the kernel called with the converted arguments
  accepts them, so it returns a value or an overflow error and is never misused.\<close>

theorem selected_calls_are_accepted:
  assumes "well_formed_descriptor d" "pd_lifting d = LM_elementwise"
    and "list_all valid_scalar vs" "length vs < size_max"
    and "select_primitive_signature d (map sv_type vs) = r" "sel_status r = SEL_success"
  shows "\<exists>sig s. sel_signature r = Some sig \<and> signature_of d sig = Some s \<and>
    list_all2 (\<lambda>v p. sc_status (convert_scalar v (vt_element p)) = SC_success) vs
      (ps_parameters s) \<and>
    (\<exists>k h'. invoke_scalar_kernel h d sig (converted_operands vs s) loc = Some (k, h') \<and>
       kr_status k \<noteq> KS_invalid_invocation)"
proof -
  obtain i where i: "i < length (pd_signatures d)" "sel_signature r = Some (OwnSignature i)"
    "list_all2 converts (map sv_type vs) (ps_parameters (pd_signatures d ! i))"
    using select_success_own [OF _ assms(5,6)] assms(4) by auto
  let ?s = "pd_signatures d ! i"
  have each: "list_all2 (\<lambda>v p. valid_scalar v \<and> converts (sv_type v) p) vs (ps_parameters ?s)"
    using i(3) assms(3) by (auto simp: list_all2_conv_all_nth list_all_length)
  have conv: "list_all2 (\<lambda>v p. sc_status (convert_scalar v (vt_element p)) = SC_success) vs
      (ps_parameters ?s)"
    by (rule list_all2_mono [OF each]) (simp add: convert_scalar_success)
  have ok: "conforming (converted_operands vs ?s) ?s"
    using each convert_scalar_success
    by (auto simp: conforming_def converted_operands_def list_all2_conv_all_nth)
  have m: "implementation_matches (pd_id d) ?s" "vt_container (ps_result ?s) = CK_scalar"
    using assms(1,2) i(1) by (auto simp: well_formed_descriptor_def)
  show ?thesis
    using run_kernel_sound [OF m ok, of h d loc] invoke_scalar_kernel_guard [OF assms(1)]
      i(1,2) assms(2) conv ok
    by (intro exI [of _ "OwnSignature i"] exI [of _ ?s]) auto
qed

text \<open>\<open>add\<close> of an int and a double.\<close>

theorem selected_calls_are_accepted_witness:
  "\<exists>sig. sel_signature (select_primitive_signature
       (make_descriptor PI_add ''add'' LM_elementwise add_signatures)
       [ST_integer, ST_double_precision]) = Some sig \<and>
     (\<exists>s k h'. invoke_scalar_kernel sample_host
        (make_descriptor PI_add ''add'' LM_elementwise add_signatures) sig
        (converted_operands [int_scalar 2, double_scalar 0] s) start_location = Some (k, h') \<and>
        kr_status k \<noteq> KS_invalid_invocation)"
proof -
  let ?d = "make_descriptor PI_add ''add'' LM_elementwise add_signatures"
  let ?vs = "[int_scalar 2, double_scalar 0]"
  have wf: "well_formed_descriptor ?d"
    by (rule production_descriptor_well_formed) (simp add: production_descriptors_def)
  have "length (map sv_type ?vs) < size_max" by (simp add: size_max_def)
  then have s: "sel_status (select_primitive_signature ?d (map sv_type ?vs)) = SEL_success"
    by (simp add: select_primitive_signature_def selection_step_def conversion_cost_def
        make_descriptor_def add_signatures_def make_signature_def int_parameters_def
        double_parameters_def scalar_int_def scalar_double_def Let_def)
  have "pd_lifting ?d = LM_elementwise" "list_all valid_scalar ?vs" "length ?vs < size_max"
    by (simp_all add: make_descriptor_def size_max_def)
  from selected_calls_are_accepted [OF wf this refl s, of sample_host start_location]
  show ?thesis by auto
qed

end
