(* ===== verification/Tokenizer.thy ===== *)
theory Tokenizer
  imports Kernels "HOL-Library.Char_ord"
begin

text \<open>
  The tokenizer of src/rewrite.cpp: positions, tokens, the grammars of numeric literals,
  their conversion, and the scanning loop. Source text is a list of bytes.

  \<^item> \<open>std::from_chars\<close> is the standard library's: on a spelling of the literal grammar it
    consumes everything; an integer outside \<open>int64_t\<close> is out of range, and a decimal is
    rounded once to the nearest binary64 (ties to even), out of range when it overflows or
    when a decimal other than zero rounds to zero. The \<open>strtod_l\<close> variant of
    \<open>parse_finite_double\<close> gives the same three outcomes.
  \<^item> \<open>std::string_view::npos\<close>-like sentinels are \<open>None\<close>.
\<close>

section \<open>Positions and tokens\<close>

record rewrite_position =
  rp_offset :: nat
  rp_line :: nat
  rp_column :: nat

record rewrite_span =
  rs_begin :: rewrite_position
  rs_end :: rewrite_position

datatype rewrite_token_kind =
    TK_name | TK_bool_literal | TK_int_literal | TK_double_literal | TK_bool_type
  | TK_int_type | TK_double_type | TK_left_bracket | TK_right_bracket | TK_left_parenthesis
  | TK_right_parenthesis | TK_left_brace | TK_right_brace | TK_placeholder
  | TK_horizontal_space | TK_line_terminator | TK_malformed_literal | TK_invalid

datatype rewrite_literal_error = LE_none | LE_malformed | LE_range

record rewrite_token =
  rt_kind :: rewrite_token_kind
  rt_span :: rewrite_span
  rt_boolean :: bool
  rt_integer :: i64
  rt_double :: binary64
  rt_literal_error :: rewrite_literal_error

record rewrite_tokens =
  rts_source :: bytes
  rts_tokens :: "rewrite_token list"
  rts_end :: rewrite_position

definition is_lowercase :: "char \<Rightarrow> bool" where
  "is_lowercase byte \<longleftrightarrow> byte \<ge> CHR ''a'' \<and> byte \<le> CHR ''z''"

definition is_uppercase :: "char \<Rightarrow> bool" where
  "is_uppercase byte \<longleftrightarrow> byte \<ge> CHR ''A'' \<and> byte \<le> CHR ''Z''"

definition is_digit :: "char \<Rightarrow> bool" where
  "is_digit byte \<longleftrightarrow> byte \<ge> CHR ''0'' \<and> byte \<le> CHR ''9''"

definition is_horizontal_space :: "char \<Rightarrow> bool" where
  "is_horizontal_space byte \<longleftrightarrow> byte = CHR '' '' \<or> byte = CHR 0x09"

definition is_numeric_candidate_byte :: "char \<Rightarrow> bool" where
  "is_numeric_candidate_byte byte \<longleftrightarrow>
     is_lowercase byte \<or> is_uppercase byte \<or> is_digit byte \<or> byte = CHR ''_''
     \<or> byte = CHR ''.'' \<or> byte = CHR ''+'' \<or> byte = CHR ''-''"

definition make_token ::
    "rewrite_token_kind \<Rightarrow> rewrite_position \<Rightarrow> rewrite_position \<Rightarrow> rewrite_token" where
  "make_token kind begin_position end_position =
     \<lparr>rt_kind = kind, rt_span = \<lparr>rs_begin = begin_position, rs_end = end_position\<rparr>,
      rt_boolean = False, rt_integer = 0, rt_double = 0, rt_literal_error = LE_none\<rparr>"

section \<open>Integer literals\<close>

definition canonical_integer_grammar :: "bytes \<Rightarrow> bool" where
  "canonical_integer_grammar spelling =
     (let digit = (if spelling \<noteq> [] \<and> hd spelling = CHR ''-'' then 1 else 0) in
      if digit = length spelling then False
      else if spelling ! digit = CHR ''0'' then length spelling = digit + 1 \<and> digit = 0
      else if spelling ! digit < CHR ''1'' \<or> spelling ! digit > CHR ''9'' then False
      else list_all is_digit (drop (digit + 1) spelling))"

definition digit_value :: "char \<Rightarrow> nat" where
  "digit_value c = of_char c - 48"

definition digits_value :: "bytes \<Rightarrow> nat" where
  "digits_value ds = foldl (\<lambda>n c. n * 10 + digit_value c) 0 ds"

text \<open>\<open>std::from_chars\<close> for \<open>std::int64_t\<close> on a spelling of the grammar: the value, or
  \<open>None\<close> for \<open>result_out_of_range\<close>.\<close>

definition integer_spelling_value :: "bytes \<Rightarrow> int" where
  "integer_spelling_value spelling =
     (if spelling \<noteq> [] \<and> hd spelling = CHR ''-'' then - int (digits_value (tl spelling))
      else int (digits_value spelling))"

definition from_chars_integer :: "bytes \<Rightarrow> i64 option" where
  "from_chars_integer spelling =
     map_option word_of_int (int64 (integer_spelling_value spelling))"

definition parse_canonical_integer :: "bytes \<Rightarrow> i64 option" where
  "parse_canonical_integer spelling =
     (if \<not> canonical_integer_grammar spelling then None else from_chars_integer spelling)"

section \<open>Double literals\<close>

text \<open>\<open>while (index < spelling.size() && is_digit(spelling[index])) ++index\<close>\<close>

definition digits_end :: "bytes \<Rightarrow> nat \<Rightarrow> nat" where
  "digits_end spelling index = index + length (takeWhile is_digit (drop index spelling))"

definition byte_at :: "bytes \<Rightarrow> nat \<Rightarrow> char set \<Rightarrow> bool" where
  "byte_at spelling index cs \<longleftrightarrow> index < length spelling \<and> spelling ! index \<in> cs"

definition finite_double_grammar :: "bytes \<Rightarrow> bool" where
  "finite_double_grammar spelling =
     (let integer_begin = (if spelling \<noteq> [] \<and> hd spelling = CHR ''-'' then 1 else 0) in
      if integer_begin = length spelling then False
      else let index = digits_end spelling integer_begin in
      if integer_begin = index then False
      else if spelling ! integer_begin = CHR ''0'' \<and> index \<noteq> integer_begin + 1 then False
      else
        let has_fraction = byte_at spelling index {CHR ''.''};
            fraction_begin = index + 1;
            index' = (if has_fraction then digits_end spelling fraction_begin else index)
        in if has_fraction \<and> fraction_begin = index' then False
        else
          let has_exponent = byte_at spelling index' {CHR ''e'', CHR ''E''};
              exponent_begin = (if byte_at spelling (index' + 1) {CHR ''+'', CHR ''-''}
                                then index' + 2 else index' + 1);
              index'' = (if has_exponent then digits_end spelling exponent_begin else index')
          in if has_exponent \<and> exponent_begin = index'' then False
          else index'' = length spelling \<and> (has_fraction \<or> has_exponent))"

text \<open>The loop over the mantissa: digits before the point, digits read, ordinal of the first
  digit other than zero, and the rest of the spelling.\<close>

fun scan_mantissa ::
    "bytes \<Rightarrow> nat \<Rightarrow> nat \<Rightarrow> nat option \<Rightarrow> nat \<times> nat \<times> nat option \<times> bytes" where
  "scan_mantissa [] digits_before digit_ordinal first_nonzero =
     (digits_before, digit_ordinal, first_nonzero, [])"
| "scan_mantissa (c # cs) digits_before digit_ordinal first_nonzero =
     (if c = CHR ''e'' \<or> c = CHR ''E''
      then (digits_before, digit_ordinal, first_nonzero, c # cs)
      else if c = CHR ''.'' then scan_mantissa cs digit_ordinal digit_ordinal first_nonzero
      else scan_mantissa cs digits_before (digit_ordinal + 1)
             (if first_nonzero = None \<and> c \<noteq> CHR ''0'' then Some digit_ordinal
              else first_nonzero))"

definition accumulate_exponent :: "bytes \<Rightarrow> int" where
  "accumulate_exponent ds =
     foldl (\<lambda>e c. if e < 1000000 then e * 10 + int (digit_value c) else e) 0 ds"

definition explicit_exponent_of :: "bytes \<Rightarrow> int" where
  "explicit_exponent_of rest =
     (case rest of
        [] \<Rightarrow> 0
      | _ # cs \<Rightarrow>
          (case cs of
             [] \<Rightarrow> 0
           | s # ds \<Rightarrow>
               if s = CHR ''-'' then - accumulate_exponent ds
               else if s = CHR ''+'' then accumulate_exponent ds
               else accumulate_exponent cs))"

definition clamp_count :: "nat \<Rightarrow> int" where
  "clamp_count n = (if n > 1000000 then 1000000 else int n)"

definition unsigned_part :: "bytes \<Rightarrow> bytes" where
  "unsigned_part spelling = (if hd spelling = CHR ''-'' then tl spelling else spelling)"

definition decimal_scientific_exponent :: "bytes \<Rightarrow> int" where
  "decimal_scientific_exponent spelling =
     (case scan_mantissa (unsigned_part spelling) 0 0 None of
        (digits_before_decimal, digit_ordinal, first_nonzero, rest) \<Rightarrow>
          let digits_before_decimal =
                (if CHR ''.'' \<notin> set spelling then digit_ordinal else digits_before_decimal)
          in case first_nonzero of
               None \<Rightarrow> 0
             | Some first \<Rightarrow>
                 explicit_exponent_of rest + clamp_count digits_before_decimal
                   - clamp_count first - 1)"

definition half_minimum_subnormal :: bytes where
  "half_minimum_subnormal =
     ''24703282292062327208828439643411068618252990130716238221279284125033775''"

text \<open>The comparison with the threshold digits. Both ways out of the loop after the last
  digit return \<open>true\<close>.\<close>

fun mantissa_below_threshold :: "bytes \<Rightarrow> nat \<Rightarrow> bool \<Rightarrow> bool" where
  "mantissa_below_threshold [] significant_index found_nonzero = True"
| "mantissa_below_threshold (c # cs) significant_index found_nonzero =
     (if c = CHR ''e'' \<or> c = CHR ''E'' then True
      else if c \<noteq> CHR ''.'' \<and> (c \<noteq> CHR ''0'' \<or> found_nonzero)
      then
        let threshold = (if significant_index < length half_minimum_subnormal
                         then half_minimum_subnormal ! significant_index else CHR ''0'')
        in if c < threshold then True
           else if c > threshold then False
           else mantissa_below_threshold cs (significant_index + 1) True
      else mantissa_below_threshold cs significant_index found_nonzero)"

definition decimal_rounds_to_zero :: "bytes \<Rightarrow> bool" where
  "decimal_rounds_to_zero spelling =
     (let exponent = decimal_scientific_exponent spelling in
      if exponent < -324 then True
      else if exponent \<noteq> -324 then False
      else mantissa_below_threshold (unsigned_part spelling) 0 False)"

text \<open>The number a spelling of the double grammar denotes: its digits and a power of ten.\<close>

definition mantissa_digits :: "bytes \<Rightarrow> bytes" where
  "mantissa_digits s =
     filter is_digit (takeWhile (\<lambda>c. c \<noteq> CHR ''e'' \<and> c \<noteq> CHR ''E'') (unsigned_part s))"

definition fraction_length :: "bytes \<Rightarrow> nat" where
  "fraction_length s =
     length (takeWhile is_digit (tl (dropWhile (\<lambda>c. c \<noteq> CHR ''.'') s)))"

definition exponent_value :: "bytes \<Rightarrow> int" where
  "exponent_value s =
     (case dropWhile (\<lambda>c. c \<noteq> CHR ''e'' \<and> c \<noteq> CHR ''E'') (unsigned_part s) of
        [] \<Rightarrow> 0
      | _ # cs \<Rightarrow>
          if hd cs = CHR ''-'' then - int (digits_value (tl cs))
          else if hd cs = CHR ''+'' then int (digits_value (tl cs))
          else int (digits_value cs))"

definition decimal_exponent :: "bytes \<Rightarrow> int" where
  "decimal_exponent s = exponent_value s - int (fraction_length s)"

definition decimal_numerator :: "bytes \<Rightarrow> nat" where
  "decimal_numerator s = digits_value (mantissa_digits s) * 10 ^ nat (decimal_exponent s)"

definition decimal_denominator :: "bytes \<Rightarrow> nat" where
  "decimal_denominator s = 10 ^ nat (- decimal_exponent s)"

text \<open>\<open>std::from_chars\<close> for \<open>double\<close>: the rounded magnitude, and whether it is reported as
  out of range.\<close>

datatype chars_error = CE_none | CE_out_of_range

definition rounded_decimal :: "bytes \<Rightarrow> nat" where
  "rounded_decimal s = round_code (decimal_numerator s * 2 ^ 1074) (decimal_denominator s)"

definition parse_finite_double :: "bytes \<Rightarrow> chars_error \<times> binary64" where
  "parse_finite_double s =
     (let code = rounded_decimal s in
      if code = infinity_code \<or> (code = 0 \<and> digits_value (mantissa_digits s) \<noteq> 0)
      then (CE_out_of_range, 0)
      else (CE_none, make_binary64 (hd s = CHR ''-'') code))"

definition numeric_token ::
    "bytes \<Rightarrow> rewrite_position \<Rightarrow> rewrite_position \<Rightarrow> rewrite_token" where
  "numeric_token spelling begin_position end_position =
     (let token = (make_token TK_malformed_literal begin_position end_position)
                    \<lparr>rt_literal_error := LE_malformed\<rparr> in
      if spelling = ''-inf''
      then token\<lparr>rt_kind := TK_double_literal, rt_double := 0xfff0000000000000,
                 rt_literal_error := LE_none\<rparr>
      else case parse_canonical_integer spelling of
        Some integer \<Rightarrow>
          token\<lparr>rt_kind := TK_int_literal, rt_integer := integer, rt_literal_error := LE_none\<rparr>
      | None \<Rightarrow>
          if canonical_integer_grammar spelling then token\<lparr>rt_literal_error := LE_range\<rparr>
          else if \<not> finite_double_grammar spelling then token
          else case parse_finite_double spelling of
            (CE_out_of_range, _) \<Rightarrow>
              if decimal_rounds_to_zero spelling
              then token\<lparr>rt_kind := TK_double_literal,
                         rt_double := (if hd spelling = CHR ''-'' then 0x8000000000000000 else 0),
                         rt_literal_error := LE_none\<rparr>
              else token\<lparr>rt_literal_error := LE_range\<rparr>
          | (CE_none, converted_value) \<Rightarrow>
              if binary64_is_nan converted_value \<or> binary64_is_infinity converted_value
              then token\<lparr>rt_literal_error := LE_range\<rparr>
              else token\<lparr>rt_kind := TK_double_literal, rt_double := converted_value,
                         rt_literal_error := LE_none\<rparr>)"

section \<open>The scanning loop\<close>

definition next_column :: "rewrite_position \<Rightarrow> rewrite_position" where
  "next_column position =
     position\<lparr>rp_offset := rp_offset position + 1, rp_column := rp_column position + 1\<rparr>"

text \<open>\<open>do { ++index; ++position.offset; ++position.column; } while (...)\<close>\<close>

function advance_while ::
    "(char \<Rightarrow> bool) \<Rightarrow> bytes \<Rightarrow> nat \<Rightarrow> rewrite_position \<Rightarrow> nat \<times> rewrite_position" where
  "advance_while p source index position =
     (let index = index + 1; position = next_column position
      in if index < length source \<and> p (source ! index)
         then advance_while p source index position else (index, position))"
  by pat_completeness auto
termination
  by (relation "measure (\<lambda>(p, source, index, position). length source - index)") auto

declare advance_while.simps [simp del]

definition substr :: "bytes \<Rightarrow> nat \<Rightarrow> nat \<Rightarrow> bytes" where
  "substr s pos n = take n (drop pos s)"

definition spelling_between :: "bytes \<Rightarrow> rewrite_position \<Rightarrow> rewrite_position \<Rightarrow> bytes" where
  "spelling_between source begin_position end_position =
     substr source (rp_offset begin_position - 1) (rp_offset end_position - rp_offset begin_position)"

definition name_token ::
    "bytes \<Rightarrow> rewrite_position \<Rightarrow> rewrite_position \<Rightarrow> rewrite_token" where
  "name_token spelling begin_position end_position =
     (let token = make_token TK_name begin_position end_position in
      if spelling = ''true'' \<or> spelling = ''false''
      then token\<lparr>rt_kind := TK_bool_literal, rt_boolean := (spelling = ''true'')\<rparr>
      else if spelling = ''inf'' \<or> spelling = ''nan''
      then token\<lparr>rt_kind := TK_double_literal,
                 rt_double := (if spelling = ''inf'' then 0x7ff0000000000000
                               else 0x7ff8000000000000)\<rparr>
      else token)"

definition type_token_kind :: "bytes \<Rightarrow> rewrite_token_kind" where
  "type_token_kind spelling =
     (if spelling = ''Bool'' then TK_bool_type
      else if spelling = ''Int'' then TK_int_type
      else if spelling = ''Double'' then TK_double_type
      else TK_invalid)"

definition punctuation_kind :: "char \<Rightarrow> rewrite_token_kind" where
  "punctuation_kind byte =
     (if byte = CHR ''['' then TK_left_bracket
      else if byte = CHR '']'' then TK_right_bracket
      else if byte = CHR ''('' then TK_left_parenthesis
      else if byte = CHR '')'' then TK_right_parenthesis
      else if byte = CHR ''{'' then TK_left_brace
      else if byte = CHR ''}'' then TK_right_brace
      else TK_invalid)"

definition is_name_byte :: "char \<Rightarrow> bool" where
  "is_name_byte c \<longleftrightarrow> is_lowercase c \<or> is_digit c \<or> c = CHR ''_''"

definition is_type_byte :: "char \<Rightarrow> bool" where
  "is_type_byte c \<longleftrightarrow> is_uppercase c \<or> is_lowercase c \<or> is_digit c \<or> c = CHR ''_''"

definition scan_line_terminator ::
    "bytes \<Rightarrow> nat \<Rightarrow> rewrite_position \<Rightarrow> rewrite_token \<times> nat \<times> rewrite_position" where
  "scan_line_terminator source index start =
     (let width = (if source ! index = CHR 0x0D then 2 else 1);
          position = start\<lparr>rp_offset := rp_offset start + width, rp_line := rp_line start + 1,
                           rp_column := 1\<rparr>
      in (make_token TK_line_terminator start position, index + width, position))"

text \<open>One iteration: the token that starts at the index, and where the next one starts.\<close>

definition scan_token ::
    "bytes \<Rightarrow> nat \<Rightarrow> rewrite_position \<Rightarrow> rewrite_token \<times> nat \<times> rewrite_position" where
  "scan_token source index start =
     (let byte = source ! index in
      if is_horizontal_space byte
      then (case advance_while is_horizontal_space source index start of
              (index', position) \<Rightarrow>
                (make_token TK_horizontal_space start position, index', position))
      else if byte = CHR 0x0A
              \<or> (byte = CHR 0x0D \<and> index + 1 < length source \<and> source ! (index + 1) = CHR 0x0A)
      then scan_line_terminator source index start
      else if is_lowercase byte
      then (case advance_while is_name_byte source index start of
              (index', position) \<Rightarrow>
                (name_token (spelling_between source start position) start position,
                 index', position))
      else if byte = CHR ''_''
      then (make_token TK_placeholder start (next_column start), index + 1, next_column start)
      else if is_uppercase byte
      then (case advance_while is_type_byte source index start of
              (index', position) \<Rightarrow>
                (make_token (type_token_kind (spelling_between source start position))
                   start position, index', position))
      else if is_digit byte \<or> byte = CHR ''-'' \<or> byte = CHR ''+'' \<or> byte = CHR ''.''
      then (case advance_while is_numeric_candidate_byte source index start of
              (index', position) \<Rightarrow>
                (numeric_token (spelling_between source start position) start position,
                 index', position))
      else (make_token (punctuation_kind byte) start (next_column start), index + 1,
            next_column start))"

lemma advance_while_greater: "advance_while p source index position = (index', position') \<Longrightarrow> index < index'"
  by (induction p source index position rule: advance_while.induct)
     (subst (asm) (2) advance_while.simps, fastforce simp: Let_def split: if_splits)

lemma scan_token_progress:
  "scan_token source index start = (token, index', position) \<Longrightarrow> index < index'"
  by (auto simp: scan_token_def Let_def scan_line_terminator_def dest: advance_while_greater
      split: if_splits prod.splits)

function tokenize_loop ::
    "bytes \<Rightarrow> nat \<Rightarrow> rewrite_position \<Rightarrow> rewrite_token list \<times> rewrite_position" where
  "tokenize_loop source index position =
     (if index < length source
      then case scan_token source index position of
             (token, index', position') \<Rightarrow>
               (case tokenize_loop source index' position' of
                  (tokens, final) \<Rightarrow> (token # tokens, final))
      else ([], position))"
  by pat_completeness auto
termination
  by (relation "measure (\<lambda>(source, index, position). length source - index)")
     (auto dest: scan_token_progress [OF sym])

declare tokenize_loop.simps [simp del]

definition tokenize_rewrite :: "bytes \<Rightarrow> rewrite_tokens" where
  "tokenize_rewrite source =
     (case tokenize_loop source 0 \<lparr>rp_offset = 1, rp_line = 1, rp_column = 1\<rparr> of
        (tokens, final) \<Rightarrow>
          \<lparr>rts_source = source, rts_tokens = tokens, rts_end = final\<rparr>)"

definition rewrite_token_spelling :: "rewrite_tokens \<Rightarrow> rewrite_token \<Rightarrow> bytes" where
  "rewrite_token_spelling tokens token =
     spelling_between (rts_source tokens) (rs_begin (rt_span token)) (rs_end (rt_span token))"

end
