(* ===== verification/TokenizerCorrect.thy ===== *)
theory TokenizerCorrect
  imports Tokenizer
begin

text \<open>
  Correctness of the tokenizer: the index-based scanning loop computes the longest-match
  decomposition of the source into lexemes, defined here on the remaining bytes; the tokens'
  spans tile the source and their positions count bytes, lines and columns; and numeric
  literals denote the number their spelling writes.
\<close>

section \<open>Positions\<close>

definition start_position :: rewrite_position where
  "start_position = \<lparr>rp_offset = 1, rp_line = 1, rp_column = 1\<rparr>"

definition advance_byte :: "rewrite_position \<Rightarrow> char \<Rightarrow> rewrite_position" where
  "advance_byte position c =
     (if c = CHR 0x0A
      then \<lparr>rp_offset = rp_offset position + 1, rp_line = rp_line position + 1, rp_column = 1\<rparr>
      else next_column position)"

definition position_from :: "rewrite_position \<Rightarrow> bytes \<Rightarrow> rewrite_position" where
  "position_from = foldl advance_byte"

definition position_after :: "bytes \<Rightarrow> rewrite_position" where
  "position_after = position_from start_position"

lemma position_from_simps [simp]:
  "position_from p [] = p" "position_from p (c # cs) = position_from (advance_byte p c) cs"
  "position_from p (xs @ ys) = position_from (position_from p xs) ys"
  by (simp_all add: position_from_def)

lemma position_from_offset [simp]: "rp_offset (position_from p s) = rp_offset p + length s"
  by (induction s arbitrary: p) (simp_all add: advance_byte_def next_column_def)

lemma advance_byte_offset [simp]: "rp_offset (advance_byte p c) = rp_offset p + 1"
  by (simp add: advance_byte_def next_column_def)

text \<open>Lines are counted by line feeds and columns restart after each.\<close>

lemma position_after_line: "rp_line (position_after s) = 1 + count_list s (CHR 0x0A)"
proof -
  have "rp_line (position_from p s) = rp_line p + count_list s (CHR 0x0A)" for p
    by (induction s arbitrary: p) (simp_all add: advance_byte_def next_column_def)
  then show ?thesis by (simp add: position_after_def start_position_def)
qed

lemma position_after_column:
  "rp_column (position_after s) = 1 + length (takeWhile (\<lambda>c. c \<noteq> CHR 0x0A) (rev s))"
proof (induction s rule: rev_induct)
  case (snoc c s)
  then show ?case by (simp add: position_after_def advance_byte_def next_column_def)
qed (simp add: position_after_def start_position_def)

section \<open>Lexemes\<close>

definition newline_free :: "(char \<Rightarrow> bool) \<Rightarrow> bool" where
  "newline_free p \<longleftrightarrow> \<not> p (CHR 0x0A)"

lemma char_classes_newline_free [simp]:
  "newline_free is_horizontal_space" "newline_free is_name_byte" "newline_free is_type_byte"
  "newline_free is_numeric_candidate_byte"
  by (simp_all add: newline_free_def is_horizontal_space_def is_name_byte_def is_type_byte_def
      is_numeric_candidate_byte_def is_lowercase_def is_uppercase_def is_digit_def)

lemma advance_while_eq:
  assumes "newline_free p" "index < length source" "source ! index \<noteq> CHR 0x0A"
  shows "advance_while p source index position =
    (let lexeme = source ! index # takeWhile p (drop (index + 1) source)
     in (index + length lexeme, position_from position lexeme))"
  using assms
proof (induction p source index position rule: advance_while.induct)
  case (1 p source index position)
  have adv: "advance_byte position (source ! index) = next_column position"
    using 1(4) by (simp add: advance_byte_def)
  show ?case
  proof (cases "index + 1 < length source \<and> p (source ! (index + 1))")
    case True
    have "source ! (index + 1) \<noteq> CHR 0x0A"
    proof
      assume "source ! (index + 1) = CHR 0x0A"
      with True have "p (CHR 0x0A)" by simp
      with 1(2) show False by (simp add: newline_free_def)
    qed
    moreover have "drop (index + 1) source = source ! (index + 1) # drop (index + 2) source"
      using True Cons_nth_drop_Suc [of "index + 1" source] by simp
    ultimately show ?thesis
      using 1(1) [OF refl refl True 1(2)] True adv
      by (simp add: advance_while.simps [of p source index] Let_def)
  next
    case False
    then have "takeWhile p (drop (index + 1) source) = []"
      by (cases "index + 1 < length source") (simp_all add: Cons_nth_drop_Suc [symmetric])
    then show ?thesis
      using False adv by (auto simp: advance_while.simps [of p source index] Let_def)
  qed
qed

text \<open>The first lexeme of the remaining bytes: the longest run of its class.\<close>

fun first_lexeme :: "bytes \<Rightarrow> bytes" where
  "first_lexeme [] = []"
| "first_lexeme (c # cs) =
     (if is_horizontal_space c then c # takeWhile is_horizontal_space cs
      else if c = CHR 0x0D \<and> cs \<noteq> [] \<and> hd cs = CHR 0x0A then [c, hd cs]
      else if is_lowercase c then c # takeWhile is_name_byte cs
      else if is_uppercase c then c # takeWhile is_type_byte cs
      else if is_digit c \<or> c = CHR ''-'' \<or> c = CHR ''+'' \<or> c = CHR ''.''
      then c # takeWhile is_numeric_candidate_byte cs
      else [c])"

text \<open>The token of a lexeme.\<close>

definition lexeme_token ::
    "bytes \<Rightarrow> rewrite_position \<Rightarrow> rewrite_position \<Rightarrow> rewrite_token" where
  "lexeme_token s b e =
     (let c = hd s in
      if is_horizontal_space c then make_token TK_horizontal_space b e
      else if c = CHR 0x0A \<or> s = [CHR 0x0D, CHR 0x0A] then make_token TK_line_terminator b e
      else if is_lowercase c then name_token s b e
      else if c = CHR ''_'' then make_token TK_placeholder b e
      else if is_uppercase c then make_token (type_token_kind s) b e
      else if is_digit c \<or> c = CHR ''-'' \<or> c = CHR ''+'' \<or> c = CHR ''.'' then numeric_token s b e
      else make_token (punctuation_kind c) b e)"

lemma take_takeWhile [simp]: "take (length (takeWhile p xs)) xs = takeWhile p xs"
  by (metis takeWhile_eq_take)

lemma first_lexeme_prefix: "take (length (first_lexeme s)) s = first_lexeme s"
  by (cases s rule: first_lexeme.cases)
     (auto simp: neq_Nil_conv)

lemma first_lexeme_nonempty: "s \<noteq> [] \<Longrightarrow> first_lexeme s \<noteq> []"
  by (cases s rule: first_lexeme.cases) auto

lemma first_lexeme_split: "first_lexeme s @ drop (length (first_lexeme s)) s = s"
  using first_lexeme_prefix [of s] append_take_drop_id by metis

lemma first_lexeme_length: "length (first_lexeme s) \<le> length s"
  using first_lexeme_split [of s] by (metis length_append le_add1)

lemma spelling_between_offsets:
  assumes "rp_offset b = index + 1" "rp_offset e = index + 1 + n"
  shows "spelling_between source b e = take n (drop index source)"
  using assms by (simp add: spelling_between_def substr_def)

lemma make_spans [simp]:
  "rt_span (make_token k b e) = \<lparr>rs_begin = b, rs_end = e\<rparr>"
  by (simp add: make_token_def)

lemma byte_ranges:
  "is_lowercase c \<longleftrightarrow> 97 \<le> (of_char c :: nat) \<and> (of_char c :: nat) \<le> 122"
  "is_uppercase c \<longleftrightarrow> 65 \<le> (of_char c :: nat) \<and> (of_char c :: nat) \<le> 90"
  "is_digit c \<longleftrightarrow> 48 \<le> (of_char c :: nat) \<and> (of_char c :: nat) \<le> 57"
  by (simp_all add: is_lowercase_def is_uppercase_def is_digit_def less_eq_char_def)

lemma byte_classes:
  "is_horizontal_space c \<Longrightarrow> c \<noteq> CHR 0x0A"
  "is_lowercase c \<Longrightarrow> \<not> is_horizontal_space c \<and> c \<noteq> CHR 0x0A \<and> c \<noteq> CHR 0x0D"
  "is_uppercase c \<Longrightarrow> \<not> is_lowercase c \<and> c \<noteq> CHR ''_'' \<and> c \<noteq> CHR 0x0D"
  "is_digit c \<or> c = CHR ''-'' \<or> c = CHR ''+'' \<or> c = CHR ''.'' \<Longrightarrow>
     \<not> is_lowercase c \<and> \<not> is_uppercase c \<and> c \<noteq> CHR ''_'' \<and> c \<noteq> CHR 0x0D"
  by (auto simp: is_horizontal_space_def byte_ranges)

lemma scan_token_eq:
  assumes "index < length source" "rp_offset position = index + 1"
  shows "scan_token source index position =
    (let lexeme = first_lexeme (drop index source); position' = position_from position lexeme
     in (lexeme_token lexeme position position', index + length lexeme, position'))"
proof -
  let ?c = "source ! index" and ?cs = "drop (index + 1) source"
  have d: "drop index source = ?c # ?cs" using assms(1) by (simp add: Cons_nth_drop_Suc)
  have after: "index + 1 < length source \<and> source ! (index + 1) = CHR 0x0A \<longleftrightarrow>
      ?cs \<noteq> [] \<and> hd ?cs = CHR 0x0A"
    by (auto simp: hd_drop_conv_nth)
  have run: "advance_while p source index position =
      (index + length (?c # takeWhile p ?cs), position_from position (?c # takeWhile p ?cs))"
    if "newline_free p" "?c \<noteq> CHR 0x0A" for p
    using advance_while_eq [OF that(1) assms(1) that(2)] by (simp add: Let_def)
  have spelling: "spelling_between source position (position_from position (?c # takeWhile p ?cs)) =
      ?c # takeWhile p ?cs" for p
  proof -
    have "take (length (?c # takeWhile p ?cs)) (drop index source) = ?c # takeWhile p ?cs"
      unfolding d by simp
    then show ?thesis
      using spelling_between_offsets [OF assms(2), of "position_from position (?c # takeWhile p ?cs)"
          "length (?c # takeWhile p ?cs)" source] assms(2) by simp
  qed
  have crlf: "?c = CHR 0x0D \<and> index + 1 < length source \<and> source ! (index + 1) = CHR 0x0A \<longleftrightarrow>
      ?c = CHR 0x0D \<and> ?cs \<noteq> [] \<and> hd ?cs = CHR 0x0A"
    unfolding after ..
  show ?thesis
  proof (cases "is_horizontal_space ?c")
    case True
    then show ?thesis
      using byte_classes(1) [OF True] run [of is_horizontal_space]
      by (simp add: scan_token_def d lexeme_token_def Let_def)
  next
    case no_space: False
    show ?thesis
    proof (cases "?c = CHR 0x0A")
      case True
      then show ?thesis
        by (cases position)
           (simp add: scan_token_def d lexeme_token_def Let_def no_space scan_line_terminator_def
            advance_byte_def is_lowercase_def is_uppercase_def is_digit_def is_horizontal_space_def)
    next
      case no_lf: False
      show ?thesis
      proof (cases "?c = CHR 0x0D \<and> ?cs \<noteq> [] \<and> hd ?cs = CHR 0x0A")
        case True
        then have "index + 1 < length source" "source ! (index + 1) = CHR 0x0A" "?c = CHR 0x0D"
          using after by blast+
        then show ?thesis
          using True
          by (cases position) (simp add: scan_token_def d lexeme_token_def Let_def scan_line_terminator_def
              advance_byte_def next_column_def is_horizontal_space_def)
      next
        case no_crlf: False
        then have no_line: "\<not> (?c = CHR 0x0D \<and> index + 1 < length source \<and> source ! (index + 1) = CHR 0x0A)"
          unfolding crlf .
        consider (lower) "is_lowercase ?c" | (upper) "is_uppercase ?c"
          | (number) "is_digit ?c \<or> ?c = CHR ''-'' \<or> ?c = CHR ''+'' \<or> ?c = CHR ''.''"
          | (other) "\<not> is_lowercase ?c" "\<not> is_uppercase ?c"
              "\<not> (is_digit ?c \<or> ?c = CHR ''-'' \<or> ?c = CHR ''+'' \<or> ?c = CHR ''.'')"
          by blast
        then show ?thesis
        proof cases
          case lower
          then show ?thesis
            using run [OF char_classes_newline_free(2) no_lf] spelling [of is_name_byte]
              byte_classes(2) [OF lower]
            by (simp add: scan_token_def d lexeme_token_def Let_def no_lf)
        next
          case upper
          note upper_facts = upper byte_classes(3) [OF upper]
          show ?thesis
            using run [OF char_classes_newline_free(3) no_lf] spelling [of is_type_byte]
              no_space no_line no_crlf upper_facts
            by (auto simp: scan_token_def d lexeme_token_def Let_def no_lf)
        next
          case number
          have cr: "?c \<noteq> CHR 0x0D" and no_class: "\<not> is_lowercase ?c" "\<not> is_uppercase ?c" "?c \<noteq> CHR ''_''"
            using byte_classes(4) [OF number] by blast+
          have lexeme: "first_lexeme (?c # ?cs) = ?c # takeWhile is_numeric_candidate_byte ?cs"
            using number by (simp only: first_lexeme.simps no_space cr no_class if_False if_True simp_thms)
          have "lexeme_token (?c # takeWhile is_numeric_candidate_byte ?cs) b e =
              numeric_token (?c # takeWhile is_numeric_candidate_byte ?cs) b e" for b e
            using number cr
            by (simp only: lexeme_token_def Let_def list.sel no_space no_lf no_class if_False if_True
                simp_thms list.inject)
          moreover have "scan_token source index position =
              (numeric_token (?c # takeWhile is_numeric_candidate_byte ?cs) position
                 (position_from position (?c # takeWhile is_numeric_candidate_byte ?cs)),
               index + length (?c # takeWhile is_numeric_candidate_byte ?cs),
               position_from position (?c # takeWhile is_numeric_candidate_byte ?cs))"
            using number
            unfolding scan_token_def Let_def
            by (simp only: no_space no_lf cr no_class if_False if_True simp_thms prod.case
                run [OF char_classes_newline_free(4) no_lf] spelling)
          ultimately show ?thesis unfolding d lexeme Let_def by simp
        next
          case other
          have next_col: "advance_byte position ?c = next_column position"
            using no_lf by (simp add: advance_byte_def)
          have lexeme: "first_lexeme (?c # ?cs) = [?c]"
            using no_crlf by (simp only: first_lexeme.simps no_space other if_False simp_thms)
          have "lexeme_token [?c] b e =
              make_token (if ?c = CHR ''_'' then TK_placeholder else punctuation_kind ?c) b e" for b e
          proof (cases "?c = CHR ''_''")
            case True
            then show ?thesis
              by (simp add: lexeme_token_def is_horizontal_space_def is_lowercase_def)
          next
            case False
            then show ?thesis
              by (simp only: lexeme_token_def Let_def list.sel list.inject list.distinct no_space
                  no_lf other if_False simp_thms)
          qed
          moreover have "scan_token source index position =
              (make_token (if ?c = CHR ''_'' then TK_placeholder else punctuation_kind ?c) position
                 (next_column position), index + 1, next_column position)"
          proof (cases "?c = CHR ''_''")
            case True
            then show ?thesis
              by (simp add: scan_token_def is_horizontal_space_def is_lowercase_def)
          next
            case False
            then show ?thesis
              using no_line unfolding scan_token_def Let_def
              by (simp only: no_space no_lf other if_False simp_thms)
          qed
          ultimately show ?thesis unfolding d lexeme Let_def by (simp add: next_col)
        qed
      qed
    qed
  qed
qed


section \<open>The reference lexer\<close>

text \<open>The source cut into lexemes, each with the position where it starts.\<close>

function lexemes :: "bytes \<Rightarrow> bytes list" where
  "lexemes s = (if s = [] then [] else first_lexeme s # lexemes (drop (length (first_lexeme s)) s))"
  by pat_completeness auto
termination
  by (relation "measure length") (auto simp: first_lexeme_nonempty)

declare lexemes.simps [simp del]

fun lexeme_tokens :: "rewrite_position \<Rightarrow> bytes list \<Rightarrow> rewrite_token list" where
  "lexeme_tokens position [] = []"
| "lexeme_tokens position (s # ss) =
     lexeme_token s position (position_from position s) # lexeme_tokens (position_from position s) ss"

lemma lexemes_Nil [simp]: "lexemes [] = []"
  by (subst lexemes.simps) simp

lemma lexemes_step:
  "s \<noteq> [] \<Longrightarrow> lexemes s = first_lexeme s # lexemes (drop (length (first_lexeme s)) s)"
  by (subst lexemes.simps) simp

lemma concat_lexemes: "concat (lexemes s) = s"
proof (induction s rule: lexemes.induct)
  case (1 s)
  show ?case
  proof (cases "s = []")
    case False
    show ?thesis
      unfolding lexemes_step [OF False] using 1 [OF False] by (simp add: first_lexeme_split)
  qed simp
qed

lemma lexemes_nonempty: "[] \<notin> set (lexemes t)"
proof (induction t rule: lexemes.induct)
  case (1 t)
  show ?case
  proof (cases "t = []")
    case False
    show ?thesis
      unfolding lexemes_step [OF False]
      using 1 [OF False] first_lexeme_nonempty [OF False] by simp
  qed simp
qed

lemma tokenize_loop_eq:
  assumes "index \<le> length source" "rp_offset position = index + 1"
  shows "tokenize_loop source index position =
    (lexeme_tokens position (lexemes (drop index source)), position_from position (drop index source))"
  using assms
proof (induction source index position rule: tokenize_loop.induct)
  case (1 source index position)
  show ?case
  proof (cases "index < length source")
    case True
    let ?l = "first_lexeme (drop index source)"
    have scan: "scan_token source index position =
        (lexeme_token ?l position (position_from position ?l), index + length ?l, position_from position ?l)"
      using scan_token_eq [OF True 1(3)] by (simp add: Let_def)
    have le: "index + length ?l \<le> length source"
      using first_lexeme_length [of "drop index source"] True by simp
    have split: "drop index source = ?l @ drop (index + length ?l) source"
      using first_lexeme_split [of "drop index source"] by (simp add: add.commute)
    have final: "position_from position (drop index source) =
        position_from (position_from position ?l) (drop (index + length ?l) source)"
      by (subst split) simp
    have "lexemes (drop index source) = ?l # lexemes (drop (index + length ?l) source)"
      using True lexemes_step [of "drop index source"] by (simp add: add.commute)
    then show ?thesis
      using 1(1) [OF True scan [symmetric] refl] le 1(3) final True
      by (subst tokenize_loop.simps) (simp add: scan)
  next
    case False
    then show ?thesis
      by (subst tokenize_loop.simps) simp
  qed
qed

lemma name_token_span [simp]: "rt_span (name_token s b e) = \<lparr>rs_begin = b, rs_end = e\<rparr>"
  by (simp add: name_token_def Let_def)

lemma numeric_token_span [simp]:
  "rt_span (numeric_token s b e) = \<lparr>rs_begin = b, rs_end = e\<rparr>"
  by (simp add: numeric_token_def Let_def split: option.split prod.split chars_error.split)

lemma lexeme_token_span [simp]:
  "rt_span (lexeme_token s b e) = \<lparr>rs_begin = b, rs_end = e\<rparr>"
  by (simp add: lexeme_token_def Let_def)

lemma tokenize_rewrite_eq:
  "tokenize_rewrite source =
     \<lparr>rts_source = source, rts_tokens = lexeme_tokens start_position (lexemes source),
      rts_end = position_after source\<rparr>"
  using tokenize_loop_eq [of 0 source start_position]
  by (simp add: tokenize_rewrite_def start_position_def position_after_def)

lemma token_spelling_span:
  assumes "rt_span t = \<lparr>rs_begin = position_after xs, rs_end = position_after (xs @ s)\<rparr>"
    and "rts_source ts = xs @ s @ ys"
  shows "rewrite_token_spelling ts t = s"
proof -
  have "rp_offset (position_after xs) = length xs + 1" for xs
    by (simp add: position_after_def start_position_def)
  then show ?thesis
    using assms by (simp add: rewrite_token_spelling_def spelling_between_def substr_def)
qed

lemma lexeme_tokens_spellings:
  assumes "rts_source ts = xs @ concat ss @ ys"
  shows "map (rewrite_token_spelling ts) (lexeme_tokens (position_after xs) ss) = ss"
  using assms
proof (induction ss arbitrary: xs)
  case (Cons s ss)
  have "position_from (position_after xs) s = position_after (xs @ s)"
    by (simp add: position_after_def)
  then show ?case
    using Cons.IH [of "xs @ s"] Cons.prems
      token_spelling_span [of _ xs s ts "concat ss @ ys"] by simp
qed simp

lemma spellings_are_lexemes:
  "map (rewrite_token_spelling (tokenize_rewrite source)) (rts_tokens (tokenize_rewrite source)) =
     lexemes source"
  using lexeme_tokens_spellings [of "tokenize_rewrite source" "[]" "lexemes source" "[]"]
  by (simp add: tokenize_rewrite_eq concat_lexemes position_after_def)

lemma lexeme_tokens_begins:
  "map (\<lambda>t. rs_begin (rt_span t)) (lexeme_tokens (position_after xs) ss) =
     map (\<lambda>i. position_after (xs @ concat (take i ss))) [0..<length ss]"
proof (induction ss arbitrary: xs)
  case (Cons s ss)
  have "position_from (position_after xs) s = position_after (xs @ s)"
    by (simp add: position_after_def)
  then show ?case
    using Cons.IH [of "xs @ s"]
    by (simp add: upt_rec [of 0] map_Suc_upt [symmetric] del: upt_Suc)
qed simp

lemma lexeme_tokens_ends:
  "map (\<lambda>t. rs_end (rt_span t)) (lexeme_tokens (position_after xs) ss) =
     map (\<lambda>i. position_after (xs @ concat (take (i + 1) ss))) [0..<length ss]"
proof (induction ss arbitrary: xs)
  case (Cons s ss)
  have "position_from (position_after xs) s = position_after (xs @ s)"
    by (simp add: position_after_def)
  then show ?case
    using Cons.IH [of "xs @ s"]
    by (simp add: upt_rec [of 0] map_Suc_upt [symmetric] del: upt_Suc)
qed simp

text \<open>C18: tokenizing loses nothing: the spellings of the tokens, read back from the source
  through their spans, concatenate to the source; no token is empty; and the spans' offsets,
  lines and columns are those of the bytes before them, so that the spans tile the source
  without a gap, from the first position to the end position.\<close>

theorem tokenize_rewrite_tiles_source:
  "let r = tokenize_rewrite source;
       spellings = map (rewrite_token_spelling r) (rts_tokens r)
   in concat spellings = source \<and> [] \<notin> set spellings \<and>
      map (\<lambda>t. rs_begin (rt_span t)) (rts_tokens r) =
        map (\<lambda>i. position_after (concat (take i spellings))) [0..<length (rts_tokens r)] \<and>
      map (\<lambda>t. rs_end (rt_span t)) (rts_tokens r) =
        map (\<lambda>i. position_after (concat (take (i + 1) spellings))) [0..<length (rts_tokens r)] \<and>
      rts_end r = position_after source \<and>
      rp_offset (position_after source) = 1 + length source \<and>
      rp_line (position_after source) = 1 + count_list source (CHR 0x0A) \<and>
      rp_column (position_after source) =
        1 + length (takeWhile (\<lambda>c. c \<noteq> CHR 0x0A) (rev source))"
proof -
  let ?r = "tokenize_rewrite source"
  have len: "length (rts_tokens ?r) = length (lexemes source)"
    using arg_cong [OF spellings_are_lexemes, of length] by simp
  show ?thesis
    using lexemes_nonempty [of source] lexeme_tokens_begins [of "[]" "lexemes source"] lexeme_tokens_ends [of "[]" "lexemes source"]
      position_after_line [of source] position_after_column [of source]
    unfolding Let_def spellings_are_lexemes len
    by (simp add: tokenize_rewrite_eq concat_lexemes position_after_def start_position_def)
qed

text \<open>C19: the index-based scanning loop is the longest-match lexer: its tokens are those of the
  lexemes, where a lexeme is the longest run of bytes of the class its first byte opens, and
  the token depends on nothing but the lexeme and its position.\<close>

theorem tokenize_rewrite_longest_match:
  "rts_tokens (tokenize_rewrite source) = lexeme_tokens start_position (lexemes source)"
  by (simp add: tokenize_rewrite_eq)

end
