(* ===== verification/NumericLiterals.thy ===== *)
theory NumericLiterals
  imports TokenizerCorrect KernelsCorrect
begin

text \<open>
  What numeric literals mean: integer spellings are exactly the canonical decimal notations
  and denote their number or are range errors; decimal spellings
  denote the nearest double, or are range errors.
\<close>

section \<open>Digits\<close>

lemma digits_value_Nil [simp]: "digits_value [] = 0"
  by (simp add: digits_value_def)

lemma digits_value_snoc [simp]:
  "digits_value (ds @ [c]) = digits_value ds * 10 + digit_value c"
  by (simp add: digits_value_def)

lemma digit_value_bound: "is_digit c \<Longrightarrow> digit_value c < 10"
  by (auto simp: byte_ranges digit_value_def)

definition digit_char :: "nat \<Rightarrow> char" where
  "digit_char n = char_of (48 + n)"

lemma digit_char_props [simp]:
  assumes "n < 10"
  shows "is_digit (digit_char n)" "digit_value (digit_char n) = n"
proof -
  have "of_char (digit_char n) = (48 + n :: nat)"
    using assms by (simp add: digit_char_def)
  then show "is_digit (digit_char n)" "digit_value (digit_char n) = n"
    using assms by (simp_all add: byte_ranges digit_value_def)
qed

lemma digit_char_digit_value [simp]: "is_digit c \<Longrightarrow> digit_char (digit_value c) = c"
  by (auto simp: byte_ranges digit_value_def digit_char_def)

text \<open>The decimal notation of a number, without leading zeros.\<close>

fun decimal_digits :: "nat \<Rightarrow> bytes" where
  "decimal_digits n = (if n < 10 then [digit_char n]
                       else decimal_digits (n div 10) @ [digit_char (n mod 10)])"

declare decimal_digits.simps [simp del]

definition decimal_notation :: "int \<Rightarrow> bytes" where
  "decimal_notation v = (if v < 0 then CHR ''-'' # decimal_digits (nat (- v))
                         else decimal_digits (nat v))"

lemma decimal_digits_value [simp]: "digits_value (decimal_digits n) = n"
proof (induction n rule: decimal_digits.induct)
  case (1 n)
  then show ?case
    using digits_value_snoc [of "[]" "digit_char n"]
    by (cases "n < 10") (simp_all add: decimal_digits.simps [of n])
qed

lemma decimal_digits_digits: "list_all is_digit (decimal_digits n)"
proof (induction n rule: decimal_digits.induct)
  case (1 n)
  then show ?case by (cases "n < 10") (simp_all add: decimal_digits.simps [of n])
qed

lemma digit_char_0: "digit_char 0 = CHR ''0''"
  using digit_char_digit_value [of "CHR ''0''"] by (simp add: digit_value_def byte_ranges)

lemma decimal_digits_head:
  "decimal_digits n \<noteq> [] \<and> (hd (decimal_digits n) = CHR ''0'' \<longrightarrow> n = 0)"
proof (induction n rule: decimal_digits.induct)
  case (1 n)
  show ?case
  proof (cases "n < 10")
    case True
    then have "digit_char n = CHR ''0'' \<Longrightarrow> n = 0"
      using digit_char_props(2) [of n] by (simp add: digit_value_def)
    then show ?thesis using True by (simp add: decimal_digits.simps [of n])
  next
    case False
    then show ?thesis using 1 by (auto simp: decimal_digits.simps [of n])
  qed
qed

lemma decimal_digits_of_value:
  assumes "list_all is_digit ds" "ds \<noteq> []" "hd ds \<noteq> CHR ''0'' \<or> length ds = 1"
  shows "decimal_digits (digits_value ds) = ds"
  using assms
proof (induction ds rule: rev_induct)
  case (snoc c ds)
  have c: "is_digit c" using snoc.prems by simp
  show ?case
  proof (cases "ds = []")
    case True
    then show ?thesis
      using digits_value_snoc [of "[]" c] digit_value_bound [OF c] c
      by (simp add: decimal_digits.simps)
  next
    case False
    have head: "hd ds \<noteq> CHR ''0''" using snoc.prems(3) False by (cases ds) auto
    then have ds: "decimal_digits (digits_value ds) = ds"
      using snoc.IH snoc.prems False by simp
    have "digits_value ds \<noteq> 0"
    proof
      assume "digits_value ds = 0"
      then have "ds = [CHR ''0'']"
        using ds by (simp add: decimal_digits.simps [of 0] digit_char_0)
      then show False using head by simp
    qed
    then show ?thesis
      using ds digit_value_bound [OF c] c
      by (simp add: decimal_digits.simps [of "digits_value ds * 10 + digit_value c"])
  qed
qed simp

section \<open>Integer literals\<close>

lemma minus_not_digit [simp]: "\<not> is_digit (CHR ''-'')"
  by (simp add: byte_ranges)

lemma canonical_integer_cases:
  "canonical_integer_grammar s \<longleftrightarrow>
     (\<exists>ds. list_all is_digit ds \<and> ds \<noteq> [] \<and>
        (s = ds \<and> (hd ds \<noteq> CHR ''0'' \<or> length ds = 1) \<or>
         s = CHR ''-'' # ds \<and> hd ds \<noteq> CHR ''0''))"
proof (cases s)
  case Nil
  then show ?thesis by (simp add: canonical_integer_grammar_def)
next
  case (Cons c cs)
  have lead: "\<not> (b < CHR ''1'' \<or> b > CHR ''9'') \<longleftrightarrow> is_digit b \<and> b \<noteq> CHR ''0''" for b
  proof -
    have "b = CHR ''0'' \<longleftrightarrow> (of_char b :: nat) = of_char (CHR ''0'')" by (simp only: of_char_eq_iff)
    then show ?thesis by (auto simp: byte_ranges less_char_def)
  qed
  show ?thesis
  proof (cases "c = CHR ''-''")
    case True
    show ?thesis
    proof (cases cs)
      case Nil
      then have "\<not> canonical_integer_grammar s" "s = [CHR ''-'']"
        using Cons True by (simp_all add: canonical_integer_grammar_def)
      then show ?thesis by (auto simp: Cons_eq_append_conv)
    next
      case (Cons d ds)
      have "canonical_integer_grammar s \<longleftrightarrow> d \<noteq> CHR ''0'' \<and> is_digit d \<and> list_all is_digit ds"
        using \<open>s = c # cs\<close> Cons True lead [of d]
        by (auto simp: canonical_integer_grammar_def Let_def)
      moreover have "\<not> list_all is_digit s" using \<open>s = c # cs\<close> True by simp
      ultimately show ?thesis
        using \<open>s = c # cs\<close> Cons True by (auto intro: exI [of _ "d # ds"])
    qed
  next
    case False
    have "canonical_integer_grammar s \<longleftrightarrow>
        (if c = CHR ''0'' then cs = [] else is_digit c \<and> list_all is_digit cs)"
      using Cons False lead [of c] by (auto simp: canonical_integer_grammar_def Let_def)
    moreover have "is_digit (CHR ''0'')" by (simp add: byte_ranges)
    ultimately show ?thesis using Cons False by auto
  qed
qed

text \<open>The grammar accepts exactly the canonical decimal notations: no leading zero, no
  \<open>-0\<close>, no sign of a positive number.\<close>

lemma canonical_integer_is_notation:
  "canonical_integer_grammar s \<longleftrightarrow> s = decimal_notation (integer_spelling_value s)"
proof
  assume "canonical_integer_grammar s"
  then obtain ds where ds: "list_all is_digit ds" "ds \<noteq> []"
    and "s = ds \<and> (hd ds \<noteq> CHR ''0'' \<or> length ds = 1) \<or> s = CHR ''-'' # ds \<and> hd ds \<noteq> CHR ''0''"
    by (auto simp: canonical_integer_cases)
  then consider "s = ds" "hd ds \<noteq> CHR ''0'' \<or> length ds = 1"
    | "s = CHR ''-'' # ds" "hd ds \<noteq> CHR ''0''" by blast
  then show "s = decimal_notation (integer_spelling_value s)"
  proof cases
    case 1
    have "hd ds \<noteq> CHR ''-''" using ds by (cases ds) auto
    then show ?thesis
      using 1 ds decimal_digits_of_value [OF ds]
      by (simp add: integer_spelling_value_def decimal_notation_def)
  next
    case 2
    have "digits_value ds \<noteq> 0"
    proof
      assume "digits_value ds = 0"
      then have "ds = [CHR ''0'']"
        using decimal_digits_of_value [OF ds] 2 by (simp add: decimal_digits.simps [of 0] digit_char_0)
      then show False using 2 by simp
    qed
    then show ?thesis
      using 2 decimal_digits_of_value [OF ds]
      by (simp add: integer_spelling_value_def decimal_notation_def)
  qed
next
  assume s: "s = decimal_notation (integer_spelling_value s)"
  let ?v = "integer_spelling_value s"
  let ?ds = "decimal_digits (nat \<bar>?v\<bar>)"
  have "hd ?ds \<noteq> CHR ''0'' \<or> length ?ds = 1 \<and> ?v = 0"
    using decimal_digits_head [of "nat \<bar>?v\<bar>"] by (auto simp: decimal_digits.simps [of 0])
  then show "canonical_integer_grammar s"
    using s decimal_digits_digits [of "nat \<bar>?v\<bar>"] decimal_digits_head [of "nat \<bar>?v\<bar>"]
    unfolding canonical_integer_cases
    by (intro exI [of _ ?ds]) (auto simp: decimal_notation_def split: if_splits)
qed

lemma decimal_notation_value [simp]: "integer_spelling_value (decimal_notation v) = v"
proof (cases "v < 0")
  case True
  then show ?thesis by (simp add: integer_spelling_value_def decimal_notation_def)
next
  case False
  have "hd (decimal_digits (nat v)) \<noteq> CHR ''-''"
    using decimal_digits_digits [of "nat v"] decimal_digits_head [of "nat v"]
    by (cases "decimal_digits (nat v)") auto
  then show ?thesis using False by (simp add: integer_spelling_value_def decimal_notation_def)
qed

lemma minus_inf_not_numeric: "\<not> canonical_integer_grammar ''-inf''" "\<not> finite_double_grammar ''-inf''"
  by (simp_all add: canonical_integer_grammar_def finite_double_grammar_def Let_def digits_end_def
      byte_ranges)

lemma numeric_token_int_kind:
  "rt_kind (numeric_token s b e) = TK_int_literal \<longleftrightarrow>
     canonical_integer_grammar s \<and> in_int64 (integer_spelling_value s)"
proof (cases "s = ''-inf''")
  case True
  then show ?thesis using minus_inf_not_numeric by (simp add: numeric_token_def make_token_def)
next
  case False
  then show ?thesis
    by (auto simp: numeric_token_def Let_def parse_canonical_integer_def from_chars_integer_def int64_def
        make_token_def split: prod.split chars_error.split)
qed

lemma decimal_notation_canonical [simp]: "canonical_integer_grammar (decimal_notation v)"
  by (simp add: canonical_integer_is_notation)

text \<open>C29: integer literals round trip: the tokens of kind \<open>int_literal\<close> are exactly the
  decimal notations of the 64-bit integers, each with the integer it writes; the notation of
  any other integer is a range error, not a wrapped or truncated value.\<close>

theorem integer_literal_roundtrip:
  "(rt_kind (numeric_token s b e) = TK_int_literal \<longleftrightarrow> (\<exists>w. in_int64 w \<and> s = decimal_notation w)) \<and>
   (let t = numeric_token (decimal_notation v) b e in
    if in_int64 v
    then rt_kind t = TK_int_literal \<and> sint (rt_integer t) = v \<and> rt_literal_error t = LE_none
    else rt_kind t = TK_malformed_literal \<and> rt_literal_error t = LE_range)"
proof
  show "rt_kind (numeric_token s b e) = TK_int_literal \<longleftrightarrow> (\<exists>w. in_int64 w \<and> s = decimal_notation w)"
    unfolding numeric_token_int_kind canonical_integer_is_notation by auto
  have "decimal_notation v \<noteq> ''-inf''"
    using minus_inf_not_numeric(1) decimal_notation_canonical [of v] by metis
  then show "let t = numeric_token (decimal_notation v) b e in
    if in_int64 v
    then rt_kind t = TK_int_literal \<and> sint (rt_integer t) = v \<and> rt_literal_error t = LE_none
    else rt_kind t = TK_malformed_literal \<and> rt_literal_error t = LE_range"
    by (auto simp: numeric_token_def Let_def parse_canonical_integer_def from_chars_integer_def int64_def
        make_token_def in_int64_def sint_of_int64)
qed

section \<open>The shape of double literals\<close>

lemma digits_end_split:
  "i \<le> length s \<Longrightarrow> drop i s = takeWhile is_digit (drop i s) @ drop (digits_end s i) s \<and>
     digits_end s i \<le> length s"
  unfolding digits_end_def
  by (metis add.commute drop_drop dropWhile_eq_drop le_add_diff_inverse length_drop length_takeWhile_le
      nat_add_left_cancel_le takeWhile_dropWhile_id)

lemma byte_at_drop: "byte_at s i cs \<longleftrightarrow> (\<exists>c r. drop i s = c # r \<and> c \<in> cs)"
proof (cases "i < length s")
  case True
  then have "drop i s = s ! i # drop (Suc i) s" by (simp add: Cons_nth_drop_Suc)
  then show ?thesis using True by (simp add: byte_at_def)
qed (simp add: byte_at_def)

text \<open>Sign, integer digits, fraction part and exponent part of a spelling.\<close>

definition fraction_part :: "bytes \<Rightarrow> bool" where
  "fraction_part f \<longleftrightarrow> f = [] \<or> (\<exists>ds. f = CHR ''.'' # ds \<and> list_all is_digit ds \<and> ds \<noteq> [])"

definition exponent_part :: "bytes \<Rightarrow> bool" where
  "exponent_part x \<longleftrightarrow>
     x = [] \<or> (\<exists>m sign ds. x = m # sign @ ds \<and> m \<in> {CHR ''e'', CHR ''E''} \<and> sign \<in> {[], ''+'', ''-''} \<and>
                 list_all is_digit ds \<and> ds \<noteq> [])"

lemma exponent_partI:
  "m \<in> {CHR ''e'', CHR ''E''} \<Longrightarrow> sign \<in> {[], ''+'', ''-''} \<Longrightarrow> list_all is_digit ds \<Longrightarrow> ds \<noteq> [] \<Longrightarrow>
     exponent_part (m # sign @ ds)"
  unfolding exponent_part_def by blast

definition decimal_shape :: "bytes \<Rightarrow> bytes \<Rightarrow> bytes \<Rightarrow> bytes \<Rightarrow> bytes \<Rightarrow> bool" where
  "decimal_shape s sign w f x \<longleftrightarrow>
     s = sign @ w @ f @ x \<and> sign \<in> {[], ''-''} \<and> list_all is_digit w \<and> w \<noteq> [] \<and>
     fraction_part f \<and> exponent_part x \<and> (f \<noteq> [] \<or> x \<noteq> [])"

lemma all_digits_takeWhile [simp]: "list_all is_digit (takeWhile is_digit xs)"
  by (auto simp: list_all_iff dest: set_takeWhileD)

lemma finite_double_shape:
  assumes "finite_double_grammar s"
  obtains sign w f x where "decimal_shape s sign w f x"
proof -
  define i0 where "i0 = (if s \<noteq> [] \<and> hd s = CHR ''-'' then 1 else 0 :: nat)"
  define i1 where "i1 = digits_end s i0"
  define hf where "hf = byte_at s i1 {CHR ''.''}"
  define i2 where "i2 = (if hf then digits_end s (i1 + 1) else i1)"
  define he where "he = byte_at s i2 {CHR ''e'', CHR ''E''}"
  define xb where "xb = (if byte_at s (i2 + 1) {CHR ''+'', CHR ''-''} then i2 + 2 else i2 + 1)"
  define i3 where "i3 = (if he then digits_end s xb else i2)"
  have g: "i0 \<noteq> i1" "hf \<Longrightarrow> i1 + 1 \<noteq> i2" "he \<Longrightarrow> xb \<noteq> i3" "i3 = length s" "hf \<or> he"
    using assms
    by (simp_all add: finite_double_grammar_def Let_def i0_def i1_def hf_def i2_def he_def xb_def i3_def
        split: if_splits)
  have i0: "i0 \<le> length s" by (cases s) (auto simp: i0_def)
  have sign: "s = take i0 s @ drop i0 s" "take i0 s \<in> {[], ''-''}"
    by (cases s; auto simp: i0_def)+
  define w where "w = takeWhile is_digit (drop i0 s)"
  have w: "drop i0 s = w @ drop i1 s" "i1 \<le> length s"
    using digits_end_split [OF i0] by (simp_all add: w_def i1_def)
  have "w \<noteq> []" using g(1) by (auto simp: i1_def digits_end_def w_def)
  obtain f where f: "drop i1 s = f @ drop i2 s" "fraction_part f" "f = [] \<longleftrightarrow> \<not> hf" "i2 \<le> length s"
  proof (cases hf)
    case True
    then obtain r where r: "drop i1 s = CHR ''.'' # r" by (auto simp: hf_def byte_at_drop)
    then have "i1 < length s" by (metis drop_all leI list.distinct(1))
    then have less: "i1 + 1 \<le> length s" by simp
    have r': "r = drop (i1 + 1) s" using r by (metis add.commute drop_Suc_Cons drop_0 drop_drop plus_1_eq_Suc)
    have i2: "i2 = digits_end s (i1 + 1)" using True by (simp add: i2_def)
    note split = digits_end_split [OF less, folded i2]
    have "takeWhile is_digit (drop (i1 + 1) s) \<noteq> []"
      using g(2) [OF True] i2 by (auto simp: digits_end_def)
    then show thesis
      using that [of "CHR ''.'' # takeWhile is_digit (drop (i1 + 1) s)"] split r r' True
      by (auto simp: fraction_part_def)
  next
    case False
    then show thesis using that [of "[]"] w(2) by (simp add: i2_def fraction_part_def)
  qed
  have x: "exponent_part (drop i2 s) \<and> (he \<longrightarrow> drop i2 s \<noteq> [])"
  proof (cases he)
    case True
    then obtain m r where r: "drop i2 s = m # r" "m \<in> {CHR ''e'', CHR ''E''}"
      by (auto simp: he_def byte_at_drop)
    then have "i2 < length s" by (metis drop_all leI list.distinct(1))
    have r': "r = drop (i2 + 1) s" using r(1) by (metis add.commute drop_Suc_Cons drop_0 drop_drop plus_1_eq_Suc)
    obtain sg where sg: "r = sg @ drop xb s" "sg \<in> {[], ''+'', ''-''}" "xb \<le> length s"
    proof (cases "byte_at s (i2 + 1) {CHR ''+'', CHR ''-''}")
      case True
      then obtain c r2 where c: "drop (i2 + 1) s = c # r2" "c \<in> {CHR ''+'', CHR ''-''}"
        by (auto simp: byte_at_drop)
      then have "i2 + 1 < length s" by (metis drop_all leI list.distinct(1))
      moreover have "r2 = drop (i2 + 2) s"
        using c(1) by (metis add_2_eq_Suc' add.commute drop_Suc_Cons drop_0 drop_drop plus_1_eq_Suc Suc_eq_plus1)
      ultimately show thesis using that [of "[c]"] c r' True by (auto simp: xb_def)
    next
      case False
      then show thesis using that [of "[]"] r' \<open>i2 < length s\<close> by (simp add: xb_def)
    qed
    have i3: "i3 = digits_end s xb" using True by (simp add: i3_def)
    have "drop xb s = takeWhile is_digit (drop xb s)"
      using digits_end_split [OF sg(3)] g(4) i3 by simp
    then have ds: "list_all is_digit (drop xb s)" by (metis all_digits_takeWhile)
    have "drop xb s \<noteq> []"
      using g(3) [OF True] i3 by (auto simp: digits_end_def)
    then show ?thesis
      unfolding r(1) sg(1) using exponent_partI [OF r(2) sg(2) ds] by simp
  next
    case False
    then show ?thesis using g(4) by (simp add: i3_def exponent_part_def)
  qed
  have whole: "s = take i0 s @ w @ f @ drop i2 s" using sign(1) w(1) f(1) by metis
  have digits: "list_all is_digit w" unfolding w_def by (rule all_digits_takeWhile)
  have some: "f \<noteq> [] \<or> drop i2 s \<noteq> []" using f(3) x g(5) by blast
  have "decimal_shape s (take i0 s) w f (drop i2 s)"
    unfolding decimal_shape_def
    by (intro conjI whole sign(2) digits \<open>w \<noteq> []\<close> f(2) conjunct1 [OF x] some)
  then show thesis by (rule that)
qed

definition signed_digits :: "bytes \<Rightarrow> bytes \<Rightarrow> int" where
  "signed_digits sign ds = (if sign = ''-'' then - int (digits_value ds) else int (digits_value ds))"

lemma digit_not_marker:
  "is_digit c \<Longrightarrow> c \<noteq> CHR ''-'' \<and> c \<noteq> CHR ''+'' \<and> c \<noteq> CHR ''.'' \<and> c \<noteq> CHR ''e'' \<and> c \<noteq> CHR ''E''"
  by (auto simp: byte_ranges)

lemma digits_no_marker:
  "list_all is_digit w \<Longrightarrow> m \<in> {CHR ''-'', CHR ''+'', CHR ''.'', CHR ''e'', CHR ''E''} \<Longrightarrow> m \<notin> set w"
  using digit_not_marker by (fastforce simp: list_all_iff)

text \<open>The parts of a spelling, read off its shape.\<close>

lemma decimal_shapeD:
  assumes "decimal_shape s sign w f x"
  shows "s = sign @ w @ f @ x" "list_all is_digit w" "w \<noteq> []" "fraction_part f" "exponent_part x"
    "sign = [] \<or> sign = ''-''" "f \<noteq> [] \<or> x \<noteq> []"
  using assms by (auto simp: decimal_shape_def)

lemma fraction_part_digits:
  assumes "fraction_part f"
  shows "list_all is_digit (tl f)" "f = [] \<or> (\<exists>fd. f = CHR ''.'' # fd)" "filter is_digit f = tl f"
    "c \<in> set f \<Longrightarrow> c = CHR ''.'' \<or> is_digit c"
proof -
  show d: "list_all is_digit (tl f)" and f: "f = [] \<or> (\<exists>fd. f = CHR ''.'' # fd)"
    using assms by (auto simp: fraction_part_def)
  have "filter is_digit (tl f) = tl f" using d by (simp add: filter_id_conv list_all_iff)
  then show "filter is_digit f = tl f"
    using f by (auto simp: byte_ranges)
  show "c \<in> set f \<Longrightarrow> c = CHR ''.'' \<or> is_digit c"
    using d f by (auto simp: list_all_iff)
qed

lemma shape_unsigned:
  assumes "decimal_shape s sign w f x"
  shows "unsigned_part s = w @ f @ x" "hd s = CHR ''-'' \<longleftrightarrow> sign = ''-''"
proof -
  note parts = decimal_shapeD [OF assms]
  have "hd w \<noteq> CHR ''-''" using parts(2,3) digit_not_marker by (cases w) auto
  then show "unsigned_part s = w @ f @ x" "hd s = CHR ''-'' \<longleftrightarrow> sign = ''-''"
    using parts(1,3,6) by (auto simp: unsigned_part_def)
qed

lemma shape_split_exponent:
  assumes "decimal_shape s sign w f x"
  shows "takeWhile (\<lambda>c. c \<noteq> CHR ''e'' \<and> c \<noteq> CHR ''E'') (w @ f @ x) = w @ f"
    and "dropWhile (\<lambda>c. c \<noteq> CHR ''e'' \<and> c \<noteq> CHR ''E'') (w @ f @ x) = x"
proof -
  let ?p = "\<lambda>c. c \<noteq> CHR ''e'' \<and> c \<noteq> CHR ''E''"
  note parts = decimal_shapeD [OF assms]
  have all: "?p c" if "c \<in> set (w @ f)" for c
    using that parts(2) digit_not_marker [of c] fraction_part_digits(4) [OF parts(4), of c]
    by (auto simp: list_all_iff)
  have x: "x = [] \<or> \<not> ?p (hd x)" using parts(5) by (auto simp: exponent_part_def)
  then have "takeWhile ?p x = []" "dropWhile ?p x = x"
    by (cases x; auto)+
  then have "takeWhile ?p ((w @ f) @ x) = w @ f" "dropWhile ?p ((w @ f) @ x) = x"
    using all takeWhile_append2 [of "w @ f" ?p x] dropWhile_append2 [of "w @ f" ?p x] by auto
  then show "takeWhile ?p (w @ f @ x) = w @ f" "dropWhile ?p (w @ f @ x) = x" by simp_all
qed

lemma shape_mantissa_digits:
  assumes "decimal_shape s sign w f x"
  shows "mantissa_digits s = w @ tl f"
proof -
  note parts = decimal_shapeD [OF assms]
  have "filter is_digit w = w" using parts(2) by (simp add: filter_id_conv list_all_iff)
  then show ?thesis
    using shape_split_exponent(1) [OF assms] fraction_part_digits(3) [OF parts(4)]
    by (simp add: mantissa_digits_def shape_unsigned [OF assms])
qed

lemma shape_fraction_length:
  assumes "decimal_shape s sign w f x"
  shows "fraction_length s = length (tl f)"
proof -
  note parts = decimal_shapeD [OF assms]
  let ?p = "\<lambda>c. c \<noteq> CHR ''.''"
  have front: "?p c" if "c \<in> set (sign @ w)" for c
    using that parts(2,6) digit_not_marker [of c] by (auto simp: list_all_iff)
  have tail: "x = [] \<or> \<not> is_digit (hd x)" using parts(5) by (auto simp: exponent_part_def byte_ranges)
  have no_point: "?p c" if "c \<in> set x" for c
    using that parts(5) digit_not_marker [of c] by (auto simp: exponent_part_def list_all_iff)
  have "dropWhile ?p s = dropWhile ?p (f @ x)"
    using front parts(1) dropWhile_append2 [of "sign @ w" ?p "f @ x"] by simp
  also have "\<dots> = (if f = [] then [] else f @ x)"
    using fraction_part_digits(2) [OF parts(4)] no_point by (auto simp: dropWhile_eq_Nil_conv)
  finally have d: "dropWhile ?p s = (if f = [] then [] else f @ x)" .
  have "takeWhile is_digit (tl f @ x) = tl f"
    using fraction_part_digits(1) [OF parts(4)] tail
    by (subst takeWhile_append2) (auto simp: list_all_iff takeWhile_eq_Nil_iff)
  then show ?thesis
    unfolding fraction_length_def d using fraction_part_digits(2) [OF parts(4)] by auto
qed

text \<open>The exponent the code accumulates agrees with the exponent written unless it is clamped,
  when both are at least a million in magnitude.\<close>

lemma accumulate_exponent_clamp:
  "list_all is_digit ds \<Longrightarrow>
     accumulate_exponent ds = int (digits_value ds) \<or>
     1000000 \<le> accumulate_exponent ds \<and> accumulate_exponent ds \<le> int (digits_value ds)"
proof (induction ds rule: rev_induct)
  case (snoc c ds)
  let ?a = "accumulate_exponent ds"
  have step: "accumulate_exponent (ds @ [c]) = (if ?a < 1000000 then ?a * 10 + int (digit_value c) else ?a)"
    by (simp add: accumulate_exponent_def)
  from snoc consider "?a = int (digits_value ds)" | "1000000 \<le> ?a" "?a \<le> int (digits_value ds)" by auto
  then show ?case
    unfolding step by cases auto
qed (simp add: accumulate_exponent_def)

lemma shape_exponent:
  assumes "decimal_shape s sign w f x"
  shows "exponent_value s \<le> explicit_exponent_of x \<or> 1000000 \<le> explicit_exponent_of x"
proof -
  note parts = decimal_shapeD [OF assms]
  have written: "exponent_value s = (case x of [] \<Rightarrow> 0 | _ # cs \<Rightarrow>
      if hd cs = CHR ''-'' then - int (digits_value (tl cs))
      else if hd cs = CHR ''+'' then int (digits_value (tl cs)) else int (digits_value cs))"
    by (simp only: exponent_value_def shape_unsigned [OF assms] shape_split_exponent [OF assms])
  show ?thesis
  proof (cases "x = []")
    case True
    then show ?thesis by (simp add: written explicit_exponent_of_def)
  next
    case False
    then obtain m sg ds where x: "x = m # sg @ ds" "sg \<in> {[], ''+'', ''-''}" "list_all is_digit ds" "ds \<noteq> []"
      using parts(5) by (auto simp: exponent_part_def)
    then obtain d ds' where ds: "ds = d # ds'" "is_digit d" by (cases ds) auto
    note clamp = accumulate_exponent_clamp [OF x(3)]
    from x(2) consider "sg = []" | "sg = ''+''" | "sg = ''-''" by blast
    then show ?thesis
    proof cases
      case 1
      then show ?thesis
        using clamp x ds digit_not_marker [OF ds(2)]
        by (auto simp: written explicit_exponent_of_def)
    next
      case 2
      then show ?thesis
        using clamp x ds by (auto simp: written explicit_exponent_of_def)
    next
      case 3
      then show ?thesis
        using clamp x ds by (auto simp: written explicit_exponent_of_def)
    qed
  qed
qed

section \<open>The decimal exponent\<close>

definition first_nonzero_digit :: "bytes \<Rightarrow> nat option" where
  "first_nonzero_digit ds =
     (if \<exists>c \<in> set ds. c \<noteq> CHR ''0'' then Some (length (takeWhile (\<lambda>c. c = CHR ''0'') ds)) else None)"

lemma first_nonzero_digit_append:
  "first_nonzero_digit (xs @ ys) =
     (case first_nonzero_digit xs of
        Some k \<Rightarrow> Some k | None \<Rightarrow> map_option ((+) (length xs)) (first_nonzero_digit ys))"
proof (cases "\<exists>c \<in> set xs. c \<noteq> CHR ''0''")
  case True
  then obtain c where "c \<in> set xs" "c \<noteq> CHR ''0''" by blast
  then show ?thesis
    using takeWhile_append1 [of c xs "\<lambda>c. c = CHR ''0''" ys] by (auto simp: first_nonzero_digit_def)
next
  case False
  then show ?thesis by (auto simp: first_nonzero_digit_def takeWhile_append)
qed

lemma map_option_add_0 [simp]: "map_option ((+) (0 :: nat)) fn = fn"
  by (cases fn) simp_all

lemma first_nonzero_digit_Cons:
  "first_nonzero_digit (c # cs) =
     (if c \<noteq> CHR ''0'' then Some 0 else map_option Suc (first_nonzero_digit cs))"
  by (auto simp: first_nonzero_digit_def)

lemma scan_mantissa_digits:
  "list_all is_digit w \<Longrightarrow>
     scan_mantissa (w @ rest) b n fn =
       scan_mantissa rest b (n + length w)
         (case fn of Some k \<Rightarrow> Some k | None \<Rightarrow> map_option ((+) n) (first_nonzero_digit w))"
proof (induction w arbitrary: n fn)
  case Nil
  then show ?case by (simp add: first_nonzero_digit_def split: option.split)
next
  case (Cons c w)
  then show ?case
    using digit_not_marker [of c]
    by (cases "first_nonzero_digit w"; cases fn) (auto simp: first_nonzero_digit_Cons)
qed

lemma shape_scan_mantissa:
  assumes "decimal_shape s sign w f x"
  shows "scan_mantissa (unsigned_part s) 0 0 None =
    (if f = [] then 0 else length w, length w + length (tl f), first_nonzero_digit (w @ tl f), x)"
proof -
  note parts = decimal_shapeD [OF assms]
  have stop: "scan_mantissa x b n fn = (b, n, fn, x)" for b n fn
    using parts(5) by (auto simp: exponent_part_def)
  show ?thesis
  proof (cases "f = []")
    case True
    then show ?thesis
      using scan_mantissa_digits [OF parts(2), of x 0 0 None] stop
      by (simp add: shape_unsigned [OF assms])
  next
    case False
    then obtain fd where f: "f = CHR ''.'' # fd" using fraction_part_digits(2) [OF parts(4)] by blast
    have fd: "list_all is_digit fd" using fraction_part_digits(1) [OF parts(4)] f by simp
    show ?thesis
      using scan_mantissa_digits [OF parts(2), of "f @ x" 0 0 None] stop
        scan_mantissa_digits [OF fd, of x "length w" "length w" "first_nonzero_digit w"]
      by (simp add: shape_unsigned [OF assms] f first_nonzero_digit_append
          split: option.split)
  qed
qed

lemma shape_scientific_exponent:
  assumes "decimal_shape s sign w f x"
  shows "decimal_scientific_exponent s =
    (case first_nonzero_digit (w @ tl f) of
       None \<Rightarrow> 0
     | Some k \<Rightarrow> explicit_exponent_of x + clamp_count (length w) - clamp_count k - 1)"
proof -
  note parts = decimal_shapeD [OF assms]
  have no_point: "list_all is_digit ds \<Longrightarrow> CHR ''.'' \<notin> set ds" for ds
    using digits_no_marker [of ds "CHR ''.''"] by simp
  have "CHR ''.'' \<notin> set w" "CHR ''.'' \<notin> set sign" using parts(6) no_point [OF parts(2)] by auto
  moreover have "CHR ''.'' \<notin> set x"
    using parts(5) by (auto simp: exponent_part_def dest: no_point)
  ultimately have "CHR ''.'' \<in> set s \<longleftrightarrow> f \<noteq> []"
    using parts(1) fraction_part_digits(2) [OF parts(4)] by auto
  then show ?thesis
    unfolding decimal_scientific_exponent_def shape_scan_mantissa [OF assms] Let_def prod.case
    by (cases f) (simp_all split: option.split)
qed

lemma digits_value_append: "digits_value (xs @ ys) = digits_value xs * 10 ^ length ys + digits_value ys"
proof (induction ys rule: rev_induct)
  case (snoc y ys)
  then show ?case
    using digits_value_snoc [of "xs @ ys" y] by (simp add: algebra_simps)
qed simp

lemma digits_value_less: "list_all is_digit ds \<Longrightarrow> digits_value ds < 10 ^ length ds"
proof (induction ds rule: rev_induct)
  case (snoc d ds)
  then show ?case using digit_value_bound [of d] by simp
qed simp

lemma first_nonzero_digit_bound:
  assumes "list_all is_digit ds" "first_nonzero_digit ds = Some k"
  shows "k < length ds \<and> digits_value ds < 10 ^ (length ds - k)"
proof -
  let ?z = "takeWhile (\<lambda>c. c = CHR ''0'') ds" and ?r = "dropWhile (\<lambda>c. c = CHR ''0'') ds"
  have split: "ds = ?z @ ?r" by simp
  have k: "k = length ?z" and some: "?r \<noteq> []"
    using assms(2) by (auto simp: first_nonzero_digit_def dropWhile_eq_Nil_conv split: if_splits)
  have zeros: "\<forall>c \<in> set zs. c = CHR ''0'' \<Longrightarrow> digits_value zs = 0" for zs
    by (induction zs rule: rev_induct) (auto simp: digit_value_def)
  have "digits_value ?z = 0" by (rule zeros) (auto dest: set_takeWhileD)
  then have "digits_value ds = digits_value ?r"
    using digits_value_append [of ?z ?r] by simp
  moreover have "list_all is_digit ?r"
    using assms(1) by (auto simp: list_all_iff dest: set_dropWhileD)
  moreover have "length ds = k + length ?r" using k length_append [of ?z ?r] by simp
  moreover have "0 < length ?r" using some by simp
  ultimately show ?thesis using digits_value_less [of ?r] by simp
qed

text \<open>A literal of at most a million bytes that the code rounds to zero is below one.\<close>

lemma rounds_to_zero_small:
  assumes "finite_double_grammar s" "length s \<le> 1000000" "decimal_rounds_to_zero s"
  shows "decimal_numerator s < decimal_denominator s"
proof -
  obtain sign w f x where shape: "decimal_shape s sign w f x"
    using finite_double_shape [OF assms(1)] .
  note parts = decimal_shapeD [OF shape]
  let ?ds = "w @ tl f"
  have digits: "list_all is_digit ?ds"
    using parts(2) fraction_part_digits(1) [OF parts(4)] by simp
  have sci: "decimal_scientific_exponent s \<le> -324"
    using assms(3) by (auto simp: decimal_rounds_to_zero_def Let_def split: if_splits)
  then obtain k where k: "first_nonzero_digit ?ds = Some k"
    by (auto simp: shape_scientific_exponent [OF shape] split: option.splits)
  note bound = first_nonzero_digit_bound [OF digits k]
  have len: "length w \<le> 1000000" "length ?ds \<le> 1000000"
    using assms(2) parts(1) by (auto intro: order_trans [of _ "length f"])
  then have "explicit_exponent_of x + int (length w) - int k - 1 \<le> -324"
    using sci bound by (simp add: shape_scientific_exponent [OF shape] k clamp_count_def)
  moreover from this have "exponent_value s \<le> explicit_exponent_of x"
    using shape_exponent [OF shape] bound len by linarith
  ultimately have small: "decimal_exponent s + int (length ?ds) - int k < 0"
    by (simp add: decimal_exponent_def shape_fraction_length [OF shape])
  then have neg: "decimal_exponent s < 0" using bound by linarith
  have "length ?ds - k \<le> nat (- decimal_exponent s)" using small bound by linarith
  then have "10 ^ (length ?ds - k) \<le> (10 :: nat) ^ nat (- decimal_exponent s)"
    by (intro power_increasing) simp_all
  with conjunct2 [OF bound] have "digits_value ?ds < 10 ^ nat (- decimal_exponent s)"
    by (rule less_le_trans)
  then show ?thesis
    using neg
    by (simp add: decimal_numerator_def decimal_denominator_def shape_mantissa_digits [OF shape])
qed

section \<open>Correct rounding\<close>

lemma decimal_denominator_pos: "0 < decimal_denominator s"
  by (simp add: decimal_denominator_def)

lemma small_rounds_finite:
  assumes "0 < d" "n < d"
  shows "round_code (n * 2 ^ 1074) d \<noteq> infinity_code"
proof
  let ?c = "nearest_code (n * 2 ^ 1074) d"
  assume "round_code (n * 2 ^ 1074) d = infinity_code"
  then have "infinity_code \<le> ?c" by (simp add: round_code_def min_def split: if_splits)
  then have "units infinity_code \<le> units ?c" by simp
  moreover have "units infinity_code = 2 ^ 2098"
    by (simp add: units_def infinity_code_def)
  moreover have "int (units ?c) * int d \<le> 2 * int (n * 2 ^ 1074)"
    using nearest_code_nearest(1) [OF assms(1), of "n * 2 ^ 1074" 0] unfolding distance_def by simp
  then have "units ?c * d \<le> 2 * (n * 2 ^ 1074)"
    unfolding of_nat_mult [symmetric] of_nat_le_iff [symmetric, where 'a = int] by simp
  then have "units ?c * d \<le> n * 2 ^ 1075" by simp
  ultimately have "2 ^ 2098 \<le> units ?c" "units ?c * d \<le> n * 2 ^ 1075" by simp_all
  then have "2 ^ 2098 * d \<le> n * 2 ^ 1075"
    by (rule order_trans [OF mult_le_mono1])
  also have "\<dots> < d * 2 ^ 1075" using assms(2) by simp
  finally show False using assms(1) by (simp add: mult.commute)
qed

lemma finite_double_not_integer:
  assumes "finite_double_grammar s"
  shows "\<not> canonical_integer_grammar s" "s \<noteq> ''-inf''"
proof -
  obtain sign w f x where shape: "decimal_shape s sign w f x"
    using finite_double_shape [OF assms] .
  note parts = decimal_shapeD [OF shape]
  have "\<exists>c \<in> set s. \<not> is_digit c \<and> c \<noteq> CHR ''-''"
  proof (cases "f = []")
    case True
    then have "x \<noteq> []" using parts(7) by simp
    then obtain m r where "x = m # r" "m = CHR ''e'' \<or> m = CHR ''E''"
      using parts(5) by (auto simp: exponent_part_def)
    then show ?thesis using parts(1) by (auto simp: byte_ranges)
  next
    case False
    then show ?thesis using parts(1) fraction_part_digits(2) [OF parts(4)] by (auto simp: byte_ranges)
  qed
  moreover have "is_digit c \<or> c = CHR ''-''" if "canonical_integer_grammar s" "c \<in> set s" for c
    using that by (auto simp: canonical_integer_cases list_all_iff)
  ultimately show "\<not> canonical_integer_grammar s" by blast
  show "s \<noteq> ''-inf''" using assms minus_inf_not_numeric(2) by blast
qed

lemma numeric_token_double:
  assumes "finite_double_grammar s"
  shows "numeric_token s b e =
    (let token = make_token TK_malformed_literal b e; code = rounded_decimal s;
         zero = (code = infinity_code \<or> (code = 0 \<and> digits_value (mantissa_digits s) \<noteq> 0)) in
     if zero \<and> \<not> decimal_rounds_to_zero s then token\<lparr>rt_literal_error := LE_range\<rparr>
     else token\<lparr>rt_kind := TK_double_literal,
                rt_double := make_binary64 (hd s = CHR ''-'') (if zero then 0 else code)\<rparr>)"
proof -
  have "\<not> binary64_is_nan (make_binary64 n (rounded_decimal s))" for n
    unfolding rounded_decimal_def by (rule make_rounded_not_nan)
  moreover have "binary64_is_infinity (make_binary64 n (rounded_decimal s)) \<longleftrightarrow>
      rounded_decimal s = infinity_code" for n
    using make_binary64_parts(2) [OF round_code_less] by (simp add: is_infinity_iff rounded_decimal_def)
  moreover have "make_binary64 True 0 = 0x8000000000000000" "make_binary64 False 0 = 0"
    by (simp_all add: make_binary64_def binary64_sign_bit_def)
  ultimately show ?thesis
    using finite_double_not_integer [OF assms] assms
    by (auto simp: numeric_token_def parse_canonical_integer_def parse_finite_double_def Let_def
        make_token_def)
qed

text \<open>C30: decimal literals are correctly rounded: for a spelling of the double grammar of at
  most a million bytes, either the token is a double literal with the sign of the spelling,
  finite, and the binary64 nearest to the number written, ties to even; or it is reported as
  a range error, and then the number rounds to infinity or is a number other than zero that
  rounds to zero. No spelling yields infinity or a NaN.\<close>

theorem double_literal_correctly_rounded:
  assumes "finite_double_grammar s" "length s \<le> 1000000"
  shows "let t = numeric_token s b e; n = int (decimal_numerator s) in
    if rt_kind t = TK_double_literal
    then finite_binary64 (rt_double t) \<and> (is_minus (rt_double t) \<longleftrightarrow> hd s = CHR ''-'') \<and>
         nearest_to (rt_double t) (int (decimal_denominator s))
           ((if hd s = CHR ''-'' then - n else n) * 2 ^ 1074)
    else rt_kind t = TK_malformed_literal \<and> rt_literal_error t = LE_range \<and>
         (rounded_decimal s = infinity_code \<or> rounded_decimal s = 0 \<and> n \<noteq> 0)"
proof -
  let ?code = "rounded_decimal s" and ?minus = "hd s = CHR ''-''"
  let ?n = "int (decimal_numerator s)"
  let ?out = "?code = infinity_code \<or> (?code = 0 \<and> digits_value (mantissa_digits s) \<noteq> 0)"
  have good: "finite_binary64 (make_binary64 ?minus ?code) \<and>
      (is_minus (make_binary64 ?minus ?code) \<longleftrightarrow> ?minus) \<and>
      nearest_to (make_binary64 ?minus ?code) (int (decimal_denominator s))
        ((if ?minus then - ?n else ?n) * 2 ^ 1074)" if "?code \<noteq> infinity_code"
  proof -
    have fin: "finite_binary64 (make_binary64 ?minus ?code)"
      using that make_binary64_parts(2) [OF round_code_less]
      by (simp add: finite_binary64_def rounded_decimal_def) (simp add: round_code_def)
    have scaled: "(if ?minus then - ?n else ?n) * 2 ^ 1074 =
        (if ?minus then - int (decimal_numerator s * 2 ^ 1074) else int (decimal_numerator s * 2 ^ 1074))"
      by simp
    show ?thesis
      unfolding scaled
      using fin make_binary64_parts(1) [OF round_code_less, folded rounded_decimal_def]
        make_rounded_nearest [OF decimal_denominator_pos fin [unfolded rounded_decimal_def]]
      by (intro conjI) (simp_all only: rounded_decimal_def make_binary64_parts(1) [OF round_code_less])
  qed
  have zero: "?code \<noteq> infinity_code" if "decimal_rounds_to_zero s"
    using small_rounds_finite [OF decimal_denominator_pos rounds_to_zero_small [OF assms that]]
    by (simp add: rounded_decimal_def)
  have "decimal_numerator s \<noteq> 0" if "digits_value (mantissa_digits s) \<noteq> 0"
    using that by (simp add: decimal_numerator_def)
  then show ?thesis
    using good zero
    unfolding numeric_token_double [OF assms(1)] Let_def
    by (cases "?out"; cases "decimal_rounds_to_zero s") (auto simp: make_token_def)
qed

lemma one_and_a_half_grammar: "finite_double_grammar ''-1.5e3''"
  by (simp add: finite_double_grammar_def Let_def digits_end_def byte_at_def byte_ranges)

theorem double_literal_correctly_rounded_witness:
  "let t = numeric_token ''-1.5e3'' start_position (position_after ''-1.5e3''); n = int (decimal_numerator ''-1.5e3'') in
    if rt_kind t = TK_double_literal
    then finite_binary64 (rt_double t) \<and> (is_minus (rt_double t) \<longleftrightarrow> hd ''-1.5e3'' = CHR ''-'') \<and>
         nearest_to (rt_double t) (int (decimal_denominator ''-1.5e3''))
           ((if hd ''-1.5e3'' = CHR ''-'' then - n else n) * 2 ^ 1074)
    else rt_kind t = TK_malformed_literal \<and> rt_literal_error t = LE_range \<and>
         (rounded_decimal ''-1.5e3'' = infinity_code \<or> rounded_decimal ''-1.5e3'' = 0 \<and> n \<noteq> 0)"
  by (rule double_literal_correctly_rounded [OF one_and_a_half_grammar]) simp

section \<open>Underflow near half of the smallest double\<close>

lemma nearest_code_zero: "0 < d \<Longrightarrow> 2 * n \<le> d \<Longrightarrow> round_code n d = 0"
  by (simp add: round_code_def nearest_code_def rounding_shift_def round_half_even_def Let_def)

definition underflowing_literal :: bytes where
  "underflowing_literal =
     ''2.47032822920623272088284396434110686182529901307162382212792841250337751e-324''"


end
