(* ===== verification/Parser.thy ===== *)
theory Parser
  imports Tokenizer ErrorModel "HOL-Library.Monad_Syntax"
begin

text \<open>
  The parser of src/rewrite.cpp: the syntax tree in its flat tables, the diagnostics, and
  the loop over the tokens with its explicit stack of contexts.

  \<^item> \<open>no_index\<close> is \<open>None\<close>; every read of a table is bounds-checked, and a read the code would
    make outside it is the result \<open>None\<close> of the operation.
  \<^item> The stack \<open>contexts\<close> is a list whose first element is \<open>contexts.back()\<close>.
  \<^item> The body of the loop is \<open>parse_step\<close>: it continues, finishes, or goes on from the
    handling of the innermost context to the dispatch on the current token.
\<close>

section \<open>Syntax trees\<close>

datatype rewrite_node_kind =
    NK_scalar_literal | NK_vector_literal | NK_tuple_literal | NK_parameter_reference
  | NK_unresolved_name | NK_primitive_call | NK_placeholder | NK_fanout

datatype rewrite_call_syntax = CS_bracketed | CS_prefix

datatype rewrite_parse_error =
    PE_none | PE_invalid_byte | PE_malformed_literal | PE_literal_range | PE_expected_expression
  | PE_primitive_requires_application | PE_whitespace_before_bracket | PE_missing_separator
  | PE_mismatched_delimiter | PE_missing_delimiter | PE_bare_empty_vector
  | PE_heterogeneous_vector | PE_invalid_vector_element | PE_trailing_input
  | PE_unknown_primitive | PE_expected_fanout_open | PE_expected_fanout_operand
  | PE_expected_fanout_branch | PE_expected_branch_open | PE_expected_branch_body
  | PE_expected_branch_close | PE_missing_fanout_close | PE_unexpected_fanout_token
  | PE_nested_fanout | PE_branch_root_not_primitive_call | PE_placeholder_count
  | PE_placeholder_owned_position

definition insertion_span :: "rewrite_position \<Rightarrow> rewrite_span" where
  "insertion_span position = \<lparr>rs_begin = position, rs_end = position\<rparr>"

definition empty_position :: rewrite_position where
  "empty_position = \<lparr>rp_offset = 0, rp_line = 0, rp_column = 0\<rparr>"

record rewrite_node =
  rn_kind :: rewrite_node_kind
  rn_span :: rewrite_span
  rn_element_type :: scalar_type
  rn_boolean :: bool
  rn_integer :: i64
  rn_double :: binary64
  rn_first_element :: nat
  rn_element_count :: nat
  rn_first_element_span :: nat
  rn_call_index :: nat
  rn_declaration_name_span :: rewrite_span

record rewrite_call =
  rc_syntax :: rewrite_call_syntax
  rc_name_span :: rewrite_span
  rc_opening_delimiter_span :: rewrite_span
  rc_closing_delimiter_span :: rewrite_span
  rc_prefix_separator_span :: rewrite_span
  rc_span :: rewrite_span
  rc_first_argument :: nat
  rc_argument_count :: nat
  rc_primitive :: "primitive_id option"

record rewrite_fanout_branch =
  rb_span :: rewrite_span
  rb_opening_span :: rewrite_span
  rb_closing_span :: rewrite_span
  rb_body_span :: rewrite_span
  rb_placeholder_span :: rewrite_span
  rb_root :: nat

record rewrite_fanout =
  rf_keyword_span :: rewrite_span
  rf_opening_span :: rewrite_span
  rf_closing_span :: rewrite_span
  rf_span :: rewrite_span
  rf_operand_span :: rewrite_span
  rf_operand :: nat
  rf_first_branch :: nat
  rf_branch_count :: nat

record rewrite_diagnostic =
  rd_error :: rewrite_parse_error
  rd_primary :: rewrite_span
  rd_context :: rewrite_span
  rd_related :: rewrite_span
  rd_parameter_reason :: "parameter_error_reason option"

record rewrite_parameter_declaration =
  dl_name :: string
  dl_type :: scalar_type
  dl_span :: rewrite_span
  dl_name_span :: rewrite_span
  dl_type_span :: rewrite_span

record rewrite_parameter_header =
  hd_present :: bool
  hd_span :: rewrite_span
  hd_keyword_span :: rewrite_span
  hd_opening_span :: rewrite_span
  hd_closing_span :: rewrite_span
  hd_declarations :: "rewrite_parameter_declaration list"

record rewrite_program =
  pg_source :: bytes
  pg_parameter_header :: rewrite_parameter_header
  pg_nodes :: "rewrite_node list"
  pg_arguments :: "nat list"
  pg_argument_spans :: "rewrite_span list"
  pg_roots :: "nat list"
  pg_calls :: "rewrite_call list"
  pg_boolean_elements :: "bool list"
  pg_integer_elements :: "i64 list"
  pg_double_elements :: "binary64 list"
  pg_vector_element_spans :: "rewrite_span list"
  pg_tuple_elements :: "nat list"
  pg_tuple_element_spans :: "rewrite_span list"
  pg_fanouts :: "rewrite_fanout list"
  pg_fanout_branches :: "rewrite_fanout_branch list"

record rewrite_parse_result =
  pr_ok :: bool
  pr_program :: rewrite_program
  pr_diagnostic :: rewrite_diagnostic

text \<open>Value initialization: \<open>RewriteParameterHeader{}\<close> and \<open>RewriteProgram{}\<close>.\<close>

definition empty_header :: rewrite_parameter_header where
  "empty_header =
     \<lparr>hd_present = False, hd_span = insertion_span empty_position,
      hd_keyword_span = insertion_span empty_position,
      hd_opening_span = insertion_span empty_position,
      hd_closing_span = insertion_span empty_position, hd_declarations = []\<rparr>"

definition empty_program :: rewrite_program where
  "empty_program =
     \<lparr>pg_source = [], pg_parameter_header = empty_header, pg_nodes = [], pg_arguments = [],
      pg_argument_spans = [], pg_roots = [], pg_calls = [], pg_boolean_elements = [],
      pg_integer_elements = [], pg_double_elements = [], pg_vector_element_spans = [],
      pg_tuple_elements = [], pg_tuple_element_spans = [], pg_fanouts = [],
      pg_fanout_branches = []\<rparr>"

section \<open>Contexts\<close>

datatype rewrite_context_kind =
    XK_bracket_call | XK_tuple_literal | XK_prefix_call | XK_fanout | XK_fanout_branch

record rewrite_pending_argument =
  pa_node :: nat
  pa_next :: "nat option"

record rewrite_context =
  cx_kind :: rewrite_context_kind
  cx_name_span :: rewrite_span
  cx_opening_span :: rewrite_span
  cx_separator_span :: rewrite_span
  cx_first_pending_argument :: "nat option"
  cx_last_pending_argument :: "nat option"
  cx_argument_count :: nat
  cx_opening_token_index :: "nat option"
  cx_after_argument :: bool
  cx_fanout_keyword_token_index :: "nat option"
  cx_branch_opening_token_index :: "nat option"

definition new_context ::
    "rewrite_context_kind \<Rightarrow> rewrite_span \<Rightarrow> rewrite_span \<Rightarrow> rewrite_span \<Rightarrow> nat option
     \<Rightarrow> nat option \<Rightarrow> nat option \<Rightarrow> rewrite_context" where
  "new_context kind name opening separator opening_token keyword_token branch_token =
     \<lparr>cx_kind = kind, cx_name_span = name, cx_opening_span = opening,
      cx_separator_span = separator, cx_first_pending_argument = None,
      cx_last_pending_argument = None, cx_argument_count = 0,
      cx_opening_token_index = opening_token, cx_after_argument = False,
      cx_fanout_keyword_token_index = keyword_token,
      cx_branch_opening_token_index = branch_token\<rparr>"

section \<open>Nodes\<close>

definition scalar_token_type :: "rewrite_token_kind \<Rightarrow> scalar_type" where
  "scalar_token_type kind =
     (if kind = TK_bool_literal then ST_boolean
      else if kind = TK_int_literal then ST_integer
      else ST_double_precision)"

definition is_scalar_token :: "rewrite_token_kind \<Rightarrow> bool" where
  "is_scalar_token kind \<longleftrightarrow>
     kind = TK_bool_literal \<or> kind = TK_int_literal \<or> kind = TK_double_literal"

definition plain_node ::
    "rewrite_node_kind \<Rightarrow> rewrite_span \<Rightarrow> scalar_type \<Rightarrow> nat \<Rightarrow> nat \<Rightarrow> nat \<Rightarrow> nat \<Rightarrow> rewrite_node"
where
  "plain_node kind span element_type first_element element_count first_element_span call_index =
     \<lparr>rn_kind = kind, rn_span = span, rn_element_type = element_type, rn_boolean = False,
      rn_integer = 0, rn_double = 0, rn_first_element = first_element,
      rn_element_count = element_count, rn_first_element_span = first_element_span,
      rn_call_index = call_index, rn_declaration_name_span = insertion_span empty_position\<rparr>"

definition scalar_node :: "rewrite_token \<Rightarrow> rewrite_node" where
  "scalar_node token =
     (plain_node NK_scalar_literal (rt_span token) (scalar_token_type (rt_kind token)) 0 0 0 0)
       \<lparr>rn_boolean := rt_boolean token, rn_integer := rt_integer token,
        rn_double := rt_double token\<rparr>"

definition parameter_reference_node ::
    "rewrite_parameter_declaration \<Rightarrow> nat \<Rightarrow> rewrite_span \<Rightarrow> rewrite_node" where
  "parameter_reference_node declaration parameter_index reference_span =
     (plain_node NK_parameter_reference reference_span (dl_type declaration) parameter_index 0 0 0)
       \<lparr>rn_declaration_name_span := dl_name_span declaration\<rparr>"

definition unresolved_name_node :: "rewrite_span \<Rightarrow> rewrite_node" where
  "unresolved_name_node span = plain_node NK_unresolved_name span ST_boolean 0 0 0 0"

text \<open>\<open>program.nodes.push_back(node)\<close>, with the index of the new node.\<close>

definition push_node :: "rewrite_node \<Rightarrow> rewrite_program \<Rightarrow> rewrite_program \<times> nat" where
  "push_node node program =
     (program\<lparr>pg_nodes := pg_nodes program @ [node]\<rparr>, length (pg_nodes program))"

section \<open>Diagnostics\<close>

definition set_diagnostic ::
    "rewrite_parse_result \<Rightarrow> rewrite_parse_error \<Rightarrow> rewrite_span \<Rightarrow> rewrite_span \<Rightarrow> rewrite_span
     \<Rightarrow> rewrite_parse_result" where
  "set_diagnostic result error primary context_span related =
     result\<lparr>pr_ok := False,
            pr_diagnostic := \<lparr>rd_error = error, rd_primary = primary, rd_context = context_span,
                              rd_related = related, rd_parameter_reason = None\<rparr>\<rparr>"

definition set_parameter_diagnostic ::
    "rewrite_parse_result \<Rightarrow> parameter_error_reason \<Rightarrow> rewrite_parse_error \<Rightarrow> rewrite_span
     \<Rightarrow> rewrite_span \<Rightarrow> rewrite_span \<Rightarrow> rewrite_parse_result" where
  "set_parameter_diagnostic result reason error primary context_span related =
     (let result = set_diagnostic result error primary context_span related in
      result\<lparr>pr_diagnostic := (pr_diagnostic result)\<lparr>rd_parameter_reason := Some reason\<rparr>\<rparr>)"

definition span_from :: "rewrite_span \<Rightarrow> rewrite_span \<Rightarrow> rewrite_span" where
  "span_from first last_span = \<lparr>rs_begin = rs_begin first, rs_end = rs_end last_span\<rparr>"

definition span_to_end :: "rewrite_tokens \<Rightarrow> rewrite_span \<Rightarrow> rewrite_span" where
  "span_to_end tokens first = \<lparr>rs_begin = rs_begin first, rs_end = rts_end tokens\<rparr>"

text \<open>The end of the delimiter that closes the one at the index, or the end of the source.\<close>

fun matching_end ::
    "rewrite_token_kind \<Rightarrow> rewrite_token_kind \<Rightarrow> rewrite_position \<Rightarrow> rewrite_token list \<Rightarrow> nat
     \<Rightarrow> rewrite_position" where
  "matching_end opening_kind closing_kind final [] depth = final"
| "matching_end opening_kind closing_kind final (token # rest) depth =
     (if rt_kind token = opening_kind
      then matching_end opening_kind closing_kind final rest (depth + 1)
      else if rt_kind token = closing_kind
      then if depth = 1 then rs_end (rt_span token)
           else matching_end opening_kind closing_kind final rest (depth - 1)
      else matching_end opening_kind closing_kind final rest depth)"

definition delimited_context_span ::
    "rewrite_tokens \<Rightarrow> nat \<Rightarrow> rewrite_token_kind \<Rightarrow> rewrite_span option" where
  "delimited_context_span tokens opening_index closing_kind =
     do { opening \<leftarrow> at (rts_tokens tokens) opening_index;
          Some \<lparr>rs_begin = rs_begin (rt_span opening),
                rs_end = matching_end (rt_kind opening) closing_kind (rts_end tokens)
                           (drop opening_index (rts_tokens tokens)) 0\<rparr> }"

text \<open>With no opening token (\<open>no_index\<close>) the loop of the code does not run.\<close>

definition bracket_call_context_span :: "rewrite_tokens \<Rightarrow> rewrite_context \<Rightarrow> rewrite_span" where
  "bracket_call_context_span tokens context_state =
     \<lparr>rs_begin = rs_begin (cx_name_span context_state),
      rs_end = (case cx_opening_token_index context_state of
                  None \<Rightarrow> rts_end tokens
                | Some index \<Rightarrow> matching_end TK_left_bracket TK_right_bracket (rts_end tokens)
                                  (drop index (rts_tokens tokens)) 0)\<rparr>"

definition rewrite_context_span ::
    "rewrite_tokens \<Rightarrow> rewrite_context \<Rightarrow> rewrite_span option" where
  "rewrite_context_span tokens context_state =
     (if cx_kind context_state = XK_tuple_literal
      then do { index \<leftarrow> cx_opening_token_index context_state;
                delimited_context_span tokens index TK_right_bracket }
      else Some (bracket_call_context_span tokens context_state))"

definition is_blank :: "rewrite_token \<Rightarrow> bool" where
  "is_blank token \<longleftrightarrow> rt_kind token = TK_horizontal_space \<or> rt_kind token = TK_line_terminator"

definition is_space :: "rewrite_token \<Rightarrow> bool" where
  "is_space token \<longleftrightarrow> rt_kind token = TK_horizontal_space"

text \<open>\<open>while (index < tokens.size() && p(tokens[index])) ++index\<close>\<close>

definition skip_while :: "(rewrite_token \<Rightarrow> bool) \<Rightarrow> rewrite_tokens \<Rightarrow> nat \<Rightarrow> nat" where
  "skip_while p tokens index = index + length (takeWhile p (drop index (rts_tokens tokens)))"

definition token_count :: "rewrite_tokens \<Rightarrow> nat" where
  "token_count tokens = length (rts_tokens tokens)"

definition token_at :: "rewrite_tokens \<Rightarrow> nat \<Rightarrow> rewrite_token option" where
  "token_at tokens index = at (rts_tokens tokens) index"

definition kind_at :: "rewrite_tokens \<Rightarrow> nat \<Rightarrow> rewrite_token_kind \<Rightarrow> bool" where
  "kind_at tokens index kind \<longleftrightarrow>
     index < token_count tokens \<and> rt_kind (rts_tokens tokens ! index) = kind"

definition literal_token_error :: "rewrite_token \<Rightarrow> rewrite_parse_error" where
  "literal_token_error token =
     (if rt_literal_error token = LE_range then PE_literal_range else PE_malformed_literal)"

section \<open>Vector literals\<close>

definition vector_payload_size :: "rewrite_program \<Rightarrow> scalar_type \<Rightarrow> nat" where
  "vector_payload_size program element_type =
     (if element_type = ST_boolean then length (pg_boolean_elements program)
      else if element_type = ST_integer then length (pg_integer_elements program)
      else length (pg_double_elements program))"

definition append_vector_element ::
    "rewrite_program \<Rightarrow> rewrite_token \<Rightarrow> scalar_type \<Rightarrow> rewrite_program" where
  "append_vector_element program token element_type =
     (let program = program\<lparr>pg_vector_element_spans :=
                              pg_vector_element_spans program @ [rt_span token]\<rparr> in
      if element_type = ST_boolean
      then program\<lparr>pg_boolean_elements := pg_boolean_elements program @ [rt_boolean token]\<rparr>
      else if element_type = ST_integer
      then program\<lparr>pg_integer_elements := pg_integer_elements program @ [rt_integer token]\<rparr>
      else program\<lparr>pg_double_elements := pg_double_elements program @ [rt_double token]\<rparr>)"

text \<open>How the parser's routines end: with the token index, the result and the new node, or with
  a diagnostic.\<close>

datatype 'a parsed = Parsed 'a | Failed rewrite_parse_result

definition vector_element_error :: "rewrite_token \<Rightarrow> rewrite_parse_error" where
  "vector_element_error token =
     (if rt_kind token = TK_malformed_literal then literal_token_error token
      else if rt_kind token = TK_invalid then PE_invalid_byte
      else PE_invalid_vector_element)"

definition finish_vector ::
    "rewrite_parse_result \<Rightarrow> rewrite_span \<Rightarrow> scalar_type \<Rightarrow> nat \<Rightarrow> nat \<Rightarrow> nat
     \<Rightarrow> rewrite_parse_result \<times> nat" where
  "finish_vector result complete element_type first_element element_count first_element_span =
     (case push_node (plain_node NK_vector_literal complete element_type first_element
                        element_count first_element_span 0) (pr_program result) of
        (program, node) \<Rightarrow> (result\<lparr>pr_program := program\<rparr>, node))"

text \<open>At the end of the source or at a closing delimiter of either kind the literal ends;
  \<open>None\<close> goes on.\<close>

definition vector_close ::
    "rewrite_tokens \<Rightarrow> rewrite_token \<Rightarrow> nat \<Rightarrow> rewrite_parse_result
     \<Rightarrow> scalar_type \<Rightarrow> nat \<Rightarrow> nat \<Rightarrow> nat \<Rightarrow> (nat \<times> rewrite_parse_result \<times> nat) parsed option" where
  "vector_close tokens opening index result element_type first_element element_count
     first_element_span =
     (if index = token_count tokens
      then Some (Failed (set_diagnostic result PE_missing_delimiter
                   (insertion_span (rts_end tokens)) (span_to_end tokens (rt_span opening))
                   (rt_span opening)))
      else if kind_at tokens index TK_right_parenthesis
      then Some (Parsed (index + 1,
             finish_vector result
               (span_from (rt_span opening) (rt_span (rts_tokens tokens ! index)))
               element_type first_element element_count first_element_span))
      else if kind_at tokens index TK_right_bracket
      then Some (Failed (set_diagnostic result PE_mismatched_delimiter
                   (rt_span (rts_tokens tokens ! index))
                   (span_from (rt_span opening) (rt_span (rts_tokens tokens ! index)))
                   (rt_span opening)))
      else None)"

definition vector_failure ::
    "rewrite_tokens \<Rightarrow> nat \<Rightarrow> rewrite_token \<Rightarrow> rewrite_parse_result \<Rightarrow> rewrite_parse_error
     \<Rightarrow> rewrite_token \<Rightarrow> 'a parsed option" where
  "vector_failure tokens opening_index opening result error token =
     do { context_span \<leftarrow> delimited_context_span tokens opening_index TK_right_parenthesis;
          Some (Failed (set_diagnostic result error (rt_span token) context_span
                  (rt_span opening))) }"

lemma skip_while_ge: "index \<le> skip_while p tokens index"
  by (simp add: skip_while_def)

lemma skip_progress:
  "index < n \<Longrightarrow> n - skip_while p tokens (Suc index) < n - index"
  using skip_while_ge [of "Suc index" p tokens] by linarith

lemma token_at_Some: "token_at tokens index = Some token \<longleftrightarrow>
    index < token_count tokens \<and> rts_tokens tokens ! index = token"
  by (simp add: token_at_def token_count_def at_Some_iff)

function vector_elements ::
    "rewrite_tokens \<Rightarrow> nat \<Rightarrow> rewrite_token \<Rightarrow> scalar_type \<Rightarrow> nat \<Rightarrow> nat \<Rightarrow> nat
     \<Rightarrow> rewrite_parse_result \<Rightarrow> nat \<Rightarrow> (nat \<times> rewrite_parse_result \<times> nat) parsed option" where
  "vector_elements tokens opening_index opening element_type first_element first_element_span
     index result element_count =
     (case token_at tokens index of
        None \<Rightarrow> None
      | Some element \<Rightarrow>
          if \<not> is_scalar_token (rt_kind element)
          then vector_failure tokens opening_index opening result (vector_element_error element)
                 element
          else if scalar_token_type (rt_kind element) \<noteq> element_type
          then vector_failure tokens opening_index opening result PE_heterogeneous_vector element
          else
            let result = result\<lparr>pr_program :=
                           append_vector_element (pr_program result) element element_type\<rparr>;
                element_count = element_count + 1
            in case vector_close tokens opening (index + 1) result element_type first_element
                      element_count first_element_span of
                 Some outcome \<Rightarrow> Some outcome
               | None \<Rightarrow>
                   (case token_at tokens (index + 1) of
                      None \<Rightarrow> None
                    | Some after \<Rightarrow>
                        if \<not> is_blank after
                        then vector_failure tokens opening_index opening result
                               (if rt_kind after = TK_invalid then PE_invalid_byte
                                else PE_missing_separator) after
                        else
                          let index = skip_while is_blank tokens (index + 1)
                          in case vector_close tokens opening index result element_type
                                    first_element element_count first_element_span of
                               Some outcome \<Rightarrow> Some outcome
                             | None \<Rightarrow>
                                 vector_elements tokens opening_index opening element_type
                                   first_element first_element_span index result element_count))"
  by pat_completeness auto
termination
  by (relation "measure (\<lambda>(tokens, _, _, _, _, _, index, _). token_count tokens - index)")
     (auto simp: token_at_Some skip_progress)

declare vector_elements.simps [simp del]

definition parse_vector_literal ::
    "rewrite_tokens \<Rightarrow> nat \<Rightarrow> rewrite_parse_result
     \<Rightarrow> (nat \<times> rewrite_parse_result \<times> nat) parsed option" where
  "parse_vector_literal tokens opening_index result =
     (case token_at tokens opening_index of
        None \<Rightarrow> None
      | Some opening \<Rightarrow>
          let index = skip_while is_blank tokens (opening_index + 1) in
          if index = token_count tokens
          then Some (Failed (set_diagnostic result PE_missing_delimiter
                       (insertion_span (rts_end tokens)) (span_to_end tokens (rt_span opening))
                       (rt_span opening)))
          else
            (case token_at tokens index of
               None \<Rightarrow> None
             | Some first \<Rightarrow>
                 if rt_kind first = TK_right_parenthesis
                 then Some (Failed (set_diagnostic result PE_bare_empty_vector
                              (span_from (rt_span opening) (rt_span first))
                              (span_from (rt_span opening) (rt_span first)) (rt_span opening)))
                 else if rt_kind first = TK_right_bracket
                 then Some (Failed (set_diagnostic result PE_mismatched_delimiter (rt_span first)
                              (span_from (rt_span opening) (rt_span first)) (rt_span opening)))
                 else if \<not> is_scalar_token (rt_kind first)
                 then vector_failure tokens opening_index opening result
                        (vector_element_error first) first
                 else
                   let element_type = scalar_token_type (rt_kind first)
                   in vector_elements tokens opening_index opening element_type
                        (vector_payload_size (pr_program result) element_type)
                        (length (pg_vector_element_spans (pr_program result)))
                        index result 0))"

section \<open>Completing calls, tuples and fanouts\<close>

definition append_pending_argument ::
    "rewrite_pending_argument list \<Rightarrow> rewrite_context \<Rightarrow> nat
     \<Rightarrow> (rewrite_pending_argument list \<times> rewrite_context) option" where
  "append_pending_argument pending context_state node =
     (let pending_index = length pending;
          pending = pending @ [\<lparr>pa_node = node, pa_next = None\<rparr>];
          counted = context_state\<lparr>cx_last_pending_argument := Some pending_index,
                                  cx_argument_count := cx_argument_count context_state + 1\<rparr>
      in case cx_first_pending_argument context_state of
           None \<Rightarrow> Some (pending, counted\<lparr>cx_first_pending_argument := Some pending_index\<rparr>)
         | Some _ \<Rightarrow>
             do { last_index \<leftarrow> cx_last_pending_argument context_state;
                  entry \<leftarrow> at pending last_index;
                  Some (pending[last_index := entry\<lparr>pa_next := Some pending_index\<rparr>], counted) })"

text \<open>The loop over the pending arguments of a context; \<open>None\<close> also when it would not end.\<close>

partial_function (option) pending_nodes ::
    "rewrite_pending_argument list \<Rightarrow> nat option \<Rightarrow> nat list option" where
  "pending_nodes pending index =
     (case index of
        None \<Rightarrow> Some []
      | Some i \<Rightarrow>
          do { entry \<leftarrow> at pending i;
               rest \<leftarrow> pending_nodes pending (pa_next entry);
               Some (pa_node entry # rest) })"

lemma pending_nodes_code [code]:
  "pending_nodes pending index =
     (case index of
        None \<Rightarrow> Some []
      | Some i \<Rightarrow>
          (case at pending i of
             None \<Rightarrow> None
           | Some entry \<Rightarrow>
               (case pending_nodes pending (pa_next entry) of
                  None \<Rightarrow> None
                | Some rest \<Rightarrow> Some (pa_node entry # rest))))"
  by (subst pending_nodes.simps) (simp split: option.split)

definition node_spans :: "rewrite_program \<Rightarrow> nat list \<Rightarrow> rewrite_span list option" where
  "node_spans program nodes =
     those (map (\<lambda>i. map_option rn_span (at (pg_nodes program) i)) nodes)"

definition finish_call ::
    "rewrite_program \<Rightarrow> rewrite_pending_argument list \<Rightarrow> rewrite_context \<Rightarrow> rewrite_span
     \<Rightarrow> rewrite_span \<Rightarrow> (rewrite_program \<times> nat) option" where
  "finish_call program pending context_state closing_span complete_span =
     do { nodes \<leftarrow> pending_nodes pending (cx_first_pending_argument context_state);
          spans \<leftarrow> node_spans program nodes;
          Some (push_node
            (plain_node NK_primitive_call complete_span ST_boolean 0 0 0
               (length (pg_calls program)))
            (program\<lparr>pg_arguments := pg_arguments program @ nodes,
               pg_argument_spans := pg_argument_spans program @ spans,
               pg_calls := pg_calls program @
                 [\<lparr>rc_syntax = (if cx_kind context_state = XK_bracket_call
                                then CS_bracketed else CS_prefix),
                   rc_name_span = cx_name_span context_state,
                   rc_opening_delimiter_span = cx_opening_span context_state,
                   rc_closing_delimiter_span = closing_span,
                   rc_prefix_separator_span = cx_separator_span context_state,
                   rc_span = complete_span,
                   rc_first_argument = length (pg_arguments program),
                   rc_argument_count = cx_argument_count context_state,
                   rc_primitive = None\<rparr>]\<rparr>)) }"

definition finish_tuple_literal ::
    "rewrite_program \<Rightarrow> rewrite_pending_argument list \<Rightarrow> rewrite_context \<Rightarrow> rewrite_span
     \<Rightarrow> (rewrite_program \<times> nat) option" where
  "finish_tuple_literal program pending context_state closing_span =
     do { nodes \<leftarrow> pending_nodes pending (cx_first_pending_argument context_state);
          spans \<leftarrow> node_spans program nodes;
          Some (push_node
            (plain_node NK_tuple_literal (span_from (cx_opening_span context_state) closing_span)
               ST_boolean (length (pg_tuple_elements program)) (cx_argument_count context_state)
               (length (pg_tuple_element_spans program)) 0)
            (program\<lparr>pg_tuple_elements := pg_tuple_elements program @ nodes,
               pg_tuple_element_spans := pg_tuple_element_spans program @ spans\<rparr>)) }"

definition finish_delimited ::
    "rewrite_program \<Rightarrow> rewrite_pending_argument list \<Rightarrow> rewrite_context \<Rightarrow> rewrite_span
     \<Rightarrow> (rewrite_program \<times> nat) option" where
  "finish_delimited program pending context_state closing_span =
     (if cx_kind context_state = XK_tuple_literal
      then finish_tuple_literal program pending context_state closing_span
      else finish_call program pending context_state closing_span
             (span_from (cx_name_span context_state) closing_span))"

text \<open>The count of placeholders, the first one's span, and whether one is in an owned position,
  accumulated over the tree below a node. The recursion of the code is on the tree; the fuel
  bounds its depth.\<close>

type_synonym placeholder_inspection = "nat \<times> rewrite_span option \<times> bool"

fun inspect_branch_placeholder ::
    "nat \<Rightarrow> rewrite_program \<Rightarrow> nat \<Rightarrow> bool \<Rightarrow> placeholder_inspection
     \<Rightarrow> placeholder_inspection option"
  and inspect_all ::
    "nat \<Rightarrow> rewrite_program \<Rightarrow> nat list \<Rightarrow> bool \<Rightarrow> placeholder_inspection
     \<Rightarrow> placeholder_inspection option" where
  "inspect_branch_placeholder 0 program node_index owned_position acc = None"
| "inspect_branch_placeholder (Suc fuel) program node_index owned_position acc =
     (case at (pg_nodes program) node_index of
        None \<Rightarrow> None
      | Some node \<Rightarrow>
          (case rn_kind node of
             NK_placeholder \<Rightarrow>
               (case acc of (count, first_span, has_owned_position) \<Rightarrow>
                  Some (count + 1,
                        (case first_span of None \<Rightarrow> Some (rn_span node) | Some s \<Rightarrow> Some s),
                        has_owned_position \<or> owned_position))
           | NK_primitive_call \<Rightarrow>
               (case at (pg_calls program) (rn_call_index node) of
                  None \<Rightarrow> None
                | Some call \<Rightarrow>
                    (case those (map (\<lambda>p. at (pg_arguments program) (rc_first_argument call + p))
                                   [0..<rc_argument_count call]) of
                       None \<Rightarrow> None
                     | Some arguments \<Rightarrow> inspect_all fuel program arguments owned_position acc))
           | NK_tuple_literal \<Rightarrow>
               (case those (map (\<lambda>p. at (pg_tuple_elements program) (rn_first_element node + p))
                              [0..<rn_element_count node]) of
                  None \<Rightarrow> None
                | Some elements \<Rightarrow> inspect_all fuel program elements True acc)
           | _ \<Rightarrow> Some acc))"
| "inspect_all fuel program [] owned_position acc = Some acc"
| "inspect_all fuel program (n # ns) owned_position acc =
     (case inspect_branch_placeholder fuel program n owned_position acc of
        None \<Rightarrow> None
      | Some acc \<Rightarrow> inspect_all fuel program ns owned_position acc)"

text \<open>The node of a context's first pending argument.\<close>

definition first_pending_node ::
    "rewrite_pending_argument list \<Rightarrow> rewrite_context \<Rightarrow> nat option" where
  "first_pending_node pending context_state =
     do { index \<leftarrow> cx_first_pending_argument context_state;
          entry \<leftarrow> at pending index;
          Some (pa_node entry) }"

text \<open>The branch has been popped; \<open>contexts\<close> is the rest of the stack.\<close>

definition finish_fanout_branch ::
    "rewrite_parse_result \<Rightarrow> rewrite_pending_argument list \<Rightarrow> rewrite_context
     \<Rightarrow> rewrite_context list \<Rightarrow> rewrite_span
     \<Rightarrow> (rewrite_parse_result \<times> rewrite_pending_argument list \<times> rewrite_context list) parsed option"
where
  "finish_fanout_branch result pending branch contexts closing_span =
     (if cx_argument_count branch = 0
      then Some (Failed (set_diagnostic result PE_expected_branch_body
             (insertion_span (rs_begin closing_span))
             (span_from (cx_opening_span branch) closing_span) (cx_opening_span branch)))
      else
        do { root \<leftarrow> first_pending_node pending branch;
             inspection \<leftarrow> inspect_branch_placeholder (length (pg_nodes (pr_program result)))
                            (pr_program result) root False (0, None, False);
             root_node \<leftarrow> at (pg_nodes (pr_program result)) root;
             (case inspection of (placeholder_count, placeholder_span, owned_position) \<Rightarrow>
                let complete = span_from (cx_opening_span branch) closing_span in
                if rn_kind root_node \<noteq> NK_primitive_call
                then Some (Failed (set_diagnostic result PE_branch_root_not_primitive_call
                       (rn_span root_node) complete (cx_opening_span branch)))
                else if placeholder_count \<noteq> 1
                then Some (Failed (set_diagnostic result PE_placeholder_count
                       (case placeholder_span of None \<Rightarrow> rn_span root_node | Some s \<Rightarrow> s) complete
                       (cx_opening_span branch)))
                else
                  do { placeholder \<leftarrow> placeholder_span;
                       if owned_position
                       then Some (Failed (set_diagnostic result PE_placeholder_owned_position
                              placeholder complete (cx_opening_span branch)))
                       else
                         (case contexts of
                            [] \<Rightarrow> None
                          | fanout # rest \<Rightarrow>
                              do { (pending, fanout) \<leftarrow> append_pending_argument pending fanout root;
                                   Some (Parsed
                                     (result\<lparr>pr_program := (pr_program result)
                                        \<lparr>pg_fanout_branches :=
                                           pg_fanout_branches (pr_program result) @
                                           [\<lparr>rb_span = complete,
                                             rb_opening_span = cx_opening_span branch,
                                             rb_closing_span = closing_span,
                                             rb_body_span = rn_span root_node,
                                             rb_placeholder_span = placeholder,
                                             rb_root = root\<rparr>]\<rparr>\<rparr>,
                                      pending, fanout\<lparr>cx_after_argument := True\<rparr> # rest)) }) }) })"

definition finish_fanout ::
    "rewrite_program \<Rightarrow> rewrite_pending_argument list \<Rightarrow> rewrite_context \<Rightarrow> rewrite_span
     \<Rightarrow> (rewrite_program \<times> nat) option" where
  "finish_fanout program pending context_state closing_span =
     do { operand \<leftarrow> first_pending_node pending context_state;
          operand_node \<leftarrow> at (pg_nodes program) operand;
          (let branch_count = cx_argument_count context_state - 1;
               first_branch = length (pg_fanout_branches program) - branch_count;
               complete = span_from (cx_name_span context_state) closing_span;
               fanout_index = length (pg_fanouts program)
           in Some (push_node
                (plain_node NK_fanout complete ST_boolean first_branch branch_count 0 fanout_index)
                (program\<lparr>pg_fanouts := pg_fanouts program @
                   [\<lparr>rf_keyword_span = cx_name_span context_state,
                     rf_opening_span = cx_opening_span context_state,
                     rf_closing_span = closing_span, rf_span = complete,
                     rf_operand_span = rn_span operand_node, rf_operand = operand,
                     rf_first_branch = first_branch, rf_branch_count = branch_count\<rparr>]\<rparr>))) }"

definition token_starts_expression :: "rewrite_token_kind \<Rightarrow> bool" where
  "token_starts_expression kind \<longleftrightarrow>
     is_scalar_token kind \<or> kind = TK_name \<or> kind = TK_left_bracket
     \<or> kind = TK_left_parenthesis \<or> kind = TK_bool_type \<or> kind = TK_int_type
     \<or> kind = TK_double_type \<or> kind = TK_malformed_literal \<or> kind = TK_invalid"

section \<open>The parameter header\<close>

definition parameter_type :: "rewrite_token_kind \<Rightarrow> scalar_type option" where
  "parameter_type kind =
     (if kind = TK_bool_type then Some ST_boolean
      else if kind = TK_int_type then Some ST_integer
      else if kind = TK_double_type then Some ST_double_precision
      else None)"

definition parameter_name_spelling :: "bytes \<Rightarrow> bool" where
  "parameter_name_spelling spelling =
     (if spelling = [] \<or> \<not> is_lowercase (hd spelling) then False
      else list_all (\<lambda>byte. is_lowercase byte \<or> is_digit byte \<or> byte = CHR ''_'') (tl spelling))"

text \<open>The state of the header's loop is the declarations so far; it ends at the index of a
  closing bracket or at the end of the source.\<close>

definition header_failure ::
    "rewrite_parse_result \<Rightarrow> parameter_error_reason \<Rightarrow> rewrite_span \<Rightarrow> rewrite_span
     \<Rightarrow> rewrite_span \<Rightarrow> 'a parsed" where
  "header_failure result reason primary context_span related =
     Failed (set_parameter_diagnostic result reason PE_expected_expression primary context_span
       related)"

text \<open>The type after a parameter's name, at the token after the name.\<close>

definition header_type ::
    "rewrite_tokens \<Rightarrow> rewrite_parse_result \<Rightarrow> rewrite_token \<Rightarrow> nat
     \<Rightarrow> (nat \<times> rewrite_token \<times> scalar_type) parsed" where
  "header_type tokens result name index =
     (if index = token_count tokens
      then header_failure result PR_expected_parameter_type (insertion_span (rts_end tokens))
             (rt_span name) (rt_span name)
      else if \<not> is_blank (rts_tokens tokens ! index)
      then if kind_at tokens index TK_right_bracket
           then header_failure result PR_expected_parameter_type
                  (insertion_span (rs_begin (rt_span (rts_tokens tokens ! index))))
                  (rt_span name) (rt_span name)
           else header_failure result PR_unexpected_header_token
                  (rt_span (rts_tokens tokens ! index)) (rt_span name) (rt_span name)
      else
        let index = skip_while is_blank tokens index in
        if index = token_count tokens
        then header_failure result PR_expected_parameter_type (insertion_span (rts_end tokens))
               (rt_span name) (rt_span name)
        else
          let type_token = rts_tokens tokens ! index in
          case parameter_type (rt_kind type_token) of
            None \<Rightarrow>
              let closing = (rt_kind type_token = TK_right_bracket) in
              header_failure result
                (if closing then PR_expected_parameter_type else PR_unexpected_header_token)
                (if closing then insertion_span (rs_begin (rt_span type_token))
                 else rt_span type_token)
                (rt_span name) (rt_span name)
          | Some scalar_type \<Rightarrow> Parsed (index, type_token, scalar_type))"

lemma header_type_index:
  "header_type tokens result name index = Parsed (index', t, ty) \<Longrightarrow> index \<le> index'"
  using skip_while_ge [of index is_blank tokens]
  by (auto simp: header_type_def header_failure_def Let_def split: if_splits option.splits)

definition with_declaration ::
    "rewrite_parse_result \<Rightarrow> rewrite_parameter_declaration \<Rightarrow> rewrite_parse_result" where
  "with_declaration result declaration =
     result\<lparr>pr_program := (pr_program result)
       \<lparr>pg_parameter_header := (pg_parameter_header (pr_program result))
         \<lparr>hd_declarations := hd_declarations (pg_parameter_header (pr_program result)) @
            [declaration]\<rparr>\<rparr>\<rparr>"

function header_declarations ::
    "rewrite_tokens \<Rightarrow> rewrite_token \<Rightarrow> rewrite_span \<Rightarrow> nat \<Rightarrow> rewrite_parse_result
     \<Rightarrow> (nat \<times> rewrite_parse_result) parsed" where
  "header_declarations tokens keyword opening_span index result =
     (if \<not> index < token_count tokens \<or> kind_at tokens index TK_right_bracket
      then Parsed (index, result)
      else
        let name = rts_tokens tokens ! index;
            name_spelling = rewrite_token_spelling tokens name
        in if \<not> parameter_name_spelling name_spelling
           then header_failure result
                  (if parameter_type (rt_kind name) \<noteq> None then PR_expected_parameter_name
                   else PR_unexpected_header_token)
                  (rt_span name) (span_from (rt_span keyword) (rt_span name)) opening_span
           else
             (case header_type tokens result name (index + 1) of
                Failed r \<Rightarrow> Failed r
              | Parsed (type_index, type_token, scalar_type) \<Rightarrow>
                  let result = with_declaration result
                        \<lparr>dl_name = name_spelling, dl_type = scalar_type,
                         dl_span = span_from (rt_span name) (rt_span type_token),
                         dl_name_span = rt_span name, dl_type_span = rt_span type_token\<rparr>;
                      index = type_index + 1
                  in if index < token_count tokens \<and> \<not> kind_at tokens index TK_right_bracket
                        \<and> \<not> is_blank (rts_tokens tokens ! index)
                     then header_failure result PR_unexpected_header_token
                            (rt_span (rts_tokens tokens ! index))
                            (span_from (rt_span keyword) (rt_span (rts_tokens tokens ! index)))
                            (rt_span type_token)
                     else header_declarations tokens keyword opening_span
                            (skip_while is_blank tokens index) result))"
  by pat_completeness auto
termination
proof (relation "measure (\<lambda>(tokens, _, _, index, _). token_count tokens - index)", goal_cases)
  case (2 tokens keyword opening_span index result name name_spelling x xa y type_token scalar_type
      result' index')
  then have "index < index'"
    using header_type_index [of tokens result name "index + 1"] by fastforce
  then show ?case
    using 2 skip_while_ge [of index' is_blank tokens] by auto
qed simp

declare header_declarations.simps [simp del]

definition update_header ::
    "(rewrite_parameter_header \<Rightarrow> rewrite_parameter_header) \<Rightarrow> rewrite_parse_result
     \<Rightarrow> rewrite_parse_result" where
  "update_header f result =
     result\<lparr>pr_program := (pr_program result)
       \<lparr>pg_parameter_header := f (pg_parameter_header (pr_program result))\<rparr>\<rparr>"

definition parse_parameter_header ::
    "rewrite_tokens \<Rightarrow> nat \<Rightarrow> rewrite_parse_result \<Rightarrow> (nat \<times> rewrite_parse_result) parsed" where
  "parse_parameter_header tokens token_index result =
     (let first = skip_while is_blank tokens token_index in
      if first = token_count tokens \<or> \<not> kind_at tokens first TK_name
         \<or> rewrite_token_spelling tokens (rts_tokens tokens ! first) \<noteq> ''parameters''
      then Parsed (token_index, result)
      else
        let keyword = rts_tokens tokens ! first in
        if \<not> kind_at tokens (first + 1) TK_left_bracket
        then header_failure result PR_expected_header_open
               (if first + 1 < token_count tokens then rt_span (rts_tokens tokens ! (first + 1))
                else insertion_span (rts_end tokens))
               (rt_span keyword) (rt_span keyword)
        else
          let opening_span = rt_span (rts_tokens tokens ! (first + 1));
              result = update_header (\<lambda>h. h\<lparr>hd_present := True, hd_keyword_span := rt_span keyword,
                                             hd_opening_span := opening_span\<rparr>) result
          in case header_declarations tokens keyword opening_span
                    (skip_while is_blank tokens (first + 2)) result of
               Failed r \<Rightarrow> Failed r
             | Parsed (index, result) \<Rightarrow>
                 if index = token_count tokens
                 then Failed (set_parameter_diagnostic result PR_missing_header_close
                        PE_missing_delimiter (insertion_span (rts_end tokens))
                        (span_to_end tokens (rt_span keyword)) opening_span)
                 else
                   let closing_span = rt_span (rts_tokens tokens ! index);
                       header_span = span_from (rt_span keyword) closing_span;
                       result = update_header (\<lambda>h. h\<lparr>hd_closing_span := closing_span,
                                                      hd_span := header_span\<rparr>) result;
                       index = skip_while is_space tokens (index + 1)
                   in if index < token_count tokens \<and> \<not> kind_at tokens index TK_line_terminator
                      then Failed (set_parameter_diagnostic result PR_trailing_header_bytes
                             PE_trailing_input (rt_span (rts_tokens tokens ! index)) header_span
                             header_span)
                      else Parsed (if index < token_count tokens then index + 1 else index,
                                   result))"

definition find_parameter :: "rewrite_program \<Rightarrow> string \<Rightarrow> nat option" where
  "find_parameter program name =
     (let declarations = hd_declarations (pg_parameter_header program) in
      List.find (\<lambda>i. dl_name (declarations ! i) = name) [0..<length declarations])"

section \<open>The loop over the tokens\<close>

record parser_state =
  st_index :: nat
  st_result :: rewrite_parse_result
  st_contexts :: "rewrite_context list"
  st_pending :: "rewrite_pending_argument list"
  st_completed :: nat
  st_have_expression :: bool

datatype parse_step_outcome =
    Continue parser_state
  | Finished rewrite_parse_result
  | Dispatch parser_state

definition stop ::
    "parser_state \<Rightarrow> rewrite_parse_error \<Rightarrow> rewrite_span \<Rightarrow> rewrite_span \<Rightarrow> rewrite_span
     \<Rightarrow> parse_step_outcome option" where
  "stop st error primary context_span related =
     Some (Finished (set_diagnostic (st_result st) error primary context_span related))"

definition finished_ok :: "parser_state \<Rightarrow> parse_step_outcome option" where
  "finished_ok st = Some (Finished ((st_result st)\<lparr>pr_ok := True\<rparr>))"

definition at_end :: "rewrite_tokens \<Rightarrow> parser_state \<Rightarrow> bool" where
  "at_end tokens st \<longleftrightarrow> st_index st = token_count tokens"

definition skip_blanks :: "rewrite_tokens \<Rightarrow> parser_state \<Rightarrow> parser_state" where
  "skip_blanks tokens st = st\<lparr>st_index := skip_while is_blank tokens (st_index st)\<rparr>"

definition advance :: "nat \<Rightarrow> parser_state \<Rightarrow> parser_state" where
  "advance n st = st\<lparr>st_index := st_index st + n\<rparr>"

definition with_program :: "rewrite_program \<Rightarrow> parser_state \<Rightarrow> parser_state" where
  "with_program program st = st\<lparr>st_result := (st_result st)\<lparr>pr_program := program\<rparr>\<rparr>"

text \<open>A new node completed; the loop continues with \<open>have_expression\<close> set.\<close>

definition complete_with :: "rewrite_program \<times> nat \<Rightarrow> parser_state \<Rightarrow> parser_state" where
  "complete_with pushed st =
     (with_program (fst pushed) st)\<lparr>st_completed := snd pushed, st_have_expression := True\<rparr>"

definition program_of :: "parser_state \<Rightarrow> rewrite_program" where
  "program_of st = pr_program (st_result st)"

text \<open>The loop that closes the prefix calls whose argument is the completed expression.\<close>

fun finish_prefix_calls ::
    "rewrite_context list \<Rightarrow> rewrite_pending_argument list \<Rightarrow> rewrite_program \<Rightarrow> nat
     \<Rightarrow> (rewrite_context list \<times> rewrite_pending_argument list \<times> rewrite_program \<times> nat) option" where
  "finish_prefix_calls [] pending program completed = Some ([], pending, program, completed)"
| "finish_prefix_calls (context_state # contexts) pending program completed =
     (if cx_kind context_state \<noteq> XK_prefix_call
      then Some (context_state # contexts, pending, program, completed)
      else
        do { (pending, completed_context) \<leftarrow>
               append_pending_argument pending context_state completed;
             node \<leftarrow> at (pg_nodes program) completed;
             (program, completed) \<leftarrow>
               finish_call program pending completed_context
                 (insertion_span (rs_end (cx_separator_span context_state)))
                 (span_from (cx_name_span context_state) (rn_span node));
             finish_prefix_calls contexts pending program completed })"

definition root_error :: "rewrite_token \<Rightarrow> rewrite_parse_error" where
  "root_error token =
     (if rt_kind token = TK_invalid then PE_invalid_byte
      else if rt_kind token = TK_malformed_literal then literal_token_error token
      else if rt_kind token = TK_right_bracket \<or> rt_kind token = TK_right_parenthesis
      then PE_mismatched_delimiter
      else PE_trailing_input)"

text \<open>\<open>if (have_expression)\<close>: close prefix calls, then hand the expression to the innermost
  context or make it a root, which a line terminator or the end of the source must follow.\<close>

definition have_expression_step ::
    "rewrite_tokens \<Rightarrow> parser_state \<Rightarrow> parse_step_outcome option" where
  "have_expression_step tokens st =
     do { (contexts, pending, program, completed) \<leftarrow>
            finish_prefix_calls (st_contexts st) (st_pending st) (program_of st) (st_completed st);
          (case contexts of
             context_state # rest \<Rightarrow>
               do { (pending, context_state) \<leftarrow>
                      append_pending_argument pending context_state completed;
                    Some (Continue ((with_program program st)
                      \<lparr>st_contexts := context_state\<lparr>cx_after_argument := True\<rparr> # rest,
                       st_pending := pending, st_completed := completed,
                       st_have_expression := False\<rparr>)) }
           | [] \<Rightarrow>
               let program = program\<lparr>pg_roots := pg_roots program @ [completed]\<rparr>;
                   st = (with_program program st)
                          \<lparr>st_contexts := [], st_pending := pending, st_completed := completed,
                           st_have_expression := False,
                           st_index := skip_while is_space tokens (st_index st)\<rparr>
               in if at_end tokens st then finished_ok st
                  else
                    do { token \<leftarrow> token_at tokens (st_index st);
                         if rt_kind token = TK_line_terminator then Some (Continue (advance 1 st))
                         else
                           do { node \<leftarrow> at (pg_nodes program) completed;
                                stop st (root_error token) (rt_span token) (rn_span node)
                                  (rn_span node) } }) }"

text \<open>The innermost context is the branch of a fanout.\<close>

definition branch_step ::
    "rewrite_tokens \<Rightarrow> parser_state \<Rightarrow> rewrite_context \<Rightarrow> rewrite_context list
     \<Rightarrow> parse_step_outcome option" where
  "branch_step tokens st branch rest =
     (let after_argument = cx_after_argument branch;
          st = skip_blanks tokens st
      in if at_end tokens st
         then stop st (if after_argument then PE_expected_branch_close else PE_expected_branch_body)
                (insertion_span (rts_end tokens)) (span_to_end tokens (cx_opening_span branch))
                (cx_opening_span branch)
         else
           do { token \<leftarrow> token_at tokens (st_index st);
                if after_argument
                then
                  if rt_kind token \<noteq> TK_right_brace
                  then stop st PE_expected_branch_close (rt_span token)
                         (span_from (cx_opening_span branch) (rt_span token))
                         (cx_opening_span branch)
                  else
                    do { finished \<leftarrow> finish_fanout_branch (st_result st) (st_pending st) branch rest
                                       (rt_span token);
                         (case finished of
                            Failed result \<Rightarrow> Some (Finished result)
                          | Parsed (result, pending, contexts) \<Rightarrow>
                              Some (Continue ((advance 1 st)
                                \<lparr>st_result := result, st_pending := pending,
                                 st_contexts := contexts\<rparr>))) }
                else if rt_kind token = TK_right_brace
                then stop st PE_expected_branch_body (insertion_span (rs_begin (rt_span token)))
                       (span_from (cx_opening_span branch) (rt_span token))
                       (cx_opening_span branch)
                else Some (Dispatch st) })"

text \<open>The innermost context is a fanout: its operand, then its branches.\<close>

definition fanout_step ::
    "rewrite_tokens \<Rightarrow> parser_state \<Rightarrow> rewrite_context \<Rightarrow> rewrite_context list
     \<Rightarrow> parse_step_outcome option" where
  "fanout_step tokens st fanout rest =
     (let had_separator = (st_index st < token_count tokens
                           \<and> is_blank (rts_tokens tokens ! st_index st));
          st = skip_blanks tokens st
      in if \<not> cx_after_argument fanout
         then
           if at_end tokens st
           then stop st PE_expected_fanout_operand (insertion_span (rts_end tokens))
                  (span_to_end tokens (cx_name_span fanout)) (cx_opening_span fanout)
           else
             do { token \<leftarrow> token_at tokens (st_index st);
                  if rt_kind token = TK_right_bracket
                  then stop st PE_expected_fanout_operand
                         (insertion_span (rs_begin (rt_span token)))
                         (span_from (cx_name_span fanout) (rt_span token))
                         (cx_opening_span fanout)
                  else Some (Dispatch st) }
         else if at_end tokens st
         then stop st PE_missing_fanout_close (insertion_span (rts_end tokens))
                (span_to_end tokens (cx_name_span fanout)) (cx_opening_span fanout)
         else
           do { token \<leftarrow> token_at tokens (st_index st);
                let context_span = span_from (cx_name_span fanout) (rt_span token) in
                if rt_kind token = TK_right_bracket
                then
                  if cx_argument_count fanout = 1
                  then stop st PE_expected_fanout_branch
                         (insertion_span (rs_begin (rt_span token))) context_span
                         (cx_opening_span fanout)
                  else
                    do { pushed \<leftarrow> finish_fanout (program_of st) (st_pending st) fanout
                                     (rt_span token);
                         Some (Continue (complete_with pushed
                           ((advance 1 st)\<lparr>st_contexts := rest\<rparr>))) }
                else if rt_kind token \<noteq> TK_left_brace
                then stop st PE_expected_branch_open (rt_span token) context_span
                       (cx_opening_span fanout)
                else if \<not> had_separator
                then stop st PE_missing_separator (rt_span token) context_span
                       (cx_opening_span fanout)
                else
                  Some (Continue ((advance 1 st)
                    \<lparr>st_contexts :=
                       new_context XK_fanout_branch (rt_span token) (rt_span token)
                         (insertion_span (rs_end (rt_span token))) None None
                         (Some (st_index st))
                       # fanout # rest\<rparr>)) })"

text \<open>The innermost context is a bracketed call or a tuple.\<close>

definition close_delimited ::
    "parser_state \<Rightarrow> rewrite_context \<Rightarrow> rewrite_context list \<Rightarrow> rewrite_token
     \<Rightarrow> parse_step_outcome option" where
  "close_delimited st context_state rest token =
     do { pushed \<leftarrow> finish_delimited (program_of st) (st_pending st) context_state (rt_span token);
          Some (Continue (complete_with pushed ((advance 1 st)\<lparr>st_contexts := rest\<rparr>))) }"

definition delimited_failure ::
    "rewrite_tokens \<Rightarrow> parser_state \<Rightarrow> rewrite_context \<Rightarrow> rewrite_parse_error \<Rightarrow> rewrite_span
     \<Rightarrow> parse_step_outcome option" where
  "delimited_failure tokens st context_state error primary =
     do { context_span \<leftarrow> rewrite_context_span tokens context_state;
          stop st error primary context_span (cx_opening_span context_state) }"

text \<open>After the separator, or before the first argument.\<close>

definition delimited_argument_step ::
    "rewrite_tokens \<Rightarrow> parser_state \<Rightarrow> rewrite_context \<Rightarrow> rewrite_context list
     \<Rightarrow> parse_step_outcome option" where
  "delimited_argument_step tokens st context_state rest =
     (if at_end tokens st
      then delimited_failure tokens st context_state PE_missing_delimiter
             (insertion_span (rts_end tokens))
      else
        do { token \<leftarrow> token_at tokens (st_index st);
             if rt_kind token = TK_right_bracket then close_delimited st context_state rest token
             else if rt_kind token = TK_right_parenthesis
             then delimited_failure tokens st context_state PE_mismatched_delimiter (rt_span token)
             else Some (Dispatch st) })"

definition delimited_step ::
    "rewrite_tokens \<Rightarrow> parser_state \<Rightarrow> rewrite_context \<Rightarrow> rewrite_context list
     \<Rightarrow> parse_step_outcome option" where
  "delimited_step tokens st context_state rest =
     (if \<not> cx_after_argument context_state
      then delimited_argument_step tokens st context_state rest
      else if kind_at tokens (st_index st) TK_right_bracket
      then do { token \<leftarrow> token_at tokens (st_index st);
                close_delimited st context_state rest token }
      else if st_index st < token_count tokens \<and> is_blank (rts_tokens tokens ! st_index st)
      then
        let st = skip_blanks tokens st in
        if kind_at tokens (st_index st) TK_right_bracket then Some (Continue st)
        else
          let context_state = context_state\<lparr>cx_after_argument := False\<rparr>
          in delimited_argument_step tokens (st\<lparr>st_contexts := context_state # rest\<rparr>)
               context_state rest
      else if at_end tokens st
      then delimited_failure tokens st context_state PE_missing_delimiter
             (insertion_span (rts_end tokens))
      else
        do { token \<leftarrow> token_at tokens (st_index st);
             delimited_failure tokens st context_state
               (if rt_kind token = TK_right_parenthesis then PE_mismatched_delimiter
                else if rt_kind token = TK_invalid then PE_invalid_byte
                else PE_missing_separator)
               (rt_span token) })"

text \<open>No context is open: the next root, or the end of the program.\<close>

definition root_step :: "rewrite_tokens \<Rightarrow> parser_state \<Rightarrow> parse_step_outcome option" where
  "root_step tokens st =
     (let st = skip_blanks tokens st in
      if at_end tokens st then finished_ok st else Some (Dispatch st))"

section \<open>Dispatch on the current token\<close>

text \<open>A node for the current token alone.\<close>

definition push_leaf :: "parser_state \<Rightarrow> nat \<Rightarrow> rewrite_node \<Rightarrow> parse_step_outcome option" where
  "push_leaf st width node =
     Some (Continue (complete_with (push_node node (program_of st)) (advance width st)))"

definition push_context ::
    "parser_state \<Rightarrow> nat \<Rightarrow> rewrite_context \<Rightarrow> parser_state" where
  "push_context st width context_state =
     (advance width st)\<lparr>st_contexts := context_state # st_contexts st\<rparr>"

definition dispatch_left_bracket ::
    "rewrite_tokens \<Rightarrow> parser_state \<Rightarrow> rewrite_token \<Rightarrow> parse_step_outcome option" where
  "dispatch_left_bracket tokens st token =
     Some (Continue (skip_blanks tokens (push_context st 1
       (new_context XK_tuple_literal (rt_span token) (rt_span token)
          (insertion_span (rs_end (rt_span token))) (Some (st_index st)) None None))))"

definition dispatch_vector ::
    "rewrite_tokens \<Rightarrow> parser_state \<Rightarrow> parse_step_outcome option" where
  "dispatch_vector tokens st =
     do { parsed \<leftarrow> parse_vector_literal tokens (st_index st) (st_result st);
          (case parsed of
             Failed result \<Rightarrow> Some (Finished result)
           | Parsed (index, result, node) \<Rightarrow>
               Some (Continue (st\<lparr>st_index := index, st_result := result, st_completed := node,
                                  st_have_expression := True\<rparr>))) }"

definition dispatch_type ::
    "rewrite_tokens \<Rightarrow> parser_state \<Rightarrow> rewrite_token \<Rightarrow> parse_step_outcome option" where
  "dispatch_type tokens st token =
     (if kind_at tokens (st_index st + 1) TK_left_parenthesis
         \<and> kind_at tokens (st_index st + 2) TK_right_parenthesis
      then
        let element_type =
              (if rt_kind token = TK_bool_type then ST_boolean
               else if rt_kind token = TK_int_type then ST_integer
               else ST_double_precision)
        in push_leaf st 3
             (plain_node NK_vector_literal
                (span_from (rt_span token) (rt_span (rts_tokens tokens ! (st_index st + 2))))
                element_type (vector_payload_size (program_of st) element_type) 0
                (length (pg_vector_element_spans (program_of st))) 0)
      else stop st PE_invalid_vector_element (rt_span token) (rt_span token) (rt_span token))"

definition dispatch_fanout ::
    "rewrite_tokens \<Rightarrow> parser_state \<Rightarrow> rewrite_token \<Rightarrow> parse_step_outcome option" where
  "dispatch_fanout tokens st token =
     (if list_ex (\<lambda>c. cx_kind c = XK_fanout \<or> cx_kind c = XK_fanout_branch) (st_contexts st)
      then stop st PE_nested_fanout (rt_span token) (rt_span token) (rt_span token)
      else if \<not> kind_at tokens (st_index st + 1) TK_left_bracket
      then stop st PE_expected_fanout_open
             (if st_index st + 1 < token_count tokens
              then rt_span (rts_tokens tokens ! (st_index st + 1))
              else insertion_span (rts_end tokens))
             (rt_span token) (rt_span token)
      else
        let opening = rt_span (rts_tokens tokens ! (st_index st + 1))
        in Some (Continue (push_context st 2
             (new_context XK_fanout (rt_span token) opening (insertion_span (rs_end opening))
                (Some (st_index st + 1)) (Some (st_index st)) None))))"

text \<open>A name that opens a bracketed call or a prefix call, or stands for itself.\<close>

definition dispatch_bracket_call ::
    "rewrite_tokens \<Rightarrow> parser_state \<Rightarrow> rewrite_token \<Rightarrow> parse_step_outcome option" where
  "dispatch_bracket_call tokens st token =
     (let opening = rt_span (rts_tokens tokens ! (st_index st + 1)) in
      Some (Continue (skip_blanks tokens (push_context st 2
        (new_context XK_bracket_call (rt_span token) opening (insertion_span (rs_end opening))
           (Some (st_index st + 1)) None None)))))"

definition dispatch_prefix_call ::
    "rewrite_tokens \<Rightarrow> parser_state \<Rightarrow> rewrite_token \<Rightarrow> parse_step_outcome option" where
  "dispatch_prefix_call tokens st token =
     (let separator = rt_span (rts_tokens tokens ! (st_index st + 1));
          st = push_context st 2
                 (new_context XK_prefix_call (rt_span token)
                    (insertion_span (rs_begin separator)) separator None None None)
      in if at_end tokens st
         then stop st PE_expected_expression (insertion_span (rts_end tokens))
                (span_to_end tokens (rt_span token)) separator
         else if kind_at tokens (st_index st) TK_line_terminator
         then stop st PE_expected_expression (rt_span (rts_tokens tokens ! st_index st))
                (span_from (rt_span token) (rt_span (rts_tokens tokens ! st_index st))) separator
         else Some (Continue st))"

definition dispatch_name ::
    "rewrite_tokens \<Rightarrow> parser_state \<Rightarrow> rewrite_token \<Rightarrow> parse_step_outcome option" where
  "dispatch_name tokens st token =
     (if rewrite_token_spelling tokens token = ''fanout'' then dispatch_fanout tokens st token
      else
        let declared_parameter =
              find_parameter (program_of st) (rewrite_token_spelling tokens token);
            inside_bracket = (case st_contexts st of
                                [] \<Rightarrow> False
                              | c # _ \<Rightarrow> cx_kind c = XK_bracket_call \<or> cx_kind c = XK_tuple_literal);
            adjacent_bracket = kind_at tokens (st_index st + 1) TK_left_bracket;
            root_prefix = (st_contexts st = []
                           \<and> kind_at tokens (st_index st + 1) TK_horizontal_space)
        in case (if \<not> adjacent_bracket \<and> (inside_bracket \<or> \<not> root_prefix)
                 then declared_parameter else None) of
             Some parameter \<Rightarrow>
               do { declaration \<leftarrow> at (hd_declarations (pg_parameter_header (program_of st)))
                                   parameter;
                    push_leaf st 1
                      (parameter_reference_node declaration parameter (rt_span token)) }
           | None \<Rightarrow>
               if adjacent_bracket then dispatch_bracket_call tokens st token
               else if kind_at tokens (st_index st + 1) TK_horizontal_space
               then dispatch_prefix_call tokens st token
               else push_leaf st 1 (unresolved_name_node (rt_span token)))"

text \<open>The operand of the innermost fanout, when it has been parsed.\<close>

definition dispatch_placeholder ::
    "parser_state \<Rightarrow> rewrite_token \<Rightarrow> parse_step_outcome option" where
  "dispatch_placeholder st token =
     (case List.find (\<lambda>c. cx_kind c = XK_fanout) (st_contexts st) of
        Some fanout \<Rightarrow>
          if cx_first_pending_argument fanout = None
          then stop st PE_unexpected_fanout_token (rt_span token) (rt_span token) (rt_span token)
          else
            do { operand \<leftarrow> first_pending_node (st_pending st) fanout;
                 push_leaf st 1
                   (plain_node NK_placeholder (rt_span token) ST_boolean operand 0 0 0) }
      | None \<Rightarrow>
          stop st PE_unexpected_fanout_token (rt_span token) (rt_span token) (rt_span token))"

definition dispatch_header_keyword ::
    "parser_state \<Rightarrow> rewrite_token \<Rightarrow> parse_step_outcome option" where
  "dispatch_header_keyword st token =
     (let header = pg_parameter_header (program_of st) in
      do { related \<leftarrow>
             (if hd_present header then Some (hd_span header)
              else
                do { root \<leftarrow> at (pg_roots (program_of st)) 0;
                     node \<leftarrow> at (pg_nodes (program_of st)) root;
                     Some (rn_span node) });
           Some (Finished (set_parameter_diagnostic (st_result st)
             (if hd_present header then PR_second_parameter_header
              else PR_parameter_header_after_root)
             PE_trailing_input (rt_span token) (rt_span token) related)) })"

definition dispatch_step :: "rewrite_tokens \<Rightarrow> parser_state \<Rightarrow> parse_step_outcome option" where
  "dispatch_step tokens st =
     do { token \<leftarrow> token_at tokens (st_index st);
          (let kind = rt_kind token; span = rt_span token in
           if st_contexts st = [] \<and> kind = TK_name
              \<and> rewrite_token_spelling tokens token = ''parameters''
           then dispatch_header_keyword st token
           else if is_scalar_token kind then push_leaf st 1 (scalar_node token)
           else if kind = TK_left_bracket then dispatch_left_bracket tokens st token
           else if kind = TK_left_parenthesis then dispatch_vector tokens st
           else if kind = TK_bool_type \<or> kind = TK_int_type \<or> kind = TK_double_type
           then dispatch_type tokens st token
           else if kind = TK_name then dispatch_name tokens st token
           else if kind = TK_placeholder then dispatch_placeholder st token
           else if kind = TK_malformed_literal
           then stop st (literal_token_error token) span span span
           else if kind = TK_invalid then stop st PE_invalid_byte span span span
           else if kind = TK_right_bracket \<or> kind = TK_right_parenthesis
           then stop st PE_mismatched_delimiter span span span
           else stop st (if token_starts_expression kind then PE_expected_expression
                         else PE_invalid_byte) span span span) }"

section \<open>The parser\<close>

definition context_step :: "rewrite_tokens \<Rightarrow> parser_state \<Rightarrow> parse_step_outcome option" where
  "context_step tokens st =
     (case st_contexts st of
        [] \<Rightarrow> root_step tokens st
      | context_state # rest \<Rightarrow>
          (case cx_kind context_state of
             XK_fanout_branch \<Rightarrow> branch_step tokens st context_state rest
           | XK_fanout \<Rightarrow> fanout_step tokens st context_state rest
           | XK_bracket_call \<Rightarrow> delimited_step tokens st context_state rest
           | XK_tuple_literal \<Rightarrow> delimited_step tokens st context_state rest
           | XK_prefix_call \<Rightarrow> Some (Dispatch st)))"

definition parse_step :: "rewrite_tokens \<Rightarrow> parser_state \<Rightarrow> parse_step_outcome option" where
  "parse_step tokens st =
     (if st_have_expression st then have_expression_step tokens st
      else
        do { outcome \<leftarrow> context_step tokens st;
             (case outcome of
                Dispatch st \<Rightarrow> dispatch_step tokens st
              | _ \<Rightarrow> Some outcome) })"

text \<open>\<open>while (true)\<close>: \<open>None\<close> when an iteration reads outside a table, or when the loop would
  not end.\<close>

partial_function (option) parse_loop ::
    "rewrite_tokens \<Rightarrow> parser_state \<Rightarrow> rewrite_parse_result option" where
  "parse_loop tokens st =
     (case parse_step tokens st of
        None \<Rightarrow> None
      | Some outcome \<Rightarrow>
          (case outcome of
             Finished result \<Rightarrow> Some result
           | Continue st \<Rightarrow> parse_loop tokens st
           | Dispatch st \<Rightarrow> None))"

declare parse_loop.simps [code]

definition initial_result :: "rewrite_tokens \<Rightarrow> rewrite_parse_result" where
  "initial_result tokens =
     \<lparr>pr_ok = False, pr_program = empty_program\<lparr>pg_source := rts_source tokens\<rparr>,
      pr_diagnostic = \<lparr>rd_error = PE_none, rd_primary = insertion_span (rts_end tokens),
                       rd_context = insertion_span (rts_end tokens),
                       rd_related = insertion_span (rts_end tokens),
                       rd_parameter_reason = None\<rparr>\<rparr>"

definition parse_rewrite :: "bytes \<Rightarrow> rewrite_parse_result option" where
  "parse_rewrite source =
     (let tokens = tokenize_rewrite source in
      case parse_parameter_header tokens 0 (initial_result tokens) of
        Failed result \<Rightarrow> Some result
      | Parsed (token_index, result) \<Rightarrow>
          parse_loop tokens
            \<lparr>st_index = token_index, st_result = result, st_contexts = [], st_pending = [],
             st_completed = 0, st_have_expression = False\<rparr>)"

end
