(* ===== verification/ParserInvariant.thy ===== *)
theory ParserInvariant
  imports Parser TokenizerCorrect "HOL-Library.Sublist"
begin

text \<open>
  The invariant of the parser's tables and of its stack of contexts, and what the operations
  that extend the tables do to it: pushing leaves, closing calls, tuples and fanouts, and
  walking the pending arguments of a context.
\<close>

section \<open>Offsets of tokens and spans\<close>

text \<open>The offset at an index: where the token begins, or the end of the source.\<close>

definition token_offset :: "rewrite_tokens \<Rightarrow> nat \<Rightarrow> nat" where
  "token_offset ts i =
     (if i < token_count ts then rp_offset (rs_begin (rt_span (rts_tokens ts ! i)))
      else rp_offset (rts_end ts))"

abbreviation begin_offset :: "rewrite_span \<Rightarrow> nat" where
  "begin_offset s \<equiv> rp_offset (rs_begin s)"

abbreviation end_offset :: "rewrite_span \<Rightarrow> nat" where
  "end_offset s \<equiv> rp_offset (rs_end s)"

definition source_length :: "rewrite_tokens \<Rightarrow> nat" where
  "source_length ts = length (rts_source ts)"

definition tokens_ok :: "rewrite_tokens \<Rightarrow> bool" where
  "tokens_ok ts \<longleftrightarrow>
     rp_offset (rts_end ts) = source_length ts + 1 \<and>
     (\<forall>i < token_count ts. 1 \<le> token_offset ts i \<and>
        token_offset ts i < end_offset (rt_span (rts_tokens ts ! i)) \<and>
        end_offset (rt_span (rts_tokens ts ! i)) = token_offset ts (i + 1))"

definition span_ok :: "nat \<Rightarrow> rewrite_span \<Rightarrow> bool" where
  "span_ok n s \<longleftrightarrow> 1 \<le> begin_offset s \<and> begin_offset s \<le> end_offset s \<and> end_offset s \<le> n + 1"

lemma tokenize_tokens_ok: "tokens_ok (tokenize_rewrite source)"
proof -
  let ?ts = "tokenize_rewrite source" and ?ss = "lexemes source"
  have len: "token_count ?ts = length ?ss"
    using arg_cong [OF spellings_are_lexemes [of source], of length] by (simp add: token_count_def)
  have pos: "rp_offset (position_after xs) = length xs + 1" for xs
    by (simp add: position_after_def start_position_def)
  have pos': "rp_offset (position_after xs) = Suc (length xs)" for xs using pos [of xs] by simp
  have tokens: "rts_tokens ?ts = lexeme_tokens (position_after []) ?ss"
    by (simp add: tokenize_rewrite_eq position_after_def)
  have final: "rp_offset (rts_end ?ts) = length (concat ?ss) + 1"
    by (simp add: tokenize_rewrite_eq pos' concat_lexemes)
  have b: "begin_offset (rt_span (rts_tokens ?ts ! i)) = length (concat (take i ?ss)) + 1"
    if "i < token_count ?ts" for i
    using arg_cong [OF lexeme_tokens_begins [of "[]" ?ss], of "\<lambda>xs. rp_offset (xs ! i)"] that
    unfolding tokens [symmetric] len by (simp add: len [unfolded token_count_def] pos)
  have e: "end_offset (rt_span (rts_tokens ?ts ! i)) = length (concat (take (i + 1) ?ss)) + 1"
    if "i < token_count ?ts" for i
    using arg_cong [OF lexeme_tokens_ends [of "[]" ?ss], of "\<lambda>xs. rp_offset (xs ! i)"] that
    unfolding tokens [symmetric] len by (simp add: len [unfolded token_count_def] pos)
  have off: "token_offset ?ts i = length (concat (take i ?ss)) + 1" for i
    using b final len by (simp add: token_offset_def)
  show ?thesis
    unfolding tokens_ok_def
  proof (intro conjI allI impI)
    show "rp_offset (rts_end ?ts) = source_length ?ts + 1"
      by (simp add: pos' source_length_def tokenize_rewrite_eq)
    fix i assume i: "i < token_count ?ts"
    have "?ss ! i \<noteq> []" using lexemes_nonempty [of source] i len nth_mem by metis
    then show "token_offset ?ts i < end_offset (rt_span (rts_tokens ?ts ! i))"
      using i len by (simp add: off e take_Suc_conv_app_nth)
    show "1 \<le> token_offset ?ts i" "end_offset (rt_span (rts_tokens ?ts ! i)) = token_offset ?ts (i + 1)"
      using i by (simp_all add: off e)
  qed
qed

lemma token_offset_mono:
  assumes "tokens_ok ts" "i \<le> j"
  shows "token_offset ts i \<le> token_offset ts j"
  using assms(2)
proof (induction rule: dec_induct)
  case (step j)
  then show ?case
    using assms(1) by (cases "j < token_count ts")
      (force simp: tokens_ok_def, simp add: token_offset_def)
qed simp

lemma token_offset_bounds:
  assumes "tokens_ok ts"
  shows "1 \<le> token_offset ts i" "token_offset ts i \<le> source_length ts + 1"
    "rp_offset (rts_end ts) = source_length ts + 1"
proof -
  show e: "rp_offset (rts_end ts) = source_length ts + 1" using assms by (simp add: tokens_ok_def)
  show "1 \<le> token_offset ts i"
    using assms e by (cases "i < token_count ts") (simp_all add: tokens_ok_def token_offset_def)
  have "token_offset ts (max i (token_count ts)) = source_length ts + 1"
    using e by (simp add: token_offset_def)
  then show "token_offset ts i \<le> source_length ts + 1"
    using token_offset_mono [OF assms, of i "max i (token_count ts)"] by simp
qed

lemma token_span:
  assumes "tokens_ok ts" "i < token_count ts"
  shows "begin_offset (rt_span (rts_tokens ts ! i)) = token_offset ts i"
    "end_offset (rt_span (rts_tokens ts ! i)) = token_offset ts (i + 1)"
    "span_ok (source_length ts) (rt_span (rts_tokens ts ! i))"
proof -
  show b: "begin_offset (rt_span (rts_tokens ts ! i)) = token_offset ts i"
    using assms(2) by (simp add: token_offset_def)
  show e: "end_offset (rt_span (rts_tokens ts ! i)) = token_offset ts (i + 1)"
    using assms by (simp add: tokens_ok_def)
  show "span_ok (source_length ts) (rt_span (rts_tokens ts ! i))"
    using b e token_offset_bounds [OF assms(1)] token_offset_mono [OF assms(1), of i "i + 1"]
    by (simp add: span_ok_def)
qed

lemma skip_while_bound: "i \<le> token_count ts \<Longrightarrow> skip_while p ts i \<le> token_count ts"
  unfolding skip_while_def token_count_def
  using length_takeWhile_le [of p "drop i (rts_tokens ts)"] by simp

lemma matching_end_bounds:
  assumes "\<forall>t \<in> set toks. lo \<le> rp_offset (rs_end (rt_span t)) \<and> rp_offset (rs_end (rt_span t)) \<le> hi"
    "lo \<le> rp_offset final" "rp_offset final \<le> hi"
  shows "lo \<le> rp_offset (matching_end k k' final toks d) \<and> rp_offset (matching_end k k' final toks d) \<le> hi"
  using assms by (induction k k' final toks d rule: matching_end.induct) auto

lemma matching_end_from:
  assumes "tokens_ok ts" "i \<le> token_count ts"
  shows "token_offset ts i \<le> rp_offset (matching_end k k' (rts_end ts) (drop i (rts_tokens ts)) d) \<and>
    rp_offset (matching_end k k' (rts_end ts) (drop i (rts_tokens ts)) d) \<le> source_length ts + 1"
proof (rule matching_end_bounds)
  show "\<forall>t \<in> set (drop i (rts_tokens ts)). token_offset ts i \<le> end_offset (rt_span t) \<and>
      end_offset (rt_span t) \<le> source_length ts + 1"
  proof
    fix t assume "t \<in> set (drop i (rts_tokens ts))"
    then obtain j where "j < token_count ts - i" "t = rts_tokens ts ! (i + j)"
      by (auto simp: in_set_conv_nth token_count_def)
    then have j: "i + j < token_count ts" "t = rts_tokens ts ! (i + j)" by simp_all
    then show "token_offset ts i \<le> end_offset (rt_span t) \<and> end_offset (rt_span t) \<le> source_length ts + 1"
      using token_span(2) [OF assms(1) j(1)] token_offset_mono [OF assms(1), of i "i + j + 1"]
        token_offset_bounds(2) [OF assms(1), of "i + j + 1"] by simp
  qed
qed (use token_offset_bounds(2,3) [OF assms(1)] in auto)

lemma span_ok_from:
  "span_ok n a \<Longrightarrow> span_ok n b \<Longrightarrow> begin_offset a \<le> end_offset b \<Longrightarrow> span_ok n (span_from a b)"
  by (simp add: span_ok_def span_from_def)

lemma span_ok_to_end:
  "tokens_ok ts \<Longrightarrow> span_ok (source_length ts) a \<Longrightarrow> span_ok (source_length ts) (span_to_end ts a)"
  using token_offset_bounds(3) by (auto simp: span_ok_def span_to_end_def)

lemma span_ok_insertion:
  "span_ok n s \<Longrightarrow> span_ok n (insertion_span (rs_begin s))"
  "span_ok n s \<Longrightarrow> span_ok n (insertion_span (rs_end s))"
  "tokens_ok ts \<Longrightarrow> span_ok (source_length ts) (insertion_span (rts_end ts))"
  using token_offset_bounds(3) by (auto simp: span_ok_def insertion_span_def)

section \<open>The tables of a program\<close>

text \<open>Tables only grow: every operation of the parser appends to them.\<close>

definition extends :: "rewrite_program \<Rightarrow> rewrite_program \<Rightarrow> bool" where
  "extends p p' \<longleftrightarrow>
     pg_parameter_header p' = pg_parameter_header p \<and>
     prefix (pg_nodes p) (pg_nodes p') \<and> prefix (pg_arguments p) (pg_arguments p') \<and>
     prefix (pg_argument_spans p) (pg_argument_spans p') \<and> prefix (pg_calls p) (pg_calls p') \<and>
     prefix (pg_tuple_elements p) (pg_tuple_elements p') \<and>
     prefix (pg_tuple_element_spans p) (pg_tuple_element_spans p') \<and>
     prefix (pg_boolean_elements p) (pg_boolean_elements p') \<and>
     prefix (pg_integer_elements p) (pg_integer_elements p') \<and>
     prefix (pg_double_elements p) (pg_double_elements p') \<and>
     prefix (pg_vector_element_spans p) (pg_vector_element_spans p') \<and>
     prefix (pg_fanouts p) (pg_fanouts p') \<and>
     prefix (pg_fanout_branches p) (pg_fanout_branches p')"

lemma extends_refl [simp]: "extends p p"
  by (simp add: extends_def)

lemma extends_trans: "extends p q \<Longrightarrow> extends q r \<Longrightarrow> extends p r"
  unfolding extends_def by (auto intro: prefix_order.trans)

lemma prefix_nth: "prefix xs ys \<Longrightarrow> i < length xs \<Longrightarrow> ys ! i = xs ! i"
  by (auto simp: prefix_def nth_append)

lemma extends_nth:
  assumes "extends p p'"
  shows "i < length (pg_nodes p) \<Longrightarrow> pg_nodes p' ! i = pg_nodes p ! i \<and> i < length (pg_nodes p')"
    "i < length (pg_arguments p) \<Longrightarrow> pg_arguments p' ! i = pg_arguments p ! i \<and> i < length (pg_arguments p')"
    "i < length (pg_calls p) \<Longrightarrow> pg_calls p' ! i = pg_calls p ! i \<and> i < length (pg_calls p')"
    "i < length (pg_tuple_elements p) \<Longrightarrow>
       pg_tuple_elements p' ! i = pg_tuple_elements p ! i \<and> i < length (pg_tuple_elements p')"
    "i < length (pg_fanouts p) \<Longrightarrow> pg_fanouts p' ! i = pg_fanouts p ! i \<and> i < length (pg_fanouts p')"
    "i < length (pg_fanout_branches p) \<Longrightarrow>
       pg_fanout_branches p' ! i = pg_fanout_branches p ! i \<and> i < length (pg_fanout_branches p')"
  using assms by (auto simp: extends_def prefix_nth dest: prefix_length_le)

lemma extends_lengths:
  assumes "extends p p'"
  shows "length (pg_nodes p) \<le> length (pg_nodes p')"
    "length (pg_arguments p) \<le> length (pg_arguments p')" "length (pg_calls p) \<le> length (pg_calls p')"
    "length (pg_tuple_elements p) \<le> length (pg_tuple_elements p')"
    "vector_payload_size p t \<le> vector_payload_size p' t"
    "length (pg_vector_element_spans p) \<le> length (pg_vector_element_spans p')"
    "length (pg_fanouts p) \<le> length (pg_fanouts p')"
    "length (pg_fanout_branches p) \<le> length (pg_fanout_branches p')"
    "length (pg_tuple_element_spans p) \<le> length (pg_tuple_element_spans p')"
  using assms by (auto simp: extends_def vector_payload_size_def dest: prefix_length_le)

text \<open>A node is well formed at its index: its ranges lie inside the tables and its operands are
  earlier nodes.\<close>

definition node_ok :: "nat \<Rightarrow> rewrite_program \<Rightarrow> nat \<Rightarrow> rewrite_node \<Rightarrow> bool" where
  "node_ok n p i nd \<longleftrightarrow>
     span_ok n (rn_span nd) \<and>
     (rn_kind nd = NK_parameter_reference \<longrightarrow>
        rn_first_element nd < length (hd_declarations (pg_parameter_header p))) \<and>
     (rn_kind nd = NK_vector_literal \<longrightarrow>
        rn_first_element_span nd + rn_element_count nd \<le> length (pg_vector_element_spans p) \<and>
        rn_first_element nd + rn_element_count nd \<le> vector_payload_size p (rn_element_type nd)) \<and>
     (rn_kind nd = NK_tuple_literal \<longrightarrow>
        rn_first_element nd + rn_element_count nd \<le> length (pg_tuple_elements p) \<and>
        rn_first_element_span nd + rn_element_count nd \<le> length (pg_tuple_element_spans p) \<and>
        (\<forall>k < rn_element_count nd. pg_tuple_elements p ! (rn_first_element nd + k) < i)) \<and>
     (rn_kind nd = NK_fanout \<longrightarrow>
        rn_call_index nd < length (pg_fanouts p) \<and>
        (let f = pg_fanouts p ! rn_call_index nd in
         rf_first_branch f + rn_element_count nd \<le> length (pg_fanout_branches p) \<and>
         (\<forall>k < rn_element_count nd. rb_root (pg_fanout_branches p ! (rf_first_branch f + k)) < i))) \<and>
     (rn_kind nd = NK_placeholder \<longrightarrow> rn_first_element nd < i) \<and>
     (rn_kind nd = NK_primitive_call \<longrightarrow>
        rn_call_index nd < length (pg_calls p) \<and>
        (let c = pg_calls p ! rn_call_index nd in
         rc_span c = rn_span nd \<and>
         rc_first_argument c + rc_argument_count c \<le> length (pg_arguments p) \<and>
         (\<forall>k < rc_argument_count c. pg_arguments p ! (rc_first_argument c + k) < i)))"

lemma node_ok_mono:
  assumes "node_ok n p i nd" "extends p p'"
  shows "node_ok n p' i nd"
proof -
  note lengths = extends_lengths [OF assms(2)] and same = extends_nth [OF assms(2)]
  let ?c = "pg_calls p ! rn_call_index nd" and ?f = "pg_fanouts p ! rn_call_index nd"
  have ok: "span_ok n (rn_span nd)"
    "rn_kind nd = NK_placeholder \<longrightarrow> rn_first_element nd < i"
    "rn_kind nd = NK_parameter_reference \<longrightarrow>
       rn_first_element nd < length (hd_declarations (pg_parameter_header p'))"
    using assms by (simp_all add: node_ok_def extends_def)
  have vector: "rn_kind nd = NK_vector_literal \<longrightarrow>
        rn_first_element_span nd + rn_element_count nd \<le> length (pg_vector_element_spans p') \<and>
        rn_first_element nd + rn_element_count nd \<le> vector_payload_size p' (rn_element_type nd)"
    using assms(1) lengths(5,6) by (auto simp: node_ok_def intro: order_trans)
  have tuple: "rn_kind nd = NK_tuple_literal \<longrightarrow>
        rn_first_element nd + rn_element_count nd \<le> length (pg_tuple_elements p') \<and>
        rn_first_element_span nd + rn_element_count nd \<le> length (pg_tuple_element_spans p') \<and>
        (\<forall>k < rn_element_count nd. pg_tuple_elements p' ! (rn_first_element nd + k) < i)"
    using assms(1) lengths(4,9) same(4) by (auto simp: node_ok_def intro: order_trans)
  have fanout: "rn_call_index nd < length (pg_fanouts p') \<and> pg_fanouts p' ! rn_call_index nd = ?f \<and>
        rf_first_branch ?f + rn_element_count nd \<le> length (pg_fanout_branches p') \<and>
        (\<forall>k < rn_element_count nd. rb_root (pg_fanout_branches p' ! (rf_first_branch ?f + k)) < i)"
    if "rn_kind nd = NK_fanout"
    using assms(1) that lengths(8) same(5,6) by (auto simp: node_ok_def Let_def intro: order_trans)
  have call: "rn_call_index nd < length (pg_calls p') \<and> pg_calls p' ! rn_call_index nd = ?c \<and>
         rc_span ?c = rn_span nd \<and> rc_first_argument ?c + rc_argument_count ?c \<le> length (pg_arguments p') \<and>
         (\<forall>k < rc_argument_count ?c. pg_arguments p' ! (rc_first_argument ?c + k) < i)"
    if "rn_kind nd = NK_primitive_call"
    using assms(1) that lengths(2) same(2,3) by (auto simp: node_ok_def Let_def intro: order_trans)
  show ?thesis
    unfolding node_ok_def Let_def using ok vector tuple fanout call by simp
qed

text \<open>Calls own consecutive ranges of the argument table.\<close>

fun contiguous :: "nat \<Rightarrow> rewrite_call list \<Rightarrow> nat \<Rightarrow> bool" where
  "contiguous s [] t \<longleftrightarrow> s = t"
| "contiguous s (c # cs) t \<longleftrightarrow> rc_first_argument c = s \<and> contiguous (s + rc_argument_count c) cs t"

lemma contiguous_snoc:
  "contiguous s (cs @ [c]) t \<longleftrightarrow> contiguous s cs (rc_first_argument c) \<and> rc_first_argument c + rc_argument_count c = t"
  by (induction cs arbitrary: s) auto

definition call_indices :: "rewrite_node list \<Rightarrow> nat list" where
  "call_indices nds = map rn_call_index (filter (\<lambda>nd. rn_kind nd = NK_primitive_call) nds)"

definition branch_ok :: "rewrite_program \<Rightarrow> rewrite_fanout_branch \<Rightarrow> bool" where
  "branch_ok p b \<longleftrightarrow>
     rb_root b < length (pg_nodes p) \<and>
     rn_kind (pg_nodes p ! rb_root b) = NK_primitive_call \<and>
     inspect_branch_placeholder (Suc (rb_root b)) p (rb_root b) False (0, None, False) =
       Some (1, Some (rb_placeholder_span b), False)"

definition fanout_ok :: "rewrite_program \<Rightarrow> rewrite_fanout \<Rightarrow> bool" where
  "fanout_ok p f \<longleftrightarrow>
     1 \<le> rf_branch_count f \<and> rf_operand f < length (pg_nodes p) \<and>
     rf_first_branch f + rf_branch_count f \<le> length (pg_fanout_branches p)"

definition node_begin :: "rewrite_program \<Rightarrow> nat \<Rightarrow> nat" where
  "node_begin p i = begin_offset (rn_span (pg_nodes p ! i))"

definition tables_ok :: "nat \<Rightarrow> rewrite_program \<Rightarrow> bool" where
  "tables_ok n p \<longleftrightarrow>
     length (pg_source p) = n \<and>
     (\<forall>i < length (pg_nodes p). node_ok n p i (pg_nodes p ! i)) \<and>
     length (pg_argument_spans p) = length (pg_arguments p) \<and>
     (\<forall>k < length (pg_arguments p). pg_arguments p ! k < length (pg_nodes p) \<and>
        pg_argument_spans p ! k = rn_span (pg_nodes p ! (pg_arguments p ! k))) \<and>
     (\<forall>e \<in> set (pg_tuple_elements p). e < length (pg_nodes p)) \<and>
     contiguous 0 (pg_calls p) (length (pg_arguments p)) \<and>
     (\<forall>c \<in> set (pg_calls p). span_ok n (rc_name_span c) \<and> span_ok n (rc_span c)) \<and>
     call_indices (pg_nodes p) = [0..<length (pg_calls p)] \<and>
     (\<forall>f \<in> set (pg_fanouts p). fanout_ok p f) \<and>
     (\<forall>b \<in> set (pg_fanout_branches p). branch_ok p b)"

definition roots_ok :: "rewrite_program \<Rightarrow> bool" where
  "roots_ok p \<longleftrightarrow>
     sorted_wrt (<) (pg_roots p) \<and> (\<forall>r \<in> set (pg_roots p). r < length (pg_nodes p)) \<and>
     sorted (map (node_begin p) (pg_roots p))"

section \<open>Placeholders\<close>

text \<open>The inspection of a tree needs no more fuel than the index of its root, and gives the same
  answer when the tables have grown.\<close>

lemma those_map_Some: "those (map f xs) = Some ys \<longleftrightarrow> map f xs = map Some ys"
  by (induction xs arbitrary: ys) (auto split: option.splits simp: Cons_eq_map_conv)

lemma those_at_range:
  assumes "first + count \<le> length xs"
  shows "those (map (\<lambda>k. at xs (first + k)) [0..<count]) = Some (map (\<lambda>k. xs ! (first + k)) [0..<count])"
  unfolding those_map_Some using assms by simp

lemma inspect_all_cong:
  assumes "\<And>m acc. m \<in> set ns \<Longrightarrow>
      inspect_branch_placeholder fuel p m own acc = inspect_branch_placeholder fuel' p' m own acc \<and>
      inspect_branch_placeholder fuel p m own acc \<noteq> None"
  shows "inspect_all fuel p ns own acc = inspect_all fuel' p' ns own acc \<and> inspect_all fuel p ns own acc \<noteq> None"
  using assms
proof (induction ns arbitrary: acc)
  case (Cons m ns)
  obtain acc' where "inspect_branch_placeholder fuel p m own acc = Some acc'"
    using Cons.prems [of m acc] by (metis list.set_intros(1) not_None_eq)
  moreover from this have "inspect_branch_placeholder fuel' p' m own acc = Some acc'"
    using Cons.prems [of m acc] by simp
  moreover have "inspect_all fuel p ns own acc' = inspect_all fuel' p' ns own acc' \<and>
      inspect_all fuel p ns own acc' \<noteq> None"
    by (rule Cons.IH) (rule Cons.prems, simp)
  ultimately show ?case unfolding inspect_all.simps by (simp only: option.case) argo
qed simp

lemma inspect_stable:
  assumes nodes: "\<forall>j \<le> i. node_ok n p j (pg_nodes p ! j)" and ext: "extends p p'"
    and "i < length (pg_nodes p)" "i < fuel" "i < fuel'"
  shows "inspect_branch_placeholder fuel p i own acc = inspect_branch_placeholder fuel' p' i own acc \<and>
    inspect_branch_placeholder fuel p i own acc \<noteq> None"
  using assms(1,3-)
proof (induction i arbitrary: fuel fuel' own acc rule: less_induct)
  case (less i)
  obtain f f' where fuel: "fuel = Suc f" "fuel' = Suc f'" using less.prems by (cases fuel; cases fuel') auto
  let ?nd = "pg_nodes p ! i"
  have ok: "node_ok n p i ?nd" using less.prems by blast
  have node: "at (pg_nodes p) i = Some ?nd" "at (pg_nodes p') i = Some ?nd"
    using extends_nth(1) [OF ext less.prems(2)] less.prems(2) by simp_all
  have below: "inspect_all f p ms w ac = inspect_all f' p' ms w ac \<and> inspect_all f p ms w ac \<noteq> None"
    if "\<forall>m \<in> set ms. m < i" for ms w ac
  proof (rule inspect_all_cong)
    fix m ac' assume "m \<in> set ms"
    then have m: "m < i" using that by blast
    then show "inspect_branch_placeholder f p m w ac' = inspect_branch_placeholder f' p' m w ac' \<and>
        inspect_branch_placeholder f p m w ac' \<noteq> None"
      using less.prems fuel by (intro less.IH) auto
  qed
  show ?case
  proof (cases "rn_kind ?nd")
    case NK_primitive_call
    let ?c = "pg_calls p ! rn_call_index ?nd"
    have call: "rn_call_index ?nd < length (pg_calls p)"
      "rc_first_argument ?c + rc_argument_count ?c \<le> length (pg_arguments p)"
      "\<forall>k < rc_argument_count ?c. pg_arguments p ! (rc_first_argument ?c + k) < i"
      using ok NK_primitive_call by (auto simp: node_ok_def Let_def)
    have same: "pg_calls p' ! rn_call_index ?nd = ?c" "rn_call_index ?nd < length (pg_calls p')"
      using extends_nth(3) [OF ext call(1)] by auto
    have range': "rc_first_argument ?c + rc_argument_count ?c \<le> length (pg_arguments p')"
      using call(2) extends_lengths(2) [OF ext] by linarith
    let ?args = "map (\<lambda>k. pg_arguments p ! (rc_first_argument ?c + k)) [0..<rc_argument_count ?c]"
    have args': "map (\<lambda>k. pg_arguments p' ! (rc_first_argument ?c + k)) [0..<rc_argument_count ?c] = ?args"
      using extends_nth(2) [OF ext] call(2) by auto
    have "\<forall>m \<in> set ?args. m < i" using call(3) by auto
    note below [OF this, of own acc]
    moreover have "inspect_branch_placeholder fuel p i own acc = inspect_all f p ?args own acc"
      using NK_primitive_call node call(1) by (simp add: fuel those_at_range [OF call(2)])
    moreover have "inspect_branch_placeholder fuel' p' i own acc = inspect_all f' p' ?args own acc"
      using NK_primitive_call node same by (simp add: fuel those_at_range [OF range'] args')
    ultimately show ?thesis by argo
  next
    case NK_tuple_literal
    have tuple: "rn_first_element ?nd + rn_element_count ?nd \<le> length (pg_tuple_elements p)"
      "\<forall>k < rn_element_count ?nd. pg_tuple_elements p ! (rn_first_element ?nd + k) < i"
      using ok NK_tuple_literal by (auto simp: node_ok_def)
    have range': "rn_first_element ?nd + rn_element_count ?nd \<le> length (pg_tuple_elements p')"
      using tuple(1) extends_lengths(4) [OF ext] by linarith
    let ?els = "map (\<lambda>k. pg_tuple_elements p ! (rn_first_element ?nd + k)) [0..<rn_element_count ?nd]"
    have els': "map (\<lambda>k. pg_tuple_elements p' ! (rn_first_element ?nd + k)) [0..<rn_element_count ?nd] = ?els"
      using extends_nth(4) [OF ext] tuple(1) by auto
    have "\<forall>m \<in> set ?els. m < i" using tuple(2) by auto
    note below [OF this, of True acc]
    moreover have "inspect_branch_placeholder fuel p i own acc = inspect_all f p ?els True acc"
      using NK_tuple_literal node by (simp add: fuel those_at_range [OF tuple(1)])
    moreover have "inspect_branch_placeholder fuel' p' i own acc = inspect_all f' p' ?els True acc"
      using NK_tuple_literal node by (simp add: fuel those_at_range [OF range'] els')
    ultimately show ?thesis by argo
  next
    case NK_placeholder
    then show ?thesis using node by (cases acc) (simp add: fuel)
  qed (use node in \<open>simp_all add: fuel\<close>)
qed

lemma branch_ok_mono:
  assumes "branch_ok p b" "\<forall>j < length (pg_nodes p). node_ok n p j (pg_nodes p ! j)" "extends p p'"
  shows "branch_ok p' b"
proof -
  have root: "rb_root b < length (pg_nodes p)" using assms(1) by (simp add: branch_ok_def)
  show ?thesis
    using assms(1) extends_nth(1) [OF assms(3) root]
      inspect_stable [of "rb_root b" n p p' "Suc (rb_root b)" "Suc (rb_root b)" False "(0, None, False)"]
      assms(2,3) root
    by (simp add: branch_ok_def del: inspect_branch_placeholder.simps)
qed

text \<open>A count of placeholders comes with the span of the first, which lies in the source.\<close>

definition inspection_ok :: "nat \<Rightarrow> placeholder_inspection \<Rightarrow> bool" where
  "inspection_ok n acc \<longleftrightarrow>
     (case acc of (count, span, _) \<Rightarrow>
        (0 < count \<longrightarrow> span \<noteq> None) \<and> (\<forall>s. span = Some s \<longrightarrow> span_ok n s))"

lemma inspection_spans:
  assumes "\<forall>nd \<in> set (pg_nodes p). span_ok n (rn_span nd)"
  shows "inspection_ok n acc \<Longrightarrow> inspect_branch_placeholder fuel p i own acc = Some acc' \<Longrightarrow> inspection_ok n acc'"
    "inspection_ok n acc \<Longrightarrow> inspect_all fuel p ns own acc = Some acc' \<Longrightarrow> inspection_ok n acc'"
  using assms
proof (induction fuel p i own acc and fuel p ns own acc arbitrary: acc' and acc'
    rule: inspect_branch_placeholder_inspect_all.induct)
  case (2 fuel p i own acc)
  obtain nd where nd: "at (pg_nodes p) i = Some nd" using 2 by (auto split: option.splits)
  then have span: "span_ok n (rn_span nd)" using 2 by (auto simp: at_Some_iff)
  show ?case
  proof (cases "rn_kind nd")
    case NK_placeholder
    then show ?thesis
      using 2(3-) nd span by (cases acc) (auto simp: inspection_ok_def split: option.splits)
  next
    case NK_primitive_call
    then show ?thesis
      using 2(2) [OF nd NK_primitive_call] 2(3-) nd by (auto split: option.splits)
  next
    case NK_tuple_literal
    then show ?thesis
      using 2(1) [OF nd NK_tuple_literal] 2(3-) nd by (auto split: option.splits)
  qed (use 2 nd in auto)
qed (auto split: option.splits)

section \<open>Growing the tables\<close>

lemma contiguous_append: "contiguous s (xs @ ys) t \<longleftrightarrow> (\<exists>m. contiguous s xs m \<and> contiguous m ys t)"
  by (induction xs arbitrary: s) auto

lemma call_indices_append [simp]: "call_indices (xs @ ys) = call_indices xs @ call_indices ys"
  by (simp add: call_indices_def)

text \<open>What an operation has to show of the entries it appends.\<close>

lemma tables_ok_grow:
  assumes ok: "tables_ok n p" and ext: "extends p p'" and "pg_source p' = pg_source p"
    and nodes: "pg_nodes p' = pg_nodes p @ nds"
    and new_nodes: "\<And>k. k < length nds \<Longrightarrow> node_ok n p' (length (pg_nodes p) + k) (nds ! k)"
    and args: "pg_arguments p' = pg_arguments p @ args" "\<forall>m \<in> set args. m < length (pg_nodes p)"
      "pg_argument_spans p' = pg_argument_spans p @ map (\<lambda>m. rn_span (pg_nodes p ! m)) args"
    and calls: "pg_calls p' = pg_calls p @ cs"
      "contiguous (length (pg_arguments p)) cs (length (pg_arguments p'))"
      "\<forall>c \<in> set cs. span_ok n (rc_name_span c) \<and> span_ok n (rc_span c)"
      "call_indices nds = [length (pg_calls p)..<length (pg_calls p')]"
    and elements: "pg_tuple_elements p' = pg_tuple_elements p @ els" "\<forall>e \<in> set els. e < length (pg_nodes p)"
    and fanouts: "\<And>f. f \<in> set (pg_fanouts p') \<Longrightarrow> f \<in> set (pg_fanouts p) \<or> fanout_ok p' f"
    and branches: "\<And>b. b \<in> set (pg_fanout_branches p') \<Longrightarrow>
      b \<in> set (pg_fanout_branches p) \<or> branch_ok p' b"
  shows "tables_ok n p'"
proof -
  let ?N = "length (pg_nodes p)"
  have old: "length (pg_source p) = n" "\<forall>i < ?N. node_ok n p i (pg_nodes p ! i)"
    "length (pg_argument_spans p) = length (pg_arguments p)"
    "\<forall>k < length (pg_arguments p). pg_arguments p ! k < ?N \<and>
       pg_argument_spans p ! k = rn_span (pg_nodes p ! (pg_arguments p ! k))"
    "contiguous 0 (pg_calls p) (length (pg_arguments p))"
    "\<forall>c \<in> set (pg_calls p). span_ok n (rc_name_span c) \<and> span_ok n (rc_span c)"
    "call_indices (pg_nodes p) = [0..<length (pg_calls p)]"
    "\<forall>e \<in> set (pg_tuple_elements p). e < ?N"
    "\<forall>f \<in> set (pg_fanouts p). fanout_ok p f" "\<forall>b \<in> set (pg_fanout_branches p). branch_ok p b"
    using ok by (simp_all add: tables_ok_def)
  have node: "node_ok n p' i (pg_nodes p' ! i)" if "i < length (pg_nodes p')" for i
  proof (cases "i < ?N")
    case True
    then show ?thesis using old(2) node_ok_mono [OF _ ext] by (simp add: nodes nth_append)
  next
    case False
    then show ?thesis using new_nodes [of "i - ?N"] that by (simp add: nodes nth_append)
  qed
  have span: "pg_nodes p' ! m = pg_nodes p ! m \<and> m < length (pg_nodes p')" if "m < ?N" for m
    using that by (simp add: nodes nth_append)
  have arg: "pg_arguments p' ! k < length (pg_nodes p') \<and>
      pg_argument_spans p' ! k = rn_span (pg_nodes p' ! (pg_arguments p' ! k))"
    if k: "k < length (pg_arguments p')" for k
  proof (cases "k < length (pg_arguments p)")
    case True
    then show ?thesis using old(3,4) span by (simp add: args nth_append)
  next
    case False
    have "args ! (k - length (pg_arguments p)) < ?N"
      using args(2) k False by (simp add: args(1))
    then show ?thesis using False k old(3) span by (simp add: args nth_append)
  qed
  have "call_indices (pg_nodes p') = [0..<length (pg_calls p')]"
    using old(7) calls(4) upt_add_eq_append [of 0 "length (pg_calls p)" "length cs"]
    by (simp add: nodes calls(1))
  moreover have "fanout_ok p' f" if "f \<in> set (pg_fanouts p')" for f
    using fanouts [OF that] old(9) extends_lengths(1,8) [OF ext] by (auto simp: fanout_ok_def)
  moreover have "branch_ok p' b" if "b \<in> set (pg_fanout_branches p')" for b
    using branches [OF that] old(2,10) branch_ok_mono [OF _ _ ext] by blast
  moreover have "contiguous 0 (pg_calls p') (length (pg_arguments p'))"
    unfolding calls(1) contiguous_append using old(5) calls(2) by blast
  ultimately show ?thesis
    unfolding tables_ok_def using node arg old calls(3) assms(3) elements
    by (auto simp: args(1,3) calls(1) nodes)
qed

lemma push_node_simps [simp]:
  "snd (push_node nd p) = length (pg_nodes p)"
  "pg_nodes (fst (push_node nd p)) = pg_nodes p @ [nd]"
  "pg_source (fst (push_node nd p)) = pg_source p"
  "pg_parameter_header (fst (push_node nd p)) = pg_parameter_header p"
  "pg_arguments (fst (push_node nd p)) = pg_arguments p"
  "pg_argument_spans (fst (push_node nd p)) = pg_argument_spans p"
  "pg_roots (fst (push_node nd p)) = pg_roots p"
  "pg_calls (fst (push_node nd p)) = pg_calls p"
  "pg_boolean_elements (fst (push_node nd p)) = pg_boolean_elements p"
  "pg_integer_elements (fst (push_node nd p)) = pg_integer_elements p"
  "pg_double_elements (fst (push_node nd p)) = pg_double_elements p"
  "pg_vector_element_spans (fst (push_node nd p)) = pg_vector_element_spans p"
  "pg_tuple_elements (fst (push_node nd p)) = pg_tuple_elements p"
  "pg_tuple_element_spans (fst (push_node nd p)) = pg_tuple_element_spans p"
  "pg_fanouts (fst (push_node nd p)) = pg_fanouts p"
  "pg_fanout_branches (fst (push_node nd p)) = pg_fanout_branches p"
  by (simp_all add: push_node_def)

lemma plain_node_simps [simp]:
  "rn_kind (plain_node k s t a b c d) = k" "rn_span (plain_node k s t a b c d) = s"
  "rn_element_type (plain_node k s t a b c d) = t" "rn_first_element (plain_node k s t a b c d) = a"
  "rn_element_count (plain_node k s t a b c d) = b"
  "rn_first_element_span (plain_node k s t a b c d) = c" "rn_call_index (plain_node k s t a b c d) = d"
  by (simp_all add: plain_node_def)

text \<open>The effect of completing an expression: one node more, of the given span, the header
  and the roots as before.\<close>

definition completes :: "nat \<Rightarrow> rewrite_program \<Rightarrow> rewrite_span \<Rightarrow> rewrite_program \<times> nat \<Rightarrow> bool" where
  "completes n p s pushed \<longleftrightarrow>
     tables_ok n (fst pushed) \<and> extends p (fst pushed) \<and> snd pushed = length (pg_nodes p) \<and>
     length (pg_nodes (fst pushed)) = length (pg_nodes p) + 1 \<and>
     rn_span (pg_nodes (fst pushed) ! snd pushed) = s \<and>
     pg_roots (fst pushed) = pg_roots p \<and> pg_parameter_header (fst pushed) = pg_parameter_header p"

lemma push_leaf_completes:
  assumes "tables_ok n p" "node_ok n p (length (pg_nodes p)) nd" "rn_kind nd \<noteq> NK_primitive_call"
  shows "completes n p (rn_span nd) (push_node nd p)"
proof -
  let ?p' = "fst (push_node nd p)"
  have ext: "extends p ?p'" by (simp add: extends_def)
  have "tables_ok n ?p'"
    by (rule tables_ok_grow [OF assms(1) ext, of "[nd]" "[]" "[]" "[]"])
       (use assms(2,3) node_ok_mono [OF assms(2) ext] in \<open>simp_all add: call_indices_def\<close>)
  then show ?thesis using ext by (simp add: completes_def nth_append)
qed

section \<open>Pending arguments\<close>

text \<open>A context's pending arguments form a chain through the shared table.\<close>

fun linked :: "rewrite_pending_argument list \<Rightarrow> nat list \<Rightarrow> bool" where
  "linked pend [] \<longleftrightarrow> True"
| "linked pend [i] \<longleftrightarrow> i < length pend \<and> pa_next (pend ! i) = None"
| "linked pend (i # j # is) \<longleftrightarrow>
     i < length pend \<and> pa_next (pend ! i) = Some j \<and> linked pend (j # is)"

definition chain_nodes :: "rewrite_pending_argument list \<Rightarrow> nat list \<Rightarrow> nat list" where
  "chain_nodes pend is = map (\<lambda>i. pa_node (pend ! i)) is"

definition head_index :: "nat list \<Rightarrow> nat option" where
  "head_index is = (case is of [] \<Rightarrow> None | i # _ \<Rightarrow> Some i)"

definition context_chain :: "rewrite_pending_argument list \<Rightarrow> rewrite_context \<Rightarrow> nat list \<Rightarrow> bool" where
  "context_chain pend c is \<longleftrightarrow>
     linked pend is \<and> cx_first_pending_argument c = head_index is \<and>
     (is \<noteq> [] \<longrightarrow> cx_last_pending_argument c = Some (last is)) \<and>
     cx_argument_count c = length is"

lemma linked_bounds: "linked pend is \<Longrightarrow> \<forall>i \<in> set is. i < length pend"
  by (induction pend "is" rule: linked.induct) auto

lemma linked_cong:
  assumes "linked pend is" "\<forall>i \<in> set is. i < length pend' \<and> pa_next (pend' ! i) = pa_next (pend ! i)"
  shows "linked pend' is"
  using assms by (induction pend "is" rule: linked.induct) auto

lemma pending_nodes_linked:
  "linked pend is \<Longrightarrow> pending_nodes pend (head_index is) = Some (chain_nodes pend is)"
  by (induction pend "is" rule: linked.induct)
     (simp_all add: head_index_def chain_nodes_def pending_nodes.simps)

lemma linked_snoc:
  assumes "linked pend is" "distinct is" "is \<noteq> []" "pa_next e = None"
  shows "linked ((pend @ [e])[last is := (pend ! last is)\<lparr>pa_next := Some (length pend)\<rparr>])
    (is @ [length pend])"
  using assms(1-3)
proof (induction pend "is" rule: linked.induct)
  case (3 pend i j "is")
  have "i \<noteq> last (j # is)" using 3(3) by (metis distinct.simps(2) last_in_set list.distinct(1))
  then show ?case using 3 by (auto simp: nth_append)
qed (use assms(4) in \<open>auto simp: nth_append\<close>)

text \<open>Appending to the context on top of the stack extends its chain and leaves the others.\<close>

definition chains_ok :: "nat \<Rightarrow> rewrite_pending_argument list \<Rightarrow> rewrite_context list \<Rightarrow> bool" where
  "chains_ok N pend cs \<longleftrightarrow>
     (\<exists>iss. list_all2 (context_chain pend) cs iss \<and> distinct (concat iss) \<and>
        (\<forall>i \<in> set (concat iss). pa_node (pend ! i) < N))"

lemma chains_ok_mono: "chains_ok N pend cs \<Longrightarrow> N \<le> M \<Longrightarrow> chains_ok M pend cs"
  unfolding chains_ok_def by (meson less_le_trans)

lemma chains_ok_pop: "chains_ok N pend (c # cs) \<Longrightarrow> chains_ok N pend cs"
  unfolding chains_ok_def by (auto simp: list_all2_Cons1)

lemma chains_ok_Nil [simp]: "chains_ok N pend []"
  by (simp add: chains_ok_def)

lemma chains_ok_push:
  "chains_ok N pend cs \<Longrightarrow> cx_first_pending_argument c = None \<Longrightarrow> cx_argument_count c = 0 \<Longrightarrow>
     chains_ok N pend (c # cs)"
  unfolding chains_ok_def
  by (elim exE) (rule_tac x = "[] # iss" in exI, simp add: context_chain_def head_index_def)

text \<open>What the chain of a context depends on.\<close>

lemma chains_ok_cong:
  "chains_ok N pend (c # cs) \<Longrightarrow>
     cx_first_pending_argument c' = cx_first_pending_argument c \<Longrightarrow>
     cx_last_pending_argument c' = cx_last_pending_argument c \<Longrightarrow>
     cx_argument_count c' = cx_argument_count c \<Longrightarrow> chains_ok N pend (c' # cs)"
  unfolding chains_ok_def by (auto simp: list_all2_Cons1 context_chain_def)

lemma chains_ok_top:
  assumes "chains_ok N pend (c # cs)"
  obtains ns where "pending_nodes pend (cx_first_pending_argument c) = Some ns"
    "length ns = cx_argument_count c" "\<forall>m \<in> set ns. m < N"
    "0 < cx_argument_count c \<Longrightarrow> first_pending_node pend c = Some (hd ns)"
    "cx_first_pending_argument c = None \<longleftrightarrow> cx_argument_count c = 0"
proof -
  from assms obtain "is" where "is": "context_chain pend c is" "\<forall>i \<in> set is. pa_node (pend ! i) < N"
    by (auto simp: chains_ok_def list_all2_Cons1)
  then have l: "linked pend is" by (simp add: context_chain_def)
  have "first_pending_node pend c = Some (hd (chain_nodes pend is))" if "0 < cx_argument_count c"
    using "is"(1) that linked_bounds [OF l]
    by (cases "is") (auto simp: context_chain_def head_index_def first_pending_node_def chain_nodes_def)
  then show thesis
    using that [of "chain_nodes pend is"] "is" pending_nodes_linked [OF l]
    by (auto simp: context_chain_def chain_nodes_def head_index_def split: list.splits)
qed

lemma append_pending:
  assumes "chains_ok N pend (c # cs)" "m < N"
  obtains pend' c' where "append_pending_argument pend c m = Some (pend', c')"
    "chains_ok N pend' (c' # cs)"
    "cx_kind c' = cx_kind c" "cx_name_span c' = cx_name_span c" "cx_opening_span c' = cx_opening_span c"
    "cx_separator_span c' = cx_separator_span c" "cx_after_argument c' = cx_after_argument c"
    "cx_opening_token_index c' = cx_opening_token_index c"
    "cx_argument_count c' = cx_argument_count c + 1"
proof -
  from assms(1) obtain "is" iss where chain: "context_chain pend c is"
    and rest: "list_all2 (context_chain pend) cs iss"
    and dist: "distinct is" "set is \<inter> set (concat iss) = {}" "distinct (concat iss)"
    and less: "\<forall>i \<in> set is \<union> set (concat iss). pa_node (pend ! i) < N"
  proof -
    from assms(1) obtain isss where all: "list_all2 (context_chain pend) (c # cs) isss"
      "distinct (concat isss)" "\<forall>i \<in> set (concat isss). pa_node (pend ! i) < N"
      unfolding chains_ok_def by blast
    from all(1) obtain "is" iss where "isss = is # iss" "context_chain pend c is"
      "list_all2 (context_chain pend) cs iss"
      by (auto simp: list_all2_Cons1)
    with all(2,3) show thesis using that [of "is" iss] by (simp add: ball_Un)
  qed
  have l: "linked pend is" using chain by (simp add: context_chain_def)
  have "\<forall>js \<in> set iss. linked pend js"
    using rest by (induction rule: list_all2_induct) (simp_all add: context_chain_def)
  then have rest_bounds: "\<forall>i \<in> set (concat iss). i < length pend"
    using linked_bounds [of pend] by auto
  let ?e = "\<lparr>pa_node = m, pa_next = None\<rparr>"
  let ?pend' = "if is = [] then pend @ [?e]
    else (pend @ [?e])[last is := (pend ! last is)\<lparr>pa_next := Some (length pend)\<rparr>]"
  let ?c' = "c\<lparr>cx_first_pending_argument := head_index (is @ [length pend]),
    cx_last_pending_argument := Some (length pend), cx_argument_count := cx_argument_count c + 1\<rparr>"
  have bounds: "\<forall>i \<in> set is. i < length pend" by (rule linked_bounds [OF l])
  have run: "append_pending_argument pend c m = Some (?pend', ?c')"
  proof (cases "is")
    case Nil
    then show ?thesis using chain
      by (simp add: append_pending_argument_def context_chain_def head_index_def Let_def)
  next
    case (Cons i is')
    then have "last is < length pend" using bounds by (metis last_in_set list.distinct(1))
    then show ?thesis using chain Cons
      by (simp add: append_pending_argument_def context_chain_def head_index_def Let_def nth_append)
  qed
  have other: "?pend' ! i = pend ! i" if "i < length pend" "i \<notin> set is" for i
  proof -
    have "is \<noteq> [] \<Longrightarrow> last is \<noteq> i" using that(2) last_in_set [of "is"] by blast
    then show ?thesis using that(1) by (simp add: nth_append)
  qed
  have node: "pa_node (?pend' ! i) = pa_node (pend ! i)" if "i < length pend" for i
    using that bounds last_in_set [of "is"]
    by (cases "is = []"; cases "last is = i") (auto simp: nth_append)
  have "linked ?pend' (is @ [length pend])"
    using linked_snoc [OF l dist(1)] by (cases "is = []") simp_all
  then have top: "context_chain ?pend' ?c' (is @ [length pend])"
    using chain by (simp add: context_chain_def)
  have others: "list_all2 (context_chain ?pend') cs iss"
    using rest
  proof (rule list.rel_mono_strong)
    fix d js assume "js \<in> set iss" and d: "context_chain pend d js"
    then have "\<forall>i \<in> set js. i < length pend \<and> i \<notin> set is"
      using rest_bounds dist(2) by auto
    then have "\<forall>i \<in> set js. i < length ?pend' \<and> pa_next (?pend' ! i) = pa_next (pend ! i)"
      using other by auto
    then show "context_chain ?pend' d js"
      using d linked_cong [of pend js ?pend'] by (simp add: context_chain_def)
  qed
  have "chains_ok N ?pend' (?c' # cs)"
    unfolding chains_ok_def
  proof (intro exI conjI)
    show "list_all2 (context_chain ?pend') (?c' # cs) ((is @ [length pend]) # iss)"
      using top others by simp
    show "distinct (concat ((is @ [length pend]) # iss))"
      using dist bounds rest_bounds by auto
    have "is \<noteq> [] \<Longrightarrow> last is \<noteq> length pend" using bounds last_in_set [of "is"] by fastforce
    then have "pa_node (?pend' ! length pend) < N"
      using assms(2) by (simp add: nth_append)
    then show "\<forall>i \<in> set (concat ((is @ [length pend]) # iss)). pa_node (?pend' ! i) < N"
      using less node bounds rest_bounds by auto
  qed
  then show thesis using that run by simp
qed

section \<open>Completing expressions\<close>

lemma node_spans_eq:
  "\<forall>m \<in> set ns. m < length (pg_nodes p) \<Longrightarrow>
     node_spans p ns = Some (map (\<lambda>m. rn_span (pg_nodes p ! m)) ns)"
  by (simp add: node_spans_def those_map_Some)

lemma finish_call_completes:
  assumes "tables_ok n p" "chains_ok (length (pg_nodes p)) pend (c # cs)"
    and "span_ok n (cx_name_span c)" "span_ok n complete"
  obtains pushed where "finish_call p pend c closing complete = Some pushed" "completes n p complete pushed"
proof -
  from chains_ok_top [OF assms(2)] obtain ns where ns:
    "pending_nodes pend (cx_first_pending_argument c) = Some ns" "length ns = cx_argument_count c"
    "\<forall>m \<in> set ns. m < length (pg_nodes p)" by metis
  obtain pushed where run: "finish_call p pend c closing complete = Some pushed"
    using ns(1) node_spans_eq [OF ns(3)] by (simp add: finish_call_def)
  define call where "call = \<lparr>rc_syntax = (if cx_kind c = XK_bracket_call then CS_bracketed else CS_prefix),
    rc_name_span = cx_name_span c, rc_opening_delimiter_span = cx_opening_span c,
    rc_closing_delimiter_span = closing, rc_prefix_separator_span = cx_separator_span c,
    rc_span = complete, rc_first_argument = length (pg_arguments p),
    rc_argument_count = cx_argument_count c, rc_primitive = None\<rparr>"
  let ?nd = "plain_node NK_primitive_call complete ST_boolean 0 0 0 (length (pg_calls p))"
  let ?p' = "fst pushed"
  have pushed: "pushed = push_node ?nd (p\<lparr>pg_arguments := pg_arguments p @ ns,
      pg_argument_spans := pg_argument_spans p @ map (\<lambda>m. rn_span (pg_nodes p ! m)) ns,
      pg_calls := pg_calls p @ [call]\<rparr>)"
    using run ns(1) node_spans_eq [OF ns(3)] by (simp add: finish_call_def call_def)
  have ext: "extends p ?p'" unfolding pushed by (simp add: extends_def)
  have node: "node_ok n ?p' (length (pg_nodes p)) ?nd"
    unfolding pushed using assms(4) ns(2,3)
    by (simp add: node_ok_def nth_append call_def)
  have "tables_ok n ?p'"
  proof (rule tables_ok_grow [OF assms(1) ext, of "[?nd]" ns "[call]" "[]"])
    show "\<And>k. k < length [?nd] \<Longrightarrow> node_ok n ?p' (length (pg_nodes p) + k) ([?nd] ! k)"
      using node by simp
  qed (use ns assms(3,4) in \<open>simp_all add: pushed call_def call_indices_def\<close>)
  then have "completes n p complete pushed"
    using ext by (simp add: completes_def) (simp add: pushed nth_append)
  with run show thesis by (rule that)
qed

lemma finish_tuple_literal_completes:
  assumes "tables_ok n p" "chains_ok (length (pg_nodes p)) pend (c # cs)"
    and "span_ok n (span_from (cx_opening_span c) closing)"
  obtains pushed where "finish_tuple_literal p pend c closing = Some pushed"
    "completes n p (span_from (cx_opening_span c) closing) pushed"
proof -
  from chains_ok_top [OF assms(2)] obtain ns where ns:
    "pending_nodes pend (cx_first_pending_argument c) = Some ns" "length ns = cx_argument_count c"
    "\<forall>m \<in> set ns. m < length (pg_nodes p)" by metis
  let ?complete = "span_from (cx_opening_span c) closing"
  obtain pushed where run: "finish_tuple_literal p pend c closing = Some pushed"
    using ns(1) node_spans_eq [OF ns(3)] by (simp add: finish_tuple_literal_def)
  let ?nd = "plain_node NK_tuple_literal ?complete ST_boolean (length (pg_tuple_elements p))
    (cx_argument_count c) (length (pg_tuple_element_spans p)) 0"
  let ?p' = "fst pushed"
  have pushed: "pushed = push_node ?nd (p\<lparr>pg_tuple_elements := pg_tuple_elements p @ ns,
      pg_tuple_element_spans := pg_tuple_element_spans p @ map (\<lambda>m. rn_span (pg_nodes p ! m)) ns\<rparr>)"
    using run ns(1) node_spans_eq [OF ns(3)] by (simp add: finish_tuple_literal_def)
  have ext: "extends p ?p'" unfolding pushed by (simp add: extends_def)
  have node: "node_ok n ?p' (length (pg_nodes p)) ?nd"
    unfolding pushed using assms(3) ns(2,3) by (simp add: node_ok_def nth_append)
  have "tables_ok n ?p'"
  proof (rule tables_ok_grow [OF assms(1) ext, of "[?nd]" "[]" "[]" ns])
    show "\<And>k. k < length [?nd] \<Longrightarrow> node_ok n ?p' (length (pg_nodes p) + k) ([?nd] ! k)"
      using node by simp
  qed (use ns(3) in \<open>simp_all add: pushed call_indices_def\<close>)
  then have "completes n p ?complete pushed"
    using ext by (simp add: completes_def) (simp add: pushed nth_append)
  with run show thesis by (rule that)
qed

lemma finish_fanout_completes:
  assumes "tables_ok n p" "chains_ok (length (pg_nodes p)) pend (c # cs)"
    and "span_ok n (span_from (cx_name_span c) closing)"
    and "2 \<le> cx_argument_count c" "cx_argument_count c - 1 \<le> length (pg_fanout_branches p)"
  obtains pushed where "finish_fanout p pend c closing = Some pushed"
    "completes n p (span_from (cx_name_span c) closing) pushed"
proof -
  have some: "0 < cx_argument_count c" using assms(4) by simp
  obtain ns where ns: "length ns = cx_argument_count c"
    "\<forall>m \<in> set ns. m < length (pg_nodes p)" "first_pending_node pend c = Some (hd ns)"
    using chains_ok_top [OF assms(2)] some by metis
  have hd: "hd ns < length (pg_nodes p)" using ns(1,2) assms(4) by (cases ns) auto
  let ?complete = "span_from (cx_name_span c) closing"
  obtain pushed where run: "finish_fanout p pend c closing = Some pushed"
    using ns(3) hd by (simp add: finish_fanout_def Let_def)
  define count where "count = cx_argument_count c - 1"
  define f where "f = \<lparr>rf_keyword_span = cx_name_span c, rf_opening_span = cx_opening_span c,
    rf_closing_span = closing, rf_span = ?complete, rf_operand_span = rn_span (pg_nodes p ! hd ns),
    rf_operand = hd ns, rf_first_branch = length (pg_fanout_branches p) - count, rf_branch_count = count\<rparr>"
  let ?nd = "plain_node NK_fanout ?complete ST_boolean (length (pg_fanout_branches p) - count) count 0
    (length (pg_fanouts p))"
  let ?p' = "fst pushed"
  have pushed: "pushed = push_node ?nd (p\<lparr>pg_fanouts := pg_fanouts p @ [f]\<rparr>)"
    using run ns(3) hd by (simp add: finish_fanout_def f_def count_def Let_def)
  have ext: "extends p ?p'" unfolding pushed by (simp add: extends_def)
  have roots: "rb_root b < length (pg_nodes p)" if "b \<in> set (pg_fanout_branches p)" for b
    using assms(1) that by (simp add: tables_ok_def branch_ok_def)
  have node: "node_ok n ?p' (length (pg_nodes p)) ?nd"
    using assms(3,5) roots by (simp add: node_ok_def pushed f_def count_def nth_append)
  have f: "fanout_ok ?p' f" using assms(4,5) hd by (simp add: pushed fanout_ok_def f_def count_def)
  have "tables_ok n ?p'"
  proof (rule tables_ok_grow [OF assms(1) ext, of "[?nd]" "[]" "[]" "[]"])
    show "\<And>k. k < length [?nd] \<Longrightarrow> node_ok n ?p' (length (pg_nodes p) + k) ([?nd] ! k)"
      using node by simp
    show "\<And>g. g \<in> set (pg_fanouts ?p') \<Longrightarrow> g \<in> set (pg_fanouts p) \<or> fanout_ok ?p' g"
      using f by (auto simp: pushed)
  qed (simp_all add: pushed call_indices_def)
  then have "completes n p ?complete pushed"
    using ext by (simp add: completes_def) (simp add: pushed nth_append)
  with run show thesis by (rule that)
qed

end
