(* ===== verification/ParserCorrect.thy ===== *)
theory ParserCorrect
  imports ParserInvariant
begin

text \<open>
  Correctness of the parser: every iteration of the loop keeps the invariant of the tables and
  of the stack, reads no table out of range and makes progress, so that \<open>parse_rewrite\<close> returns
  on every source; the programs it accepts are well formed, and its diagnostics point into the
  source.
\<close>

section \<open>Diagnostics\<close>

definition diagnostic_ok :: "nat \<Rightarrow> rewrite_diagnostic \<Rightarrow> bool" where
  "diagnostic_ok n d \<longleftrightarrow>
     rd_error d \<noteq> PE_none \<and> span_ok n (rd_primary d) \<and> span_ok n (rd_context d) \<and>
     span_ok n (rd_related d)"

definition failed_ok :: "nat \<Rightarrow> rewrite_parse_result \<Rightarrow> bool" where
  "failed_ok n r \<longleftrightarrow> \<not> pr_ok r \<and> diagnostic_ok n (pr_diagnostic r)"

lemma set_diagnostic_failed [parser_rules]:
  "e \<noteq> PE_none \<Longrightarrow> span_ok n a \<Longrightarrow> span_ok n b \<Longrightarrow> span_ok n c \<Longrightarrow> failed_ok n (set_diagnostic r e a b c)"
  by (simp add: failed_ok_def diagnostic_ok_def set_diagnostic_def)

lemma set_parameter_diagnostic_failed [parser_rules]:
  "e \<noteq> PE_none \<Longrightarrow> span_ok n a \<Longrightarrow> span_ok n b \<Longrightarrow> span_ok n c \<Longrightarrow>
     failed_ok n (set_parameter_diagnostic r why e a b c)"
  by (simp add: failed_ok_def diagnostic_ok_def set_parameter_diagnostic_def set_diagnostic_def Let_def)

lemma error_not_none [simp]:
  "literal_token_error t \<noteq> PE_none" "vector_element_error t \<noteq> PE_none" "root_error t \<noteq> PE_none"
  by (simp_all add: literal_token_error_def vector_element_error_def root_error_def)

lemma delimited_context_ok:
  assumes "tokens_ok ts" "i < token_count ts"
  obtains s where "delimited_context_span ts i k = Some s" "span_ok (source_length ts) s"
proof -
  have "at (rts_tokens ts) i = Some (rts_tokens ts ! i)" using assms(2) by (simp add: token_count_def)
  then show thesis
    using that token_span [OF assms] matching_end_from [OF assms(1), of i] assms(2)
      token_offset_bounds(1) [OF assms(1), of i]
    by (simp add: delimited_context_span_def span_ok_def)
qed

lemma bracket_context_ok:
  assumes "tokens_ok ts" "span_ok (source_length ts) (cx_name_span c)"
    and "\<And>i. cx_opening_token_index c = Some i \<Longrightarrow>
      i < token_count ts \<and> begin_offset (cx_name_span c) \<le> token_offset ts i"
  shows "span_ok (source_length ts) (bracket_call_context_span ts c)"
proof (cases "cx_opening_token_index c")
  case None
  then show ?thesis
    using assms(2) token_offset_bounds(3) [OF assms(1)]
    by (simp add: bracket_call_context_span_def span_ok_def)
next
  case (Some i)
  then show ?thesis
    using assms(2) assms(3) [OF Some] matching_end_from [OF assms(1), of i]
    by (auto simp: bracket_call_context_span_def span_ok_def intro: order_trans)
qed

section \<open>Vector literals\<close>

lemma append_vector_element_simps [simp]:
  "pg_nodes (append_vector_element p t ty) = pg_nodes p"
  "pg_roots (append_vector_element p t ty) = pg_roots p"
  "pg_parameter_header (append_vector_element p t ty) = pg_parameter_header p"
  "pg_source (append_vector_element p t ty) = pg_source p"
  "pg_arguments (append_vector_element p t ty) = pg_arguments p"
  "pg_argument_spans (append_vector_element p t ty) = pg_argument_spans p"
  "pg_calls (append_vector_element p t ty) = pg_calls p"
  "pg_tuple_elements (append_vector_element p t ty) = pg_tuple_elements p"
  "pg_fanouts (append_vector_element p t ty) = pg_fanouts p"
  "pg_fanout_branches (append_vector_element p t ty) = pg_fanout_branches p"
  "length (pg_vector_element_spans (append_vector_element p t ty)) =
     length (pg_vector_element_spans p) + 1"
  "vector_payload_size (append_vector_element p t ty) ty = vector_payload_size p ty + 1"
  by (simp_all add: append_vector_element_def vector_payload_size_def Let_def)

lemma append_vector_element_extends: "extends p (append_vector_element p t ty)"
  by (simp add: extends_def append_vector_element_def Let_def)

lemma append_vector_element_tables:
  assumes "tables_ok n p"
  shows "tables_ok n (append_vector_element p t ty)"
  by (rule tables_ok_grow [OF assms append_vector_element_extends, where nds = "[]" and args = "[]" and cs = "[]" and els = "[]"])
     (simp_all add: call_indices_def)

text \<open>The tables while the elements of a literal are read.\<close>

definition reading_vector ::
    "nat \<Rightarrow> rewrite_program \<Rightarrow> scalar_type \<Rightarrow> nat \<Rightarrow> nat \<Rightarrow> nat \<Rightarrow> rewrite_program \<Rightarrow> bool" where
  "reading_vector n p0 ty first first_span count p \<longleftrightarrow>
     tables_ok n p \<and> extends p0 p \<and> pg_nodes p = pg_nodes p0 \<and> pg_roots p = pg_roots p0 \<and>
     pg_parameter_header p = pg_parameter_header p0 \<and>
     vector_payload_size p ty = first + count \<and>
     length (pg_vector_element_spans p) = first_span + count"

lemma reading_vector_append:
  "reading_vector n p0 ty first first_span count p \<Longrightarrow>
     reading_vector n p0 ty first first_span (count + 1) (append_vector_element p t ty)"
  using append_vector_element_tables append_vector_element_extends extends_trans
  by (auto simp: reading_vector_def)

text \<open>How reading a literal ends, from the token at \<open>i\<close>.\<close>

definition literal_outcome ::
    "rewrite_tokens \<Rightarrow> nat \<Rightarrow> rewrite_program \<Rightarrow> rewrite_parse_result \<Rightarrow> nat
     \<Rightarrow> (nat \<times> rewrite_parse_result \<times> nat) parsed \<Rightarrow> bool" where
  "literal_outcome ts i p0 r j out \<longleftrightarrow>
     (case out of
        Failed r' \<Rightarrow> failed_ok (source_length ts) r'
      | Parsed (j', r', node) \<Rightarrow>
          j < j' \<and> j' \<le> token_count ts \<and> pr_diagnostic r' = pr_diagnostic r \<and>
          (\<exists>s. begin_offset s = token_offset ts i \<and> span_ok (source_length ts) s \<and>
             completes (source_length ts) p0 s (pr_program r', node)))"

lemma vector_failure_outcome:
  assumes "tokens_ok ts" "i < token_count ts" "k < token_count ts" "e \<noteq> PE_none"
  shows "\<exists>out. vector_failure ts i (rts_tokens ts ! i) r e (rts_tokens ts ! k) = Some out \<and>
    literal_outcome ts i p0 r' j out"
proof -
  obtain s where s: "delimited_context_span ts i TK_right_parenthesis = Some s" "span_ok (source_length ts) s"
    using delimited_context_ok [OF assms(1,2)] .
  then show ?thesis
    using assms token_span(3) [OF assms(1)]
    by (simp add: vector_failure_def literal_outcome_def parser_rules)
qed

lemma vector_close_outcome:
  assumes "tokens_ok ts" "i < k" "j < k" "k \<le> token_count ts"
    and "reading_vector (source_length ts) p0 ty first first_span count (pr_program r)"
    and "vector_close ts (rts_tokens ts ! i) k r ty first count first_span = Some out"
  shows "literal_outcome ts i p0 r j out"
proof -
  note i = token_span [OF assms(1), of i]
  have i_less: "i < token_count ts" using assms(2,4) by simp
  let ?open = "rt_span (rts_tokens ts ! i)"
  show ?thesis
  proof (cases "k = token_count ts")
    case True
    then show ?thesis
      using assms i(3) [OF i_less] span_ok_to_end [OF assms(1)] span_ok_insertion(3) [OF assms(1)]
      by (auto simp: vector_close_def literal_outcome_def parser_rules)
  next
    case False
    then have k: "k < token_count ts" using assms(4) by simp
    let ?s = "span_from ?open (rt_span (rts_tokens ts ! k))"
    have s: "span_ok (source_length ts) ?s"
      using i [OF i_less] token_span [OF assms(1) k] token_offset_mono [OF assms(1), of i "k + 1"] assms(2)
      by (intro span_ok_from) simp_all
    show ?thesis
    proof (cases "kind_at ts k TK_right_parenthesis")
      case True
      let ?nd = "plain_node NK_vector_literal ?s ty first count first_span 0"
      have nd: "node_ok (source_length ts) (pr_program r) (length (pg_nodes (pr_program r))) ?nd"
        using s assms(5) by (simp add: node_ok_def reading_vector_def)
      have "completes (source_length ts) (pr_program r) ?s (push_node ?nd (pr_program r))"
        using push_leaf_completes [OF _ nd] assms(5) by (simp add: reading_vector_def)
      then have "completes (source_length ts) p0 ?s (push_node ?nd (pr_program r))"
        using assms(5) extends_trans by (fastforce simp: reading_vector_def completes_def)
      moreover have "out = Parsed (k + 1, finish_vector r ?s ty first count first_span)"
        using assms(6) False True by (simp add: vector_close_def)
      moreover have "begin_offset ?s = token_offset ts i" using i(1) [OF i_less] by (simp add: span_from_def)
      ultimately show ?thesis
        using s k assms(2,3)
        by (auto simp: literal_outcome_def finish_vector_def split: prod.splits)
    next
      case no_close: False
      then have "out = Failed (set_diagnostic r PE_mismatched_delimiter (rt_span (rts_tokens ts ! k)) ?s ?open)"
        using assms(6) False by (auto simp: vector_close_def split: if_splits)
      then show ?thesis
        using s i(3) [OF i_less] token_span(3) [OF assms(1) k]
        by (simp add: literal_outcome_def parser_rules)
    qed
  qed
qed

lemma vector_elements_outcome:
  assumes "tokens_ok ts" "i < index" "j < index" "index < token_count ts"
    and "reading_vector (source_length ts) p0 ty first first_span count (pr_program r)"
    and "pr_diagnostic r = pr_diagnostic r0"
  shows "\<exists>out. vector_elements ts i (rts_tokens ts ! i) ty first first_span index r count = Some out \<and>
    literal_outcome ts i p0 r0 j out"
  using assms(2-)
proof (induction "token_count ts - index" arbitrary: index r count j rule: less_induct)
  case less
  let ?n = "source_length ts"
  let ?element = "rts_tokens ts ! index"
  have i: "i < token_count ts" using less.prems(1,3) by simp
  have element: "token_at ts index = Some ?element" using less.prems(3) by (simp add: token_at_Some)
  note unfold = vector_elements.simps [of ts i "rts_tokens ts ! i" ty first first_span index r count]
  note failure = vector_failure_outcome [OF assms(1) i]
  show ?case
  proof (cases "is_scalar_token (rt_kind ?element) \<and> scalar_token_type (rt_kind ?element) = ty")
    case False
    then show ?thesis
      using failure [OF less.prems(3), of "vector_element_error ?element" r p0 r0 j]
        failure [OF less.prems(3), of PE_heterogeneous_vector r p0 r0 j]
      by (auto simp: unfold element)
  next
    case True
    define r1 where "r1 = r\<lparr>pr_program := append_vector_element (pr_program r) ?element ty\<rparr>"
    have reading: "reading_vector ?n p0 ty first first_span (count + 1) (pr_program r1)"
      using reading_vector_append [OF less.prems(4)] by (simp add: r1_def)
    have diag: "pr_diagnostic r1 = pr_diagnostic r0" using less.prems(5) by (simp add: r1_def)
    have outcome: "literal_outcome ts i p0 r0 j out"
      if "vector_close ts (rts_tokens ts ! i) k r1 ty first (count + 1) first_span = Some out"
        "index < k" "k \<le> token_count ts" for k out
    proof -
      have "literal_outcome ts i p0 r1 j out"
        using vector_close_outcome [OF assms(1) _ _ that(3) reading that(1)] less.prems(1,2) that(2)
        by simp
      then show ?thesis using diag by (simp add: literal_outcome_def split: parsed.splits prod.splits)
    qed
    have step: "vector_elements ts i (rts_tokens ts ! i) ty first first_span index r count =
      (case vector_close ts (rts_tokens ts ! i) (index + 1) r1 ty first (count + 1) first_span of
         Some out \<Rightarrow> Some out
       | None \<Rightarrow>
           (case token_at ts (index + 1) of None \<Rightarrow> None | Some after \<Rightarrow>
              if \<not> is_blank after
              then vector_failure ts i (rts_tokens ts ! i) r1
                     (if rt_kind after = TK_invalid then PE_invalid_byte else PE_missing_separator) after
              else let index = skip_while is_blank ts (index + 1) in
                case vector_close ts (rts_tokens ts ! i) index r1 ty first (count + 1) first_span of
                  Some out \<Rightarrow> Some out
                | None \<Rightarrow> vector_elements ts i (rts_tokens ts ! i) ty first first_span index r1 (count + 1)))"
      using True unfolding unfold element Let_def option.case r1_def [symmetric] by simp
    show ?thesis
    proof (cases "vector_close ts (rts_tokens ts ! i) (index + 1) r1 ty first (count + 1) first_span")
      case (Some out)
      then show ?thesis using outcome [OF Some] less.prems(3) unfolding step Some by simp
    next
      case None
      then have next_less: "index + 1 < token_count ts"
        using less.prems(3) by (auto simp: vector_close_def split: if_splits)
      let ?after = "rts_tokens ts ! (index + 1)" and ?k = "skip_while is_blank ts (index + 1)"
      have after: "token_at ts (index + 1) = Some ?after" using next_less by (simp add: token_at_Some)
      have k: "index < ?k" "?k \<le> token_count ts"
        using skip_while_ge [of "index + 1" is_blank ts] skip_while_bound [of "index + 1" ts is_blank]
          next_less by simp_all
      show ?thesis
      proof (cases "is_blank ?after")
        case False
        then show ?thesis
          using failure [OF next_less, of PE_invalid_byte r1 p0 r0 j]
            failure [OF next_less, of PE_missing_separator r1 p0 r0 j]
          unfolding step None after option.case by simp
      next
        case True
        show ?thesis
        proof (cases "vector_close ts (rts_tokens ts ! i) ?k r1 ty first (count + 1) first_span")
          case (Some out)
          then show ?thesis
            using outcome [OF Some k] True unfolding step None after option.case Let_def by simp
        next
          case none: None
          then have "?k < token_count ts" using k(2) by (auto simp: vector_close_def split: if_splits)
          then have "\<exists>out. vector_elements ts i (rts_tokens ts ! i) ty first first_span ?k r1 (count + 1) = Some out
              \<and> literal_outcome ts i p0 r0 j out"
            using less.hyps [of ?k] less.prems(1,2,3) k(1) reading diag by simp
          then show ?thesis
            using True unfolding step None after option.case Let_def none by simp
        qed
      qed
    qed
  qed
qed

lemma parse_vector_literal_outcome:
  assumes "tokens_ok ts" "i < token_count ts" "tables_ok (source_length ts) (pr_program r)"
  shows "\<exists>out. parse_vector_literal ts i r = Some out \<and> literal_outcome ts i (pr_program r) r i out"
proof -
  let ?opening = "rts_tokens ts ! i" and ?k = "skip_while is_blank ts (i + 1)"
  have open_token: "token_at ts i = Some ?opening" using assms(2) by (simp add: token_at_Some)
  have k: "i < ?k" "?k \<le> token_count ts"
    using skip_while_ge [of "i + 1" is_blank ts] skip_while_bound [of "i + 1" ts is_blank] assms(2)
    by simp_all
  note ospan = token_span [OF assms(1,2)]
  show ?thesis
  proof (cases "?k = token_count ts")
    case True
    then show ?thesis
      using ospan(3) span_ok_to_end [OF assms(1)] span_ok_insertion(3) [OF assms(1)]
      by (simp add: parse_vector_literal_def open_token Let_def literal_outcome_def parser_rules)
  next
    case False
    then have less: "?k < token_count ts" using k(2) by simp
    let ?first = "rts_tokens ts ! ?k"
    let ?ty = "scalar_token_type (rt_kind ?first)"
    have first: "token_at ts ?k = Some ?first" using less by (simp add: token_at_Some)
    have s: "span_ok (source_length ts) (span_from (rt_span ?opening) (rt_span ?first))"
      using ospan token_span [OF assms(1) less] token_offset_mono [OF assms(1), of i "?k + 1"] k(1)
      by (intro span_ok_from) simp_all
    have reading: "reading_vector (source_length ts) (pr_program r) ?ty (vector_payload_size (pr_program r) ?ty)
        (length (pg_vector_element_spans (pr_program r))) 0 (pr_program r)"
      using assms(3) by (simp add: reading_vector_def)
    obtain out where elements: "vector_elements ts i ?opening ?ty (vector_payload_size (pr_program r) ?ty)
        (length (pg_vector_element_spans (pr_program r))) ?k r 0 = Some out"
      "literal_outcome ts i (pr_program r) r i out"
      using vector_elements_outcome [OF assms(1) k(1) k(1) less reading refl] by blast
    obtain out' where invalid: "vector_failure ts i ?opening r (vector_element_error ?first) ?first = Some out'"
      "literal_outcome ts i (pr_program r) r i out'"
      using vector_failure_outcome [OF assms(1,2) less, of "vector_element_error ?first" r "pr_program r" r i]
      by auto
    have failed: "literal_outcome ts i (pr_program r) r i (Failed (set_diagnostic r e
        (span_from (rt_span ?opening) (rt_span ?first)) (span_from (rt_span ?opening) (rt_span ?first))
        (rt_span ?opening)))"
      "literal_outcome ts i (pr_program r) r i (Failed (set_diagnostic r e (rt_span ?first)
        (span_from (rt_span ?opening) (rt_span ?first)) (rt_span ?opening)))"
      if "e \<noteq> PE_none" for e
      using that s ospan(3) token_span(3) [OF assms(1) less]
      by (simp_all add: literal_outcome_def parser_rules)
    show ?thesis
      unfolding parse_vector_literal_def open_token Let_def option.case first if_not_P [OF False]
      using elements invalid failed by (simp del: Suc_eq_plus1 add_Suc_right One_nat_def)
  qed
qed

section \<open>The invariant of the loop\<close>

text \<open>A context was opened by a token before the current one.\<close>

definition context_ok :: "rewrite_tokens \<Rightarrow> nat \<Rightarrow> rewrite_context \<Rightarrow> bool" where
  "context_ok ts lim c \<longleftrightarrow>
     span_ok (source_length ts) (cx_name_span c) \<and> span_ok (source_length ts) (cx_opening_span c) \<and>
     span_ok (source_length ts) (cx_separator_span c) \<and>
     begin_offset (cx_name_span c) \<le> lim \<and> begin_offset (cx_opening_span c) \<le> lim \<and>
     (\<forall>i. cx_opening_token_index c = Some i \<longrightarrow>
        i < token_count ts \<and> begin_offset (cx_name_span c) \<le> token_offset ts i) \<and>
     (cx_kind c = XK_tuple_literal \<longrightarrow>
        cx_opening_token_index c \<noteq> None \<and>
        begin_offset (cx_opening_span c) = begin_offset (cx_name_span c))"

lemma context_ok_mono: "context_ok ts lim c \<Longrightarrow> lim \<le> lim' \<Longrightarrow> context_ok ts lim' c"
  by (auto simp: context_ok_def)

text \<open>What is being read above a context: nothing yet, an expression, or a branch. A fanout
  holds its operand exactly when \<open>after_argument\<close> is set and a branch stands directly on its
  fanout; nothing has been handed to a prefix call on the stack.\<close>

datatype reading = Nothing | Expression | Branch

fun stack_ok :: "reading \<Rightarrow> rewrite_context list \<Rightarrow> bool" where
  "stack_ok upper [] \<longleftrightarrow> upper \<noteq> Branch"
| "stack_ok upper (c # cs) \<longleftrightarrow>
     (case cx_kind c of
        XK_fanout \<Rightarrow>
          (upper = Expression \<longrightarrow> \<not> cx_after_argument c) \<and> (upper = Branch \<longrightarrow> cx_after_argument c) \<and>
          (cx_after_argument c \<longleftrightarrow> 1 \<le> cx_argument_count c) \<and> stack_ok Expression cs
      | XK_fanout_branch \<Rightarrow>
          upper \<noteq> Branch \<and> (upper = Expression \<longrightarrow> \<not> cx_after_argument c) \<and>
          (cx_after_argument c \<longleftrightarrow> 1 \<le> cx_argument_count c) \<and>
          cs \<noteq> [] \<and> cx_kind (hd cs) = XK_fanout \<and> stack_ok Branch cs
      | _ \<Rightarrow> upper \<noteq> Branch \<and> stack_ok Expression cs)"

text \<open>The offsets at which the roots and the open contexts begin, in the order of the source.\<close>

definition begins :: "rewrite_program \<Rightarrow> rewrite_context list \<Rightarrow> nat list" where
  "begins p cs = map (node_begin p) (pg_roots p) @ rev (map (\<lambda>c. begin_offset (cx_name_span c)) cs)"

definition fanout_counts :: "rewrite_program \<Rightarrow> rewrite_context list \<Rightarrow> bool" where
  "fanout_counts p cs \<longleftrightarrow>
     (\<forall>c \<in> set cs. cx_kind c = XK_fanout \<longrightarrow> cx_argument_count c - 1 \<le> length (pg_fanout_branches p))"

definition header_span_ok :: "nat \<Rightarrow> rewrite_program \<Rightarrow> bool" where
  "header_span_ok n p \<longleftrightarrow> (hd_present (pg_parameter_header p) \<longrightarrow> span_ok n (hd_span (pg_parameter_header p)))"

definition core ::
    "rewrite_tokens \<Rightarrow> rewrite_parse_result \<Rightarrow> nat \<Rightarrow> rewrite_context list
     \<Rightarrow> rewrite_pending_argument list \<Rightarrow> bool" where
  "core ts r i cs pend \<longleftrightarrow>
     tables_ok (source_length ts) (pr_program r) \<and> roots_ok (pr_program r) \<and>
     rd_error (pr_diagnostic r) = PE_none \<and> i \<le> token_count ts \<and>
     (\<forall>c \<in> set cs. context_ok ts (token_offset ts i) c) \<and> fanout_counts (pr_program r) cs \<and>
     chains_ok (length (pg_nodes (pr_program r))) pend cs \<and>
     header_span_ok (source_length ts) (pr_program r)"

definition keyword_at :: "rewrite_tokens \<Rightarrow> nat \<Rightarrow> bool" where
  "keyword_at ts i \<longleftrightarrow>
     kind_at ts i TK_name \<and> rewrite_token_spelling ts (rts_tokens ts ! i) = ''parameters''"

text \<open>Before the first root of a program without a header, \<open>parameters\<close> does not come next.\<close>

definition no_keyword ::
    "rewrite_tokens \<Rightarrow> rewrite_program \<Rightarrow> rewrite_context list \<Rightarrow> nat \<Rightarrow> bool" where
  "no_keyword ts p cs i \<longleftrightarrow>
     (cs = [] \<and> pg_roots p = [] \<and> \<not> hd_present (pg_parameter_header p) \<longrightarrow> \<not> keyword_at ts i)"

definition idle ::
    "rewrite_tokens \<Rightarrow> reading \<Rightarrow> rewrite_parse_result \<Rightarrow> nat \<Rightarrow> rewrite_context list
     \<Rightarrow> rewrite_pending_argument list \<Rightarrow> bool" where
  "idle ts upper r i cs pend \<longleftrightarrow>
     core ts r i cs pend \<and> stack_ok upper cs \<and>
     sorted (begins (pr_program r) cs @ [token_offset ts i])"

definition busy ::
    "rewrite_tokens \<Rightarrow> rewrite_parse_result \<Rightarrow> nat \<Rightarrow> rewrite_context list
     \<Rightarrow> rewrite_pending_argument list \<Rightarrow> nat \<Rightarrow> bool" where
  "busy ts r i cs pend m \<longleftrightarrow>
     core ts r i cs pend \<and> stack_ok Expression cs \<and>
     m + 1 = length (pg_nodes (pr_program r)) \<and> (\<forall>k \<in> set (pg_roots (pr_program r)). k < m) \<and>
     sorted (begins (pr_program r) cs @ [node_begin (pr_program r) m, token_offset ts i])"

definition loop_inv :: "rewrite_tokens \<Rightarrow> parser_state \<Rightarrow> bool" where
  "loop_inv ts st \<longleftrightarrow>
     (if st_have_expression st
      then busy ts (st_result st) (st_index st) (st_contexts st) (st_pending st) (st_completed st)
      else idle ts Nothing (st_result st) (st_index st) (st_contexts st) (st_pending st) \<and>
           no_keyword ts (program_of st) (st_contexts st) (skip_while is_blank ts (st_index st)) \<and>
           (st_contexts st \<noteq> [] \<and> cx_kind (hd (st_contexts st)) = XK_prefix_call \<longrightarrow>
              st_index st < token_count ts))"

definition ready :: "rewrite_tokens \<Rightarrow> parser_state \<Rightarrow> bool" where
  "ready ts st \<longleftrightarrow>
     \<not> st_have_expression st \<and> st_index st < token_count ts \<and>
     idle ts Expression (st_result st) (st_index st) (st_contexts st) (st_pending st) \<and>
     no_keyword ts (program_of st) (st_contexts st) (st_index st)"

definition result_ok :: "nat \<Rightarrow> rewrite_parse_result \<Rightarrow> bool" where
  "result_ok n r \<longleftrightarrow>
     (if pr_ok r
      then rd_error (pr_diagnostic r) = PE_none \<and> tables_ok n (pr_program r) \<and> roots_ok (pr_program r)
      else diagnostic_ok n (pr_diagnostic r))"

definition work_left :: "rewrite_tokens \<Rightarrow> parser_state \<Rightarrow> nat" where
  "work_left ts st = 2 * (token_count ts - st_index st) + (if st_have_expression st then 1 else 0)"

text \<open>What one part of an iteration may do: finish, continue with less work left, or go on to
  the dispatch without more.\<close>

definition good :: "rewrite_tokens \<Rightarrow> nat \<Rightarrow> parse_step_outcome option \<Rightarrow> bool" where
  "good ts work out \<longleftrightarrow>
     (case out of
        None \<Rightarrow> False
      | Some (Finished r) \<Rightarrow> result_ok (source_length ts) r
      | Some (Continue st) \<Rightarrow> loop_inv ts st \<and> work_left ts st < work
      | Some (Dispatch st) \<Rightarrow> ready ts st \<and> work_left ts st \<le> work)"

lemma good_simps [simp]:
  "good ts w None = False" "good ts w (Some (Finished r)) = result_ok (source_length ts) r"
  "good ts w (Some (Continue st)) \<longleftrightarrow> loop_inv ts st \<and> work_left ts st < w"
  "good ts w (Some (Dispatch st)) \<longleftrightarrow> ready ts st \<and> work_left ts st \<le> w"
  by (simp_all add: good_def)

lemma failed_result_ok: "failed_ok n r \<Longrightarrow> result_ok n r"
  by (simp add: failed_ok_def result_ok_def)

lemma good_stop [parser_rules]:
  "e \<noteq> PE_none \<Longrightarrow> span_ok (source_length ts) a \<Longrightarrow> span_ok (source_length ts) b \<Longrightarrow>
     span_ok (source_length ts) c \<Longrightarrow> good ts w (stop st e a b c)"
  by (simp add: stop_def failed_result_ok set_diagnostic_failed)

lemma state_simps [simp]:
  "st_index (advance k st) = st_index st + k" "st_index (with_program p st) = st_index st"
  "st_result (advance k st) = st_result st" "st_contexts (advance k st) = st_contexts st"
  "st_pending (advance k st) = st_pending st" "st_completed (advance k st) = st_completed st"
  "st_have_expression (advance k st) = st_have_expression st"
  "pr_program (st_result (with_program p st)) = p"
  "pr_diagnostic (st_result (with_program p st)) = pr_diagnostic (st_result st)"
  "st_contexts (with_program p st) = st_contexts st" "st_pending (with_program p st) = st_pending st"
  "st_index (skip_blanks ts st) = skip_while is_blank ts (st_index st)"
  "st_result (skip_blanks ts st) = st_result st" "st_contexts (skip_blanks ts st) = st_contexts st"
  "st_pending (skip_blanks ts st) = st_pending st"
  "st_have_expression (skip_blanks ts st) = st_have_expression st"
  "program_of (skip_blanks ts st) = program_of st" "program_of (advance k st) = program_of st"
  "st_index (complete_with pushed st) = st_index st" "st_contexts (complete_with pushed st) = st_contexts st"
  "st_pending (complete_with pushed st) = st_pending st" "st_completed (complete_with pushed st) = snd pushed"
  "st_have_expression (complete_with pushed st)"
  "pr_program (st_result (complete_with pushed st)) = fst pushed"
  "pr_diagnostic (st_result (complete_with pushed st)) = pr_diagnostic (st_result st)"
  by (simp_all add: advance_def with_program_def skip_blanks_def complete_with_def program_of_def)

section \<open>Growing a state\<close>

lemma extends_node_begin: "extends p p' \<Longrightarrow> m < length (pg_nodes p) \<Longrightarrow> node_begin p' m = node_begin p m"
  using extends_nth(1) by (simp add: node_begin_def)

lemma extends_begins:
  assumes "extends p p'" "roots_ok p" "pg_roots p' = pg_roots p"
  shows "begins p' cs = begins p cs"
  using assms extends_node_begin [OF assms(1)] by (simp add: begins_def roots_ok_def)

lemma extends_roots_ok:
  assumes "extends p p'" "roots_ok p" "pg_roots p' = pg_roots p"
  shows "roots_ok p'"
proof -
  have "map (node_begin p') (pg_roots p) = map (node_begin p) (pg_roots p)"
    using assms(2) extends_node_begin [OF assms(1)] by (simp add: roots_ok_def)
  then show ?thesis
    using assms(2) extends_lengths(1) [OF assms(1)] unfolding roots_ok_def assms(3)
    by (metis less_le_trans)
qed

lemma fanout_counts_mono:
  "fanout_counts p cs \<Longrightarrow> extends p p' \<Longrightarrow> set cs' \<subseteq> set cs \<Longrightarrow> fanout_counts p' cs'"
  using extends_lengths(8) unfolding fanout_counts_def by (meson order_trans subsetD)

lemma coreD:
  assumes "core ts r i cs pend"
  shows "tables_ok (source_length ts) (pr_program r)" "roots_ok (pr_program r)"
    "rd_error (pr_diagnostic r) = PE_none" "i \<le> token_count ts"
    "\<forall>c \<in> set cs. context_ok ts (token_offset ts i) c" "fanout_counts (pr_program r) cs"
    "chains_ok (length (pg_nodes (pr_program r))) pend cs" "header_span_ok (source_length ts) (pr_program r)"
  using assms unfolding core_def by - (elim conjE, assumption)+

lemma completesD:
  assumes "completes n p s pushed"
  shows "tables_ok n (fst pushed)" "extends p (fst pushed)" "snd pushed = length (pg_nodes p)"
    "length (pg_nodes (fst pushed)) = length (pg_nodes p) + 1"
    "rn_span (pg_nodes (fst pushed) ! snd pushed) = s"
    "pg_roots (fst pushed) = pg_roots p" "pg_parameter_header (fst pushed) = pg_parameter_header p"
  using assms unfolding completes_def by - (elim conjE, assumption)+

lemma core_step:
  assumes "core ts r i cs pend" "tokens_ok ts" "i \<le> j" "j \<le> token_count ts"
    and "tables_ok (source_length ts) (pr_program r')" "extends (pr_program r) (pr_program r')"
    and "pg_roots (pr_program r') = pg_roots (pr_program r)"
    and "pg_parameter_header (pr_program r') = pg_parameter_header (pr_program r)"
    and "pr_diagnostic r' = pr_diagnostic r" "set cs' \<subseteq> set cs"
    and "chains_ok (length (pg_nodes (pr_program r'))) pend' cs'"
  shows "core ts r' j cs' pend'"
proof -
  have old: "roots_ok (pr_program r)" "rd_error (pr_diagnostic r) = PE_none"
    "\<forall>c \<in> set cs. context_ok ts (token_offset ts i) c" "fanout_counts (pr_program r) cs"
    "header_span_ok (source_length ts) (pr_program r)"
    by (rule coreD [OF assms(1)])+
  have "\<forall>c \<in> set cs'. context_ok ts (token_offset ts j) c"
    using old(3) assms(10) context_ok_mono token_offset_mono [OF assms(2,3)] by blast
  then show ?thesis
    unfolding core_def
    using assms(4,5,9,11) old(2,5) extends_roots_ok [OF assms(6) old(1) assms(7)]
      fanout_counts_mono [OF old(4) assms(6,10)]
    by (simp add: header_span_ok_def assms(8))
qed

text \<open>Completing an expression that begins after every open context.\<close>

lemma completes_busy:
  assumes "core ts r i cs pend" "tokens_ok ts" "stack_ok Expression cs'" "cs = pre @ cs'"
    and completes: "completes (source_length ts) (pr_program r) s pushed"
    and "i \<le> j" "j \<le> token_count ts"
    and "sorted (begins (pr_program r) cs' @ [begin_offset s, token_offset ts j])"
    and "chains_ok (length (pg_nodes (pr_program r))) pend' cs'"
    and "pr_program r' = fst pushed" "pr_diagnostic r' = pr_diagnostic r"
  shows "busy ts r' j cs' pend' (snd pushed)"
proof -
  let ?p = "pr_program r" and ?p' = "fst pushed"
  have c: "tables_ok (source_length ts) ?p'" "extends ?p ?p'" "snd pushed = length (pg_nodes ?p)"
    "length (pg_nodes ?p') = length (pg_nodes ?p) + 1" "rn_span (pg_nodes ?p' ! snd pushed) = s"
    "pg_roots ?p' = pg_roots ?p" "pg_parameter_header ?p' = pg_parameter_header ?p"
    by (rule completesD [OF completes])+
  have roots: "roots_ok ?p" using assms(1) by (simp add: core_def)
  have "core ts r' j cs' pend'"
    by (rule core_step [OF assms(1,2,6,7)])
       (use c assms(4,9-) chains_ok_mono [OF assms(9)] in auto)
  moreover have "node_begin ?p' (snd pushed) = begin_offset s" using c(5) by (simp add: node_begin_def)
  ultimately show ?thesis
    using assms(3,8,10) c(3,4,6) roots extends_begins [OF c(2) roots c(6)]
    by (simp add: busy_def roots_ok_def)
qed

section \<open>Closing prefix calls\<close>

lemma sorted_snoc2: "sorted (xs @ [a, b]) \<longleftrightarrow> (\<forall>x \<in> set xs. x \<le> a) \<and> a \<le> b \<and> sorted xs"
  by (auto simp: sorted_append)

lemma sorted_snoc1: "sorted (xs @ [a]) \<longleftrightarrow> (\<forall>x \<in> set xs. x \<le> a) \<and> sorted xs" for xs :: "nat list"
  by (auto simp: sorted_append)

lemma begins_Cons: "begins p (c # cs) = begins p cs @ [begin_offset (cx_name_span c)]"
  by (simp add: begins_def)

lemma busy_node_span:
  assumes "busy ts r i cs pend m"
  shows "m < length (pg_nodes (pr_program r))" "span_ok (source_length ts) (rn_span (pg_nodes (pr_program r) ! m))"
proof -
  show m: "m < length (pg_nodes (pr_program r))" using assms by (simp add: busy_def)
  show "span_ok (source_length ts) (rn_span (pg_nodes (pr_program r) ! m))"
    using assms m by (simp add: busy_def core_def tables_ok_def node_ok_def)
qed

lemma finish_prefix_calls_busy:
  assumes "tokens_ok ts" "busy ts r i cs pend m"
  shows "\<exists>cs' pend' p' m'. finish_prefix_calls cs pend (pr_program r) m = Some (cs', pend', p', m') \<and>
    busy ts (r\<lparr>pr_program := p'\<rparr>) i cs' pend' m' \<and> (cs' = [] \<or> cx_kind (hd cs') \<noteq> XK_prefix_call)"
  using assms(2)
proof (induction cs arbitrary: r pend m)
  case Nil
  then show ?case by simp
next
  case (Cons c cs)
  let ?p = "pr_program r" and ?n = "source_length ts"
  show ?case
  proof (cases "cx_kind c = XK_prefix_call")
    case False
    then show ?thesis using Cons.prems by simp
  next
    case True
    note busy = Cons.prems
    have core: "core ts r i (c # cs) pend" and stack: "stack_ok Expression (c # cs)"
      and sorted: "sorted (begins ?p (c # cs) @ [node_begin ?p m, token_offset ts i])"
      using busy by (simp_all add: busy_def)
    have i: "i \<le> token_count ts" using core by (simp add: core_def)
    have m: "m < length (pg_nodes ?p)" and ms: "span_ok ?n (rn_span (pg_nodes ?p ! m))"
      using busy_node_span [OF busy] by auto
    have cok: "context_ok ts (token_offset ts i) c" and chains: "chains_ok (length (pg_nodes ?p)) pend (c # cs)"
      and tables: "tables_ok ?n ?p"
      using core by (simp_all add: core_def)
    obtain pend' c' where app: "append_pending_argument pend c m = Some (pend', c')"
      "chains_ok (length (pg_nodes ?p)) pend' (c' # cs)" "cx_name_span c' = cx_name_span c"
      using append_pending [OF chains m] by metis
    let ?complete = "span_from (cx_name_span c) (rn_span (pg_nodes ?p ! m))"
    have le: "begin_offset (cx_name_span c) \<le> node_begin ?p m" "node_begin ?p m \<le> token_offset ts i"
      using sorted by (simp_all add: begins_Cons sorted_append)
    have complete: "span_ok ?n ?complete"
      using cok ms le by (intro span_ok_from) (auto simp: context_ok_def span_ok_def node_begin_def)
    obtain pushed where fin: "finish_call ?p pend' c' (insertion_span (rs_end (cx_separator_span c))) ?complete
        = Some pushed" "completes ?n ?p ?complete pushed"
      using finish_call_completes [OF tables app(2) _ complete] cok app(3) by (metis context_ok_def)
    have sorted': "sorted (begins ?p cs @ [begin_offset ?complete, token_offset ts i])"
      using sorted le by (auto simp: begins_Cons sorted_append span_from_def)
    have busy': "busy ts (r\<lparr>pr_program := fst pushed\<rparr>) i cs pend' (snd pushed)"
      using completes_busy [OF core assms(1) _ _ fin(2) order_refl i sorted' chains_ok_pop [OF app(2)],
          of "[c]"] stack True
      by simp
    have "finish_prefix_calls (c # cs) pend ?p m = finish_prefix_calls cs pend' (fst pushed) (snd pushed)"
      using True app(1) fin(1) m by (simp add: case_prod_beta)
    then show ?thesis using Cons.IH [OF busy'] by simp
  qed
qed

section \<open>An expression is complete\<close>

lemma set_roots_tables:
  assumes "tables_ok n p"
  shows "tables_ok n (p\<lparr>pg_roots := rs\<rparr>)" "extends p (p\<lparr>pg_roots := rs\<rparr>)"
proof -
  show ext: "extends p (p\<lparr>pg_roots := rs\<rparr>)" by (simp add: extends_def)
  show "tables_ok n (p\<lparr>pg_roots := rs\<rparr>)"
    by (rule tables_ok_grow [OF assms ext, where nds = "[]" and args = "[]" and cs = "[]" and els = "[]"])
       (simp_all add: call_indices_def)
qed

lemma push_root:
  assumes "busy ts r i [] pend m"
  shows "roots_ok ((pr_program r)\<lparr>pg_roots := pg_roots (pr_program r) @ [m]\<rparr>)"
    "sorted (begins ((pr_program r)\<lparr>pg_roots := pg_roots (pr_program r) @ [m]\<rparr>) [] @ [token_offset ts i])"
proof -
  let ?p = "pr_program r" and ?p' = "(pr_program r)\<lparr>pg_roots := pg_roots (pr_program r) @ [m]\<rparr>"
  have b: "core ts r i [] pend" "m + 1 = length (pg_nodes ?p)" "\<forall>k \<in> set (pg_roots ?p). k < m"
    "sorted (begins ?p [] @ [node_begin ?p m, token_offset ts i])"
    using assms by (simp_all add: busy_def)
  have nb: "node_begin ?p' = node_begin ?p" by (simp add: node_begin_def fun_eq_iff)
  have roots: "roots_ok ?p" by (rule coreD [OF b(1)])
  show "roots_ok ?p'"
    using roots b(2,3,4) unfolding roots_ok_def nb
    by (auto simp: sorted_wrt_append sorted_append begins_def)
  show "sorted (begins ?p' [] @ [token_offset ts i])"
    using b(4) unfolding begins_def nb by (simp add: sorted_append)
qed

lemma have_expression_good:
  assumes "tokens_ok ts" "loop_inv ts st" "st_have_expression st"
  shows "good ts (work_left ts st) (have_expression_step ts st)"
proof -
  let ?i = "st_index st" and ?n = "source_length ts"
  have "busy ts (st_result st) ?i (st_contexts st) (st_pending st) (st_completed st)"
    using assms(2,3) by (simp add: loop_inv_def)
  from finish_prefix_calls_busy [OF assms(1) this] obtain cs pend p m where
    fin: "finish_prefix_calls (st_contexts st) (st_pending st) (program_of st) (st_completed st) = Some (cs, pend, p, m)"
    and busy: "busy ts ((st_result st)\<lparr>pr_program := p\<rparr>) ?i cs pend m"
    and top: "cs = [] \<or> cx_kind (hd cs) \<noteq> XK_prefix_call"
    by (auto simp: program_of_def)
  let ?r = "(st_result st)\<lparr>pr_program := p\<rparr>"
  have core: "core ts ?r ?i cs pend" using busy by (simp add: busy_def)
  note c = coreD [OF core, simplified]
  have m: "m < length (pg_nodes p)" "span_ok ?n (rn_span (pg_nodes p ! m))"
    using busy_node_span [OF busy] by simp_all
  show ?thesis
  proof (cases cs)
    case (Cons d rest)
    have chains: "chains_ok (length (pg_nodes p)) pend (d # rest)" using c(7) Cons by simp
    obtain pend' d' where app: "append_pending_argument pend d m = Some (pend', d')"
      "chains_ok (length (pg_nodes p)) pend' (d' # rest)"
      "cx_kind d' = cx_kind d" "cx_name_span d' = cx_name_span d" "cx_opening_span d' = cx_opening_span d"
      "cx_separator_span d' = cx_separator_span d" "cx_after_argument d' = cx_after_argument d"
      "cx_opening_token_index d' = cx_opening_token_index d"
      "cx_argument_count d' = cx_argument_count d + 1"
      using append_pending [OF chains m(1)] .
    let ?d = "d'\<lparr>cx_after_argument := True\<rparr>"
    have stack: "stack_ok Expression (d # rest)" using busy Cons by (simp add: busy_def)
    then have stack': "stack_ok Nothing (?d # rest)"
      using top Cons app by (auto split: rewrite_context_kind.splits)
    have "fanout_counts p (?d # rest)"
      using c(6) Cons stack app unfolding fanout_counts_def by (auto split: rewrite_context_kind.splits)
    moreover have "context_ok ts (token_offset ts ?i) ?d"
      using c(5) Cons app by (auto simp: context_ok_def)
    moreover have "chains_ok (length (pg_nodes p)) pend' (?d # rest)"
      by (rule chains_ok_cong [OF app(2)]) simp_all
    ultimately have "core ts ?r ?i (?d # rest) pend'"
      using c Cons by (simp add: core_def)
    moreover have "sorted (begins p (?d # rest) @ [token_offset ts ?i])"
      using busy Cons app(4) by (auto simp: busy_def begins_Cons sorted_append)
    ultimately show ?thesis
      using stack' top Cons app(1,3) assms(3) unfolding have_expression_step_def fin
      by (simp add: loop_inv_def idle_def no_keyword_def work_left_def with_program_def)
  next
    case Nil
    let ?p = "p\<lparr>pg_roots := pg_roots p @ [m]\<rparr>"
    let ?j = "skip_while is_space ts ?i"
    let ?st = "(with_program ?p st)\<lparr>st_contexts := [], st_pending := pend, st_completed := m,
      st_have_expression := False, st_index := ?j\<rparr>"
    have roots: "roots_ok ?p" "sorted (begins ?p [] @ [token_offset ts ?i])"
      using push_root [of ts ?r ?i pend m] busy Nil by simp_all
    have tables: "tables_ok ?n ?p" by (rule set_roots_tables [OF c(1)])
    have j: "?i \<le> ?j" "?j \<le> token_count ts" using skip_while_ge skip_while_bound [OF c(4)] by auto
    show ?thesis
    proof (cases "?j = token_count ts")
      case True
      then show ?thesis
        using roots tables c(3) Nil unfolding have_expression_step_def fin
        by (simp add: Let_def at_end_def finished_ok_def result_ok_def with_program_def)
    next
      case False
      then have less: "?j < token_count ts" using j by simp
      let ?t = "rts_tokens ts ! ?j"
      have t: "token_at ts ?j = Some ?t" using less by (simp add: token_at_Some)
      show ?thesis
      proof (cases "rt_kind ?t = TK_line_terminator")
        case True
        have mono: "token_offset ts ?i \<le> token_offset ts (?j + 1)"
          by (rule token_offset_mono [OF assms(1)]) (use j in simp)
        have "core ts ((st_result st)\<lparr>pr_program := ?p\<rparr>) (?j + 1) [] pend"
          using roots tables c(3,8) less by (simp add: core_def fanout_counts_def header_span_ok_def)
        moreover have "sorted (begins ?p [] @ [token_offset ts (?j + 1)])"
          using roots(2) mono by (auto simp: sorted_append)
        ultimately show ?thesis
          using True False Nil less j assms(3) unfolding have_expression_step_def fin
          by (simp add: Let_def at_end_def t loop_inv_def idle_def no_keyword_def work_left_def
              with_program_def program_of_def)
      next
        case no_line: False
        have "good ts w (stop ?st (root_error ?t) (rt_span ?t) (rn_span (pg_nodes p ! m)) (rn_span (pg_nodes p ! m)))" for w
          by (rule good_stop) (use m(2) token_span(3) [OF assms(1) less] in simp_all)
        then show ?thesis
          using False no_line Nil m(1) unfolding have_expression_step_def fin
          by (simp add: Let_def at_end_def t)
      qed
    qed
  qed
qed

section \<open>Inside a context\<close>

lemma idle_mono:
  assumes "idle ts upper r i cs pend" "tokens_ok ts" "i \<le> j" "j \<le> token_count ts"
  shows "idle ts upper r j cs pend"
proof -
  have core: "core ts r i cs pend" using assms(1) by (simp add: idle_def)
  have "core ts r j cs pend"
    by (rule core_step [OF core assms(2,3,4)]) (use coreD [OF core] in simp_all)
  then show ?thesis
    using assms(1) token_offset_mono [OF assms(2,3)] by (auto simp: idle_def sorted_append)
qed

lemma stack_reading:
  "stack_ok Nothing cs \<Longrightarrow> (cs \<noteq> [] \<and> cx_kind (hd cs) \<in> {XK_fanout, XK_fanout_branch} \<longrightarrow> \<not> cx_after_argument (hd cs)) \<Longrightarrow>
     stack_ok Expression cs"
  by (cases cs) (auto split: rewrite_context_kind.splits)

lemma ready_intro:
  assumes "idle ts Nothing (st_result st) (st_index st) (st_contexts st) (st_pending st)"
    "\<not> st_have_expression st" "st_index st < token_count ts"
    "no_keyword ts (program_of st) (st_contexts st) (st_index st)"
    "st_contexts st \<noteq> [] \<and> cx_kind (hd (st_contexts st)) \<in> {XK_fanout, XK_fanout_branch} \<Longrightarrow>
       \<not> cx_after_argument (hd (st_contexts st))"
  shows "ready ts st"
  using assms stack_reading [of "st_contexts st"] by (auto simp: ready_def idle_def)

text \<open>The innermost context and its spans at the current token.\<close>

lemma context_spans:
  assumes "tokens_ok ts" "context_ok ts (token_offset ts i) c" "i \<le> token_count ts"
  shows "span_ok (source_length ts) (cx_opening_span c)" "span_ok (source_length ts) (cx_name_span c)"
    "span_ok (source_length ts) (span_to_end ts (cx_opening_span c))"
    "span_ok (source_length ts) (span_to_end ts (cx_name_span c))"
    "i < token_count ts \<Longrightarrow> span_ok (source_length ts) (span_from (cx_opening_span c) (rt_span (rts_tokens ts ! i)))"
    "i < token_count ts \<Longrightarrow> span_ok (source_length ts) (span_from (cx_name_span c) (rt_span (rts_tokens ts ! i)))"
proof -
  have c: "span_ok (source_length ts) (cx_opening_span c)" "span_ok (source_length ts) (cx_name_span c)"
    "begin_offset (cx_opening_span c) \<le> token_offset ts i" "begin_offset (cx_name_span c) \<le> token_offset ts i"
    using assms(2) by (simp_all add: context_ok_def)
  then show "span_ok (source_length ts) (cx_opening_span c)" "span_ok (source_length ts) (cx_name_span c)"
    "span_ok (source_length ts) (span_to_end ts (cx_opening_span c))"
    "span_ok (source_length ts) (span_to_end ts (cx_name_span c))"
    using span_ok_to_end [OF assms(1)] by simp_all
  assume i: "i < token_count ts"
  note t = token_span [OF assms(1) i] and m = token_offset_mono [OF assms(1), of i "i + 1"]
  show "span_ok (source_length ts) (span_from (cx_opening_span c) (rt_span (rts_tokens ts ! i)))"
    "span_ok (source_length ts) (span_from (cx_name_span c) (rt_span (rts_tokens ts ! i)))"
    using c t m by (auto intro!: span_ok_from)
qed

lemma inspect_root:
  assumes "tables_ok n p" "root < length (pg_nodes p)"
  obtains count span owned where
    "inspect_branch_placeholder (length (pg_nodes p)) p root False (0, None, False) = Some (count, span, owned)"
    "inspection_ok n (count, span, owned)"
proof -
  have nodes: "\<forall>i < length (pg_nodes p). node_ok n p i (pg_nodes p ! i)"
    using assms(1) by (simp add: tables_ok_def)
  then have "inspect_branch_placeholder (length (pg_nodes p)) p root False (0, None, False) \<noteq> None"
    using inspect_stable [of root n p p "length (pg_nodes p)" "length (pg_nodes p)"] assms(2) by simp
  then obtain count span owned where run:
    "inspect_branch_placeholder (length (pg_nodes p)) p root False (0, None, False) = Some (count, span, owned)"
    by (auto simp del: inspect_branch_placeholder.simps)
  have "\<forall>nd \<in> set (pg_nodes p). span_ok n (rn_span nd)"
    using nodes by (auto simp: in_set_conv_nth node_ok_def)
  from inspection_spans(1) [OF this _ run] show thesis
    using that [OF run] by (simp add: inspection_ok_def)
qed

text \<open>Closing a branch: the fanout below it gets the branch, or the branch is refused.\<close>

lemma finish_fanout_branch_good:
  assumes "tokens_ok ts" "core ts r i (c # rest) pend" "stack_ok Nothing (c # rest)"
    and "cx_kind c = XK_fanout_branch" "cx_after_argument c" "span_ok (source_length ts) closing"
    and "span_ok (source_length ts) (span_from (cx_opening_span c) closing)"
  obtains r' where "finish_fanout_branch r pend c rest closing = Some (Failed r')" "failed_ok (source_length ts) r'"
  | r' pend' cs' where "finish_fanout_branch r pend c rest closing = Some (Parsed (r', pend', cs'))"
    "core ts r' i cs' pend'" "stack_ok Nothing cs'" "begins (pr_program r') cs' = begins (pr_program r) rest"
    "cs' \<noteq> []" "cx_kind (hd cs') = XK_fanout"
proof -
  let ?p = "pr_program r" and ?n = "source_length ts"
  let ?complete = "span_from (cx_opening_span c) closing"
  note core = coreD [OF assms(2)]
  obtain f rest' where rest: "rest = f # rest'" "cx_kind f = XK_fanout"
    using assms(3,4) by (cases rest) auto
  have stack: "stack_ok Branch (f # rest')" "1 \<le> cx_argument_count c"
    using assms(3,4,5) rest by auto
  obtain root where root: "first_pending_node pend c = Some root" "root < length (pg_nodes ?p)"
  proof -
    from chains_ok_top [OF core(7)] obtain ns where "length ns = cx_argument_count c"
      "\<forall>m \<in> set ns. m < length (pg_nodes ?p)" "0 < cx_argument_count c \<Longrightarrow> first_pending_node pend c = Some (hd ns)"
      by metis
    then show thesis using that [of "hd ns"] stack(2) by (cases ns) auto
  qed
  obtain count span owned where ins:
    "inspect_branch_placeholder (length (pg_nodes ?p)) ?p root False (0, None, False) = Some (count, span, owned)"
    "inspection_ok ?n (count, span, owned)"
    using inspect_root [OF core(1) root(2)] .
  let ?node = "pg_nodes ?p ! root"
  have node: "span_ok ?n (rn_span ?node)"
    using core(1) root(2) by (simp add: tables_ok_def node_ok_def)
  have open_span: "span_ok ?n (cx_opening_span c)" using core(5) by (simp add: context_ok_def)
  have run: "finish_fanout_branch r pend c rest closing =
    (if rn_kind ?node \<noteq> NK_primitive_call
     then Some (Failed (set_diagnostic r PE_branch_root_not_primitive_call (rn_span ?node) ?complete (cx_opening_span c)))
     else if count \<noteq> 1
     then Some (Failed (set_diagnostic r PE_placeholder_count
            (case span of None \<Rightarrow> rn_span ?node | Some s \<Rightarrow> s) ?complete (cx_opening_span c)))
     else if owned
     then Some (Failed (set_diagnostic r PE_placeholder_owned_position (the span) ?complete (cx_opening_span c)))
     else map_option (\<lambda>(pend', f'). Parsed
       (r\<lparr>pr_program := ?p\<lparr>pg_fanout_branches := pg_fanout_branches ?p @
          [\<lparr>rb_span = ?complete, rb_opening_span = cx_opening_span c, rb_closing_span = closing,
            rb_body_span = rn_span ?node, rb_placeholder_span = the span, rb_root = root\<rparr>]\<rparr>\<rparr>,
        pend', f'\<lparr>cx_after_argument := True\<rparr> # rest')) (append_pending_argument pend f root))"
    using stack(2) root ins rest
    by (cases span; cases "append_pending_argument pend f root")
       (auto simp: finish_fanout_branch_def inspection_ok_def Let_def
         simp del: inspect_branch_placeholder.simps split: if_splits)
  have spans: "count \<noteq> 0 \<Longrightarrow> \<exists>s. span = Some s" "span = Some s \<Longrightarrow> span_ok ?n s" for s
    using ins(2) by (auto simp: inspection_ok_def)
  show thesis
  proof (cases "rn_kind ?node = NK_primitive_call \<and> count = 1 \<and> \<not> owned")
    case False
    have "span_ok ?n (case span of None \<Rightarrow> rn_span ?node | Some s \<Rightarrow> s)"
      using spans(2) node by (cases span) simp_all
    moreover have "count = 1 \<Longrightarrow> span_ok ?n (the span)" using spans by fastforce
    ultimately have "\<exists>r'. finish_fanout_branch r pend c rest closing = Some (Failed r') \<and> failed_ok ?n r'"
      using False node open_span assms(7) unfolding run
      by (cases "rn_kind ?node = NK_primitive_call"; cases "count = 1")
         (auto simp: set_diagnostic_failed)
    then show thesis using that(1) by blast
  next
    case True
    then obtain s where s: "span = Some s" using spans(1) by auto
    have "chains_ok (length (pg_nodes ?p)) pend (f # rest')"
      using chains_ok_pop [OF core(7)] rest(1) by simp
    then obtain pend' f' where app: "append_pending_argument pend f root = Some (pend', f')"
      "chains_ok (length (pg_nodes ?p)) pend' (f' # rest')"
      "cx_kind f' = cx_kind f" "cx_name_span f' = cx_name_span f" "cx_opening_span f' = cx_opening_span f"
      "cx_separator_span f' = cx_separator_span f" "cx_after_argument f' = cx_after_argument f"
      "cx_opening_token_index f' = cx_opening_token_index f"
      "cx_argument_count f' = cx_argument_count f + 1"
      using append_pending [OF _ root(2)] by metis
    let ?b = "\<lparr>rb_span = ?complete, rb_opening_span = cx_opening_span c, rb_closing_span = closing,
      rb_body_span = rn_span ?node, rb_placeholder_span = s, rb_root = root\<rparr>"
    let ?p' = "?p\<lparr>pg_fanout_branches := pg_fanout_branches ?p @ [?b]\<rparr>"
    let ?f = "f'\<lparr>cx_after_argument := True\<rparr>"
    have ext: "extends ?p ?p'" by (simp add: extends_def)
    have nodes: "\<forall>i < length (pg_nodes ?p). node_ok ?n ?p i (pg_nodes ?p ! i)"
      using core(1) by (simp add: tables_ok_def)
    have "inspect_branch_placeholder (Suc root) ?p' root False (0, None, False) = Some (1, Some s, False)"
      using inspect_stable [of root ?n ?p ?p' "length (pg_nodes ?p)" "Suc root" False "(0, None, False)"]
        nodes ext root(2) ins(1) True s by (simp del: inspect_branch_placeholder.simps)
    then have branch: "branch_ok ?p' ?b"
      using root(2) True by (simp add: branch_ok_def del: inspect_branch_placeholder.simps)
    have tables: "tables_ok ?n ?p'"
      by (rule tables_ok_grow [OF core(1) ext, where nds = "[]" and args = "[]" and cs = "[]" and els = "[]"])
         (use branch in \<open>auto simp: call_indices_def\<close>)
    have nb: "begins ?p' cs = begins ?p cs" for cs
      using extends_begins [OF ext core(2)] by simp
    have counts: "fanout_counts ?p' (?f # rest')"
      using core(6) app(3,9) rest(2) unfolding rest(1) fanout_counts_def by auto
    have "roots_ok ?p'" by (rule extends_roots_ok [OF ext core(2)]) simp
    moreover have "\<forall>d \<in> set (?f # rest'). context_ok ts (token_offset ts i) d"
      using core(5) app unfolding rest(1) by (simp add: context_ok_def)
    moreover have "chains_ok (length (pg_nodes ?p)) pend' (?f # rest')"
      by (rule chains_ok_cong [OF app(2)]) simp_all
    ultimately have core': "core ts (r\<lparr>pr_program := ?p'\<rparr>) i (?f # rest') pend'"
      unfolding core_def using tables core(3,4,8) counts by (simp add: header_span_ok_def)
    show thesis
    proof (rule that(2))
      show "finish_fanout_branch r pend c rest closing = Some (Parsed (r\<lparr>pr_program := ?p'\<rparr>, pend', ?f # rest'))"
        unfolding run using True s app(1) by simp
      show "stack_ok Nothing (?f # rest')" using stack(1) rest(2) app(3,9) by auto
      show "begins (pr_program (r\<lparr>pr_program := ?p'\<rparr>)) (?f # rest') = begins ?p rest"
        using nb app(4) by (simp add: rest(1) begins_Cons)
    qed (use core' rest(2) app(3) in simp_all)
  qed
qed

section \<open>The steps of the innermost context\<close>

text \<open>Between expressions: the invariant without what concerns the top of the stack.\<close>

lemma loop_idle:
  assumes "loop_inv ts st" "\<not> st_have_expression st"
  shows "idle ts Nothing (st_result st) (st_index st) (st_contexts st) (st_pending st)"
    "no_keyword ts (program_of st) (st_contexts st) (skip_while is_blank ts (st_index st))"
    "st_contexts st \<noteq> [] \<Longrightarrow> cx_kind (hd (st_contexts st)) = XK_prefix_call \<Longrightarrow> st_index st < token_count ts"
  using assms by (simp_all add: loop_inv_def)

lemma idle_skip:
  assumes "idle ts upper r i cs pend" "tokens_ok ts"
  shows "idle ts upper r (skip_while p ts i) cs pend" "skip_while p ts i \<le> token_count ts"
    "i \<le> skip_while p ts i"
proof -
  have "i \<le> token_count ts" using assms(1) by (simp add: idle_def core_def)
  then show le: "skip_while p ts i \<le> token_count ts" by (rule skip_while_bound)
  show ge: "i \<le> skip_while p ts i" by (rule skip_while_ge)
  show "idle ts upper r (skip_while p ts i) cs pend"
    by (rule idle_mono [OF assms ge le])
qed

lemma work_left_advance:
  "i < j \<Longrightarrow> j \<le> token_count ts \<Longrightarrow> \<not> st_have_expression st \<Longrightarrow> st_index st = i \<Longrightarrow>
     st_index st' = j \<Longrightarrow> work_left ts st' < work_left ts st"
  by (auto simp: work_left_def)

lemma root_step_good:
  assumes "tokens_ok ts" "loop_inv ts st" "\<not> st_have_expression st" "st_contexts st = []"
  shows "good ts (work_left ts st) (root_step ts st)"
proof -
  note inv = loop_idle [OF assms(2,3)]
  note skip = idle_skip [OF inv(1) assms(1), of is_blank]
  show ?thesis
  proof (cases "skip_while is_blank ts (st_index st) = token_count ts")
    case True
    have "core ts (st_result st) (st_index st) [] (st_pending st)" using inv(1) assms(4) by (simp add: idle_def)
    then show ?thesis
      using True by (simp add: root_step_def at_end_def Let_def finished_ok_def result_ok_def core_def)
  next
    case False
    have "ready ts (skip_blanks ts st)"
      by (rule ready_intro) (use skip inv(2) assms False in simp_all)
    then show ?thesis
      using False skip(3) by (simp add: root_step_def at_end_def Let_def work_left_def)
  qed
qed

lemma branch_step_good:
  assumes "tokens_ok ts" "loop_inv ts st" "\<not> st_have_expression st"
    and cs: "st_contexts st = c # rest" "cx_kind c = XK_fanout_branch"
  shows "good ts (work_left ts st) (branch_step ts st c rest)"
proof -
  let ?n = "source_length ts" and ?i = "st_index st"
  let ?j = "skip_while is_blank ts ?i"
  note inv = loop_idle [OF assms(2,3)]
  note skip = idle_skip [OF inv(1) assms(1), of is_blank]
  have core: "core ts (st_result st) ?j (c # rest) (st_pending st)" and stack: "stack_ok Nothing (c # rest)"
    and sorted: "sorted (begins (program_of st) (c # rest) @ [token_offset ts ?j])"
    using skip(1) cs by (simp_all add: idle_def program_of_def)
  have "context_ok ts (token_offset ts ?j) c" using coreD(5) [OF core] by simp
  note spans = context_spans [OF assms(1) this skip(2)]
  show ?thesis
  proof (cases "?j = token_count ts")
    case True
    then show ?thesis
      using spans(1,3) span_ok_insertion(3) [OF assms(1)]
      by (simp add: branch_step_def at_end_def Let_def good_stop)
  next
    case False
    then have less: "?j < token_count ts" using skip(2) by simp
    let ?t = "rts_tokens ts ! ?j"
    have t: "token_at ts ?j = Some ?t" using less by (simp add: token_at_Some)
    have tspan: "span_ok ?n (rt_span ?t)" by (rule token_span(3) [OF assms(1) less])
    note spans' = spans(5) [OF less]
    show ?thesis
    proof (cases "cx_after_argument c")
      case no_argument: False
      show ?thesis
      proof (cases "rt_kind ?t = TK_right_brace")
        case True
        then show ?thesis
          using False no_argument spans(1) spans' span_ok_insertion(1) [OF tspan]
          by (simp add: branch_step_def at_end_def Let_def t good_stop)
      next
        case no_brace: False
        have "ready ts (skip_blanks ts st)"
          by (rule ready_intro) (use skip inv(2) assms less no_argument in \<open>simp_all add: no_keyword_def\<close>)
        then show ?thesis
          using False no_argument no_brace skip(3)
          by (simp add: branch_step_def at_end_def Let_def t work_left_def)
      qed
    next
      case argument: True
      show ?thesis
      proof (cases "rt_kind ?t = TK_right_brace")
        case no_brace: False
        then show ?thesis
          using False argument spans(1) spans' tspan
          by (simp add: branch_step_def at_end_def Let_def t good_stop)
      next
        case brace: True
        have step: "branch_step ts st c rest =
          do { finished \<leftarrow> finish_fanout_branch (st_result st) (st_pending st) c rest (rt_span ?t);
               (case finished of Failed result \<Rightarrow> Some (Finished result)
                | Parsed (result, pending, contexts) \<Rightarrow>
                    Some (Continue ((advance (Suc 0) (skip_blanks ts st))
                      \<lparr>st_result := result, st_pending := pending, st_contexts := contexts\<rparr>))) }"
          using False argument brace by (simp add: branch_step_def at_end_def Let_def t)
        show ?thesis
        proof (rule finish_fanout_branch_good [OF assms(1) core stack cs(2) argument tspan spans'])
          fix r' assume "finish_fanout_branch (st_result st) (st_pending st) c rest (rt_span ?t) = Some (Failed r')"
            "failed_ok ?n r'"
          then show ?thesis by (simp add: step failed_result_ok)
        next
          fix r' pend' cs'
          assume fin: "finish_fanout_branch (st_result st) (st_pending st) c rest (rt_span ?t) = Some (Parsed (r', pend', cs'))"
            and core': "core ts r' ?j cs' pend'" and stack': "stack_ok Nothing cs'"
            and begins': "begins (pr_program r') cs' = begins (pr_program (st_result st)) rest"
            and top: "cs' \<noteq> []" "cx_kind (hd cs') = XK_fanout"
          have "sorted (begins (pr_program r') cs' @ [token_offset ts ?j])"
            using sorted begins' by (auto simp: begins_Cons sorted_append program_of_def)
          then have idle': "idle ts Nothing r' ?j cs' pend'" using core' stack' by (simp add: idle_def)
          have "idle ts Nothing r' (?j + 1) cs' pend'"
            by (rule idle_mono [OF idle' assms(1)]) (use less in simp_all)
          then show ?thesis
            using top assms(3) less skip(3)
            by (simp add: step fin loop_inv_def no_keyword_def work_left_def)
        qed
      qed
    qed
  qed
qed

text \<open>A context closes into an expression.\<close>

lemma closed_context:
  assumes "tokens_ok ts" "idle ts upper r j (c # rest) pend" "stack_ok Expression rest" "j < token_count ts"
    and "completes (source_length ts) (pr_program r) s pushed" "begin_offset s = begin_offset (cx_name_span c)"
    and "pr_program r' = fst pushed" "pr_diagnostic r' = pr_diagnostic r"
  shows "busy ts r' (j + 1) rest pend (snd pushed)"
proof -
  have core: "core ts r j (c # rest) pend" using assms(2) by (simp add: idle_def)
  have s: "sorted (begins (pr_program r) rest @ [begin_offset s, token_offset ts (j + 1)])"
    using assms(2,6) token_offset_mono [OF assms(1), of j "j + 1"]
    by (auto simp: idle_def begins_Cons sorted_append)
  have le: "j \<le> j + 1" "j + 1 \<le> token_count ts" using assms(4) by simp_all
  show ?thesis
    by (rule completes_busy [OF core assms(1,3) _ assms(5) le s chains_ok_pop [OF coreD(7) [OF core]] assms(7,8), of "[c]"])
       simp
qed

lemma continue_closed:
  assumes "tokens_ok ts" "idle ts upper (st_result st) (st_index st) (c # rest) (st_pending st)"
    and "stack_ok Expression rest" "st_index st < token_count ts"
    and "completes (source_length ts) (program_of st) s pushed" "begin_offset s = begin_offset (cx_name_span c)"
    and "2 * (token_count ts - st_index st) \<le> w"
  shows "good ts w (Some (Continue (complete_with pushed ((advance 1 st)\<lparr>st_contexts := rest\<rparr>))))"
proof -
  let ?st = "complete_with pushed ((advance 1 st)\<lparr>st_contexts := rest\<rparr>)"
  have "busy ts (st_result ?st) (st_index st + 1) rest (st_pending st) (snd pushed)"
    by (rule closed_context [OF assms(1,2,3,4) _ assms(6)])
       (use assms(5) in \<open>simp_all add: program_of_def complete_with_def with_program_def advance_def\<close>)
  then show ?thesis
    using assms(4,7) by (simp add: loop_inv_def work_left_def)
qed

lemma new_context_simps [simp]:
  "cx_kind (new_context k a b c x y z) = k" "cx_name_span (new_context k a b c x y z) = a"
  "cx_opening_span (new_context k a b c x y z) = b" "cx_separator_span (new_context k a b c x y z) = c"
  "cx_first_pending_argument (new_context k a b c x y z) = None"
  "cx_argument_count (new_context k a b c x y z) = 0"
  "\<not> cx_after_argument (new_context k a b c x y z)"
  "cx_opening_token_index (new_context k a b c x y z) = x"
  by (simp_all add: new_context_def)

text \<open>A context is opened at the current token.\<close>

lemma idle_push:
  assumes "tokens_ok ts" "idle ts upper r j cs pend" "j < k" "k \<le> token_count ts"
    and "context_ok ts (token_offset ts k) (new_context kind name opening separator x y z)"
    and "begin_offset name = token_offset ts j"
    and "stack_ok Nothing (new_context kind name opening separator x y z # cs)"
  shows "idle ts Nothing r k (new_context kind name opening separator x y z # cs) pend"
proof -
  have le: "j \<le> k" using assms(3) by simp
  have idle: "idle ts upper r k cs pend"
    by (rule idle_mono [OF assms(2,1) le assms(4)])
  then have core: "core ts r k cs pend" by (simp add: idle_def)
  note c = coreD [OF core]
  have "core ts r k (new_context kind name opening separator x y z # cs) pend"
    unfolding core_def using c assms(5) chains_ok_push [OF c(7)] by (simp add: fanout_counts_def)
  moreover have "sorted (begins (pr_program r) (new_context kind name opening separator x y z # cs) @ [token_offset ts k])"
    using assms(2,6) token_offset_mono [OF assms(1) le] by (auto simp: idle_def begins_Cons sorted_append)
  ultimately show ?thesis using assms(7) by (simp add: idle_def)
qed

lemma fanout_step_good:
  assumes "tokens_ok ts" "loop_inv ts st" "\<not> st_have_expression st"
    and cs: "st_contexts st = c # rest" "cx_kind c = XK_fanout"
  shows "good ts (work_left ts st) (fanout_step ts st c rest)"
proof -
  let ?n = "source_length ts" and ?i = "st_index st"
  let ?j = "skip_while is_blank ts ?i" and ?st = "skip_blanks ts st"
  note inv = loop_idle [OF assms(2,3)]
  note skip = idle_skip [OF inv(1) assms(1), of is_blank]
  have core: "core ts (st_result st) ?j (c # rest) (st_pending st)" and stack: "stack_ok Nothing (c # rest)"
    using skip(1) cs by (simp_all add: idle_def program_of_def)
  have rest: "stack_ok Expression rest" "cx_after_argument c \<longleftrightarrow> 1 \<le> cx_argument_count c"
    using stack cs(2) by auto
  have "context_ok ts (token_offset ts ?j) c" using coreD(5) [OF core] by simp
  note spans = context_spans [OF assms(1) this skip(2)]
  show ?thesis
  proof (cases "?j = token_count ts")
    case True
    then show ?thesis
      using spans(1,4) span_ok_insertion(3) [OF assms(1)]
      by (simp add: fanout_step_def at_end_def Let_def good_stop)
  next
    case False
    then have less: "?j < token_count ts" using skip(2) by simp
    let ?t = "rts_tokens ts ! ?j"
    have t: "token_at ts ?j = Some ?t" using less by (simp add: token_at_Some)
    have tspan: "span_ok ?n (rt_span ?t)" by (rule token_span(3) [OF assms(1) less])
    note tbegin = token_span(1) [OF assms(1) less]
    note spans' = spans(6) [OF less]
    show ?thesis
    proof (cases "cx_after_argument c")
      case no_operand: False
      show ?thesis
      proof (cases "rt_kind ?t = TK_right_bracket")
        case True
        then show ?thesis
          using False no_operand spans(1) spans' span_ok_insertion(1) [OF tspan]
          by (simp add: fanout_step_def at_end_def Let_def t good_stop)
      next
        case no_bracket: False
        have "ready ts ?st"
          by (rule ready_intro) (use skip inv(2) assms less no_operand in \<open>simp_all add: no_keyword_def\<close>)
        then show ?thesis
          using False no_operand no_bracket skip(3)
          by (simp add: fanout_step_def at_end_def Let_def t work_left_def)
      qed
    next
      case operand: True
      show ?thesis
      proof (cases "rt_kind ?t = TK_right_bracket")
        case bracket: True
        show ?thesis
        proof (cases "cx_argument_count c = 1")
          case True
          then show ?thesis
            using False operand bracket spans(1) spans' span_ok_insertion(1) [OF tspan]
            by (simp add: fanout_step_def at_end_def Let_def t good_stop)
        next
          case more: False
          have count: "2 \<le> cx_argument_count c" using rest(2) operand more by linarith
          have branches: "cx_argument_count c - 1 \<le> length (pg_fanout_branches (program_of st))"
            using coreD(6) [OF core] cs(2) by (simp add: fanout_counts_def program_of_def)
          obtain pushed where fin: "finish_fanout (program_of st) (st_pending st) c (rt_span ?t) = Some pushed"
            "completes ?n (program_of st) (span_from (cx_name_span c) (rt_span ?t)) pushed"
            using finish_fanout_completes [OF coreD(1,7) [OF core] spans' count]
              branches by (auto simp: program_of_def)
          have "good ts (work_left ts st) (Some (Continue (complete_with pushed ((advance 1 ?st)\<lparr>st_contexts := rest\<rparr>))))"
            by (rule continue_closed [OF assms(1) _ rest(1) _ _ , where c = c and upper = Nothing
                  and s = "span_from (cx_name_span c) (rt_span ?t)"])
               (use skip less fin(2) cs(1) assms(3) in \<open>simp_all add: work_left_def span_from_def\<close>)
          then show ?thesis
            using False operand bracket more fin(1)
            by (simp add: fanout_step_def at_end_def Let_def t)
        qed
      next
        case no_bracket: False
        show ?thesis
        proof (cases "rt_kind ?t = TK_left_brace \<and> ?i < token_count ts \<and> is_blank (rts_tokens ts ! ?i)")
          case False
          have stop: "good ts w (stop ?st e (rt_span ?t) (span_from (cx_name_span c) (rt_span ?t)) (cx_opening_span c))"
            if "e \<noteq> PE_none" for e w
            by (rule good_stop [OF that tspan spans' spans(1)])
          show ?thesis
            using \<open>?j \<noteq> token_count ts\<close> operand no_bracket False stop
            by (auto simp: fanout_step_def at_end_def Let_def t)
        next
          case True
          let ?c = "new_context XK_fanout_branch (rt_span ?t) (rt_span ?t)
            (insertion_span (rs_end (rt_span ?t))) None None (Some ?j)"
          have "idle ts Nothing (st_result st) (?j + 1) (?c # c # rest) (st_pending st)"
          proof (rule idle_push [OF assms(1)])
            show "idle ts Nothing (st_result st) ?j (c # rest) (st_pending st)" using skip(1) cs(1) by simp
            show "context_ok ts (token_offset ts (?j + 1)) ?c"
              using tspan tbegin token_offset_mono [OF assms(1), of ?j "?j + 1"] span_ok_insertion(2) [OF tspan]
              by (simp add: context_ok_def)
            show "stack_ok Nothing (?c # c # rest)" using stack cs(2) operand by auto
          qed (use less tbegin in simp_all)
          then show ?thesis
            using \<open>?j \<noteq> token_count ts\<close> operand no_bracket True skip(3) less assms(3)
            by (simp add: fanout_step_def at_end_def Let_def t loop_inv_def no_keyword_def work_left_def)
        qed
      qed
    qed
  qed
qed

lemma context_span_ok:
  assumes "tokens_ok ts" "context_ok ts lim c"
  obtains s where "rewrite_context_span ts c = Some s" "span_ok (source_length ts) s"
proof (cases "cx_kind c = XK_tuple_literal")
  case True
  then obtain i where i: "cx_opening_token_index c = Some i" "i < token_count ts"
    using assms(2) by (auto simp: context_ok_def)
  then show thesis
    using that True delimited_context_ok [OF assms(1) i(2), of TK_right_bracket]
    by (auto simp: rewrite_context_span_def)
next
  case False
  then show thesis
    using that bracket_context_ok [OF assms(1), of c] assms(2)
    by (simp add: rewrite_context_span_def context_ok_def)
qed

lemma delimited_failure_good:
  assumes "tokens_ok ts" "context_ok ts lim c" "e \<noteq> PE_none" "span_ok (source_length ts) a"
  shows "good ts w (delimited_failure ts st c e a)"
proof -
  obtain s where "rewrite_context_span ts c = Some s" "span_ok (source_length ts) s"
    using context_span_ok [OF assms(1,2)] .
  then show ?thesis
    using assms(2-4) by (simp add: delimited_failure_def good_stop context_ok_def)
qed

lemma close_delimited_good:
  assumes "tokens_ok ts" "idle ts Nothing (st_result st) (st_index st) (c # rest) (st_pending st)"
    and "cx_kind c = XK_bracket_call \<or> cx_kind c = XK_tuple_literal" "st_index st < token_count ts"
    and "2 * (token_count ts - st_index st) \<le> w"
  shows "good ts w (close_delimited st c rest (rts_tokens ts ! st_index st))"
proof -
  let ?n = "source_length ts" and ?i = "st_index st"
  let ?t = "rts_tokens ts ! ?i"
  have core: "core ts (st_result st) ?i (c # rest) (st_pending st)" and stack: "stack_ok Nothing (c # rest)"
    using assms(2) by (simp_all add: idle_def)
  note c = coreD [OF core]
  have cok: "context_ok ts (token_offset ts ?i) c" using c(5) by simp
  note spans = context_spans [OF assms(1) cok c(4)]
  have rest: "stack_ok Expression rest" using stack assms(3) by auto
  obtain pushed s where fin: "finish_delimited (program_of st) (st_pending st) c (rt_span ?t) = Some pushed"
    "completes ?n (program_of st) s pushed" "begin_offset s = begin_offset (cx_name_span c)"
  proof (cases "cx_kind c = XK_tuple_literal")
    case True
    obtain pushed where "finish_tuple_literal (program_of st) (st_pending st) c (rt_span ?t) = Some pushed"
      "completes ?n (program_of st) (span_from (cx_opening_span c) (rt_span ?t)) pushed"
      using finish_tuple_literal_completes [OF c(1,7) spans(5) [OF assms(4)]] unfolding program_of_def by blast
    moreover have "begin_offset (span_from (cx_opening_span c) (rt_span ?t)) = begin_offset (cx_name_span c)"
      using cok True by (simp add: context_ok_def span_from_def)
    ultimately show thesis using that True by (simp add: finish_delimited_def)
  next
    case False
    obtain pushed where "finish_call (program_of st) (st_pending st) c (rt_span ?t)
        (span_from (cx_name_span c) (rt_span ?t)) = Some pushed"
      "completes ?n (program_of st) (span_from (cx_name_span c) (rt_span ?t)) pushed"
      using finish_call_completes [OF c(1,7) spans(2) spans(6) [OF assms(4)]] unfolding program_of_def by blast
    moreover have "begin_offset (span_from (cx_name_span c) (rt_span ?t)) = begin_offset (cx_name_span c)"
      by (simp add: span_from_def)
    ultimately show thesis using that False by (simp add: finish_delimited_def)
  qed
  show ?thesis
    using continue_closed [OF assms(1,2) rest assms(4) fin(2,3) assms(5)] fin(1)
    by (simp add: close_delimited_def)
qed

lemma delimited_argument_step_good:
  assumes "tokens_ok ts" "idle ts Nothing (st_result st) (st_index st) (c # rest) (st_pending st)"
    and kind: "cx_kind c = XK_bracket_call \<or> cx_kind c = XK_tuple_literal"
    and "st_contexts st = c # rest" "\<not> st_have_expression st" "work_left ts st \<le> w"
  shows "good ts w (delimited_argument_step ts st c rest)"
proof -
  have core: "core ts (st_result st) (st_index st) (c # rest) (st_pending st)"
    using assms(2) by (simp add: idle_def)
  have cok: "context_ok ts (token_offset ts (st_index st)) c" using coreD(5) [OF core] by simp
  show ?thesis
  proof (cases "st_index st = token_count ts")
    case True
    then show ?thesis
      using delimited_failure_good [OF assms(1) cok _ span_ok_insertion(3) [OF assms(1)]]
      by (simp add: delimited_argument_step_def at_end_def)
  next
    case False
    then have less: "st_index st < token_count ts" using coreD(4) [OF core] by simp
    let ?t = "rts_tokens ts ! st_index st"
    have t: "token_at ts (st_index st) = Some ?t" using less by (simp add: token_at_Some)
    have "ready ts st"
      by (rule ready_intro) (use assms less kind in \<open>auto simp: no_keyword_def\<close>)
    then show ?thesis
      using False close_delimited_good [OF assms(1,2) kind less, of w] assms(5,6)
        delimited_failure_good [OF assms(1) cok _ token_span(3) [OF assms(1) less], of PE_mismatched_delimiter w st]
      by (auto simp: delimited_argument_step_def at_end_def t work_left_def)
  qed
qed

lemma delimited_step_good:
  assumes "tokens_ok ts" "loop_inv ts st" "\<not> st_have_expression st"
    and cs: "st_contexts st = c # rest"
    and kind: "cx_kind c = XK_bracket_call \<or> cx_kind c = XK_tuple_literal"
  shows "good ts (work_left ts st) (delimited_step ts st c rest)"
proof -
  let ?i = "st_index st" and ?j = "skip_while is_blank ts (st_index st)"
  note inv = loop_idle [OF assms(2,3)]
  have idle: "idle ts Nothing (st_result st) ?i (c # rest) (st_pending st)" using inv(1) cs by simp
  have core: "core ts (st_result st) ?i (c # rest) (st_pending st)" using idle by (simp add: idle_def)
  have cok: "context_ok ts (token_offset ts ?i) c" using coreD(5) [OF core] by simp
  have work: "2 * (token_count ts - ?i) \<le> work_left ts st" by (simp add: work_left_def)
  note skip = idle_skip [OF idle assms(1), of is_blank]
  show ?thesis
  proof (cases "cx_after_argument c")
    case False
    then show ?thesis
      using delimited_argument_step_good [OF assms(1) idle kind cs assms(3) order_refl]
      by (simp add: delimited_step_def)
  next
    case after: True
    show ?thesis
    proof (cases "kind_at ts ?i TK_right_bracket")
      case True
      then have less: "?i < token_count ts" by (simp add: kind_at_def)
      then have t: "token_at ts ?i = Some (rts_tokens ts ! ?i)" by (simp add: token_at_Some)
      show ?thesis
        using True after close_delimited_good [OF assms(1) idle kind less work]
        by (simp add: delimited_step_def t)
    next
      case no_bracket: False
      show ?thesis
      proof (cases "?i < token_count ts \<and> is_blank (rts_tokens ts ! ?i)")
        case blank: True
        then have j: "?i < ?j"
          using Cons_nth_drop_Suc [of ?i "rts_tokens ts"]
          by (simp add: skip_while_def token_count_def Cons_nth_drop_Suc [symmetric])
        show ?thesis
        proof (cases "kind_at ts ?j TK_right_bracket")
          case True
          then show ?thesis
            using after no_bracket blank j skip cs assms(3) kind
            by (auto simp: delimited_step_def Let_def loop_inv_def no_keyword_def work_left_def)
        next
          case False
          let ?c = "c\<lparr>cx_after_argument := False\<rparr>"
          let ?st = "(skip_blanks ts st)\<lparr>st_contexts := ?c # rest\<rparr>"
          have core': "core ts (st_result st) ?j (c # rest) (st_pending st)" using skip(1) by (simp add: idle_def)
          note c' = coreD [OF core']
          have "chains_ok (length (pg_nodes (pr_program (st_result st)))) (st_pending st) (?c # rest)"
            by (rule chains_ok_cong [OF c'(7)]) simp_all
          then have "core ts (st_result st) ?j (?c # rest) (st_pending st)"
            unfolding core_def using c' by (simp add: fanout_counts_def context_ok_def)
          moreover have "stack_ok Nothing (?c # rest)"
            using skip(1) kind by (auto simp: idle_def)
          ultimately have "idle ts Nothing (st_result st) ?j (?c # rest) (st_pending st)"
            using skip(1) by (simp add: idle_def begins_Cons)
          then have "good ts (work_left ts st) (delimited_argument_step ts ?st ?c rest)"
            using skip(3) kind assms(3)
            by (intro delimited_argument_step_good [OF assms(1)]) (simp_all add: work_left_def)
          then show ?thesis
            using after no_bracket blank False by (simp add: delimited_step_def Let_def)
        qed
      next
        case no_blank: False
        show ?thesis
        proof (cases "?i = token_count ts")
          case True
          then show ?thesis
            using after no_bracket delimited_failure_good [OF assms(1) cok _ span_ok_insertion(3) [OF assms(1)]]
            by (simp add: delimited_step_def at_end_def)
        next
          case False
          then have less: "?i < token_count ts" using coreD(4) [OF core] by simp
          then have t: "token_at ts ?i = Some (rts_tokens ts ! ?i)" by (simp add: token_at_Some)
          show ?thesis
            using after no_bracket no_blank False
              delimited_failure_good [OF assms(1) cok _ token_span(3) [OF assms(1) less]]
            by (auto simp: delimited_step_def at_end_def t)
        qed
      qed
    qed
  qed
qed

section \<open>Dispatch\<close>

lemma readyD:
  assumes "ready ts st"
  shows "\<not> st_have_expression st" "st_index st < token_count ts"
    "idle ts Expression (st_result st) (st_index st) (st_contexts st) (st_pending st)"
    "no_keyword ts (program_of st) (st_contexts st) (st_index st)"
    "core ts (st_result st) (st_index st) (st_contexts st) (st_pending st)"
    "stack_ok Expression (st_contexts st)" "tables_ok (source_length ts) (program_of st)"
  using assms by (simp_all add: ready_def idle_def core_def program_of_def)

lemma completes_good:
  assumes "tokens_ok ts" "ready ts st"
    and "completes (source_length ts) (program_of st) s pushed"
    and "begin_offset s = token_offset ts (st_index st)" "st_index st < j" "j \<le> token_count ts"
    and "pr_program r' = fst pushed" "pr_diagnostic r' = pr_diagnostic (st_result st)"
  shows "busy ts r' j (st_contexts st) (st_pending st) (snd pushed)"
proof -
  note r = readyD [OF assms(2)]
  have le: "st_index st \<le> j" using assms(5) by simp
  have "sorted (begins (pr_program (st_result st)) (st_contexts st) @ [begin_offset s, token_offset ts j])"
    using r(3) assms(4) token_offset_mono [OF assms(1) le] by (auto simp: idle_def sorted_append)
  then show ?thesis
    using completes_busy [OF r(5) assms(1) r(6) _ _ le assms(6) _ coreD(7) [OF r(5)] assms(7,8), of "[]" s] assms(3)
    by (simp add: program_of_def)
qed

lemma push_leaf_good:
  assumes "tokens_ok ts" "ready ts st" "1 \<le> width" "st_index st + width \<le> token_count ts"
    and "node_ok (source_length ts) (program_of st) (length (pg_nodes (program_of st))) nd"
    and "rn_kind nd \<noteq> NK_primitive_call" "begin_offset (rn_span nd) = token_offset ts (st_index st)"
  shows "good ts (work_left ts st) (push_leaf st width nd)"
proof -
  note r = readyD [OF assms(2)]
  have less: "st_index st < st_index st + width" using assms(3) by simp
  let ?pushed = "push_node nd (program_of st)"
  have c: "completes (source_length ts) (program_of st) (rn_span nd) ?pushed"
    by (rule push_leaf_completes [OF r(7) assms(5,6)])
  have "busy ts (st_result (complete_with ?pushed (advance width st))) (st_index st + width)
      (st_contexts st) (st_pending st) (snd ?pushed)"
    by (rule completes_good [OF assms(1,2) c assms(7) less assms(4)]) simp_all
  then show ?thesis
    using assms(3,4) r(1) by (simp add: push_leaf_def loop_inv_def work_left_def)
qed

lemma leaf_node_ok:
  "span_ok n (rn_span nd) \<Longrightarrow>
     rn_kind nd \<noteq> NK_vector_literal \<Longrightarrow> rn_kind nd \<noteq> NK_tuple_literal \<Longrightarrow> rn_kind nd \<noteq> NK_primitive_call \<Longrightarrow>
     rn_kind nd \<noteq> NK_fanout \<Longrightarrow> (rn_kind nd = NK_placeholder \<Longrightarrow> rn_first_element nd < i) \<Longrightarrow>
     (rn_kind nd = NK_parameter_reference \<Longrightarrow>
        rn_first_element nd < length (hd_declarations (pg_parameter_header p))) \<Longrightarrow>
     node_ok n p i nd"
  by (simp add: node_ok_def)

lemma leaf_nodes [simp]:
  "rn_span (scalar_node t) = rt_span t" "rn_kind (scalar_node t) = NK_scalar_literal"
  "rn_span (unresolved_name_node s) = s" "rn_kind (unresolved_name_node s) = NK_unresolved_name"
  "rn_span (parameter_reference_node d i s) = s" "rn_kind (parameter_reference_node d i s) = NK_parameter_reference"
  "rn_first_element (parameter_reference_node d i s) = i"
  by (simp_all add: scalar_node_def unresolved_name_node_def parameter_reference_node_def plain_node_def)

lemma push_context_state [simp]:
  "st_index (push_context st w c) = st_index st + w" "st_contexts (push_context st w c) = c # st_contexts st"
  "st_result (push_context st w c) = st_result st" "st_pending (push_context st w c) = st_pending st"
  "st_have_expression (push_context st w c) = st_have_expression st"
  "program_of (push_context st w c) = program_of st"
  by (simp_all add: push_context_def advance_def program_of_def)

text \<open>A context opened by the current token and, for a delimited one, its opening delimiter.\<close>

lemma push_context_idle:
  assumes "tokens_ok ts" "ready ts st" "1 \<le> w" "st_index st + w \<le> token_count ts"
    and "begin_offset name = token_offset ts (st_index st)"
    and "context_ok ts (token_offset ts (st_index st + w)) (new_context kind name opening separator x y z)"
    and "kind \<noteq> XK_fanout_branch"
  shows "idle ts Nothing (st_result st) (st_index st + w)
    (new_context kind name opening separator x y z # st_contexts st) (st_pending st)"
proof -
  note r = readyD [OF assms(2)]
  have "stack_ok Nothing (new_context kind name opening separator x y z # st_contexts st)"
    using r(6) assms(7) by (cases kind) simp_all
  then show ?thesis
    using idle_push [OF assms(1) r(3) _ assms(4,6,5)] assms(3) by simp
qed

lemma continue_skipped:
  assumes "tokens_ok ts" "idle ts Nothing (st_result st) (st_index st) (st_contexts st) (st_pending st)"
    and "\<not> st_have_expression st" "st_contexts st \<noteq> []" "cx_kind (hd (st_contexts st)) \<noteq> XK_prefix_call"
    and "2 * (token_count ts - st_index st) < w"
  shows "good ts w (Some (Continue st))" "good ts w (Some (Continue (skip_blanks ts st)))"
proof -
  show "good ts w (Some (Continue st))"
    using assms by (simp add: loop_inv_def no_keyword_def work_left_def)
  have "2 * (token_count ts - skip_while is_blank ts (st_index st)) < w"
    using assms(6) skip_while_ge [of "st_index st" is_blank ts] by linarith
  then show "good ts w (Some (Continue (skip_blanks ts st)))"
    using assms idle_skip [OF assms(2,1), of is_blank]
    by (simp add: loop_inv_def no_keyword_def work_left_def)
qed

text \<open>Spans of a token and of the one after it.\<close>

lemma two_tokens:
  assumes "tokens_ok ts" "i + 1 < token_count ts"
  shows "span_ok (source_length ts) (rt_span (rts_tokens ts ! (i + 1)))"
    "begin_offset (rt_span (rts_tokens ts ! (i + 1))) = token_offset ts (i + 1)"
    "end_offset (rt_span (rts_tokens ts ! (i + 1))) = token_offset ts (i + 2)"
    "token_offset ts i \<le> token_offset ts (i + 1)" "token_offset ts (i + 1) \<le> token_offset ts (i + 2)"
    "token_offset ts i \<le> token_offset ts (i + 2)"
  using token_span [OF assms] token_offset_mono [OF assms(1), of i "i + 1"]
    token_offset_mono [OF assms(1), of "i + 1" "i + 2"] token_offset_mono [OF assms(1), of i "i + 2"]
  by simp_all

lemma dispatch_left_bracket_good:
  assumes "tokens_ok ts" "ready ts st"
  shows "good ts (work_left ts st) (dispatch_left_bracket ts st (rts_tokens ts ! st_index st))"
proof -
  note r = readyD [OF assms(2)]
  let ?t = "rts_tokens ts ! st_index st"
  let ?c = "new_context XK_tuple_literal (rt_span ?t) (rt_span ?t) (insertion_span (rs_end (rt_span ?t)))
    (Some (st_index st)) None None"
  note t = token_span [OF assms(1) r(2)]
  have "idle ts Nothing (st_result st) (st_index st + 1) (?c # st_contexts st) (st_pending st)"
    by (rule push_context_idle [OF assms])
       (use r(2) t token_offset_mono [OF assms(1), of "st_index st" "st_index st + 1"] span_ok_insertion(2) [OF t(3)]
         in \<open>simp_all add: context_ok_def\<close>)
  then show ?thesis
    using continue_skipped(2) [OF assms(1), of "push_context st 1 ?c" "work_left ts st"] r(1,2)
    by (simp add: dispatch_left_bracket_def work_left_def)
qed

lemma dispatch_vector_good:
  assumes "tokens_ok ts" "ready ts st"
  shows "good ts (work_left ts st) (dispatch_vector ts st)"
proof -
  note r = readyD [OF assms(2)]
  obtain out where out: "parse_vector_literal ts (st_index st) (st_result st) = Some out"
    "literal_outcome ts (st_index st) (program_of st) (st_result st) (st_index st) out"
    using parse_vector_literal_outcome [OF assms(1) r(2) coreD(1) [OF r(5)]] by (auto simp: program_of_def)
  show ?thesis
  proof (cases out)
    case (Failed r')
    then show ?thesis
      using out by (simp add: dispatch_vector_def literal_outcome_def failed_result_ok)
  next
    case (Parsed x)
    obtain j r' node where x: "x = (j, r', node)" by (cases x)
    then obtain s where s: "st_index st < j" "j \<le> token_count ts" "pr_diagnostic r' = pr_diagnostic (st_result st)"
      "begin_offset s = token_offset ts (st_index st)"
      "completes (source_length ts) (program_of st) s (pr_program r', node)"
      using out(2) Parsed by (auto simp: literal_outcome_def)
    have "busy ts r' j (st_contexts st) (st_pending st) node"
      using completes_good [OF assms s(5,4,1,2) _ s(3)] by simp
    then show ?thesis
      using out(1) Parsed x s(1,2) r(1) by (simp add: dispatch_vector_def loop_inv_def work_left_def)
  qed
qed

lemma dispatch_type_good:
  assumes "tokens_ok ts" "ready ts st"
  shows "good ts (work_left ts st) (dispatch_type ts st (rts_tokens ts ! st_index st))"
proof -
  note r = readyD [OF assms(2)]
  let ?i = "st_index st" and ?t = "rts_tokens ts ! st_index st" and ?n = "source_length ts"
  note t = token_span [OF assms(1) r(2)]
  show ?thesis
  proof (cases "kind_at ts (?i + 1) TK_left_parenthesis \<and> kind_at ts (?i + 2) TK_right_parenthesis")
    case False
    then show ?thesis using t(3) by (auto simp: dispatch_type_def good_stop)
  next
    case True
    then have less: "?i + 2 < token_count ts" by (simp add: kind_at_def)
    let ?s = "span_from (rt_span ?t) (rt_span (rts_tokens ts ! (?i + 2)))"
    note t2 = token_span [OF assms(1) less]
    have "span_ok ?n ?s"
      using t t2 token_offset_mono [OF assms(1), of ?i "?i + 2 + 1"] by (intro span_ok_from) simp_all
    then have "good ts (work_left ts st) (push_leaf st 3 (plain_node NK_vector_literal ?s ty
        (vector_payload_size (program_of st) ty) 0 (length (pg_vector_element_spans (program_of st))) 0))" for ty
      using less t(1) by (intro push_leaf_good [OF assms]) (simp_all add: node_ok_def span_from_def)
    then show ?thesis using True by (simp add: dispatch_type_def Let_def)
  qed
qed

lemma dispatch_fanout_good:
  assumes "tokens_ok ts" "ready ts st"
  shows "good ts (work_left ts st) (dispatch_fanout ts st (rts_tokens ts ! st_index st))"
proof -
  note r = readyD [OF assms(2)]
  let ?i = "st_index st" and ?t = "rts_tokens ts ! st_index st" and ?n = "source_length ts"
  note t = token_span [OF assms(1) r(2)]
  show ?thesis
  proof (cases "list_ex (\<lambda>c. cx_kind c = XK_fanout \<or> cx_kind c = XK_fanout_branch) (st_contexts st)")
    case True
    then show ?thesis using t(3) by (simp add: dispatch_fanout_def good_stop)
  next
    case no_nest: False
    show ?thesis
    proof (cases "kind_at ts (?i + 1) TK_left_bracket")
      case False
      have "span_ok ?n (if ?i + 1 < token_count ts then rt_span (rts_tokens ts ! (?i + 1))
          else insertion_span (rts_end ts))"
        using two_tokens(1) [OF assms(1), of ?i] span_ok_insertion(3) [OF assms(1)] by simp
      then show ?thesis
        using no_nest False t(3) by (simp add: dispatch_fanout_def good_stop)
    next
      case True
      then have less: "?i + 1 < token_count ts" by (simp add: kind_at_def)
      note t2 = two_tokens [OF assms(1) less]
      let ?o = "rt_span (rts_tokens ts ! (?i + 1))"
      let ?c = "new_context XK_fanout (rt_span ?t) ?o (insertion_span (rs_end ?o)) (Some (?i + 1)) (Some ?i) None"
      have "context_ok ts (token_offset ts (?i + 2)) ?c"
        using t t2 span_ok_insertion(2) [OF t2(1)] less by (auto simp: context_ok_def)
      then have "idle ts Nothing (st_result st) (?i + 2) (?c # st_contexts st) (st_pending st)"
        using push_context_idle [OF assms, of 2 "rt_span ?t"] t(1) less by simp
      then have "good ts (work_left ts st) (Some (Continue (push_context st 2 ?c)))"
        using continue_skipped(1) [OF assms(1), of "push_context st 2 ?c" "work_left ts st"] r(1) less
        by (simp add: work_left_def)
      then show ?thesis using no_nest True by (simp add: dispatch_fanout_def Let_def)
    qed
  qed
qed

lemma dispatch_bracket_call_good:
  assumes "tokens_ok ts" "ready ts st" "kind_at ts (st_index st + 1) TK_left_bracket"
  shows "good ts (work_left ts st) (dispatch_bracket_call ts st (rts_tokens ts ! st_index st))"
proof -
  note r = readyD [OF assms(2)]
  let ?i = "st_index st" and ?t = "rts_tokens ts ! st_index st"
  note t = token_span [OF assms(1) r(2)]
  have less: "?i + 1 < token_count ts" using assms(3) by (simp add: kind_at_def)
  note t2 = two_tokens [OF assms(1) less]
  let ?o = "rt_span (rts_tokens ts ! (?i + 1))"
  let ?c = "new_context XK_bracket_call (rt_span ?t) ?o (insertion_span (rs_end ?o)) (Some (?i + 1)) None None"
  have "context_ok ts (token_offset ts (?i + 2)) ?c"
    using t t2 span_ok_insertion(2) [OF t2(1)] less by (auto simp: context_ok_def)
  then have "idle ts Nothing (st_result st) (?i + 2) (?c # st_contexts st) (st_pending st)"
    using push_context_idle [OF assms(1,2), of 2 "rt_span ?t"] t(1) less by simp
  then have "good ts (work_left ts st) (Some (Continue (skip_blanks ts (push_context st 2 ?c))))"
    using continue_skipped(2) [OF assms(1), of "push_context st 2 ?c" "work_left ts st"] r(1) less
    by (simp add: work_left_def)
  then show ?thesis by (simp add: dispatch_bracket_call_def Let_def)
qed

lemma dispatch_prefix_call_good:
  assumes "tokens_ok ts" "ready ts st" "kind_at ts (st_index st + 1) TK_horizontal_space"
  shows "good ts (work_left ts st) (dispatch_prefix_call ts st (rts_tokens ts ! st_index st))"
proof -
  note r = readyD [OF assms(2)]
  let ?i = "st_index st" and ?t = "rts_tokens ts ! st_index st" and ?n = "source_length ts"
  note t = token_span [OF assms(1) r(2)]
  have less: "?i + 1 < token_count ts" using assms(3) by (simp add: kind_at_def)
  note t2 = two_tokens [OF assms(1) less]
  let ?sep = "rt_span (rts_tokens ts ! (?i + 1))"
  let ?c = "new_context XK_prefix_call (rt_span ?t) (insertion_span (rs_begin ?sep)) ?sep None None None"
  let ?st = "push_context st 2 ?c"
  have ctx: "context_ok ts (token_offset ts (?i + 2)) ?c"
    using t t2 span_ok_insertion(1) [OF t2(1)] by (auto simp: context_ok_def insertion_span_def)
  have idle: "idle ts Nothing (st_result st) (?i + 2) (?c # st_contexts st) (st_pending st)"
    using push_context_idle [OF assms(1,2), of 2 "rt_span ?t"] ctx t(1) less by simp
  show ?thesis
  proof (cases "?i + 2 = token_count ts")
    case True
    then show ?thesis
      using t(3) t2(1) span_ok_insertion(3) [OF assms(1)] span_ok_to_end [OF assms(1)]
      by (simp add: dispatch_prefix_call_def at_end_def Let_def good_stop)
  next
    case False
    then have less2: "?i + 2 < token_count ts" using less by simp
    show ?thesis
    proof (cases "kind_at ts (?i + 2) TK_line_terminator")
      case True
      note spans = context_spans(6) [OF assms(1) ctx _ less2]
      have "good ts (work_left ts st) (stop ?st PE_expected_expression (rt_span (rts_tokens ts ! (?i + 2)))
          (span_from (rt_span ?t) (rt_span (rts_tokens ts ! (?i + 2)))) ?sep)"
        using spans less2 t2(1) token_span(3) [OF assms(1) less2] by (intro good_stop) simp_all
      then show ?thesis
        using True less2 by (simp add: dispatch_prefix_call_def at_end_def Let_def)
    next
      case no_line: False
      have "loop_inv ts ?st" "work_left ts ?st < work_left ts st"
        using idle less2 r(1) by (simp_all add: loop_inv_def no_keyword_def work_left_def)
      then show ?thesis
        using no_line less2 by (simp add: dispatch_prefix_call_def at_end_def Let_def)
    qed
  qed
qed

lemma find_parameter_bound:
  "find_parameter p name = Some i \<Longrightarrow> i < length (hd_declarations (pg_parameter_header p))"
  by (auto simp: find_parameter_def Let_def find_Some_iff)

lemma dispatch_name_good:
  assumes "tokens_ok ts" "ready ts st"
  shows "good ts (work_left ts st) (dispatch_name ts st (rts_tokens ts ! st_index st))"
proof -
  note r = readyD [OF assms(2)]
  let ?i = "st_index st" and ?t = "rts_tokens ts ! st_index st"
  note t = token_span [OF assms(1) r(2)]
  have leaf: "good ts (work_left ts st) (push_leaf st 1 nd)"
    if "rn_span nd = rt_span ?t" "rn_kind nd \<in> {NK_parameter_reference, NK_unresolved_name}"
      "rn_kind nd = NK_parameter_reference \<longrightarrow>
         rn_first_element nd < length (hd_declarations (pg_parameter_header (program_of st)))" for nd
    using that r(2) t(1,3) by (intro push_leaf_good [OF assms]) (auto intro!: leaf_node_ok)
  show ?thesis
  proof (cases "rewrite_token_spelling ts ?t = ''fanout''")
    case True
    then show ?thesis using dispatch_fanout_good [OF assms] by (simp add: dispatch_name_def)
  next
    case False
    have parameter: "good ts (work_left ts st)
        (do { declaration \<leftarrow> at (hd_declarations (pg_parameter_header (program_of st))) k;
              push_leaf st 1 (parameter_reference_node declaration k (rt_span ?t)) })"
      if "find_parameter (program_of st) (rewrite_token_spelling ts ?t) = Some k" for k
      using find_parameter_bound [OF that] leaf by simp
    show ?thesis
      using False parameter leaf dispatch_bracket_call_good [OF assms] dispatch_prefix_call_good [OF assms]
      by (auto simp: dispatch_name_def Let_def split: option.splits)
  qed
qed

lemma chains_ok_member: "chains_ok N pend cs \<Longrightarrow> c \<in> set cs \<Longrightarrow> \<exists>cs'. chains_ok N pend (c # cs')"
  by (induction cs) (auto dest: chains_ok_pop)

lemma dispatch_placeholder_good:
  assumes "tokens_ok ts" "ready ts st"
  shows "good ts (work_left ts st) (dispatch_placeholder st (rts_tokens ts ! st_index st))"
proof -
  note r = readyD [OF assms(2)]
  let ?t = "rts_tokens ts ! st_index st"
  note t = token_span [OF assms(1) r(2)]
  have stop: "good ts (work_left ts st) (stop st PE_unexpected_fanout_token (rt_span ?t) (rt_span ?t) (rt_span ?t))"
    by (rule good_stop) (simp_all add: t(3))
  show ?thesis
  proof (cases "List.find (\<lambda>c. cx_kind c = XK_fanout) (st_contexts st)")
    case None
    then show ?thesis using stop by (simp add: dispatch_placeholder_def)
  next
    case (Some f)
    then have "f \<in> set (st_contexts st)" by (auto simp: find_Some_iff)
    then obtain cs' where chain: "chains_ok (length (pg_nodes (pr_program (st_result st)))) (st_pending st) (f # cs')"
      using chains_ok_member coreD(7) [OF r(5)] by blast
    show ?thesis
    proof (cases "cx_first_pending_argument f")
      case None
      then show ?thesis using Some stop by (simp add: dispatch_placeholder_def)
    next
      case first: (Some k)
      obtain ns where ns: "length ns = cx_argument_count f" "0 < cx_argument_count f"
        "\<forall>m \<in> set ns. m < length (pg_nodes (program_of st))"
        "first_pending_node (st_pending st) f = Some (hd ns)"
        using chains_ok_top [OF chain] first
        by (metis (no_types, opaque_lifting) not_gr_zero option.distinct(1) program_of_def)
      define operand where "operand = hd ns"
      have operand: "operand < length (pg_nodes (program_of st))"
        "first_pending_node (st_pending st) f = Some operand"
        using ns by (cases ns; simp add: operand_def)+
      note operand(2)
      moreover have "good ts (work_left ts st)
          (push_leaf st 1 (plain_node NK_placeholder (rt_span ?t) ST_boolean operand 0 0 0))"
        using r(2) t(1,3) operand(1) by (intro push_leaf_good [OF assms]) (auto intro!: leaf_node_ok)
      ultimately show ?thesis using Some first by (simp add: dispatch_placeholder_def)
    qed
  qed
qed

lemma dispatch_header_keyword_good:
  assumes "tokens_ok ts" "ready ts st" "st_contexts st = []" "keyword_at ts (st_index st)"
  shows "good ts w (dispatch_header_keyword st (rts_tokens ts ! st_index st))"
proof -
  note r = readyD [OF assms(2)]
  let ?t = "rts_tokens ts ! st_index st" and ?p = "program_of st" and ?n = "source_length ts"
  note c = coreD [OF r(5), folded program_of_def]
  have "span_ok ?n (rt_span ?t)" using token_span(3) [OF assms(1) r(2)] .
  then have fail: "good ts w (Some (Finished (set_parameter_diagnostic (st_result st) why PE_trailing_input
      (rt_span ?t) (rt_span ?t) related)))" if "span_ok ?n related" for why related
    using that by (simp add: failed_result_ok set_parameter_diagnostic_failed)
  show ?thesis
  proof (cases "hd_present (pg_parameter_header ?p)")
    case True
    then show ?thesis
      using fail c(8) by (simp add: dispatch_header_keyword_def header_span_ok_def Let_def)
  next
    case False
    then obtain root roots where roots: "pg_roots ?p = root # roots"
      using r(4) assms(3,4) by (cases "pg_roots ?p") (auto simp: no_keyword_def)
    then have "root < length (pg_nodes ?p)" using c(2) by (simp add: roots_ok_def)
    moreover from this have "span_ok ?n (rn_span (pg_nodes ?p ! root))"
      using r(7) by (simp add: tables_ok_def node_ok_def)
    ultimately show ?thesis
      using False fail roots by (simp add: dispatch_header_keyword_def Let_def)
  qed
qed

lemma dispatch_step_good:
  assumes "tokens_ok ts" "ready ts st"
  shows "good ts (work_left ts st) (dispatch_step ts st)"
proof -
  note r = readyD [OF assms(2)]
  let ?t = "rts_tokens ts ! st_index st"
  have t: "token_at ts (st_index st) = Some ?t" using r(2) by (simp add: token_at_Some)
  have span: "span_ok (source_length ts) (rt_span ?t)" "begin_offset (rt_span ?t) = token_offset ts (st_index st)"
    using token_span [OF assms(1) r(2)] by auto
  have keyword: "keyword_at ts (st_index st)" if "rt_kind ?t = TK_name" "rewrite_token_spelling ts ?t = ''parameters''"
    using that r(2) by (simp add: keyword_at_def kind_at_def)
  have scalar: "good ts (work_left ts st) (push_leaf st 1 (scalar_node ?t))"
    using r(2) span by (intro push_leaf_good [OF assms]) (auto intro!: leaf_node_ok)
  have stop: "good ts (work_left ts st) (stop st e (rt_span ?t) (rt_span ?t) (rt_span ?t))" if "e \<noteq> PE_none" for e
    by (rule good_stop) (simp_all add: that span(1))
  show ?thesis
    using dispatch_header_keyword_good [OF assms _ keyword] scalar dispatch_left_bracket_good [OF assms]
      dispatch_vector_good [OF assms] dispatch_type_good [OF assms] dispatch_name_good [OF assms]
      dispatch_placeholder_good [OF assms] stop
    by (simp add: dispatch_step_def t Let_def)
qed

section \<open>The loop\<close>

lemma ready_work: "good ts w (Some (Dispatch st)) \<Longrightarrow> good ts (work_left ts st) out \<Longrightarrow> good ts w out"
  by (auto simp: good_def split: option.splits parse_step_outcome.splits)

text \<open>The dispatch itself always continues or finishes.\<close>

definition step_decided :: "parse_step_outcome option \<Rightarrow> bool" where
  "step_decided out \<longleftrightarrow> (\<forall>st. out \<noteq> Some (Dispatch st))"

lemma step_decided_simps [simp]:
  "step_decided None" "step_decided (Some (Continue st))" "step_decided (Some (Finished r))" "step_decided (stop st e a b c)"
  "step_decided (push_leaf st w nd)" "step_decided (finished_ok st)" "\<not> step_decided (Some (Dispatch st))"
  by (simp_all add: step_decided_def stop_def push_leaf_def finished_ok_def)

lemma step_decided_bind: "(\<And>x. step_decided (f x)) \<Longrightarrow> step_decided (m \<bind> f)"
  by (cases m) simp_all

lemma step_decided_parts:
  "step_decided (dispatch_header_keyword st t)" "step_decided (dispatch_left_bracket ts st t)"
  "step_decided (dispatch_vector ts st)" "step_decided (dispatch_type ts st t)" "step_decided (dispatch_fanout ts st t)"
  "step_decided (dispatch_bracket_call ts st t)" "step_decided (dispatch_prefix_call ts st t)"
  "step_decided (dispatch_placeholder st t)"
  by (simp_all add: dispatch_header_keyword_def dispatch_left_bracket_def dispatch_vector_def
      dispatch_type_def dispatch_fanout_def dispatch_bracket_call_def dispatch_prefix_call_def
      dispatch_placeholder_def Let_def step_decided_bind split: parsed.split option.split prod.split)

lemma step_decided_name: "step_decided (dispatch_name ts st t)"
  by (simp add: dispatch_name_def Let_def step_decided_parts step_decided_bind split: option.split)

lemma dispatch_step_decided: "step_decided (dispatch_step ts st)"
  unfolding dispatch_step_def Let_def by (rule step_decided_bind) (simp add: step_decided_parts step_decided_name)

lemma have_expression_decided: "step_decided (have_expression_step ts st)"
  unfolding have_expression_step_def
  by (rule step_decided_bind) (auto simp: Let_def step_decided_bind split: list.split prod.split)

lemma context_step_good:
  assumes "tokens_ok ts" "loop_inv ts st" "\<not> st_have_expression st"
  shows "good ts (work_left ts st) (context_step ts st)"
proof (cases "st_contexts st")
  case Nil
  then show ?thesis using root_step_good [OF assms] by (simp add: context_step_def)
next
  case (Cons c rest)
  have prefix: "ready ts st" if "cx_kind c = XK_prefix_call"
    using loop_idle [OF assms(2,3)] that Cons assms(3)
    by (intro ready_intro) (simp_all add: no_keyword_def)
  show ?thesis
    using Cons branch_step_good [OF assms Cons] fanout_step_good [OF assms Cons]
      delimited_step_good [OF assms Cons] prefix
    by (simp add: context_step_def split: rewrite_context_kind.split)
qed

lemma parse_step_good:
  assumes "tokens_ok ts" "loop_inv ts st"
  shows "(\<exists>r. parse_step ts st = Some (Finished r) \<and> result_ok (source_length ts) r) \<or>
    (\<exists>st'. parse_step ts st = Some (Continue st') \<and> loop_inv ts st' \<and> work_left ts st' < work_left ts st)"
proof -
  have "good ts (work_left ts st) (parse_step ts st) \<and> step_decided (parse_step ts st)"
  proof (cases "st_have_expression st")
    case True
    then show ?thesis
      using have_expression_good [OF assms True] have_expression_decided by (simp add: parse_step_def)
  next
    case False
    note step = context_step_good [OF assms False]
    show ?thesis
    proof (cases "context_step ts st")
      case None
      then show ?thesis using step by simp
    next
      case (Some out)
      show ?thesis
      proof (cases out)
        case (Dispatch st1)
        then have "good ts (work_left ts st) (Some (Dispatch st1))" using step Some by simp
        moreover from this have g: "good ts (work_left ts st1) (dispatch_step ts st1)"
          using dispatch_step_good [OF assms(1)] by simp
        ultimately have "good ts (work_left ts st) (dispatch_step ts st1)" by (rule ready_work)
        then show ?thesis
          using Some Dispatch False dispatch_step_decided by (simp add: parse_step_def)
      qed (use step Some False in \<open>simp_all add: parse_step_def\<close>)
    qed
  qed
  then show ?thesis
    by (auto simp: good_def step_decided_def split: option.splits parse_step_outcome.splits)
qed

lemma parse_loop_good:
  assumes "tokens_ok ts" "loop_inv ts st"
  shows "\<exists>r. parse_loop ts st = Some r \<and> result_ok (source_length ts) r"
  using assms(2)
proof (induction "work_left ts st" arbitrary: st rule: less_induct)
  case less
  from parse_step_good [OF assms(1) less.prems] show ?case
  proof (elim disjE exE conjE)
    fix r assume "parse_step ts st = Some (Finished r)" "result_ok (source_length ts) r"
    then show ?thesis by (subst parse_loop.simps) simp
  next
    fix st' assume step: "parse_step ts st = Some (Continue st')" "loop_inv ts st'" "work_left ts st' < work_left ts st"
    from less.hyps [OF step(3,2)] show ?thesis by (subst parse_loop.simps) (simp add: step(1))
  qed
qed

section \<open>The parameter header\<close>

definition failing :: "nat \<Rightarrow> 'a parsed \<Rightarrow> bool" where
  "failing n out \<longleftrightarrow> (\<forall>r. out = Failed r \<longrightarrow> failed_ok n r)"

lemma failing_header_failure [simp]:
  "failing n (header_failure r why a b c) \<longleftrightarrow> failed_ok n (set_parameter_diagnostic r why PE_expected_expression a b c)"
  by (simp add: failing_def header_failure_def)

lemma failing_Parsed [simp]: "failing n (Parsed x)"
  by (simp add: failing_def)

lemma span_ok_tokens:
  assumes "tokens_ok ts" "i \<le> j" "j < token_count ts"
  shows "span_ok (source_length ts) (span_from (rt_span (rts_tokens ts ! i)) (rt_span (rts_tokens ts ! j)))"
proof -
  have i: "i < token_count ts" using assms(2,3) by simp
  show ?thesis
    using token_span [OF assms(1) i] token_span [OF assms(1,3)] token_offset_mono [OF assms(1), of i "j + 1"] assms(2)
    by (intro span_ok_from) simp_all
qed

lemma header_type_good:
  assumes "tokens_ok ts" "k < token_count ts"
  shows "failing (source_length ts) (header_type ts r (rts_tokens ts ! k) (k + 1))"
    "header_type ts r (rts_tokens ts ! k) (k + 1) = Parsed (j, t, ty) \<Longrightarrow>
       k < j \<and> j < token_count ts \<and> t = rts_tokens ts ! j"
proof -
  let ?n = "source_length ts" and ?j = "skip_while is_blank ts (k + 1)"
  have k: "k + 1 \<le> token_count ts" using assms(2) by simp
  have j: "k + 1 \<le> ?j" "?j \<le> token_count ts" by (rule skip_while_ge, rule skip_while_bound [OF k])
  have spans: "span_ok ?n (rt_span (rts_tokens ts ! i))"
    "span_ok ?n (insertion_span (rs_begin (rt_span (rts_tokens ts ! i))))" if "i < token_count ts" for i
    using token_span(3) [OF assms(1) that] span_ok_insertion(1) by auto
  have "k + 1 \<noteq> token_count ts \<Longrightarrow> k + 1 < token_count ts" "?j \<noteq> token_count ts \<Longrightarrow> ?j < token_count ts"
    using k j(2) by simp_all
  then show "failing ?n (header_type ts r (rts_tokens ts ! k) (k + 1))"
    using spans spans [OF assms(2)] span_ok_insertion(3) [OF assms(1)]
    by (auto simp: header_type_def Let_def set_parameter_diagnostic_failed split: option.split)
  show "header_type ts r (rts_tokens ts ! k) (k + 1) = Parsed (j, t, ty) \<Longrightarrow>
       k < j \<and> j < token_count ts \<and> t = rts_tokens ts ! j"
    using j by (auto simp: header_type_def header_failure_def Let_def split: if_splits option.splits)
qed

text \<open>A header changes nothing but the header of the program.\<close>

definition same_tables :: "rewrite_parse_result \<Rightarrow> rewrite_parse_result \<Rightarrow> bool" where
  "same_tables r r' \<longleftrightarrow>
     (\<exists>h. pr_program r' = (pr_program r)\<lparr>pg_parameter_header := h\<rparr>) \<and> pr_diagnostic r' = pr_diagnostic r"

lemma same_tables_refl [simp]: "same_tables r r"
  unfolding same_tables_def by (metis (no_types, lifting) rewrite_program.surjective rewrite_program.update_convs(2))

lemma header_declarations_good:
  assumes "tokens_ok ts" "kw \<le> i" "i \<le> token_count ts" "kw < token_count ts"
    "span_ok (source_length ts) opening_span"
  shows "failing (source_length ts) (header_declarations ts (rts_tokens ts ! kw) opening_span i r) \<and>
    (\<forall>j r'. header_declarations ts (rts_tokens ts ! kw) opening_span i r = Parsed (j, r') \<longrightarrow>
       i \<le> j \<and> j \<le> token_count ts \<and> (j \<noteq> token_count ts \<longrightarrow> kind_at ts j TK_right_bracket) \<and>
       (\<exists>ds. r' = update_header (\<lambda>h. h\<lparr>hd_declarations := ds\<rparr>) r))"
  using assms(2,3)
proof (induction "token_count ts - i" arbitrary: i r rule: less_induct)
  case less
  let ?n = "source_length ts" and ?kw = "rts_tokens ts ! kw" and ?name = "rts_tokens ts ! i"
  note unfold = header_declarations.simps [of ts ?kw opening_span i r]
  show ?case
  proof (cases "\<not> i < token_count ts \<or> kind_at ts i TK_right_bracket")
    case True
    have "r = update_header (\<lambda>h. h\<lparr>hd_declarations := hd_declarations (pg_parameter_header (pr_program r))\<rparr>) r"
      by (simp add: update_header_def)
    then show ?thesis using True less.prems by (auto simp: unfold)
  next
    case False
    then have i: "i < token_count ts" by simp
    note name = token_span(3) [OF assms(1) i]
    show ?thesis
    proof (cases "parameter_name_spelling (rewrite_token_spelling ts ?name)")
      case bad: False
      then show ?thesis
        using False name assms(5) span_ok_tokens [OF assms(1) less.prems(1) i]
        by (simp add: unfold Let_def set_parameter_diagnostic_failed) (simp add: header_failure_def)
    next
      case good: True
      show ?thesis
      proof (cases "header_type ts r ?name (i + 1)")
        case (Failed r')
        then show ?thesis
          using False good header_type_good(1) [OF assms(1) i, of r] by (simp add: unfold Let_def failing_def)
      next
        case (Parsed x)
        obtain j t ty where x: "x = (j, t, ty)" by (cases x)
        then have j: "i < j" "j < token_count ts" "t = rts_tokens ts ! j"
          using header_type_good(2) [OF assms(1) i] Parsed by blast+
        define r1 where "r1 = with_declaration r
          \<lparr>dl_name = rewrite_token_spelling ts ?name, dl_type = ty,
           dl_span = span_from (rt_span ?name) (rt_span t), dl_name_span = rt_span ?name,
           dl_type_span = rt_span t\<rparr>"
        have step: "header_declarations ts ?kw opening_span i r =
          (if j + 1 < token_count ts \<and> \<not> kind_at ts (j + 1) TK_right_bracket \<and> \<not> is_blank (rts_tokens ts ! (j + 1))
           then header_failure r1 PR_unexpected_header_token (rt_span (rts_tokens ts ! (j + 1)))
                  (span_from (rt_span ?kw) (rt_span (rts_tokens ts ! (j + 1)))) (rt_span t)
           else header_declarations ts ?kw opening_span (skip_while is_blank ts (j + 1)) r1)"
          using False good Parsed x by (simp add: unfold Let_def r1_def)
        show ?thesis
        proof (cases "j + 1 < token_count ts \<and> \<not> kind_at ts (j + 1) TK_right_bracket \<and> \<not> is_blank (rts_tokens ts ! (j + 1))")
          case True
          then have less1: "j + 1 < token_count ts" by blast
          have kw: "kw \<le> j + 1" using less.prems(1) j(1) by simp
          have "failed_ok ?n (set_parameter_diagnostic r1 PR_unexpected_header_token PE_expected_expression
              (rt_span (rts_tokens ts ! (j + 1))) (span_from (rt_span ?kw) (rt_span (rts_tokens ts ! (j + 1)))) (rt_span t))"
            using token_span(3) [OF assms(1) less1] token_span(3) [OF assms(1) j(2)] j(3)
              span_ok_tokens [OF assms(1) kw less1]
            by (intro set_parameter_diagnostic_failed) simp_all
          then show ?thesis
            unfolding step if_P [OF True] by (simp add: failing_def header_failure_def)
        next
          case go_on: False
          let ?k = "skip_while is_blank ts (j + 1)"
          have le: "j + 1 \<le> token_count ts" using j(2) by simp
          have k: "i < ?k" "kw \<le> ?k" "?k \<le> token_count ts"
            using skip_while_ge [of "j + 1" is_blank ts] skip_while_bound [OF le, of is_blank] j(1) less.prems(1)
            by simp_all
          have "token_count ts - ?k < token_count ts - i" using k(1) i by simp
          note IH = less.hyps [OF this k(2,3), of r1]
          have same: "update_header (\<lambda>h. h\<lparr>hd_declarations := ds\<rparr>) r1 = update_header (\<lambda>h. h\<lparr>hd_declarations := ds\<rparr>) r"
            for ds by (simp add: r1_def with_declaration_def update_header_def)
          show ?thesis
            unfolding step if_not_P [OF go_on]
          proof (intro conjI allI impI)
            show "failing ?n (header_declarations ts ?kw opening_span ?k r1)" using IH by blast
            fix j' r' assume "header_declarations ts ?kw opening_span ?k r1 = Parsed (j', r')"
            then have out: "?k \<le> j'" "j' \<le> token_count ts" "j' \<noteq> token_count ts \<Longrightarrow> kind_at ts j' TK_right_bracket"
              "\<exists>ds. r' = update_header (\<lambda>h. h\<lparr>hd_declarations := ds\<rparr>) r1"
              using IH by blast+
            show "i \<le> j'" using out(1) k(1) by simp
            show "j' \<le> token_count ts" "j' \<noteq> token_count ts \<Longrightarrow> kind_at ts j' TK_right_bracket"
              using out(2,3) by blast+
            show "\<exists>ds. r' = update_header (\<lambda>h. h\<lparr>hd_declarations := ds\<rparr>) r"
              using out(4) unfolding same .
          qed
        qed
      qed
    qed
  qed
qed

text \<open>Where the loop starts.\<close>

lemma parse_parameter_header_good:
  assumes "tokens_ok ts"
  shows "failing (source_length ts) (parse_parameter_header ts 0 r)"
    "parse_parameter_header ts 0 r = Parsed (j, r') \<Longrightarrow>
       j \<le> token_count ts \<and> pr_diagnostic r' = pr_diagnostic r \<and>
       (r' = r \<and> j = 0 \<and> \<not> keyword_at ts (skip_while is_blank ts 0) \<or>
        (\<exists>h. pr_program r' = (pr_program r)\<lparr>pg_parameter_header := h\<rparr> \<and> hd_present h \<and>
           span_ok (source_length ts) (hd_span h)))"
proof -
  let ?n = "source_length ts" and ?f = "skip_while is_blank ts 0"
  have f: "?f \<le> token_count ts" by (rule skip_while_bound) simp
  have "failing ?n (parse_parameter_header ts 0 r) \<and>
    (\<forall>j r'. parse_parameter_header ts 0 r = Parsed (j, r') \<longrightarrow>
       j \<le> token_count ts \<and> pr_diagnostic r' = pr_diagnostic r \<and>
       (r' = r \<and> j = 0 \<and> \<not> keyword_at ts ?f \<or>
        (\<exists>h. pr_program r' = (pr_program r)\<lparr>pg_parameter_header := h\<rparr> \<and> hd_present h \<and> span_ok ?n (hd_span h))))"
  proof (cases "keyword_at ts ?f")
    case False
    then have "parse_parameter_header ts 0 r = Parsed (0, r)"
      by (auto simp: parse_parameter_header_def keyword_at_def Let_def)
    then show ?thesis using False by simp
  next
    case True
    then have less: "?f < token_count ts" by (simp add: keyword_at_def kind_at_def)
    let ?kw = "rts_tokens ts ! ?f"
    have kw: "span_ok ?n (rt_span ?kw)" by (rule token_span(3) [OF assms less])
    have enter: "\<not> (?f = token_count ts \<or> \<not> kind_at ts ?f TK_name \<or> rewrite_token_spelling ts ?kw \<noteq> ''parameters'')"
      using True less by (auto simp: keyword_at_def)
    show ?thesis
    proof (cases "kind_at ts (?f + 1) TK_left_bracket")
      case False
      have "span_ok ?n (if ?f + 1 < token_count ts then rt_span (rts_tokens ts ! (?f + 1)) else insertion_span (rts_end ts))"
        using two_tokens(1) [OF assms, of ?f] span_ok_insertion(3) [OF assms] by simp
      then have "failed_ok ?n (set_parameter_diagnostic r PR_expected_header_open PE_expected_expression
          (if ?f + 1 < token_count ts then rt_span (rts_tokens ts ! (?f + 1)) else insertion_span (rts_end ts))
          (rt_span ?kw) (rt_span ?kw))"
        using kw by (intro set_parameter_diagnostic_failed) simp_all
      moreover have "parse_parameter_header ts 0 r = header_failure r PR_expected_header_open
          (if ?f + 1 < token_count ts then rt_span (rts_tokens ts ! (?f + 1)) else insertion_span (rts_end ts))
          (rt_span ?kw) (rt_span ?kw)"
        unfolding parse_parameter_header_def Let_def if_not_P [OF enter] using False by simp
      ultimately show ?thesis by (simp add: failing_def header_failure_def)
    next
      case open_bracket: True
      then have less1: "?f + 1 < token_count ts" by (simp add: kind_at_def)
      let ?open = "rt_span (rts_tokens ts ! (?f + 1))" and ?i = "skip_while is_blank ts (?f + 2)"
      let ?r1 = "update_header (\<lambda>h. h\<lparr>hd_present := True, hd_keyword_span := rt_span ?kw,
        hd_opening_span := ?open\<rparr>) r"
      have le2: "?f + 2 \<le> token_count ts" using less1 by simp
      have i: "?f \<le> ?i" "?i \<le> token_count ts"
        using skip_while_ge [of "?f + 2" is_blank ts] skip_while_bound [OF le2, of is_blank] by simp_all
      have open_ok: "span_ok ?n ?open" by (rule token_span(3) [OF assms less1])
      note decls = header_declarations_good [OF assms i less open_ok, of ?r1]
      have step: "parse_parameter_header ts 0 r =
        (case header_declarations ts ?kw ?open ?i ?r1 of
           Failed r \<Rightarrow> Failed r
         | Parsed (index, result) \<Rightarrow>
             if index = token_count ts
             then Failed (set_parameter_diagnostic result PR_missing_header_close PE_missing_delimiter
                    (insertion_span (rts_end ts)) (span_to_end ts (rt_span ?kw)) ?open)
             else
               let closing_span = rt_span (rts_tokens ts ! index);
                   header_span = span_from (rt_span ?kw) closing_span;
                   result = update_header (\<lambda>h. h\<lparr>hd_closing_span := closing_span, hd_span := header_span\<rparr>) result;
                   index = skip_while is_space ts (index + 1)
               in if index < token_count ts \<and> \<not> kind_at ts index TK_line_terminator
                  then Failed (set_parameter_diagnostic result PR_trailing_header_bytes PE_trailing_input
                         (rt_span (rts_tokens ts ! index)) header_span header_span)
                  else Parsed (if index < token_count ts then index + 1 else index, result))"
        unfolding parse_parameter_header_def Let_def if_not_P [OF enter] using open_bracket by simp
      show ?thesis
      proof (cases "header_declarations ts ?kw ?open ?i ?r1")
        case (Failed r')
        then show ?thesis using decls unfolding step by (simp add: failing_def)
      next
        case (Parsed x)
        obtain k r2 where x: "x = (k, r2)" by (cases x)
        obtain ds where k: "?i \<le> k" "k \<le> token_count ts"
          and r2: "r2 = update_header (\<lambda>h. h\<lparr>hd_declarations := ds\<rparr>) ?r1"
          using decls Parsed x by blast
        show ?thesis
        proof (cases "k = token_count ts")
          case True
          have "failed_ok ?n (set_parameter_diagnostic r2 PR_missing_header_close PE_missing_delimiter
              (insertion_span (rts_end ts)) (span_to_end ts (rt_span ?kw)) ?open)"
            using kw open_ok span_ok_insertion(3) [OF assms] span_ok_to_end [OF assms]
            by (intro set_parameter_diagnostic_failed) simp_all
          then show ?thesis unfolding step Parsed x using True by (simp add: failing_def)
        next
          case False
          then have kless: "k < token_count ts" using k(2) by simp
          let ?close = "rt_span (rts_tokens ts ! k)"
          let ?span = "span_from (rt_span ?kw) ?close"
          let ?r3 = "update_header (\<lambda>h. h\<lparr>hd_closing_span := ?close, hd_span := ?span\<rparr>) r2"
          let ?j = "skip_while is_space ts (k + 1)"
          have span: "span_ok ?n ?span"
            by (rule span_ok_tokens [OF assms _ kless]) (use i(1) k(1) in simp)
          have "k + 1 \<le> token_count ts" using kless by simp
          then have j: "?j \<le> token_count ts" by (rule skip_while_bound)
          have fail: "failed_ok ?n (set_parameter_diagnostic ?r3 PR_trailing_header_bytes PE_trailing_input
              (rt_span (rts_tokens ts ! ?j)) ?span ?span)" if "?j < token_count ts"
            using token_span(3) [OF assms that] span by (intro set_parameter_diagnostic_failed) simp_all
          let ?h = "(pg_parameter_header (pr_program r))\<lparr>hd_present := True, hd_keyword_span := rt_span ?kw,
            hd_opening_span := ?open, hd_declarations := ds, hd_closing_span := ?close, hd_span := ?span\<rparr>"
          have r3: "pr_program ?r3 = (pr_program r)\<lparr>pg_parameter_header := ?h\<rparr>" "pr_diagnostic ?r3 = pr_diagnostic r"
            by (simp_all add: r2 update_header_def)
          have h: "hd_present ?h" "span_ok ?n (hd_span ?h)" using span by simp_all
          have result: "parse_parameter_header ts 0 r =
            (if ?j < token_count ts \<and> \<not> kind_at ts ?j TK_line_terminator
             then Failed (set_parameter_diagnostic ?r3 PR_trailing_header_bytes PE_trailing_input
                    (rt_span (rts_tokens ts ! ?j)) ?span ?span)
             else Parsed (if ?j < token_count ts then ?j + 1 else ?j, ?r3))"
            unfolding step Parsed x using False by (simp add: Let_def)
          show ?thesis
          proof (cases "?j < token_count ts \<and> \<not> kind_at ts ?j TK_line_terminator")
            case True
            then show ?thesis unfolding result using fail by (simp add: failing_def)
          next
            case ok: False
            have "(if ?j < token_count ts then ?j + 1 else ?j) \<le> token_count ts" using j by simp
            then show ?thesis unfolding result if_not_P [OF ok] using r3 h by (metis failing_Parsed parsed.inject(1) prod.inject)
          qed
        qed
      qed
    qed
  qed
  then show "failing ?n (parse_parameter_header ts 0 r)"
    "parse_parameter_header ts 0 r = Parsed (j, r') \<Longrightarrow>
       j \<le> token_count ts \<and> pr_diagnostic r' = pr_diagnostic r \<and>
       (r' = r \<and> j = 0 \<and> \<not> keyword_at ts ?f \<or>
        (\<exists>h. pr_program r' = (pr_program r)\<lparr>pg_parameter_header := h\<rparr> \<and> hd_present h \<and>
           span_ok ?n (hd_span h)))"
    by blast+
qed

text \<open>The whole parser.\<close>

lemma empty_tables:
  "tables_ok (length (pg_source p)) p" "roots_ok p"
  if "pg_nodes p = []" "pg_arguments p = []" "pg_argument_spans p = []" "pg_calls p = []" "pg_fanouts p = []"
    "pg_fanout_branches p = []" "pg_roots p = []" "pg_tuple_elements p = []"
  using that by (simp_all add: tables_ok_def roots_ok_def call_indices_def)

lemma parse_rewrite_result:
  "\<exists>r. parse_rewrite source = Some r \<and> result_ok (length source) r"
proof -
  let ?ts = "tokenize_rewrite source"
  let ?r = "initial_result ?ts"
  have ts: "tokens_ok ?ts" by (rule tokenize_tokens_ok)
  have len: "source_length ?ts = length source"
    by (simp add: source_length_def tokenize_rewrite_eq)
  show ?thesis
  proof (cases "parse_parameter_header ?ts 0 ?r")
    case (Failed r')
    then show ?thesis
      using parse_parameter_header_good(1) [OF ts, of ?r]
      by (simp add: parse_rewrite_def Let_def failing_def len failed_result_ok)
  next
    case (Parsed x)
    obtain j r' where x: "x = (j, r')" by (cases x)
    note header = parse_parameter_header_good(2) [OF ts Parsed [unfolded x]]
    let ?st = "\<lparr>st_index = j, st_result = r', st_contexts = [], st_pending = [], st_completed = 0,
      st_have_expression = False\<rparr>"
    obtain h where p: "pr_program r' = (pr_program ?r)\<lparr>pg_parameter_header := h\<rparr>"
      "hd_present h \<longrightarrow> span_ok (source_length ?ts) (hd_span h)"
      "\<not> hd_present h \<longrightarrow> \<not> keyword_at ?ts (skip_while is_blank ?ts j)"
    proof -
      from header consider (none) "r' = ?r" "j = 0" "\<not> keyword_at ?ts (skip_while is_blank ?ts 0)"
        | (some) h where "pr_program r' = (pr_program ?r)\<lparr>pg_parameter_header := h\<rparr>" "hd_present h"
            "span_ok (source_length ?ts) (hd_span h)" by blast
      then show thesis
      proof cases
        case none
        then show thesis
          using that [of empty_header] by (simp add: initial_result_def empty_program_def empty_header_def)
      next
        case (some h)
        then show thesis using that [of h] by simp
      qed
    qed
    have tables: "tables_ok (source_length ?ts) (pr_program r')" "roots_ok (pr_program r')"
      unfolding len using empty_tables [of "pr_program r'"] p(1)
      by (simp_all add: initial_result_def empty_program_def tokenize_rewrite_eq)
    have "core ?ts r' j [] []"
      using tables header p(1,2)
      by (simp add: core_def fanout_counts_def header_span_ok_def initial_result_def)
    then have "loop_inv ?ts ?st"
      using p(1,3)
      by (simp add: loop_inv_def idle_def begins_def no_keyword_def program_of_def initial_result_def
          empty_program_def)
    from parse_loop_good [OF ts this] show ?thesis
      using Parsed x by (simp add: parse_rewrite_def Let_def len)
  qed
qed

end
