(* ===== verification/ParserProperties.thy ===== *)
theory ParserProperties
  imports ParserCorrect
begin

text \<open>
  What the parser guarantees. \<open>rewrite_program_invariants_hold\<close> is the check the repository's
  tests run on parsed programs; here it is proved of every program the parser accepts.
\<close>

section \<open>The invariants of a program\<close>

definition span_is_ordered :: "rewrite_program \<Rightarrow> rewrite_span \<Rightarrow> bool" where
  "span_is_ordered program span \<longleftrightarrow>
     rp_offset (rs_begin span) \<le> rp_offset (rs_end span) \<and> rp_offset (rs_begin span) \<ge> 1
     \<and> rp_offset (rs_end span) \<le> length (pg_source program) + 1"

text \<open>The loop over the calls: the arguments expected next, or failure.\<close>

fun check_calls :: "rewrite_program \<Rightarrow> nat \<Rightarrow> rewrite_call list \<Rightarrow> nat option" where
  "check_calls program expected_first_argument [] = Some expected_first_argument"
| "check_calls program expected_first_argument (call # calls) =
     (if rc_first_argument call \<noteq> expected_first_argument
         \<or> rc_first_argument call > length (pg_arguments program)
         \<or> rc_argument_count call > length (pg_arguments program) - rc_first_argument call
         \<or> \<not> span_is_ordered program (rc_name_span call)
         \<or> \<not> span_is_ordered program (rc_span call)
      then None
      else check_calls program (expected_first_argument + rc_argument_count call) calls)"

definition check_argument :: "rewrite_program \<Rightarrow> nat \<Rightarrow> nat \<Rightarrow> bool" where
  "check_argument program node_index arena_index =
     (let argument_node = pg_arguments program ! arena_index in
      argument_node < node_index \<and> argument_node < length (pg_nodes program)
      \<and> pg_argument_spans program ! arena_index = rn_span (pg_nodes program ! argument_node))"

text \<open>The loop over the nodes, with the calls seen so far.\<close>

fun check_nodes ::
    "rewrite_program \<Rightarrow> nat \<Rightarrow> bool list \<Rightarrow> rewrite_node list \<Rightarrow> bool list option" where
  "check_nodes program node_index seen_calls [] = Some seen_calls"
| "check_nodes program node_index seen_calls (node # nodes) =
     (if \<not> span_is_ordered program (rn_span node) then None
      else if rn_kind node = NK_vector_literal
              \<and> (rn_first_element_span node > length (pg_vector_element_spans program)
                 \<or> rn_element_count node
                     > length (pg_vector_element_spans program) - rn_first_element_span node
                 \<or> rn_first_element node > vector_payload_size program (rn_element_type node)
                 \<or> rn_element_count node
                     > vector_payload_size program (rn_element_type node) - rn_first_element node)
      then None
      else if rn_kind node \<noteq> NK_primitive_call
      then check_nodes program (node_index + 1) seen_calls nodes
      else if rn_call_index node \<ge> length (pg_calls program) \<or> seen_calls ! rn_call_index node
      then None
      else
        let call = pg_calls program ! rn_call_index node in
        if rn_span node \<noteq> rc_span call
           \<or> \<not> list_all (\<lambda>argument. check_argument program node_index
                              (rc_first_argument call + argument))
                  [0..<rc_argument_count call]
        then None
        else check_nodes program (node_index + 1) (seen_calls[rn_call_index node := True]) nodes)"

fun check_roots :: "rewrite_program \<Rightarrow> nat \<Rightarrow> bool list \<Rightarrow> nat list \<Rightarrow> bool" where
  "check_roots program previous_root_offset seen_roots [] = True"
| "check_roots program previous_root_offset seen_roots (root # roots) =
     (if root \<ge> length (pg_nodes program) \<or> seen_roots ! root
         \<or> rp_offset (rs_begin (rn_span (pg_nodes program ! root))) < previous_root_offset
      then False
      else check_roots program (rp_offset (rs_begin (rn_span (pg_nodes program ! root))))
             (seen_roots[root := True]) roots)"

definition rewrite_program_invariants_hold :: "rewrite_program \<Rightarrow> bool" where
  "rewrite_program_invariants_hold program =
     (if length (pg_arguments program) \<noteq> length (pg_argument_spans program) then False
      else if check_calls program 0 (pg_calls program) \<noteq> Some (length (pg_arguments program))
      then False
      else
        (case check_nodes program 0 (replicate (length (pg_calls program)) False)
                (pg_nodes program) of
           None \<Rightarrow> False
         | Some seen_calls \<Rightarrow>
             list_all id seen_calls
             \<and> check_roots program 0 (replicate (length (pg_nodes program)) False)
                 (pg_roots program)))"

section \<open>The parser's invariant implies the check\<close>

lemma span_is_ordered_iff: "span_is_ordered p s \<longleftrightarrow> span_ok (length (pg_source p)) s"
  by (auto simp: span_is_ordered_def span_ok_def)

lemma contiguous_le: "contiguous s cs t \<Longrightarrow> s \<le> t"
proof (induction cs arbitrary: s)
  case (Cons c cs)
  have "contiguous (s + rc_argument_count c) cs t" using Cons.prems by simp
  from Cons.IH [OF this] show ?case by simp
qed simp

lemma check_calls_ok:
  assumes "contiguous s cs (length (pg_arguments p))"
    "\<forall>c \<in> set cs. span_is_ordered p (rc_name_span c) \<and> span_is_ordered p (rc_span c)"
  shows "check_calls p s cs = Some (length (pg_arguments p))"
  using assms
proof (induction cs arbitrary: s)
  case (Cons c cs)
  have "contiguous (s + rc_argument_count c) cs (length (pg_arguments p))" using Cons.prems by simp
  from contiguous_le [OF this] Cons.IH [OF this] show ?case using Cons.prems by simp
qed simp

lemma check_nodes_ok:
  assumes tables: "tables_ok (length (pg_source p)) p" and "i \<le> length (pg_nodes p)"
  shows "check_nodes p i (map (\<lambda>k. k < length (call_indices (take i (pg_nodes p)))) [0..<length (pg_calls p)])
      (drop i (pg_nodes p)) = Some (replicate (length (pg_calls p)) True)"
  using assms(2)
proof (induction "length (pg_nodes p) - i" arbitrary: i rule: less_induct)
  case less
  let ?N = "length (pg_calls p)" and ?m = "length (call_indices (take i (pg_nodes p)))"
  have indices: "call_indices (pg_nodes p) = [0..<?N]"
    and nodes: "\<And>i. i < length (pg_nodes p) \<Longrightarrow> node_ok (length (pg_source p)) p i (pg_nodes p ! i)"
    and args: "\<And>k. k < length (pg_arguments p) \<Longrightarrow> pg_arguments p ! k < length (pg_nodes p) \<and>
        pg_argument_spans p ! k = rn_span (pg_nodes p ! (pg_arguments p ! k))"
    using tables by (simp_all add: tables_ok_def)
  show ?case
  proof (cases "i = length (pg_nodes p)")
    case True
    have "map (\<lambda>k. k < ?N) [0..<?N] = replicate ?N True" by (rule nth_equalityI) simp_all
    then show ?thesis using True indices by simp
  next
    case False
    then have i: "i < length (pg_nodes p)" using less.prems by simp
    let ?nd = "pg_nodes p ! i"
    have d: "drop i (pg_nodes p) = ?nd # drop (i + 1) (pg_nodes p)"
      using i by (simp add: Cons_nth_drop_Suc)
    have take: "take (i + 1) (pg_nodes p) = take i (pg_nodes p) @ [?nd]"
      using i by (simp add: take_Suc_conv_app_nth)
    note ok = nodes [OF i]
    have ordered: "span_is_ordered p (rn_span ?nd)" using ok by (simp add: node_ok_def span_is_ordered_iff)
    have smaller: "length (pg_nodes p) - (i + 1) < length (pg_nodes p) - i" using i by simp
    have IH: "check_nodes p (i + 1) (map (\<lambda>k. k < length (call_indices (take (i + 1) (pg_nodes p)))) [0..<?N])
        (drop (i + 1) (pg_nodes p)) = Some (replicate ?N True)"
      using less.hyps [OF smaller] i by simp
    show ?thesis
    proof (cases "rn_kind ?nd = NK_primitive_call")
      case False
      have "call_indices (take (i + 1) (pg_nodes p)) = call_indices (take i (pg_nodes p))"
        unfolding take using False by (simp add: call_indices_def)
      then show ?thesis
        unfolding d using IH ordered ok False by (auto simp: node_ok_def)
    next
      case True
      have split: "call_indices (take (i + 1) (pg_nodes p)) = call_indices (take i (pg_nodes p)) @ [rn_call_index ?nd]"
        unfolding take using True by (simp add: call_indices_def)
      have "call_indices (pg_nodes p) =
          call_indices (take (i + 1) (pg_nodes p)) @ call_indices (drop (i + 1) (pg_nodes p))"
        by (metis append_take_drop_id call_indices_append)
      then have "[0..<?N] = (call_indices (take i (pg_nodes p)) @ [rn_call_index ?nd]) @
          call_indices (drop (i + 1) (pg_nodes p))" (is "_ = ?a @ ?b")
        unfolding indices split .
      then have "?a ! ?m = [0..<?N] ! ?m" "?m < ?N"
        by (simp_all add: nth_append) (metis (no_types, lifting) add_Suc_right add_lessD1 diff_zero length_append length_upt less_add_Suc1 list.size(4))
      then have ci: "rn_call_index ?nd = ?m" "?m < ?N" by simp_all
      let ?c = "pg_calls p ! ?m"
      have call: "rc_span ?c = rn_span ?nd" "rc_first_argument ?c + rc_argument_count ?c \<le> length (pg_arguments p)"
        "\<forall>k < rc_argument_count ?c. pg_arguments p ! (rc_first_argument ?c + k) < i"
        using ok True ci by (auto simp: node_ok_def Let_def)
      have all: "list_all (\<lambda>a. check_argument p i (rc_first_argument ?c + a)) [0..<rc_argument_count ?c]"
        using call(2,3) args by (simp add: list_all_iff check_argument_def Let_def)
      have seen: "(map (\<lambda>k. k < ?m) [0..<?N])[?m := True] =
          map (\<lambda>k. k < length (call_indices (take (i + 1) (pg_nodes p)))) [0..<?N]"
        unfolding split using ci(2) by (intro nth_equalityI) (auto simp: nth_list_update)
      show ?thesis
        unfolding d using ordered True ci call(1) all IH seen by (simp add: Let_def)
    qed
  qed
qed

lemma check_roots_ok:
  assumes "sorted_wrt (<) rs" "\<forall>r \<in> set rs. r < length (pg_nodes p)" "sorted (map (node_begin p) rs)"
    "\<forall>r \<in> set rs. lo \<le> node_begin p r" "\<forall>r \<in> set rs. \<not> seen ! r" "length seen = length (pg_nodes p)"
  shows "check_roots p lo seen rs"
  using assms
proof (induction rs arbitrary: lo seen)
  case (Cons r rs)
  have "\<forall>q \<in> set rs. \<not> seen[r := True] ! q" using Cons.prems by auto
  then have "check_roots p (node_begin p r) (seen[r := True]) rs"
    using Cons.prems by (intro Cons.IH) auto
  then show ?case using Cons.prems by (auto simp: node_begin_def not_less)
qed simp

lemma tables_invariants:
  assumes "tables_ok (length (pg_source p)) p" "roots_ok p"
  shows "rewrite_program_invariants_hold p"
proof -
  have "check_calls p 0 (pg_calls p) = Some (length (pg_arguments p))"
    using assms(1) by (intro check_calls_ok) (simp_all add: tables_ok_def span_is_ordered_iff)
  moreover have "check_nodes p 0 (replicate (length (pg_calls p)) False) (pg_nodes p) =
      Some (replicate (length (pg_calls p)) True)"
    using check_nodes_ok [OF assms(1), of 0] by (simp add: call_indices_def map_replicate_const)
  moreover have "check_roots p 0 (replicate (length (pg_nodes p)) False) (pg_roots p)"
    using assms(2) by (intro check_roots_ok) (auto simp: roots_ok_def)
  ultimately show ?thesis
    using assms(1) by (simp add: rewrite_program_invariants_hold_def tables_ok_def list_all_iff)
qed

section \<open>Every source is parsed or refused\<close>

text \<open>C5: the parser returns on every source: the loop ends, and no iteration reads a token, a
  node, an argument, a pending argument or a context outside its table.\<close>

theorem parse_rewrite_returns: "\<exists>r. parse_rewrite source = Some r"
  using parse_rewrite_result by blast

text \<open>C3: the parser either accepts a program, without a diagnostic, whose tables satisfy the
  invariants the repository's tests check: calls own consecutive ranges of arguments, each is
  the call of exactly one node, operands come before the node that uses them with the spans
  recorded for them, literals lie inside the element tables, and roots come in the order of
  the source; or it refuses the source with a diagnostic other than \<open>none\<close> whose three spans lie
  in the source.\<close>

theorem parse_rewrite_well_formed:
  "case parse_rewrite source of
     None \<Rightarrow> False
   | Some r \<Rightarrow>
       if pr_ok r
       then rd_error (pr_diagnostic r) = PE_none \<and>
            length (pg_source (pr_program r)) = length source \<and>
            rewrite_program_invariants_hold (pr_program r)
       else rd_error (pr_diagnostic r) \<noteq> PE_none \<and>
            span_ok (length source) (rd_primary (pr_diagnostic r)) \<and>
            span_ok (length source) (rd_context (pr_diagnostic r)) \<and>
            span_ok (length source) (rd_related (pr_diagnostic r))"
proof -
  obtain r where r: "parse_rewrite source = Some r" "result_ok (length source) r"
    using parse_rewrite_result by blast
  show ?thesis
  proof (cases "pr_ok r")
    case True
    then have ok: "rd_error (pr_diagnostic r) = PE_none" "tables_ok (length source) (pr_program r)"
      "roots_ok (pr_program r)" using r(2) by (simp_all add: result_ok_def)
    then have "length (pg_source (pr_program r)) = length source" by (simp add: tables_ok_def)
    then show ?thesis using True r(1) ok tables_invariants by simp
  next
    case False
    then show ?thesis using r by (simp add: result_ok_def diagnostic_ok_def)
  qed
qed

section \<open>Fanout branches\<close>

text \<open>The placeholders in the tree below a node, from left to right, each with whether it
  stands in an owned position: inside a tuple.\<close>

fun placeholders_below :: "nat \<Rightarrow> rewrite_program \<Rightarrow> nat \<Rightarrow> bool \<Rightarrow> (rewrite_span \<times> bool) list" where
  "placeholders_below 0 p i owned = []"
| "placeholders_below (Suc depth) p i owned =
     (let nd = pg_nodes p ! i in
      case rn_kind nd of
        NK_placeholder \<Rightarrow> [(rn_span nd, owned)]
      | NK_primitive_call \<Rightarrow>
          (let c = pg_calls p ! rn_call_index nd in
           concat (map (\<lambda>k. placeholders_below depth p (pg_arguments p ! (rc_first_argument c + k)) owned)
             [0..<rc_argument_count c]))
      | NK_tuple_literal \<Rightarrow>
          concat (map (\<lambda>k. placeholders_below depth p (pg_tuple_elements p ! (rn_first_element nd + k)) True)
            [0..<rn_element_count nd])
      | _ \<Rightarrow> [])"

definition add_placeholders ::
    "placeholder_inspection \<Rightarrow> (rewrite_span \<times> bool) list \<Rightarrow> placeholder_inspection" where
  "add_placeholders acc ps =
     (case acc of (count, span, has_owned) \<Rightarrow>
        (count + length ps,
         (case span of Some s \<Rightarrow> Some s | None \<Rightarrow> (case ps of [] \<Rightarrow> None | (s, _) # _ \<Rightarrow> Some s)),
         has_owned \<or> list_ex snd ps))"

lemma add_placeholders_Nil [simp]: "add_placeholders acc [] = acc"
  by (cases acc) (simp add: add_placeholders_def split: option.split)

lemma add_placeholders_append:
  "add_placeholders acc (ps @ qs) = add_placeholders (add_placeholders acc ps) qs"
  by (cases acc) (auto simp: add_placeholders_def split: option.splits list.splits)

lemma those_range_nth:
  "those (map (\<lambda>k. at xs (first + k)) [0..<count]) = Some ys \<Longrightarrow>
     ys = map (\<lambda>k. xs ! (first + k)) [0..<count]"
proof -
  assume "those (map (\<lambda>k. at xs (first + k)) [0..<count]) = Some ys"
  then have eq: "map (\<lambda>k. at xs (first + k)) [0..<count] = map Some ys" by (simp only: those_map_Some)
  have len: "length ys = count" using arg_cong [OF eq, of length] by simp
  show ?thesis
  proof (rule nth_equalityI)
    fix k assume "k < length ys"
    then show "ys ! k = map (\<lambda>k. xs ! (first + k)) [0..<count] ! k"
      using arg_cong [OF eq, of "\<lambda>zs. zs ! k"] len by (simp add: at_Some_iff)
  qed (simp add: len)
qed

text \<open>The code's inspection counts these placeholders.\<close>

lemma inspect_counts:
  "inspect_branch_placeholder fuel p i own acc = Some acc' \<Longrightarrow>
     acc' = add_placeholders acc (placeholders_below fuel p i own)"
  "inspect_all fuel p ns own acc = Some acc' \<Longrightarrow>
     acc' = add_placeholders acc (concat (map (\<lambda>m. placeholders_below fuel p m own) ns))"
proof (induction fuel p i own acc and fuel p ns own acc arbitrary: acc' and acc'
    rule: inspect_branch_placeholder_inspect_all.induct)
  case (2 fuel p i own acc)
  obtain nd where nd: "at (pg_nodes p) i = Some nd" using 2(3) by (auto split: option.splits)
  then have i: "pg_nodes p ! i = nd" by (simp add: at_Some_iff)
  show ?case
  proof (cases "rn_kind nd")
    case NK_placeholder
    then show ?thesis
      using 2(3) nd i by (cases acc) (auto simp: add_placeholders_def split: option.splits)
  next
    case NK_primitive_call
    then obtain c args where c: "at (pg_calls p) (rn_call_index nd) = Some c"
      "those (map (\<lambda>k. at (pg_arguments p) (rc_first_argument c + k)) [0..<rc_argument_count c]) = Some args"
      "inspect_all fuel p args own acc = Some acc'"
      using 2(3) nd by (auto split: option.splits)
    have "acc' = add_placeholders acc (concat (map (\<lambda>m. placeholders_below fuel p m own) args))"
      using 2(2) [OF nd NK_primitive_call c(1,2)] c(3) by simp
    then show ?thesis
      using NK_primitive_call i c(1) those_range_nth [OF c(2)] by (simp add: at_Some_iff Let_def comp_def)
  next
    case NK_tuple_literal
    then obtain els where els:
      "those (map (\<lambda>k. at (pg_tuple_elements p) (rn_first_element nd + k)) [0..<rn_element_count nd]) = Some els"
      "inspect_all fuel p els True acc = Some acc'"
      using 2(3) nd by (auto split: option.splits)
    have "acc' = add_placeholders acc (concat (map (\<lambda>m. placeholders_below fuel p m True) els))"
      using 2(1) [OF nd NK_tuple_literal els(1)] els(2) by simp
    then show ?thesis
      using NK_tuple_literal i those_range_nth [OF els(1)] by (simp add: Let_def comp_def)
  qed (use 2(3) nd i in simp_all)
next
  case (4 fuel p n ns own acc)
  then show ?case by (auto simp: add_placeholders_append split: option.splits)
qed simp_all

definition fanout_well_formed :: "rewrite_program \<Rightarrow> rewrite_fanout \<Rightarrow> bool" where
  "fanout_well_formed p f \<longleftrightarrow>
     1 \<le> rf_branch_count f \<and>
     rf_first_branch f + rf_branch_count f \<le> length (pg_fanout_branches p)"

definition branch_well_formed :: "rewrite_program \<Rightarrow> rewrite_fanout_branch \<Rightarrow> bool" where
  "branch_well_formed p b \<longleftrightarrow>
     rb_root b < length (pg_nodes p) \<and>
     rn_kind (pg_nodes p ! rb_root b) = NK_primitive_call \<and>
     placeholders_below (Suc (rb_root b)) p (rb_root b) False = [(rb_placeholder_span b, False)]"


end
