(* ===== verification/Resolver.thy ===== *)
theory Resolver
  imports ParserProperties Primitives
begin

text \<open>
  Resolution of names (src/rewrite.cpp, \<open>resolve_rewrite_primitives\<close>): the parameter
  declarations are checked, then every call gets the identity of the primitive it names, or
  the first unknown name of the source is reported. The program is changed only when all of
  it resolves.
\<close>

section \<open>The operation\<close>

record rewrite_resolution_result =
  rr_ok :: bool
  rr_diagnostic :: rewrite_diagnostic

definition reserved_name :: "string \<Rightarrow> bool" where
  "reserved_name name \<longleftrightarrow>
     name = ''parameters'' \<or> name = ''fanout'' \<or> name = ''true'' \<or> name = ''false''
     \<or> name = ''inf'' \<or> name = ''nan'' \<or> find_primitive_by_name name \<noteq> None"

definition unknown_diagnostic ::
    "rewrite_span \<Rightarrow> rewrite_span \<Rightarrow> rewrite_span \<Rightarrow> parameter_error_reason option
     \<Rightarrow> rewrite_diagnostic" where
  "unknown_diagnostic primary context_span related reason =
     \<lparr>rd_error = PE_unknown_primitive, rd_primary = primary, rd_context = context_span,
      rd_related = related, rd_parameter_reason = reason\<rparr>"

text \<open>The error of the declaration at an index: an earlier one of the same name, or a reserved
  name.\<close>

definition declaration_error :: "rewrite_parameter_header \<Rightarrow> nat \<Rightarrow> rewrite_diagnostic option" where
  "declaration_error header index =
     (let declarations = hd_declarations header; declaration = declarations ! index in
      or_else
        (find_some
          (\<lambda>earlier.
             if dl_name (declarations ! earlier) = dl_name declaration
             then Some (unknown_diagnostic (dl_name_span declaration) (hd_span header)
                          (dl_name_span (declarations ! earlier))
                          (Some PR_duplicate_parameter_name))
             else None)
          [0..<index])
        (if reserved_name (dl_name declaration)
         then Some (unknown_diagnostic (dl_name_span declaration) (hd_span header)
                      (dl_name_span declaration) (Some PR_reserved_parameter_name))
         else None))"

definition call_name :: "rewrite_program \<Rightarrow> rewrite_call \<Rightarrow> string" where
  "call_name program call =
     spelling_between (pg_source program) (rs_begin (rc_name_span call)) (rs_end (rc_name_span call))"

definition keep_first ::
    "rewrite_diagnostic option \<Rightarrow> rewrite_diagnostic \<Rightarrow> rewrite_diagnostic option" where
  "keep_first first_unknown diagnostic =
     (case first_unknown of
        None \<Rightarrow> Some diagnostic
      | Some first \<Rightarrow>
          if rp_offset (rs_begin (rd_primary diagnostic)) < rp_offset (rs_begin (rd_primary first))
          then Some diagnostic else Some first)"

text \<open>The loop over the calls: the identities so far and the first unknown name.\<close>

fun resolve_calls ::
    "rewrite_program \<Rightarrow> rewrite_call list \<Rightarrow> primitive_id list \<Rightarrow> rewrite_diagnostic option
     \<Rightarrow> primitive_id list \<times> rewrite_diagnostic option" where
  "resolve_calls program [] resolved_ids first_unknown = (resolved_ids, first_unknown)"
| "resolve_calls program (call # calls) resolved_ids first_unknown =
     (case find_primitive_by_name (call_name program call) of
        None \<Rightarrow>
          resolve_calls program calls (resolved_ids @ [PI_inc])
            (keep_first first_unknown
               (unknown_diagnostic (rc_name_span call) (rc_span call) (rc_name_span call) None))
      | Some descriptor \<Rightarrow>
          resolve_calls program calls (resolved_ids @ [pd_id descriptor]) first_unknown)"

fun unresolved_nodes ::
    "rewrite_node list \<Rightarrow> rewrite_diagnostic option \<Rightarrow> rewrite_diagnostic option" where
  "unresolved_nodes [] first_unknown = first_unknown"
| "unresolved_nodes (node # nodes) first_unknown =
     (if rn_kind node \<noteq> NK_unresolved_name then unresolved_nodes nodes first_unknown
      else unresolved_nodes nodes
             (keep_first first_unknown
                (unknown_diagnostic (rn_span node) (rn_span node) (rn_span node) None)))"

definition resolve_rewrite_primitives ::
    "rewrite_program \<Rightarrow> rewrite_resolution_result \<times> rewrite_program" where
  "resolve_rewrite_primitives program =
     (let header = pg_parameter_header program in
      case find_some (declaration_error header) [0..<length (hd_declarations header)] of
        Some diagnostic \<Rightarrow> (\<lparr>rr_ok = False, rr_diagnostic = diagnostic\<rparr>, program)
      | None \<Rightarrow>
          (case resolve_calls program (pg_calls program) [] None of
             (resolved_ids, first_unknown) \<Rightarrow>
               (case unresolved_nodes (pg_nodes program) first_unknown of
                  Some diagnostic \<Rightarrow> (\<lparr>rr_ok = False, rr_diagnostic = diagnostic\<rparr>, program)
                | None \<Rightarrow>
                    let empty = insertion_span \<lparr>rp_offset = 1, rp_line = 1, rp_column = 1\<rparr> in
                    (\<lparr>rr_ok = True,
                      rr_diagnostic = \<lparr>rd_error = PE_none, rd_primary = empty, rd_context = empty,
                                       rd_related = empty, rd_parameter_reason = None\<rparr>\<rparr>,
                     program\<lparr>pg_calls :=
                       map (\<lambda>index. (pg_calls program ! index)\<lparr>rc_primitive := Some (resolved_ids ! index)\<rparr>)
                         [0..<length (pg_calls program)]\<rparr>))))"

section \<open>Declarations\<close>

lemma distinct_names_iff:
  "distinct (map f xs) \<longleftrightarrow> (\<forall>i < length xs. \<forall>j < i. f (xs ! j) \<noteq> f (xs ! i))"
proof
  assume "distinct (map f xs)"
  then show "\<forall>i < length xs. \<forall>j < i. f (xs ! j) \<noteq> f (xs ! i)"
    by (auto simp: distinct_conv_nth)
next
  assume apart: "\<forall>i < length xs. \<forall>j < i. f (xs ! j) \<noteq> f (xs ! i)"
  have "f (xs ! i) \<noteq> f (xs ! j)" if "i < length xs" "j < length xs" "i \<noteq> j" for i j
    using apart that by (cases i j rule: linorder_cases) metis+
  then show "distinct (map f xs)" by (simp add: distinct_conv_nth)
qed

lemma declaration_errors:
  "find_some (declaration_error h) [0..<length (hd_declarations h)] = None \<longleftrightarrow>
     distinct (map dl_name (hd_declarations h)) \<and>
     list_all (\<lambda>d. \<not> reserved_name (dl_name d)) (hd_declarations h)"
proof -
  have "declaration_error h i = None \<longleftrightarrow>
      (\<forall>j < i. dl_name (hd_declarations h ! j) \<noteq> dl_name (hd_declarations h ! i)) \<and>
      \<not> reserved_name (dl_name (hd_declarations h ! i))" for i
    by (auto simp: declaration_error_def Let_def find_some_None_iff)
  then have "find_some (declaration_error h) [0..<length ds] = None \<longleftrightarrow>
      (\<forall>i < length ds. (\<forall>j < i. dl_name (ds ! j) \<noteq> dl_name (ds ! i)) \<and> \<not> reserved_name (dl_name (ds ! i)))"
    if "ds = hd_declarations h" for ds
    using that by (auto simp: find_some_None_iff)
  then show ?thesis by (simp add: distinct_names_iff list_all_length) blast
qed

lemma declaration_error_reason:
  assumes "find_some (declaration_error h) is = Some d"
  shows "rd_error d = PE_unknown_primitive \<and>
    rd_parameter_reason d \<in> {Some PR_duplicate_parameter_name, Some PR_reserved_parameter_name}"
proof -
  obtain i where "declaration_error h i = Some d" using find_some_Some [OF assms] by blast
  then have "find_some (\<lambda>earlier.
       if dl_name (hd_declarations h ! earlier) = dl_name (hd_declarations h ! i)
       then Some (unknown_diagnostic (dl_name_span (hd_declarations h ! i)) (hd_span h)
                    (dl_name_span (hd_declarations h ! earlier)) (Some PR_duplicate_parameter_name))
       else None) [0..<i] = Some d \<or>
     (if reserved_name (dl_name (hd_declarations h ! i))
      then Some (unknown_diagnostic (dl_name_span (hd_declarations h ! i)) (hd_span h)
                   (dl_name_span (hd_declarations h ! i)) (Some PR_reserved_parameter_name))
      else None) = Some d"
    unfolding declaration_error_def Let_def by (rule or_else_Some)
  then show ?thesis
    by (auto simp: unknown_diagnostic_def split: if_splits dest!: find_some_Some)
qed

section \<open>Unknown names\<close>

text \<open>The names that stand for no primitive, and the names that are no expression.\<close>

definition unknown_calls :: "rewrite_program \<Rightarrow> rewrite_call list \<Rightarrow> rewrite_span list" where
  "unknown_calls p cs =
     map rc_name_span (filter (\<lambda>c. find_primitive_by_name (call_name p c) = None) cs)"

definition unresolved_spans :: "rewrite_node list \<Rightarrow> rewrite_span list" where
  "unresolved_spans nds = map rn_span (filter (\<lambda>nd. rn_kind nd = NK_unresolved_name) nds)"

definition unknown_spans :: "rewrite_program \<Rightarrow> rewrite_span list" where
  "unknown_spans p = unknown_calls p (pg_calls p) @ unresolved_spans (pg_nodes p)"

text \<open>\<open>first_of ss d\<close>: the diagnostic of the first of the spans in the order of the source.\<close>

definition first_of :: "rewrite_span list \<Rightarrow> rewrite_diagnostic option \<Rightarrow> bool" where
  "first_of ss d \<longleftrightarrow>
     (case d of
        None \<Rightarrow> ss = []
      | Some d \<Rightarrow>
          rd_error d = PE_unknown_primitive \<and> rd_parameter_reason d = None \<and>
          rd_primary d \<in> set ss \<and> (\<forall>s \<in> set ss. begin_offset (rd_primary d) \<le> begin_offset s))"

lemma first_of_keep_first:
  "first_of ss d \<Longrightarrow> first_of (ss @ [s]) (keep_first d (unknown_diagnostic s c r None))"
  by (auto simp: first_of_def keep_first_def unknown_diagnostic_def split: option.splits)

lemma resolve_calls_spec:
  "first_of ss d \<Longrightarrow>
     (case resolve_calls p cs ids d of (ids', d') \<Rightarrow>
        first_of (ss @ unknown_calls p cs) d' \<and>
        (unknown_calls p cs = [] \<longrightarrow>
           map Some ids' = map Some ids @ map (\<lambda>c. map_option pd_id (find_primitive_by_name (call_name p c))) cs))"
proof (induction p cs ids d arbitrary: ss rule: resolve_calls.induct)
  case (2 p c cs ids d)
  show ?case
  proof (cases "find_primitive_by_name (call_name p c)")
    case None
    have "unknown_calls p (c # cs) = rc_name_span c # unknown_calls p cs"
      using None by (simp add: unknown_calls_def)
    then show ?thesis
      using 2(1) [OF None first_of_keep_first [OF 2(3)]] None by (auto split: prod.splits)
  next
    case (Some desc)
    have "unknown_calls p (c # cs) = unknown_calls p cs" using Some by (simp add: unknown_calls_def)
    then show ?thesis using 2(2) [OF Some 2(3)] Some by (auto split: prod.splits)
  qed
qed (simp add: unknown_calls_def)

lemma unresolved_nodes_spec:
  "first_of ss d \<Longrightarrow> first_of (ss @ unresolved_spans nds) (unresolved_nodes nds d)"
proof (induction nds d arbitrary: ss rule: unresolved_nodes.induct)
  case (2 nd nds d)
  show ?case
  proof (cases "rn_kind nd = NK_unresolved_name")
    case True
    then show ?thesis
      using 2(2) [OF _ first_of_keep_first [OF 2(3)]] by (simp add: unresolved_spans_def)
  next
    case False
    then show ?thesis using 2(1) [OF _ 2(3)] by (simp add: unresolved_spans_def)
  qed
qed (simp add: unresolved_spans_def)

definition with_primitives :: "rewrite_program \<Rightarrow> rewrite_program" where
  "with_primitives p =
     p\<lparr>pg_calls := map (\<lambda>c. c\<lparr>rc_primitive := map_option pd_id (find_primitive_by_name (call_name p c))\<rparr>)
                       (pg_calls p)\<rparr>"

lemma resolve_spec:
  "case resolve_rewrite_primitives p of (result, p') \<Rightarrow>
     if \<not> (distinct (map dl_name (hd_declarations (pg_parameter_header p))) \<and>
           list_all (\<lambda>d. \<not> reserved_name (dl_name d)) (hd_declarations (pg_parameter_header p)))
     then \<not> rr_ok result \<and> p' = p \<and>
          rd_parameter_reason (rr_diagnostic result) \<in>
            {Some PR_duplicate_parameter_name, Some PR_reserved_parameter_name}
     else if unknown_spans p \<noteq> []
     then \<not> rr_ok result \<and> p' = p \<and> rd_error (rr_diagnostic result) = PE_unknown_primitive \<and>
          rd_parameter_reason (rr_diagnostic result) = None \<and>
          rd_primary (rr_diagnostic result) \<in> set (unknown_spans p) \<and>
          begin_offset (rd_primary (rr_diagnostic result)) =
            Min (begin_offset ` set (unknown_spans p))
     else rr_ok result \<and> rd_error (rr_diagnostic result) = PE_none \<and> p' = with_primitives p"
proof -
  let ?h = "pg_parameter_header p"
  show ?thesis
  proof (cases "find_some (declaration_error ?h) [0..<length (hd_declarations ?h)]")
    case (Some d)
    then have "\<not> (distinct (map dl_name (hd_declarations ?h)) \<and>
        list_all (\<lambda>d. \<not> reserved_name (dl_name d)) (hd_declarations ?h))"
      using declaration_errors [of ?h] by auto
    then show ?thesis
      using Some declaration_error_reason [OF Some] by (simp add: resolve_rewrite_primitives_def)
  next
    case None
    then have fine: "distinct (map dl_name (hd_declarations ?h)) \<and>
        list_all (\<lambda>d. \<not> reserved_name (dl_name d)) (hd_declarations ?h)"
      using declaration_errors [of ?h] by simp
    obtain ids d where calls: "resolve_calls p (pg_calls p) [] None = (ids, d)"
      by (cases "resolve_calls p (pg_calls p) [] None")
    have spec: "first_of (unknown_calls p (pg_calls p)) d"
      "unknown_calls p (pg_calls p) = [] \<Longrightarrow>
         map Some ids = map (\<lambda>c. map_option pd_id (find_primitive_by_name (call_name p c))) (pg_calls p)"
      using resolve_calls_spec [of "[]" None p "pg_calls p" "[]"] calls by (simp_all add: first_of_def)
    have unknown: "first_of (unknown_spans p) (unresolved_nodes (pg_nodes p) d)"
      unfolding unknown_spans_def by (rule unresolved_nodes_spec [OF spec(1)])
    show ?thesis
    proof (cases "unresolved_nodes (pg_nodes p) d")
      case (Some e)
      have "begin_offset (rd_primary e) = Min (begin_offset ` set (unknown_spans p))"
        using unknown Some by (intro Min_eqI [symmetric]) (auto simp: first_of_def)
      then show ?thesis
        using fine None calls Some unknown by (auto simp: resolve_rewrite_primitives_def first_of_def)
    next
      case none: None
      then have empty_spans: "unknown_spans p = []" using unknown by (simp add: first_of_def)
      then have all: "map Some ids = map (\<lambda>c. map_option pd_id (find_primitive_by_name (call_name p c))) (pg_calls p)"
        using spec(2) by (simp add: unknown_spans_def)
      have len: "length ids = length (pg_calls p)" using arg_cong [OF all, of length] by simp
      have "map (\<lambda>i. (pg_calls p ! i)\<lparr>rc_primitive := Some (ids ! i)\<rparr>) [0..<length (pg_calls p)] =
          map (\<lambda>c. c\<lparr>rc_primitive := map_option pd_id (find_primitive_by_name (call_name p c))\<rparr>) (pg_calls p)"
      proof (rule nth_equalityI)
        fix i assume "i < length (map (\<lambda>i. (pg_calls p ! i)\<lparr>rc_primitive := Some (ids ! i)\<rparr>) [0..<length (pg_calls p)])"
        then have i: "i < length (pg_calls p)" by simp
        have "Some (ids ! i) = map_option pd_id (find_primitive_by_name (call_name p (pg_calls p ! i)))"
          using arg_cong [OF all, of "\<lambda>xs. xs ! i"] i len by simp
        then show "map (\<lambda>i. (pg_calls p ! i)\<lparr>rc_primitive := Some (ids ! i)\<rparr>) [0..<length (pg_calls p)] ! i =
            map (\<lambda>c. c\<lparr>rc_primitive := map_option pd_id (find_primitive_by_name (call_name p c))\<rparr>) (pg_calls p) ! i"
          using i by simp
      qed simp
      then have "snd (resolve_rewrite_primitives p) = with_primitives p"
        "rr_ok (fst (resolve_rewrite_primitives p))"
        "rd_error (rr_diagnostic (fst (resolve_rewrite_primitives p))) = PE_none"
        using None calls none
        by (simp_all add: resolve_rewrite_primitives_def Let_def with_primitives_def)
      then show ?thesis using fine by (simp add: empty_spans case_prod_beta)
    qed
  qed
qed

lemma resolved_program:
  "snd (resolve_rewrite_primitives p) = p \<or> snd (resolve_rewrite_primitives p) = with_primitives p"
  using resolve_spec [of p] by (auto simp: case_prod_beta split: if_splits)


section \<open>Resolution and the invariants of a program\<close>

lemma check_calls_map:
  assumes "\<And>c. rc_first_argument (f c) = rc_first_argument c \<and> rc_argument_count (f c) = rc_argument_count c \<and>
      rc_name_span (f c) = rc_name_span c \<and> rc_span (f c) = rc_span c"
    "pg_arguments q = pg_arguments p" "pg_source q = pg_source p"
  shows "check_calls q s (map f cs) = check_calls p s cs"
  using assms by (induction cs arbitrary: s) (simp_all add: span_is_ordered_def)

lemma check_nodes_map:
  assumes "pg_calls q = map f (pg_calls p)"
    "\<And>c. rc_first_argument (f c) = rc_first_argument c \<and> rc_argument_count (f c) = rc_argument_count c \<and>
      rc_span (f c) = rc_span c"
    "pg_source q = pg_source p" "pg_nodes q = pg_nodes p" "pg_arguments q = pg_arguments p"
    "pg_argument_spans q = pg_argument_spans p"
    "pg_vector_element_spans q = pg_vector_element_spans p"
    "\<And>t. vector_payload_size q t = vector_payload_size p t"
  shows "check_nodes q i seen nds = check_nodes p i seen nds"
proof (induction nds arbitrary: i seen)
  case (Cons nd nds)
  have span: "span_is_ordered q = span_is_ordered p" by (simp add: span_is_ordered_def fun_eq_iff assms(3))
  have argument: "check_argument q = check_argument p" by (simp add: check_argument_def fun_eq_iff assms)
  show ?case
  proof (cases "rn_call_index nd < length (pg_calls p)")
    case True
    then have call: "rc_first_argument (pg_calls q ! rn_call_index nd) = rc_first_argument (pg_calls p ! rn_call_index nd)"
      "rc_argument_count (pg_calls q ! rn_call_index nd) = rc_argument_count (pg_calls p ! rn_call_index nd)"
      "rc_span (pg_calls q ! rn_call_index nd) = rc_span (pg_calls p ! rn_call_index nd)"
      using assms(2) by (simp_all add: assms(1))
    show ?thesis
      unfolding check_nodes.simps Cons.IH span argument assms(1,7,8) length_map Let_def
      unfolding assms(1) [symmetric] call ..
  next
    case False
    then have "\<not> rn_call_index nd < length (pg_calls q)" by (simp add: assms(1))
    then show ?thesis
      using False Cons.IH span assms(7,8) by auto
  qed
qed simp

lemma check_roots_same:
  "pg_nodes q = pg_nodes p \<Longrightarrow> check_roots q b seen rs = check_roots p b seen rs"
  by (induction rs arbitrary: b seen) simp_all

lemma with_primitives_invariants:
  "rewrite_program_invariants_hold (with_primitives p) = rewrite_program_invariants_hold p"
proof -
  let ?f = "\<lambda>c. c\<lparr>rc_primitive := map_option pd_id (find_primitive_by_name (call_name p c))\<rparr>"
  have calls: "check_calls (with_primitives p) 0 (map ?f (pg_calls p)) = check_calls p 0 (pg_calls p)"
    by (rule check_calls_map) (simp_all add: with_primitives_def)
  have nodes: "check_nodes (with_primitives p) i seen nds = check_nodes p i seen nds" for i seen nds
    by (rule check_nodes_map [where f = ?f]) (simp_all add: with_primitives_def vector_payload_size_def)
  have roots: "check_roots (with_primitives p) b seen rs = check_roots p b seen rs" for b seen rs
    by (rule check_roots_same) (simp add: with_primitives_def)
  have same: "pg_calls (with_primitives p) = map ?f (pg_calls p)"
    "pg_nodes (with_primitives p) = pg_nodes p" "pg_roots (with_primitives p) = pg_roots p"
    "pg_arguments (with_primitives p) = pg_arguments p"
    "pg_argument_spans (with_primitives p) = pg_argument_spans p"
    by (simp_all add: with_primitives_def)
  show ?thesis
    unfolding rewrite_program_invariants_hold_def nodes roots same calls length_map ..
qed

text \<open>Resolution keeps the invariants of a program, whether it succeeds or not.\<close>

theorem resolve_keeps_invariants:
  "rewrite_program_invariants_hold (snd (resolve_rewrite_primitives p)) =
     rewrite_program_invariants_hold p"
proof -
  have "snd (resolve_rewrite_primitives p) = p \<or> snd (resolve_rewrite_primitives p) = with_primitives p"
    by (rule resolved_program)
  then show ?thesis using with_primitives_invariants by metis
qed

end
