(* ===== verification/Lowering.thy ===== *)
theory Lowering
  imports Resolver TypeOpsCorrect
begin

text \<open>
  Typed lowering (src/rewrite.cpp, \<open>lower_rewrite_program\<close>): every node of a resolved program
  gets a structural type, a cardinality and, for a call, the implementation its arguments
  select. Arity failures come first, then type failures, then lengths that are known to differ.

  Types are arenas with storage of their own, so the host state is threaded through. The value
  \<open>None\<close> stands for an access outside a table; arguments are read before they are inspected,
  after the code has read an entry of the same table for each of them.
\<close>

section \<open>Data\<close>

datatype rewrite_evaluation_stage =
    ES_none | ES_parse | ES_resolution | ES_primitive_table | ES_resource_admission | ES_literal
  | ES_application | ES_formatting

record rewrite_evaluation_diagnostic =
  ed_stage :: rewrite_evaluation_stage
  ed_rewrite :: rewrite_diagnostic
  ed_error :: error
  ed_primary :: rewrite_span
  ed_context :: rewrite_span
  ed_related :: rewrite_span
  ed_primitive_name :: rewrite_span
  ed_call :: rewrite_span
  ed_arguments :: "rewrite_span list"
  ed_has_operand :: bool
  ed_operand :: rewrite_span
  ed_formatting_root_position :: nat
  ed_formatting_invariant :: value_invariant
  ed_formatting_error :: value_format_error

datatype rewrite_cardinality = RC_scalar | RC_static_vector | RC_dynamic_vector | RC_tuple

datatype rewrite_lowering_operation =
    LO_source_node | LO_prepared_value | LO_immutable_borrow | LO_immutable_borrow_failure

record rewrite_lowering_node =
  ln_kind :: rewrite_node_kind
  ln_operation :: rewrite_lowering_operation
  ln_cardinality :: rewrite_cardinality
  ln_element_type :: scalar_type
  ln_element_count :: nat
  ln_primitive_id :: "primitive_id option"
  ln_implementation :: primitive_implementation
  ln_runtime_shape_check :: bool
  ln_first_argument :: nat
  ln_argument_count :: nat
  ln_spreads_tuple :: bool
  ln_spread_operand :: nat
  ln_use_count :: nat
  ln_retained_root :: bool
  ln_first_element :: nat
  ln_parameter_index :: nat
  ln_boolean :: bool
  ln_integer :: i64
  ln_double :: binary64
  ln_primary_span :: rewrite_span
  ln_source_span :: rewrite_span
  ln_source_location :: source_location
  ln_admission_point :: string
  ln_declaration_name_span :: rewrite_span
  ln_structural_type :: type_arena

record rewrite_lowering_program =
  lp_nodes :: "rewrite_lowering_node list"
  lp_arguments :: "nat list"
  lp_roots :: "nat list"
  lp_boolean_elements :: "bool list"
  lp_integer_elements :: "i64 list"
  lp_double_elements :: "binary64 list"
  lp_tuple_elements :: "nat list"
  lp_tuple_element_spans :: "rewrite_span list"
  lp_fanout_operands :: "nat list"
  lp_fanout_branch_roots :: "nat list"
  lp_fanout_branch_spans :: "rewrite_span list"

record rewrite_lowering_result =
  lr_ok :: bool
  lr_program :: rewrite_lowering_program
  lr_diagnostic :: rewrite_evaluation_diagnostic

definition empty_lowering :: rewrite_lowering_program where
  "empty_lowering =
     \<lparr>lp_nodes = [], lp_arguments = [], lp_roots = [], lp_boolean_elements = [],
      lp_integer_elements = [], lp_double_elements = [], lp_tuple_elements = [],
      lp_tuple_element_spans = [], lp_fanout_operands = [], lp_fanout_branch_roots = [],
      lp_fanout_branch_spans = []\<rparr>"

section \<open>Diagnostics\<close>

definition rewrite_source_location :: "rewrite_position \<Rightarrow> source_location" where
  "rewrite_source_location position =
     \<lparr>sl_offset = rp_offset position, sl_line = rp_line position, sl_column = rp_column position\<rparr>"

definition first_position :: rewrite_position where
  "first_position = \<lparr>rp_offset = 1, rp_line = 1, rp_column = 1\<rparr>"

definition empty_rewrite_evaluation_diagnostic :: rewrite_evaluation_diagnostic where
  "empty_rewrite_evaluation_diagnostic =
     (let empty = insertion_span first_position in
      \<lparr>ed_stage = ES_none,
       ed_rewrite = \<lparr>rd_error = PE_none, rd_primary = empty, rd_context = empty,
                     rd_related = empty, rd_parameter_reason = None\<rparr>,
       ed_error = make_error EK_none (rewrite_source_location (rs_begin empty)),
       ed_primary = empty, ed_context = empty, ed_related = empty, ed_primitive_name = empty,
       ed_call = empty, ed_arguments = [], ed_has_operand = False, ed_operand = empty,
       ed_formatting_root_position = 0, ed_formatting_invariant = VI_none,
       ed_formatting_error = VF_none\<rparr>)"

definition lowering_container :: "rewrite_lowering_node \<Rightarrow> container_kind" where
  "lowering_container node =
     (if ln_cardinality node = RC_scalar then CK_scalar
      else if ln_cardinality node = RC_tuple then CK_tuple
      else CK_vector)"

definition lowering_primitive_error ::
    "host_state \<Rightarrow> error_kind \<Rightarrow> primitive_descriptor \<Rightarrow> source_location \<Rightarrow> error \<times> host_state"
where
  "lowering_primitive_error h kind descriptor location =
     (case make_primitive_error_context h (pd_name descriptor) (Some (pd_id descriptor)) of
        (context, h) \<Rightarrow> ((make_error kind location)\<lparr>er_primitive := context\<rparr>, h))"

definition accepted_arities :: "primitive_descriptor \<Rightarrow> nat list" where
  "accepted_arities descriptor =
     fold (\<lambda>signature accepted.
             let arity = length (ps_parameters signature) in
             if arity \<in> set accepted then accepted else accepted @ [arity])
          (pd_signatures descriptor) []"

definition lowering_arity_error ::
    "host_state \<Rightarrow> primitive_descriptor \<Rightarrow> nat \<Rightarrow> source_location \<Rightarrow> error \<times> host_state" where
  "lowering_arity_error h descriptor supplied location =
     (case lowering_primitive_error h EK_arity_error descriptor location of
        (error, h) \<Rightarrow>
          (error\<lparr>er_arity := Some \<lparr>ax_supplied = supplied,
                                   ax_accepted = accepted_arities descriptor\<rparr>\<rparr>, h))"

section \<open>The arguments of a call\<close>

text \<open>A prefix call of a tuple spreads it: the elements of the tuple are the arguments.\<close>

definition is_tuple_node :: "rewrite_node \<Rightarrow> bool" where
  "is_tuple_node node \<longleftrightarrow> rn_kind node = NK_tuple_literal \<or> rn_kind node = NK_fanout"

definition prefix_tuple_operand :: "rewrite_program \<Rightarrow> rewrite_call \<Rightarrow> nat option" where
  "prefix_tuple_operand program call =
     (if rc_syntax call \<noteq> CS_prefix \<or> rc_argument_count call \<noteq> 1
         \<or> rc_first_argument call \<ge> length (pg_arguments program)
      then None
      else
        let operand = pg_arguments program ! rc_first_argument call in
        if operand \<ge> length (pg_nodes program) then None
        else
          let node = pg_nodes program ! operand in
          if \<not> is_tuple_node node
             \<and> \<not> (rn_kind node = NK_placeholder
                  \<and> rn_first_element node < length (pg_nodes program)
                  \<and> is_tuple_node (pg_nodes program ! rn_first_element node))
          then None else Some operand)"

partial_function (option) structural_tuple_count :: "rewrite_program \<Rightarrow> nat \<Rightarrow> nat option" where
  "structural_tuple_count program tuple_node =
     do { node \<leftarrow> at (pg_nodes program) tuple_node;
          if rn_kind node = NK_placeholder
          then structural_tuple_count program (rn_first_element node)
          else Some (rn_element_count node) }"

partial_function (option) structural_tuple_element ::
    "rewrite_program \<Rightarrow> nat \<Rightarrow> nat \<Rightarrow> nat option" where
  "structural_tuple_element program tuple_node position =
     do { node \<leftarrow> at (pg_nodes program) tuple_node;
          if rn_kind node = NK_placeholder
          then structural_tuple_element program (rn_first_element node) position
          else if rn_kind node = NK_fanout
          then do { fanout \<leftarrow> at (pg_fanouts program) (rn_call_index node);
                    branch \<leftarrow> at (pg_fanout_branches program) (rf_first_branch fanout + position);
                    Some (rb_root branch) }
          else at (pg_tuple_elements program) (rn_first_element node + position) }"

partial_function (option) structural_tuple_element_span ::
    "rewrite_program \<Rightarrow> nat \<Rightarrow> nat \<Rightarrow> rewrite_span option" where
  "structural_tuple_element_span program tuple_node position =
     do { node \<leftarrow> at (pg_nodes program) tuple_node;
          if rn_kind node = NK_placeholder
          then structural_tuple_element_span program (rn_first_element node) position
          else if rn_kind node = NK_fanout
          then do { fanout \<leftarrow> at (pg_fanouts program) (rn_call_index node);
                    branch \<leftarrow> at (pg_fanout_branches program) (rf_first_branch fanout + position);
                    Some (rb_span branch) }
          else at (pg_tuple_element_spans program) (rn_first_element_span node + position) }"

declare structural_tuple_count.simps [code]
declare structural_tuple_element.simps [code]
declare structural_tuple_element_span.simps [code]

definition semantic_argument_count :: "rewrite_program \<Rightarrow> rewrite_call \<Rightarrow> nat option" where
  "semantic_argument_count program call =
     (case prefix_tuple_operand program call of
        Some operand \<Rightarrow> structural_tuple_count program operand
      | None \<Rightarrow> Some (rc_argument_count call))"

definition semantic_argument_node :: "rewrite_program \<Rightarrow> rewrite_call \<Rightarrow> nat \<Rightarrow> nat option" where
  "semantic_argument_node program call position =
     (case prefix_tuple_operand program call of
        None \<Rightarrow> at (pg_arguments program) (rc_first_argument call + position)
      | Some operand \<Rightarrow> structural_tuple_element program operand position)"

definition semantic_argument_span ::
    "rewrite_program \<Rightarrow> rewrite_call \<Rightarrow> nat \<Rightarrow> rewrite_span option" where
  "semantic_argument_span program call position =
     (case prefix_tuple_operand program call of
        None \<Rightarrow> at (pg_argument_spans program) (rc_first_argument call + position)
      | Some operand \<Rightarrow> structural_tuple_element_span program operand position)"

text \<open>The nodes of all arguments, and their lowered nodes.\<close>

definition argument_nodes :: "rewrite_program \<Rightarrow> rewrite_call \<Rightarrow> nat \<Rightarrow> nat list option" where
  "argument_nodes program call count =
     those (map (semantic_argument_node program call) [0..<count])"

definition read_nodes :: "'a list \<Rightarrow> nat list \<Rightarrow> 'a list option" where
  "read_nodes table indexes = those (map (at table) indexes)"

section \<open>Type errors\<close>

definition lowering_type_accepts ::
    "primitive_descriptor \<Rightarrow> primitive_signature \<Rightarrow> nat \<Rightarrow> rewrite_lowering_node \<Rightarrow> bool" where
  "lowering_type_accepts descriptor signature argument_index argument =
     (if ln_cardinality argument = RC_tuple then False
      else
        let parameter = ps_parameters signature ! argument_index in
        if pd_lifting descriptor = LM_none
        then vt_container parameter = lowering_container argument
             \<and> vt_element parameter = ln_element_type argument
        else ln_element_type argument = vt_element parameter
             \<or> (ln_element_type argument = ST_integer
                \<and> vt_element parameter = ST_double_precision))"

definition structural_value_type :: "value_type \<Rightarrow> type_arena" where
  "structural_value_type v =
     (if vt_container v = CK_scalar then make_scalar_type (vt_element v)
      else make_vector_type (vt_element v))"

definition accepted_signature :: "primitive_signature \<Rightarrow> type_error_signature_context" where
  "accepted_signature signature =
     \<lparr>tsx_parameters = map structural_value_type (ps_parameters signature),
      tsx_result = structural_value_type (ps_result signature)\<rparr>"

text \<open>The types of the arguments; one whose copy cannot be allocated is left out.\<close>

fun actual_types :: "host_state \<Rightarrow> rewrite_lowering_node list \<Rightarrow> (type_arena list \<times> host_state) option"
where
  "actual_types h [] = Some ([], h)"
| "actual_types h (argument # arguments) =
     (case clone_type h (ln_structural_type argument) of
        (None, _) \<Rightarrow> None
      | (Some actual, h) \<Rightarrow>
          do { (types, h) \<leftarrow> actual_types h arguments;
               Some ((if tc_ok actual then [tc_type actual] else []) @ types, h) })"

text \<open>The position of the first argument that no remaining candidate accepts.\<close>

fun rejected_position ::
    "primitive_descriptor \<Rightarrow> primitive_signature list \<Rightarrow> nat \<Rightarrow> rewrite_lowering_node list
     \<Rightarrow> nat option" where
  "rejected_position descriptor candidates argument_index [] = None"
| "rejected_position descriptor candidates argument_index (argument # arguments) =
     (if candidates = [] then None
      else
        let remaining = filter (\<lambda>candidate.
              lowering_type_accepts descriptor candidate argument_index argument) candidates in
        if remaining = [] then Some (argument_index + 1)
        else rejected_position descriptor remaining (argument_index + 1) arguments)"

definition lowering_type_error ::
    "host_state \<Rightarrow> rewrite_call \<Rightarrow> primitive_descriptor \<Rightarrow> rewrite_lowering_node list
     \<Rightarrow> (error \<times> host_state) option" where
  "lowering_type_error h call descriptor arguments =
     (case lowering_primitive_error h EK_type_mismatch descriptor
             (rewrite_source_location (rs_begin (rc_name_span call))) of
        (error, h) \<Rightarrow>
          do { (types, h) \<leftarrow> actual_types h arguments;
               let candidates = filter (\<lambda>s. length (ps_parameters s) = length arguments)
                                  (pd_signatures descriptor) in
               Some (error\<lparr>er_argument_position := rejected_position descriptor candidates 0 arguments,
                           er_type := Some
                             \<lparr>tx_actual_arguments = types,
                              tx_accepted_signatures = map accepted_signature candidates\<rparr>\<rparr>, h) })"

section \<open>Diagnostics of a call\<close>

definition blamed_argument :: "error \<Rightarrow> rewrite_span list \<Rightarrow> rewrite_span option" where
  "blamed_argument error arguments =
     (if er_kind error = EK_type_mismatch \<or> er_kind error = EK_shape_mismatch
      then
        (case er_argument_position error of
           None \<Rightarrow> None
         | Some position \<Rightarrow>
             if position \<ge> 1 \<and> position \<le> length arguments
             then Some (arguments ! (position - 1)) else None)
      else None)"

definition lowering_diagnostic ::
    "rewrite_program \<Rightarrow> rewrite_call \<Rightarrow> error \<Rightarrow> rewrite_evaluation_diagnostic option" where
  "lowering_diagnostic program call error =
     do { count \<leftarrow> semantic_argument_count program call;
          arguments \<leftarrow> those (map (semantic_argument_span program call) [0..<count]);
          (has_operand, operand, related) \<leftarrow>
            (case prefix_tuple_operand program call of
               None \<Rightarrow> Some (False, insertion_span first_position, rc_name_span call)
             | Some _ \<Rightarrow>
                 do { span \<leftarrow> at (pg_argument_spans program) (rc_first_argument call);
                      Some (True, span, span) });
          let primary = (case blamed_argument error arguments of
                           Some span \<Rightarrow> span | None \<Rightarrow> rc_name_span call) in
          Some (empty_rewrite_evaluation_diagnostic
            \<lparr>ed_stage := ES_application, ed_primitive_name := rc_name_span call,
             ed_call := rc_span call, ed_context := rc_span call, ed_related := related,
             ed_arguments := arguments, ed_has_operand := has_operand, ed_operand := operand,
             ed_primary := primary,
             ed_error := error\<lparr>er_location := rewrite_source_location (rs_begin primary)\<rparr>\<rparr>) }"

text \<open>The failure of an allocation while a type is copied or built.\<close>

definition admission_diagnostic :: "rewrite_node \<Rightarrow> error \<Rightarrow> rewrite_evaluation_diagnostic" where
  "admission_diagnostic node error =
     empty_rewrite_evaluation_diagnostic
       \<lparr>ed_stage := ES_resource_admission, ed_primary := rn_span node, ed_context := rn_span node,
        ed_error := error\<rparr>"

definition typed_lowering_failure ::
    "rewrite_node \<Rightarrow> host_resource_error_reason \<Rightarrow> rewrite_evaluation_diagnostic" where
  "typed_lowering_failure node reason =
     admission_diagnostic node
       ((make_error EK_resource_error (rewrite_source_location (rs_begin (rn_span node))))
          \<lparr>er_resource := Some
             \<lparr>rx_reason = (if reason = HR_size_overflow then RE_size_overflow
                           else RE_allocation_unavailable),
              rx_requested_elements = Some (rn_element_count node), rx_requested_bytes = None,
              rx_profile = ''typed-lowering'', rx_limit_kind = None, rx_configured_limit = None,
              rx_usage_before = None, rx_refused_charge = None, rx_allocation_ordinal = None\<rparr>\<rparr>)"

section \<open>The initial nodes\<close>

definition base_lowering_node :: "rewrite_node \<Rightarrow> rewrite_lowering_node" where
  "base_lowering_node node =
     (let vector = (rn_kind node = NK_vector_literal); tuple = is_tuple_node node in
      \<lparr>ln_kind = rn_kind node, ln_operation = LO_source_node,
       ln_cardinality = (if tuple then RC_tuple else if vector then RC_static_vector else RC_scalar),
       ln_element_type = rn_element_type node,
       ln_element_count = (if vector \<or> tuple then rn_element_count node else 1),
       ln_primitive_id = None, ln_implementation = IM_none, ln_runtime_shape_check = False,
       ln_first_argument = 0, ln_argument_count = 0, ln_spreads_tuple = False,
       ln_spread_operand = 0, ln_use_count = 0, ln_retained_root = False,
       ln_first_element = rn_first_element node,
       ln_parameter_index =
         (if rn_kind node = NK_parameter_reference then rn_first_element node
          else if rn_kind node = NK_fanout then rn_call_index node else 0),
       ln_boolean = rn_boolean node, ln_integer = rn_integer node, ln_double = rn_double node,
       ln_primary_span = rn_span node, ln_source_span = rn_span node,
       ln_source_location = rewrite_source_location (rs_begin (rn_span node)),
       ln_admission_point = (if vector then ''vector-literal'' else []),
       ln_declaration_name_span = rn_declaration_name_span node,
       ln_structural_type =
         (if vector then make_vector_type (rn_element_type node)
          else make_scalar_type (rn_element_type node))\<rparr>)"

definition initial_lowering_node ::
    "rewrite_program \<Rightarrow> rewrite_node \<Rightarrow> rewrite_lowering_node option" where
  "initial_lowering_node program node =
     (if rn_kind node = NK_fanout
      then do { fanout \<leftarrow> at (pg_fanouts program) (rn_call_index node);
                Some ((base_lowering_node node)\<lparr>ln_primary_span := rf_keyword_span fanout,
                                                ln_admission_point := ''fanout''\<rparr>) }
      else Some (base_lowering_node node))"

text \<open>\<open>++lowering.nodes[index].use_count\<close> for every index of a list.\<close>

fun count_uses :: "nat list \<Rightarrow> rewrite_lowering_node list \<Rightarrow> rewrite_lowering_node list option" where
  "count_uses [] nodes = Some nodes"
| "count_uses (index # indexes) nodes =
     do { node \<leftarrow> at nodes index;
          count_uses indexes (nodes[index := node\<lparr>ln_use_count := ln_use_count node + 1\<rparr>]) }"

fun fanout_uses ::
    "rewrite_program \<Rightarrow> rewrite_fanout list \<Rightarrow> rewrite_lowering_node list
     \<Rightarrow> rewrite_lowering_node list option" where
  "fanout_uses program [] nodes = Some nodes"
| "fanout_uses program (fanout # fanouts) nodes =
     do { branches \<leftarrow> read_nodes (pg_fanout_branches program)
                        [rf_first_branch fanout ..< rf_first_branch fanout + rf_branch_count fanout];
          nodes \<leftarrow> count_uses (rf_operand fanout # map rb_root branches) nodes;
          fanout_uses program fanouts nodes }"

definition retain_root :: "nat \<Rightarrow> rewrite_lowering_node list \<Rightarrow> rewrite_lowering_node list option" where
  "retain_root root nodes =
     do { node \<leftarrow> at nodes root;
          Some (nodes[root := node\<lparr>ln_use_count := ln_use_count node + 1,
                                   ln_retained_root := True\<rparr>]) }"

fun retain_roots :: "nat list \<Rightarrow> rewrite_lowering_node list \<Rightarrow> rewrite_lowering_node list option" where
  "retain_roots [] nodes = Some nodes"
| "retain_roots (root # roots) nodes =
     do { nodes \<leftarrow> retain_root root nodes; retain_roots roots nodes }"

definition initial_lowering_nodes :: "rewrite_program \<Rightarrow> rewrite_lowering_node list option" where
  "initial_lowering_nodes program =
     do { nodes \<leftarrow> those (map (initial_lowering_node program) (pg_nodes program));
          nodes \<leftarrow> count_uses (pg_arguments program) nodes;
          nodes \<leftarrow> count_uses (pg_tuple_elements program) nodes;
          nodes \<leftarrow> fanout_uses program (pg_fanouts program) nodes;
          retain_roots (pg_roots program) nodes }"

section \<open>The roots\<close>

definition invalid_table_diagnostic :: "string \<Rightarrow> rewrite_evaluation_diagnostic" where
  "invalid_table_diagnostic message =
     empty_rewrite_evaluation_diagnostic
       \<lparr>ed_stage := ES_primitive_table,
        ed_error := make_error_message EK_invalid_primitive_table
                      (rewrite_source_location first_position) message\<rparr>"

definition root_diagnostic :: "rewrite_program \<Rightarrow> nat \<Rightarrow> rewrite_evaluation_diagnostic option" where
  "root_diagnostic program root_index =
     (let root = pg_roots program ! root_index;
          duplicate = list_ex (\<lambda>previous. pg_roots program ! previous = root) [0..<root_index]
      in if root \<ge> length (pg_nodes program) \<or> duplicate
         then Some (invalid_table_diagnostic
                (if duplicate then ''typed rewrite lowering contains a repeated root''
                 else ''typed rewrite lowering contains an invalid root''))
         else None)"

section \<open>Arities\<close>

definition arity_exists :: "primitive_descriptor \<Rightarrow> nat \<Rightarrow> bool" where
  "arity_exists descriptor argument_count =
     list_ex (\<lambda>signature. length (ps_parameters signature) = argument_count)
       (pd_signatures descriptor)"

definition call_location :: "rewrite_call \<Rightarrow> source_location" where
  "call_location call = rewrite_source_location (rs_begin (rc_name_span call))"

type_synonym arity_failure = "(nat \<times> rewrite_evaluation_diagnostic) option"

definition arity_diagnostic ::
    "host_state \<Rightarrow> rewrite_program \<Rightarrow> rewrite_call \<Rightarrow> primitive_descriptor \<Rightarrow> nat
     \<Rightarrow> (rewrite_evaluation_diagnostic \<times> host_state) option" where
  "arity_diagnostic h program call descriptor argument_count =
     (case lowering_arity_error h descriptor argument_count (call_location call) of
        (error, h) \<Rightarrow>
          do { diagnostic \<leftarrow> lowering_diagnostic program call error; Some (diagnostic, h) })"

definition call_descriptor :: "rewrite_call \<Rightarrow> primitive_descriptor option" where
  "call_descriptor call = Option.bind (rc_primitive call) find_primitive_by_id"

text \<open>The first call whose own arguments fit no signature; a call of no primitive ends the
  lowering.\<close>

fun arity_phase ::
    "rewrite_program \<Rightarrow> nat list \<Rightarrow> arity_failure \<Rightarrow> host_state
     \<Rightarrow> ((rewrite_evaluation_diagnostic + arity_failure) \<times> host_state) option" where
  "arity_phase program [] failure h = Some (Inr failure, h)"
| "arity_phase program (node_index # indexes) failure h =
     do { node \<leftarrow> at (pg_nodes program) node_index;
          if rn_kind node \<noteq> NK_primitive_call then arity_phase program indexes failure h
          else
            do { call \<leftarrow> at (pg_calls program) (rn_call_index node);
                 case call_descriptor call of
                   None \<Rightarrow>
                     do { diagnostic \<leftarrow> lowering_diagnostic program call
                            (make_error EK_invalid_primitive_table (call_location call));
                          Some (Inl diagnostic, h) }
                 | Some descriptor \<Rightarrow>
                     if prefix_tuple_operand program call \<noteq> None
                     then arity_phase program indexes failure h
                     else
                       do { argument_count \<leftarrow> semantic_argument_count program call;
                            if arity_exists descriptor argument_count \<or> failure \<noteq> None
                            then arity_phase program indexes failure h
                            else
                              do { (diagnostic, h) \<leftarrow>
                                     arity_diagnostic h program call descriptor argument_count;
                                   arity_phase program indexes (Some (node_index, diagnostic)) h } } } }"

section \<open>Types\<close>

record lowering_state =
  ls_nodes :: "rewrite_lowering_node list"
  ls_available :: "bool list"
  ls_arity_failure :: arity_failure
  ls_type_failure :: "rewrite_evaluation_diagnostic option"
  ls_host :: host_state

type_synonym lowering_step =
  "(rewrite_evaluation_diagnostic \<times> host_state + lowering_state) option"

definition set_node :: "nat \<Rightarrow> rewrite_lowering_node \<Rightarrow> lowering_state \<Rightarrow> lowering_state" where
  "set_node node_index node st =
     st\<lparr>ls_nodes := (ls_nodes st)[node_index := node],
        ls_available := (ls_available st)[node_index := True]\<rparr>"

definition placeholder_type ::
    "nat \<Rightarrow> rewrite_node \<Rightarrow> lowering_state \<Rightarrow> lowering_step" where
  "placeholder_type node_index node st =
     (if rn_first_element node \<ge> node_index then Some (Inr st)
      else
        do { available \<leftarrow> at (ls_available st) (rn_first_element node);
             if \<not> available then Some (Inr st)
             else
               do { operand \<leftarrow> at (ls_nodes st) (rn_first_element node);
                    (case clone_type (ls_host st) (ln_structural_type operand) of
                       (None, _) \<Rightarrow> None
                     | (Some cloned, h) \<Rightarrow>
                         if \<not> tc_ok cloned
                         then Some (Inl (admission_diagnostic node
                                (make_error_message EK_resource_error
                                   (rewrite_source_location (rs_begin (rn_span node)))
                                   ''fanout placeholder type clone failed''), h))
                         else
                           do { placeholder \<leftarrow> at (ls_nodes st) node_index;
                                Some (Inr (set_node node_index
                                  (placeholder\<lparr>ln_cardinality := ln_cardinality operand,
                                               ln_element_type := ln_element_type operand,
                                               ln_element_count := ln_element_count operand,
                                               ln_structural_type := tc_type cloned\<rparr>)
                                  (st\<lparr>ls_host := h\<rparr>))) }) } })"

text \<open>The element of a tuple literal, or the root of a branch of a fanout.\<close>

definition tuple_child :: "rewrite_program \<Rightarrow> rewrite_node \<Rightarrow> nat \<Rightarrow> nat option" where
  "tuple_child program node element_index =
     (if rn_kind node = NK_fanout
      then do { fanout \<leftarrow> at (pg_fanouts program) (rn_call_index node);
                branch \<leftarrow> at (pg_fanout_branches program) (rf_first_branch fanout + element_index);
                Some (rb_root branch) }
      else at (pg_tuple_elements program) (rn_first_element node + element_index))"

fun all_available :: "bool list \<Rightarrow> (nat \<Rightarrow> nat option) \<Rightarrow> nat list \<Rightarrow> bool option" where
  "all_available available child [] = Some True"
| "all_available available child (position # positions) =
     do { index \<leftarrow> child position;
          is_available \<leftarrow> at available index;
          if \<not> is_available then Some False else all_available available child positions }"

fun clone_types ::
    "host_state \<Rightarrow> type_arena list
     \<Rightarrow> ((host_resource_error_reason + type_arena list) \<times> host_state) option" where
  "clone_types h [] = Some (Inr [], h)"
| "clone_types h (ty # types) =
     (case clone_type h ty of
        (None, _) \<Rightarrow> None
      | (Some cloned, h) \<Rightarrow>
          if \<not> tc_ok cloned then Some (Inl (tc_resource_error cloned), h)
          else
            do { (r, h) \<leftarrow> clone_types h types;
                 Some (map_sum id (\<lambda>clones. tc_type cloned # clones) r, h) })"

definition tuple_type ::
    "rewrite_program \<Rightarrow> nat \<Rightarrow> rewrite_node \<Rightarrow> lowering_state \<Rightarrow> lowering_step" where
  "tuple_type program node_index node st =
     do { available \<leftarrow> all_available (ls_available st) (tuple_child program node)
                         [0..<rn_element_count node];
          if \<not> available then Some (Inr st)
          else
            do { children \<leftarrow> those (map (tuple_child program node) [0..<rn_element_count node]);
                 elements \<leftarrow> read_nodes (ls_nodes st) children;
                 (cloned, h) \<leftarrow> clone_types (ls_host st) (map ln_structural_type elements);
                 (case cloned of
                    Inl reason \<Rightarrow> Some (Inl (typed_lowering_failure node reason, h))
                  | Inr element_types \<Rightarrow>
                      (case make_tuple_type h element_types of
                         (None, _) \<Rightarrow> None
                       | (Some constructed, h) \<Rightarrow>
                           if \<not> tc_ok constructed
                           then Some (Inl (typed_lowering_failure node
                                             (tc_resource_error constructed), h))
                           else
                             do { lowered \<leftarrow> at (ls_nodes st) node_index;
                                  Some (Inr (set_node node_index
                                    (lowered\<lparr>ln_structural_type := tc_type constructed\<rparr>)
                                    (st\<lparr>ls_host := h\<rparr>))) })) } }"

section \<open>The implementation of a call\<close>

definition signature_accepts ::
    "primitive_descriptor \<Rightarrow> rewrite_lowering_node list \<Rightarrow> primitive_signature \<Rightarrow> bool" where
  "signature_accepts descriptor arguments signature \<longleftrightarrow>
     length (ps_parameters signature) = length arguments
     \<and> list_all (\<lambda>position. lowering_type_accepts descriptor signature position
                              (arguments ! position)) [0..<length arguments]"

definition select_lowering_signature ::
    "primitive_descriptor \<Rightarrow> rewrite_lowering_node list \<Rightarrow> primitive_signature option" where
  "select_lowering_signature descriptor arguments =
     (if pd_lifting descriptor = LM_none
      then List.find (signature_accepts descriptor arguments) (pd_signatures descriptor)
      else if length arguments > 2 then None
      else if list_ex (\<lambda>argument. ln_cardinality argument = RC_tuple) arguments then None
      else
        let selected = select_primitive_signature descriptor (map ln_element_type arguments) in
        if sel_status selected = SEL_success
        then Option.bind (sel_signature selected) (signature_of descriptor) else None)"

definition lowered_call ::
    "rewrite_call \<Rightarrow> primitive_descriptor \<Rightarrow> primitive_signature \<Rightarrow> nat \<Rightarrow> nat option
     \<Rightarrow> rewrite_lowering_node \<Rightarrow> rewrite_lowering_node" where
  "lowered_call call descriptor signature argument_count spread_operand lowered =
     lowered\<lparr>ln_primitive_id := Some (pd_id descriptor),
             ln_implementation := ps_implementation signature,
             ln_element_type := vt_element (ps_result signature),
             ln_first_argument := rc_first_argument call,
             ln_argument_count := argument_count,
             ln_spreads_tuple := (spread_operand \<noteq> None),
             ln_spread_operand := (case spread_operand of Some operand \<Rightarrow> operand | None \<Rightarrow> 0),
             ln_primary_span := rc_name_span call,
             ln_source_location := call_location call,
             ln_admission_point := pd_name descriptor,
             ln_cardinality := (if pd_lifting descriptor = LM_none then RC_dynamic_vector
                                else RC_scalar),
             ln_structural_type := structural_value_type (ps_result signature)\<rparr>"

definition call_type ::
    "rewrite_program \<Rightarrow> nat \<Rightarrow> rewrite_node \<Rightarrow> lowering_state \<Rightarrow> lowering_step" where
  "call_type program node_index node st =
     do { call \<leftarrow> at (pg_calls program) (rn_call_index node);
          descriptor \<leftarrow> call_descriptor call;
          argument_count \<leftarrow> semantic_argument_count program call;
          let spread_operand = prefix_tuple_operand program call;
          spread_available \<leftarrow> (case spread_operand of
                                 None \<Rightarrow> Some True
                               | Some operand \<Rightarrow> at (ls_available st) operand);
          if \<not> spread_available then Some (Inr st)
          else if \<not> arity_exists descriptor argument_count
          then
            if spread_operand \<noteq> None
               \<and> (case ls_arity_failure st of
                    None \<Rightarrow> True | Some (failed_index, _) \<Rightarrow> node_index < failed_index)
            then do { (diagnostic, h) \<leftarrow>
                        arity_diagnostic (ls_host st) program call descriptor argument_count;
                      Some (Inr (st\<lparr>ls_arity_failure := Some (node_index, diagnostic),
                                    ls_host := h\<rparr>)) }
            else Some (Inr st)
          else
            do { available \<leftarrow> all_available (ls_available st)
                                (semantic_argument_node program call) [0..<argument_count];
                 if \<not> available then Some (Inr st)
                 else
                   do { indexes \<leftarrow> argument_nodes program call argument_count;
                        arguments \<leftarrow> read_nodes (ls_nodes st) indexes;
                        (case select_lowering_signature descriptor arguments of
                           None \<Rightarrow>
                             if ls_type_failure st \<noteq> None then Some (Inr st)
                             else
                               do { (error, h) \<leftarrow>
                                      lowering_type_error (ls_host st) call descriptor arguments;
                                    diagnostic \<leftarrow> lowering_diagnostic program call error;
                                    Some (Inr (st\<lparr>ls_type_failure := Some diagnostic,
                                                  ls_host := h\<rparr>)) }
                         | Some signature \<Rightarrow>
                             do { lowered \<leftarrow> at (ls_nodes st) node_index;
                                  Some (Inr (set_node node_index
                                    (lowered_call call descriptor signature argument_count
                                       spread_operand lowered) st)) }) } } }"

definition type_step :: "rewrite_program \<Rightarrow> nat \<Rightarrow> lowering_state \<Rightarrow> lowering_step" where
  "type_step program node_index st =
     do { node \<leftarrow> at (pg_nodes program) node_index;
          if rn_kind node = NK_placeholder then placeholder_type node_index node st
          else if is_tuple_node node then tuple_type program node_index node st
          else if rn_kind node \<noteq> NK_primitive_call
          then Some (Inr (st\<lparr>ls_available := (ls_available st)[node_index := True]\<rparr>))
          else call_type program node_index node st }"

fun type_phase :: "rewrite_program \<Rightarrow> nat list \<Rightarrow> lowering_state \<Rightarrow> lowering_step" where
  "type_phase program [] st = Some (Inr st)"
| "type_phase program (node_index # indexes) st =
     (if (case ls_arity_failure st of
            None \<Rightarrow> False | Some (failed_index, _) \<Rightarrow> node_index > failed_index)
      then Some (Inr st)
      else
        do { outcome \<leftarrow> type_step program node_index st;
             case outcome of
               Inl failed \<Rightarrow> Some (Inl failed)
             | Inr st \<Rightarrow> type_phase program indexes st })"

section \<open>Shapes\<close>

text \<open>The lengths of the vector arguments: the length known, whether one is dynamic, how many
  there are, or the first argument of a different known length.\<close>

fun argument_shapes ::
    "nat \<Rightarrow> rewrite_lowering_node list \<Rightarrow> nat option \<Rightarrow> bool \<Rightarrow> nat
     \<Rightarrow> (nat \<times> nat \<times> nat) + (nat option \<times> bool \<times> nat)" where
  "argument_shapes argument_index [] known_length has_dynamic vector_count =
     Inr (known_length, has_dynamic, vector_count)"
| "argument_shapes argument_index (argument # arguments) known_length has_dynamic vector_count =
     (if ln_cardinality argument = RC_scalar
      then argument_shapes (argument_index + 1) arguments known_length has_dynamic vector_count
      else if ln_cardinality argument = RC_dynamic_vector
      then argument_shapes (argument_index + 1) arguments known_length True (vector_count + 1)
      else
        case known_length of
          None \<Rightarrow>
            argument_shapes (argument_index + 1) arguments (Some (ln_element_count argument))
              has_dynamic (vector_count + 1)
        | Some known \<Rightarrow>
            if known \<noteq> ln_element_count argument
            then Inl (argument_index, known, ln_element_count argument)
            else argument_shapes (argument_index + 1) arguments known_length has_dynamic
                   (vector_count + 1))"

definition shaped_call ::
    "nat option \<Rightarrow> bool \<Rightarrow> nat \<Rightarrow> rewrite_lowering_node \<Rightarrow> rewrite_lowering_node" where
  "shaped_call known_length has_dynamic vector_count lowered =
     (let lowered = lowered\<lparr>ln_runtime_shape_check := (vector_count > 1 \<and> has_dynamic)\<rparr> in
      if vector_count = 0
      then lowered\<lparr>ln_cardinality := RC_scalar, ln_element_count := 1\<rparr>
      else if has_dynamic
      then lowered\<lparr>ln_cardinality := RC_dynamic_vector,
                   ln_element_count := (case known_length of Some n \<Rightarrow> n | None \<Rightarrow> 0)\<rparr>
      else lowered\<lparr>ln_cardinality := RC_static_vector, ln_element_count := the known_length\<rparr>)"

definition shape_argument_node ::
    "rewrite_program \<Rightarrow> rewrite_call \<Rightarrow> rewrite_lowering_node \<Rightarrow> nat \<Rightarrow> nat option" where
  "shape_argument_node program call lowered argument_index =
     (if ln_spreads_tuple lowered
      then structural_tuple_element program (ln_spread_operand lowered) argument_index
      else at (pg_arguments program) (rc_first_argument call + argument_index))"

definition shape_error ::
    "host_state \<Rightarrow> rewrite_call \<Rightarrow> primitive_descriptor \<Rightarrow> nat \<times> nat \<times> nat \<Rightarrow> error \<times> host_state"
where
  "shape_error h call descriptor mismatch =
     (case mismatch of (argument_index, expected, actual) \<Rightarrow>
        case lowering_primitive_error h EK_shape_mismatch descriptor (call_location call) of
          (error, h) \<Rightarrow>
            (error\<lparr>er_argument_position := Some (argument_index + 1),
                   er_shape := Some \<lparr>sx_expected = [expected], sx_actual = [actual]\<rparr>\<rparr>, h))"

fun shape_phase ::
    "rewrite_program \<Rightarrow> nat list \<Rightarrow> rewrite_lowering_node list \<Rightarrow> host_state
     \<Rightarrow> ((rewrite_evaluation_diagnostic + rewrite_lowering_node list) \<times> host_state) option" where
  "shape_phase program [] nodes h = Some (Inr nodes, h)"
| "shape_phase program (node_index # indexes) nodes h =
     do { node \<leftarrow> at (pg_nodes program) node_index;
          if rn_kind node \<noteq> NK_primitive_call then shape_phase program indexes nodes h
          else
            do { call \<leftarrow> at (pg_calls program) (rn_call_index node);
                 lowered \<leftarrow> at nodes node_index;
                 if ln_implementation lowered = IM_iota_integer
                 then shape_phase program indexes
                        (nodes[node_index := lowered\<lparr>ln_cardinality := RC_dynamic_vector,
                                                     ln_element_count := 0\<rparr>]) h
                 else
                   do { arguments \<leftarrow> those (map (shape_argument_node program call lowered)
                                              [0..<ln_argument_count lowered]);
                        arguments \<leftarrow> read_nodes nodes arguments;
                        (case argument_shapes 0 arguments None False 0 of
                           Inl mismatch \<Rightarrow>
                             do { descriptor \<leftarrow> call_descriptor call;
                                  (case shape_error h call descriptor mismatch of (error, h) \<Rightarrow>
                                     do { diagnostic \<leftarrow> lowering_diagnostic program call error;
                                          Some (Inl diagnostic, h) }) }
                         | Inr (known_length, has_dynamic, vector_count) \<Rightarrow>
                             shape_phase program indexes
                               (nodes[node_index :=
                                  shaped_call known_length has_dynamic vector_count lowered]) h) } } }"

section \<open>Lowering\<close>

definition lowering_failed :: "rewrite_evaluation_diagnostic \<Rightarrow> rewrite_lowering_result" where
  "lowering_failed diagnostic =
     \<lparr>lr_ok = False, lr_program = empty_lowering, lr_diagnostic = diagnostic\<rparr>"

definition lowering_of ::
    "rewrite_program \<Rightarrow> rewrite_lowering_node list \<Rightarrow> rewrite_lowering_program" where
  "lowering_of program nodes =
     \<lparr>lp_nodes = nodes, lp_arguments = pg_arguments program, lp_roots = pg_roots program,
      lp_boolean_elements = pg_boolean_elements program,
      lp_integer_elements = pg_integer_elements program,
      lp_double_elements = pg_double_elements program,
      lp_tuple_elements = pg_tuple_elements program,
      lp_tuple_element_spans = pg_tuple_element_spans program,
      lp_fanout_operands = map rf_operand (pg_fanouts program),
      lp_fanout_branch_roots = map rb_root (pg_fanout_branches program),
      lp_fanout_branch_spans = map rb_span (pg_fanout_branches program)\<rparr>"

definition finish_lowering ::
    "rewrite_program \<Rightarrow> lowering_state \<Rightarrow> (rewrite_lowering_result \<times> host_state) option" where
  "finish_lowering program st =
     (case ls_arity_failure st of
        Some (_, diagnostic) \<Rightarrow> Some (lowering_failed diagnostic, ls_host st)
      | None \<Rightarrow>
          (case ls_type_failure st of
             Some diagnostic \<Rightarrow> Some (lowering_failed diagnostic, ls_host st)
           | None \<Rightarrow>
               do { (outcome, h) \<leftarrow> shape_phase program [0..<length (pg_nodes program)]
                                      (ls_nodes st) (ls_host st);
                    Some (case outcome of
                            Inl diagnostic \<Rightarrow> lowering_failed diagnostic
                          | Inr nodes \<Rightarrow>
                              \<lparr>lr_ok = True, lr_program = lowering_of program nodes,
                               lr_diagnostic = empty_rewrite_evaluation_diagnostic\<rparr>, h) }))"

definition lower_rewrite_program ::
    "host_state \<Rightarrow> rewrite_program \<Rightarrow> (rewrite_lowering_result \<times> host_state) option" where
  "lower_rewrite_program h program =
     (case find_some (root_diagnostic program) [0..<length (pg_roots program)] of
        Some diagnostic \<Rightarrow> Some (lowering_failed diagnostic, h)
      | None \<Rightarrow>
          do { nodes \<leftarrow> initial_lowering_nodes program;
               (arity, h) \<leftarrow> arity_phase program [0..<length (pg_nodes program)] None h;
               (case arity of
                  Inl diagnostic \<Rightarrow> Some (lowering_failed diagnostic, h)
                | Inr failure \<Rightarrow>
                    do { typed \<leftarrow> type_phase program [0..<length (pg_nodes program)]
                           \<lparr>ls_nodes = nodes,
                            ls_available = replicate (length (pg_nodes program)) False,
                            ls_arity_failure = failure, ls_type_failure = None, ls_host = h\<rparr>;
                         (case typed of
                            Inl (diagnostic, h) \<Rightarrow> Some (lowering_failed diagnostic, h)
                          | Inr st \<Rightarrow> finish_lowering program st) }) })"

end
