(* ===== verification/LoweringCorrect.thy ===== *)
theory LoweringCorrect
  imports Lowering
begin

text \<open>
  What lowering guarantees: on the tables of a program whose ranges and operands are in order it
  always returns; a program it accepts is well typed, its use counts are the numbers of uses,
  and the cardinality of every call follows from those of its arguments; a program it refuses
  is refused for the first reason in the order of the phases.
\<close>

section \<open>Programs that can be lowered\<close>

text \<open>Every range of a node lies inside its table and every operand comes before the node.\<close>

definition node_lowerable :: "rewrite_program \<Rightarrow> nat \<Rightarrow> rewrite_node \<Rightarrow> bool" where
  "node_lowerable p i nd \<longleftrightarrow>
     (rn_kind nd = NK_tuple_literal \<longrightarrow>
        rn_first_element nd + rn_element_count nd \<le> length (pg_tuple_elements p) \<and>
        rn_first_element_span nd + rn_element_count nd \<le> length (pg_tuple_element_spans p) \<and>
        (\<forall>k < rn_element_count nd. pg_tuple_elements p ! (rn_first_element nd + k) < i)) \<and>
     (rn_kind nd = NK_fanout \<longrightarrow>
        rn_call_index nd < length (pg_fanouts p) \<and>
        (let f = pg_fanouts p ! rn_call_index nd in
         rf_first_branch f + rn_element_count nd \<le> length (pg_fanout_branches p) \<and>
         (\<forall>k < rn_element_count nd. rb_root (pg_fanout_branches p ! (rf_first_branch f + k)) < i))) \<and>
     (rn_kind nd = NK_placeholder \<longrightarrow> rn_first_element nd < i) \<and>
     (rn_kind nd = NK_primitive_call \<longrightarrow>
        rn_call_index nd < length (pg_calls p) \<and>
        (let c = pg_calls p ! rn_call_index nd in
         rc_first_argument c + rc_argument_count c \<le> length (pg_arguments p) \<and>
         (\<forall>k < rc_argument_count c. pg_arguments p ! (rc_first_argument c + k) < i)))"

definition lowerable :: "rewrite_program \<Rightarrow> bool" where
  "lowerable p \<longleftrightarrow>
     (\<forall>i < length (pg_nodes p). node_lowerable p i (pg_nodes p ! i)) \<and>
     length (pg_argument_spans p) = length (pg_arguments p) \<and>
     (\<forall>a \<in> set (pg_arguments p). a < length (pg_nodes p)) \<and>
     (\<forall>e \<in> set (pg_tuple_elements p). e < length (pg_nodes p)) \<and>
     (\<forall>f \<in> set (pg_fanouts p). rf_operand f < length (pg_nodes p) \<and>
        rf_first_branch f + rf_branch_count f \<le> length (pg_fanout_branches p)) \<and>
     (\<forall>b \<in> set (pg_fanout_branches p). rb_root b < length (pg_nodes p))"

lemma lowerable_node: "lowerable p \<Longrightarrow> i < length (pg_nodes p) \<Longrightarrow> node_lowerable p i (pg_nodes p ! i)"
  by (simp add: lowerable_def)

lemma those_Some:
  "(\<And>x. x \<in> set xs \<Longrightarrow> f x = Some (g x)) \<Longrightarrow> those (map f xs) = Some (map g xs)"
  by (induction xs) simp_all

lemma those_Some_iff: "those xs = Some ys \<longleftrightarrow> xs = map Some ys"
  by (induction xs arbitrary: ys) (auto split: option.splits simp: Cons_eq_map_conv)

lemma read_nodes_Some: "(\<And>i. i \<in> set is \<Longrightarrow> i < length xs) \<Longrightarrow> read_nodes xs is = Some (map ((!) xs) is)"
  unfolding read_nodes_def by (rule those_Some) simp

section \<open>The arguments of a call\<close>

text \<open>The tuple a prefix call spreads, through the placeholder that stands for it.\<close>

definition spread_node :: "rewrite_program \<Rightarrow> nat \<Rightarrow> rewrite_node" where
  "spread_node p operand =
     (let nd = pg_nodes p ! operand in
      if rn_kind nd = NK_placeholder then pg_nodes p ! rn_first_element nd else nd)"

lemma prefix_tuple_operandD:
  assumes "prefix_tuple_operand p c = Some operand"
  shows "rc_argument_count c = 1" "rc_first_argument c < length (pg_arguments p)"
    "operand = pg_arguments p ! rc_first_argument c" "operand < length (pg_nodes p)"
    "is_tuple_node (spread_node p operand)"
    "rn_kind (pg_nodes p ! operand) = NK_placeholder \<Longrightarrow>
       rn_first_element (pg_nodes p ! operand) < length (pg_nodes p)"
  using assms
  by (auto simp: prefix_tuple_operand_def spread_node_def is_tuple_node_def Let_def split: if_splits)

lemma tuple_node_not_placeholder: "is_tuple_node nd \<Longrightarrow> rn_kind nd \<noteq> NK_placeholder"
  by (auto simp: is_tuple_node_def)

definition tuple_child_span :: "rewrite_program \<Rightarrow> rewrite_node \<Rightarrow> nat \<Rightarrow> rewrite_span option" where
  "tuple_child_span p nd k =
     (if rn_kind nd = NK_fanout
      then do { fanout \<leftarrow> at (pg_fanouts p) (rn_call_index nd);
                branch \<leftarrow> at (pg_fanout_branches p) (rf_first_branch fanout + k);
                Some (rb_span branch) }
      else at (pg_tuple_element_spans p) (rn_first_element_span nd + k))"

lemma structural_tuple_direct:
  assumes "i < length (pg_nodes p)" "rn_kind (pg_nodes p ! i) \<noteq> NK_placeholder"
  shows "structural_tuple_count p i = Some (rn_element_count (pg_nodes p ! i))"
    "structural_tuple_element p i k = tuple_child p (pg_nodes p ! i) k"
    "structural_tuple_element_span p i k = tuple_child_span p (pg_nodes p ! i) k"
  using assms
  by (simp_all add: structural_tuple_count.simps [of p i] structural_tuple_element.simps [of p i]
        structural_tuple_element_span.simps [of p i] tuple_child_def tuple_child_span_def)

lemma structural_tuple:
  assumes "prefix_tuple_operand p c = Some operand"
  shows "structural_tuple_count p operand = Some (rn_element_count (spread_node p operand))"
    "structural_tuple_element p operand k = tuple_child p (spread_node p operand) k"
    "structural_tuple_element_span p operand k = tuple_child_span p (spread_node p operand) k"
proof -
  let ?nd = "pg_nodes p ! operand"
  note d = prefix_tuple_operandD [OF assms]
  have "structural_tuple_count p operand = Some (rn_element_count (spread_node p operand)) \<and>
      structural_tuple_element p operand k = tuple_child p (spread_node p operand) k \<and>
      structural_tuple_element_span p operand k = tuple_child_span p (spread_node p operand) k"
  proof (cases "rn_kind ?nd = NK_placeholder")
    case True
    let ?t = "rn_first_element ?nd"
    have t: "?t < length (pg_nodes p)" "rn_kind (pg_nodes p ! ?t) \<noteq> NK_placeholder"
      "spread_node p operand = pg_nodes p ! ?t"
      using d(5,6) True tuple_node_not_placeholder by (auto simp: spread_node_def Let_def)
    have "structural_tuple_count p operand = structural_tuple_count p ?t"
      "structural_tuple_element p operand k = structural_tuple_element p ?t k"
      "structural_tuple_element_span p operand k = structural_tuple_element_span p ?t k"
      using d(4) True
      by (simp_all add: structural_tuple_count.simps [of p operand]
            structural_tuple_element.simps [of p operand]
            structural_tuple_element_span.simps [of p operand])
    then show ?thesis using structural_tuple_direct [OF t(1,2)] t(3) by simp
  next
    case False
    then have "spread_node p operand = ?nd" by (simp add: spread_node_def Let_def)
    then show ?thesis using structural_tuple_direct [OF d(4) False] by simp
  qed
  then show "structural_tuple_count p operand = Some (rn_element_count (spread_node p operand))"
    "structural_tuple_element p operand k = tuple_child p (spread_node p operand) k"
    "structural_tuple_element_span p operand k = tuple_child_span p (spread_node p operand) k"
    by simp_all
qed

text \<open>The child of a tuple, as a total function, and what holds of it in a lowerable program.\<close>

definition child_of :: "rewrite_program \<Rightarrow> rewrite_node \<Rightarrow> nat \<Rightarrow> nat" where
  "child_of p nd k =
     (if rn_kind nd = NK_fanout
      then rb_root (pg_fanout_branches p ! (rf_first_branch (pg_fanouts p ! rn_call_index nd) + k))
      else pg_tuple_elements p ! (rn_first_element nd + k))"

lemma tuple_child:
  assumes "node_lowerable p i nd" "is_tuple_node nd" "k < rn_element_count nd"
  shows "tuple_child p nd k = Some (child_of p nd k) \<and> child_of p nd k < i \<and>
    tuple_child_span p nd k \<noteq> None"
  using assms
  by (auto simp: node_lowerable_def is_tuple_node_def tuple_child_def child_of_def
      tuple_child_span_def Let_def)

definition argument_of :: "rewrite_program \<Rightarrow> rewrite_call \<Rightarrow> nat \<Rightarrow> nat" where
  "argument_of p c k =
     (case prefix_tuple_operand p c of
        None \<Rightarrow> pg_arguments p ! (rc_first_argument c + k)
      | Some operand \<Rightarrow> child_of p (spread_node p operand) k)"

definition semantic_count :: "rewrite_program \<Rightarrow> rewrite_call \<Rightarrow> nat" where
  "semantic_count p c =
     (case prefix_tuple_operand p c of
        None \<Rightarrow> rc_argument_count c
      | Some operand \<Rightarrow> rn_element_count (spread_node p operand))"

definition call_of :: "rewrite_program \<Rightarrow> nat \<Rightarrow> rewrite_call" where
  "call_of p i = pg_calls p ! rn_call_index (pg_nodes p ! i)"

lemma spread_lowerable:
  assumes "lowerable p" "prefix_tuple_operand p c = Some operand"
  shows "\<exists>t \<le> operand. node_lowerable p t (spread_node p operand)"
proof -
  note d = prefix_tuple_operandD [OF assms(2)]
  show ?thesis
  proof (cases "rn_kind (pg_nodes p ! operand) = NK_placeholder")
    case True
    then have "rn_first_element (pg_nodes p ! operand) < operand"
      using lowerable_node [OF assms(1) d(4)] by (simp add: node_lowerable_def)
    then show ?thesis
      using True lowerable_node [OF assms(1) d(6) [OF True]]
      by (auto simp: spread_node_def Let_def intro!: exI [of _ "rn_first_element (pg_nodes p ! operand)"])
  next
    case False
    then show ?thesis
      using lowerable_node [OF assms(1) d(4)] by (auto simp: spread_node_def Let_def)
  qed
qed

lemma call_arguments:
  assumes "lowerable p" "i < length (pg_nodes p)" "rn_kind (pg_nodes p ! i) = NK_primitive_call"
  shows "rn_call_index (pg_nodes p ! i) < length (pg_calls p)"
    "semantic_argument_count p (call_of p i) = Some (semantic_count p (call_of p i))"
    "k < semantic_count p (call_of p i) \<Longrightarrow>
       semantic_argument_node p (call_of p i) k = Some (argument_of p (call_of p i) k) \<and>
       argument_of p (call_of p i) k < i \<and>
       semantic_argument_span p (call_of p i) k \<noteq> None"
    "prefix_tuple_operand p (call_of p i) = Some operand \<Longrightarrow> operand < i"
proof -
  let ?c = "call_of p i"
  have ok: "rn_call_index (pg_nodes p ! i) < length (pg_calls p)"
    "rc_first_argument ?c + rc_argument_count ?c \<le> length (pg_arguments p)"
    "\<forall>k < rc_argument_count ?c. pg_arguments p ! (rc_first_argument ?c + k) < i"
    using lowerable_node [OF assms(1,2)] assms(3)
    by (simp_all add: node_lowerable_def call_of_def Let_def)
  show "rn_call_index (pg_nodes p ! i) < length (pg_calls p)" by (rule ok(1))
  have spans: "length (pg_argument_spans p) = length (pg_arguments p)"
    using assms(1) by (simp add: lowerable_def)
  have operand: "operand < i" if "prefix_tuple_operand p ?c = Some operand" for operand
    using prefix_tuple_operandD [OF that] ok(3) by (metis add.right_neutral less_one)
  show "prefix_tuple_operand p ?c = Some operand \<Longrightarrow> operand < i" by (rule operand)
  show "semantic_argument_count p ?c = Some (semantic_count p ?c)"
    by (auto simp: semantic_argument_count_def semantic_count_def structural_tuple(1) split: option.splits)
  show "semantic_argument_node p ?c k = Some (argument_of p ?c k) \<and> argument_of p ?c k < i \<and>
      semantic_argument_span p ?c k \<noteq> None" if k: "k < semantic_count p ?c"
  proof (cases "prefix_tuple_operand p ?c")
    case None
    then show ?thesis
      using k ok spans
      by (simp add: semantic_argument_node_def argument_of_def semantic_count_def
          semantic_argument_span_def)
  next
    case (Some operand)
    obtain t where t: "t \<le> operand" "node_lowerable p t (spread_node p operand)"
      using spread_lowerable [OF assms(1) Some] by blast
    have "k < rn_element_count (spread_node p operand)" using k Some by (simp add: semantic_count_def)
    from tuple_child [OF t(2) prefix_tuple_operandD(5) [OF Some] this] t(1) operand [OF Some]
    show ?thesis
      using Some by (simp add: semantic_argument_node_def argument_of_def semantic_argument_span_def
          structural_tuple [OF Some])
  qed
qed

lemma lowering_diagnostic_returns:
  assumes "lowerable p" "i < length (pg_nodes p)" "rn_kind (pg_nodes p ! i) = NK_primitive_call"
  shows "\<exists>d. lowering_diagnostic p (call_of p i) e = Some d \<and> ed_stage d = ES_application \<and>
    er_kind (ed_error d) = er_kind e \<and> ed_call d = rc_span (call_of p i)"
proof -
  let ?c = "call_of p i"
  note args = call_arguments [OF assms]
  have "those (map (semantic_argument_span p ?c) [0..<semantic_count p ?c]) =
      Some (map (\<lambda>k. the (semantic_argument_span p ?c k)) [0..<semantic_count p ?c])"
    using args(3) by (intro those_Some) auto
  moreover have "at (pg_argument_spans p) (rc_first_argument ?c) \<noteq> None"
    if "prefix_tuple_operand p ?c = Some operand" for operand
    using prefix_tuple_operandD(2) [OF that] assms(1) by (simp add: lowerable_def)
  ultimately show ?thesis
    using args(2)
    by (auto simp: lowering_diagnostic_def empty_rewrite_evaluation_diagnostic_def Let_def
        split: option.splits)
qed

section \<open>Uses\<close>

text \<open>Every position of the tables that refers to a node is a use of it.\<close>

definition fanout_targets :: "rewrite_program \<Rightarrow> rewrite_fanout \<Rightarrow> nat list" where
  "fanout_targets p f =
     rf_operand f # map (\<lambda>k. rb_root (pg_fanout_branches p ! k))
                      [rf_first_branch f ..< rf_first_branch f + rf_branch_count f]"

definition use_positions :: "rewrite_program \<Rightarrow> nat list" where
  "use_positions p =
     pg_arguments p @ pg_tuple_elements p @ concat (map (fanout_targets p) (pg_fanouts p)) @
     pg_roots p"

definition uses :: "rewrite_program \<Rightarrow> nat \<Rightarrow> nat" where
  "uses p i = count_list (use_positions p) i"

definition with_uses ::
    "(nat \<Rightarrow> nat) \<Rightarrow> rewrite_lowering_node list \<Rightarrow> rewrite_lowering_node list" where
  "with_uses f nds = map (\<lambda>j. (nds ! j)\<lparr>ln_use_count := ln_use_count (nds ! j) + f j\<rparr>) [0..<length nds]"

lemma with_uses_nth [simp]:
  "length (with_uses f nds) = length nds"
  "j < length nds \<Longrightarrow> with_uses f nds ! j = (nds ! j)\<lparr>ln_use_count := ln_use_count (nds ! j) + f j\<rparr>"
  by (simp_all add: with_uses_def)

lemma with_uses_0: "with_uses (\<lambda>j. 0) nds = nds"
  by (rule nth_equalityI) simp_all

lemma with_uses_twice: "with_uses f (with_uses g nds) = with_uses (\<lambda>j. g j + f j) nds"
  by (rule nth_equalityI) simp_all

lemma count_uses_eq:
  "\<forall>i \<in> set is. i < length nds \<Longrightarrow> count_uses is nds = Some (with_uses (count_list is) nds)"
proof (induction "is" arbitrary: nds)
  case Nil
  then show ?case by (simp add: with_uses_0)
next
  case (Cons i "is")
  let ?nds = "nds[i := (nds ! i)\<lparr>ln_use_count := ln_use_count (nds ! i) + 1\<rparr>]"
  have "with_uses (count_list is) ?nds = with_uses (count_list (i # is)) nds"
    by (rule nth_equalityI) (auto simp: nth_list_update)
  then show ?case using Cons.IH [of ?nds] Cons.prems by (simp del: count_list.simps)
qed

lemma fanout_uses_eq:
  "\<forall>f \<in> set fs. rf_operand f < length nds \<and> rf_first_branch f + rf_branch_count f \<le> length (pg_fanout_branches p) \<Longrightarrow>
   \<forall>b \<in> set (pg_fanout_branches p). rb_root b < length nds \<Longrightarrow>
   fanout_uses p fs nds = Some (with_uses (count_list (concat (map (fanout_targets p) fs))) nds)"
proof (induction fs arbitrary: nds)
  case Nil
  then show ?case by (simp add: with_uses_0)
next
  case (Cons f fs)
  let ?r = "[rf_first_branch f ..< rf_first_branch f + rf_branch_count f]"
  have range: "read_nodes (pg_fanout_branches p) ?r = Some (map ((!) (pg_fanout_branches p)) ?r)"
    using Cons.prems(1) by (intro read_nodes_Some) auto
  have targets: "rf_operand f # map rb_root (map ((!) (pg_fanout_branches p)) ?r) = fanout_targets p f"
    by (simp add: fanout_targets_def)
  have "\<forall>i \<in> set (fanout_targets p f). i < length nds"
    using Cons.prems by (auto simp: fanout_targets_def)
  then have "count_uses (fanout_targets p f) nds = Some (with_uses (count_list (fanout_targets p f)) nds)"
    by (rule count_uses_eq)
  then show ?case
    using Cons.IH [of "with_uses (count_list (fanout_targets p f)) nds"] Cons.prems
    by (simp only: fanout_uses.simps range targets Option.bind.bind_lunit)
       (simp add: with_uses_twice)
qed

definition with_roots :: "nat list \<Rightarrow> rewrite_lowering_node list \<Rightarrow> rewrite_lowering_node list" where
  "with_roots rs nds =
     map (\<lambda>j. (nds ! j)\<lparr>ln_use_count := ln_use_count (nds ! j) + count_list rs j,
                        ln_retained_root := (ln_retained_root (nds ! j) \<or> j \<in> set rs)\<rparr>)
       [0..<length nds]"

lemma retain_roots_eq:
  "\<forall>i \<in> set rs. i < length nds \<Longrightarrow> retain_roots rs nds = Some (with_roots rs nds)"
proof (induction rs arbitrary: nds)
  case Nil
  have "with_roots [] nds = nds" by (rule nth_equalityI) (simp_all add: with_roots_def)
  then show ?case by simp
next
  case (Cons r rs)
  let ?nds = "nds[r := (nds ! r)\<lparr>ln_use_count := ln_use_count (nds ! r) + 1, ln_retained_root := True\<rparr>]"
  have "with_roots rs ?nds = with_roots (r # rs) nds"
    by (rule nth_equalityI) (auto simp: nth_list_update with_roots_def)
  then show ?case using Cons.IH [of ?nds] Cons.prems by (simp add: retain_root_def)
qed

text \<open>The nodes before types are known.\<close>

definition source_node :: "rewrite_program \<Rightarrow> rewrite_node \<Rightarrow> rewrite_lowering_node" where
  "source_node p nd =
     (if rn_kind nd = NK_fanout
      then (base_lowering_node nd)\<lparr>ln_primary_span := rf_keyword_span (pg_fanouts p ! rn_call_index nd),
                                   ln_admission_point := ''fanout''\<rparr>
      else base_lowering_node nd)"

definition start_node :: "rewrite_program \<Rightarrow> nat \<Rightarrow> rewrite_lowering_node" where
  "start_node p i =
     (source_node p (pg_nodes p ! i))\<lparr>ln_use_count := uses p i, ln_retained_root := (i \<in> set (pg_roots p))\<rparr>"

lemma initial_lowering_nodes_eq:
  assumes "lowerable p" "\<forall>r \<in> set (pg_roots p). r < length (pg_nodes p)"
  shows "initial_lowering_nodes p = Some (map (start_node p) [0..<length (pg_nodes p)])"
proof -
  let ?N = "length (pg_nodes p)" and ?base = "map (source_node p) (pg_nodes p)"
  have "initial_lowering_node p nd = Some (source_node p nd)" if "nd \<in> set (pg_nodes p)" for nd
    using that lowerable_node [OF assms(1)]
    by (auto simp: initial_lowering_node_def source_node_def in_set_conv_nth node_lowerable_def Let_def)
  then have base: "those (map (initial_lowering_node p) (pg_nodes p)) = Some ?base"
    by (rule those_Some)
  let ?u = "\<lambda>xs j. count_list xs j"
  let ?f = "concat (map (fanout_targets p) (pg_fanouts p))"
  have "with_roots (pg_roots p) (with_uses (count_list ?f) (with_uses (count_list (pg_tuple_elements p))
      (with_uses (count_list (pg_arguments p)) ?base))) = map (start_node p) [0..<?N]"
  proof (rule nth_equalityI)
    fix j assume "j < length (with_roots (pg_roots p) (with_uses (count_list ?f)
      (with_uses (count_list (pg_tuple_elements p)) (with_uses (count_list (pg_arguments p)) ?base))))"
    then have j: "j < ?N" by (simp add: with_roots_def)
    have "ln_use_count (source_node p (pg_nodes p ! j)) = 0" "\<not> ln_retained_root (source_node p (pg_nodes p ! j))"
      by (simp_all add: source_node_def base_lowering_node_def Let_def)
    then show "with_roots (pg_roots p) (with_uses (count_list ?f)
      (with_uses (count_list (pg_tuple_elements p)) (with_uses (count_list (pg_arguments p)) ?base))) ! j =
      map (start_node p) [0..<?N] ! j"
      using j by (simp add: with_roots_def start_node_def uses_def use_positions_def add.assoc)
  qed (simp add: with_roots_def)
  then show ?thesis
    using assms
    by (simp add: initial_lowering_nodes_def base count_uses_eq fanout_uses_eq retain_roots_eq lowerable_def)
qed

lemma roots_checked:
  "find_some (root_diagnostic p) [0..<length (pg_roots p)] = None \<longleftrightarrow>
     distinct (pg_roots p) \<and> (\<forall>r \<in> set (pg_roots p). r < length (pg_nodes p))"
proof -
  have "root_diagnostic p i = None \<longleftrightarrow>
      pg_roots p ! i < length (pg_nodes p) \<and> (\<forall>j < i. pg_roots p ! j \<noteq> pg_roots p ! i)" for i
    by (auto simp: root_diagnostic_def Let_def list_ex_iff)
  then have "find_some (root_diagnostic p) [0..<length (pg_roots p)] = None \<longleftrightarrow>
      (\<forall>i < length (pg_roots p). pg_roots p ! i < length (pg_nodes p)) \<and>
      (\<forall>i < length (pg_roots p). \<forall>j < i. pg_roots p ! j \<noteq> pg_roots p ! i)"
    by (auto simp: find_some_None_iff)
  then show ?thesis
    using distinct_names_iff [of id "pg_roots p"] by (auto simp: all_set_conv_all_nth)
qed

section \<open>Arities\<close>

lemma arity_diagnostic_returns:
  assumes "lowerable p" "i < length (pg_nodes p)" "rn_kind (pg_nodes p ! i) = NK_primitive_call"
  shows "\<exists>d h'. arity_diagnostic h p (call_of p i) descriptor count = Some (d, h') \<and>
    ed_stage d = ES_application \<and> er_kind (ed_error d) = EK_arity_error \<and>
    ed_call d = rc_span (call_of p i)"
proof -
  obtain e h1 where e: "lowering_arity_error h descriptor count (call_location (call_of p i)) = (e, h1)"
    by fastforce
  then have "er_kind e = EK_arity_error"
    by (auto simp: lowering_arity_error_def lowering_primitive_error_def make_error_def
        make_error_message_def split: prod.splits)
  then show ?thesis
    using lowering_diagnostic_returns [OF assms, of e] e by (auto simp: arity_diagnostic_def)
qed

text \<open>A call whose own arguments fit no signature of its primitive.\<close>

definition plain_arity_error :: "rewrite_program \<Rightarrow> nat \<Rightarrow> bool" where
  "plain_arity_error p i \<longleftrightarrow>
     rn_kind (pg_nodes p ! i) = NK_primitive_call \<and> prefix_tuple_operand p (call_of p i) = None \<and>
     (case call_descriptor (call_of p i) of
        None \<Rightarrow> False | Some d \<Rightarrow> \<not> arity_exists d (rc_argument_count (call_of p i)))"

definition has_descriptor :: "rewrite_program \<Rightarrow> nat \<Rightarrow> bool" where
  "has_descriptor p i \<longleftrightarrow>
     (rn_kind (pg_nodes p ! i) = NK_primitive_call \<longrightarrow> call_descriptor (call_of p i) \<noteq> None)"

definition arity_failure_at :: "rewrite_program \<Rightarrow> nat \<Rightarrow> rewrite_evaluation_diagnostic \<Rightarrow> bool" where
  "arity_failure_at p i d \<longleftrightarrow>
     i < length (pg_nodes p) \<and> rn_kind (pg_nodes p ! i) = NK_primitive_call \<and>
     ed_stage d = ES_application \<and> er_kind (ed_error d) = EK_arity_error \<and>
     ed_call d = rc_span (call_of p i)"

text \<open>What the phase finds among the nodes of a list, given the failure found before.\<close>

definition arity_outcome ::
    "rewrite_program \<Rightarrow> nat list \<Rightarrow> arity_failure \<Rightarrow> rewrite_evaluation_diagnostic + arity_failure \<Rightarrow> bool"
where
  "arity_outcome p is f r \<longleftrightarrow>
     (case r of
        Inl d \<Rightarrow> ed_stage d = ES_application \<and> er_kind (ed_error d) = EK_invalid_primitive_table \<and>
          (\<exists>i \<in> set is. \<not> has_descriptor p i)
      | Inr f' \<Rightarrow> (\<forall>i \<in> set is. has_descriptor p i) \<and>
          (if f \<noteq> None then f' = f
           else map_option fst f' = List.find (plain_arity_error p) is \<and>
             (\<forall>x. f' = Some x \<longrightarrow> arity_failure_at p (fst x) (snd x))))"

lemma arity_outcome_skip:
  assumes "arity_outcome p is f r" "has_descriptor p i" "f = None \<Longrightarrow> \<not> plain_arity_error p i"
  shows "arity_outcome p (i # is) f r"
proof (cases r)
  case (Inl d)
  then show ?thesis using assms(1) by (auto simp: arity_outcome_def)
next
  case (Inr f')
  then show ?thesis using assms by (cases "f = None") (auto simp: arity_outcome_def)
qed

lemma arity_outcome_found:
  assumes "arity_outcome p is (Some (i, d)) r" "has_descriptor p i" "plain_arity_error p i"
    "arity_failure_at p i d"
  shows "arity_outcome p (i # is) None r"
  using assms by (cases r) (auto simp: arity_outcome_def)

lemma arity_phase_outcome:
  assumes "lowerable p" "\<forall>i \<in> set is. i < length (pg_nodes p)"
  shows "\<exists>r h'. arity_phase p is f h = Some (r, h') \<and> arity_outcome p is f r"
  using assms(2)
proof (induction "is" arbitrary: f h)
  case Nil
  then show ?case by (cases f) (simp_all add: arity_outcome_def)
next
  case (Cons i "is")
  then have i: "i < length (pg_nodes p)" and rest: "\<forall>i \<in> set is. i < length (pg_nodes p)" by simp_all
  note IH = Cons.IH [OF rest]
  show ?case
  proof (cases "rn_kind (pg_nodes p ! i) = NK_primitive_call")
    case False
    then have "has_descriptor p i" "\<not> plain_arity_error p i"
      by (simp_all add: has_descriptor_def plain_arity_error_def)
    moreover have "arity_phase p (i # is) f h = arity_phase p is f h" using i False by simp
    ultimately show ?thesis using IH [of f h] arity_outcome_skip by metis
  next
    case True
    let ?c = "call_of p i"
    note args = call_arguments [OF assms(1) i True]
    have call: "at (pg_calls p) (rn_call_index (pg_nodes p ! i)) = Some ?c"
      using args(1) by (simp add: call_of_def)
    show ?thesis
    proof (cases "call_descriptor ?c")
      case None
      obtain d where "lowering_diagnostic p ?c (make_error EK_invalid_primitive_table (call_location ?c)) = Some d"
        "ed_stage d = ES_application" "er_kind (ed_error d) = EK_invalid_primitive_table"
        using lowering_diagnostic_returns [OF assms(1) i True, of "make_error EK_invalid_primitive_table (call_location ?c)"]
        by (auto simp: make_error_def make_error_message_def)
      moreover have "\<not> has_descriptor p i" using True None by (simp add: has_descriptor_def)
      ultimately show ?thesis using i True call None by (simp add: arity_outcome_def)
    next
      case (Some desc)
      have descr: "has_descriptor p i" using Some by (simp add: has_descriptor_def)
      show ?thesis
      proof (cases "plain_arity_error p i \<and> f = None")
        case error: True
        obtain d h1 where d: "arity_diagnostic h p ?c desc (rc_argument_count ?c) = Some (d, h1)"
          "arity_failure_at p i d"
          using arity_diagnostic_returns [OF assms(1) i True, of h desc "rc_argument_count ?c"]
            i True by (auto simp: arity_failure_at_def)
        have "arity_phase p (i # is) f h = arity_phase p is (Some (i, d)) h1"
          using i True call Some error d(1) args(2)
          by (simp add: plain_arity_error_def semantic_count_def)
        moreover have "f = None" using error by simp
        ultimately show ?thesis
          using IH [of "Some (i, d)" h1] arity_outcome_found [OF _ descr _ d(2)] error by metis
      next
        case False
        have "arity_phase p (i # is) f h = arity_phase p is f h"
          using i True call Some False args(2)
          by (auto simp: plain_arity_error_def semantic_count_def)
        then show ?thesis
          using IH [of f h] arity_outcome_skip [OF _ descr] False by metis
      qed
    qed
  qed
qed

section \<open>Types\<close>

text \<open>The node at an index is typed: its lowered node is the initial one with the type, and for
  a call the implementation, that follow from the lowered nodes of its operands.\<close>

definition arguments_of ::
    "rewrite_program \<Rightarrow> rewrite_lowering_node list \<Rightarrow> rewrite_call \<Rightarrow> rewrite_lowering_node list" where
  "arguments_of p nds c = map (\<lambda>k. nds ! argument_of p c k) [0..<semantic_count p c]"

abbreviation denoted :: "rewrite_lowering_node \<Rightarrow> ty" where
  "denoted nd \<equiv> type_of_arena (ln_structural_type nd)"

definition typed_placeholder :: "rewrite_program \<Rightarrow> rewrite_lowering_node list \<Rightarrow> nat \<Rightarrow> bool" where
  "typed_placeholder p nds i \<longleftrightarrow>
     (let operand = nds ! rn_first_element (pg_nodes p ! i) in
      \<exists>a. arena_valid a \<and> type_of_arena a = denoted operand \<and>
        nds ! i = (start_node p i)\<lparr>ln_cardinality := ln_cardinality operand,
          ln_element_type := ln_element_type operand, ln_element_count := ln_element_count operand,
          ln_structural_type := a\<rparr>)"

definition typed_tuple :: "rewrite_program \<Rightarrow> rewrite_lowering_node list \<Rightarrow> nat \<Rightarrow> bool" where
  "typed_tuple p nds i \<longleftrightarrow>
     (let nd = pg_nodes p ! i in
      \<exists>a. arena_valid a \<and>
        type_of_arena a = TyTuple (map (\<lambda>k. denoted (nds ! child_of p nd k)) [0..<rn_element_count nd]) \<and>
        nds ! i = (start_node p i)\<lparr>ln_structural_type := a\<rparr>)"

definition typed_call :: "rewrite_program \<Rightarrow> rewrite_lowering_node list \<Rightarrow> nat \<Rightarrow> bool" where
  "typed_call p nds i \<longleftrightarrow>
     (let c = call_of p i in
      \<exists>desc sig. call_descriptor c = Some desc \<and> arity_exists desc (semantic_count p c) \<and>
        select_lowering_signature desc (arguments_of p nds c) = Some sig \<and>
        nds ! i = lowered_call c desc sig (semantic_count p c) (prefix_tuple_operand p c) (start_node p i))"

definition typed :: "rewrite_program \<Rightarrow> rewrite_lowering_node list \<Rightarrow> nat \<Rightarrow> bool" where
  "typed p nds i \<longleftrightarrow>
     (let kind = rn_kind (pg_nodes p ! i) in
      if kind = NK_placeholder then typed_placeholder p nds i
      else if is_tuple_node (pg_nodes p ! i) then typed_tuple p nds i
      else if kind = NK_primitive_call then typed_call p nds i
      else nds ! i = start_node p i)"

lemma typed_update:
  assumes "lowerable p" "i < length (pg_nodes p)" "i < j"
  shows "typed p (nds[j := x]) i = typed p nds i"
proof -
  have "nds[j := x] ! k = nds ! k" if "k \<le> i" for k using that assms(3) by simp
  moreover have "rn_first_element (pg_nodes p ! i) < i" if "rn_kind (pg_nodes p ! i) = NK_placeholder"
    using lowerable_node [OF assms(1,2)] that by (simp add: node_lowerable_def)
  moreover have "child_of p (pg_nodes p ! i) k < i"
    if "is_tuple_node (pg_nodes p ! i)" "k < rn_element_count (pg_nodes p ! i)" for k
    using tuple_child [OF lowerable_node [OF assms(1,2)] that] by simp
  moreover have "argument_of p (call_of p i) k < i"
    if "rn_kind (pg_nodes p ! i) = NK_primitive_call" "k < semantic_count p (call_of p i)" for k
    using call_arguments(3) [OF assms(1,2) that] by simp
  ultimately have keep: "nds[j := x] ! i = nds ! i"
    "rn_kind (pg_nodes p ! i) = NK_placeholder \<Longrightarrow>
       nds[j := x] ! rn_first_element (pg_nodes p ! i) = nds ! rn_first_element (pg_nodes p ! i)"
    "is_tuple_node (pg_nodes p ! i) \<Longrightarrow>
       map (\<lambda>k. denoted (nds[j := x] ! child_of p (pg_nodes p ! i) k)) [0..<rn_element_count (pg_nodes p ! i)] =
       map (\<lambda>k. denoted (nds ! child_of p (pg_nodes p ! i) k)) [0..<rn_element_count (pg_nodes p ! i)]"
    "rn_kind (pg_nodes p ! i) = NK_primitive_call \<Longrightarrow>
       arguments_of p (nds[j := x]) (call_of p i) = arguments_of p nds (call_of p i)"
    by (auto simp: arguments_of_def less_imp_le)
  have "typed_placeholder p (nds[j := x]) i = typed_placeholder p nds i"
    if "rn_kind (pg_nodes p ! i) = NK_placeholder"
    unfolding typed_placeholder_def keep(1) keep(2) [OF that] ..
  moreover have "typed_tuple p (nds[j := x]) i = typed_tuple p nds i" if "is_tuple_node (pg_nodes p ! i)"
    unfolding typed_tuple_def Let_def keep(1) keep(3) [OF that] ..
  moreover have "typed_call p (nds[j := x]) i = typed_call p nds i"
    if "rn_kind (pg_nodes p ! i) = NK_primitive_call"
    unfolding typed_call_def Let_def keep(1) keep(4) [OF that] ..
  ultimately show ?thesis unfolding typed_def Let_def keep(1) by simp
qed

text \<open>A call whose typed arguments no signature accepts.\<close>

definition rejected_call :: "rewrite_program \<Rightarrow> rewrite_lowering_node list \<Rightarrow> nat \<Rightarrow> bool" where
  "rejected_call p nds i \<longleftrightarrow>
     rn_kind (pg_nodes p ! i) = NK_primitive_call \<and>
     (\<exists>desc. call_descriptor (call_of p i) = Some desc \<and>
        arity_exists desc (semantic_count p (call_of p i)) \<and>
        select_lowering_signature desc (arguments_of p nds (call_of p i)) = None)"

lemma rejected_call_update:
  assumes "lowerable p" "i < length (pg_nodes p)" "i \<le> j"
  shows "rejected_call p (nds[j := x]) i = rejected_call p nds i"
proof -
  have "nds[j := x] ! k = nds ! k" if "k < i" for k using that assms(3) by simp
  moreover have "argument_of p (call_of p i) k < i"
    if "rn_kind (pg_nodes p ! i) = NK_primitive_call" "k < semantic_count p (call_of p i)" for k
    using call_arguments(3) [OF assms(1,2) that] by simp
  ultimately have "arguments_of p (nds[j := x]) (call_of p i) = arguments_of p nds (call_of p i)"
    if "rn_kind (pg_nodes p ! i) = NK_primitive_call"
    using that by (simp add: arguments_of_def)
  then show ?thesis by (auto simp: rejected_call_def)
qed

definition type_failure_at ::
    "rewrite_program \<Rightarrow> rewrite_lowering_node list \<Rightarrow> nat \<Rightarrow> rewrite_evaluation_diagnostic \<Rightarrow> bool" where
  "type_failure_at p nds i d \<longleftrightarrow>
     i < length (pg_nodes p) \<and> rejected_call p nds i \<and> ed_stage d = ES_application \<and>
     er_kind (ed_error d) = EK_type_mismatch \<and> ed_call d = rc_span (call_of p i)"

definition first_type_failure :: "rewrite_program \<Rightarrow> nat \<Rightarrow> lowering_state \<Rightarrow> bool" where
  "first_type_failure p n st \<longleftrightarrow>
     (case ls_type_failure st of
        None \<Rightarrow> True
      | Some d \<Rightarrow> \<exists>i < n. type_failure_at p (ls_nodes st) i d \<and>
          (ls_arity_failure st = None \<longrightarrow> (\<forall>j < i. typed p (ls_nodes st) j)))"

text \<open>An arity that no signature has, of a call or of the tuple it spreads.\<close>

definition arity_error_at :: "rewrite_program \<Rightarrow> nat \<Rightarrow> rewrite_evaluation_diagnostic \<Rightarrow> bool" where
  "arity_error_at p i d \<longleftrightarrow>
     arity_failure_at p i d \<and>
     (\<exists>desc. call_descriptor (call_of p i) = Some desc \<and>
        \<not> arity_exists desc (semantic_count p (call_of p i))) \<and>
     (\<forall>j < i. \<not> plain_arity_error p j)"

definition type_inv :: "rewrite_program \<Rightarrow> nat \<Rightarrow> lowering_state \<Rightarrow> bool" where
  "type_inv p n st \<longleftrightarrow>
     (let N = length (pg_nodes p); nds = ls_nodes st; available = ls_available st in
      n \<le> N \<and> length nds = N \<and> length available = N \<and>
      (\<forall>i < N. if available ! i then i < n \<and> typed p nds i else nds ! i = start_node p i) \<and>
      (ls_arity_failure st = None \<and> ls_type_failure st = None \<longrightarrow> (\<forall>i < n. available ! i)) \<and>
      (case ls_arity_failure st of
         None \<Rightarrow> \<forall>j < N. \<not> plain_arity_error p j
       | Some (i, d) \<Rightarrow> arity_error_at p i d) \<and>
      first_type_failure p n st)"

lemma type_inv_parts:
  assumes "type_inv p n st"
  shows "n \<le> length (pg_nodes p)" "length (ls_nodes st) = length (pg_nodes p)"
    "length (ls_available st) = length (pg_nodes p)"
    "i < length (pg_nodes p) \<Longrightarrow> ls_available st ! i \<Longrightarrow> i < n \<and> typed p (ls_nodes st) i"
    "i < length (pg_nodes p) \<Longrightarrow> \<not> ls_available st ! i \<Longrightarrow> ls_nodes st ! i = start_node p i"
  using assms by (auto simp: type_inv_def Let_def)

text \<open>The step at an index may set the node there, or leave it and have a failure recorded.\<close>

lemma type_inv_set:
  assumes "lowerable p" "type_inv p n st" "n < length (pg_nodes p)"
    "typed p ((ls_nodes st)[n := x]) n" "ls_nodes st' = (ls_nodes st)[n := x]"
    "ls_available st' = (ls_available st)[n := True]" "ls_arity_failure st' = ls_arity_failure st"
    "ls_type_failure st' = ls_type_failure st"
  shows "type_inv p (n + 1) st'"
proof -
  note parts = type_inv_parts [OF assms(2)]
  have "if (ls_available st)[n := True] ! i then i < n + 1 \<and> typed p ((ls_nodes st)[n := x]) i
      else (ls_nodes st)[n := x] ! i = start_node p i" if "i < length (pg_nodes p)" for i
  proof (cases "i = n")
    case True
    then show ?thesis using assms(3,4) parts(3) by simp
  next
    case False
    then show ?thesis
      using parts(4,5) [OF that] that assms(1,3) by (auto simp: typed_update less_Suc_eq)
  qed
  moreover have "first_type_failure p (n + 1) st'"
  proof (cases "ls_type_failure st")
    case None
    then show ?thesis using assms(8) by (simp add: first_type_failure_def)
  next
    case (Some d)
    then obtain i where i: "i < n" "type_failure_at p (ls_nodes st) i d"
      "ls_arity_failure st = None \<longrightarrow> (\<forall>j < i. typed p (ls_nodes st) j)"
      using assms(2) by (auto simp: type_inv_def first_type_failure_def Let_def)
    then have "type_failure_at p ((ls_nodes st)[n := x]) i d"
      using rejected_call_update [OF assms(1), of i n] by (auto simp: type_failure_at_def)
    moreover have "ls_arity_failure st = None \<longrightarrow> (\<forall>j < i. typed p ((ls_nodes st)[n := x]) j)"
      using i(1,3) assms(3) typed_update [OF assms(1)] by simp
    ultimately show ?thesis
      using Some i(1) assms(5,7,8) unfolding first_type_failure_def
      by (auto intro!: exI [of _ i])
  qed
  ultimately show ?thesis
    using assms(2,3) parts
    unfolding type_inv_def Let_def assms(5-8)
    by (auto simp: nth_list_update less_Suc_eq split: option.splits)
qed

lemma type_inv_skip:
  assumes "type_inv p n st" "n < length (pg_nodes p)" "ls_nodes st' = ls_nodes st"
    "ls_available st' = ls_available st"
    "ls_arity_failure st' \<noteq> None \<or> ls_type_failure st' \<noteq> None"
    "case ls_arity_failure st' of
       None \<Rightarrow> \<forall>j < length (pg_nodes p). \<not> plain_arity_error p j | Some (i, d) \<Rightarrow> arity_error_at p i d"
    "first_type_failure p (n + 1) st'"
  shows "type_inv p (n + 1) st'"
proof -
  note parts = type_inv_parts [OF assms(1)]
  have "if ls_available st ! i then i < n + 1 \<and> typed p (ls_nodes st) i
      else ls_nodes st ! i = start_node p i" if "i < length (pg_nodes p)" for i
    using parts(4,5) [OF that] by auto
  then show ?thesis
    using assms(2,5-7) parts(1-3) unfolding type_inv_def Let_def assms(3,4) by fastforce
qed

section \<open>The steps of the type phase\<close>

definition admission_failure :: "rewrite_evaluation_diagnostic \<Rightarrow> bool" where
  "admission_failure d \<longleftrightarrow>
     ed_stage d = ES_resource_admission \<and> er_kind (ed_error d) = EK_resource_error"

text \<open>One step: an allocation was refused, or the invariant holds of the next index.\<close>

definition step_result :: "rewrite_program \<Rightarrow> nat \<Rightarrow> lowering_step \<Rightarrow> bool" where
  "step_result p n out \<longleftrightarrow>
     (case out of
        None \<Rightarrow> False
      | Some (Inl (d, h)) \<Rightarrow> admission_failure d
      | Some (Inr st) \<Rightarrow> type_inv p n st)"

lemma step_result_simps [simp]:
  "step_result p n (Some (Inl (d, h))) = admission_failure d"
  "step_result p n (Some (Inr st)) = type_inv p n st"
  "\<not> step_result p n None"
  by (simp_all add: step_result_def)

lemma admission_failures:
  "admission_failure (typed_lowering_failure nd r)"
  "admission_failure (admission_diagnostic nd (make_error_message EK_resource_error l m))"
  by (simp_all add: admission_failure_def typed_lowering_failure_def admission_diagnostic_def
      make_error_def make_error_message_def)

lemma all_available_eq:
  assumes "\<And>k. k \<in> set ks \<Longrightarrow> child k = Some (g k) \<and> g k < length av"
  shows "all_available av child ks = Some (list_all (\<lambda>k. av ! g k) ks)"
  using assms by (induction ks) auto

lemma clone_types_outcome:
  "\<exists>r h'. clone_types h tys = Some (r, h') \<and>
     (\<forall>clones. r = Inr clones \<longrightarrow>
        (\<forall>a \<in> set clones. arena_valid a) \<and> map type_of_arena clones = map type_of_arena tys)"
proof (induction tys arbitrary: h)
  case (Cons ty tys)
  obtain c h1 where c: "clone_type h ty = (c, h1)" by fastforce
  obtain r where r: "c = Some r" and ok: "tc_ok r \<Longrightarrow> arena_valid (tc_type r) \<and> type_of_arena (tc_type r) = type_of_arena ty"
    using clone_outcome [OF c] by (auto split: if_splits)
  show ?case
  proof (cases "tc_ok r")
    case True
    obtain s h2 where s: "clone_types h1 tys = Some (s, h2)"
      "\<forall>clones. s = Inr clones \<longrightarrow> (\<forall>a \<in> set clones. arena_valid a) \<and> map type_of_arena clones = map type_of_arena tys"
      using Cons.IH [of h1] by blast
    then show ?thesis using c r ok True by (cases s) auto
  next
    case False
    then show ?thesis using c r by simp
  qed
qed simp

lemma unavailable_failure:
  assumes "type_inv p n st" "i < n" "\<not> ls_available st ! i"
  shows "ls_arity_failure st \<noteq> None \<or> ls_type_failure st \<noteq> None"
  using assms by (auto simp: type_inv_def Let_def)

lemma type_inv_failures:
  assumes "type_inv p n st"
  shows "case ls_arity_failure st of None \<Rightarrow> \<forall>j < length (pg_nodes p). \<not> plain_arity_error p j
      | Some (i, d) \<Rightarrow> arity_error_at p i d"
    "first_type_failure p n st"
  using assms by (auto simp: type_inv_def Let_def less_Suc_eq split: option.splits)

lemma first_type_failure_Suc:
  "first_type_failure p n st \<Longrightarrow> first_type_failure p (n + 1) st"
  by (auto simp: first_type_failure_def less_Suc_eq split: option.splits)

lemma type_inv_all_typed:
  assumes "type_inv p n st" "ls_arity_failure st = None" "ls_type_failure st = None" "i < n"
  shows "typed p (ls_nodes st) i"
  using assms by (auto simp: type_inv_def Let_def)

lemma type_inv_keep:
  assumes "type_inv p n st" "n < length (pg_nodes p)"
    "ls_arity_failure st \<noteq> None \<or> ls_type_failure st \<noteq> None"
  shows "type_inv p (n + 1) st"
  by (rule type_inv_skip [OF assms(1,2) refl refl assms(3) type_inv_failures(1) [OF assms(1)]
        first_type_failure_Suc [OF type_inv_failures(2) [OF assms(1)]]])

lemma type_inv_stay:
  assumes "type_inv p n st" "n < length (pg_nodes p)" "i < n" "\<not> ls_available st ! i"
  shows "type_inv p (n + 1) st"
  by (rule type_inv_keep [OF assms(1,2) unavailable_failure [OF assms(1,3,4)]])

lemma type_inv_current:
  assumes "type_inv p n st" "n < length (pg_nodes p)"
  shows "\<not> ls_available st ! n" "ls_nodes st ! n = start_node p n"
  using type_inv_parts(4,5) [OF assms(1,2)] by auto

lemma set_node_sel [simp]:
  "ls_nodes (set_node n x st) = (ls_nodes st)[n := x]"
  "ls_available (set_node n x st) = (ls_available st)[n := True]"
  "ls_arity_failure (set_node n x st) = ls_arity_failure st"
  "ls_type_failure (set_node n x st) = ls_type_failure st"
  "ls_host (set_node n x st) = ls_host st"
  by (simp_all add: set_node_def)

lemma placeholder_type_step:
  assumes "lowerable p" "type_inv p n st" "n < length (pg_nodes p)"
    "rn_kind (pg_nodes p ! n) = NK_placeholder"
  shows "step_result p (n + 1) (placeholder_type n (pg_nodes p ! n) st)"
proof -
  let ?nd = "pg_nodes p ! n" and ?t = "rn_first_element (pg_nodes p ! n)"
  note parts = type_inv_parts [OF assms(2)] and here = type_inv_current [OF assms(2,3)]
  have t: "?t < n" using lowerable_node [OF assms(1,3)] assms(4) by (simp add: node_lowerable_def)
  show ?thesis
  proof (cases "ls_available st ! ?t")
    case True
    obtain c h1 where c: "clone_type (ls_host st) (ln_structural_type (ls_nodes st ! ?t)) = (c, h1)"
      by fastforce
    obtain r where r: "c = Some r" and ok: "tc_ok r \<Longrightarrow> arena_valid (tc_type r) \<and>
        type_of_arena (tc_type r) = denoted (ls_nodes st ! ?t)"
      using clone_outcome [OF c] by (auto split: if_splits)
    show ?thesis
    proof (cases "tc_ok r")
      case False
      then show ?thesis
        using t True c r parts assms(3)
        by (simp add: placeholder_type_def admission_failures)
    next
      case ok': True
      let ?o = "ls_nodes st ! ?t"
      let ?x = "(ls_nodes st ! n)\<lparr>ln_cardinality := ln_cardinality ?o, ln_element_type := ln_element_type ?o,
          ln_element_count := ln_element_count ?o, ln_structural_type := tc_type r\<rparr>"
      have "typed p ((ls_nodes st)[n := ?x]) n"
        using assms(3,4) t ok [OF ok'] here(2) parts(2)
        by (auto simp: typed_def typed_placeholder_def Let_def)
      then have "type_inv p (n + 1) (set_node n ?x (st\<lparr>ls_host := h1\<rparr>))"
        by (rule type_inv_set [OF assms(1-3)]) simp_all
      then show ?thesis
        using t True c r ok' parts assms(3) by (simp add: placeholder_type_def)
    qed
  next
    case False
    then show ?thesis
      using type_inv_stay [OF assms(2,3) t False] t parts(3) assms(3)
      by (simp add: placeholder_type_def)
  qed
qed

lemma tuple_type_step:
  assumes "lowerable p" "type_inv p n st" "n < length (pg_nodes p)" "is_tuple_node (pg_nodes p ! n)"
  shows "step_result p (n + 1) (tuple_type p n (pg_nodes p ! n) st)"
proof -
  let ?nd = "pg_nodes p ! n" and ?ks = "[0..<rn_element_count (pg_nodes p ! n)]"
  note parts = type_inv_parts [OF assms(2)] and here = type_inv_current [OF assms(2,3)]
  have child: "tuple_child p ?nd k = Some (child_of p ?nd k) \<and> child_of p ?nd k < n"
    if "k \<in> set ?ks" for k
    using tuple_child [OF lowerable_node [OF assms(1,3)] assms(4)] that by auto
  then have avail: "all_available (ls_available st) (tuple_child p ?nd) ?ks =
      Some (list_all (\<lambda>k. ls_available st ! child_of p ?nd k) ?ks)"
    using parts(3) assms(3) by (intro all_available_eq) (metis order_less_trans)
  show ?thesis
  proof (cases "list_all (\<lambda>k. ls_available st ! child_of p ?nd k) ?ks")
    case True
    have children: "those (map (tuple_child p ?nd) ?ks) = Some (map (child_of p ?nd) ?ks)"
      using child by (intro those_Some) auto
    have elements: "read_nodes (ls_nodes st) (map (child_of p ?nd) ?ks) =
        Some (map (\<lambda>k. ls_nodes st ! child_of p ?nd k) ?ks)"
    proof -
      have "read_nodes (ls_nodes st) (map (child_of p ?nd) ?ks) =
          Some (map ((!) (ls_nodes st)) (map (child_of p ?nd) ?ks))"
        using child parts(2) assms(3) by (intro read_nodes_Some) force
      then show ?thesis by (simp add: comp_def)
    qed
    let ?tys = "map (\<lambda>k. ln_structural_type (ls_nodes st ! child_of p ?nd k)) ?ks"
    obtain c h1 where c: "clone_types (ls_host st) ?tys = Some (c, h1)"
      and clones: "\<forall>clones. c = Inr clones \<longrightarrow> (\<forall>a \<in> set clones. arena_valid a) \<and>
        map type_of_arena clones = map type_of_arena ?tys"
      using clone_types_outcome by blast
    show ?thesis
    proof (cases c)
      case (Inl reason)
      then show ?thesis
        using avail True children elements c by (simp add: tuple_type_def comp_def admission_failures)
    next
      case (Inr tys)
      obtain m h2 where m: "make_tuple_type h1 tys = (m, h2)" by fastforce
      obtain r where r: "m = Some r" and ok: "tc_ok r \<Longrightarrow> arena_valid (tc_type r) \<and>
          type_of_arena (tc_type r) = TyTuple (map type_of_arena tys)"
        using make_tuple_outcome [OF m] by (auto split: if_splits)
      have same: "map type_of_arena tys = map (\<lambda>k. denoted (ls_nodes st ! child_of p ?nd k)) ?ks"
        using clones Inr by (simp add: comp_def)
      show ?thesis
      proof (cases "tc_ok r")
        case False
        then show ?thesis
          using avail True children elements c Inr m r
          by (simp add: tuple_type_def comp_def admission_failures)
      next
        case ok': True
        let ?x = "(ls_nodes st ! n)\<lparr>ln_structural_type := tc_type r\<rparr>"
        have "map (\<lambda>k. denoted ((ls_nodes st)[n := ?x] ! child_of p ?nd k)) ?ks =
            map (\<lambda>k. denoted (ls_nodes st ! child_of p ?nd k)) ?ks"
          using child by (intro map_cong) force+
        then have "typed p ((ls_nodes st)[n := ?x]) n"
          using assms(3,4) ok [OF ok'] here(2) parts(2) tuple_node_not_placeholder [OF assms(4)] same
          by (auto simp: typed_def typed_tuple_def Let_def)
        then have "type_inv p (n + 1) (set_node n ?x (st\<lparr>ls_host := h2\<rparr>))"
          by (rule type_inv_set [OF assms(1-3)]) simp_all
        then show ?thesis
          using avail True children elements c Inr m r ok' parts assms(3)
          by (simp add: tuple_type_def comp_def)
      qed
    qed
  next
    case False
    then obtain k where k: "k \<in> set ?ks" "\<not> ls_available st ! child_of p ?nd k"
      by (auto simp: list_all_iff)
    have "type_inv p (n + 1) st"
      using child [OF k(1)] k(2) by (intro type_inv_stay [OF assms(2,3), of "child_of p ?nd k"]) simp_all
    then show ?thesis using avail False by (simp add: tuple_type_def)
  qed
qed

lemma actual_types_returns: "\<exists>tys h'. actual_types h nds = Some (tys, h')"
proof (induction nds arbitrary: h)
  case (Cons nd nds)
  obtain c h1 where c: "clone_type h (ln_structural_type nd) = (c, h1)" by fastforce
  then obtain r where "c = Some r" using clone_outcome [OF c] by blast
  then show ?case using c Cons.IH [of h1] by auto
qed simp

lemma lowering_type_error_returns:
  "\<exists>e h'. lowering_type_error h c desc args = Some (e, h') \<and> er_kind e = EK_type_mismatch"
proof -
  obtain e h1 where e: "lowering_primitive_error h EK_type_mismatch desc
      (rewrite_source_location (rs_begin (rc_name_span c))) = (e, h1)" by fastforce
  then have "er_kind e = EK_type_mismatch"
    by (auto simp: lowering_primitive_error_def make_error_def make_error_message_def split: prod.splits)
  then show ?thesis using e actual_types_returns [of h1 args] by (auto simp: lowering_type_error_def Let_def)
qed

lemma signature_of_selected:
  "select_lowering_signature desc args = Some sig \<Longrightarrow> sig \<in> set (pd_signatures desc)"
  by (auto simp: select_lowering_signature_def find_Some_iff select_primitive_signature_def Let_def at_def
      split: if_splits option.splits)

lemma call_type_step:
  assumes "lowerable p" "type_inv p n st" "n < length (pg_nodes p)"
    "rn_kind (pg_nodes p ! n) = NK_primitive_call" "has_descriptor p n"
    "case ls_arity_failure st of None \<Rightarrow> True | Some (i, d) \<Rightarrow> n \<le> i"
  shows "step_result p (n + 1) (call_type p n (pg_nodes p ! n) st)"
proof -
  let ?c = "call_of p n"
  let ?count = "semantic_count p ?c" and ?spread = "prefix_tuple_operand p ?c"
  note parts = type_inv_parts [OF assms(2)] and here = type_inv_current [OF assms(2,3)]
  note args = call_arguments [OF assms(1,3,4)]
  have call: "at (pg_calls p) (rn_call_index (pg_nodes p ! n)) = Some ?c"
    using args(1) by (simp add: call_of_def)
  obtain desc where desc: "call_descriptor ?c = Some desc" using assms(4,5) by (auto simp: has_descriptor_def)
  have spread: "(case ?spread of None \<Rightarrow> Some True | Some operand \<Rightarrow> at (ls_available st) operand) =
      Some (case ?spread of None \<Rightarrow> True | Some operand \<Rightarrow> ls_available st ! operand)"
    using args(4) parts(3) assms(3) by (auto split: option.splits)
  note unfolded = call_type_def call desc args(2) spread
  have avail: "all_available (ls_available st) (semantic_argument_node p ?c) [0..<?count] =
      Some (list_all (\<lambda>k. ls_available st ! argument_of p ?c k) [0..<?count])"
    using args(3) parts(3) assms(3) by (intro all_available_eq) (metis atLeastLessThan_iff order_less_trans set_upt)
  show ?thesis
  proof (cases "case ?spread of None \<Rightarrow> True | Some operand \<Rightarrow> ls_available st ! operand")
    case False
    then obtain operand where "?spread = Some operand" "\<not> ls_available st ! operand"
      by (auto split: option.splits)
    then have "type_inv p (n + 1) st"
      using args(4) by (intro type_inv_stay [OF assms(2,3)]) auto
    then show ?thesis using False by (simp add: unfolded Let_def)
  next
    case ready: True
    show ?thesis
    proof (cases "arity_exists desc ?count")
      case False
      show ?thesis
      proof (cases "?spread = None")
        case True
        then have plain: "plain_arity_error p n"
          using assms(4) desc False by (simp add: plain_arity_error_def semantic_count_def)
        then have "ls_arity_failure st \<noteq> None"
          using type_inv_failures(1) [OF assms(2)] assms(3) by (cases "ls_arity_failure st") auto
        then have "type_inv p (n + 1) st" by (intro type_inv_keep [OF assms(2,3)]) simp
        then show ?thesis using ready False True by (simp add: unfolded Let_def)
      next
        case spreads: False
        show ?thesis
        proof (cases "case ls_arity_failure st of None \<Rightarrow> True | Some (failed_index, _) \<Rightarrow> n < failed_index")
          case True
          obtain d h1 where d: "arity_diagnostic (ls_host st) p ?c desc ?count = Some (d, h1)"
            "arity_failure_at p n d"
            using arity_diagnostic_returns [OF assms(1,3,4), of "ls_host st" desc ?count] assms(3,4)
            by (auto simp: arity_failure_at_def)
          have "\<not> plain_arity_error p j" if "j < n" for j
          proof (cases "ls_arity_failure st")
            case None
            then show ?thesis using type_inv_failures(1) [OF assms(2)] assms(3) that by simp
          next
            case (Some x)
            then have "arity_error_at p (fst x) (snd x)" "n < fst x"
              using type_inv_failures(1) [OF assms(2)] True by (simp_all add: case_prod_beta)
            then show ?thesis using that by (simp add: arity_error_at_def)
          qed
          then have "arity_error_at p n d" using d(2) desc False by (simp add: arity_error_at_def)
          then have "type_inv p (n + 1) (st\<lparr>ls_arity_failure := Some (n, d), ls_host := h1\<rparr>)"
            using first_type_failure_Suc [OF type_inv_failures(2) [OF assms(2)]]
            by (intro type_inv_skip [OF assms(2,3)])
               (auto simp: first_type_failure_def split: option.splits)
          then show ?thesis using ready False spreads True d(1) by (simp add: unfolded Let_def)
        next
          case no: False
          then have "type_inv p (n + 1) st"
            by (intro type_inv_keep [OF assms(2,3)]) (auto split: option.splits)
          then show ?thesis using ready False spreads no by (simp add: unfolded Let_def)
        qed
      qed
    next
      case arity: True
      show ?thesis
      proof (cases "list_all (\<lambda>k. ls_available st ! argument_of p ?c k) [0..<?count]")
        case False
        then obtain k where k: "k < ?count" "\<not> ls_available st ! argument_of p ?c k"
          by (auto simp: list_all_iff)
        have "type_inv p (n + 1) st"
          using args(3) [OF k(1)] k(2) by (intro type_inv_stay [OF assms(2,3)]) auto
        then show ?thesis using ready arity avail False by (simp add: unfolded Let_def)
      next
        case True
        have indexes: "argument_nodes p ?c ?count = Some (map (argument_of p ?c) [0..<?count])"
          unfolding argument_nodes_def using args(3) by (intro those_Some) auto
        have "read_nodes (ls_nodes st) (map (argument_of p ?c) [0..<?count]) =
            Some (map ((!) (ls_nodes st)) (map (argument_of p ?c) [0..<?count]))"
          using args(3) parts(2) assms(3) by (intro read_nodes_Some) force
        then have nodes: "read_nodes (ls_nodes st) (map (argument_of p ?c) [0..<?count]) =
            Some (arguments_of p (ls_nodes st) ?c)"
          by (simp add: arguments_of_def comp_def)
        show ?thesis
        proof (cases "select_lowering_signature desc (arguments_of p (ls_nodes st) ?c)")
          case None
          then have rejected: "rejected_call p (ls_nodes st) n"
            using assms(4) desc arity by (simp add: rejected_call_def)
          show ?thesis
          proof (cases "ls_type_failure st = None")
            case True
            obtain e h1 where e: "lowering_type_error (ls_host st) ?c desc (arguments_of p (ls_nodes st) ?c) = Some (e, h1)"
              "er_kind e = EK_type_mismatch" using lowering_type_error_returns by blast
            obtain d where d: "lowering_diagnostic p ?c e = Some d" "ed_stage d = ES_application"
              "er_kind (ed_error d) = er_kind e" "ed_call d = rc_span ?c"
              using lowering_diagnostic_returns [OF assms(1,3,4), of e] by blast
            have "type_failure_at p (ls_nodes st) n d"
              using assms(3) rejected d e(2) by (simp add: type_failure_at_def)
            then have "first_type_failure p (n + 1) (st\<lparr>ls_type_failure := Some d, ls_host := h1\<rparr>)"
              using type_inv_all_typed [OF assms(2) _ True]
              by (auto simp: first_type_failure_def intro!: exI [of _ n])
            then have "type_inv p (n + 1) (st\<lparr>ls_type_failure := Some d, ls_host := h1\<rparr>)"
              using type_inv_failures(1) [OF assms(2)] by (intro type_inv_skip [OF assms(2,3)]) auto
            then show ?thesis
              using ready arity avail \<open>list_all _ _\<close> indexes nodes None True e(1) d(1)
              by (simp add: unfolded Let_def)
          next
            case False
            then have "type_inv p (n + 1) st" by (intro type_inv_keep [OF assms(2,3)]) simp
            then show ?thesis
              using ready arity avail \<open>list_all _ _\<close> indexes nodes None False
              by (simp add: unfolded Let_def)
          qed
        next
          case (Some sig)
          let ?x = "lowered_call ?c desc sig ?count ?spread (ls_nodes st ! n)"
          have "n \<noteq> argument_of p ?c k" if "k < ?count" for k using args(3) [OF that] by simp
          then have "arguments_of p ((ls_nodes st)[n := ?x]) ?c = arguments_of p (ls_nodes st) ?c"
            by (simp add: arguments_of_def)
          then have "typed p ((ls_nodes st)[n := ?x]) n"
            using assms(3,4) Some desc arity here(2) parts(2)
            by (auto simp: typed_def typed_call_def is_tuple_node_def Let_def)
          then have "type_inv p (n + 1) (set_node n ?x st)"
            by (rule type_inv_set [OF assms(1-3)]) simp_all
          then show ?thesis
            using ready arity avail True indexes nodes Some parts assms(3)
            by (simp add: unfolded Let_def)
        qed
      qed
    qed
  qed
qed

section \<open>The type phase\<close>

lemma type_step_result:
  assumes "lowerable p" "type_inv p n st" "n < length (pg_nodes p)" "has_descriptor p n"
    "case ls_arity_failure st of None \<Rightarrow> True | Some (i, d) \<Rightarrow> n \<le> i"
  shows "step_result p (n + 1) (type_step p n st)"
proof -
  let ?nd = "pg_nodes p ! n"
  note here = type_inv_current [OF assms(2,3)] and parts = type_inv_parts [OF assms(2)]
  consider "rn_kind ?nd = NK_placeholder" | "is_tuple_node ?nd"
    | "rn_kind ?nd = NK_primitive_call"
    | "rn_kind ?nd \<noteq> NK_placeholder" "\<not> is_tuple_node ?nd" "rn_kind ?nd \<noteq> NK_primitive_call"
    by blast
  then show ?thesis
  proof cases
    case 1
    then show ?thesis
      using placeholder_type_step [OF assms(1-3)] assms(3) by (simp add: type_step_def)
  next
    case 2
    then show ?thesis
      using tuple_type_step [OF assms(1-3)] assms(3) tuple_node_not_placeholder
      by (auto simp: type_step_def)
  next
    case 3
    then show ?thesis
      using call_type_step [OF assms(1-3) 3 assms(4,5)] assms(3)
      by (simp add: type_step_def is_tuple_node_def)
  next
    case 4
    let ?st = "st\<lparr>ls_available := (ls_available st)[n := True]\<rparr>"
    have "typed p ((ls_nodes st)[n := ls_nodes st ! n]) n"
      using 4 here(2) parts(2) assms(3) by (simp add: typed_def)
    then have "type_inv p (n + 1) ?st"
      by (rule type_inv_set [OF assms(1-3)]) simp_all
    then show ?thesis using 4 assms(3) by (simp add: type_step_def)
  qed
qed

definition type_result :: "rewrite_program \<Rightarrow> lowering_step \<Rightarrow> bool" where
  "type_result p out \<longleftrightarrow>
     (case out of
        None \<Rightarrow> False
      | Some (Inl (d, h)) \<Rightarrow> admission_failure d
      | Some (Inr st) \<Rightarrow> \<exists>n. type_inv p n st \<and> (n = length (pg_nodes p) \<or> ls_arity_failure st \<noteq> None))"

lemma type_phase_result:
  assumes "lowerable p" "\<forall>i < length (pg_nodes p). has_descriptor p i" "type_inv p n st"
  shows "type_result p (type_phase p [n..<length (pg_nodes p)] st)"
  using assms(3)
proof (induction "length (pg_nodes p) - n" arbitrary: n st)
  case 0
  then show ?case using type_inv_parts(1) [OF 0(2)] by (auto simp: type_result_def)
next
  case (Suc m)
  then have n: "n < length (pg_nodes p)" by simp
  then have split: "[n..<length (pg_nodes p)] = n # [n + 1..<length (pg_nodes p)]"
    by (simp add: upt_conv_Cons)
  show ?case
  proof (cases "case ls_arity_failure st of None \<Rightarrow> False | Some (failed_index, _) \<Rightarrow> n > failed_index")
    case True
    then have "ls_arity_failure st \<noteq> None" by (auto split: option.splits)
    then show ?thesis using True Suc.prems split by (auto simp: type_result_def)
  next
    case False
    then have "case ls_arity_failure st of None \<Rightarrow> True | Some (i, d) \<Rightarrow> n \<le> i"
      by (auto split: option.splits)
    from type_step_result [OF assms(1) Suc.prems n _ this] assms(2) n
    have step: "step_result p (n + 1) (type_step p n st)" by simp
    show ?thesis
    proof (cases "type_step p n st")
      case None
      then show ?thesis using step by simp
    next
      case (Some out)
      show ?thesis
      proof (cases out)
        case (Inl x)
        then show ?thesis using step Some False split by (cases x) (simp add: type_result_def)
      next
        case (Inr st')
        then have "type_inv p (n + 1) st'" using step Some by simp
        then have "type_result p (type_phase p [n + 1..<length (pg_nodes p)] st')"
          using Suc.hyps by simp
        then show ?thesis using Some Inr False split by simp
      qed
    qed
  qed
qed

lemma type_inv_start:
  assumes "case failure of None \<Rightarrow> \<forall>j < length (pg_nodes p). \<not> plain_arity_error p j
      | Some (i, d) \<Rightarrow> arity_error_at p i d"
  shows "type_inv p 0 \<lparr>ls_nodes = map (start_node p) [0..<length (pg_nodes p)],
      ls_available = replicate (length (pg_nodes p)) False, ls_arity_failure = failure,
      ls_type_failure = None, ls_host = h\<rparr>"
  using assms by (simp add: type_inv_def first_type_failure_def Let_def)

section \<open>Shapes\<close>

definition is_vector :: "rewrite_lowering_node \<Rightarrow> bool" where
  "is_vector nd \<longleftrightarrow> ln_cardinality nd \<noteq> RC_scalar"

definition is_dynamic :: "rewrite_lowering_node \<Rightarrow> bool" where
  "is_dynamic nd \<longleftrightarrow> ln_cardinality nd = RC_dynamic_vector"

definition is_static :: "rewrite_lowering_node \<Rightarrow> bool" where
  "is_static nd \<longleftrightarrow> is_vector nd \<and> \<not> is_dynamic nd"


lemma argument_shapes_Cons:
  "argument_shapes k (nd # nds) kl dyn vc =
     (if is_static nd
      then (case kl of
              None \<Rightarrow> argument_shapes (k + 1) nds (Some (ln_element_count nd)) dyn (vc + 1)
            | Some n \<Rightarrow>
                if n \<noteq> ln_element_count nd then Inl (k, n, ln_element_count nd)
                else argument_shapes (k + 1) nds kl dyn (vc + 1))
      else argument_shapes (k + 1) nds kl (dyn \<or> is_dynamic nd) (if is_vector nd then vc + 1 else vc))"
  by (auto simp: is_static_def is_vector_def is_dynamic_def split: option.splits)

lemma argument_shapes_fit:
  "argument_shapes k nds kl dyn vc = Inr (kl', dyn', vc') \<Longrightarrow>
     dyn' = (dyn \<or> (\<exists>nd \<in> set nds. is_dynamic nd)) \<and> vc' = vc + length (filter is_vector nds) \<and>
     (\<forall>nd \<in> set nds. is_static nd \<longrightarrow> kl' = Some (ln_element_count nd)) \<and>
     (kl \<noteq> None \<longrightarrow> kl' = kl) \<and>
     (kl = None \<longrightarrow> kl' \<noteq> None \<longrightarrow> (\<exists>nd \<in> set nds. is_static nd))"
proof (induction nds arbitrary: k kl dyn vc)
  case (Cons nd nds)
  have vector: "is_static nd \<Longrightarrow> is_vector nd" "is_static nd \<Longrightarrow> \<not> is_dynamic nd" "is_dynamic nd \<Longrightarrow> is_vector nd"
    by (auto simp: is_static_def is_dynamic_def is_vector_def)
  show ?case
  proof (cases "is_static nd")
    case True
    then have "argument_shapes (k + 1) nds (Some (ln_element_count nd)) dyn (vc + 1) = Inr (kl', dyn', vc')"
      "kl = None \<or> kl = Some (ln_element_count nd)"
      using Cons.prems unfolding argument_shapes_Cons by (auto split: option.splits if_splits)
    from Cons.IH [OF this(1)] this(2) True vector show ?thesis by auto
  next
    case False
    then have "argument_shapes (k + 1) nds kl (dyn \<or> is_dynamic nd) (if is_vector nd then vc + 1 else vc) =
        Inr (kl', dyn', vc')"
      using Cons.prems unfolding argument_shapes_Cons by simp
    from Cons.IH [OF this] False show ?thesis by auto
  qed
qed simp

lemma argument_shapes_mismatch:
  "argument_shapes k nds kl dyn vc = Inl (j, expected, actual) \<Longrightarrow>
     \<exists>pre nd post. nds = pre @ nd # post \<and> j = k + length pre \<and> is_static nd \<and>
       actual = ln_element_count nd \<and> expected \<noteq> actual \<and>
       (\<forall>nd \<in> set pre. is_static nd \<longrightarrow> ln_element_count nd = expected) \<and>
       (kl = Some expected \<or> kl = None \<and> (\<exists>nd \<in> set pre. is_static nd))"
proof (induction nds arbitrary: k kl dyn vc)
  case (Cons nd nds)
  have step: ?case
    if "argument_shapes (k + 1) nds kl' dyn' vc' = Inl (j, expected, actual)"
      "kl = kl' \<and> (is_static nd \<longrightarrow> kl = Some (ln_element_count nd)) \<or>
       kl = None \<and> kl' = Some (ln_element_count nd) \<and> is_static nd" for kl' dyn' vc'
  proof -
    note rest = that
    obtain pre bad post where "nds = pre @ bad # post" "j = k + 1 + length pre" "is_static bad"
      "actual = ln_element_count bad" "expected \<noteq> actual"
      "\<forall>nd \<in> set pre. is_static nd \<longrightarrow> ln_element_count nd = expected"
      "kl' = Some expected \<or> kl' = None \<and> (\<exists>nd \<in> set pre. is_static nd)"
      using Cons.IH [OF rest(1)] by blast
    then show ?thesis using rest(2) by (intro exI [of _ "nd # pre"] exI [of _ bad] exI [of _ post]) auto
  qed
  show ?case
  proof (cases "is_static nd")
    case True
    then consider "argument_shapes (k + 1) nds (Some (ln_element_count nd)) dyn (vc + 1) = Inl (j, expected, actual)"
        "kl = None \<or> kl = Some (ln_element_count nd)"
      | "j = k" "kl = Some expected" "expected \<noteq> actual" "actual = ln_element_count nd"
      using Cons.prems unfolding argument_shapes_Cons by (auto split: option.splits if_splits)
    then show ?thesis
    proof cases
      case 1
      then show ?thesis using step True by blast
    next
      case 2
      then show ?thesis using True by (intro exI [of _ "[]"] exI [of _ nd] exI [of _ nds]) simp
    qed
  next
    case False
    then show ?thesis using Cons.prems step unfolding argument_shapes_Cons by simp
  qed
qed simp

text \<open>The shape of a node follows from those of its arguments; \<open>before\<close> are the typed nodes.\<close>

definition shaped ::
    "rewrite_program \<Rightarrow> rewrite_lowering_node list \<Rightarrow> rewrite_lowering_node list \<Rightarrow> nat \<Rightarrow> bool" where
  "shaped p before nds i \<longleftrightarrow>
     (if rn_kind (pg_nodes p ! i) \<noteq> NK_primitive_call then nds ! i = before ! i
      else if ln_implementation (before ! i) = IM_iota_integer
      then nds ! i = (before ! i)\<lparr>ln_cardinality := RC_dynamic_vector, ln_element_count := 0\<rparr>
      else \<exists>kl dyn vc. argument_shapes 0 (arguments_of p nds (call_of p i)) None False 0 = Inr (kl, dyn, vc) \<and>
             nds ! i = shaped_call kl dyn vc (before ! i))"

definition shape_inv ::
    "rewrite_program \<Rightarrow> nat \<Rightarrow> rewrite_lowering_node list \<Rightarrow> rewrite_lowering_node list \<Rightarrow> bool" where
  "shape_inv p n before nds \<longleftrightarrow>
     length nds = length (pg_nodes p) \<and> (\<forall>i < n. shaped p before nds i) \<and>
     (\<forall>i < length (pg_nodes p). n \<le> i \<longrightarrow> nds ! i = before ! i)"

text \<open>The first call two of whose vector arguments have different known lengths.\<close>

definition shape_failure_at ::
    "rewrite_program \<Rightarrow> rewrite_lowering_node list \<Rightarrow> nat \<Rightarrow> rewrite_evaluation_diagnostic \<Rightarrow> bool" where
  "shape_failure_at p before i d \<longleftrightarrow>
     i < length (pg_nodes p) \<and> rn_kind (pg_nodes p ! i) = NK_primitive_call \<and>
     ed_stage d = ES_application \<and> er_kind (ed_error d) = EK_shape_mismatch \<and>
     ed_call d = rc_span (call_of p i) \<and>
     (\<exists>nds j expected actual. shape_inv p i before nds \<and>
        argument_shapes 0 (arguments_of p nds (call_of p i)) None False 0 = Inl (j, expected, actual) \<and>
        er_argument_position (ed_error d) = Some (j + 1) \<and>
        er_shape (ed_error d) = Some \<lparr>sx_expected = [expected], sx_actual = [actual]\<rparr>)"

lemma arguments_of_update:
  assumes "lowerable p" "i < length (pg_nodes p)" "rn_kind (pg_nodes p ! i) = NK_primitive_call" "i \<le> j"
  shows "arguments_of p (nds[j := x]) (call_of p i) = arguments_of p nds (call_of p i)"
proof -
  have "j \<noteq> argument_of p (call_of p i) k" if "k < semantic_count p (call_of p i)" for k
    using call_arguments(3) [OF assms(1-3) that] assms(4) by simp
  then show ?thesis by (simp add: arguments_of_def)
qed

lemma shaped_update:
  assumes "lowerable p" "i < length (pg_nodes p)" "i < j"
  shows "shaped p before (nds[j := x]) i = shaped p before nds i"
  using arguments_of_update [OF assms(1,2), of j nds x] assms(3) by (simp add: shaped_def)

lemma shape_inv_set:
  assumes "lowerable p" "shape_inv p n before nds" "n < length (pg_nodes p)" "shaped p before (nds[n := x]) n"
  shows "shape_inv p (n + 1) before (nds[n := x])"
  using assms shaped_update [OF assms(1), of _ n before nds x]
  by (auto simp: shape_inv_def less_Suc_eq)

lemma shape_arguments:
  assumes "lowerable p" "i < length (pg_nodes p)" "rn_kind (pg_nodes p ! i) = NK_primitive_call"
    "typed_call p before i" "length nds = length (pg_nodes p)"
  shows "those (map (shape_argument_node p (call_of p i) (before ! i)) [0..<ln_argument_count (before ! i)]) =
      Some (map (argument_of p (call_of p i)) [0..<semantic_count p (call_of p i)])"
    "read_nodes nds (map (argument_of p (call_of p i)) [0..<semantic_count p (call_of p i)]) =
      Some (arguments_of p nds (call_of p i))"
proof -
  let ?c = "call_of p i"
  note args = call_arguments [OF assms(1-3)]
  have fields: "ln_argument_count (before ! i) = semantic_count p ?c"
    "ln_spreads_tuple (before ! i) = (prefix_tuple_operand p ?c \<noteq> None)"
    "prefix_tuple_operand p ?c = Some operand \<Longrightarrow> ln_spread_operand (before ! i) = operand" for operand
    using assms(4) by (auto simp: typed_call_def Let_def lowered_call_def)
  have "shape_argument_node p ?c (before ! i) k = semantic_argument_node p ?c k" for k
    using fields by (auto simp: shape_argument_node_def semantic_argument_node_def split: option.splits)
  then show "those (map (shape_argument_node p ?c (before ! i)) [0..<ln_argument_count (before ! i)]) =
      Some (map (argument_of p ?c) [0..<semantic_count p ?c])"
    unfolding fields(1) using args(3) by (intro those_Some) simp
  have "read_nodes nds (map (argument_of p ?c) [0..<semantic_count p ?c]) =
      Some (map ((!) nds) (map (argument_of p ?c) [0..<semantic_count p ?c]))"
    using args(3) assms(2,5) by (intro read_nodes_Some) force
  then show "read_nodes nds (map (argument_of p ?c) [0..<semantic_count p ?c]) = Some (arguments_of p nds ?c)"
    by (simp add: arguments_of_def comp_def)
qed

lemma shape_diagnostic:
  assumes "lowerable p" "i < length (pg_nodes p)" "rn_kind (pg_nodes p ! i) = NK_primitive_call"
  shows "\<exists>e h' d. shape_error h (call_of p i) desc (j, expected, actual) = (e, h') \<and>
     lowering_diagnostic p (call_of p i) e = Some d \<and> ed_stage d = ES_application \<and>
     er_kind (ed_error d) = EK_shape_mismatch \<and> ed_call d = rc_span (call_of p i) \<and>
     er_argument_position (ed_error d) = Some (j + 1) \<and>
     er_shape (ed_error d) = Some \<lparr>sx_expected = [expected], sx_actual = [actual]\<rparr>"
proof -
  obtain e h' where e: "shape_error h (call_of p i) desc (j, expected, actual) = (e, h')" by fastforce
  then have fields: "er_kind e = EK_shape_mismatch" "er_argument_position e = Some (j + 1)"
    "er_shape e = Some \<lparr>sx_expected = [expected], sx_actual = [actual]\<rparr>"
    by (auto simp: shape_error_def lowering_primitive_error_def make_error_def make_error_message_def
        split: prod.splits)
  obtain d where d: "lowering_diagnostic p (call_of p i) e = Some d" "ed_stage d = ES_application"
    "er_kind (ed_error d) = er_kind e" "ed_call d = rc_span (call_of p i)"
    using lowering_diagnostic_returns [OF assms] by blast
  have "\<exists>l. ed_error d = e\<lparr>er_location := l\<rparr>"
    using d(1) by (auto simp: lowering_diagnostic_def Let_def split: Option.bind_splits)
  then show ?thesis using e fields d by auto
qed

definition shape_outcome ::
    "rewrite_program \<Rightarrow> rewrite_lowering_node list
     \<Rightarrow> ((rewrite_evaluation_diagnostic + rewrite_lowering_node list) \<times> host_state) option \<Rightarrow> bool" where
  "shape_outcome p before out \<longleftrightarrow>
     (case out of
        None \<Rightarrow> False
      | Some (Inl d, h) \<Rightarrow> \<exists>i. shape_failure_at p before i d
      | Some (Inr nds, h) \<Rightarrow> shape_inv p (length (pg_nodes p)) before nds)"

lemma shape_phase_outcome:
  assumes "lowerable p" "\<forall>i < length (pg_nodes p). typed p before i" "shape_inv p n before nds"
    "n \<le> length (pg_nodes p)"
  shows "shape_outcome p before (shape_phase p [n..<length (pg_nodes p)] nds h)"
  using assms(3,4)
proof (induction "length (pg_nodes p) - n" arbitrary: n nds h)
  case 0
  then show ?case by (simp add: shape_outcome_def)
next
  case (Suc m)
  then have n: "n < length (pg_nodes p)" by simp
  then have split: "[n..<length (pg_nodes p)] = n # [n + 1..<length (pg_nodes p)]"
    by (simp add: upt_conv_Cons)
  have len: "length nds = length (pg_nodes p)" and same: "nds ! n = before ! n"
    using Suc.prems(1) n by (simp_all add: shape_inv_def)
  have continue: "shape_outcome p before (shape_phase p [n + 1..<length (pg_nodes p)] (nds[n := x]) h)"
    if "shaped p before (nds[n := x]) n" for x h
    using Suc.hyps(1) [of "n + 1" "nds[n := x]" h] shape_inv_set [OF assms(1) Suc.prems(1) n that] n
      Suc.hyps(2) by simp
  show ?case
  proof (cases "rn_kind (pg_nodes p ! n) = NK_primitive_call")
    case False
    then have "shaped p before (nds[n := nds ! n]) n" using same len n by (simp add: shaped_def)
    from continue [OF this] show ?thesis using split False n by simp
  next
    case True
    let ?c = "call_of p n"
    have call: "at (pg_calls p) (rn_call_index (pg_nodes p ! n)) = Some ?c"
      using call_arguments(1) [OF assms(1) n True] by (simp add: call_of_def)
    have "typed_call p before n" using assms(2) n True by (auto simp: typed_def is_tuple_node_def)
    note args = shape_arguments [OF assms(1) n True this len]
    show ?thesis
    proof (cases "ln_implementation (before ! n) = IM_iota_integer")
      case iota: True
      let ?x = "(before ! n)\<lparr>ln_cardinality := RC_dynamic_vector, ln_element_count := 0\<rparr>"
      have "shaped p before (nds[n := ?x]) n" using True iota len n by (simp add: shaped_def)
      from continue [OF this] show ?thesis using split True iota n call len same by simp
    next
      case False
      show ?thesis
      proof (cases "argument_shapes 0 (arguments_of p nds ?c) None False 0")
        case (Inl mismatch)
        obtain j expected actual where m: "mismatch = (j, expected, actual)" by (cases mismatch)
        obtain desc where desc: "call_descriptor ?c = Some desc"
          using \<open>typed_call p before n\<close> by (auto simp: typed_call_def Let_def)
        obtain e h' d where "shape_error h ?c desc mismatch = (e, h')"
          "lowering_diagnostic p ?c e = Some d" and d: "ed_stage d = ES_application"
          "er_kind (ed_error d) = EK_shape_mismatch" "ed_call d = rc_span ?c"
          "er_argument_position (ed_error d) = Some (j + 1)"
          "er_shape (ed_error d) = Some \<lparr>sx_expected = [expected], sx_actual = [actual]\<rparr>"
          unfolding m using shape_diagnostic [OF assms(1) n True] by blast
        then have "shape_phase p [n..<length (pg_nodes p)] nds h = Some (Inl d, h')"
          using split True False n call len same args Inl desc by simp
        moreover have "shape_failure_at p before n d"
          using n True d Suc.prems(1) Inl m unfolding shape_failure_at_def by blast
        ultimately show ?thesis by (auto simp: shape_outcome_def)
      next
        case (Inr found)
        obtain kl dyn vc where f: "found = (kl, dyn, vc)" by (cases found)
        have "shaped p before (nds[n := shaped_call kl dyn vc (before ! n)]) n"
          using True False Inr f len n arguments_of_update [OF assms(1) n True order.refl]
          by (simp add: shaped_def)
        from continue [OF this] show ?thesis
          using split True False n call len same args Inr f by simp
      qed
    qed
  qed
qed

section \<open>What lowering returns\<close>

definition roots_in_order :: "rewrite_program \<Rightarrow> bool" where
  "roots_in_order p \<longleftrightarrow> distinct (pg_roots p) \<and> (\<forall>r \<in> set (pg_roots p). r < length (pg_nodes p))"

text \<open>The reason of a refusal, in the order of the phases.\<close>

definition refusal :: "rewrite_program \<Rightarrow> rewrite_evaluation_diagnostic \<Rightarrow> bool" where
  "refusal p d \<longleftrightarrow>
     (let N = length (pg_nodes p) in
      if \<not> roots_in_order p
      then ed_stage d = ES_primitive_table \<and> er_kind (ed_error d) = EK_invalid_primitive_table
      else if \<exists>i < N. \<not> has_descriptor p i
      then ed_stage d = ES_application \<and> er_kind (ed_error d) = EK_invalid_primitive_table
      else admission_failure d
        \<or> (\<exists>i. arity_error_at p i d)
        \<or> (\<forall>i < N. \<not> plain_arity_error p i)
          \<and> (\<exists>i nds. (\<forall>j < i. typed p nds j)
               \<and> (type_failure_at p nds i d \<or> i = N \<and> (\<exists>k. shape_failure_at p nds k d))))"

definition accepted :: "rewrite_program \<Rightarrow> rewrite_lowering_node list \<Rightarrow> rewrite_lowering_node list \<Rightarrow> bool" where
  "accepted p before nds \<longleftrightarrow>
     roots_in_order p \<and>
     (\<forall>i < length (pg_nodes p). has_descriptor p i \<and> \<not> plain_arity_error p i \<and> typed p before i \<and>
        shaped p before nds i) \<and>
     length nds = length (pg_nodes p)"

definition lowering_outcome :: "rewrite_program \<Rightarrow> (rewrite_lowering_result \<times> host_state) option \<Rightarrow> bool" where
  "lowering_outcome p out \<longleftrightarrow>
     (case out of
        None \<Rightarrow> False
      | Some (r, h) \<Rightarrow>
          if lr_ok r
          then (\<exists>before nds. accepted p before nds \<and> lr_program r = lowering_of p nds)
          else refusal p (lr_diagnostic r) \<and> lr_program r = empty_lowering)"

lemma lowering_failed_sel [simp]:
  "lr_ok (lowering_failed d) = False" "lr_diagnostic (lowering_failed d) = d"
  "lr_program (lowering_failed d) = empty_lowering"
  by (simp_all add: lowering_failed_def)

lemma lowering_outcome_failed:
  "lowering_outcome p (Some (lowering_failed d, h)) = refusal p d"
  by (simp add: lowering_outcome_def)

lemma finish_lowering_outcome:
  assumes "lowerable p" "roots_in_order p" "\<forall>i < length (pg_nodes p). has_descriptor p i"
    "type_inv p n st" "n = length (pg_nodes p) \<or> ls_arity_failure st \<noteq> None"
  shows "lowering_outcome p (finish_lowering p st)"
proof -
  note failures = type_inv_failures [OF assms(4)]
  have table: "refusal p d \<longleftrightarrow> admission_failure d \<or> (\<exists>i. arity_error_at p i d)
        \<or> (\<forall>i < length (pg_nodes p). \<not> plain_arity_error p i)
          \<and> (\<exists>i nds. (\<forall>j < i. typed p nds j)
               \<and> (type_failure_at p nds i d \<or> i = length (pg_nodes p) \<and> (\<exists>k. shape_failure_at p nds k d)))" for d
    using assms(2,3) by (simp add: refusal_def Let_def) blast
  show ?thesis
  proof (cases "ls_arity_failure st")
    case (Some x)
    then have "refusal p (snd x)" using failures(1) unfolding table by (auto simp: case_prod_beta)
    then show ?thesis using Some by (simp add: finish_lowering_def case_prod_beta lowering_outcome_failed)
  next
    case None
    then have plain: "\<forall>i < length (pg_nodes p). \<not> plain_arity_error p i" and n: "n = length (pg_nodes p)"
      using failures(1) assms(5) by auto
    show ?thesis
    proof (cases "ls_type_failure st")
      case (Some d)
      then obtain i where "type_failure_at p (ls_nodes st) i d" "\<forall>j < i. typed p (ls_nodes st) j"
        using failures(2) None by (auto simp: first_type_failure_def)
      then have "refusal p d" using plain unfolding table by blast
      then show ?thesis using Some None by (simp add: finish_lowering_def lowering_outcome_failed)
    next
      case no: None
      have all: "\<forall>i < length (pg_nodes p). typed p (ls_nodes st) i"
        using type_inv_all_typed [OF assms(4) None no] n by simp
      have "shape_inv p 0 (ls_nodes st) (ls_nodes st)"
        using type_inv_parts(2) [OF assms(4)] by (simp add: shape_inv_def)
      from shape_phase_outcome [OF assms(1) all this, of "ls_host st"]
      have shape: "shape_outcome p (ls_nodes st)
          (shape_phase p [0..<length (pg_nodes p)] (ls_nodes st) (ls_host st))" by simp
      then obtain out h where run: "shape_phase p [0..<length (pg_nodes p)] (ls_nodes st) (ls_host st) = Some (out, h)"
        by (cases "shape_phase p [0..<length (pg_nodes p)] (ls_nodes st) (ls_host st)")
           (auto simp: shape_outcome_def)
      show ?thesis
      proof (cases out)
        case (Inl d)
        then obtain k where "shape_failure_at p (ls_nodes st) k d"
          using shape run by (auto simp: shape_outcome_def)
        then have "refusal p d" using all plain unfolding table by blast
        then show ?thesis using None no run Inl by (simp add: finish_lowering_def lowering_outcome_failed)
      next
        case (Inr nds)
        then have "accepted p (ls_nodes st) nds"
          using shape run all plain assms(2,3) by (simp add: shape_outcome_def shape_inv_def accepted_def)
        then show ?thesis
          using None no run Inr by (auto simp: finish_lowering_def lowering_outcome_def)
      qed
    qed
  qed
qed

lemma arity_outcome_start:
  assumes "arity_outcome p [0..<length (pg_nodes p)] None (Inr failure)"
  shows "\<forall>i < length (pg_nodes p). has_descriptor p i"
    "case failure of None \<Rightarrow> \<forall>j < length (pg_nodes p). \<not> plain_arity_error p j
      | Some (i, d) \<Rightarrow> arity_error_at p i d"
proof -
  from assms have found: "map_option fst failure = List.find (plain_arity_error p) [0..<length (pg_nodes p)]"
    "\<forall>x. failure = Some x \<longrightarrow> arity_failure_at p (fst x) (snd x)"
    and desc: "\<forall>i < length (pg_nodes p). has_descriptor p i"
    by (auto simp: arity_outcome_def)
  show "\<forall>i < length (pg_nodes p). has_descriptor p i" by (rule desc)
  show "case failure of None \<Rightarrow> \<forall>j < length (pg_nodes p). \<not> plain_arity_error p j
      | Some (i, d) \<Rightarrow> arity_error_at p i d"
  proof (cases failure)
    case None
    then show ?thesis using found(1) by (auto simp: find_None_iff eq_commute [of None])
  next
    case (Some x)
    then have "List.find (plain_arity_error p) [0..<length (pg_nodes p)] = Some (fst x)"
      using found(1) by simp
    then have "plain_arity_error p (fst x)" "\<forall>j < fst x. \<not> plain_arity_error p j"
      by (auto simp: find_Some_iff)
    moreover have "semantic_count p (call_of p (fst x)) = rc_argument_count (call_of p (fst x))"
      if "plain_arity_error p (fst x)"
      using that by (simp add: plain_arity_error_def semantic_count_def)
    ultimately have "arity_error_at p (fst x) (snd x)"
      using found(2) Some by (auto simp: arity_error_at_def plain_arity_error_def split: option.splits)
    then show ?thesis using Some by (simp add: case_prod_beta)
  qed
qed

lemma lower_outcome:
  assumes "lowerable p"
  shows "lowering_outcome p (lower_rewrite_program h p)"
proof (cases "find_some (root_diagnostic p) [0..<length (pg_roots p)]")
  case (Some d)
  then have "\<not> roots_in_order p" using roots_checked [of p] by (simp add: roots_in_order_def)
  moreover have "ed_stage d = ES_primitive_table" "er_kind (ed_error d) = EK_invalid_primitive_table"
    using find_some_Some [OF Some]
    by (auto simp: root_diagnostic_def invalid_table_diagnostic_def make_error_message_def Let_def split: if_splits)
  ultimately show ?thesis
    using Some by (simp add: lower_rewrite_program_def lowering_outcome_failed refusal_def)
next
  case None
  then have roots: "roots_in_order p" using roots_checked [of p] by (simp add: roots_in_order_def)
  then have start: "initial_lowering_nodes p = Some (map (start_node p) [0..<length (pg_nodes p)])"
    by (intro initial_lowering_nodes_eq [OF assms]) (simp add: roots_in_order_def)
  obtain r h1 where arity: "arity_phase p [0..<length (pg_nodes p)] None h = Some (r, h1)"
    "arity_outcome p [0..<length (pg_nodes p)] None r"
    using arity_phase_outcome [OF assms, of "[0..<length (pg_nodes p)]" None h] by auto
  show ?thesis
  proof (cases r)
    case (Inl d)
    then have "refusal p d"
      using arity(2) roots by (auto simp: refusal_def arity_outcome_def Let_def)
    then show ?thesis
      using None start arity(1) Inl by (simp add: lower_rewrite_program_def lowering_outcome_failed)
  next
    case (Inr failure)
    note found = arity_outcome_start [OF arity(2) [unfolded Inr]]
    let ?st = "\<lparr>ls_nodes = map (start_node p) [0..<length (pg_nodes p)],
      ls_available = replicate (length (pg_nodes p)) False, ls_arity_failure = failure,
      ls_type_failure = None, ls_host = h1\<rparr>"
    have result: "type_result p (type_phase p [0..<length (pg_nodes p)] ?st)"
      using type_phase_result [OF assms found(1) type_inv_start [OF found(2)]] .
    show ?thesis
    proof (cases "type_phase p [0..<length (pg_nodes p)] ?st")
      case no: None
      then show ?thesis using result by (simp add: type_result_def)
    next
      case (Some out)
      show ?thesis
      proof (cases out)
        case (Inl x)
        then have "refusal p (fst x)"
          using result Some roots found(1) by (auto simp: type_result_def refusal_def Let_def)
        then show ?thesis
          using None start arity(1) Inr Some Inl
          by (cases x) (simp add: lower_rewrite_program_def lowering_outcome_failed)
      next
        case found': (Inr st)
        then obtain n where "type_inv p n st" "n = length (pg_nodes p) \<or> ls_arity_failure st \<noteq> None"
          using result Some by (auto simp: type_result_def)
        from finish_lowering_outcome [OF assms roots found(1) this] show ?thesis
          using None start arity(1) Inr Some found' by (simp add: lower_rewrite_program_def)
      qed
    qed
  qed
qed

end
