(* ===== verification/LoweringProperties.thy ===== *)
theory LoweringProperties
  imports LoweringCorrect
begin

section \<open>Accepted programs\<close>

lemma start_node_fields:
  "ln_kind (start_node p i) = rn_kind (pg_nodes p ! i)" "ln_use_count (start_node p i) = uses p i"
  "ln_retained_root (start_node p i) = (i \<in> set (pg_roots p))"
  "ln_element_type (start_node p i) = rn_element_type (pg_nodes p ! i)"
  "ln_structural_type (start_node p i) =
     (if rn_kind (pg_nodes p ! i) = NK_vector_literal
      then make_vector_type (rn_element_type (pg_nodes p ! i))
      else make_scalar_type (rn_element_type (pg_nodes p ! i)))"
  by (auto simp: start_node_def source_node_def base_lowering_node_def Let_def)

text \<open>What typing keeps of the initial node, and what shaping keeps of the typed one.\<close>

lemma typed_keeps:
  assumes "typed p nds i"
  shows "ln_kind (nds ! i) = rn_kind (pg_nodes p ! i)" "ln_use_count (nds ! i) = uses p i"
    "ln_retained_root (nds ! i) = (i \<in> set (pg_roots p))"
  using assms
  by (auto simp: typed_def typed_placeholder_def typed_tuple_def typed_call_def lowered_call_def
      start_node_fields Let_def split: if_splits)

lemma shaped_keeps:
  assumes "shaped p before nds i"
  shows "ln_kind (nds ! i) = ln_kind (before ! i)" "ln_use_count (nds ! i) = ln_use_count (before ! i)"
    "ln_retained_root (nds ! i) = ln_retained_root (before ! i)"
    "ln_element_type (nds ! i) = ln_element_type (before ! i)"
    "ln_structural_type (nds ! i) = ln_structural_type (before ! i)"
    "ln_primitive_id (nds ! i) = ln_primitive_id (before ! i)"
    "ln_implementation (nds ! i) = ln_implementation (before ! i)"
    "ln_argument_count (nds ! i) = ln_argument_count (before ! i)"
  using assms by (auto simp: shaped_def shaped_call_def Let_def split: if_splits)

text \<open>The signature that lowering selects.\<close>

lemma unique_best_match:
  assumes "length actuals < size_max" "sel_status (select_primitive_signature d actuals) = SEL_success"
  obtains k where "sel_signature (select_primitive_signature d actuals) = Some (OwnSignature k)"
    "{j. best_match d actuals j} = {k}"
  using assms(1)
proof (cases rule: select_primitive_signature_cases [of actuals d])
  case (unique m)
  let ?cs = "map (cost_of actuals) (pd_signatures d)"
  let ?k = "first_index ?cs (Some m)"
  have "?k < length (pd_signatures d)" "?cs ! ?k = Some m"
    using first_index_nth [of "Some m" ?cs] unique(1) by (auto simp: least_cost_def)
  then have "best_match d actuals ?k" using unique(1) by (auto simp: best_match_least_cost)
  moreover have "card {j. best_match d actuals j} = 1"
    using card_best_matches [OF unique(1)] unique(2) by simp
  ultimately have "{j. best_match d actuals j} = {?k}"
    by (metis card_1_singletonE mem_Collect_eq singletonD)
  then show ?thesis using that unique(3) by simp
qed (use assms(2) in simp_all)

lemma select_lowering_signature_sound:
  assumes "select_lowering_signature desc args = Some sig"
  shows "\<exists>k < length (pd_signatures desc). sig = pd_signatures desc ! k \<and>
    list_all2 converts (map ln_element_type args) (ps_parameters sig) \<and>
    (pd_lifting desc \<noteq> LM_none \<longrightarrow> {j. best_match desc (map ln_element_type args) j} = {k}) \<and>
    (\<forall>nd \<in> set args. ln_cardinality nd \<noteq> RC_tuple)"
proof (cases "pd_lifting desc = LM_none")
  case True
  then obtain k where k: "k < length (pd_signatures desc)" "sig = pd_signatures desc ! k"
    "signature_accepts desc args sig"
    using assms by (auto simp: select_lowering_signature_def find_Some_iff)
  then have "ln_cardinality (args ! j) \<noteq> RC_tuple \<and> ln_element_type (args ! j) = vt_element (ps_parameters sig ! j)"
    if "j < length args" for j
    using k(3) that True
    by (auto simp: signature_accepts_def list_all_iff lowering_type_accepts_def Let_def
        dest!: bspec [of _ _ j] split: if_splits)
  then have "\<forall>nd \<in> set args. ln_cardinality nd \<noteq> RC_tuple"
    "list_all2 converts (map ln_element_type args) (ps_parameters sig)"
    using k(3) by (auto simp: signature_accepts_def list_all2_conv_all_nth converts_def in_set_conv_nth)
  then show ?thesis using k(1,2) True by blast
next
  case False
  let ?actuals = "map ln_element_type args"
  have small: "length ?actuals < size_max" "\<forall>nd \<in> set args. ln_cardinality nd \<noteq> RC_tuple"
    and selected: "sel_status (select_primitive_signature desc ?actuals) = SEL_success"
      "Option.bind (sel_signature (select_primitive_signature desc ?actuals)) (signature_of desc) = Some sig"
    using assms False
    by (auto simp: select_lowering_signature_def list_ex_iff size_max_def Let_def split: if_splits)
  obtain k where k: "sel_signature (select_primitive_signature desc ?actuals) = Some (OwnSignature k)"
    "{j. best_match desc ?actuals j} = {k}"
    using unique_best_match [OF small(1) selected(1)] by blast
  have "best_match desc ?actuals k" using k(2) by blast
  then have "k < length (pd_signatures desc)" "list_all2 converts ?actuals (ps_parameters (pd_signatures desc ! k))"
    by (simp_all add: best_match_def)
  then show ?thesis using k selected(2) small(2) by auto
qed

text \<open>The types of a lowered program. A call has an implementation its arguments' element types
  fit, an int where a double is expected included.\<close>

definition well_typed_call :: "rewrite_program \<Rightarrow> rewrite_lowering_node list \<Rightarrow> nat \<Rightarrow> bool" where
  "well_typed_call p nds i \<longleftrightarrow>
     (let c = call_of p i; actuals = map ln_element_type (arguments_of p nds c); nd = nds ! i in
      \<exists>desc k. call_descriptor c = Some desc \<and> k < length (pd_signatures desc) \<and>
        (let sig = pd_signatures desc ! k in
         list_all2 converts actuals (ps_parameters sig) \<and>
         (pd_lifting desc \<noteq> LM_none \<longrightarrow> {j. best_match desc actuals j} = {k}) \<and>
         ln_primitive_id nd = Some (pd_id desc) \<and>
         ln_implementation nd = ps_implementation sig \<and>
         ln_element_type nd = vt_element (ps_result sig) \<and>
         ln_argument_count nd = length actuals))"

definition well_typed :: "rewrite_program \<Rightarrow> rewrite_lowering_node list \<Rightarrow> nat \<Rightarrow> bool" where
  "well_typed p nds i \<longleftrightarrow>
     (let nd = pg_nodes p ! i in
      if rn_kind nd = NK_placeholder
      then denoted (nds ! i) = denoted (nds ! rn_first_element nd) \<and>
           ln_element_type (nds ! i) = ln_element_type (nds ! rn_first_element nd)
      else if is_tuple_node nd
      then denoted (nds ! i) = TyTuple (map (\<lambda>k. denoted (nds ! child_of p nd k)) [0..<rn_element_count nd])
      else if rn_kind nd = NK_primitive_call then well_typed_call p nds i
      else ln_element_type (nds ! i) = rn_element_type nd)"

lemma accepted_well_typed:
  assumes "lowerable p" "accepted p before nds" "i < length (pg_nodes p)"
  shows "well_typed p nds i"
proof -
  let ?nd = "pg_nodes p ! i"
  have t: "typed p before i" and s: "\<And>j. j < length (pg_nodes p) \<Longrightarrow> shaped p before nds j"
    using assms(2,3) by (auto simp: accepted_def)
  have keep: "ln_element_type (nds ! j) = ln_element_type (before ! j)" "denoted (nds ! j) = denoted (before ! j)"
    if "j \<le> i" for j
    using shaped_keeps [OF s, of j] that assms(3) by auto
  consider (placeholder) "rn_kind ?nd = NK_placeholder" | (tuple) "is_tuple_node ?nd"
    | (call) "rn_kind ?nd = NK_primitive_call"
    | (leaf) "rn_kind ?nd \<noteq> NK_placeholder" "\<not> is_tuple_node ?nd" "rn_kind ?nd \<noteq> NK_primitive_call"
    by blast
  then show ?thesis
  proof cases
    case placeholder
    have "rn_first_element ?nd < i"
      using lowerable_node [OF assms(1,3)] placeholder by (simp add: node_lowerable_def)
    then show ?thesis
      using t placeholder keep by (auto simp: typed_def typed_placeholder_def well_typed_def Let_def)
  next
    case tuple
    have "child_of p ?nd k < i" if "k < rn_element_count ?nd" for k
      using tuple_child [OF lowerable_node [OF assms(1,3)] tuple that] by simp
    then show ?thesis
      using t tuple keep tuple_node_not_placeholder [OF tuple]
      by (auto simp: typed_def typed_tuple_def well_typed_def Let_def less_imp_le)
  next
    case call
    let ?c = "call_of p i"
    have "typed_call p before i" using t call by (simp add: typed_def is_tuple_node_def)
    then obtain desc sig where sel: "call_descriptor ?c = Some desc"
      "select_lowering_signature desc (arguments_of p before ?c) = Some sig"
      "before ! i = lowered_call ?c desc sig (semantic_count p ?c) (prefix_tuple_operand p ?c) (start_node p i)"
      by (auto simp: typed_call_def Let_def)
    have "argument_of p ?c k < i" if "k < semantic_count p ?c" for k
      using call_arguments(3) [OF assms(1,3) call that] by simp
    then have same: "map ln_element_type (arguments_of p nds ?c) = map ln_element_type (arguments_of p before ?c)"
      using keep(1) by (simp add: arguments_of_def less_imp_le)
    obtain k where "k < length (pd_signatures desc)" "sig = pd_signatures desc ! k"
      "list_all2 converts (map ln_element_type (arguments_of p nds ?c)) (ps_parameters sig)"
      "pd_lifting desc \<noteq> LM_none \<longrightarrow> {j. best_match desc (map ln_element_type (arguments_of p nds ?c)) j} = {k}"
      using select_lowering_signature_sound [OF sel(2)] unfolding same by blast
    moreover have "ln_primitive_id (nds ! i) = Some (pd_id desc)"
      "ln_implementation (nds ! i) = ps_implementation sig" "ln_element_type (nds ! i) = vt_element (ps_result sig)"
      "ln_argument_count (nds ! i) = length (arguments_of p nds ?c)"
      using shaped_keeps [OF s [OF assms(3)]] sel(3) by (simp_all add: lowered_call_def arguments_of_def)
    ultimately have "well_typed_call p nds i"
      using sel(1) unfolding well_typed_call_def Let_def by auto
    then show ?thesis using call by (simp add: well_typed_def is_tuple_node_def)
  next
    case leaf
    then show ?thesis
      using t keep(1) [of i] by (simp add: typed_def well_typed_def start_node_fields Let_def)
  qed
qed

text \<open>The shapes of a lowered program: a call of scalars is a scalar, one with an argument of
  unknown length has an unknown length, and otherwise the lengths of the arguments are equal and
  are that of the call. The length is checked when the program runs exactly if a vector of unknown
  length meets another vector.\<close>

definition well_shaped_call :: "rewrite_program \<Rightarrow> rewrite_lowering_node list \<Rightarrow> nat \<Rightarrow> bool" where
  "well_shaped_call p nds i \<longleftrightarrow>
     (let nd = nds ! i; args = arguments_of p nds (call_of p i) in
      if ln_implementation nd = IM_iota_integer then is_dynamic nd
      else
        (\<forall>a \<in> set args. \<forall>b \<in> set args. is_static a \<and> is_static b \<longrightarrow> ln_element_count a = ln_element_count b) \<and>
        (ln_cardinality nd = RC_scalar \<longleftrightarrow> (\<forall>a \<in> set args. \<not> is_vector a)) \<and>
        (is_dynamic nd \<longleftrightarrow> (\<exists>a \<in> set args. is_dynamic a)) \<and>
        (\<forall>a \<in> set args. is_static a \<and> is_static nd \<longrightarrow> ln_element_count nd = ln_element_count a) \<and>
        (ln_runtime_shape_check nd \<longleftrightarrow>
           (\<exists>a \<in> set args. is_dynamic a) \<and> 1 < length (filter is_vector args)))"

lemma accepted_well_shaped:
  assumes "lowerable p" "accepted p before nds" "i < length (pg_nodes p)"
    "rn_kind (pg_nodes p ! i) = NK_primitive_call"
  shows "well_shaped_call p nds i"
proof -
  let ?args = "arguments_of p nds (call_of p i)"
  have s: "shaped p before nds i" using assms(2,3) by (simp add: accepted_def)
  have impl: "ln_implementation (nds ! i) = ln_implementation (before ! i)" by (rule shaped_keeps(7) [OF s])
  show ?thesis
  proof (cases "ln_implementation (before ! i) = IM_iota_integer")
    case True
    then show ?thesis
      using s impl assms(4) by (simp add: shaped_def well_shaped_call_def is_dynamic_def Let_def)
  next
    case False
    then obtain kl dyn vc where shapes: "argument_shapes 0 ?args None False 0 = Inr (kl, dyn, vc)"
      and node: "nds ! i = shaped_call kl dyn vc (before ! i)"
      using s assms(4) by (auto simp: shaped_def)
    from argument_shapes_fit [OF shapes]
    have fit: "dyn \<longleftrightarrow> (\<exists>a \<in> set ?args. is_dynamic a)" "vc = length (filter is_vector ?args)"
      "\<forall>a \<in> set ?args. is_static a \<longrightarrow> kl = Some (ln_element_count a)" by auto
    have empty: "vc = 0 \<longleftrightarrow> (\<forall>a \<in> set ?args. \<not> is_vector a)" using fit(2) by (simp add: filter_empty_conv)
    have dynamic: "vc \<noteq> 0" if dyn using that fit(1) empty by (auto simp: is_dynamic_def is_vector_def)
    have card: "ln_cardinality (nds ! i) = (if vc = 0 then RC_scalar else if dyn then RC_dynamic_vector else RC_static_vector)"
      "ln_runtime_shape_check (nds ! i) \<longleftrightarrow> 1 < vc \<and> dyn"
      "vc \<noteq> 0 \<Longrightarrow> \<not> dyn \<Longrightarrow> ln_element_count (nds ! i) = the kl"
      using node by (simp_all add: shaped_call_def Let_def)
    have a: "\<forall>a \<in> set ?args. \<forall>b \<in> set ?args. is_static a \<and> is_static b \<longrightarrow> ln_element_count a = ln_element_count b"
      using fit(3) by (metis option.inject)
    have b: "ln_cardinality (nds ! i) = RC_scalar \<longleftrightarrow> (\<forall>a \<in> set ?args. \<not> is_vector a)"
      using card(1) empty by auto
    have c: "is_dynamic (nds ! i) \<longleftrightarrow> (\<exists>a \<in> set ?args. is_dynamic a)"
      using card(1) dynamic fit(1) by (auto simp: is_dynamic_def)
    have d: "\<forall>a \<in> set ?args. is_static a \<and> is_static (nds ! i) \<longrightarrow> ln_element_count (nds ! i) = ln_element_count a"
      using card fit(3) by (auto simp: is_static_def is_dynamic_def is_vector_def split: if_splits)
    have e: "ln_runtime_shape_check (nds ! i) \<longleftrightarrow>
        (\<exists>a \<in> set ?args. is_dynamic a) \<and> 1 < length (filter is_vector ?args)"
      using card(2) fit(1,2) by auto
    show ?thesis unfolding well_shaped_call_def Let_def impl if_not_P [OF False] by (intro conjI a b c d e)
  qed
qed

section \<open>Parsed and resolved programs\<close>

lemma tables_lowerable: "tables_ok n p \<Longrightarrow> lowerable p"
  unfolding lowerable_def tables_ok_def
  by (auto simp: node_ok_def node_lowerable_def Let_def fanout_ok_def branch_ok_def all_set_conv_all_nth
      simp del: inspect_branch_placeholder.simps)

lemma with_primitives_fields [simp]:
  "pg_nodes (with_primitives p) = pg_nodes p" "pg_arguments (with_primitives p) = pg_arguments p"
  "pg_argument_spans (with_primitives p) = pg_argument_spans p" "pg_roots (with_primitives p) = pg_roots p"
  "pg_tuple_elements (with_primitives p) = pg_tuple_elements p"
  "pg_tuple_element_spans (with_primitives p) = pg_tuple_element_spans p"
  "pg_fanouts (with_primitives p) = pg_fanouts p"
  "pg_fanout_branches (with_primitives p) = pg_fanout_branches p"
  "length (pg_calls (with_primitives p)) = length (pg_calls p)"
  by (simp_all add: with_primitives_def)

lemma with_primitives_call:
  "k < length (pg_calls p) \<Longrightarrow> pg_calls (with_primitives p) ! k =
     (pg_calls p ! k)\<lparr>rc_primitive := map_option pd_id (find_primitive_by_name (call_name p (pg_calls p ! k)))\<rparr>"
  by (simp add: with_primitives_def)

lemma with_primitives_lowerable: "lowerable p \<Longrightarrow> lowerable (with_primitives p)"
  unfolding lowerable_def node_lowerable_def Let_def by (auto simp: with_primitives_call)

lemma found_primitive_has_descriptor:
  assumes "find_primitive_by_name name = Some desc"
  shows "find_primitive_by_id (pd_id desc) \<noteq> None"
proof -
  have "desc \<in> set production_descriptors"
    using assms by (auto simp: find_primitive_by_name_def find_Some_iff)
  then show ?thesis by (auto simp: find_primitive_by_id_def find_None_iff)
qed

lemma with_primitives_descriptors:
  assumes "lowerable p" "unknown_spans p = []" "i < length (pg_nodes p)"
  shows "has_descriptor (with_primitives p) i"
  unfolding has_descriptor_def
proof
  assume "rn_kind (pg_nodes (with_primitives p) ! i) = NK_primitive_call"
  then have kind: "rn_kind (pg_nodes p ! i) = NK_primitive_call" by simp
  let ?k = "rn_call_index (pg_nodes p ! i)"
  have k: "?k < length (pg_calls p)" using call_arguments(1) [OF assms(1,3) kind] .
  have "find_primitive_by_name (call_name p (pg_calls p ! ?k)) \<noteq> None"
    using assms(2) k by (auto simp: unknown_spans_def unknown_calls_def filter_empty_conv)
  then show "call_descriptor (call_of (with_primitives p) i) \<noteq> None"
    using found_primitive_has_descriptor k
    by (auto simp: call_descriptor_def call_of_def with_primitives_call)
qed

end
