(* ===== verification/Profiles.thy ===== *)
theory Profiles
  imports ErrorModel
begin

text \<open>
  Execution profiles and their limits (include/bennu/resources.hpp): the four versioned
  profiles, the limits a caller may configure, and the message with which a configuration the
  profile does not allow is refused (src/rewrite.cpp \<open>validate_rewrite_configuration\<close>,
  src/resources.cpp \<open>validate_profile_configuration_locked\<close>).
\<close>

section \<open>Profiles\<close>

datatype execution_profile =
    EP_trusted_local_v1 | EP_bounded_v1 | EP_trusted_local_v2 | EP_bounded_v2 | EP_unknown int

record resource_limits =
  lm_max_vector_bytes :: "nat option"
  lm_max_live_evaluation_bytes :: "nat option"
  lm_max_work_units :: "nat option"
  lm_max_tuple_table_bytes :: "nat option"

fun execution_profile_name :: "execution_profile \<Rightarrow> string" where
  "execution_profile_name EP_trusted_local_v1 = ''trusted-local-v1''"
| "execution_profile_name EP_bounded_v1 = ''bounded-v1''"
| "execution_profile_name EP_trusted_local_v2 = ''trusted-local-v2''"
| "execution_profile_name EP_bounded_v2 = ''bounded-v2''"
| "execution_profile_name (EP_unknown _) = []"

definition has_configured_limit :: "resource_limits \<Rightarrow> bool" where
  "has_configured_limit limits \<longleftrightarrow>
     lm_max_vector_bytes limits \<noteq> None \<or> lm_max_live_evaluation_bytes limits \<noteq> None
     \<or> lm_max_work_units limits \<noteq> None \<or> lm_max_tuple_table_bytes limits \<noteq> None"

text \<open>The message of a refused configuration.\<close>

fun configuration_message :: "execution_profile \<Rightarrow> resource_limits \<Rightarrow> string option" where
  "configuration_message EP_trusted_local_v1 limits =
     (if \<not> has_configured_limit limits then None
      else Some ''trusted-local-v1 requires every resource limit to be omitted'')"
| "configuration_message EP_bounded_v1 limits =
     (if has_configured_limit limits \<and> lm_max_tuple_table_bytes limits = None then None
      else Some (if lm_max_tuple_table_bytes limits \<noteq> None
                 then ''bounded-v1 does not support max_tuple_table_bytes''
                 else ''bounded-v1 requires at least one configured resource limit''))"
| "configuration_message EP_trusted_local_v2 limits =
     (if \<not> has_configured_limit limits then None
      else Some ''trusted-local-v2 requires every resource limit to be omitted'')"
| "configuration_message EP_bounded_v2 limits =
     (if has_configured_limit limits then None
      else Some ''bounded-v2 requires at least one configured resource limit'')"
| "configuration_message (EP_unknown _) limits = Some ''execution profile tag is unknown''"

end
