(* ===== verification/FrontEnd.thy ===== *)
theory FrontEnd
  imports LoweringProperties Profiles
begin

text \<open>
  The front half of an evaluation (src/rewrite.cpp, \<open>evaluate_rewrite_source_impl\<close>): the profile
  and its limits are checked, the source is parsed and resolved, the primitive table validated,
  tuples refused under the first versions of the profiles, and the program lowered. Every
  diagnostic carries the stage it comes from. The entry of the repository's tests that supplies
  a prepared program is not modelled.
\<close>

section \<open>The configuration\<close>

definition validate_rewrite_configuration ::
    "host_state \<Rightarrow> execution_profile \<Rightarrow> resource_limits \<Rightarrow> string \<Rightarrow> error option \<times> host_state"
where
  "validate_rewrite_configuration h profile limits producer_name =
     (case configuration_message profile limits of
        None \<Rightarrow> (None, h)
      | Some message \<Rightarrow>
          (case make_primitive_error_context h producer_name None of
             (context, h) \<Rightarrow>
               (Some ((make_error EK_invalid_execution_profile (rewrite_source_location first_position))
                        \<lparr>er_static_message := message, er_primitive := context\<rparr>), h)))"

section \<open>Tuples under the first profiles\<close>

definition earlier_tuple :: "rewrite_span \<Rightarrow> rewrite_span option \<Rightarrow> bool" where
  "earlier_tuple span earliest \<longleftrightarrow>
     (case earliest of
        None \<Rightarrow> True
      | Some first \<Rightarrow>
          rp_offset (rs_begin span) < rp_offset (rs_begin first)
          \<or> (rp_offset (rs_begin span) = rp_offset (rs_begin first)
             \<and> rp_offset (rs_end span) > rp_offset (rs_end first)))"

definition first_tuple_span :: "rewrite_program \<Rightarrow> rewrite_span option" where
  "first_tuple_span program =
     fold (\<lambda>node earliest.
             if is_tuple_node node \<and> earlier_tuple (rn_span node) earliest
             then Some (rn_span node) else earliest)
          (pg_nodes program) None"

definition tuple_profile_diagnostic ::
    "rewrite_program \<Rightarrow> execution_profile \<Rightarrow> rewrite_evaluation_diagnostic option" where
  "tuple_profile_diagnostic program profile =
     (case first_tuple_span program of
        None \<Rightarrow> None
      | Some span \<Rightarrow>
          if profile \<noteq> EP_trusted_local_v1 \<and> profile \<noteq> EP_bounded_v1 then None
          else Some (empty_rewrite_evaluation_diagnostic
            \<lparr>ed_stage := ES_resource_admission, ed_primary := span, ed_context := span,
             ed_related := span,
             ed_error := (make_error EK_profile_error (rewrite_source_location (rs_begin span)))
               \<lparr>er_profile := Some \<lparr>px_reason = PX_unsupported_value_kind,
                                    px_profile_name = execution_profile_name profile,
                                    px_value_kind = TK_tuple\<rparr>\<rparr>\<rparr>))"

section \<open>The front half\<close>

definition rewrite_stage_diagnostic ::
    "rewrite_evaluation_stage \<Rightarrow> rewrite_diagnostic \<Rightarrow> rewrite_evaluation_diagnostic" where
  "rewrite_stage_diagnostic stage diagnostic =
     empty_rewrite_evaluation_diagnostic
       \<lparr>ed_stage := stage, ed_rewrite := diagnostic, ed_primary := rd_primary diagnostic,
        ed_context := rd_context diagnostic, ed_related := rd_related diagnostic\<rparr>"

text \<open>An expression has no header and exactly one root.\<close>

definition single_root_diagnostic ::
    "rewrite_parse_result \<Rightarrow> rewrite_evaluation_diagnostic option option" where
  "single_root_diagnostic parsed =
     (let program = pr_program parsed; header = pg_parameter_header program in
      if hd_present header
      then Some (Some (rewrite_stage_diagnostic ES_parse
             \<lparr>rd_error = PE_trailing_input, rd_primary = hd_keyword_span header,
              rd_context = hd_span header, rd_related = hd_keyword_span header,
              rd_parameter_reason = Some PR_program_only_parameter_header\<rparr>))
      else
        case pg_roots program of
          [] \<Rightarrow>
            let primary = rd_primary (pr_diagnostic parsed) in
            Some (Some (empty_rewrite_evaluation_diagnostic
              \<lparr>ed_stage := ES_parse, ed_primary := primary,
               ed_error := make_error_message EK_empty_expression
                             (rewrite_source_location (rs_begin primary)) ''expected one expression''\<rparr>))
        | [_] \<Rightarrow> Some None
        | _ # second # _ \<Rightarrow>
            do { node \<leftarrow> at (pg_nodes program) second;
                 Some (Some (empty_rewrite_evaluation_diagnostic
                   \<lparr>ed_stage := ES_parse, ed_primary := rn_span node, ed_context := rn_span node,
                    ed_error := make_error_message EK_syntax_error
                                  (rewrite_source_location (rs_begin (rn_span node)))
                                  ''evaluate_expression accepts exactly one root expression''\<rparr>)) })"

definition resolution_diagnostic :: "rewrite_diagnostic \<Rightarrow> rewrite_evaluation_diagnostic" where
  "resolution_diagnostic diagnostic =
     (let stage = rewrite_stage_diagnostic ES_resolution diagnostic in
      if rd_parameter_reason diagnostic \<noteq> None then stage
      else stage\<lparr>ed_error := make_error EK_unknown_name
                   (rewrite_source_location (rs_begin (rd_primary diagnostic)))\<rparr>)"

type_synonym front_end_result =
  "((rewrite_evaluation_diagnostic + rewrite_program \<times> rewrite_lowering_program) \<times> host_state) option"

definition lower_resolved ::
    "host_state \<Rightarrow> execution_profile \<Rightarrow> rewrite_program \<Rightarrow> front_end_result" where
  "lower_resolved h profile program =
     (if \<not> pv_ok production_primitive_table_validation
      then Some (Inl (empty_rewrite_evaluation_diagnostic
             \<lparr>ed_stage := ES_primitive_table,
              ed_error := make_error EK_invalid_primitive_table
                            (rewrite_source_location first_position)\<rparr>), h)
      else
        case tuple_profile_diagnostic program profile of
          Some diagnostic \<Rightarrow> Some (Inl diagnostic, h)
        | None \<Rightarrow>
            do { (lowered, h) \<leftarrow> lower_rewrite_program h program;
                 Some (if lr_ok lowered then Inr (program, lr_program lowered)
                       else Inl (lr_diagnostic lowered), h) })"

definition front_end ::
    "host_state \<Rightarrow> execution_profile \<Rightarrow> resource_limits \<Rightarrow> bool \<Rightarrow> bytes \<Rightarrow> front_end_result" where
  "front_end h profile limits require_single_root source =
     (case validate_rewrite_configuration h profile limits ''rewrite-evaluator'' of
        (Some error, h) \<Rightarrow>
          Some (Inl (empty_rewrite_evaluation_diagnostic
                       \<lparr>ed_stage := ES_resource_admission, ed_error := error\<rparr>), h)
      | (None, h) \<Rightarrow>
          do { parsed \<leftarrow> parse_rewrite source;
               if \<not> pr_ok parsed
               then Some (Inl (rewrite_stage_diagnostic ES_parse (pr_diagnostic parsed)), h)
               else
                 do { single \<leftarrow> (if require_single_root then single_root_diagnostic parsed else Some None);
                      case single of
                        Some diagnostic \<Rightarrow> Some (Inl diagnostic, h)
                      | None \<Rightarrow>
                          (case resolve_rewrite_primitives (pr_program parsed) of
                             (resolved, program) \<Rightarrow>
                               if \<not> rr_ok resolved
                               then Some (Inl (resolution_diagnostic (rr_diagnostic resolved)), h)
                               else lower_resolved h profile program) } })"

section \<open>What the front half decides\<close>

lemma first_tuple_span_None:
  "first_tuple_span p = None \<longleftrightarrow> (\<forall>nd \<in> set (pg_nodes p). \<not> is_tuple_node nd)"
proof -
  let ?step = "\<lambda>node earliest. if is_tuple_node node \<and> earlier_tuple (rn_span node) earliest
      then Some (rn_span node) else earliest"
  have keep: "fold ?step nds (Some s) \<noteq> None" for nds s
    by (induction nds arbitrary: s) auto
  have "fold ?step nds None = None \<longleftrightarrow> (\<forall>nd \<in> set nds. \<not> is_tuple_node nd)" for nds
  proof (induction nds)
    case (Cons nd nds)
    then show ?case using keep [of nds] by (cases "is_tuple_node nd") (auto simp: earlier_tuple_def)
  qed simp
  then show ?thesis by (simp add: first_tuple_span_def)
qed

text \<open>Names that resolution accepts.\<close>

definition resolvable :: "rewrite_program \<Rightarrow> bool" where
  "resolvable p \<longleftrightarrow>
     distinct (map dl_name (hd_declarations (pg_parameter_header p))) \<and>
     list_all (\<lambda>d. \<not> reserved_name (dl_name d)) (hd_declarations (pg_parameter_header p)) \<and>
     unknown_spans p = []"

lemma resolve_outcome:
  obtains (resolved) result where "resolvable p" "resolve_rewrite_primitives p = (result, with_primitives p)"
      "rr_ok result"
  | (unresolved) result where "\<not> resolvable p" "resolve_rewrite_primitives p = (result, p)" "\<not> rr_ok result"
  using resolve_spec [of p]
  by (cases "resolve_rewrite_primitives p") (auto simp: resolvable_def split: if_splits)

definition refuses_tuples :: "execution_profile \<Rightarrow> rewrite_program \<Rightarrow> bool" where
  "refuses_tuples profile p \<longleftrightarrow>
     (profile = EP_trusted_local_v1 \<or> profile = EP_bounded_v1) \<and> (\<exists>nd \<in> set (pg_nodes p). is_tuple_node nd)"

definition one_expression :: "rewrite_program \<Rightarrow> bool" where
  "one_expression p \<longleftrightarrow> \<not> hd_present (pg_parameter_header p) \<and> length (pg_roots p) = 1"

text \<open>The reason of a refusal: the first of the checks that fails.\<close>

definition source_refusal ::
    "execution_profile \<Rightarrow> resource_limits \<Rightarrow> bool \<Rightarrow> rewrite_parse_result
     \<Rightarrow> rewrite_evaluation_diagnostic \<Rightarrow> bool" where
  "source_refusal profile limits single parsed d \<longleftrightarrow>
     (let p = pr_program parsed in
      if configuration_message profile limits \<noteq> None
      then ed_stage d = ES_resource_admission \<and> er_kind (ed_error d) = EK_invalid_execution_profile
      else if \<not> pr_ok parsed then ed_stage d = ES_parse \<and> ed_rewrite d = pr_diagnostic parsed
      else if single \<and> \<not> one_expression p then ed_stage d = ES_parse
      else if \<not> resolvable p then ed_stage d = ES_resolution
      else if refuses_tuples profile p
      then ed_stage d = ES_resource_admission \<and> er_kind (ed_error d) = EK_profile_error
      else refusal (with_primitives p) d)"

definition source_accepted ::
    "execution_profile \<Rightarrow> resource_limits \<Rightarrow> bool \<Rightarrow> rewrite_parse_result
     \<Rightarrow> rewrite_program \<Rightarrow> rewrite_lowering_program \<Rightarrow> bool" where
  "source_accepted profile limits single parsed p lowering \<longleftrightarrow>
     configuration_message profile limits = None \<and> pr_ok parsed \<and>
     (single \<longrightarrow> one_expression p) \<and> resolvable (pr_program parsed) \<and> p = with_primitives (pr_program parsed) \<and>
     \<not> refuses_tuples profile p \<and> lowerable p \<and>
     (\<exists>before nds. accepted p before nds \<and> lowering = lowering_of p nds)"

lemma parsed_program_ok:
  assumes "parse_rewrite source = Some parsed" "pr_ok parsed"
  shows "lowerable (pr_program parsed)" "\<forall>r \<in> set (pg_roots (pr_program parsed)). r < length (pg_nodes (pr_program parsed))"
    "rd_error (pr_diagnostic parsed) = PE_none"
  using parse_rewrite_result [of source] assms tables_lowerable
  by (auto simp: result_ok_def roots_ok_def)

lemma single_root_outcome:
  assumes "\<forall>r \<in> set (pg_roots (pr_program parsed)). r < length (pg_nodes (pr_program parsed))"
  shows "if one_expression (pr_program parsed) then single_root_diagnostic parsed = Some None
    else \<exists>d. single_root_diagnostic parsed = Some (Some d) \<and> ed_stage d = ES_parse"
  using assms
  by (auto simp: single_root_diagnostic_def one_expression_def rewrite_stage_diagnostic_def Let_def
      split: list.splits)

lemma lower_resolved_outcome:
  assumes "lowerable p"
  shows "case lower_resolved h profile p of
      None \<Rightarrow> False
    | Some (Inl d, h') \<Rightarrow>
        if refuses_tuples profile p
        then ed_stage d = ES_resource_admission \<and> er_kind (ed_error d) = EK_profile_error
        else refusal p d
    | Some (Inr (q, lowering), h') \<Rightarrow>
        q = p \<and> \<not> refuses_tuples profile p \<and> (\<exists>before nds. accepted p before nds \<and> lowering = lowering_of p nds)"
proof (cases "refuses_tuples profile p")
  case True
  then obtain d where "tuple_profile_diagnostic p profile = Some d" "ed_stage d = ES_resource_admission"
    "er_kind (ed_error d) = EK_profile_error"
    using first_tuple_span_None [of p]
    by (auto simp: tuple_profile_diagnostic_def refuses_tuples_def make_error_def make_error_message_def
        split: option.splits)
  then show ?thesis
    using True production_valid
    by (simp add: lower_resolved_def production_primitive_table_validation_def valid_table_def)
next
  case False
  then have "tuple_profile_diagnostic p profile = None"
    using first_tuple_span_None [of p]
    by (auto simp: tuple_profile_diagnostic_def refuses_tuples_def split: option.splits)
  moreover obtain r h' where "lower_rewrite_program h p = Some (r, h')"
    "if lr_ok r then \<exists>before nds. accepted p before nds \<and> lr_program r = lowering_of p nds
     else refusal p (lr_diagnostic r)"
    using lower_outcome [OF assms, of h]
    by (cases "lower_rewrite_program h p") (auto simp: lowering_outcome_def split: if_splits)
  ultimately show ?thesis
    using False production_valid
    by (simp add: lower_resolved_def production_primitive_table_validation_def valid_table_def)
qed

definition front_end_outcome ::
    "execution_profile \<Rightarrow> resource_limits \<Rightarrow> bool \<Rightarrow> bytes \<Rightarrow> front_end_result \<Rightarrow> bool" where
  "front_end_outcome profile limits single source out \<longleftrightarrow>
     (case parse_rewrite source of
        None \<Rightarrow> False
      | Some parsed \<Rightarrow>
          (case out of
             None \<Rightarrow> False
           | Some (Inl d, h') \<Rightarrow> source_refusal profile limits single parsed d
           | Some (Inr (p, lowering), h') \<Rightarrow> source_accepted profile limits single parsed p lowering))"

lemma front_end_outcome: "front_end_outcome profile limits single source (front_end h profile limits single source)"
proof -
  obtain parsed where parsed: "parse_rewrite source = Some parsed" using parse_rewrite_result by blast
  let ?p = "pr_program parsed"
  show ?thesis
  proof (cases "configuration_message profile limits")
    case (Some m)
    then show ?thesis
      using parsed
      by (auto simp: front_end_outcome_def front_end_def validate_rewrite_configuration_def
          source_refusal_def make_error_def make_error_message_def split: prod.splits)
  next
    case config: None
    then have valid: "validate_rewrite_configuration h profile limits n = (None, h)" for n
      by (simp add: validate_rewrite_configuration_def)
    show ?thesis
    proof (cases "pr_ok parsed")
      case False
      then show ?thesis
        using parsed config
        by (simp add: front_end_outcome_def front_end_def valid source_refusal_def
            rewrite_stage_diagnostic_def Let_def)
    next
      case ok: True
      note p = parsed_program_ok [OF parsed ok]
      show ?thesis
      proof (cases "single \<and> \<not> one_expression ?p")
        case True
        then show ?thesis
          using parsed config ok single_root_outcome [OF p(2)]
          by (auto simp: front_end_outcome_def front_end_def valid source_refusal_def Let_def)
      next
        case single: False
        then have pass: "(if single then single_root_diagnostic parsed else Some None) = Some None"
          using single_root_outcome [OF p(2)] by auto
        show ?thesis
        proof (cases rule: resolve_outcome [of ?p])
          case (unresolved result)
          then show ?thesis
            using parsed config ok single pass
            by (auto simp: front_end_outcome_def front_end_def valid source_refusal_def
                resolution_diagnostic_def rewrite_stage_diagnostic_def Let_def)
        next
          case (resolved result)
          let ?q = "with_primitives ?p"
          have same: "refuses_tuples profile ?q = refuses_tuples profile ?p" "one_expression ?q = one_expression ?p"
            by (simp_all add: refuses_tuples_def one_expression_def) (simp add: with_primitives_def)
          have low: "lowerable ?q" by (rule with_primitives_lowerable [OF p(1)])
          have run: "front_end h profile limits single source = lower_resolved h profile ?q"
            using parsed config ok pass resolved by (simp add: front_end_def valid)
          show ?thesis
            using lower_resolved_outcome [OF low, of profile h] parsed config ok single resolved low same
            unfolding front_end_outcome_def run source_refusal_def source_accepted_def Let_def
            by (auto split: option.splits sum.splits prod.splits if_splits)
        qed
      qed
    qed
  qed
qed

section \<open>Properties\<close>

lemma front_end_cases:
  obtains (refused) parsed d h' where "parse_rewrite source = Some parsed"
      "front_end h profile limits single source = Some (Inl d, h')"
      "source_refusal profile limits single parsed d"
  | (lowered) parsed p before nds h' where "parse_rewrite source = Some parsed"
      "front_end h profile limits single source = Some (Inr (p, lowering_of p nds), h')"
      "source_accepted profile limits single parsed p (lowering_of p nds)"
      "lowerable p" "accepted p before nds"
proof -
  have outcome: "front_end_outcome profile limits single source (front_end h profile limits single source)"
    by (rule front_end_outcome)
  then obtain parsed where parsed: "parse_rewrite source = Some parsed"
    by (auto simp: front_end_outcome_def split: option.splits)
  obtain out h' where out: "front_end h profile limits single source = Some (out, h')"
    using outcome parsed by (cases "front_end h profile limits single source") (auto simp: front_end_outcome_def)
  show thesis
  proof (cases out)
    case (Inl d)
    then show thesis using refused [OF parsed] outcome parsed out by (simp add: front_end_outcome_def)
  next
    case (Inr x)
    then have acc: "source_accepted profile limits single parsed (fst x) (snd x)"
      using outcome parsed out by (simp add: front_end_outcome_def case_prod_beta)
    then obtain before nds where "accepted (fst x) before nds" "snd x = lowering_of (fst x) nds" "lowerable (fst x)"
      by (auto simp: source_accepted_def)
    then show thesis using lowered [OF parsed, of "fst x" nds h' before] acc out Inr by (cases x) simp
  qed
qed

text \<open>C1: the front half returns on every source, and decides by the first check that fails: the
  configuration, the grammar, the single root of an expression, the names, tuples under a first
  version of a profile, and then the phases of lowering, where an allocation that is refused ends
  it, an arity no signature has comes before any type, the first rejected type before any length,
  and the first call of arguments of different known lengths last. What it accepts is the program
  of the source with the primitives its names stand for, and tables copied from it.\<close>

theorem front_end_decides:
  "case parse_rewrite source of
     None \<Rightarrow> False
   | Some parsed \<Rightarrow>
       (case front_end h profile limits single source of
          None \<Rightarrow> False
        | Some (Inl d, h') \<Rightarrow> source_refusal profile limits single parsed d
        | Some (Inr (p, lowering), h') \<Rightarrow>
            source_accepted profile limits single parsed p lowering \<and>
            lp_arguments lowering = pg_arguments p \<and> lp_roots lowering = pg_roots p \<and>
            lp_tuple_elements lowering = pg_tuple_elements p \<and>
            lp_fanout_operands lowering = map rf_operand (pg_fanouts p) \<and>
            lp_fanout_branch_roots lowering = map rb_root (pg_fanout_branches p))"
proof (cases rule: front_end_cases [of source h profile limits single])
  case (refused parsed d h')
  then show ?thesis by simp
next
  case (lowered parsed p before nds h')
  then show ?thesis by (simp add: lowering_of_def)
qed


text \<open>C4: the use count of a lowered node is the number of places that refer to it: arguments,
  elements of tuples, operands and branches of fanouts, and roots; exactly the roots, which are
  distinct nodes, are retained.\<close>

theorem lowered_use_counts:
  "case front_end h profile limits single source of
     None \<Rightarrow> False
   | Some (Inl d, h') \<Rightarrow> True
   | Some (Inr (p, lowering), h') \<Rightarrow>
       map ln_kind (lp_nodes lowering) = map rn_kind (pg_nodes p) \<and>
       map ln_use_count (lp_nodes lowering) = map (uses p) [0..<length (pg_nodes p)] \<and>
       map ln_retained_root (lp_nodes lowering) = map (\<lambda>i. i \<in> set (pg_roots p)) [0..<length (pg_nodes p)] \<and>
       distinct (lp_roots lowering)"
proof (cases rule: front_end_cases [of source h profile limits single])
  case (refused parsed d h')
  then show ?thesis by simp
next
  case (lowered parsed p before nds h')
  then have node: "ln_kind (nds ! i) = rn_kind (pg_nodes p ! i)" "ln_use_count (nds ! i) = uses p i"
    "ln_retained_root (nds ! i) = (i \<in> set (pg_roots p))" if "i < length (pg_nodes p)" for i
    using typed_keeps [of p before i] shaped_keeps [of p before nds i] that by (auto simp: accepted_def)
  have len: "length nds = length (pg_nodes p)" and roots: "distinct (pg_roots p)"
    using lowered(5) by (simp_all add: accepted_def roots_in_order_def)
  have "map ln_kind nds = map rn_kind (pg_nodes p)"
    "map ln_use_count nds = map (uses p) [0..<length (pg_nodes p)]"
    "map ln_retained_root nds = map (\<lambda>i. i \<in> set (pg_roots p)) [0..<length (pg_nodes p)]"
    by (rule nth_equalityI; simp add: len node)+
  then show ?thesis using lowered(2) roots by (simp add: lowering_of_def)
qed

definition well_shaped :: "rewrite_program \<Rightarrow> rewrite_lowering_node list \<Rightarrow> nat \<Rightarrow> bool" where
  "well_shaped p nds i \<longleftrightarrow> rn_kind (pg_nodes p ! i) = NK_primitive_call \<longrightarrow> well_shaped_call p nds i"


end
