(* ===== verification/LoweringExamples.thy ===== *)
theory LoweringExamples
  imports FrontEnd "HOL-Library.Code_Target_Numeral"
begin

text \<open>
  Two programs on which the order of the phases of lowering shows: types are computed while every
  elementwise call still has the cardinality of a scalar, and a placeholder is given the shape of
  its operand at that time.
\<close>

definition sample_span :: "nat \<Rightarrow> nat \<Rightarrow> rewrite_span" where
  "sample_span b e =
     \<lparr>rs_begin = \<lparr>rp_offset = b, rp_line = 1, rp_column = b\<rparr>,
      rs_end = \<lparr>rp_offset = e, rp_line = 1, rp_column = e\<rparr>\<rparr>"

definition sample_call :: "nat \<Rightarrow> nat \<Rightarrow> nat \<Rightarrow> nat \<Rightarrow> nat \<Rightarrow> primitive_id \<Rightarrow> rewrite_call" where
  "sample_call b n e first count pid =
     \<lparr>rc_syntax = CS_bracketed, rc_name_span = sample_span b n,
      rc_opening_delimiter_span = sample_span n (n + 1),
      rc_closing_delimiter_span = sample_span (e - 1) e,
      rc_prefix_separator_span = sample_span n n, rc_span = sample_span b e,
      rc_first_argument = first, rc_argument_count = count, rc_primitive = Some pid\<rparr>"

text \<open>\<open>iota[inc[(1 2 3)]]\<close>\<close>

definition iota_of_vector :: rewrite_program where
  "iota_of_vector = empty_program
     \<lparr>pg_source := ''iota[inc[(1 2 3)]]'',
      pg_nodes :=
        [plain_node NK_vector_literal (sample_span 10 17) ST_integer 0 3 0 0,
         plain_node NK_primitive_call (sample_span 6 18) ST_boolean 0 0 0 0,
         plain_node NK_primitive_call (sample_span 1 19) ST_boolean 0 0 0 1],
      pg_arguments := [0, 1], pg_argument_spans := [sample_span 10 17, sample_span 6 18],
      pg_roots := [2],
      pg_calls := [sample_call 6 9 18 0 1 PI_inc, sample_call 1 5 19 1 1 PI_iota],
      pg_integer_elements := [1, 2, 3],
      pg_vector_element_spans := [sample_span 11 12, sample_span 13 14, sample_span 15 16]\<rparr>"

text \<open>\<open>fanout[inc[(1 2 3)] {add[_ (1 2)]}]\<close>\<close>

definition fanout_of_vectors :: rewrite_program where
  "fanout_of_vectors = empty_program
     \<lparr>pg_source := ''fanout[inc[(1 2 3)] {add[_ (1 2)]}]'',
      pg_nodes :=
        [plain_node NK_vector_literal (sample_span 12 19) ST_integer 0 3 0 0,
         plain_node NK_primitive_call (sample_span 8 20) ST_boolean 0 0 0 0,
         plain_node NK_placeholder (sample_span 26 27) ST_boolean 1 0 0 0,
         plain_node NK_vector_literal (sample_span 28 33) ST_integer 3 2 3 0,
         plain_node NK_primitive_call (sample_span 22 34) ST_boolean 0 0 0 1,
         plain_node NK_fanout (sample_span 1 36) ST_boolean 0 1 0 0],
      pg_arguments := [0, 2, 3],
      pg_argument_spans := [sample_span 12 19, sample_span 26 27, sample_span 28 33],
      pg_roots := [5],
      pg_calls := [sample_call 8 11 20 0 1 PI_inc, sample_call 22 25 34 1 2 PI_add],
      pg_integer_elements := [1, 2, 3, 1, 2],
      pg_vector_element_spans :=
        [sample_span 13 14, sample_span 15 16, sample_span 17 18, sample_span 29 30, sample_span 31 32],
      pg_fanouts :=
        [\<lparr>rf_keyword_span = sample_span 1 7, rf_opening_span = sample_span 7 8,
          rf_closing_span = sample_span 35 36, rf_span = sample_span 1 36,
          rf_operand_span = sample_span 8 20, rf_operand = 1, rf_first_branch = 0,
          rf_branch_count = 1\<rparr>],
      pg_fanout_branches :=
        [\<lparr>rb_span = sample_span 21 35, rb_opening_span = sample_span 21 22,
          rb_closing_span = sample_span 34 35, rb_body_span = sample_span 22 34,
          rb_placeholder_span = sample_span 26 27, rb_root = 4\<rparr>]\<rparr>"

text \<open>The shape of every node of a program that is accepted: cardinality, length, and whether
  lengths are compared at run time.\<close>

definition lowered_shapes ::
    "(rewrite_lowering_result \<times> host_state) option \<Rightarrow> (rewrite_cardinality \<times> nat \<times> bool) list option"
where
  "lowered_shapes lowered =
     (case lowered of
        None \<Rightarrow> None
      | Some (r, h) \<Rightarrow>
          if lr_ok r
          then Some (map (\<lambda>nd. (ln_cardinality nd, ln_element_count nd, ln_runtime_shape_check nd))
                       (lp_nodes (lr_program r)))
          else None)"

text \<open>A vector argument of \<open>iota\<close>, whose parameter is a scalar, is accepted when it is itself the
  result of a call: its shape is computed after the types are checked.\<close>

theorem iota_of_vector_accepted:
  "lowered_shapes (lower_rewrite_program sample_host iota_of_vector) =
     Some [(RC_static_vector, 3, False), (RC_static_vector, 3, False), (RC_dynamic_vector, 0, False)]"
  by code_simp

text \<open>The operand of the fanout has length 3, its placeholder is taken for a scalar, and \<open>add\<close> of the
  placeholder and a vector of length 2 is accepted with length 2 and without a check at run time.\<close>

theorem fanout_of_vectors_accepted:
  "lowered_shapes (lower_rewrite_program sample_host fanout_of_vectors) =
     Some [(RC_static_vector, 3, False), (RC_static_vector, 3, False), (RC_scalar, 1, False),
           (RC_static_vector, 2, False), (RC_static_vector, 2, False), (RC_tuple, 1, False)]"
  by code_simp

end
