(* ===== verification/ResourceState.thy ===== *)
theory ResourceState
  imports Profiles
begin

text \<open>
  Evaluation resources (src/resources.cpp): every context a caller creates is a state in a
  registry of 257 buckets, named by a token that is never reused, and counted: one reference
  for the context itself, one for each allocation bound to it and one for each operation in
  progress. The caller holds a record of plain fields, copied from the state when an operation
  begins and back to it when it ends.

  \<^item> A pointer to a state is its token: the tokens of the registered states are distinct.
  \<^item> Every operation holds the mutex of its context, so an operation is one step. Lifetime
    observers, the callbacks by which a caller follows allocations, are taken to be absent.
  \<^item> \<open>rw_address n\<close> is the address the environment gives to the n-th call of \<open>malloc\<close> when it
    grants it, \<open>rw_identity\<close> the address of \<open>host_element_type_identity\<close> for each element type,
    and \<open>rw_release\<close> the address of \<open>release_abandoned_semantic_allocation\<close>.
\<close>

section \<open>State\<close>

record accounting =
  ac_profile :: execution_profile
  ac_limits :: resource_limits
  ac_creation_error :: host_resource_error_reason
  ac_fail_at :: "nat option"
  ac_live :: nat
  ac_work :: nat
  ac_ordinal :: nat
  ac_version :: nat

record resource_state = accounting +
  rs_references :: nat
  rs_context_active :: bool
  rs_token :: nat

record evaluation_resources = accounting +
  ev_owner :: nat
  ev_handle :: nat

datatype buffer_element = BE_uint8 | BE_int64 | BE_double | BE_byte

record resource_world =
  rw_states :: "nat \<Rightarrow> resource_state list"
  rw_next_token :: nat
  rw_hosts :: host_registry
  rw_host :: host_state
  rw_address :: "nat \<Rightarrow> address"
  rw_identity :: "buffer_element \<Rightarrow> address"
  rw_release :: address

definition token_max :: nat where
  "token_max = 2 ^ 64 - 1"

text \<open>The nine assignments by which the code copies the accounting fields between a state and
  a caller's record.\<close>

definition copy_accounting ::
    "'a accounting_scheme \<Rightarrow> 'b accounting_scheme \<Rightarrow> 'b accounting_scheme" where
  "copy_accounting from into =
     into\<lparr>ac_profile := ac_profile from, ac_limits := ac_limits from,
          ac_creation_error := ac_creation_error from, ac_fail_at := ac_fail_at from,
          ac_live := ac_live from, ac_work := ac_work from, ac_ordinal := ac_ordinal from,
          ac_version := ac_version from\<rparr>"

section \<open>The registry of states\<close>

definition resource_registry_bucket_count :: nat where
  "resource_registry_bucket_count = 257"

definition resource_registry_bucket :: "nat \<Rightarrow> nat" where
  "resource_registry_bucket token = token mod resource_registry_bucket_count"

definition has_token :: "nat \<Rightarrow> resource_state \<Rightarrow> bool" where
  "has_token token s \<longleftrightarrow> rs_token s = token"

definition find_resource_state_locked :: "resource_world \<Rightarrow> nat \<Rightarrow> resource_state option" where
  "find_resource_state_locked w owner =
     (if owner = 0 then None
      else find (has_token owner) (rw_states w (resource_registry_bucket owner)))"

text \<open>An assignment through a pointer to the state of a token, and the loop that unlinks it.\<close>

fun update_first :: "('a \<Rightarrow> bool) \<Rightarrow> ('a \<Rightarrow> 'a) \<Rightarrow> 'a list \<Rightarrow> 'a list" where
  "update_first p f [] = []"
| "update_first p f (x # xs) = (if p x then f x # xs else x # update_first p f xs)"

fun remove_first :: "('a \<Rightarrow> bool) \<Rightarrow> 'a list \<Rightarrow> 'a list" where
  "remove_first p [] = []"
| "remove_first p (x # xs) = (if p x then xs else x # remove_first p xs)"

definition set_states ::
    "resource_world \<Rightarrow> nat \<Rightarrow> resource_state list \<Rightarrow> resource_world" where
  "set_states w b states = w\<lparr>rw_states := fun_upd (rw_states w) b states\<rparr>"

definition modify_state ::
    "resource_world \<Rightarrow> nat \<Rightarrow> (resource_state \<Rightarrow> resource_state) \<Rightarrow> resource_world" where
  "modify_state w token f =
     (let b = resource_registry_bucket token
      in set_states w b (update_first (has_token token) f (rw_states w b)))"

definition erase_and_destroy_resource_state_locked ::
    "resource_world \<Rightarrow> nat \<Rightarrow> resource_world" where
  "erase_and_destroy_resource_state_locked w token =
     (let b = resource_registry_bucket token
      in set_states w b (remove_first (has_token token) (rw_states w b)))"

definition record_matches_state :: "evaluation_resources \<Rightarrow> resource_state \<Rightarrow> bool" where
  "record_matches_state ev s \<longleftrightarrow> ev_owner ev = rs_token s \<and> ev_handle ev = rs_token s"

definition add_reference :: "resource_state \<Rightarrow> resource_state" where
  "add_reference s = s\<lparr>rs_references := rs_references s + 1\<rparr>"

definition drop_reference :: "resource_state \<Rightarrow> resource_state" where
  "drop_reference s =
     s\<lparr>rs_references := (if rs_references s = 0 then size_max else rs_references s - 1)\<rparr>"

definition acquire_validated_resource_state ::
    "resource_world \<Rightarrow> evaluation_resources \<Rightarrow> nat option \<times> resource_world" where
  "acquire_validated_resource_state w ev =
     (case find_resource_state_locked w (ev_owner ev) of
        None \<Rightarrow> (None, w)
      | Some s \<Rightarrow>
          if \<not> rs_context_active s \<or> \<not> record_matches_state ev s then (None, w)
          else (Some (rs_token s), modify_state w (rs_token s) add_reference))"

definition acquire_accounting_owner ::
    "resource_world \<Rightarrow> nat \<Rightarrow> nat option \<times> resource_world" where
  "acquire_accounting_owner w owner =
     (case find_resource_state_locked w owner of
        None \<Rightarrow> (None, w)
      | Some s \<Rightarrow> (Some (rs_token s), modify_state w (rs_token s) add_reference))"

text \<open>\<open>release_acquired_resource_state\<close> and \<open>release_accounting_owner\<close>: the first is given
  the state itself, the second finds it.\<close>

definition release_state_reference :: "resource_world \<Rightarrow> nat \<Rightarrow> resource_world" where
  "release_state_reference w token =
     (let w' = modify_state w token drop_reference
      in case find_resource_state_locked w' token of
           None \<Rightarrow> w'
         | Some s \<Rightarrow>
             if rs_references s = 0 then erase_and_destroy_resource_state_locked w' token
             else w')"

definition release_acquired_resource_state ::
    "resource_world \<Rightarrow> nat option \<Rightarrow> resource_world" where
  "release_acquired_resource_state w state =
     (case state of None \<Rightarrow> w | Some token \<Rightarrow> release_state_reference w token)"

definition retain_accounting_owner :: "resource_world \<Rightarrow> nat \<Rightarrow> bool \<times> resource_world" where
  "retain_accounting_owner w owner =
     (case find_resource_state_locked w owner of
        None \<Rightarrow> (False, w)
      | Some s \<Rightarrow> (True, modify_state w (rs_token s) add_reference))"

definition release_accounting_owner :: "resource_world \<Rightarrow> nat \<Rightarrow> resource_world" where
  "release_accounting_owner w owner =
     (case find_resource_state_locked w owner of
        None \<Rightarrow> w
      | Some s \<Rightarrow> release_state_reference w (rs_token s))"

definition resource_state_owner_is_live :: "resource_world \<Rightarrow> nat \<Rightarrow> bool" where
  "resource_state_owner_is_live w owner \<longleftrightarrow> find_resource_state_locked w owner \<noteq> None"

definition issue_resource_token_locked :: "nat \<Rightarrow> nat \<times> nat" where
  "issue_resource_token_locked next_token =
     (if next_token = 0 then (0, next_token)
      else (next_token, if next_token = token_max then 0 else next_token + 1))"

section \<open>Copying between a state and a caller's record\<close>

definition begin_resource_record_sync ::
    "resource_world \<Rightarrow> evaluation_resources \<Rightarrow> nat option \<Rightarrow> evaluation_resources" where
  "begin_resource_record_sync w ev state =
     (case state of
        None \<Rightarrow> ev
      | Some token \<Rightarrow>
          (case find_resource_state_locked w token of
             None \<Rightarrow> ev
           | Some s \<Rightarrow> copy_accounting s ev))"

definition finish_resource_record_sync ::
    "resource_world \<Rightarrow> evaluation_resources \<Rightarrow> nat option \<Rightarrow> resource_world" where
  "finish_resource_record_sync w ev state =
     (case state of
        None \<Rightarrow> w
      | Some token \<Rightarrow>
          modify_state w token
            (\<lambda>s. s\<lparr>ac_live := ac_live ev, ac_work := ac_work ev, ac_ordinal := ac_ordinal ev\<rparr>))"

text \<open>The frame of an operation on a context: the state is acquired and pinned, the record
  brought up to date, the body run, the counters copied back and the pin released. A record
  that names no active context runs the body without a state.\<close>

definition with_resource_state ::
    "resource_world \<Rightarrow> evaluation_resources
      \<Rightarrow> (resource_world \<Rightarrow> evaluation_resources \<Rightarrow> nat option
            \<Rightarrow> 'r \<times> evaluation_resources \<times> resource_world)
      \<Rightarrow> 'r \<times> evaluation_resources \<times> resource_world" where
  "with_resource_state w ev body =
     (case acquire_validated_resource_state w ev of
        (state, w) \<Rightarrow>
          (case body w (begin_resource_record_sync w ev state) state of
             (r, ev, w) \<Rightarrow>
               (r, ev, release_acquired_resource_state
                         (finish_resource_record_sync w ev state) state)))"

section \<open>Abandoned allocations\<close>

text \<open>A buffer that is freed while its charge is still bound gives the charge back and drops
  its reference to the context.\<close>

definition release_abandoned_semantic_allocation ::
    "resource_world \<Rightarrow> nat \<Rightarrow> nat \<Rightarrow> resource_world" where
  "release_abandoned_semantic_allocation w owner_token canonical_bytes =
     (case acquire_accounting_owner w owner_token of
        (state, w) \<Rightarrow>
          let w = (case state of
                     None \<Rightarrow> w
                   | Some token \<Rightarrow>
                       modify_state w token
                         (\<lambda>s. if canonical_bytes \<le> ac_live s
                              then s\<lparr>ac_live := ac_live s - canonical_bytes\<rparr> else s))
          in release_acquired_resource_state (release_accounting_owner w owner_token) state)"

text \<open>The call that unlinking a record leaves pending.\<close>

definition run_release_call :: "resource_world \<Rightarrow> release_call option \<Rightarrow> resource_world" where
  "run_release_call w call =
     (case call of
        None \<Rightarrow> w
      | Some (release, owner, canonical_bytes) \<Rightarrow>
          release_abandoned_semantic_allocation w owner canonical_bytes)"

section \<open>Contexts\<close>

text \<open>What the constructors give when no state can be made.\<close>

definition no_limits :: resource_limits where
  "no_limits = \<lparr>lm_max_vector_bytes = None, lm_max_live_evaluation_bytes = None,
                lm_max_work_units = None, lm_max_tuple_table_bytes = None\<rparr>"

definition failed_resources :: evaluation_resources where
  "failed_resources =
     \<lparr>ac_profile = EP_trusted_local_v1, ac_limits = no_limits,
      ac_creation_error = HR_allocation_unavailable, ac_fail_at = None, ac_live = 0,
      ac_work = 0, ac_ordinal = 0, ac_version = 0, ev_owner = 0, ev_handle = 0\<rparr>"

definition resource_state_size :: nat where
  "resource_state_size = 216"

definition make_resource_record ::
    "resource_world \<Rightarrow> execution_profile \<Rightarrow> resource_limits \<Rightarrow> nat option \<Rightarrow> nat \<Rightarrow> nat \<Rightarrow> nat
      \<Rightarrow> evaluation_resources \<times> resource_world" where
  "make_resource_record w profile limits fail_at live_evaluation_bytes work_units
      reservation_ordinal =
     (case malloc (rw_host w) resource_state_size of
        (False, h) \<Rightarrow> (failed_resources, w\<lparr>rw_host := h\<rparr>)
      | (True, h) \<Rightarrow>
          (case issue_resource_token_locked (rw_next_token w) of
             (token, next_token) \<Rightarrow>
               if token = 0
               then (failed_resources, w\<lparr>rw_host := h, rw_next_token := next_token\<rparr>)
               else
                 let state = \<lparr>ac_profile = profile, ac_limits = limits,
                              ac_creation_error = HR_none, ac_fail_at = fail_at,
                              ac_live = live_evaluation_bytes, ac_work = work_units,
                              ac_ordinal = reservation_ordinal, ac_version = 1,
                              rs_references = 1, rs_context_active = True, rs_token = token\<rparr>;
                     b = resource_registry_bucket token
                 in (copy_accounting state
                       (failed_resources\<lparr>ev_owner := token, ev_handle := token\<rparr>),
                     set_states (w\<lparr>rw_host := h, rw_next_token := next_token\<rparr>) b
                       (state # rw_states w b))))"

definition make_trusted_local_resources ::
    "resource_world \<Rightarrow> nat option \<Rightarrow> evaluation_resources \<times> resource_world" where
  "make_trusted_local_resources w fail_at =
     make_resource_record w EP_trusted_local_v1 no_limits fail_at 0 0 0"

definition make_bounded_resources ::
    "resource_world \<Rightarrow> resource_limits \<Rightarrow> nat option \<Rightarrow> evaluation_resources \<times> resource_world"
where
  "make_bounded_resources w limits fail_at =
     make_resource_record w EP_bounded_v1 limits fail_at 0 0 0"

definition make_trusted_local_v2_resources ::
    "resource_world \<Rightarrow> nat option \<Rightarrow> evaluation_resources \<times> resource_world" where
  "make_trusted_local_v2_resources w fail_at =
     make_resource_record w EP_trusted_local_v2 no_limits fail_at 0 0 0"

definition make_bounded_v2_resources ::
    "resource_world \<Rightarrow> resource_limits \<Rightarrow> nat option \<Rightarrow> evaluation_resources \<times> resource_world"
where
  "make_bounded_v2_resources w limits fail_at =
     make_resource_record w EP_bounded_v2 limits fail_at 0 0 0"

definition make_evaluation_resources ::
    "resource_world \<Rightarrow> execution_profile \<Rightarrow> resource_limits \<Rightarrow> nat option \<Rightarrow> nat \<Rightarrow> nat \<Rightarrow> nat
      \<Rightarrow> evaluation_resources \<times> resource_world" where
  "make_evaluation_resources w profile limits fail_at live_evaluation_bytes work_units
      reservation_ordinal =
     make_resource_record w profile limits fail_at live_evaluation_bytes work_units
       reservation_ordinal"

definition forget_context :: "evaluation_resources \<Rightarrow> evaluation_resources" where
  "forget_context ev = ev\<lparr>ev_owner := 0, ev_handle := 0\<rparr>"

definition deactivate_context :: "resource_state \<Rightarrow> resource_state" where
  "deactivate_context s = s\<lparr>rs_context_active := False\<rparr>"

text \<open>Closing a context: the reference the operation takes and the one the context held cancel,
  so the release at the end drops the one that is left.\<close>

definition release_evaluation_resources ::
    "resource_world \<Rightarrow> evaluation_resources \<Rightarrow> evaluation_resources \<times> resource_world" where
  "release_evaluation_resources w ev =
     (case find_resource_state_locked w (ev_owner ev) of
        None \<Rightarrow> (forget_context ev, w)
      | Some s \<Rightarrow>
          if rs_context_active s \<and> record_matches_state ev s
          then let w = modify_state w (rs_token s)
                         (\<lambda>s. drop_reference (deactivate_context (add_reference s)))
               in (forget_context (copy_accounting s ev),
                   release_acquired_resource_state w (Some (rs_token s)))
          else (forget_context ev, w))"

definition move_evaluation_resources ::
    "resource_world \<Rightarrow> evaluation_resources
      \<Rightarrow> evaluation_resources \<times> evaluation_resources \<times> resource_world" where
  "move_evaluation_resources w ev =
     (case acquire_validated_resource_state w ev of
        (None, w) \<Rightarrow> (forget_context ev, ev, w)
      | (Some token, w) \<Rightarrow>
          (begin_resource_record_sync w ev (Some token), forget_context ev,
           release_acquired_resource_state w (Some token)))"

definition refresh_evaluation_resources ::
    "resource_world \<Rightarrow> evaluation_resources
      \<Rightarrow> bool \<times> evaluation_resources \<times> resource_world" where
  "refresh_evaluation_resources w ev =
     (case acquire_validated_resource_state w ev of
        (None, w) \<Rightarrow> (False, ev, w)
      | (Some token, w) \<Rightarrow>
          (True, begin_resource_record_sync w ev (Some token),
           release_acquired_resource_state w (Some token)))"

datatype configuration_update =
    CU_updated | CU_stale_snapshot | CU_invalid_resource | CU_version_exhausted

definition update_evaluation_resource_configuration ::
    "resource_world \<Rightarrow> evaluation_resources
      \<Rightarrow> configuration_update \<times> evaluation_resources \<times> resource_world" where
  "update_evaluation_resource_configuration w ev =
     (case acquire_validated_resource_state w ev of
        (None, w) \<Rightarrow> (CU_invalid_resource, ev, w)
      | (Some token, w) \<Rightarrow>
          (case find_resource_state_locked w token of
             None \<Rightarrow> (CU_invalid_resource, ev, w)
           | Some s \<Rightarrow>
               if ac_version ev \<noteq> ac_version s
               then (CU_stale_snapshot, copy_accounting s ev,
                     release_acquired_resource_state w (Some token))
               else if ac_version s = token_max
               then (CU_version_exhausted, ev, release_acquired_resource_state w (Some token))
               else
                 (CU_updated, ev\<lparr>ac_version := ac_version s + 1\<rparr>,
                  release_acquired_resource_state
                    (modify_state w token
                       (\<lambda>s. s\<lparr>ac_profile := ac_profile ev, ac_limits := ac_limits ev,
                             ac_creation_error := ac_creation_error ev,
                             ac_fail_at := ac_fail_at ev,
                             ac_version := ac_version s + 1\<rparr>))
                    (Some token))))"

end
