(* ===== verification/Values.thy ===== *)
theory Values
  imports ResourceState
begin

text \<open>
  Values (include/bennu/value.hpp, src/value.cpp): one plain record for scalars, vectors and
  tuples, of which only the fields of its container are in use, and the checks by which every
  consumer of a value decides whether it is well formed. Every field is public in the code, so
  the model represents malformed values too: a value forged by hand, a value whose charge was
  already given back, a value whose owner is gone.

  A buffer is the address an owning pointer holds, 0 for a null pointer, with the elements of
  the block at that address. What the registry of allocations knows of the address is part of
  the state of the process.
\<close>

section \<open>Data\<close>

record 'a buffer =
  bf_address :: address
  bf_contents :: "'a list"

definition null_buffer :: "'a buffer" where
  "null_buffer = \<lparr>bf_address = 0, bf_contents = []\<rparr>"

record vector_value =
  vv_element_type :: scalar_type
  vv_booleans :: "u8 buffer"
  vv_boolean_count :: nat
  vv_integers :: "i64 buffer"
  vv_integer_count :: nat
  vv_doubles :: "binary64 buffer"
  vv_double_count :: nat
  vv_canonical_bytes :: nat
  vv_accounting_active :: bool
  vv_accounting_owner :: nat
  vv_allocation_ordinal :: "nat option"

record tuple_table_reservation =
  tr_storage :: "u8 buffer"
  tr_element_count :: nat
  tr_canonical_bytes :: nat
  tr_accounting_active :: bool
  tr_accounting_owner :: nat
  tr_allocation_ordinal :: "nat option"

record value_node =
  vn_container :: container_kind
  vn_scalar :: scalar_value
  vn_first_child :: nat
  vn_child_count :: nat
  vn_tuple_reservation_index :: nat
  vn_vector_payload_index :: nat

record tuple_value =
  tv_nodes :: "value_node host_array"
  tv_child_indexes :: "nat host_array"
  tv_root_index :: nat
  tv_vector_payloads :: "vector_value host_array"
  tv_reservations :: "tuple_table_reservation host_array"
  tv_root_reservation :: tuple_table_reservation
  tv_first_child :: nat
  tv_child_count :: nat

record bennu_value =
  va_container :: container_kind
  va_scalar :: scalar_value
  va_vector :: vector_value
  va_tuple :: tuple_value
  va_claimed :: bool

datatype value_access_error =
    VE_none | VE_invalid_value | VE_container_mismatch | VE_index_out_of_bounds

record value_validation_result =
  vr_ok :: bool
  vr_invariant :: value_invariant
  vr_error :: value_access_error
  vr_path :: "nat list"
  vr_node_index :: "nat option"
  vr_edge_index :: "nat option"
  vr_resource_error :: host_resource_error_reason

definition empty_scalar :: scalar_value where
  "empty_scalar = \<lparr>sv_type = ST_boolean, sv_boolean = False, sv_integer = 0, sv_double = 0\<rparr>"

definition empty_vector_of :: "scalar_type \<Rightarrow> vector_value" where
  "empty_vector_of element_type =
     \<lparr>vv_element_type = element_type, vv_booleans = null_buffer, vv_boolean_count = 0,
      vv_integers = null_buffer, vv_integer_count = 0, vv_doubles = null_buffer,
      vv_double_count = 0, vv_canonical_bytes = 0, vv_accounting_active = False,
      vv_accounting_owner = 0, vv_allocation_ordinal = None\<rparr>"

definition empty_reservation :: tuple_table_reservation where
  "empty_reservation =
     \<lparr>tr_storage = null_buffer, tr_element_count = 0, tr_canonical_bytes = 0,
      tr_accounting_active = False, tr_accounting_owner = 0, tr_allocation_ordinal = None\<rparr>"

definition empty_tuple :: tuple_value where
  "empty_tuple =
     \<lparr>tv_nodes = empty_host_array, tv_child_indexes = empty_host_array, tv_root_index = 0,
      tv_vector_payloads = empty_host_array, tv_reservations = empty_host_array,
      tv_root_reservation = empty_reservation, tv_first_child = 0, tv_child_count = 0\<rparr>"

section \<open>Construction\<close>

definition make_scalar_value :: "scalar_value \<Rightarrow> bennu_value" where
  "make_scalar_value s =
     \<lparr>va_container = CK_scalar, va_scalar = s, va_vector = empty_vector_of ST_boolean,
      va_tuple = empty_tuple, va_claimed = True\<rparr>"

definition make_bool_value :: "bool \<Rightarrow> bennu_value" where
  "make_bool_value b = make_scalar_value (bool_scalar b)"

definition make_int_value :: "i64 \<Rightarrow> bennu_value" where
  "make_int_value v = make_scalar_value (int_scalar v)"

definition make_double_value :: "binary64 \<Rightarrow> bennu_value" where
  "make_double_value d = make_scalar_value (double_scalar d)"

definition invalid_construction_value :: bennu_value where
  "invalid_construction_value = (make_scalar_value empty_scalar)\<lparr>va_claimed := False\<rparr>"

definition move_value :: "bennu_value \<Rightarrow> bennu_value \<times> bennu_value" where
  "move_value source =
     (if \<not> va_claimed source then (invalid_construction_value, source)
      else (source, invalid_construction_value))"

text \<open>The empty vector of an element type, as the allocator starts from it.\<close>

definition empty_vector :: "scalar_type \<Rightarrow> bennu_value" where
  "empty_vector element_type =
     \<lparr>va_container = CK_vector, va_scalar = empty_scalar,
      va_vector = empty_vector_of element_type, va_tuple = empty_tuple, va_claimed = True\<rparr>"

section \<open>Validation of scalars\<close>

definition is_positive_zero :: "binary64 \<Rightarrow> bool" where
  "is_positive_zero d \<longleftrightarrow> d = 0"

definition is_canonical_double :: "binary64 \<Rightarrow> bool" where
  "is_canonical_double bits \<longleftrightarrow>
     (if bits AND 0x7ff0000000000000 \<noteq> 0x7ff0000000000000
         \<or> bits AND 0x000fffffffffffff = 0
      then True else bits = canonical_nan_bits)"

definition scalar_verdict :: "scalar_value \<Rightarrow> value_invariant" where
  "scalar_verdict s =
     (case sv_type s of
        ST_boolean \<Rightarrow>
          if sv_integer s \<noteq> 0 \<or> \<not> is_positive_zero (sv_double s) then VI_inactive_scalar_field
          else VI_none
      | ST_integer \<Rightarrow>
          if sv_boolean s \<or> \<not> is_positive_zero (sv_double s) then VI_inactive_scalar_field
          else VI_none
      | ST_double_precision \<Rightarrow>
          if sv_boolean s \<or> sv_integer s \<noteq> 0 then VI_inactive_scalar_field
          else if \<not> is_canonical_double (sv_double s) then VI_noncanonical_nan
          else VI_none
      | ST_unknown _ \<Rightarrow> VI_unknown_scalar_type)"

definition is_empty_scalar :: "scalar_value \<Rightarrow> bool" where
  "is_empty_scalar s \<longleftrightarrow>
     sv_type s = ST_boolean \<and> \<not> sv_boolean s \<and> sv_integer s = 0
     \<and> is_positive_zero (sv_double s)"

section \<open>Vectors\<close>

definition active_vector_length :: "vector_value \<Rightarrow> nat" where
  "active_vector_length v =
     (case vv_element_type v of
        ST_boolean \<Rightarrow> vv_boolean_count v
      | ST_integer \<Rightarrow> vv_integer_count v
      | ST_double_precision \<Rightarrow> vv_double_count v
      | ST_unknown _ \<Rightarrow> 0)"

definition vector_storage :: "vector_value \<Rightarrow> address" where
  "vector_storage v =
     (case vv_element_type v of
        ST_boolean \<Rightarrow> bf_address (vv_booleans v)
      | ST_integer \<Rightarrow> bf_address (vv_integers v)
      | ST_double_precision \<Rightarrow> bf_address (vv_doubles v)
      | ST_unknown _ \<Rightarrow> 0)"

definition host_buffer_valid ::
    "resource_world \<Rightarrow> buffer_element \<Rightarrow> address \<Rightarrow> nat \<Rightarrow> bool" where
  "host_buffer_valid w element storage required_bytes \<longleftrightarrow>
     (if storage = 0 then required_bytes = 0
      else let s = find_host_allocation (rw_hosts w) storage HP_buffer (rw_identity w element)
           in has_found s \<and> required_bytes = has_byte_count s)"

datatype resource_storage_kind = SK_vector_payload | SK_tuple_table

definition semantic_allocation_matches ::
    "resource_world \<Rightarrow> address \<Rightarrow> nat \<Rightarrow> nat \<Rightarrow> nat option \<Rightarrow> resource_storage_kind \<Rightarrow> bool"
where
  "semantic_allocation_matches w storage owner byte_count ordinal kind =
     semantic_host_buffer_matches (rw_hosts w) storage owner byte_count ordinal
       (if kind = SK_vector_payload then SP_vector_payload else SP_tuple_table)"

text \<open>The check that a payload's charge, when it is active, is the one the registry holds for
  its storage.\<close>

definition accounting_valid :: "resource_world \<Rightarrow> vector_value \<Rightarrow> nat \<Rightarrow> nat \<Rightarrow> bool" where
  "accounting_valid w payload count width \<longleftrightarrow>
     count \<le> size_max div width \<and>
     (let bytes = count * width
      in \<not> (vv_canonical_bytes payload \<noteq> bytes
            \<or> bytes = 0 \<and> vv_accounting_active payload
            \<or> vv_accounting_active payload
              \<and> (vv_accounting_owner payload = 0
                 \<or> \<not> resource_state_owner_is_live w (vv_accounting_owner payload))
            \<or> bytes \<noteq> 0 \<and> vv_accounting_active payload \<and> vv_allocation_ordinal payload = None
            \<or> bytes = 0 \<and> vv_allocation_ordinal payload \<noteq> None
            \<or> \<not> vv_accounting_active payload \<and> vv_accounting_owner payload \<noteq> 0
            \<or> bytes \<noteq> 0 \<and> vv_accounting_active payload
              \<and> \<not> semantic_allocation_matches w (vector_storage payload)
                    (vv_accounting_owner payload) bytes (vv_allocation_ordinal payload)
                    SK_vector_payload))"

definition accounting_verdict ::
    "resource_world \<Rightarrow> vector_value \<Rightarrow> nat \<Rightarrow> nat \<Rightarrow> value_invariant" where
  "accounting_verdict w payload count width =
     (if accounting_valid w payload count width then VI_none
      else VI_invalid_vector_payload_handle)"

definition boolean_fields_unused :: "vector_value \<Rightarrow> bool" where
  "boolean_fields_unused v \<longleftrightarrow> bf_address (vv_booleans v) = 0 \<and> vv_boolean_count v = 0"

definition integer_fields_unused :: "vector_value \<Rightarrow> bool" where
  "integer_fields_unused v \<longleftrightarrow> bf_address (vv_integers v) = 0 \<and> vv_integer_count v = 0"

definition double_fields_unused :: "vector_value \<Rightarrow> bool" where
  "double_fields_unused v \<longleftrightarrow> bf_address (vv_doubles v) = 0 \<and> vv_double_count v = 0"

definition vector_validation :: "resource_world \<Rightarrow> vector_value \<Rightarrow> value_invariant" where
  "vector_validation w v =
     (case vv_element_type v of
        ST_boolean \<Rightarrow>
          if \<not> integer_fields_unused v \<or> \<not> double_fields_unused v
             \<or> (vv_boolean_count v = 0) \<noteq> (bf_address (vv_booleans v) = 0)
          then VI_inactive_vector_payload
          else if \<not> host_buffer_valid w BE_uint8 (bf_address (vv_booleans v))
                     (vv_boolean_count v)
          then VI_invalid_vector_payload_handle
          else if list_ex (\<lambda>b. b > 1) (take (vv_boolean_count v) (bf_contents (vv_booleans v)))
          then VI_invalid_boolean_element
          else accounting_verdict w v (vv_boolean_count v) 1
      | ST_integer \<Rightarrow>
          if \<not> boolean_fields_unused v \<or> \<not> double_fields_unused v
             \<or> (vv_integer_count v = 0) \<noteq> (bf_address (vv_integers v) = 0)
          then VI_inactive_vector_payload
          else if vv_integer_count v > size_max div 8
                  \<or> \<not> host_buffer_valid w BE_int64 (bf_address (vv_integers v))
                        (vv_integer_count v * 8)
          then VI_invalid_vector_payload_handle
          else accounting_verdict w v (vv_integer_count v) 8
      | ST_double_precision \<Rightarrow>
          if \<not> boolean_fields_unused v \<or> \<not> integer_fields_unused v
             \<or> (vv_double_count v = 0) \<noteq> (bf_address (vv_doubles v) = 0)
          then VI_inactive_vector_payload
          else if vv_double_count v > size_max div 8
                  \<or> \<not> host_buffer_valid w BE_double (bf_address (vv_doubles v))
                        (vv_double_count v * 8)
          then VI_invalid_vector_payload_handle
          else if list_ex (\<lambda>d. \<not> is_canonical_double d)
                    (take (vv_double_count v) (bf_contents (vv_doubles v)))
          then VI_noncanonical_nan
          else accounting_verdict w v (vv_double_count v) 8
      | ST_unknown _ \<Rightarrow> VI_unknown_scalar_type)"

section \<open>Validation of values\<close>

definition vector_fields_empty :: "vector_value \<Rightarrow> bool" where
  "vector_fields_empty v \<longleftrightarrow>
     vv_element_type v = ST_boolean \<and> boolean_fields_unused v \<and> integer_fields_unused v
     \<and> double_fields_unused v \<and> vv_canonical_bytes v = 0 \<and> \<not> vv_accounting_active v
     \<and> vv_accounting_owner v = 0 \<and> vv_allocation_ordinal v = None"

definition tuple_fields_empty :: "tuple_value \<Rightarrow> bool" where
  "tuple_fields_empty t \<longleftrightarrow>
     array_size (tv_nodes t) = 0 \<and> array_size (tv_child_indexes t) = 0 \<and> tv_root_index t = 0
     \<and> array_size (tv_vector_payloads t) = 0 \<and> array_size (tv_reservations t) = 0
     \<and> bf_address (tr_storage (tv_root_reservation t)) = 0
     \<and> tr_element_count (tv_root_reservation t) = 0
     \<and> tr_canonical_bytes (tv_root_reservation t) = 0
     \<and> \<not> tr_accounting_active (tv_root_reservation t)
     \<and> tr_accounting_owner (tv_root_reservation t) = 0
     \<and> tr_allocation_ordinal (tv_root_reservation t) = None
     \<and> tv_first_child t = 0 \<and> tv_child_count t = 0"

definition valid_value :: value_validation_result where
  "valid_value =
     \<lparr>vr_ok = True, vr_invariant = VI_none, vr_error = VE_none, vr_path = [],
      vr_node_index = None, vr_edge_index = None, vr_resource_error = HR_none\<rparr>"

definition invalid_value ::
    "value_invariant \<Rightarrow> nat \<Rightarrow> nat option \<Rightarrow> value_validation_result" where
  "invalid_value invariant node_index edge_index =
     valid_value\<lparr>vr_ok := False, vr_invariant := invariant, vr_error := VE_invalid_value,
                 vr_node_index := Some node_index, vr_edge_index := edge_index\<rparr>"

definition root_verdict :: "value_invariant \<Rightarrow> value_validation_result" where
  "root_verdict invariant =
     (if invariant = VI_none then valid_value else invalid_value invariant 0 None)"

text \<open>The part of \<open>validate_value\<close> that needs no traversal: it decides every value that is not
  a tuple, and leaves a tuple whose arrays are sound to the traversal.\<close>

definition validate_untraversed ::
    "resource_world \<Rightarrow> bennu_value \<Rightarrow> value_validation_result option" where
  "validate_untraversed w v =
     (if \<not> va_claimed v then Some (invalid_value VI_empty_owner 0 None)
      else if \<not> (host_array_metadata_valid (tv_nodes (va_tuple v))
                 \<and> host_array_metadata_valid (tv_child_indexes (va_tuple v))
                 \<and> host_array_metadata_valid (tv_vector_payloads (va_tuple v))
                 \<and> host_array_metadata_valid (tv_reservations (va_tuple v)))
      then Some (invalid_value
                   (if va_container v = CK_tuple then VI_invalid_value_root
                    else VI_inactive_tuple_field)
                   (tv_root_index (va_tuple v)) None)
      else case va_container v of
        CK_scalar \<Rightarrow>
          Some (if \<not> vector_fields_empty (va_vector v)
                then invalid_value VI_inactive_vector_payload 0 None
                else if \<not> tuple_fields_empty (va_tuple v)
                then invalid_value VI_inactive_tuple_field 0 None
                else root_verdict (scalar_verdict (va_scalar v)))
      | CK_vector \<Rightarrow>
          Some (if \<not> is_empty_scalar (va_scalar v)
                then invalid_value VI_inactive_scalar_field 0 None
                else if \<not> tuple_fields_empty (va_tuple v)
                then invalid_value VI_inactive_tuple_field 0 None
                else root_verdict (vector_validation w (va_vector v)))
      | CK_unknown _ \<Rightarrow> Some (invalid_value VI_unknown_container 0 None)
      | CK_tuple \<Rightarrow> None)"

section \<open>Access\<close>

text \<open>The element of a vector a projection gives.\<close>

definition vector_element :: "vector_value \<Rightarrow> nat \<Rightarrow> scalar_value + value_access_error" where
  "vector_element v index =
     (case vv_element_type v of
        ST_boolean \<Rightarrow>
          if index \<ge> vv_boolean_count v then Inr VE_index_out_of_bounds
          else Inl (bool_scalar (bf_contents (vv_booleans v) ! index \<noteq> 0))
      | ST_integer \<Rightarrow>
          if index \<ge> vv_integer_count v then Inr VE_index_out_of_bounds
          else Inl (int_scalar (bf_contents (vv_integers v) ! index))
      | ST_double_precision \<Rightarrow>
          if index \<ge> vv_double_count v then Inr VE_index_out_of_bounds
          else Inl (empty_scalar\<lparr>sv_type := ST_double_precision,
                                 sv_double := bf_contents (vv_doubles v) ! index\<rparr>)
      | ST_unknown _ \<Rightarrow> Inr VE_invalid_value)"

end
