(* ===== verification/Resources.thy ===== *)
theory Resources
  imports Values
begin

text \<open>
  Charged operations on a context (src/resources.cpp): the profile's configuration is checked,
  then the charge is admitted against the representable range and the limits, in a fixed order,
  then storage is reserved under the next ordinal, bound to its context in the registry of
  allocations, and only then are the counters advanced. Releasing gives back a charge the
  registry still holds. Vectors, workspaces and tuple tables follow the same pattern.
\<close>

section \<open>Errors\<close>

definition no_error :: error where
  "no_error = make_error EK_none \<lparr>sl_offset = 0, sl_line = 1, sl_column = 1\<rparr>"

definition name_producer :: "resource_world \<Rightarrow> error \<Rightarrow> string \<Rightarrow> error \<times> resource_world" where
  "name_producer w e producer_name =
     (if producer_name = [] then (e, w)
      else case make_primitive_error_context (rw_host w) producer_name None of
             (context, h) \<Rightarrow> (e\<lparr>er_primitive := context\<rparr>, w\<lparr>rw_host := h\<rparr>))"

definition make_resource_failure ::
    "resource_world \<Rightarrow> source_location \<Rightarrow> string \<Rightarrow> resource_error_context
      \<Rightarrow> error \<times> resource_world" where
  "make_resource_failure w location producer_name context =
     (case name_producer w (make_error EK_resource_error location) producer_name of
        (e, w) \<Rightarrow> (e\<lparr>er_resource := Some context\<rparr>, w))"

text \<open>A context whose optional fields are absent but for the size requested.\<close>

definition plain_context ::
    "string \<Rightarrow> resource_error_reason \<Rightarrow> nat option \<Rightarrow> nat option \<Rightarrow> resource_error_context"
where
  "plain_context profile reason requested_elements requested_bytes =
     \<lparr>rx_reason = reason, rx_requested_elements = requested_elements,
      rx_requested_bytes = requested_bytes, rx_profile = profile, rx_limit_kind = None,
      rx_configured_limit = None, rx_usage_before = None, rx_refused_charge = None,
      rx_allocation_ordinal = None\<rparr>"

definition make_unsupported_tuple_profile ::
    "resource_world \<Rightarrow> evaluation_resources \<Rightarrow> source_location \<Rightarrow> string
      \<Rightarrow> error \<times> resource_world" where
  "make_unsupported_tuple_profile w ev location producer_name =
     (case name_producer w (make_error EK_profile_error location) producer_name of
        (e, w) \<Rightarrow>
          (e\<lparr>er_profile := Some \<lparr>px_reason = PX_unsupported_value_kind,
                                px_profile_name = execution_profile_name (ac_profile ev),
                                px_value_kind = TK_tuple\<rparr>\<rparr>, w))"

section \<open>The configuration of a context\<close>

definition validate_profile_configuration_locked ::
    "resource_world \<Rightarrow> evaluation_resources \<Rightarrow> nat option \<Rightarrow> source_location \<Rightarrow> string
      \<Rightarrow> error option \<times> resource_world" where
  "validate_profile_configuration_locked w ev state location producer_name =
     (if state = None \<or> ac_creation_error ev \<noteq> HR_none
      then case make_resource_failure w location producer_name
                  (plain_context
                     (if state = None then [] else execution_profile_name (ac_profile ev))
                     RE_allocation_unavailable None None) of
             (e, w) \<Rightarrow> (Some e, w)
      else case configuration_message (ac_profile ev) (ac_limits ev) of
             None \<Rightarrow> (None, w)
           | Some message \<Rightarrow>
               (case name_producer w
                       ((make_error EK_invalid_execution_profile location)
                          \<lparr>er_static_message := message\<rparr>) producer_name of
                  (e, w) \<Rightarrow> (Some e, w)))"

definition validate_tuple_profile_locked ::
    "resource_world \<Rightarrow> evaluation_resources \<Rightarrow> nat option \<Rightarrow> source_location \<Rightarrow> string
      \<Rightarrow> error option \<times> resource_world" where
  "validate_tuple_profile_locked w ev state location producer_name =
     (case validate_profile_configuration_locked w ev state location producer_name of
        (Some e, w) \<Rightarrow> (Some e, w)
      | (None, w) \<Rightarrow>
          if ac_profile ev = EP_trusted_local_v1 \<or> ac_profile ev = EP_bounded_v1
          then case make_unsupported_tuple_profile w ev location producer_name of
                 (e, w) \<Rightarrow> (Some e, w)
          else (None, w))"

section \<open>Admission\<close>

definition exceeds :: "nat \<Rightarrow> nat option \<Rightarrow> bool" where
  "exceeds n limit \<longleftrightarrow> (case limit of None \<Rightarrow> False | Some m \<Rightarrow> n > m)"

definition limit_context ::
    "evaluation_resources \<Rightarrow> nat option \<Rightarrow> nat option \<Rightarrow> resource_limit_kind \<Rightarrow> nat option
      \<Rightarrow> nat \<Rightarrow> nat \<Rightarrow> resource_error_context" where
  "limit_context ev requested_elements requested_bytes kind limit before charge =
     (plain_context (execution_profile_name (ac_profile ev)) RE_profile_limit
        requested_elements requested_bytes)
       \<lparr>rx_limit_kind := Some kind, rx_configured_limit := limit,
        rx_usage_before := Some before, rx_refused_charge := Some charge\<rparr>"

text \<open>The verdict of \<open>preflight\<close>: the context of the refusal, or the counters after the charge.\<close>

definition admission ::
    "evaluation_resources \<Rightarrow> nat option \<Rightarrow> nat \<Rightarrow> nat \<Rightarrow> nat option \<Rightarrow> nat option
      \<Rightarrow> resource_error_context + nat \<times> nat" where
  "admission ev vector_bytes live_charge work_charge requested_elements requested_bytes =
     (if live_charge > size_max - ac_live ev \<or> work_charge > size_max - ac_work ev
      then Inl (plain_context (execution_profile_name (ac_profile ev)) RE_size_overflow
                  requested_elements requested_bytes)
      else
        let live_after = ac_live ev + live_charge;
            work_after = ac_work ev + work_charge;
            limits = ac_limits ev
        in if vector_bytes \<noteq> None \<and> exceeds (the vector_bytes) (lm_max_vector_bytes limits)
           then Inl (limit_context ev requested_elements requested_bytes RL_max_vector_bytes
                       (lm_max_vector_bytes limits) 0 (the vector_bytes))
           else if exceeds live_after (lm_max_live_evaluation_bytes limits)
           then Inl (limit_context ev requested_elements requested_bytes
                       RL_max_live_evaluation_bytes (lm_max_live_evaluation_bytes limits)
                       (ac_live ev) live_charge)
           else if exceeds work_after (lm_max_work_units limits)
           then Inl (limit_context ev requested_elements requested_bytes RL_max_work_units
                       (lm_max_work_units limits) (ac_work ev) work_charge)
           else Inr (live_after, work_after))"

definition preflight ::
    "resource_world \<Rightarrow> evaluation_resources \<Rightarrow> nat option \<Rightarrow> nat \<Rightarrow> nat \<Rightarrow> source_location
      \<Rightarrow> string \<Rightarrow> nat option \<Rightarrow> nat option \<Rightarrow> (error + nat \<times> nat) \<times> resource_world" where
  "preflight w ev vector_bytes live_charge work_charge location producer_name
      requested_elements requested_bytes =
     (case admission ev vector_bytes live_charge work_charge requested_elements
             requested_bytes of
        Inl context \<Rightarrow>
          (case make_resource_failure w location producer_name context of
             (e, w) \<Rightarrow> (Inl e, w))
      | Inr after \<Rightarrow> (Inr after, w))"

definition commit_admission :: "evaluation_resources \<Rightarrow> nat \<times> nat \<Rightarrow> evaluation_resources" where
  "commit_admission ev after = ev\<lparr>ac_live := fst after, ac_work := snd after\<rparr>"

section \<open>Buffers\<close>

definition buffer_layout :: "buffer_element \<Rightarrow> element_layout" where
  "buffer_layout element =
     (case element of
        BE_uint8 \<Rightarrow> \<lparr>element_size = 1, element_alignment = 1\<rparr>
      | BE_int64 \<Rightarrow> \<lparr>element_size = 8, element_alignment = 8\<rparr>
      | BE_double \<Rightarrow> \<lparr>element_size = 8, element_alignment = 8\<rparr>
      | BE_byte \<Rightarrow> \<lparr>element_size = 1, element_alignment = 1\<rparr>)"

definition aligned_payload :: "address \<Rightarrow> element_layout \<Rightarrow> address" where
  "aligned_payload allocation l =
     (let slack = of_nat (alignment_slack l)
      in (allocation + of_nat host_allocation_header_size + slack) AND NOT slack)"

definition allocate_host_buffer ::
    "resource_world \<Rightarrow> buffer_element \<Rightarrow> address \<Rightarrow> nat
      \<Rightarrow> host_resource_error_reason \<times> address \<times> resource_world" where
  "allocate_host_buffer w element storage element_count =
     (if storage \<noteq> 0 then (HR_size_overflow, storage, w)
      else if element_count = 0 then (HR_none, storage, w)
      else
        let l = buffer_layout element
        in if element_count > (size_max - host_allocation_header_size - alignment_slack l)
                                div element_size l
           then (HR_size_overflow, storage, w)
           else
             let byte_count = element_count * element_size l;
                 allocation = rw_address w (malloc_calls (rw_host w));
                 elements = aligned_payload allocation l
             in case malloc (rw_host w) (host_allocation_header_size + alignment_slack l
                                         + byte_count) of
                  (False, h) \<Rightarrow> (HR_allocation_unavailable, storage, w\<lparr>rw_host := h\<rparr>)
                | (True, h) \<Rightarrow>
                    (case register_host_allocation (rw_hosts w) allocation elements byte_count
                            HP_buffer (rw_identity w element) 0 0 of
                       (registered, g) \<Rightarrow>
                         if \<not> registered
                         then (HR_allocation_unavailable, storage, w\<lparr>rw_host := h\<rparr>)
                         else (HR_none, elements, w\<lparr>rw_host := h, rw_hosts := g\<rparr>)))"

text \<open>The deleter of a buffer. The only release function ever bound is
  \<open>release_abandoned_semantic_allocation\<close>.\<close>

definition release_host_buffer ::
    "resource_world \<Rightarrow> buffer_element \<Rightarrow> address \<Rightarrow> resource_world" where
  "release_host_buffer w element storage =
     (if storage = 0 then w
      else case remove_host_allocation (rw_hosts w) storage HP_buffer (rw_identity w element) of
             (removed, call, g) \<Rightarrow> run_release_call (w\<lparr>rw_hosts := g\<rparr>) call)"

definition allocate_tracked_host_buffer ::
    "resource_world \<Rightarrow> buffer_element \<Rightarrow> nat \<Rightarrow> nat \<Rightarrow> nat \<Rightarrow> nat \<Rightarrow> semantic_purpose
      \<Rightarrow> host_resource_error_reason \<times> address \<times> resource_world" where
  "allocate_tracked_host_buffer w element element_count owner canonical_bytes ordinal purpose =
     (case allocate_host_buffer w element 0 element_count of
        (allocated, storage, w) \<Rightarrow>
          if allocated \<noteq> HR_none then (allocated, storage, w)
          else case retain_accounting_owner w owner of
            (retained, w) \<Rightarrow>
              if \<not> retained
              then (HR_allocation_unavailable, 0, release_host_buffer w element storage)
              else case bind_semantic_host_buffer (rw_hosts w) storage (rw_identity w element)
                          owner canonical_bytes ordinal purpose (rw_release w) of
                (bound, g) \<Rightarrow>
                  if \<not> bound
                  then (HR_allocation_unavailable, 0,
                        release_host_buffer (release_accounting_owner w owner) element storage)
                  else (HR_none, storage, w\<lparr>rw_hosts := g\<rparr>))"

section \<open>Reserving storage\<close>

text \<open>What every reservation does once its charge is admitted: the next ordinal is taken, the
  injected failure tested, the buffer allocated and bound, and the counters advanced. The
  result is the storage and its ordinal.\<close>

definition reserve_storage ::
    "resource_world \<Rightarrow> evaluation_resources \<Rightarrow> buffer_element \<Rightarrow> nat \<Rightarrow> nat \<Rightarrow> semantic_purpose
      \<Rightarrow> nat option \<Rightarrow> source_location \<Rightarrow> string \<Rightarrow> nat \<times> nat
      \<Rightarrow> (error + address \<times> nat) \<times> evaluation_resources \<times> resource_world" where
  "reserve_storage w ev element element_count byte_count purpose requested_elements location
      producer_name after =
     (let context = (\<lambda>reason. plain_context (execution_profile_name (ac_profile ev)) reason
                                requested_elements (Some byte_count))
      in if ac_ordinal ev = size_max
         then case make_resource_failure w location producer_name (context RE_size_overflow) of
                (e, w) \<Rightarrow> (Inl e, ev, w)
         else
           let ordinal = ac_ordinal ev;
               ev = ev\<lparr>ac_ordinal := ac_ordinal ev + 1\<rparr>
           in if ac_fail_at ev = Some ordinal
              then case make_resource_failure w location producer_name
                          ((context RE_allocation_unavailable)
                             \<lparr>rx_allocation_ordinal := Some ordinal\<rparr>) of
                     (e, w) \<Rightarrow> (Inl e, ev, w)
              else case allocate_tracked_host_buffer w element element_count (ev_owner ev)
                          byte_count ordinal purpose of
                (allocated, storage, w) \<Rightarrow>
                  if allocated \<noteq> HR_none
                  then case make_resource_failure w location producer_name
                              ((context (if allocated = HR_size_overflow then RE_size_overflow
                                         else RE_allocation_unavailable))
                                 \<lparr>rx_allocation_ordinal := Some ordinal\<rparr>) of
                         (e, w) \<Rightarrow> (Inl e, ev, w)
                  else (Inr (storage, ordinal), commit_admission ev after, w))"

section \<open>Vectors\<close>

record vector_allocation_result =
  al_ok :: bool
  al_value :: bennu_value
  al_invariant :: value_invariant
  al_error :: error

definition vector_allocation_failure :: "error \<Rightarrow> vector_allocation_result" where
  "vector_allocation_failure e =
     \<lparr>al_ok = False, al_value = make_int_value 0, al_invariant = VI_none, al_error = e\<rparr>"

definition vector_allocated :: "bennu_value \<Rightarrow> vector_allocation_result" where
  "vector_allocated v =
     \<lparr>al_ok = True, al_value = v, al_invariant = VI_none, al_error = no_error\<rparr>"

fun element_width :: "scalar_type \<Rightarrow> nat option" where
  "element_width ST_boolean = Some 1"
| "element_width ST_integer = Some 8"
| "element_width ST_double_precision = Some 8"
| "element_width (ST_unknown _) = None"

fun payload_element :: "scalar_type \<Rightarrow> buffer_element" where
  "payload_element ST_boolean = BE_uint8"
| "payload_element ST_integer = BE_int64"
| "payload_element ST_double_precision = BE_double"
| "payload_element (ST_unknown _) = BE_byte"

text \<open>The candidate with its zeroed payload and its charge.\<close>

definition zeroed_payload :: "scalar_type \<Rightarrow> address \<Rightarrow> nat \<Rightarrow> vector_value" where
  "zeroed_payload element_type storage n =
     (let v = empty_vector_of element_type
      in case element_type of
           ST_boolean \<Rightarrow>
             v\<lparr>vv_booleans := \<lparr>bf_address = storage, bf_contents = replicate n 0\<rparr>,
               vv_boolean_count := n\<rparr>
         | ST_integer \<Rightarrow>
             v\<lparr>vv_integers := \<lparr>bf_address = storage, bf_contents = replicate n 0\<rparr>,
               vv_integer_count := n\<rparr>
         | ST_double_precision \<Rightarrow>
             v\<lparr>vv_doubles := \<lparr>bf_address = storage, bf_contents = replicate n 0\<rparr>,
               vv_double_count := n\<rparr>
         | ST_unknown _ \<Rightarrow> v)"

definition charged_vector ::
    "scalar_type \<Rightarrow> address \<Rightarrow> nat \<Rightarrow> nat \<Rightarrow> nat \<Rightarrow> nat \<Rightarrow> bennu_value" where
  "charged_vector element_type storage element_count byte_count owner ordinal =
     (empty_vector element_type)
       \<lparr>va_vector := (zeroed_payload element_type storage element_count)
          \<lparr>vv_canonical_bytes := byte_count, vv_accounting_active := True,
           vv_accounting_owner := owner, vv_allocation_ordinal := Some ordinal\<rparr>\<rparr>"

definition allocate_vector_locked ::
    "scalar_type \<Rightarrow> nat \<Rightarrow> nat \<Rightarrow> source_location \<Rightarrow> string
      \<Rightarrow> resource_world \<Rightarrow> evaluation_resources \<Rightarrow> nat option
      \<Rightarrow> vector_allocation_result \<times> evaluation_resources \<times> resource_world" where
  "allocate_vector_locked element_type requested_element_count work_units location producer_name
      w ev state =
     (case validate_profile_configuration_locked w ev state location producer_name of
        (Some e, w) \<Rightarrow> (vector_allocation_failure e, ev, w)
      | (None, w) \<Rightarrow>
          let overflow = (\<lambda>elements. plain_context (execution_profile_name (ac_profile ev))
                            RE_size_overflow elements None)
          in if requested_element_count > size_max
             then case make_resource_failure w location producer_name (overflow None) of
                    (e, w) \<Rightarrow> (vector_allocation_failure e, ev, w)
             else if (case element_width element_type of
                        None \<Rightarrow> True
                      | Some width \<Rightarrow> requested_element_count > size_max div width)
             then case make_resource_failure w location producer_name
                         (overflow (Some requested_element_count)) of
                    (e, w) \<Rightarrow> (vector_allocation_failure e, ev, w)
             else
               let byte_count = requested_element_count * the (element_width element_type)
               in case preflight w ev (Some byte_count) byte_count work_units location
                         producer_name (Some requested_element_count) (Some byte_count) of
                    (Inl e, w) \<Rightarrow> (vector_allocation_failure e, ev, w)
                  | (Inr after, w) \<Rightarrow>
                      if byte_count = 0
                      then (vector_allocated (empty_vector element_type),
                            commit_admission ev after, w)
                      else case reserve_storage w ev (payload_element element_type)
                                  requested_element_count byte_count SP_vector_payload
                                  (Some requested_element_count) location producer_name after of
                             (Inl e, ev, w) \<Rightarrow> (vector_allocation_failure e, ev, w)
                           | (Inr (storage, ordinal), ev, w) \<Rightarrow>
                               (vector_allocated
                                  (charged_vector element_type storage requested_element_count
                                     byte_count (ev_owner ev) ordinal), ev, w))"

definition allocate_vector ::
    "resource_world \<Rightarrow> evaluation_resources \<Rightarrow> scalar_type \<Rightarrow> nat \<Rightarrow> nat \<Rightarrow> source_location
      \<Rightarrow> string \<Rightarrow> vector_allocation_result \<times> evaluation_resources \<times> resource_world" where
  "allocate_vector w ev element_type requested_element_count work_units location
      producer_name =
     with_resource_state w ev
       (allocate_vector_locked element_type requested_element_count work_units location
          producer_name)"

definition update_vector ::
    "vector_allocation_result \<Rightarrow> (vector_value \<Rightarrow> vector_value) \<Rightarrow> vector_allocation_result"
where
  "update_vector r f =
     r\<lparr>al_value := (al_value r)\<lparr>va_vector := f (va_vector (al_value r))\<rparr>\<rparr>"

definition copy_bool_vector ::
    "resource_world \<Rightarrow> evaluation_resources \<Rightarrow> u8 list \<Rightarrow> source_location \<Rightarrow> string
      \<Rightarrow> vector_allocation_result \<times> evaluation_resources \<times> resource_world" where
  "copy_bool_vector w ev elements location producer_name =
     (if list_ex (\<lambda>b. b > 1) elements
      then ((vector_allocation_failure no_error)
              \<lparr>al_invariant := VI_invalid_boolean_element\<rparr>, ev, w)
      else case allocate_vector w ev ST_boolean (length elements) 0 location producer_name of
             (r, ev, w) \<Rightarrow>
               (if al_ok r \<and> elements \<noteq> []
                then update_vector r
                       (\<lambda>v. v\<lparr>vv_booleans := (vv_booleans v)\<lparr>bf_contents := elements\<rparr>\<rparr>)
                else r, ev, w))"

definition copy_int_vector ::
    "resource_world \<Rightarrow> evaluation_resources \<Rightarrow> i64 list \<Rightarrow> source_location \<Rightarrow> string
      \<Rightarrow> vector_allocation_result \<times> evaluation_resources \<times> resource_world" where
  "copy_int_vector w ev elements location producer_name =
     (case allocate_vector w ev ST_integer (length elements) 0 location producer_name of
        (r, ev, w) \<Rightarrow>
          (if al_ok r \<and> elements \<noteq> []
           then update_vector r
                  (\<lambda>v. v\<lparr>vv_integers := (vv_integers v)\<lparr>bf_contents := elements\<rparr>\<rparr>)
           else r, ev, w))"

definition copy_double_vector ::
    "resource_world \<Rightarrow> evaluation_resources \<Rightarrow> binary64 list \<Rightarrow> source_location \<Rightarrow> string
      \<Rightarrow> vector_allocation_result \<times> evaluation_resources \<times> resource_world" where
  "copy_double_vector w ev elements location producer_name =
     (case allocate_vector w ev ST_double_precision (length elements) 0 location
             producer_name of
        (r, ev, w) \<Rightarrow>
          (if al_ok r
           then update_vector r
                  (\<lambda>v. v\<lparr>vv_doubles := (vv_doubles v)
                            \<lparr>bf_contents := map normalize_double elements\<rparr>\<rparr>)
           else r, ev, w))"

section \<open>Work\<close>

definition charge_work_locked ::
    "nat \<Rightarrow> source_location \<Rightarrow> string \<Rightarrow> resource_world \<Rightarrow> evaluation_resources \<Rightarrow> nat option
      \<Rightarrow> error option \<times> evaluation_resources \<times> resource_world" where
  "charge_work_locked work_units location producer_name w ev state =
     (case validate_profile_configuration_locked w ev state location producer_name of
        (Some e, w) \<Rightarrow> (Some e, ev, w)
      | (None, w) \<Rightarrow>
          (case preflight w ev None 0 work_units location producer_name None None of
             (Inl e, w) \<Rightarrow> (Some e, ev, w)
           | (Inr after, w) \<Rightarrow> (None, commit_admission ev after, w)))"

definition charge_work ::
    "resource_world \<Rightarrow> evaluation_resources \<Rightarrow> nat \<Rightarrow> source_location \<Rightarrow> string
      \<Rightarrow> error option \<times> evaluation_resources \<times> resource_world" where
  "charge_work w ev work_units location producer_name =
     with_resource_state w ev (charge_work_locked work_units location producer_name)"

section \<open>Workspaces\<close>

record workspace_reservation =
  wk_storage :: address
  wk_bytes :: nat
  wk_owner :: nat
  wk_ordinal :: "nat option"

definition empty_workspace :: workspace_reservation where
  "empty_workspace = \<lparr>wk_storage = 0, wk_bytes = 0, wk_owner = 0, wk_ordinal = None\<rparr>"

definition reserve_workspace_locked ::
    "nat \<Rightarrow> nat \<Rightarrow> source_location \<Rightarrow> string
      \<Rightarrow> resource_world \<Rightarrow> evaluation_resources \<Rightarrow> nat option
      \<Rightarrow> (error + workspace_reservation) \<times> evaluation_resources \<times> resource_world" where
  "reserve_workspace_locked byte_count work_units location producer_name w ev state =
     (case validate_profile_configuration_locked w ev state location producer_name of
        (Some e, w) \<Rightarrow> (Inl e, ev, w)
      | (None, w) \<Rightarrow>
          (case preflight w ev None byte_count work_units location producer_name None
                  (Some byte_count) of
             (Inl e, w) \<Rightarrow> (Inl e, ev, w)
           | (Inr after, w) \<Rightarrow>
               if byte_count = 0 then (Inr empty_workspace, commit_admission ev after, w)
               else case reserve_storage w ev BE_byte byte_count byte_count SP_workspace None
                           location producer_name after of
                      (Inl e, ev, w) \<Rightarrow> (Inl e, ev, w)
                    | (Inr (storage, ordinal), ev, w) \<Rightarrow>
                        (Inr \<lparr>wk_storage = storage, wk_bytes = byte_count,
                              wk_owner = ev_owner ev, wk_ordinal = Some ordinal\<rparr>, ev, w)))"

definition reserve_workspace ::
    "resource_world \<Rightarrow> evaluation_resources \<Rightarrow> nat \<Rightarrow> nat \<Rightarrow> source_location \<Rightarrow> string
      \<Rightarrow> (error + workspace_reservation) \<times> evaluation_resources \<times> resource_world" where
  "reserve_workspace w ev byte_count work_units location producer_name =
     with_resource_state w ev
       (reserve_workspace_locked byte_count work_units location producer_name)"

section \<open>Tuple tables\<close>

definition reserve_tuple_table_locked ::
    "nat \<Rightarrow> source_location \<Rightarrow> string
      \<Rightarrow> resource_world \<Rightarrow> evaluation_resources \<Rightarrow> nat option
      \<Rightarrow> (error + tuple_table_reservation) \<times> evaluation_resources \<times> resource_world" where
  "reserve_tuple_table_locked element_count location producer_name w ev state =
     (case validate_tuple_profile_locked w ev state location producer_name of
        (Some e, w) \<Rightarrow> (Inl e, ev, w)
      | (None, w) \<Rightarrow>
          if element_count > size_max div 16
          then case make_resource_failure w location producer_name
                      (plain_context (execution_profile_name (ac_profile ev)) RE_size_overflow
                         (Some element_count) None) of
                 (e, w) \<Rightarrow> (Inl e, ev, w)
          else
            let byte_count = element_count * 16
            in if exceeds byte_count (lm_max_tuple_table_bytes (ac_limits ev))
               then case make_resource_failure w location producer_name
                           (limit_context ev (Some element_count) (Some byte_count)
                              RL_max_tuple_table_bytes
                              (lm_max_tuple_table_bytes (ac_limits ev)) 0 byte_count) of
                      (e, w) \<Rightarrow> (Inl e, ev, w)
               else case preflight w ev None byte_count 0 location producer_name
                           (Some element_count) (Some byte_count) of
                      (Inl e, w) \<Rightarrow> (Inl e, ev, w)
                    | (Inr after, w) \<Rightarrow>
                        if byte_count = 0
                        then (Inr (empty_reservation\<lparr>tr_accounting_active := True\<rparr>),
                              commit_admission ev after, w)
                        else case reserve_storage w ev BE_byte byte_count byte_count
                                    SP_tuple_table (Some element_count) location producer_name
                                    after of
                               (Inl e, ev, w) \<Rightarrow> (Inl e, ev, w)
                             | (Inr (storage, ordinal), ev, w) \<Rightarrow>
                                 (Inr \<lparr>tr_storage = \<lparr>bf_address = storage,
                                                      bf_contents = replicate byte_count 0\<rparr>,
                                       tr_element_count = element_count,
                                       tr_canonical_bytes = byte_count,
                                       tr_accounting_active = True,
                                       tr_accounting_owner = ev_owner ev,
                                       tr_allocation_ordinal = Some ordinal\<rparr>, ev, w))"

definition reserve_tuple_table ::
    "resource_world \<Rightarrow> evaluation_resources \<Rightarrow> nat \<Rightarrow> source_location \<Rightarrow> string
      \<Rightarrow> (error + tuple_table_reservation) \<times> evaluation_resources \<times> resource_world" where
  "reserve_tuple_table w ev element_count location producer_name =
     with_resource_state w ev
       (reserve_tuple_table_locked element_count location producer_name)"

section \<open>Release\<close>

datatype value_release_error = RR_none | RR_resource_context_mismatch

record value_release_result =
  rl_ok :: bool
  rl_invariant :: value_invariant
  rl_error :: value_release_error
  rl_resource_error :: host_resource_error_reason

definition released :: value_release_result where
  "released = \<lparr>rl_ok = True, rl_invariant = VI_none, rl_error = RR_none,
               rl_resource_error = HR_none\<rparr>"

definition not_released :: "value_invariant \<Rightarrow> value_release_result" where
  "not_released invariant = released\<lparr>rl_ok := False, rl_invariant := invariant\<rparr>"

definition context_mismatch :: value_release_result where
  "context_mismatch = (not_released VI_none)\<lparr>rl_error := RR_resource_context_mismatch\<rparr>"

definition consume_allocation_binding ::
    "resource_world \<Rightarrow> address \<Rightarrow> nat \<Rightarrow> nat \<Rightarrow> nat option \<Rightarrow> semantic_purpose
      \<Rightarrow> bool \<times> resource_world" where
  "consume_allocation_binding w payload owner canonical_bytes ordinal purpose =
     (case consume_semantic_host_buffer (rw_hosts w) payload owner canonical_bytes ordinal
             purpose of
        (consumed, g) \<Rightarrow> (consumed, w\<lparr>rw_hosts := g\<rparr>))"

text \<open>Releasing a vector: the value is checked, its owner compared with the context, the binding
  consumed, the charge given back, the reference dropped and the storage freed. The value that
  is left is the integer 0.\<close>

definition release_vector_locked ::
    "bennu_value \<Rightarrow> resource_world \<Rightarrow> evaluation_resources \<Rightarrow> nat option
      \<Rightarrow> (value_release_result \<times> bennu_value) \<times> evaluation_resources \<times> resource_world" where
  "release_vector_locked value w ev state =
     (let v = va_vector value;
          storage = vector_storage v;
          canonical_bytes = vv_canonical_bytes v
      in case (if canonical_bytes = 0 then (True, w)
               else consume_allocation_binding w storage (vv_accounting_owner v)
                      canonical_bytes (vv_allocation_ordinal v) SP_vector_payload) of
           (consumed, w) \<Rightarrow>
             if \<not> consumed
             then ((not_released VI_invalid_vector_payload_handle, value), ev, w)
             else
               let element_count = active_vector_length v;
                   ev = (case element_width (vv_element_type v) of
                           None \<Rightarrow> ev
                         | Some width \<Rightarrow>
                             if element_count \<le> size_max div width
                                \<and> vv_accounting_active v
                                \<and> vv_accounting_owner v = ev_owner ev
                                \<and> element_count * width = canonical_bytes
                                \<and> element_count * width \<le> ac_live ev
                             then ev\<lparr>ac_live := ac_live ev - element_count * width\<rparr>
                             else ev);
                   w = release_accounting_owner w (vv_accounting_owner v)
               in ((released, make_int_value 0), ev,
                   release_host_buffer w (payload_element (vv_element_type v)) storage))"

definition release_vector_reservation ::
    "resource_world \<Rightarrow> evaluation_resources \<Rightarrow> bennu_value
      \<Rightarrow> (value_release_result \<times> bennu_value) \<times> evaluation_resources \<times> resource_world" where
  "release_vector_reservation w ev value =
     (if va_container value \<noteq> CK_vector then ((not_released VI_none, value), ev, w)
      else case validate_untraversed w value of
        None \<Rightarrow> ((not_released VI_none, value), ev, w)
      | Some validation \<Rightarrow>
          if \<not> vr_ok validation
          then ((not_released (vr_invariant validation)\<lparr>rl_resource_error :=
                   vr_resource_error validation\<rparr>, value), ev, w)
          else if vv_accounting_active (va_vector value)
                  \<and> vv_accounting_owner (va_vector value) \<noteq> ev_owner ev
          then ((context_mismatch, value), ev, w)
          else if fst (acquire_validated_resource_state w ev) = None
          then ((context_mismatch, value), ev, w)
          else with_resource_state w ev (release_vector_locked value))"

definition release_workspace_locked ::
    "workspace_reservation \<Rightarrow> resource_world \<Rightarrow> evaluation_resources \<Rightarrow> nat option
      \<Rightarrow> (value_release_result \<times> workspace_reservation) \<times> evaluation_resources
         \<times> resource_world" where
  "release_workspace_locked r w ev state =
     (if wk_owner r \<noteq> ev_owner ev \<or> wk_bytes r > ac_live ev
      then ((context_mismatch, r), ev, w)
      else case consume_allocation_binding w (wk_storage r) (wk_owner r) (wk_bytes r)
                  (wk_ordinal r) SP_workspace of
             (consumed, w) \<Rightarrow>
               if \<not> consumed then ((context_mismatch, r), ev, w)
               else ((released, empty_workspace), ev\<lparr>ac_live := ac_live ev - wk_bytes r\<rparr>,
                     release_host_buffer (release_accounting_owner w (wk_owner r)) BE_byte
                       (wk_storage r)))"

definition release_workspace ::
    "resource_world \<Rightarrow> evaluation_resources \<Rightarrow> workspace_reservation
      \<Rightarrow> (value_release_result \<times> workspace_reservation) \<times> evaluation_resources
         \<times> resource_world" where
  "release_workspace w ev r =
     (if wk_bytes r = 0
      then ((if wk_storage r = 0 \<and> wk_owner r = 0 \<and> wk_ordinal r = None then released
             else context_mismatch, r), ev, w)
      else if wk_storage r = 0 \<or> wk_owner r = 0 \<or> wk_ordinal r = None
      then ((context_mismatch, r), ev, w)
      else if fst (acquire_validated_resource_state w ev) = None
      then ((context_mismatch, r), ev, w)
      else with_resource_state w ev (release_workspace_locked r))"

definition reservation_metadata_valid ::
    "resource_world \<Rightarrow> tuple_table_reservation \<Rightarrow> nat \<Rightarrow> bool" where
  "reservation_metadata_valid w r expected_bytes \<longleftrightarrow>
     tr_canonical_bytes r = expected_bytes
     \<and> host_buffer_valid w BE_byte (bf_address (tr_storage r)) expected_bytes
     \<and> (expected_bytes = 0 \<and> bf_address (tr_storage r) = 0 \<and> tr_accounting_active r
          \<and> tr_accounting_owner r = 0 \<and> tr_allocation_ordinal r = None
        \<or> expected_bytes \<noteq> 0 \<and> bf_address (tr_storage r) \<noteq> 0 \<and> tr_accounting_active r
          \<and> tr_accounting_owner r \<noteq> 0 \<and> tr_allocation_ordinal r \<noteq> None
          \<and> semantic_host_buffer_matches (rw_hosts w) (bf_address (tr_storage r))
               (tr_accounting_owner r) (tr_canonical_bytes r) (tr_allocation_ordinal r)
               SP_tuple_table)"

definition release_tuple_table_locked ::
    "tuple_table_reservation \<Rightarrow> resource_world \<Rightarrow> evaluation_resources \<Rightarrow> nat option
      \<Rightarrow> (value_release_result \<times> tuple_table_reservation) \<times> evaluation_resources
         \<times> resource_world" where
  "release_tuple_table_locked r w ev state =
     (let storage = bf_address (tr_storage r);
          bytes = tr_canonical_bytes r
      in case (if bytes = 0 then (True, w)
               else consume_allocation_binding w storage (tr_accounting_owner r) bytes
                      (tr_allocation_ordinal r) SP_tuple_table) of
           (consumed, w) \<Rightarrow>
             if \<not> consumed
             then ((not_released VI_invalid_tuple_reservation_count, r), ev, w)
             else ((released, empty_reservation),
                   (if bytes \<le> ac_live ev then ev\<lparr>ac_live := ac_live ev - bytes\<rparr> else ev),
                   release_host_buffer (release_accounting_owner w (tr_accounting_owner r))
                     BE_byte storage))"

definition release_tuple_table ::
    "resource_world \<Rightarrow> evaluation_resources \<Rightarrow> tuple_table_reservation
      \<Rightarrow> (value_release_result \<times> tuple_table_reservation) \<times> evaluation_resources
         \<times> resource_world" where
  "release_tuple_table w ev r =
     (if bf_address (tr_storage r) = 0 \<and> tr_element_count r = 0 \<and> tr_canonical_bytes r = 0
         \<and> \<not> tr_accounting_active r \<and> tr_accounting_owner r = 0
         \<and> tr_allocation_ordinal r = None
      then ((released, r), ev, w)
      else if tr_element_count r > size_max div 16
      then ((not_released VI_invalid_tuple_reservation_count, r), ev, w)
      else if \<not> reservation_metadata_valid w r (tr_element_count r * 16)
      then ((not_released VI_invalid_tuple_reservation_count, r), ev, w)
      else if tr_accounting_owner r \<noteq> 0 \<and> tr_accounting_owner r \<noteq> ev_owner ev
      then ((context_mismatch, r), ev, w)
      else if fst (acquire_validated_resource_state w ev) = None
      then ((context_mismatch, r), ev, w)
      else with_resource_state w ev (release_tuple_table_locked r))"

section \<open>Release without a context\<close>

text \<open>The refund of a charge by its owner's token alone, and the release of a vector payload
  through it.\<close>

definition refund_resource_state_bytes ::
    "resource_world \<Rightarrow> nat \<Rightarrow> address \<Rightarrow> nat \<Rightarrow> nat option \<Rightarrow> resource_storage_kind
      \<Rightarrow> bool \<times> resource_world" where
  "refund_resource_state_bytes w owner storage byte_count ordinal kind =
     (case consume_allocation_binding w storage owner byte_count ordinal
             (if kind = SK_vector_payload then SP_vector_payload else SP_tuple_table) of
        (consumed, w) \<Rightarrow>
          if \<not> consumed then (False, w)
          else case acquire_accounting_owner w owner of
            (None, w) \<Rightarrow> (False, w)
          | (Some token, w) \<Rightarrow>
              (case find_resource_state_locked w token of
                 None \<Rightarrow> (False, w)
               | Some s \<Rightarrow>
                   if byte_count > ac_live s
                   then (False, release_acquired_resource_state w (Some token))
                   else (True, release_acquired_resource_state
                                 (modify_state w token
                                    (\<lambda>s. s\<lparr>ac_live := ac_live s - byte_count\<rparr>))
                                 (Some token))))"

text \<open>Resetting the active storage of a payload.\<close>

definition reset_vector_storage :: "vector_value \<Rightarrow> vector_value" where
  "reset_vector_storage v =
     (case vv_element_type v of
        ST_boolean \<Rightarrow> v\<lparr>vv_booleans := null_buffer, vv_boolean_count := 0\<rparr>
      | ST_integer \<Rightarrow> v\<lparr>vv_integers := null_buffer, vv_integer_count := 0\<rparr>
      | ST_double_precision \<Rightarrow> v\<lparr>vv_doubles := null_buffer, vv_double_count := 0\<rparr>
      | ST_unknown _ \<Rightarrow> v)"

definition release_proven_vector ::
    "resource_world \<Rightarrow> vector_value \<Rightarrow> vector_value \<times> resource_world" where
  "release_proven_vector w v =
     (let storage = vector_storage v;
          owner = vv_accounting_owner v;
          w = (if vv_accounting_active v \<and> owner \<noteq> 0
               then snd (refund_resource_state_bytes w owner storage (vv_canonical_bytes v)
                           (vv_allocation_ordinal v) SK_vector_payload)
               else w);
          w = release_accounting_owner w owner;
          v = v\<lparr>vv_accounting_active := False, vv_accounting_owner := 0\<rparr>
      in if storage \<noteq> 0
         then ((reset_vector_storage v)\<lparr>vv_allocation_ordinal := None\<rparr>,
               release_host_buffer w (payload_element (vv_element_type v)) storage)
         else (v\<lparr>vv_allocation_ordinal := None\<rparr>, w))"

end
