(* ===== verification/ResourceAccounts.thy ===== *)
theory ResourceAccounts
  imports Resources
begin

text \<open>
  Accounting is exact. In every state the process can reach, the live count of a context is
  what it started with plus the bytes of the charges bound to it, its reference count is one
  for an open context plus one for each such charge, and a charge never outlives the state it
  is charged to. The proof follows each operation through its steps with two ghost offsets per
  token: how far the count of live bytes and the count of references are from what the registry
  of allocations shows.
\<close>

section \<open>Charges in the registry of allocations\<close>

definition charge_of :: "host_allocation_record \<Rightarrow> semantic_metadata option" where
  "charge_of r =
     (case har_metadata r of
        ArrayMetadata _ _ \<Rightarrow> None
      | SemanticMetadata s \<Rightarrow> if sm_active s then Some s else None)"

definition charge_weight ::
    "(semantic_metadata \<Rightarrow> nat) \<Rightarrow> nat \<Rightarrow> host_allocation_record \<Rightarrow> nat" where
  "charge_weight f token r =
     (case charge_of r of
        None \<Rightarrow> 0
      | Some s \<Rightarrow> if sm_owner_token s = token then f s else 0)"

definition registry_sum :: "(host_allocation_record \<Rightarrow> nat) \<Rightarrow> host_registry \<Rightarrow> nat" where
  "registry_sum f g =
     (\<Sum>b<host_allocation_bucket_count. sum_list (map f (hr_buckets g b)))"

definition bound_count :: "host_registry \<Rightarrow> nat \<Rightarrow> nat" where
  "bound_count g token = registry_sum (charge_weight (\<lambda>_. 1) token) g"

definition bound_bytes :: "host_registry \<Rightarrow> nat \<Rightarrow> nat" where
  "bound_bytes g token = registry_sum (charge_weight sm_canonical_bytes token) g"

lemma bucket_index_less: "host_allocation_bucket_index p < host_allocation_bucket_count"
proof -
  have "(x :: 64 word) AND 0xFFF < 2 ^ 12" for x
    using word_and_le1 [of x "0xFFF"] by (auto simp: word_le_nat_alt word_less_nat_alt)
  then have "unat ((x :: 64 word) AND 0xFFF) < 4096" for x
    by (simp add: word_less_nat_alt)
  then show ?thesis
    by (simp add: host_allocation_bucket_index_def host_allocation_bucket_count_def)
qed

lemma registry_sum_set_bucket:
  assumes "b < host_allocation_bucket_count"
  shows "registry_sum f (set_bucket g b rs) + sum_list (map f (hr_buckets g b)) =
         registry_sum f g + sum_list (map f rs)"
proof -
  let ?N = "{..<host_allocation_bucket_count}"
  have split: "sum h ?N = h b + sum h (?N - {b})" for h :: "nat \<Rightarrow> nat"
    using assms by (simp add: sum.remove)
  have "(\<Sum>c\<in>?N - {b}. sum_list (map f (hr_buckets (set_bucket g b rs) c))) =
        (\<Sum>c\<in>?N - {b}. sum_list (map f (hr_buckets g c)))"
    by (rule sum.cong) auto
  then show ?thesis
    unfolding registry_sum_def split [of "\<lambda>c. sum_list (map f (hr_buckets (set_bucket g b rs) c))"]
      split [of "\<lambda>c. sum_list (map f (hr_buckets g c))"]
    by simp
qed

lemma registry_sum_registered [simp]:
  "registry_sum f (g\<lparr>hr_registered := n\<rparr>) = registry_sum f g"
  by (simp add: registry_sum_def)

lemma sum_list_update:
  "find P rs = Some r \<Longrightarrow>
     sum_list (map h (update_host_allocation rs P f)) + h r = sum_list (map h rs) + (h (f r) :: nat)"
  by (induction rs) (auto split: if_splits)

lemma registry_sum_update:
  assumes "find P (hr_buckets g b) = Some r" "b < host_allocation_bucket_count"
  shows "registry_sum h (set_bucket g b (update_host_allocation (hr_buckets g b) P f)) + h r =
         registry_sum h g + h (f r)"
  using registry_sum_set_bucket [OF assms(2), of h g "update_host_allocation (hr_buckets g b) P f"]
    sum_list_update [OF assms(1), of h f]
  by linarith

lemma registry_sum_ge:
  assumes "r \<in> set (hr_buckets g b)" "b < host_allocation_bucket_count"
  shows "h r \<le> registry_sum h g"
proof -
  have "h r \<le> sum_list (map h (hr_buckets g b))"
    using assms(1) by (intro member_le_sum_list) auto
  also have "\<dots> \<le> registry_sum h g"
    unfolding registry_sum_def using assms(2) by (intro member_le_sum) auto
  finally show ?thesis .
qed

lemma no_charges_no_bytes:
  assumes "bound_count g token = 0"
  shows "bound_bytes g token = 0"
proof -
  have "sum_list (map (charge_weight sm_canonical_bytes token) (hr_buckets g b)) = 0"
    if "b < host_allocation_bucket_count" for b
  proof -
    have "charge_weight (\<lambda>_. 1) token r = 0" if r: "r \<in> set (hr_buckets g b)" for r
      using registry_sum_ge [OF r \<open>b < _\<close>, of "charge_weight (\<lambda>_. 1) token"] assms
      by (simp add: bound_count_def)
    then have "charge_weight sm_canonical_bytes token r = 0" if "r \<in> set (hr_buckets g b)" for r
      using that by (fastforce simp: charge_weight_def split: option.splits if_splits)
    then show ?thesis by (simp add: sum_list_eq_0_iff)
  qed
  then show ?thesis by (simp add: bound_bytes_def registry_sum_def)
qed

section \<open>How the registry operations move charges\<close>

lemma inactive_weight [simp]: "charge_of r = None \<Longrightarrow> charge_weight f token r = 0"
  by (simp add: charge_weight_def)

lemma charge_of_deactivate [simp]: "charge_of (deactivate r) = None"
  by (auto simp: charge_of_def deactivate_def split: host_allocation_metadata.splits)

lemma consume_moves_charge:
  assumes "consume_semantic_host_buffer g p owner n ord u = (True, g')"
  shows "owner \<noteq> 0 \<and> p \<noteq> 0
     \<and> bound_count g token = bound_count g' token + (if token = owner then 1 else 0)
     \<and> bound_bytes g token = bound_bytes g' token + (if token = owner then n else 0)"
proof -
  let ?b = "host_allocation_bucket_index p"
  obtain o1 r where ord: "ord = Some o1" and nz: "p \<noteq> 0" "owner \<noteq> 0"
    and r: "find (is_buffer_at p) (hr_buckets g ?b) = Some r"
    and m: "semantic_binding_matches r owner n o1 u"
    and g': "g' = set_bucket g ?b
               (update_host_allocation (hr_buckets g ?b) (is_buffer_at p) deactivate)"
    using assms
    by (auto simp: consume_semantic_host_buffer_def Let_def split: if_splits option.splits)
  have c: "\<exists>s. charge_of r = Some s \<and> sm_owner_token s = owner \<and> sm_canonical_bytes s = n"
    using m by (auto simp: semantic_binding_matches_def charge_of_def
        split: host_allocation_metadata.splits)
  have "registry_sum (charge_weight f token) g =
        registry_sum (charge_weight f token) g' + charge_weight f token r" for f
    using registry_sum_update [OF r bucket_index_less, of "charge_weight f token" deactivate]
    unfolding g' by simp
  with c nz show ?thesis
    unfolding bound_count_def bound_bytes_def by (auto simp: charge_weight_def)
qed

lemma bind_moves_charge:
  assumes "bind_semantic_host_buffer g p t owner n ord u rel = (True, g')"
  shows "owner \<noteq> 0 \<and> p \<noteq> 0
     \<and> bound_count g' token = bound_count g token + (if token = owner then 1 else 0)
     \<and> bound_bytes g' token = bound_bytes g token + (if token = owner then n else 0)"
proof -
  let ?b = "host_allocation_bucket_index p"
  let ?f = "\<lambda>r. r\<lparr>har_metadata := SemanticMetadata
               \<lparr>sm_owner_token = owner, sm_canonical_bytes = n, sm_allocation_ordinal = ord,
                sm_purpose = u, sm_release = rel, sm_active = True\<rparr>\<rparr>"
  have find_eq: "find_host_allocation_unlocked rs p HP_buffer t =
      find (matches_key p HP_buffer t) rs" for rs
    by (induction rs) (auto simp: matches_key_def)
  obtain r s where nz: "p \<noteq> 0" "owner \<noteq> 0"
    and r: "find (matches_key p HP_buffer t) (hr_buckets g ?b) = Some r"
    and s: "har_metadata r = SemanticMetadata s" "\<not> sm_active s"
    and g': "g' = set_bucket g ?b
               (update_host_allocation (hr_buckets g ?b) (matches_key p HP_buffer t) ?f)"
    using assms
    by (auto simp: bind_semantic_host_buffer_def Let_def find_eq
          split: if_splits option.splits host_allocation_metadata.splits)
  have "registry_sum (charge_weight f token) g' =
        registry_sum (charge_weight f token) g + charge_weight f token (?f r)" for f
    using registry_sum_update [OF r bucket_index_less, of "charge_weight f token" ?f] s
    unfolding g' by (simp add: charge_of_def)
  with nz show ?thesis
    unfolding bound_count_def bound_bytes_def by (auto simp: charge_weight_def charge_of_def)
qed

lemma register_moves_no_charge:
  "bound_count (snd (register_host_allocation g a p n HP_buffer t 0 0)) token = bound_count g token
   \<and> bound_bytes (snd (register_host_allocation g a p n HP_buffer t 0 0)) token =
       bound_bytes g token"
proof -
  let ?g = "snd (register_host_allocation g a p n HP_buffer t 0 0)"
  let ?b = "host_allocation_bucket_index p"
  have "registry_sum (charge_weight f token) ?g = registry_sum (charge_weight f token) g" for f
  proof (cases "?g = g")
    case False
    then obtain r where g: "?g = (set_bucket g ?b (r # hr_buckets g ?b))
                             \<lparr>hr_registered := hr_registered g + 1\<rparr>"
      and r: "charge_of r = None"
      by (auto simp: register_host_allocation_def Let_def charge_of_def split: if_splits)
    then show ?thesis
      using registry_sum_set_bucket [OF bucket_index_less, of "charge_weight f token" g p
          "r # hr_buckets g ?b"]
      by simp
  qed simp
  then show ?thesis by (simp add: bound_count_def bound_bytes_def)
qed

lemma unlink_sum:
  "unlink_host_allocation rs p u t = (removed, rs') \<Longrightarrow>
     sum_list (map h rs) = sum_list (map h rs') + (case removed of None \<Rightarrow> 0 | Some r \<Rightarrow> (h r :: nat))"
  by (induction rs arbitrary: rs') (auto split: if_splits prod.splits)

lemma remove_moves_charge:
  assumes "remove_host_allocation g p u t = (snap, call, g')"
    and "\<And>r. find_host_allocation_unlocked (hr_buckets g (host_allocation_bucket_index p)) p u t =
           Some r \<Longrightarrow> charge_of r = None"
    and wf: "registry_well_formed g"
  shows "bound_count g' token = bound_count g token \<and> bound_bytes g' token = bound_bytes g token
     \<and> call = None"
proof (cases "p = 0 \<or> t = 0")
  case True
  then show ?thesis using assms(1) by (auto simp: remove_host_allocation_def)
next
  case False
  let ?b = "host_allocation_bucket_index p"
  obtain removed rs' where unl: "unlink_host_allocation (hr_buckets g ?b) p u t = (removed, rs')"
    by (cases "unlink_host_allocation (hr_buckets g ?b) p u t")
  have g': "g' = set_bucket g ?b rs'" and call: "call = pending_release removed"
    using assms(1) False unl by (auto simp: remove_host_allocation_def)
  have "removed = find_host_allocation_unlocked (hr_buckets g ?b) p u t"
    using unlink_spec [of "hr_buckets g ?b" p u t] unl wf
    by (simp add: find_unlocked_map_of registry_well_formed_def)
  then have c: "\<forall>r. removed = Some r \<longrightarrow> charge_of r = None" using assms(2) by auto
  then have "registry_sum (charge_weight f token) g' = registry_sum (charge_weight f token) g"
    for f
    using registry_sum_set_bucket [OF bucket_index_less, of "charge_weight f token" g p rs']
      unlink_sum [OF unl, of "charge_weight f token"]
    unfolding g' by (cases removed) auto
  moreover have "call = None"
    using c unfolding call pending_release_def
    by (auto simp: charge_of_def split: option.splits host_allocation_metadata.splits)
  ultimately show ?thesis by (simp add: bound_count_def bound_bytes_def)
qed

section \<open>The states\<close>

definition states_well_formed :: "resource_world \<Rightarrow> bool" where
  "states_well_formed w \<longleftrightarrow>
     rw_next_token w \<le> token_max \<and>
     (\<forall>b. distinct (map rs_token (rw_states w b)) \<and>
          (\<forall>s \<in> set (rw_states w b).
             resource_registry_bucket (rs_token s) = b \<and> rs_token s \<noteq> 0 \<and>
             (rw_next_token w = 0 \<or> rs_token s < rw_next_token w)))"

lemma frame_modify_state [simp]:
  "rw_hosts (modify_state w t f) = rw_hosts w"
  "rw_next_token (modify_state w t f) = rw_next_token w"
  "rw_identity (modify_state w t f) = rw_identity w"
  "rw_host (modify_state w t f) = rw_host w"
  "rw_address (modify_state w t f) = rw_address w"
  "rw_release (modify_state w t f) = rw_release w"
  by (simp_all add: modify_state_def set_states_def Let_def)

lemma frame_erase [simp]:
  "rw_hosts (erase_and_destroy_resource_state_locked w t) = rw_hosts w"
  "rw_next_token (erase_and_destroy_resource_state_locked w t) = rw_next_token w"
  "rw_identity (erase_and_destroy_resource_state_locked w t) = rw_identity w"
  by (simp_all add: erase_and_destroy_resource_state_locked_def set_states_def Let_def)

lemma find_state_token: "find_resource_state_locked w t = Some s \<Longrightarrow> rs_token s = t \<and> t \<noteq> 0"
  by (auto simp: find_resource_state_locked_def has_token_def find_Some_iff split: if_splits)

lemma find_hosts [simp]:
  "find_resource_state_locked (rw_hosts_update f w) t = find_resource_state_locked w t"
  "find_resource_state_locked (rw_host_update g w) t = find_resource_state_locked w t"
  by (simp_all add: find_resource_state_locked_def)

lemma has_token_iff: "has_token t s = (rs_token s = t)"
  by (simp add: has_token_def)

lemma find_update_first:
  assumes "\<And>s. rs_token (f s) = rs_token s"
  shows "find (has_token u) (update_first (has_token t) f xs) =
         (if u = t then map_option f (find (has_token t) xs) else find (has_token u) xs)"
  using assms by (induction xs) (auto simp: has_token_def)

lemma find_modify_state:
  assumes "\<And>s. rs_token (f s) = rs_token s"
  shows "find_resource_state_locked (modify_state w t f) u =
         (if u = t then map_option f (find_resource_state_locked w t)
          else find_resource_state_locked w u)"
  using assms
  by (auto simp: find_resource_state_locked_def modify_state_def set_states_def Let_def
        find_update_first)

lemma tokens_update_first:
  assumes "\<And>s. rs_token (f s) = rs_token s"
  shows "map rs_token (update_first P f xs) = map rs_token xs"
  using assms by (induction xs) auto

lemma states_well_formed_iff:
  "states_well_formed w \<longleftrightarrow>
     rw_next_token w \<le> token_max \<and>
     (\<forall>b. distinct (map rs_token (rw_states w b)) \<and>
          (\<forall>t \<in> set (map rs_token (rw_states w b)).
             resource_registry_bucket t = b \<and> t \<noteq> 0 \<and>
             (rw_next_token w = 0 \<or> t < rw_next_token w)))"
  by (simp add: states_well_formed_def)

lemma states_well_formed_modify:
  assumes "states_well_formed w" "\<And>s. rs_token (f s) = rs_token s"
  shows "states_well_formed (modify_state w t f)"
proof -
  have "map rs_token (rw_states (modify_state w t f) b) = map rs_token (rw_states w b)" for b
    by (simp add: modify_state_def set_states_def Let_def tokens_update_first assms(2))
  then show ?thesis using assms(1) unfolding states_well_formed_iff by simp
qed

lemma remove_first_find:
  "distinct (map rs_token xs) \<Longrightarrow>
     find (has_token u) (remove_first (has_token t) xs) =
       (if u = t then None else find (has_token u) xs)"
proof (induction xs)
  case (Cons x xs)
  have none: "find (has_token (rs_token x)) xs = None"
    using Cons.prems by (auto simp: find_None_iff has_token_def image_iff)
  have IH: "find (has_token u) (remove_first (has_token t) xs) =
      (if u = t then None else find (has_token u) xs)"
    using Cons by simp
  show ?case
    by (cases "rs_token x = t"; cases "rs_token x = u")
       (use IH none has_token_iff [of _ x] in \<open>simp_all\<close>)
qed simp

lemma remove_first_subset: "set (remove_first P xs) \<subseteq> set xs"
  by (induction xs) auto

lemma remove_first_distinct:
  "distinct (map rs_token xs) \<Longrightarrow> distinct (map rs_token (remove_first P xs))"
  by (induction xs) (use remove_first_subset in \<open>fastforce+\<close>)

lemma find_erase:
  assumes "states_well_formed w"
  shows "find_resource_state_locked (erase_and_destroy_resource_state_locked w t) u =
         (if u = t then None else find_resource_state_locked w u)"
  using assms
  by (auto simp: find_resource_state_locked_def erase_and_destroy_resource_state_locked_def
        set_states_def Let_def remove_first_find states_well_formed_def)

lemma states_well_formed_erase:
  assumes "states_well_formed w"
  shows "states_well_formed (erase_and_destroy_resource_state_locked w t)"
proof -
  let ?b = "resource_registry_bucket t"
  have "distinct (map rs_token (remove_first (has_token t) (rw_states w ?b)))"
    "set (remove_first (has_token t) (rw_states w ?b)) \<subseteq> set (rw_states w ?b)"
    using assms remove_first_subset [of "has_token t" "rw_states w ?b"]
      remove_first_distinct [of "rw_states w ?b" "has_token t"]
    by (simp_all add: states_well_formed_def)
  then show ?thesis
    using assms
    by (auto simp: states_well_formed_def erase_and_destroy_resource_state_locked_def
          set_states_def Let_def)
qed

section \<open>Exact accounting, up to offsets\<close>

definition buffer_addresses :: "host_allocation_record list \<Rightarrow> address list" where
  "buffer_addresses rs = map har_payload (filter (\<lambda>r. har_purpose r = HP_buffer) rs)"

text \<open>A live block has one record, and every charge has the function that gives it back.\<close>

definition charges_sound :: "host_registry \<Rightarrow> bool" where
  "charges_sound g \<longleftrightarrow>
     (\<forall>b. distinct (buffer_addresses (hr_buckets g b)) \<and>
          (\<forall>r \<in> set (hr_buckets g b). \<forall>s. charge_of r = Some s \<longrightarrow> sm_release s \<noteq> 0))"

text \<open>\<open>accounted base refs w\<close>: the ghost offsets are what remains when the registry's charges are
  taken away from the count of live bytes, and what remains when they and the context itself
  are taken away from the count of references.\<close>

definition accounted ::
    "(nat \<Rightarrow> int) \<Rightarrow> (nat \<Rightarrow> int) \<Rightarrow> resource_world \<Rightarrow> bool" where
  "accounted base refs w \<longleftrightarrow>
     states_well_formed w \<and> registry_well_formed (rw_hosts w) \<and> charges_sound (rw_hosts w) \<and>
     (\<forall>t s. find_resource_state_locked w t = Some s \<longrightarrow>
        rs_references s > 0 \<and>
        int (rs_references s) =
          of_bool (rs_context_active s) + int (bound_count (rw_hosts w) t) + refs t \<and>
        int (ac_live s) = base t + int (bound_bytes (rw_hosts w) t)) \<and>
     (\<forall>t. bound_count (rw_hosts w) t > 0 \<longrightarrow> find_resource_state_locked w t \<noteq> None)"

lemma accountedD:
  assumes "accounted base refs w"
  shows "states_well_formed w" "registry_well_formed (rw_hosts w)"
    "charges_sound (rw_hosts w)"
    "find_resource_state_locked w t = Some s \<Longrightarrow>
        rs_references s > 0 \<and>
        int (rs_references s) =
          of_bool (rs_context_active s) + int (bound_count (rw_hosts w) t) + refs t \<and>
        int (ac_live s) = base t + int (bound_bytes (rw_hosts w) t)"
    "bound_count (rw_hosts w) t > 0 \<Longrightarrow> find_resource_state_locked w t \<noteq> None"
  using assms by (auto simp: accounted_def)

lemma states_well_formed_hosts [simp]:
  "states_well_formed (rw_hosts_update f w) = states_well_formed w"
  "states_well_formed (rw_host_update g w) = states_well_formed w"
  by (simp_all add: states_well_formed_def)

lemma accounted_host [simp]: "accounted base refs (rw_host_update f w) = accounted base refs w"
  by (simp add: accounted_def)

lemma accounted_modify:
  assumes acc: "accounted base refs w" and s: "find_resource_state_locked w t = Some s"
    and tok: "\<And>s. rs_token (f s) = rs_token s"
    and act: "rs_context_active (f s) = rs_context_active s"
    and pos: "rs_references (f s) > 0"
  shows "accounted (base(t := base t + int (ac_live (f s)) - int (ac_live s)))
           (refs(t := refs t + int (rs_references (f s)) - int (rs_references s)))
           (modify_state w t f)"
  unfolding accounted_def
proof (intro conjI allI impI)
  fix u s'
  assume "find_resource_state_locked (modify_state w t f) u = Some s'"
  then have u: "u = t \<and> s' = f s \<or> u \<noteq> t \<and> find_resource_state_locked w u = Some s'"
    using s by (auto simp: find_modify_state [OF tok] split: if_splits)
  then show "rs_references s' > 0" using pos accountedD(4) [OF acc] by auto
  from u show "int (rs_references s') =
      of_bool (rs_context_active s') + int (bound_count (rw_hosts (modify_state w t f)) u)
      + (refs(t := refs t + int (rs_references (f s)) - int (rs_references s))) u"
    using accountedD(4) [OF acc] s act by auto
  from u show "int (ac_live s') =
      (base(t := base t + int (ac_live (f s)) - int (ac_live s))) u
      + int (bound_bytes (rw_hosts (modify_state w t f)) u)"
    using accountedD(4) [OF acc] s by auto
next
  fix u
  assume "bound_count (rw_hosts (modify_state w t f)) u > 0"
  then show "find_resource_state_locked (modify_state w t f) u \<noteq> None"
    using accountedD(5) [OF acc, of u] s by (auto simp: find_modify_state [OF tok])
qed (use accountedD(1-3) [OF acc] tok in \<open>simp_all add: states_well_formed_modify\<close>)

lemma accounted_acquire:
  assumes "accounted base refs w" "find_resource_state_locked w t = Some s"
  shows "accounted base (refs(t := refs t + 1)) (modify_state w t add_reference)"
  using accounted_modify [OF assms, of add_reference] by (simp add: add_reference_def)

lemma accounted_release:
  assumes acc: "accounted base refs w" and s: "find_resource_state_locked w t = Some s"
    and pin: "refs t \<ge> 1"
  shows "accounted base (refs(t := refs t - 1)) (release_state_reference w t)"
proof -
  let ?w = "modify_state w t drop_reference"
  have tok: "\<And>s. rs_token (drop_reference s) = rs_token s" by (simp add: drop_reference_def)
  have s': "find_resource_state_locked ?w t = Some (drop_reference s)"
    using s by (simp add: find_modify_state [OF tok])
  have pos: "rs_references s > 0" using accountedD(4) [OF acc s] by simp
  have eq: "int (rs_references s) =
      of_bool (rs_context_active s) + int (bound_count (rw_hosts w) t) + refs t"
    using accountedD(4) [OF acc s] by simp
  show ?thesis
  proof (cases "rs_references s = 1")
    case False
    then have "accounted (base(t := base t)) (refs(t := refs t - 1)) ?w"
      using accounted_modify [OF acc s, of drop_reference] pos
      by (simp add: drop_reference_def of_nat_diff)
    then show ?thesis
      using s' False pos by (simp add: release_state_reference_def Let_def drop_reference_def)
  next
    case True
    let ?w' = "erase_and_destroy_resource_state_locked ?w t"
    have wf: "states_well_formed ?w"
      using accountedD(1) [OF acc] by (simp add: states_well_formed_modify drop_reference_def)
    have gone: "bound_count (rw_hosts w) t = 0" using eq pin True
      by (cases "rs_context_active s") simp_all
    have find': "find_resource_state_locked ?w' u =
        (if u = t then None else find_resource_state_locked w u)" for u
      by (simp add: find_erase [OF wf] find_modify_state [OF tok])
    have "release_state_reference w t = ?w'"
      using s' True by (simp add: release_state_reference_def Let_def drop_reference_def)
    moreover have "accounted base (refs(t := refs t - 1)) ?w'"
      unfolding accounted_def find'
      using accountedD [OF acc] gone states_well_formed_erase [OF wf] by auto
    ultimately show ?thesis by simp
  qed
qed

lemma accounted_hosts:
  assumes acc: "accounted base refs w"
    and wf: "registry_well_formed g" "charges_sound g"
    and count: "\<And>t. int (bound_count g t) = int (bound_count (rw_hosts w) t) + c t"
    and bytes: "\<And>t. int (bound_bytes g t) = int (bound_bytes (rw_hosts w) t) + n t"
    and owners: "\<And>t. c t > 0 \<Longrightarrow> find_resource_state_locked w t \<noteq> None"
  shows "accounted (\<lambda>t. base t - n t) (\<lambda>t. refs t - c t) (w\<lparr>rw_hosts := g\<rparr>)"
  unfolding accounted_def
proof (intro conjI allI impI)
  fix t s
  assume "find_resource_state_locked (w\<lparr>rw_hosts := g\<rparr>) t = Some s"
  then have s: "find_resource_state_locked w t = Some s" by simp
  show "rs_references s > 0" using accountedD(4) [OF acc s] by simp
  show "int (rs_references s) = of_bool (rs_context_active s)
      + int (bound_count (rw_hosts (w\<lparr>rw_hosts := g\<rparr>)) t) + (refs t - c t)"
    using accountedD(4) [OF acc s] count [of t] by simp
  show "int (ac_live s) = (base t - n t) + int (bound_bytes (rw_hosts (w\<lparr>rw_hosts := g\<rparr>)) t)"
    using accountedD(4) [OF acc s] bytes [of t] by simp
next
  fix t
  assume "bound_count (rw_hosts (w\<lparr>rw_hosts := g\<rparr>)) t > 0"
  then have "bound_count (rw_hosts w) t > 0 \<or> c t > 0" using count [of t] by (simp; linarith)
  then show "find_resource_state_locked (w\<lparr>rw_hosts := g\<rparr>) t \<noteq> None"
    using accountedD(5) [OF acc] owners by auto
qed (use accountedD(1) [OF acc] wf in simp_all)

section \<open>Charges stay sound\<close>

lemma buffer_addresses_update:
  assumes "\<And>r. har_payload (f r) = har_payload r \<and> har_purpose (f r) = har_purpose r"
  shows "buffer_addresses (update_host_allocation rs P f) = buffer_addresses rs"
  using assms by (induction rs) (auto simp: buffer_addresses_def)

lemma set_update_host_allocation:
  "set (update_host_allocation rs P f) \<subseteq> set rs \<union> f ` {r \<in> set rs. P r}"
  by (induction rs) auto

lemma charges_sound_update:
  assumes "charges_sound g"
    and "\<And>r. har_payload (f r) = har_payload r \<and> har_purpose (f r) = har_purpose r"
    and "\<And>r s. charge_of (f r) = Some s \<Longrightarrow> sm_release s \<noteq> 0"
  shows "charges_sound (set_bucket g b (update_host_allocation (hr_buckets g b) P f))"
  using assms(1,3) set_update_host_allocation [of "hr_buckets g b" P f]
  unfolding charges_sound_def hr_buckets_set_bucket
  by (auto simp: buffer_addresses_update [OF assms(2)])

lemma consume_keeps_sound:
  assumes "charges_sound g" "consume_semantic_host_buffer g p owner n ord u = (ok, g')"
  shows "charges_sound g'"
  using assms deactivate_key
  by (auto simp: consume_semantic_host_buffer_def Let_def
        split: if_splits option.splits intro!: charges_sound_update)

lemma bind_keeps_sound:
  assumes "charges_sound g" "bind_semantic_host_buffer g p t owner n ord u rel = (ok, g')"
  shows "charges_sound g'"
  using assms
  by (auto simp: bind_semantic_host_buffer_def Let_def charge_of_def
        split: if_splits option.splits host_allocation_metadata.splits
        intro!: charges_sound_update)

lemma register_keeps_sound:
  assumes "charges_sound g"
    and "p \<notin> set (buffer_addresses (hr_buckets g (host_allocation_bucket_index p)))"
  shows "charges_sound (snd (register_host_allocation g a p n HP_buffer t 0 0))"
  using assms
  by (auto simp: register_host_allocation_def Let_def charges_sound_def charge_of_def
        buffer_addresses_def)

lemma unlink_subset:
  "unlink_host_allocation rs p u t = (removed, rs') \<Longrightarrow>
     set rs' \<subseteq> set rs
     \<and> (distinct (buffer_addresses rs) \<longrightarrow> distinct (buffer_addresses rs'))"
proof (induction rs arbitrary: rs')
  case (Cons r rs)
  show ?case
  proof (cases "har_payload r = p \<and> har_purpose r = u \<and> har_element_type r = t")
    case True
    then show ?thesis using Cons.prems by (auto simp: buffer_addresses_def)
  next
    case False
    then obtain rs1 where unl: "unlink_host_allocation rs p u t = (removed, rs1)"
      and rs': "rs' = r # rs1"
      using Cons.prems by (auto split: if_splits prod.splits)
    show ?thesis using Cons.IH [OF unl] unfolding rs' by (auto simp: buffer_addresses_def)
  qed
qed simp

lemma remove_keeps_sound:
  assumes "charges_sound g" "remove_host_allocation g p u t = (snap, call, g')"
  shows "charges_sound g'"
proof (cases "g' = g")
  case False
  let ?b = "host_allocation_bucket_index p"
  obtain removed rs' where unl: "unlink_host_allocation (hr_buckets g ?b) p u t = (removed, rs')"
    by (cases "unlink_host_allocation (hr_buckets g ?b) p u t")
  have "g' = set_bucket g ?b rs'"
    using assms(2) unl False by (auto simp: remove_host_allocation_def split: if_splits)
  then show ?thesis
    using assms(1) unlink_subset [OF unl] unfolding charges_sound_def by auto
qed (use assms in simp)

lemma sole_record:
  assumes "charges_sound g" "find (is_buffer_at p) (hr_buckets g b) = Some r"
    and "r' \<in> set (hr_buckets g b)" "is_buffer_at p r'"
  shows "r' = r"
proof -
  have d: "distinct (buffer_addresses (hr_buckets g b))"
    using assms(1) by (simp add: charges_sound_def)
  have r: "r \<in> set (hr_buckets g b)" "is_buffer_at p r"
    using assms(2) by (auto simp: find_Some_iff)
  have "inj_on har_payload (set (filter (\<lambda>r. har_purpose r = HP_buffer) (hr_buckets g b)))"
    using d by (simp add: buffer_addresses_def distinct_map)
  then show ?thesis
    using r assms(3,4) by (auto simp: is_buffer_at_def inj_on_def)
qed

section \<open>The steps of an operation\<close>

lemma consume_allocation_binding_frame:
  assumes "consume_allocation_binding w p owner n ord u = (ok, w')"
  shows "w' = w\<lparr>rw_hosts := rw_hosts w'\<rparr>"
  using assms by (auto simp: consume_allocation_binding_def split: prod.splits)

lemma accounted_consume:
  assumes acc: "accounted base refs w"
    and con: "consume_allocation_binding w p owner n ord u = (True, w')"
  shows "accounted (base(owner := base owner + int n)) (refs(owner := refs owner + 1)) w'"
    "find_resource_state_locked w owner \<noteq> None"
    "\<And>r. r \<in> set (hr_buckets (rw_hosts w') (host_allocation_bucket_index p)) \<Longrightarrow>
        is_buffer_at p r \<Longrightarrow> charge_of r = None"
proof -
  obtain g where g: "consume_semantic_host_buffer (rw_hosts w) p owner n ord u = (True, g)"
    and w': "w' = w\<lparr>rw_hosts := g\<rparr>"
    using con by (auto simp: consume_allocation_binding_def split: prod.splits)
  let ?c = "\<lambda>t. if t = owner then - 1 else (0 :: int)"
  let ?n = "\<lambda>t. if t = owner then - int n else (0 :: int)"
  have wf: "registry_well_formed g" "charges_sound g"
    using consume_keeps_well_formed [OF accountedD(2) [OF acc] g]
      consume_keeps_sound [OF accountedD(3) [OF acc] g] by simp_all
  have "accounted (\<lambda>t. base t - ?n t) (\<lambda>t. refs t - ?c t) (w\<lparr>rw_hosts := g\<rparr>)"
    by (rule accounted_hosts [OF acc wf])
       (use consume_moves_charge [OF g] in \<open>auto split: if_splits\<close>)
  moreover have "(\<lambda>t. base t - ?n t) = base(owner := base owner + int n)"
    "(\<lambda>t. refs t - ?c t) = refs(owner := refs owner + 1)"
    by auto
  ultimately show "accounted (base(owner := base owner + int n))
      (refs(owner := refs owner + 1)) w'"
    unfolding w' by metis
  have "bound_count (rw_hosts w) owner > 0" using consume_moves_charge [OF g, of owner] by simp
  then show "find_resource_state_locked w owner \<noteq> None" using accountedD(5) [OF acc] by simp
  obtain o1 where "ord = Some o1" using g by (auto simp: consume_semantic_host_buffer_def
        split: option.splits)
  then obtain r0 where r0: "find (is_buffer_at p) (hr_buckets g (host_allocation_bucket_index p)) =
      Some (deactivate r0)"
    using consume_records g by blast
  fix r
  assume "r \<in> set (hr_buckets (rw_hosts w') (host_allocation_bucket_index p))" "is_buffer_at p r"
  then have "r = deactivate r0" using sole_record [OF wf(2) r0] unfolding w' by simp
  then show "charge_of r = None" by simp
qed

lemma accounted_bind:
  assumes acc: "accounted base refs w"
    and bind: "bind_semantic_host_buffer (rw_hosts w) p t owner n ord u rel = (True, g)"
    and live: "find_resource_state_locked w owner \<noteq> None"
  shows "accounted (base(owner := base owner - int n)) (refs(owner := refs owner - 1))
           (w\<lparr>rw_hosts := g\<rparr>)"
proof -
  let ?c = "\<lambda>t. if t = owner then 1 else (0 :: int)"
  let ?n = "\<lambda>t. if t = owner then int n else (0 :: int)"
  have wf: "registry_well_formed g" "charges_sound g"
    using bind_keeps_well_formed [OF accountedD(2) [OF acc] bind]
      bind_keeps_sound [OF accountedD(3) [OF acc] bind] by simp_all
  have "accounted (\<lambda>t. base t - ?n t) (\<lambda>t. refs t - ?c t) (w\<lparr>rw_hosts := g\<rparr>)"
    by (rule accounted_hosts [OF acc wf])
       (use bind_moves_charge [OF bind] live in \<open>auto split: if_splits\<close>)
  moreover have "(\<lambda>t. base t - ?n t) = base(owner := base owner - int n)"
    "(\<lambda>t. refs t - ?c t) = refs(owner := refs owner - 1)"
    by auto
  ultimately show ?thesis by metis
qed

lemma release_accounting_owner_eq:
  "release_accounting_owner w owner =
     (if find_resource_state_locked w owner = None then w else release_state_reference w owner)"
  by (auto simp: release_accounting_owner_def split: option.splits dest: find_state_token)

lemma accounted_release_owner:
  assumes "accounted base refs w" "find_resource_state_locked w t \<noteq> None" "refs t \<ge> 1"
  shows "accounted base (refs(t := refs t - 1)) (release_accounting_owner w t)"
  using accounted_release [OF assms(1) _ assms(3)] assms(2)
  by (auto simp: release_accounting_owner_eq)

lemma accounted_retain:
  assumes "accounted base refs w" "retain_accounting_owner w t = (True, w')"
  shows "accounted base (refs(t := refs t + 1)) w' \<and> find_resource_state_locked w t \<noteq> None
     \<and> w' = modify_state w t add_reference"
  using assms accounted_acquire [OF assms(1)]
  by (auto simp: retain_accounting_owner_def split: option.splits dest: find_state_token)

lemma find_unlocked_key:
  "find_host_allocation_unlocked rs p u t = Some r \<Longrightarrow>
     r \<in> set rs \<and> har_payload r = p \<and> har_purpose r = u \<and> har_element_type r = t"
  by (induction rs) (auto split: if_splits)

lemma release_host_buffer_inactive:
  assumes acc: "accounted base refs w"
    and idle: "\<And>r. r \<in> set (hr_buckets (rw_hosts w) (host_allocation_bucket_index p)) \<Longrightarrow>
                 is_buffer_at p r \<Longrightarrow> charge_of r = None"
  shows "accounted base refs (release_host_buffer w element p)"
    "find_resource_state_locked (release_host_buffer w element p) t =
       find_resource_state_locked w t"
proof -
  obtain snap call g where rem: "remove_host_allocation (rw_hosts w) p HP_buffer
      (rw_identity w element) = (snap, call, g)"
    by (cases "remove_host_allocation (rw_hosts w) p HP_buffer (rw_identity w element)")
  have idle': "charge_of r = None"
    if "find_host_allocation_unlocked (hr_buckets (rw_hosts w) (host_allocation_bucket_index p))
          p HP_buffer (rw_identity w element) = Some r" for r
    using find_unlocked_key [OF that] by (intro idle) (auto simp: is_buffer_at_def)
  note moves = remove_moves_charge [OF rem idle' accountedD(2) [OF acc]]
  have wf: "registry_well_formed g" "charges_sound g"
    using remove_keeps_well_formed [OF accountedD(2) [OF acc], of p HP_buffer
        "rw_identity w element"] remove_keeps_sound [OF accountedD(3) [OF acc] rem]
    by (simp_all add: rem)
  have eq: "release_host_buffer w element p = (if p = 0 then w else w\<lparr>rw_hosts := g\<rparr>)"
    using moves rem by (simp add: release_host_buffer_def run_release_call_def)
  have "accounted (\<lambda>t. base t - 0) (\<lambda>t. refs t - 0) (w\<lparr>rw_hosts := g\<rparr>)"
    by (rule accounted_hosts [OF acc wf]) (use moves in auto)
  then show "accounted base refs (release_host_buffer w element p)"
    "find_resource_state_locked (release_host_buffer w element p) t =
       find_resource_state_locked w t"
    using acc unfolding eq by simp_all
qed

section \<open>Inside an operation\<close>

text \<open>While an operation holds a context, its counters live in the caller's record: the record,
  not the state, agrees with the registry.\<close>

definition in_transaction ::
    "(nat \<Rightarrow> int) \<Rightarrow> (nat \<Rightarrow> int) \<Rightarrow> nat \<Rightarrow> evaluation_resources \<Rightarrow> resource_world \<Rightarrow> bool"
where
  "in_transaction base refs t ev w \<longleftrightarrow>
     (\<exists>base'. accounted base' refs w \<and> (\<forall>u. u \<noteq> t \<longrightarrow> base' u = base u)) \<and>
     refs t \<ge> 1 \<and> int (ac_live ev) = base t + int (bound_bytes (rw_hosts w) t) \<and>
     ev_owner ev = t \<and> find_resource_state_locked w t \<noteq> None"

lemma in_transactionE:
  assumes "in_transaction base refs t ev w"
  obtains base' where "accounted base' refs w" "\<And>u. u \<noteq> t \<Longrightarrow> base' u = base u"
    "refs t \<ge> 1" "int (ac_live ev) = base t + int (bound_bytes (rw_hosts w) t)"
    "ev_owner ev = t" "find_resource_state_locked w t \<noteq> None"
  using assms by (auto simp: in_transaction_def)

lemma in_transaction_host [simp]:
  "in_transaction base refs t ev (rw_host_update f w) = in_transaction base refs t ev w"
  by (simp add: in_transaction_def)

lemma begin_transaction:
  assumes acc: "accounted base refs w" and r0: "refs t \<ge> 0"
    and acq: "acquire_validated_resource_state w ev = (Some t, w1)"
  shows "in_transaction base (refs(t := refs t + 1)) t
           (begin_resource_record_sync w1 ev (Some t)) w1"
    "w1 = modify_state w t add_reference"
proof -
  obtain s where s: "find_resource_state_locked w t = Some s" and ev: "ev_owner ev = t"
    and w1: "w1 = modify_state w t add_reference"
    using acq by (auto simp: acquire_validated_resource_state_def record_matches_state_def
        split: option.splits if_splits dest: find_state_token)
  have tok: "\<And>s. rs_token (add_reference s) = rs_token s" by (simp add: add_reference_def)
  have s1: "find_resource_state_locked w1 t = Some (add_reference s)"
    using s by (simp add: w1 find_modify_state [OF tok])
  have "accounted base (refs(t := refs t + 1)) w1"
    unfolding w1 by (rule accounted_acquire [OF acc s])
  then show "in_transaction base (refs(t := refs t + 1)) t
           (begin_resource_record_sync w1 ev (Some t)) w1"
    using s1 ev r0 accountedD(4) [OF acc s]
    by (auto simp: in_transaction_def begin_resource_record_sync_def copy_accounting_def
          add_reference_def w1)
  show "w1 = modify_state w t add_reference" by (rule w1)
qed

lemma end_transaction:
  assumes "in_transaction base refs t ev w"
  shows "accounted base (refs(t := refs t - 1))
           (release_acquired_resource_state (finish_resource_record_sync w ev (Some t)) (Some t))"
proof -
  obtain base' where acc: "accounted base' refs w" and same: "\<And>u. u \<noteq> t \<Longrightarrow> base' u = base u"
    and pin: "refs t \<ge> 1" and live: "int (ac_live ev) = base t + int (bound_bytes (rw_hosts w) t)"
    and found: "find_resource_state_locked w t \<noteq> None"
    using in_transactionE [OF assms] by metis
  let ?f = "\<lambda>s. s\<lparr>ac_live := ac_live ev, ac_work := ac_work ev, ac_ordinal := ac_ordinal ev\<rparr>"
  let ?w = "finish_resource_record_sync w ev (Some t)"
  obtain s where s: "find_resource_state_locked w t = Some s" using found by auto
  have tok: "\<And>s. rs_token (?f s) = rs_token s" by simp
  have "accounted (base'(t := base' t + int (ac_live ev) - int (ac_live s))) (refs(t := refs t)) ?w"
    using accounted_modify [OF acc s, of ?f] accountedD(4) [OF acc s]
    by (simp add: finish_resource_record_sync_def)
  moreover have "base'(t := base' t + int (ac_live ev) - int (ac_live s)) = base"
    using same live accountedD(4) [OF acc s] by (auto simp: fun_eq_iff)
  moreover have "find_resource_state_locked ?w t \<noteq> None"
    using s by (simp add: finish_resource_record_sync_def find_modify_state [OF tok])
  ultimately show ?thesis
    using accounted_release [of base refs ?w t] pin
    by (auto simp: release_acquired_resource_state_def)
qed

text \<open>A transaction survives giving back a charge it owns, dropping a spare reference, freeing
  an idle buffer, and allocating and binding a fresh one.\<close>

lemma transaction_consume:
  assumes tr: "in_transaction base refs t ev w" and b0: "base t \<ge> 0"
    and con: "consume_allocation_binding w p t n ord u = (True, w')"
  shows "n \<le> ac_live ev"
    "in_transaction base (refs(t := refs t + 1)) t (ev\<lparr>ac_live := ac_live ev - n\<rparr>) w'"
proof -
  obtain base' where acc: "accounted base' refs w" and same: "\<And>u. u \<noteq> t \<Longrightarrow> base' u = base u"
    and pin: "refs t \<ge> 1" and live: "int (ac_live ev) = base t + int (bound_bytes (rw_hosts w) t)"
    and ev: "ev_owner ev = t" and found: "find_resource_state_locked w t \<noteq> None"
    using in_transactionE [OF tr] by metis
  obtain g where g: "consume_semantic_host_buffer (rw_hosts w) p t n ord u = (True, g)"
    and w': "w' = w\<lparr>rw_hosts := g\<rparr>"
    using con by (auto simp: consume_allocation_binding_def split: prod.splits)
  have bytes: "bound_bytes (rw_hosts w) t = bound_bytes g t + n"
    using consume_moves_charge [OF g, of t] by simp
  then show le: "n \<le> ac_live ev" using live b0 by linarith
  show "in_transaction base (refs(t := refs t + 1)) t (ev\<lparr>ac_live := ac_live ev - n\<rparr>) w'"
    unfolding in_transaction_def
    using accounted_consume(1) [OF acc con] same pin live ev found bytes le
    by (auto simp: w' of_nat_diff intro!: exI [of _ "base'(t := base' t + int n)"])
qed

lemma transaction_release_owner:
  assumes tr: "in_transaction base refs t ev w" and spare: "refs t \<ge> 2"
  shows "in_transaction base (refs(t := refs t - 1)) t ev (release_accounting_owner w t)"
    "rw_hosts (release_accounting_owner w t) = rw_hosts w"
proof -
  obtain base' s where acc: "accounted base' refs w" and same: "\<And>u. u \<noteq> t \<Longrightarrow> base' u = base u"
    and live: "int (ac_live ev) = base t + int (bound_bytes (rw_hosts w) t)"
    and ev: "ev_owner ev = t" and s: "find_resource_state_locked w t = Some s"
    using in_transactionE [OF tr] by (metis option.exhaust)
  have two: "rs_references s \<ge> 2" using accountedD(4) [OF acc s] spare
    by (cases "rs_context_active s") simp_all
  have tok: "\<And>s. rs_token (drop_reference s) = rs_token s" by (simp add: drop_reference_def)
  have eq: "release_accounting_owner w t = modify_state w t drop_reference"
    using s two by (simp add: release_accounting_owner_eq release_state_reference_def Let_def
        find_modify_state [OF tok] drop_reference_def)
  show hosts: "rw_hosts (release_accounting_owner w t) = rw_hosts w" by (simp add: eq)
  show "in_transaction base (refs(t := refs t - 1)) t ev (release_accounting_owner w t)"
    unfolding in_transaction_def hosts
    using accounted_release_owner [OF acc, of t] same live ev s spare
    by (auto simp: eq find_modify_state [OF tok])
qed

lemma transaction_release_buffer:
  assumes tr: "in_transaction base refs t ev w"
    and idle: "\<And>r. r \<in> set (hr_buckets (rw_hosts w) (host_allocation_bucket_index p)) \<Longrightarrow>
                 is_buffer_at p r \<Longrightarrow> charge_of r = None"
  shows "in_transaction base refs t ev (release_host_buffer w element p)"
proof -
  obtain base' where acc: "accounted base' refs w" and same: "\<And>u. u \<noteq> t \<Longrightarrow> base' u = base u"
    and pin: "refs t \<ge> 1" and live: "int (ac_live ev) = base t + int (bound_bytes (rw_hosts w) t)"
    and ev: "ev_owner ev = t" and found: "find_resource_state_locked w t \<noteq> None"
    using in_transactionE [OF tr] by metis
  let ?w = "release_host_buffer w element p"
  have rel: "accounted base' refs ?w" by (rule release_host_buffer_inactive(1) [OF acc]) (rule idle)
  have find': "find_resource_state_locked ?w u = find_resource_state_locked w u" for u
    by (rule release_host_buffer_inactive(2) [OF acc]) (rule idle)
  obtain s where s: "find_resource_state_locked w t = Some s" using found by auto
  then have "bound_bytes (rw_hosts ?w) t = bound_bytes (rw_hosts w) t"
    using accountedD(4) [OF acc s] accountedD(4) [OF rel, of t s] by (simp add: find')
  then show ?thesis
    unfolding in_transaction_def using rel same pin live ev found find' by auto
qed

lemma transaction_consume_release:
  assumes tr: "in_transaction base refs t ev w" and b0: "base t \<ge> 0"
    and con: "consume_allocation_binding w p t n ord u = (True, w')"
  shows "n \<le> ac_live ev"
    "in_transaction base refs t (ev\<lparr>ac_live := ac_live ev - n\<rparr>)
       (release_host_buffer (release_accounting_owner w' t) element p)"
proof -
  show "n \<le> ac_live ev" by (rule transaction_consume(1) [OF tr b0 con])
  have pin: "refs t \<ge> 1" using in_transactionE [OF tr] by metis
  note step = transaction_consume(2) [OF tr b0 con]
  have "(refs(t := refs t + 1)) t \<ge> 2" using pin by simp
  note rel = transaction_release_owner [OF step this]
  obtain base' where "accounted base' refs w" using in_transactionE [OF tr] by metis
  from accounted_consume(3) [OF this con]
  have "in_transaction base ((refs(t := refs t + 1))(t := (refs(t := refs t + 1)) t - 1)) t
      (ev\<lparr>ac_live := ac_live ev - n\<rparr>)
      (release_host_buffer (release_accounting_owner w' t) element p)"
    by (intro transaction_release_buffer [OF rel(1)]) (simp add: rel(2))
  then show "in_transaction base refs t (ev\<lparr>ac_live := ac_live ev - n\<rparr>)
       (release_host_buffer (release_accounting_owner w' t) element p)"
    by simp
qed

section \<open>Allocation inside an operation\<close>

text \<open>What \<open>malloc\<close> guarantees: the block it grants next is not one of the live buffers.\<close>

definition fresh_block :: "resource_world \<Rightarrow> bool" where
  "fresh_block w \<longleftrightarrow>
     list_all (\<lambda>element.
        let p = aligned_payload (rw_address w (malloc_calls (rw_host w))) (buffer_layout element)
        in p \<notin> set (buffer_addresses (hr_buckets (rw_hosts w) (host_allocation_bucket_index p))))
       [BE_uint8, BE_int64, BE_double, BE_byte]"

lemma fresh_block_modify [simp]: "fresh_block (modify_state w t f) = fresh_block w"
  by (simp add: fresh_block_def)

lemma transaction_hosts:
  assumes tr: "in_transaction base refs t ev w"
    and wf: "registry_well_formed g" "charges_sound g"
    and same: "\<And>t. bound_count g t = bound_count (rw_hosts w) t"
      "\<And>t. bound_bytes g t = bound_bytes (rw_hosts w) t"
  shows "in_transaction base refs t ev (w\<lparr>rw_hosts := g\<rparr>)"
proof -
  obtain base' where acc: "accounted base' refs w" and rest: "\<And>u. u \<noteq> t \<Longrightarrow> base' u = base u"
    "refs t \<ge> 1" "int (ac_live ev) = base t + int (bound_bytes (rw_hosts w) t)"
    "ev_owner ev = t" "find_resource_state_locked w t \<noteq> None"
    using in_transactionE [OF tr] by metis
  have "accounted (\<lambda>t. base' t - 0) (\<lambda>t. refs t - 0) (w\<lparr>rw_hosts := g\<rparr>)"
    by (rule accounted_hosts [OF acc wf]) (simp_all add: same)
  then show ?thesis unfolding in_transaction_def using rest same by auto
qed

lemma transaction_well_formed:
  assumes "in_transaction base refs t ev w"
  shows "registry_well_formed (rw_hosts w)" "charges_sound (rw_hosts w)"
  using in_transactionE [OF assms] accountedD by metis+

lemma idle_null:
  assumes "registry_well_formed g"
  shows "r \<in> set (hr_buckets g b) \<Longrightarrow> \<not> is_buffer_at 0 r"
  using assms by (auto simp: registry_well_formed_def record_well_formed_def is_buffer_at_def)

lemma transaction_register:
  assumes tr: "in_transaction base refs t ev w"
    and fresh: "p \<notin> set (buffer_addresses (hr_buckets (rw_hosts w)
                  (host_allocation_bucket_index p)))"
    and reg: "register_host_allocation (rw_hosts w) a p n HP_buffer u 0 0 = (True, g)"
  shows "in_transaction base refs t ev (w\<lparr>rw_hosts := g\<rparr>)"
    "\<And>r. r \<in> set (hr_buckets g (host_allocation_bucket_index p)) \<Longrightarrow> is_buffer_at p r \<Longrightarrow>
        charge_of r = None"
proof -
  have g: "g = snd (register_host_allocation (rw_hosts w) a p n HP_buffer u 0 0)"
    by (simp add: reg)
  show "in_transaction base refs t ev (w\<lparr>rw_hosts := g\<rparr>)"
    unfolding g
    using register_keeps_well_formed [OF transaction_well_formed(1) [OF tr]]
      register_keeps_sound [OF transaction_well_formed(2) [OF tr] fresh]
      register_moves_no_charge
    by (intro transaction_hosts [OF tr]) auto
  fix r
  assume "r \<in> set (hr_buckets g (host_allocation_bucket_index p))" "is_buffer_at p r"
  moreover obtain new where "hr_buckets g (host_allocation_bucket_index p) =
      new # hr_buckets (rw_hosts w) (host_allocation_bucket_index p)" "charge_of new = None"
    using reg by (auto simp: register_host_allocation_def Let_def charge_of_def split: if_splits)
  ultimately show "charge_of r = None"
    using fresh by (auto simp: buffer_addresses_def is_buffer_at_def)
qed

lemma world_update_order:
  "w\<lparr>rw_host := h, rw_hosts := g\<rparr> = w\<lparr>rw_hosts := g, rw_host := h\<rparr>"
  by simp

lemma transaction_allocate_buffer:
  assumes tr: "in_transaction base refs t ev w" and fresh: "fresh_block w"
    and alloc: "allocate_host_buffer w element 0 n = (allocated, storage, w')"
  shows "in_transaction base refs t ev w'"
    "\<And>r. r \<in> set (hr_buckets (rw_hosts w') (host_allocation_bucket_index storage)) \<Longrightarrow>
        is_buffer_at storage r \<Longrightarrow> charge_of r = None"
proof -
  let ?p = "aligned_payload (rw_address w (malloc_calls (rw_host w))) (buffer_layout element)"
  have fresh': "?p \<notin> set (buffer_addresses (hr_buckets (rw_hosts w)
                  (host_allocation_bucket_index ?p)))"
    using fresh by (cases element) (simp_all add: fresh_block_def Let_def)
  have cases: "(\<exists>h. storage = 0 \<and> w' = w\<lparr>rw_host := h\<rparr>) \<or>
    (\<exists>h a n g. storage = ?p
        \<and> register_host_allocation (rw_hosts w) a ?p n HP_buffer (rw_identity w element) 0 0 =
            (True, g)
        \<and> w' = (w\<lparr>rw_hosts := g\<rparr>)\<lparr>rw_host := h\<rparr>)" (is "?none \<or> ?some")
  proof (cases "storage = 0")
    case True
    have "\<exists>h. w = w\<lparr>rw_host := h\<rparr>" by (rule exI [of _ "rw_host w"]) simp
    then have ?none
      using alloc True
      by (auto simp: allocate_host_buffer_def Let_def register_host_allocation_def
            split: if_splits prod.splits bool.splits)
    then show ?thesis ..
  next
    case False
    then have ?some
      using alloc
      by (auto simp: allocate_host_buffer_def Let_def world_update_order
            split: if_splits prod.splits bool.splits)
    then show ?thesis ..
  qed
  then show "in_transaction base refs t ev w'"
    using tr transaction_register(1) [OF tr fresh'] by auto
  fix r
  assume "r \<in> set (hr_buckets (rw_hosts w') (host_allocation_bucket_index storage))"
    "is_buffer_at storage r"
  then show "charge_of r = None"
    using cases idle_null [OF transaction_well_formed(1) [OF tr]]
      transaction_register(2) [OF tr fresh'] by auto
qed

lemma transaction_retain:
  assumes tr: "in_transaction base refs t ev w"
  shows "retain_accounting_owner w t = (True, modify_state w t add_reference)"
    "in_transaction base (refs(t := refs t + 1)) t ev (modify_state w t add_reference)"
proof -
  obtain base' s where acc: "accounted base' refs w" and rest: "\<And>u. u \<noteq> t \<Longrightarrow> base' u = base u"
    "refs t \<ge> 1" "int (ac_live ev) = base t + int (bound_bytes (rw_hosts w) t)"
    "ev_owner ev = t" and s: "find_resource_state_locked w t = Some s"
    using in_transactionE [OF tr] by (metis option.exhaust)
  have tok: "\<And>s. rs_token (add_reference s) = rs_token s" by (simp add: add_reference_def)
  show "retain_accounting_owner w t = (True, modify_state w t add_reference)"
    using s find_state_token [OF s] by (simp add: retain_accounting_owner_def)
  show "in_transaction base (refs(t := refs t + 1)) t ev (modify_state w t add_reference)"
    unfolding in_transaction_def
    using accounted_acquire [OF acc s] rest s by (auto simp: find_modify_state [OF tok])
qed

lemma transaction_bind:
  assumes tr: "in_transaction base (refs(t := refs t + 1)) t ev w" and pin: "refs t \<ge> 1"
    and bind: "bind_semantic_host_buffer (rw_hosts w) p u t n ord purpose rel = (True, g)"
  shows "in_transaction base refs t (ev\<lparr>ac_live := ac_live ev + n\<rparr>) (w\<lparr>rw_hosts := g\<rparr>)"
proof -
  obtain base' where acc: "accounted base' (refs(t := refs t + 1)) w"
    and rest: "\<And>u. u \<noteq> t \<Longrightarrow> base' u = base u"
    "int (ac_live ev) = base t + int (bound_bytes (rw_hosts w) t)"
    "ev_owner ev = t" "find_resource_state_locked w t \<noteq> None"
    using in_transactionE [OF tr] by metis
  have "accounted (base'(t := base' t - int n)) refs (w\<lparr>rw_hosts := g\<rparr>)"
    using accounted_bind [OF acc bind rest(4)] by simp
  then show ?thesis
    unfolding in_transaction_def
    using rest pin bind_moves_charge [OF bind, of t]
    by (auto intro!: exI [of _ "base'(t := base' t - int n)"])
qed

lemma transaction_allocate_tracked:
  assumes tr: "in_transaction base refs t ev w" and fresh: "fresh_block w"
    and alloc: "allocate_tracked_host_buffer w element n t bytes ordinal purpose =
                  (allocated, storage, w')"
  shows "in_transaction base refs t
           (if allocated = HR_none then ev\<lparr>ac_live := ac_live ev + bytes\<rparr> else ev) w'"
proof -
  obtain a st w1 where w1: "allocate_host_buffer w element 0 n = (a, st, w1)"
    by (cases "allocate_host_buffer w element 0 n")
  note step = transaction_allocate_buffer [OF tr fresh w1]
  show ?thesis
  proof (cases "a = HR_none")
    case False
    then show ?thesis using alloc w1 step(1) by (auto simp: allocate_tracked_host_buffer_def)
  next
    case True
    let ?w2 = "modify_state w1 t add_reference"
    obtain bound g where g: "bind_semantic_host_buffer (rw_hosts w1) st (rw_identity w1 element)
        t bytes ordinal purpose (rw_release w1) = (bound, g)"
      by (cases "bind_semantic_host_buffer (rw_hosts w1) st (rw_identity w1 element)
        t bytes ordinal purpose (rw_release w1)")
    have pin: "refs t \<ge> 1" using in_transactionE [OF tr] by metis
    note retain = transaction_retain [OF step(1)]
    have res: "(allocated, storage, w') =
        (if \<not> bound
         then (HR_allocation_unavailable, 0,
               release_host_buffer (release_accounting_owner ?w2 t) element st)
         else (HR_none, st, ?w2\<lparr>rw_hosts := g\<rparr>))"
      using alloc w1 True retain(1) g by (simp add: allocate_tracked_host_buffer_def)
    show ?thesis
    proof (cases bound)
      case True
      then show ?thesis
        using res transaction_bind [OF retain(2) pin, of st "rw_identity w1 element" bytes ordinal
            purpose "rw_release w1" g] g
        by simp
    next
      case False
      have "(refs(t := refs t + 1)) t \<ge> 2" using pin by simp
      note rel = transaction_release_owner [OF retain(2) this]
      have "(refs(t := refs t + 1))(t := (refs(t := refs t + 1)) t - 1) = refs" by auto
      note rel1 = rel(1) [unfolded this]
      have "in_transaction base refs t ev
          (release_host_buffer (release_accounting_owner ?w2 t) element st)"
        using rel1 step(2) by (intro transaction_release_buffer) (simp_all add: rel(2))
      then show ?thesis using False res by simp
    qed
  qed
qed

end
