(* ===== verification/ResourcesCorrect.thy ===== *)
theory ResourcesCorrect
  imports ResourceAccounts
begin

text \<open>
  Every operation on a context keeps the accounts exact, and so does every history of
  operations: the contract of an operation's body is a locale, interpreted on each operation of
  the model, and the reachable states of the process are closed under all of them.
\<close>

section \<open>Every operation keeps the accounts\<close>

text \<open>The contract of the body of an operation, and what follows for the operation: a body that
  keeps a transaction keeps the accounts exact, given that it is run with a state. A body that
  touches nothing when it has no state keeps them in any case.\<close>

locale context_operation =
  fixes body :: "resource_world \<Rightarrow> evaluation_resources \<Rightarrow> nat option
                   \<Rightarrow> 'r \<times> evaluation_resources \<times> resource_world"
    and enabled :: "nat \<Rightarrow> resource_world \<Rightarrow> bool"
  assumes keeps_transaction:
      "\<lbrakk>in_transaction base refs t ev w; base t \<ge> 0; enabled t w;
        body w ev (Some t) = (r, ev', w')\<rbrakk> \<Longrightarrow> in_transaction base refs t ev' w'"
    and enabled_modify: "enabled t (modify_state w u add_reference) = enabled t w"
begin

lemma keeps_accounts_with_state:
  assumes acc: "accounted base refs w" and pos: "base (ev_owner ev) \<ge> 0" "\<And>t. refs t \<ge> 0"
    and en: "enabled (ev_owner ev) w"
    and acq: "acquire_validated_resource_state w ev = (Some t, w1)"
    and run: "with_resource_state w ev body = (r, ev', w')"
  shows "accounted base refs w'"
proof -
  obtain r2 ev2 w2 where b: "body w1 (begin_resource_record_sync w1 ev (Some t)) (Some t) =
      (r2, ev2, w2)"
    using prod_cases3 by blast
  have w': "w' = release_acquired_resource_state (finish_resource_record_sync w2 ev2 (Some t))
      (Some t)"
    using run acq b by (auto simp: with_resource_state_def)
  have t: "ev_owner ev = t"
    using acq by (auto simp: acquire_validated_resource_state_def record_matches_state_def
        split: option.splits if_splits)
  note start = begin_transaction [OF acc pos(2) acq]
  have "in_transaction base (refs(t := refs t + 1)) t ev2 w2"
    using keeps_transaction [OF start(1) _ _ b] en pos(1) t
    by (simp add: start(2) enabled_modify)
  from end_transaction [OF this] show ?thesis by (simp add: w')
qed

end

locale refusing_operation = context_operation +
  assumes refused: "body w ev None = (r, ev', w') \<Longrightarrow> \<exists>h. w' = w\<lparr>rw_host := h\<rparr>"
begin

lemma keeps_accounts:
  assumes acc: "accounted base refs w" and pos: "base (ev_owner ev) \<ge> 0" "\<And>t. refs t \<ge> 0"
    and en: "enabled (ev_owner ev) w"
    and run: "with_resource_state w ev body = (r, ev', w')"
  shows "accounted base refs w'"
proof (cases "acquire_validated_resource_state w ev")
  case (Pair state w1)
  show ?thesis
  proof (cases state)
    case None
    then have "w1 = w" using Pair by (auto simp: acquire_validated_resource_state_def
          split: option.splits if_splits)
    then show ?thesis
      using acc None Pair run refused
      by (auto simp: with_resource_state_def release_acquired_resource_state_def
          finish_resource_record_sync_def split: prod.splits dest!: refused)
  next
    case (Some t)
    then show ?thesis using keeps_accounts_with_state [OF acc pos en _ run] Pair by simp
  qed
qed

end

section \<open>The operations\<close>

lemma name_producer_frame:
  "name_producer w e name = (e', w') \<Longrightarrow> \<exists>h. w' = w\<lparr>rw_host := h\<rparr>"
  by (auto simp: name_producer_def split: if_splits prod.splits
      intro: exI [of _ "rw_host w"] exI [of _ "_ :: host_state"])

lemma make_resource_failure_frame:
  "make_resource_failure w l name c = (e, w') \<Longrightarrow> \<exists>h. w' = w\<lparr>rw_host := h\<rparr>"
  by (auto simp: make_resource_failure_def split: prod.splits dest!: name_producer_frame)

lemma make_unsupported_tuple_profile_frame:
  "make_unsupported_tuple_profile w ev l name = (e, w') \<Longrightarrow> \<exists>h. w' = w\<lparr>rw_host := h\<rparr>"
  by (auto simp: make_unsupported_tuple_profile_def split: prod.splits dest!: name_producer_frame)

lemma validate_profile_frame:
  assumes "validate_profile_configuration_locked w ev state l name = (e, w')"
  shows "\<exists>h. w' = w\<lparr>rw_host := h\<rparr>" "e = None \<Longrightarrow> w' = w" "state = None \<Longrightarrow> e \<noteq> None"
  using assms
  by (auto simp: validate_profile_configuration_locked_def split: if_splits prod.splits option.splits
      dest!: name_producer_frame make_resource_failure_frame intro: exI [of _ "rw_host w"])

lemma validate_tuple_profile_frame:
  assumes "validate_tuple_profile_locked w ev state l name = (e, w')"
  shows "\<exists>h. w' = w\<lparr>rw_host := h\<rparr>" "e = None \<Longrightarrow> w' = w" "state = None \<Longrightarrow> e \<noteq> None"
proof -
  obtain e1 w1 where v: "validate_profile_configuration_locked w ev state l name = (e1, w1)"
    by (cases "validate_profile_configuration_locked w ev state l name")
  note frame = validate_profile_frame [OF v]
  show "\<exists>h. w' = w\<lparr>rw_host := h\<rparr>"
    using assms v frame(1)
    by (auto simp: validate_tuple_profile_locked_def split: if_splits prod.splits option.splits
        dest!: make_unsupported_tuple_profile_frame)
  show "w' = w" if "e = None"
    using assms v frame that
    by (auto simp: validate_tuple_profile_locked_def split: if_splits prod.splits option.splits)
  show "e \<noteq> None" if "state = None"
    using assms v frame(3) that
    by (auto simp: validate_tuple_profile_locked_def split: if_splits prod.splits option.splits)
qed

lemma preflight_frame:
  assumes "preflight w ev vb live work l name re rb = (res, w')"
  shows "\<exists>h. w' = w\<lparr>rw_host := h\<rparr>"
    "res = Inr after \<Longrightarrow> w' = w \<and> after = (ac_live ev + live, ac_work ev + work)"
  using assms
  by (auto simp: preflight_def admission_def Let_def split: if_splits prod.splits sum.splits
      dest!: make_resource_failure_frame intro: exI [of _ "rw_host w"])

lemma in_transaction_cong:
  assumes "in_transaction base refs t ev w" "ac_live ev' = ac_live ev" "ev_owner ev' = ev_owner ev"
  shows "in_transaction base refs t ev' w"
  using assms by (simp add: in_transaction_def)

lemma transaction_failure:
  assumes "in_transaction base refs t ev w" "make_resource_failure w l name c = (e, w')"
  shows "in_transaction base refs t ev w'"
  using make_resource_failure_frame [OF assms(2)] assms(1) by auto

lemma transaction_owner: "in_transaction base refs t ev w \<Longrightarrow> ev_owner ev = t"
  by (simp add: in_transaction_def)

lemma transaction_reserve:
  assumes tr: "in_transaction base refs t ev w" and fresh: "fresh_block w"
    and res: "reserve_storage w ev element n bytes purpose re l name after = (r, ev', w')"
    and after: "fst after = ac_live ev + bytes"
  shows "in_transaction base refs t ev' w'"
proof -
  let ?ev = "ev\<lparr>ac_ordinal := ac_ordinal ev + 1\<rparr>"
  have tr1: "in_transaction base refs t ?ev w" by (rule in_transaction_cong [OF tr]) simp_all
  obtain allocated storage w1 where alloc: "allocate_tracked_host_buffer w element n t bytes
      (ac_ordinal ev) purpose = (allocated, storage, w1)"
    using prod_cases3 by blast
  note tracked = transaction_allocate_tracked [OF tr1 fresh alloc]
  have commit: "in_transaction base refs t (commit_admission ?ev after) w1"
    if "allocated = HR_none"
  proof -
    have "in_transaction base refs t (?ev\<lparr>ac_live := ac_live ?ev + bytes\<rparr>) w1"
      using tracked that by simp
    then show ?thesis
      by (rule in_transaction_cong) (simp_all add: commit_admission_def after)
  qed
  have failure: "in_transaction base refs t ev2 w3"
    if "(r, ev', w') = (case make_resource_failure w2 l name c of (e, w) \<Rightarrow> (Inl e, ev2, w))"
      "in_transaction base refs t ev2 w2" "w3 = w'" for c ev2 w2 w3
    using that transaction_failure [OF that(2)] by (auto split: prod.splits)
  have ev': "ev' = ev2"
    if "(r, ev', w') = (case make_resource_failure w2 l name c of (e, w) \<Rightarrow> (Inl e, ev2, w))"
    for c ev2 w2
    using that by (auto split: prod.splits)
  have owner: "ev_owner ev = t" by (rule transaction_owner [OF tr])
  consider (full) "ac_ordinal ev = size_max"
    | (injected) "ac_ordinal ev \<noteq> size_max" "ac_fail_at ev = Some (ac_ordinal ev)"
    | (refused) "ac_ordinal ev \<noteq> size_max" "ac_fail_at ev \<noteq> Some (ac_ordinal ev)"
        "allocated \<noteq> HR_none"
    | (granted) "ac_ordinal ev \<noteq> size_max" "ac_fail_at ev \<noteq> Some (ac_ordinal ev)"
        "allocated = HR_none"
    by blast
  then show ?thesis
  proof cases
    case full
    then have run: "(r, ev', w') = (case make_resource_failure w l name
        (plain_context (execution_profile_name (ac_profile ev)) RE_size_overflow re
           (Some bytes)) of (e, w) \<Rightarrow> (Inl e, ev, w))"
      unfolding res [symmetric] by (simp add: reserve_storage_def Let_def)
    show ?thesis using failure [OF run tr refl] ev' [OF run] by simp
  next
    case injected
    then have run: "(r, ev', w') = (case make_resource_failure w l name
        ((plain_context (execution_profile_name (ac_profile ev)) RE_allocation_unavailable re
           (Some bytes))\<lparr>rx_allocation_ordinal := Some (ac_ordinal ev)\<rparr>) of
        (e, w) \<Rightarrow> (Inl e, ?ev, w))"
      unfolding res [symmetric] by (simp add: reserve_storage_def Let_def)
    show ?thesis using failure [OF run tr1 refl] ev' [OF run] by simp
  next
    case refused
    then have run: "(r, ev', w') = (case make_resource_failure w1 l name
        ((plain_context (execution_profile_name (ac_profile ev))
            (if allocated = HR_size_overflow then RE_size_overflow else RE_allocation_unavailable)
            re (Some bytes))\<lparr>rx_allocation_ordinal := Some (ac_ordinal ev)\<rparr>) of
        (e, w) \<Rightarrow> (Inl e, ?ev, w))"
      unfolding res [symmetric] using alloc owner by (simp add: reserve_storage_def Let_def)
    show ?thesis using failure [OF run _ refl] tracked refused ev' [OF run] by simp
  next
    case granted
    then have "(r, ev', w') = (Inr (storage, ac_ordinal ev), commit_admission ?ev after, w1)"
      unfolding res [symmetric] using alloc owner by (simp add: reserve_storage_def Let_def)
    then show ?thesis using commit granted by simp
  qed
qed

lemma transaction_validate:
  assumes "in_transaction base refs t ev w"
    and "validate_profile_configuration_locked w ev state l name = (e, w')"
  shows "in_transaction base refs t ev w'"
  using validate_profile_frame(1) [OF assms(2)] assms(1) by auto

lemma transaction_preflight:
  assumes "in_transaction base refs t ev w"
    and "preflight w ev vb live work l name re rb = (res, w')"
  shows "in_transaction base refs t ev w'"
  using preflight_frame(1) [OF assms(2)] assms(1) by auto

lemma transaction_commit:
  assumes "in_transaction base refs t ev w" "fst after = ac_live ev"
  shows "in_transaction base refs t (commit_admission ev after) w"
  by (rule in_transaction_cong [OF assms(1)]) (simp_all add: commit_admission_def assms(2))

definition always :: "nat \<Rightarrow> resource_world \<Rightarrow> bool" where
  "always t w = True"

definition fresh_for :: "nat \<Rightarrow> resource_world \<Rightarrow> bool" where
  "fresh_for t w = fresh_block w"

interpretation work: refusing_operation "charge_work_locked amount l name" always
proof (unfold_locales, goal_cases)
  case (1 base refs t ev w r ev' w')
  obtain e w1 where v: "validate_profile_configuration_locked w ev (Some t) l name = (e, w1)"
    by (cases "validate_profile_configuration_locked w ev (Some t) l name")
  obtain res w2 where p: "preflight w1 ev None 0 amount l name None None = (res, w2)"
    by (cases "preflight w1 ev None 0 amount l name None None")
  note tr1 = transaction_validate [OF 1(1) v]
  note tr2 = transaction_preflight [OF tr1 p]
  show ?case
    using 1(4) v p tr1 tr2 preflight_frame(2) [OF p]
    by (auto simp: charge_work_locked_def split: option.splits sum.splits
        intro!: transaction_commit)
next
  case (3 w ev r ev' w')
  then show ?case
    using validate_profile_frame [of w ev None l name]
    by (cases "validate_profile_configuration_locked w ev None l name")
       (auto simp: charge_work_locked_def split: option.splits)
qed (simp add: always_def)

interpretation vectors:
  refusing_operation "allocate_vector_locked element_type n amount l name" fresh_for
proof (unfold_locales, goal_cases)
  case (1 base refs t ev w r ev' w')
  obtain e w1 where v: "validate_profile_configuration_locked w ev (Some t) l name = (e, w1)"
    by (cases "validate_profile_configuration_locked w ev (Some t) l name")
  note tr1 = transaction_validate [OF 1(1) v]
  let ?c = "\<lambda>x. plain_context (execution_profile_name (ac_profile ev)) RE_size_overflow x None"
  consider (refused) err where "e = Some err"
    | (too_many) "e = None" "n > size_max"
    | (too_big) "e = None" "\<not> n > size_max"
        "case element_width element_type of None \<Rightarrow> True | Some width \<Rightarrow> n > size_max div width"
    | (sized) width where "e = None" "\<not> n > size_max" "element_width element_type = Some width"
        "\<not> n > size_max div width"
    by (cases e; cases "element_width element_type"; cases "n > size_max") auto
  then show ?case
  proof cases
    case refused
    then show ?thesis using 1(4) v tr1 by (simp add: allocate_vector_locked_def)
  next
    case too_many
    obtain err w2 where f: "make_resource_failure w1 l name (?c None) = (err, w2)"
      by (cases "make_resource_failure w1 l name (?c None)")
    show ?thesis
      using 1(4) v too_many f transaction_failure [OF tr1 f]
      by (simp add: allocate_vector_locked_def)
  next
    case too_big
    obtain err w2 where f: "make_resource_failure w1 l name (?c (Some n)) = (err, w2)"
      by (cases "make_resource_failure w1 l name (?c (Some n))")
    show ?thesis
      using 1(4) v too_big f transaction_failure [OF tr1 f]
      by (simp add: allocate_vector_locked_def)
  next
    case sized
    note e = sized(1,2) and width = sized(3,4)
    let ?b = "n * width"
    obtain res w2 where p: "preflight w1 ev (Some ?b) ?b amount l name (Some n) (Some ?b) =
        (res, w2)"
      by (cases "preflight w1 ev (Some ?b) ?b amount l name (Some n) (Some ?b)")
    note tr2 = transaction_preflight [OF tr1 p]
    have run: "(r, ev', w') = (case res of
        Inl e \<Rightarrow> (vector_allocation_failure e, ev, w2)
      | Inr after \<Rightarrow>
          if ?b = 0 then (vector_allocated (empty_vector element_type),
                          commit_admission ev after, w2)
          else case reserve_storage w2 ev (payload_element element_type) n ?b SP_vector_payload
                      (Some n) l name after of
                 (Inl e, ev, w) \<Rightarrow> (vector_allocation_failure e, ev, w)
               | (Inr (storage, ordinal), ev, w) \<Rightarrow>
                   (vector_allocated (charged_vector element_type storage n ?b (ev_owner ev)
                      ordinal), ev, w))"
      unfolding 1(4) [symmetric] using v width e p
      by (simp add: allocate_vector_locked_def Let_def)
    show ?thesis
    proof (cases res)
      case (Inl err)
      then show ?thesis using run tr2 by simp
    next
      case (Inr after)
      have w2: "w2 = w" and after: "fst after = ac_live ev + ?b"
        using preflight_frame(2) [OF p Inr] validate_profile_frame(2) [OF v e(1)] by simp_all
      have fresh: "fresh_block w2" using 1(3) w2 by (simp add: fresh_for_def)
      obtain x ev2 w3 where rs: "reserve_storage w2 ev (payload_element element_type) n ?b
          SP_vector_payload (Some n) l name after = (x, ev2, w3)"
        using prod_cases3 by blast
      note tr3 = transaction_reserve [OF tr2 fresh rs after]
      show ?thesis
      proof (cases "?b = 0")
        case True
        then show ?thesis using run Inr transaction_commit [OF tr2] after by auto
      next
        case False
        then show ?thesis using run Inr tr3 rs by (cases x) (auto split: prod.splits)
      qed
    qed
  qed
next
  case (3 w ev r ev' w')
  then show ?case
    using validate_profile_frame [of w ev None l name]
    by (cases "validate_profile_configuration_locked w ev None l name")
       (auto simp: allocate_vector_locked_def split: option.splits)
qed (simp add: fresh_for_def)

interpretation workspaces:
  refusing_operation "reserve_workspace_locked bytes amount l name" fresh_for
proof (unfold_locales, goal_cases)
  case (1 base refs t ev w r ev' w')
  obtain e w1 where v: "validate_profile_configuration_locked w ev (Some t) l name = (e, w1)"
    by (cases "validate_profile_configuration_locked w ev (Some t) l name")
  obtain res w2 where p: "preflight w1 ev None bytes amount l name None (Some bytes) = (res, w2)"
    by (cases "preflight w1 ev None bytes amount l name None (Some bytes)")
  note tr1 = transaction_validate [OF 1(1) v]
  note tr2 = transaction_preflight [OF tr1 p]
  consider (invalid) err where "e = Some err" | (refused) err where "e = None" "res = Inl err"
    | (empty) after where "e = None" "res = Inr after" "bytes = 0"
    | (sized) after where "e = None" "res = Inr after" "bytes \<noteq> 0"
    by (cases e; cases res) auto
  then show ?case
  proof cases
    case (sized after)
    have w2: "w2 = w" and after: "fst after = ac_live ev + bytes"
      using preflight_frame(2) [OF p sized(2)] validate_profile_frame(2) [OF v sized(1)] by simp_all
    have fresh: "fresh_block w2" using 1(3) w2 by (simp add: fresh_for_def)
    obtain x ev2 w3 where rs: "reserve_storage w2 ev BE_byte bytes bytes SP_workspace None l name
        after = (x, ev2, w3)"
      using prod_cases3 by blast
    show ?thesis
      using 1(4) v p sized rs transaction_reserve [OF tr2 fresh rs after]
      by (cases x) (auto simp: reserve_workspace_locked_def split: prod.splits)
  next
    case (empty after)
    then show ?thesis
      using 1(4) v p tr2 preflight_frame(2) [OF p empty(2)]
      by (auto simp: reserve_workspace_locked_def intro!: transaction_commit)
  qed (use 1(4) v p tr1 tr2 in \<open>auto simp: reserve_workspace_locked_def\<close>)
next
  case (3 w ev r ev' w')
  then show ?case
    using validate_profile_frame [of w ev None l name]
    by (cases "validate_profile_configuration_locked w ev None l name")
       (auto simp: reserve_workspace_locked_def split: option.splits)
qed (simp add: fresh_for_def)

interpretation tables: refusing_operation "reserve_tuple_table_locked n l name" fresh_for
proof (unfold_locales, goal_cases)
  case (1 base refs t ev w r ev' w')
  let ?b = "n * 16"
  let ?over = "plain_context (execution_profile_name (ac_profile ev)) RE_size_overflow (Some n) None"
  let ?lim = "limit_context ev (Some n) (Some ?b) RL_max_tuple_table_bytes
                (lm_max_tuple_table_bytes (ac_limits ev)) 0 ?b"
  obtain e w1 where v: "validate_tuple_profile_locked w ev (Some t) l name = (e, w1)"
    by (cases "validate_tuple_profile_locked w ev (Some t) l name")
  obtain err1 w1a where f1: "make_resource_failure w1 l name ?over = (err1, w1a)"
    by (cases "make_resource_failure w1 l name ?over")
  obtain err2 w1b where f2: "make_resource_failure w1 l name ?lim = (err2, w1b)"
    by (cases "make_resource_failure w1 l name ?lim")
  obtain res w2 where p: "preflight w1 ev None ?b 0 l name (Some n) (Some ?b) = (res, w2)"
    by (cases "preflight w1 ev None ?b 0 l name (Some n) (Some ?b)")
  have tr1: "in_transaction base refs t ev w1"
    using validate_tuple_profile_frame(1) [OF v] 1(1) by auto
  note tr2 = transaction_preflight [OF tr1 p]
  note failed = transaction_failure [OF tr1 f1] transaction_failure [OF tr1 f2]
  consider (invalid) err where "e = Some err"
    | (big) "e = None" "n > size_max div 16"
    | (limit) "e = None" "\<not> n > size_max div 16"
        "exceeds ?b (lm_max_tuple_table_bytes (ac_limits ev))"
    | (refused) err where "e = None" "\<not> n > size_max div 16"
        "\<not> exceeds ?b (lm_max_tuple_table_bytes (ac_limits ev))" "res = Inl err"
    | (empty) after where "e = None" "\<not> n > size_max div 16"
        "\<not> exceeds ?b (lm_max_tuple_table_bytes (ac_limits ev))" "res = Inr after" "?b = 0"
    | (sized) after where "e = None" "\<not> n > size_max div 16"
        "\<not> exceeds ?b (lm_max_tuple_table_bytes (ac_limits ev))" "res = Inr after" "?b \<noteq> 0"
    by (cases e; cases res) blast+
  then show ?case
  proof cases
    case (sized after)
    have w2: "w2 = w" and after: "fst after = ac_live ev + ?b"
      using preflight_frame(2) [OF p sized(4)] validate_tuple_profile_frame(2) [OF v sized(1)]
      by simp_all
    have fresh: "fresh_block w2" using 1(3) w2 by (simp add: fresh_for_def)
    obtain x ev2 w3 where rs: "reserve_storage w2 ev BE_byte ?b ?b SP_tuple_table (Some n) l name
        after = (x, ev2, w3)"
      using prod_cases3 by blast
    show ?thesis
      using 1(4) v p sized rs transaction_reserve [OF tr2 fresh rs after]
      by (cases x) (auto simp: reserve_tuple_table_locked_def Let_def split: prod.splits)
  next
    case (empty after)
    then show ?thesis
      using 1(4) v p tr2 preflight_frame(2) [OF p empty(4)]
      by (auto simp: reserve_tuple_table_locked_def Let_def intro!: transaction_commit)
  qed (use 1(4) v p f1 f2 tr1 tr2 failed in
      \<open>auto simp: reserve_tuple_table_locked_def Let_def\<close>)
next
  case (3 w ev r ev' w')
  then show ?case
    using validate_tuple_profile_frame [of w ev None l name]
    by (cases "validate_tuple_profile_locked w ev None l name")
       (auto simp: reserve_tuple_table_locked_def split: option.splits)
qed (simp add: fresh_for_def)

interpretation workspace_release: context_operation "release_workspace_locked r" always
proof (unfold_locales, goal_cases)
  case (1 base refs t ev w x ev' w')
  have owner: "ev_owner ev = t" by (rule transaction_owner [OF 1(1)])
  obtain consumed w1 where con: "consume_allocation_binding w (wk_storage r) (wk_owner r)
      (wk_bytes r) (wk_ordinal r) SP_workspace = (consumed, w1)"
    by (cases "consume_allocation_binding w (wk_storage r) (wk_owner r) (wk_bytes r)
          (wk_ordinal r) SP_workspace")
  have same: "\<not> consumed \<Longrightarrow> w1 = w"
    using con by (auto simp: consume_allocation_binding_def consume_semantic_host_buffer_def Let_def
        split: if_splits option.splits prod.splits)
  show ?case
  proof (cases "wk_owner r = t \<and> consumed")
    case True
    have c: "consume_allocation_binding w (wk_storage r) t (wk_bytes r) (wk_ordinal r)
        SP_workspace = (True, w1)" using con True by simp
    show ?thesis
      using 1(4) con True owner 1(1) transaction_consume_release(1) [OF 1(1,2) c]
        transaction_consume_release(2) [OF 1(1,2) c, of BE_byte]
      by (auto simp: release_workspace_locked_def split: if_splits)
  next
    case False
    then show ?thesis
      using 1(4) con owner 1(1) same by (auto simp: release_workspace_locked_def split: if_splits)
  qed
qed (simp add: always_def)

text \<open>The owner an operation on a value may name is checked before the operation begins.\<close>

definition table_owner_checked :: "tuple_table_reservation \<Rightarrow> nat \<Rightarrow> resource_world \<Rightarrow> bool" where
  "table_owner_checked r t w \<longleftrightarrow>
     tr_canonical_bytes r \<noteq> 0 \<and> tr_accounting_owner r = t
     \<or> tr_canonical_bytes r = 0 \<and> tr_accounting_owner r = 0 \<and> bf_address (tr_storage r) = 0"

definition vector_owner_checked :: "bennu_value \<Rightarrow> nat \<Rightarrow> resource_world \<Rightarrow> bool" where
  "vector_owner_checked value t w \<longleftrightarrow>
     (let v = va_vector value
      in vv_accounting_active v \<and> vv_accounting_owner v = t \<and> vv_canonical_bytes v \<noteq> 0
           \<and> (\<exists>width. element_width (vv_element_type v) = Some width
                \<and> active_vector_length v \<le> size_max div width
                \<and> active_vector_length v * width = vv_canonical_bytes v)
         \<or> \<not> vv_accounting_active v \<and> vv_accounting_owner v = 0
           \<and> (vv_canonical_bytes v = 0 \<longrightarrow> vector_storage v = 0))"


lemma release_nothing [simp]:
  "release_accounting_owner w 0 = w" "release_host_buffer w element 0 = w"
  by (simp_all add: release_accounting_owner_def find_resource_state_locked_def
      release_host_buffer_def)

lemma consume_refused:
  "consume_allocation_binding w p owner n ord u = (False, w') \<Longrightarrow> w' = w"
  by (auto simp: consume_allocation_binding_def consume_semantic_host_buffer_def Let_def
      split: if_splits option.splits prod.splits)

interpretation table_release:
  context_operation "release_tuple_table_locked r" "table_owner_checked r"
proof (unfold_locales, goal_cases)
  case (1 base refs t ev w x ev' w')
  let ?n = "tr_canonical_bytes r"
  obtain consumed w1 where con: "consume_allocation_binding w (bf_address (tr_storage r))
      (tr_accounting_owner r) ?n (tr_allocation_ordinal r) SP_tuple_table = (consumed, w1)"
    by (cases "consume_allocation_binding w (bf_address (tr_storage r)) (tr_accounting_owner r)
          ?n (tr_allocation_ordinal r) SP_tuple_table")
  consider (empty) "?n = 0" | (refused) "?n \<noteq> 0" "\<not> consumed" | (given) "?n \<noteq> 0" consumed
    by blast
  then show ?case
  proof cases
    case empty
    then show ?thesis
      using 1 by (auto simp: release_tuple_table_locked_def table_owner_checked_def Let_def
          intro: in_transaction_cong)
  next
    case refused
    then show ?thesis
      using 1(1,4) con
      by (auto simp: release_tuple_table_locked_def Let_def dest: consume_refused)
  next
    case given
    then have c: "consume_allocation_binding w (bf_address (tr_storage r)) t ?n
        (tr_allocation_ordinal r) SP_tuple_table = (True, w1)"
      and owner: "tr_accounting_owner r = t"
      using con 1(3) by (auto simp: table_owner_checked_def)
    show ?thesis
      using 1(4) c owner given transaction_consume_release(1) [OF 1(1,2) c]
        transaction_consume_release(2) [OF 1(1,2) c, of BE_byte]
      by (auto simp: release_tuple_table_locked_def Let_def)
  qed
qed (simp add: table_owner_checked_def)

interpretation vector_release:
  context_operation "release_vector_locked value" "vector_owner_checked value"
proof (unfold_locales, goal_cases)
  case (1 base refs t ev w x ev' w')
  let ?v = "va_vector value"
  let ?n = "vv_canonical_bytes ?v"
  have ev: "ev_owner ev = t" by (rule transaction_owner [OF 1(1)])
  obtain consumed w1 where con: "consume_allocation_binding w (vector_storage ?v)
      (vv_accounting_owner ?v) ?n (vv_allocation_ordinal ?v) SP_vector_payload = (consumed, w1)"
    by (cases "consume_allocation_binding w (vector_storage ?v) (vv_accounting_owner ?v) ?n
          (vv_allocation_ordinal ?v) SP_vector_payload")
  consider (inactive) "\<not> vv_accounting_active ?v" "vv_accounting_owner ?v = 0" "?n = 0"
      "vector_storage ?v = 0"
    | (unowned) "\<not> vv_accounting_active ?v" "vv_accounting_owner ?v = 0" "?n \<noteq> 0"
    | (refused) "?n \<noteq> 0" "\<not> consumed"
    | (given) width where "vv_accounting_active ?v" "vv_accounting_owner ?v = t" "?n \<noteq> 0"
        "element_width (vv_element_type ?v) = Some width"
        "active_vector_length ?v \<le> size_max div width" "active_vector_length ?v * width = ?n"
        consumed
    using 1(3) by (auto simp: vector_owner_checked_def Let_def)
  then show ?case
  proof cases
    case inactive
    then show ?thesis
      using 1(1,4) by (auto simp: release_vector_locked_def Let_def split: option.splits)
  next
    case unowned
    then have "\<not> consumed"
      using con by (auto simp: consume_allocation_binding_def consume_semantic_host_buffer_def
          split: option.splits prod.splits)
    then show ?thesis
      using 1(1,4) con unowned
      by (auto simp: release_vector_locked_def Let_def dest: consume_refused)
  next
    case refused
    then show ?thesis
      using 1(1,4) con by (auto simp: release_vector_locked_def Let_def dest: consume_refused)
  next
    case given
    then have c: "consume_allocation_binding w (vector_storage ?v) t ?n
        (vv_allocation_ordinal ?v) SP_vector_payload = (True, w1)"
      using con by simp
    show ?thesis
      using 1(4) c ev given transaction_consume_release(1) [OF 1(1,2) c]
        transaction_consume_release(2) [OF 1(1,2) c, of "payload_element (vv_element_type ?v)"]
      by (auto simp: release_vector_locked_def Let_def)
  qed
qed (simp add: vector_owner_checked_def)

section \<open>Contexts and abandoned buffers\<close>

lemma accounted_pin_release:
  assumes acc: "accounted base refs w" and pos: "\<And>t. refs t \<ge> 0"
    and acq: "acquire_validated_resource_state w ev = (Some t, w1)"
    and keep: "accounted base (refs(t := refs t + 1)) w2"
      "find_resource_state_locked w2 t \<noteq> None"
  shows "accounted base refs (release_acquired_resource_state w2 (Some t))"
  using accounted_release [OF keep(1), of t] keep(2) pos [of t]
  by (auto simp: release_acquired_resource_state_def)

lemma acquired:
  assumes acc: "accounted base refs w"
    and acq: "acquire_validated_resource_state w ev = (Some t, w1)"
  shows "accounted base (refs(t := refs t + 1)) w1" "find_resource_state_locked w1 t \<noteq> None"
proof -
  obtain s where s: "find_resource_state_locked w t = Some s"
    and w1: "w1 = modify_state w t add_reference"
    using acq by (auto simp: acquire_validated_resource_state_def record_matches_state_def
        split: option.splits if_splits dest: find_state_token)
  have tok: "\<And>s. rs_token (add_reference s) = rs_token s" by (simp add: add_reference_def)
  show "accounted base (refs(t := refs t + 1)) w1" "find_resource_state_locked w1 t \<noteq> None"
    using accounted_acquire [OF acc s] s by (simp_all add: w1 find_modify_state [OF tok])
qed

lemma accounted_make:
  assumes acc: "accounted base refs w" and zero: "\<And>t. refs t = 0"
    and make: "make_resource_record w profile limits fail live work ord = (ev, w')"
  shows "accounted (base(ev_owner ev := int live)) refs w'"
proof -
  obtain granted h where h: "malloc (rw_host w) resource_state_size = (granted, h)"
    by (cases "malloc (rw_host w) resource_state_size")
  have none: "find_resource_state_locked v 0 = None" for v
    by (simp add: find_resource_state_locked_def)
  show ?thesis
  proof (cases "granted \<and> rw_next_token w \<noteq> 0")
    case False
    then have "ev_owner ev = 0 \<and> w' = w\<lparr>rw_host := h\<rparr>"
      using make h by (cases w) (auto simp: make_resource_record_def
          issue_resource_token_locked_def failed_resources_def split: bool.splits)
    moreover have "accounted (base(0 := int live)) refs w"
      using acc none unfolding accounted_def by auto
    ultimately show ?thesis by auto
  next
    case True
    let ?t = "rw_next_token w"
    let ?b = "resource_registry_bucket ?t"
    let ?s = "\<lparr>ac_profile = profile, ac_limits = limits, ac_creation_error = HR_none,
               ac_fail_at = fail, ac_live = live, ac_work = work, ac_ordinal = ord,
               ac_version = 1, rs_references = 1, rs_context_active = True, rs_token = ?t\<rparr>"
    let ?next = "if ?t = token_max then 0 else ?t + 1"
    have w': "w' = set_states (w\<lparr>rw_host := h, rw_next_token := ?next\<rparr>) ?b (?s # rw_states w ?b)"
      and ev: "ev_owner ev = ?t"
      using make h True
      by (auto simp: make_resource_record_def issue_resource_token_locked_def Let_def
          failed_resources_def copy_accounting_def)
    have wf: "states_well_formed w" by (rule accountedD(1) [OF acc])
    have unused: "\<forall>s \<in> set (rw_states w ?b). rs_token s \<noteq> ?t"
      using wf True unfolding states_well_formed_def by fastforce
    then have fresh: "find_resource_state_locked w ?t = None"
      by (auto simp: find_resource_state_locked_def find_None_iff has_token_def)
    have find': "find_resource_state_locked w' u =
        (if u = ?t then Some ?s else find_resource_state_locked w u)" for u
      using True by (auto simp: w' find_resource_state_locked_def set_states_def has_token_def)
    have wf': "states_well_formed w'"
      using wf unused True
      unfolding w' states_well_formed_def set_states_def resource_registry_bucket_def
      by (auto simp: image_iff token_max_def; metis less_SucI not_less_eq)
    have "bound_count (rw_hosts w) ?t = 0" using accountedD(5) [OF acc, of ?t] fresh by auto
    then have "bound_bytes (rw_hosts w) ?t = 0" "bound_count (rw_hosts w) ?t = 0"
      by (simp_all add: no_charges_no_bytes)
    moreover have "rw_hosts w' = rw_hosts w" by (simp add: w' set_states_def)
    ultimately show ?thesis
      using accountedD(2-5) [OF acc] zero wf' unfolding accounted_def find' ev by auto
  qed
qed

lemma accounted_close:
  assumes acc: "accounted base refs w" and pos: "\<And>t. refs t \<ge> 0"
    and run: "release_evaluation_resources w ev = (ev', w')"
  shows "accounted base refs w'"
proof (cases "w' = w")
  case False
  let ?f = "\<lambda>s. drop_reference (deactivate_context (add_reference s))"
  have tok: "\<And>s. rs_token (?f s) = rs_token s"
    by (simp add: drop_reference_def deactivate_context_def add_reference_def)
  let ?t = "ev_owner ev"
  obtain s where s: "find_resource_state_locked w ?t = Some s"
    using run False by (auto simp: release_evaluation_resources_def split: option.splits)
  then have act: "rs_context_active s"
    and w': "w' = release_acquired_resource_state (modify_state w ?t ?f) (Some ?t)"
    using run False find_state_token [OF s]
    by (auto simp: release_evaluation_resources_def split: if_splits)
  have f: "?f = deactivate_context"
    by (simp add: fun_eq_iff drop_reference_def deactivate_context_def add_reference_def)
  have find': "find_resource_state_locked (modify_state w ?t ?f) u =
      (if u = ?t then Some (deactivate_context s) else find_resource_state_locked w u)" for u
    using s unfolding f by (simp add: find_modify_state deactivate_context_def)
  have "accounted base (refs(?t := refs ?t + 1)) (modify_state w ?t ?f)"
    unfolding accounted_def find'
    using accountedD [OF acc] s act states_well_formed_modify [OF accountedD(1) [OF acc] tok]
    by (auto simp: deactivate_context_def)
  then show ?thesis
    using accounted_release [of base "refs(?t := refs ?t + 1)" "modify_state w ?t ?f" ?t] s pos [of ?t]
    by (simp add: w' release_acquired_resource_state_def find')
qed (use acc in simp)

lemma accounted_move:
  assumes acc: "accounted base refs w" and pos: "\<And>t. refs t \<ge> 0"
    and run: "move_evaluation_resources w ev = (moved, ev', w')"
  shows "accounted base refs w'"
proof (cases "acquire_validated_resource_state w ev")
  case (Pair state w1)
  show ?thesis
  proof (cases state)
    case None
    then show ?thesis using run Pair acc
      by (auto simp: move_evaluation_resources_def acquire_validated_resource_state_def
          split: option.splits if_splits)
  next
    case (Some t)
    then show ?thesis
      using run Pair acquired [OF acc] accounted_pin_release [OF acc pos]
      by (auto simp: move_evaluation_resources_def)
  qed
qed

lemma accounted_refresh:
  assumes acc: "accounted base refs w" and pos: "\<And>t. refs t \<ge> 0"
    and run: "refresh_evaluation_resources w ev = (ok, ev', w')"
  shows "accounted base refs w'"
proof (cases "acquire_validated_resource_state w ev")
  case (Pair state w1)
  show ?thesis
  proof (cases state)
    case None
    then show ?thesis using run Pair acc
      by (auto simp: refresh_evaluation_resources_def acquire_validated_resource_state_def
          split: option.splits if_splits)
  next
    case (Some t)
    then show ?thesis
      using run Pair acquired [OF acc] accounted_pin_release [OF acc pos]
      by (auto simp: refresh_evaluation_resources_def)
  qed
qed

lemma accounted_configure:
  assumes acc: "accounted base refs w" and pos: "\<And>t. refs t \<ge> 0"
    and run: "update_evaluation_resource_configuration w ev = (result, ev', w')"
  shows "accounted base refs w'"
proof (cases "acquire_validated_resource_state w ev")
  case (Pair state w1)
  show ?thesis
  proof (cases state)
    case None
    then show ?thesis using run Pair acc
      by (auto simp: update_evaluation_resource_configuration_def
          acquire_validated_resource_state_def split: option.splits if_splits)
  next
    case (Some t)
    note acq = acquired [OF acc Pair [unfolded Some]]
    obtain s where s: "find_resource_state_locked w1 t = Some s" using acq(2) by auto
    let ?f = "\<lambda>s :: resource_state. s\<lparr>ac_profile := ac_profile ev, ac_limits := ac_limits ev,
                ac_creation_error := ac_creation_error ev, ac_fail_at := ac_fail_at ev,
                ac_version := ac_version s + 1\<rparr>"
    have tok: "\<And>s. rs_token (?f s) = rs_token s" by simp
    have upd: "accounted base (refs(t := refs t + 1)) (modify_state w1 t ?f)"
      "find_resource_state_locked (modify_state w1 t ?f) t \<noteq> None"
      using accounted_modify [OF acq(1) s, of ?f] accountedD(4) [OF acq(1) s] s
      by (simp_all add: find_modify_state)
    have "w' \<in> {release_acquired_resource_state w1 (Some t),
                release_acquired_resource_state (modify_state w1 t ?f) (Some t)}"
      using run Pair Some s
      by (auto simp: update_evaluation_resource_configuration_def Let_def split: if_splits)
    then show ?thesis
      using accounted_pin_release [OF acc pos Pair [unfolded Some]] acq upd by auto
  qed
qed

section \<open>Freeing a buffer that is still charged\<close>

lemma find_release_spare:
  assumes "find_resource_state_locked w t = Some s" "rs_references s \<ge> 2"
  shows "find_resource_state_locked (release_accounting_owner w t) t \<noteq> None"
  using assms
  by (simp add: release_accounting_owner_eq release_state_reference_def Let_def
      find_modify_state drop_reference_def)

lemma accounted_give_back:
  assumes acc: "accounted (base(t := base t + int n)) (refs(t := refs t + 1)) w"
    and pos: "base t \<ge> 0" "refs t \<ge> 0" and found: "find_resource_state_locked w t \<noteq> None"
    and w1: "w1 = modify_state (modify_state w t add_reference) t
                    (\<lambda>s. if n \<le> ac_live s then s\<lparr>ac_live := ac_live s - n\<rparr> else s)"
  shows "accounted base (refs(t := refs t + 2)) w1"
    "find_resource_state_locked w1 t \<noteq> None"
    "\<And>s. find_resource_state_locked w t = Some s \<Longrightarrow> n \<le> ac_live s"
proof -
  obtain s where s: "find_resource_state_locked w t = Some s" using found by auto
  have le: "n \<le> ac_live s" using accountedD(4) [OF acc s] pos by simp
  then show "\<And>s'. find_resource_state_locked w t = Some s' \<Longrightarrow> n \<le> ac_live s'" using s by simp
  let ?w = "modify_state w t add_reference"
  let ?f = "\<lambda>s :: resource_state. if n \<le> ac_live s then s\<lparr>ac_live := ac_live s - n\<rparr> else s"
  have s1: "find_resource_state_locked ?w t = Some (add_reference s)"
    using s by (simp add: find_modify_state add_reference_def)
  have tok: "\<And>s. rs_token (?f s) = rs_token s" by simp
  have acc1: "accounted (base(t := base t + int n)) (refs(t := refs t + 2)) ?w"
    using accounted_acquire [OF acc s] by (simp add: add.commute)
  have "accounted (base(t := base t)) (refs(t := refs t + 2)) (modify_state ?w t ?f)"
    using accounted_modify [OF acc1 s1, of ?f, OF tok] le accountedD(4) [OF acc1 s1]
    by (simp add: add_reference_def of_nat_diff add.commute)
  then show "accounted base (refs(t := refs t + 2)) w1" by (simp add: w1)
  show "find_resource_state_locked w1 t \<noteq> None"
    using s1 unfolding w1 by (subst find_modify_state) simp_all
qed

lemma accounted_abandon:
  assumes acc: "accounted base refs w" and pos: "\<And>t. base t \<ge> 0" "\<And>t. refs t \<ge> 0"
  shows "accounted base refs (release_host_buffer w element p)"
proof -
  let ?u = "rw_identity w element"
  obtain snap call g where rem: "remove_host_allocation (rw_hosts w) p HP_buffer ?u =
      (snap, call, g)"
    by (cases "remove_host_allocation (rw_hosts w) p HP_buffer ?u")
  let ?b = "host_allocation_bucket_index p"
  show ?thesis
  proof (cases "\<forall>r. find_host_allocation_unlocked (hr_buckets (rw_hosts w) ?b) p HP_buffer ?u =
      Some r \<longrightarrow> charge_of r = None")
    case True
    note moves = remove_moves_charge [OF rem True [rule_format] accountedD(2) [OF acc]]
    have wf: "registry_well_formed g" "charges_sound g"
      using remove_keeps_well_formed [OF accountedD(2) [OF acc], of p HP_buffer ?u]
        remove_keeps_sound [OF accountedD(3) [OF acc] rem] by (simp_all add: rem)
    have "accounted (\<lambda>t. base t - 0) (\<lambda>t. refs t - 0) (w\<lparr>rw_hosts := g\<rparr>)"
      by (rule accounted_hosts [OF acc wf]) (use moves in auto)
    then show ?thesis
      using acc moves rem by (simp add: release_host_buffer_def run_release_call_def)
  next
    case False
    then obtain r s where r: "find_host_allocation_unlocked (hr_buckets (rw_hosts w) ?b) p
        HP_buffer ?u = Some r" and s: "charge_of r = Some s"
      by auto
    let ?o = "sm_owner_token s" and ?n = "sm_canonical_bytes s"
    have r': "r \<in> set (hr_buckets (rw_hosts w) ?b)" using find_unlocked_key [OF r] by simp
    then have nz: "p \<noteq> 0" "?u \<noteq> 0"
      using accountedD(2) [OF acc] find_unlocked_key [OF r]
      by (auto simp: registry_well_formed_def record_well_formed_def)
    have rel: "sm_release s \<noteq> 0"
      using accountedD(3) [OF acc] r' s by (auto simp: charges_sound_def)
    obtain removed rs' where unl: "unlink_host_allocation (hr_buckets (rw_hosts w) ?b) p HP_buffer
        ?u = (removed, rs')"
      by (cases "unlink_host_allocation (hr_buckets (rw_hosts w) ?b) p HP_buffer ?u")
    have removed: "removed = Some r"
      using unlink_spec [of "hr_buckets (rw_hosts w) ?b" p HP_buffer ?u] unl r
        accountedD(2) [OF acc]
      by (simp add: find_unlocked_map_of registry_well_formed_def)
    have g: "g = set_bucket (rw_hosts w) ?b rs'"
      and call: "call = Some (sm_release s, ?o, ?n)"
      using rem nz unl removed s rel find_unlocked_key [OF r]
      by (auto simp: remove_host_allocation_def pending_release_def charge_of_def
          split: host_allocation_metadata.splits if_splits)
    have wf: "registry_well_formed g" "charges_sound g"
      using remove_keeps_well_formed [OF accountedD(2) [OF acc], of p HP_buffer ?u]
        remove_keeps_sound [OF accountedD(3) [OF acc] rem] by (simp_all add: rem)
    have sums: "registry_sum (charge_weight f t) (rw_hosts w) =
        registry_sum (charge_weight f t) g + charge_weight f t r" for f t
      using registry_sum_set_bucket [OF bucket_index_less, of "charge_weight f t" "rw_hosts w" p rs']
        unlink_sum [OF unl, of "charge_weight f t"]
      unfolding g removed by simp
    let ?c = "\<lambda>t. if t = ?o then - 1 else (0 :: int)"
    let ?m = "\<lambda>t. if t = ?o then - int ?n else (0 :: int)"
    have "accounted (\<lambda>t. base t - ?m t) (\<lambda>t. refs t - ?c t) (w\<lparr>rw_hosts := g\<rparr>)"
      by (rule accounted_hosts [OF acc wf])
         (use sums s in \<open>auto simp: bound_count_def bound_bytes_def charge_weight_def
            split: if_splits\<close>)
    moreover have "(\<lambda>t. base t - ?m t) = base(?o := base ?o + int ?n)"
      "(\<lambda>t. refs t - ?c t) = refs(?o := refs ?o + 1)" by auto
    ultimately have acc1: "accounted (base(?o := base ?o + int ?n)) (refs(?o := refs ?o + 1))
        (w\<lparr>rw_hosts := g\<rparr>)" by metis
    have "bound_count (rw_hosts w) ?o > 0"
      using sums [of "\<lambda>_. 1" ?o] s by (simp add: bound_count_def charge_weight_def)
    then have found: "find_resource_state_locked (w\<lparr>rw_hosts := g\<rparr>) ?o \<noteq> None"
      using accountedD(5) [OF acc] by simp
    let ?w1 = "modify_state (modify_state (w\<lparr>rw_hosts := g\<rparr>) ?o add_reference) ?o
                    (\<lambda>s. if ?n \<le> ac_live s then s\<lparr>ac_live := ac_live s - ?n\<rparr> else s)"
    note give = accounted_give_back [OF acc1 pos(1,2) found refl]
    have first: "accounted base (refs(?o := refs ?o + 1)) (release_accounting_owner ?w1 ?o)"
      using accounted_release_owner [OF give(1,2)] pos(2) [of ?o] by (simp add: add.commute)
    obtain s' where s': "find_resource_state_locked ?w1 ?o = Some s'" using give(2) by blast
    then have "rs_references s' \<ge> 2"
      using accountedD(4) [OF give(1) s'] pos(2) [of ?o]
      by (cases "rs_context_active s'") simp_all
    from find_release_spare [OF s' this]
    obtain s2 where s2: "find_resource_state_locked (release_accounting_owner ?w1 ?o) ?o = Some s2"
      by blast
    have "accounted base refs (release_state_reference (release_accounting_owner ?w1 ?o) ?o)"
      using accounted_release [OF first s2] pos(2) [of ?o] by simp
    moreover have "release_host_buffer w element p =
        release_state_reference (release_accounting_owner ?w1 ?o) ?o"
    proof -
      obtain s0 where s0: "find_resource_state_locked w ?o = Some s0" using found by auto
      have "rs_token s0 = ?o" using find_state_token [OF s0] by simp
      then show ?thesis
        using nz rem call s0
        by (simp add: release_host_buffer_def run_release_call_def
            release_abandoned_semantic_allocation_def acquire_accounting_owner_def
            release_acquired_resource_state_def Let_def)
    qed
    ultimately show ?thesis by simp
  qed
qed

section \<open>Reachable states\<close>

text \<open>What other components may do to the registry of allocations: anything that leaves its
  buffers as they are. The loop that builds the vectors of the program belongs to them.\<close>

definition same_buffers :: "host_registry \<Rightarrow> host_registry \<Rightarrow> bool" where
  "same_buffers g g' \<longleftrightarrow>
     registry_well_formed g' \<and>
     (\<forall>b. filter (\<lambda>r. har_purpose r = HP_buffer) (hr_buckets g' b) =
          filter (\<lambda>r. har_purpose r = HP_buffer) (hr_buckets g b))"

lemma registry_sum_buffers:
  assumes "registry_well_formed g"
  shows "registry_sum (charge_weight f t) g =
     (\<Sum>b<host_allocation_bucket_count.
        sum_list (map (charge_weight f t)
          (filter (\<lambda>r. har_purpose r = HP_buffer) (hr_buckets g b))))"
proof -
  have "sum_list (map (charge_weight f t) rs) =
        sum_list (map (charge_weight f t) (filter (\<lambda>r. har_purpose r = HP_buffer) rs))"
    if "\<forall>r \<in> set rs. record_well_formed b r" for b rs
    using that
    by (induction rs)
       (auto simp: record_well_formed_def charge_weight_def charge_of_def
          split: host_allocation_metadata.splits)
  then show ?thesis
    unfolding registry_sum_def using assms by (auto simp: registry_well_formed_def intro!: sum.cong)
qed

lemma accounted_environment:
  assumes acc: "accounted base refs w" and same: "same_buffers (rw_hosts w) g"
  shows "accounted base refs (w\<lparr>rw_hosts := g\<rparr>)"
proof -
  have wf: "registry_well_formed g" using same by (simp add: same_buffers_def)
  have buf: "har_purpose r = HP_buffer" if "r \<in> set (hr_buckets g b)" "charge_of r = Some s" for r b s
    using wf that by (fastforce simp: registry_well_formed_def record_well_formed_def charge_of_def
        split: host_allocation_metadata.splits)
  have old: "r \<in> set (hr_buckets (rw_hosts w) b)"
    if "r \<in> set (hr_buckets g b)" "har_purpose r = HP_buffer" for r b
  proof -
    have "set (filter (\<lambda>r. har_purpose r = HP_buffer) (hr_buckets g b)) =
        set (filter (\<lambda>r. har_purpose r = HP_buffer) (hr_buckets (rw_hosts w) b))"
      using same by (simp only: same_buffers_def)
    then show ?thesis using that unfolding set_filter by blast
  qed
  have "charges_sound g"
    using accountedD(3) [OF acc] same buf old
    unfolding charges_sound_def buffer_addresses_def same_buffers_def by metis
  moreover have "bound_count g t = bound_count (rw_hosts w) t"
    "bound_bytes g t = bound_bytes (rw_hosts w) t" for t
    using same registry_sum_buffers [OF wf] registry_sum_buffers [OF accountedD(2) [OF acc]]
    by (simp_all add: bound_count_def bound_bytes_def same_buffers_def)
  ultimately have "accounted (\<lambda>t. base t - 0) (\<lambda>t. refs t - 0) (w\<lparr>rw_hosts := g\<rparr>)"
    by (intro accounted_hosts [OF acc wf]) simp_all
  then show ?thesis by simp
qed

text \<open>Releasing a vector that validation accepts, without its context.\<close>

lemma release_spare_eq:
  assumes "find_resource_state_locked w t = Some s" "rs_references s \<ge> 2"
  shows "release_state_reference w t = modify_state w t drop_reference"
  using assms
  by (simp add: release_state_reference_def Let_def find_modify_state drop_reference_def)

lemma matching_is_consumed:
  assumes "semantic_host_buffer_matches (rw_hosts w) p owner n ord u"
  shows "\<exists>w'. consume_allocation_binding w p owner n ord u = (True, w')"
  using assms
  by (auto simp: semantic_host_buffer_matches_def consume_allocation_binding_def
      consume_semantic_host_buffer_def Let_def split: option.splits if_splits)

lemma valid_vector_charge:
  assumes "vector_validation w v = VI_none"
  shows "vv_accounting_active v \<Longrightarrow> vv_accounting_owner v \<noteq> 0 \<and> vv_canonical_bytes v \<noteq> 0
      \<and> semantic_host_buffer_matches (rw_hosts w) (vector_storage v) (vv_accounting_owner v)
          (vv_canonical_bytes v) (vv_allocation_ordinal v) SP_vector_payload"
    "\<not> vv_accounting_active v \<Longrightarrow> vv_accounting_owner v = 0"
    "vv_canonical_bytes v = 0 \<Longrightarrow> vector_storage v = 0"
    "\<exists>width. element_width (vv_element_type v) = Some width
       \<and> active_vector_length v \<le> size_max div width
       \<and> active_vector_length v * width = vv_canonical_bytes v"
  using assms
  by (auto simp: vector_validation_def accounting_verdict_def accounting_valid_def Let_def
      semantic_allocation_matches_def vector_storage_def active_vector_length_def
      split: scalar_type.splits if_splits)

lemma accounted_release_proven:
  assumes acc: "accounted base refs w" and pos: "\<And>t. base t \<ge> 0" "\<And>t. refs t \<ge> 0"
    and valid: "vector_validation w v = VI_none"
    and run: "release_proven_vector w v = (v', w')"
  shows "accounted base refs w'"
proof -
  note charge = valid_vector_charge [OF valid]
  let ?o = "vv_accounting_owner v" and ?n = "vv_canonical_bytes v"
  let ?e = "payload_element (vv_element_type v)" and ?p = "vector_storage v"
  show ?thesis
  proof (cases "vv_accounting_active v")
    case False
    then have "?o = 0" using charge(2) by simp
    then have "w' = (if ?p \<noteq> 0 then release_host_buffer w ?e ?p else w)"
      using run False by (auto simp: release_proven_vector_def Let_def split: if_splits)
    then show ?thesis using accounted_abandon [OF acc pos] acc by simp
  next
    case True
    note active = charge(1) [OF True]
    obtain w1 where w1: "consume_allocation_binding w ?p ?o ?n (vv_allocation_ordinal v)
        SP_vector_payload = (True, w1)"
      using matching_is_consumed active by blast
    have acc1: "accounted (base(?o := base ?o + int ?n)) (refs(?o := refs ?o + 1)) w1"
      by (rule accounted_consume(1) [OF acc w1])
    have "find_resource_state_locked w1 ?o = find_resource_state_locked w ?o"
      using consume_allocation_binding_frame [OF w1] by (metis find_hosts(1))
    then obtain s where s: "find_resource_state_locked w1 ?o = Some s"
      using accounted_consume(2) [OF acc w1] by auto
    have tok: "rs_token s = ?o" using find_state_token [OF s] by simp
    let ?a = "modify_state w1 ?o add_reference"
    let ?f = "\<lambda>s :: resource_state. s\<lparr>ac_live := ac_live s - ?n\<rparr>"
    let ?g = "\<lambda>s :: resource_state. if ?n \<le> ac_live s then s\<lparr>ac_live := ac_live s - ?n\<rparr> else s"
    let ?w2 = "modify_state ?a ?o ?f"
    have le: "?n \<le> ac_live s" using accountedD(4) [OF acc1 s] pos(1) [of ?o] by simp
    have sa: "find_resource_state_locked ?a ?o = Some (add_reference s)"
      using s by (simp add: find_modify_state add_reference_def)
    have guarded: "modify_state ?a ?o ?f = modify_state ?a ?o ?g"
    proof -
      have "update_first (has_token ?o) ?f xs = update_first (has_token ?o) ?g xs"
        if "find (has_token ?o) xs = Some (add_reference s)" for xs
        using that le by (induction xs) (auto simp: add_reference_def split: if_splits)
      then show ?thesis
        using sa by (simp add: modify_state_def Let_def find_resource_state_locked_def
            split: if_splits)
    qed
    have acc2: "accounted base (refs(?o := refs ?o + 2)) ?w2"
      and found2: "find_resource_state_locked ?w2 ?o \<noteq> None"
      using accounted_give_back(1,2) [OF acc1 pos(1,2) _ refl] s guarded by auto
    obtain s2 where s2: "find_resource_state_locked ?w2 ?o = Some s2" using found2 by auto
    have two: "rs_references s2 \<ge> 2"
      using accountedD(4) [OF acc2 s2] pos(2) [of ?o] by (cases "rs_context_active s2") simp_all
    let ?w3 = "release_state_reference ?w2 ?o"
    have acc3: "accounted base (refs(?o := refs ?o + 1)) ?w3"
      using accounted_release [OF acc2 s2] pos(2) [of ?o] by (simp add: add.commute)
    have w3: "?w3 = modify_state ?w2 ?o drop_reference" by (rule release_spare_eq [OF s2 two])
    have found3: "find_resource_state_locked ?w3 ?o \<noteq> None"
      using s2 unfolding w3 by (auto simp: find_modify_state drop_reference_def)
    have refund: "refund_resource_state_bytes w ?o ?p ?n (vv_allocation_ordinal v)
        SK_vector_payload = (True, ?w3)"
      using w1 s tok sa le
      by (simp add: refund_resource_state_bytes_def acquire_accounting_owner_def add_reference_def
          release_acquired_resource_state_def)
    have acc4: "accounted base refs (release_accounting_owner ?w3 ?o)"
      using accounted_release_owner [OF acc3 found3] pos(2) [of ?o] by simp
    then have "w' = (if ?p \<noteq> 0 then release_host_buffer (release_accounting_owner ?w3 ?o) ?e ?p
        else release_accounting_owner ?w3 ?o)"
      using run True active refund by (auto simp: release_proven_vector_def Let_def split: if_splits)
    then show ?thesis using accounted_abandon [OF acc4 pos] acc4 by simp
  qed
qed

text \<open>What an operation on a value has checked when it begins.\<close>

lemma vector_release_checked:
  assumes "va_container value = CK_vector" "validate_untraversed w value = Some validation"
    "vr_ok validation"
    "\<not> (vv_accounting_active (va_vector value) \<and> vv_accounting_owner (va_vector value) \<noteq> t)"
  shows "vector_owner_checked value t w"
proof -
  have "vector_validation w (va_vector value) = VI_none"
    using assms(1-3)
    by (auto simp: validate_untraversed_def root_verdict_def invalid_value_def valid_value_def
        split: if_splits)
  from valid_vector_charge [OF this] assms(4) show ?thesis
    by (cases "vv_accounting_active (va_vector value)")
       (auto simp: vector_owner_checked_def Let_def)
qed

lemma accounted_release_vector:
  assumes acc: "accounted base refs w" and pos: "\<And>t. base t \<ge> 0" "\<And>t. refs t \<ge> 0"
    and run: "release_vector_reservation w ev value = (x, ev', w')"
  shows "accounted base refs w'"
proof (cases "w' = w")
  case False
  obtain validation t w1 where checked: "va_container value = CK_vector"
      "validate_untraversed w value = Some validation" "vr_ok validation"
      "\<not> (vv_accounting_active (va_vector value)
         \<and> vv_accounting_owner (va_vector value) \<noteq> ev_owner ev)"
    and acq: "acquire_validated_resource_state w ev = (Some t, w1)"
    and run': "with_resource_state w ev (release_vector_locked value) = (x, ev', w')"
    using run False
    by (cases "acquire_validated_resource_state w ev")
       (auto simp: release_vector_reservation_def split: if_splits option.splits)
  show ?thesis
    by (rule vector_release.keeps_accounts_with_state
          [OF acc pos(1,2) vector_release_checked [OF checked] acq run'])
qed (use acc in simp)

lemma accounted_release_workspace:
  assumes acc: "accounted base refs w" and pos: "\<And>t. base t \<ge> 0" "\<And>t. refs t \<ge> 0"
    and run: "release_workspace w ev r = (x, ev', w')"
  shows "accounted base refs w'"
proof (cases "w' = w")
  case False
  obtain t w1 where acq: "acquire_validated_resource_state w ev = (Some t, w1)"
    and run': "with_resource_state w ev (release_workspace_locked r) = (x, ev', w')"
    using run False
    by (cases "acquire_validated_resource_state w ev")
       (auto simp: release_workspace_def split: if_splits)
  show ?thesis
    by (rule workspace_release.keeps_accounts_with_state [OF acc pos(1,2) _ acq run'])
       (simp add: always_def)
qed (use acc in simp)

lemma accounted_release_table:
  assumes acc: "accounted base refs w" and pos: "\<And>t. base t \<ge> 0" "\<And>t. refs t \<ge> 0"
    and run: "release_tuple_table w ev r = (x, ev', w')"
  shows "accounted base refs w'"
proof (cases "w' = w")
  case False
  obtain t w1 where acq: "acquire_validated_resource_state w ev = (Some t, w1)"
    and meta: "reservation_metadata_valid w r (tr_element_count r * 16)"
    and owner: "\<not> (tr_accounting_owner r \<noteq> 0 \<and> tr_accounting_owner r \<noteq> ev_owner ev)"
    and run': "with_resource_state w ev (release_tuple_table_locked r) = (x, ev', w')"
    using run False
    by (cases "acquire_validated_resource_state w ev")
       (auto simp: release_tuple_table_def split: if_splits)
  have "table_owner_checked r (ev_owner ev) w"
    using meta owner by (auto simp: reservation_metadata_valid_def table_owner_checked_def)
  from table_release.keeps_accounts_with_state [OF acc pos(1,2) this acq run']
  show ?thesis .
qed (use acc in simp)

lemma accounted_copies:
  assumes acc: "accounted base refs w" and pos: "\<And>t. base t \<ge> 0" "\<And>t. refs t \<ge> 0"
    and fresh: "fresh_block w"
  shows "allocate_vector w ev element_type n amount l name = (r, ev', w') \<Longrightarrow> accounted base refs w'"
    "copy_bool_vector w ev bs l name = (r, ev', w') \<Longrightarrow> accounted base refs w'"
    "copy_int_vector w ev is l name = (r, ev', w') \<Longrightarrow> accounted base refs w'"
    "copy_double_vector w ev ds l name = (r, ev', w') \<Longrightarrow> accounted base refs w'"
proof -
  have alloc: "accounted base refs w2"
    if "allocate_vector w ev element_type n amount l name = (r2, ev2, w2)"
    for element_type n amount r2 ev2 w2
    using vectors.keeps_accounts [OF acc pos(1,2), of ev element_type n amount l name r2 ev2 w2]
      fresh that by (simp add: allocate_vector_def fresh_for_def)
  then show "allocate_vector w ev element_type n amount l name = (r, ev', w') \<Longrightarrow>
      accounted base refs w'" .
  show "copy_bool_vector w ev bs l name = (r, ev', w') \<Longrightarrow> accounted base refs w'"
    "copy_int_vector w ev is l name = (r, ev', w') \<Longrightarrow> accounted base refs w'"
    "copy_double_vector w ev ds l name = (r, ev', w') \<Longrightarrow> accounted base refs w'"
    using acc alloc
    by (auto simp: copy_bool_vector_def copy_int_vector_def copy_double_vector_def
        split: if_splits prod.splits)
qed

section \<open>Reachable states\<close>

definition initial_world :: "resource_world \<Rightarrow> bool" where
  "initial_world w \<longleftrightarrow>
     rw_states w = (\<lambda>_. []) \<and> rw_next_token w = 1 \<and> rw_hosts w = empty_registry"

text \<open>Every state of the process the resource operations can lead to, in any order, on any
  records and values, with the count of live bytes each context started from. An operation that
  allocates takes place when the block \<open>malloc\<close> will grant is a fresh one. Between operations
  the process may allocate elsewhere, and other components may use the registry of
  allocations.\<close>

inductive reachable :: "(nat \<Rightarrow> nat) \<Rightarrow> resource_world \<Rightarrow> bool" where
  initial: "initial_world w \<Longrightarrow> reachable (\<lambda>_. 0) w"
| make: "reachable b w \<Longrightarrow>
    make_evaluation_resources w profile limits fail live work ord = (ev, w') \<Longrightarrow>
    reachable (b(ev_owner ev := live)) w'"
| close: "reachable b w \<Longrightarrow> release_evaluation_resources w ev = (ev', w') \<Longrightarrow> reachable b w'"
| move: "reachable b w \<Longrightarrow> move_evaluation_resources w ev = (moved, ev', w') \<Longrightarrow> reachable b w'"
| refresh: "reachable b w \<Longrightarrow> refresh_evaluation_resources w ev = (ok, ev', w') \<Longrightarrow> reachable b w'"
| configure: "reachable b w \<Longrightarrow>
    update_evaluation_resource_configuration w ev = (u, ev', w') \<Longrightarrow> reachable b w'"
| allocate: "reachable b w \<Longrightarrow> fresh_block w \<Longrightarrow>
    allocate_vector w ev element_type n amount l name = (r, ev', w') \<Longrightarrow> reachable b w'"
| copy_bools: "reachable b w \<Longrightarrow> fresh_block w \<Longrightarrow>
    copy_bool_vector w ev bs l name = (r, ev', w') \<Longrightarrow> reachable b w'"
| copy_ints: "reachable b w \<Longrightarrow> fresh_block w \<Longrightarrow>
    copy_int_vector w ev is l name = (r, ev', w') \<Longrightarrow> reachable b w'"
| copy_doubles: "reachable b w \<Longrightarrow> fresh_block w \<Longrightarrow>
    copy_double_vector w ev ds l name = (r, ev', w') \<Longrightarrow> reachable b w'"
| charge: "reachable b w \<Longrightarrow> charge_work w ev amount l name = (e, ev', w') \<Longrightarrow> reachable b w'"
| workspace: "reachable b w \<Longrightarrow> fresh_block w \<Longrightarrow>
    reserve_workspace w ev n amount l name = (x, ev', w') \<Longrightarrow> reachable b w'"
| table: "reachable b w \<Longrightarrow> fresh_block w \<Longrightarrow>
    reserve_tuple_table w ev n l name = (t, ev', w') \<Longrightarrow> reachable b w'"
| release_vector: "reachable b w \<Longrightarrow>
    release_vector_reservation w ev v = (y, ev', w') \<Longrightarrow> reachable b w'"
| release_workspace: "reachable b w \<Longrightarrow>
    release_workspace w ev k = (z, ev', w') \<Longrightarrow> reachable b w'"
| release_table: "reachable b w \<Longrightarrow>
    release_tuple_table w ev t' = (q, ev', w') \<Longrightarrow> reachable b w'"
| release_proven: "reachable b w \<Longrightarrow> vector_validation w p = VI_none \<Longrightarrow>
    release_proven_vector w p = (p', w') \<Longrightarrow> reachable b w'"
| drop: "reachable b w \<Longrightarrow> reachable b (release_host_buffer w element address)"
| elsewhere: "reachable b w \<Longrightarrow> reachable b (w\<lparr>rw_host := h\<rparr>)"
| registry: "reachable b w \<Longrightarrow> same_buffers (rw_hosts w) g \<Longrightarrow> reachable b (w\<lparr>rw_hosts := g\<rparr>)"

lemma accounted_initial:
  assumes "initial_world w"
  shows "accounted (\<lambda>_. 0) (\<lambda>_. 0) w"
  using assms
  by (auto simp: accounted_def initial_world_def states_well_formed_def charges_sound_def
      registry_well_formed_def empty_registry_def buffer_addresses_def bound_count_def
      registry_sum_def find_resource_state_locked_def token_max_def)

lemma reachable_accounted:
  assumes "reachable b w"
  shows "accounted (\<lambda>t. int (b t)) (\<lambda>_. 0) w"
  using assms
proof (induction rule: reachable.induct)
  case (initial w)
  then show ?case using accounted_initial by simp
next
  case (make b w profile limits fail live work ord ev w')
  have "(\<lambda>t. int ((b(ev_owner ev := live)) t)) = (\<lambda>t. int (b t))(ev_owner ev := int live)" by auto
  then show ?case
    using accounted_make [OF make.IH refl make.hyps(2) [unfolded make_evaluation_resources_def]]
    by simp
next
  case (charge b w ev amount l name e ev' w')
  show ?case
    by (rule work.keeps_accounts [OF charge.IH _ _ _ charge.hyps(2) [unfolded charge_work_def]])
       (simp_all add: always_def)
next
  case (workspace b w ev n amount l name x ev' w')
  show ?case
    by (rule workspaces.keeps_accounts
          [OF workspace.IH _ _ _ workspace.hyps(3) [unfolded reserve_workspace_def]])
       (simp_all add: fresh_for_def workspace.hyps)
next
  case (table b w ev n l name t ev' w')
  show ?case
    by (rule tables.keeps_accounts
          [OF table.IH _ _ _ table.hyps(3) [unfolded reserve_tuple_table_def]])
       (simp_all add: fresh_for_def table.hyps)
next
  case (close b w ev ev' w')
  show ?case by (rule accounted_close [OF close.IH _ close.hyps(2)]) simp_all
next
  case (move b w ev moved ev' w')
  show ?case by (rule accounted_move [OF move.IH _ move.hyps(2)]) simp_all
next
  case (refresh b w ev ok ev' w')
  show ?case by (rule accounted_refresh [OF refresh.IH _ refresh.hyps(2)]) simp_all
next
  case (configure b w ev u ev' w')
  show ?case by (rule accounted_configure [OF configure.IH _ configure.hyps(2)]) simp_all
next
  case (allocate b w ev element_type n amount l name r ev' w')
  show ?case by (rule accounted_copies(1) [OF allocate.IH _ _ allocate.hyps(2,3)]) simp_all
next
  case (copy_bools b w ev bs l name r ev' w')
  show ?case by (rule accounted_copies(2) [OF copy_bools.IH _ _ copy_bools.hyps(2,3)]) simp_all
next
  case (copy_ints b w ev xs l name r ev' w')
  show ?case by (rule accounted_copies(3) [OF copy_ints.IH _ _ copy_ints.hyps(2,3)]) simp_all
next
  case (copy_doubles b w ev ds l name r ev' w')
  show ?case by (rule accounted_copies(4) [OF copy_doubles.IH _ _ copy_doubles.hyps(2,3)]) simp_all
next
  case (release_vector b w ev v y ev' w')
  show ?case by (rule accounted_release_vector [OF release_vector.IH _ _ release_vector.hyps(2)]) simp_all
next
  case (release_workspace b w ev k z ev' w')
  show ?case by (rule accounted_release_workspace [OF release_workspace.IH _ _ release_workspace.hyps(2)]) simp_all
next
  case (release_table b w ev t' q ev' w')
  show ?case by (rule accounted_release_table [OF release_table.IH _ _ release_table.hyps(2)]) simp_all
next
  case (release_proven b w p p' w')
  show ?case by (rule accounted_release_proven [OF release_proven.IH _ _ release_proven.hyps(2,3)]) simp_all
next
  case (drop b w element address)
  show ?case by (rule accounted_abandon [OF drop.IH]) simp_all
next
  case (elsewhere b w h)
  then show ?case by simp
next
  case (registry b w g)
  show ?case by (rule accounted_environment [OF registry.IH registry.hyps(2)])
qed

text \<open>C11: no charge is lost and none is given back twice, in any state the resource operations
  can lead to. The live count of a registered context is the count it was made with plus the
  bytes of exactly the allocations bound to it, its reference count is one while it is open plus
  one for each of those allocations, and it is never zero. So a context is destroyed exactly when
  it is closed and the last allocation charged to it is gone.\<close>

theorem reachable_charges_conserved:
  assumes "reachable b w" and "find_resource_state_locked w t = Some s"
  shows "ac_live s = b t + bound_bytes (rw_hosts w) t
    \<and> rs_references s = (if rs_context_active s then 1 else 0) + bound_count (rw_hosts w) t
    \<and> rs_references s > 0"
  using accountedD(4) [OF reachable_accounted [OF assms(1)] assms(2)]
  by (cases "rs_context_active s") auto

text \<open>A charge never outlives the state it is charged to: while an allocation is bound to a
  token, in any reachable state, the state of that token is registered, and distinct buffers
  never share an address.\<close>

lemma reachable_charges_have_owners:
  assumes "reachable b w" and "0 < bound_count (rw_hosts w) t"
  shows "resource_state_owner_is_live w t \<and> charges_sound (rw_hosts w)"
  using accountedD(3,5) [OF reachable_accounted [OF assms(1)]] assms(2)
  by (simp add: resource_state_owner_is_live_def)

end
