(* ===== verification/ResourceLimits.thy ===== *)
theory ResourceLimits
  imports ResourcesCorrect "HOL-Library.Code_Target_Numeral"
begin

text \<open>
  What an allocation promises its caller: it is admitted only within the representable range and
  the configured limits, a refusal leaves the counters as they were, the value it gives is well
  formed and released exactly once, and releasing it restores the accounts.
\<close>

section \<open>The outcome of an allocation\<close>

definition within_limits :: "'a accounting_scheme \<Rightarrow> bool" where
  "within_limits ev \<longleftrightarrow>
     \<not> exceeds (ac_live ev) (lm_max_live_evaluation_bytes (ac_limits ev))
     \<and> \<not> exceeds (ac_work ev) (lm_max_work_units (ac_limits ev))"

definition representable :: "'a accounting_scheme \<Rightarrow> bool" where
  "representable ev \<longleftrightarrow> ac_live ev \<le> size_max \<and> ac_work ev \<le> size_max \<and> ac_ordinal ev \<le> size_max"

definition same_configuration :: "'a accounting_scheme \<Rightarrow> 'b accounting_scheme \<Rightarrow> bool" where
  "same_configuration ev ev' \<longleftrightarrow>
     ac_profile ev' = ac_profile ev \<and> ac_limits ev' = ac_limits ev
     \<and> ac_creation_error ev' = ac_creation_error ev \<and> ac_fail_at ev' = ac_fail_at ev
     \<and> ac_version ev' = ac_version ev"

text \<open>An admitted charge of \<open>bytes\<close> and \<open>amount\<close>, and a refusal: only the ordinal of the reservation
  may have been used up.\<close>

definition admitted ::
    "evaluation_resources \<Rightarrow> nat option \<Rightarrow> nat \<Rightarrow> nat \<Rightarrow> evaluation_resources \<Rightarrow> bool" where
  "admitted ev vector_bytes bytes amount ev' \<longleftrightarrow>
     ac_live ev' = ac_live ev + bytes \<and> ac_work ev' = ac_work ev + amount
     \<and> ac_ordinal ev' = ac_ordinal ev + (if bytes = 0 then 0 else 1)
     \<and> within_limits ev'
     \<and> (case vector_bytes of None \<Rightarrow> True
        | Some n \<Rightarrow> \<not> exceeds n (lm_max_vector_bytes (ac_limits ev)))
     \<and> configuration_message (ac_profile ev) (ac_limits ev) = None
     \<and> (representable ev \<longrightarrow> representable ev')"

definition unchanged_counters :: "evaluation_resources \<Rightarrow> evaluation_resources \<Rightarrow> bool" where
  "unchanged_counters ev ev' \<longleftrightarrow>
     ac_live ev' = ac_live ev \<and> ac_work ev' = ac_work ev
     \<and> (ac_ordinal ev' = ac_ordinal ev \<or> ac_ordinal ev' = ac_ordinal ev + 1)"

definition allocation_outcome ::
    "bool \<Rightarrow> evaluation_resources \<Rightarrow> scalar_type \<Rightarrow> nat \<Rightarrow> nat \<Rightarrow> vector_allocation_result
      \<Rightarrow> evaluation_resources \<Rightarrow> bool" where
  "allocation_outcome known ev element_type n amount r ev' \<longleftrightarrow>
     same_configuration ev ev' \<and>
     (if al_ok r
      then known \<and> er_kind (al_error r) = EK_none
           \<and> (case element_width element_type of
                None \<Rightarrow> False
              | Some width \<Rightarrow> admitted ev (Some (n * width)) (n * width) amount ev')
      else unchanged_counters ev ev'
           \<and> er_kind (al_error r) \<in> {EK_resource_error, EK_invalid_execution_profile})"

lemma name_producer_kind:
  "name_producer w e name = (e', w') \<Longrightarrow> er_kind e' = er_kind e"
  by (auto simp: name_producer_def split: if_splits prod.splits)

lemma make_resource_failure_kind:
  "make_resource_failure w l name c = (e, w') \<Longrightarrow>
     er_kind e = EK_resource_error \<and> er_resource e = Some c"
  by (auto simp: make_resource_failure_def make_error_def make_error_message_def
      split: prod.splits dest!: name_producer_kind)

lemma validate_profile_kind:
  assumes "validate_profile_configuration_locked w ev state l name = (e, w')"
  shows "e = Some err \<Longrightarrow> er_kind err \<in> {EK_resource_error, EK_invalid_execution_profile}"
    "e = None \<Longrightarrow> configuration_message (ac_profile ev) (ac_limits ev) = None"
  using assms
  by (auto simp: validate_profile_configuration_locked_def make_error_def make_error_message_def
      split: if_splits option.splits prod.splits
      dest!: name_producer_kind make_resource_failure_kind)

lemma preflight_refused:
  "preflight w ev vb live work l name re rb = (Inl e, w') \<Longrightarrow> er_kind e = EK_resource_error"
  by (auto simp: preflight_def split: sum.splits prod.splits dest: make_resource_failure_kind)

lemma preflight_granted:
  assumes "preflight w ev vb live work l name re rb = (Inr after, w')"
  shows "after = (ac_live ev + live, ac_work ev + work)"
    "within_limits (commit_admission ev after)"
    "case vb of None \<Rightarrow> True | Some n \<Rightarrow> \<not> exceeds n (lm_max_vector_bytes (ac_limits ev))"
    "live \<le> size_max - ac_live ev" "work \<le> size_max - ac_work ev"
  using assms
  by (auto simp: preflight_def admission_def Let_def within_limits_def commit_admission_def
      split: if_splits option.splits sum.splits prod.splits)

lemma reserve_storage_outcome:
  assumes "reserve_storage w ev element n bytes purpose re l name after = (x, ev', w')"
  shows "same_configuration ev ev' \<and> ev_owner ev' = ev_owner ev \<and>
     (case x of
        Inl e \<Rightarrow> er_kind e = EK_resource_error \<and> unchanged_counters ev ev'
      | Inr (storage, ordinal) \<Rightarrow>
          ac_live ev' = fst after \<and> ac_work ev' = snd after \<and> ordinal = ac_ordinal ev
          \<and> ac_ordinal ev' = ac_ordinal ev + 1 \<and> ac_ordinal ev \<noteq> size_max
          \<and> (\<exists>w2. allocate_tracked_host_buffer w element n (ev_owner ev) bytes ordinal purpose =
                (HR_none, storage, w2) \<and> w' = w2))"
proof -
  obtain a st w2 where alloc: "allocate_tracked_host_buffer w element n (ev_owner ev) bytes
      (ac_ordinal ev) purpose = (a, st, w2)"
    using prod_cases3 by blast
  consider (full) "ac_ordinal ev = size_max"
    | (injected) "ac_ordinal ev \<noteq> size_max" "ac_fail_at ev = Some (ac_ordinal ev)"
    | (refused) "ac_ordinal ev \<noteq> size_max" "ac_fail_at ev \<noteq> Some (ac_ordinal ev)" "a \<noteq> HR_none"
    | (granted) "ac_ordinal ev \<noteq> size_max" "ac_fail_at ev \<noteq> Some (ac_ordinal ev)" "a = HR_none"
    by blast
  then show ?thesis
  proof cases
    case full
    then show ?thesis
      using assms by (auto simp: reserve_storage_def Let_def same_configuration_def
          unchanged_counters_def split: prod.splits dest: make_resource_failure_kind)
  next
    case injected
    then show ?thesis
      using assms by (auto simp: reserve_storage_def Let_def same_configuration_def
          unchanged_counters_def split: prod.splits dest: make_resource_failure_kind)
  next
    case refused
    then show ?thesis
      using assms alloc by (auto simp: reserve_storage_def Let_def same_configuration_def
          unchanged_counters_def split: prod.splits dest: make_resource_failure_kind)
  next
    case granted
    then show ?thesis
      using assms alloc by (auto simp: reserve_storage_def Let_def same_configuration_def
          commit_admission_def)
  qed
qed

text \<open>An allocation is refused before its size is known to be representable, or preflight decides.\<close>

lemma allocate_vector_locked_cases:
  assumes "allocate_vector_locked element_type n amount l name w ev state = (r, ev', w')"
  obtains (invalid) e where "r = vector_allocation_failure e" "ev' = ev"
      "er_kind e \<in> {EK_resource_error, EK_invalid_execution_profile}"
  | (sized) width w1 where "element_width element_type = Some width" "n \<le> size_max div width"
      "validate_profile_configuration_locked w ev state l name = (None, w1)"
      "(r, ev', w') =
         (case preflight w1 ev (Some (n * width)) (n * width) amount l name (Some n)
                 (Some (n * width)) of
            (Inl e, w) \<Rightarrow> (vector_allocation_failure e, ev, w)
          | (Inr after, w) \<Rightarrow>
              if n * width = 0
              then (vector_allocated (empty_vector element_type), commit_admission ev after, w)
              else case reserve_storage w ev (payload_element element_type) n (n * width)
                          SP_vector_payload (Some n) l name after of
                     (Inl e, ev, w) \<Rightarrow> (vector_allocation_failure e, ev, w)
                   | (Inr (storage, ordinal), ev, w) \<Rightarrow>
                       (vector_allocated
                          (charged_vector element_type storage n (n * width) (ev_owner ev)
                             ordinal), ev, w))"
proof -
  let ?c = "\<lambda>x. plain_context (execution_profile_name (ac_profile ev)) RE_size_overflow x None"
  obtain e w1 where v: "validate_profile_configuration_locked w ev state l name = (e, w1)"
    by (cases "validate_profile_configuration_locked w ev state l name")
  note outcomes = invalid sized
  consider (refused) err where "e = Some err"
    | (too_many) "e = None" "n > size_max"
    | (too_big) "e = None" "\<not> n > size_max"
        "case element_width element_type of None \<Rightarrow> True | Some width \<Rightarrow> n > size_max div width"
    | (fits) width where "e = None" "\<not> n > size_max" "element_width element_type = Some width"
        "\<not> n > size_max div width"
    by (cases e; cases "element_width element_type"; cases "n > size_max") auto
  then show thesis
  proof cases
    case refused
    then show thesis
      using assms v validate_profile_kind(1) [OF v]
      by (intro outcomes(1) [of err]) (simp_all add: allocate_vector_locked_def)
  next
    case too_many
    obtain err w2 where f: "make_resource_failure w1 l name (?c None) = (err, w2)"
      by (cases "make_resource_failure w1 l name (?c None)")
    show thesis
      using assms v too_many f make_resource_failure_kind [OF f]
      by (intro outcomes(1) [of err]) (simp_all add: allocate_vector_locked_def)
  next
    case too_big
    obtain err w2 where f: "make_resource_failure w1 l name (?c (Some n)) = (err, w2)"
      by (cases "make_resource_failure w1 l name (?c (Some n))")
    show thesis
      using assms v too_big f make_resource_failure_kind [OF f]
      by (intro outcomes(1) [of err]) (simp_all add: allocate_vector_locked_def)
  next
    case fits
    show thesis
    proof (rule outcomes(2) [of width w1])
      show "validate_profile_configuration_locked w ev state l name = (None, w1)"
        using v fits by simp
    qed (use fits in simp_all, unfold assms [symmetric], use v fits in
        \<open>simp add: allocate_vector_locked_def Let_def\<close>)
  qed
qed

lemma allocate_vector_locked_outcome:
  assumes run: "allocate_vector_locked element_type n amount l name w ev state = (r, ev', w')"
  shows "allocation_outcome (state \<noteq> None) ev element_type n amount r ev' \<and> ev_owner ev' = ev_owner ev"
  using run
proof (cases rule: allocate_vector_locked_cases)
  case (invalid e)
  then show ?thesis
    by (auto simp: allocation_outcome_def vector_allocation_failure_def unchanged_counters_def
        same_configuration_def)
next
  case (sized width w1)
  have known: "state \<noteq> None" and valid: "configuration_message (ac_profile ev) (ac_limits ev) = None"
    using validate_profile_frame(3) [OF sized(3)] validate_profile_kind(2) [OF sized(3)] by auto
  let ?b = "n * width"
  obtain res w2 where p: "preflight w1 ev (Some ?b) ?b amount l name (Some n) (Some ?b) = (res, w2)"
    by (cases "preflight w1 ev (Some ?b) ?b amount l name (Some n) (Some ?b)")
  show ?thesis
  proof (cases res)
    case (Inl e)
    then show ?thesis
      using sized(4) p preflight_refused
      by (auto simp: allocation_outcome_def vector_allocation_failure_def unchanged_counters_def
          same_configuration_def)
  next
    case (Inr after)
    note ok = preflight_granted [OF p [unfolded Inr]]
    have bounds: "representable ev \<Longrightarrow>
        ac_live ev + ?b \<le> size_max \<and> ac_work ev + amount \<le> size_max"
      using ok(4,5) by (auto simp: representable_def)
    show ?thesis
    proof (cases "?b = 0")
      case True
      then have "r = vector_allocated (empty_vector element_type)" "ev' = commit_admission ev after"
        using sized(4) p Inr by auto
      then show ?thesis
        using ok bounds known valid sized(1) True
        by (auto simp: allocation_outcome_def vector_allocated_def admitted_def
            commit_admission_def same_configuration_def no_error_def make_error_def
            make_error_message_def representable_def)
    next
      case False
      obtain x ev2 w3 where rs: "reserve_storage w2 ev (payload_element element_type) n ?b
          SP_vector_payload (Some n) l name after = (x, ev2, w3)"
        using prod_cases3 by blast
      note out = reserve_storage_outcome [OF rs]
      show ?thesis
      proof (cases x)
        case (Inl e)
        then have "r = vector_allocation_failure e" "ev' = ev2" using sized(4) p Inr False rs
          by auto
        then show ?thesis
          using out Inl by (auto simp: allocation_outcome_def vector_allocation_failure_def)
      next
        case (Inr y)
        obtain storage ordinal where y: "y = (storage, ordinal)" by (cases y)
        have r: "r = vector_allocated (charged_vector element_type storage n ?b (ev_owner ev2)
            ordinal)" "ev' = ev2"
          using sized(4) p \<open>res = Inr after\<close> False rs Inr y by auto
        have "within_limits ev2"
          using ok(2) out unfolding within_limits_def same_configuration_def
          by (auto simp: commit_admission_def Inr y)
        then show ?thesis
          using ok bounds known valid sized(1) False out Inr y r
          by (auto simp: allocation_outcome_def vector_allocated_def admitted_def no_error_def
              make_error_def make_error_message_def representable_def same_configuration_def)
      qed
    qed
  qed
qed

lemma allocation_outcome_holds:
  "case allocate_vector w ev element_type n amount l name of (r, ev', w') \<Rightarrow>
     (case refresh_evaluation_resources w ev of (known, current, _) \<Rightarrow>
        allocation_outcome known current element_type n amount r ev')"
proof -
  obtain r ev' w' where run: "allocate_vector w ev element_type n amount l name = (r, ev', w')"
    using prod_cases3 by blast
  obtain state w1 where acq: "acquire_validated_resource_state w ev = (state, w1)"
    by (cases "acquire_validated_resource_state w ev")
  let ?ev = "begin_resource_record_sync w1 ev state"
  have refresh: "\<exists>w2. refresh_evaluation_resources w ev = (state \<noteq> None, ?ev, w2)"
    using acq by (cases state)
      (auto simp: refresh_evaluation_resources_def begin_resource_record_sync_def)
  obtain r2 ev2 w2 where b: "allocate_vector_locked element_type n amount l name w1 ?ev state =
      (r2, ev2, w2)"
    using prod_cases3 by blast
  have "r = r2" "ev' = ev2"
    using run acq b by (auto simp: allocate_vector_def with_resource_state_def)
  then show ?thesis
    using allocate_vector_locked_outcome [OF b] refresh run by auto
qed


section \<open>The value an allocation gives\<close>

lemma frame_release [simp]:
  "rw_hosts (release_state_reference w t) = rw_hosts w"
  "rw_identity (release_state_reference w t) = rw_identity w"
  "rw_hosts (release_accounting_owner w t) = rw_hosts w"
  "rw_identity (release_accounting_owner w t) = rw_identity w"
  "rw_hosts (release_acquired_resource_state w state) = rw_hosts w"
  "rw_identity (release_acquired_resource_state w state) = rw_identity w"
  "rw_hosts (finish_resource_record_sync w ev state) = rw_hosts w"
  "rw_identity (finish_resource_record_sync w ev state) = rw_identity w"
  by (simp_all add: release_state_reference_def release_accounting_owner_def Let_def
      release_acquired_resource_state_def finish_resource_record_sync_def split: option.splits)

text \<open>The record of a charged buffer.\<close>

definition charged_record ::
    "resource_world \<Rightarrow> buffer_element \<Rightarrow> address \<Rightarrow> nat \<Rightarrow> nat \<Rightarrow> nat \<Rightarrow> nat \<Rightarrow> semantic_purpose
      \<Rightarrow> host_allocation_record \<Rightarrow> bool" where
  "charged_record w element storage extent owner bytes ordinal purpose r \<longleftrightarrow>
     find_host_allocation_unlocked
       (hr_buckets (rw_hosts w) (host_allocation_bucket_index storage)) storage HP_buffer
       (rw_identity w element) = Some r
     \<and> storage \<noteq> 0 \<and> rw_identity w element \<noteq> 0 \<and> har_byte_count r = extent
     \<and> (\<exists>s. har_metadata r = SemanticMetadata s \<and> sm_active s \<and> sm_owner_token s = owner
          \<and> sm_canonical_bytes s = bytes \<and> sm_allocation_ordinal s = ordinal
          \<and> sm_purpose s = purpose)"

lemma register_record:
  assumes "register_host_allocation g a p n HP_buffer u 0 0 = (True, g')"
  shows "\<exists>r s. hr_buckets g' (host_allocation_bucket_index p) =
            r # hr_buckets g (host_allocation_bucket_index p)
      \<and> har_payload r = p \<and> har_purpose r = HP_buffer \<and> har_element_type r = u
      \<and> har_byte_count r = n \<and> har_metadata r = SemanticMetadata s \<and> \<not> sm_active s
      \<and> p \<noteq> 0 \<and> u \<noteq> 0"
  using assms by (auto simp: register_host_allocation_def Let_def split: if_splits)

lemma bind_head:
  assumes "bind_semantic_host_buffer g p u owner n ord purpose rel = (True, g')"
    and "hr_buckets g (host_allocation_bucket_index p) = r # rs" "matches_key p HP_buffer u r"
  shows "hr_buckets g' (host_allocation_bucket_index p) =
    r\<lparr>har_metadata := SemanticMetadata
        \<lparr>sm_owner_token = owner, sm_canonical_bytes = n, sm_allocation_ordinal = ord,
         sm_purpose = purpose, sm_release = rel, sm_active = True\<rparr>\<rparr> # rs"
  using assms
  by (auto simp: bind_semantic_host_buffer_def Let_def matches_key_def
      split: if_splits host_allocation_metadata.splits)

lemma allocate_buffer_granted:
  assumes "allocate_host_buffer w element 0 n = (HR_none, storage, w1)" "storage \<noteq> 0"
  shows "\<exists>a h g. register_host_allocation (rw_hosts w) a storage
            (n * element_size (buffer_layout element)) HP_buffer (rw_identity w element) 0 0 =
            (True, g) \<and> w1 = w\<lparr>rw_hosts := g, rw_host := h\<rparr>"
  using assms
  by (auto simp: allocate_host_buffer_def Let_def world_update_order
      split: if_splits prod.splits bool.splits)

lemma tracked_granted:
  assumes alloc: "allocate_tracked_host_buffer w element n owner bytes ordinal purpose =
                    (HR_none, storage, w')"
  shows "\<exists>r. charged_record w' element storage (n * element_size (buffer_layout element)) owner
              bytes ordinal purpose r"
    "find_resource_state_locked w' t =
       find_resource_state_locked (modify_state w owner add_reference) t"
    "rw_identity w' = rw_identity w"
proof -
  obtain a st w1 where w1: "allocate_host_buffer w element 0 n = (a, st, w1)"
    by (cases "allocate_host_buffer w element 0 n")
  have a: "a = HR_none" using alloc w1 by (auto simp: allocate_tracked_host_buffer_def split: if_splits)
  obtain s where s: "find_resource_state_locked w1 owner = Some s"
    using alloc w1 a by (auto simp: allocate_tracked_host_buffer_def retain_accounting_owner_def
        split: option.splits)
  have tok: "rs_token s = owner" using find_state_token [OF s] by simp
  let ?w2 = "modify_state w1 owner add_reference"
  obtain bound g where g: "bind_semantic_host_buffer (rw_hosts w1) st (rw_identity w1 element)
      owner bytes ordinal purpose (rw_release w1) = (bound, g)"
    by (cases "bind_semantic_host_buffer (rw_hosts w1) st (rw_identity w1 element)
      owner bytes ordinal purpose (rw_release w1)")
  have res: bound "storage = st" "w' = ?w2\<lparr>rw_hosts := g\<rparr>"
    using alloc w1 a s tok g
    by (auto simp: allocate_tracked_host_buffer_def retain_accounting_owner_def split: if_splits)
  have st: "st \<noteq> 0" using g res(1) by (auto simp: bind_semantic_host_buffer_def)
  obtain al h g1 where reg: "register_host_allocation (rw_hosts w) al st
      (n * element_size (buffer_layout element)) HP_buffer (rw_identity w element) 0 0 =
      (True, g1)" and w1': "w1 = w\<lparr>rw_hosts := g1, rw_host := h\<rparr>"
    using allocate_buffer_granted [OF w1 [unfolded a] st] by blast
  obtain r s1 where r: "hr_buckets g1 (host_allocation_bucket_index st) =
        r # hr_buckets (rw_hosts w) (host_allocation_bucket_index st)"
    "har_payload r = st" "har_purpose r = HP_buffer" "har_element_type r = rw_identity w element"
    "har_byte_count r = n * element_size (buffer_layout element)"
    "har_metadata r = SemanticMetadata s1" "rw_identity w element \<noteq> 0"
    using register_record [OF reg] by blast
  have "bind_semantic_host_buffer g1 st (rw_identity w element) owner bytes ordinal purpose
      (rw_release w) = (True, g)"
    using g res(1) by (simp add: w1')
  from bind_head [OF this r(1)] r st
  show "\<exists>r. charged_record w' element storage (n * element_size (buffer_layout element)) owner
              bytes ordinal purpose r"
    by (simp add: charged_record_def res w1' matches_key_def)
  show "rw_identity w' = rw_identity w" by (simp add: res w1')
  have "rw_states ?w2 = rw_states (modify_state w owner add_reference)"
    by (simp add: w1' modify_state_def set_states_def Let_def)
  then show "find_resource_state_locked w' t =
       find_resource_state_locked (modify_state w owner add_reference) t"
    by (simp add: res find_resource_state_locked_def)
qed

text \<open>What the registry answers about a charged buffer.\<close>

lemma charged_record_valid:
  assumes c: "charged_record w element storage extent owner bytes ordinal purpose r"
  shows "host_buffer_valid w element storage extent"
    "charges_sound (rw_hosts w) \<Longrightarrow> owner \<noteq> 0 \<Longrightarrow>
       semantic_host_buffer_matches (rw_hosts w) storage owner bytes (Some ordinal) purpose"
    "bound_count (rw_hosts w) owner > 0"
proof -
  let ?rs = "hr_buckets (rw_hosts w) (host_allocation_bucket_index storage)"
  have f: "find_host_allocation_unlocked ?rs storage HP_buffer (rw_identity w element) = Some r"
    using c by (simp add: charged_record_def)
  note key = find_unlocked_key [OF f]
  show "host_buffer_valid w element storage extent"
    using c f by (simp add: charged_record_def host_buffer_valid_def find_host_allocation_def
        snapshot_def)
  have "charge_weight (\<lambda>_. 1) owner r = 1"
    using c by (auto simp: charged_record_def charge_weight_def charge_of_def)
  then show "bound_count (rw_hosts w) owner > 0"
    using registry_sum_ge [OF conjunct1 [OF key] bucket_index_less, of "charge_weight (\<lambda>_. 1) owner"]
    by (simp add: bound_count_def)
  assume sound: "charges_sound (rw_hosts w)" and owner: "owner \<noteq> 0"
  have "is_buffer_at storage r" using key by (simp add: is_buffer_at_def)
  then have "find (is_buffer_at storage) ?rs \<noteq> None"
    using key by (auto simp: find_None_iff)
  then obtain r' where r': "find (is_buffer_at storage) ?rs = Some r'" by blast
  have "r = r'"
    using sole_record [OF sound r'] key \<open>is_buffer_at storage r\<close> by simp
  then show "semantic_host_buffer_matches (rw_hosts w) storage owner bytes (Some ordinal) purpose"
    using c r' owner
    by (auto simp: semantic_host_buffer_matches_def semantic_binding_matches_def
        charged_record_def)
qed

lemma charged_vector_valid:
  assumes c: "charged_record w (payload_element element_type) storage (n * width) owner (n * width)
                ordinal SP_vector_payload r"
    and width: "element_width element_type = Some width" "n \<le> size_max div width" "n * width \<noteq> 0"
    and acc: "charges_sound (rw_hosts w)" "owner \<noteq> 0" "resource_state_owner_is_live w owner"
  shows "vector_validation w (va_vector (charged_vector element_type storage n (n * width) owner
           ordinal)) = VI_none"
proof -
  note valid = charged_record_valid [OF c]
  have m: "semantic_host_buffer_matches (rw_hosts w) storage owner (n * width) (Some ordinal)
      SP_vector_payload" using valid(2) acc by simp
  have st: "storage \<noteq> 0" using c by (simp add: charged_record_def)
  have canon: "is_canonical_double 0" by (simp add: is_canonical_double_def)
  show ?thesis
  proof (cases element_type)
    case ST_boolean
    then show ?thesis
      using valid(1) m st acc width
      by (auto simp: vector_validation_def charged_vector_def zeroed_payload_def Let_def
          empty_vector_of_def integer_fields_unused_def double_fields_unused_def null_buffer_def
          accounting_verdict_def accounting_valid_def semantic_allocation_matches_def
          vector_storage_def empty_vector_def list_ex_iff)
  next
    case ST_integer
    then show ?thesis
      using valid(1) m st acc width
      by (auto simp: vector_validation_def charged_vector_def zeroed_payload_def Let_def
          empty_vector_of_def boolean_fields_unused_def double_fields_unused_def null_buffer_def
          accounting_verdict_def accounting_valid_def semantic_allocation_matches_def
          vector_storage_def empty_vector_def)
  next
    case ST_double_precision
    then show ?thesis
      using valid(1) m st acc width canon
      by (auto simp: vector_validation_def charged_vector_def zeroed_payload_def Let_def
          empty_vector_of_def boolean_fields_unused_def integer_fields_unused_def null_buffer_def
          accounting_verdict_def accounting_valid_def semantic_allocation_matches_def
          vector_storage_def empty_vector_def list_ex_iff)
  qed (use width in simp)
qed

section \<open>Releasing an allocated vector\<close>

lemma locked_granted:
  assumes run: "allocate_vector_locked element_type n amount l name w ev state = (r, ev', w')"
    and ok: "al_ok r"
  obtains (empty) width where "element_width element_type = Some width" "n \<le> size_max div width"
      "n * width = 0" "al_value r = empty_vector element_type" "w' = w" "ev_handle ev' = ev_handle ev"
  | (charged) width storage ordinal rec where "element_width element_type = Some width"
      "n \<le> size_max div width" "n * width \<noteq> 0"
      "al_value r = charged_vector element_type storage n (n * width) (ev_owner ev) ordinal"
      "charged_record w' (payload_element element_type) storage (n * width) (ev_owner ev) (n * width)
         ordinal SP_vector_payload rec"
      "\<And>t. find_resource_state_locked w' t =
         find_resource_state_locked (modify_state w (ev_owner ev) add_reference) t"
      "ev_handle ev' = ev_handle ev"
proof -
  note outcomes = empty charged
  from run show thesis
  proof (cases rule: allocate_vector_locked_cases)
    case (invalid e)
    then show thesis using ok by (simp add: vector_allocation_failure_def)
  next
    case (sized width w1)
    have w1: "w1 = w" using validate_profile_frame(2) [OF sized(3)] by simp
    let ?b = "n * width"
    obtain res w2 where p: "preflight w1 ev (Some ?b) ?b amount l name (Some n) (Some ?b) =
        (res, w2)"
      by (cases "preflight w1 ev (Some ?b) ?b amount l name (Some n) (Some ?b)")
    obtain after where Inr: "res = Inr after"
      using sized(4) p ok by (cases res) (auto simp: vector_allocation_failure_def)
    have w2: "w2 = w" using preflight_frame(2) [OF p Inr] w1 by simp
    show thesis
    proof (cases "?b = 0")
      case True
      then show thesis
        using sized(1,2,4) p Inr w2
        by (intro outcomes(1) [of width]) (auto simp: vector_allocated_def commit_admission_def)
    next
      case False
      obtain x ev2 w3 where rs: "reserve_storage w2 ev (payload_element element_type) n ?b
          SP_vector_payload (Some n) l name after = (x, ev2, w3)"
        using prod_cases3 by blast
      note out = reserve_storage_outcome [OF rs]
      obtain storage ordinal where x: "x = Inr (storage, ordinal)"
        using sized(4) p Inr False rs ok
        by (cases x) (auto simp: vector_allocation_failure_def)
      have r: "r = vector_allocated (charged_vector element_type storage n ?b (ev_owner ev2) ordinal)"
        "ev' = ev2" "w' = w3"
        using sized(4) p Inr False rs x by auto
      have "allocate_tracked_host_buffer w (payload_element element_type) n (ev_owner ev) ?b ordinal
          SP_vector_payload = (HR_none, storage, w3)"
        using out by (auto simp: x w2)
      note granted = tracked_granted [OF this]
      have bytes: "element_size (buffer_layout (payload_element element_type)) = width"
        using sized(1) by (cases element_type) (simp_all add: buffer_layout_def)
      have handle: "ev_handle ev2 = ev_handle ev"
        using rs x
        by (auto simp: reserve_storage_def Let_def commit_admission_def
            split: if_splits prod.splits)
      show thesis
        using granted r out handle False sized(1,2)
        by (auto simp: bytes x vector_allocated_def intro: outcomes(2))
    qed
  qed
qed

lemma pinned_state:
  assumes acq: "acquire_validated_resource_state w ev = (Some t, w1)"
    and body: "body w1 (begin_resource_record_sync w1 ev (Some t)) (Some t) = (r, ev', w2)"
    and s2: "find_resource_state_locked w2 t = Some s2" and two: "rs_references s2 \<ge> 2"
    and run: "with_resource_state w ev body = (r', ev'', w')"
  shows "r' = r" "ev'' = ev'" "rw_hosts w' = rw_hosts w2" "rw_identity w' = rw_identity w2"
    "find_resource_state_locked w' t =
       Some (drop_reference (s2\<lparr>ac_live := ac_live ev', ac_work := ac_work ev',
                                ac_ordinal := ac_ordinal ev'\<rparr>))"
proof -
  let ?f = "\<lambda>s :: resource_state. s\<lparr>ac_live := ac_live ev', ac_work := ac_work ev',
                                    ac_ordinal := ac_ordinal ev'\<rparr>"
  have eq: "r' = r" "ev'' = ev'"
    "w' = release_state_reference (modify_state w2 t ?f) t"
    using run acq body
    by (auto simp: with_resource_state_def release_acquired_resource_state_def
        finish_resource_record_sync_def)
  then show "r' = r" "ev'' = ev'" "rw_hosts w' = rw_hosts w2" "rw_identity w' = rw_identity w2"
    by simp_all
  have f: "find_resource_state_locked (modify_state w2 t ?f) t = Some (?f s2)"
    using s2 by (simp add: find_modify_state)
  have "w' = modify_state (modify_state w2 t ?f) t drop_reference"
    unfolding eq(3) by (rule release_spare_eq [OF f]) (simp add: two)
  then show "find_resource_state_locked w' t = Some (drop_reference (?f s2))"
    using find_modify_state [of drop_reference "modify_state w2 t ?f" t t] f
    by (simp add: drop_reference_def)
qed

text \<open>A context that was active stays one through an allocation, with the counters the caller
  was given, and the value is valid.\<close>

lemma allocation_granted:
  assumes reach: "reachable b w" and fresh: "fresh_block w"
    and run: "allocate_vector w ev element_type n amount l name = (r, ev', w')" and ok: "al_ok r"
  shows "validate_untraversed w' (al_value r) = Some valid_value"
    "va_container (al_value r) = CK_vector"
    "vv_accounting_owner (va_vector (al_value r)) \<in> {0, ev_owner ev'}"
    "\<exists>w1. acquire_validated_resource_state w' ev' = (Some (ev_owner ev'), w1)"
    "\<exists>s. find_resource_state_locked w' (ev_owner ev') = Some s \<and> ac_live s = ac_live ev'
        \<and> ac_work s = ac_work ev'"
    "\<exists>width. element_width element_type = Some width
        \<and> vv_canonical_bytes (va_vector (al_value r)) = n * width
        \<and> vv_accounting_active (va_vector (al_value r)) = (n * width \<noteq> 0)"
proof -
  have reach': "reachable b w'" by (rule reachable.allocate [OF reach fresh run])
  obtain state w1 where acq: "acquire_validated_resource_state w ev = (state, w1)"
    by (cases "acquire_validated_resource_state w ev")
  let ?ev = "begin_resource_record_sync w1 ev state"
  obtain r2 ev2 w2 where b: "allocate_vector_locked element_type n amount l name w1 ?ev state =
      (r2, ev2, w2)"
    using prod_cases3 by blast
  have r2: "r2 = r" using run acq b by (auto simp: allocate_vector_def with_resource_state_def)
  have known: "state \<noteq> None" and owner2: "ev_owner ev2 = ev_owner ?ev"
    using allocate_vector_locked_outcome [OF b] ok r2 by (auto simp: allocation_outcome_def)
  then obtain t where t: "state = Some t" by blast
  obtain s where s: "find_resource_state_locked w t = Some s" and act: "rs_context_active s"
    and ev: "ev_owner ev = t" "ev_handle ev = t" and w1: "w1 = modify_state w t add_reference"
    using acq t by (auto simp: acquire_validated_resource_state_def record_matches_state_def
        split: option.splits if_splits dest: find_state_token)
  have refs: "rs_references s > 0" using accountedD(4) [OF reachable_accounted [OF reach] s] by simp
  have s1: "find_resource_state_locked w1 t = Some (add_reference s)"
    using s by (simp add: w1 find_modify_state add_reference_def)
  have evs: "ev_owner ?ev = t" "ev_handle ?ev = t"
    using ev t s1 by (simp_all add: begin_resource_record_sync_def copy_accounting_def)
  have live_owner: "t \<noteq> 0" using find_state_token [OF s] by simp
  have handle2: "ev_handle ev2 = t"
    using b ok [folded r2] evs by (cases rule: locked_granted) auto
  obtain s2 where s2: "find_resource_state_locked w2 t = Some s2" "rs_references s2 \<ge> 2"
    "rs_context_active s2" "rs_token s2 = t"
  proof -
    have "\<exists>s2. find_resource_state_locked w2 t = Some s2 \<and> rs_references s2 \<ge> 2
        \<and> rs_context_active s2"
    proof (cases rule: locked_granted [OF b ok [folded r2], case_names empty charged])
      case (empty width)
      then show ?thesis using s1 refs act by (auto simp: add_reference_def)
    next
      case (charged width storage ordinal rec)
      have "find_resource_state_locked w2 t = Some (add_reference (add_reference s))"
        using s1 unfolding charged(6) evs by (simp add: find_modify_state add_reference_def)
      then show ?thesis using refs act by (auto simp: add_reference_def)
    qed
    then show thesis using that find_state_token by blast
  qed
  have run': "with_resource_state w ev (allocate_vector_locked element_type n amount l name) =
      (r, ev', w')" using run by (simp add: allocate_vector_def)
  note pin = pinned_state [OF acq [unfolded t] b [unfolded t] s2(1,2) run']
  show "\<exists>s. find_resource_state_locked w' (ev_owner ev') = Some s \<and> ac_live s = ac_live ev'
        \<and> ac_work s = ac_work ev'"
    using pin owner2 evs by (auto simp: drop_reference_def)
  show "\<exists>w1. acquire_validated_resource_state w' ev' = (Some (ev_owner ev'), w1)"
    using pin owner2 evs handle2 s2
    by (auto simp: acquire_validated_resource_state_def record_matches_state_def
        drop_reference_def)
  show "\<exists>width. element_width element_type = Some width
        \<and> vv_canonical_bytes (va_vector (al_value r)) = n * width
        \<and> vv_accounting_active (va_vector (al_value r)) = (n * width \<noteq> 0)"
    by (cases rule: locked_granted [OF b ok [folded r2], case_names empty charged])
       (use r2 in \<open>auto simp: empty_vector_def empty_vector_of_def charged_vector_def\<close>)
  have given: "vv_accounting_owner (va_vector (al_value r)) \<in> {0, t}
      \<and> va_container (al_value r) = CK_vector
      \<and> validate_untraversed w' (al_value r) = Some valid_value"
  proof (cases rule: locked_granted [OF b ok [folded r2], case_names empty charged])
    case (empty width)
    then have "vector_validation w' (empty_vector_of element_type) = VI_none"
      by (cases element_type)
         (auto simp: vector_validation_def empty_vector_of_def integer_fields_unused_def
           double_fields_unused_def boolean_fields_unused_def null_buffer_def
           host_buffer_valid_def accounting_verdict_def accounting_valid_def)
    then show ?thesis
      using empty r2
      by (auto simp: empty_vector_def empty_vector_of_def validate_untraversed_def
          is_empty_scalar_def empty_scalar_def is_positive_zero_def tuple_fields_empty_def
          empty_tuple_def empty_reservation_def null_buffer_def empty_host_array_def
          host_array_metadata_valid_def root_verdict_def)
  next
    case (charged width storage ordinal rec)
    let ?v = "charged_vector element_type storage n (n * width) t ordinal"
    have c: "charged_record w' (payload_element element_type) storage (n * width) t (n * width)
        ordinal SP_vector_payload rec"
      using charged(5) pin(3,4) evs by (simp add: charged_record_def)
    have sound: "charges_sound (rw_hosts w')" "resource_state_owner_is_live w' t"
      using reachable_charges_have_owners [OF reach' charged_record_valid(3) [OF c]] by simp_all
    have "vector_validation w' (va_vector ?v) = VI_none"
      by (rule charged_vector_valid [OF c charged(1-3) sound(1) live_owner sound(2)])
    then show ?thesis
      using charged(4) r2 evs
      by (auto simp: charged_vector_def empty_vector_def validate_untraversed_def
          is_empty_scalar_def empty_scalar_def is_positive_zero_def tuple_fields_empty_def
          empty_tuple_def empty_reservation_def null_buffer_def empty_host_array_def
          host_array_metadata_valid_def root_verdict_def)
  qed
  then show "validate_untraversed w' (al_value r) = Some valid_value"
    "va_container (al_value r) = CK_vector"
    "vv_accounting_owner (va_vector (al_value r)) \<in> {0, ev_owner ev'}"
    using pin(2) owner2 evs by auto
qed

lemma frame_abandon [simp]:
  "rw_hosts (run_release_call w call) = rw_hosts w"
  "rw_identity (run_release_call w call) = rw_identity w"
  by (auto simp: run_release_call_def release_abandoned_semantic_allocation_def Let_def
      acquire_accounting_owner_def split: option.splits prod.splits)

lemma release_host_buffer_gone:
  assumes "registry_well_formed (rw_hosts w)"
  shows "find_host_allocation (rw_hosts (release_host_buffer w element p)) p HP_buffer
           (rw_identity (release_host_buffer w element p) element) = snapshot None"
proof (cases "p = 0")
  case True
  then show ?thesis by (simp add: find_host_allocation_def)
next
  case False
  let ?u = "rw_identity w element"
  obtain snap call g where rem: "remove_host_allocation (rw_hosts w) p HP_buffer ?u =
      (snap, call, g)"
    by (cases "remove_host_allocation (rw_hosts w) p HP_buffer ?u")
  have "store_delete (rw_hosts w) (p, HP_buffer, ?u) = (found snap, g)"
    by (simp add: store_delete_def rem)
  from store_delete_spec [OF assms this] have "store_lookup g (p, HP_buffer, ?u) = None" by simp
  then have "find_host_allocation g p HP_buffer ?u = snapshot None"
    by (auto simp: store_lookup_def find_host_allocation_def found_snapshot)
  then show ?thesis using False rem by (simp add: release_host_buffer_def)
qed

lemma valid_vector_buffer:
  assumes "vector_validation w v = VI_none" "vv_canonical_bytes v \<noteq> 0"
  shows "vector_storage v \<noteq> 0
    \<and> host_buffer_valid w (payload_element (vv_element_type v)) (vector_storage v)
        (vv_canonical_bytes v)"
  using assms
  by (auto simp: vector_validation_def accounting_verdict_def accounting_valid_def Let_def
      vector_storage_def split: scalar_type.splits if_splits)

text \<open>A valid vector whose charge is active, or that holds no bytes, is released by its context.\<close>

lemma release_valid_vector:
  assumes reach: "reachable b w" and kind: "va_container value = CK_vector"
    and valid: "validate_untraversed w value = Some valid_value"
    and charged: "vv_accounting_active (va_vector value) \<or> vv_canonical_bytes (va_vector value) = 0"
    and owner: "vv_accounting_owner (va_vector value) \<in> {0, ev_owner ev}"
    and acq: "acquire_validated_resource_state w ev = (Some t, w1)"
    and s: "find_resource_state_locked w t = Some s"
  shows "\<exists>ev' w'. release_vector_reservation w ev value = ((released, make_int_value 0), ev', w')
     \<and> ac_live ev' = ac_live s - vv_canonical_bytes (va_vector value)
     \<and> vv_canonical_bytes (va_vector value) \<le> ac_live s
     \<and> ac_work ev' = ac_work s"
proof -
  let ?v = "va_vector value"
  let ?n = "vv_canonical_bytes ?v"
  have acc: "accounted (\<lambda>t. int (b t)) (\<lambda>_. 0) w" by (rule reachable_accounted [OF reach])
  have vv: "vector_validation w ?v = VI_none"
    using valid kind
    by (auto simp: validate_untraversed_def root_verdict_def invalid_value_def valid_value_def
        split: if_splits)
  note charge = valid_vector_charge [OF vv]
  have t: "ev_owner ev = t" and w1: "w1 = modify_state w t add_reference"
    using acq by (auto simp: acquire_validated_resource_state_def record_matches_state_def
        split: option.splits if_splits dest: find_state_token)
  let ?ev = "begin_resource_record_sync w1 ev (Some t)"
  have sync: "ac_live ?ev = ac_live s" "ac_work ?ev = ac_work s" "ev_owner ?ev = t"
    using s t by (simp_all add: begin_resource_record_sync_def w1 find_modify_state
        copy_accounting_def add_reference_def)
  obtain width where width: "element_width (vv_element_type ?v) = Some width"
    "active_vector_length ?v \<le> size_max div width" "active_vector_length ?v * width = ?n"
    using charge(4) by auto
  have guards: "release_vector_reservation w ev value =
      with_resource_state w ev (release_vector_locked value)"
    using kind valid owner acq charge(1)
    by (auto simp: release_vector_reservation_def valid_value_def)
  show ?thesis
  proof (cases "?n = 0")
    case True
    then have inactive: "\<not> vv_accounting_active ?v" using charge(1) by auto
    obtain w2 where "release_vector_locked value w1 ?ev (Some t) =
        ((released, make_int_value 0), ?ev, w2)"
      using True inactive width by (simp add: release_vector_locked_def Let_def)
    then show ?thesis
      using guards acq True sync by (simp add: with_resource_state_def)
  next
    case False
    then have active: "vv_accounting_active ?v" using charged by simp
    note a = charge(1) [OF active]
    have o: "vv_accounting_owner ?v = t" using a owner t by auto
    have "semantic_host_buffer_matches (rw_hosts w1) (vector_storage ?v) t ?n
        (vv_allocation_ordinal ?v) SP_vector_payload"
      using a o by (simp add: w1)
    then obtain w2 where con: "consume_allocation_binding w1 (vector_storage ?v) t ?n
        (vv_allocation_ordinal ?v) SP_vector_payload = (True, w2)"
      using matching_is_consumed by blast
    obtain g where g: "consume_semantic_host_buffer (rw_hosts w) (vector_storage ?v) t ?n
        (vv_allocation_ordinal ?v) SP_vector_payload = (True, g)"
      using con by (auto simp: consume_allocation_binding_def w1 split: prod.splits)
    have le: "?n \<le> ac_live s"
      using consume_moves_charge [OF g, of t] accountedD(4) [OF acc s] by simp
    obtain w3 where "release_vector_locked value w1 ?ev (Some t) =
        ((released, make_int_value 0), ?ev\<lparr>ac_live := ac_live ?ev - ?n\<rparr>, w3)"
      using False active o width con le sync by (simp add: release_vector_locked_def Let_def)
    then show ?thesis
      using guards acq sync le by (simp add: with_resource_state_def)
  qed
qed

lemma allocated_vector_releases:
  assumes "reachable b w" "fresh_block w"
    and "allocate_vector w ev element_type n amount l name = (r, ev', w')" "al_ok r"
    and "refresh_evaluation_resources w ev = (known, current, w0)"
  shows "validate_untraversed w' (al_value r) = Some valid_value \<and>
    (case release_vector_reservation w' ev' (al_value r) of
       ((result, left), ev'', w'') \<Rightarrow>
         result = released \<and> left = make_int_value 0 \<and> ac_live ev'' = ac_live current
         \<and> ac_work ev'' = ac_work current + amount)"
proof -
  note granted = allocation_granted [OF assms(1-4)]
  have reach': "reachable b w'" by (rule reachable.allocate [OF assms(1-3)])
  obtain w1 where acq: "acquire_validated_resource_state w' ev' = (Some (ev_owner ev'), w1)"
    using granted(4) by blast
  obtain s where s: "find_resource_state_locked w' (ev_owner ev') = Some s"
    "ac_live s = ac_live ev'" "ac_work s = ac_work ev'" using granted(5) by blast
  obtain width where width: "element_width element_type = Some width"
    "vv_canonical_bytes (va_vector (al_value r)) = n * width"
    "vv_accounting_active (va_vector (al_value r)) = (n * width \<noteq> 0)"
    using granted(6) by blast
  have out: "ac_live ev' = ac_live current + n * width" "ac_work ev' = ac_work current + amount"
    using allocation_outcome_holds [where w = w and ev = ev and element_type = element_type and n = n
        and amount = amount and l = l and name = name] assms(3-5) width(1)
    by (simp_all add: allocation_outcome_def admitted_def)
  have "vv_accounting_active (va_vector (al_value r))
      \<or> vv_canonical_bytes (va_vector (al_value r)) = 0"
    using width by auto
  from release_valid_vector [OF reach' granted(2,1) this granted(3) acq s(1)]
  show ?thesis using granted(1) out s width by auto
qed

text \<open>C13: allocating a vector and releasing it is a round trip: in every reachable state, when
  the allocation succeeds, its value is well formed, releasing it succeeds, leaves the integer 0
  in its place, and brings the context's live count back to what it was, while the work it was
  charged stays charged.\<close>

theorem allocation_then_release:
  assumes "reachable b w" "fresh_block w"
    and "allocate_vector w ev element_type n amount l name = (r, ev', w')" "al_ok r"
    and "refresh_evaluation_resources w ev = (known, current, w0)"
  shows "validate_untraversed w' (al_value r) = Some valid_value \<and>
    (case release_vector_reservation w' ev' (al_value r) of
       ((result, left), ev'', w'') \<Rightarrow>
         result = released \<and> left = make_int_value 0 \<and> ac_live ev'' = ac_live current
         \<and> ac_work ev'' = ac_work current + amount)"
  by (rule allocated_vector_releases [OF assms])

text \<open>C14: a charge is given back once. After a vector with an active charge has been released,
  releasing the same value again, by any record, is refused and changes nothing: its storage is
  no longer registered, so the value is no longer well formed.\<close>

theorem released_vectors_stay_released:
  assumes "reachable b w" and "vv_accounting_active (va_vector value)"
    and "release_vector_reservation w ev value = ((result, left), ev', w')" and "rl_ok result"
  shows "case release_vector_reservation w' other value of
           ((result', left'), other', w'') \<Rightarrow>
             \<not> rl_ok result' \<and> left' = value \<and> other' = other \<and> w'' = w'"
proof -
  let ?v = "va_vector value"
  let ?e = "payload_element (vv_element_type ?v)"
  obtain validation t w1 where checked: "va_container value = CK_vector"
      "validate_untraversed w value = Some validation" "vr_ok validation"
    and acq: "acquire_validated_resource_state w ev = (Some t, w1)"
    and run: "with_resource_state w ev (release_vector_locked value) = ((result, left), ev', w')"
    using assms(3,4)
    by (cases "acquire_validated_resource_state w ev")
       (auto simp: release_vector_reservation_def not_released_def released_def
         context_mismatch_def split: if_splits option.splits)
  have vv: "vector_validation w ?v = VI_none"
    using checked
    by (auto simp: validate_untraversed_def root_verdict_def invalid_value_def valid_value_def
        split: if_splits)
  note charge = valid_vector_charge(1) [OF vv assms(2)]
  have w1: "w1 = modify_state w t add_reference"
    using acq by (auto simp: acquire_validated_resource_state_def split: option.splits if_splits
        dest: find_state_token)
  let ?ev = "begin_resource_record_sync w1 ev (Some t)"
  obtain consumed w2 where con: "consume_allocation_binding w1 (vector_storage ?v)
      (vv_accounting_owner ?v) (vv_canonical_bytes ?v) (vv_allocation_ordinal ?v)
      SP_vector_payload = (consumed, w2)"
    by (cases "consume_allocation_binding w1 (vector_storage ?v) (vv_accounting_owner ?v)
      (vv_canonical_bytes ?v) (vv_allocation_ordinal ?v) SP_vector_payload")
  have ok: consumed
    using run acq con charge assms(4)
    by (cases consumed) (auto simp: with_resource_state_def release_vector_locked_def Let_def
        not_released_def)
  let ?w3 = "release_host_buffer (release_accounting_owner w2 (vv_accounting_owner ?v)) ?e
               (vector_storage ?v)"
  have hosts: "rw_hosts w' = rw_hosts ?w3" "rw_identity w' = rw_identity ?w3"
    using run acq con ok charge
    by (auto simp: with_resource_state_def release_vector_locked_def Let_def)
  have wf2: "registry_well_formed (rw_hosts w2)"
  proof -
    have "registry_well_formed (rw_hosts w1)"
      using accountedD(2) [OF reachable_accounted [OF assms(1)]] by (simp add: w1)
    then show ?thesis
      using con consume_keeps_well_formed
      by (auto simp: consume_allocation_binding_def split: prod.splits)
  qed
  have gone: "find_host_allocation (rw_hosts w') (vector_storage ?v) HP_buffer (rw_identity w' ?e)
      = snapshot None"
    using release_host_buffer_gone [of "release_accounting_owner w2 (vv_accounting_owner ?v)"] wf2
    by (simp add: hosts)
  have "vector_validation w' ?v \<noteq> VI_none"
    using valid_vector_buffer [of w' ?v] charge gone
    by (auto simp: host_buffer_valid_def snapshot_def)
  then have "\<exists>verdict. validate_untraversed w' value = Some verdict \<and> \<not> vr_ok verdict"
    using checked
    by (auto simp: validate_untraversed_def root_verdict_def invalid_value_def valid_value_def
        split: if_splits)
  then show ?thesis
    using checked(1) by (auto simp: release_vector_reservation_def not_released_def)
qed

section \<open>A sample process\<close>

definition sample_identity :: "buffer_element \<Rightarrow> address" where
  "sample_identity element =
     (case element of BE_uint8 \<Rightarrow> 16 | BE_int64 \<Rightarrow> 24 | BE_double \<Rightarrow> 32 | BE_byte \<Rightarrow> 40)"

definition sample_world :: resource_world where
  "sample_world =
     \<lparr>rw_states = (\<lambda>_. []), rw_next_token = 1, rw_hosts = empty_registry,
      rw_host = \<lparr>fail_at_allocation_ordinal = None, allocation_ordinal = 0,
                 max_container_elements = None, malloc_grants = (\<lambda>_ _. True),
                 malloc_calls = 0\<rparr>,
      rw_address = (\<lambda>n. of_nat (4096 * (n + 1))), rw_identity = sample_identity,
      rw_release = 48\<rparr>"

definition sample_limits :: resource_limits where
  "sample_limits = \<lparr>lm_max_vector_bytes = Some 32, lm_max_live_evaluation_bytes = Some 40,
                    lm_max_work_units = Some 10, lm_max_tuple_table_bytes = None\<rparr>"

definition sample_location :: source_location where
  "sample_location = \<lparr>sl_offset = 0, sl_line = 1, sl_column = 1\<rparr>"

definition sample_opened :: "evaluation_resources \<times> resource_world" where
  "sample_opened = make_evaluation_resources sample_world EP_bounded_v1 sample_limits None 0 0 0"

definition sample_allocated ::
    "nat \<Rightarrow> vector_allocation_result \<times> evaluation_resources \<times> resource_world" where
  "sample_allocated n =
     allocate_vector (snd sample_opened) (fst sample_opened) ST_integer n 2 sample_location []"

lemma sample_runs: "al_ok (fst (sample_allocated 3))"
  by code_simp

lemma sample_fresh: "fresh_block (snd sample_opened)"
  by code_simp

lemma sample_refused: "\<not> al_ok (fst (sample_allocated 5))"
  by code_simp

lemma sample_reachable: "reachable ((\<lambda>_. 0)(ev_owner (fst sample_opened) := 0)) (snd sample_opened)"
proof -
  have init: "initial_world sample_world"
    by (simp add: initial_world_def sample_world_def)
  show ?thesis
    by (rule reachable.make [OF reachable.initial [OF init]])
       (unfold sample_opened_def, rule prod.collapse [symmetric])
qed

lemma sample_run:
  "allocate_vector (snd sample_opened) (fst sample_opened) ST_integer n 2 sample_location [] =
     (fst (sample_allocated n), fst (snd (sample_allocated n)), snd (snd (sample_allocated n)))"
  by (simp add: sample_allocated_def)

theorem allocation_then_release_witness:
  "validate_untraversed (snd (snd (sample_allocated 3))) (al_value (fst (sample_allocated 3))) =
     Some valid_value"
proof -
  obtain known current w0 where "refresh_evaluation_resources (snd sample_opened)
      (fst sample_opened) = (known, current, w0)"
    using prod_cases3 by blast
  from allocation_then_release [OF sample_reachable sample_fresh sample_run sample_runs this]
  show ?thesis by (rule conjunct1)
qed

definition sample_released ::
    "(value_release_result \<times> bennu_value) \<times> evaluation_resources \<times> resource_world" where
  "sample_released =
     release_vector_reservation (snd (snd (sample_allocated 3))) (fst (snd (sample_allocated 3)))
       (al_value (fst (sample_allocated 3)))"

lemma sample_released_ok: "rl_ok (fst (fst sample_released))"
proof -
  obtain known current w0 where "refresh_evaluation_resources (snd sample_opened)
      (fst sample_opened) = (known, current, w0)"
    using prod_cases3 by blast
  from allocated_vector_releases [OF sample_reachable sample_fresh sample_run sample_runs this]
  show ?thesis by (auto simp: sample_released_def released_def split: prod.splits)
qed

lemma sample_charged: "vv_accounting_active (va_vector (al_value (fst (sample_allocated 3))))"
  by code_simp

lemma sample_release_run:
  "release_vector_reservation (snd (snd (sample_allocated 3))) (fst (snd (sample_allocated 3)))
       (al_value (fst (sample_allocated 3))) =
     ((fst (fst sample_released), snd (fst sample_released)), fst (snd sample_released),
      snd (snd sample_released))"
  by (simp add: sample_released_def)

theorem released_vectors_stay_released_witness:
  "case release_vector_reservation (snd (snd sample_released)) (fst (snd sample_released))
          (al_value (fst (sample_allocated 3))) of
     ((result, left), other, w) \<Rightarrow> \<not> rl_ok result"
  using released_vectors_stay_released [OF
      reachable.allocate [OF sample_reachable sample_fresh sample_run] sample_charged
      sample_release_run sample_released_ok, where other = "fst (snd sample_released)"]
  by (auto split: prod.splits)

section \<open>Closing a context\<close>

text \<open>C15: a context does not outlive its use. In every reachable state, closing an open context
  to which no allocation is charged destroys its state, forgets the caller's handle, and leaves
  every other context and the registry of allocations as they were.\<close>

theorem closing_destroys_idle_contexts:
  assumes "reachable b w" and "acquire_validated_resource_state w ev = (Some t, w0)"
    and "bound_count (rw_hosts w) t = 0"
  shows "case release_evaluation_resources w ev of (ev', w') \<Rightarrow>
           find_resource_state_locked w' = (find_resource_state_locked w)(t := None)
           \<and> ev_owner ev' = 0 \<and> ev_handle ev' = 0 \<and> rw_hosts w' = rw_hosts w"
proof -
  obtain ev' w' where run: "release_evaluation_resources w ev = (ev', w')"
    by (cases "release_evaluation_resources w ev")
  let ?f = "\<lambda>s. drop_reference (deactivate_context (add_reference s))"
  obtain s where s: "find_resource_state_locked w t = Some s" "rs_context_active s"
    "record_matches_state ev s" and t: "ev_owner ev = t" "rs_token s = t"
    using assms(2) by (auto simp: acquire_validated_resource_state_def record_matches_state_def
        split: option.splits if_splits dest: find_state_token)
  have w': "w' = release_state_reference (modify_state w t ?f) t"
    and ev': "ev' = forget_context (copy_accounting s ev)"
    using run s t by (auto simp: release_evaluation_resources_def release_acquired_resource_state_def)
  have "find_resource_state_locked w' t = None"
  proof (rule ccontr)
    assume "find_resource_state_locked w' t \<noteq> None"
    then obtain s' where s': "find_resource_state_locked w' t = Some s'" by blast
    have f: "find_resource_state_locked (modify_state w t ?f) t = Some (?f s)"
      using s by (simp add: find_modify_state drop_reference_def deactivate_context_def
          add_reference_def)
    have g: "find_resource_state_locked (modify_state (modify_state w t ?f) t drop_reference) t =
        Some (drop_reference (?f s))"
      using f find_modify_state [of drop_reference "modify_state w t ?f" t t]
      by (simp add: drop_reference_def)
    have "states_well_formed (modify_state (modify_state w t ?f) t drop_reference)"
      using accountedD(1) [OF reachable_accounted [OF assms(1)]]
      by (intro states_well_formed_modify)
        (simp_all add: drop_reference_def deactivate_context_def add_reference_def)
    then have "s' = drop_reference (?f s)"
      using s' g find_erase by (auto simp: w' release_state_reference_def Let_def split: if_splits)
    then have "\<not> rs_context_active s'"
      by (simp add: drop_reference_def deactivate_context_def add_reference_def)
    moreover have "reachable b w'" by (rule reachable.close [OF assms(1) run])
    from accountedD(4) [OF reachable_accounted [OF this] s'] assms(3)
    have "rs_context_active s'" by (cases "rs_context_active s'") (auto simp: w')
    ultimately show False by simp
  qed
  moreover have "find_resource_state_locked w' u = find_resource_state_locked w u" if "u \<noteq> t" for u
  proof -
    have tok: "\<And>s. rs_token (?f s) = rs_token s" "\<And>s. rs_token (drop_reference s) = rs_token s"
      by (simp_all add: drop_reference_def deactivate_context_def add_reference_def)
    have wf: "states_well_formed (modify_state (modify_state w t ?f) t drop_reference)"
      using accountedD(1) [OF reachable_accounted [OF assms(1)]]
      by (intro states_well_formed_modify tok)
    show ?thesis
      using that unfolding w' release_state_reference_def Let_def
      by (auto simp: find_erase [OF wf] find_modify_state [OF tok(1)] find_modify_state [OF tok(2)]
          split: option.splits)
  qed
  ultimately have "find_resource_state_locked w' = (find_resource_state_locked w)(t := None)"
    by (auto simp: fun_eq_iff)
  then show ?thesis
    by (simp add: run ev' forget_context_def) (simp add: w')
qed

lemma make_keeps_hosts:
  "rw_hosts (snd (make_evaluation_resources w profile limits fail live work ord)) = rw_hosts w"
  by (auto simp: make_evaluation_resources_def make_resource_record_def set_states_def Let_def
      split: prod.splits bool.splits)

theorem closing_destroys_idle_contexts_witness:
  "find_resource_state_locked
     (snd (release_evaluation_resources (snd sample_opened) (fst sample_opened))) 1 = None"
proof -
  have "fst (acquire_validated_resource_state (snd sample_opened) (fst sample_opened)) = Some 1"
    by code_simp
  then obtain w0 where a: "acquire_validated_resource_state (snd sample_opened)
      (fst sample_opened) = (Some 1, w0)"
    by (cases "acquire_validated_resource_state (snd sample_opened) (fst sample_opened)") auto
  have "rw_hosts (snd sample_opened) = empty_registry"
    using make_keeps_hosts [of sample_world] by (simp add: sample_opened_def sample_world_def)
  then have c: "bound_count (rw_hosts (snd sample_opened)) 1 = 0"
    by (simp add: bound_count_def registry_sum_def empty_registry_def)
  show ?thesis
    using closing_destroys_idle_contexts [OF sample_reachable a c]
    by (auto split: prod.splits)
qed


theorem reachable_charges_conserved_witness:
  "case find_resource_state_locked (snd (snd (sample_allocated 3))) 1 of
     None \<Rightarrow> False
   | Some s \<Rightarrow> ac_live s = bound_bytes (rw_hosts (snd (snd (sample_allocated 3)))) 1"
proof -
  have "find_resource_state_locked (snd (snd (sample_allocated 3))) 1 \<noteq> None"
    by code_simp
  then obtain s where s: "find_resource_state_locked (snd (snd (sample_allocated 3))) 1 = Some s"
    by blast
  show ?thesis
    using reachable_charges_conserved [OF
        reachable.allocate [OF sample_reachable sample_fresh sample_run] s]
    by (simp add: s del: One_nat_def)
qed

end
