(* ===== verification/ValueTraversal.thy ===== *)
theory ValueTraversal
  imports Values "HOL-Library.Monad_Syntax"
begin

text \<open>
  The validation of tuples (\<open>validate_value\<close>, src/value.cpp). A tuple is an arena: a table of
  nodes without the root, a table of child indexes, payloads and reservations by handle. The
  validator walks it with an explicit stack, marks what it has seen in arrays of its own, and
  reports the first defect with the path of offsets that leads to the node.

  \<^item> A read outside the constructed elements of an array is undefined in the code and makes the
    whole operation \<open>None\<close>.
  \<^item> The arrays of the walk are allocated under the caller's failure injection, which is part of
    the state of the process; the overloads without one use a fresh injection of their own.
\<close>

section \<open>Outcomes\<close>

definition value_resource_failure ::
    "host_resource_error_reason \<Rightarrow> value_validation_result" where
  "value_resource_failure e = valid_value\<lparr>vr_ok := False, vr_resource_error := e\<rparr>"

text \<open>What the checks on one node decide: to go on, to reject the value at a node and an edge,
  or to refuse for lack of room.\<close>

datatype traversal_verdict =
    Continue
  | Reject value_invariant nat "nat option"
  | Refuse host_resource_error_reason

record validation_work =
  vw_node_index :: nat
  vw_parent_index :: nat
  vw_child_offset :: nat

record value_workspace =
  wv_visited :: "u8 host_array"
  wv_edge_owners :: "u8 host_array"
  wv_parent_count :: "nat host_array"
  wv_payload_owners :: "u8 host_array"
  wv_reservation_owners :: "u8 host_array"
  wv_path_parents :: "nat host_array"
  wv_path_offsets :: "nat host_array"
  wv_stack :: "validation_work host_array"

definition layout_validation_work :: element_layout where
  "layout_validation_work = \<lparr>element_size = 24, element_alignment = 8\<rparr>"

text \<open>The chains of this file announce themselves to the injection once and then take every
  array under the container limit alone; an allocation happens only when the previous ones
  succeeded.\<close>

definition allocate_within ::
    "host_resource_error_reason \<Rightarrow> element_layout \<Rightarrow> host_state \<Rightarrow> nat
      \<Rightarrow> host_resource_error_reason \<times> 'a host_array \<times> host_state" where
  "allocate_within e l h capacity =
     (if e = HR_none
      then allocate_host_array_raw l h empty_host_array capacity (max_container_elements h)
      else (e, empty_host_array, h))"

section \<open>The path to a node\<close>

text \<open>The parents of the walk: \<open>size_max\<close> marks the root and the nodes not reached. A parent has
  a larger index than its children, so \<open>node_count\<close> steps reach the end.\<close>

fun path_depth :: "nat \<Rightarrow> nat \<Rightarrow> nat host_array \<Rightarrow> nat \<Rightarrow> nat option" where
  "path_depth 0 node_count parents cursor = None"
| "path_depth (Suc fuel) node_count parents cursor =
     (if cursor \<ge> node_count then Some 0
      else do {
        parent \<leftarrow> host_array_at parents cursor;
        if parent = size_max then Some 0
        else map_option Suc (path_depth fuel node_count parents parent)
      })"

fun path_to :: "nat \<Rightarrow> nat host_array \<Rightarrow> nat host_array \<Rightarrow> nat \<Rightarrow> nat list option" where
  "path_to 0 parents offsets cursor = Some []"
| "path_to (Suc depth) parents offsets cursor =
     do {
       offset \<leftarrow> host_array_at offsets cursor;
       parent \<leftarrow> host_array_at parents cursor;
       path \<leftarrow> path_to depth parents offsets parent;
       Some (path @ [offset])
     }"

definition invalid_at ::
    "nat \<Rightarrow> value_workspace \<Rightarrow> host_state \<Rightarrow> value_invariant \<Rightarrow> nat \<Rightarrow> nat option
      \<Rightarrow> (value_validation_result \<times> host_state) option" where
  "invalid_at node_count st h invariant node_index edge_index =
     do {
       depth \<leftarrow> path_depth (node_count + 1) node_count (wv_path_parents st) node_index;
       case allocate_within HR_none layout_size h depth of
         (path_allocated, path_storage, h) \<Rightarrow>
           if path_allocated \<noteq> HR_none
           then Some (value_resource_failure path_allocated, h)
           else case host_array_fill path_storage depth (0 :: nat) of
             (path_filled, path_storage) \<Rightarrow>
               if path_filled \<noteq> HR_none then Some (value_resource_failure path_filled, h)
               else do {
                 path \<leftarrow> path_to depth (wv_path_parents st) (wv_path_offsets st) node_index;
                 Some ((invalid_value invariant node_index edge_index)\<lparr>vr_path := path\<rparr>, h)
               }
     }"

section \<open>Leaves\<close>

definition visit_scalar ::
    "nat \<Rightarrow> value_node \<Rightarrow> value_workspace \<Rightarrow> (traversal_verdict \<times> value_workspace) option" where
  "visit_scalar node_index node st =
     Some (if vn_first_child node \<noteq> 0 \<or> vn_child_count node \<noteq> 0
              \<or> vn_tuple_reservation_index node \<noteq> 0 \<or> vn_vector_payload_index node \<noteq> 0
           then Reject VI_inactive_tuple_field node_index None
           else if scalar_verdict (vn_scalar node) \<noteq> VI_none
           then Reject (scalar_verdict (vn_scalar node)) node_index None
           else Continue, st)"

text \<open>Whether an owned payload, other than the one named, has its storage at an address, and
  whether an owned reservation has. The reservation of the root has the last handle.\<close>

fun payload_stored_at ::
    "vector_value host_array \<Rightarrow> u8 host_array \<Rightarrow> nat option \<Rightarrow> address \<Rightarrow> nat list
      \<Rightarrow> bool option" where
  "payload_stored_at payloads owners except storage [] = Some False"
| "payload_stored_at payloads owners except storage (i # is) =
     (if except = Some i then payload_stored_at payloads owners except storage is
      else do {
        owner \<leftarrow> host_array_at owners i;
        if owner = 0 then payload_stored_at payloads owners except storage is
        else do {
          payload \<leftarrow> host_array_at payloads i;
          if vector_storage payload = storage then Some True
          else payload_stored_at payloads owners except storage is
        }
      })"

definition reservation_at :: "tuple_value \<Rightarrow> nat \<Rightarrow> tuple_table_reservation option" where
  "reservation_at t i =
     (if i = array_size (tv_reservations t) then Some (tv_root_reservation t)
      else host_array_at (tv_reservations t) i)"

fun reservation_stored_at ::
    "tuple_value \<Rightarrow> u8 host_array \<Rightarrow> nat option \<Rightarrow> address \<Rightarrow> nat list \<Rightarrow> bool option" where
  "reservation_stored_at t owners except storage [] = Some False"
| "reservation_stored_at t owners except storage (i # is) =
     (if except = Some i then reservation_stored_at t owners except storage is
      else do {
        owner \<leftarrow> host_array_at owners i;
        if owner = 0 then reservation_stored_at t owners except storage is
        else do {
          reservation \<leftarrow> reservation_at t i;
          if bf_address (tr_storage reservation) = storage then Some True
          else reservation_stored_at t owners except storage is
        }
      })"

definition payload_aliased ::
    "tuple_value \<Rightarrow> value_workspace \<Rightarrow> nat \<Rightarrow> address \<Rightarrow> bool option" where
  "payload_aliased t st index storage =
     (if storage = 0 then Some False
      else do {
        other \<leftarrow> payload_stored_at (tv_vector_payloads t) (wv_payload_owners st) (Some index)
                   storage [0..<array_size (tv_vector_payloads t)];
        if other then Some True
        else reservation_stored_at t (wv_reservation_owners st) None storage
               [0..<array_size (wv_reservation_owners st)]
      })"

definition visit_vector ::
    "resource_world \<Rightarrow> tuple_value \<Rightarrow> nat \<Rightarrow> value_node \<Rightarrow> value_workspace
      \<Rightarrow> (traversal_verdict \<times> value_workspace) option" where
  "visit_vector w t node_index node st =
     (if \<not> is_empty_scalar (vn_scalar node)
      then Some (Reject VI_inactive_scalar_field node_index None, st)
      else if vn_first_child node \<noteq> 0 \<or> vn_child_count node \<noteq> 0
              \<or> vn_tuple_reservation_index node \<noteq> 0
      then Some (Reject VI_inactive_tuple_field node_index None, st)
      else
        let index = vn_vector_payload_index node
        in if index \<ge> array_size (tv_vector_payloads t)
           then Some (Reject VI_invalid_vector_payload_handle node_index None, st)
           else do {
             owner \<leftarrow> host_array_at (wv_payload_owners st) index;
             if owner \<noteq> 0 then Some (Reject VI_aliased_vector_payload node_index None, st)
             else do {
               owners \<leftarrow> host_array_put (wv_payload_owners st) index 1;
               payload \<leftarrow> host_array_at (tv_vector_payloads t) index;
               let st = st\<lparr>wv_payload_owners := owners\<rparr> in
               do {
                 aliased \<leftarrow> payload_aliased t st index (vector_storage payload);
                 Some (if aliased then Reject VI_aliased_vector_payload node_index None
                       else if vector_validation w payload \<noteq> VI_none
                       then Reject (vector_validation w payload) node_index None
                       else Continue, st)
               }
             }
           })"

section \<open>Tuples\<close>

text \<open>A node of the arena; the root is not in the table, its fields are those of the value.\<close>

definition node_at :: "bennu_value \<Rightarrow> nat \<Rightarrow> value_node option" where
  "node_at v node_index =
     (let t = va_tuple v
      in if node_index = tv_root_index t
         then Some \<lparr>vn_container = CK_tuple, vn_scalar = va_scalar v,
                    vn_first_child = tv_first_child t, vn_child_count = tv_child_count t,
                    vn_tuple_reservation_index = array_size (tv_reservations t),
                    vn_vector_payload_index = 0\<rparr>
         else host_array_at (tv_nodes t) node_index)"

text \<open>The loop over the edges of a tuple.\<close>

fun claim_children ::
    "tuple_value \<Rightarrow> nat \<Rightarrow> nat \<Rightarrow> nat \<Rightarrow> nat list \<Rightarrow> value_workspace
      \<Rightarrow> (traversal_verdict \<times> value_workspace) option" where
  "claim_children t node_count node_index first_child [] st = Some (Continue, st)"
| "claim_children t node_count node_index first_child (offset # offsets) st =
     (let edge_index = first_child + offset
      in do {
        owner \<leftarrow> host_array_at (wv_edge_owners st) edge_index;
        if owner \<noteq> 0
        then Some (Reject VI_overlapping_tuple_range node_index (Some edge_index), st)
        else do {
          owners \<leftarrow> host_array_put (wv_edge_owners st) edge_index 1;
          child_index \<leftarrow> host_array_at (tv_child_indexes t) edge_index;
          let st = st\<lparr>wv_edge_owners := owners\<rparr> in
          if child_index \<ge> node_count
          then Some (Reject VI_invalid_tuple_child_index node_index (Some edge_index), st)
          else if child_index \<ge> node_index
          then Some (Reject VI_non_postorder_tuple_child node_index (Some edge_index), st)
          else do {
            count \<leftarrow> host_array_at (wv_parent_count st) child_index;
            counts \<leftarrow> host_array_put (wv_parent_count st) child_index (count + 1);
            let st = st\<lparr>wv_parent_count := counts\<rparr> in
            if count + 1 \<noteq> 1
            then do {
              parents \<leftarrow> host_array_put (wv_path_parents st) child_index node_index;
              path_offsets \<leftarrow> host_array_put (wv_path_offsets st) child_index offset;
              Some (Reject VI_aliased_tuple_child child_index (Some edge_index),
                    st\<lparr>wv_path_parents := parents, wv_path_offsets := path_offsets\<rparr>)
            }
            else claim_children t node_count node_index first_child offsets st
          }
        }
      })"

text \<open>The charge of a reservation: the size its element count asks for, and, when the charge is
  active, the binding the registry holds for the storage.\<close>

definition reservation_accounted ::
    "resource_world \<Rightarrow> tuple_table_reservation \<Rightarrow> nat \<Rightarrow> bool" where
  "reservation_accounted w r child_count \<longleftrightarrow>
     (let expected_bytes = child_count * 16; storage = bf_address (tr_storage r)
      in \<not> (tr_element_count r \<noteq> child_count
            \<or> tr_canonical_bytes r \<noteq> expected_bytes
            \<or> expected_bytes = 0 \<and> storage \<noteq> 0
            \<or> expected_bytes \<noteq> 0 \<and> storage = 0
            \<or> expected_bytes \<noteq> 0 \<and> tr_accounting_active r
              \<and> (tr_accounting_owner r = 0
                 \<or> \<not> resource_state_owner_is_live w (tr_accounting_owner r))
            \<or> expected_bytes \<noteq> 0 \<and> tr_accounting_active r \<and> tr_allocation_ordinal r = None
            \<or> expected_bytes = 0 \<and> tr_allocation_ordinal r \<noteq> None
            \<or> expected_bytes = 0 \<and> tr_accounting_owner r \<noteq> 0
            \<or> \<not> tr_accounting_active r \<and> tr_accounting_owner r \<noteq> 0
            \<or> expected_bytes \<noteq> 0 \<and> tr_accounting_active r
              \<and> \<not> semantic_allocation_matches w storage (tr_accounting_owner r) expected_bytes
                    (tr_allocation_ordinal r) SK_tuple_table))"

definition reservation_aliased ::
    "tuple_value \<Rightarrow> value_workspace \<Rightarrow> nat \<Rightarrow> address \<Rightarrow> bool option" where
  "reservation_aliased t st index storage =
     (if storage = 0 then Some False
      else do {
        other \<leftarrow> reservation_stored_at t (wv_reservation_owners st) (Some index) storage
                   [0..<array_size (wv_reservation_owners st)];
        if other then Some True
        else payload_stored_at (tv_vector_payloads t) (wv_payload_owners st) None storage
               [0..<array_size (wv_payload_owners st)]
      })"

definition claim_reservation ::
    "resource_world \<Rightarrow> tuple_value \<Rightarrow> nat \<Rightarrow> value_node \<Rightarrow> value_workspace
      \<Rightarrow> (traversal_verdict \<times> value_workspace) option" where
  "claim_reservation w t node_index node st =
     (let index = vn_tuple_reservation_index node
      in if index > array_size (tv_reservations t)
         then Some (Reject VI_missing_tuple_reservation node_index None, st)
         else do {
           owner \<leftarrow> host_array_at (wv_reservation_owners st) index;
           if owner \<noteq> 0 then Some (Reject VI_aliased_tuple_reservation node_index None, st)
           else do {
             owners \<leftarrow> host_array_put (wv_reservation_owners st) index 1;
             reservation \<leftarrow> (if node_index = tv_root_index t then Some (tv_root_reservation t)
                             else host_array_at (tv_reservations t) index);
             let st = st\<lparr>wv_reservation_owners := owners\<rparr> in
             do {
               aliased \<leftarrow> reservation_aliased t st index (bf_address (tr_storage reservation));
               Some (if aliased then Reject VI_aliased_tuple_reservation node_index None
                     else if vn_child_count node > size_max div 16
                             \<or> \<not> host_buffer_valid w BE_byte
                                   (bf_address (tr_storage reservation))
                                   (vn_child_count node * 16)
                             \<or> \<not> reservation_accounted w reservation (vn_child_count node)
                     then Reject VI_invalid_tuple_reservation_count node_index None
                     else Continue, st)
             }
           }
         })"

definition push_validation_work ::
    "validation_work host_array \<Rightarrow> validation_work
      \<Rightarrow> host_resource_error_reason \<times> validation_work host_array" where
  "push_validation_work stack work =
     (if array_storage stack = NullStorage \<or> array_size stack \<ge> array_capacity stack
      then (HR_size_overflow, stack)
      else (HR_none, stack\<lparr>array_storage := construct_at (array_storage stack) (array_size stack) work,
                           array_size := array_size stack + 1\<rparr>))"

fun push_children ::
    "tuple_value \<Rightarrow> nat \<Rightarrow> nat \<Rightarrow> nat list \<Rightarrow> value_workspace
      \<Rightarrow> (traversal_verdict \<times> value_workspace) option" where
  "push_children t node_index first_child [] st = Some (Continue, st)"
| "push_children t node_index first_child (offset # offsets) st =
     do {
       child_index \<leftarrow> host_array_at (tv_child_indexes t) (first_child + offset);
       case push_validation_work (wv_stack st)
              \<lparr>vw_node_index = child_index, vw_parent_index = node_index,
               vw_child_offset = offset\<rparr> of
         (pushed, stack) \<Rightarrow>
           if pushed \<noteq> HR_none then Some (Refuse pushed, st)
           else push_children t node_index first_child offsets (st\<lparr>wv_stack := stack\<rparr>)
     }"

definition and_then ::
    "(traversal_verdict \<times> 'a) option \<Rightarrow> ('a \<Rightarrow> (traversal_verdict \<times> 'a) option)
      \<Rightarrow> (traversal_verdict \<times> 'a) option" where
  "and_then first rest =
     (case first of
        None \<Rightarrow> None
      | Some (verdict, st) \<Rightarrow> if verdict = Continue then rest st else Some (verdict, st))"

definition visit_tuple ::
    "resource_world \<Rightarrow> tuple_value \<Rightarrow> nat \<Rightarrow> nat \<Rightarrow> value_node \<Rightarrow> value_workspace
      \<Rightarrow> (traversal_verdict \<times> value_workspace) option" where
  "visit_tuple w t node_count node_index node st =
     (let first_child = vn_first_child node; child_count = vn_child_count node
      in if \<not> is_empty_scalar (vn_scalar node)
         then Some (Reject VI_inactive_scalar_field node_index None, st)
         else if node_index \<noteq> tv_root_index t \<and> vn_vector_payload_index node \<noteq> 0
         then Some (Reject VI_inactive_vector_payload node_index None, st)
         else if first_child > array_size (tv_child_indexes t)
                 \<or> child_count > array_size (tv_child_indexes t) - first_child
         then Some (Reject VI_invalid_tuple_range node_index (Some first_child), st)
         else and_then (claim_children t node_count node_index first_child [0..<child_count] st)
           (\<lambda>st. and_then (claim_reservation w t node_index node st)
             (\<lambda>st. push_children t node_index first_child (rev [0..<child_count]) st)))"

section \<open>The walk\<close>

definition visit_node ::
    "resource_world \<Rightarrow> tuple_value \<Rightarrow> nat \<Rightarrow> nat \<Rightarrow> value_node \<Rightarrow> value_workspace
      \<Rightarrow> (traversal_verdict \<times> value_workspace) option" where
  "visit_node w t node_count node_index node st =
     (case vn_container node of
        CK_scalar \<Rightarrow> visit_scalar node_index node st
      | CK_vector \<Rightarrow> visit_vector w t node_index node st
      | CK_tuple \<Rightarrow> visit_tuple w t node_count node_index node st
      | CK_unknown _ \<Rightarrow> Some (Reject VI_unknown_container node_index None, st))"

definition traversal_step ::
    "resource_world \<Rightarrow> bennu_value \<Rightarrow> nat \<Rightarrow> value_workspace
      \<Rightarrow> (traversal_verdict \<times> value_workspace) option" where
  "traversal_step w v node_count st =
     do {
       work \<leftarrow> host_array_at (wv_stack st) (array_size (wv_stack st) - 1);
       let node_index = vw_node_index work in
       do {
         parents \<leftarrow> host_array_put (wv_path_parents st) node_index (vw_parent_index work);
         offsets \<leftarrow> host_array_put (wv_path_offsets st) node_index (vw_child_offset work);
         let st = st\<lparr>wv_stack := host_array_pop (wv_stack st), wv_path_parents := parents,
                     wv_path_offsets := offsets\<rparr> in
         do {
           seen \<leftarrow> host_array_at (wv_visited st) node_index;
           if seen \<noteq> 0 then Some (Reject VI_aliased_tuple_child node_index None, st)
           else do {
             visited \<leftarrow> host_array_put (wv_visited st) node_index 1;
             node \<leftarrow> node_at v node_index;
             visit_node w (va_tuple v) node_count node_index node (st\<lparr>wv_visited := visited\<rparr>)
           }
         }
       }
     }"

text \<open>Each iteration marks a node that was unmarked, so the walk ends.\<close>

definition unseen_count :: "u8 host_array \<Rightarrow> nat" where
  "unseen_count a =
     (case array_storage a of Registered xs _ \<Rightarrow> length (filter (\<lambda>v. v = 0) xs) | _ \<Rightarrow> 0)"

lemma unseen_count_put:
  assumes "host_array_at a i = Some 0" and "host_array_put a i 1 = Some a'"
  shows "unseen_count a' < unseen_count a"
proof -
  obtain xs cap where st: "array_storage a = Registered xs cap" and i: "i < length xs" "xs ! i = 0"
    using assms(1) by (auto simp: host_array_at_def at_def split: array_storage.splits if_splits)
  have "array_storage a' = Registered (xs[i := 1]) cap"
    using assms(2) st i by (auto simp: host_array_put_def)
  moreover have "length (filter (\<lambda>v. v = 0) (xs[i := 1])) < length (filter (\<lambda>v. v = 0) xs)"
    using i by (intro length_filter_update) simp_all
  ultimately show ?thesis using st by (simp add: unseen_count_def)
qed

lemma and_then_Some:
  assumes "and_then first rest = Some (verdict, st)"
  obtains s where "first = Some (Continue, s)" "rest s = Some (verdict, st)"
  | "verdict \<noteq> Continue" "first = Some (verdict, st)"
  using assms by (auto simp: and_then_def split: option.splits if_splits prod.splits)

lemma claim_children_visited:
  "claim_children t n i f os st = Some (verdict, st') \<Longrightarrow> wv_visited st' = wv_visited st"
proof (induction os arbitrary: st)
  case (Cons x os)
  from Cons.prems show ?case
    by (auto simp: Let_def bind_eq_Some_conv split: if_splits dest!: Cons.IH)
qed simp

lemma push_children_visited:
  "push_children t i f os st = Some (verdict, st') \<Longrightarrow> wv_visited st' = wv_visited st"
proof (induction os arbitrary: st)
  case (Cons x os)
  from Cons.prems show ?case
    by (auto simp: bind_eq_Some_conv case_prod_beta split: if_splits dest!: Cons.IH)
qed simp

lemma claim_reservation_visited:
  "claim_reservation w t i node st = Some (verdict, st') \<Longrightarrow> wv_visited st' = wv_visited st"
  by (auto simp: claim_reservation_def Let_def bind_eq_Some_conv split: if_splits)

lemma visit_node_visited:
  assumes "visit_node w t n i node st = Some (verdict, st')"
  shows "wv_visited st' = wv_visited st"
proof (cases "vn_container node")
  case CK_tuple
  then show ?thesis
    using assms
    by (auto simp: visit_node_def visit_tuple_def Let_def split: if_splits elim!: and_then_Some
        dest!: claim_children_visited claim_reservation_visited push_children_visited)
next
  case CK_vector
  then show ?thesis
    using assms
    by (auto simp: visit_node_def visit_vector_def Let_def bind_eq_Some_conv split: if_splits)
qed (use assms in \<open>auto simp: visit_node_def visit_scalar_def\<close>)

lemma traversal_step_decreases:
  assumes "traversal_step w v n st = Some (Continue, st')"
  shows "unseen_count (wv_visited st') < unseen_count (wv_visited st)"
  using assms
  by (auto simp: traversal_step_def Let_def bind_eq_Some_conv split: if_splits
      dest!: visit_node_visited intro: unseen_count_put)

function traversal_loop ::
    "resource_world \<Rightarrow> bennu_value \<Rightarrow> nat \<Rightarrow> value_workspace
      \<Rightarrow> (traversal_verdict \<times> value_workspace) option" where
  "traversal_loop w v node_count st =
     (if array_size (wv_stack st) = 0 then Some (Continue, st)
      else case traversal_step w v node_count st of
             None \<Rightarrow> None
           | Some (verdict, st') \<Rightarrow>
               if verdict = Continue then traversal_loop w v node_count st'
               else Some (verdict, st'))"
  by pat_completeness auto
termination
  by (relation "measure (\<lambda>(w, v, n, st). unseen_count (wv_visited st))")
     (auto intro: traversal_step_decreases)

declare traversal_loop.simps [simp del]

text \<open>The loops over the marks after the walk.\<close>

definition orphan_verdict :: "nat \<Rightarrow> value_workspace \<Rightarrow> traversal_verdict" where
  "orphan_verdict root_index st =
     (case first_unmarked 0 (host_array_span (wv_visited st)) of
        Some index \<Rightarrow> Reject VI_orphan_value_node index None
      | None \<Rightarrow>
     (case first_unmarked 0 (host_array_span (wv_edge_owners st)) of
        Some index \<Rightarrow> Reject VI_orphan_tuple_edge root_index (Some index)
      | None \<Rightarrow>
     (case first_unmarked 0 (host_array_span (wv_payload_owners st)) of
        Some index \<Rightarrow> Reject VI_orphan_vector_payload_handle root_index None
      | None \<Rightarrow>
     (case first_unmarked 0 (host_array_span (wv_reservation_owners st)) of
        Some index \<Rightarrow> Reject VI_orphan_tuple_reservation root_index None
      | None \<Rightarrow> Continue))))"

definition traverse ::
    "resource_world \<Rightarrow> bennu_value \<Rightarrow> nat \<Rightarrow> value_workspace
      \<Rightarrow> (traversal_verdict \<times> value_workspace) option" where
  "traverse w v node_count st =
     (let root_index = tv_root_index (va_tuple v)
      in case push_validation_work (wv_stack st)
                \<lparr>vw_node_index = root_index, vw_parent_index = size_max, vw_child_offset = 0\<rparr> of
           (pushed, stack) \<Rightarrow>
             if pushed \<noteq> HR_none then Some (Refuse pushed, st)
             else and_then (traversal_loop w v node_count (st\<lparr>wv_stack := stack\<rparr>))
                    (\<lambda>st. Some (orphan_verdict root_index st, st)))"

definition traversal_result ::
    "nat \<Rightarrow> host_state \<Rightarrow> traversal_verdict \<Rightarrow> value_workspace
      \<Rightarrow> (value_validation_result \<times> host_state) option" where
  "traversal_result node_count h verdict st =
     (case verdict of
        Continue \<Rightarrow> Some (valid_value, h)
      | Refuse e \<Rightarrow> Some (value_resource_failure e, h)
      | Reject invariant node_index edge_index \<Rightarrow>
          invalid_at node_count st h invariant node_index edge_index)"

section \<open>Validation of values\<close>

text \<open>The arrays of the walk: one mark for every node, edge, payload and reservation.\<close>

definition allocate_workspace ::
    "tuple_value \<Rightarrow> nat \<Rightarrow> host_state
      \<Rightarrow> (host_resource_error_reason \<times> value_workspace) \<times> host_state" where
  "allocate_workspace t node_count h =
     (let edge_count = array_size (tv_child_indexes t);
          payload_count = array_size (tv_vector_payloads t);
          reservation_count = array_size (tv_reservations t) + 1
      in case allocate_within HR_none layout_u8 h node_count of
           (e, visited, h) \<Rightarrow>
         case allocate_within e layout_u8 h edge_count of (e, edge_owners, h) \<Rightarrow>
         case allocate_within e layout_size h node_count of (e, parent_count, h) \<Rightarrow>
         case allocate_within e layout_u8 h payload_count of (e, payload_owners, h) \<Rightarrow>
         case allocate_within e layout_u8 h reservation_count of (e, reservation_owners, h) \<Rightarrow>
         case allocate_within e layout_size h node_count of (e, path_parents, h) \<Rightarrow>
         case allocate_within e layout_size h node_count of (e, path_offsets, h) \<Rightarrow>
         case allocate_within e layout_validation_work h (edge_count + 1) of (e, stack, h) \<Rightarrow>
           ((e, \<lparr>wv_visited = visited, wv_edge_owners = edge_owners,
                 wv_parent_count = parent_count, wv_payload_owners = payload_owners,
                 wv_reservation_owners = reservation_owners, wv_path_parents = path_parents,
                 wv_path_offsets = path_offsets, wv_stack = stack\<rparr>), h))"

definition fill_workspace ::
    "tuple_value \<Rightarrow> nat \<Rightarrow> value_workspace \<Rightarrow> host_resource_error_reason \<times> value_workspace" where
  "fill_workspace t node_count st =
     (case host_array_fill (wv_visited st) node_count 0 of (f, visited) \<Rightarrow>
      case fill_next f (wv_edge_owners st) (array_size (tv_child_indexes t)) 0 of
        (f, edge_owners) \<Rightarrow>
      case fill_next f (wv_parent_count st) node_count 0 of (f, parent_count) \<Rightarrow>
      case fill_next f (wv_payload_owners st) (array_size (tv_vector_payloads t)) 0 of
        (f, payload_owners) \<Rightarrow>
      case fill_next f (wv_reservation_owners st) (array_size (tv_reservations t) + 1) 0 of
        (f, reservation_owners) \<Rightarrow>
      case fill_next f (wv_path_parents st) node_count size_max of (f, path_parents) \<Rightarrow>
      case fill_next f (wv_path_offsets st) node_count 0 of (f, path_offsets) \<Rightarrow>
        (f, st\<lparr>wv_visited := visited, wv_edge_owners := edge_owners,
               wv_parent_count := parent_count, wv_payload_owners := payload_owners,
               wv_reservation_owners := reservation_owners, wv_path_parents := path_parents,
               wv_path_offsets := path_offsets\<rparr>))"

definition validate_with_traversal ::
    "resource_world \<Rightarrow> bennu_value \<Rightarrow> nat
      \<Rightarrow> (value_validation_result \<times> host_state) option" where
  "validate_with_traversal w v node_count =
     (case begin_host_allocation (rw_host w) of
        (begun, h) \<Rightarrow>
          if begun \<noteq> HR_none then Some (value_resource_failure begun, h)
          else case allocate_workspace (va_tuple v) node_count h of
            ((allocated, st), h) \<Rightarrow>
              if allocated \<noteq> HR_none then Some (value_resource_failure allocated, h)
              else case fill_workspace (va_tuple v) node_count st of
                (filled, st) \<Rightarrow>
                  if filled \<noteq> HR_none then Some (value_resource_failure filled, h)
                  else case traverse w v node_count st of
                    None \<Rightarrow> None
                  | Some (verdict, st) \<Rightarrow> traversal_result node_count h verdict st)"

definition exceeds_maximum :: "host_state \<Rightarrow> tuple_value \<Rightarrow> nat \<Rightarrow> bool" where
  "exceeds_maximum h t node_count \<longleftrightarrow>
     (case max_container_elements h of
        None \<Rightarrow> False
      | Some maximum \<Rightarrow>
          node_count > maximum \<or> array_size (tv_child_indexes t) > maximum
          \<or> array_size (tv_vector_payloads t) > maximum
          \<or> array_size (tv_reservations t) = size_max
          \<or> array_size (tv_reservations t) + 1 > maximum
          \<or> array_size (tv_child_indexes t) = size_max
          \<or> array_size (tv_child_indexes t) + 1 > maximum)"

definition validate_tuple ::
    "resource_world \<Rightarrow> bennu_value \<Rightarrow> (value_validation_result \<times> host_state) option" where
  "validate_tuple w v =
     (let t = va_tuple v; root_index = tv_root_index t; h = rw_host w
      in if array_size (tv_nodes t) = size_max
         then Some (invalid_value VI_invalid_value_root root_index None, h)
         else
           let node_count = array_size (tv_nodes t) + 1
           in if root_index \<ge> node_count
              then Some (invalid_value VI_invalid_value_root root_index None, h)
              else if root_index \<noteq> node_count - 1
              then Some (invalid_value VI_nonfinal_value_root root_index None, h)
              else if \<not> is_empty_scalar (va_scalar v)
              then Some (invalid_value VI_inactive_scalar_field root_index None, h)
              else if \<not> vector_fields_empty (va_vector v)
              then Some (invalid_value VI_inactive_vector_payload root_index None, h)
              else if exceeds_maximum h t node_count
              then Some (value_resource_failure HR_size_overflow, h)
              else if array_size (tv_reservations t) = size_max
                      \<or> array_size (tv_child_indexes t) = size_max
              then Some (value_resource_failure HR_size_overflow, h)
              else validate_with_traversal w v node_count)"

definition validate_value_injected ::
    "resource_world \<Rightarrow> bennu_value \<Rightarrow> (value_validation_result \<times> resource_world) option" where
  "validate_value_injected w v =
     (case validate_untraversed w v of
        Some r \<Rightarrow> Some (r, w)
      | None \<Rightarrow> map_option (\<lambda>(r, h). (r, w\<lparr>rw_host := h\<rparr>)) (validate_tuple w v))"

text \<open>The overloads without a failure injection have one of their own that never fails; the
  calls of \<open>malloc\<close> they make are those of the process.\<close>

definition fresh_injection :: "host_state \<Rightarrow> host_state" where
  "fresh_injection h =
     h\<lparr>fail_at_allocation_ordinal := None, allocation_ordinal := 0,
       max_container_elements := None\<rparr>"

definition uninjected ::
    "(resource_world \<Rightarrow> ('a \<times> resource_world) option) \<Rightarrow> resource_world
      \<Rightarrow> ('a \<times> resource_world) option" where
  "uninjected operation w =
     map_option
       (\<lambda>(r, w'). (r, w'\<lparr>rw_host := (rw_host w)\<lparr>malloc_calls := malloc_calls (rw_host w')\<rparr>\<rparr>))
       (operation (w\<lparr>rw_host := fresh_injection (rw_host w)\<rparr>))"

definition validate_value ::
    "resource_world \<Rightarrow> bennu_value \<Rightarrow> (value_validation_result \<times> resource_world) option" where
  "validate_value w v = uninjected (\<lambda>w. validate_value_injected w v) w"

section \<open>Access\<close>

record scalar_projection_result =
  pj_ok :: bool
  pj_value :: scalar_value
  pj_error :: value_access_error

definition projection_failure :: "value_access_error \<Rightarrow> scalar_projection_result" where
  "projection_failure e = \<lparr>pj_ok = False, pj_value = empty_scalar, pj_error = e\<rparr>"

definition project_scalar ::
    "resource_world \<Rightarrow> bennu_value \<Rightarrow> nat \<Rightarrow> (scalar_projection_result \<times> resource_world) option" where
  "project_scalar w v index =
     do {
       (validation, w) \<leftarrow> validate_value w v;
       Some ((if \<not> vr_ok validation then projection_failure VE_invalid_value
              else case va_container v of
                CK_scalar \<Rightarrow> \<lparr>pj_ok = True, pj_value = va_scalar v, pj_error = VE_none\<rparr>
              | CK_tuple \<Rightarrow> projection_failure VE_container_mismatch
              | _ \<Rightarrow>
                  (case vector_element (va_vector v) index of
                     Inl s \<Rightarrow> \<lparr>pj_ok = True, pj_value = s, pj_error = VE_none\<rparr>
                   | Inr e \<Rightarrow> projection_failure e)), w)
     }"

text \<open>The accessors of the attributes of a value: an invalid value gives its own report, a tuple
  has none of them.\<close>

definition value_attribute ::
    "(bennu_value \<Rightarrow> 'a) \<Rightarrow> 'a \<Rightarrow> resource_world \<Rightarrow> bennu_value
      \<Rightarrow> ((value_validation_result \<times> 'a) \<times> resource_world) option" where
  "value_attribute attribute fallback w v =
     do {
       (validation, w) \<leftarrow> validate_value w v;
       Some ((if \<not> vr_ok validation then (validation, fallback)
              else if va_container v = CK_tuple
              then (valid_value\<lparr>vr_ok := False, vr_error := VE_container_mismatch\<rparr>, fallback)
              else (validation, attribute v)), w)
     }"

definition value_element_type ::
    "resource_world \<Rightarrow> bennu_value
      \<Rightarrow> ((value_validation_result \<times> scalar_type) \<times> resource_world) option" where
  "value_element_type =
     value_attribute
       (\<lambda>v. if va_container v = CK_scalar then sv_type (va_scalar v)
            else vv_element_type (va_vector v)) ST_boolean"

definition value_rank ::
    "resource_world \<Rightarrow> bennu_value
      \<Rightarrow> ((value_validation_result \<times> nat) \<times> resource_world) option" where
  "value_rank = value_attribute (\<lambda>v. if va_container v = CK_scalar then 0 else 1) 0"

definition value_length ::
    "resource_world \<Rightarrow> bennu_value
      \<Rightarrow> ((value_validation_result \<times> nat) \<times> resource_world) option" where
  "value_length =
     value_attribute
       (\<lambda>v. if va_container v = CK_scalar then 1 else active_vector_length (va_vector v)) 0"

text \<open>What the accessors of tuples report of an invalid value, before their own outcome.\<close>

definition reported_error :: "value_validation_result \<Rightarrow> value_access_error" where
  "reported_error validation =
     (if vr_resource_error validation = HR_none then VE_invalid_value else VE_none)"

definition access_failure ::
    "value_validation_result \<Rightarrow> value_validation_result" where
  "access_failure validation =
     validation\<lparr>vr_ok := False, vr_error := reported_error validation\<rparr>"

definition value_tuple_arity ::
    "resource_world \<Rightarrow> bennu_value
      \<Rightarrow> ((value_validation_result \<times> nat) \<times> resource_world) option" where
  "value_tuple_arity w v =
     do {
       (validation, w) \<leftarrow> validate_value w v;
       Some ((if \<not> vr_ok validation then (access_failure validation, 0)
              else if va_container v \<noteq> CK_tuple
              then (valid_value\<lparr>vr_ok := False, vr_error := VE_container_mismatch\<rparr>, 0)
              else (valid_value, tv_child_count (va_tuple v))), w)
     }"

text \<open>A borrowed view: the value it looks into, absent for a null pointer, and a node.\<close>

record borrowed_value_view =
  bv_owner :: "bennu_value option"
  bv_node_index :: nat

definition no_view :: borrowed_value_view where
  "no_view = \<lparr>bv_owner = None, bv_node_index = 0\<rparr>"

definition value_tuple_element ::
    "resource_world \<Rightarrow> bennu_value \<Rightarrow> nat
      \<Rightarrow> ((value_validation_result \<times> borrowed_value_view) \<times> resource_world) option" where
  "value_tuple_element w v index =
     do {
       (validation, w) \<leftarrow> validate_value w v;
       if \<not> vr_ok validation then Some ((access_failure validation, no_view), w)
       else if va_container v \<noteq> CK_tuple
       then Some ((valid_value\<lparr>vr_ok := False, vr_error := VE_container_mismatch\<rparr>, no_view), w)
       else if index \<ge> tv_child_count (va_tuple v)
       then Some ((valid_value\<lparr>vr_ok := False, vr_error := VE_index_out_of_bounds\<rparr>, no_view), w)
       else do {
         child \<leftarrow> host_array_at (tv_child_indexes (va_tuple v)) (tv_first_child (va_tuple v) + index);
         Some ((valid_value, \<lparr>bv_owner = Some v, bv_node_index = child\<rparr>), w)
       }
     }"

section \<open>The type of a value\<close>

record value_type_result =
  yt_report :: value_validation_result
  yt_type :: type_arena

definition value_type_failure :: "value_validation_result \<Rightarrow> value_type_result" where
  "value_type_failure report = \<lparr>yt_report = report, yt_type = empty_type\<rparr>"

fun push_mapped ::
    "(nat \<Rightarrow> nat option) \<Rightarrow> nat host_array \<Rightarrow> nat list
      \<Rightarrow> (host_resource_error_reason \<times> nat host_array) option" where
  "push_mapped f a [] = Some (HR_none, a)"
| "push_mapped f a (i # is) =
     do {
       x \<leftarrow> f i;
       case host_array_push a x of
         (e, a) \<Rightarrow> if e \<noteq> HR_none then Some (e, a) else push_mapped f a is
     }"

text \<open>The nodes below the one asked for, marked with a stack.\<close>

record reach_state =
  rc_reachable :: "u8 host_array"
  rc_stack :: "nat host_array"

definition reach_step ::
    "bennu_value \<Rightarrow> reach_state \<Rightarrow> (host_resource_error_reason \<times> reach_state) option" where
  "reach_step v st =
     do {
       node_index \<leftarrow> host_array_at (rc_stack st) (array_size (rc_stack st) - 1);
       let st = st\<lparr>rc_stack := host_array_pop (rc_stack st)\<rparr> in
       do {
         seen \<leftarrow> host_array_at (rc_reachable st) node_index;
         if seen \<noteq> 0 then Some (HR_none, st)
         else do {
           reachable \<leftarrow> host_array_put (rc_reachable st) node_index 1;
           node \<leftarrow> node_at v node_index;
           let st = st\<lparr>rc_reachable := reachable\<rparr> in
           if vn_container node \<noteq> CK_tuple then Some (HR_none, st)
           else map_option (\<lambda>(e, stack). (e, st\<lparr>rc_stack := stack\<rparr>))
                  (push_mapped
                     (\<lambda>offset. host_array_at (tv_child_indexes (va_tuple v))
                                 (vn_first_child node + offset))
                     (rc_stack st) [0..<vn_child_count node])
         }
       }
     }"

lemma reach_step_decreases:
  assumes "reach_step v st = Some (e, st')" and "array_size (rc_stack st) \<noteq> 0"
  shows "unseen_count (rc_reachable st') < unseen_count (rc_reachable st)
    \<or> rc_reachable st' = rc_reachable st
      \<and> array_size (rc_stack st') < array_size (rc_stack st)"
  using assms
  by (auto simp: reach_step_def Let_def bind_eq_Some_conv host_array_pop_def split: if_splits
      intro: unseen_count_put)

function reach_loop ::
    "bennu_value \<Rightarrow> reach_state \<Rightarrow> (host_resource_error_reason \<times> reach_state) option" where
  "reach_loop v st =
     (if array_size (rc_stack st) = 0 then Some (HR_none, st)
      else case reach_step v st of
             None \<Rightarrow> None
           | Some (e, st') \<Rightarrow> if e \<noteq> HR_none then Some (e, st') else reach_loop v st')"
  by pat_completeness auto
termination
  by (relation "measures [\<lambda>(v, st). unseen_count (rc_reachable st),
                           \<lambda>(v, st). array_size (rc_stack st)]")
     (use reach_step_decreases in fastforce)+

declare reach_loop.simps [simp del]

record type_building =
  tb_nodes :: "type_node host_array"
  tb_child_indexes :: "nat host_array"
  tb_index_map :: "nat host_array"

text \<open>The type node of one node of the value: the children of a tuple are the type nodes already
  built for them.\<close>

definition type_node_of ::
    "bennu_value \<Rightarrow> value_node \<Rightarrow> type_building
      \<Rightarrow> (host_resource_error_reason \<times> type_node \<times> type_building) option" where
  "type_node_of v node st =
     (case vn_container node of
        CK_scalar \<Rightarrow>
          Some (HR_none, \<lparr>tn_kind = TK_scalar, tn_scalar = sv_type (vn_scalar node),
                          tn_first_child = 0, tn_child_count = 0\<rparr>, st)
      | CK_vector \<Rightarrow>
          do {
            payload \<leftarrow> host_array_at (tv_vector_payloads (va_tuple v)) (vn_vector_payload_index node);
            Some (HR_none, \<lparr>tn_kind = TK_vector, tn_scalar = vv_element_type payload,
                            tn_first_child = 0, tn_child_count = 0\<rparr>, st)
          }
      | _ \<Rightarrow>
          map_option
            (\<lambda>(e, child_indexes).
               (e, \<lparr>tn_kind = TK_tuple, tn_scalar = ST_boolean,
                    tn_first_child = array_size (tb_child_indexes st),
                    tn_child_count = vn_child_count node\<rparr>,
                st\<lparr>tb_child_indexes := child_indexes\<rparr>))
            (push_mapped
               (\<lambda>offset. do {
                  child \<leftarrow> host_array_at (tv_child_indexes (va_tuple v))
                             (vn_first_child node + offset);
                  host_array_at (tb_index_map st) child })
               (tb_child_indexes st) [0..<vn_child_count node]))"

fun build_type_nodes ::
    "bennu_value \<Rightarrow> u8 host_array \<Rightarrow> nat list \<Rightarrow> type_building
      \<Rightarrow> (host_resource_error_reason \<times> type_building) option" where
  "build_type_nodes v reachable [] st = Some (HR_none, st)"
| "build_type_nodes v reachable (node_index # indexes) st =
     do {
       mark \<leftarrow> host_array_at reachable node_index;
       if mark = 0 then build_type_nodes v reachable indexes st
       else do {
         node \<leftarrow> node_at v node_index;
         (e, type_node, st) \<leftarrow> type_node_of v node st;
         if e \<noteq> HR_none then Some (e, st)
         else do {
           index_map \<leftarrow> host_array_put (tb_index_map st) node_index (array_size (tb_nodes st));
           case host_array_push (tb_nodes st) type_node of
             (e, nodes) \<Rightarrow>
               let st = st\<lparr>tb_index_map := index_map, tb_nodes := nodes\<rparr> in
               if e \<noteq> HR_none then Some (e, st)
               else build_type_nodes v reachable indexes st
         }
       }
     }"

definition tuple_type_arena ::
    "bennu_value \<Rightarrow> nat \<Rightarrow> reach_state \<Rightarrow> type_building \<Rightarrow> value_type_result option" where
  "tuple_type_arena v requested_root reach building =
     do {
       (e, reach) \<leftarrow> reach_loop v reach;
       if e \<noteq> HR_none then Some (value_type_failure (value_resource_failure e))
       else do {
         (e, building) \<leftarrow>
           build_type_nodes v (rc_reachable reach) [0..<requested_root + 1] building;
         if e \<noteq> HR_none then Some (value_type_failure (value_resource_failure e))
         else do {
           root \<leftarrow> host_array_at (tb_index_map building) requested_root;
           Some \<lparr>yt_report = valid_value,
                 yt_type = \<lparr>ta_nodes = tb_nodes building,
                            ta_child_indexes = tb_child_indexes building,
                            ta_root_index = root, ta_inline_leaf = None\<rparr>\<rparr>
         }
       }
     }"

definition tuple_type_for_node ::
    "bennu_value \<Rightarrow> nat \<Rightarrow> host_state \<Rightarrow> (value_type_result \<times> host_state) option" where
  "tuple_type_for_node v requested_root h =
     (let logical_count = array_size (tv_nodes (va_tuple v)) + 1
      in case allocate_within HR_none layout_u8 h logical_count of
           (e, reachable, h) \<Rightarrow>
         case allocate_within e layout_size h logical_count of (e, stack, h) \<Rightarrow>
         case allocate_within e layout_size h logical_count of (e, index_map, h) \<Rightarrow>
         case allocate_within e layout_type_node h logical_count of (e, nodes, h) \<Rightarrow>
         case allocate_within e layout_size h (array_size (tv_child_indexes (va_tuple v))) of
           (e, child_indexes, h) \<Rightarrow>
         if e \<noteq> HR_none then Some (value_type_failure (value_resource_failure e), h)
         else
           case host_array_fill reachable logical_count 0 of (f, reachable) \<Rightarrow>
           case fill_next f index_map logical_count 0 of (f, index_map) \<Rightarrow>
           case (if f = HR_none then host_array_push stack requested_root else (f, stack)) of
             (f, stack) \<Rightarrow>
           if f \<noteq> HR_none then Some (value_type_failure (value_resource_failure f), h)
           else map_option (\<lambda>r. (r, h))
                  (tuple_type_arena v requested_root
                     \<lparr>rc_reachable = reachable, rc_stack = stack\<rparr>
                     \<lparr>tb_nodes = nodes, tb_child_indexes = child_indexes,
                      tb_index_map = index_map\<rparr>))"

definition leaf_type :: "bennu_value \<Rightarrow> type_arena" where
  "leaf_type v =
     (if va_container v = CK_scalar then make_scalar_type (sv_type (va_scalar v))
      else make_vector_type (vv_element_type (va_vector v)))"

definition type_for_value_node ::
    "bennu_value \<Rightarrow> nat \<Rightarrow> host_state \<Rightarrow> (value_type_result \<times> host_state) option" where
  "type_for_value_node v requested_root h =
     (case begin_host_allocation h of
        (begun, h) \<Rightarrow>
          if begun \<noteq> HR_none then Some (value_type_failure (value_resource_failure begun), h)
          else if va_container v \<noteq> CK_tuple
          then Some ((case max_container_elements h of
                        None \<Rightarrow> \<lparr>yt_report = valid_value, yt_type = leaf_type v\<rparr>
                      | Some maximum \<Rightarrow>
                          if maximum < 1
                          then value_type_failure (value_resource_failure HR_size_overflow)
                          else \<lparr>yt_report = valid_value, yt_type = leaf_type v\<rparr>), h)
          else tuple_type_for_node v requested_root h)"

definition type_of_value_injected ::
    "resource_world \<Rightarrow> bennu_value \<Rightarrow> (value_type_result \<times> resource_world) option" where
  "type_of_value_injected w v =
     do {
       (validation, w) \<leftarrow> validate_value_injected w v;
       if \<not> vr_ok validation then Some (value_type_failure (access_failure validation), w)
       else map_option (\<lambda>(r, h). (r, w\<lparr>rw_host := h\<rparr>))
              (type_for_value_node v
                 (if va_container v = CK_tuple then tv_root_index (va_tuple v) else 0) (rw_host w))
     }"

definition type_of_value ::
    "resource_world \<Rightarrow> bennu_value \<Rightarrow> (value_type_result \<times> resource_world) option" where
  "type_of_value w v = uninjected (\<lambda>w. type_of_value_injected w v) w"

definition type_of_view_injected ::
    "resource_world \<Rightarrow> borrowed_value_view \<Rightarrow> (value_type_result \<times> resource_world) option" where
  "type_of_view_injected w view =
     (case bv_owner view of
        None \<Rightarrow>
          Some (value_type_failure
                  (valid_value\<lparr>vr_ok := False, vr_invariant := VI_invalid_value_root,
                               vr_error := VE_invalid_value\<rparr>), w)
      | Some v \<Rightarrow>
          do {
            (validation, w) \<leftarrow> validate_value_injected w v;
            if \<not> vr_ok validation
            then Some (value_type_failure (access_failure validation), w)
            else if va_container v \<noteq> CK_tuple
                    \<or> bv_node_index view \<ge> array_size (tv_nodes (va_tuple v))
            then Some (value_type_failure
                         (valid_value\<lparr>vr_ok := False, vr_invariant := VI_invalid_value_root,
                                      vr_error := VE_invalid_value,
                                      vr_node_index := Some (bv_node_index view)\<rparr>), w)
            else map_option (\<lambda>(r, h). (r, w\<lparr>rw_host := h\<rparr>))
                   (type_for_value_node v (bv_node_index view) (rw_host w))
          })"

definition type_of_view ::
    "resource_world \<Rightarrow> borrowed_value_view \<Rightarrow> (value_type_result \<times> resource_world) option" where
  "type_of_view w view = uninjected (\<lambda>w. type_of_view_injected w view) w"

end
