(* ===== verification/Application.thy ===== *)
theory Application
  imports ValueTraversal Resources Lowering
begin

text \<open>
  Application of a primitive to values (src/application.cpp, src/typed_application.hpp,
  include/bennu/application.hpp): the arguments are validated, a signature is selected or, for
  a lowered call, given, the lengths of the vectors are compared, the result is reserved, and
  the scalar kernel is run on every index. A failure after the reservation releases it.

  \<^item> An argument is a whole value or a node of a tuple that the value owns.
  \<^item> Reads outside a table or a buffer are undefined in the code and are \<open>None\<close>.
\<close>

section \<open>Arguments\<close>

record typed_argument =
  pa_owner :: bennu_value
  pa_node :: "nat option"

record application_context =
  ap_resources :: evaluation_resources
  ap_invocations :: nat

record application_result =
  pr_ok :: bool
  pr_value :: bennu_value
  pr_error :: error

definition maximum_application_arity :: nat where
  "maximum_application_arity = 2"

definition argument_node :: "typed_argument \<Rightarrow> nat \<Rightarrow> value_node option" where
  "argument_node a i = host_array_at (tv_nodes (va_tuple (pa_owner a))) i"

definition typed_argument_container :: "typed_argument \<Rightarrow> container_kind option" where
  "typed_argument_container a =
     (case pa_node a of
        None \<Rightarrow> Some (va_container (pa_owner a))
      | Some i \<Rightarrow> map_option vn_container (argument_node a i))"

definition typed_argument_vector :: "typed_argument \<Rightarrow> vector_value option" where
  "typed_argument_vector a =
     (case pa_node a of
        None \<Rightarrow> Some (va_vector (pa_owner a))
      | Some i \<Rightarrow>
          do { node \<leftarrow> argument_node a i;
               host_array_at (tv_vector_payloads (va_tuple (pa_owner a)))
                 (vn_vector_payload_index node) })"

definition typed_argument_scalar :: "typed_argument \<Rightarrow> scalar_value option" where
  "typed_argument_scalar a =
     (case pa_node a of
        None \<Rightarrow> Some (va_scalar (pa_owner a))
      | Some i \<Rightarrow> map_option vn_scalar (argument_node a i))"

definition typed_argument_type ::
    "resource_world \<Rightarrow> typed_argument \<Rightarrow> (value_type_result \<times> resource_world) option" where
  "typed_argument_type w a =
     (case pa_node a of
        None \<Rightarrow> type_of_value w (pa_owner a)
      | Some i \<Rightarrow> type_of_view w \<lparr>bv_owner = Some (pa_owner a), bv_node_index = i\<rparr>)"

section \<open>Errors\<close>

definition application_failure :: "error \<Rightarrow> application_result" where
  "application_failure e = \<lparr>pr_ok = False, pr_value = make_int_value 0, pr_error = e\<rparr>"

definition application_success :: "bennu_value \<Rightarrow> application_result" where
  "application_success v = \<lparr>pr_ok = True, pr_value = v, pr_error = no_error\<rparr>"

definition primitive_error ::
    "resource_world \<Rightarrow> error_kind \<Rightarrow> primitive_descriptor \<Rightarrow> source_location
      \<Rightarrow> error \<times> resource_world" where
  "primitive_error w kind descriptor location =
     (case make_primitive_error_context (rw_host w) (pd_name descriptor)
             (Some (pd_id descriptor)) of
        (context, h) \<Rightarrow>
          ((make_error kind location)\<lparr>er_primitive := context\<rparr>, w\<lparr>rw_host := h\<rparr>))"

definition host_resource_error ::
    "resource_world \<Rightarrow> evaluation_resources \<Rightarrow> primitive_descriptor
      \<Rightarrow> host_resource_error_reason \<Rightarrow> source_location \<Rightarrow> error \<times> resource_world" where
  "host_resource_error w ev descriptor reason location =
     (case primitive_error w EK_resource_error descriptor location of
        (e, w) \<Rightarrow>
          (e\<lparr>er_resource := Some (plain_context (execution_profile_name (ac_profile ev))
                (if reason = HR_size_overflow then RE_size_overflow
                 else RE_allocation_unavailable) None None)\<rparr>, w))"

definition application_arity_error ::
    "resource_world \<Rightarrow> primitive_descriptor \<Rightarrow> nat \<Rightarrow> source_location
      \<Rightarrow> error \<times> resource_world" where
  "application_arity_error w descriptor supplied location =
     (case primitive_error w EK_arity_error descriptor location of
        (e, w) \<Rightarrow>
          (e\<lparr>er_arity := Some \<lparr>ax_supplied = supplied,
                               ax_accepted = accepted_arities descriptor\<rparr>\<rparr>, w))"

definition type_accepts ::
    "primitive_descriptor \<Rightarrow> primitive_signature \<Rightarrow> nat \<Rightarrow> container_kind \<Rightarrow> scalar_type
      \<Rightarrow> bool" where
  "type_accepts descriptor signature argument_index container actual_type =
     (let parameter = ps_parameters signature ! argument_index
      in if container = CK_tuple then False
         else if pd_lifting descriptor = LM_none
         then vt_container parameter = container \<and> vt_element parameter = actual_type
         else actual_type = vt_element parameter
              \<or> actual_type = ST_integer \<and> vt_element parameter = ST_double_precision)"

text \<open>The types of the arguments: one that is invalid is left out, one whose type finds no room
  ends the report.\<close>

fun argument_types ::
    "resource_world \<Rightarrow> nat \<Rightarrow> typed_argument list
      \<Rightarrow> (((host_resource_error_reason \<times> nat) + type_arena list) \<times> resource_world) option"
where
  "argument_types w index [] = Some (Inr [], w)"
| "argument_types w index (a # as) =
     do {
       (actual, w) \<leftarrow> typed_argument_type w a;
       if \<not> vr_ok (yt_report actual) \<and> vr_resource_error (yt_report actual) \<noteq> HR_none
       then Some (Inl (vr_resource_error (yt_report actual), index), w)
       else do {
         (types, w) \<leftarrow> argument_types w (index + 1) as;
         Some (map_sum id
                 ((@) (if vr_ok (yt_report actual) then [yt_type actual] else [])) types, w)
       }
     }"

fun first_rejected ::
    "primitive_descriptor \<Rightarrow> primitive_signature list \<Rightarrow> nat
      \<Rightarrow> (typed_argument \<times> scalar_type) list \<Rightarrow> nat option option" where
  "first_rejected descriptor candidates argument_index [] = Some None"
| "first_rejected descriptor candidates argument_index ((a, actual_type) # as) =
     (if candidates = [] then Some None
      else do {
        container \<leftarrow> typed_argument_container a;
        let remaining = filter (\<lambda>candidate.
              type_accepts descriptor candidate argument_index container actual_type) candidates in
        if remaining = [] then Some (Some (argument_index + 1))
        else first_rejected descriptor remaining (argument_index + 1) as
      })"

definition application_type_error ::
    "resource_world \<Rightarrow> evaluation_resources \<Rightarrow> primitive_descriptor \<Rightarrow> typed_argument list
      \<Rightarrow> scalar_type list \<Rightarrow> source_location \<Rightarrow> (error \<times> resource_world) option" where
  "application_type_error w ev descriptor arguments supplied_types location =
     (case primitive_error w EK_type_mismatch descriptor location of
        (e, w) \<Rightarrow>
          do {
            (types, w) \<leftarrow> argument_types w 0 arguments;
            case types of
              Inl (reason, index) \<Rightarrow>
                (case host_resource_error w ev descriptor reason location of
                   (e, w) \<Rightarrow> Some (e\<lparr>er_argument_position := Some (index + 1)\<rparr>, w))
            | Inr types \<Rightarrow>
                let candidates = filter (\<lambda>s. length (ps_parameters s) = length arguments)
                                   (pd_signatures descriptor) in
                do {
                  position \<leftarrow> first_rejected descriptor candidates 0 (zip arguments supplied_types);
                  Some (e\<lparr>er_argument_position := position,
                          er_type := Some
                            \<lparr>tx_actual_arguments = types,
                             tx_accepted_signatures = map accepted_signature candidates\<rparr>\<rparr>, w)
                }
          })"

section \<open>Elements\<close>

definition value_from_scalar :: "scalar_value \<Rightarrow> bennu_value" where
  "value_from_scalar s =
     (case sv_type s of
        ST_boolean \<Rightarrow> make_bool_value (sv_boolean s)
      | ST_integer \<Rightarrow> make_int_value (sv_integer s)
      | ST_double_precision \<Rightarrow> make_double_value (sv_double s)
      | ST_unknown _ \<Rightarrow> make_int_value 0)"

definition put_at :: "'a list \<Rightarrow> nat \<Rightarrow> 'a \<Rightarrow> 'a list option" where
  "put_at xs i x = (if i < length xs then Some (xs[i := x]) else None)"

definition store_scalar ::
    "bennu_value \<Rightarrow> nat \<Rightarrow> scalar_value \<Rightarrow> (bool \<times> bennu_value) option" where
  "store_scalar v index s =
     (let p = va_vector v
      in if va_container v \<noteq> CK_vector \<or> vv_element_type p \<noteq> sv_type s then Some (False, v)
         else case sv_type s of
           ST_boolean \<Rightarrow>
             do { xs \<leftarrow> put_at (bf_contents (vv_booleans p)) index (if sv_boolean s then 1 else 0);
                  Some (True, v\<lparr>va_vector := p\<lparr>vv_booleans :=
                                (vv_booleans p)\<lparr>bf_contents := xs\<rparr>\<rparr>\<rparr>) }
         | ST_integer \<Rightarrow>
             do { xs \<leftarrow> put_at (bf_contents (vv_integers p)) index (sv_integer s);
                  Some (True, v\<lparr>va_vector := p\<lparr>vv_integers :=
                                (vv_integers p)\<lparr>bf_contents := xs\<rparr>\<rparr>\<rparr>) }
         | ST_double_precision \<Rightarrow>
             do { xs \<leftarrow> put_at (bf_contents (vv_doubles p)) index (sv_double s);
                  Some (True, v\<lparr>va_vector := p\<lparr>vv_doubles :=
                                (vv_doubles p)\<lparr>bf_contents := xs\<rparr>\<rparr>\<rparr>) }
         | ST_unknown _ \<Rightarrow> Some (False, v))"

definition stored_scalar :: "vector_value \<Rightarrow> nat \<Rightarrow> scalar_value option" where
  "stored_scalar p index =
     (case vv_element_type p of
        ST_boolean \<Rightarrow>
          map_option (\<lambda>b. bool_scalar (b \<noteq> 0)) (at (bf_contents (vv_booleans p)) index)
      | ST_integer \<Rightarrow> map_option int_scalar (at (bf_contents (vv_integers p)) index)
      | ST_double_precision \<Rightarrow>
          map_option (\<lambda>d. empty_scalar\<lparr>sv_type := ST_double_precision, sv_double := d\<rparr>)
            (at (bf_contents (vv_doubles p)) index)
      | ST_unknown _ \<Rightarrow> Some (int_scalar 0))"

definition project_validated_scalar :: "typed_argument \<Rightarrow> nat \<Rightarrow> scalar_value option" where
  "project_validated_scalar a index =
     do {
       container \<leftarrow> typed_argument_container a;
       if container = CK_scalar then typed_argument_scalar a
       else do { p \<leftarrow> typed_argument_vector a; stored_scalar p index }
     }"

definition validated_vector_length :: "typed_argument \<Rightarrow> nat option" where
  "validated_vector_length a = map_option active_vector_length (typed_argument_vector a)"

section \<open>Validation of the arguments\<close>

text \<open>One argument: its value is validated, the node it names looked up, and the element type
  read. A tuple is no argument of any primitive.\<close>

datatype argument_outcome =
    ElementType scalar_type
  | InvalidArgument error
  | TupleArgument

definition invalid_argument ::
    "resource_world \<Rightarrow> primitive_descriptor \<Rightarrow> nat \<Rightarrow> value_error_context option
      \<Rightarrow> source_location \<Rightarrow> argument_outcome \<times> resource_world" where
  "invalid_argument w descriptor index context location =
     (case primitive_error w EK_invalid_value descriptor location of
        (e, w) \<Rightarrow>
          (InvalidArgument (e\<lparr>er_argument_position := Some (index + 1), er_value := context\<rparr>), w))"

definition validate_argument ::
    "resource_world \<Rightarrow> evaluation_resources \<Rightarrow> primitive_descriptor \<Rightarrow> nat \<Rightarrow> typed_argument
      \<Rightarrow> source_location \<Rightarrow> (argument_outcome \<times> resource_world) option" where
  "validate_argument w ev descriptor index a location =
     do {
       (validation, w) \<leftarrow> validate_value w (pa_owner a);
       if \<not> vr_ok validation
       then Some (if vr_resource_error validation \<noteq> HR_none
                  then (case host_resource_error w ev descriptor (vr_resource_error validation)
                               location of
                          (e, w) \<Rightarrow>
                            (InvalidArgument (e\<lparr>er_argument_position := Some (index + 1)\<rparr>), w))
                  else invalid_argument w descriptor index
                         (Some \<lparr>vx_invariant = vr_invariant validation,
                                vx_path = vr_path validation,
                                vx_node_index = vr_node_index validation,
                                vx_edge_index = vr_edge_index validation\<rparr>) location)
       else if (case pa_node a of
                  None \<Rightarrow> False
                | Some i \<Rightarrow> va_container (pa_owner a) \<noteq> CK_tuple
                            \<or> i \<ge> array_size (tv_nodes (va_tuple (pa_owner a))))
       then Some (invalid_argument w descriptor index
                    (Some \<lparr>vx_invariant = VI_invalid_tuple_child_index, vx_path = [],
                           vx_node_index = pa_node a, vx_edge_index = None\<rparr>) location)
       else do {
         container \<leftarrow> typed_argument_container a;
         case container of
           CK_tuple \<Rightarrow> Some (TupleArgument, w)
         | CK_scalar \<Rightarrow>
             do { s \<leftarrow> typed_argument_scalar a; Some (ElementType (sv_type s), w) }
         | CK_vector \<Rightarrow>
             do { p \<leftarrow> typed_argument_vector a; Some (ElementType (vv_element_type p), w) }
         | CK_unknown _ \<Rightarrow> Some (invalid_argument w descriptor index None location)
       }
     }"

text \<open>The loop over the arguments. The element types seen so far are kept; those not reached
  keep the initial value of the array.\<close>

fun validate_arguments ::
    "resource_world \<Rightarrow> evaluation_resources \<Rightarrow> primitive_descriptor \<Rightarrow> nat
      \<Rightarrow> typed_argument list \<Rightarrow> source_location \<Rightarrow> scalar_type list
      \<Rightarrow> ((error option + scalar_type list) \<times> scalar_type list \<times> resource_world) option" where
  "validate_arguments w ev descriptor index [] location types = Some (Inr types, types, w)"
| "validate_arguments w ev descriptor index (a # as) location types =
     do {
       (outcome, w) \<leftarrow> validate_argument w ev descriptor index a location;
       case outcome of
         ElementType t \<Rightarrow>
           validate_arguments w ev descriptor (index + 1) as location (types[index := t])
       | InvalidArgument e \<Rightarrow> Some (Inl (Some e), types, w)
       | TupleArgument \<Rightarrow> Some (Inl None, types, w)
     }"

section \<open>Structural primitives\<close>

fun arguments_match ::
    "value_type list \<Rightarrow> (typed_argument \<times> scalar_type) list \<Rightarrow> bool option" where
  "arguments_match parameters [] = Some True"
| "arguments_match [] (a # as) = None"
| "arguments_match (parameter # parameters) ((a, actual_type) # as) =
     do {
       container \<leftarrow> typed_argument_container a;
       if vt_container parameter \<noteq> container \<or> vt_element parameter \<noteq> actual_type
       then Some False
       else arguments_match parameters as
     }"

definition matches_arguments ::
    "primitive_signature \<Rightarrow> (typed_argument \<times> scalar_type) list \<Rightarrow> bool option" where
  "matches_arguments signature as =
     (if length (ps_parameters signature) \<noteq> length as then Some False
      else arguments_match (ps_parameters signature) as)"

fun first_matching ::
    "primitive_signature list \<Rightarrow> (typed_argument \<times> scalar_type) list
      \<Rightarrow> primitive_signature option option" where
  "first_matching [] as = Some None"
| "first_matching (signature # signatures) as =
     do {
       matches \<leftarrow> matches_arguments signature as;
       if matches then Some (Some signature) else first_matching signatures as
     }"

fun fill_iota :: "nat list \<Rightarrow> i64 list \<Rightarrow> i64 list option" where
  "fill_iota [] xs = Some xs"
| "fill_iota (i # is) xs = do { xs \<leftarrow> put_at xs i (of_nat i + 1); fill_iota is xs }"

text \<open>An error of a reservation names the primitive; its identity is added here.\<close>

definition identify_primitive :: "primitive_descriptor \<Rightarrow> error \<Rightarrow> error" where
  "identify_primitive descriptor e =
     e\<lparr>er_primitive := map_option (\<lambda>context. context\<lparr>pec_id := Some (pd_id descriptor)\<rparr>)
                        (er_primitive e)\<rparr>"

definition run_iota ::
    "resource_world \<Rightarrow> application_context \<Rightarrow> primitive_descriptor \<Rightarrow> scalar_value
      \<Rightarrow> source_location \<Rightarrow> (application_result \<times> application_context \<times> resource_world) option"
where
  "run_iota w context descriptor operand location =
     (let bound = sint (sv_integer operand);
          element_count = (if bound > 0 then nat bound else 0);
          work_units = (if element_count > size_max then size_max else element_count)
      in case allocate_vector w (ap_resources context) ST_integer element_count work_units
                location (pd_name descriptor) of
           (allocated, ev, w) \<Rightarrow>
             let context = context\<lparr>ap_resources := ev\<rparr> in
             if \<not> al_ok allocated
             then Some (application_failure (identify_primitive descriptor (al_error allocated)),
                        context, w)
             else do {
               xs \<leftarrow> fill_iota [0..<work_units]
                       (bf_contents (vv_integers (va_vector (al_value allocated))));
               let v = al_value allocated; p = va_vector v in
               Some (application_success
                       (v\<lparr>va_vector := p\<lparr>vv_integers := (vv_integers p)\<lparr>bf_contents := xs\<rparr>\<rparr>\<rparr>),
                     context, w)
             })"

definition apply_structural ::
    "resource_world \<Rightarrow> application_context \<Rightarrow> primitive_descriptor
      \<Rightarrow> primitive_signature option \<Rightarrow> typed_argument list \<Rightarrow> scalar_type list
      \<Rightarrow> source_location \<Rightarrow> (application_result \<times> application_context \<times> resource_world) option"
where
  "apply_structural w context descriptor typed_signature arguments supplied_types location =
     do {
       selected \<leftarrow>
         (let as = zip arguments supplied_types in
          case typed_signature of
            Some signature \<Rightarrow>
              do { matches \<leftarrow> matches_arguments signature as;
                   Some (if matches then Some signature else None) }
          | None \<Rightarrow> first_matching (pd_signatures descriptor) as);
       case selected of
         None \<Rightarrow>
           do { (e, w) \<leftarrow> application_type_error w (ap_resources context) descriptor arguments
                            supplied_types location;
                Some (application_failure e, context, w) }
       | Some signature \<Rightarrow>
           if ps_implementation signature \<noteq> IM_iota_integer \<or> pd_id descriptor \<noteq> PI_iota
              \<or> length arguments \<noteq> 1
           then (case primitive_error w EK_invalid_primitive_table descriptor location of
                   (e, w) \<Rightarrow> Some (application_failure e, context, w))
           else do { operand \<leftarrow> typed_argument_scalar (hd arguments);
                     run_iota w context descriptor operand location }
     }"

section \<open>Elementwise primitives\<close>

text \<open>The lengths of the vector arguments: the first sets the length of the result, a later one
  that differs is reported with both.\<close>

fun result_shape ::
    "nat \<Rightarrow> typed_argument list \<Rightarrow> nat option \<Rightarrow> ((nat \<times> nat \<times> nat) + nat option) option" where
  "result_shape index [] shape = Some (Inr shape)"
| "result_shape index (a # as) shape =
     do {
       container \<leftarrow> typed_argument_container a;
       if container \<noteq> CK_vector then result_shape (index + 1) as shape
       else do {
         len \<leftarrow> validated_vector_length a;
         case shape of
           None \<Rightarrow> result_shape (index + 1) as (Some len)
         | Some result_length \<Rightarrow>
             if len \<noteq> result_length then Some (Inl (index, result_length, len))
             else result_shape (index + 1) as shape
       }
     }"

text \<open>The operands at an index, converted to the parameter types: \<open>Some None\<close> when a
  conversion fails.\<close>

fun operands_at ::
    "typed_argument list \<Rightarrow> value_type list \<Rightarrow> nat \<Rightarrow> scalar_value list option option" where
  "operands_at [] parameters index = Some (Some [])"
| "operands_at (a # as) [] index = None"
| "operands_at (a # as) (parameter # parameters) index =
     do {
       projected \<leftarrow> project_validated_scalar a index;
       let converted = convert_scalar projected (vt_element parameter) in
       if sc_status converted \<noteq> SC_success then Some None
       else map_option (map_option (\<lambda>operands. sc_value converted # operands))
              (operands_at as parameters index)
     }"

definition count_invocation :: "application_context \<Rightarrow> application_context" where
  "count_invocation context =
     context\<lparr>ap_invocations := (if ap_invocations context = size_max then 0
                                else ap_invocations context + 1)\<rparr>"

text \<open>The result that a failure abandons is released; what a failed release would leave is
  destroyed with the local variable that holds it.\<close>

definition destroy_buffers :: "resource_world \<Rightarrow> vector_value \<Rightarrow> resource_world" where
  "destroy_buffers w p =
     (let w = release_host_buffer w BE_double (bf_address (vv_doubles p));
          w = release_host_buffer w BE_int64 (bf_address (vv_integers p))
      in release_host_buffer w BE_uint8 (bf_address (vv_booleans p)))"

definition release_result ::
    "resource_world \<Rightarrow> application_context \<Rightarrow> bennu_value
      \<Rightarrow> bennu_value \<times> application_context \<times> resource_world" where
  "release_result w context v =
     (case release_vector_reservation w (ap_resources context) v of
        ((_, left), ev, w) \<Rightarrow> (left, context\<lparr>ap_resources := ev\<rparr>, w))"

definition failed_table ::
    "resource_world \<Rightarrow> application_context \<Rightarrow> error_kind \<Rightarrow> primitive_descriptor
      \<Rightarrow> source_location \<Rightarrow> bennu_value option
      \<Rightarrow> application_result \<times> application_context \<times> resource_world" where
  "failed_table w context kind descriptor location result =
     (case result of
        None \<Rightarrow>
          (case primitive_error w kind descriptor location of
             (e, w) \<Rightarrow> (application_failure e, context, w))
      | Some v \<Rightarrow>
          (case release_result w context v of
             (left, context, w) \<Rightarrow>
               (case primitive_error w kind descriptor location of
                  (e, w) \<Rightarrow>
                    (application_failure e, context, destroy_buffers w (va_vector left)))))"

text \<open>One invocation of the kernel: the scalar it gives, or the failure of the application.\<close>

definition invoke_at ::
    "resource_world \<Rightarrow> application_context \<Rightarrow> primitive_descriptor \<Rightarrow> signature_ref
      \<Rightarrow> primitive_signature \<Rightarrow> typed_argument list \<Rightarrow> nat \<Rightarrow> source_location
      \<Rightarrow> bennu_value option
      \<Rightarrow> ((application_result + scalar_value) \<times> application_context \<times> resource_world) option"
where
  "invoke_at w context descriptor signature_ref signature arguments index location result =
     do {
       operands \<leftarrow> operands_at arguments (ps_parameters signature) index;
       case operands of
         None \<Rightarrow>
           (case failed_table w context EK_type_mismatch descriptor location result of
              (r, context, w) \<Rightarrow> Some (Inl r, context, w))
       | Some operands \<Rightarrow>
           do {
             (kernel, h) \<leftarrow> invoke_scalar_kernel (rw_host w) descriptor signature_ref operands
                              location;
             let context = count_invocation context; w = w\<lparr>rw_host := h\<rparr> in
             if kr_status kernel = KS_success then Some (Inr (kr_value kernel), context, w)
             else case result of
               None \<Rightarrow> Some (Inl (application_failure (kr_error kernel)), context, w)
             | Some v \<Rightarrow>
                 let e = (if kr_status kernel = KS_domain_error
                          then (kr_error kernel)\<lparr>er_element_index := Some index\<rparr>
                          else kr_error kernel)
                 in case release_result w context v of
                      (left, context, w) \<Rightarrow>
                        Some (Inl (application_failure e), context,
                              destroy_buffers w (va_vector left))
           }
     }"

fun lift_elements ::
    "resource_world \<Rightarrow> application_context \<Rightarrow> primitive_descriptor \<Rightarrow> signature_ref
      \<Rightarrow> primitive_signature \<Rightarrow> typed_argument list \<Rightarrow> source_location \<Rightarrow> nat list
      \<Rightarrow> bennu_value \<Rightarrow> (application_result \<times> application_context \<times> resource_world) option"
where
  "lift_elements w context descriptor signature_ref signature arguments location [] v =
     Some (application_success v, context, w)"
| "lift_elements w context descriptor signature_ref signature arguments location
      (index # indexes) v =
     do {
       (outcome, context, w) \<leftarrow> invoke_at w context descriptor signature_ref signature arguments
                                   index location (Some v);
       case outcome of
         Inl r \<Rightarrow> Some (r, context, w)
       | Inr s \<Rightarrow>
           do {
             (stored, v) \<leftarrow> store_scalar v index s;
             if \<not> stored
             then Some (failed_table w context EK_invalid_primitive_table descriptor location
                          (Some v))
             else lift_elements w context descriptor signature_ref signature arguments location
                    indexes v
           }
     }"

text \<open>The work of a selected signature: the result is reserved, or one unit of work charged for
  a scalar, and the kernel run at every index.\<close>

definition run_elementwise ::
    "resource_world \<Rightarrow> application_context \<Rightarrow> primitive_descriptor \<Rightarrow> signature_ref
      \<Rightarrow> primitive_signature \<Rightarrow> typed_argument list \<Rightarrow> source_location
      \<Rightarrow> (application_result \<times> application_context \<times> resource_world) option" where
  "run_elementwise w context descriptor signature_ref signature arguments location =
     do {
       shape \<leftarrow> result_shape 0 arguments None;
       case shape of
         Inl (index, result_length, len) \<Rightarrow>
           (case primitive_error w EK_shape_mismatch descriptor location of
              (e, w) \<Rightarrow>
                Some (application_failure
                        (e\<lparr>er_argument_position := Some (index + 1),
                           er_shape := Some \<lparr>sx_expected = [result_length], sx_actual = [len]\<rparr>\<rparr>),
                      context, w))
       | Inr (Some result_length) \<Rightarrow>
           (case allocate_vector w (ap_resources context) (vt_element (ps_result signature))
                   result_length result_length location (pd_name descriptor) of
              (allocated, ev, w) \<Rightarrow>
                let context = context\<lparr>ap_resources := ev\<rparr> in
                if \<not> al_ok allocated
                then Some (application_failure
                             (identify_primitive descriptor (al_error allocated)), context, w)
                else lift_elements w context descriptor signature_ref signature arguments location
                       [0..<result_length] (al_value allocated))
       | Inr None \<Rightarrow>
           (case charge_work w (ap_resources context) 1 location (pd_name descriptor) of
              (Some e, ev, w) \<Rightarrow>
                Some (application_failure (identify_primitive descriptor e),
                      context\<lparr>ap_resources := ev\<rparr>, w)
            | (None, ev, w) \<Rightarrow>
                do {
                  (outcome, context, w) \<leftarrow> invoke_at w (context\<lparr>ap_resources := ev\<rparr>) descriptor
                                              signature_ref signature arguments 0 location None;
                  Some (case outcome of
                          Inl r \<Rightarrow> r
                        | Inr s \<Rightarrow> application_success (value_from_scalar s), context, w)
                })
     }"

definition types_accepted ::
    "primitive_signature \<Rightarrow> typed_argument list \<Rightarrow> scalar_type list \<Rightarrow> bool" where
  "types_accepted signature arguments supplied_types \<longleftrightarrow>
     length (ps_parameters signature) = length arguments
     \<and> list_all2 (\<lambda>parameter actual_type.
          actual_type = vt_element parameter
          \<or> actual_type = ST_integer \<and> vt_element parameter = ST_double_precision)
        (ps_parameters signature) supplied_types"

definition apply_elementwise ::
    "resource_world \<Rightarrow> application_context \<Rightarrow> primitive_descriptor \<Rightarrow> signature_ref option
      \<Rightarrow> typed_argument list \<Rightarrow> scalar_type list \<Rightarrow> source_location
      \<Rightarrow> (application_result \<times> application_context \<times> resource_world) option" where
  "apply_elementwise w context descriptor typed_signature arguments supplied_types location =
     (let type_error =
        do { (e, w) \<leftarrow> application_type_error w (ap_resources context) descriptor arguments
                         supplied_types location;
             Some (application_failure e, context, w) };
        run = (\<lambda>signature_ref. do {
          signature \<leftarrow> signature_of descriptor signature_ref;
          run_elementwise w context descriptor signature_ref signature arguments location })
      in case typed_signature of
           Some signature_ref \<Rightarrow>
             do { signature \<leftarrow> signature_of descriptor signature_ref;
                  if \<not> types_accepted signature arguments supplied_types then type_error
                  else run signature_ref }
         | None \<Rightarrow>
             let selected = select_primitive_signature descriptor supplied_types in
             if sel_status selected = SEL_arity_mismatch
             then (case application_arity_error w descriptor (length arguments) location of
                     (e, w) \<Rightarrow> Some (application_failure e, context, w))
             else if sel_status selected \<noteq> SEL_success \<or> sel_signature selected = None
             then type_error
             else run (the (sel_signature selected)))"

section \<open>Application\<close>

definition arity_supplied :: "primitive_descriptor \<Rightarrow> nat \<Rightarrow> bool" where
  "arity_supplied descriptor n \<longleftrightarrow>
     list_ex (\<lambda>s. length (ps_parameters s) = n) (pd_signatures descriptor)"

definition apply_primitive_impl ::
    "resource_world \<Rightarrow> application_context \<Rightarrow> primitive_descriptor \<Rightarrow> signature_ref option
      \<Rightarrow> typed_argument list \<Rightarrow> source_location
      \<Rightarrow> (application_result \<times> application_context \<times> resource_world) option" where
  "apply_primitive_impl w context descriptor typed_signature arguments location =
     (if \<not> arity_supplied descriptor (length arguments)
      then (case application_arity_error w descriptor (length arguments) location of
              (e, w) \<Rightarrow> Some (application_failure e, context, w))
      else if length arguments > maximum_application_arity
      then (case primitive_error w EK_invalid_primitive_table descriptor location of
              (e, w) \<Rightarrow> Some (application_failure e, context, w))
      else do {
        (checked, seen, w) \<leftarrow> validate_arguments w (ap_resources context) descriptor 0 arguments
                                 location (replicate (length arguments) ST_boolean);
        case checked of
          Inl (Some e) \<Rightarrow> Some (application_failure e, context, w)
        | Inl None \<Rightarrow>
            do { (e, w) \<leftarrow> application_type_error w (ap_resources context) descriptor arguments
                             seen location;
                 Some (application_failure e, context, w) }
        | Inr types \<Rightarrow>
            if pd_lifting descriptor = LM_none
            then do {
              signature \<leftarrow> (case typed_signature of
                               None \<Rightarrow> Some None
                             | Some s \<Rightarrow> map_option Some (signature_of descriptor s));
              apply_structural w context descriptor signature arguments types location }
            else apply_elementwise w context descriptor typed_signature arguments types location
      })"

definition whole_value :: "bennu_value \<Rightarrow> typed_argument" where
  "whole_value v = \<lparr>pa_owner = v, pa_node = None\<rparr>"

definition apply_primitive ::
    "resource_world \<Rightarrow> application_context \<Rightarrow> primitive_descriptor \<Rightarrow> bennu_value list
      \<Rightarrow> source_location \<Rightarrow> (application_result \<times> application_context \<times> resource_world) option"
where
  "apply_primitive w context descriptor arguments location =
     (if length arguments > maximum_application_arity
      then (case (if \<not> arity_supplied descriptor (length arguments)
                  then application_arity_error w descriptor (length arguments) location
                  else primitive_error w EK_invalid_primitive_table descriptor location) of
              (e, w) \<Rightarrow> Some (application_failure e, context, w))
      else apply_primitive_impl w context descriptor None (map whole_value arguments) location)"

text \<open>A lowered call names its implementation: exactly one signature of the descriptor has it.\<close>

definition implementing_signatures ::
    "primitive_descriptor \<Rightarrow> primitive_implementation \<Rightarrow> nat list" where
  "implementing_signatures descriptor implementation =
     filter (\<lambda>i. ps_implementation (pd_signatures descriptor ! i) = implementation)
       [0..<length (pd_signatures descriptor)]"

definition apply_typed_primitive ::
    "resource_world \<Rightarrow> application_context \<Rightarrow> primitive_descriptor \<Rightarrow> primitive_implementation
      \<Rightarrow> typed_argument list \<Rightarrow> source_location
      \<Rightarrow> (application_result \<times> application_context \<times> resource_world) option" where
  "apply_typed_primitive w context descriptor implementation arguments location =
     (case implementing_signatures descriptor implementation of
        [selected] \<Rightarrow>
          if implementation = IM_none
          then (case primitive_error w EK_invalid_primitive_table descriptor location of
                  (e, w) \<Rightarrow> Some (application_failure e, context, w))
          else apply_primitive_impl w context descriptor (Some (OwnSignature selected)) arguments
                 location
      | _ \<Rightarrow>
          (case primitive_error w EK_invalid_primitive_table descriptor location of
             (e, w) \<Rightarrow> Some (application_failure e, context, w)))"

definition apply_typed_primitive_to_values ::
    "resource_world \<Rightarrow> application_context \<Rightarrow> primitive_descriptor \<Rightarrow> primitive_implementation
      \<Rightarrow> bennu_value list \<Rightarrow> source_location
      \<Rightarrow> (application_result \<times> application_context \<times> resource_world) option" where
  "apply_typed_primitive_to_values w context descriptor implementation arguments location =
     (if length arguments > maximum_application_arity
      then (case application_arity_error w descriptor (length arguments) location of
              (e, w) \<Rightarrow> Some (application_failure e, context, w))
      else apply_typed_primitive w context descriptor implementation
             (map whole_value arguments) location)"

end
