(* ===== verification/ApplicationCorrect.thy ===== *)
theory ApplicationCorrect
  imports Application ResourceLimits KernelsCorrect
begin

text \<open>
  What the application of an elementwise primitive means: on vectors it is the scalar kernel at
  every index, a scalar argument taken at all of them; the first index whose kernel reports an
  overflow decides the error; and a failed application leaves no charge behind.
\<close>

section \<open>Validation does not depend on the host allocator\<close>

lemma accounting_host [simp]:
  "host_buffer_valid (rw_host_update f w) = host_buffer_valid w"
  "resource_state_owner_is_live (rw_host_update f w) = resource_state_owner_is_live w"
  "semantic_allocation_matches (rw_host_update f w) = semantic_allocation_matches w"
  by (simp_all add: fun_eq_iff host_buffer_valid_def resource_state_owner_is_live_def
      semantic_allocation_matches_def)

lemma accounting_verdict_host [simp]:
  "accounting_verdict (rw_host_update f w) = accounting_verdict w"
  by (intro ext) (simp only: accounting_verdict_def accounting_valid_def accounting_host)

lemma vector_validation_host [simp]:
  "vector_validation (rw_host_update f w) p = vector_validation w p"
  by (simp only: vector_validation_def accounting_verdict_host accounting_host)

lemma validate_untraversed_host [simp]:
  "validate_untraversed (rw_host_update f w) v = validate_untraversed w v"
  by (cases "va_container v") (simp_all add: validate_untraversed_def)

lemma modify_state_host [simp]:
  "modify_state (rw_host_update f w) t g = rw_host_update f (modify_state w t g)"
  by (simp add: modify_state_def set_states_def Let_def)

lemma acquire_host [simp]:
  "acquire_validated_resource_state (rw_host_update f w) ev =
     map_prod id (rw_host_update f) (acquire_validated_resource_state w ev)"
  by (auto simp: acquire_validated_resource_state_def split: option.splits)

lemma validate_value_untraversed:
  assumes "validate_untraversed w v = Some r"
  shows "validate_value w v = Some (r, w)"
  using assms by (simp add: validate_value_def uninjected_def validate_value_injected_def
      fresh_injection_def)

lemma untraversed_verdict:
  assumes "va_container v \<noteq> CK_tuple"
  shows "\<exists>r. validate_untraversed w v = Some r \<and> (vr_ok r \<longrightarrow> r = valid_value)"
  using assms
  by (cases "va_container v")
     (auto simp: validate_untraversed_def root_verdict_def invalid_value_def valid_value_def)

section \<open>Arguments\<close>

definition element_type_of :: "bennu_value \<Rightarrow> scalar_type" where
  "element_type_of v =
     (if va_container v = CK_scalar then sv_type (va_scalar v) else vv_element_type (va_vector v))"

text \<open>The elements the block of the active storage holds.\<close>

definition payload_length :: "vector_value \<Rightarrow> nat" where
  "payload_length p =
     (case vv_element_type p of
        ST_boolean \<Rightarrow> length (bf_contents (vv_booleans p))
      | ST_integer \<Rightarrow> length (bf_contents (vv_integers p))
      | ST_double_precision \<Rightarrow> length (bf_contents (vv_doubles p))
      | ST_unknown _ \<Rightarrow> 0)"

text \<open>A value that is ready to be an argument: a valid scalar, or a valid vector whose block
  holds its elements.\<close>

definition ready_value :: "resource_world \<Rightarrow> bennu_value \<Rightarrow> bool" where
  "ready_value w v \<longleftrightarrow>
     validate_untraversed w v = Some valid_value
     \<and> (va_container v = CK_vector \<longrightarrow> active_vector_length (va_vector v) \<le> payload_length (va_vector v))"

lemma ready_container:
  "ready_value w v \<Longrightarrow> va_container v = CK_scalar \<or> va_container v = CK_vector"
  by (cases "va_container v")
     (auto simp: ready_value_def validate_untraversed_def invalid_value_def valid_value_def
       split: if_splits)

lemma ready_host [simp]: "ready_value (rw_host_update f w) v = ready_value w v"
  by (simp add: ready_value_def)

lemma scalar_verdict_valid: "scalar_verdict s = VI_none \<longleftrightarrow> valid_scalar s"
  by (auto simp: scalar_verdict_def valid_scalar_def is_positive_zero_def is_canonical_double_def
      binary64_exponent_mask_def binary64_fraction_mask_def split: scalar_type.splits)

lemma valid_value_simps [simp]:
  "invalid_value i n e \<noteq> valid_value" "valid_value \<noteq> invalid_value i n e"
  "vr_ok valid_value" "\<not> vr_ok (invalid_value i n e)"
  by (simp_all add: invalid_value_def valid_value_def)

lemma ready_scalar: "ready_value w v \<Longrightarrow> va_container v = CK_scalar \<Longrightarrow> valid_scalar (va_scalar v)"
  by (auto simp: ready_value_def validate_untraversed_def root_verdict_def scalar_verdict_valid
      split: if_splits)

lemma ready_vector:
  "ready_value w v \<Longrightarrow> va_container v = CK_vector \<Longrightarrow> vector_validation w (va_vector v) = VI_none"
  by (auto simp: ready_value_def validate_untraversed_def root_verdict_def split: if_splits)

lemma in_set_take_nth: "i < n \<Longrightarrow> i < length xs \<Longrightarrow> xs ! i \<in> set (take n xs)"
  by (auto simp: in_set_conv_nth)

lemma stored_valid:
  assumes "vector_validation w p = VI_none" "i < active_vector_length p" "i < payload_length p"
  shows "\<exists>s. stored_scalar p i = Some s \<and> valid_scalar s \<and> sv_type s = vv_element_type p"
proof (cases "vv_element_type p")
  case ST_double_precision
  let ?ds = "bf_contents (vv_doubles p)"
  have "?ds ! i \<in> set (take (vv_double_count p) ?ds)"
    using assms(2,3) ST_double_precision
    by (intro in_set_take_nth) (simp_all add: active_vector_length_def payload_length_def)
  moreover have "\<not> list_ex (\<lambda>d. \<not> is_canonical_double d) (take (vv_double_count p) ?ds)"
    using assms(1) ST_double_precision by (auto simp: vector_validation_def split: if_splits)
  ultimately have "is_canonical_double (?ds ! i)" by (auto simp: list_ex_iff)
  then show ?thesis
    using assms(3) ST_double_precision
    by (auto simp: stored_scalar_def payload_length_def valid_scalar_def empty_scalar_def
        is_canonical_double_def binary64_exponent_mask_def binary64_fraction_mask_def
        split: if_splits)
qed (use assms in \<open>auto simp: stored_scalar_def payload_length_def valid_scalar_def
       bool_scalar_def int_scalar_def active_vector_length_def\<close>)

lemma whole_value_simps [simp]:
  "typed_argument_container (whole_value v) = Some (va_container v)"
  "typed_argument_scalar (whole_value v) = Some (va_scalar v)"
  "typed_argument_vector (whole_value v) = Some (va_vector v)"
  "pa_owner (whole_value v) = v" "pa_node (whole_value v) = None"
  by (simp_all add: whole_value_def typed_argument_container_def typed_argument_scalar_def
      typed_argument_vector_def)

text \<open>The element of an argument at an index.\<close>

lemma project_ready:
  assumes "ready_value w v"
    and "va_container v = CK_vector \<Longrightarrow> i < active_vector_length (va_vector v)"
  shows "\<exists>s. project_validated_scalar (whole_value v) i = Some s \<and> valid_scalar s
    \<and> sv_type s = element_type_of v"
proof (cases "va_container v = CK_scalar")
  case True
  then show ?thesis
    using ready_scalar [OF assms(1)]
    by (simp add: project_validated_scalar_def element_type_of_def)
next
  case False
  then have v: "va_container v = CK_vector" using ready_container [OF assms(1)] by simp
  have "active_vector_length (va_vector v) \<le> payload_length (va_vector v)"
    using assms(1) v by (simp add: ready_value_def)
  then show ?thesis
    using stored_valid [OF ready_vector [OF assms(1) v] assms(2) [OF v]] assms(2) [OF v] v
    by (auto simp: project_validated_scalar_def element_type_of_def)
qed

lemma validate_argument_ready:
  assumes "ready_value w v"
  shows "validate_argument w ev d i (whole_value v) l = Some (ElementType (element_type_of v), w)"
proof -
  have "validate_value w v = Some (valid_value, w)"
    using assms by (intro validate_value_untraversed) (simp add: ready_value_def)
  then show ?thesis
    using ready_container [OF assms] by (auto simp: validate_argument_def element_type_of_def)
qed

lemma validate_arguments_ready:
  assumes "list_all (ready_value w) vs" "length types = i + length vs"
  shows "validate_arguments w ev d i (map whole_value vs) l types =
    Some (Inr (take i types @ map element_type_of vs), take i types @ map element_type_of vs, w)"
  using assms
proof (induction vs arbitrary: i types)
  case (Cons v vs)
  let ?types = "types[i := element_type_of v]"
  have "i < length types" using Cons.prems(2) by simp
  then have "take (Suc i) ?types = take i types @ [element_type_of v]"
    by (simp add: take_Suc_conv_app_nth)
  then show ?case
    using Cons.IH [where i = "Suc i" and types = ?types] Cons.prems
    by (simp add: validate_argument_ready)
qed simp

section \<open>The kernel at an index\<close>

text \<open>The vectors among the arguments reach the index.\<close>

definition covers :: "bennu_value list \<Rightarrow> nat \<Rightarrow> bool" where
  "covers vs i \<longleftrightarrow>
     list_all (\<lambda>v. va_container v = CK_vector \<longrightarrow> i < active_vector_length (va_vector v)) vs"

lemma operands_ready:
  assumes "list_all (ready_value w) vs" "covers vs i"
    and "list_all2 converts (map element_type_of vs) ps"
  shows "\<exists>ops. operands_at (map whole_value vs) ps i = Some (Some ops)
    \<and> list_all2 (\<lambda>v p. valid_scalar v \<and> sv_type v = vt_element p) ops ps"
  using assms
proof (induction vs arbitrary: ps)
  case (Cons v vs)
  then obtain p qs where ps: "ps = p # qs" "converts (element_type_of v) p"
    "list_all2 converts (map element_type_of vs) qs"
    by (cases ps) auto
  obtain ops where ops: "operands_at (map whole_value vs) qs i = Some (Some ops)"
    "list_all2 (\<lambda>v p. valid_scalar v \<and> sv_type v = vt_element p) ops qs"
    using Cons.IH [of qs] Cons.prems ps(3) by (auto simp: covers_def)
  obtain s where s: "project_validated_scalar (whole_value v) i = Some s" "valid_scalar s"
    "sv_type s = element_type_of v"
    using project_ready [of w v i] Cons.prems by (auto simp: covers_def)
  show ?case
    using ops s convert_scalar_success [of s p] ps(1,2) by auto
qed simp

text \<open>The result of the kernel at an index, under the allocator of the host.\<close>

definition kernel_at ::
    "host_state \<Rightarrow> primitive_descriptor \<Rightarrow> signature_ref \<Rightarrow> typed_argument list \<Rightarrow> source_location
      \<Rightarrow> nat \<Rightarrow> (scalar_kernel_result \<times> host_state) option" where
  "kernel_at h d sig as l i =
     do {
       s \<leftarrow> signature_of d sig;
       ops \<leftarrow> operands_at as (ps_parameters s) i;
       ops \<leftarrow> ops;
       invoke_scalar_kernel h d sig ops l
     }"

text \<open>The choice of a signature for the element types of the arguments: one given by the
  lowering, or the one selected.\<close>

definition chosen_signature ::
    "primitive_descriptor \<Rightarrow> signature_ref option \<Rightarrow> scalar_type list \<Rightarrow> signature_ref \<Rightarrow> bool" where
  "chosen_signature d typed types sig \<longleftrightarrow>
     (case typed of
        Some given \<Rightarrow> sig = given
          \<and> (\<exists>i < length (pd_signatures d). sig = OwnSignature i
               \<and> list_all2 converts types (ps_parameters (pd_signatures d ! i)))
      | None \<Rightarrow> sel_status (select_primitive_signature d types) = SEL_success
          \<and> sel_signature (select_primitive_signature d types) = Some sig)"

lemma chosen_own:
  assumes "chosen_signature d typed types sig" "length types < size_max"
  obtains i where "i < length (pd_signatures d)" "sig = OwnSignature i"
    "list_all2 converts types (ps_parameters (pd_signatures d ! i))"
  using assms select_success_own [OF assms(2) refl]
  by (fastforce simp: chosen_signature_def split: option.splits)

lemma kernel_ready:
  assumes wf: "well_formed_descriptor d" "pd_lifting d = LM_elementwise"
    and sig: "chosen_signature d typed (map element_type_of vs) sig" "length vs < size_max"
    and vs: "list_all (ready_value w) vs" "covers vs i"
  obtains s ops k h' where "signature_of d sig = Some s" "vt_container (ps_result s) = CK_scalar"
    "operands_at (map whole_value vs) (ps_parameters s) i = Some (Some ops)"
    "invoke_scalar_kernel h d sig ops l = Some (k, h')"
    "kr_status k = KS_success \<or> kr_status k = KS_domain_error"
    "kr_status k = KS_success \<Longrightarrow> h' = h \<and> valid_scalar (kr_value k)
       \<and> sv_type (kr_value k) = vt_element (ps_result s)"
    "kernel_at h d sig (map whole_value vs) l i = Some (k, h')"
proof -
  obtain n where n: "n < length (pd_signatures d)" "sig = OwnSignature n"
    "list_all2 converts (map element_type_of vs) (ps_parameters (pd_signatures d ! n))"
    using chosen_own [OF sig(1)] sig(2) by auto
  let ?s = "pd_signatures d ! n"
  have s: "signature_of d sig = Some ?s" using n by simp
  obtain ops where ops: "operands_at (map whole_value vs) (ps_parameters ?s) i = Some (Some ops)"
    "conforming ops ?s"
    using operands_ready [OF vs n(3)] by (auto simp: conforming_def)
  have m: "implementation_matches (pd_id d) ?s" "vt_container (ps_result ?s) = CK_scalar"
    using wf n(1) by (auto simp: well_formed_descriptor_def)
  have run: "invoke_scalar_kernel h d sig ops l = run_kernel h d ?s ops l"
    using invoke_scalar_kernel_guard [OF wf(1)] s wf(2) n(2) ops(2) by simp
  obtain k h' where k: "run_kernel h d ?s ops l = Some (k, h')"
    "kr_status k \<noteq> KS_invalid_invocation" "kr_status k \<noteq> KS_domain_error \<longrightarrow> h' = h"
    "kr_status k = KS_success \<longrightarrow> valid_scalar (kr_value k)
       \<and> sv_type (kr_value k) = vt_element (ps_result ?s)"
    using run_kernel_sound [OF m ops(2), of h d l] by blast
  show thesis
    by (rule that [OF s m(2) ops(1), of k h'])
       (use k run s ops(1) in \<open>cases "kr_status k"; auto simp: kernel_at_def\<close>)+
qed

section \<open>Storing a result\<close>

text \<open>A value whose payload was written to: only elements changed.\<close>

definition rewritten :: "bennu_value \<Rightarrow> bennu_value \<Rightarrow> bool" where
  "rewritten v v' \<longleftrightarrow>
     va_container v' = va_container v
     \<and> vv_element_type (va_vector v') = vv_element_type (va_vector v)
     \<and> payload_length (va_vector v') = payload_length (va_vector v)
     \<and> active_vector_length (va_vector v') = active_vector_length (va_vector v)
     \<and> vv_canonical_bytes (va_vector v') = vv_canonical_bytes (va_vector v)
     \<and> vv_accounting_active (va_vector v') = vv_accounting_active (va_vector v)
     \<and> vv_accounting_owner (va_vector v') = vv_accounting_owner (va_vector v)
     \<and> (\<forall>w. validate_untraversed w v = Some valid_value \<longrightarrow>
            validate_untraversed w v' = Some valid_value)"

lemma rewritten_refl [simp]: "rewritten v v"
  by (simp add: rewritten_def)

lemma rewritten_trans: "rewritten u v \<Longrightarrow> rewritten v v' \<Longrightarrow> rewritten u v'"
  by (simp add: rewritten_def)

lemma rewritten_payload:
  assumes "va_container v = CK_vector" "vv_element_type p = vv_element_type (va_vector v)"
    "payload_length p = payload_length (va_vector v)"
    "active_vector_length p = active_vector_length (va_vector v)"
    "vv_canonical_bytes p = vv_canonical_bytes (va_vector v)"
    "vv_accounting_active p = vv_accounting_active (va_vector v)"
    "vv_accounting_owner p = vv_accounting_owner (va_vector v)"
    "\<And>w. vector_validation w (va_vector v) = VI_none \<Longrightarrow> vector_validation w p = VI_none"
  shows "rewritten v (v\<lparr>va_vector := p\<rparr>)"
proof -
  have "validate_untraversed w (v\<lparr>va_vector := p\<rparr>) = Some valid_value"
    if "validate_untraversed w v = Some valid_value" for w
    using that assms(1,8) by (simp add: validate_untraversed_def root_verdict_def split: if_splits)
  then show ?thesis using assms(1-7) by (simp add: rewritten_def)
qed

lemma accounting_contents [simp]:
  "accounting_verdict w (p\<lparr>vv_booleans := (vv_booleans p)\<lparr>bf_contents := bs\<rparr>\<rparr>) =
     accounting_verdict w p"
  "accounting_verdict w (p\<lparr>vv_integers := (vv_integers p)\<lparr>bf_contents := is\<rparr>\<rparr>) =
     accounting_verdict w p"
  "accounting_verdict w (p\<lparr>vv_doubles := (vv_doubles p)\<lparr>bf_contents := ds\<rparr>\<rparr>) =
     accounting_verdict w p"
  by (simp_all add: fun_eq_iff accounting_verdict_def accounting_valid_def vector_storage_def
      cong: scalar_type.case_cong)

lemma take_update_subset: "set (take n (xs[i := x])) \<subseteq> insert x (set (take n xs))"
  by (cases "i < n") (simp_all add: take_update_swap set_update_subset_insert)

lemma list_ex_take_update:
  "list_ex P (take n (xs[i := x])) \<Longrightarrow> \<not> P x \<Longrightarrow> list_ex P (take n xs)"
  using take_update_subset [of n xs i x] by (auto simp: list_ex_iff)

lemma store_scalar_ready:
  assumes "va_container v = CK_vector" "valid_scalar s"
    and "sv_type s = vv_element_type (va_vector v)" "i < payload_length (va_vector v)"
  shows "\<exists>v'. store_scalar v i s = Some (True, v') \<and> rewritten v v'
    \<and> (\<forall>j. stored_scalar (va_vector v') j =
            (if j = i then Some s else stored_scalar (va_vector v) j))"
proof (cases "sv_type s")
  case ST_boolean
  let ?b = "if sv_boolean s then 1 else 0 :: u8"
  let ?xs = "(bf_contents (vv_booleans (va_vector v)))[i := ?b]"
  let ?v' = "v\<lparr>va_vector := (va_vector v)\<lparr>vv_booleans :=
               (vv_booleans (va_vector v))\<lparr>bf_contents := ?xs\<rparr>\<rparr>\<rparr>"
  have "rewritten v ?v'"
    using assms ST_boolean
    by (intro rewritten_payload)
       (auto simp: payload_length_def active_vector_length_def vector_validation_def
         integer_fields_unused_def double_fields_unused_def boolean_fields_unused_def
         split: if_splits dest: list_ex_take_update)
  moreover have "s = bool_scalar (sv_boolean s)"
    using assms(2) ST_boolean by (simp add: valid_scalar_def bool_scalar_def)
  ultimately show ?thesis
    using assms ST_boolean
    by (intro exI [of _ ?v'])
       (auto simp: store_scalar_def put_at_def payload_length_def stored_scalar_def at_def Let_def)
next
  case ST_integer
  let ?xs = "(bf_contents (vv_integers (va_vector v)))[i := sv_integer s]"
  let ?v' = "v\<lparr>va_vector := (va_vector v)\<lparr>vv_integers :=
               (vv_integers (va_vector v))\<lparr>bf_contents := ?xs\<rparr>\<rparr>\<rparr>"
  have "rewritten v ?v'"
    using assms ST_integer
    by (intro rewritten_payload)
       (auto simp: payload_length_def active_vector_length_def vector_validation_def
         integer_fields_unused_def double_fields_unused_def boolean_fields_unused_def
         split: if_splits)
  moreover have "s = int_scalar (sv_integer s)"
    using assms(2) ST_integer by (simp add: valid_scalar_def int_scalar_def)
  ultimately show ?thesis
    using assms ST_integer
    by (intro exI [of _ ?v'])
       (auto simp: store_scalar_def put_at_def payload_length_def stored_scalar_def at_def Let_def)
next
  case ST_double_precision
  let ?xs = "(bf_contents (vv_doubles (va_vector v)))[i := sv_double s]"
  let ?v' = "v\<lparr>va_vector := (va_vector v)\<lparr>vv_doubles :=
               (vv_doubles (va_vector v))\<lparr>bf_contents := ?xs\<rparr>\<rparr>\<rparr>"
  have "is_canonical_double (sv_double s)"
    using assms(2) ST_double_precision
    by (auto simp: valid_scalar_def is_canonical_double_def binary64_exponent_mask_def
        binary64_fraction_mask_def split: if_splits)
  then have bound: "list_ex (\<lambda>d. \<not> is_canonical_double d) (take n ?xs) \<Longrightarrow>
      list_ex (\<lambda>d. \<not> is_canonical_double d)
        (take n (bf_contents (vv_doubles (va_vector v))))" for n
    by (blast intro: list_ex_take_update)
  have "rewritten v ?v'"
    using assms ST_double_precision
    by (intro rewritten_payload)
       (auto simp: payload_length_def active_vector_length_def vector_validation_def
         integer_fields_unused_def double_fields_unused_def boolean_fields_unused_def
         split: if_splits dest: bound)
  moreover have "s = empty_scalar\<lparr>sv_type := ST_double_precision, sv_double := sv_double s\<rparr>"
    using assms(2) ST_double_precision
    by (simp add: valid_scalar_def empty_scalar_def split: if_splits)
  ultimately show ?thesis
    using assms ST_double_precision
    by (intro exI [of _ ?v'])
       (auto simp: store_scalar_def put_at_def payload_length_def stored_scalar_def at_def Let_def)
next
  case (ST_unknown x)
  then show ?thesis using assms(2) by (simp add: valid_scalar_def)
qed

section \<open>The loop over the indexes\<close>

text \<open>A call of an elementwise primitive on ready values whose types fit the chosen signature.\<close>

definition elementwise_call ::
    "resource_world \<Rightarrow> primitive_descriptor \<Rightarrow> signature_ref option \<Rightarrow> bennu_value list
      \<Rightarrow> signature_ref \<Rightarrow> primitive_signature \<Rightarrow> bool" where
  "elementwise_call w d typed vs sig s \<longleftrightarrow>
     well_formed_descriptor d \<and> pd_lifting d = LM_elementwise \<and> length vs < size_max
     \<and> list_all (ready_value w) vs \<and> chosen_signature d typed (map element_type_of vs) sig
     \<and> signature_of d sig = Some s"

text \<open>The kernel succeeds at an index, with a value.\<close>

definition yields ::
    "host_state \<Rightarrow> primitive_descriptor \<Rightarrow> signature_ref \<Rightarrow> bennu_value list \<Rightarrow> source_location
      \<Rightarrow> nat \<Rightarrow> scalar_value \<Rightarrow> bool" where
  "yields h d sig vs l i r \<longleftrightarrow>
     (\<exists>k h'. kernel_at h d sig (map whole_value vs) l i = Some (k, h')
        \<and> kr_status k = KS_success \<and> kr_value k = r)"

text \<open>The kernel reports an overflow at an index.\<close>

definition overflows_at ::
    "host_state \<Rightarrow> primitive_descriptor \<Rightarrow> signature_ref \<Rightarrow> bennu_value list \<Rightarrow> source_location
      \<Rightarrow> nat \<Rightarrow> error \<Rightarrow> host_state \<Rightarrow> bool" where
  "overflows_at h d sig vs l i e h' \<longleftrightarrow>
     (\<exists>k. kernel_at h d sig (map whole_value vs) l i = Some (k, h')
        \<and> kr_status k = KS_domain_error \<and> kr_error k = e)"

lemma yields_unique: "yields h d sig vs l i r \<Longrightarrow> yields h d sig vs l i r' \<Longrightarrow> r' = r"
  by (auto simp: yields_def)

lemma call_kernel:
  assumes "elementwise_call w0 d typed vs sig s" "covers vs i"
  obtains ops k h' where "operands_at (map whole_value vs) (ps_parameters s) i = Some (Some ops)"
    "invoke_scalar_kernel h d sig ops l = Some (k, h')"
    "kr_status k = KS_success \<or> kr_status k = KS_domain_error"
    "kr_status k = KS_success \<longrightarrow> h' = h \<and> valid_scalar (kr_value k)
       \<and> sv_type (kr_value k) = vt_element (ps_result s)"
    "kernel_at h d sig (map whole_value vs) l i = Some (k, h')"
proof -
  have a: "well_formed_descriptor d" "pd_lifting d = LM_elementwise"
    "chosen_signature d typed (map element_type_of vs) sig" "length vs < size_max"
    "list_all (ready_value w0) vs" "signature_of d sig = Some s"
    using assms(1) by (simp_all add: elementwise_call_def)
  show thesis
  proof (rule kernel_ready [OF a(1-5) assms(2), where h = h and l = l])
    fix s' ops k h'
    assume r: "signature_of d sig = Some s'"
      "operands_at (map whole_value vs) (ps_parameters s') i = Some (Some ops)"
      "invoke_scalar_kernel h d sig ops l = Some (k, h')"
      "kr_status k = KS_success \<or> kr_status k = KS_domain_error"
      "kr_status k = KS_success \<Longrightarrow> h' = h \<and> valid_scalar (kr_value k)
         \<and> sv_type (kr_value k) = vt_element (ps_result s')"
      "kernel_at h d sig (map whole_value vs) l i = Some (k, h')"
    show thesis by (rule that [of ops k h']) (use r a(6) in simp_all)
  qed
qed

lemma call_outcome:
  assumes "elementwise_call w d typed vs sig s" "covers vs i"
  shows "(\<exists>r. yields h d sig vs l i r) \<or> (\<exists>e h'. overflows_at h d sig vs l i e h')"
  by (rule call_kernel [OF assms, of h l]) (auto simp: yields_def overflows_at_def)

lemma invoke_yields:
  assumes "elementwise_call w0 d typed vs sig s" "covers vs i"
    and "yields (rw_host w) d sig vs l i r"
  shows "invoke_at w ctx d sig s (map whole_value vs) i l result =
      Some (Inr r, count_invocation ctx, w)"
    "valid_scalar r \<and> sv_type r = vt_element (ps_result s)"
proof -
  obtain ops k h' where k: "operands_at (map whole_value vs) (ps_parameters s) i = Some (Some ops)"
    "invoke_scalar_kernel (rw_host w) d sig ops l = Some (k, h')"
    "kr_status k = KS_success \<or> kr_status k = KS_domain_error"
    "kr_status k = KS_success \<longrightarrow> h' = rw_host w \<and> valid_scalar (kr_value k)
       \<and> sv_type (kr_value k) = vt_element (ps_result s)"
    "kernel_at (rw_host w) d sig (map whole_value vs) l i = Some (k, h')"
    using call_kernel [OF assms(1,2), of "rw_host w" l] by blast
  have "kr_status k = KS_success" "kr_value k = r"
    using assms(3) k(5) by (auto simp: yields_def)
  then show "invoke_at w ctx d sig s (map whole_value vs) i l result =
      Some (Inr r, count_invocation ctx, w)"
    "valid_scalar r \<and> sv_type r = vt_element (ps_result s)"
    using k by (auto simp: invoke_at_def Let_def)
qed

text \<open>The error of an overflow names the index when the result is a vector.\<close>

definition index_error :: "nat \<Rightarrow> error \<Rightarrow> error" where
  "index_error i e = e\<lparr>er_element_index := Some i\<rparr>"

lemma invoke_overflows:
  assumes "elementwise_call w0 d typed vs sig s" "covers vs i"
    and "overflows_at (rw_host w) d sig vs l i e h'"
  shows "invoke_at w ctx d sig s (map whole_value vs) i l None =
      Some (Inl (application_failure e), count_invocation ctx, w\<lparr>rw_host := h'\<rparr>)"
    "invoke_at w ctx d sig s (map whole_value vs) i l (Some v) =
      (case release_result (w\<lparr>rw_host := h'\<rparr>) (count_invocation ctx) v of
         (left, ctx, w) \<Rightarrow>
           Some (Inl (application_failure (index_error i e)), ctx,
                 destroy_buffers w (va_vector left)))"
proof -
  obtain ops k h2 where k: "operands_at (map whole_value vs) (ps_parameters s) i = Some (Some ops)"
    "invoke_scalar_kernel (rw_host w) d sig ops l = Some (k, h2)"
    "kr_status k = KS_success \<or> kr_status k = KS_domain_error"
    "kr_status k = KS_success \<longrightarrow> h2 = rw_host w \<and> valid_scalar (kr_value k)
       \<and> sv_type (kr_value k) = vt_element (ps_result s)"
    "kernel_at (rw_host w) d sig (map whole_value vs) l i = Some (k, h2)"
    using call_kernel [OF assms(1,2), of "rw_host w" l] by blast
  have "kr_status k = KS_domain_error" "kr_error k = e" "h2 = h'"
    using assms(3) k(5) by (auto simp: overflows_at_def)
  then show "invoke_at w ctx d sig s (map whole_value vs) i l None =
      Some (Inl (application_failure e), count_invocation ctx, w\<lparr>rw_host := h'\<rparr>)"
    "invoke_at w ctx d sig s (map whole_value vs) i l (Some v) =
      (case release_result (w\<lparr>rw_host := h'\<rparr>) (count_invocation ctx) v of
         (left, ctx, w) \<Rightarrow>
           Some (Inl (application_failure (index_error i e)), ctx,
                 destroy_buffers w (va_vector left)))"
    using k by (auto simp: invoke_at_def Let_def index_error_def split: prod.splits)
qed

lemma lift_elements_prefix:
  assumes call: "elementwise_call w0 d typed vs sig s"
    and "\<forall>i \<in> set is. covers vs i \<and> i < payload_length (va_vector v)
           \<and> yields (rw_host w) d sig vs l i (f i)"
    and "va_container v = CK_vector" "vv_element_type (va_vector v) = vt_element (ps_result s)"
  shows "\<exists>v'. lift_elements w ctx d sig s (map whole_value vs) l (is @ js) v =
      lift_elements w ((count_invocation ^^ length is) ctx) d sig s (map whole_value vs) l js v'
    \<and> rewritten v v'
    \<and> (\<forall>i. stored_scalar (va_vector v') i =
            (if i \<in> set is then Some (f i) else stored_scalar (va_vector v) i))"
  using assms(2-)
proof (induction "is" arbitrary: ctx v)
  case Nil
  then show ?case by (intro exI [of _ v]) simp
next
  case (Cons i "is")
  have i: "covers vs i" "yields (rw_host w) d sig vs l i (f i)" "i < payload_length (va_vector v)"
    using Cons.prems by auto
  note step = invoke_yields [OF call i(1,2)]
  obtain u where u: "store_scalar v i (f i) = Some (True, u)" "rewritten v u"
    "\<And>j. stored_scalar (va_vector u) j =
            (if j = i then Some (f i) else stored_scalar (va_vector v) j)"
    using store_scalar_ready [OF Cons.prems(2), of "f i" i] step(2) i(3) Cons.prems(3) by auto
  obtain v' where v': "lift_elements w (count_invocation ctx) d sig s (map whole_value vs) l
        (is @ js) u =
      lift_elements w ((count_invocation ^^ length is) (count_invocation ctx)) d sig s
        (map whole_value vs) l js v'"
    "rewritten u v'"
    "\<And>i. stored_scalar (va_vector v') i =
       (if i \<in> set is then Some (f i) else stored_scalar (va_vector u) i)"
    using Cons.IH [of u "count_invocation ctx"] Cons.prems u(2) by (auto simp: rewritten_def)
  show ?case
    by (rule exI [of _ v'])
       (use step(1) u v' in \<open>auto simp: funpow_swap1 dest: rewritten_trans\<close>)
qed

section \<open>The shape of the result\<close>

definition all_vectors_of :: "nat \<Rightarrow> bennu_value list \<Rightarrow> bool" where
  "all_vectors_of n vs \<longleftrightarrow>
     list_all (\<lambda>v. va_container v = CK_vector \<longrightarrow> active_vector_length (va_vector v) = n) vs"

definition has_vector :: "bennu_value list \<Rightarrow> bool" where
  "has_vector vs \<longleftrightarrow> list_ex (\<lambda>v. va_container v = CK_vector) vs"

lemma covers_all: "all_vectors_of n vs \<Longrightarrow> i < n \<Longrightarrow> covers vs i"
  by (auto simp: all_vectors_of_def covers_def list_all_iff)

lemma covers_scalars: "\<not> has_vector vs \<Longrightarrow> covers vs i"
  by (auto simp: has_vector_def covers_def list_all_iff list_ex_iff)

lemma result_shape_equal:
  assumes "all_vectors_of n vs" "shape = None \<or> shape = Some n"
  shows "result_shape k (map whole_value vs) shape =
    Some (Inr (if has_vector vs then Some n else shape))"
  using assms
proof (induction vs arbitrary: k shape)
  case (Cons v vs)
  have tail: "all_vectors_of n vs" using Cons.prems(1) by (simp add: all_vectors_of_def)
  show ?case
  proof (cases "va_container v = CK_vector")
    case True
    then have "validated_vector_length (whole_value v) = Some n"
      using Cons.prems(1) by (simp add: validated_vector_length_def all_vectors_of_def)
    then show ?thesis
      using True Cons.IH [OF tail, of "Some n" "Suc k"] Cons.prems(2)
      by (auto simp: has_vector_def)
  next
    case False
    then show ?thesis
      using Cons.IH [OF tail Cons.prems(2), of "Suc k"] by (simp add: has_vector_def)
  qed
qed (simp add: has_vector_def)

text \<open>The vector an allocation gives: its elements are zero and its block holds them.\<close>

lemma allocated_payload:
  assumes run: "allocate_vector w ev element_type n amount l name = (r, ev', w')" and ok: "al_ok r"
  shows "va_container (al_value r) = CK_vector"
    "vv_element_type (va_vector (al_value r)) = element_type"
    "active_vector_length (va_vector (al_value r)) = n"
    "payload_length (va_vector (al_value r)) = n"
proof -
  obtain state w1 where acq: "acquire_validated_resource_state w ev = (state, w1)"
    by (cases "acquire_validated_resource_state w ev")
  let ?ev = "begin_resource_record_sync w1 ev state"
  obtain r2 ev2 w2 where b: "allocate_vector_locked element_type n amount l name w1 ?ev state =
      (r2, ev2, w2)"
    using prod_cases3 by blast
  have r2: "r2 = r" using run acq b by (auto simp: allocate_vector_def with_resource_state_def)
  have "va_container (al_value r) = CK_vector
    \<and> vv_element_type (va_vector (al_value r)) = element_type
    \<and> active_vector_length (va_vector (al_value r)) = n
    \<and> payload_length (va_vector (al_value r)) = n"
  proof (cases rule: locked_granted [OF b ok [folded r2], case_names empty charged])
    case (empty width)
    then have "n = 0" by (cases element_type) auto
    then show ?thesis
      using empty r2
      by (cases element_type)
         (auto simp: empty_vector_def empty_vector_of_def active_vector_length_def
           payload_length_def null_buffer_def)
  next
    case (charged width storage ordinal rec)
    then show ?thesis
      using r2
      by (cases element_type)
         (auto simp: charged_vector_def empty_vector_def zeroed_payload_def empty_vector_of_def
           active_vector_length_def payload_length_def Let_def)
  qed
  then show "va_container (al_value r) = CK_vector"
    "vv_element_type (va_vector (al_value r)) = element_type"
    "active_vector_length (va_vector (al_value r)) = n"
    "payload_length (va_vector (al_value r)) = n"
    by simp_all
qed

section \<open>Elementwise application\<close>

lemma count_invocations [simp]: "ap_resources ((count_invocation ^^ n) ctx) = ap_resources ctx"
  by (induction n) (simp_all add: count_invocation_def)

text \<open>The first index at which a kernel overflows.\<close>

lemma first_overflow:
  assumes "elementwise_call w0 d typed vs sig s" "\<forall>i < n. covers vs i"
  obtains (all) f where "\<forall>i < n. yields h d sig vs l i (f i)"
  | (some) f m e h' where "m < n" "\<forall>i < m. yields h d sig vs l i (f i)"
      "overflows_at h d sig vs l m e h'"
proof (cases "\<forall>i < n. \<exists>r. yields h d sig vs l i r")
  case True
  then show thesis using all [of "\<lambda>i. SOME r. yields h d sig vs l i r"] by (metis someI)
next
  case False
  define m where "m = (LEAST i. i < n \<and> \<not> (\<exists>r. yields h d sig vs l i r))"
  have m: "m < n \<and> \<not> (\<exists>r. yields h d sig vs l m r)"
    unfolding m_def by (rule LeastI_ex) (use False in blast)
  have "\<forall>i < m. \<exists>r. yields h d sig vs l i r"
    using not_less_Least [of _ "\<lambda>i. i < n \<and> \<not> (\<exists>r. yields h d sig vs l i r)"] m
    unfolding m_def by (meson order.strict_trans)
  then obtain f where "\<forall>i < m. yields h d sig vs l i (f i)" by metis
  moreover obtain e h' where "overflows_at h d sig vs l m e h'"
    using call_outcome [OF assms(1), of m h l] assms(2) m by blast
  ultimately show thesis using some m by blast
qed

text \<open>The three outcomes of an application whose result is a vector.\<close>

lemma run_vector_refused:
  assumes "all_vectors_of n vs" "has_vector vs"
    and "allocate_vector w (ap_resources ctx) (vt_element (ps_result s)) n n l (pd_name d) =
      (r, ev, w1)" and "\<not> al_ok r"
  shows "run_elementwise w ctx d sig s (map whole_value vs) l =
    Some (application_failure (identify_primitive d (al_error r)), ctx\<lparr>ap_resources := ev\<rparr>, w1)"
  using assms by (simp add: run_elementwise_def result_shape_equal Let_def)

lemma run_vector_granted:
  assumes "all_vectors_of n vs" "has_vector vs"
    and "allocate_vector w (ap_resources ctx) (vt_element (ps_result s)) n n l (pd_name d) =
      (r, ev, w1)" and "al_ok r"
  shows "run_elementwise w ctx d sig s (map whole_value vs) l =
    lift_elements w1 (ctx\<lparr>ap_resources := ev\<rparr>) d sig s (map whole_value vs) l [0..<n] (al_value r)"
  using assms by (simp add: run_elementwise_def result_shape_equal Let_def)

lemma run_vector_yields:
  assumes call: "elementwise_call w0 d typed vs sig s"
    and shape: "all_vectors_of n vs" "has_vector vs"
    and run: "allocate_vector w (ap_resources ctx) (vt_element (ps_result s)) n n l (pd_name d) =
      (r, ev, w1)" and ok: "al_ok r"
    and yields: "\<forall>i < n. yields (rw_host w1) d sig vs l i (f i)"
  shows "\<exists>v. run_elementwise w ctx d sig s (map whole_value vs) l =
      Some (application_success v, (count_invocation ^^ n) (ctx\<lparr>ap_resources := ev\<rparr>), w1)
    \<and> rewritten (al_value r) v \<and> (\<forall>i < n. stored_scalar (va_vector v) i = Some (f i))"
proof -
  note payload = allocated_payload [OF run ok]
  have each: "\<forall>i \<in> set [0..<n]. covers vs i \<and> i < payload_length (va_vector (al_value r))
      \<and> yields (rw_host w1) d sig vs l i (f i)"
    using covers_all [OF shape(1)] payload(4) yields by simp
  from lift_elements_prefix [OF call each payload(1,2), where ctx = "ctx\<lparr>ap_resources := ev\<rparr>"
      and js = "[]"]
  show ?thesis unfolding run_vector_granted [OF shape run ok] by fastforce
qed

lemma run_vector_overflows:
  assumes call: "elementwise_call w0 d typed vs sig s"
    and shape: "all_vectors_of n vs" "has_vector vs"
    and run: "allocate_vector w (ap_resources ctx) (vt_element (ps_result s)) n n l (pd_name d) =
      (r, ev, w1)" and ok: "al_ok r"
    and yields: "\<forall>i < m. yields (rw_host w1) d sig vs l i (f i)"
    and overflow: "m < n" "overflows_at (rw_host w1) d sig vs l m e h'"
  shows "\<exists>v. run_elementwise w ctx d sig s (map whole_value vs) l =
      (case release_result (w1\<lparr>rw_host := h'\<rparr>)
              ((count_invocation ^^ Suc m) (ctx\<lparr>ap_resources := ev\<rparr>)) v of
         (left, ctx, w) \<Rightarrow>
           Some (application_failure (index_error m e), ctx, destroy_buffers w (va_vector left)))
    \<and> rewritten (al_value r) v"
proof -
  note payload = allocated_payload [OF run ok]
  have each: "\<forall>i \<in> set [0..<m]. covers vs i \<and> i < payload_length (va_vector (al_value r))
      \<and> yields (rw_host w1) d sig vs l i (f i)"
    using covers_all [OF shape(1)] payload(4) yields overflow(1) by simp
  have split: "[0..<n] = [0..<m] @ m # [Suc m..<n]"
    using overflow(1) upt_add_eq_append [of 0 m "n - m"] by (simp add: upt_conv_Cons)
  obtain v where v: "lift_elements w1 (ctx\<lparr>ap_resources := ev\<rparr>) d sig s (map whole_value vs) l
        [0..<n] (al_value r) =
      lift_elements w1 ((count_invocation ^^ m) (ctx\<lparr>ap_resources := ev\<rparr>)) d sig s
        (map whole_value vs) l (m # [Suc m..<n]) v" "rewritten (al_value r) v"
    using lift_elements_prefix [OF call each payload(1,2), where ctx = "ctx\<lparr>ap_resources := ev\<rparr>"
        and js = "m # [Suc m..<n]"] unfolding split by fastforce
  have "covers vs m" using covers_all [OF shape(1) overflow(1)] .
  from invoke_overflows(2) [OF call this overflow(2)]
  have "run_elementwise w ctx d sig s (map whole_value vs) l =
      (case release_result (w1\<lparr>rw_host := h'\<rparr>)
              ((count_invocation ^^ Suc m) (ctx\<lparr>ap_resources := ev\<rparr>)) v of
         (left, ctx, w) \<Rightarrow>
           Some (application_failure (index_error m e), ctx, destroy_buffers w (va_vector left)))"
    unfolding run_vector_granted [OF shape run ok] v(1) by (simp split: prod.splits)
  then show ?thesis using v(2) by blast
qed

section \<open>From the entry points to the loop\<close>

text \<open>Validated arguments and a signature that fits reach the loop; both entry points check no
  more than that.\<close>

lemma types_accepted_iff:
  "types_accepted s as types \<longleftrightarrow>
     length (ps_parameters s) = length as \<and> list_all2 converts types (ps_parameters s)"
  by (auto simp: types_accepted_def converts_def list_all2_conv_all_nth)

lemma application_of_call:
  assumes "elementwise_call w d typed vs sig s" "length vs \<le> maximum_application_arity"
  shows "apply_primitive_impl w ctx d typed (map whole_value vs) l =
    run_elementwise w ctx d sig s (map whole_value vs) l"
proof -
  let ?types = "map element_type_of vs"
  have a: "pd_lifting d = LM_elementwise" "length vs < size_max" "list_all (ready_value w) vs"
    "chosen_signature d typed ?types sig" "signature_of d sig = Some s"
    using assms(1) by (simp_all add: elementwise_call_def)
  obtain i where i: "i < length (pd_signatures d)" "sig = OwnSignature i"
    "list_all2 converts ?types (ps_parameters (pd_signatures d ! i))"
    using chosen_own [OF a(4)] a(2) by auto
  have s: "s = pd_signatures d ! i" using a(5) i(1,2) by simp
  have n: "length (ps_parameters s) = length vs"
    using list_all2_lengthD [OF i(3)] s by simp
  have arity: "arity_supplied d (length vs)"
    using i(1) n s by (auto simp: arity_supplied_def list_ex_iff)
  have checked: "validate_arguments w (ap_resources ctx) d 0 (map whole_value vs) l
      (replicate (length vs) ST_boolean) = Some (Inr ?types, ?types, w)"
    using validate_arguments_ready [OF a(3), of "replicate (length vs) ST_boolean" 0] by simp
  have "apply_elementwise w ctx d typed (map whole_value vs) ?types l =
      run_elementwise w ctx d sig s (map whole_value vs) l"
    using a(4,5) i s n
    by (cases typed)
       (simp_all add: chosen_signature_def apply_elementwise_def types_accepted_iff)
  then show ?thesis
    using assms(2) arity checked a(1) by (simp add: apply_primitive_impl_def)
qed

lemma apply_primitive_of_call:
  assumes "elementwise_call w d None vs sig s" "length vs \<le> maximum_application_arity"
  shows "apply_primitive w ctx d vs l = run_elementwise w ctx d sig s (map whole_value vs) l"
  using application_of_call [OF assms] assms(2) by (simp add: apply_primitive_def)

lemma typed_application_of_call:
  assumes "elementwise_call w d (Some sig) vs sig s" "length vs \<le> maximum_application_arity"
    and "implementing_signatures d implementation = [i]" "sig = OwnSignature i"
    and "implementation \<noteq> IM_none"
  shows "apply_typed_primitive_to_values w ctx d implementation vs l =
    run_elementwise w ctx d sig s (map whole_value vs) l"
  using application_of_call [OF assms(1,2)] assms(2-)
  by (simp add: apply_typed_primitive_to_values_def apply_typed_primitive_def)

section \<open>The outcomes\<close>

text \<open>What the application of a kernel to vectors of length \<open>n\<close> does: it reserves the result,
  then gives the kernel's value at every index, or the error of the least index at which the
  kernel overflows.\<close>

definition vector_outcome ::
    "resource_world \<Rightarrow> application_context \<Rightarrow> primitive_descriptor \<Rightarrow> signature_ref
      \<Rightarrow> primitive_signature \<Rightarrow> bennu_value list \<Rightarrow> source_location \<Rightarrow> nat
      \<Rightarrow> application_result \<Rightarrow> bool" where
  "vector_outcome w ctx d sig s vs l n r \<longleftrightarrow>
     (case allocate_vector w (ap_resources ctx) (vt_element (ps_result s)) n n l (pd_name d) of
        (a, ev, w1) \<Rightarrow>
          if \<not> al_ok a
          then r = application_failure (identify_primitive d (al_error a))
          else (if \<forall>i < n. \<exists>x. yields (rw_host w1) d sig vs l i x
                then pr_ok r \<and> va_container (pr_value r) = CK_vector
                     \<and> vv_element_type (va_vector (pr_value r)) = vt_element (ps_result s)
                     \<and> active_vector_length (va_vector (pr_value r)) = n
                     \<and> (\<forall>i < n. \<exists>x. stored_scalar (va_vector (pr_value r)) i = Some x
                            \<and> yields (rw_host w1) d sig vs l i x)
                else \<exists>m < n. \<exists>e h. (\<forall>i < m. \<exists>x. yields (rw_host w1) d sig vs l i x)
                            \<and> overflows_at (rw_host w1) d sig vs l m e h
                            \<and> r = application_failure (index_error m e)))"

lemma overflow_is_no_value:
  "overflows_at h d sig vs l m e h' \<Longrightarrow> \<not> (\<exists>x. yields h d sig vs l m x)"
  by (auto simp: overflows_at_def yields_def)

lemma run_vector_outcome:
  assumes call: "elementwise_call w0 d typed vs sig s"
    and shape: "all_vectors_of n vs" "has_vector vs"
  shows "\<exists>r ctx' w'. run_elementwise w ctx d sig s (map whole_value vs) l = Some (r, ctx', w')
    \<and> vector_outcome w ctx d sig s vs l n r"
proof -
  obtain a ev w1 where run: "allocate_vector w (ap_resources ctx) (vt_element (ps_result s)) n n l
      (pd_name d) = (a, ev, w1)" using prod_cases3 by blast
  show ?thesis
  proof (cases "al_ok a")
    case False
    then show ?thesis
      using run_vector_refused [OF shape run] run by (simp add: vector_outcome_def)
  next
    case True
    note payload = allocated_payload [OF run True]
    have cov: "\<forall>i < n. covers vs i" using covers_all [OF shape(1)] by simp
    show ?thesis
    proof (cases rule: first_overflow [OF call cov, of "rw_host w1" l, case_names all some])
      case (all f)
      obtain v where v: "run_elementwise w ctx d sig s (map whole_value vs) l =
          Some (application_success v, (count_invocation ^^ n) (ctx\<lparr>ap_resources := ev\<rparr>), w1)"
        "rewritten (al_value a) v" "\<forall>i < n. stored_scalar (va_vector v) i = Some (f i)"
        using run_vector_yields [OF call shape run True all] by blast
      have "vector_outcome w ctx d sig s vs l n (application_success v)"
        using run True all v(2,3) payload
        by (auto simp: vector_outcome_def application_success_def rewritten_def)
      then show ?thesis using v(1) by blast
    next
      case (some f m e h')
      obtain v where v: "run_elementwise w ctx d sig s (map whole_value vs) l =
          (case release_result (w1\<lparr>rw_host := h'\<rparr>)
                  ((count_invocation ^^ Suc m) (ctx\<lparr>ap_resources := ev\<rparr>)) v of
             (left, ctx, w) \<Rightarrow>
               Some (application_failure (index_error m e), ctx, destroy_buffers w (va_vector left)))"
        using run_vector_overflows [OF call shape run True some(2,1,3)] by blast
      have "vector_outcome w ctx d sig s vs l n (application_failure (index_error m e))"
        using run True some overflow_is_no_value [OF some(3)]
        by (auto simp: vector_outcome_def)
      then show ?thesis using v by (auto split: prod.splits)
    qed
  qed
qed

section \<open>The accounts of an application\<close>

lemma destroy_released [simp]: "destroy_buffers w (va_vector (make_int_value n)) = w"
  by (simp add: destroy_buffers_def release_host_buffer_def make_int_value_def make_scalar_value_def
      empty_vector_of_def null_buffer_def)

lemma count_invocation_resources [simp]: "ap_resources (count_invocation ctx) = ap_resources ctx"
  by (simp add: count_invocation_def)

text \<open>What an application to vectors leaves: the charge of its result when it succeeds, which is
  then ready to be an argument, and nothing when it fails.\<close>

definition accounts_after ::
    "evaluation_resources \<Rightarrow> primitive_signature \<Rightarrow> nat \<Rightarrow> application_result
      \<Rightarrow> evaluation_resources \<Rightarrow> resource_world \<Rightarrow> bool" where
  "accounts_after current s n r ev w \<longleftrightarrow>
     (if pr_ok r
      then ready_value w (pr_value r) \<and> ac_work ev = ac_work current + n
           \<and> (case element_width (vt_element (ps_result s)) of
                None \<Rightarrow> False
              | Some width \<Rightarrow> ac_live ev = ac_live current + n * width)
      else ac_live ev = ac_live current \<and> ac_work ev \<in> {ac_work current, ac_work current + n})"

lemma run_vector_accounts:
  assumes reach: "reachable b w" and fresh: "fresh_block w"
    and call: "elementwise_call w0 d typed vs sig s"
    and shape: "all_vectors_of n vs" "has_vector vs"
    and current: "refresh_evaluation_resources w (ap_resources ctx) = (known, current, w2)"
    and run: "run_elementwise w ctx d sig s (map whole_value vs) l = Some (r, ctx', w')"
  shows "reachable b w' \<and> accounts_after current s n r (ap_resources ctx') w'"
proof -
  obtain a ev w1 where alloc: "allocate_vector w (ap_resources ctx) (vt_element (ps_result s)) n n
      l (pd_name d) = (a, ev, w1)" using prod_cases3 by blast
  have reach1: "reachable b w1" by (rule reachable.allocate [OF reach fresh alloc])
  have decided: "allocation_outcome known current (vt_element (ps_result s)) n n a ev"
    using allocation_outcome_holds [where w = w and ev = "ap_resources ctx"
        and element_type = "vt_element (ps_result s)" and n = n and amount = n and l = l
        and name = "pd_name d"] alloc current by simp
  show ?thesis
  proof (cases "al_ok a")
    case False
    have "r = application_failure (identify_primitive d (al_error a))"
      "ap_resources ctx' = ev" "w' = w1"
      using run run_vector_refused [OF shape alloc False] by auto
    then show ?thesis
      using reach1 decided False
      by (auto simp: accounts_after_def application_failure_def allocation_outcome_def
          unchanged_counters_def)
  next
    case True
    note granted = allocation_granted [OF reach fresh alloc True]
    note payload = allocated_payload [OF alloc True]
    obtain width where width: "element_width (vt_element (ps_result s)) = Some width"
      "vv_canonical_bytes (va_vector (al_value a)) = n * width"
      "vv_accounting_active (va_vector (al_value a)) = (n * width \<noteq> 0)"
      using granted(6) by blast
    have counters: "ac_live ev = ac_live current + n * width" "ac_work ev = ac_work current + n"
      using decided True width(1) by (simp_all add: allocation_outcome_def admitted_def)
    have cov: "\<forall>i < n. covers vs i" using covers_all [OF shape(1)] by simp
    show ?thesis
    proof (cases rule: first_overflow [OF call cov, of "rw_host w1" l, case_names all some])
      case (all f)
      obtain v where v: "run_elementwise w ctx d sig s (map whole_value vs) l =
          Some (application_success v, (count_invocation ^^ n) (ctx\<lparr>ap_resources := ev\<rparr>), w1)"
        "rewritten (al_value a) v"
        using run_vector_yields [OF call shape alloc True all] by blast
      have "ready_value w1 v"
        using v(2) granted(1) payload by (simp add: rewritten_def ready_value_def)
      then show ?thesis
        using run v(1) reach1 counters width(1)
        by (auto simp: accounts_after_def application_success_def)
    next
      case (some f m e h')
      obtain v where v: "run_elementwise w ctx d sig s (map whole_value vs) l =
          (case release_result (w1\<lparr>rw_host := h'\<rparr>)
                  ((count_invocation ^^ Suc m) (ctx\<lparr>ap_resources := ev\<rparr>)) v of
             (left, ctx, w) \<Rightarrow>
               Some (application_failure (index_error m e), ctx, destroy_buffers w (va_vector left)))"
        "rewritten (al_value a) v"
        using run_vector_overflows [OF call shape alloc True some(2,1,3)] by blast
      let ?w = "w1\<lparr>rw_host := h'\<rparr>"
      have reach2: "reachable b ?w" by (rule reachable.elsewhere [OF reach1])
      obtain w3 where acq: "acquire_validated_resource_state ?w ev = (Some (ev_owner ev), w3)"
        using granted(4) acquire_host [of "\<lambda>_. h'" w1 ev] by auto
      obtain st where st: "find_resource_state_locked ?w (ev_owner ev) = Some st"
        "ac_live st = ac_live ev" "ac_work st = ac_work ev"
        using granted(5) by auto
      have same: "va_container v = CK_vector" "vv_canonical_bytes (va_vector v) = n * width"
        "vv_accounting_active (va_vector v) \<or> vv_canonical_bytes (va_vector v) = 0"
        "vv_accounting_owner (va_vector v) \<in> {0, ev_owner ev}"
        "validate_untraversed ?w v = Some valid_value"
        using v(2) granted(1-3) width by (auto simp: rewritten_def)
      obtain ev' w4 where rel: "release_vector_reservation ?w ev v =
          ((released, make_int_value 0), ev', w4)"
        "ac_live ev' = ac_live st - n * width" "ac_work ev' = ac_work st"
        using release_valid_vector [OF reach2 same(1,5,3,4) acq st(1)] same(2) by auto
      have reach4: "reachable b w4" by (rule reachable.release_vector [OF reach2 rel(1)])
      have "r = application_failure (index_error m e)" "ap_resources ctx' = ev'" "w' = w4"
        using run rel(1) unfolding v(1) by (auto simp: release_result_def)
      then show ?thesis
        using reach4 rel(2,3) st counters
        by (auto simp: accounts_after_def application_failure_def)
    qed
  qed
qed

section \<open>Scalars, and vectors of different lengths\<close>

lemma all_scalars: "\<not> has_vector vs \<Longrightarrow> all_vectors_of n vs"
  by (auto simp: all_vectors_of_def has_vector_def list_all_iff list_ex_iff)

definition scalar_outcome ::
    "resource_world \<Rightarrow> application_context \<Rightarrow> primitive_descriptor \<Rightarrow> signature_ref
      \<Rightarrow> bennu_value list \<Rightarrow> source_location \<Rightarrow> application_result \<Rightarrow> bool" where
  "scalar_outcome w ctx d sig vs l r \<longleftrightarrow>
     (case charge_work w (ap_resources ctx) 1 l (pd_name d) of
        (Some e, ev, w1) \<Rightarrow> r = application_failure (identify_primitive d e)
      | (None, ev, w1) \<Rightarrow>
          (\<exists>x. yields (rw_host w1) d sig vs l 0 x \<and> r = application_success (value_from_scalar x))
          \<or> (\<exists>e h. overflows_at (rw_host w1) d sig vs l 0 e h \<and> r = application_failure e))"

lemma run_scalar_outcome:
  assumes call: "elementwise_call w0 d typed vs sig s" and scalars: "\<not> has_vector vs"
  shows "\<exists>r ctx' w'. run_elementwise w ctx d sig s (map whole_value vs) l = Some (r, ctx', w')
    \<and> scalar_outcome w ctx d sig vs l r"
proof -
  have shape: "result_shape 0 (map whole_value vs) None = Some (Inr None)"
    using result_shape_equal [OF all_scalars [OF scalars], of None 0] scalars by simp
  obtain e ev w1 where charge: "charge_work w (ap_resources ctx) 1 l (pd_name d) = (e, ev, w1)"
    using prod_cases3 by blast
  show ?thesis
  proof (cases e)
    case (Some err)
    then show ?thesis
      using charge shape by (simp add: run_elementwise_def scalar_outcome_def)
  next
    case None
    note cov = covers_scalars [OF scalars, of 0]
    consider (yields) x where "yields (rw_host w1) d sig vs l 0 x"
      | (overflows) err h where "overflows_at (rw_host w1) d sig vs l 0 err h"
      using call_outcome [OF call cov, of "rw_host w1" l] by blast
    then show ?thesis
    proof cases
      case (yields x)
      then show ?thesis
        using charge shape None invoke_yields(1) [OF call cov yields]
        by (auto simp: run_elementwise_def scalar_outcome_def)
    next
      case (overflows err h)
      then show ?thesis
        using charge shape None invoke_overflows(1) [OF call cov overflows]
        by (auto simp: run_elementwise_def scalar_outcome_def)
    qed
  qed
qed

text \<open>The first vector whose length differs from that of the vectors before it.\<close>

definition mismatch_at :: "bennu_value list \<Rightarrow> nat \<Rightarrow> nat \<Rightarrow> nat \<Rightarrow> bool" where
  "mismatch_at vs k n m \<longleftrightarrow>
     k < length vs \<and> va_container (vs ! k) = CK_vector \<and> active_vector_length (va_vector (vs ! k)) = m
     \<and> n \<noteq> m \<and> has_vector (take k vs) \<and> all_vectors_of n (take k vs)"

lemma result_shape_differs_some:
  assumes "\<not> all_vectors_of n vs"
  shows "\<exists>k m. result_shape j (map whole_value vs) (Some n) = Some (Inl (j + k, n, m))
    \<and> k < length vs \<and> va_container (vs ! k) = CK_vector
    \<and> active_vector_length (va_vector (vs ! k)) = m \<and> n \<noteq> m \<and> all_vectors_of n (take k vs)"
  using assms
proof (induction vs arbitrary: j)
  case (Cons v vs)
  show ?case
  proof (cases "va_container v = CK_vector \<and> active_vector_length (va_vector v) \<noteq> n")
    case True
    then show ?thesis
      by (intro exI [of _ 0] exI [of _ "active_vector_length (va_vector v)"])
         (auto simp: validated_vector_length_def all_vectors_of_def)
  next
    case False
    then have rest: "\<not> all_vectors_of n vs" using Cons.prems by (auto simp: all_vectors_of_def)
    obtain k m where k: "result_shape (Suc j) (map whole_value vs) (Some n) =
        Some (Inl (Suc j + k, n, m))"
      "k < length vs" "va_container (vs ! k) = CK_vector"
      "active_vector_length (va_vector (vs ! k)) = m" "n \<noteq> m" "all_vectors_of n (take k vs)"
      using Cons.IH [OF rest, of "Suc j"] by blast
    then show ?thesis
      using False
      by (intro exI [of _ "Suc k"] exI [of _ m])
         (auto simp: validated_vector_length_def all_vectors_of_def)
  qed
qed (simp add: all_vectors_of_def)

lemma result_shape_differs:
  assumes "\<not> (\<exists>n. all_vectors_of n vs)"
  shows "\<exists>k n m. result_shape j (map whole_value vs) None = Some (Inl (j + k, n, m))
    \<and> mismatch_at vs k n m"
  using assms
proof (induction vs arbitrary: j)
  case (Cons v vs)
  show ?case
  proof (cases "va_container v = CK_vector")
    case True
    let ?n = "active_vector_length (va_vector v)"
    have "\<not> all_vectors_of ?n vs" using Cons.prems True by (auto simp: all_vectors_of_def)
    from result_shape_differs_some [OF this, of "Suc j"]
    obtain k m where "result_shape (Suc j) (map whole_value vs) (Some ?n) =
        Some (Inl (Suc j + k, ?n, m))"
      "k < length vs" "va_container (vs ! k) = CK_vector"
      "active_vector_length (va_vector (vs ! k)) = m" "?n \<noteq> m" "all_vectors_of ?n (take k vs)"
      by blast
    then show ?thesis
      using True
      by (intro exI [of _ "Suc k"] exI [of _ ?n] exI [of _ m])
         (auto simp: validated_vector_length_def all_vectors_of_def mismatch_at_def has_vector_def)
  next
    case False
    then have "\<not> (\<exists>n. all_vectors_of n vs)" using Cons.prems by (auto simp: all_vectors_of_def)
    then obtain k n m where "result_shape (Suc j) (map whole_value vs) None =
        Some (Inl (Suc j + k, n, m))" "mismatch_at vs k n m"
      using Cons.IH by blast
    then show ?thesis
      using False
      by (intro exI [of _ "Suc k"] exI [of _ n] exI [of _ m])
         (auto simp: all_vectors_of_def mismatch_at_def has_vector_def)
  qed
qed (simp add: all_vectors_of_def)

definition shape_outcome :: "bennu_value list \<Rightarrow> application_result \<Rightarrow> bool" where
  "shape_outcome vs r \<longleftrightarrow>
     \<not> pr_ok r \<and> er_kind (pr_error r) = EK_shape_mismatch
     \<and> (\<exists>k n m. mismatch_at vs k n m \<and> er_argument_position (pr_error r) = Some (k + 1)
          \<and> er_shape (pr_error r) = Some \<lparr>sx_expected = [n], sx_actual = [m]\<rparr>)"

lemma run_shape_outcome:
  assumes "\<not> (\<exists>n. all_vectors_of n vs)"
  shows "\<exists>r h. run_elementwise w ctx d sig s (map whole_value vs) l =
      Some (r, ctx, w\<lparr>rw_host := h\<rparr>) \<and> shape_outcome vs r"
proof -
  obtain k n m where k: "result_shape 0 (map whole_value vs) None = Some (Inl (k, n, m))"
    "mismatch_at vs k n m" using result_shape_differs [OF assms, of 0] by auto
  obtain c h where c: "make_primitive_error_context (rw_host w) (pd_name d) (Some (pd_id d)) = (c, h)"
    by (cases "make_primitive_error_context (rw_host w) (pd_name d) (Some (pd_id d))")
  show ?thesis
    using k c
    by (auto simp: run_elementwise_def primitive_error_def shape_outcome_def
        application_failure_def make_error_def make_error_message_def)
qed

section \<open>Application of the elementwise primitives\<close>

text \<open>C9: an elementwise primitive is its scalar kernel, lifted. Applied to valid values whose
  types fit a signature of its, directly or by a lowered call, the application always returns.
  On scalars one unit of work is charged and the kernel's value, or its overflow, returned. On
  vectors of one length the result is reserved, and it is the vector of the kernel's values at
  every index, a scalar argument taken at all of them, when there is one at every index; when
  there is not, the least index without one decides the error, which names that index. Vectors
  of different lengths are a shape error, which names the first argument that differs and both
  lengths, before anything is charged.\<close>

theorem elementwise_application_lifts:
  assumes "elementwise_call w d typed vs sig s" and "length vs \<le> maximum_application_arity"
  shows "case apply_primitive_impl w ctx d typed (map whole_value vs) l of
           None \<Rightarrow> False
         | Some (r, ctx', w') \<Rightarrow>
             if \<not> has_vector vs then scalar_outcome w ctx d sig vs l r
             else if \<exists>n. all_vectors_of n vs
             then \<forall>n. all_vectors_of n vs \<longrightarrow> vector_outcome w ctx d sig s vs l n r
             else shape_outcome vs r \<and> ctx' = ctx"
proof -
  note eq = application_of_call [OF assms]
  consider (scalars) "\<not> has_vector vs"
    | (vectors) n where "has_vector vs" "all_vectors_of n vs"
    | (differ) "has_vector vs" "\<not> (\<exists>n. all_vectors_of n vs)" by blast
  then show ?thesis
  proof cases
    case scalars
    obtain r ctx' w' where r: "run_elementwise w ctx d sig s (map whole_value vs) l =
        Some (r, ctx', w')" "scalar_outcome w ctx d sig vs l r"
      using run_scalar_outcome [OF assms(1) scalars] by blast
    then show ?thesis unfolding eq using scalars by simp
  next
    case (vectors n)
    obtain r ctx' w' where r: "run_elementwise w ctx d sig s (map whole_value vs) l =
        Some (r, ctx', w')" "vector_outcome w ctx d sig s vs l n r"
      using run_vector_outcome [OF assms(1) vectors(2,1)] by blast
    have "m = n" if "all_vectors_of m vs" for m
      using that vectors by (auto simp: all_vectors_of_def has_vector_def list_all_iff list_ex_iff)
    then have all: "\<forall>m. all_vectors_of m vs \<longrightarrow> vector_outcome w ctx d sig s vs l m r"
      using r(2) by blast
    have ex: "\<exists>n. all_vectors_of n vs" using vectors(2) by blast
    show ?thesis
      using all by (simp only: eq r(1) option.case prod.case vectors(1) ex not_True_eq_False
          if_True if_False)
  next
    case differ
    obtain r h where "run_elementwise w ctx d sig s (map whole_value vs) l =
        Some (r, ctx, w\<lparr>rw_host := h\<rparr>)" "shape_outcome vs r"
      using run_shape_outcome [OF differ(2)] by blast
    then show ?thesis unfolding eq using differ by simp
  qed
qed

text \<open>C10: an application accounts for its result and for nothing else. In every reachable state,
  when an elementwise primitive has been applied to valid vectors of one length, a success leaves
  a well-formed vector, ready to be an argument itself, whose bytes and work are charged to the
  context; a failure, at the reservation or at any index of the loop, leaves the live count of
  the context where it was; and the state after it is a reachable one again.\<close>

theorem application_accounts_for_its_result:
  assumes "reachable b w" and "fresh_block w"
    and "elementwise_call w d typed vs sig s" and "length vs \<le> maximum_application_arity"
    and "all_vectors_of n vs" and "has_vector vs"
    and "refresh_evaluation_resources w (ap_resources ctx) = (known, current, w0)"
    and "apply_primitive_impl w ctx d typed (map whole_value vs) l = Some (r, ctx', w')"
  shows "reachable b w' \<and> accounts_after current s n r (ap_resources ctx') w'"
  using run_vector_accounts [OF assms(1-3,5-7)] assms(8) application_of_call [OF assms(3,4)]
  by simp

section \<open>A sample call\<close>

definition sample_zeros :: bennu_value where
  "sample_zeros = al_value (fst (sample_allocated 2))"

definition sample_context :: application_context where
  "sample_context = \<lparr>ap_resources = fst (snd (sample_allocated 2)), ap_invocations = 0\<rparr>"

definition sample_subtract :: primitive_descriptor where
  "sample_subtract = production_descriptors ! primitive_code PI_sub"

definition sample_operands :: "bennu_value list" where
  "sample_operands = [sample_zeros, make_int_value (- (2 ^ 63))]"

lemma sample_grants: "al_ok (fst (sample_allocated 2))"
  by code_simp

lemma sample_allocated_reachable:
  "reachable ((\<lambda>_. 0)(ev_owner (fst sample_opened) := 0)) (snd (snd (sample_allocated n)))"
  by (rule reachable.allocate [OF sample_reachable sample_fresh sample_run])

lemma sample_allocated_fresh: "fresh_block (snd (snd (sample_allocated 2)))"
  by code_simp

lemmas sample_granted = allocation_granted [OF sample_reachable sample_fresh sample_run sample_grants]
lemmas sample_payload = allocated_payload [OF sample_run sample_grants]

lemma sample_shape: "all_vectors_of 2 sample_operands" "has_vector sample_operands"
  using sample_payload(1,3)
  by (simp_all add: all_vectors_of_def has_vector_def sample_operands_def sample_zeros_def
      make_int_value_def make_scalar_value_def)

lemma sample_ready: "list_all (ready_value (snd (snd (sample_allocated 2)))) sample_operands"
proof -
  have "ready_value (snd (snd (sample_allocated 2))) sample_zeros"
    using sample_granted(1) sample_payload by (simp add: ready_value_def sample_zeros_def)
  moreover have "ready_value w (make_int_value n)" for w n
    by (simp add: ready_value_def make_int_value_def make_scalar_value_def int_scalar_def
        validate_untraversed_def root_verdict_def scalar_verdict_def is_positive_zero_def
        vector_fields_empty_def tuple_fields_empty_def empty_vector_of_def empty_tuple_def
        empty_reservation_def null_buffer_def empty_host_array_def host_array_metadata_valid_def
        boolean_fields_unused_def integer_fields_unused_def double_fields_unused_def)
  ultimately show ?thesis by (simp add: sample_operands_def)
qed

lemma sample_types: "map element_type_of sample_operands = [ST_integer, ST_integer]"
  using sample_payload(1,2)
  by (simp add: sample_operands_def sample_zeros_def element_type_of_def make_int_value_def
      make_scalar_value_def int_scalar_def)

lemma sample_call:
  "elementwise_call (snd (snd (sample_allocated 2))) sample_subtract None sample_operands
     (OwnSignature 0) (pd_signatures sample_subtract ! 0)"
proof -
  have "well_formed_descriptor sample_subtract"
    by (rule production_descriptor_well_formed)
       (simp add: sample_subtract_def production_descriptors_def)
  moreover have "chosen_signature sample_subtract None [ST_integer, ST_integer] (OwnSignature 0)"
    by code_simp
  moreover have "pd_lifting sample_subtract = LM_elementwise"
    "signature_of sample_subtract (OwnSignature 0) = Some (pd_signatures sample_subtract ! 0)"
    by code_simp+
  moreover have "length sample_operands < size_max"
    by (simp add: sample_operands_def size_max_def)
  ultimately show ?thesis using sample_ready by (simp add: elementwise_call_def sample_types)
qed

lemma sample_arity: "length sample_operands \<le> maximum_application_arity"
  by (simp add: sample_operands_def maximum_application_arity_def)

theorem elementwise_application_lifts_witness:
  "case apply_primitive_impl (snd (snd (sample_allocated 2))) sample_context sample_subtract None
          (map whole_value sample_operands) sample_location of
     None \<Rightarrow> False
   | Some (r, ctx, w) \<Rightarrow>
       vector_outcome (snd (snd (sample_allocated 2))) sample_context sample_subtract
         (OwnSignature 0) (pd_signatures sample_subtract ! 0) sample_operands sample_location 2 r"
proof -
  let ?run = "apply_primitive_impl (snd (snd (sample_allocated 2))) sample_context sample_subtract
    None (map whole_value sample_operands) sample_location"
  have n: "\<exists>n. all_vectors_of n sample_operands" using sample_shape(1) by blast
  note lifts = elementwise_application_lifts [OF sample_call sample_arity, of sample_context
      sample_location]
  then obtain r ctx w where r: "?run = Some (r, ctx, w)" by (cases ?run) auto
  from lifts have "\<forall>n. all_vectors_of n sample_operands \<longrightarrow>
      vector_outcome (snd (snd (sample_allocated 2))) sample_context sample_subtract
         (OwnSignature 0) (pd_signatures sample_subtract ! 0) sample_operands sample_location n r"
    unfolding r using sample_shape(2) n by simp
  then show ?thesis unfolding r using sample_shape(1) by simp
qed

theorem application_accounts_for_its_result_witness:
  "case apply_primitive_impl (snd (snd (sample_allocated 2))) sample_context sample_subtract None
          (map whole_value sample_operands) sample_location of
     None \<Rightarrow> False
   | Some (r, ctx, w) \<Rightarrow>
       accounts_after
         (fst (snd (refresh_evaluation_resources (snd (snd (sample_allocated 2)))
                      (ap_resources sample_context))))
         (pd_signatures sample_subtract ! 0) 2 r (ap_resources ctx) w"
proof -
  let ?w = "snd (snd (sample_allocated 2))"
  obtain r ctx w where r: "apply_primitive_impl ?w sample_context sample_subtract None
      (map whole_value sample_operands) sample_location = Some (r, ctx, w)"
    using run_vector_outcome [OF sample_call sample_shape, of ?w sample_context sample_location]
      application_of_call [OF sample_call sample_arity, of sample_context sample_location] by auto
  obtain known current w0 where c: "refresh_evaluation_resources ?w (ap_resources sample_context) =
      (known, current, w0)" using prod_cases3 by blast
  note accounts = application_accounts_for_its_result [OF sample_allocated_reachable
      sample_allocated_fresh sample_call sample_arity sample_shape c r]
  show ?thesis unfolding r c using accounts by simp
qed

end
