(* ===== verification/TupleRelease.thy ===== *)
theory TupleRelease
  imports ValueTraversal Resources
begin

text \<open>
  Giving back the charges of a whole value (\<open>destroy_value\<close>, src/value.cpp;
  \<open>destroy_proven_value\<close>, \<open>release_value_reservations\<close>, \<open>detach_value_reservations\<close>,
  src/resources.cpp). All four walk a tuple in the same way, children last to first and a node
  after its children, without a stack: the index of the parent is threaded through a field that
  the kind of the node leaves unused, and the number of children still to visit is counted down
  in the node itself. They differ in what they do to a payload and to a reservation.

  \<^item> A read outside the constructed elements of an array is \<open>None\<close>, and so is a walk that does
    not come to an end; the loop is a partial function.
  \<^item> Lifetime observers are left out.
\<close>

section \<open>Destruction of what is left\<close>

text \<open>What the destructor of a value does to the storage it still owns: every buffer is freed by
  its deleter, which gives back a charge that is still bound.\<close>

definition drop_vector :: "resource_world \<Rightarrow> vector_value \<Rightarrow> resource_world" where
  "drop_vector w v =
     (let w = release_host_buffer w BE_double (bf_address (vv_doubles v));
          w = release_host_buffer w BE_int64 (bf_address (vv_integers v))
      in release_host_buffer w BE_uint8 (bf_address (vv_booleans v)))"

definition drop_reservation :: "resource_world \<Rightarrow> tuple_table_reservation \<Rightarrow> resource_world" where
  "drop_reservation w r = release_host_buffer w BE_byte (bf_address (tr_storage r))"

definition drop_tuple :: "resource_world \<Rightarrow> tuple_value \<Rightarrow> resource_world" where
  "drop_tuple w t =
     (let w = drop_reservation w (tv_root_reservation t);
          w = fold (\<lambda>r w. drop_reservation w r) (host_array_span (tv_reservations t)) w
      in fold (\<lambda>v w. drop_vector w v) (host_array_span (tv_vector_payloads t)) w)"

definition drop_value :: "resource_world \<Rightarrow> bennu_value \<Rightarrow> resource_world" where
  "drop_value w v = drop_vector (drop_tuple w (va_tuple v)) (va_vector v)"

section \<open>The walk\<close>

definition set_parent :: "tuple_value \<Rightarrow> nat \<Rightarrow> nat \<Rightarrow> tuple_value option" where
  "set_parent t child_index parent_index =
     do {
       child \<leftarrow> host_array_at (tv_nodes t) child_index;
       nodes \<leftarrow> host_array_put (tv_nodes t) child_index
         (if vn_container child = CK_tuple then child\<lparr>vn_vector_payload_index := parent_index\<rparr>
          else child\<lparr>vn_first_child := parent_index\<rparr>);
       Some (t\<lparr>tv_nodes := nodes\<rparr>)
     }"

fun set_parents :: "tuple_value \<Rightarrow> nat \<Rightarrow> nat list \<Rightarrow> tuple_value option" where
  "set_parents t parent_index [] = Some t"
| "set_parents t parent_index (edge # edges) =
     do {
       child_index \<leftarrow> host_array_at (tv_child_indexes t) edge;
       t \<leftarrow> set_parent t child_index parent_index;
       set_parents t parent_index edges
     }"

definition child_edges :: "nat \<Rightarrow> nat \<Rightarrow> nat list" where
  "child_edges first_child child_count = [first_child..<first_child + child_count]"

fun thread_nodes :: "tuple_value \<Rightarrow> nat list \<Rightarrow> tuple_value option" where
  "thread_nodes t [] = Some t"
| "thread_nodes t (node_index # indexes) =
     do {
       node \<leftarrow> host_array_at (tv_nodes t) node_index;
       t \<leftarrow> (if vn_container node \<noteq> CK_tuple then Some t
            else set_parents t node_index (child_edges (vn_first_child node) (vn_child_count node)));
       thread_nodes t indexes
     }"

definition thread_parents :: "tuple_value \<Rightarrow> tuple_value option" where
  "thread_parents t =
     do {
       t \<leftarrow> thread_nodes t [0..<array_size (tv_nodes t)];
       set_parents t (tv_root_index t) (child_edges (tv_first_child t) (tv_child_count t))
     }"

text \<open>What a walk does at a reservation and at a payload: a reason to stop, or none, with what is
  left of it and of the state.\<close>

type_synonym 's walk_state = "value_invariant option \<times> tuple_value \<times> 's"

record 's walk_actions =
  wa_reservation ::
    "tuple_table_reservation \<Rightarrow> 's \<Rightarrow> value_invariant option \<times> tuple_table_reservation \<times> 's"
  wa_payload :: "vector_value \<Rightarrow> 's \<Rightarrow> value_invariant option \<times> vector_value \<times> 's"

text \<open>The child the walk goes to next, counting it off in its parent.\<close>

definition next_child :: "tuple_value \<Rightarrow> nat \<Rightarrow> value_node \<Rightarrow> (nat \<times> tuple_value) option" where
  "next_child t node_index node =
     (let remaining = vn_child_count node - 1
      in do {
        child \<leftarrow> host_array_at (tv_child_indexes t) (vn_first_child node + remaining);
        t \<leftarrow> (if node_index = tv_root_index t then Some (t\<lparr>tv_child_count := remaining\<rparr>)
             else do {
               nodes \<leftarrow> host_array_put (tv_nodes t) node_index (node\<lparr>vn_child_count := remaining\<rparr>);
               Some (t\<lparr>tv_nodes := nodes\<rparr>) });
        Some (child, t)
      })"

definition visit_reservation ::
    "'s walk_actions \<Rightarrow> tuple_value \<Rightarrow> nat \<Rightarrow> value_node \<Rightarrow> 's \<Rightarrow> 's walk_state option" where
  "visit_reservation actions t node_index node s =
     (if node_index = tv_root_index t
      then (case wa_reservation actions (tv_root_reservation t) s of
              (stop, r, s) \<Rightarrow> Some (stop, t\<lparr>tv_root_reservation := r\<rparr>, s))
      else do {
        r \<leftarrow> host_array_at (tv_reservations t) (vn_tuple_reservation_index node);
        case wa_reservation actions r s of
          (stop, r, s) \<Rightarrow>
            do { rs \<leftarrow> host_array_put (tv_reservations t) (vn_tuple_reservation_index node) r;
                 Some (stop, t\<lparr>tv_reservations := rs\<rparr>, s) }
      })"

definition visit_payload ::
    "'s walk_actions \<Rightarrow> tuple_value \<Rightarrow> value_node \<Rightarrow> 's \<Rightarrow> 's walk_state option" where
  "visit_payload actions t node s =
     do {
       v \<leftarrow> host_array_at (tv_vector_payloads t) (vn_vector_payload_index node);
       case wa_payload actions v s of
         (stop, v, s) \<Rightarrow>
           do { vs \<leftarrow> host_array_put (tv_vector_payloads t) (vn_vector_payload_index node) v;
                Some (stop, t\<lparr>tv_vector_payloads := vs\<rparr>, s) }
     }"

text \<open>A node of the arena; the root is not in the table.\<close>

definition walk_node :: "tuple_value \<Rightarrow> nat \<Rightarrow> value_node option" where
  "walk_node t node_index =
     (if node_index = tv_root_index t
      then Some \<lparr>vn_container = CK_tuple, vn_scalar = empty_scalar,
                 vn_first_child = tv_first_child t, vn_child_count = tv_child_count t,
                 vn_tuple_reservation_index = 0, vn_vector_payload_index = 0\<rparr>
      else host_array_at (tv_nodes t) node_index)"

partial_function (option) walk ::
    "'s walk_actions \<Rightarrow> tuple_value \<Rightarrow> nat \<Rightarrow> 's \<Rightarrow> 's walk_state option" where
  "walk actions t node_index s =
     Option.bind (walk_node t node_index) (\<lambda>node.
       if vn_container node = CK_tuple \<and> vn_child_count node \<noteq> 0
       then Option.bind (next_child t node_index node) (\<lambda>(child, t). walk actions t child s)
       else
         Option.bind
           (if vn_container node = CK_tuple then visit_reservation actions t node_index node s
            else if vn_container node = CK_vector then visit_payload actions t node s
            else Some (None, t, s))
           (\<lambda>(stop, t, s).
              if stop \<noteq> None \<or> node_index = tv_root_index t then Some (stop, t, s)
              else walk actions t
                     (if vn_container node = CK_tuple then vn_vector_payload_index node
                      else vn_first_child node) s))"

declare walk.simps [code]

definition walk_tuple ::
    "'s walk_actions \<Rightarrow> tuple_value \<Rightarrow> 's \<Rightarrow> 's walk_state option" where
  "walk_tuple actions t s =
     do { t \<leftarrow> thread_parents t; walk actions t (tv_root_index t) s }"

section \<open>Destruction without a context\<close>

definition release_proven_tuple_reservation ::
    "resource_world \<Rightarrow> tuple_table_reservation \<Rightarrow> tuple_table_reservation \<times> resource_world" where
  "release_proven_tuple_reservation w r =
     (let storage = bf_address (tr_storage r);
          owner = tr_accounting_owner r;
          w = (if tr_accounting_active r \<and> owner \<noteq> 0
               then snd (refund_resource_state_bytes w owner storage (tr_canonical_bytes r)
                           (tr_allocation_ordinal r) SK_tuple_table)
               else w);
          w = release_accounting_owner w owner;
          r = r\<lparr>tr_accounting_active := False, tr_accounting_owner := 0,
                tr_allocation_ordinal := None\<rparr>
      in if storage \<noteq> 0
         then (r\<lparr>tr_storage := null_buffer\<rparr>, release_host_buffer w BE_byte storage)
         else (r, w))"

definition proven_actions :: "resource_world walk_actions" where
  "proven_actions =
     \<lparr>wa_reservation = (\<lambda>r w. (None, release_proven_tuple_reservation w r)),
      wa_payload = (\<lambda>v w. (None, release_proven_vector w v))\<rparr>"

text \<open>A value without its charges. Replacing it frees what it still owns.\<close>

definition release_proven_parts ::
    "resource_world \<Rightarrow> bennu_value \<Rightarrow> (bennu_value \<times> resource_world) option" where
  "release_proven_parts w v =
     (case va_container v of
        CK_vector \<Rightarrow>
          (case release_proven_vector w (va_vector v) of
             (p, w) \<Rightarrow> Some (v\<lparr>va_vector := p\<rparr>, w))
      | CK_tuple \<Rightarrow>
          map_option (\<lambda>(stop, t, w). (v\<lparr>va_tuple := t\<rparr>, w))
            (walk_tuple proven_actions (va_tuple v) w)
      | _ \<Rightarrow> Some (v, w))"

definition replaced ::
    "bennu_value \<Rightarrow> bennu_value \<times> resource_world \<Rightarrow> bennu_value \<times> resource_world" where
  "replaced v left = (v, drop_value (snd left) (fst left))"

definition destroy_proven_value ::
    "resource_world \<Rightarrow> bennu_value \<Rightarrow> (bennu_value \<times> resource_world) option" where
  "destroy_proven_value w v =
     (if \<not> va_claimed v then Some (v, w)
      else map_option (replaced ((make_int_value 0)\<lparr>va_claimed := False\<rparr>))
             (release_proven_parts w v))"

text \<open>The result of a destruction is the report of a validation, without its access error.\<close>

definition destroy_value_injected ::
    "resource_world \<Rightarrow> bennu_value
      \<Rightarrow> ((value_validation_result \<times> bennu_value) \<times> resource_world) option" where
  "destroy_value_injected w v =
     (if \<not> va_claimed v then Some ((valid_value, v), w)
      else do {
        (validation, w) \<leftarrow> validate_value_injected w v;
        if \<not> vr_ok validation then Some ((validation\<lparr>vr_error := VE_none\<rparr>, v), w)
        else do {
          left \<leftarrow> release_proven_parts w v;
          case replaced invalid_construction_value left of
            (v, w) \<Rightarrow> Some ((valid_value, v), w)
        }
      })"

definition destroy_value ::
    "resource_world \<Rightarrow> bennu_value
      \<Rightarrow> ((value_validation_result \<times> bennu_value) \<times> resource_world) option" where
  "destroy_value w v = uninjected (\<lambda>w. destroy_value_injected w v) w"

section \<open>Release by a context\<close>

text \<open>The walk of a release: what is bound is consumed and given back to the context's counter, the
  reference dropped, the storage freed. It stops where the registry does not know the charge.\<close>

type_synonym release_state = "evaluation_resources \<times> resource_world"

definition give_back :: "bool \<Rightarrow> nat \<Rightarrow> evaluation_resources \<Rightarrow> evaluation_resources" where
  "give_back active bytes ev =
     (if active \<and> bytes \<le> ac_live ev then ev\<lparr>ac_live := ac_live ev - bytes\<rparr> else ev)"

definition settle_reservation ::
    "tuple_table_reservation \<Rightarrow> release_state
      \<Rightarrow> value_invariant option \<times> tuple_table_reservation \<times> release_state" where
  "settle_reservation r s =
     (case s of (ev, w) \<Rightarrow>
        case (if tr_canonical_bytes r = 0 then (True, w)
              else consume_allocation_binding w (bf_address (tr_storage r))
                     (tr_accounting_owner r) (tr_canonical_bytes r) (tr_allocation_ordinal r)
                     SP_tuple_table) of
          (consumed, w) \<Rightarrow>
            if \<not> consumed then (Some VI_invalid_tuple_reservation_count, r, ev, w)
            else (None, r\<lparr>tr_accounting_active := False, tr_accounting_owner := 0\<rparr>,
                  give_back (tr_accounting_active r) (tr_canonical_bytes r) ev,
                  release_accounting_owner w (tr_accounting_owner r)))"

definition release_reservation_action ::
    "tuple_table_reservation \<Rightarrow> release_state
      \<Rightarrow> value_invariant option \<times> tuple_table_reservation \<times> release_state" where
  "release_reservation_action r s =
     (case settle_reservation r s of
        (Some stop, r, s) \<Rightarrow> (Some stop, r, s)
      | (None, r, ev, w) \<Rightarrow>
          (None, r\<lparr>tr_storage := null_buffer, tr_allocation_ordinal := None\<rparr>, ev,
           release_host_buffer w BE_byte (bf_address (tr_storage r))))"

definition settle_payload ::
    "nat \<Rightarrow> bool \<Rightarrow> vector_value \<Rightarrow> release_state
      \<Rightarrow> value_invariant option \<times> vector_value \<times> release_state" where
  "settle_payload bytes counted v s =
     (case s of (ev, w) \<Rightarrow>
        case (if bytes = 0 then (True, w)
              else consume_allocation_binding w (vector_storage v) (vv_accounting_owner v)
                     (vv_canonical_bytes v) (vv_allocation_ordinal v) SP_vector_payload) of
          (consumed, w) \<Rightarrow>
            if \<not> consumed then (Some VI_invalid_vector_payload_handle, v, ev, w)
            else (None, v\<lparr>vv_accounting_active := False, vv_accounting_owner := 0\<rparr>,
                  give_back (vv_accounting_active v \<and> counted) bytes ev,
                  release_accounting_owner w (vv_accounting_owner v)))"

definition release_payload_action ::
    "vector_value \<Rightarrow> release_state
      \<Rightarrow> value_invariant option \<times> vector_value \<times> release_state" where
  "release_payload_action v s =
     (case element_width (vv_element_type v) of
        None \<Rightarrow> (None, v, s)
      | Some width \<Rightarrow>
          if active_vector_length v > size_max div width then (None, v, s)
          else
            let bytes = active_vector_length v * width
            in case settle_payload bytes (bytes = vv_canonical_bytes v) v s of
                 (Some stop, v, s) \<Rightarrow> (Some stop, v, s)
               | (None, v, ev, w) \<Rightarrow>
                   if vector_storage v = 0 then (None, v\<lparr>vv_allocation_ordinal := None\<rparr>, ev, w)
                   else (None, (reset_vector_storage v)\<lparr>vv_allocation_ordinal := None\<rparr>, ev,
                         release_host_buffer w (payload_element (vv_element_type v))
                           (vector_storage v)))"

definition release_actions :: "release_state walk_actions" where
  "release_actions =
     \<lparr>wa_reservation = release_reservation_action, wa_payload = release_payload_action\<rparr>"

definition detach_actions :: "release_state walk_actions" where
  "detach_actions =
     \<lparr>wa_reservation = settle_reservation,
      wa_payload = (\<lambda>v. settle_payload (vv_canonical_bytes v) True v)\<rparr>"

text \<open>Whether a charge belongs to another context.\<close>

definition foreign_vector :: "nat \<Rightarrow> vector_value \<Rightarrow> bool" where
  "foreign_vector owner v \<longleftrightarrow> vv_accounting_active v \<and> vv_accounting_owner v \<noteq> owner"

definition foreign_reservation :: "nat \<Rightarrow> tuple_table_reservation \<Rightarrow> bool" where
  "foreign_reservation owner r \<longleftrightarrow>
     tr_accounting_active r \<and> tr_canonical_bytes r \<noteq> 0 \<and> tr_accounting_owner r \<noteq> owner"

definition foreign_value :: "nat \<Rightarrow> bennu_value \<Rightarrow> bool" where
  "foreign_value owner v \<longleftrightarrow>
     (case va_container v of
        CK_vector \<Rightarrow> foreign_vector owner (va_vector v)
      | CK_tuple \<Rightarrow>
          list_ex (foreign_vector owner) (host_array_span (tv_vector_payloads (va_tuple v)))
          \<or> list_ex (foreign_reservation owner) (host_array_span (tv_reservations (va_tuple v)))
          \<or> foreign_reservation owner (tv_root_reservation (va_tuple v))
      | _ \<Rightarrow> False)"

definition not_released_value :: "value_validation_result \<Rightarrow> value_release_result" where
  "not_released_value validation =
     (not_released (vr_invariant validation))\<lparr>rl_resource_error := vr_resource_error validation\<rparr>"

text \<open>The part of a release that runs under the context's lock.\<close>

type_synonym release_outcome =
  "(value_release_result \<times> bennu_value) option \<times> evaluation_resources \<times> resource_world"

definition release_tuple_locked ::
    "bennu_value \<Rightarrow> resource_world \<Rightarrow> evaluation_resources \<Rightarrow> nat option \<Rightarrow> release_outcome" where
  "release_tuple_locked value w ev state =
     (case walk_tuple release_actions (va_tuple value) (ev, w) of
        None \<Rightarrow> (None, ev, w)
      | Some (Some invariant, t, ev, w) \<Rightarrow>
          (Some (not_released invariant, value\<lparr>va_tuple := t\<rparr>), ev, w)
      | Some (None, t, ev, w) \<Rightarrow>
          (case replaced invalid_construction_value (value\<lparr>va_tuple := t\<rparr>, w) of
             (value, w) \<Rightarrow> (Some (released, value), ev, w)))"

type_synonym value_release =
  "((value_release_result \<times> bennu_value) \<times> evaluation_resources \<times> resource_world) option"

definition undefined_or ::
    "'a option \<times> evaluation_resources \<times> resource_world
      \<Rightarrow> ('a \<times> evaluation_resources \<times> resource_world) option" where
  "undefined_or x = (case x of (r, ev, w) \<Rightarrow> map_option (\<lambda>r. (r, ev, w)) r)"

definition release_value_reservations_injected ::
    "resource_world \<Rightarrow> evaluation_resources \<Rightarrow> bennu_value \<Rightarrow> value_release" where
  "release_value_reservations_injected w ev value =
     do {
       (validation, w) \<leftarrow> validate_value_injected w value;
       if \<not> vr_ok validation then Some ((not_released_value validation, value), ev, w)
       else if va_container value = CK_scalar
       then do { ((report, value), w) \<leftarrow> destroy_value w value;
                 Some ((released, value), ev, w) }
       else if fst (acquire_validated_resource_state w ev) = None
       then Some ((context_mismatch, value), ev, w)
       else if foreign_value (ev_owner ev) value then Some ((context_mismatch, value), ev, w)
       else if va_container value = CK_vector then Some (release_vector_reservation w ev value)
       else undefined_or (with_resource_state w ev (release_tuple_locked value))
     }"

definition release_value_reservations ::
    "resource_world \<Rightarrow> evaluation_resources \<Rightarrow> bennu_value \<Rightarrow> value_release" where
  "release_value_reservations w ev value =
     map_option (\<lambda>((r, ev), w). (r, ev, w))
       (uninjected
          (\<lambda>w. map_option (\<lambda>(r, ev, w). ((r, ev), w))
                (release_value_reservations_injected w ev value)) w)"

text \<open>Detaching gives back the charges and keeps the value. The walk counted the children down
  and used the spare fields; both are restored from the reservations.\<close>

fun restore_nodes :: "tuple_value \<Rightarrow> nat list \<Rightarrow> tuple_value option" where
  "restore_nodes t [] = Some t"
| "restore_nodes t (i # is) =
     do {
       node \<leftarrow> host_array_at (tv_nodes t) i;
       restored \<leftarrow> (if vn_container node = CK_tuple
                    then do {
                      r \<leftarrow> host_array_at (tv_reservations t) (vn_tuple_reservation_index node);
                      Some (node\<lparr>vn_child_count := tr_element_count r, vn_vector_payload_index := 0\<rparr>) }
                    else Some (node\<lparr>vn_first_child := 0\<rparr>));
       nodes \<leftarrow> host_array_put (tv_nodes t) i restored;
       restore_nodes (t\<lparr>tv_nodes := nodes\<rparr>) is
     }"

definition detach_tuple_locked ::
    "bennu_value \<Rightarrow> resource_world \<Rightarrow> evaluation_resources \<Rightarrow> nat option \<Rightarrow> release_outcome" where
  "detach_tuple_locked value w ev state =
     (case walk_tuple detach_actions (va_tuple value) (ev, w) of
        None \<Rightarrow> (None, ev, w)
      | Some (Some invariant, t, ev, w) \<Rightarrow>
          (Some (not_released invariant, value\<lparr>va_tuple := t\<rparr>), ev, w)
      | Some (None, t, ev, w) \<Rightarrow>
          (map_option (\<lambda>t. (released, value\<lparr>va_tuple := t\<rparr>))
             (restore_nodes (t\<lparr>tv_child_count := tr_element_count (tv_root_reservation t)\<rparr>)
                [0..<length (host_array_span (tv_nodes t))]), ev, w))"

definition detach_vector_locked ::
    "bennu_value \<Rightarrow> resource_world \<Rightarrow> evaluation_resources \<Rightarrow> nat option \<Rightarrow> release_outcome" where
  "detach_vector_locked value w ev state =
     (case settle_payload (vv_canonical_bytes (va_vector value)) True (va_vector value) (ev, w) of
        (Some invariant, v, ev, w) \<Rightarrow> (Some (not_released invariant, value), ev, w)
      | (None, v, ev, w) \<Rightarrow> (Some (released, value\<lparr>va_vector := v\<rparr>), ev, w))"

definition detach_value_reservations ::
    "resource_world \<Rightarrow> evaluation_resources \<Rightarrow> bennu_value \<Rightarrow> value_release" where
  "detach_value_reservations w ev value =
     do {
       (validation, w) \<leftarrow> validate_value w value;
       if \<not> vr_ok validation then Some ((not_released_value validation, value), ev, w)
       else if va_container value = CK_scalar then Some ((released, value), ev, w)
       else if fst (acquire_validated_resource_state w ev) = None
       then Some ((context_mismatch, value), ev, w)
       else if foreign_value (ev_owner ev) value then Some ((context_mismatch, value), ev, w)
       else undefined_or (with_resource_state w ev
              (if va_container value = CK_vector then detach_vector_locked value
               else detach_tuple_locked value))
     }"

end
