(* ===== verification/TupleBuild.thy ===== *)
theory TupleBuild
  imports TupleRelease
begin

text \<open>
  Building tuples from values (\<open>make_tuple_value\<close> and the preadmitted assembly of fanouts,
  src/resources.cpp, src/preadmitted_tuple.hpp). The tables of the elements are concatenated,
  the indexes of an element shifted by what came before it; its root becomes a node, and the
  edges of the new root come last.

  \<^item> Elements are moved from: what is left in their place owns nothing. A value that is given up
    on the way is destroyed with all it owns.
  \<^item> The pin of a context is dropped when its lock is.
  \<^item> The tables of two values are never shared in the model, since each is part of its value; the
    test for shared storage compares payloads and reservations.
\<close>

section \<open>Shared storage\<close>

definition value_storages :: "bennu_value \<Rightarrow> address list" where
  "value_storages v =
     (case va_container v of
        CK_vector \<Rightarrow> [vector_storage (va_vector v)]
      | CK_tuple \<Rightarrow>
          bf_address (tr_storage (tv_root_reservation (va_tuple v)))
          # map vector_storage (host_array_span (tv_vector_payloads (va_tuple v)))
          @ map (\<lambda>r. bf_address (tr_storage r)) (host_array_span (tv_reservations (va_tuple v)))
      | _ \<Rightarrow> [])"

definition physical_storage_overlaps :: "bennu_value \<Rightarrow> bennu_value \<Rightarrow> bool" where
  "physical_storage_overlaps left right \<longleftrightarrow>
     list_ex (\<lambda>p. p \<noteq> 0 \<and> p \<in> set (value_storages right)) (value_storages left)"

section \<open>Results and layouts\<close>

record tuple_construction_result =
  tc_ok :: bool
  tc_value :: bennu_value
  tc_invariant :: value_invariant
  tc_error :: error

definition tuple_failure :: "value_invariant \<Rightarrow> error \<Rightarrow> tuple_construction_result" where
  "tuple_failure invariant e =
     \<lparr>tc_ok = False, tc_value = make_int_value 0, tc_invariant = invariant, tc_error = e\<rparr>"

definition layout_value_node :: element_layout where
  "layout_value_node = \<lparr>element_size = 64, element_alignment = 8\<rparr>"

definition layout_vector_value :: element_layout where
  "layout_vector_value = \<lparr>element_size = 136, element_alignment = 8\<rparr>"

definition layout_reservation :: element_layout where
  "layout_reservation = \<lparr>element_size = 80, element_alignment = 8\<rparr>"

definition layout_value :: element_layout where
  "layout_value = \<lparr>element_size = 408, element_alignment = 8\<rparr>"

definition host_reason :: "host_resource_error_reason \<Rightarrow> resource_error_reason" where
  "host_reason e =
     (if e = HR_size_overflow then RE_size_overflow else RE_allocation_unavailable)"

section \<open>The sizes of a tuple\<close>

record tuple_extent =
  te_nodes :: nat
  te_edges :: nat
  te_payloads :: nat
  te_reservations :: nat

text \<open>One element after the others: it is valid, shares no storage with an earlier one, and the
  sums stay representable.\<close>

definition extent_with :: "tuple_extent \<Rightarrow> bennu_value \<Rightarrow> tuple_extent option" where
  "extent_with x element =
     (let t = va_tuple element
      in case va_container element of
           CK_vector \<Rightarrow> Some (x\<lparr>te_payloads := te_payloads x + 1\<rparr>)
         | CK_tuple \<Rightarrow>
             if array_size (tv_nodes t) > size_max - te_nodes x
                \<or> array_size (tv_child_indexes t) > size_max - te_edges x
                \<or> array_size (tv_vector_payloads t) > size_max - te_payloads x
                \<or> array_size (tv_reservations t) + 1 > size_max - te_reservations x
             then None
             else Some \<lparr>te_nodes = te_nodes x + array_size (tv_nodes t),
                        te_edges = te_edges x + array_size (tv_child_indexes t),
                        te_payloads = te_payloads x + array_size (tv_vector_payloads t),
                        te_reservations = te_reservations x + (array_size (tv_reservations t) + 1)\<rparr>
         | _ \<Rightarrow> Some x)"

fun measure_tuple ::
    "resource_world \<Rightarrow> string \<Rightarrow> nat \<Rightarrow> source_location \<Rightarrow> string \<Rightarrow> bennu_value list
      \<Rightarrow> bennu_value list \<Rightarrow> tuple_extent
      \<Rightarrow> ((tuple_construction_result + tuple_extent) \<times> resource_world) option" where
  "measure_tuple w profile count location producer_name prior [] x = Some (Inr x, w)"
| "measure_tuple w profile count location producer_name prior (element # elements) x =
     do {
       (validation, w) \<leftarrow> validate_value_injected w element;
       if \<not> vr_ok validation
       then Some (if vr_resource_error validation \<noteq> HR_none
                  then (case make_resource_failure w location producer_name
                               (plain_context profile (host_reason (vr_resource_error validation))
                                  (Some count) None) of
                          (e, w) \<Rightarrow> (Inl (tuple_failure VI_none e), w))
                  else (Inl (tuple_failure (vr_invariant validation) no_error), w))
       else if list_ex (physical_storage_overlaps element) prior
       then Some (Inl (tuple_failure VI_aliased_vector_payload no_error), w)
       else case extent_with x element of
         None \<Rightarrow>
           (case make_resource_failure w location producer_name
                   (plain_context profile RE_size_overflow (Some count) None) of
              (e, w) \<Rightarrow> Some (Inl (tuple_failure VI_none e), w))
       | Some x \<Rightarrow>
           measure_tuple w profile count location producer_name (prior @ [element]) elements x
     }"

text \<open>Under the context's lock: the profile admits tuples, the elements are sound, and the table
  of the new tuple is reserved.\<close>

definition admit_tuple_locked ::
    "bennu_value list \<Rightarrow> source_location \<Rightarrow> string
      \<Rightarrow> resource_world \<Rightarrow> evaluation_resources \<Rightarrow> nat option
      \<Rightarrow> (tuple_construction_result + string \<times> tuple_extent \<times> tuple_table_reservation) option
         \<times> evaluation_resources \<times> resource_world" where
  "admit_tuple_locked elements location producer_name w ev state =
     (case validate_tuple_profile_locked w ev state location producer_name of
        (Some e, w) \<Rightarrow> (Some (Inl (tuple_failure VI_none e)), ev, w)
      | (None, w) \<Rightarrow>
          let profile = execution_profile_name (ac_profile ev); n = length elements
          in case measure_tuple w profile n location producer_name [] elements
                    \<lparr>te_nodes = n, te_edges = n, te_payloads = 0, te_reservations = 0\<rparr> of
               None \<Rightarrow> (None, ev, w)
             | Some (Inl failure, w) \<Rightarrow> (Some (Inl failure), ev, w)
             | Some (Inr x, w) \<Rightarrow>
                 (case reserve_tuple_table_locked n location producer_name w ev state of
                    (Inl e, ev, w) \<Rightarrow> (Some (Inl (tuple_failure VI_none e)), ev, w)
                  | (Inr r, ev, w) \<Rightarrow> (Some (Inr (profile, x, r)), ev, w)))"

section \<open>Concatenation\<close>

text \<open>The tables in construction and the roots of the elements so far.\<close>

record tuple_building =
  tb_tuple :: tuple_value
  tb_roots :: "nat host_array"

definition pushed :: "host_resource_error_reason \<times> 'b \<Rightarrow> host_resource_error_reason + 'b" where
  "pushed r = (if fst r = HR_none then Inr (snd r) else Inl (fst r))"

definition then_do :: "'e + 'a \<Rightarrow> ('a \<Rightarrow> 'e + 'b) \<Rightarrow> 'e + 'b" where
  "then_do r f = (case r of Inl e \<Rightarrow> Inl e | Inr x \<Rightarrow> f x)"

definition push_value_node ::
    "value_node \<Rightarrow> tuple_building \<Rightarrow> host_resource_error_reason + tuple_building" where
  "push_value_node node b =
     map_sum id (\<lambda>ns. b\<lparr>tb_tuple := (tb_tuple b)\<lparr>tv_nodes := ns\<rparr>\<rparr>)
       (pushed (host_array_push (tv_nodes (tb_tuple b)) node))"

definition push_edges ::
    "nat list \<Rightarrow> tuple_building \<Rightarrow> host_resource_error_reason + tuple_building" where
  "push_edges edges b =
     map_sum id (\<lambda>es. b\<lparr>tb_tuple := (tb_tuple b)\<lparr>tv_child_indexes := es\<rparr>\<rparr>)
       (pushed (push_all host_array_push (tv_child_indexes (tb_tuple b)) edges))"

definition push_payloads ::
    "vector_value list \<Rightarrow> tuple_building \<Rightarrow> host_resource_error_reason + tuple_building" where
  "push_payloads payloads b =
     map_sum id (\<lambda>ps. b\<lparr>tb_tuple := (tb_tuple b)\<lparr>tv_vector_payloads := ps\<rparr>\<rparr>)
       (pushed (push_all host_array_push (tv_vector_payloads (tb_tuple b)) payloads))"

definition push_reservations ::
    "tuple_table_reservation list \<Rightarrow> tuple_building
      \<Rightarrow> host_resource_error_reason + tuple_building" where
  "push_reservations reservations b =
     map_sum id (\<lambda>rs. b\<lparr>tb_tuple := (tb_tuple b)\<lparr>tv_reservations := rs\<rparr>\<rparr>)
       (pushed (push_all host_array_push (tv_reservations (tb_tuple b)) reservations))"

definition push_root ::
    "tuple_building \<Rightarrow> host_resource_error_reason + tuple_building" where
  "push_root b =
     map_sum id (\<lambda>roots. b\<lparr>tb_roots := roots\<rparr>)
       (pushed (host_array_push (tb_roots b) (array_size (tv_nodes (tb_tuple b)))))"

text \<open>A node of an element, with its indexes shifted.\<close>

definition shift_value_node :: "nat \<Rightarrow> nat \<Rightarrow> nat \<Rightarrow> value_node \<Rightarrow> value_node" where
  "shift_value_node edge_offset reservation_offset payload_offset node =
     (if vn_container node = CK_tuple
      then node\<lparr>vn_first_child := vn_first_child node + edge_offset,
                vn_tuple_reservation_index :=
                  vn_tuple_reservation_index node + reservation_offset\<rparr>
      else if vn_container node = CK_vector
      then node\<lparr>vn_vector_payload_index := vn_vector_payload_index node + payload_offset\<rparr>
      else node)"

definition push_leaf_element ::
    "bennu_value \<Rightarrow> tuple_building \<Rightarrow> host_resource_error_reason + tuple_building" where
  "push_leaf_element moved b =
     then_do (push_root b) (\<lambda>b.
       let vector = va_container moved = CK_vector;
           payload_index = (if vector then array_size (tv_vector_payloads (tb_tuple b)) else 0)
       in then_do (if vector then push_payloads [va_vector moved] b else Inr b)
            (push_value_node \<lparr>vn_container = va_container moved, vn_scalar = va_scalar moved,
                        vn_first_child = 0, vn_child_count = 0,
                        vn_tuple_reservation_index = 0,
                        vn_vector_payload_index = payload_index\<rparr>))"

fun push_nodes ::
    "value_node list \<Rightarrow> tuple_building \<Rightarrow> host_resource_error_reason + tuple_building" where
  "push_nodes [] b = Inr b"
| "push_nodes (node # nodes) b = then_do (push_value_node node b) (push_nodes nodes)"

definition push_tuple_element ::
    "bennu_value \<Rightarrow> tuple_building \<Rightarrow> host_resource_error_reason + tuple_building" where
  "push_tuple_element moved b =
     (let t = va_tuple moved;
          node_offset = array_size (tv_nodes (tb_tuple b));
          edge_offset = array_size (tv_child_indexes (tb_tuple b));
          payload_offset = array_size (tv_vector_payloads (tb_tuple b));
          reservation_offset = array_size (tv_reservations (tb_tuple b))
      in then_do (push_nodes (map (shift_value_node edge_offset reservation_offset payload_offset)
                                (host_array_span (tv_nodes t))) b) (\<lambda>b.
         then_do (push_edges (map (\<lambda>i. i + node_offset) (host_array_span (tv_child_indexes t))) b)
           (\<lambda>b.
         then_do (push_payloads (host_array_span (tv_vector_payloads t)) b) (\<lambda>b.
         then_do (push_reservations (host_array_span (tv_reservations t)) b) (\<lambda>b.
           let root_reservation_index = array_size (tv_reservations (tb_tuple b))
           in then_do (push_reservations [tv_root_reservation t] b) (\<lambda>b.
              then_do (push_root b)
                (push_value_node \<lparr>vn_container = CK_tuple, vn_scalar = va_scalar moved,
                            vn_first_child = tv_first_child t + edge_offset,
                            vn_child_count = tv_child_count t,
                            vn_tuple_reservation_index = root_reservation_index,
                            vn_vector_payload_index = 0\<rparr>)))))))"

definition push_element ::
    "bennu_value \<Rightarrow> tuple_building \<Rightarrow> host_resource_error_reason + tuple_building" where
  "push_element moved b =
     (if va_container moved = CK_tuple then push_tuple_element moved b
      else push_leaf_element moved b)"

text \<open>The loop over the elements. When one does not fit, the reason comes with the element that was
  being moved and the tables so far: both are destroyed with all they own.\<close>

type_synonym push_failure = "host_resource_error_reason \<times> bennu_value \<times> tuple_building"

fun push_elements ::
    "bennu_value list \<Rightarrow> tuple_building \<Rightarrow> (push_failure + tuple_building) \<times> bennu_value list" where
  "push_elements [] b = (Inr b, [])"
| "push_elements (element # elements) b =
     (case move_value element of
        (moved, left) \<Rightarrow>
          case push_element moved b of
            Inl e \<Rightarrow> (Inl (e, moved, b), left # elements)
          | Inr b \<Rightarrow> (case push_elements elements b of (r, lefts) \<Rightarrow> (r, left # lefts)))"

section \<open>Tuples from values\<close>

text \<open>The tables of the result; nothing is allocated for an empty tuple.\<close>

definition allocate_tuple ::
    "host_state \<Rightarrow> tuple_extent \<Rightarrow> nat
      \<Rightarrow> host_resource_error_reason \<times> tuple_building \<times> host_state" where
  "allocate_tuple h x n =
     (case (if te_nodes x \<noteq> 0 \<or> te_edges x \<noteq> 0 \<or> te_payloads x \<noteq> 0 \<or> te_reservations x \<noteq> 0
               \<or> n \<noteq> 0
            then begin_host_allocation h else (HR_none, h)) of
        (e, h) \<Rightarrow>
      case allocate_within e layout_value_node h (te_nodes x) of (e, nodes, h) \<Rightarrow>
      case allocate_within e layout_size h (te_edges x) of (e, edges, h) \<Rightarrow>
      case allocate_within e layout_vector_value h (te_payloads x) of (e, payloads, h) \<Rightarrow>
      case allocate_within e layout_reservation h (te_reservations x) of (e, reservations, h) \<Rightarrow>
      case allocate_within e layout_size h n of (e, roots, h) \<Rightarrow>
        (if e \<noteq> HR_none then e
         else if \<not> host_array_has_capacity nodes (te_nodes x)
                 \<or> \<not> host_array_has_capacity edges (te_edges x)
                 \<or> \<not> host_array_has_capacity payloads (te_payloads x)
                 \<or> \<not> host_array_has_capacity reservations (te_reservations x)
                 \<or> \<not> host_array_has_capacity roots n
         then HR_size_overflow else HR_none,
         \<lparr>tb_tuple = empty_tuple\<lparr>tv_nodes := nodes, tv_child_indexes := edges,
                                 tv_vector_payloads := payloads, tv_reservations := reservations\<rparr>,
          tb_roots = roots\<rparr>, h))"

type_synonym tuple_construction =
  "(tuple_construction_result \<times> bennu_value list) \<times> evaluation_resources \<times> resource_world"

definition metadata_failure ::
    "string \<Rightarrow> nat \<Rightarrow> tuple_table_reservation \<Rightarrow> source_location \<Rightarrow> string
      \<Rightarrow> host_resource_error_reason \<Rightarrow> bennu_value list \<Rightarrow> evaluation_resources \<Rightarrow> resource_world
      \<Rightarrow> tuple_construction" where
  "metadata_failure profile n r location producer_name e elements ev w =
     (case release_tuple_table w ev r of
        ((_, left), ev, w) \<Rightarrow>
          case make_resource_failure w location producer_name
                 ((plain_context profile (host_reason e) (Some n) (Some (tr_canonical_bytes r)))
                    \<lparr>rx_allocation_ordinal := (if n = 0 then None else tr_allocation_ordinal r)\<rparr>) of
            (e, w) \<Rightarrow>
              ((tuple_failure VI_none e, elements), ev, drop_reservation w left))"

definition finish_tuple_value ::
    "tuple_building \<Rightarrow> tuple_table_reservation
      \<Rightarrow> host_resource_error_reason + bennu_value" where
  "finish_tuple_value b r =
     (let roots = host_array_span (tb_roots b);
          first_child = array_size (tv_child_indexes (tb_tuple b))
      in map_sum id
           (\<lambda>b. \<lparr>va_container = CK_tuple, va_scalar = empty_scalar,
                 va_vector = empty_vector_of ST_boolean,
                 va_tuple = (tb_tuple b)
                   \<lparr>tv_first_child := first_child, tv_child_count := array_size (tb_roots b),
                    tv_root_index := array_size (tv_nodes (tb_tuple b)),
                    tv_root_reservation := r\<rparr>,
                 va_claimed = True\<rparr>)
           (push_edges roots b))"

definition assemble_tuple ::
    "string \<Rightarrow> tuple_extent \<Rightarrow> tuple_table_reservation \<Rightarrow> bennu_value list \<Rightarrow> source_location \<Rightarrow> string
      \<Rightarrow> evaluation_resources \<Rightarrow> resource_world \<Rightarrow> tuple_construction" where
  "assemble_tuple profile x r elements location producer_name ev w =
     (let n = length elements; failure = metadata_failure profile n r location producer_name
      in case allocate_tuple (rw_host w) x n of
           (e, b, h) \<Rightarrow>
             let w = w\<lparr>rw_host := h\<rparr>
             in if e \<noteq> HR_none then failure e elements ev w
                else case push_elements elements b of
                  (Inl (e, moved, b), lefts) \<Rightarrow>
                    map_prod id (map_prod id (\<lambda>w. drop_tuple (drop_value w moved) (tb_tuple b)))
                      (failure e lefts ev w)
                | (Inr b, lefts) \<Rightarrow>
                    (case finish_tuple_value b r of
                       Inl e \<Rightarrow>
                         map_prod id (map_prod id (\<lambda>w. drop_tuple w (tb_tuple b)))
                           (failure e lefts ev w)
                     | Inr v \<Rightarrow>
                         ((\<lparr>tc_ok = True, tc_value = v, tc_invariant = VI_none,
                            tc_error = no_error\<rparr>, lefts), ev, w)))"

definition make_tuple_value_injected ::
    "resource_world \<Rightarrow> evaluation_resources \<Rightarrow> bennu_value list \<Rightarrow> source_location \<Rightarrow> string
      \<Rightarrow> tuple_construction option" where
  "make_tuple_value_injected w ev elements location producer_name =
     do {
       (admitted, ev, w) \<leftarrow> undefined_or (with_resource_state w ev
                               (admit_tuple_locked elements location producer_name));
       Some (case admitted of
               Inl failure \<Rightarrow> ((failure, elements), ev, w)
             | Inr (profile, x, r) \<Rightarrow>
                 assemble_tuple profile x r elements location producer_name ev w)
     }"

definition make_tuple_value ::
    "resource_world \<Rightarrow> evaluation_resources \<Rightarrow> bennu_value list \<Rightarrow> source_location \<Rightarrow> string
      \<Rightarrow> tuple_construction option" where
  "make_tuple_value w ev elements location producer_name =
     map_option (\<lambda>((r, ev), w). (r, ev, w))
       (uninjected
          (\<lambda>w. map_option (\<lambda>(r, ev, w). ((r, ev), w))
                (make_tuple_value_injected w ev elements location producer_name)) w)"

section \<open>Preadmitted assembly\<close>

text \<open>The tuple of a fanout is admitted before its branches run: its table and all its arrays are
  reserved, the results of the branches wait in slots, and publishing copies them into place.\<close>

record preadmitted_tuple_assembly =
  pt_value :: bennu_value
  pt_fixed_slots :: "bennu_value host_array"
  pt_element_count :: nat
  pt_transferred_count :: nat
  pt_transferred :: tuple_extent

definition no_extent :: tuple_extent where
  "no_extent = \<lparr>te_nodes = 0, te_edges = 0, te_payloads = 0, te_reservations = 0\<rparr>"

definition empty_assembly :: preadmitted_tuple_assembly where
  "empty_assembly =
     \<lparr>pt_value = make_int_value 0, pt_fixed_slots = empty_host_array, pt_element_count = 0,
      pt_transferred_count = 0, pt_transferred = no_extent\<rparr>"

definition allocate_raw_next ::
    "host_resource_error_reason \<Rightarrow> element_layout \<Rightarrow> host_state \<Rightarrow> nat
      \<Rightarrow> host_resource_error_reason \<times> 'a host_array \<times> host_state" where
  "allocate_raw_next e l h capacity =
     (if e = HR_none then allocate_host_array_raw l h empty_host_array capacity None
      else (e, empty_host_array, h))"

text \<open>The arrays, each filled to its size with placeholders.\<close>

definition allocate_assembly ::
    "host_state \<Rightarrow> tuple_extent \<Rightarrow> nat
      \<Rightarrow> host_resource_error_reason \<times> (tuple_value \<times> bennu_value host_array) \<times> host_state" where
  "allocate_assembly h x n =
     (let e = (if te_edges x < n then HR_size_overflow else HR_none)
      in case allocate_raw_next e layout_value_node h (te_nodes x) of (e, nodes, h) \<Rightarrow>
      case allocate_raw_next e layout_size h (te_edges x) of (e, edges, h) \<Rightarrow>
      case allocate_raw_next e layout_vector_value h (te_payloads x) of (e, payloads, h) \<Rightarrow>
      case allocate_raw_next e layout_reservation h (te_reservations x) of (e, reservations, h) \<Rightarrow>
      case allocate_raw_next e layout_value h n of (e, slots, h) \<Rightarrow>
        (if e \<noteq> HR_none then e
         else if \<not> host_array_has_capacity nodes (te_nodes x)
                 \<or> \<not> host_array_has_capacity edges (te_edges x)
                 \<or> \<not> host_array_has_capacity payloads (te_payloads x)
                 \<or> \<not> host_array_has_capacity reservations (te_reservations x)
                 \<or> \<not> host_array_has_capacity slots n
         then HR_allocation_unavailable else HR_none,
         (empty_tuple\<lparr>tv_nodes := nodes, tv_child_indexes := edges,
                      tv_vector_payloads := payloads, tv_reservations := reservations\<rparr>, slots), h))"

definition push_copies :: "host_resource_error_reason \<Rightarrow> 'a host_array \<Rightarrow> nat \<Rightarrow> 'a
    \<Rightarrow> host_resource_error_reason \<times> 'a host_array" where
  "push_copies e a n x =
     (if e = HR_none then push_all host_array_push a (replicate n x) else (e, a))"

definition placeholder_node :: value_node where
  "placeholder_node =
     \<lparr>vn_container = CK_scalar, vn_scalar = empty_scalar, vn_first_child = 0, vn_child_count = 0,
      vn_tuple_reservation_index = 0, vn_vector_payload_index = 0\<rparr>"

definition initialize_metadata ::
    "tuple_extent \<Rightarrow> nat \<Rightarrow> tuple_value \<times> bennu_value host_array
      \<Rightarrow> host_resource_error_reason \<times> tuple_value \<times> bennu_value host_array" where
  "initialize_metadata x n arrays =
     (case arrays of (t, slots) \<Rightarrow>
      case push_copies HR_none (tv_nodes t) (te_nodes x) placeholder_node of (e, nodes) \<Rightarrow>
      case push_copies e (tv_child_indexes t) (te_edges x) 0 of (e, edges) \<Rightarrow>
      case push_copies e (tv_vector_payloads t) (te_payloads x) (empty_vector_of ST_boolean) of
        (e, payloads) \<Rightarrow>
      case push_copies e (tv_reservations t) (te_reservations x) empty_reservation of
        (e, reservations) \<Rightarrow>
      case push_copies e slots n (make_int_value 0) of (e, slots) \<Rightarrow>
        (e, t\<lparr>tv_nodes := nodes, tv_child_indexes := edges, tv_vector_payloads := payloads,
              tv_reservations := reservations\<rparr>, slots))"

definition preadmit_tuple_assembly ::
    "resource_world \<Rightarrow> evaluation_resources \<Rightarrow> nat \<Rightarrow> tuple_extent \<Rightarrow> source_location \<Rightarrow> string
      \<Rightarrow> (error + preadmitted_tuple_assembly) \<times> evaluation_resources \<times> resource_world" where
  "preadmit_tuple_assembly w ev n x location producer_name =
     (case reserve_tuple_table w ev n location producer_name of
        (Inl e, ev, w) \<Rightarrow> (Inl e, ev, w)
      | (Inr r, ev, w) \<Rightarrow>
          case allocate_assembly (rw_host w) x n of
            (allocated, arrays, h) \<Rightarrow>
              let w = w\<lparr>rw_host := h\<rparr>
              in case (if allocated = HR_none then initialize_metadata x n arrays
                       else (allocated, arrays)) of
                   (e, t, slots) \<Rightarrow>
                     if e \<noteq> HR_none
                     then (case release_tuple_table w ev r of
                             ((_, left), ev, w) \<Rightarrow>
                               (case make_resource_failure w location producer_name
                                       ((plain_context (execution_profile_name (ac_profile ev))
                                           (host_reason e) (Some n) (Some (tr_canonical_bytes r)))
                                          \<lparr>rx_allocation_ordinal :=
                                             (if n = 0 then None else tr_allocation_ordinal r)\<rparr>) of
                                  (e, w) \<Rightarrow> (Inl e, ev, drop_reservation w left)))
                     else (Inr \<lparr>pt_value = (make_int_value 0)
                                   \<lparr>va_container := CK_tuple, va_scalar := empty_scalar,
                                    va_tuple := t\<lparr>tv_root_reservation := r\<rparr>\<rparr>,
                                 pt_fixed_slots = slots, pt_element_count = n,
                                 pt_transferred_count = 0, pt_transferred = no_extent\<rparr>, ev, w))"

section \<open>Slots\<close>

definition tuple_range_valid :: "nat \<Rightarrow> nat \<Rightarrow> nat \<Rightarrow> bool" where
  "tuple_range_valid first_child child_count edge_count \<longleftrightarrow>
     first_child \<le> edge_count \<and> child_count \<le> edge_count - first_child"

text \<open>The edges of a range all point below a bound.\<close>

definition edges_below :: "tuple_value \<Rightarrow> nat \<Rightarrow> nat \<Rightarrow> nat \<Rightarrow> bool" where
  "edges_below t first_child child_count bound \<longleftrightarrow>
     list_all (\<lambda>i. i < bound)
       (take child_count (drop first_child (host_array_span (tv_child_indexes t))))"

definition node_layout_safe :: "tuple_value \<Rightarrow> nat \<Rightarrow> value_node \<Rightarrow> bool" where
  "node_layout_safe t node_index node \<longleftrightarrow>
     (case vn_container node of
        CK_tuple \<Rightarrow>
          tuple_range_valid (vn_first_child node) (vn_child_count node)
            (array_size (tv_child_indexes t))
          \<and> vn_tuple_reservation_index node < array_size (tv_reservations t)
          \<and> edges_below t (vn_first_child node) (vn_child_count node) node_index
      | CK_vector \<Rightarrow> vn_vector_payload_index node < array_size (tv_vector_payloads t)
      | CK_scalar \<Rightarrow> True
      | CK_unknown _ \<Rightarrow> False)"

definition tuple_tables_valid :: "tuple_value \<Rightarrow> bool" where
  "tuple_tables_valid t \<longleftrightarrow>
     host_array_metadata_valid (tv_nodes t) \<and> host_array_metadata_valid (tv_child_indexes t)
     \<and> host_array_metadata_valid (tv_vector_payloads t)
     \<and> host_array_metadata_valid (tv_reservations t)"

definition preadmitted_value_layout_safe :: "bennu_value \<Rightarrow> bool" where
  "preadmitted_value_layout_safe v \<longleftrightarrow>
     va_claimed v \<and>
     (let t = va_tuple v; unused = tuple_tables_valid t \<and> tuple_fields_empty t
      in case va_container v of
           CK_scalar \<Rightarrow> vector_fields_empty (va_vector v) \<and> unused
         | CK_vector \<Rightarrow> unused
         | CK_unknown _ \<Rightarrow> False
         | CK_tuple \<Rightarrow>
             vector_fields_empty (va_vector v) \<and> tuple_tables_valid t
             \<and> tv_root_index t = array_size (tv_nodes t)
             \<and> tuple_range_valid (tv_first_child t) (tv_child_count t)
                 (array_size (tv_child_indexes t))
             \<and> list_all (\<lambda>(i, node). node_layout_safe t i node)
                 (List.enumerate 0 (host_array_span (tv_nodes t)))
             \<and> edges_below t (tv_first_child t) (tv_child_count t) (array_size (tv_nodes t)))"

definition preadmitted_value_counts :: "bennu_value \<Rightarrow> tuple_extent option" where
  "preadmitted_value_counts v =
     (let t = va_tuple v
      in if \<not> preadmitted_value_layout_safe v then None
         else if va_container v \<noteq> CK_tuple
         then Some \<lparr>te_nodes = 1, te_edges = 0,
                    te_payloads = (if va_container v = CK_vector then 1 else 0),
                    te_reservations = 0\<rparr>
         else if array_size (tv_nodes t) = size_max \<or> array_size (tv_reservations t) = size_max
         then None
         else Some \<lparr>te_nodes = 1 + array_size (tv_nodes t),
                    te_edges = array_size (tv_child_indexes t),
                    te_payloads = array_size (tv_vector_payloads t),
                    te_reservations = array_size (tv_reservations t) + 1\<rparr>)"

definition preadmitted_assembly_storage_safe :: "preadmitted_tuple_assembly \<Rightarrow> bool" where
  "preadmitted_assembly_storage_safe a \<longleftrightarrow>
     (let t = va_tuple (pt_value a); x = pt_transferred a
      in va_claimed (pt_value a) \<and> va_container (pt_value a) = CK_tuple
         \<and> pt_transferred_count a \<le> pt_element_count a
         \<and> pt_transferred_count a \<le> array_size (pt_fixed_slots a)
         \<and> array_size (pt_fixed_slots a) = pt_element_count a
         \<and> host_array_metadata_valid (pt_fixed_slots a) \<and> tuple_tables_valid t
         \<and> array_size (tv_child_indexes t) \<ge> pt_element_count a
         \<and> te_nodes x \<le> array_size (tv_nodes t)
         \<and> te_edges x \<le> array_size (tv_child_indexes t) - pt_element_count a
         \<and> te_payloads x \<le> array_size (tv_vector_payloads t)
         \<and> te_reservations x \<le> array_size (tv_reservations t))"

definition add_extent :: "tuple_extent \<Rightarrow> tuple_extent \<Rightarrow> tuple_extent" where
  "add_extent x y =
     \<lparr>te_nodes = te_nodes x + te_nodes y, te_edges = te_edges x + te_edges y,
      te_payloads = te_payloads x + te_payloads y,
      te_reservations = te_reservations x + te_reservations y\<rparr>"

text \<open>Whether a value of the given extent still fits beside what has been counted.\<close>

definition extent_fits :: "preadmitted_tuple_assembly \<Rightarrow> tuple_extent \<Rightarrow> tuple_extent \<Rightarrow> bool" where
  "extent_fits a used x \<longleftrightarrow>
     (let t = va_tuple (pt_value a)
      in te_nodes x \<le> array_size (tv_nodes t) - te_nodes used
         \<and> te_edges x \<le> array_size (tv_child_indexes t) - pt_element_count a - te_edges used
         \<and> te_payloads x \<le> array_size (tv_vector_payloads t) - te_payloads used
         \<and> te_reservations x \<le> array_size (tv_reservations t) - te_reservations used)"

text \<open>An operation on an assembly: success, with the assembly and the element left.\<close>

definition transfer_preadmitted_tuple_element ::
    "preadmitted_tuple_assembly \<Rightarrow> bennu_value
      \<Rightarrow> (bool \<times> preadmitted_tuple_assembly \<times> bennu_value) option" where
  "transfer_preadmitted_tuple_element a element =
     (if \<not> preadmitted_assembly_storage_safe a \<or> pt_transferred_count a = pt_element_count a
      then Some (False, a, element)
      else case preadmitted_value_counts element of
        None \<Rightarrow> Some (False, a, element)
      | Some x \<Rightarrow>
          if \<not> extent_fits a (pt_transferred a) x then Some (False, a, element)
          else case move_value element of
            (moved, left) \<Rightarrow>
              do { slots \<leftarrow> host_array_put (pt_fixed_slots a) (pt_transferred_count a) moved;
                   Some (True, a\<lparr>pt_fixed_slots := slots,
                                 pt_transferred_count := pt_transferred_count a + 1,
                                 pt_transferred := add_extent (pt_transferred a) x\<rparr>, left) })"

section \<open>Publication\<close>

fun slot_extents ::
    "preadmitted_tuple_assembly \<Rightarrow> bennu_value list \<Rightarrow> tuple_extent \<Rightarrow> tuple_extent option" where
  "slot_extents a [] used = Some used"
| "slot_extents a (slot # slots) used =
     do {
       x \<leftarrow> preadmitted_value_counts slot;
       if \<not> extent_fits a used x then None else slot_extents a slots (add_extent used x)
     }"

definition fills_assembly :: "preadmitted_tuple_assembly \<Rightarrow> tuple_extent \<Rightarrow> bool" where
  "fills_assembly a x \<longleftrightarrow>
     (let t = va_tuple (pt_value a)
      in te_nodes x = array_size (tv_nodes t)
         \<and> te_edges x + pt_element_count a = array_size (tv_child_indexes t)
         \<and> te_payloads x = array_size (tv_vector_payloads t)
         \<and> te_reservations x = array_size (tv_reservations t))"

definition publishable :: "preadmitted_tuple_assembly \<Rightarrow> bool" where
  "publishable a \<longleftrightarrow>
     preadmitted_assembly_storage_safe a \<and> pt_transferred_count a = pt_element_count a
     \<and> fills_assembly a (pt_transferred a)
     \<and> (case slot_extents a (host_array_span (pt_fixed_slots a)) no_extent of
          None \<Rightarrow> False
        | Some x \<Rightarrow> fills_assembly a x)"

text \<open>Writing a list into an array from a position on.\<close>

fun put_all :: "'a host_array \<Rightarrow> nat \<Rightarrow> 'a list \<Rightarrow> 'a host_array option" where
  "put_all a i [] = Some a"
| "put_all a i (x # xs) = do { a \<leftarrow> host_array_put a i x; put_all a (i + 1) xs }"

definition publish_slot ::
    "nat \<Rightarrow> bennu_value \<Rightarrow> tuple_value \<times> tuple_extent \<Rightarrow> (tuple_value \<times> tuple_extent) option" where
  "publish_slot edge_position moved s =
     (case s of (t, at_) \<Rightarrow>
        let source = va_tuple moved; tuple = va_container moved = CK_tuple;
            ns = (if tuple
                  then map (shift_value_node (te_edges at_) (te_reservations at_) (te_payloads at_))
                         (host_array_span (tv_nodes source)) else []);
            es = (if tuple then map (\<lambda>i. i + te_nodes at_)
                                  (host_array_span (tv_child_indexes source)) else []);
            ps = (if tuple then host_array_span (tv_vector_payloads source)
                  else if va_container moved = CK_vector then [va_vector moved] else []);
            rs = (if tuple then host_array_span (tv_reservations source) @ [tv_root_reservation source]
                  else []);
            root = (if tuple
                    then \<lparr>vn_container = CK_tuple, vn_scalar = va_scalar moved,
                          vn_first_child = tv_first_child source + te_edges at_,
                          vn_child_count = tv_child_count source,
                          vn_tuple_reservation_index = te_reservations at_ + length rs - 1,
                          vn_vector_payload_index = 0\<rparr>
                    else \<lparr>vn_container = va_container moved, vn_scalar = va_scalar moved,
                          vn_first_child = 0, vn_child_count = 0,
                          vn_tuple_reservation_index = 0,
                          vn_vector_payload_index = te_payloads at_\<rparr>)
        in do {
          nodes \<leftarrow> put_all (tv_nodes t) (te_nodes at_) (ns @ [root]);
          edges \<leftarrow> put_all (tv_child_indexes t) (te_edges at_) es;
          edges \<leftarrow> host_array_put edges edge_position (te_nodes at_ + length ns);
          payloads \<leftarrow> put_all (tv_vector_payloads t) (te_payloads at_) ps;
          reservations \<leftarrow> put_all (tv_reservations t) (te_reservations at_) rs;
          Some (t\<lparr>tv_nodes := nodes, tv_child_indexes := edges, tv_vector_payloads := payloads,
                  tv_reservations := reservations\<rparr>,
                \<lparr>te_nodes = te_nodes at_ + length ns + 1, te_edges = te_edges at_ + length es,
                 te_payloads = te_payloads at_ + length ps,
                 te_reservations = te_reservations at_ + length rs\<rparr>)
        })"

fun publish_slots ::
    "nat \<Rightarrow> bennu_value list \<Rightarrow> tuple_value \<times> tuple_extent \<Rightarrow> (tuple_value \<times> tuple_extent) option"
where
  "publish_slots edge_position [] s = Some s"
| "publish_slots edge_position (slot # slots) s =
     do { s \<leftarrow> publish_slot edge_position (fst (move_value slot)) s;
          publish_slots (edge_position + 1) slots s }"

text \<open>Success, the tuple published, and the assembly that is left.\<close>

definition publish_preadmitted_tuple ::
    "preadmitted_tuple_assembly
      \<Rightarrow> ((value_invariant + bennu_value) \<times> preadmitted_tuple_assembly) option" where
  "publish_preadmitted_tuple a =
     (if \<not> publishable a then Some (Inl VI_invalid_tuple_range, a)
      else
        let v = pt_value a; t = va_tuple v; n = pt_element_count a;
            root_edge_begin = array_size (tv_child_indexes t) - n
        in do {
          (t, _) \<leftarrow> publish_slots root_edge_begin (host_array_span (pt_fixed_slots a)) (t, no_extent);
          Some (case move_value (v\<lparr>va_tuple := t\<lparr>tv_first_child := root_edge_begin,
                                                 tv_child_count := n,
                                                 tv_root_index := array_size (tv_nodes t)\<rparr>\<rparr>) of
                  (published, left) \<Rightarrow>
                    (Inr published, empty_assembly\<lparr>pt_value := left\<rparr>))
        })"

section \<open>Abandoning an assembly\<close>

fun destroy_slots ::
    "resource_world \<Rightarrow> bennu_value list \<Rightarrow> resource_world option" where
  "destroy_slots w [] = Some w"
| "destroy_slots w (slot # slots) =
     do { (_, w) \<leftarrow> destroy_proven_value w slot; destroy_slots w slots }"

text \<open>What an assembly still owns is freed with it.\<close>

definition drop_assembly :: "resource_world \<Rightarrow> preadmitted_tuple_assembly \<Rightarrow> resource_world" where
  "drop_assembly w a =
     fold (\<lambda>v w. drop_value w v) (host_array_span (pt_fixed_slots a)) (drop_value w (pt_value a))"

definition release_preadmitted_tuple_assembly ::
    "resource_world \<Rightarrow> evaluation_resources \<Rightarrow> preadmitted_tuple_assembly
      \<Rightarrow> ((value_release_result \<times> preadmitted_tuple_assembly) \<times> evaluation_resources
          \<times> resource_world) option" where
  "release_preadmitted_tuple_assembly w ev a =
     (let slots = take (pt_transferred_count a) (host_array_span (pt_fixed_slots a))
      in if \<not> preadmitted_assembly_storage_safe a
            \<or> list_ex (\<lambda>slot. \<not> preadmitted_value_layout_safe slot) slots
         then Some ((not_released VI_invalid_tuple_range, a), ev, w)
         else do {
           w \<leftarrow> destroy_slots w (rev slots);
           case release_proven_tuple_reservation w (tv_root_reservation (va_tuple (pt_value a))) of
             (_, w) \<Rightarrow>
               (case refresh_evaluation_resources w ev of
                  (known, ev, w) \<Rightarrow>
                    Some ((if known then released else context_mismatch, empty_assembly), ev, w))
         })"

end
