(* ===== verification/Parameters.thy ===== *)
theory Parameters
  imports FrontEnd ValueTraversal
begin

text \<open>
  The arguments of a program (src/rewrite.cpp, \<open>argument_error\<close> to \<open>decode_parameter_texts\<close>): a
  program with a header takes one scalar for every declaration, given as values or, on the
  command line, as texts. The first argument that does not fit decides the error, which carries
  its position, the declaration and what was supplied.

  \<^item> A text is decoded by the grammars of the literals; \<open>inf\<close>, \<open>-inf\<close> and \<open>nan\<close> are spelled out.
  \<^item> The conversion object of one build variant is abstracted, as for the literals.
\<close>

section \<open>Spans\<close>

definition rewrite_source_span :: "rewrite_span \<Rightarrow> source_span" where
  "rewrite_source_span span =
     \<lparr>ss_begin = rewrite_source_location (rs_begin span),
      ss_end = rewrite_source_location (rs_end span)\<rparr>"

definition first_span :: source_span where
  "first_span = rewrite_source_span (insertion_span first_position)"

section \<open>Errors of arguments\<close>

definition argument_scalar_type_of :: "scalar_type \<Rightarrow> argument_scalar_type" where
  "argument_scalar_type_of t =
     (case t of
        ST_boolean \<Rightarrow> AS_boolean
      | ST_integer \<Rightarrow> AS_integer
      | ST_double_precision \<Rightarrow> AS_double_precision
      | ST_unknown _ \<Rightarrow> AS_unknown)"

text \<open>The declaration of a position, which counts from 1.\<close>

definition declaration_at :: "rewrite_program \<Rightarrow> nat \<Rightarrow> rewrite_parameter_declaration option" where
  "declaration_at program position =
     (if position \<ge> 1 then at (hd_declarations (pg_parameter_header program)) (position - 1)
      else None)"

definition argument_context ::
    "rewrite_program \<Rightarrow> argument_error_reason \<Rightarrow> nat \<Rightarrow> nat \<Rightarrow> argument_error_context" where
  "argument_context program reason supplied_count position =
     (let declaration = declaration_at program position
      in \<lparr>gx_reason = reason,
          gx_required_count = length (hd_declarations (pg_parameter_header program)),
          gx_supplied_count = supplied_count, gx_position = position,
          gx_parameter_name = map_option dl_name declaration,
          gx_expected_type = map_option dl_type declaration,
          gx_declaration_span = map_option (\<lambda>d. rewrite_source_span (dl_span d)) declaration,
          gx_actual_container = None, gx_actual_type = None,
          gx_invalid_value_invariant = None\<rparr>)"

definition argument_error ::
    "rewrite_program \<Rightarrow> argument_error_reason \<Rightarrow> nat \<Rightarrow> nat \<Rightarrow> error" where
  "argument_error program reason supplied_count position =
     (let header = pg_parameter_header program; declaration = declaration_at program position;
          primary = (case declaration of
                       Some d \<Rightarrow> dl_name_span d
                     | None \<Rightarrow> if hd_present header then hd_keyword_span header
                               else insertion_span first_position)
      in (make_error EK_argument_error (rewrite_source_location (rs_begin primary)))
           \<lparr>er_argument := Some (argument_context program reason supplied_count position),
            er_context_span := Some (if hd_present header then rewrite_source_span (hd_span header)
                                     else first_span),
            er_primary_span := Some (rewrite_source_span primary),
            er_related_span := map_option (\<lambda>d. rewrite_source_span (dl_span d)) declaration\<rparr>)"

text \<open>\<open>error.argument->actual_container = ...\<close> and the like.\<close>

definition argument_error_about ::
    "(argument_error_context \<Rightarrow> argument_error_context) \<Rightarrow> error \<Rightarrow> error" where
  "argument_error_about f e = e\<lparr>er_argument := map_option f (er_argument e)\<rparr>"

section \<open>Arguments given as values\<close>

text \<open>One argument against its declaration; the order of the tests decides what is reported.\<close>

definition validate_parameter_value ::
    "resource_world \<Rightarrow> rewrite_program \<Rightarrow> nat \<Rightarrow> rewrite_parameter_declaration \<Rightarrow> nat
      \<Rightarrow> bennu_value \<Rightarrow> (error option \<times> resource_world) option" where
  "validate_parameter_value w program supplied declaration index v =
     (let report = (\<lambda>reason f.
            argument_error_about f (argument_error program reason supplied (index + 1)))
      in case va_container v of
           CK_vector \<Rightarrow>
             Some (Some (report AR_container_mismatch
                           (\<lambda>x. x\<lparr>gx_actual_container := Some AC_vector\<rparr>)), w)
         | CK_scalar \<Rightarrow>
             let actual = argument_scalar_type_of (sv_type (va_scalar v)) in
             if actual = AS_unknown
             then Some (Some (report AR_invalid_typed_value
                    (\<lambda>x. x\<lparr>gx_actual_container := Some AC_scalar, gx_actual_type := Some AS_unknown,
                            gx_invalid_value_invariant := Some VI_unknown_scalar_type\<rparr>)), w)
             else do {
               (validation, w) \<leftarrow> validate_value w v;
               if \<not> vr_ok validation
               then Some (Some (report AR_invalid_typed_value
                      (\<lambda>x. x\<lparr>gx_actual_container := Some AC_scalar, gx_actual_type := Some actual,
                              gx_invalid_value_invariant :=
                                Some (if vr_invariant validation = VI_noncanonical_nan
                                      then VI_noncanonical_nan else VI_inactive_scalar_field)\<rparr>)), w)
               else if sv_type (va_scalar v) \<noteq> dl_type declaration
               then Some (Some (report AR_type_mismatch
                      (\<lambda>x. x\<lparr>gx_actual_container := Some AC_scalar,
                              gx_actual_type := Some actual\<rparr>)), w)
               else Some (None, w)
             }
         | _ \<Rightarrow>
             Some (Some (report AR_invalid_typed_value
                           (\<lambda>x. x\<lparr>gx_actual_container := Some AC_unknown,
                                   gx_invalid_value_invariant := Some VI_unknown_container\<rparr>)), w))"

fun validate_each_parameter ::
    "resource_world \<Rightarrow> rewrite_program \<Rightarrow> nat \<Rightarrow> nat
      \<Rightarrow> (rewrite_parameter_declaration \<times> bennu_value) list
      \<Rightarrow> (error option \<times> resource_world) option" where
  "validate_each_parameter w program supplied index [] = Some (None, w)"
| "validate_each_parameter w program supplied index ((declaration, v) # rest) =
     do {
       (problem, w) \<leftarrow> validate_parameter_value w program supplied declaration index v;
       if problem \<noteq> None then Some (problem, w)
       else validate_each_parameter w program supplied (index + 1) rest
     }"

definition argument_count_error :: "rewrite_program \<Rightarrow> nat \<Rightarrow> error option" where
  "argument_count_error program supplied =
     (let required = length (hd_declarations (pg_parameter_header program))
      in if supplied < required
         then Some (argument_error program AR_missing supplied (supplied + 1))
         else if supplied > required
         then Some (argument_error program AR_extra supplied (required + 1))
         else None)"

definition validate_parameter_values ::
    "resource_world \<Rightarrow> rewrite_program \<Rightarrow> bennu_value list
      \<Rightarrow> (error option \<times> resource_world) option" where
  "validate_parameter_values w program values =
     (case argument_count_error program (length values) of
        Some e \<Rightarrow> Some (Some e, w)
      | None \<Rightarrow>
          validate_each_parameter w program (length values) 0
            (zip (hd_declarations (pg_parameter_header program)) values))"

section \<open>Arguments given as texts\<close>

definition decode_boolean_text :: "bytes \<Rightarrow> argument_error_reason + bennu_value" where
  "decode_boolean_text spelling =
     (if spelling = ''true'' then Inr (make_bool_value True)
      else if spelling = ''false'' then Inr (make_bool_value False)
      else Inl AR_invalid_literal)"

definition decode_integer_text :: "bytes \<Rightarrow> argument_error_reason + bennu_value" where
  "decode_integer_text spelling =
     (if \<not> canonical_integer_grammar spelling then Inl AR_invalid_literal
      else case from_chars_integer spelling of
             None \<Rightarrow> Inl AR_out_of_range
           | Some v \<Rightarrow> Inr (make_int_value v))"

definition decode_double_text :: "bytes \<Rightarrow> argument_error_reason + bennu_value" where
  "decode_double_text spelling =
     (if spelling = ''inf'' then Inr (make_double_value 0x7ff0000000000000)
      else if spelling = ''-inf'' then Inr (make_double_value 0xfff0000000000000)
      else if spelling = ''nan'' then Inr (make_double_value 0x7ff8000000000000)
      else if \<not> finite_double_grammar spelling then Inl AR_invalid_literal
      else case parse_finite_double spelling of
             (CE_out_of_range, _) \<Rightarrow>
               if decimal_rounds_to_zero spelling
               then Inr (make_double_value
                           (if hd spelling = CHR ''-'' then 0x8000000000000000 else 0))
               else Inl AR_out_of_range
           | (CE_none, converted_value) \<Rightarrow>
               if binary64_is_nan converted_value \<or> binary64_is_infinity converted_value
               then Inl AR_out_of_range
               else Inr (make_double_value converted_value))"

definition decode_scalar_text ::
    "scalar_type \<Rightarrow> bytes \<Rightarrow> argument_error_reason + bennu_value" where
  "decode_scalar_text t spelling =
     (if t = ST_boolean then decode_boolean_text spelling
      else if t = ST_integer then decode_integer_text spelling
      else decode_double_text spelling)"

fun decode_each_text ::
    "rewrite_program \<Rightarrow> nat \<Rightarrow> nat \<Rightarrow> (rewrite_parameter_declaration \<times> bytes) list
      \<Rightarrow> error + bennu_value list" where
  "decode_each_text program supplied index [] = Inr []"
| "decode_each_text program supplied index ((declaration, text) # rest) =
     (case decode_scalar_text (dl_type declaration) text of
        Inl reason \<Rightarrow> Inl (argument_error program reason supplied (index + 1))
      | Inr v \<Rightarrow> map_sum id ((#) v) (decode_each_text program supplied (index + 1) rest))"

definition decode_parameter_texts ::
    "rewrite_program \<Rightarrow> bytes list \<Rightarrow> error + bennu_value list" where
  "decode_parameter_texts program texts =
     (case argument_count_error program (length texts) of
        Some e \<Rightarrow> Inl e
      | None \<Rightarrow>
          decode_each_text program (length texts) 0
            (zip (hd_declarations (pg_parameter_header program)) texts))"

end
