(* ===== verification/ValueFormatting.thy ===== *)
theory ValueFormatting
  imports ValueTraversal NumericLiterals
begin

text \<open>
  The text of a value (src/value.cpp, \<open>append_text\<close> to \<open>append_vector\<close> and \<open>format_value\<close>): a
  vector in parentheses, a tuple in brackets, the elements separated by spaces. The text goes
  into an array whose capacity is computed beforehand, 66 characters for a scalar; a tuple is
  traversed with an explicit stack of actions.

  \<^item> The digits \<open>std::to_chars\<close> gives for a finite double that is not zero are chosen by the
    standard library: they are the parameter \<open>to_chars\<close>, \<open>None\<close> when its buffer is too small. For
    an integer they are its decimal notation.
  \<^item> Reads outside a table or a buffer are \<open>None\<close>.
\<close>

section \<open>Scalars\<close>

type_synonym double_digits = "binary64 \<Rightarrow> string option"

datatype append_error = AE_none | AE_conversion_failure | AE_size_overflow

definition append_value_text ::
    "char host_array \<Rightarrow> string \<Rightarrow> append_error \<times> char host_array" where
  "append_value_text formatted text =
     (case push_all host_array_push formatted text of
        (e, formatted) \<Rightarrow> (if e \<noteq> HR_none then AE_size_overflow else AE_none, formatted))"

text \<open>The chains of the code go on only while nothing has failed.\<close>

definition append_next ::
    "append_error \<times> char host_array \<Rightarrow> (char host_array \<Rightarrow> append_error \<times> char host_array)
      \<Rightarrow> append_error \<times> char host_array" where
  "append_next r f = (case r of (e, formatted) \<Rightarrow> if e \<noteq> AE_none then r else f formatted)"

fun strip_leading_zeros :: "string \<Rightarrow> string" where
  "strip_leading_zeros (c # d # cs) =
     (if c = CHR ''0'' then strip_leading_zeros (d # cs) else c # d # cs)"
| "strip_leading_zeros cs = cs"

definition exponent_marker :: "char \<Rightarrow> bool" where
  "exponent_marker c \<longleftrightarrow> c = CHR ''e'' \<or> c = CHR ''E''"

text \<open>The digits of a finite double as they are written: a fraction is always present without an
  exponent, and an exponent has no plus sign and no leading zeros.\<close>

definition finite_double_text :: "string \<Rightarrow> string" where
  "finite_double_text converted =
     (let mantissa = takeWhile (\<lambda>c. \<not> exponent_marker c) converted
      in if mantissa = converted
         then (if CHR ''.'' \<in> set converted then converted else converted @ ''.0'')
         else
           let digits = drop (length mantissa + 1) converted;
               signed = digits \<noteq> [] \<and> (hd digits = CHR ''+'' \<or> hd digits = CHR ''-'')
           in mantissa @ ''e''
              @ (if signed \<and> hd digits = CHR ''-'' then ''-'' else [])
              @ strip_leading_zeros (if signed then tl digits else digits))"

definition append_double ::
    "double_digits \<Rightarrow> char host_array \<Rightarrow> binary64 \<Rightarrow> append_error \<times> char host_array" where
  "append_double to_chars formatted bits =
     (if bits AND binary64_exponent_mask = binary64_exponent_mask
      then (if bits AND binary64_fraction_mask \<noteq> 0 then append_value_text formatted ''nan''
            else append_value_text formatted (if drop_bit 63 bits \<noteq> 0 then ''-inf'' else ''inf''))
      else if bits = 0 then append_value_text formatted ''0.0''
      else if bits = 0x8000000000000000 then append_value_text formatted ''-0.0''
      else case to_chars bits of
             None \<Rightarrow> (AE_conversion_failure, formatted)
           | Some converted \<Rightarrow> append_value_text formatted (finite_double_text converted))"

definition append_integer ::
    "char host_array \<Rightarrow> i64 \<Rightarrow> append_error \<times> char host_array" where
  "append_integer formatted v = append_value_text formatted (decimal_notation (sint v))"

definition boolean_text :: "bool \<Rightarrow> string" where
  "boolean_text b = (if b then ''true'' else ''false'')"

definition append_scalar ::
    "double_digits \<Rightarrow> char host_array \<Rightarrow> scalar_value \<Rightarrow> append_error \<times> char host_array" where
  "append_scalar to_chars formatted s =
     (case sv_type s of
        ST_boolean \<Rightarrow> append_value_text formatted (boolean_text (sv_boolean s))
      | ST_integer \<Rightarrow> append_integer formatted (sv_integer s)
      | ST_double_precision \<Rightarrow> append_double to_chars formatted (sv_double s)
      | ST_unknown _ \<Rightarrow> (AE_conversion_failure, formatted))"

section \<open>Vectors\<close>

definition append_indexed_element ::
    "double_digits \<Rightarrow> char host_array \<Rightarrow> vector_value \<Rightarrow> nat
      \<Rightarrow> (append_error \<times> char host_array) option" where
  "append_indexed_element to_chars formatted v index =
     (case vv_element_type v of
        ST_boolean \<Rightarrow>
          map_option (\<lambda>b. append_value_text formatted (boolean_text (b \<noteq> 0)))
            (at (bf_contents (vv_booleans v)) index)
      | ST_integer \<Rightarrow>
          map_option (append_integer formatted) (at (bf_contents (vv_integers v)) index)
      | ST_double_precision \<Rightarrow>
          map_option (append_double to_chars formatted) (at (bf_contents (vv_doubles v)) index)
      | ST_unknown _ \<Rightarrow> Some (AE_none, formatted))"

fun append_indexed_elements ::
    "double_digits \<Rightarrow> char host_array \<Rightarrow> vector_value \<Rightarrow> nat list
      \<Rightarrow> (append_error \<times> char host_array) option" where
  "append_indexed_elements to_chars formatted v [] = Some (AE_none, formatted)"
| "append_indexed_elements to_chars formatted v (index # indexes) =
     (case (if index \<noteq> 0 then append_value_text formatted '' '' else (AE_none, formatted)) of
        (separated, formatted) \<Rightarrow>
          if separated \<noteq> AE_none then Some (separated, formatted)
          else do {
            (appended, formatted) \<leftarrow> append_indexed_element to_chars formatted v index;
            if appended \<noteq> AE_none then Some (appended, formatted)
            else append_indexed_elements to_chars formatted v indexes
          })"

definition append_vector ::
    "double_digits \<Rightarrow> char host_array \<Rightarrow> vector_value
      \<Rightarrow> (append_error \<times> char host_array) option" where
  "append_vector to_chars formatted v =
     (case append_value_text formatted ''('' of
        (opened, formatted) \<Rightarrow>
          if opened \<noteq> AE_none then Some (opened, formatted)
          else map_option (\<lambda>r. append_next r (\<lambda>formatted. append_value_text formatted '')''))
                 (append_indexed_elements to_chars formatted v [0..<active_vector_length v]))"

section \<open>Tuples\<close>

datatype value_format_action = VA_node nat | VA_separator | VA_close_tuple

definition layout_value_format_action :: element_layout where
  "layout_value_format_action = \<lparr>element_size = 16, element_alignment = 8\<rparr>"

text \<open>The actions of a tuple, bottom first: the closing bracket, then the children from the last
  to the first, a separator above every child but the first.\<close>

fun tuple_actions :: "nat list \<Rightarrow> value_format_action list" where
  "tuple_actions [] = []"
| "tuple_actions [child] = [VA_node child]"
| "tuple_actions (child # children) =
     tuple_actions children @ [VA_separator, VA_node child]"

text \<open>The loop: the text and the reason to stop, \<open>Inl\<close> for a resource that ran out.\<close>

type_synonym format_stop = "host_resource_error_reason + append_error"

definition format_go_on :: format_stop where
  "format_go_on = Inl HR_none"

definition append_stop :: "append_error \<Rightarrow> format_stop" where
  "append_stop e = (if e = AE_none then format_go_on
                    else if e = AE_size_overflow then Inl HR_size_overflow else Inr e)"

definition pushed_text ::
    "char host_array \<Rightarrow> char \<Rightarrow> format_stop \<times> char host_array" where
  "pushed_text formatted c = (case host_array_push formatted c of (e, a) \<Rightarrow> (Inl e, a))"

definition open_tuple ::
    "tuple_value \<Rightarrow> nat \<Rightarrow> nat \<Rightarrow> char host_array \<Rightarrow> value_format_action host_array
      \<Rightarrow> (format_stop \<times> char host_array \<times> value_format_action host_array) option" where
  "open_tuple t first_child child_count formatted stack =
     (case host_array_push formatted (CHR ''['') of
        (opened, formatted) \<Rightarrow>
          if opened \<noteq> HR_none then Some (Inl opened, formatted, stack)
          else do {
            children \<leftarrow> read_all (tv_child_indexes t) [first_child..<first_child + child_count];
            case push_all host_array_push stack (VA_close_tuple # tuple_actions children) of
              (e, stack) \<Rightarrow> Some (Inl e, formatted, stack)
          })"

definition format_value_step ::
    "double_digits \<Rightarrow> tuple_value \<Rightarrow> char host_array \<Rightarrow> value_format_action host_array
      \<Rightarrow> (format_stop \<times> char host_array \<times> value_format_action host_array) option" where
  "format_value_step to_chars t formatted stack =
     do {
       action \<leftarrow> host_array_at stack (array_size stack - 1);
       let stack = host_array_pop stack;
           keep = (\<lambda>(e, formatted). (e, formatted, stack)) in
       case action of
         VA_separator \<Rightarrow> Some (keep (pushed_text formatted (CHR '' '')))
       | VA_close_tuple \<Rightarrow> Some (keep (pushed_text formatted (CHR '']'')))
       | VA_node node_index \<Rightarrow>
           if node_index = tv_root_index t
           then open_tuple t (tv_first_child t) (tv_child_count t) formatted stack
           else do {
             node \<leftarrow> host_array_at (tv_nodes t) node_index;
             if vn_container node = CK_scalar
             then Some (keep (map_prod append_stop id
                                (append_scalar to_chars formatted (vn_scalar node))))
             else if vn_container node = CK_vector
             then do {
               v \<leftarrow> host_array_at (tv_vector_payloads t) (vn_vector_payload_index node);
               r \<leftarrow> append_vector to_chars formatted v;
               Some (keep (map_prod append_stop id r)) }
             else open_tuple t (vn_first_child node) (vn_child_count node) formatted stack
           }
     }"

partial_function (option) format_value_loop ::
    "double_digits \<Rightarrow> tuple_value \<Rightarrow> char host_array \<Rightarrow> value_format_action host_array
      \<Rightarrow> (format_stop \<times> char host_array) option" where
  "format_value_loop to_chars t formatted stack =
     (if array_size stack = 0 then Some (format_go_on, formatted)
      else Option.bind (format_value_step to_chars t formatted stack)
             (\<lambda>(e, formatted, stack).
                if e \<noteq> format_go_on then Some (e, formatted)
                else format_value_loop to_chars t formatted stack))"

declare format_value_loop.simps [code]

section \<open>Values\<close>

record value_formatting_result =
  vf_ok :: bool
  vf_formatted :: string
  vf_invariant :: value_invariant
  vf_error :: value_format_error
  vf_path :: "nat list"
  vf_node_index :: "nat option"
  vf_edge_index :: "nat option"
  vf_resource_error :: host_resource_error_reason
  vf_formatted_storage :: "char host_array"

definition value_formatting_failure :: "host_resource_error_reason \<Rightarrow> value_formatting_result" where
  "value_formatting_failure e =
     \<lparr>vf_ok = False, vf_formatted = [], vf_invariant = VI_none, vf_error = VF_none, vf_path = [],
      vf_node_index = None, vf_edge_index = None, vf_resource_error = e,
      vf_formatted_storage = empty_host_array\<rparr>"

definition value_not_formattable :: "value_validation_result \<Rightarrow> value_formatting_result" where
  "value_not_formattable validation =
     (value_formatting_failure (vr_resource_error validation))
       \<lparr>vf_invariant := (if vr_resource_error validation \<noteq> HR_none then VI_none
                         else vr_invariant validation),
        vf_error := (if vr_resource_error validation = HR_none then VF_invalid_value else VF_none),
        vf_path := vr_path validation, vf_node_index := vr_node_index validation,
        vf_edge_index := vr_edge_index validation\<rparr>"

text \<open>The characters a value may need; \<open>None\<close> when their number is not representable.\<close>

definition add_vector_capacity :: "nat \<Rightarrow> vector_value \<Rightarrow> nat option" where
  "add_vector_capacity capacity v =
     (if active_vector_length v > (size_max - capacity) div 65 then None
      else Some (capacity + active_vector_length v * 65))"

fun add_vector_capacities :: "nat \<Rightarrow> vector_value list \<Rightarrow> nat option" where
  "add_vector_capacities capacity [] = Some capacity"
| "add_vector_capacities capacity (v # vs) =
     do { capacity \<leftarrow> add_vector_capacity capacity v; add_vector_capacities capacity vs }"

definition tuple_text_capacity :: "tuple_value \<Rightarrow> nat option" where
  "tuple_text_capacity t =
     (let nodes = array_size (tv_nodes t); edges = array_size (tv_child_indexes t)
      in if nodes = size_max \<or> nodes + 1 > size_max div 66 then None
         else if edges > (size_max - (nodes + 1) * 66) div 2 then None
         else add_vector_capacities ((nodes + 1) * 66 + edges * 2)
                (host_array_span (tv_vector_payloads t)))"

text \<open>The capacities of the text and of the stack.\<close>

definition format_capacities :: "bennu_value \<Rightarrow> (nat \<times> nat) option" where
  "format_capacities v =
     (case va_container v of
        CK_vector \<Rightarrow> map_option (\<lambda>text. (text, 0)) (add_vector_capacity 66 (va_vector v))
      | CK_tuple \<Rightarrow>
          do {
            text \<leftarrow> tuple_text_capacity (va_tuple v);
            let nodes = array_size (tv_nodes (va_tuple v));
                edges = array_size (tv_child_indexes (va_tuple v)) in
            if edges > (size_max - nodes - 1) div 2 then None
            else Some (text, nodes + edges * 2 + 1)
          }
      | _ \<Rightarrow> Some (66, 0))"

definition format_contents ::
    "double_digits \<Rightarrow> bennu_value \<Rightarrow> char host_array \<Rightarrow> value_format_action host_array
      \<Rightarrow> (format_stop \<times> char host_array) option" where
  "format_contents to_chars v formatted stack =
     (case va_container v of
        CK_scalar \<Rightarrow>
          Some (map_prod append_stop id (append_scalar to_chars formatted (va_scalar v)))
      | CK_vector \<Rightarrow>
          map_option (map_prod append_stop id) (append_vector to_chars formatted (va_vector v))
      | _ \<Rightarrow>
          (case host_array_push stack (VA_node (tv_root_index (va_tuple v))) of
             (e, stack) \<Rightarrow>
               if e \<noteq> HR_none then Some (Inl e, formatted)
               else format_value_loop to_chars (va_tuple v) formatted stack))"

definition format_report :: "format_stop \<times> char host_array \<Rightarrow> value_formatting_result" where
  "format_report r =
     (case r of
        (Inl HR_none, formatted) \<Rightarrow>
          (value_formatting_failure HR_none)
            \<lparr>vf_ok := True, vf_formatted := host_array_span formatted,
             vf_formatted_storage := formatted\<rparr>
      | (Inl e, formatted) \<Rightarrow>
          (value_formatting_failure e)\<lparr>vf_formatted_storage := formatted\<rparr>
      | (Inr _, formatted) \<Rightarrow>
          (value_formatting_failure HR_none)
            \<lparr>vf_error := VF_conversion_failure, vf_formatted_storage := formatted\<rparr>)"

definition format_valid_value ::
    "double_digits \<Rightarrow> resource_world \<Rightarrow> bennu_value
      \<Rightarrow> (value_formatting_result \<times> resource_world) option" where
  "format_valid_value to_chars w v =
     (case format_capacities v of
        None \<Rightarrow> Some (value_formatting_failure HR_size_overflow, w)
      | Some (text_capacity, stack_capacity) \<Rightarrow>
          (case begin_host_allocation (rw_host w) of
             (e, h) \<Rightarrow>
           case allocate_within e layout_u8 h text_capacity of (e, formatted, h) \<Rightarrow>
           case (if stack_capacity \<noteq> 0
                 then allocate_within e layout_value_format_action h stack_capacity
                 else (e, empty_host_array, h)) of
             (e, stack, h) \<Rightarrow>
           let w = w\<lparr>rw_host := h\<rparr> in
           if e \<noteq> HR_none
           then Some ((value_formatting_failure e)\<lparr>vf_formatted_storage := formatted\<rparr>, w)
           else map_option (\<lambda>r. (format_report r, w))
                  (format_contents to_chars v formatted stack)))"

definition format_value_injected ::
    "double_digits \<Rightarrow> resource_world \<Rightarrow> bennu_value
      \<Rightarrow> (value_formatting_result \<times> resource_world) option" where
  "format_value_injected to_chars w v =
     do {
       (validation, w) \<leftarrow> validate_value_injected w v;
       if \<not> vr_ok validation then Some (value_not_formattable validation, w)
       else format_valid_value to_chars w v
     }"

definition format_value ::
    "double_digits \<Rightarrow> resource_world \<Rightarrow> bennu_value
      \<Rightarrow> (value_formatting_result \<times> resource_world) option" where
  "format_value to_chars w v = uninjected (\<lambda>w. format_value_injected to_chars w v) w"

end
