(* ===== verification/Evaluator.thy ===== *)
theory Evaluator
  imports Application TupleBuild Parameters ValueFormatting
begin

text \<open>
  The evaluation of a lowered program (src/rewrite.cpp, \<open>vector_literal_value\<close> to
  \<open>format_rewrite_root_values\<close> and the second half of \<open>evaluate_rewrite_source_impl\<close>). The nodes are
  executed in the order of the table. A value is kept while uses of its node remain: a call
  reads its arguments and then counts its uses down, a tuple literal takes its elements over,
  and a result of a fanout branch moves into the slot reserved for it. A failure releases
  everything that is still held.

  \<^item> The entry of the repository's tests that supplies a prepared program and prepared values is
    left out, with the operations only it can bring about.
  \<^item> Reads outside a table are \<open>None\<close>. The digits of doubles are a parameter, as in the
    formatting of values.
\<close>

section \<open>The state of an evaluation\<close>

record evaluation =
  xs_world :: resource_world
  xs_resources :: evaluation_resources
  xs_values :: "bennu_value list"
  xs_live :: "bool list"
  xs_uses :: "nat list"
  xs_assemblies :: "preadmitted_tuple_assembly list"
  xs_assembly_live :: "bool list"
  xs_invocations :: nat

definition in_context ::
    "(resource_world \<Rightarrow> evaluation_resources
        \<Rightarrow> ('a \<times> evaluation_resources \<times> resource_world) option)
      \<Rightarrow> evaluation \<Rightarrow> ('a \<times> evaluation) option" where
  "in_context operation st =
     map_option (\<lambda>(r, ev, w). (r, st\<lparr>xs_world := w, xs_resources := ev\<rparr>))
       (operation (xs_world st) (xs_resources st))"

definition with_world ::
    "(resource_world \<Rightarrow> ('a \<times> resource_world) option) \<Rightarrow> evaluation \<Rightarrow> ('a \<times> evaluation) option"
where
  "with_world operation st =
     map_option (\<lambda>(r, w). (r, st\<lparr>xs_world := w\<rparr>)) (operation (xs_world st))"

definition refresh :: "evaluation \<Rightarrow> evaluation" where
  "refresh st =
     (case refresh_evaluation_resources (xs_world st) (xs_resources st) of
        (_, ev, w) \<Rightarrow> st\<lparr>xs_world := w, xs_resources := ev\<rparr>)"

text \<open>A node's value, its mark and its uses.\<close>

definition set_value :: "nat \<Rightarrow> bennu_value \<Rightarrow> evaluation \<Rightarrow> evaluation" where
  "set_value i v st = st\<lparr>xs_values := (xs_values st)[i := v]\<rparr>"

definition set_live :: "nat \<Rightarrow> bool \<Rightarrow> evaluation \<Rightarrow> evaluation" where
  "set_live i live st = st\<lparr>xs_live := (xs_live st)[i := live]\<rparr>"

definition drop_use :: "nat \<Rightarrow> evaluation \<Rightarrow> evaluation" where
  "drop_use i st = st\<lparr>xs_uses := (xs_uses st)[i := xs_uses st ! i - 1]\<rparr>"

definition keep_value :: "nat \<Rightarrow> bennu_value \<Rightarrow> evaluation \<Rightarrow> evaluation" where
  "keep_value i v st = set_live i True (set_value i v st)"

section \<open>Release\<close>

definition release_rewrite_value ::
    "resource_world \<Rightarrow> evaluation_resources \<Rightarrow> bennu_value
      \<Rightarrow> (bennu_value \<times> evaluation_resources \<times> resource_world) option" where
  "release_rewrite_value w ev v =
     (case va_container v of
        CK_vector \<Rightarrow>
          (case release_vector_reservation w ev v of ((_, left), ev, w) \<Rightarrow> Some (left, ev, w))
      | CK_tuple \<Rightarrow>
          map_option (\<lambda>((_, left), ev, w). (left, ev, w)) (release_value_reservations w ev v)
      | _ \<Rightarrow> map_option (\<lambda>((_, left), w). (left, ev, w)) (destroy_value w v))"

text \<open>\<open>release_rewrite_values\<close>: the values of a list, the last one first; what a failed release
  leaves is freed when the list is cleared.\<close>

fun release_each ::
    "resource_world \<Rightarrow> evaluation_resources \<Rightarrow> bennu_value list
      \<Rightarrow> (bennu_value list \<times> evaluation_resources \<times> resource_world) option" where
  "release_each w ev [] = Some ([], ev, w)"
| "release_each w ev (v # vs) =
     do {
       (left, ev, w) \<leftarrow> release_rewrite_value w ev v;
       (lefts, ev, w) \<leftarrow> release_each w ev vs;
       Some (left # lefts, ev, w)
     }"

definition drop_values :: "resource_world \<Rightarrow> bennu_value list \<Rightarrow> resource_world" where
  "drop_values w vs = fold (\<lambda>v w. drop_value w v) vs w"

definition release_rewrite_values ::
    "resource_world \<Rightarrow> evaluation_resources \<Rightarrow> bennu_value list
      \<Rightarrow> (evaluation_resources \<times> resource_world) option" where
  "release_rewrite_values w ev vs =
     do {
       (lefts, ev, w) \<leftarrow> release_each w ev (rev vs);
       case refresh_evaluation_resources (drop_values w lefts) ev of (_, ev, w) \<Rightarrow> Some (ev, w)
     }"

definition release_values :: "bennu_value list \<Rightarrow> evaluation \<Rightarrow> evaluation option" where
  "release_values vs st =
     map_option (\<lambda>(ev, w). st\<lparr>xs_world := w, xs_resources := ev\<rparr>)
       (release_rewrite_values (xs_world st) (xs_resources st) vs)"

definition release_rewrite_node_value :: "nat \<Rightarrow> evaluation \<Rightarrow> evaluation option" where
  "release_rewrite_node_value i st =
     do {
       live \<leftarrow> at (xs_live st) i;
       if \<not> live then Some st
       else do {
         v \<leftarrow> at (xs_values st) i;
         (left, st) \<leftarrow> in_context (\<lambda>w ev. release_rewrite_value w ev v) st;
         Some (set_live i False (set_value i left st))
       }
     }"

fun release_rewrite_nodes :: "nat list \<Rightarrow> evaluation \<Rightarrow> evaluation option" where
  "release_rewrite_nodes [] st = Some st"
| "release_rewrite_nodes (i # is) st =
     do { st \<leftarrow> release_rewrite_node_value i st; release_rewrite_nodes is st }"

definition release_rewrite_node_values :: "evaluation \<Rightarrow> evaluation option" where
  "release_rewrite_node_values st =
     map_option refresh (release_rewrite_nodes (rev [0..<length (xs_values st)]) st)"

definition release_assembly_at :: "nat \<Rightarrow> evaluation \<Rightarrow> evaluation option" where
  "release_assembly_at i st =
     do {
       live \<leftarrow> at (xs_assembly_live st) i;
       if \<not> live then Some st
       else do {
         a \<leftarrow> at (xs_assemblies st) i;
         ((_, left), st) \<leftarrow> in_context (\<lambda>w ev. release_preadmitted_tuple_assembly w ev a) st;
         Some (st\<lparr>xs_assemblies := (xs_assemblies st)[i := left],
                  xs_assembly_live := (xs_assembly_live st)[i := False]\<rparr>)
       }
     }"

fun release_assemblies :: "nat list \<Rightarrow> evaluation \<Rightarrow> evaluation option" where
  "release_assemblies [] st = Some st"
| "release_assemblies (i # is) st =
     do { st \<leftarrow> release_assembly_at i st; release_assemblies is st }"

definition release_execution_state :: "evaluation \<Rightarrow> evaluation option" where
  "release_execution_state st =
     do {
       st \<leftarrow> release_assemblies (rev [0..<length (xs_assemblies st)]) st;
       release_rewrite_node_values st
     }"

section \<open>The uses of a call\<close>

definition attempt_possible :: "evaluation \<Rightarrow> nat \<Rightarrow> nat list \<Rightarrow> nat \<Rightarrow> bool" where
  "attempt_possible st node_count arguments position \<longleftrightarrow>
     (let argument = arguments ! position;
          prior_occurrences = length (filter ((=) argument) (take position arguments))
      in argument < node_count \<and> xs_uses st ! argument > prior_occurrences
         \<and> xs_live st ! argument)"

fun release_used_up ::
    "rewrite_lowering_node list \<Rightarrow> nat list \<Rightarrow> nat list \<Rightarrow> evaluation \<Rightarrow> evaluation option" where
  "release_used_up nodes arguments [] st = Some st"
| "release_used_up nodes arguments (position # positions) st =
     do {
       let argument = arguments ! position;
       let later_occurrence = argument \<in> set (drop (position + 1) arguments);
       st \<leftarrow> (if \<not> later_occurrence \<and> xs_uses st ! argument = 0
                 \<and> \<not> ln_retained_root (nodes ! argument)
              then release_rewrite_node_value argument st else Some st);
       release_used_up nodes arguments positions st
     }"

definition complete_rewrite_consumer_attempt ::
    "rewrite_lowering_node list \<Rightarrow> nat list \<Rightarrow> evaluation \<Rightarrow> (bool \<times> evaluation) option" where
  "complete_rewrite_consumer_attempt nodes arguments st =
     (if \<not> list_all (attempt_possible st (length nodes) arguments) [0..<length arguments]
      then Some (False, st)
      else map_option (Pair True)
             (release_used_up nodes arguments (rev [0..<length arguments])
                (fold drop_use arguments st)))"

section \<open>Diagnostics\<close>

definition argument_origins ::
    "rewrite_program \<Rightarrow> rewrite_call \<Rightarrow> rewrite_span list option" where
  "argument_origins program call =
     do {
       count \<leftarrow> semantic_argument_count program call;
       those (map (semantic_argument_span program call) [0..<count])
     }"

definition application_rewrite_diagnostic ::
    "rewrite_program \<Rightarrow> rewrite_call \<Rightarrow> error \<Rightarrow> rewrite_evaluation_diagnostic option" where
  "application_rewrite_diagnostic program call e =
     do {
       origins \<leftarrow> argument_origins program call;
       let spread = prefix_tuple_operand program call \<noteq> None;
       operand \<leftarrow> (if spread then map_option Some (at (pg_argument_spans program) (rc_first_argument call))
                  else Some None);
       let primary =
         (case er_argument_position e of
            Some position \<Rightarrow>
              if (er_kind e = EK_type_mismatch \<or> er_kind e = EK_shape_mismatch \<or> spread)
                 \<and> position \<ge> 1 \<and> position \<le> length origins
              then origins ! (position - 1) else rc_name_span call
          | None \<Rightarrow> rc_name_span call);
       Some (empty_rewrite_evaluation_diagnostic
         \<lparr>ed_stage := ES_application, ed_primitive_name := rc_name_span call,
          ed_call := rc_span call, ed_context := rc_span call,
          ed_related := (case operand of None \<Rightarrow> rc_name_span call | Some span \<Rightarrow> span),
          ed_arguments := origins, ed_has_operand := spread,
          ed_operand := (case operand of None \<Rightarrow> ed_operand empty_rewrite_evaluation_diagnostic
                                       | Some span \<Rightarrow> span),
          ed_primary := primary,
          ed_error := e\<lparr>er_location := rewrite_source_location (rs_begin primary)\<rparr>\<rparr>)
     }"

definition internal_diagnostic ::
    "rewrite_span option \<Rightarrow> error \<Rightarrow> rewrite_evaluation_diagnostic" where
  "internal_diagnostic span e =
     (let d = empty_rewrite_evaluation_diagnostic\<lparr>ed_stage := ES_primitive_table, ed_error := e\<rparr>
      in case span of None \<Rightarrow> d | Some s \<Rightarrow> d\<lparr>ed_primary := s, ed_context := s\<rparr>)"

definition node_diagnostic ::
    "rewrite_node \<Rightarrow> rewrite_evaluation_stage \<Rightarrow> error \<Rightarrow> rewrite_evaluation_diagnostic" where
  "node_diagnostic node stage e =
     empty_rewrite_evaluation_diagnostic
       \<lparr>ed_stage := stage, ed_primary := rn_span node, ed_context := rn_span node,
        ed_error := e\<rparr>"

section \<open>Shapes at run time\<close>

text \<open>The arguments whose length is known only now: the first of them sets the length when no
  argument has a static one, a later one that differs is reported.\<close>

fun check_dynamic_lengths ::
    "resource_world \<Rightarrow> (rewrite_lowering_node \<times> bennu_value) list \<Rightarrow> nat \<Rightarrow> nat option
      \<Rightarrow> ((nat \<times> nat \<times> nat) option \<times> resource_world) option" where
  "check_dynamic_lengths w [] position expected = Some (None, w)"
| "check_dynamic_lengths w ((node, v) # rest) position expected =
     (if ln_cardinality node \<noteq> RC_dynamic_vector
      then check_dynamic_lengths w rest (position + 1) expected
      else do {
        ((report, actual), w) \<leftarrow> value_length w v;
        if \<not> vr_ok report then check_dynamic_lengths w rest (position + 1) expected
        else case expected of
          None \<Rightarrow> check_dynamic_lengths w rest (position + 1) (Some actual)
        | Some count \<Rightarrow>
            if actual = count then check_dynamic_lengths w rest (position + 1) expected
            else Some (Some (position, count, actual), w)
      })"

definition rewrite_runtime_shape_error ::
    "rewrite_lowering_node \<Rightarrow> rewrite_lowering_program \<Rightarrow> primitive_descriptor
      \<Rightarrow> typed_argument list \<Rightarrow> resource_world \<Rightarrow> (error option \<times> resource_world) option" where
  "rewrite_runtime_shape_error call lowering descriptor arguments w =
     (if \<not> ln_runtime_shape_check call \<or> ln_spreads_tuple call then Some (None, w)
      else do {
        indexes \<leftarrow> read_nodes (lp_arguments lowering)
                     [ln_first_argument call ..< ln_first_argument call + ln_argument_count call];
        nodes \<leftarrow> read_nodes (lp_nodes lowering) indexes;
        let expected = (if list_ex (\<lambda>node. ln_cardinality node = RC_static_vector) nodes
                        then Some (ln_element_count call) else None);
        (mismatch, w) \<leftarrow> check_dynamic_lengths w (zip nodes (map pa_owner arguments)) 0 expected;
        case mismatch of
          None \<Rightarrow> Some (None, w)
        | Some (position, count, actual) \<Rightarrow>
            (case lowering_primitive_error (rw_host w) EK_shape_mismatch descriptor
                    (ln_source_location call) of
               (e, h) \<Rightarrow>
                 Some (Some (e\<lparr>er_argument_position := Some (position + 1),
                               er_shape := Some \<lparr>sx_expected = [count], sx_actual = [actual]\<rparr>\<rparr>),
                       w\<lparr>rw_host := h\<rparr>))
      })"

section \<open>Literals\<close>

definition elements_of :: "'a list \<Rightarrow> rewrite_node \<Rightarrow> 'a list option" where
  "elements_of table node =
     (if rn_first_element node + rn_element_count node \<le> length table
      then Some (take (rn_element_count node) (drop (rn_first_element node) table))
      else None)"

definition vector_literal_value ::
    "resource_world \<Rightarrow> evaluation_resources \<Rightarrow> rewrite_program \<Rightarrow> rewrite_node
      \<Rightarrow> (vector_allocation_result \<times> evaluation_resources \<times> resource_world) option" where
  "vector_literal_value w ev program node =
     (let location = rewrite_source_location (rs_begin (rn_span node))
      in case rn_element_type node of
           ST_boolean \<Rightarrow>
             map_option (\<lambda>xs. copy_bool_vector w ev (map (\<lambda>b. if b then 1 else 0) xs) location
                                ''vector-literal'')
               (elements_of (pg_boolean_elements program) node)
         | ST_integer \<Rightarrow>
             map_option (\<lambda>xs. copy_int_vector w ev xs location ''vector-literal'')
               (elements_of (pg_integer_elements program) node)
         | _ \<Rightarrow>
             map_option (\<lambda>xs. copy_double_vector w ev xs location ''vector-literal'')
               (elements_of (pg_double_elements program) node))"

definition scalar_literal_value :: "rewrite_node \<Rightarrow> bennu_value" where
  "scalar_literal_value node =
     (if rn_element_type node = ST_boolean then make_bool_value (rn_boolean node)
      else if rn_element_type node = ST_integer then make_int_value (rn_integer node)
      else make_double_value (rn_double node))"

section \<open>Nodes\<close>

text \<open>What executing a node gives: a diagnostic that ends the evaluation, or none.\<close>

type_synonym node_outcome = "(rewrite_evaluation_diagnostic option \<times> evaluation) option"

text \<open>A value without uses is released as soon as it is there.\<close>

definition settle_node :: "nat \<Rightarrow> evaluation \<Rightarrow> node_outcome" where
  "settle_node i st =
     do {
       uses \<leftarrow> at (xs_uses st) i;
       map_option (Pair None) (if uses = 0 then release_rewrite_node_value i st else Some st)
     }"

definition parameter_value :: "scalar_value \<Rightarrow> bennu_value" where
  "parameter_value s =
     (if sv_type s = ST_boolean then make_bool_value (sv_boolean s)
      else if sv_type s = ST_integer then make_int_value (sv_integer s)
      else make_double_value (sv_double s))"

definition vector_literal_step ::
    "rewrite_program \<Rightarrow> nat \<Rightarrow> rewrite_node \<Rightarrow> evaluation \<Rightarrow> node_outcome" where
  "vector_literal_step program i node st =
     do {
       (r, st) \<leftarrow> in_context (\<lambda>w ev. vector_literal_value w ev program node) st;
       if al_ok r then settle_node i (keep_value i (al_value r) st)
       else Some (Some (node_diagnostic node ES_literal (al_error r)), st)
     }"

section \<open>Fanouts\<close>

text \<open>The sizes the tuple of a fanout will have, from the types of its branches.\<close>

definition add_branch :: "rewrite_lowering_node \<Rightarrow> tuple_extent \<Rightarrow> tuple_extent" where
  "add_branch branch x =
     (let ty = ln_structural_type branch; nodes = type_nodes ty
      in if ln_cardinality branch \<noteq> RC_tuple
         then x\<lparr>te_nodes := te_nodes x + 1,
                te_payloads := te_payloads x
                  + (if ln_cardinality branch = RC_scalar then 0 else 1)\<rparr>
         else \<lparr>te_nodes = te_nodes x + length nodes,
               te_edges = te_edges x + array_size (ta_child_indexes ty),
               te_payloads = te_payloads x
                 + length (filter (\<lambda>n. tn_kind n = TK_vector) nodes),
               te_reservations = te_reservations x
                 + length (filter (\<lambda>n. tn_kind n = TK_tuple) nodes)\<rparr>)"

definition branch_roots :: "rewrite_program \<Rightarrow> rewrite_fanout \<Rightarrow> nat list option" where
  "branch_roots program fanout =
     map_option (map rb_root)
       (read_nodes (pg_fanout_branches program)
          [rf_first_branch fanout ..< rf_first_branch fanout + rf_branch_count fanout])"

definition fanout_extent ::
    "rewrite_program \<Rightarrow> rewrite_lowering_program \<Rightarrow> rewrite_fanout \<Rightarrow> tuple_extent option" where
  "fanout_extent program lowering fanout =
     do {
       roots \<leftarrow> branch_roots program fanout;
       branches \<leftarrow> read_nodes (lp_nodes lowering) roots;
       Some (fold add_branch branches (no_extent\<lparr>te_edges := rf_branch_count fanout\<rparr>))
     }"

definition fanout_location :: "rewrite_fanout \<Rightarrow> source_location" where
  "fanout_location fanout = rewrite_source_location (rs_begin (rf_keyword_span fanout))"

definition fanout_node_index :: "rewrite_program \<Rightarrow> nat \<Rightarrow> nat \<Rightarrow> nat option" where
  "fanout_node_index program node_index fanout_index =
     find (\<lambda>candidate. let node = pg_nodes program ! candidate
             in rn_kind node = NK_fanout \<and> rn_call_index node = fanout_index)
       [node_index..<length (pg_nodes program)]"

text \<open>Before the first node of its branches, the tuple of a fanout is admitted.\<close>

definition admit_fanout ::
    "rewrite_program \<Rightarrow> rewrite_lowering_program \<Rightarrow> nat \<Rightarrow> nat \<Rightarrow> evaluation \<Rightarrow> node_outcome" where
  "admit_fanout program lowering node_index fanout_index st =
     do {
       fanout \<leftarrow> at (pg_fanouts program) fanout_index;
       if rf_operand fanout + 1 \<noteq> node_index then Some (None, st)
       else if fanout_node_index program node_index fanout_index = None
       then Some (Some (internal_diagnostic None
                          (make_error EK_invalid_primitive_table (fanout_location fanout))), st)
       else do {
         extent \<leftarrow> fanout_extent program lowering fanout;
         (admitted, st) \<leftarrow> in_context (\<lambda>w ev. Some (preadmit_tuple_assembly w ev
                              (rf_branch_count fanout) extent (fanout_location fanout) ''fanout'')) st;
         case admitted of
           Inl e \<Rightarrow>
             Some (Some (empty_rewrite_evaluation_diagnostic
                     \<lparr>ed_stage := ES_resource_admission, ed_primary := rf_keyword_span fanout,
                      ed_context := rf_span fanout, ed_related := rf_operand_span fanout,
                      ed_error := e\<rparr>), st)
         | Inr a \<Rightarrow>
             Some (None, st\<lparr>xs_assemblies := (xs_assemblies st)[fanout_index := a],
                            xs_assembly_live := (xs_assembly_live st)[fanout_index := True]\<rparr>)
       }
     }"

text \<open>Steps one after the other, up to the first diagnostic.\<close>

fun run_steps :: "('a \<Rightarrow> evaluation \<Rightarrow> node_outcome) \<Rightarrow> 'a list \<Rightarrow> evaluation \<Rightarrow> node_outcome" where
  "run_steps f [] st = Some (None, st)"
| "run_steps f (x # xs) st =
     do {
       (stopped, st) \<leftarrow> f x st;
       if stopped \<noteq> None then Some (stopped, st) else run_steps f xs st
     }"

section \<open>Tuples\<close>

text \<open>The elements of a literal are moved out of their nodes, each for its last use.\<close>

fun take_elements :: "nat list \<Rightarrow> evaluation \<Rightarrow> ((bool \<times> bennu_value list) \<times> evaluation) option" where
  "take_elements [] st = Some ((True, []), st)"
| "take_elements (element # elements) st =
     do {
       live \<leftarrow> at (xs_live st) element;
       uses \<leftarrow> at (xs_uses st) element;
       v \<leftarrow> at (xs_values st) element;
       if \<not> live \<or> uses \<noteq> 1 then Some ((False, []), st)
       else case move_value v of
         (moved, left) \<Rightarrow>
           map_option (map_prod (map_prod id ((#) moved)) id)
             (take_elements elements (drop_use element (set_live element False
                                        (set_value element left st))))
     }"

definition invalid_forward_use :: "rewrite_node \<Rightarrow> rewrite_evaluation_diagnostic" where
  "invalid_forward_use node =
     node_diagnostic node ES_primitive_table
       (make_error EK_invalid_primitive_table (rewrite_source_location (rs_begin (rn_span node))))"

definition tuple_literal_step ::
    "rewrite_program \<Rightarrow> nat \<Rightarrow> rewrite_node \<Rightarrow> evaluation \<Rightarrow> node_outcome" where
  "tuple_literal_step program i node st =
     do {
       elements \<leftarrow> elements_of (pg_tuple_elements program) node;
       ((taken, arguments), st) \<leftarrow> take_elements elements st;
       if \<not> taken
       then map_option (Pair (Some (invalid_forward_use node))) (release_values arguments st)
       else do {
         ((tuple, lefts), st) \<leftarrow> in_context (\<lambda>w ev. make_tuple_value w ev arguments
                                    (rewrite_source_location (rs_begin (rn_span node)))
                                    ''tuple-literal'') st;
         if \<not> tc_ok tuple
         then map_option (Pair (Some (node_diagnostic node ES_literal (tc_error tuple))))
                (release_values lefts st)
         else settle_node i (keep_value i (fst (move_value (tc_value tuple))) st)
       }
     }"

definition fanout_node_step ::
    "rewrite_program \<Rightarrow> nat \<Rightarrow> rewrite_node \<Rightarrow> evaluation \<Rightarrow> node_outcome" where
  "fanout_node_step program i node st =
     do {
       let f = rn_call_index node;
       fanout \<leftarrow> at (pg_fanouts program) f;
       live \<leftarrow> at (xs_assembly_live st) f;
       a \<leftarrow> at (xs_assemblies st) f;
       if \<not> live
       then map_option (Pair (Some (invalid_forward_use node))) (release_values [] st)
       else do {
         (published, left) \<leftarrow> publish_preadmitted_tuple a;
         let st = st\<lparr>xs_assemblies := (xs_assemblies st)[f := left]\<rparr>;
         case published of
           Inl invariant \<Rightarrow>
             map_option (Pair (Some (node_diagnostic node ES_literal
                 (make_error_message EK_invalid_primitive_table
                    (rewrite_source_location (rs_begin (rn_span node)))
                    ''fanout tuple assembly is incomplete or structurally invalid''))))
               (release_values [] st)
         | Inr v \<Rightarrow>
             do {
               st \<leftarrow> release_rewrite_node_value (rf_operand fanout)
                      (st\<lparr>xs_assembly_live := (xs_assembly_live st)[f := False]\<rparr>);
               uses \<leftarrow> at (xs_uses st) (rf_operand fanout);
               settle_node i (keep_value i (fst (move_value v))
                 (if uses \<noteq> 0 then drop_use (rf_operand fanout) st else st))
             }
       }
     }"

section \<open>Calls\<close>

text \<open>A placeholder stands for the operand of its fanout, but its uses are its own.\<close>

definition owner_node :: "rewrite_program \<Rightarrow> nat \<Rightarrow> nat option" where
  "owner_node program argument =
     do {
       node \<leftarrow> at (pg_nodes program) argument;
       Some (if rn_kind node = NK_placeholder then rn_first_element node else argument)
     }"

fun arguments_usable :: "rewrite_program \<Rightarrow> evaluation \<Rightarrow> nat list \<Rightarrow> bool option" where
  "arguments_usable program st [] = Some True"
| "arguments_usable program st (argument # arguments) =
     do {
       owner \<leftarrow> owner_node program argument;
       live \<leftarrow> at (xs_live st) owner;
       uses \<leftarrow> at (xs_uses st) argument;
       if \<not> live \<or> uses = 0 then Some False else arguments_usable program st arguments
     }"

definition owned_argument ::
    "rewrite_program \<Rightarrow> evaluation \<Rightarrow> nat \<Rightarrow> typed_argument option" where
  "owned_argument program st argument =
     do { owner \<leftarrow> owner_node program argument;
          map_option whole_value (at (xs_values st) owner) }"

definition spread_arguments ::
    "rewrite_program \<Rightarrow> rewrite_lowering_node \<Rightarrow> evaluation
      \<Rightarrow> (typed_argument list option \<times> evaluation) option" where
  "spread_arguments program lowered st =
     do {
       owner \<leftarrow> owner_node program (ln_spread_operand lowered);
       operand \<leftarrow> at (xs_values st) owner;
       ((report, arity), st) \<leftarrow> with_world (\<lambda>w. value_tuple_arity w operand) st;
       if \<not> vr_ok report \<or> arity \<noteq> ln_argument_count lowered then Some (None, st)
       else do {
         let first = tv_first_child (va_tuple operand);
         elements \<leftarrow> read_all (tv_child_indexes (va_tuple operand)) [first..<first + arity];
         Some (Some (map (\<lambda>i. \<lparr>pa_owner = operand, pa_node = Some i\<rparr>) elements), st)
       }
     }"

text \<open>The arguments of a call, or \<open>None\<close> when a value it needs is not there.\<close>

definition gather_arguments ::
    "rewrite_program \<Rightarrow> rewrite_lowering_node \<Rightarrow> nat list \<Rightarrow> evaluation
      \<Rightarrow> (typed_argument list option \<times> evaluation) option" where
  "gather_arguments program lowered arguments st =
     do {
       usable \<leftarrow> arguments_usable program st arguments;
       if \<not> usable then Some (None, st)
       else if ln_spreads_tuple lowered then spread_arguments program lowered st
       else map_option (\<lambda>as. (Some as, st)) (those (map (owned_argument program st) arguments))
     }"

definition blame_single_operand :: "rewrite_lowering_node \<Rightarrow> application_result \<Rightarrow> error" where
  "blame_single_operand lowered r =
     (let e = pr_error r
      in if ln_spreads_tuple lowered \<and> ln_argument_count lowered = 1
            \<and> er_kind e = EK_domain_error \<and> er_argument_position e = None
         then e\<lparr>er_argument_position := Some 1\<rparr> else e)"

definition failed_call ::
    "rewrite_program \<Rightarrow> rewrite_call \<Rightarrow> error \<Rightarrow> evaluation \<Rightarrow> node_outcome" where
  "failed_call program call e st =
     map_option (\<lambda>d. (Some d, st)) (application_rewrite_diagnostic program call e)"

definition table_error :: "rewrite_call \<Rightarrow> error" where
  "table_error call = make_error EK_invalid_primitive_table (call_location call)"

text \<open>The branch of a fanout whose root a node is.\<close>

fun index_of :: "'a \<Rightarrow> 'a list \<Rightarrow> nat option" where
  "index_of x [] = None"
| "index_of x (y # ys) = (if y = x then Some 0 else map_option Suc (index_of x ys))"

fun fanout_position ::
    "rewrite_program \<Rightarrow> nat \<Rightarrow> nat \<Rightarrow> rewrite_fanout list \<Rightarrow> (nat \<times> nat) option option" where
  "fanout_position program node_index fanout_index [] = Some None"
| "fanout_position program node_index fanout_index (fanout # fanouts) =
     do {
       roots \<leftarrow> branch_roots program fanout;
       case index_of node_index roots of
         Some position \<Rightarrow> Some (Some (fanout_index, position))
       | None \<Rightarrow> fanout_position program node_index (fanout_index + 1) fanouts
     }"

text \<open>The result of a branch moves into the slot of its fanout.\<close>

definition transfer_result ::
    "rewrite_program \<Rightarrow> nat \<Rightarrow> nat \<Rightarrow> nat \<Rightarrow> bennu_value \<Rightarrow> evaluation \<Rightarrow> node_outcome" where
  "transfer_result program node_index fanout_index position v st =
     do {
       fanout \<leftarrow> at (pg_fanouts program) fanout_index;
       a \<leftarrow> at (xs_assemblies st) fanout_index;
       uses \<leftarrow> at (xs_uses st) node_index;
       branch \<leftarrow> at (pg_fanout_branches program) (rf_first_branch fanout + position);
       let problem = (\<lambda>primary message.
         (internal_diagnostic (Some primary)
            (make_error_message EK_invalid_primitive_table (fanout_location fanout) message))
           \<lparr>ed_context := rf_span fanout\<rparr>);
       if position \<noteq> pt_transferred_count a \<or> uses \<noteq> 1
       then map_option (Pair (Some (problem (rf_span fanout)
                ''fanout branch result order or ownership is invalid'')))
              (release_values [v] st)
       else do {
         (transferred, a, left) \<leftarrow> transfer_preadmitted_tuple_element a v;
         let st = st\<lparr>xs_assemblies := (xs_assemblies st)[fanout_index := a]\<rparr>;
         if \<not> transferred
         then map_option (Pair (Some (problem (rb_span branch)
                  ''fanout branch result does not match its preadmitted slot'')))
                (release_values [left] st)
         else Some (None, drop_use node_index st)
       }
     }"

definition keep_result ::
    "rewrite_program \<Rightarrow> nat \<Rightarrow> bennu_value \<Rightarrow> evaluation \<Rightarrow> node_outcome" where
  "keep_result program i v st =
     do {
       position \<leftarrow> fanout_position program i 0 (pg_fanouts program);
       (stopped, st) \<leftarrow> (case position of
                            None \<Rightarrow> Some (None, keep_value i v st)
                          | Some (fanout_index, branch) \<Rightarrow>
                              transfer_result program i fanout_index branch v st);
       if stopped \<noteq> None then Some (stopped, st) else settle_node i st
     }"

text \<open>A call with its arguments: the lengths are compared, the primitive applied, the uses of the
  arguments counted down, and the result kept.\<close>

definition apply_call ::
    "rewrite_program \<Rightarrow> rewrite_lowering_program \<Rightarrow> nat \<Rightarrow> rewrite_call \<Rightarrow> primitive_descriptor
      \<Rightarrow> rewrite_lowering_node \<Rightarrow> nat list \<Rightarrow> typed_argument list \<Rightarrow> evaluation \<Rightarrow> node_outcome" where
  "apply_call program lowering i call descriptor lowered operands arguments st =
     do {
       (shape_error, st) \<leftarrow> with_world (rewrite_runtime_shape_error lowered lowering descriptor
                                          arguments) st;
       case shape_error of
         Some e \<Rightarrow>
           do { (_, st) \<leftarrow> complete_rewrite_consumer_attempt (lp_nodes lowering) operands st;
                failed_call program call e st }
       | None \<Rightarrow>
           do {
             (applied, context, w) \<leftarrow> apply_typed_primitive (xs_world st)
                 \<lparr>ap_resources = xs_resources st, ap_invocations = xs_invocations st\<rparr>
                 descriptor (ln_implementation lowered) arguments (call_location call);
             (completed, st) \<leftarrow> complete_rewrite_consumer_attempt (lp_nodes lowering) operands
                 (st\<lparr>xs_world := w, xs_resources := ap_resources context,
                     xs_invocations := ap_invocations context\<rparr>);
             if \<not> completed
             then do { st \<leftarrow> (if application_result.pr_ok applied
                             then release_values [application_result.pr_value applied] st
                             else Some st);
                       failed_call program call (table_error call) st }
             else if \<not> application_result.pr_ok applied
             then failed_call program call (blame_single_operand lowered applied) st
             else keep_result program i (application_result.pr_value applied) st
           }
     }"

definition call_step ::
    "rewrite_program \<Rightarrow> rewrite_lowering_program \<Rightarrow> nat \<Rightarrow> rewrite_node \<Rightarrow> rewrite_lowering_node
      \<Rightarrow> evaluation \<Rightarrow> node_outcome" where
  "call_step program lowering i node lowered st =
     do {
       call \<leftarrow> at (pg_calls program) (rn_call_index node);
       case call_descriptor call of
         None \<Rightarrow> failed_call program call (table_error call) st
       | Some descriptor \<Rightarrow>
           do {
             operands \<leftarrow> read_nodes (pg_arguments program)
               [rc_first_argument call ..< rc_first_argument call + rc_argument_count call];
             (gathered, st) \<leftarrow> gather_arguments program lowered operands st;
             case gathered of
               None \<Rightarrow> failed_call program call (table_error call) st
             | Some arguments \<Rightarrow>
                 apply_call program lowering i call descriptor lowered operands arguments st
           }
     }"

section \<open>The loop over the nodes\<close>

definition execute_node ::
    "rewrite_program \<Rightarrow> rewrite_lowering_program \<Rightarrow> bennu_value list \<Rightarrow> nat \<Rightarrow> evaluation
      \<Rightarrow> node_outcome" where
  "execute_node program lowering parameters i st =
     do {
       node \<leftarrow> at (pg_nodes program) i;
       lowered \<leftarrow> at (lp_nodes lowering) i;
       case rn_kind node of
         NK_scalar_literal \<Rightarrow> settle_node i (keep_value i (scalar_literal_value node) st)
       | NK_parameter_reference \<Rightarrow>
           do { parameter \<leftarrow> at parameters (rn_first_element node);
                settle_node i (keep_value i (parameter_value (va_scalar parameter)) st) }
       | NK_placeholder \<Rightarrow> Some (None, keep_value i (make_int_value 0) st)
       | NK_vector_literal \<Rightarrow> vector_literal_step program i node st
       | NK_tuple_literal \<Rightarrow> tuple_literal_step program i node st
       | NK_fanout \<Rightarrow> fanout_node_step program i node st
       | _ \<Rightarrow> call_step program lowering i node lowered st
     }"

definition visit_program_node ::
    "rewrite_program \<Rightarrow> rewrite_lowering_program \<Rightarrow> bennu_value list \<Rightarrow> nat \<Rightarrow> evaluation
      \<Rightarrow> node_outcome" where
  "visit_program_node program lowering parameters i st =
     do {
       (stopped, st) \<leftarrow> run_steps (admit_fanout program lowering i)
                           [0..<length (pg_fanouts program)] st;
       if stopped \<noteq> None then Some (stopped, st)
       else execute_node program lowering parameters i st
     }"

text \<open>The values of the roots, in their order.\<close>

definition collect_roots ::
    "rewrite_program \<Rightarrow> evaluation \<Rightarrow> ((bool \<times> bennu_value list) \<times> evaluation) option" where
  "collect_roots program st = take_elements (pg_roots program) st"

fun format_root_values ::
    "double_digits \<Rightarrow> rewrite_program \<Rightarrow> nat \<Rightarrow> (nat \<times> bennu_value) list \<Rightarrow> resource_world
      \<Rightarrow> ((rewrite_evaluation_diagnostic + string list) \<times> resource_world) option" where
  "format_root_values to_chars program position [] w = Some (Inr [], w)"
| "format_root_values to_chars program position ((root, v) # rest) w =
     do {
       (r, w) \<leftarrow> format_value to_chars w v;
       if \<not> vf_ok r
       then do {
         node \<leftarrow> at (pg_nodes program) root;
         Some (Inl (empty_rewrite_evaluation_diagnostic
                 \<lparr>ed_stage := ES_formatting, ed_primary := rn_span node, ed_context := rn_span node,
                  ed_formatting_root_position := position + 1,
                  ed_formatting_invariant := vf_invariant r,
                  ed_formatting_error := vf_error r\<rparr>), w) }
       else map_option (map_prod (map_sum id ((#) (vf_formatted r))) id)
              (format_root_values to_chars program (position + 1) rest w)
     }"

definition format_rewrite_root_values ::
    "double_digits \<Rightarrow> rewrite_program \<Rightarrow> bennu_value list \<Rightarrow> resource_world
      \<Rightarrow> ((rewrite_evaluation_diagnostic + string list) \<times> resource_world) option" where
  "format_rewrite_root_values to_chars program values w =
     (if length values \<noteq> length (pg_roots program)
      then Some (Inl (empty_rewrite_evaluation_diagnostic
                        \<lparr>ed_stage := ES_formatting, ed_formatting_error := VF_invalid_value\<rparr>), w)
      else format_root_values to_chars program 0 (zip (pg_roots program) values) w)"

section \<open>Evaluation\<close>

record rewrite_evaluation_creation =
  cr_profile :: execution_profile
  cr_limits :: resource_limits
  cr_fail_at :: "nat option"

record rewrite_evaluation_result =
  ve_ok :: bool
  ve_values :: "bennu_value list"
  ve_formatted :: "string list"
  ve_lowering :: rewrite_lowering_program
  ve_diagnostic :: rewrite_evaluation_diagnostic
  ve_resources :: evaluation_resources
  ve_invocations :: nat

definition rewrite_evaluation_failure ::
    "evaluation_resources \<Rightarrow> rewrite_evaluation_diagnostic \<Rightarrow> nat \<Rightarrow> rewrite_evaluation_result" where
  "rewrite_evaluation_failure ev diagnostic invocations =
     \<lparr>ve_ok = False, ve_values = [], ve_formatted = [], ve_lowering = empty_lowering,
      ve_diagnostic = diagnostic, ve_resources = ev, ve_invocations = invocations\<rparr>"

definition make_rewrite_resources ::
    "resource_world \<Rightarrow> rewrite_evaluation_creation \<Rightarrow> evaluation_resources \<times> resource_world" where
  "make_rewrite_resources w creation =
     (if cr_profile creation = EP_trusted_local_v1 \<and> cr_limits creation = no_limits
      then make_trusted_local_resources w (cr_fail_at creation)
      else make_evaluation_resources w (cr_profile creation) (cr_limits creation)
             (cr_fail_at creation) 0 0 0)"

definition invalid_rewrite_resources :: "rewrite_evaluation_creation \<Rightarrow> evaluation_resources" where
  "invalid_rewrite_resources creation =
     \<lparr>ac_profile = cr_profile creation, ac_limits = cr_limits creation,
      ac_creation_error = HR_none, ac_fail_at = cr_fail_at creation, ac_live = 0, ac_work = 0,
      ac_ordinal = 0, ac_version = 0, ev_owner = 0, ev_handle = 0\<rparr>"

text \<open>The tables of an evaluation; what is still in them at its end is freed with them.\<close>

definition start_evaluation ::
    "rewrite_program \<Rightarrow> rewrite_lowering_program \<Rightarrow> evaluation_resources \<Rightarrow> resource_world
      \<Rightarrow> evaluation" where
  "start_evaluation program lowering ev w =
     (let n = length (pg_nodes program); f = length (pg_fanouts program)
      in \<lparr>xs_world = w, xs_resources = ev, xs_values = replicate n (make_int_value 0),
          xs_live = replicate n False, xs_uses = map ln_use_count (lp_nodes lowering),
          xs_assemblies = replicate f empty_assembly, xs_assembly_live = replicate f False,
          xs_invocations = 0\<rparr>)"

definition drop_tables :: "evaluation \<Rightarrow> resource_world" where
  "drop_tables st =
     fold (\<lambda>a w. drop_assembly w a) (xs_assemblies st) (drop_values (xs_world st) (xs_values st))"

definition abandon ::
    "rewrite_evaluation_diagnostic \<Rightarrow> evaluation
      \<Rightarrow> (rewrite_evaluation_result \<times> resource_world) option" where
  "abandon diagnostic st =
     map_option
       (\<lambda>st. (rewrite_evaluation_failure (xs_resources st) diagnostic (xs_invocations st),
              drop_tables st))
       (release_execution_state st)"

definition finish_evaluation ::
    "double_digits \<Rightarrow> rewrite_program \<Rightarrow> rewrite_lowering_program \<Rightarrow> evaluation
      \<Rightarrow> (rewrite_evaluation_result \<times> resource_world) option" where
  "finish_evaluation to_chars program lowering st =
     do {
       ((collected, values), st) \<leftarrow> collect_roots program st;
       if \<not> collected
       then do { st \<leftarrow> release_values values st;
                 abandon (internal_diagnostic None (make_error EK_invalid_primitive_table
                            (rewrite_source_location first_position))) st }
       else do {
         (formatted, st) \<leftarrow> with_world (format_rewrite_root_values to_chars program values) st;
         case formatted of
           Inl diagnostic \<Rightarrow> do { st \<leftarrow> release_values values st; abandon diagnostic st }
         | Inr texts \<Rightarrow>
             Some (\<lparr>ve_ok = True, ve_values = values, ve_formatted = texts, ve_lowering = lowering,
                    ve_diagnostic = empty_rewrite_evaluation_diagnostic,
                    ve_resources = xs_resources st, ve_invocations = xs_invocations st\<rparr>,
                   drop_tables st)
       }
     }"

definition evaluate_lowered ::
    "double_digits \<Rightarrow> rewrite_program \<Rightarrow> rewrite_lowering_program \<Rightarrow> bennu_value list
      \<Rightarrow> evaluation_resources \<Rightarrow> resource_world
      \<Rightarrow> (rewrite_evaluation_result \<times> resource_world) option" where
  "evaluate_lowered to_chars program lowering parameters ev w =
     do {
       (stopped, st) \<leftarrow> run_steps (visit_program_node program lowering parameters)
                           [0..<length (pg_nodes program)]
                           (start_evaluation program lowering ev w);
       case stopped of
         Some diagnostic \<Rightarrow> abandon diagnostic st
       | None \<Rightarrow> finish_evaluation to_chars program lowering st
     }"

text \<open>The arguments of the program: values, or texts to be decoded.\<close>

datatype program_arguments = ArgumentValues "bennu_value list" | ArgumentTexts "bytes list"

definition bind_arguments ::
    "resource_world \<Rightarrow> rewrite_program \<Rightarrow> program_arguments
      \<Rightarrow> ((error + bennu_value list) \<times> resource_world) option" where
  "bind_arguments w program arguments =
     (case arguments of
        ArgumentTexts texts \<Rightarrow> Some (decode_parameter_texts program texts, w)
      | ArgumentValues values \<Rightarrow>
          map_option
            (\<lambda>(problem, w). ((case problem of None \<Rightarrow> Inr values | Some e \<Rightarrow> Inl e), w))
            (validate_parameter_values w program values))"

definition argument_diagnostic :: "rewrite_program \<Rightarrow> error \<Rightarrow> rewrite_evaluation_diagnostic" where
  "argument_diagnostic program e =
     (let header = pg_parameter_header program; nowhere = insertion_span first_position
      in empty_rewrite_evaluation_diagnostic
           \<lparr>ed_primary := (if hd_present header then hd_keyword_span header else nowhere),
            ed_context := (if hd_present header then hd_span header else nowhere),
            ed_error := e\<rparr>)"

definition evaluate_with_arguments ::
    "double_digits \<Rightarrow> rewrite_evaluation_creation \<Rightarrow> rewrite_program \<Rightarrow> rewrite_lowering_program
      \<Rightarrow> program_arguments \<Rightarrow> resource_world
      \<Rightarrow> (rewrite_evaluation_result \<times> resource_world) option" where
  "evaluate_with_arguments to_chars creation program lowering arguments w =
     do {
       (bound, w) \<leftarrow> bind_arguments w program arguments;
       case bound of
         Inl e \<Rightarrow>
           Some (rewrite_evaluation_failure (invalid_rewrite_resources creation)
                   (argument_diagnostic program e) 0, w)
       | Inr parameters \<Rightarrow>
           (case make_rewrite_resources w creation of
              (ev, w) \<Rightarrow>
            case charge_work w ev 0 (rewrite_source_location first_position)
                   ''rewrite-evaluator'' of
              (Some e, ev, w) \<Rightarrow>
                Some (rewrite_evaluation_failure ev
                        (empty_rewrite_evaluation_diagnostic
                           \<lparr>ed_stage := ES_resource_admission, ed_error := e\<rparr>) 0, w)
            | (None, ev, w) \<Rightarrow> evaluate_lowered to_chars program lowering parameters ev w)
     }"

definition evaluate_rewrite_source ::
    "double_digits \<Rightarrow> bytes \<Rightarrow> rewrite_evaluation_creation \<Rightarrow> bool \<Rightarrow> program_arguments
      \<Rightarrow> resource_world \<Rightarrow> (rewrite_evaluation_result \<times> resource_world) option" where
  "evaluate_rewrite_source to_chars source creation require_single_root arguments w =
     do {
       (lowered, h) \<leftarrow> front_end (rw_host w) (cr_profile creation) (cr_limits creation)
                         require_single_root source;
       case lowered of
         Inl diagnostic \<Rightarrow>
           Some (rewrite_evaluation_failure (invalid_rewrite_resources creation) diagnostic 0,
                 w\<lparr>rw_host := h\<rparr>)
       | Inr (program, lowering) \<Rightarrow>
           evaluate_with_arguments to_chars creation program lowering arguments (w\<lparr>rw_host := h\<rparr>)
     }"

end
