(* ===== verification/PublicErrors.thy ===== *)
theory PublicErrors
  imports Parameters NumericLiterals
begin

text \<open>
  The errors a caller sees (src/rewrite.cpp, \<open>resource_reason_name\<close> to
  \<open>public_error_from_diagnostic\<close>): a diagnostic of a stage becomes one error with its kind, its
  message and its spans. The name of an unknown primitive is read back from the source.
\<close>

section \<open>Messages\<close>

definition resource_reason_name :: "resource_error_reason \<Rightarrow> string" where
  "resource_reason_name reason =
     (case reason of
        RE_size_overflow \<Rightarrow> ''size_overflow''
      | RE_profile_limit \<Rightarrow> ''profile_limit''
      | RE_allocation_unavailable \<Rightarrow> ''allocation_unavailable'')"

definition domain_reason_name :: "domain_error_reason \<Rightarrow> string" where
  "domain_reason_name reason = (case reason of DE_integer_overflow \<Rightarrow> ''integer_overflow'')"

definition source_at_span :: "bytes \<Rightarrow> rewrite_span \<Rightarrow> bytes" where
  "source_at_span source span =
     (let first = rp_offset (rs_begin span); last = rp_offset (rs_end span)
      in if first = 0 \<or> last < first \<or> last - 1 > length source then []
         else substr source (first - 1) (last - first))"

definition parse_error_message :: "rewrite_parse_error \<Rightarrow> string" where
  "parse_error_message e =
     (case e of
        PE_none \<Rightarrow> []
      | PE_invalid_byte \<Rightarrow> ''invalid source byte''
      | PE_malformed_literal \<Rightarrow> ''malformed scalar literal''
      | PE_literal_range \<Rightarrow> ''scalar literal is outside its accepted range''
      | PE_expected_expression \<Rightarrow> ''expected an expression''
      | PE_primitive_requires_application \<Rightarrow>
          ''primitive name requires bracketed or unary prefix application''
      | PE_whitespace_before_bracket \<Rightarrow> ''whitespace is not allowed before '' @ [CHR 0x27, CHR ''['', CHR 0x27]
      | PE_missing_separator \<Rightarrow> ''sibling expressions require separating whitespace''
      | PE_mismatched_delimiter \<Rightarrow> ''mismatched closing delimiter''
      | PE_missing_delimiter \<Rightarrow> ''missing closing delimiter''
      | PE_bare_empty_vector \<Rightarrow> ''empty vector requires Bool(), Int(), or Double()''
      | PE_heterogeneous_vector \<Rightarrow> ''vector elements must have one scalar type''
      | PE_invalid_vector_element \<Rightarrow> ''vector elements must be scalar literals''
      | PE_trailing_input \<Rightarrow> ''root expression has trailing input''
      | PE_unknown_primitive \<Rightarrow> ''unknown primitive''
      | PE_expected_fanout_open \<Rightarrow>
          ''expected adjacent '' @ [CHR 0x27, CHR ''['', CHR 0x27] @ '' after fanout''
      | PE_expected_fanout_operand \<Rightarrow> ''expected fanout operand''
      | PE_expected_fanout_branch \<Rightarrow> ''expected at least one fanout branch''
      | PE_expected_branch_open \<Rightarrow>
          ''expected fanout branch opening '' @ [CHR 0x27, CHR ''{'', CHR 0x27]
      | PE_expected_branch_body \<Rightarrow> ''expected fanout branch body''
      | PE_expected_branch_close \<Rightarrow>
          ''expected fanout branch closing '' @ [CHR 0x27, CHR ''}'', CHR 0x27]
      | PE_missing_fanout_close \<Rightarrow>
          ''missing fanout closing '' @ [CHR 0x27, CHR '']'', CHR 0x27]
      | PE_unexpected_fanout_token \<Rightarrow> ''fanout token is not valid in this position''
      | PE_nested_fanout \<Rightarrow> ''nested fanout is not supported''
      | PE_branch_root_not_primitive_call \<Rightarrow> ''fanout branch root must be a primitive call''
      | PE_placeholder_count \<Rightarrow> ''fanout branch must contain exactly one placeholder''
      | PE_placeholder_owned_position \<Rightarrow>
          ''fanout placeholder cannot appear in an owned aggregate'')"

definition parse_error_kind :: "rewrite_parse_error \<Rightarrow> error_kind" where
  "parse_error_kind e =
     (if e = PE_invalid_byte then EK_invalid_byte
      else if e = PE_malformed_literal then EK_malformed_literal
      else if e = PE_literal_range then EK_literal_range_error
      else if e = PE_unknown_primitive then EK_unknown_name
      else EK_syntax_error)"

definition quoted :: "string \<Rightarrow> string" where
  "quoted name = CHR 0x27 # name @ [CHR 0x27]"

definition first_or_zero :: "nat list \<Rightarrow> nat" where
  "first_or_zero xs = (case xs of [] \<Rightarrow> 0 | x # _ \<Rightarrow> x)"

text \<open>A member that is absent makes its case fall through to the next.\<close>

definition arity_message :: "string \<Rightarrow> arity_error_context \<Rightarrow> string" where
  "arity_message primitive arity =
     primitive @ '' received '' @ decimal_digits (ax_supplied arity)
     @ '' argument(s); accepted arity'' @ (if length (ax_accepted arity) \<noteq> 1 then '' values'' else [])
     @ concat (map (\<lambda>n. '' '' @ decimal_digits n) (ax_accepted arity))"

definition type_message :: "string \<Rightarrow> nat option \<Rightarrow> string" where
  "type_message primitive position =
     primitive @ '' arguments do not match an accepted signature''
     @ (case position of
          None \<Rightarrow> []
        | Some n \<Rightarrow> ''; first unsupported argument is '' @ decimal_digits n)"

definition shape_message :: "string \<Rightarrow> nat option \<Rightarrow> shape_error_context \<Rightarrow> string" where
  "shape_message primitive position shape =
     primitive @ '' argument ''
     @ decimal_digits (case position of None \<Rightarrow> 0 | Some n \<Rightarrow> n)
     @ '' expected shape ['' @ decimal_digits (first_or_zero (sx_expected shape))
     @ ''], got ['' @ decimal_digits (first_or_zero (sx_actual shape)) @ '']''"

definition domain_message :: "string \<Rightarrow> nat option \<Rightarrow> domain_error_context \<Rightarrow> string" where
  "domain_message primitive index domain =
     primitive @ '' failed: '' @ domain_reason_name (de_reason domain)
     @ (case index of None \<Rightarrow> [] | Some n \<Rightarrow> '' at result index '' @ decimal_digits n)"

definition fallback_message :: "error_kind \<Rightarrow> string" where
  "fallback_message kind =
     (if kind = EK_invalid_primitive_table then ''built-in primitive table is invalid''
      else if kind = EK_formatting_error
      then ''evaluated value cannot be formatted canonically''
      else ''evaluation failed'')"

definition semantic_error_message :: "error \<Rightarrow> string" where
  "semantic_error_message e =
     (let primitive = (case er_primitive e of None \<Rightarrow> ''evaluation'' | Some p \<Rightarrow> pec_name p);
          fallback = fallback_message (er_kind e)
      in case er_kind e of
           EK_arity_error \<Rightarrow>
             (case er_arity e of None \<Rightarrow> fallback | Some arity \<Rightarrow> arity_message primitive arity)
         | EK_type_mismatch \<Rightarrow> type_message primitive (er_argument_position e)
         | EK_shape_mismatch \<Rightarrow>
             (case er_shape e of
                None \<Rightarrow> fallback
              | Some shape \<Rightarrow> shape_message primitive (er_argument_position e) shape)
         | EK_resource_error \<Rightarrow>
             (case er_resource e of
                None \<Rightarrow> fallback
              | Some resource \<Rightarrow>
                  primitive @ '' resource request failed: ''
                  @ resource_reason_name (rx_reason resource))
         | EK_domain_error \<Rightarrow>
             (case er_domain e of
                None \<Rightarrow> fallback
              | Some domain \<Rightarrow> domain_message primitive (er_element_index e) domain)
         | _ \<Rightarrow> fallback)"

section \<open>Public errors\<close>

definition fill :: "'a option \<Rightarrow> 'a \<Rightarrow> 'a option" where
  "fill x y = (case x of None \<Rightarrow> Some y | Some _ \<Rightarrow> x)"

definition visible_span :: "rewrite_span \<Rightarrow> source_span option \<Rightarrow> source_span option" where
  "visible_span span old =
     (if rp_offset (rs_begin span) \<noteq> rp_offset (rs_end span)
      then Some (rewrite_source_span span) else old)"

text \<open>The spans of a diagnostic, where the error has none of its own.\<close>

definition complete_error :: "rewrite_evaluation_diagnostic \<Rightarrow> error \<Rightarrow> error" where
  "complete_error d e =
     e\<lparr>er_message := (if er_message e = [] \<and> er_static_message e = []
                      then semantic_error_message e else er_message e),
       er_primary_span := fill (er_primary_span e) (rewrite_source_span (ed_primary d)),
       er_context_span := fill (er_context_span e) (rewrite_source_span (ed_context d)),
       er_related_span := fill (er_related_span e) (rewrite_source_span (ed_related d)),
       er_primitive_span := visible_span (ed_primitive_name d) (er_primitive_span e),
       er_call_span := visible_span (ed_call d) (er_call_span e),
       er_operand_span := (if ed_has_operand d then Some (rewrite_source_span (ed_operand d))
                           else er_operand_span e),
       er_semantic_origins := er_semantic_origins e @ map rewrite_source_span (ed_arguments d)\<rparr>"

definition name_unknown ::
    "host_state \<Rightarrow> bytes \<Rightarrow> rewrite_evaluation_diagnostic \<Rightarrow> error \<Rightarrow> error \<times> host_state" where
  "name_unknown h source d e =
     (let name = source_at_span source (ed_primary d)
      in case make_primitive_error_context h name None of
           (context, h) \<Rightarrow>
             (e\<lparr>er_primitive := context, er_message := ''unknown primitive '' @ quoted name\<rparr>, h))"

definition parameter_header_error ::
    "parameter_error_reason \<Rightarrow> rewrite_evaluation_diagnostic \<Rightarrow> error" where
  "parameter_header_error reason d =
     (let declaration = reason = PR_duplicate_parameter_name \<or> reason = PR_reserved_parameter_name;
          span = rewrite_source_span
      in (make_error_message
            (if declaration then EK_invalid_parameter_declaration else EK_syntax_error)
            (rewrite_source_location (rs_begin (ed_primary d)))
            (if declaration then ''invalid parameter declaration''
             else ''invalid parameter header''))
           \<lparr>er_parameter := Some \<lparr>hx_reason = reason, hx_primary_span = span (ed_primary d),
                                  hx_context_span = span (ed_context d),
                                  hx_related_span = Some (span (ed_related d))\<rparr>,
            er_primary_span := Some (span (ed_primary d)),
            er_context_span := Some (span (ed_context d)),
            er_related_span := Some (span (ed_related d))\<rparr>)"

definition source_error ::
    "host_state \<Rightarrow> bytes \<Rightarrow> rewrite_evaluation_diagnostic \<Rightarrow> error \<times> host_state" where
  "source_error h source d =
     (let parse_error = rd_error (ed_rewrite d); span = rewrite_source_span;
          e = make_error_message (parse_error_kind parse_error)
                (rewrite_source_location (rs_begin (ed_primary d)))
                (parse_error_message parse_error)
      in case (if parse_error = PE_unknown_primitive
               then let name = source_at_span source (ed_primary d)
                    in case make_primitive_error_context h name None of
                         (context, h) \<Rightarrow>
                           (e\<lparr>er_primitive := context,
                              er_message := er_message e @ '' '' @ quoted name\<rparr>, h)
               else (e, h)) of
           (e, h) \<Rightarrow>
             (e\<lparr>er_primary_span := Some (span (ed_primary d)),
                er_context_span := Some (span (ed_context d)),
                er_related_span := Some (span (ed_related d))\<rparr>, h))"

definition value_text_error :: "rewrite_evaluation_diagnostic \<Rightarrow> error" where
  "value_text_error d =
     (let span = rewrite_source_span (ed_primary d)
      in (make_error_message EK_formatting_error
            (rewrite_source_location (rs_begin (ed_primary d)))
            ''evaluated value cannot be formatted canonically'')
           \<lparr>er_formatting := Some
              \<lparr>fx_reason = ed_formatting_error d,
               fx_root_position = ed_formatting_root_position d, fx_root_span = span,
               fx_invalid_value_invariant =
                 (if ed_formatting_error d = VF_invalid_value
                  then Some (ed_formatting_invariant d) else None)\<rparr>,
            er_primary_span := Some span\<rparr>)"

definition public_error_from_diagnostic ::
    "host_state \<Rightarrow> bytes \<Rightarrow> rewrite_evaluation_diagnostic \<Rightarrow> error \<times> host_state" where
  "public_error_from_diagnostic h source d =
     (let e = ed_error d
      in if er_kind e \<noteq> EK_none
         then (case (if er_kind e = EK_unknown_name \<and> er_primitive e = None
                     then name_unknown h source d e else (e, h)) of
                 (e, h) \<Rightarrow> (complete_error d e, h))
         else if ed_stage d = ES_parse \<or> ed_stage d = ES_resolution
         then (case rd_parameter_reason (ed_rewrite d) of
                 Some reason \<Rightarrow> (parameter_header_error reason d, h)
               | None \<Rightarrow> source_error h source d)
         else if ed_stage d = ES_formatting then (value_text_error d, h)
         else (make_error_message EK_invalid_primitive_table
                 (rewrite_source_location (rs_begin (ed_primary d)))
                 ''rewrite evaluation failed internally'', h))"

end
