(* ===== verification/Evaluation.thy ===== *)
theory Evaluation
  imports Evaluator PublicErrors
begin

text \<open>
  The entries of the evaluator (include/bennu/evaluator.hpp, src/runner\_arguments.hpp; the end of
  src/rewrite.cpp). Each evaluates a source under a configuration, turns a diagnostic into the
  error a caller sees, and closes the context before it returns: the values that are returned
  keep their charges, and a charge keeps the state of its context.
\<close>

record evaluation_configuration =
  cf_profile :: execution_profile
  cf_limits :: resource_limits
  cf_fail_at :: "nat option"

definition trusted_local_evaluation_configuration :: evaluation_configuration where
  "trusted_local_evaluation_configuration =
     \<lparr>cf_profile = EP_trusted_local_v2, cf_limits = no_limits, cf_fail_at = None\<rparr>"

definition creation_of :: "evaluation_configuration \<Rightarrow> rewrite_evaluation_creation" where
  "creation_of c = \<lparr>cr_profile = cf_profile c, cr_limits = cf_limits c, cr_fail_at = cf_fail_at c\<rparr>"

definition close_resources :: "resource_world \<Rightarrow> evaluation_resources \<Rightarrow> resource_world" where
  "close_resources w ev = snd (release_evaluation_resources w ev)"

text \<open>The result is released: its values first, then its context.\<close>

definition release_rewrite_evaluation_result ::
    "resource_world \<Rightarrow> rewrite_evaluation_result \<Rightarrow> resource_world option" where
  "release_rewrite_evaluation_result w r =
     map_option (\<lambda>(ev, w). close_resources w ev)
       (release_rewrite_values w (ve_resources r) (ve_values r))"

definition public_failure ::
    "resource_world \<Rightarrow> bytes \<Rightarrow> rewrite_evaluation_result \<Rightarrow> (error \<times> resource_world) option" where
  "public_failure w source r =
     (case public_error_from_diagnostic (rw_host w) source (ve_diagnostic r) of
        (e, h) \<Rightarrow>
          map_option (Pair e) (release_rewrite_evaluation_result (w\<lparr>rw_host := h\<rparr>) r))"

type_synonym 'a evaluated = "((error + 'a) \<times> resource_world) option"

definition evaluate_expression ::
    "double_digits \<Rightarrow> bytes \<Rightarrow> evaluation_configuration \<Rightarrow> resource_world \<Rightarrow> bennu_value evaluated"
where
  "evaluate_expression to_chars source configuration w =
     do {
       (r, w) \<leftarrow> evaluate_rewrite_source to_chars source (creation_of configuration) True
                   (ArgumentValues []) w;
       if \<not> ve_ok r
       then map_option (map_prod Inl id) (public_failure w source r)
       else case ve_values r of
         [v] \<Rightarrow> Some (Inr v, close_resources w (ve_resources r))
       | _ \<Rightarrow>
           map_option
             (Pair (Inl (make_error_message EK_invalid_primitive_table
                           (rewrite_source_location first_position)
                           ''single-expression evaluation produced an invalid root count'')))
             (release_rewrite_evaluation_result w r)
     }"

definition evaluate_source ::
    "double_digits \<Rightarrow> bytes \<Rightarrow> bennu_value list \<Rightarrow> evaluation_configuration \<Rightarrow> resource_world
      \<Rightarrow> bennu_value list evaluated" where
  "evaluate_source to_chars source arguments configuration w =
     do {
       (r, w) \<leftarrow> evaluate_rewrite_source to_chars source (creation_of configuration) False
                   (ArgumentValues arguments) w;
       if \<not> ve_ok r
       then map_option (map_prod Inl id) (public_failure w source r)
       else Some (Inr (ve_values r), close_resources w (ve_resources r))
     }"

definition evaluate_runner_source ::
    "double_digits \<Rightarrow> bytes \<Rightarrow> bytes list \<Rightarrow> resource_world
      \<Rightarrow> (bennu_value list \<times> string list) evaluated" where
  "evaluate_runner_source to_chars source arguments w =
     do {
       (r, w) \<leftarrow> evaluate_rewrite_source to_chars source
                   (creation_of trusted_local_evaluation_configuration) False
                   (ArgumentTexts arguments) w;
       if \<not> ve_ok r
       then map_option (map_prod Inl id) (public_failure w source r)
       else Some (Inr (ve_values r, ve_formatted r), close_resources w (ve_resources r))
     }"

text \<open>The values a runner received are destroyed one after the other; the list is emptied only
  when every one of them was.\<close>

fun destroy_each ::
    "resource_world \<Rightarrow> bennu_value list \<Rightarrow> ((bool \<times> bennu_value list) \<times> resource_world) option" where
  "destroy_each w [] = Some ((True, []), w)"
| "destroy_each w (v # vs) =
     do {
       ((report, left), w) \<leftarrow> destroy_value w v;
       ((destroyed, lefts), w) \<leftarrow> destroy_each w vs;
       Some ((vr_ok report \<and> destroyed, left # lefts), w)
     }"

definition destroy_runner_evaluation_result ::
    "resource_world \<Rightarrow> bennu_value list
      \<Rightarrow> ((bool \<times> bennu_value list) \<times> resource_world) option" where
  "destroy_runner_evaluation_result w values =
     map_option (\<lambda>((destroyed, lefts), w). ((destroyed, if destroyed then [] else lefts), w))
       (destroy_each w values)"

end
