(* ===== verification/Spec2Isabelle.thy ===== *)
theory Spec2Isabelle
  imports HostRegistry HostArray TypeOpsCorrect KernelsCorrect NumericLiterals LoweringExamples
    ResourceLimits ApplicationCorrect Evaluation
begin

text \<open>
  Verification of the implementation of Bennu, a small data-oriented language: scalars and
  homogeneous vectors of Bool, Int and Double, tuples, a fixed table of primitives, and
  programs that are lists of expressions. All paths below are relative to the repository.

  \<^bold>\<open>The program and its parts.\<close> A source text is divided into tokens, parsed into flat tables of
  nodes, calls and fanouts, and its names are resolved to primitives (\<open>src/rewrite.cpp\<close>). The
  primitives are a static table of signatures, with overload selection, scalar conversion and
  scalar kernels (\<open>src/primitive.cpp\<close>). Types are arenas of nodes allocated as host arrays
  (\<open>src/type.cpp\<close>), whose blocks are known to a global registry (\<open>src/host_storage.cpp\<close>,
  \<open>include/bennu/host_storage.hpp\<close>).

  \<^bold>\<open>Theories.\<close>
  \<^item> \<open>Prelude\<close>: reading a list at an index that may be out of range, updates, the first error of
    a list of checks, and the named collections of rules.
  \<^item> \<open>HostRegistry\<close> (\<open>src/host_storage.cpp\<close>): the allocation registry as buckets of records, each
    operation atomic; the interface \<open>keyed_store\<close> and its interpretation; the step relation of
    the registry, its reachable states and their invariant; a bound charge is refunded once.
  \<^item> \<open>HostArray\<close> (\<open>include/bennu/host_storage.hpp\<close>): arrays of a fixed capacity, allocation with
    failure injection and a size test that cannot wrap; the interface \<open>bounded_sequence\<close>.
  \<^item> \<open>TypeArena\<close>, \<open>TypeArenaCorrect\<close> (\<open>src/type.cpp\<close>): type arenas and their validator, an
    explicit-stack traversal; it terminates and accepts exactly the arenas that are trees.
  \<^item> \<open>TypeOps\<close>, \<open>TypeOpsCorrect\<close> (\<open>src/type.cpp\<close>): construction of tuples, copies, equality and
    formatting, related to an inductive type of structural types that arenas denote.
  \<^item> \<open>Binary64\<close> (\<open>src/primitive.cpp\<close>, \<open>src/value.cpp\<close>): IEEE 754 doubles as 64-bit words;
    correctly rounded conversion and arithmetic, comparison as comparison of numbers.
  \<^item> \<open>ErrorModel\<close> (\<open>include/bennu/error.hpp\<close>, \<open>src/error.cpp\<close>): scalar values, primitive
    identities, and errors with every context they carry.
  \<^item> \<open>Primitives\<close>, \<open>PrimitivesCorrect\<close> (\<open>src/primitive.cpp\<close>): the table, its validator, overload
    selection and conversion; the validator decides well-formedness, the selection is the unique
    cheapest signature.
  \<^item> \<open>Kernels\<close>, \<open>KernelsCorrect\<close> (\<open>src/primitive.cpp\<close>): the scalar kernels; signed overflow is
    undefined behaviour, the value None, and never reached. The interface \<open>checked_arithmetic\<close> has one
    interpretation per operation.
  \<^item> \<open>Tokenizer\<close>, \<open>TokenizerCorrect\<close> (\<open>src/rewrite.cpp\<close>, up to \<open>tokenize_rewrite\<close>): the tokenizer,
    its tokens as the maximal-munch lexemes of the source, whose spellings are the source.
  \<^item> \<open>NumericLiterals\<close>: integer literals as decimal notations, double literals as their decimal
    values rounded once, and the underflow test, which is not exact.
  \<^item> \<open>Parser\<close> (\<open>src/rewrite.cpp\<close>, up to \<open>parse_rewrite\<close>): the parser with its explicit stack of
    contexts and its linked pending arguments; an access outside a table is the value None.
  \<^item> \<open>ParserInvariant\<close>, \<open>ParserCorrect\<close>, \<open>ParserProperties\<close>: the invariant of the loop and its
    decreasing measure; the parser returns on every source, an accepted program satisfies
    \<open>rewrite_program_invariants_hold\<close>, and its fanouts have one placeholder in every branch.
  \<^item> \<open>Resolver\<close> (\<open>resolve_rewrite_primitives\<close>): resolution of names, with the first problem of the
    source, and the invariants it keeps.
  \<^item> \<open>Lowering\<close>, \<open>LoweringCorrect\<close>, \<open>LoweringProperties\<close> (\<open>lower_rewrite_program\<close>): use counts,
    arities, types with the implementation of every call, and shapes; the loop of the types with
    its invariant and the nodes it has typed, what lowering accepts and for which reason it refuses.
  \<^item> \<open>FrontEnd\<close> (\<open>evaluate_rewrite_source_impl\<close>, up to the lowered program): the checks on a source
    in their order. Its theorems span the tokenizer, the parser, resolution and lowering.
  \<^item> \<open>Profiles\<close>: execution profiles, their names and the limits each admits.
  \<^item> \<open>ResourceState\<close> (\<open>src/resources.cpp\<close>, \<open>include/bennu/resources.hpp\<close>): evaluation contexts,
    their registry and reference counts, and the synchronisation of a caller's record.
  \<^item> \<open>Values\<close> (\<open>src/value.cpp\<close>, \<open>include/bennu/value.hpp\<close>): values and their parts, and the
    validation of scalars and of vectors with their charges.
  \<^item> \<open>ValueTraversal\<close> (\<open>src/value.cpp\<close>): the validation of tuples, an explicit-stack traversal
    with its workspace; projections, accessors, and the types of values.
  \<^item> \<open>Resources\<close> (\<open>src/resources.cpp\<close>): admission of charges, and the allocation and release of
    vectors, workspaces and tuple tables.
  \<^item> \<open>ResourceAccounts\<close>, \<open>ResourcesCorrect\<close>, \<open>ResourceLimits\<close>: the accounts of all contexts
    against the registry of allocations, kept by every operation; the interfaces
    \<open>context_operation\<close> and \<open>refusing_operation\<close> of an operation under a context's lock, each
    interpreted on the operations of the code; the reachable worlds; the limits an admitted
    charge obeys, and what allocation, release and closing promise.
  \<^item> \<open>Application\<close>, \<open>ApplicationCorrect\<close> (\<open>src/application.cpp\<close>): the application of primitives
    to values; an elementwise primitive is its kernel at every index, the first overflow decides
    the error, and a failed application leaves no charge.
  \<^item> \<open>TupleRelease\<close>, \<open>TupleBuild\<close> (\<open>src/resources.cpp\<close>, \<open>src/value.cpp\<close>,
    \<open>src/preadmitted_tuple.hpp\<close>): the walk that destroys, releases or detaches a tuple, the
    construction of tuples from values, and the assemblies that fanouts fill slot by slot.
  \<^item> \<open>ValueFormatting\<close> (\<open>src/value.cpp\<close>): the text of values within its computed capacity.
  \<^item> \<open>Parameters\<close> (\<open>src/rewrite.cpp\<close>): the arguments of a program, as values or as texts.
  \<^item> \<open>Evaluator\<close> (\<open>src/rewrite.cpp\<close>, the second half of \<open>evaluate_rewrite_source_impl\<close>): the
    execution of the nodes in order, the uses that keep a value alive, and the release of what is
    held when an evaluation fails.
  \<^item> \<open>PublicErrors\<close>, \<open>Evaluation\<close> (\<open>src/rewrite.cpp\<close>, \<open>include/bennu/evaluator.hpp\<close>,
    \<open>src/runner_arguments.hpp\<close>): the errors a caller sees, and the entries of the library.
  \<^item> \<open>LoweringExamples\<close>: two programs on which the order of the phases of lowering shows.

  \<^bold>\<open>Modelling conventions.\<close> Structures are records, enumerations are datatypes, std::size_t is nat
  where the code does not rely on wrap-around and the sizes are bounded by a source held in memory
  (a test against overflow is written as in the code, with \<open>size_max\<close>); Int values are 64-bit
  words read as signed integers; doubles are their 64-bit patterns. Loops over a table are folds
  or structural recursions; the loops of the validator, of equality and of formatting carry fuel
  computed from the sizes of the arena, which the termination lemmas show to be enough (every
  popped node is marked, or its work is removed from the stack). The loop of the parser is a
  partial function; that it always returns is a property. Memory allocation is an oracle in the
  state, so every allocation can fail.

  \<^bold>\<open>Not modelled.\<close> The entry of the repository's tests that supplies a prepared program with its
  values, and the operations only it can bring about; \<open>execute_tuple_construction\<close>, which nothing
  calls. The digits of a finite double are a parameter of the formatting. Each operation on a
  context is atomic: its lock is held from the first read of the context to the last write, and
  the observers of lifetimes, called with the lock released, are left out. The C emitter and the
  text of its runtime, the native builder, files, streams and exit codes, and the conversion of
  paths are input and output or generate code outside the program. The control word of the
  floating-point unit and the locale object of one build variant are abstracted to the rounding
  they install.
\<close>

end
